(* ===== verification/Prelude.thy ===== *)
theory Prelude
  imports Main "HOL-Library.Word" "HOL-Library.Monad_Syntax"
begin

text \<open>
  Shared vocabulary of the development: the names of Rust's machine integers, the
  reading of panics, and the generic facts on lists, maps, rounding and words that the
  component theories use.

  Conventions.  A \<open>panic\<close> of the Rust code (a failed \<open>assert!\<close>, an \<open>unwrap\<close> of \<open>None\<close>,
  an index out of range) is the value \<open>None\<close> of an \<open>'a option\<close>; a Rust function that itself
  returns an \<open>Option\<close> and can panic has type \<open>'a option option\<close>.  A \<open>Result\<close> is a sum whose
  left injection is the error.  \<open>usize\<close> values are \<open>nat\<close>, \<open>isize\<close> values are \<open>int\<close>; \<open>u32\<close>,
  \<open>u64\<close>, \<open>i32\<close> and \<open>i64\<close> values whose wrap-around matters are words (signed ones are read
  by \<open>sint\<close>).
\<close>

type_synonym u8 = "8 word"
type_synonym u32 = "32 word"
type_synonym u64 = "64 word"
type_synonym i32 = "32 word"
type_synonym i64 = "64 word"

named_theorems word_facts \<open>rewrites on bit operations shared by the integer models\<close>

section \<open>Options\<close>

text \<open>An \<open>assert!\<close>: it panics when the condition fails.\<close>

definition rust_assert :: "bool \<Rightarrow> unit option" where
  "rust_assert b = (if b then Some () else None)"

lemma rust_assert_simps [simp]:
  "rust_assert True = Some ()" "rust_assert False = None"
  by (simp_all add: rust_assert_def)

lemma rust_assert_eq_Some [simp]: "rust_assert b = Some u \<longleftrightarrow> b"
  by (simp add: rust_assert_def)

lemma rust_assert_bind_Some [simp]:
  "(rust_assert b \<bind> f = Some y) \<longleftrightarrow> b \<and> f () = Some y"
  by (cases b) auto

text \<open>Running a fallible operation over a list, left to right, stopping at the first panic.\<close>

fun mapM_opt :: "('a \<Rightarrow> 'b option) \<Rightarrow> 'a list \<Rightarrow> 'b list option" where
  "mapM_opt f [] = Some []"
| "mapM_opt f (x # xs) = do { y \<leftarrow> f x; ys \<leftarrow> mapM_opt f xs; Some (y # ys) }"

lemma mapM_opt_Some_iff:
  "mapM_opt f xs = Some ys \<longleftrightarrow> list_all2 (\<lambda>x y. f x = Some y) xs ys"
proof (induction xs arbitrary: ys)
  case Nil
  show ?case by auto
next
  case (Cons x xs)
  show ?case
    by (simp only: mapM_opt.simps Option.bind_eq_Some_conv Cons.IH) (auto simp: list_all2_Cons1)
qed

lemma mapM_opt_cong [fundef_cong]:
  "xs = ys \<Longrightarrow> (\<And>x. x \<in> set ys \<Longrightarrow> f x = g x) \<Longrightarrow> mapM_opt f xs = mapM_opt g ys"
proof (induction ys arbitrary: xs)
  case Nil
  then show ?case by simp
next
  case (Cons y ys)
  then show ?case by (cases xs) (auto intro!: Option.bind_cong)
qed

section \<open>Rounding up to a multiple\<close>

text \<open>\<open>usize::next_multiple_of\<close> and \<open>u32::next_multiple_of\<close>; the divisor 0 panics in Rust,
  and every caller below passes a positive one.\<close>

definition next_multiple_of :: "nat \<Rightarrow> nat \<Rightarrow> nat" where
  "next_multiple_of n a = (if n mod a = 0 then n else n + (a - n mod a))"

lemma next_multiple_of_ge: "n \<le> next_multiple_of n a"
  by (simp add: next_multiple_of_def)

lemma next_multiple_of_less: "0 < a \<Longrightarrow> next_multiple_of n a < n + a"
  by (auto simp: next_multiple_of_def)

lemma next_multiple_of_eq:
  assumes pos: "0 < a"
  shows "next_multiple_of n a = a * ((n + a - 1) div a)"
proof -
  define q where "q = n div a"
  define r where "r = n mod a"
  have n: "n = a * q + r" by (simp add: q_def r_def)
  have r: "r < a" using pos by (simp add: r_def)
  show ?thesis
  proof (cases "r = 0")
    case True
    have "(n + a - 1) div a = q"
      by (rule div_nat_eqI) (use n r pos True in auto)
    moreover have "next_multiple_of n a = n" using True by (simp add: next_multiple_of_def r_def)
    moreover have "n = a * q" using n True by linarith
    ultimately show ?thesis by metis
  next
    case False
    have "(n + a - 1) div a = Suc q"
      by (rule div_nat_eqI) (use n r pos False in auto)
    moreover have "n + (a - r) = a * Suc q" using n r by simp
    moreover have "next_multiple_of n a = n + (a - r)"
      using False by (simp add: next_multiple_of_def r_def)
    ultimately show ?thesis by simp
  qed
qed

lemma next_multiple_of_dvd [simp]: "0 < a \<Longrightarrow> a dvd next_multiple_of n a"
  by (simp add: next_multiple_of_eq)

lemma next_multiple_of_id: "a dvd n \<Longrightarrow> next_multiple_of n a = n"
  by (auto simp: next_multiple_of_def)

lemma next_multiple_of_one [simp]: "next_multiple_of n (Suc 0) = n"
  by (simp add: next_multiple_of_def)

text \<open>It is the least multiple that is not below the argument.\<close>

lemma next_multiple_of_least:
  assumes "a dvd m" and "n \<le> m"
  shows "next_multiple_of n a \<le> m"
proof (cases "a = 0")
  case True
  with assms show ?thesis by (simp add: next_multiple_of_def)
next
  case False
  show ?thesis
  proof (rule ccontr)
    assume "\<not> ?thesis"
    then have lt: "m < next_multiple_of n a" by simp
    obtain k where k: "m = a * k" using assms(1) by blast
    obtain j where j: "next_multiple_of n a = a * j"
      using False next_multiple_of_eq [of a n] by blast
    from lt k j have "k < j" by simp
    then have "a * k + a \<le> a * j"
      by (metis Suc_leI add.commute mult_Suc_right mult_le_mono2)
    with k j next_multiple_of_less [of a n] False assms(2) show False by linarith
  qed
qed

section \<open>Words\<close>

lemma mask_eq_push_bit_minus_1 [word_facts]:
  "push_bit n (1 :: 'a::len word) - 1 = mask n"
  by (simp add: mask_eq_decr_exp)

text \<open>Addition of two \<open>i32\<close>: an overflow panics in the dev profile.\<close>

definition i32_add :: "i32 \<Rightarrow> i32 \<Rightarrow> i32 option" where
  "i32_add x y = (if sint (x + y) = sint x + sint y then Some (x + y) else None)"

lemma sint_i32_of_int:
  "-2147483648 \<le> k \<Longrightarrow> k \<le> 2147483647 \<Longrightarrow> sint (word_of_int k :: i32) = k"
  by (simp add: sint_sbintrunc' signed_take_bit_int_eq_self)

lemma i32_add_Some:
  assumes "i32_add x y = Some z"
  shows "z = x + y" "sint z = sint x + sint y"
  using assms by (auto simp: i32_add_def split: if_splits)

lemma i32_add_in_range:
  assumes "-2147483648 \<le> sint x + sint y" "sint x + sint y \<le> 2147483647"
  shows "i32_add x y = Some (x + y)"
proof -
  have "x + y = word_of_int (sint x + sint y)" by simp
  then have "sint (x + y) = sint x + sint y" using sint_i32_of_int assms by metis
  then show ?thesis by (simp add: i32_add_def)
qed

end
