(* ===== verification/Core_Int.thy ===== *)
theory Core_Int
  imports Prelude
begin

unbundle bit_operations_syntax

text \<open>
  The fixed-width integers of the IR (\<open>src/src/ir/core_int.rs\<close>): a \<open>u64\<close> payload and a
  bit width in 1..=64.  Every constant of the IR is one of these and every constant folder
  computes on them.  The operations are translated one by one; \<open>None\<close> is a panic (the two
  \<open>assert!\<close>s), and the checked operations return an \<open>option\<close> inside.

  The lemmas relate the bit-level code to arithmetic: the payload always fits its width, the
  wrapping operations are arithmetic modulo \<open>2 ^ width\<close>, the signed reading is the two's
  complement one, and extension is undone by truncation.
\<close>

section \<open>The type and its constructors\<close>

record core_int =
  ci_value :: u64
  bit_width :: nat

text \<open>\<open>(1u64 << bit_width) - 1\<close>, or all ones from width 64 on.\<close>

definition mask_for :: "nat \<Rightarrow> u64" where
  "mask_for bw = (if 64 \<le> bw then - 1 else push_bit bw 1 - 1)"

definition ci_new :: "u64 \<Rightarrow> nat \<Rightarrow> core_int option" where
  "ci_new v bw = do {
     rust_assert (1 \<le> bw \<and> bw \<le> 64);
     Some \<lparr>ci_value = v AND mask_for bw, bit_width = bw\<rparr>
   }"

definition ci_mask :: "core_int \<Rightarrow> u64" where
  "ci_mask c = mask_for (bit_width c)"

text \<open>\<open>value as u64\<close> reads the same 64 bits, so the signed constructor is \<open>ci_new\<close>.\<close>

definition from_signed :: "i64 \<Rightarrow> nat \<Rightarrow> core_int option" where
  "from_signed v bw = ci_new v bw"

definition as_u64 :: "core_int \<Rightarrow> u64" where
  "as_u64 c = ci_value c"

definition as_i64_raw :: "core_int \<Rightarrow> i64" where
  "as_i64_raw c =
     (if bit_width c = 64 then ci_value c
      else let sign_mask = push_bit (bit_width c - 1) 1 in
        if ci_value c AND sign_mask \<noteq> 0 then ci_value c OR NOT (ci_mask c)
        else ci_value c)"

text \<open>One-bit integers are read unsigned.\<close>

definition as_i64 :: "core_int \<Rightarrow> i64" where
  "as_i64 c = (if bit_width c = 1 then ci_value c else as_i64_raw c)"

definition trunc_to :: "core_int \<Rightarrow> nat \<Rightarrow> core_int option" where
  "trunc_to c nbw = do { rust_assert (nbw \<le> bit_width c); ci_new (ci_value c) nbw }"

definition zero_extend :: "core_int \<Rightarrow> nat \<Rightarrow> core_int option" where
  "zero_extend c nbw = do { rust_assert (bit_width c \<le> nbw); ci_new (ci_value c) nbw }"

definition sign_extend :: "core_int \<Rightarrow> nat \<Rightarrow> core_int option" where
  "sign_extend c nbw = do {
     rust_assert (bit_width c \<le> nbw);
     if nbw = bit_width c then Some c
     else let sign_set = (drop_bit (bit_width c - 1) (ci_value c) AND 1 = 1);
              new_value = (if sign_set then ci_value c OR NOT (ci_mask c) else ci_value c)
          in ci_new new_value nbw
   }"

definition assert_same_bit_width :: "core_int \<Rightarrow> core_int \<Rightarrow> unit option" where
  "assert_same_bit_width a b = rust_assert (bit_width a = bit_width b)"

section \<open>Arithmetic\<close>

definition wrapping_add :: "core_int \<Rightarrow> core_int \<Rightarrow> core_int option" where
  "wrapping_add a b = do {
     assert_same_bit_width a b; ci_new (ci_value a + ci_value b) (bit_width a) }"

definition wrapping_sub :: "core_int \<Rightarrow> core_int \<Rightarrow> core_int option" where
  "wrapping_sub a b = do {
     assert_same_bit_width a b; ci_new (ci_value a - ci_value b) (bit_width a) }"

definition wrapping_mul :: "core_int \<Rightarrow> core_int \<Rightarrow> core_int option" where
  "wrapping_mul a b = do {
     assert_same_bit_width a b; ci_new (ci_value a * ci_value b) (bit_width a) }"

text \<open>\<open>u64::checked_div\<close> and \<open>u64::checked_rem\<close>: \<open>None\<close> on a zero divisor.\<close>

definition u64_checked_div :: "u64 \<Rightarrow> u64 \<Rightarrow> u64 option" where
  "u64_checked_div a b = (if b = 0 then None else Some (a div b))"

definition u64_checked_rem :: "u64 \<Rightarrow> u64 \<Rightarrow> u64 option" where
  "u64_checked_rem a b = (if b = 0 then None else Some (a mod b))"

text \<open>Rust's signed division truncates towards zero, and the remainder takes the sign of the
  dividend; \<open>i64::checked_div\<close> also refuses the one overflowing quotient.\<close>

definition tdiv :: "int \<Rightarrow> int \<Rightarrow> int" where
  "tdiv a b = sgn a * sgn b * (\<bar>a\<bar> div \<bar>b\<bar>)"

definition trem :: "int \<Rightarrow> int \<Rightarrow> int" where
  "trem a b = a - b * tdiv a b"

definition i64_checked_div :: "i64 \<Rightarrow> i64 \<Rightarrow> i64 option" where
  "i64_checked_div a b =
     (if b = 0 \<or> (sint a = - (2 ^ 63) \<and> sint b = - 1) then None
      else Some (word_of_int (tdiv (sint a) (sint b))))"

definition i64_checked_rem :: "i64 \<Rightarrow> i64 \<Rightarrow> i64 option" where
  "i64_checked_rem a b =
     (if b = 0 \<or> (sint a = - (2 ^ 63) \<and> sint b = - 1) then None
      else Some (word_of_int (trem (sint a) (sint b))))"

text \<open>\<open>.map(|value| Self::new(value, self.bit_width))\<close> on an optional payload.\<close>

definition ci_map_new :: "u64 option \<Rightarrow> nat \<Rightarrow> core_int option option" where
  "ci_map_new r bw =
     (case r of None \<Rightarrow> Some None | Some v \<Rightarrow> map_option Some (ci_new v bw))"

definition checked_udiv :: "core_int \<Rightarrow> core_int \<Rightarrow> core_int option option" where
  "checked_udiv a b = do {
     assert_same_bit_width a b;
     ci_map_new (u64_checked_div (ci_value a) (ci_value b)) (bit_width a) }"

definition checked_sdiv :: "core_int \<Rightarrow> core_int \<Rightarrow> core_int option option" where
  "checked_sdiv a b = do {
     assert_same_bit_width a b;
     ci_map_new (i64_checked_div (as_i64 a) (as_i64 b)) (bit_width a) }"

definition checked_urem :: "core_int \<Rightarrow> core_int \<Rightarrow> core_int option option" where
  "checked_urem a b = do {
     assert_same_bit_width a b;
     ci_map_new (u64_checked_rem (ci_value a) (ci_value b)) (bit_width a) }"

definition checked_srem :: "core_int \<Rightarrow> core_int \<Rightarrow> core_int option option" where
  "checked_srem a b = do {
     assert_same_bit_width a b;
     ci_map_new (i64_checked_rem (as_i64 a) (as_i64 b)) (bit_width a) }"

section \<open>Shifts and bit operations\<close>

text \<open>\<open>wrapping_shl(rhs.value as u32)\<close> masks the shift amount to six bits; the guard above
  it makes the mask the identity.\<close>

definition shift_amount :: "u64 \<Rightarrow> nat" where
  "shift_amount v = unat (v AND 63)"

definition checked_shl :: "core_int \<Rightarrow> core_int \<Rightarrow> core_int option option" where
  "checked_shl a b = do {
     assert_same_bit_width a b;
     if of_nat (bit_width a) \<le> ci_value b then Some None
     else map_option Some (ci_new (push_bit (shift_amount (ci_value b)) (ci_value a)) (bit_width a)) }"

definition checked_lshr :: "core_int \<Rightarrow> core_int \<Rightarrow> core_int option option" where
  "checked_lshr a b = do {
     assert_same_bit_width a b;
     if of_nat (bit_width a) \<le> ci_value b then Some None
     else map_option Some (ci_new (drop_bit (shift_amount (ci_value b)) (ci_value a)) (bit_width a)) }"

definition checked_ashr :: "core_int \<Rightarrow> core_int \<Rightarrow> core_int option option" where
  "checked_ashr a b = do {
     assert_same_bit_width a b;
     if of_nat (bit_width a) \<le> ci_value b then Some None
     else map_option Some
       (from_signed (signed_drop_bit (shift_amount (ci_value b)) (as_i64 a)) (bit_width a)) }"

definition ci_bitand :: "core_int \<Rightarrow> core_int \<Rightarrow> core_int option" where
  "ci_bitand a b = do {
     assert_same_bit_width a b; ci_new (ci_value a AND ci_value b) (bit_width a) }"

definition ci_bitor :: "core_int \<Rightarrow> core_int \<Rightarrow> core_int option" where
  "ci_bitor a b = do {
     assert_same_bit_width a b; ci_new (ci_value a OR ci_value b) (bit_width a) }"

definition ci_bitxor :: "core_int \<Rightarrow> core_int \<Rightarrow> core_int option" where
  "ci_bitxor a b = do {
     assert_same_bit_width a b; ci_new (ci_value a XOR ci_value b) (bit_width a) }"

section \<open>Comparisons\<close>

definition cmp_eq :: "core_int \<Rightarrow> core_int \<Rightarrow> bool option" where
  "cmp_eq a b = do { assert_same_bit_width a b; Some (ci_value a = ci_value b) }"

definition cmp_ne :: "core_int \<Rightarrow> core_int \<Rightarrow> bool option" where
  "cmp_ne a b = map_option Not (cmp_eq a b)"

definition cmp_ugt :: "core_int \<Rightarrow> core_int \<Rightarrow> bool option" where
  "cmp_ugt a b = do { assert_same_bit_width a b; Some (ci_value a > ci_value b) }"

definition cmp_uge :: "core_int \<Rightarrow> core_int \<Rightarrow> bool option" where
  "cmp_uge a b = do { assert_same_bit_width a b; Some (ci_value a \<ge> ci_value b) }"

definition cmp_ult :: "core_int \<Rightarrow> core_int \<Rightarrow> bool option" where
  "cmp_ult a b = do { assert_same_bit_width a b; Some (ci_value a < ci_value b) }"

definition cmp_ule :: "core_int \<Rightarrow> core_int \<Rightarrow> bool option" where
  "cmp_ule a b = do { assert_same_bit_width a b; Some (ci_value a \<le> ci_value b) }"

definition cmp_sgt :: "core_int \<Rightarrow> core_int \<Rightarrow> bool option" where
  "cmp_sgt a b = do { assert_same_bit_width a b; Some (sint (as_i64 a) > sint (as_i64 b)) }"

definition cmp_sge :: "core_int \<Rightarrow> core_int \<Rightarrow> bool option" where
  "cmp_sge a b = do { assert_same_bit_width a b; Some (sint (as_i64 a) \<ge> sint (as_i64 b)) }"

definition cmp_slt :: "core_int \<Rightarrow> core_int \<Rightarrow> bool option" where
  "cmp_slt a b = do { assert_same_bit_width a b; Some (sint (as_i64 a) < sint (as_i64 b)) }"

definition cmp_sle :: "core_int \<Rightarrow> core_int \<Rightarrow> bool option" where
  "cmp_sle a b = do { assert_same_bit_width a b; Some (sint (as_i64 a) \<le> sint (as_i64 b)) }"

definition to_const_i64 :: "core_int \<Rightarrow> i64" where
  "to_const_i64 c = as_i64 c"


section \<open>The payload fits the width\<close>

definition ci_wf :: "core_int \<Rightarrow> bool" where
  "ci_wf c \<longleftrightarrow> 1 \<le> bit_width c \<and> bit_width c \<le> 64 \<and>
     take_bit (bit_width c) (ci_value c) = ci_value c"

text \<open>The two readings of a well-formed integer.\<close>

definition ci_unsigned :: "core_int \<Rightarrow> int" where
  "ci_unsigned c = uint (ci_value c)"

definition ci_signed :: "core_int \<Rightarrow> int" where
  "ci_signed c = signed_take_bit (bit_width c - 1) (uint (ci_value c))"

lemma mask_for_eq_mask [word_facts]: "mask_for bw = mask bw"
proof (cases "64 \<le> bw")
  case True
  then show ?thesis by (auto simp: mask_for_def bit_simps intro!: bit_word_eqI)
next
  case False
  then show ?thesis by (simp add: mask_for_def mask_eq_push_bit_minus_1 del: push_bit_of_1)
qed

lemma ci_new_Some:
  "1 \<le> bw \<Longrightarrow> bw \<le> 64 \<Longrightarrow> ci_new v bw = Some \<lparr>ci_value = take_bit bw v, bit_width = bw\<rparr>"
  by (simp add: ci_new_def mask_for_eq_mask take_bit_eq_mask)

lemma ci_new_wf: "ci_new v bw = Some c \<Longrightarrow> ci_wf c \<and> bit_width c = bw"
  by (auto simp: ci_new_def ci_wf_def mask_for_eq_mask simp flip: take_bit_eq_mask)

lemma from_signed_wf: "from_signed v bw = Some c \<Longrightarrow> ci_wf c \<and> bit_width c = bw"
  by (simp add: from_signed_def ci_new_wf)

lemma ci_map_new_wf: "ci_map_new r bw = Some (Some c) \<Longrightarrow> ci_wf c \<and> bit_width c = bw"
  by (auto simp: ci_map_new_def ci_new_wf split: option.splits)

lemma ci_wf_uint_less: "ci_wf c \<Longrightarrow> uint (ci_value c) < 2 ^ bit_width c"
proof -
  assume "ci_wf c"
  then have "uint (ci_value c) = take_bit (bit_width c) (uint (ci_value c))"
    by (metis ci_wf_def unsigned_take_bit_eq)
  then show ?thesis by (metis take_bit_int_less_exp)
qed

lemma assert_same_bit_width_bind [simp]:
  "assert_same_bit_width a b \<bind> f = Some c \<longleftrightarrow> bit_width a = bit_width b \<and> f () = Some c"
  by (simp add: assert_same_bit_width_def)

lemma assert_same_bit_width_same: "bit_width a = bit_width b \<Longrightarrow> assert_same_bit_width a b = Some ()"
  by (simp add: assert_same_bit_width_def)

lemmas wrapping_defs = wrapping_add_def wrapping_sub_def wrapping_mul_def
  ci_bitand_def ci_bitor_def ci_bitxor_def

lemmas checked_defs = checked_udiv_def checked_sdiv_def checked_urem_def checked_srem_def
  checked_shl_def checked_lshr_def checked_ashr_def

lemma wrapping_ops_wf:
  "f \<in> {wrapping_add, wrapping_sub, wrapping_mul, ci_bitand, ci_bitor, ci_bitxor} \<Longrightarrow>
   f a b = Some c \<Longrightarrow> ci_wf c \<and> bit_width c = bit_width a"
  by (auto simp: wrapping_defs dest!: ci_new_wf)

lemma checked_ops_wf:
  "f \<in> {checked_udiv, checked_sdiv, checked_urem, checked_srem, checked_shl, checked_lshr,
      checked_ashr} \<Longrightarrow>
   f a b = Some (Some c) \<Longrightarrow> ci_wf c \<and> bit_width c = bit_width a"
  by (auto simp: checked_defs dest!: ci_new_wf from_signed_wf ci_map_new_wf split: if_splits)

lemma conversions_wf:
  "trunc_to a n = Some c \<Longrightarrow> ci_wf c \<and> bit_width c = n"
  "zero_extend a n = Some c \<Longrightarrow> ci_wf c \<and> bit_width c = n"
  "ci_wf a \<Longrightarrow> sign_extend a n = Some c \<Longrightarrow> ci_wf c \<and> bit_width c = n"
  by (auto simp: trunc_to_def zero_extend_def sign_extend_def Let_def
      dest!: ci_new_wf split: if_splits)

section \<open>Arithmetic modulo a power of two\<close>

lemma take_bit_uint_add:
  fixes x y :: "64 word"
  assumes "n \<le> 64"
  shows "uint (take_bit n (x + y)) = (uint x + uint y) mod 2 ^ n"
    and "uint (take_bit n (x - y)) = (uint x - uint y) mod 2 ^ n"
    and "uint (take_bit n (x * y)) = (uint x * uint y) mod 2 ^ n"
  using assms
  by (simp_all add: unsigned_take_bit_eq take_bit_eq_mod [symmetric]
      uint_word_ariths [folded take_bit_eq_mod] min_def)

lemma wrapping_arith_mod:
  assumes "ci_wf a" and "bit_width b = bit_width a"
  shows "map_option ci_unsigned (wrapping_add a b) =
      Some ((ci_unsigned a + ci_unsigned b) mod 2 ^ bit_width a)"
    and "map_option ci_unsigned (wrapping_sub a b) =
      Some ((ci_unsigned a - ci_unsigned b) mod 2 ^ bit_width a)"
    and "map_option ci_unsigned (wrapping_mul a b) =
      Some ((ci_unsigned a * ci_unsigned b) mod 2 ^ bit_width a)"
  using assms
  by (simp_all add: wrapping_defs assert_same_bit_width_same ci_wf_def ci_new_Some
      ci_unsigned_def take_bit_uint_add)

section \<open>The signed reading\<close>

lemma and_push_bit_1_neq_0: "x AND push_bit n 1 \<noteq> 0 \<longleftrightarrow> bit x n" for x :: "64 word"
  by (simp add: and_exp_eq_0_iff_not_bit)

lemma drop_bit_and_1: "drop_bit n x AND 1 = 1 \<longleftrightarrow> bit x n" for x :: "64 word"
  by (simp add: and_one_eq mod_2_eq_odd bit_iff_odd_drop_bit)

lemma ci_wf_bit_less: "ci_wf c \<Longrightarrow> bit (ci_value c) k \<Longrightarrow> k < bit_width c"
  by (metis bit_take_bit_iff ci_wf_def)

lemma as_i64_raw_eq:
  assumes wf: "ci_wf c"
  shows "as_i64_raw c = signed_take_bit (bit_width c - 1) (ci_value c)"
proof (rule bit_word_eqI)
  fix m assume m: "m < LENGTH(64)"
  let ?n = "bit_width c" and ?v = "ci_value c"
  have n: "1 \<le> ?n" "?n \<le> 64" using wf by (auto simp: ci_wf_def)
  have rhs: "bit (signed_take_bit (?n - 1) ?v) m \<longleftrightarrow> (if m < ?n then bit ?v m else bit ?v (?n - 1))"
    using m n by (auto simp: bit_simps min_def dest: le_antisym)
  show "bit (as_i64_raw c) m = bit (signed_take_bit (?n - 1) ?v) m"
  proof (cases "?n = 64")
    case True
    with m rhs show ?thesis by (simp add: as_i64_raw_def)
  next
    case False
    then have "as_i64_raw c = (if bit ?v (?n - 1) then ?v OR NOT (mask ?n) else ?v)"
      using n by (simp add: as_i64_raw_def and_exp_eq_0_iff_not_bit ci_mask_def mask_for_eq_mask)
    then have "bit (as_i64_raw c) m \<longleftrightarrow> (if m < ?n then bit ?v m else bit ?v (?n - 1))"
      using m n ci_wf_bit_less [OF wf, of m] by (auto simp: bit_simps)
    with rhs show ?thesis by simp
  qed
qed

lemma sint_signed_take_bit_word:
  "n < 64 \<Longrightarrow> sint (signed_take_bit n x) = signed_take_bit n (uint x)" for x :: "64 word"
  by (rule bit_eqI) (auto simp: bit_sint_iff bit_simps bit_signed_take_bit_iff min_def bit_uint_iff)

text \<open>\<open>as_i64_raw\<close> is the two's complement reading of the payload at its width.\<close>

lemma sint_as_i64_raw:
  assumes "ci_wf c"
  shows "sint (as_i64_raw c) = ci_signed c"
proof -
  have "bit_width c - 1 < 64" using assms by (auto simp: ci_wf_def)
  with assms show ?thesis
    by (simp only: as_i64_raw_eq sint_signed_take_bit_word ci_signed_def)
qed

lemma sint_as_i64: "ci_wf c \<Longrightarrow> bit_width c \<noteq> 1 \<Longrightarrow> sint (as_i64 c) = ci_signed c"
  by (simp add: as_i64_def sint_as_i64_raw)

lemma sint_as_i64_bool:
  assumes "ci_wf c" and "bit_width c = 1"
  shows "sint (as_i64 c) = ci_unsigned c"
proof -
  from assms have "uint (ci_value c) < 2" using ci_wf_uint_less by fastforce
  then have "sint (ci_value c) = uint (ci_value c)"
    by (simp add: sint_uint signed_take_bit_int_eq_self_iff)
       (use uint_ge_0 [of "ci_value c"] in linarith)
  with assms show ?thesis by (simp add: as_i64_def ci_unsigned_def)
qed

lemma ci_signed_range:
  assumes "ci_wf c"
  shows "- (2 ^ (bit_width c - 1)) \<le> ci_signed c" and "ci_signed c < 2 ^ (bit_width c - 1)"
  by (simp_all add: ci_signed_def signed_take_bit_int_greater_eq_minus_exp signed_take_bit_int_less_exp)

lemma ci_signed_mod: "ci_wf c \<Longrightarrow> ci_signed c mod 2 ^ bit_width c = ci_unsigned c"
proof -
  assume wf: "ci_wf c"
  have "take_bit (bit_width c) (ci_signed c) = take_bit (bit_width c) (uint (ci_value c))"
    using wf by (simp add: ci_signed_def ci_wf_def take_bit_signed_take_bit)
  also have "\<dots> = uint (ci_value c)"
    using ci_wf_uint_less [OF wf] by (simp add: take_bit_int_eq_self)
  finally show ?thesis by (simp add: take_bit_eq_mod ci_unsigned_def)
qed

section \<open>Extension and truncation\<close>

lemma sign_extend_value:
  assumes wf: "ci_wf c" and w: "bit_width c \<le> w" "w \<le> 64"
  shows "sign_extend c w =
     Some \<lparr>ci_value = take_bit w (signed_take_bit (bit_width c - 1) (ci_value c)), bit_width = w\<rparr>"
proof (cases "w = bit_width c")
  case True
  have "take_bit (bit_width c) (signed_take_bit (bit_width c - 1) (ci_value c)) = ci_value c"
    using wf by (simp add: ci_wf_def take_bit_signed_take_bit)
  with True show ?thesis by (simp add: sign_extend_def)
next
  case False
  have "(if drop_bit (bit_width c - 1) (ci_value c) AND 1 = 1
      then ci_value c OR NOT (ci_mask c) else ci_value c) = as_i64_raw c"
    using False wf w
    by (simp only: drop_bit_and_1) (simp add: as_i64_raw_def and_exp_eq_0_iff_not_bit ci_wf_def)
  with False wf w show ?thesis
    by (simp add: sign_extend_def Let_def ci_new_Some ci_wf_def as_i64_raw_eq [OF wf])
qed

lemma sign_extend_correct:
  assumes wf: "ci_wf c" and w: "bit_width c \<le> w" "w \<le> 64"
  shows "\<exists>c'. sign_extend c w = Some c' \<and> ci_wf c' \<and> bit_width c' = w \<and>
     ci_signed c' = ci_signed c \<and> trunc_to c' (bit_width c) = Some c"
proof -
  let ?n = "bit_width c"
  let ?c' = "\<lparr>ci_value = take_bit w (signed_take_bit (?n - 1) (ci_value c)), bit_width = w\<rparr>"
  have n: "1 \<le> ?n" "?n \<le> 64" using wf by (auto simp: ci_wf_def)
  have v: "sign_extend c w = Some ?c'" by (rule sign_extend_value [OF wf w])
  have "ci_signed ?c' = ci_signed c"
  proof (rule bit_eqI)
    fix m
    show "bit (ci_signed ?c') m \<longleftrightarrow> bit (ci_signed c) m"
      using n w
      by (simp add: ci_signed_def bit_signed_take_bit_iff bit_uint_iff bit_take_bit_iff min_def) auto
  qed
  moreover have "trunc_to ?c' ?n = Some c"
  proof -
    have "take_bit ?n (take_bit w (signed_take_bit (?n - 1) (ci_value c))) = ci_value c"
      using wf w n by (simp add: take_bit_signed_take_bit ci_wf_def min_def)
    with n w show ?thesis by (simp add: trunc_to_def ci_new_Some)
  qed
  moreover have "ci_wf ?c'" using n w by (simp add: ci_wf_def)
  ultimately show ?thesis using v by simp
qed

lemma zero_extend_correct:
  assumes wf: "ci_wf c" and w: "bit_width c \<le> w" "w \<le> 64"
  shows "\<exists>c'. zero_extend c w = Some c' \<and> ci_wf c' \<and> ci_unsigned c' = ci_unsigned c \<and>
     trunc_to c' (bit_width c) = Some c"
proof -
  let ?c' = "\<lparr>ci_value = ci_value c, bit_width = w\<rparr>"
  have n: "1 \<le> bit_width c" and v: "take_bit (bit_width c) (ci_value c) = ci_value c"
    using wf by (auto simp: ci_wf_def)
  have tb: "take_bit w (ci_value c) = ci_value c"
    using v w(1) by (metis min.absorb2 take_bit_take_bit)
  have "zero_extend c w = Some ?c'"
    using n w tb by (simp add: zero_extend_def ci_new_Some)
  moreover have "ci_wf ?c'" using n w tb by (simp add: ci_wf_def)
  moreover have "trunc_to ?c' (bit_width c) = Some c"
    using n w v by (simp add: trunc_to_def ci_new_Some)
  ultimately show ?thesis by (auto simp: ci_unsigned_def)
qed

section \<open>Comparisons and division\<close>

lemma signed_cmp_correct:
  assumes "ci_wf a" "ci_wf b" "bit_width b = bit_width a" "bit_width a \<noteq> 1"
  shows "cmp_slt a b = Some (ci_signed a < ci_signed b)"
    and "cmp_sle a b = Some (ci_signed a \<le> ci_signed b)"
    and "cmp_sgt a b = Some (ci_signed a > ci_signed b)"
    and "cmp_sge a b = Some (ci_signed a \<ge> ci_signed b)"
  using assms
  by (simp_all add: cmp_slt_def cmp_sle_def cmp_sgt_def cmp_sge_def assert_same_bit_width_same
      sint_as_i64)

lemma tdiv_trem: "b * tdiv a b + trem a b = a"
  by (simp add: trem_def)

lemma tdiv_abs_le: "\<bar>tdiv a b\<bar> \<le> \<bar>a\<bar>"
proof -
  have "0 \<le> \<bar>a\<bar> div \<bar>b\<bar>" by (cases "b = 0") (simp_all add: pos_imp_zdiv_nonneg_iff)
  then have "\<bar>tdiv a b\<bar> \<le> \<bar>a\<bar> div \<bar>b\<bar>"
    by (simp add: tdiv_def abs_mult abs_sgn_eq)
  also have "\<dots> \<le> \<bar>a\<bar>" by (cases "a = 0"; cases "b = 0") (simp_all add: int_div_le_self)
  finally show ?thesis .
qed


lemma ci_signed_new:
  assumes "ci_new (word_of_int k) n = Some c"
  shows "ci_signed c = signed_take_bit (n - 1) k"
proof (rule bit_eqI)
  fix m
  have n: "1 \<le> n" "n \<le> 64" using assms by (auto simp: ci_new_def)
  then have "c = \<lparr>ci_value = take_bit n (word_of_int k), bit_width = n\<rparr>"
    using assms by (simp add: ci_new_Some)
  then show "bit (ci_signed c) m \<longleftrightarrow> bit (signed_take_bit (n - 1) k) m"
    using n
    by (simp add: ci_signed_def bit_signed_take_bit_iff bit_uint_iff bit_take_bit_iff
        bit_word_of_int_iff min_def) auto
qed

lemma i64_as_i64_eq_0:
  assumes "ci_wf b" "bit_width b \<noteq> 1"
  shows "as_i64 b = 0 \<longleftrightarrow> ci_signed b = 0"
  using sint_as_i64 [OF assms] by (metis signed_eq_0_iff)

text \<open>The quotients and remainders the constant folders rely on: the division is refused exactly
  when the divisor is zero or when the 64-bit quotient overflows; otherwise the quotient is
  Rust's truncating one, wrapped to the width.\<close>

lemma checked_sdiv_srem_cases:
  assumes wf: "ci_wf a" "ci_wf b" and bw: "bit_width b = bit_width a" "bit_width a \<noteq> 1"
  defines "refused \<equiv> ci_signed b = 0 \<or> (ci_signed a = - (2 ^ 63) \<and> ci_signed b = - 1)"
  shows "refused \<Longrightarrow> checked_sdiv a b = Some None \<and> checked_srem a b = Some None"
    and "\<not> refused \<Longrightarrow> \<exists>q r. checked_sdiv a b = Some (Some q) \<and> checked_srem a b = Some (Some r) \<and>
      ci_signed q = signed_take_bit (bit_width a - 1) (tdiv (ci_signed a) (ci_signed b)) \<and>
      ci_signed r = signed_take_bit (bit_width a - 1) (trem (ci_signed a) (ci_signed b))"
proof -
  have sa: "sint (as_i64 a) = ci_signed a" and sb: "sint (as_i64 b) = ci_signed b"
    and b0: "as_i64 b = 0 \<longleftrightarrow> ci_signed b = 0"
    using wf bw by (simp_all add: sint_as_i64 i64_as_i64_eq_0)
  show "refused \<Longrightarrow> checked_sdiv a b = Some None \<and> checked_srem a b = Some None"
    using bw b0 by (auto simp: refused_def checked_sdiv_def checked_srem_def i64_checked_div_def
        i64_checked_rem_def sa sb ci_map_new_def assert_same_bit_width_same)
  assume ok: "\<not> refused"
  have w: "1 \<le> bit_width a" "bit_width a \<le> 64" using wf by (auto simp: ci_wf_def)
  obtain q where q: "ci_new (word_of_int (tdiv (ci_signed a) (ci_signed b))) (bit_width a) = Some q"
    using w by (simp add: ci_new_Some)
  obtain r where r: "ci_new (word_of_int (trem (ci_signed a) (ci_signed b))) (bit_width a) = Some r"
    using w by (simp add: ci_new_Some)
  have "checked_sdiv a b = Some (Some q) \<and> checked_srem a b = Some (Some r)"
    using ok bw b0 q r by (auto simp: refused_def checked_sdiv_def checked_srem_def
        i64_checked_div_def i64_checked_rem_def sa sb ci_map_new_def assert_same_bit_width_same)
  then show "\<exists>q r. checked_sdiv a b = Some (Some q) \<and> checked_srem a b = Some (Some r) \<and>
      ci_signed q = signed_take_bit (bit_width a - 1) (tdiv (ci_signed a) (ci_signed b)) \<and>
      ci_signed r = signed_take_bit (bit_width a - 1) (trem (ci_signed a) (ci_signed b))"
    using ci_signed_new [OF q] ci_signed_new [OF r] by blast
qed

lemma trem_abs: "\<bar>trem x y\<bar> = \<bar>x\<bar> mod \<bar>y\<bar>"
proof -
  have "trem x y = sgn x * (\<bar>x\<bar> mod \<bar>y\<bar>)"
    by (simp add: trem_def tdiv_def minus_mult_div_eq_mod [symmetric] algebra_simps abs_sgn)
  moreover have "0 \<le> \<bar>x\<bar> mod \<bar>y\<bar>" by (cases "y = 0") simp_all
  ultimately show ?thesis by (cases "x = 0") (simp_all add: abs_mult abs_sgn_eq)
qed

lemma trem_signed_range:
  assumes "ci_wf a" "ci_wf b" and "bit_width b = bit_width a"
  shows "signed_take_bit (bit_width a - 1) (trem (ci_signed a) (ci_signed b)) =
    trem (ci_signed a) (ci_signed b)"
proof (cases "ci_signed b = 0")
  case True
  then show ?thesis by (simp add: trem_def tdiv_def) (simp add: ci_signed_def)
next
  case False
  let ?N = "2 ^ (bit_width a - 1) :: int"
  have "\<bar>ci_signed b\<bar> \<le> ?N"
    using ci_signed_range [OF assms(2)] assms(3) by (simp add: abs_le_iff)
  moreover have "\<bar>trem (ci_signed a) (ci_signed b)\<bar> < \<bar>ci_signed b\<bar>"
    using False by (simp add: trem_abs)
  ultimately show ?thesis by (simp add: signed_take_bit_int_eq_self_iff) linarith
qed

section \<open>Properties\<close>

text \<open>C24. Width discipline: whatever an operation of two integers returns, wrapping or checked, the
  result is well formed and has the width of the operands; no folded constant ever carries bits
  beyond its width.\<close>

theorem core_int_results_well_formed:
  "(\<forall>f \<in> {wrapping_add, wrapping_sub, wrapping_mul, ci_bitand, ci_bitor, ci_bitxor}.
      \<forall>c. f a b = Some c \<longrightarrow> ci_wf c \<and> bit_width c = bit_width a) \<and>
   (\<forall>f \<in> {checked_udiv, checked_sdiv, checked_urem, checked_srem, checked_shl, checked_lshr,
       checked_ashr}.
      \<forall>c. f a b = Some (Some c) \<longrightarrow> ci_wf c \<and> bit_width c = bit_width a)"
  using wrapping_ops_wf checked_ops_wf by blast

theorem core_int_results_well_formed_witness:
  "\<exists>c. wrapping_add \<lparr>ci_value = 255, bit_width = 8\<rparr> \<lparr>ci_value = 1, bit_width = 8\<rparr> = Some c \<and>
     ci_wf c \<and> bit_width c = 8 \<and> ci_value c = 0"
proof -
  let ?a = "\<lparr>ci_value = 255, bit_width = 8\<rparr>" and ?b = "\<lparr>ci_value = 1, bit_width = 8\<rparr>"
  have c: "wrapping_add ?a ?b = Some \<lparr>ci_value = 0, bit_width = 8\<rparr>"
    by (simp add: wrapping_add_def assert_same_bit_width_def ci_new_def mask_for_def)
  from core_int_results_well_formed [of ?a ?b] c
  show ?thesis by simp
qed

text \<open>C2. The wrapping operations are arithmetic modulo \<open>2 ^ width\<close> on the unsigned readings, and
  they never panic on operands of one width.\<close>

theorem core_int_wrapping_is_modular:
  assumes "ci_wf a" and "bit_width b = bit_width a"
  shows "map_option ci_unsigned (wrapping_add a b) =
      Some ((ci_unsigned a + ci_unsigned b) mod 2 ^ bit_width a) \<and>
    map_option ci_unsigned (wrapping_sub a b) =
      Some ((ci_unsigned a - ci_unsigned b) mod 2 ^ bit_width a) \<and>
    map_option ci_unsigned (wrapping_mul a b) =
      Some ((ci_unsigned a * ci_unsigned b) mod 2 ^ bit_width a)"
  using wrapping_arith_mod [OF assms] by blast

theorem core_int_wrapping_is_modular_witness:
  "map_option ci_unsigned (wrapping_mul \<lparr>ci_value = 200, bit_width = 8\<rparr> \<lparr>ci_value = 3, bit_width = 8\<rparr>)
     = Some 88"
proof -
  let ?a = "\<lparr>ci_value = 200, bit_width = 8\<rparr>" and ?b = "\<lparr>ci_value = 3, bit_width = 8\<rparr>"
  have "ci_wf ?a" by (simp add: ci_wf_def)
  from core_int_wrapping_is_modular [OF this, of ?b] show ?thesis
    by (simp add: ci_unsigned_def)
qed

text \<open>C3. Sign extension keeps the signed value and truncation undoes it: for a well-formed integer
  and any target width up to 64, \<open>sign_extend\<close> succeeds, its result has the same signed reading,
  and \<open>trunc_to\<close> back to the old width returns the original integer.\<close>

theorem core_int_sext_trunc_roundtrip:
  assumes "ci_wf c" "bit_width c \<le> w" "w \<le> 64"
  shows "\<exists>c'. sign_extend c w = Some c' \<and> ci_wf c' \<and> ci_signed c' = ci_signed c \<and>
     trunc_to c' (bit_width c) = Some c"
  using sign_extend_correct [OF assms] by blast

theorem core_int_sext_trunc_roundtrip_witness:
  "\<exists>c'. sign_extend \<lparr>ci_value = 13, bit_width = 4\<rparr> 8 = Some c' \<and> ci_wf c' \<and> ci_signed c' = - 3 \<and>
     trunc_to c' 4 = Some \<lparr>ci_value = 13, bit_width = 4\<rparr>"
proof -
  let ?c = "\<lparr>ci_value = 13, bit_width = 4\<rparr>"
  have wf: "ci_wf ?c" by (simp add: ci_wf_def)
  have "ci_signed ?c = - 3" by (simp add: ci_signed_def)
  with core_int_sext_trunc_roundtrip [OF wf, of 8] show ?thesis by simp
qed

text \<open>C27. Signed division and remainder: on well-formed operands of one width above 1 the two checked
  operations are refused together, exactly for a zero divisor or the 64-bit overflow, and otherwise
  the quotient is the truncating one wrapped to the width while the remainder is exact.\<close>

theorem core_int_signed_division:
  assumes "ci_wf a" "ci_wf b" "bit_width b = bit_width a" "bit_width a \<noteq> 1"
  shows "if ci_signed b = 0 \<or> (ci_signed a = - (2 ^ 63) \<and> ci_signed b = - 1)
    then checked_sdiv a b = Some None \<and> checked_srem a b = Some None
    else \<exists>q r. checked_sdiv a b = Some (Some q) \<and> checked_srem a b = Some (Some r) \<and>
      ci_signed q = signed_take_bit (bit_width a - 1) (tdiv (ci_signed a) (ci_signed b)) \<and>
      ci_signed r = trem (ci_signed a) (ci_signed b)"
  using checked_sdiv_srem_cases [OF assms] trem_signed_range [OF assms(1-3)] by auto

theorem core_int_signed_division_witness:
  "\<exists>q r. checked_sdiv \<lparr>ci_value = 249, bit_width = 8\<rparr> \<lparr>ci_value = 2, bit_width = 8\<rparr> = Some (Some q) \<and>
     checked_srem \<lparr>ci_value = 249, bit_width = 8\<rparr> \<lparr>ci_value = 2, bit_width = 8\<rparr> = Some (Some r) \<and>
     ci_signed q = - 3 \<and> ci_signed r = - 1"
proof -
  let ?a = "\<lparr>ci_value = 249, bit_width = 8\<rparr>" and ?b = "\<lparr>ci_value = 2, bit_width = 8\<rparr>"
  have wf: "ci_wf ?a" "ci_wf ?b" by (simp_all add: ci_wf_def)
  have s: "ci_signed ?a = - 7" "ci_signed ?b = 2" by (simp_all add: ci_signed_def)
  have "tdiv (- 7) 2 = - 3" "trem (- 7) 2 = - 1" by (simp_all add: tdiv_def trem_def)
  with core_int_signed_division [OF wf] s show ?thesis by simp
qed

end
