(* ===== verification/Mir.thy ===== *)
theory Mir
  imports Prelude
begin

text \<open>
  The machine IR of \<open>src/src/mir.rs\<close>: registers, blocks, stack slots, frames, machine
  functions and modules, and the three traits every back-end pass is generic over.  A trait
  is a record of its methods (the dictionary a generic Rust function receives); a pass takes
  the record \<open>T\<close> as its first argument and calls \<open>def_regs T i\<close> where the code calls
  \<open>inst.def_regs()\<close> and \<open>emit_add T rd rs1 rs2\<close> where it calls \<open>T::emit_add\<close>.

  Ids (\<open>VRegId\<close>, \<open>BlockId\<close>, \<open>StackSlotId\<close>, \<open>SymbolId\<close>) wrap a \<open>usize\<close> and are naturals here.
\<close>

type_synonym vreg_id = nat
type_synonym block_id = nat
type_synonym symbol_id = nat
type_synonym stack_slot_id = nat

datatype 'r register = Virtual vreg_id | Physical 'r

section \<open>Frames\<close>

datatype stack_slot_kind = AllocaSlot | SpillSlot | CalleeSavedSlot | LocalTempSlot

record stack_slot =
  slot_id :: stack_slot_id
  slot_size :: nat
  slot_align :: nat
  slot_kind :: stack_slot_kind

record 'r frame_info =
  stack_slots :: "stack_slot list"
  max_align :: nat
  max_outgoing_arg_size :: nat
  used_callee_saved :: "'r set"
  need_save_ra :: bool

record 'r frame_layout =
  frame_size :: nat
  slot_offsets :: "stack_slot_id \<rightharpoonup> int"
  outgoing_arg_offset :: int
  incoming_arg_offset :: int
  callee_saved_slots :: "'r \<rightharpoonup> stack_slot_id"
  ra_slot :: "stack_slot_id option"

section \<open>The traits\<close>

text \<open>\<open>trait TargetArch\<close>: the register file as the allocator sees it and the reach of a
  conditional branch.\<close>

record 'r target_arch =
  get_allocatable_regs :: "'r list"
  spill_scratch_regs :: "'r list"
  is_callee_saved :: "'r \<Rightarrow> bool"
  branch_offset_range :: "int \<times> int"

text \<open>\<open>trait TargetInst\<close>.  \<open>get_successors\<close> panics on an indirect jump.  The mutable reference
  \<open>get_branch_target\<close> returns is a reader and a writer.\<close>

record ('r, 'i) target_inst = "'r target_arch" +
  def_regs :: "'i \<Rightarrow> 'r register list"
  use_regs :: "'i \<Rightarrow> 'r register list"
  def_conflict_regs :: "'i \<Rightarrow> 'r register \<rightharpoonup> 'r register list"
  is_terminator :: "'i \<Rightarrow> bool"
  is_ret :: "'i \<Rightarrow> bool"
  get_successors :: "'i \<Rightarrow> block_id list option"
  load_imm :: "'r register \<Rightarrow> i32 \<Rightarrow> 'i"
  mv :: "'r register \<Rightarrow> 'r register \<Rightarrow> 'i"
  rewrite_vreg :: "'i \<Rightarrow> (vreg_id \<rightharpoonup> 'r register) \<Rightarrow> (vreg_id \<rightharpoonup> 'r register) \<Rightarrow> 'i"
  is_call :: "'i \<Rightarrow> bool"
  size_in_bytes :: "'i \<Rightarrow> nat"
  get_branch_target :: "'i \<Rightarrow> block_id option"
  set_branch_target :: "'i \<Rightarrow> block_id \<Rightarrow> 'i"
  as_move :: "'i \<Rightarrow> ('r register \<times> 'r register) option"

type_synonym ('r, 'i) emit3 = "'r register \<Rightarrow> 'r register \<Rightarrow> 'r register \<Rightarrow> 'i"
type_synonym ('r, 'i) emit_imm = "'r register \<Rightarrow> 'r register \<Rightarrow> i32 \<Rightarrow> 'i"
type_synonym ('r, 'i) emit_branch = "'r register \<Rightarrow> 'r register \<Rightarrow> block_id \<Rightarrow> 'i"

text \<open>\<open>trait LoweringTarget\<close>, split at its register-register arithmetic, its immediate forms and
  branches, and its memory and frame accesses.\<close>

record ('r, 'i) target_alu = "('r, 'i) target_inst" +
  WORD_SIZE :: nat
  FRAME_ALIGN :: nat
  SHIFT_AMT_BITS :: nat
  zero_reg :: 'r
  return_reg :: 'r
  ra_reg :: 'r
  sp_reg :: 'r
  arg_reg :: "nat \<Rightarrow> 'r option"
  num_arg_regs :: nat
  stack_arg_size :: nat
  stack_arg_offset :: "nat \<Rightarrow> i32"
  emit_add :: "('r, 'i) emit3"
  emit_sub :: "('r, 'i) emit3"
  emit_xor :: "('r, 'i) emit3"
  emit_or :: "('r, 'i) emit3"
  emit_and :: "('r, 'i) emit3"
  emit_sll :: "('r, 'i) emit3"
  emit_srl :: "('r, 'i) emit3"
  emit_sra :: "('r, 'i) emit3"
  emit_slt :: "('r, 'i) emit3"
  emit_sltu :: "('r, 'i) emit3"
  emit_mul :: "('r, 'i) emit3"
  emit_div :: "('r, 'i) emit3"
  emit_divu :: "('r, 'i) emit3"
  emit_rem :: "('r, 'i) emit3"
  emit_remu :: "('r, 'i) emit3"
  emit_addw :: "('r, 'i) emit3"
  emit_subw :: "('r, 'i) emit3"
  emit_sllw :: "('r, 'i) emit3"
  emit_srlw :: "('r, 'i) emit3"
  emit_sraw :: "('r, 'i) emit3"
  emit_mulw :: "('r, 'i) emit3"
  emit_divw :: "('r, 'i) emit3"
  emit_divuw :: "('r, 'i) emit3"
  emit_remw :: "('r, 'i) emit3"
  emit_remuw :: "('r, 'i) emit3"

record ('r, 'i) target_imm = "('r, 'i) target_alu" +
  emit_addi :: "('r, 'i) emit_imm"
  emit_xori :: "('r, 'i) emit_imm"
  emit_ori :: "('r, 'i) emit_imm"
  emit_andi :: "('r, 'i) emit_imm"
  emit_slli :: "('r, 'i) emit_imm"
  emit_srli :: "('r, 'i) emit_imm"
  emit_srai :: "('r, 'i) emit_imm"
  emit_addiw :: "('r, 'i) emit_imm"
  emit_slliw :: "('r, 'i) emit_imm"
  emit_srliw :: "('r, 'i) emit_imm"
  emit_sraiw :: "('r, 'i) emit_imm"
  emit_sltiu :: "('r, 'i) emit_imm"
  emit_branch_ne :: "('r, 'i) emit_branch"
  emit_branch_eq :: "('r, 'i) emit_branch"
  emit_branch_lt :: "('r, 'i) emit_branch"
  emit_branch_ge :: "('r, 'i) emit_branch"
  emit_branch_ltu :: "('r, 'i) emit_branch"
  emit_branch_geu :: "('r, 'i) emit_branch"
  emit_jump :: "block_id \<Rightarrow> 'i"
  emit_call :: "symbol_id \<Rightarrow> nat \<Rightarrow> 'i"
  emit_ret :: 'i

text \<open>The memory methods panic on an access size the target does not have.\<close>

record ('r, 'i) lowering_target = "('r, 'i) target_imm" +
  emit_load_mem :: "'r register \<Rightarrow> 'r register \<Rightarrow> i32 \<Rightarrow> nat \<Rightarrow> bool \<Rightarrow> 'i option"
  emit_load_global :: "'r register \<Rightarrow> symbol_id \<Rightarrow> nat \<Rightarrow> bool \<Rightarrow> 'i option"
  emit_load_symbol_addr :: "'r register \<Rightarrow> symbol_id \<Rightarrow> 'i"
  emit_store_mem :: "'r register \<Rightarrow> 'r register \<Rightarrow> i32 \<Rightarrow> nat \<Rightarrow> 'i option"
  emit_store_global :: "'r register \<Rightarrow> symbol_id \<Rightarrow> nat \<Rightarrow> 'r register \<Rightarrow> 'i option"
  emit_store_outgoing_arg :: "'r register \<Rightarrow> i32 \<Rightarrow> 'r register \<Rightarrow> 'i"
  emit_load_incoming_arg :: "'r register \<Rightarrow> i32 \<Rightarrow> 'i"
  emit_get_stack_addr :: "'r register \<Rightarrow> stack_slot_id \<Rightarrow> 'i"
  emit_load_stack_slot :: "'r register \<Rightarrow> stack_slot_id \<Rightarrow> 'i"
  emit_store_stack_slot :: "'r register \<Rightarrow> stack_slot_id \<Rightarrow> 'r register \<Rightarrow> 'i"
  emit_adjust_sp :: "int \<Rightarrow> 'i list"
  expand_pseudo :: "'i \<Rightarrow> 'r frame_layout \<Rightarrow> 'i list option"
  is_jump_to :: "'i \<Rightarrow> block_id \<Rightarrow> bool"

section \<open>Rewriting registers\<close>

text \<open>\<open>rewrite_field!\<close> of \<open>src/src/mir/macros.rs\<close>: a virtual register found in the map is replaced, any
  other register is kept.\<close>

definition rewrite_reg :: "(vreg_id \<rightharpoonup> 'r register) \<Rightarrow> 'r register \<Rightarrow> 'r register" where
  "rewrite_reg m r = (case r of
     Virtual v \<Rightarrow> (case m v of Some r' \<Rightarrow> r' | None \<Rightarrow> r)
   | Physical p \<Rightarrow> Physical p)"

lemma rewrite_reg_simps [simp]:
  "rewrite_reg m (Physical p) = Physical p"
  "rewrite_reg Map.empty r = r"
  by (simp_all add: rewrite_reg_def split: register.splits)

lemma map_rewrite_physical [simp]: "map (rewrite_reg m) (map Physical ps) = map Physical ps"
  by simp

text \<open>What every pass relies on when it reads an instruction through the trait: rewriting is a
  substitution on the two register lists and changes nothing else, a branch target can be read
  back, and a move has exactly its two registers.\<close>

locale target_inst_laws =
  fixes T :: "('r, 'i, 'z) target_inst_scheme"
  assumes def_rewrite: "def_regs T (rewrite_vreg T i U D) = map (rewrite_reg D) (def_regs T i)"
    and use_rewrite: "use_regs T (rewrite_vreg T i U D) = map (rewrite_reg U) (use_regs T i)"
    and terminator_rewrite: "is_terminator T (rewrite_vreg T i U D) = is_terminator T i"
    and successors_rewrite: "get_successors T (rewrite_vreg T i U D) = get_successors T i"
    and call_rewrite: "is_call T (rewrite_vreg T i U D) = is_call T i"
    and rewrite_id: "rewrite_vreg T i Map.empty Map.empty = i"
    and branch_target_succ: "get_branch_target T i = Some b \<Longrightarrow>
      is_terminator T i \<and> get_successors T i = Some [b]"
    and branch_target_set: "get_branch_target T i = Some b \<Longrightarrow>
      get_branch_target T (set_branch_target T i b') = Some b' \<and>
      set_branch_target T i b = i \<and>
      size_in_bytes T (set_branch_target T i b') = size_in_bytes T i"
    and as_move_regs: "as_move T i = Some (d, s) \<Longrightarrow> def_regs T i = [d] \<and> use_regs T i = [s]"
    and as_move_mv: "as_move T (mv T d s) = Some (d, s)"
    and conflict_regs: "def_conflict_regs T i d = Some cs \<Longrightarrow>
      d \<in> set (def_regs T i) \<and> set cs \<subseteq> set (use_regs T i)"
    and size_pos: "0 < size_in_bytes T i"
begin

lemma rewritten_def: "Virtual v \<in> set (def_regs T i) \<Longrightarrow> D v = Some (Physical p) \<Longrightarrow>
    Physical p \<in> set (def_regs T (rewrite_vreg T i U D))"
  by (force simp: def_rewrite rewrite_reg_def)

lemma rewritten_no_virtual:
  assumes "\<And>v. Virtual v \<in> set (def_regs T i) \<Longrightarrow> \<exists>p. D v = Some (Physical p)"
    and "\<And>v. Virtual v \<in> set (use_regs T i) \<Longrightarrow> \<exists>p. U v = Some (Physical p)"
  shows "Virtual w \<notin> set (def_regs T (rewrite_vreg T i U D)) \<union> set (use_regs T (rewrite_vreg T i U D))"
proof -
  have "rewrite_reg m r \<noteq> Virtual w" if "\<And>v. r = Virtual v \<Longrightarrow> \<exists>p. m v = Some (Physical p)"
    for m :: "vreg_id \<rightharpoonup> 'r register" and r
    using that by (cases r) (auto simp: rewrite_reg_def)
  with assms show ?thesis by (auto simp: def_rewrite use_rewrite) metis+
qed

end

section \<open>Machine functions\<close>

record 'i machine_block =
  mb_id :: block_id
  mb_name :: string
  instructions :: "'i list"

record ('r, 'i) machine_function =
  mf_name :: string
  blocks :: "'i machine_block list"
  vreg_counter :: nat
  entry :: block_id
  frame_info :: "'r frame_info"
  frame_layout :: "'r frame_layout"

text \<open>\<open>VRegCounter::next_vreg\<close> and \<open>MachineFunction::new_vreg\<close>: the current count, then one more.\<close>

definition new_vreg :: "('r, 'i) machine_function \<Rightarrow> vreg_id \<times> ('r, 'i) machine_function" where
  "new_vreg mf = (vreg_counter mf, mf\<lparr>vreg_counter := Suc (vreg_counter mf)\<rparr>)"

definition new_stack_slot ::
  "('r, 'i) machine_function \<Rightarrow> nat \<Rightarrow> nat \<Rightarrow> stack_slot_kind \<Rightarrow>
     stack_slot_id \<times> ('r, 'i) machine_function" where
  "new_stack_slot mf sz align kind =
     (let fi = frame_info mf;
          fi1 = fi\<lparr>max_align := max (max_align fi) align\<rparr>;
          nid = length (stack_slots fi1);
          slot = \<lparr>slot_id = nid, slot_size = sz, slot_align = align, slot_kind = kind\<rparr>
      in (nid, mf\<lparr>frame_info := fi1\<lparr>stack_slots := stack_slots fi1 @ [slot]\<rparr>\<rparr>))"

definition record_outgoing_arg ::
  "('r, 'i) machine_function \<Rightarrow> nat \<Rightarrow> ('r, 'i) machine_function" where
  "record_outgoing_arg mf sz =
     mf\<lparr>frame_info := (frame_info mf)\<lparr>max_outgoing_arg_size :=
        max (max_outgoing_arg_size (frame_info mf)) sz\<rparr>\<rparr>"

definition get_block :: "('r, 'i) machine_function \<Rightarrow> block_id \<Rightarrow> 'i machine_block option" where
  "get_block mf b = List.find (\<lambda>blk. mb_id blk = b) (blocks mf)"

text \<open>Writing through \<open>get_block_mut\<close>: the first block with the id is updated; \<open>None\<close> is the
  \<open>unwrap\<close> of a missing block.\<close>

fun update_first_block ::
  "block_id \<Rightarrow> ('i machine_block \<Rightarrow> 'i machine_block) \<Rightarrow> 'i machine_block list \<Rightarrow>
     'i machine_block list option" where
  "update_first_block b f [] = None"
| "update_first_block b f (blk # rest) =
     (if mb_id blk = b then Some (f blk # rest)
      else map_option ((#) blk) (update_first_block b f rest))"

definition with_block_mut ::
  "('r, 'i) machine_function \<Rightarrow> block_id \<Rightarrow> ('i machine_block \<Rightarrow> 'i machine_block) \<Rightarrow>
     ('r, 'i) machine_function option" where
  "with_block_mut mf b f =
     map_option (\<lambda>bs. mf\<lparr>blocks := bs\<rparr>) (update_first_block b f (blocks mf))"

text \<open>\<open>empty_machine_function\<close> of \<open>lower.rs\<close>.\<close>

definition empty_machine_function :: "string \<Rightarrow> ('r, 'i) machine_function" where
  "empty_machine_function name =
     \<lparr>mf_name = name, blocks = [], vreg_counter = 0, entry = 0,
      frame_info = \<lparr>stack_slots = [], max_align = 1, max_outgoing_arg_size = 0,
        used_callee_saved = {}, need_save_ra = False\<rparr>,
      frame_layout = \<lparr>frame_size = 0, slot_offsets = Map.empty, outgoing_arg_offset = 0,
        incoming_arg_offset = 0, callee_saved_slots = Map.empty, ra_slot = None\<rparr>\<rparr>"

section \<open>Modules\<close>

datatype linkage = External | Internal

datatype machine_segment = TextSegment | DataSegment | ReadOnlyDataSegment | BssSegment

datatype ('r, 'i) machine_symbol_kind =
    FunctionSymbol "('r, 'i) machine_function"
  | ExternalPlaceholder
  | DataSymbol "u8 list"
  | BssSymbol nat

record ('r, 'i) machine_symbol =
  sym_id :: symbol_id
  sym_name :: string
  sym_kind :: "('r, 'i) machine_symbol_kind"
  sym_segment :: machine_segment
  sym_linkage :: linkage
  sym_alignment :: nat

record ('r, 'i) machine_module =
  symbols :: "('r, 'i) machine_symbol list"
  symbol_map :: "string \<rightharpoonup> symbol_id"
  symbol_names :: "symbol_id \<rightharpoonup> string"

definition empty_machine_module :: "('r, 'i) machine_module" where
  "empty_machine_module = \<lparr>symbols = [], symbol_map = Map.empty, symbol_names = Map.empty\<rparr>"

text \<open>The \<open>debug_assert!\<close> on a replaced name is a panic of the dev profile; it fires after the map
  has been written, and the panic makes the write unobservable.\<close>

definition new_symbol ::
  "('r, 'i) machine_module \<Rightarrow> string \<Rightarrow> ('r, 'i) machine_symbol_kind \<Rightarrow> machine_segment \<Rightarrow>
     linkage \<Rightarrow> nat \<Rightarrow> (symbol_id \<times> ('r, 'i) machine_module) option" where
  "new_symbol m name kind segment link alignment = do {
     let nid = length (symbols m);
     rust_assert (symbol_map m name = None);
     let sym = \<lparr>sym_id = nid, sym_name = name, sym_kind = kind, sym_segment = segment,
                sym_linkage = link, sym_alignment = alignment\<rparr>;
     Some (nid, m\<lparr>symbols := symbols m @ [sym],
                 symbol_map := (symbol_map m)(name \<mapsto> nid),
                 symbol_names := (symbol_names m)(nid \<mapsto> name)\<rparr>)
   }"

section \<open>Well-formedness\<close>

text \<open>Slots are numbered by their position and \<open>max_align\<close> bounds every slot's alignment.\<close>

definition frame_info_wf :: "'r frame_info \<Rightarrow> bool" where
  "frame_info_wf fi \<longleftrightarrow>
     map slot_id (stack_slots fi) = [0..<length (stack_slots fi)] \<and>
     (\<forall>s \<in> set (stack_slots fi). slot_align s \<le> max_align fi)"

lemma new_stack_slot_wf:
  "frame_info_wf (frame_info mf) \<Longrightarrow> new_stack_slot mf sz align kind = (nid, mf') \<Longrightarrow>
     frame_info_wf (frame_info mf')"
  by (auto simp: frame_info_wf_def new_stack_slot_def Let_def le_max_iff_disj)

lemma new_stack_slot_frame:
  assumes "new_stack_slot mf sz align kind = (nid, mf')"
  shows "blocks mf' = blocks mf" "vreg_counter mf' = vreg_counter mf" "entry mf' = entry mf"
    "nid = length (stack_slots (frame_info mf))"
    "length (stack_slots (frame_info mf')) = Suc (length (stack_slots (frame_info mf)))"
  using assms by (auto simp: new_stack_slot_def Let_def)

lemma empty_machine_function_wf: "frame_info_wf (frame_info (empty_machine_function name))"
  by (simp add: empty_machine_function_def frame_info_wf_def)

text \<open>The two maps of a module are inverse to each other and enumerate the symbol table.\<close>

definition module_wf :: "('r, 'i) machine_module \<Rightarrow> bool" where
  "module_wf m \<longleftrightarrow>
     map sym_id (symbols m) = [0..<length (symbols m)] \<and>
     (\<forall>name nid. symbol_map m name = Some nid \<longleftrightarrow> symbol_names m nid = Some name) \<and>
     (\<forall>nid. symbol_names m nid =
        (if nid < length (symbols m) then Some (sym_name (symbols m ! nid)) else None))"

lemma empty_machine_module_wf: "module_wf empty_machine_module"
  by (simp add: module_wf_def empty_machine_module_def)

lemma new_symbol_wf:
  assumes wf: "module_wf m" and new: "new_symbol m name kind segment link alignment = Some (nid, m')"
  shows "module_wf m'"
proof -
  have fresh: "symbol_map m name = None" and nid: "nid = length (symbols m)"
    using new by (auto simp: new_symbol_def Let_def)
  have m': "symbols m' = symbols m @ [\<lparr>sym_id = nid, sym_name = name, sym_kind = kind,
        sym_segment = segment, sym_linkage = link, sym_alignment = alignment\<rparr>]"
      "symbol_map m' = (symbol_map m)(name \<mapsto> nid)" "symbol_names m' = (symbol_names m)(nid \<mapsto> name)"
    using new by (auto simp: new_symbol_def Let_def)
  have inv: "symbol_map m n = Some k \<longleftrightarrow> symbol_names m k = Some n" for n k
    using wf by (simp add: module_wf_def)
  have names: "symbol_names m k =
      (if k < length (symbols m) then Some (sym_name (symbols m ! k)) else None)" for k
    using wf by (simp add: module_wf_def)
  have no_id: "symbol_names m nid = None" by (simp add: names nid)
  have "symbol_map m' n = Some k \<longleftrightarrow> symbol_names m' k = Some n" for n k
    using fresh no_id inv [of n k] inv [of name k] inv [of n nid] by (auto simp: m')
  moreover have "symbol_names m' k =
      (if k < length (symbols m') then Some (sym_name (symbols m' ! k)) else None)" for k
    by (simp add: m' names nid nth_append)
  moreover have "map sym_id (symbols m') = [0..<length (symbols m')]"
    using wf by (simp add: m' nid module_wf_def)
  ultimately show ?thesis by (simp add: module_wf_def)
qed

section \<open>Properties\<close>

text \<open>C5. The symbol table stays consistent: \<open>new_symbol\<close> on a consistent module fails exactly on a
  name already present, and otherwise keeps the name map and the id map inverse to each other and
  in step with the table, with the new name bound to the new id.\<close>

theorem new_symbol_keeps_tables_consistent:
  assumes "module_wf m"
  shows "(new_symbol m name kind segment link alignment = None \<longleftrightarrow> symbol_map m name \<noteq> None) \<and>
    (\<forall>nid m'. new_symbol m name kind segment link alignment = Some (nid, m') \<longrightarrow>
       module_wf m' \<and> symbol_map m' name = Some nid \<and> symbol_names m' nid = Some name \<and>
       (\<forall>n. n \<noteq> name \<longrightarrow> symbol_map m' n = symbol_map m n))"
proof (intro conjI allI impI)
  show "new_symbol m name kind segment link alignment = None \<longleftrightarrow> symbol_map m name \<noteq> None"
    by (cases "symbol_map m name") (simp_all add: new_symbol_def Let_def)
  fix nid m' assume new: "new_symbol m name kind segment link alignment = Some (nid, m')"
  show "module_wf m'" by (rule new_symbol_wf [OF assms new])
  show "symbol_map m' name = Some nid" "symbol_names m' nid = Some name"
    "\<And>n. n \<noteq> name \<Longrightarrow> symbol_map m' n = symbol_map m n"
    using new by (auto simp: new_symbol_def Let_def)
qed

theorem new_symbol_keeps_tables_consistent_witness:
  "\<exists>nid m'. new_symbol (empty_machine_module :: (nat, nat) machine_module) ''main'' ExternalPlaceholder
      TextSegment External 4 = Some (nid, m') \<and> module_wf m' \<and> symbol_map m' ''main'' = Some nid"
proof -
  let ?m = "empty_machine_module :: (nat, nat) machine_module"
  have "symbol_map ?m ''main'' = None" by (simp add: empty_machine_module_def)
  then obtain r where r: "new_symbol ?m ''main'' ExternalPlaceholder TextSegment External 4 = Some r"
    by (simp add: new_symbol_def Let_def)
  obtain nid m' where "r = (nid, m')" by (cases r)
  with r new_symbol_keeps_tables_consistent [OF empty_machine_module_wf,
      of "''main''" ExternalPlaceholder TextSegment External 4]
  show ?thesis by blast
qed

end
