(* ===== verification/Parallel_Copy.thy ===== *)
theory Parallel_Copy
  imports Mir
begin

text \<open>
  Parallel copies (\<open>resolve_parallel_copy\<close> in \<open>src/src/mir/lower.rs\<close>).  Phi nodes and call
  arguments are sets of moves that happen at once; the code orders them by a depth-first
  walk of the graph whose edges go from a source to its destinations, and breaks each cycle
  with a fresh virtual register saved before, and restored after, the ordered moves.

  The walk's three output lists hold machine instructions built with the target's \<open>mv\<close>.
  The main result says that, for every order in which the hash map hands out its keys, the
  emitted sequence performs the simultaneous assignment.  What the target must promise of
  \<open>mv\<close> is the locale \<open>move_semantics\<close>.
\<close>

section \<open>The algorithm\<close>

record 'r copy_move =
  cm_dst :: "'r register"
  cm_src :: "'r register"

type_synonym 'r copy_edges = "'r register \<rightharpoonup> 'r register list"

text \<open>\<open>edges.entry(src).or_default().push(dst)\<close> for every move that is not trivial.\<close>

definition add_copy_edge :: "'r copy_edges \<Rightarrow> 'r copy_move \<Rightarrow> 'r copy_edges" where
  "add_copy_edge edges m =
     (if cm_dst m \<noteq> cm_src m
      then edges(cm_src m \<mapsto> (case edges (cm_src m) of None \<Rightarrow> [] | Some ds \<Rightarrow> ds) @ [cm_dst m])
      else edges)"

definition copy_edges :: "'r copy_move list \<Rightarrow> 'r copy_edges" where
  "copy_edges moves = foldl add_copy_edge Map.empty moves"

text \<open>The mutable arguments of \<open>visit_fn\<close>: the two sets, the three lists of \<open>Insts\<close>, and the
  machine function, of which only the vreg counter is written.\<close>

record ('r, 'i) copy_state =
  visited :: "'r register set"
  visiting :: "'r register set"
  insts_middle :: "'i list"
  insts_first :: "'i list"
  insts_last :: "'i list"
  copy_fn :: "('r, 'i) machine_function"

text \<open>The recursion is bounded by fuel; \<open>visit_fn_enough_fuel\<close> shows that one unit per
  unvisited node is enough, and the top-level function passes more.\<close>

fun visit_fn :: "('r, 'i, 'z) target_inst_scheme \<Rightarrow> 'r copy_edges \<Rightarrow> nat \<Rightarrow> 'r register \<Rightarrow>
    ('r, 'i) copy_state \<Rightarrow> ('r, 'i) copy_state option"
  and visit_neighbors :: "('r, 'i, 'z) target_inst_scheme \<Rightarrow> 'r copy_edges \<Rightarrow> nat \<Rightarrow> 'r register \<Rightarrow>
    'r register list \<Rightarrow> ('r, 'i) copy_state \<Rightarrow> ('r, 'i) copy_state option" where
  "visit_fn T edges 0 node st = None"
| "visit_fn T edges (Suc fuel) node st =
     (if node \<in> visited st then Some st
      else do {
        let st1 = st\<lparr>visiting := insert node (visiting st), visited := insert node (visited st)\<rparr>;
        st2 \<leftarrow> (case edges node of
                  None \<Rightarrow> Some st1
                | Some neighbors \<Rightarrow> visit_neighbors T edges fuel node neighbors st1);
        Some (st2\<lparr>visiting := visiting st2 - {node}\<rparr>)
      })"
| "visit_neighbors T edges fuel node [] st = Some st"
| "visit_neighbors T edges fuel node (neighbor # rest) st = do {
     st1 \<leftarrow> visit_fn T edges fuel neighbor st;
     let st2 =
       (if neighbor \<in> visiting st1
        then let (v, mf) = new_vreg (copy_fn st1); temp = Virtual v
             in st1\<lparr>copy_fn := mf,
                    insts_first := insts_first st1 @ [mv T temp node],
                    insts_last := insts_last st1 @ [mv T neighbor temp]\<rparr>
        else st1\<lparr>insts_middle := insts_middle st1 @ [mv T neighbor node]\<rparr>);
     visit_neighbors T edges fuel node rest st2
   }"

fun visit_nodes :: "('r, 'i, 'z) target_inst_scheme \<Rightarrow> 'r copy_edges \<Rightarrow> nat \<Rightarrow> 'r register list \<Rightarrow>
    ('r, 'i) copy_state \<Rightarrow> ('r, 'i) copy_state option" where
  "visit_nodes T edges fuel [] st = Some st"
| "visit_nodes T edges fuel (n # ns) st = do {
     st1 \<leftarrow> visit_fn T edges fuel n st; visit_nodes T edges fuel ns st1 }"

text \<open>\<open>nodes\<close> is \<open>edges.keys().copied().collect()\<close>, in the order the hash map yields.\<close>

definition resolve_parallel_copy ::
  "('r, 'i, 'z) target_inst_scheme \<Rightarrow> 'r register list \<Rightarrow> 'r copy_move list \<Rightarrow>
     ('r, 'i) machine_function \<Rightarrow> ('i list \<times> ('r, 'i) machine_function) option" where
  "resolve_parallel_copy T nodes moves mf = do {
     let edges = copy_edges moves;
     st \<leftarrow> visit_nodes T edges (Suc (2 * length moves)) nodes
            \<lparr>visited = {}, visiting = {}, insts_middle = [], insts_first = [], insts_last = [],
             copy_fn = mf\<rparr>;
     Some (insts_first st @ insts_middle st @ insts_last st, copy_fn st)
   }"

section \<open>The edges\<close>

text \<open>\<open>is_edge edges s d\<close>: some move copies \<open>s\<close> to \<open>d\<close>.\<close>

definition is_edge :: "'r copy_edges \<Rightarrow> 'r register \<Rightarrow> 'r register \<Rightarrow> bool" where
  "is_edge edges s d \<longleftrightarrow> (\<exists>ds. edges s = Some ds \<and> d \<in> set ds)"

text \<open>What distinct destinations give: every edge list is duplicate free and every destination
  has one source.\<close>

definition edges_functional :: "'r copy_edges \<Rightarrow> bool" where
  "edges_functional edges \<longleftrightarrow>
     (\<forall>s ds. edges s = Some ds \<longrightarrow> distinct ds) \<and>
     (\<forall>s s' d. is_edge edges s d \<longrightarrow> is_edge edges s' d \<longrightarrow> s = s')"

lemma is_edge_add:
  "is_edge (add_copy_edge edges m) s d \<longleftrightarrow>
     is_edge edges s d \<or> (cm_dst m \<noteq> cm_src m \<and> s = cm_src m \<and> d = cm_dst m)"
  by (cases "edges (cm_src m)") (auto simp: is_edge_def add_copy_edge_def)

lemma is_edge_foldl:
  "is_edge (foldl add_copy_edge edges moves) s d \<longleftrightarrow>
     is_edge edges s d \<or> (\<exists>m \<in> set moves. cm_dst m \<noteq> cm_src m \<and> s = cm_src m \<and> d = cm_dst m)"
  by (induction moves arbitrary: edges) (auto simp: is_edge_add)

lemma is_edge_copy_edges:
  "is_edge (copy_edges moves) s d \<longleftrightarrow>
     (\<exists>m \<in> set moves. cm_dst m \<noteq> cm_src m \<and> s = cm_src m \<and> d = cm_dst m)"
  by (simp add: copy_edges_def is_edge_foldl) (simp add: is_edge_def)

lemma add_copy_edge_distinct:
  assumes "\<forall>s ds. edges s = Some ds \<longrightarrow> distinct ds" and "\<forall>s. \<not> is_edge edges s (cm_dst m)"
  shows "\<forall>s ds. add_copy_edge edges m s = Some ds \<longrightarrow> distinct ds"
  using assms by (auto simp: add_copy_edge_def is_edge_def split: option.splits if_splits)

lemma foldl_copy_edge_distinct:
  assumes "\<forall>s ds. edges s = Some ds \<longrightarrow> distinct ds" and "distinct (map cm_dst moves)"
    and "\<forall>m \<in> set moves. \<forall>s. \<not> is_edge edges s (cm_dst m)"
  shows "\<forall>s ds. foldl add_copy_edge edges moves s = Some ds \<longrightarrow> distinct ds"
  using assms
proof (induction moves arbitrary: edges)
  case Nil
  then show ?case by simp
next
  case (Cons m moves)
  have "\<forall>s ds. foldl add_copy_edge (add_copy_edge edges m) moves s = Some ds \<longrightarrow> distinct ds"
  proof (rule Cons.IH)
    show "\<forall>s ds. add_copy_edge edges m s = Some ds \<longrightarrow> distinct ds"
      using Cons.prems by (intro add_copy_edge_distinct) simp_all
    show "distinct (map cm_dst moves)" using Cons.prems by simp
    show "\<forall>m' \<in> set moves. \<forall>s. \<not> is_edge (add_copy_edge edges m) s (cm_dst m')"
    proof (intro ballI allI)
      fix m' s assume m': "m' \<in> set moves"
      then have "cm_dst m' \<noteq> cm_dst m" using Cons.prems(2) by (auto simp: image_iff)
      with m' Cons.prems(3) show "\<not> is_edge (add_copy_edge edges m) s (cm_dst m')"
        by (simp add: is_edge_add)
    qed
  qed
  then show ?case by simp
qed

lemma copy_edges_functional:
  assumes "distinct (map cm_dst moves)"
  shows "edges_functional (copy_edges moves)"
proof -
  have "\<forall>s ds. copy_edges moves s = Some ds \<longrightarrow> distinct ds"
    unfolding copy_edges_def
    by (rule foldl_copy_edge_distinct) (use assms in \<open>auto simp: is_edge_def\<close>)
  moreover have "m = m'" if "m \<in> set moves" "m' \<in> set moves" "cm_dst m = cm_dst m'" for m m'
    using assms that by (simp add: distinct_map inj_on_def)
  ultimately show ?thesis by (auto simp: edges_functional_def is_edge_copy_edges)
qed

section \<open>Sequential execution of moves\<close>

text \<open>A list of (destination, source) pairs executed left to right.\<close>

fun run_moves :: "('a \<times> 'a) list \<Rightarrow> ('a \<Rightarrow> 'v) \<Rightarrow> ('a \<Rightarrow> 'v)" where
  "run_moves [] \<rho> = \<rho>"
| "run_moves ((d, s) # ps) \<rho> = run_moves ps (\<rho>(d := \<rho> s))"

text \<open>No move reads what an earlier move wrote.\<close>

fun copy_ordered :: "('a \<times> 'a) list \<Rightarrow> bool" where
  "copy_ordered [] \<longleftrightarrow> True"
| "copy_ordered ((d, s) # ps) \<longleftrightarrow> d \<notin> snd ` set ps \<and> copy_ordered ps"

lemma copy_ordered_append:
  "copy_ordered (ps @ qs) \<longleftrightarrow>
     copy_ordered ps \<and> copy_ordered qs \<and> fst ` set ps \<inter> snd ` set qs = {}"
  by (induction ps rule: copy_ordered.induct) auto

lemma run_moves_append: "run_moves (ps @ qs) \<rho> = run_moves qs (run_moves ps \<rho>)"
  by (induction ps arbitrary: \<rho>) auto

lemma run_moves_other: "r \<notin> fst ` set ps \<Longrightarrow> run_moves ps \<rho> r = \<rho> r"
  by (induction ps arbitrary: \<rho>) auto

lemma run_moves_dst:
  "copy_ordered ps \<Longrightarrow> distinct (map fst ps) \<Longrightarrow> (d, s) \<in> set ps \<Longrightarrow> run_moves ps \<rho> d = \<rho> s"
proof (induction ps arbitrary: \<rho> rule: copy_ordered.induct)
  case 1
  then show ?case by simp
next
  case (2 d0 s0 ps)
  show ?case
  proof (cases "(d, s) = (d0, s0)")
    case True
    with "2.prems" show ?thesis by (auto simp: run_moves_other)
  next
    case False
    with "2.prems" have in_ps: "(d, s) \<in> set ps" by auto
    then have "s \<noteq> d0" using "2.prems"(1) by force
    then have "(\<rho>(d0 := \<rho> s0)) s = \<rho> s" by simp
    moreover have "run_moves ps (\<rho>(d0 := \<rho> s0)) d = (\<rho>(d0 := \<rho> s0)) s"
      by (rule "2.IH") (use "2.prems" in_ps in simp_all)
    ultimately show ?thesis by (simp del: fun_upd_apply)
  qed
qed

lemma copy_ordered_disjoint: "fst ` set ps \<inter> snd ` set ps = {} \<Longrightarrow> copy_ordered ps"
  by (induction ps rule: copy_ordered.induct) auto


section \<open>What a walk appends\<close>

text \<open>A walk from \<open>st\<close> to \<open>st'\<close> appends the ordered moves \<open>M\<close> (pairs of destination and source) and
  the saved moves \<open>B\<close> (temporary, destination, source), and takes its temporaries from the
  counter.\<close>

definition walk_insts ::
  "('r, 'i, 'z) target_inst_scheme \<Rightarrow> ('r, 'i) copy_state \<Rightarrow> ('r, 'i) copy_state \<Rightarrow>
     ('r register \<times> 'r register) list \<Rightarrow> (vreg_id \<times> 'r register \<times> 'r register) list \<Rightarrow> bool" where
  "walk_insts T st st' M B \<longleftrightarrow>
     insts_middle st' = insts_middle st @ map (\<lambda>(d, s). mv T d s) M \<and>
     insts_first st' = insts_first st @ map (\<lambda>(t, d, s). mv T (Virtual t) s) B \<and>
     insts_last st' = insts_last st @ map (\<lambda>(t, d, s). mv T d (Virtual t)) B \<and>
     map fst B = [vreg_counter (copy_fn st)..<vreg_counter (copy_fn st) + length B] \<and>
     copy_fn st' = (copy_fn st)\<lparr>vreg_counter := vreg_counter (copy_fn st) + length B\<rparr>"

text \<open>The pairs a walk handles, in both lists.\<close>

definition handled ::
  "('r register \<times> 'r register) list \<Rightarrow> (vreg_id \<times> 'r register \<times> 'r register) list \<Rightarrow>
     ('r register \<times> 'r register) set" where
  "handled M B = set M \<union> snd ` set B"

text \<open>The graph side: \<open>own\<close> holds the node whose edges the caller is scanning.\<close>

definition walk_graph ::
  "'r copy_edges \<Rightarrow> 'r register set \<Rightarrow> ('r, 'i) copy_state \<Rightarrow> ('r, 'i) copy_state \<Rightarrow>
     ('r register \<times> 'r register) list \<Rightarrow> (vreg_id \<times> 'r register \<times> 'r register) list \<Rightarrow> bool" where
  "walk_graph edges own st st' M B \<longleftrightarrow>
     visited st \<subseteq> visited st' \<and> visiting st' = visiting st \<and>
     (\<forall>d s. (d, s) \<in> handled M B \<longrightarrow> is_edge edges s d \<and> s \<in> (visited st' - visited st) \<union> own) \<and>
     fst ` set M \<subseteq> visited st' - visiting st' \<and>
     distinct (map fst M @ map (fst \<circ> snd) B) \<and> copy_ordered M \<and>
     (\<forall>n d. n \<in> visited st' - visited st \<longrightarrow> is_edge edges n d \<longrightarrow> (d, n) \<in> handled M B)"

lemma walk_graphD:
  assumes "walk_graph edges own st st' M B"
  shows "visited st \<subseteq> visited st'" "visiting st' = visiting st"
    "\<And>d s. (d, s) \<in> handled M B \<Longrightarrow> is_edge edges s d"
    "\<And>d s. (d, s) \<in> handled M B \<Longrightarrow> s \<in> (visited st' - visited st) \<union> own"
    "fst ` set M \<subseteq> visited st' - visiting st'"
    "distinct (map fst M @ map (fst \<circ> snd) B)" "copy_ordered M"
    "\<And>n d. n \<in> visited st' - visited st \<Longrightarrow> is_edge edges n d \<Longrightarrow> (d, n) \<in> handled M B"
  using assms unfolding walk_graph_def by blast+

lemma edges_functionalD:
  "edges_functional edges \<Longrightarrow> is_edge edges s d \<Longrightarrow> is_edge edges s' d \<Longrightarrow> s = s'"
  by (simp add: edges_functional_def)

lemma handled_append: "handled (M1 @ M2) (B1 @ B2) = handled M1 B1 \<union> handled M2 B2"
  by (auto simp: handled_def)

lemma walk_insts_refl: "walk_insts T st st [] []"
  by (simp add: walk_insts_def)

lemma walk_insts_trans:
  assumes "walk_insts T st st1 M1 B1" and "walk_insts T st1 st2 M2 B2"
  shows "walk_insts T st st2 (M1 @ M2) (B1 @ B2)"
proof -
  let ?c = "vreg_counter (copy_fn st)"
  have "[?c..<?c + length B1] @ [?c + length B1..<?c + length B1 + length B2]
      = [?c..<?c + (length B1 + length B2)]"
    by (metis add.assoc le_add1 upt_add_eq_append)
  with assms show ?thesis by (auto simp: walk_insts_def add.assoc)
qed

lemma walk_graph_refl: "walk_graph edges own st st [] []"
  by (simp add: walk_graph_def handled_def)

lemma walk_graph_trans:
  assumes func: "edges_functional edges"
    and own: "own \<subseteq> visiting st" and vv: "visiting st \<subseteq> visited st"
    and w1: "walk_graph edges own st st1 M1 B1" and w2: "walk_graph edges own st1 st2 M2 B2"
    and disj: "\<And>d s. s \<in> own \<Longrightarrow> (d, s) \<in> handled M1 B1 \<Longrightarrow> (d, s) \<notin> handled M2 B2"
  shows "walk_graph edges own st st2 (M1 @ M2) (B1 @ B2)"
proof -
  have same_src: "s = s'" if "(d, s) \<in> handled M1 B1" "(d, s') \<in> handled M2 B2" for d s s'
    using that walk_graphD(3) [OF w1] walk_graphD(3) [OF w2] edges_functionalD [OF func] by blast
  have src1: "s \<in> visited st1" if "(d, s) \<in> handled M1 B1" for d s
    using walk_graphD(4) [OF w1 that] walk_graphD(1) [OF w1] own vv by blast
  have apart: "(d, s) \<notin> handled M2 B2" if "(d, s') \<in> handled M1 B1" for d s s'
  proof
    assume h2: "(d, s) \<in> handled M2 B2"
    with that have s: "s' = s" by (rule same_src)
    from w2 h2 have "s \<in> (visited st2 - visited st1) \<union> own" by (rule walk_graphD(4))
    with src1 [OF that] s have "s \<in> own" by blast
    with disj that h2 s show False by blast
  qed
  have dsts: "set (map fst M @ map (fst \<circ> snd) B) = fst ` handled M B" for M :: "('a register \<times> 'a register) list" and B
    by (force simp: handled_def image_iff)
  have "fst ` handled M1 B1 \<inter> fst ` handled M2 B2 = {}"
    using apart by fastforce
  then have "distinct ((map fst M1 @ map (fst \<circ> snd) B1) @ (map fst M2 @ map (fst \<circ> snd) B2))"
    using walk_graphD(6) [OF w1] walk_graphD(6) [OF w2] dsts [of M1 B1] dsts [of M2 B2]
    by (simp only: distinct_append)
  then have dist: "distinct (map fst (M1 @ M2) @ map (fst \<circ> snd) (B1 @ B2))" by auto
  have "fst ` set M1 \<inter> snd ` set M2 = {}"
  proof -
    have "fst ` set M1 \<subseteq> visited st1 - visiting st"
      using walk_graphD(2,5) [OF w1] by simp
    moreover have "snd ` set M2 \<subseteq> (visited st2 - visited st1) \<union> visiting st"
    proof
      fix s assume "s \<in> snd ` set M2"
      then obtain d where "(d, s) \<in> set M2" by auto
      then have "(d, s) \<in> handled M2 B2" by (simp add: handled_def)
      from walk_graphD(4) [OF w2 this] own show "s \<in> (visited st2 - visited st1) \<union> visiting st"
        by blast
    qed
    ultimately show ?thesis by blast
  qed
  then have ord: "copy_ordered (M1 @ M2)"
    using walk_graphD(7) [OF w1] walk_graphD(7) [OF w2] by (simp add: copy_ordered_append)
  show ?thesis
    unfolding walk_graph_def handled_append
  proof (intro conjI dist ord)
    show "visited st \<subseteq> visited st2" "visiting st2 = visiting st"
      using walk_graphD(1,2) [OF w1] walk_graphD(1,2) [OF w2] by auto
    show "fst ` set (M1 @ M2) \<subseteq> visited st2 - visiting st2"
      using walk_graphD(2,5) [OF w1] walk_graphD(1,2,5) [OF w2] by auto
    show "\<forall>d s. (d, s) \<in> handled M1 B1 \<union> handled M2 B2 \<longrightarrow>
        is_edge edges s d \<and> s \<in> (visited st2 - visited st) \<union> own"
      using walk_graphD(1,3,4) [OF w1] walk_graphD(1,3,4) [OF w2] by blast
    show "\<forall>n d. n \<in> visited st2 - visited st \<longrightarrow> is_edge edges n d \<longrightarrow>
        (d, n) \<in> handled M1 B1 \<union> handled M2 B2"
      using walk_graphD(8) [OF w1] walk_graphD(8) [OF w2] by blast
  qed
qed

lemma walk_graph_mono_own:
  assumes w: "walk_graph edges {} st st' M B"
  shows "walk_graph edges own st st' M B"
  unfolding walk_graph_def
proof (intro conjI walk_graphD(1,2,5,6,7) [OF w])
  show "\<forall>d s. (d, s) \<in> handled M B \<longrightarrow>
      is_edge edges s d \<and> s \<in> (visited st' - visited st) \<union> own"
    using walk_graphD(3,4) [OF w] by blast
  show "\<forall>n d. n \<in> visited st' - visited st \<longrightarrow> is_edge edges n d \<longrightarrow> (d, n) \<in> handled M B"
    using walk_graphD(8) [OF w] by blast
qed


section \<open>The walk meets its specification\<close>

lemma visiting_sub_insert:
  "visiting st \<subseteq> visited st \<Longrightarrow> insert n (visiting st) \<subseteq> insert n (visited st)" by blast

text \<open>The single step of \<open>visit_neighbors\<close> after the recursive visit: one ordered move, or one saved
  move.\<close>

definition push_copy ::
  "('r, 'i, 'z) target_inst_scheme \<Rightarrow> 'r register \<Rightarrow> 'r register \<Rightarrow> ('r, 'i) copy_state \<Rightarrow>
     ('r, 'i) copy_state" where
  "push_copy T node neighbor st1 =
     (if neighbor \<in> visiting st1
      then let (v, mf) = new_vreg (copy_fn st1); temp = Virtual v
           in st1\<lparr>copy_fn := mf,
                  insts_first := insts_first st1 @ [mv T temp node],
                  insts_last := insts_last st1 @ [mv T neighbor temp]\<rparr>
      else st1\<lparr>insts_middle := insts_middle st1 @ [mv T neighbor node]\<rparr>)"

lemma visit_neighbors_Cons:
  "visit_neighbors T edges fuel node (neighbor # rest) st = do {
     st1 \<leftarrow> visit_fn T edges fuel neighbor st;
     visit_neighbors T edges fuel node rest (push_copy T node neighbor st1) }"
  by (simp add: push_copy_def Let_def)

lemma push_copy_walk:
  assumes "neighbor \<in> visited st" "is_edge edges node neighbor"
  shows "\<exists>M B. walk_insts T st (push_copy T node neighbor st) M B \<and>
    walk_graph edges {node} st (push_copy T node neighbor st) M B \<and> handled M B = {(neighbor, node)}"
proof (cases "neighbor \<in> visiting st")
  case True
  let ?B = "[(vreg_counter (copy_fn st), neighbor, node)]"
  have "walk_insts T st (push_copy T node neighbor st) [] ?B"
    using True by (simp add: push_copy_def new_vreg_def walk_insts_def Let_def)
  moreover have "walk_graph edges {node} st (push_copy T node neighbor st) [] ?B"
    using True assms by (simp add: push_copy_def new_vreg_def walk_graph_def handled_def Let_def)
  ultimately show ?thesis by (force simp: handled_def)
next
  case False
  let ?M = "[(neighbor, node)]"
  have "walk_insts T st (push_copy T node neighbor st) ?M []"
    using False by (simp add: push_copy_def walk_insts_def)
  moreover have "walk_graph edges {node} st (push_copy T node neighbor st) ?M []"
    using False assms by (simp add: push_copy_def walk_graph_def handled_def)
  ultimately show ?thesis by (force simp: handled_def)
qed

lemma push_copy_sets [simp]:
  "visited (push_copy T node neighbor st) = visited st"
  "visiting (push_copy T node neighbor st) = visiting st"
  by (auto simp: push_copy_def new_vreg_def Let_def)

text \<open>Closing a visit: the node leaves \<open>visiting\<close>, and its own edges count as handled.\<close>

lemma walk_graph_close:
  assumes w: "walk_graph edges {node}
      (st\<lparr>visiting := insert node (visiting st), visited := insert node (visited st)\<rparr>) st2 M B"
    and new: "node \<notin> visited st" "visiting st \<subseteq> visited st"
    and all: "\<And>d. is_edge edges node d \<Longrightarrow> (d, node) \<in> handled M B"
  shows "walk_graph edges {} st (st2\<lparr>visiting := visiting st2 - {node}\<rparr>) M B"
proof -
  note D = walk_graphD [OF w, simplified]
  have "node \<notin> visiting st" using new by blast
  then have "insert node (visiting st) - {node} = visiting st" by blast
  then have v: "visiting st2 - {node} = visiting st" using D(2) by simp
  show ?thesis
    unfolding walk_graph_def
  proof (intro conjI)
    show "\<forall>d s. (d, s) \<in> handled M B \<longrightarrow> is_edge edges s d \<and>
        s \<in> (visited (st2\<lparr>visiting := visiting st2 - {node}\<rparr>) - visited st) \<union> {}"
      using D(1,3,4) new by auto
    show "\<forall>n d. n \<in> visited (st2\<lparr>visiting := visiting st2 - {node}\<rparr>) - visited st \<longrightarrow>
        is_edge edges n d \<longrightarrow> (d, n) \<in> handled M B"
      using D(8) all by auto
    show "fst ` set M \<subseteq> visited (st2\<lparr>visiting := visiting st2 - {node}\<rparr>) -
        visiting (st2\<lparr>visiting := visiting st2 - {node}\<rparr>)"
      using walk_graphD(5) [OF w] by auto
    show "distinct (map fst M @ map (fst \<circ> snd) B)" by (rule walk_graphD(6) [OF w])
    show "copy_ordered M" by (rule walk_graphD(7) [OF w])
  qed (use D(1) v in auto)
qed

lemma walk_insts_close:
  "walk_insts T (st\<lparr>visiting := X, visited := Y\<rparr>) st2 M B \<Longrightarrow>
     walk_insts T st (st2\<lparr>visiting := Z\<rparr>) M B"
  by (simp add: walk_insts_def)


lemma visit_neighbors_step:
  assumes func: "edges_functional edges" and vv: "visiting st \<subseteq> visited st" and nv: "node \<in> visiting st"
    and w1: "walk_insts T st st1 M1 B1" "walk_graph edges {} st st1 M1 B1" "neighbor \<in> visited st1"
    and e: "is_edge edges node neighbor" and fresh: "neighbor \<notin> set rest"
    and w3: "walk_insts T (push_copy T node neighbor st1) st' M3 B3"
      "walk_graph edges {node} (push_copy T node neighbor st1) st' M3 B3"
      "\<forall>d. (d, node) \<in> handled M3 B3 \<longleftrightarrow> d \<in> set rest"
  shows "\<exists>M B. walk_insts T st st' M B \<and> walk_graph edges {node} st st' M B \<and>
    (\<forall>d. (d, node) \<in> handled M B \<longleftrightarrow> d \<in> set (neighbor # rest))"
proof -
  let ?st2 = "push_copy T node neighbor st1"
  obtain M2 B2 where w2: "walk_insts T st1 ?st2 M2 B2" "walk_graph edges {node} st1 ?st2 M2 B2"
    and h2: "handled M2 B2 = {(neighbor, node)}"
    using push_copy_walk [OF w1(3) e] by blast
  have no1: "(d, node) \<notin> handled M1 B1" for d
    using walk_graphD(4) [OF w1(2), of d node] nv vv by blast
  have w12: "walk_graph edges {node} st ?st2 (M1 @ M2) (B1 @ B2)"
    by (rule walk_graph_trans [OF func _ vv walk_graph_mono_own [OF w1(2)] w2(2)])
       (use no1 nv in auto)
  have h12: "(d, node) \<in> handled (M1 @ M2) (B1 @ B2) \<longleftrightarrow> d = neighbor" for d
    using no1 h2 by (auto simp: handled_append)
  have "walk_graph edges {node} st st' ((M1 @ M2) @ M3) ((B1 @ B2) @ B3)"
    by (rule walk_graph_trans [OF func _ vv w12 w3(2)]) (use h12 w3(3) fresh nv in auto)
  moreover have "walk_insts T st st' ((M1 @ M2) @ M3) ((B1 @ B2) @ B3)"
    by (intro walk_insts_trans [OF _ w3(1)] walk_insts_trans [OF w1(1) w2(1)])
  moreover have "(d, node) \<in> handled ((M1 @ M2) @ M3) ((B1 @ B2) @ B3) \<longleftrightarrow> d \<in> set (neighbor # rest)" for d
    using h12 [of d] w3(3) by (simp only: handled_append Un_iff) auto
  ultimately show ?thesis by blast
qed

lemma visit_walk:
  "visit_fn T edges fuel node st = Some st' \<Longrightarrow> edges_functional edges \<Longrightarrow>
      visiting st \<subseteq> visited st \<Longrightarrow>
      \<exists>M B. walk_insts T st st' M B \<and> walk_graph edges {} st st' M B \<and> node \<in> visited st'"
  "visit_neighbors T edges fuel node ns st = Some st' \<Longrightarrow> edges_functional edges \<Longrightarrow>
      visiting st \<subseteq> visited st \<Longrightarrow> node \<in> visiting st \<Longrightarrow> distinct ns \<Longrightarrow>
      (\<And>d. d \<in> set ns \<Longrightarrow> is_edge edges node d) \<Longrightarrow>
      \<exists>M B. walk_insts T st st' M B \<and> walk_graph edges {node} st st' M B \<and>
        (\<forall>d. (d, node) \<in> handled M B \<longleftrightarrow> d \<in> set ns)"
proof (induction T edges fuel node st and T edges fuel node ns st arbitrary: st' and st'
    rule: visit_fn_visit_neighbors.induct)
  case (1 T edges node st)
  then show ?case by simp
next
  case (2 T edges fuel node st)
  show ?case
  proof (cases "node \<in> visited st")
    case True
    then have "st' = st" using "2.prems"(1) by simp
    with True show ?thesis using walk_insts_refl walk_graph_refl by blast
  next
    case False
    let ?st1 = "st\<lparr>visiting := insert node (visiting st), visited := insert node (visited st)\<rparr>"
    have "\<exists>st2 M B. st' = st2\<lparr>visiting := visiting st2 - {node}\<rparr> \<and> walk_insts T ?st1 st2 M B \<and>
        walk_graph edges {node} ?st1 st2 M B \<and> (\<forall>d. is_edge edges node d \<longrightarrow> (d, node) \<in> handled M B)"
    proof (cases "edges node")
      case None
      then have "st' = ?st1\<lparr>visiting := visiting ?st1 - {node}\<rparr>" "\<forall>d. \<not> is_edge edges node d"
        using "2.prems"(1) False by (simp_all add: Let_def is_edge_def)
      then show ?thesis using walk_insts_refl walk_graph_refl by blast
    next
      case (Some ns)
      then obtain st2 where st2: "visit_neighbors T edges fuel node ns ?st1 = Some st2"
        "st' = st2\<lparr>visiting := visiting st2 - {node}\<rparr>"
        using "2.prems"(1) False by (auto simp: Let_def bind_eq_Some_conv)
      have "distinct ns" using "2.prems"(2) Some by (auto simp: edges_functional_def)
      moreover have edge: "is_edge edges node d \<longleftrightarrow> d \<in> set ns" for d using Some by (simp add: is_edge_def)
      ultimately obtain M B where "walk_insts T ?st1 st2 M B" "walk_graph edges {node} ?st1 st2 M B"
        "\<forall>d. (d, node) \<in> handled M B \<longleftrightarrow> d \<in> set ns"
        using "2.IH" [OF False refl Some st2(1) "2.prems"(2)] "2.prems"(3) by auto
      with st2(2) edge show ?thesis by blast
    qed
    then obtain st2 M B where st2: "st' = st2\<lparr>visiting := visiting st2 - {node}\<rparr>"
      and w: "walk_insts T ?st1 st2 M B" "walk_graph edges {node} ?st1 st2 M B"
      and all: "\<And>d. is_edge edges node d \<Longrightarrow> (d, node) \<in> handled M B" by blast
    have "node \<in> visited st'" using walk_graphD(1) [OF w(2)] st2 by auto
    moreover have "walk_insts T st st' M B" unfolding st2 by (rule walk_insts_close [OF w(1)])
    moreover have "walk_graph edges {} st st' M B"
      unfolding st2 by (rule walk_graph_close [OF w(2) False "2.prems"(3) all])
    ultimately show ?thesis by blast
  qed
next
  case (3 T edges fuel node st)
  then have "st' = st" by simp
  then show ?case using walk_insts_refl walk_graph_refl by (fastforce simp: handled_def)
next
  case (4 T edges fuel node neighbor rest st)
  from "4.prems"(1) obtain st1 where st1: "visit_fn T edges fuel neighbor st = Some st1"
    and rest: "visit_neighbors T edges fuel node rest (push_copy T node neighbor st1) = Some st'"
    by (auto simp: visit_neighbors_Cons bind_eq_Some_conv simp del: visit_neighbors.simps)
  obtain M1 B1 where w1: "walk_insts T st st1 M1 B1" "walk_graph edges {} st st1 M1 B1"
      "neighbor \<in> visited st1"
    using "4.IH"(1) [OF st1 "4.prems"(2,3)] by blast
  note D1 = walk_graphD [OF w1(2)]
  have "visiting (push_copy T node neighbor st1) \<subseteq> visited (push_copy T node neighbor st1)"
      "node \<in> visiting (push_copy T node neighbor st1)"
    using D1(1,2) "4.prems"(3,4) by auto
  then obtain M3 B3 where "walk_insts T (push_copy T node neighbor st1) st' M3 B3"
      "walk_graph edges {node} (push_copy T node neighbor st1) st' M3 B3"
      "\<forall>d. (d, node) \<in> handled M3 B3 \<longleftrightarrow> d \<in> set rest"
    using "4.IH"(2) [OF st1 refl, folded push_copy_def, OF rest "4.prems"(2)] "4.prems"(5,6) by auto
  then show ?case
    using visit_neighbors_step [OF "4.prems"(2,3,4) w1] "4.prems"(5,6) by simp
qed


lemma visit_nodes_walk:
  "visit_nodes T edges fuel nodes st = Some st' \<Longrightarrow> edges_functional edges \<Longrightarrow> visiting st = {} \<Longrightarrow>
     \<exists>M B. walk_insts T st st' M B \<and> walk_graph edges {} st st' M B \<and> set nodes \<subseteq> visited st'"
proof (induction nodes arbitrary: st)
  case Nil
  then have "st' = st" by simp
  then show ?case using walk_insts_refl walk_graph_refl by fastforce
next
  case (Cons n nodes)
  from Cons.prems(1) obtain st1 where st1: "visit_fn T edges fuel n st = Some st1"
    and rest: "visit_nodes T edges fuel nodes st1 = Some st'"
    by (auto simp: bind_eq_Some_conv)
  have vv: "visiting st \<subseteq> visited st" using Cons.prems(3) by simp
  obtain M1 B1 where w1: "walk_insts T st st1 M1 B1" "walk_graph edges {} st st1 M1 B1" "n \<in> visited st1"
    using visit_walk(1) [OF st1 Cons.prems(2) vv] by blast
  have "visiting st1 = {}" using walk_graphD(2) [OF w1(2)] Cons.prems(3) by simp
  then obtain M2 B2 where w2: "walk_insts T st1 st' M2 B2" "walk_graph edges {} st1 st' M2 B2"
      "set nodes \<subseteq> visited st'"
    using Cons.IH [OF rest Cons.prems(2)] by blast
  have "walk_graph edges {} st st' (M1 @ M2) (B1 @ B2)"
    by (rule walk_graph_trans [OF Cons.prems(2) _ vv w1(2) w2(2)]) auto
  moreover have "walk_insts T st st' (M1 @ M2) (B1 @ B2)" by (rule walk_insts_trans [OF w1(1) w2(1)])
  moreover have "n \<in> visited st'" using w1(3) walk_graphD(1) [OF w2(2)] by blast
  ultimately show ?case using w2(3) by fastforce
qed

section \<open>Termination: one unit of fuel per unvisited node\<close>

lemma visit_fn_enough_fuel:
  "edges_functional edges \<Longrightarrow> finite U \<Longrightarrow> (\<forall>s d. is_edge edges s d \<longrightarrow> d \<in> U) \<Longrightarrow>
     visiting st \<subseteq> visited st \<Longrightarrow> node \<in> U \<Longrightarrow> card (U - visited st) < fuel \<Longrightarrow>
     \<exists>st'. visit_fn T edges fuel node st = Some st'"
  "edges_functional edges \<Longrightarrow> finite U \<Longrightarrow> (\<forall>s d. is_edge edges s d \<longrightarrow> d \<in> U) \<Longrightarrow>
     visiting st \<subseteq> visited st \<Longrightarrow> node \<in> visiting st \<Longrightarrow> set ns \<subseteq> U \<Longrightarrow> card (U - visited st) < fuel \<Longrightarrow>
     \<exists>st'. visit_neighbors T edges fuel node ns st = Some st'"
proof (induction T edges fuel node st and T edges fuel node ns st rule: visit_fn_visit_neighbors.induct)
  case (1 T edges node st)
  then show ?case by simp
next
  case (2 T edges fuel node st)
  show ?case
  proof (cases "node \<in> visited st \<or> edges node = None")
    case True
    then show ?thesis by (auto simp: Let_def)
  next
    case False
    then obtain ns where new: "node \<notin> visited st" and ns: "edges node = Some ns" by auto
    let ?st1 = "st\<lparr>visiting := insert node (visiting st), visited := insert node (visited st)\<rparr>"
    have "card (U - insert node (visited st)) < card (U - visited st)"
      by (rule psubset_card_mono) (use "2.prems"(2,5) new in auto)
    then have "card (U - visited ?st1) < fuel" using "2.prems"(6) by simp
    moreover have "set ns \<subseteq> U" using "2.prems"(3) ns by (auto simp: is_edge_def)
    ultimately obtain st2 where "visit_neighbors T edges fuel node ns ?st1 = Some st2"
      using "2.IH" [OF new refl ns "2.prems"(1,2,3)] "2.prems"(4) by force
    with new ns show ?thesis by (simp add: Let_def)
  qed
next
  case (3 T edges fuel node st)
  then show ?case by simp
next
  case (4 T edges fuel node neighbor rest st)
  obtain st1 where st1: "visit_fn T edges fuel neighbor st = Some st1"
    using "4.IH"(1) [OF "4.prems"(1,2,3,4)] "4.prems"(6,7) by auto
  obtain M1 B1 where w1: "walk_graph edges {} st st1 M1 B1"
    using visit_walk(1) [OF st1 "4.prems"(1,4)] by blast
  note D1 = walk_graphD(1,2) [OF w1]
  have "card (U - visited st1) \<le> card (U - visited st)"
    by (rule card_mono) (use "4.prems"(2) D1(1) in auto)
  then have "\<exists>st'. visit_neighbors T edges fuel node rest (push_copy T node neighbor st1) = Some st'"
    using "4.IH"(2) [OF st1 refl, folded push_copy_def, OF "4.prems"(1,2,3)] "4.prems"(4-7) D1 by auto
  with st1 show ?case by (simp add: visit_neighbors_Cons del: visit_neighbors.simps)
qed

lemma visit_nodes_enough_fuel:
  "edges_functional edges \<Longrightarrow> finite U \<Longrightarrow> (\<forall>s d. is_edge edges s d \<longrightarrow> d \<in> U) \<Longrightarrow>
     visiting st = {} \<Longrightarrow> set nodes \<subseteq> U \<Longrightarrow> card (U - visited st) < fuel \<Longrightarrow>
     \<exists>st'. visit_nodes T edges fuel nodes st = Some st'"
proof (induction nodes arbitrary: st)
  case Nil
  then show ?case by simp
next
  case (Cons n nodes)
  have vv: "visiting st \<subseteq> visited st" using Cons.prems(4) by simp
  obtain st1 where st1: "visit_fn T edges fuel n st = Some st1"
    using visit_fn_enough_fuel(1) [OF Cons.prems(1,2,3) vv, of n fuel T] Cons.prems(5,6) by auto
  obtain M1 B1 where w1: "walk_graph edges {} st st1 M1 B1"
    using visit_walk(1) [OF st1 Cons.prems(1) vv] by blast
  note D1 = walk_graphD(1,2) [OF w1]
  have "card (U - visited st1) \<le> card (U - visited st)"
    by (rule card_mono) (use Cons.prems(2) D1(1) in auto)
  then have "\<exists>st'. visit_nodes T edges fuel nodes st1 = Some st'"
    using Cons.IH [OF Cons.prems(1,2,3)] Cons.prems(4-6) D1 by auto
  with st1 show ?case by simp
qed

text \<open>The output of \<open>resolve_parallel_copy\<close>, whatever the key order: saved moves, ordered moves,
  restored moves, which together handle each non-trivial move once.\<close>

lemma resolve_parallel_copy_shape:
  assumes dist: "distinct (map cm_dst moves)" and nodes: "set nodes = dom (copy_edges moves)"
  shows "\<exists>M B. resolve_parallel_copy T nodes moves mf =
      Some (map (\<lambda>(t, d, s). mv T (Virtual t) s) B @ map (\<lambda>(d, s). mv T d s) M @
            map (\<lambda>(t, d, s). mv T d (Virtual t)) B,
            mf\<lparr>vreg_counter := vreg_counter mf + length B\<rparr>) \<and>
    map fst B = [vreg_counter mf..<vreg_counter mf + length B] \<and>
    (\<forall>d s. (d, s) \<in> handled M B \<longleftrightarrow> is_edge (copy_edges moves) s d) \<and>
    distinct (map fst M @ map (fst \<circ> snd) B) \<and> copy_ordered M"
proof -
  let ?E = "copy_edges moves"
  let ?U = "cm_dst ` set moves \<union> cm_src ` set moves"
  let ?st0 = "\<lparr>visited = {}, visiting = {}, insts_middle = [], insts_first = [], insts_last = [],
     copy_fn = mf\<rparr>"
  have func: "edges_functional ?E" by (rule copy_edges_functional [OF dist])
  have key: "s \<in> dom ?E \<Longrightarrow> s \<in> cm_src ` set moves" for s
  proof -
    have "s \<in> dom (foldl add_copy_edge E ms) \<Longrightarrow> s \<in> dom E \<union> cm_src ` set ms" for E ms
      by (induction ms arbitrary: E) (force simp: add_copy_edge_def split: if_splits)+
    from this [of Map.empty moves] show "s \<in> dom ?E \<Longrightarrow> s \<in> cm_src ` set moves"
      by (simp add: copy_edges_def)
  qed
  have "card ?U \<le> length moves + length moves"
    by (rule order_trans [OF card_Un_le add_mono]) (metis card_image_le card_length finite_set order_trans)+
  then have "card (?U - visited ?st0) < Suc (2 * length moves)" by simp
  moreover have "\<forall>s d. is_edge ?E s d \<longrightarrow> d \<in> ?U" by (auto simp: is_edge_copy_edges)
  moreover have "set nodes \<subseteq> ?U" using nodes key by blast
  moreover have "finite ?U" "visiting ?st0 = {}" by simp_all
  ultimately obtain st where st: "visit_nodes T ?E (Suc (2 * length moves)) nodes ?st0 = Some st"
    using visit_nodes_enough_fuel [OF func, of ?U ?st0 nodes] by blast
  obtain M B where w: "walk_insts T ?st0 st M B" "walk_graph ?E {} ?st0 st M B" "set nodes \<subseteq> visited st"
    using visit_nodes_walk [OF st func] by auto
  have "(d, s) \<in> handled M B \<longleftrightarrow> is_edge ?E s d" for d s
    using walk_graphD(3,8) [OF w(2), of d s] walk_graphD(8) [OF w(2), of s d] w(3) nodes
    by (auto simp: is_edge_def)
  moreover have "resolve_parallel_copy T nodes moves mf =
      Some (insts_first st @ insts_middle st @ insts_last st, copy_fn st)"
    using st by (simp add: resolve_parallel_copy_def Let_def)
  ultimately show ?thesis
    using w(1) walk_graphD(6,7) [OF w(2)] by (auto simp: walk_insts_def intro!: exI [of _ M] exI [of _ B])
qed

section \<open>The three stages perform the simultaneous assignment\<close>

lemma run_moves_stages:
  assumes M: "copy_ordered M" "distinct (map fst M @ map (fst \<circ> snd) B)"
    and B: "distinct (map fst B)"
    and low: "\<And>t d s. t \<in> fst ` set B \<Longrightarrow> (d, s) \<in> handled M B \<Longrightarrow> Virtual t \<noteq> d \<and> Virtual t \<noteq> s"
  defines "pre \<equiv> map (\<lambda>(t, d, s). (Virtual t, s)) B"
    and "post \<equiv> map (\<lambda>(t, d, s). (d, Virtual t)) B"
  shows "(d, s) \<in> handled M B \<Longrightarrow> run_moves (pre @ M @ post) \<rho> d = \<rho> s"
    and "r \<notin> fst ` handled M B \<Longrightarrow> r \<notin> Virtual ` fst ` set B \<Longrightarrow>
      run_moves (pre @ M @ post) \<rho> r = \<rho> r"
proof -
  have pair: "(d, s) \<in> handled M B" if "(t, d, s) \<in> set B" for t d s
    using that by (force simp: handled_def)
  have temp_dst: "fst ` set pre = Virtual ` fst ` set B"
    by (force simp: pre_def)
  have first_ord: "copy_ordered pre"
  proof (rule copy_ordered_disjoint)
    show "fst ` set pre \<inter> snd ` set pre = {}"
      using low pair by (fastforce simp: pre_def)
  qed
  have first_dist: "distinct (map fst pre)"
  proof -
    have "map fst pre = map Virtual (map fst B)" by (simp add: pre_def case_prod_unfold)
    with B show ?thesis by (simp add: distinct_map inj_on_def)
  qed
  have last_ord: "copy_ordered post"
  proof (rule copy_ordered_disjoint)
    show "fst ` set post \<inter> snd ` set post = {}"
      using low pair by (fastforce simp: post_def)
  qed
  have last_fst: "map fst post = map (fst \<circ> snd) B" by (simp add: post_def case_prod_unfold comp_def)
  then have last_dist: "distinct (map fst post)" using M(2) by simp
  let ?\<rho>1 = "run_moves pre \<rho>"
  let ?\<rho>2 = "run_moves M ?\<rho>1"
  have keep1: "?\<rho>1 s = \<rho> s" if "(d, s) \<in> handled M B" for d s
    by (rule run_moves_other) (use low [OF _ that] temp_dst in auto)
  show "run_moves (pre @ M @ post) \<rho> d = \<rho> s" if h: "(d, s) \<in> handled M B"
  proof (cases "(d, s) \<in> set M")
    case True
    then have "d \<notin> fst ` set post"
      using M(2) last_fst by (metis (no_types, lifting) disjoint_iff distinct_append fst_conv image_eqI list.set_map)
    then have "run_moves post ?\<rho>2 d = ?\<rho>2 d" by (rule run_moves_other)
    also have "\<dots> = ?\<rho>1 s"
      by (rule run_moves_dst [OF M(1) _ True]) (use M(2) in simp)
    finally show ?thesis using keep1 [OF h] by (simp add: run_moves_append)
  next
    case False
    then obtain t where t: "(t, d, s) \<in> set B" using h by (force simp: handled_def)
    then have in_last: "(d, Virtual t) \<in> set post" and in_first: "(Virtual t, s) \<in> set pre"
      by (force simp: post_def pre_def)+
    have "t \<in> fst ` set B" using t by force
    then have "Virtual t \<notin> fst ` set M" using low by (force simp: handled_def)
    then have "?\<rho>2 (Virtual t) = ?\<rho>1 (Virtual t)" by (rule run_moves_other)
    also have "\<dots> = \<rho> s" by (rule run_moves_dst [OF first_ord first_dist in_first])
    finally show ?thesis
      using run_moves_dst [OF last_ord last_dist in_last, of ?\<rho>2] by (simp add: run_moves_append)
  qed
  show "run_moves (pre @ M @ post) \<rho> r = \<rho> r"
    if "r \<notin> fst ` handled M B" "r \<notin> Virtual ` fst ` set B"
  proof -
    have "fst ` set post = fst ` snd ` set B" using last_fst by (metis image_comp list.set_map)
    then have "r \<notin> fst ` set (pre @ M @ post)"
      using that temp_dst by (auto simp: handled_def image_Un)
    then show ?thesis by (rule run_moves_other)
  qed
qed

section \<open>Execution\<close>

text \<open>A straight-line run of instructions; an instruction with no step stops the run.\<close>

fun exec_all :: "('i \<Rightarrow> 'st \<Rightarrow> 'st option) \<Rightarrow> 'i list \<Rightarrow> 'st \<Rightarrow> 'st option" where
  "exec_all exec [] st = Some st"
| "exec_all exec (i # is) st = do { st1 \<leftarrow> exec i st; exec_all exec is st1 }"

lemma exec_all_append:
  "exec_all exec (is @ js) st = do { st1 \<leftarrow> exec_all exec is st; exec_all exec js st1 }"
  by (induction "is" arbitrary: st) (auto simp: bind_assoc split: Option.bind_splits)

text \<open>What a target promises of \<open>mv\<close>: outside the hard-wired zero register it writes the source's
  value to the destination and nothing else.\<close>

locale move_semantics =
  fixes T :: "('r, 'i, 'z) target_inst_scheme"
    and zero :: 'r
    and exec :: "'i \<Rightarrow> 'st \<Rightarrow> 'st option"
    and read :: "'st \<Rightarrow> 'r register \<Rightarrow> 'v"
  assumes exec_mv: "d \<noteq> Physical zero \<Longrightarrow>
    \<exists>st'. exec (mv T d s) st = Some st' \<and> read st' = (read st)(d := read st s)"
begin

lemma exec_moves:
  "\<forall>p \<in> set ps. fst p \<noteq> Physical zero \<Longrightarrow>
     \<exists>st'. exec_all exec (map (\<lambda>(d, s). mv T d s) ps) st = Some st' \<and>
       read st' = run_moves ps (read st)"
proof (induction ps arbitrary: st)
  case Nil
  then show ?case by simp
next
  case (Cons p ps)
  obtain d s where p: "p = (d, s)" by (cases p)
  with Cons.prems obtain st1 where st1: "exec (mv T d s) st = Some st1"
    "read st1 = (read st)(d := read st s)"
    using exec_mv [of d s st] by auto
  obtain st' where "exec_all exec (map (\<lambda>(d, s). mv T d s) ps) st1 = Some st'"
    "read st' = run_moves ps (read st1)"
    using Cons.IH [of st1] Cons.prems by auto
  with st1 show ?case by (simp add: p)
qed

text \<open>The emitted sequence is the parallel assignment.\<close>

lemma resolve_parallel_copy_correct:
  assumes dist: "distinct (map cm_dst moves)" and nodes: "set nodes = dom (copy_edges moves)"
    and nz: "\<forall>m \<in> set moves. cm_dst m \<noteq> Physical zero"
    and low: "\<forall>m \<in> set moves. \<forall>v. Virtual v \<in> {cm_dst m, cm_src m} \<longrightarrow> v < vreg_counter mf"
  shows "\<exists>is mf' st'. resolve_parallel_copy T nodes moves mf = Some (is, mf') \<and>
    exec_all exec is st = Some st' \<and>
    (\<forall>m \<in> set moves. read st' (cm_dst m) = read st (cm_src m)) \<and>
    (\<forall>r. r \<notin> cm_dst ` set moves \<longrightarrow> (\<forall>v. r = Virtual v \<longrightarrow> v < vreg_counter mf) \<longrightarrow>
       read st' r = read st r)"
proof -
  obtain M B where res: "resolve_parallel_copy T nodes moves mf =
      Some (map (\<lambda>(t, d, s). mv T (Virtual t) s) B @ map (\<lambda>(d, s). mv T d s) M @
            map (\<lambda>(t, d, s). mv T d (Virtual t)) B,
            mf\<lparr>vreg_counter := vreg_counter mf + length B\<rparr>)"
    and temps: "map fst B = [vreg_counter mf..<vreg_counter mf + length B]"
    and h: "\<And>d s. (d, s) \<in> handled M B \<longleftrightarrow> is_edge (copy_edges moves) s d"
    and M: "distinct (map fst M @ map (fst \<circ> snd) B)" "copy_ordered M"
    using resolve_parallel_copy_shape [OF dist nodes, of T mf] by blast
  let ?first = "map (\<lambda>(t, d, s). (Virtual t, s)) B"
  let ?last = "map (\<lambda>(t, d, s). (d, Virtual t)) B"
  let ?ps = "?first @ M @ ?last"
  have hm: "(d, s) \<in> handled M B \<longleftrightarrow> (\<exists>m \<in> set moves. d \<noteq> s \<and> d = cm_dst m \<and> s = cm_src m)" for d s
    using h [of d s] by (auto simp: is_edge_copy_edges)
  have t_ge: "vreg_counter mf \<le> t" if "t \<in> fst ` set B" for t
    using that temps by (metis atLeastLessThan_iff list.set_map set_upt)
  have apart: "Virtual t \<noteq> d \<and> Virtual t \<noteq> s" if "t \<in> fst ` set B" "(d, s) \<in> handled M B" for t d s
  proof -
    from that(2) obtain m where m: "m \<in> set moves" "d = cm_dst m" "s = cm_src m" using hm by blast
    then have "Virtual t \<in> {d, s} \<longrightarrow> t < vreg_counter mf" using low by blast
    with t_ge [OF that(1)] show ?thesis by auto
  qed
  have B: "distinct (map fst B)" using temps by simp
  note stages = run_moves_stages [OF M(2,1) B apart]
  have "fst p \<noteq> Physical zero" if "p \<in> set ?ps" for p
  proof -
    have "fst p \<in> range Virtual \<or> fst p \<in> fst ` handled M B"
      using that by (force simp: handled_def image_iff)
    then have "fst p \<in> range Virtual \<or> fst p \<in> cm_dst ` set moves" using hm by force
    then show ?thesis using nz by (metis imageE register.distinct(1))
  qed
  then obtain st' where st': "exec_all exec (map (\<lambda>(d, s). mv T d s) ?ps) st = Some st'"
      "read st' = run_moves ?ps (read st)"
    using exec_moves [of ?ps st] by blast
  have "read st' (cm_dst m) = read st (cm_src m)" if "m \<in> set moves" for m
  proof (cases "cm_dst m = cm_src m")
    case True
    have "cm_dst m \<notin> fst ` handled M B"
    proof
      assume "cm_dst m \<in> fst ` handled M B"
      then obtain m' where m': "m' \<in> set moves" "cm_dst m = cm_dst m'" "cm_dst m' \<noteq> cm_src m'"
        using hm by auto
      with dist that have "m = m'" by (simp add: distinct_map inj_on_def)
      with m' True show False by simp
    qed
    moreover have "cm_dst m \<notin> Virtual ` fst ` set B"
      using low that t_ge by (metis image_iff insertI1 leD)
    ultimately show ?thesis using stages(2) st'(2) True by simp
  next
    case False
    then have "(cm_dst m, cm_src m) \<in> handled M B" using hm that by blast
    then show ?thesis using stages(1) st'(2) by simp
  qed
  moreover have "read st' r = read st r"
    if "r \<notin> cm_dst ` set moves" "\<forall>v. r = Virtual v \<longrightarrow> v < vreg_counter mf" for r
  proof -
    have "r \<notin> fst ` handled M B" using that(1) hm by auto
    moreover have "r \<notin> Virtual ` fst ` set B" using that(2) t_ge by (metis image_iff leD)
    ultimately show ?thesis using stages(2) st'(2) by simp
  qed
  moreover have "map (\<lambda>(d, s). mv T d s) ?ps = map (\<lambda>(t, d, s). mv T (Virtual t) s) B @
      map (\<lambda>(d, s). mv T d s) M @ map (\<lambda>(t, d, s). mv T d (Virtual t)) B"
    by (simp add: case_prod_unfold)
  ultimately show ?thesis using res st'(1) by metis
qed

end

end
