(* ===== verification/Machine_Sem.thy ===== *)
theory Machine_Sem
  imports Core_Int Parallel_Copy
begin

text \<open>
  The reference machine: the RISC-V integer instructions as functions on words, a register file
  over the registers of the machine IR (virtual ones included, so that code has a meaning before
  allocation too) and a byte memory.  This is the specification the back end is checked against,
  it models no code of the repository.  The theories of the two targets give each instruction its
  step with these functions; an instruction that transfers control, or whose immediate does not
  fit its encoding, has no step.

  The locale \<open>alu_machine\<close> is the interface between a target and the lowering routines: what each
  \<open>emit_*\<close> method of \<open>LoweringTarget\<close> promises of the instruction it returns.
\<close>

section \<open>State\<close>

record ('r, 'v) mstate =
  gpr :: "'r register \<Rightarrow> 'v"
  memory :: "'v \<Rightarrow> u8"

definition get_reg :: "'r \<Rightarrow> ('r, 'w :: len word) mstate \<Rightarrow> 'r register \<Rightarrow> 'w word" where
  "get_reg zero st r = (if r = Physical zero then 0 else gpr st r)"

definition put_reg :: "'r \<Rightarrow> 'r register \<Rightarrow> 'w :: len word \<Rightarrow> ('r, 'w word) mstate \<Rightarrow> ('r, 'w word) mstate" where
  "put_reg zero r v st = (if r = Physical zero then st else st\<lparr>gpr := (gpr st)(r := v)\<rparr>)"

lemma get_put_reg:
  "get_reg zero (put_reg zero r v st) r' =
     (if r' = r \<and> r \<noteq> Physical zero then v else get_reg zero st r')"
  by (simp add: get_reg_def put_reg_def)

lemma get_put_same [simp]: "r \<noteq> Physical zero \<Longrightarrow> get_reg zero (put_reg zero r v st) r = v"
  by (simp add: get_put_reg)

lemma get_put_other [simp]: "r' \<noteq> r \<Longrightarrow> get_reg zero (put_reg zero r v st) r' = get_reg zero st r'"
  by (simp add: get_put_reg)

lemma get_reg_zero [simp]: "get_reg zero st (Physical zero) = 0"
  by (simp add: get_reg_def)

lemma memory_put_reg [simp]: "memory (put_reg zero r v st) = memory st"
  by (simp add: put_reg_def)

lemma get_reg_memory [simp]: "get_reg zero (st\<lparr>memory := m\<rparr>) r = get_reg zero st r"
  by (simp add: get_reg_def)

lemma put_put_same [simp]: "put_reg zero r v (put_reg zero r w st) = put_reg zero r v st"
  by (simp add: put_reg_def)

lemma put_reg_memory_commute: "(put_reg zero r v st)\<lparr>memory := m\<rparr> = put_reg zero r v (st\<lparr>memory := m\<rparr>)"
  by (simp add: put_reg_def)

section \<open>Immediates\<close>

definition simm :: "i32 \<Rightarrow> 'w :: len word" where
  "simm imm = word_of_int (sint imm)"

definition fits12 :: "i32 \<Rightarrow> bool" where
  "fits12 imm \<longleftrightarrow> -2048 \<le> sint imm \<and> sint imm \<le> 2047"

lemma simm_0 [simp]: "simm 0 = 0" by (simp add: simm_def)

lemma simm_m1 [simp]: "simm (- 1) = - 1" by (simp add: simm_def)

lemma fits12_0 [simp]: "fits12 0" by (simp add: fits12_def)

lemma fits12_m1 [simp]: "fits12 (- 1)" by (simp add: fits12_def)

section \<open>Memory\<close>

text \<open>Little-endian access to \<open>n\<close> bytes; addresses wrap.\<close>

fun load_le :: "nat \<Rightarrow> ('w :: len word \<Rightarrow> u8) \<Rightarrow> 'w word \<Rightarrow> int" where
  "load_le 0 m a = 0"
| "load_le (Suc n) m a = uint (m a) + 256 * load_le n m (a + 1)"

fun store_le :: "nat \<Rightarrow> 'w :: len word \<Rightarrow> int \<Rightarrow> ('w word \<Rightarrow> u8) \<Rightarrow> ('w word \<Rightarrow> u8)" where
  "store_le 0 a v m = m"
| "store_le (Suc n) a v m = (store_le n (a + 1) (v div 256) m)(a := word_of_int v)"

definition load_unsigned :: "nat \<Rightarrow> ('w :: len word \<Rightarrow> u8) \<Rightarrow> 'w word \<Rightarrow> 'w word" where
  "load_unsigned n m a = word_of_int (load_le n m a)"

definition load_signed :: "nat \<Rightarrow> ('w :: len word \<Rightarrow> u8) \<Rightarrow> 'w word \<Rightarrow> 'w word" where
  "load_signed n m a = word_of_int (signed_take_bit (8 * n - 1) (load_le n m a))"

text \<open>The \<open>n\<close> addresses from \<open>a\<close>.\<close>

definition byte_range :: "'w :: len word \<Rightarrow> nat \<Rightarrow> 'w word set" where
  "byte_range a n = (\<lambda>k. a + word_of_nat k) ` {..<n}"

lemma byte_range_Suc: "byte_range a (Suc n) = insert a (byte_range (a + 1) n)"
proof -
  have "{..<Suc n} = insert 0 (Suc ` {..<n})" by (auto simp: image_iff less_Suc_eq_0_disj)
  then show ?thesis by (simp add: byte_range_def image_image add.assoc)
qed

lemma store_le_other: "b \<notin> byte_range a n \<Longrightarrow> store_le n a v m b = m b"
  by (induction n a v m rule: store_le.induct) (auto simp: byte_range_Suc)

lemma load_le_cong: "\<forall>b \<in> byte_range a n. m b = m' b \<Longrightarrow> load_le n m a = load_le n m' a"
  by (induction n m a rule: load_le.induct) (auto simp: byte_range_Suc)

lemma load_store_disjoint:
  "byte_range a n \<inter> byte_range b k = {} \<Longrightarrow> load_le n (store_le k b v m) a = load_le n m a"
  by (rule load_le_cong) (use store_le_other in blast)

lemma word_of_nat_nonzero:
  assumes "0 < k" "k < 2 ^ LENGTH('w)"
  shows "(word_of_nat k :: 'w :: len word) \<noteq> 0"
  using assms by (simp add: word_of_nat_eq_0_iff nat_dvd_not_less)

lemma start_not_in_rest:
  assumes "n < 2 ^ LENGTH('w)"
  shows "(a :: 'w :: len word) \<notin> byte_range (a + 1) n"
proof
  assume "a \<in> byte_range (a + 1) n"
  then obtain k where "k < n" "a = a + 1 + word_of_nat k" by (auto simp: byte_range_def)
  then have "(word_of_nat (Suc k) :: 'w word) = 0" by (simp add: add.assoc)
  with word_of_nat_nonzero [of "Suc k", where 'w = 'w] \<open>k < n\<close> assms show False by simp
qed

lemma load_store_same:
  "n \<le> 2 ^ LENGTH('w) \<Longrightarrow> load_le n (store_le n (a :: 'w :: len word) v m) a = v mod 256 ^ n"
proof (induction n arbitrary: a v m)
  case 0
  then show ?case by simp
next
  case (Suc n)
  let ?m = "store_le n (a + 1) (v div 256) m"
  have "load_le n (?m(a := word_of_int v)) (a + 1) = load_le n ?m (a + 1)"
    by (rule load_le_cong) (use start_not_in_rest [of n a] Suc.prems in auto)
  also have "\<dots> = (v div 256) mod 256 ^ n" using Suc by simp
  finally have "load_le (Suc n) (store_le (Suc n) a v m) a = v mod 256 + 256 * (v div 256 mod 256 ^ n)"
    by (simp add: uint_word_of_int)
  also have "\<dots> = v mod 256 ^ Suc n"
    by (simp add: zmod_zmult2_eq)
  finally show ?case .
qed

section \<open>Arithmetic\<close>

definition shamt :: "'w :: len word \<Rightarrow> nat" where
  "shamt y = unat y mod LENGTH('w)"

definition rv_sll :: "'w :: len word \<Rightarrow> 'w word \<Rightarrow> 'w word" where
  "rv_sll x y = push_bit (shamt y) x"

definition rv_srl :: "'w :: len word \<Rightarrow> 'w word \<Rightarrow> 'w word" where
  "rv_srl x y = drop_bit (shamt y) x"

definition rv_sra :: "'w :: len word \<Rightarrow> 'w word \<Rightarrow> 'w word" where
  "rv_sra x y = word_of_int (sint x div 2 ^ shamt y)"

definition rv_slt :: "'w :: len word \<Rightarrow> 'w word \<Rightarrow> 'w word" where
  "rv_slt x y = (if sint x < sint y then 1 else 0)"

definition rv_sltu :: "'w :: len word \<Rightarrow> 'w word \<Rightarrow> 'w word" where
  "rv_sltu x y = (if x < y then 1 else 0)"

definition rv_mulh :: "int \<Rightarrow> int \<Rightarrow> 'w :: len word" where
  "rv_mulh x y = word_of_int (x * y div 2 ^ LENGTH('w))"

definition rv_div :: "'w :: len word \<Rightarrow> 'w word \<Rightarrow> 'w word" where
  "rv_div x y = (if y = 0 then - 1 else word_of_int (tdiv (sint x) (sint y)))"

definition rv_divu :: "'w :: len word \<Rightarrow> 'w word \<Rightarrow> 'w word" where
  "rv_divu x y = (if y = 0 then - 1 else x div y)"

definition rv_rem :: "'w :: len word \<Rightarrow> 'w word \<Rightarrow> 'w word" where
  "rv_rem x y = (if y = 0 then x else word_of_int (trem (sint x) (sint y)))"

definition rv_remu :: "'w :: len word \<Rightarrow> 'w word \<Rightarrow> 'w word" where
  "rv_remu x y = (if y = 0 then x else x mod y)"

text \<open>The 32-bit forms of RV64: the low halves, and the result sign extended.\<close>

definition w_op :: "(32 word \<Rightarrow> 32 word \<Rightarrow> 32 word) \<Rightarrow> 'w :: len word \<Rightarrow> 'w word \<Rightarrow> 'w word" where
  "w_op f x y = word_of_int (sint (f (word_of_int (uint x)) (word_of_int (uint y))))"

section \<open>Steps\<close>

definition step_op3 ::
  "'r \<Rightarrow> ('w :: len word \<Rightarrow> 'w word \<Rightarrow> 'w word) \<Rightarrow> 'r register \<Rightarrow> 'r register \<Rightarrow> 'r register \<Rightarrow>
     ('r, 'w word) mstate \<Rightarrow> ('r, 'w word) mstate option" where
  "step_op3 zero f rd rs1 rs2 st = Some (put_reg zero rd (f (get_reg zero st rs1) (get_reg zero st rs2)) st)"

definition step_imm ::
  "'r \<Rightarrow> ('w :: len word \<Rightarrow> 'w word \<Rightarrow> 'w word) \<Rightarrow> 'r register \<Rightarrow> 'r register \<Rightarrow> i32 \<Rightarrow>
     ('r, 'w word) mstate \<Rightarrow> ('r, 'w word) mstate option" where
  "step_imm zero f rd rs1 imm st =
     (if fits12 imm then Some (put_reg zero rd (f (get_reg zero st rs1) (simm imm)) st) else None)"

text \<open>A shift by a constant below \<open>n\<close>, the width the instruction shifts at.\<close>

definition step_shift_imm ::
  "'r \<Rightarrow> nat \<Rightarrow> ('w :: len word \<Rightarrow> 'w word \<Rightarrow> 'w word) \<Rightarrow> 'r register \<Rightarrow> 'r register \<Rightarrow> i32 \<Rightarrow>
     ('r, 'w word) mstate \<Rightarrow> ('r, 'w word) mstate option" where
  "step_shift_imm zero n f rd rs1 imm st =
     (if 0 \<le> sint imm \<and> sint imm < int n
      then Some (put_reg zero rd (f (get_reg zero st rs1) (simm imm)) st) else None)"

definition step_load ::
  "'r \<Rightarrow> (('w :: len word \<Rightarrow> u8) \<Rightarrow> 'w word \<Rightarrow> 'w word) \<Rightarrow> 'r register \<Rightarrow> 'w word \<Rightarrow>
     ('r, 'w word) mstate \<Rightarrow> ('r, 'w word) mstate option" where
  "step_load zero ld rd a st = Some (put_reg zero rd (ld (memory st) a) st)"

definition step_store ::
  "'r \<Rightarrow> nat \<Rightarrow> 'w :: len word \<Rightarrow> 'r register \<Rightarrow> ('r, 'w word) mstate \<Rightarrow> ('r, 'w word) mstate option" where
  "step_store zero n a rs st = Some (st\<lparr>memory := store_le n a (uint (get_reg zero st rs)) (memory st)\<rparr>)"

definition step_load_imm ::
  "'r \<Rightarrow> (('w :: len word \<Rightarrow> u8) \<Rightarrow> 'w word \<Rightarrow> 'w word) \<Rightarrow> 'r register \<Rightarrow> 'r register \<Rightarrow> i32 \<Rightarrow>
     ('r, 'w word) mstate \<Rightarrow> ('r, 'w word) mstate option" where
  "step_load_imm zero ld rd rs1 imm st =
     (if fits12 imm then step_load zero ld rd (get_reg zero st rs1 + simm imm) st else None)"

definition step_store_imm ::
  "'r \<Rightarrow> nat \<Rightarrow> 'r register \<Rightarrow> 'r register \<Rightarrow> i32 \<Rightarrow> ('r, 'w :: len word) mstate \<Rightarrow> ('r, 'w word) mstate option" where
  "step_store_imm zero n rs1 rs2 imm st =
     (if fits12 imm then step_store zero n (get_reg zero st rs1 + simm imm) rs2 st else None)"

text \<open>The assembler's \<open>s<n> rs, symbol, rt\<close>: \<open>rt\<close> receives a part of the address first.\<close>

definition step_store_global ::
  "'r \<Rightarrow> (symbol_id \<Rightarrow> 'w :: len word) \<Rightarrow> (symbol_id \<Rightarrow> 'w word) \<Rightarrow> nat \<Rightarrow> 'r register \<Rightarrow> symbol_id \<Rightarrow>
     'r register \<Rightarrow> ('r, 'w word) mstate \<Rightarrow> ('r, 'w word) mstate option" where
  "step_store_global zero sym_addr sym_hi n rs symbol rt st =
     step_store zero n (sym_addr symbol) rs (put_reg zero rt (sym_hi symbol) st)"

lemmas step_defs = step_op3_def step_imm_def step_shift_imm_def step_load_def step_store_def
  step_load_imm_def step_store_imm_def step_store_global_def

text \<open>Whether a conditional branch is taken.\<close>

definition rv_cond_lt :: "'w :: len word \<Rightarrow> 'w word \<Rightarrow> bool" where
  "rv_cond_lt x y \<longleftrightarrow> sint x < sint y"

section \<open>States that agree on all but some registers\<close>

definition agree_except :: "'r register set \<Rightarrow> ('r, 'v) mstate \<Rightarrow> ('r, 'v) mstate \<Rightarrow> bool" where
  "agree_except rs st st' \<longleftrightarrow> memory st' = memory st \<and> (\<forall>r. r \<notin> rs \<longrightarrow> gpr st' r = gpr st r)"

lemma agree_except_refl [simp]: "agree_except rs st st" by (simp add: agree_except_def)

lemma agree_except_put [intro]:
  "agree_except rs st st' \<Longrightarrow> r \<in> rs \<Longrightarrow> agree_except rs st (put_reg zero r v st')"
  by (auto simp: agree_except_def put_reg_def)

lemma agree_except_get: "agree_except rs st st' \<Longrightarrow> r \<notin> rs \<Longrightarrow> get_reg zero st' r = get_reg zero st r"
  by (auto simp: agree_except_def get_reg_def)

lemma agree_except_mono: "agree_except rs st st' \<Longrightarrow> rs \<subseteq> rs' \<Longrightarrow> agree_except rs' st st'"
  by (auto simp: agree_except_def)

lemma agree_except_trans:
  "agree_except rs st st1 \<Longrightarrow> agree_except rs st1 st2 \<Longrightarrow> agree_except rs st st2"
  by (simp add: agree_except_def)

section \<open>Immediates from offsets\<close>

definition i32_range :: "int \<Rightarrow> bool" where
  "i32_range k \<longleftrightarrow> -2147483648 \<le> k \<and> k \<le> 2147483647"

lemma simm_of_int: "i32_range k \<Longrightarrow> simm (word_of_int k) = word_of_int k"
  by (simp add: simm_def i32_range_def sint_i32_of_int)

lemma fits12_of_int: "i32_range k \<Longrightarrow> fits12 (word_of_int k) \<longleftrightarrow> -2048 \<le> k \<and> k \<le> 2047"
  by (simp add: fits12_def i32_range_def sint_i32_of_int)

lemma sint_of_int: "i32_range k \<Longrightarrow> sint (word_of_int k :: i32) = k"
  by (simp add: i32_range_def sint_i32_of_int)

lemma put_reg_zero [simp]: "put_reg zero (Physical zero) v st = st"
  by (simp add: put_reg_def)

lemma i32_add_of_int:
  assumes "i32_range a" "i32_range (a + sint b)"
  shows "i32_add (word_of_int a) b = Some (word_of_int (a + sint b))"
proof -
  have "i32_add (word_of_int a) b = Some (word_of_int a + b)"
    by (rule i32_add_in_range) (use assms in \<open>auto simp: i32_range_def sint_i32_of_int\<close>)
  then show ?thesis by simp
qed

lemma gpr_put_reg:
  "gpr (put_reg zero r v st) r' = (if r' = r \<and> r \<noteq> Physical zero then v else gpr st r')"
  by (simp add: put_reg_def)

section \<open>A word written and read back\<close>

lemma load_signed_store:
  assumes "LENGTH('w) = 8 * n"
  shows "load_signed n (store_le n (a :: 'w :: len word) (uint (v :: 'w word)) m) a = v"
proof -
  have n: "0 < n" using assms by (metis gr0I len_not_eq_0 mult_0_right)
  have "n < 2 ^ n" by simp
  also have "(2 :: nat) ^ n \<le> 2 ^ LENGTH('w)" using assms by simp
  finally have "n \<le> 2 ^ LENGTH('w)" by simp
  then have "load_le n (store_le n a (uint v) m) a = uint v mod 256 ^ n" by (rule load_store_same)
  also have "(256 :: int) ^ n = 2 ^ LENGTH('w)" by (simp add: assms power_mult)
  also have "uint v mod 2 ^ LENGTH('w) = uint v"
    using take_bit_eq_mod [of "LENGTH('w)" "uint v"] by simp
  finally have le: "load_le n (store_le n a (uint v) m) a = uint v" .
  have "signed_take_bit (8 * n - 1) (uint v) = sint v"
    by (simp add: sint_uint assms)
  then show ?thesis by (simp add: load_signed_def le)
qed

text \<open>Two ranges above the same base do not meet when their offsets are apart and do not wrap.\<close>

lemma byte_range_disjoint:
  assumes "a + n \<le> b" "b + k \<le> 2 ^ LENGTH('w)"
  shows "byte_range ((x :: 'w :: len word) + word_of_nat a) n \<inter> byte_range (x + word_of_nat b) k = {}"
proof -
  have False if "i < n" "j < k" "x + word_of_nat a + word_of_nat i = x + word_of_nat b + word_of_nat j" for i j
  proof -
    have "(word_of_nat (a + i) :: 'w word) = word_of_nat (b + j)"
      using that(3) by (simp add: add.assoc)
    then have "(a + i) mod 2 ^ LENGTH('w) = (b + j) mod 2 ^ LENGTH('w)"
      by (metis unat_of_nat)
    moreover have "b + j < 2 ^ LENGTH('w)" "a + i < b + j" using assms that(1,2) by linarith+
    ultimately show False by simp
  qed
  then show ?thesis by (auto simp: byte_range_def)
qed

section \<open>The environment of a run\<close>

text \<open>What the linker decides: the address of a symbol, and the part of it the assembler leaves in the
  temporary of a global store.\<close>

record 'v link_env =
  sym_addr :: "symbol_id \<Rightarrow> 'v"
  sym_hi :: "symbol_id \<Rightarrow> 'v"

section \<open>The interface of the lowering routines\<close>

text \<open>What the emitters promise.  \<open>taken\<close> is the outcome of a conditional branch.\<close>

unbundle bit_operations_syntax

locale alu_machine =
  fixes T :: "('r, 'i, 'z) target_imm_scheme"
    and exec :: "'i \<Rightarrow> ('r, 'w :: len word) mstate \<Rightarrow> ('r, 'w word) mstate option"
    and taken :: "'i \<Rightarrow> ('r, 'w word) mstate \<Rightarrow> bool option"
  assumes width: "LENGTH('w) = 8 * WORD_SIZE T" "32 \<le> LENGTH('w)"
    and exec_load_imm: "exec (load_imm T rd imm) st = Some (put_reg (zero_reg T) rd (simm imm) st)"
    and exec_move: "exec (mv T rd rs) st =
      Some (put_reg (zero_reg T) rd (get_reg (zero_reg T) st rs) st)"
    and exec_add: "exec (emit_add T rd a b) st = step_op3 (zero_reg T) (+) rd a b st"
    and exec_sub: "exec (emit_sub T rd a b) st = step_op3 (zero_reg T) (-) rd a b st"
    and exec_xor: "exec (emit_xor T rd a b) st = step_op3 (zero_reg T) (XOR) rd a b st"
    and exec_or: "exec (emit_or T rd a b) st = step_op3 (zero_reg T) (OR) rd a b st"
    and exec_and: "exec (emit_and T rd a b) st = step_op3 (zero_reg T) (AND) rd a b st"
    and exec_sll: "exec (emit_sll T rd a b) st = step_op3 (zero_reg T) rv_sll rd a b st"
    and exec_srl: "exec (emit_srl T rd a b) st = step_op3 (zero_reg T) rv_srl rd a b st"
    and exec_sra: "exec (emit_sra T rd a b) st = step_op3 (zero_reg T) rv_sra rd a b st"
    and exec_slt: "exec (emit_slt T rd a b) st = step_op3 (zero_reg T) rv_slt rd a b st"
    and exec_sltu: "exec (emit_sltu T rd a b) st = step_op3 (zero_reg T) rv_sltu rd a b st"
    and exec_mul: "exec (emit_mul T rd a b) st = step_op3 (zero_reg T) (*) rd a b st"
    and exec_div: "exec (emit_div T rd a b) st = step_op3 (zero_reg T) rv_div rd a b st"
    and exec_divu: "exec (emit_divu T rd a b) st = step_op3 (zero_reg T) rv_divu rd a b st"
    and exec_rem: "exec (emit_rem T rd a b) st = step_op3 (zero_reg T) rv_rem rd a b st"
    and exec_remu: "exec (emit_remu T rd a b) st = step_op3 (zero_reg T) rv_remu rd a b st"
    and exec_addw: "exec (emit_addw T rd a b) st = step_op3 (zero_reg T) (w_op (+)) rd a b st"
    and exec_subw: "exec (emit_subw T rd a b) st = step_op3 (zero_reg T) (w_op (-)) rd a b st"
    and exec_sllw: "exec (emit_sllw T rd a b) st = step_op3 (zero_reg T) (w_op rv_sll) rd a b st"
    and exec_srlw: "exec (emit_srlw T rd a b) st = step_op3 (zero_reg T) (w_op rv_srl) rd a b st"
    and exec_sraw: "exec (emit_sraw T rd a b) st = step_op3 (zero_reg T) (w_op rv_sra) rd a b st"
    and exec_mulw: "exec (emit_mulw T rd a b) st = step_op3 (zero_reg T) (w_op (*)) rd a b st"
    and exec_divw: "exec (emit_divw T rd a b) st = step_op3 (zero_reg T) (w_op rv_div) rd a b st"
    and exec_divuw: "exec (emit_divuw T rd a b) st = step_op3 (zero_reg T) (w_op rv_divu) rd a b st"
    and exec_remw: "exec (emit_remw T rd a b) st = step_op3 (zero_reg T) (w_op rv_rem) rd a b st"
    and exec_remuw: "exec (emit_remuw T rd a b) st = step_op3 (zero_reg T) (w_op rv_remu) rd a b st"
    and exec_addi: "exec (emit_addi T rd a imm) st = step_imm (zero_reg T) (+) rd a imm st"
    and exec_xori: "exec (emit_xori T rd a imm) st = step_imm (zero_reg T) (XOR) rd a imm st"
    and exec_ori: "exec (emit_ori T rd a imm) st = step_imm (zero_reg T) (OR) rd a imm st"
    and exec_andi: "exec (emit_andi T rd a imm) st = step_imm (zero_reg T) (AND) rd a imm st"
    and exec_sltiu: "exec (emit_sltiu T rd a imm) st = step_imm (zero_reg T) rv_sltu rd a imm st"
    and exec_slli: "exec (emit_slli T rd a imm) st =
      step_shift_imm (zero_reg T) LENGTH('w) rv_sll rd a imm st"
    and exec_srli: "exec (emit_srli T rd a imm) st =
      step_shift_imm (zero_reg T) LENGTH('w) rv_srl rd a imm st"
    and exec_srai: "exec (emit_srai T rd a imm) st =
      step_shift_imm (zero_reg T) LENGTH('w) rv_sra rd a imm st"
    and exec_addiw: "exec (emit_addiw T rd a imm) st = step_imm (zero_reg T) (w_op (+)) rd a imm st"
    and exec_slliw: "exec (emit_slliw T rd a imm) st =
      step_shift_imm (zero_reg T) 32 (w_op rv_sll) rd a imm st"
    and exec_srliw: "exec (emit_srliw T rd a imm) st =
      step_shift_imm (zero_reg T) 32 (w_op rv_srl) rd a imm st"
    and exec_sraiw: "exec (emit_sraiw T rd a imm) st =
      step_shift_imm (zero_reg T) 32 (w_op rv_sra) rd a imm st"
    and taken_eq: "taken (emit_branch_eq T a b l) st =
      Some (get_reg (zero_reg T) st a = get_reg (zero_reg T) st b)"
    and taken_ne: "taken (emit_branch_ne T a b l) st =
      Some (get_reg (zero_reg T) st a \<noteq> get_reg (zero_reg T) st b)"
    and taken_lt: "taken (emit_branch_lt T a b l) st =
      Some (sint (get_reg (zero_reg T) st a) < sint (get_reg (zero_reg T) st b))"
    and taken_ge: "taken (emit_branch_ge T a b l) st =
      Some (sint (get_reg (zero_reg T) st b) \<le> sint (get_reg (zero_reg T) st a))"
    and taken_ltu: "taken (emit_branch_ltu T a b l) st =
      Some (get_reg (zero_reg T) st a < get_reg (zero_reg T) st b)"
    and taken_geu: "taken (emit_branch_geu T a b l) st =
      Some (get_reg (zero_reg T) st b \<le> get_reg (zero_reg T) st a)"
begin

lemmas exec_simps = exec_load_imm exec_move exec_add exec_sub exec_xor exec_or exec_and exec_sll
  exec_srl exec_sra exec_slt exec_sltu exec_mul exec_div exec_divu exec_rem exec_remu exec_addw
  exec_subw exec_sllw exec_srlw exec_sraw exec_mulw exec_divw exec_divuw exec_remw exec_remuw
  exec_addi exec_xori exec_ori exec_andi exec_sltiu exec_slli exec_srli exec_srai exec_addiw
  exec_slliw exec_srliw exec_sraiw

lemmas taken_simps = taken_eq taken_ne taken_lt taken_ge taken_ltu taken_geu

end

text \<open>On a 32-bit machine the narrow operations are the plain ones.\<close>

lemma w_op_32: "w_op f x y = f x (y :: 32 word)"
  by (simp add: w_op_def)

end
