(* ===== verification/RV32.thy ===== *)
theory RV32
  imports Machine_Sem
begin

text \<open>
  The RV32 target of \<open>src/src/mir/rv32im.rs\<close>: its registers, its instructions, the methods of the three traits,
  gathered in the dictionary \<open>rv32_target\<close>, and the step function \<open>rv32_exec\<close> that gives each
  instruction its meaning on the reference machine.  The dictionary is shown to be a target
  (\<open>target_inst_laws\<close>), a move machine (\<open>move_semantics\<close>) and an ALU (\<open>alu_machine\<close>), and the
  register lists the allocator works with are shown sound for the step function.
\<close>

section \<open>Registers\<close>

datatype rv32_reg =
    Zero | Ra | Sp | Gp | Tp | T0 | T1 | T2 | S0 | S1 | A0 | A1 | A2 | A3 | A4 | A5 | A6 | A7 | S2
    | S3 | S4 | S5 | S6 | S7 | S8 | S9 | S10 | S11 | T3 | T4 | T5 | T6

text \<open>The derived order is the order of declaration.\<close>

definition rv32_regs :: "rv32_reg list" where
  "rv32_regs = [Zero, Ra, Sp, Gp, Tp, T0, T1, T2, S0, S1, A0, A1, A2, A3, A4, A5, A6, A7, S2, S3, S4, S5, S6
     , S7, S8, S9, S10, S11, T3, T4, T5, T6]"

primrec rv32_reg_index :: "rv32_reg \<Rightarrow> nat" where
  "rv32_reg_index Zero = 0"
| "rv32_reg_index Ra = 1"
| "rv32_reg_index Sp = 2"
| "rv32_reg_index Gp = 3"
| "rv32_reg_index Tp = 4"
| "rv32_reg_index T0 = 5"
| "rv32_reg_index T1 = 6"
| "rv32_reg_index T2 = 7"
| "rv32_reg_index S0 = 8"
| "rv32_reg_index S1 = 9"
| "rv32_reg_index A0 = 10"
| "rv32_reg_index A1 = 11"
| "rv32_reg_index A2 = 12"
| "rv32_reg_index A3 = 13"
| "rv32_reg_index A4 = 14"
| "rv32_reg_index A5 = 15"
| "rv32_reg_index A6 = 16"
| "rv32_reg_index A7 = 17"
| "rv32_reg_index S2 = 18"
| "rv32_reg_index S3 = 19"
| "rv32_reg_index S4 = 20"
| "rv32_reg_index S5 = 21"
| "rv32_reg_index S6 = 22"
| "rv32_reg_index S7 = 23"
| "rv32_reg_index S8 = 24"
| "rv32_reg_index S9 = 25"
| "rv32_reg_index S10 = 26"
| "rv32_reg_index S11 = 27"
| "rv32_reg_index T3 = 28"
| "rv32_reg_index T4 = 29"
| "rv32_reg_index T5 = 30"
| "rv32_reg_index T6 = 31"

lemma rv32_regs_index: "rv32_regs ! rv32_reg_index r = r"
  by (cases r) (simp_all add: rv32_regs_def)

lemma rv32_reg_index_inj [simp]: "rv32_reg_index r = rv32_reg_index r' \<longleftrightarrow> r = r'"
  by (metis rv32_regs_index)

instantiation rv32_reg :: linorder
begin

definition less_eq_rv32_reg :: "rv32_reg \<Rightarrow> rv32_reg \<Rightarrow> bool" where
  "less_eq_rv32_reg r r' \<longleftrightarrow> rv32_reg_index r \<le> rv32_reg_index r'"

definition less_rv32_reg :: "rv32_reg \<Rightarrow> rv32_reg \<Rightarrow> bool" where
  "less_rv32_reg r r' \<longleftrightarrow> rv32_reg_index r < rv32_reg_index r'"

instance
  by standard (auto simp: less_eq_rv32_reg_def less_rv32_reg_def)

end

definition rv32_reg_a :: "nat \<Rightarrow> rv32_reg option" where
  "rv32_reg_a index =
     (if index < 8 then Some ([A0, A1, A2, A3, A4, A5, A6, A7] ! index) else None)"

definition rv32_allocatable_regs :: "rv32_reg list" where
  "rv32_allocatable_regs =
     [T0, T1, T2, T3, T4, T5, S0, S1, S2, S3, S4, S5, S6, S7, S8, S9, S10, S11, A0, A1, A2,
      A3, A4, A5, A6, A7]"

definition rv32_spill_scratch_regs :: "rv32_reg list" where
  "rv32_spill_scratch_regs = [T6]"

definition rv32_is_callee_saved :: "rv32_reg \<Rightarrow> bool" where
  "rv32_is_callee_saved r \<longleftrightarrow> r \<in> {S0, S1, S2, S3, S4, S5, S6, S7, S8, S9, S10, S11}"

section \<open>Instructions\<close>

text \<open>The fields are in the order of the source; the case expressions below name them as the source
  does.\<close>

datatype (plugins only: size) rv32_inst =
    Add "rv32_reg register" "rv32_reg register" "rv32_reg register"
  | Sub "rv32_reg register" "rv32_reg register" "rv32_reg register"
  | Xor "rv32_reg register" "rv32_reg register" "rv32_reg register"
  | Or "rv32_reg register" "rv32_reg register" "rv32_reg register"
  | And "rv32_reg register" "rv32_reg register" "rv32_reg register"
  | Sll "rv32_reg register" "rv32_reg register" "rv32_reg register"
  | Srl "rv32_reg register" "rv32_reg register" "rv32_reg register"
  | Sra "rv32_reg register" "rv32_reg register" "rv32_reg register"
  | Slt "rv32_reg register" "rv32_reg register" "rv32_reg register"
  | Sltu "rv32_reg register" "rv32_reg register" "rv32_reg register"
  | Addi "rv32_reg register" "rv32_reg register" i32
  | Xori "rv32_reg register" "rv32_reg register" i32
  | Ori "rv32_reg register" "rv32_reg register" i32
  | Andi "rv32_reg register" "rv32_reg register" i32
  | Slli "rv32_reg register" "rv32_reg register" i32
  | Srli "rv32_reg register" "rv32_reg register" i32
  | Srai "rv32_reg register" "rv32_reg register" i32
  | Slti "rv32_reg register" "rv32_reg register" i32
  | Sltiu "rv32_reg register" "rv32_reg register" i32
  | Lb "rv32_reg register" "rv32_reg register" i32
  | Lh "rv32_reg register" "rv32_reg register" i32
  | Lw "rv32_reg register" "rv32_reg register" i32
  | Lbu "rv32_reg register" "rv32_reg register" i32
  | Lhu "rv32_reg register" "rv32_reg register" i32
  | Sb "rv32_reg register" "rv32_reg register" i32
  | Sh "rv32_reg register" "rv32_reg register" i32
  | Sw "rv32_reg register" "rv32_reg register" i32
  | Beq "rv32_reg register" "rv32_reg register" block_id
  | Bne "rv32_reg register" "rv32_reg register" block_id
  | Blt "rv32_reg register" "rv32_reg register" block_id
  | Bge "rv32_reg register" "rv32_reg register" block_id
  | Bltu "rv32_reg register" "rv32_reg register" block_id
  | Bgeu "rv32_reg register" "rv32_reg register" block_id
  | Jal "rv32_reg register" block_id
  | Jalr "rv32_reg register" "rv32_reg register" i32
  | Lui "rv32_reg register" i32
  | Auipc "rv32_reg register" i32
  | Mul "rv32_reg register" "rv32_reg register" "rv32_reg register"
  | Mulh "rv32_reg register" "rv32_reg register" "rv32_reg register"
  | Mulsu "rv32_reg register" "rv32_reg register" "rv32_reg register"
  | Mulu "rv32_reg register" "rv32_reg register" "rv32_reg register"
  | Div "rv32_reg register" "rv32_reg register" "rv32_reg register"
  | Divu "rv32_reg register" "rv32_reg register" "rv32_reg register"
  | Rem "rv32_reg register" "rv32_reg register" "rv32_reg register"
  | Remu "rv32_reg register" "rv32_reg register" "rv32_reg register"
  | Mv "rv32_reg register" "rv32_reg register"
  | Li "rv32_reg register" i32
  | Ret
  | La "rv32_reg register" symbol_id
  | Nop
  | Lbs "rv32_reg register" symbol_id
  | Lhs "rv32_reg register" symbol_id
  | Lws "rv32_reg register" symbol_id
  | Sbs "rv32_reg register" symbol_id "rv32_reg register"
  | Shs "rv32_reg register" symbol_id "rv32_reg register"
  | Sws "rv32_reg register" symbol_id "rv32_reg register"
  | Call symbol_id nat
  | Tail symbol_id nat
  | LoadStack "rv32_reg register" stack_slot_id
  | SaveStack "rv32_reg register" stack_slot_id "rv32_reg register"
  | StoreOutgoingArg "rv32_reg register" i32 "rv32_reg register"
  | LoadIncomingArg "rv32_reg register" i32
  | GetStackAddr "rv32_reg register" stack_slot_id

definition rv32_def_regs :: "rv32_inst \<Rightarrow> rv32_reg register list" where
  "rv32_def_regs i = (case i of
    Add rd _ _ \<Rightarrow> [rd]
  | Sub rd _ _ \<Rightarrow> [rd]
  | Xor rd _ _ \<Rightarrow> [rd]
  | Or rd _ _ \<Rightarrow> [rd]
  | And rd _ _ \<Rightarrow> [rd]
  | Sll rd _ _ \<Rightarrow> [rd]
  | Srl rd _ _ \<Rightarrow> [rd]
  | Sra rd _ _ \<Rightarrow> [rd]
  | Slt rd _ _ \<Rightarrow> [rd]
  | Sltu rd _ _ \<Rightarrow> [rd]
  | Addi rd _ _ \<Rightarrow> [rd]
  | Xori rd _ _ \<Rightarrow> [rd]
  | Ori rd _ _ \<Rightarrow> [rd]
  | Andi rd _ _ \<Rightarrow> [rd]
  | Slli rd _ _ \<Rightarrow> [rd]
  | Srli rd _ _ \<Rightarrow> [rd]
  | Srai rd _ _ \<Rightarrow> [rd]
  | Slti rd _ _ \<Rightarrow> [rd]
  | Sltiu rd _ _ \<Rightarrow> [rd]
  | Lb rd _ _ \<Rightarrow> [rd]
  | Lh rd _ _ \<Rightarrow> [rd]
  | Lw rd _ _ \<Rightarrow> [rd]
  | Lbu rd _ _ \<Rightarrow> [rd]
  | Lhu rd _ _ \<Rightarrow> [rd]
  | Jal rd _ \<Rightarrow> [rd]
  | Jalr rd _ _ \<Rightarrow> [rd]
  | Lui rd _ \<Rightarrow> [rd]
  | Auipc rd _ \<Rightarrow> [rd]
  | Mul rd _ _ \<Rightarrow> [rd]
  | Mulh rd _ _ \<Rightarrow> [rd]
  | Mulsu rd _ _ \<Rightarrow> [rd]
  | Mulu rd _ _ \<Rightarrow> [rd]
  | Div rd _ _ \<Rightarrow> [rd]
  | Divu rd _ _ \<Rightarrow> [rd]
  | Rem rd _ _ \<Rightarrow> [rd]
  | Remu rd _ _ \<Rightarrow> [rd]
  | Mv rd _ \<Rightarrow> [rd]
  | Li rd _ \<Rightarrow> [rd]
  | La rd _ \<Rightarrow> [rd]
  | Lbs rd _ \<Rightarrow> [rd]
  | Lhs rd _ \<Rightarrow> [rd]
  | Lws rd _ \<Rightarrow> [rd]
  | LoadStack rd _ \<Rightarrow> [rd]
  | LoadIncomingArg rd _ \<Rightarrow> [rd]
  | GetStackAddr rd _ \<Rightarrow> [rd]
  | Sbs _ _ rt \<Rightarrow> [rt]
  | Shs _ _ rt \<Rightarrow> [rt]
  | Sws _ _ rt \<Rightarrow> [rt]
  | SaveStack _ _ rt \<Rightarrow> [rt]
  | StoreOutgoingArg _ _ rt \<Rightarrow> [rt]
  | Call _ _ \<Rightarrow> map Physical
        [Ra, A0, A1, A2, A3, A4, A5, A6, A7, T0, T1, T2, T3, T4, T5, T6]
  | Tail _ _ \<Rightarrow> []
  | _ \<Rightarrow> [])"

definition rv32_use_regs :: "rv32_inst \<Rightarrow> rv32_reg register list" where
  "rv32_use_regs i = (case i of
    Add _ rs1 rs2 \<Rightarrow> [rs1, rs2]
  | Sub _ rs1 rs2 \<Rightarrow> [rs1, rs2]
  | Xor _ rs1 rs2 \<Rightarrow> [rs1, rs2]
  | Or _ rs1 rs2 \<Rightarrow> [rs1, rs2]
  | And _ rs1 rs2 \<Rightarrow> [rs1, rs2]
  | Sll _ rs1 rs2 \<Rightarrow> [rs1, rs2]
  | Srl _ rs1 rs2 \<Rightarrow> [rs1, rs2]
  | Sra _ rs1 rs2 \<Rightarrow> [rs1, rs2]
  | Slt _ rs1 rs2 \<Rightarrow> [rs1, rs2]
  | Sltu _ rs1 rs2 \<Rightarrow> [rs1, rs2]
  | Addi _ rs1 _ \<Rightarrow> [rs1]
  | Xori _ rs1 _ \<Rightarrow> [rs1]
  | Ori _ rs1 _ \<Rightarrow> [rs1]
  | Andi _ rs1 _ \<Rightarrow> [rs1]
  | Slli _ rs1 _ \<Rightarrow> [rs1]
  | Srli _ rs1 _ \<Rightarrow> [rs1]
  | Srai _ rs1 _ \<Rightarrow> [rs1]
  | Slti _ rs1 _ \<Rightarrow> [rs1]
  | Sltiu _ rs1 _ \<Rightarrow> [rs1]
  | Lb _ rs1 _ \<Rightarrow> [rs1]
  | Lh _ rs1 _ \<Rightarrow> [rs1]
  | Lw _ rs1 _ \<Rightarrow> [rs1]
  | Lbu _ rs1 _ \<Rightarrow> [rs1]
  | Lhu _ rs1 _ \<Rightarrow> [rs1]
  | Sb rs1 rs2 _ \<Rightarrow> [rs1, rs2]
  | Sh rs1 rs2 _ \<Rightarrow> [rs1, rs2]
  | Sw rs1 rs2 _ \<Rightarrow> [rs1, rs2]
  | Beq rs1 rs2 _ \<Rightarrow> [rs1, rs2]
  | Bne rs1 rs2 _ \<Rightarrow> [rs1, rs2]
  | Blt rs1 rs2 _ \<Rightarrow> [rs1, rs2]
  | Bge rs1 rs2 _ \<Rightarrow> [rs1, rs2]
  | Bltu rs1 rs2 _ \<Rightarrow> [rs1, rs2]
  | Bgeu rs1 rs2 _ \<Rightarrow> [rs1, rs2]
  | Jalr _ rs1 _ \<Rightarrow> [rs1]
  | Mul _ rs1 rs2 \<Rightarrow> [rs1, rs2]
  | Mulh _ rs1 rs2 \<Rightarrow> [rs1, rs2]
  | Mulsu _ rs1 rs2 \<Rightarrow> [rs1, rs2]
  | Mulu _ rs1 rs2 \<Rightarrow> [rs1, rs2]
  | Div _ rs1 rs2 \<Rightarrow> [rs1, rs2]
  | Divu _ rs1 rs2 \<Rightarrow> [rs1, rs2]
  | Rem _ rs1 rs2 \<Rightarrow> [rs1, rs2]
  | Remu _ rs1 rs2 \<Rightarrow> [rs1, rs2]
  | Mv _ rs \<Rightarrow> [rs]
  | Ret \<Rightarrow> [Physical Ra, Physical A0, Physical A1]
  | Sbs rs _ _ \<Rightarrow> [rs]
  | Shs rs _ _ \<Rightarrow> [rs]
  | Sws rs _ _ \<Rightarrow> [rs]
  | SaveStack rs _ _ \<Rightarrow> [Physical Sp, rs]
  | StoreOutgoingArg rs _ _ \<Rightarrow> [Physical Sp, rs]
  | LoadStack _ _ \<Rightarrow> [Physical Sp]
  | LoadIncomingArg _ _ \<Rightarrow> [Physical Sp]
  | GetStackAddr _ _ \<Rightarrow> [Physical Sp]
  | Call _ num_args \<Rightarrow> map Physical (take (min num_args 8) [A0, A1, A2, A3, A4, A5, A6, A7])
  | Tail _ num_args \<Rightarrow> map Physical (take (min num_args 8) [A0, A1, A2, A3, A4, A5, A6, A7])
  | _ \<Rightarrow> [])"

definition rv32_is_terminator :: "rv32_inst \<Rightarrow> bool" where
  "rv32_is_terminator i = (case i of
    Beq _ _ _ \<Rightarrow> True
  | Bne _ _ _ \<Rightarrow> True
  | Blt _ _ _ \<Rightarrow> True
  | Bge _ _ _ \<Rightarrow> True
  | Bltu _ _ _ \<Rightarrow> True
  | Bgeu _ _ _ \<Rightarrow> True
  | Jal _ _ \<Rightarrow> True
  | Jalr _ _ _ \<Rightarrow> True
  | Ret \<Rightarrow> True
  | Tail _ _ \<Rightarrow> True
  | _ \<Rightarrow> False)"

definition rv32_is_ret :: "rv32_inst \<Rightarrow> bool" where
  "rv32_is_ret i = (case i of Ret \<Rightarrow> True | _ \<Rightarrow> False)"

definition rv32_load_imm :: "rv32_reg register \<Rightarrow> i32 \<Rightarrow> rv32_inst" where
  "rv32_load_imm rd imm = Li rd imm"

definition rv32_mv :: "rv32_reg register \<Rightarrow> rv32_reg register \<Rightarrow> rv32_inst" where
  "rv32_mv rd rs = Mv rd rs"

definition rv32_get_successors :: "rv32_inst \<Rightarrow> block_id list option" where
  "rv32_get_successors i = (case i of
    Beq _ _ label \<Rightarrow> Some [label]
  | Bne _ _ label \<Rightarrow> Some [label]
  | Blt _ _ label \<Rightarrow> Some [label]
  | Bge _ _ label \<Rightarrow> Some [label]
  | Bltu _ _ label \<Rightarrow> Some [label]
  | Bgeu _ _ label \<Rightarrow> Some [label]
  | Jal _ label \<Rightarrow> Some [label]
  | Jalr _ _ _ \<Rightarrow> None
  | Ret \<Rightarrow> Some []
  | Tail _ _ \<Rightarrow> Some []
  | _ \<Rightarrow> Some [])"

text \<open>The macro of \<open>src/src/mir/macros.rs\<close>: a register in a field \<open>rd\<close> or \<open>rt\<close> is looked up in the
  map of definitions, any other register in the map of uses.\<close>

definition rv32_rewrite_vreg :: "rv32_inst \<Rightarrow> (vreg_id \<rightharpoonup> rv32_reg register) \<Rightarrow>
    (vreg_id \<rightharpoonup> rv32_reg register) \<Rightarrow> rv32_inst" where
  "rv32_rewrite_vreg i U D = (case i of
    Add rd rs1 rs2 \<Rightarrow> Add (rewrite_reg D rd) (rewrite_reg U rs1) (rewrite_reg U rs2)
  | Sub rd rs1 rs2 \<Rightarrow> Sub (rewrite_reg D rd) (rewrite_reg U rs1) (rewrite_reg U rs2)
  | Xor rd rs1 rs2 \<Rightarrow> Xor (rewrite_reg D rd) (rewrite_reg U rs1) (rewrite_reg U rs2)
  | Or rd rs1 rs2 \<Rightarrow> Or (rewrite_reg D rd) (rewrite_reg U rs1) (rewrite_reg U rs2)
  | And rd rs1 rs2 \<Rightarrow> And (rewrite_reg D rd) (rewrite_reg U rs1) (rewrite_reg U rs2)
  | Sll rd rs1 rs2 \<Rightarrow> Sll (rewrite_reg D rd) (rewrite_reg U rs1) (rewrite_reg U rs2)
  | Srl rd rs1 rs2 \<Rightarrow> Srl (rewrite_reg D rd) (rewrite_reg U rs1) (rewrite_reg U rs2)
  | Sra rd rs1 rs2 \<Rightarrow> Sra (rewrite_reg D rd) (rewrite_reg U rs1) (rewrite_reg U rs2)
  | Slt rd rs1 rs2 \<Rightarrow> Slt (rewrite_reg D rd) (rewrite_reg U rs1) (rewrite_reg U rs2)
  | Sltu rd rs1 rs2 \<Rightarrow> Sltu (rewrite_reg D rd) (rewrite_reg U rs1) (rewrite_reg U rs2)
  | Addi rd rs1 imm \<Rightarrow> Addi (rewrite_reg D rd) (rewrite_reg U rs1) imm
  | Xori rd rs1 imm \<Rightarrow> Xori (rewrite_reg D rd) (rewrite_reg U rs1) imm
  | Ori rd rs1 imm \<Rightarrow> Ori (rewrite_reg D rd) (rewrite_reg U rs1) imm
  | Andi rd rs1 imm \<Rightarrow> Andi (rewrite_reg D rd) (rewrite_reg U rs1) imm
  | Slli rd rs1 imm \<Rightarrow> Slli (rewrite_reg D rd) (rewrite_reg U rs1) imm
  | Srli rd rs1 imm \<Rightarrow> Srli (rewrite_reg D rd) (rewrite_reg U rs1) imm
  | Srai rd rs1 imm \<Rightarrow> Srai (rewrite_reg D rd) (rewrite_reg U rs1) imm
  | Slti rd rs1 imm \<Rightarrow> Slti (rewrite_reg D rd) (rewrite_reg U rs1) imm
  | Sltiu rd rs1 imm \<Rightarrow> Sltiu (rewrite_reg D rd) (rewrite_reg U rs1) imm
  | Lb rd rs1 imm \<Rightarrow> Lb (rewrite_reg D rd) (rewrite_reg U rs1) imm
  | Lh rd rs1 imm \<Rightarrow> Lh (rewrite_reg D rd) (rewrite_reg U rs1) imm
  | Lw rd rs1 imm \<Rightarrow> Lw (rewrite_reg D rd) (rewrite_reg U rs1) imm
  | Lbu rd rs1 imm \<Rightarrow> Lbu (rewrite_reg D rd) (rewrite_reg U rs1) imm
  | Lhu rd rs1 imm \<Rightarrow> Lhu (rewrite_reg D rd) (rewrite_reg U rs1) imm
  | Sb rs1 rs2 imm \<Rightarrow> Sb (rewrite_reg U rs1) (rewrite_reg U rs2) imm
  | Sh rs1 rs2 imm \<Rightarrow> Sh (rewrite_reg U rs1) (rewrite_reg U rs2) imm
  | Sw rs1 rs2 imm \<Rightarrow> Sw (rewrite_reg U rs1) (rewrite_reg U rs2) imm
  | Beq rs1 rs2 label \<Rightarrow> Beq (rewrite_reg U rs1) (rewrite_reg U rs2) label
  | Bne rs1 rs2 label \<Rightarrow> Bne (rewrite_reg U rs1) (rewrite_reg U rs2) label
  | Blt rs1 rs2 label \<Rightarrow> Blt (rewrite_reg U rs1) (rewrite_reg U rs2) label
  | Bge rs1 rs2 label \<Rightarrow> Bge (rewrite_reg U rs1) (rewrite_reg U rs2) label
  | Bltu rs1 rs2 label \<Rightarrow> Bltu (rewrite_reg U rs1) (rewrite_reg U rs2) label
  | Bgeu rs1 rs2 label \<Rightarrow> Bgeu (rewrite_reg U rs1) (rewrite_reg U rs2) label
  | Jal rd label \<Rightarrow> Jal (rewrite_reg D rd) label
  | Jalr rd rs1 imm \<Rightarrow> Jalr (rewrite_reg D rd) (rewrite_reg U rs1) imm
  | Lui rd imm \<Rightarrow> Lui (rewrite_reg D rd) imm
  | Auipc rd imm \<Rightarrow> Auipc (rewrite_reg D rd) imm
  | Mul rd rs1 rs2 \<Rightarrow> Mul (rewrite_reg D rd) (rewrite_reg U rs1) (rewrite_reg U rs2)
  | Mulh rd rs1 rs2 \<Rightarrow> Mulh (rewrite_reg D rd) (rewrite_reg U rs1) (rewrite_reg U rs2)
  | Mulsu rd rs1 rs2 \<Rightarrow> Mulsu (rewrite_reg D rd) (rewrite_reg U rs1) (rewrite_reg U rs2)
  | Mulu rd rs1 rs2 \<Rightarrow> Mulu (rewrite_reg D rd) (rewrite_reg U rs1) (rewrite_reg U rs2)
  | Div rd rs1 rs2 \<Rightarrow> Div (rewrite_reg D rd) (rewrite_reg U rs1) (rewrite_reg U rs2)
  | Divu rd rs1 rs2 \<Rightarrow> Divu (rewrite_reg D rd) (rewrite_reg U rs1) (rewrite_reg U rs2)
  | Rem rd rs1 rs2 \<Rightarrow> Rem (rewrite_reg D rd) (rewrite_reg U rs1) (rewrite_reg U rs2)
  | Remu rd rs1 rs2 \<Rightarrow> Remu (rewrite_reg D rd) (rewrite_reg U rs1) (rewrite_reg U rs2)
  | Mv rd rs \<Rightarrow> Mv (rewrite_reg D rd) (rewrite_reg U rs)
  | Li rd imm \<Rightarrow> Li (rewrite_reg D rd) imm
  | Ret \<Rightarrow> Ret
  | La rd label \<Rightarrow> La (rewrite_reg D rd) label
  | Nop \<Rightarrow> Nop
  | Lbs rd symbol \<Rightarrow> Lbs (rewrite_reg D rd) symbol
  | Lhs rd symbol \<Rightarrow> Lhs (rewrite_reg D rd) symbol
  | Lws rd symbol \<Rightarrow> Lws (rewrite_reg D rd) symbol
  | Sbs rs symbol rt \<Rightarrow> Sbs (rewrite_reg U rs) symbol (rewrite_reg D rt)
  | Shs rs symbol rt \<Rightarrow> Shs (rewrite_reg U rs) symbol (rewrite_reg D rt)
  | Sws rs symbol rt \<Rightarrow> Sws (rewrite_reg U rs) symbol (rewrite_reg D rt)
  | Call func num_args \<Rightarrow> Call func num_args
  | Tail func num_args \<Rightarrow> Tail func num_args
  | LoadStack rd slot \<Rightarrow> LoadStack (rewrite_reg D rd) slot
  | SaveStack rs slot rt \<Rightarrow> SaveStack (rewrite_reg U rs) slot (rewrite_reg D rt)
  | StoreOutgoingArg rs offset rt \<Rightarrow> StoreOutgoingArg (rewrite_reg U rs) offset (rewrite_reg D rt)
  | LoadIncomingArg rd offset \<Rightarrow> LoadIncomingArg (rewrite_reg D rd) offset
  | GetStackAddr rd slot \<Rightarrow> GetStackAddr (rewrite_reg D rd) slot)"

definition rv32_is_call :: "rv32_inst \<Rightarrow> bool" where
  "rv32_is_call i = (case i of Call _ _ \<Rightarrow> True | _ \<Rightarrow> False)"

definition rv32_size_in_bytes :: "rv32_inst \<Rightarrow> nat" where
  "rv32_size_in_bytes i = (case i of
    Call _ _ \<Rightarrow> 8
  | Tail _ _ \<Rightarrow> 8
  | La _ _ \<Rightarrow> 8
  | Lbs _ _ \<Rightarrow> 8
  | Lhs _ _ \<Rightarrow> 8
  | Lws _ _ \<Rightarrow> 8
  | Sbs _ _ _ \<Rightarrow> 8
  | Shs _ _ _ \<Rightarrow> 8
  | Sws _ _ _ \<Rightarrow> 8
  | Li _ imm \<Rightarrow> (if -2048 \<le> sint imm \<and> sint imm \<le> 2047 then 4 else 8)
  | _ \<Rightarrow> 4)"

definition rv32_get_branch_target :: "rv32_inst \<Rightarrow> block_id option" where
  "rv32_get_branch_target i = (case i of
    Beq _ _ label \<Rightarrow> Some label
  | Bne _ _ label \<Rightarrow> Some label
  | Blt _ _ label \<Rightarrow> Some label
  | Bge _ _ label \<Rightarrow> Some label
  | Bltu _ _ label \<Rightarrow> Some label
  | Bgeu _ _ label \<Rightarrow> Some label
  | _ \<Rightarrow> None)"

definition rv32_set_branch_target :: "rv32_inst \<Rightarrow> block_id \<Rightarrow> rv32_inst" where
  "rv32_set_branch_target i b = (case i of
    Beq rs1 rs2 _ \<Rightarrow> Beq rs1 rs2 b
  | Bne rs1 rs2 _ \<Rightarrow> Bne rs1 rs2 b
  | Blt rs1 rs2 _ \<Rightarrow> Blt rs1 rs2 b
  | Bge rs1 rs2 _ \<Rightarrow> Bge rs1 rs2 b
  | Bltu rs1 rs2 _ \<Rightarrow> Bltu rs1 rs2 b
  | Bgeu rs1 rs2 _ \<Rightarrow> Bgeu rs1 rs2 b
  | _ \<Rightarrow> i)"

definition rv32_def_conflict_regs ::
  "rv32_inst \<Rightarrow> rv32_reg register \<rightharpoonup> rv32_reg register list" where
  "rv32_def_conflict_regs i = (case i of
    SaveStack rs _ rt \<Rightarrow> [rt \<mapsto> [rs]]
  | StoreOutgoingArg rs _ rt \<Rightarrow> [rt \<mapsto> [rs]]
  | _ \<Rightarrow> Map.empty)"

definition rv32_as_move :: "rv32_inst \<Rightarrow> (rv32_reg register \<times> rv32_reg register) option" where
  "rv32_as_move i = (case i of
    Mv rd rs \<Rightarrow> Some (rd, rs)
  | Addi rd rs1 imm \<Rightarrow> if imm = 0 then Some (rd, rs1) else None
  | Xori rd rs1 imm \<Rightarrow> if imm = 0 then Some (rd, rs1) else None
  | Ori rd rs1 imm \<Rightarrow> if imm = 0 then Some (rd, rs1) else None
  | Andi rd rs1 imm \<Rightarrow> if imm = - 1 then Some (rd, rs1) else None
  | _ \<Rightarrow> None)"

section \<open>Lowering methods\<close>

definition rv32_stack_arg_offset :: "nat \<Rightarrow> i32" where
  "rv32_stack_arg_offset stack_index = word_of_nat (stack_index * 4)"

definition rv32_emit_jump :: "block_id \<Rightarrow> rv32_inst" where
  "rv32_emit_jump label = Jal (Physical Zero) label"

definition rv32_emit_load_mem ::
  "rv32_reg register \<Rightarrow> rv32_reg register \<Rightarrow> i32 \<Rightarrow> nat \<Rightarrow> bool \<Rightarrow> rv32_inst option" where
  "rv32_emit_load_mem rd rs1 imm size_bytes unsigned_load =
     (if size_bytes = 1 then Some (if unsigned_load then Lbu rd rs1 imm else Lb rd rs1 imm)
      else if size_bytes = 2 then Some (if unsigned_load then Lhu rd rs1 imm else Lh rd rs1 imm)
      else if size_bytes = 4 then Some (Lw rd rs1 imm)
      else None)"

definition rv32_emit_load_global ::
  "rv32_reg register \<Rightarrow> symbol_id \<Rightarrow> nat \<Rightarrow> bool \<Rightarrow> rv32_inst option" where
  "rv32_emit_load_global rd symbol size_bytes unsigned_load =
     (if size_bytes = 1 \<and> \<not> unsigned_load then Some (Lbs rd symbol)
      else if size_bytes = 2 \<and> \<not> unsigned_load then Some (Lhs rd symbol)
      else if size_bytes = 4 then Some (Lws rd symbol)
      else None)"

definition rv32_emit_store_mem ::
  "rv32_reg register \<Rightarrow> rv32_reg register \<Rightarrow> i32 \<Rightarrow> nat \<Rightarrow> rv32_inst option" where
  "rv32_emit_store_mem rs1 rs2 imm size_bytes =
     (if size_bytes = 1 then Some (Sb rs1 rs2 imm)
      else if size_bytes = 2 then Some (Sh rs1 rs2 imm)
      else if size_bytes = 4 then Some (Sw rs1 rs2 imm)
      else None)"

definition rv32_emit_store_global ::
  "rv32_reg register \<Rightarrow> symbol_id \<Rightarrow> nat \<Rightarrow> rv32_reg register \<Rightarrow> rv32_inst option" where
  "rv32_emit_store_global rs symbol size_bytes rt =
     (if size_bytes = 1 then Some (Sbs rs symbol rt)
      else if size_bytes = 2 then Some (Shs rs symbol rt)
      else if size_bytes = 4 then Some (Sws rs symbol rt)
      else None)"

definition rv32_emit_adjust_sp :: "int \<Rightarrow> rv32_inst list" where
  "rv32_emit_adjust_sp offset =
     (if offset = 0 then []
      else if -2048 \<le> offset \<and> offset \<le> 2047 then
        [Addi (Physical Sp) (Physical Sp) (word_of_int offset)]
      else let temp_reg = rv32_spill_scratch_regs ! 0 in
        [Li (Physical temp_reg) (word_of_int offset),
         Add (Physical Sp) (Physical Sp) (Physical temp_reg)])"

text \<open>\<open>slot_offsets[slot]\<close> panics on a slot without offset, and the sum of two \<open>i32\<close> on overflow.\<close>

definition rv32_expand_pseudo :: "rv32_inst \<Rightarrow> rv32_reg frame_layout \<Rightarrow> rv32_inst list option" where
  "rv32_expand_pseudo i fl = (case i of
    LoadStack rd slot \<Rightarrow> do {
      offset \<leftarrow> slot_offsets fl slot;
      Some (if -2048 \<le> offset \<and> offset \<le> 2047
        then [Lw rd (Physical Sp) (word_of_int offset)]
        else [Li rd (word_of_int offset), Add rd (Physical Sp) rd, Lw rd rd 0]) }
  | SaveStack rs slot rt \<Rightarrow> do {
      offset \<leftarrow> slot_offsets fl slot;
      Some (if -2048 \<le> offset \<and> offset \<le> 2047
        then [Sw (Physical Sp) rs (word_of_int offset)]
        else [Li rt (word_of_int offset), Add rt (Physical Sp) rt, Sw rt rs 0]) }
  | StoreOutgoingArg rs arg_offset rt \<Rightarrow> do {
      offset \<leftarrow> i32_add (word_of_int (outgoing_arg_offset fl)) arg_offset;
      Some (if -2048 \<le> sint offset \<and> sint offset \<le> 2047
        then [Sw (Physical Sp) rs offset]
        else [Li rt offset, Add rt (Physical Sp) rt, Sw rt rs 0]) }
  | LoadIncomingArg rd arg_offset \<Rightarrow> do {
      offset \<leftarrow> i32_add (word_of_int (incoming_arg_offset fl)) arg_offset;
      Some (if -2048 \<le> sint offset \<and> sint offset \<le> 2047
        then [Lw rd (Physical Sp) offset]
        else [Li rd offset, Add rd (Physical Sp) rd, Lw rd rd 0]) }
  | GetStackAddr rd slot \<Rightarrow> do {
      slot_offset \<leftarrow> slot_offsets fl slot;
      let offset = (word_of_int slot_offset :: i32);
      Some (if -2048 \<le> sint offset \<and> sint offset \<le> 2047
        then [Addi rd (Physical Sp) offset]
        else [Li rd offset, Add rd (Physical Sp) rd]) }
  | _ \<Rightarrow> Some [i])"

definition rv32_is_jump_to :: "rv32_inst \<Rightarrow> block_id \<Rightarrow> bool" where
  "rv32_is_jump_to i target = (case i of
    Jal rd label \<Rightarrow> rd = Physical Zero \<and> label = target
  | _ \<Rightarrow> False)"

section \<open>The dictionary\<close>

text \<open>The \<open>w\<close> methods are the defaults of the trait: a 32-bit target needs no narrow forms.\<close>

definition rv32_target :: "(rv32_reg, rv32_inst) lowering_target" where
  "rv32_target = \<lparr>
     get_allocatable_regs = rv32_allocatable_regs, spill_scratch_regs = rv32_spill_scratch_regs,
     is_callee_saved = rv32_is_callee_saved, branch_offset_range = (-4096, 4095),
     def_regs = rv32_def_regs, use_regs = rv32_use_regs, def_conflict_regs = rv32_def_conflict_regs,
     is_terminator = rv32_is_terminator, is_ret = rv32_is_ret, get_successors = rv32_get_successors,
     load_imm = rv32_load_imm, mv = rv32_mv, rewrite_vreg = rv32_rewrite_vreg, is_call = rv32_is_call,
     size_in_bytes = rv32_size_in_bytes, get_branch_target = rv32_get_branch_target,
     set_branch_target = rv32_set_branch_target, as_move = rv32_as_move,
     WORD_SIZE = 4, FRAME_ALIGN = 16, SHIFT_AMT_BITS = 5,
     zero_reg = Zero, return_reg = A0, ra_reg = Ra, sp_reg = Sp, arg_reg = rv32_reg_a,
     num_arg_regs = 8, stack_arg_size = 4, stack_arg_offset = rv32_stack_arg_offset,
     emit_add = Add, emit_sub = Sub, emit_xor = Xor, emit_or = Or, emit_and = And, emit_sll = Sll
     , emit_srl = Srl, emit_sra = Sra, emit_slt = Slt, emit_sltu = Sltu, emit_mul = Mul
     , emit_div = Div, emit_divu = Divu, emit_rem = Rem, emit_remu = Remu, emit_addw = Add
     , emit_subw = Sub, emit_sllw = Sll, emit_srlw = Srl, emit_sraw = Sra, emit_mulw = Mul
     , emit_divw = Div, emit_divuw = Divu, emit_remw = Rem, emit_remuw = Remu, emit_addi = Addi
     , emit_xori = Xori, emit_ori = Ori, emit_andi = Andi, emit_slli = Slli, emit_srli = Srli
     , emit_srai = Srai, emit_addiw = Addi, emit_slliw = Slli, emit_srliw = Srli, emit_sraiw = Srai
     , emit_sltiu = Sltiu, emit_branch_ne = Bne, emit_branch_eq = Beq, emit_branch_lt = Blt
     , emit_branch_ge = Bge, emit_branch_ltu = Bltu, emit_branch_geu = Bgeu
     , emit_jump = rv32_emit_jump, emit_call = Call, emit_ret = Ret
     , emit_load_mem = rv32_emit_load_mem, emit_load_global = rv32_emit_load_global
     , emit_load_symbol_addr = La, emit_store_mem = rv32_emit_store_mem
     , emit_store_global = rv32_emit_store_global, emit_store_outgoing_arg = StoreOutgoingArg
     , emit_load_incoming_arg = LoadIncomingArg, emit_get_stack_addr = GetStackAddr
     , emit_load_stack_slot = LoadStack, emit_store_stack_slot = SaveStack
     , emit_adjust_sp = rv32_emit_adjust_sp, expand_pseudo = rv32_expand_pseudo
     , is_jump_to = rv32_is_jump_to\<rparr>"

section \<open>Meaning\<close>

unbundle bit_operations_syntax

text \<open>The frame pseudo-instructions mean an access relative to the stack pointer; the scratch register
  of a store keeps its value here, and is exempt from the claims.\<close>

definition rv32_exec ::
  "32 word link_env \<Rightarrow> rv32_reg frame_layout \<Rightarrow> rv32_inst \<Rightarrow> (rv32_reg, 32 word) mstate \<Rightarrow>
     (rv32_reg, 32 word) mstate option" where
  "rv32_exec E fl i st = (case i of
    Add rd rs1 rs2 \<Rightarrow> step_op3 Zero (+) rd rs1 rs2 st
  | Sub rd rs1 rs2 \<Rightarrow> step_op3 Zero (-) rd rs1 rs2 st
  | Xor rd rs1 rs2 \<Rightarrow> step_op3 Zero (XOR) rd rs1 rs2 st
  | Or rd rs1 rs2 \<Rightarrow> step_op3 Zero (OR) rd rs1 rs2 st
  | And rd rs1 rs2 \<Rightarrow> step_op3 Zero (AND) rd rs1 rs2 st
  | Sll rd rs1 rs2 \<Rightarrow> step_op3 Zero rv_sll rd rs1 rs2 st
  | Srl rd rs1 rs2 \<Rightarrow> step_op3 Zero rv_srl rd rs1 rs2 st
  | Sra rd rs1 rs2 \<Rightarrow> step_op3 Zero rv_sra rd rs1 rs2 st
  | Slt rd rs1 rs2 \<Rightarrow> step_op3 Zero rv_slt rd rs1 rs2 st
  | Sltu rd rs1 rs2 \<Rightarrow> step_op3 Zero rv_sltu rd rs1 rs2 st
  | Addi rd rs1 imm \<Rightarrow> step_imm Zero (+) rd rs1 imm st
  | Xori rd rs1 imm \<Rightarrow> step_imm Zero (XOR) rd rs1 imm st
  | Ori rd rs1 imm \<Rightarrow> step_imm Zero (OR) rd rs1 imm st
  | Andi rd rs1 imm \<Rightarrow> step_imm Zero (AND) rd rs1 imm st
  | Slli rd rs1 imm \<Rightarrow> step_shift_imm Zero 32 rv_sll rd rs1 imm st
  | Srli rd rs1 imm \<Rightarrow> step_shift_imm Zero 32 rv_srl rd rs1 imm st
  | Srai rd rs1 imm \<Rightarrow> step_shift_imm Zero 32 rv_sra rd rs1 imm st
  | Slti rd rs1 imm \<Rightarrow> step_imm Zero rv_slt rd rs1 imm st
  | Sltiu rd rs1 imm \<Rightarrow> step_imm Zero rv_sltu rd rs1 imm st
  | Lb rd rs1 imm \<Rightarrow> step_load_imm Zero (load_signed 1) rd rs1 imm st
  | Lh rd rs1 imm \<Rightarrow> step_load_imm Zero (load_signed 2) rd rs1 imm st
  | Lw rd rs1 imm \<Rightarrow> step_load_imm Zero (load_signed 4) rd rs1 imm st
  | Lbu rd rs1 imm \<Rightarrow> step_load_imm Zero (load_unsigned 1) rd rs1 imm st
  | Lhu rd rs1 imm \<Rightarrow> step_load_imm Zero (load_unsigned 2) rd rs1 imm st
  | Sb rs1 rs2 imm \<Rightarrow> step_store_imm Zero 1 rs1 rs2 imm st
  | Sh rs1 rs2 imm \<Rightarrow> step_store_imm Zero 2 rs1 rs2 imm st
  | Sw rs1 rs2 imm \<Rightarrow> step_store_imm Zero 4 rs1 rs2 imm st
  | Beq _ _ _ \<Rightarrow> None
  | Bne _ _ _ \<Rightarrow> None
  | Blt _ _ _ \<Rightarrow> None
  | Bge _ _ _ \<Rightarrow> None
  | Bltu _ _ _ \<Rightarrow> None
  | Bgeu _ _ _ \<Rightarrow> None
  | Jal _ _ \<Rightarrow> None
  | Jalr _ _ _ \<Rightarrow> None
  | Lui rd imm \<Rightarrow> Some (put_reg Zero rd (simm imm * 4096) st)
  | Auipc _ _ \<Rightarrow> None
  | Mul rd rs1 rs2 \<Rightarrow> step_op3 Zero (*) rd rs1 rs2 st
  | Mulh rd rs1 rs2 \<Rightarrow> step_op3 Zero (\<lambda>x y. rv_mulh (sint x) (sint y)) rd rs1 rs2 st
  | Mulsu rd rs1 rs2 \<Rightarrow> step_op3 Zero (\<lambda>x y. rv_mulh (sint x) (uint y)) rd rs1 rs2 st
  | Mulu rd rs1 rs2 \<Rightarrow> step_op3 Zero (\<lambda>x y. rv_mulh (uint x) (uint y)) rd rs1 rs2 st
  | Div rd rs1 rs2 \<Rightarrow> step_op3 Zero rv_div rd rs1 rs2 st
  | Divu rd rs1 rs2 \<Rightarrow> step_op3 Zero rv_divu rd rs1 rs2 st
  | Rem rd rs1 rs2 \<Rightarrow> step_op3 Zero rv_rem rd rs1 rs2 st
  | Remu rd rs1 rs2 \<Rightarrow> step_op3 Zero rv_remu rd rs1 rs2 st
  | Mv rd rs \<Rightarrow> Some (put_reg Zero rd (get_reg Zero st rs) st)
  | Li rd imm \<Rightarrow> Some (put_reg Zero rd (simm imm) st)
  | Ret \<Rightarrow> None
  | La rd label \<Rightarrow> Some (put_reg Zero rd (sym_addr E label) st)
  | Nop \<Rightarrow> Some st
  | Lbs rd symbol \<Rightarrow> step_load Zero (load_signed 1) rd (sym_addr E symbol) st
  | Lhs rd symbol \<Rightarrow> step_load Zero (load_signed 2) rd (sym_addr E symbol) st
  | Lws rd symbol \<Rightarrow> step_load Zero (load_signed 4) rd (sym_addr E symbol) st
  | Sbs rs symbol rt \<Rightarrow> step_store_global Zero (sym_addr E) (sym_hi E) 1 rs symbol rt st
  | Shs rs symbol rt \<Rightarrow> step_store_global Zero (sym_addr E) (sym_hi E) 2 rs symbol rt st
  | Sws rs symbol rt \<Rightarrow> step_store_global Zero (sym_addr E) (sym_hi E) 4 rs symbol rt st
  | Call _ _ \<Rightarrow> None
  | Tail _ _ \<Rightarrow> None
  | LoadStack rd slot \<Rightarrow> do {
      offset \<leftarrow> slot_offsets fl slot;
      step_load Zero (load_signed 4) rd (get_reg Zero st (Physical Sp) + word_of_int offset) st }
  | SaveStack rs slot rt \<Rightarrow> do {
      offset \<leftarrow> slot_offsets fl slot;
      step_store Zero 4 (get_reg Zero st (Physical Sp) + word_of_int offset) rs st }
  | StoreOutgoingArg rs offset rt \<Rightarrow> step_store Zero 4
      (get_reg Zero st (Physical Sp) + word_of_int (outgoing_arg_offset fl + sint offset)) rs st
  | LoadIncomingArg rd offset \<Rightarrow> step_load Zero (load_signed 4) rd
      (get_reg Zero st (Physical Sp) + word_of_int (incoming_arg_offset fl + sint offset)) st
  | GetStackAddr rd slot \<Rightarrow> do {
      offset \<leftarrow> slot_offsets fl slot;
      Some (put_reg Zero rd (get_reg Zero st (Physical Sp) + word_of_int offset) st) })"

definition rv32_branch_taken :: "rv32_inst \<Rightarrow> (rv32_reg, 32 word) mstate \<Rightarrow> bool option" where
  "rv32_branch_taken i st = (case i of
    Beq rs1 rs2 _ \<Rightarrow> Some (get_reg Zero st rs1 = get_reg Zero st rs2)
  | Bne rs1 rs2 _ \<Rightarrow> Some (get_reg Zero st rs1 \<noteq> get_reg Zero st rs2)
  | Blt rs1 rs2 _ \<Rightarrow> Some (sint (get_reg Zero st rs1) < sint (get_reg Zero st rs2))
  | Bge rs1 rs2 _ \<Rightarrow> Some (sint (get_reg Zero st rs2) \<le> sint (get_reg Zero st rs1))
  | Bltu rs1 rs2 _ \<Rightarrow> Some (get_reg Zero st rs1 < get_reg Zero st rs2)
  | Bgeu rs1 rs2 _ \<Rightarrow> Some (get_reg Zero st rs2 \<le> get_reg Zero st rs1)
  | _ \<Rightarrow> None)"

section \<open>The target's laws\<close>

lemmas rv32_inst_defs = rv32_def_regs_def rv32_use_regs_def rv32_is_terminator_def
  rv32_get_successors_def rv32_is_call_def rv32_rewrite_vreg_def rv32_get_branch_target_def
  rv32_set_branch_target_def rv32_size_in_bytes_def rv32_as_move_def rv32_def_conflict_regs_def
  rv32_mv_def

lemma rv32_target_sel [simp]:
  "def_regs rv32_target = rv32_def_regs" "use_regs rv32_target = rv32_use_regs"
  "is_terminator rv32_target = rv32_is_terminator" "get_successors rv32_target = rv32_get_successors"
  "is_call rv32_target = rv32_is_call" "rewrite_vreg rv32_target = rv32_rewrite_vreg"
  "get_branch_target rv32_target = rv32_get_branch_target"
  "set_branch_target rv32_target = rv32_set_branch_target"
  "size_in_bytes rv32_target = rv32_size_in_bytes" "as_move rv32_target = rv32_as_move"
  "def_conflict_regs rv32_target = rv32_def_conflict_regs" "mv rv32_target = rv32_mv"
  "load_imm rv32_target = rv32_load_imm" "is_ret rv32_target = rv32_is_ret"
  "is_jump_to rv32_target = rv32_is_jump_to" "emit_jump rv32_target = rv32_emit_jump"
  "expand_pseudo rv32_target = rv32_expand_pseudo" "emit_adjust_sp rv32_target = rv32_emit_adjust_sp"
  "zero_reg rv32_target = Zero" "sp_reg rv32_target = Sp" "ra_reg rv32_target = Ra"
  "return_reg rv32_target = A0" "WORD_SIZE rv32_target = 4" "FRAME_ALIGN rv32_target = 16"
  "branch_offset_range rv32_target = (-4096, 4095)"
  "get_allocatable_regs rv32_target = rv32_allocatable_regs"
  "spill_scratch_regs rv32_target = rv32_spill_scratch_regs"
  "is_callee_saved rv32_target = rv32_is_callee_saved"
  "emit_load_stack_slot rv32_target = LoadStack" "emit_store_stack_slot rv32_target = SaveStack"
  by (simp_all add: rv32_target_def)

interpretation rv32_laws: target_inst_laws rv32_target
proof
  fix i :: rv32_inst and U D
  show "def_regs rv32_target (rewrite_vreg rv32_target i U D) =
      map (rewrite_reg D) (def_regs rv32_target i)"
    by (cases i) (simp_all add: rv32_inst_defs)
  show "use_regs rv32_target (rewrite_vreg rv32_target i U D) =
      map (rewrite_reg U) (use_regs rv32_target i)"
    by (cases i) (simp_all add: rv32_inst_defs del: map_map)
  show "is_terminator rv32_target (rewrite_vreg rv32_target i U D) = is_terminator rv32_target i"
    by (cases i) (simp_all add: rv32_inst_defs)
  show "get_successors rv32_target (rewrite_vreg rv32_target i U D) = get_successors rv32_target i"
    by (cases i) (simp_all add: rv32_inst_defs)
  show "is_call rv32_target (rewrite_vreg rv32_target i U D) = is_call rv32_target i"
    by (cases i) (simp_all add: rv32_inst_defs)
  show "rewrite_vreg rv32_target i Map.empty Map.empty = i"
    by (cases i) (simp_all add: rv32_inst_defs)
next
  fix i :: rv32_inst and b b'
  assume "get_branch_target rv32_target i = Some b"
  then show "is_terminator rv32_target i \<and> get_successors rv32_target i = Some [b]"
    "get_branch_target rv32_target (set_branch_target rv32_target i b') = Some b' \<and>
      set_branch_target rv32_target i b = i \<and>
      size_in_bytes rv32_target (set_branch_target rv32_target i b') = size_in_bytes rv32_target i"
    by (cases i; simp add: rv32_inst_defs)+
next
  fix i :: rv32_inst and d s
  assume "as_move rv32_target i = Some (d, s)"
  then show "def_regs rv32_target i = [d] \<and> use_regs rv32_target i = [s]"
    by (cases i) (auto simp: rv32_inst_defs split: if_splits)
next
  fix d s
  show "as_move rv32_target (mv rv32_target d s) = Some (d, s)" by (simp add: rv32_inst_defs)
next
  fix i :: rv32_inst and d cs
  assume "def_conflict_regs rv32_target i d = Some cs"
  then show "d \<in> set (def_regs rv32_target i) \<and> set cs \<subseteq> set (use_regs rv32_target i)"
    by (cases i) (auto simp: rv32_inst_defs split: if_splits)
next
  fix i :: rv32_inst
  show "0 < size_in_bytes rv32_target i" by (cases i) (simp_all add: rv32_inst_defs)
qed

interpretation rv32_moves: move_semantics rv32_target Zero "rv32_exec E fl" "get_reg Zero" for E fl
proof
  fix d s :: "rv32_reg register" and st
  assume "d \<noteq> Physical Zero"
  then show "\<exists>st'. rv32_exec E fl (mv rv32_target d s) st = Some st' \<and>
      get_reg Zero st' = (get_reg Zero st)(d := get_reg Zero st s)"
    by (auto simp: rv32_mv_def rv32_exec_def get_put_reg fun_eq_iff)
qed

interpretation rv32_alu: alu_machine rv32_target "rv32_exec E fl" rv32_branch_taken for E fl
  by unfold_locales (simp_all add: rv32_target_def rv32_exec_def rv32_branch_taken_def rv32_load_imm_def
    rv32_mv_def step_op3_def step_imm_def step_shift_imm_def w_op_32)

end
