(* ===== verification/RV64.thy ===== *)
theory RV64
  imports Machine_Sem
begin

text \<open>
  The RV64 target of \<open>src/src/mir/rv64i.rs\<close>: its registers, its instructions, the methods of the three traits,
  gathered in the dictionary \<open>rv64_target\<close>, and the step function \<open>rv64_exec\<close> that gives each
  instruction its meaning on the reference machine.  The dictionary is shown to be a target
  (\<open>target_inst_laws\<close>), a move machine (\<open>move_semantics\<close>) and an ALU (\<open>alu_machine\<close>), and the
  register lists the allocator works with are shown sound for the step function.
\<close>

section \<open>Registers\<close>

datatype rv64_reg =
    Zero | Ra | Sp | Gp | Tp | T0 | T1 | T2 | S0 | S1 | A0 | A1 | A2 | A3 | A4 | A5 | A6 | A7 | S2
    | S3 | S4 | S5 | S6 | S7 | S8 | S9 | S10 | S11 | T3 | T4 | T5 | T6

text \<open>The derived order is the order of declaration.\<close>

definition rv64_regs :: "rv64_reg list" where
  "rv64_regs = [Zero, Ra, Sp, Gp, Tp, T0, T1, T2, S0, S1, A0, A1, A2, A3, A4, A5, A6, A7, S2, S3, S4, S5, S6
     , S7, S8, S9, S10, S11, T3, T4, T5, T6]"

primrec rv64_reg_index :: "rv64_reg \<Rightarrow> nat" where
  "rv64_reg_index Zero = 0"
| "rv64_reg_index Ra = 1"
| "rv64_reg_index Sp = 2"
| "rv64_reg_index Gp = 3"
| "rv64_reg_index Tp = 4"
| "rv64_reg_index T0 = 5"
| "rv64_reg_index T1 = 6"
| "rv64_reg_index T2 = 7"
| "rv64_reg_index S0 = 8"
| "rv64_reg_index S1 = 9"
| "rv64_reg_index A0 = 10"
| "rv64_reg_index A1 = 11"
| "rv64_reg_index A2 = 12"
| "rv64_reg_index A3 = 13"
| "rv64_reg_index A4 = 14"
| "rv64_reg_index A5 = 15"
| "rv64_reg_index A6 = 16"
| "rv64_reg_index A7 = 17"
| "rv64_reg_index S2 = 18"
| "rv64_reg_index S3 = 19"
| "rv64_reg_index S4 = 20"
| "rv64_reg_index S5 = 21"
| "rv64_reg_index S6 = 22"
| "rv64_reg_index S7 = 23"
| "rv64_reg_index S8 = 24"
| "rv64_reg_index S9 = 25"
| "rv64_reg_index S10 = 26"
| "rv64_reg_index S11 = 27"
| "rv64_reg_index T3 = 28"
| "rv64_reg_index T4 = 29"
| "rv64_reg_index T5 = 30"
| "rv64_reg_index T6 = 31"

lemma rv64_regs_index: "rv64_regs ! rv64_reg_index r = r"
  by (cases r) (simp_all add: rv64_regs_def)

lemma rv64_reg_index_inj [simp]: "rv64_reg_index r = rv64_reg_index r' \<longleftrightarrow> r = r'"
  by (metis rv64_regs_index)

instantiation rv64_reg :: linorder
begin

definition less_eq_rv64_reg :: "rv64_reg \<Rightarrow> rv64_reg \<Rightarrow> bool" where
  "less_eq_rv64_reg r r' \<longleftrightarrow> rv64_reg_index r \<le> rv64_reg_index r'"

definition less_rv64_reg :: "rv64_reg \<Rightarrow> rv64_reg \<Rightarrow> bool" where
  "less_rv64_reg r r' \<longleftrightarrow> rv64_reg_index r < rv64_reg_index r'"

instance
  by standard (auto simp: less_eq_rv64_reg_def less_rv64_reg_def)

end

definition rv64_reg_a :: "nat \<Rightarrow> rv64_reg option" where
  "rv64_reg_a index =
     (if index < 8 then Some ([A0, A1, A2, A3, A4, A5, A6, A7] ! index) else None)"

definition rv64_allocatable_regs :: "rv64_reg list" where
  "rv64_allocatable_regs =
     [T0, T1, T2, T3, T4, T5, S0, S1, S2, S3, S4, S5, S6, S7, S8, S9, S10, S11, A0, A1, A2,
      A3, A4, A5, A6, A7]"

definition rv64_spill_scratch_regs :: "rv64_reg list" where
  "rv64_spill_scratch_regs = [T6]"

definition rv64_is_callee_saved :: "rv64_reg \<Rightarrow> bool" where
  "rv64_is_callee_saved r \<longleftrightarrow> r \<in> {S0, S1, S2, S3, S4, S5, S6, S7, S8, S9, S10, S11}"

section \<open>Instructions\<close>

text \<open>The fields are in the order of the source; the case expressions below name them as the source
  does.\<close>

datatype (plugins only: size) rv64_inst =
    Add "rv64_reg register" "rv64_reg register" "rv64_reg register"
  | Sub "rv64_reg register" "rv64_reg register" "rv64_reg register"
  | Addw "rv64_reg register" "rv64_reg register" "rv64_reg register"
  | Subw "rv64_reg register" "rv64_reg register" "rv64_reg register"
  | Xor "rv64_reg register" "rv64_reg register" "rv64_reg register"
  | Or "rv64_reg register" "rv64_reg register" "rv64_reg register"
  | And "rv64_reg register" "rv64_reg register" "rv64_reg register"
  | Sll "rv64_reg register" "rv64_reg register" "rv64_reg register"
  | Srl "rv64_reg register" "rv64_reg register" "rv64_reg register"
  | Sra "rv64_reg register" "rv64_reg register" "rv64_reg register"
  | Sllw "rv64_reg register" "rv64_reg register" "rv64_reg register"
  | Srlw "rv64_reg register" "rv64_reg register" "rv64_reg register"
  | Sraw "rv64_reg register" "rv64_reg register" "rv64_reg register"
  | Slt "rv64_reg register" "rv64_reg register" "rv64_reg register"
  | Sltu "rv64_reg register" "rv64_reg register" "rv64_reg register"
  | Addi "rv64_reg register" "rv64_reg register" i32
  | Addiw "rv64_reg register" "rv64_reg register" i32
  | Xori "rv64_reg register" "rv64_reg register" i32
  | Ori "rv64_reg register" "rv64_reg register" i32
  | Andi "rv64_reg register" "rv64_reg register" i32
  | Slli "rv64_reg register" "rv64_reg register" i32
  | Srli "rv64_reg register" "rv64_reg register" i32
  | Srai "rv64_reg register" "rv64_reg register" i32
  | Slliw "rv64_reg register" "rv64_reg register" i32
  | Srliw "rv64_reg register" "rv64_reg register" i32
  | Sraiw "rv64_reg register" "rv64_reg register" i32
  | Slti "rv64_reg register" "rv64_reg register" i32
  | Sltiu "rv64_reg register" "rv64_reg register" i32
  | Lb "rv64_reg register" "rv64_reg register" i32
  | Lh "rv64_reg register" "rv64_reg register" i32
  | Lw "rv64_reg register" "rv64_reg register" i32
  | Ld "rv64_reg register" "rv64_reg register" i32
  | Lbu "rv64_reg register" "rv64_reg register" i32
  | Lhu "rv64_reg register" "rv64_reg register" i32
  | Lwu "rv64_reg register" "rv64_reg register" i32
  | Sb "rv64_reg register" "rv64_reg register" i32
  | Sh "rv64_reg register" "rv64_reg register" i32
  | Sw "rv64_reg register" "rv64_reg register" i32
  | Sd "rv64_reg register" "rv64_reg register" i32
  | Beq "rv64_reg register" "rv64_reg register" block_id
  | Bne "rv64_reg register" "rv64_reg register" block_id
  | Blt "rv64_reg register" "rv64_reg register" block_id
  | Bge "rv64_reg register" "rv64_reg register" block_id
  | Bltu "rv64_reg register" "rv64_reg register" block_id
  | Bgeu "rv64_reg register" "rv64_reg register" block_id
  | Jal "rv64_reg register" block_id
  | Jalr "rv64_reg register" "rv64_reg register" i32
  | Lui "rv64_reg register" i32
  | Auipc "rv64_reg register" i32
  | Mul "rv64_reg register" "rv64_reg register" "rv64_reg register"
  | Mulh "rv64_reg register" "rv64_reg register" "rv64_reg register"
  | Mulsu "rv64_reg register" "rv64_reg register" "rv64_reg register"
  | Mulu "rv64_reg register" "rv64_reg register" "rv64_reg register"
  | Mulw "rv64_reg register" "rv64_reg register" "rv64_reg register"
  | Div "rv64_reg register" "rv64_reg register" "rv64_reg register"
  | Divu "rv64_reg register" "rv64_reg register" "rv64_reg register"
  | Rem "rv64_reg register" "rv64_reg register" "rv64_reg register"
  | Remu "rv64_reg register" "rv64_reg register" "rv64_reg register"
  | Divw "rv64_reg register" "rv64_reg register" "rv64_reg register"
  | Divuw "rv64_reg register" "rv64_reg register" "rv64_reg register"
  | Remw "rv64_reg register" "rv64_reg register" "rv64_reg register"
  | Remuw "rv64_reg register" "rv64_reg register" "rv64_reg register"
  | Mv "rv64_reg register" "rv64_reg register"
  | Li "rv64_reg register" i32
  | Ret
  | La "rv64_reg register" symbol_id
  | Nop
  | Lbs "rv64_reg register" symbol_id
  | Lhs "rv64_reg register" symbol_id
  | Lws "rv64_reg register" symbol_id
  | Lds "rv64_reg register" symbol_id
  | Sbs "rv64_reg register" symbol_id "rv64_reg register"
  | Shs "rv64_reg register" symbol_id "rv64_reg register"
  | Sws "rv64_reg register" symbol_id "rv64_reg register"
  | Sds "rv64_reg register" symbol_id "rv64_reg register"
  | Call symbol_id nat
  | Tail symbol_id nat
  | LoadStack "rv64_reg register" stack_slot_id
  | SaveStack "rv64_reg register" stack_slot_id "rv64_reg register"
  | StoreOutgoingArg "rv64_reg register" i32 "rv64_reg register"
  | LoadIncomingArg "rv64_reg register" i32
  | GetStackAddr "rv64_reg register" stack_slot_id

definition rv64_def_regs :: "rv64_inst \<Rightarrow> rv64_reg register list" where
  "rv64_def_regs i = (case i of
    Add rd _ _ \<Rightarrow> [rd]
  | Sub rd _ _ \<Rightarrow> [rd]
  | Addw rd _ _ \<Rightarrow> [rd]
  | Subw rd _ _ \<Rightarrow> [rd]
  | Xor rd _ _ \<Rightarrow> [rd]
  | Or rd _ _ \<Rightarrow> [rd]
  | And rd _ _ \<Rightarrow> [rd]
  | Sll rd _ _ \<Rightarrow> [rd]
  | Srl rd _ _ \<Rightarrow> [rd]
  | Sra rd _ _ \<Rightarrow> [rd]
  | Sllw rd _ _ \<Rightarrow> [rd]
  | Srlw rd _ _ \<Rightarrow> [rd]
  | Sraw rd _ _ \<Rightarrow> [rd]
  | Slt rd _ _ \<Rightarrow> [rd]
  | Sltu rd _ _ \<Rightarrow> [rd]
  | Addi rd _ _ \<Rightarrow> [rd]
  | Addiw rd _ _ \<Rightarrow> [rd]
  | Xori rd _ _ \<Rightarrow> [rd]
  | Ori rd _ _ \<Rightarrow> [rd]
  | Andi rd _ _ \<Rightarrow> [rd]
  | Slli rd _ _ \<Rightarrow> [rd]
  | Srli rd _ _ \<Rightarrow> [rd]
  | Srai rd _ _ \<Rightarrow> [rd]
  | Slliw rd _ _ \<Rightarrow> [rd]
  | Srliw rd _ _ \<Rightarrow> [rd]
  | Sraiw rd _ _ \<Rightarrow> [rd]
  | Slti rd _ _ \<Rightarrow> [rd]
  | Sltiu rd _ _ \<Rightarrow> [rd]
  | Lb rd _ _ \<Rightarrow> [rd]
  | Lh rd _ _ \<Rightarrow> [rd]
  | Lw rd _ _ \<Rightarrow> [rd]
  | Ld rd _ _ \<Rightarrow> [rd]
  | Lbu rd _ _ \<Rightarrow> [rd]
  | Lhu rd _ _ \<Rightarrow> [rd]
  | Lwu rd _ _ \<Rightarrow> [rd]
  | Jal rd _ \<Rightarrow> [rd]
  | Jalr rd _ _ \<Rightarrow> [rd]
  | Lui rd _ \<Rightarrow> [rd]
  | Auipc rd _ \<Rightarrow> [rd]
  | Mul rd _ _ \<Rightarrow> [rd]
  | Mulh rd _ _ \<Rightarrow> [rd]
  | Mulsu rd _ _ \<Rightarrow> [rd]
  | Mulu rd _ _ \<Rightarrow> [rd]
  | Mulw rd _ _ \<Rightarrow> [rd]
  | Div rd _ _ \<Rightarrow> [rd]
  | Divu rd _ _ \<Rightarrow> [rd]
  | Rem rd _ _ \<Rightarrow> [rd]
  | Remu rd _ _ \<Rightarrow> [rd]
  | Divw rd _ _ \<Rightarrow> [rd]
  | Divuw rd _ _ \<Rightarrow> [rd]
  | Remw rd _ _ \<Rightarrow> [rd]
  | Remuw rd _ _ \<Rightarrow> [rd]
  | Mv rd _ \<Rightarrow> [rd]
  | Li rd _ \<Rightarrow> [rd]
  | La rd _ \<Rightarrow> [rd]
  | Lbs rd _ \<Rightarrow> [rd]
  | Lhs rd _ \<Rightarrow> [rd]
  | Lws rd _ \<Rightarrow> [rd]
  | Lds rd _ \<Rightarrow> [rd]
  | LoadStack rd _ \<Rightarrow> [rd]
  | LoadIncomingArg rd _ \<Rightarrow> [rd]
  | GetStackAddr rd _ \<Rightarrow> [rd]
  | Sbs _ _ rt \<Rightarrow> [rt]
  | Shs _ _ rt \<Rightarrow> [rt]
  | Sws _ _ rt \<Rightarrow> [rt]
  | Sds _ _ rt \<Rightarrow> [rt]
  | SaveStack _ _ rt \<Rightarrow> [rt]
  | StoreOutgoingArg _ _ rt \<Rightarrow> [rt]
  | Call _ _ \<Rightarrow> map Physical
        [Ra, A0, A1, A2, A3, A4, A5, A6, A7, T0, T1, T2, T3, T4, T5, T6]
  | Tail _ _ \<Rightarrow> []
  | _ \<Rightarrow> [])"

definition rv64_use_regs :: "rv64_inst \<Rightarrow> rv64_reg register list" where
  "rv64_use_regs i = (case i of
    Add _ rs1 rs2 \<Rightarrow> [rs1, rs2]
  | Sub _ rs1 rs2 \<Rightarrow> [rs1, rs2]
  | Addw _ rs1 rs2 \<Rightarrow> [rs1, rs2]
  | Subw _ rs1 rs2 \<Rightarrow> [rs1, rs2]
  | Xor _ rs1 rs2 \<Rightarrow> [rs1, rs2]
  | Or _ rs1 rs2 \<Rightarrow> [rs1, rs2]
  | And _ rs1 rs2 \<Rightarrow> [rs1, rs2]
  | Sll _ rs1 rs2 \<Rightarrow> [rs1, rs2]
  | Srl _ rs1 rs2 \<Rightarrow> [rs1, rs2]
  | Sra _ rs1 rs2 \<Rightarrow> [rs1, rs2]
  | Sllw _ rs1 rs2 \<Rightarrow> [rs1, rs2]
  | Srlw _ rs1 rs2 \<Rightarrow> [rs1, rs2]
  | Sraw _ rs1 rs2 \<Rightarrow> [rs1, rs2]
  | Slt _ rs1 rs2 \<Rightarrow> [rs1, rs2]
  | Sltu _ rs1 rs2 \<Rightarrow> [rs1, rs2]
  | Addi _ rs1 _ \<Rightarrow> [rs1]
  | Addiw _ rs1 _ \<Rightarrow> [rs1]
  | Xori _ rs1 _ \<Rightarrow> [rs1]
  | Ori _ rs1 _ \<Rightarrow> [rs1]
  | Andi _ rs1 _ \<Rightarrow> [rs1]
  | Slli _ rs1 _ \<Rightarrow> [rs1]
  | Srli _ rs1 _ \<Rightarrow> [rs1]
  | Srai _ rs1 _ \<Rightarrow> [rs1]
  | Slliw _ rs1 _ \<Rightarrow> [rs1]
  | Srliw _ rs1 _ \<Rightarrow> [rs1]
  | Sraiw _ rs1 _ \<Rightarrow> [rs1]
  | Slti _ rs1 _ \<Rightarrow> [rs1]
  | Sltiu _ rs1 _ \<Rightarrow> [rs1]
  | Lb _ rs1 _ \<Rightarrow> [rs1]
  | Lh _ rs1 _ \<Rightarrow> [rs1]
  | Lw _ rs1 _ \<Rightarrow> [rs1]
  | Ld _ rs1 _ \<Rightarrow> [rs1]
  | Lbu _ rs1 _ \<Rightarrow> [rs1]
  | Lhu _ rs1 _ \<Rightarrow> [rs1]
  | Lwu _ rs1 _ \<Rightarrow> [rs1]
  | Sb rs1 rs2 _ \<Rightarrow> [rs1, rs2]
  | Sh rs1 rs2 _ \<Rightarrow> [rs1, rs2]
  | Sw rs1 rs2 _ \<Rightarrow> [rs1, rs2]
  | Sd rs1 rs2 _ \<Rightarrow> [rs1, rs2]
  | Beq rs1 rs2 _ \<Rightarrow> [rs1, rs2]
  | Bne rs1 rs2 _ \<Rightarrow> [rs1, rs2]
  | Blt rs1 rs2 _ \<Rightarrow> [rs1, rs2]
  | Bge rs1 rs2 _ \<Rightarrow> [rs1, rs2]
  | Bltu rs1 rs2 _ \<Rightarrow> [rs1, rs2]
  | Bgeu rs1 rs2 _ \<Rightarrow> [rs1, rs2]
  | Jalr _ rs1 _ \<Rightarrow> [rs1]
  | Mul _ rs1 rs2 \<Rightarrow> [rs1, rs2]
  | Mulh _ rs1 rs2 \<Rightarrow> [rs1, rs2]
  | Mulsu _ rs1 rs2 \<Rightarrow> [rs1, rs2]
  | Mulu _ rs1 rs2 \<Rightarrow> [rs1, rs2]
  | Mulw _ rs1 rs2 \<Rightarrow> [rs1, rs2]
  | Div _ rs1 rs2 \<Rightarrow> [rs1, rs2]
  | Divu _ rs1 rs2 \<Rightarrow> [rs1, rs2]
  | Rem _ rs1 rs2 \<Rightarrow> [rs1, rs2]
  | Remu _ rs1 rs2 \<Rightarrow> [rs1, rs2]
  | Divw _ rs1 rs2 \<Rightarrow> [rs1, rs2]
  | Divuw _ rs1 rs2 \<Rightarrow> [rs1, rs2]
  | Remw _ rs1 rs2 \<Rightarrow> [rs1, rs2]
  | Remuw _ rs1 rs2 \<Rightarrow> [rs1, rs2]
  | Mv _ rs \<Rightarrow> [rs]
  | Ret \<Rightarrow> [Physical Ra, Physical A0, Physical A1]
  | Sbs rs _ _ \<Rightarrow> [rs]
  | Shs rs _ _ \<Rightarrow> [rs]
  | Sws rs _ _ \<Rightarrow> [rs]
  | Sds rs _ _ \<Rightarrow> [rs]
  | SaveStack rs _ _ \<Rightarrow> [Physical Sp, rs]
  | StoreOutgoingArg rs _ _ \<Rightarrow> [Physical Sp, rs]
  | LoadStack _ _ \<Rightarrow> [Physical Sp]
  | LoadIncomingArg _ _ \<Rightarrow> [Physical Sp]
  | GetStackAddr _ _ \<Rightarrow> [Physical Sp]
  | Call _ num_args \<Rightarrow> map Physical (take (min num_args 8) [A0, A1, A2, A3, A4, A5, A6, A7])
  | Tail _ num_args \<Rightarrow> map Physical (take (min num_args 8) [A0, A1, A2, A3, A4, A5, A6, A7])
  | _ \<Rightarrow> [])"

definition rv64_is_terminator :: "rv64_inst \<Rightarrow> bool" where
  "rv64_is_terminator i = (case i of
    Beq _ _ _ \<Rightarrow> True
  | Bne _ _ _ \<Rightarrow> True
  | Blt _ _ _ \<Rightarrow> True
  | Bge _ _ _ \<Rightarrow> True
  | Bltu _ _ _ \<Rightarrow> True
  | Bgeu _ _ _ \<Rightarrow> True
  | Jal _ _ \<Rightarrow> True
  | Jalr _ _ _ \<Rightarrow> True
  | Ret \<Rightarrow> True
  | Tail _ _ \<Rightarrow> True
  | _ \<Rightarrow> False)"

definition rv64_is_ret :: "rv64_inst \<Rightarrow> bool" where
  "rv64_is_ret i = (case i of Ret \<Rightarrow> True | _ \<Rightarrow> False)"

definition rv64_load_imm :: "rv64_reg register \<Rightarrow> i32 \<Rightarrow> rv64_inst" where
  "rv64_load_imm rd imm = Li rd imm"

definition rv64_mv :: "rv64_reg register \<Rightarrow> rv64_reg register \<Rightarrow> rv64_inst" where
  "rv64_mv rd rs = Mv rd rs"

definition rv64_get_successors :: "rv64_inst \<Rightarrow> block_id list option" where
  "rv64_get_successors i = (case i of
    Beq _ _ label \<Rightarrow> Some [label]
  | Bne _ _ label \<Rightarrow> Some [label]
  | Blt _ _ label \<Rightarrow> Some [label]
  | Bge _ _ label \<Rightarrow> Some [label]
  | Bltu _ _ label \<Rightarrow> Some [label]
  | Bgeu _ _ label \<Rightarrow> Some [label]
  | Jal _ label \<Rightarrow> Some [label]
  | Jalr _ _ _ \<Rightarrow> None
  | Ret \<Rightarrow> Some []
  | Tail _ _ \<Rightarrow> Some []
  | _ \<Rightarrow> Some [])"

text \<open>The macro of \<open>src/src/mir/macros.rs\<close>: a register in a field \<open>rd\<close> or \<open>rt\<close> is looked up in the
  map of definitions, any other register in the map of uses.\<close>

definition rv64_rewrite_vreg :: "rv64_inst \<Rightarrow> (vreg_id \<rightharpoonup> rv64_reg register) \<Rightarrow>
    (vreg_id \<rightharpoonup> rv64_reg register) \<Rightarrow> rv64_inst" where
  "rv64_rewrite_vreg i U D = (case i of
    Add rd rs1 rs2 \<Rightarrow> Add (rewrite_reg D rd) (rewrite_reg U rs1) (rewrite_reg U rs2)
  | Sub rd rs1 rs2 \<Rightarrow> Sub (rewrite_reg D rd) (rewrite_reg U rs1) (rewrite_reg U rs2)
  | Addw rd rs1 rs2 \<Rightarrow> Addw (rewrite_reg D rd) (rewrite_reg U rs1) (rewrite_reg U rs2)
  | Subw rd rs1 rs2 \<Rightarrow> Subw (rewrite_reg D rd) (rewrite_reg U rs1) (rewrite_reg U rs2)
  | Xor rd rs1 rs2 \<Rightarrow> Xor (rewrite_reg D rd) (rewrite_reg U rs1) (rewrite_reg U rs2)
  | Or rd rs1 rs2 \<Rightarrow> Or (rewrite_reg D rd) (rewrite_reg U rs1) (rewrite_reg U rs2)
  | And rd rs1 rs2 \<Rightarrow> And (rewrite_reg D rd) (rewrite_reg U rs1) (rewrite_reg U rs2)
  | Sll rd rs1 rs2 \<Rightarrow> Sll (rewrite_reg D rd) (rewrite_reg U rs1) (rewrite_reg U rs2)
  | Srl rd rs1 rs2 \<Rightarrow> Srl (rewrite_reg D rd) (rewrite_reg U rs1) (rewrite_reg U rs2)
  | Sra rd rs1 rs2 \<Rightarrow> Sra (rewrite_reg D rd) (rewrite_reg U rs1) (rewrite_reg U rs2)
  | Sllw rd rs1 rs2 \<Rightarrow> Sllw (rewrite_reg D rd) (rewrite_reg U rs1) (rewrite_reg U rs2)
  | Srlw rd rs1 rs2 \<Rightarrow> Srlw (rewrite_reg D rd) (rewrite_reg U rs1) (rewrite_reg U rs2)
  | Sraw rd rs1 rs2 \<Rightarrow> Sraw (rewrite_reg D rd) (rewrite_reg U rs1) (rewrite_reg U rs2)
  | Slt rd rs1 rs2 \<Rightarrow> Slt (rewrite_reg D rd) (rewrite_reg U rs1) (rewrite_reg U rs2)
  | Sltu rd rs1 rs2 \<Rightarrow> Sltu (rewrite_reg D rd) (rewrite_reg U rs1) (rewrite_reg U rs2)
  | Addi rd rs1 imm \<Rightarrow> Addi (rewrite_reg D rd) (rewrite_reg U rs1) imm
  | Addiw rd rs1 imm \<Rightarrow> Addiw (rewrite_reg D rd) (rewrite_reg U rs1) imm
  | Xori rd rs1 imm \<Rightarrow> Xori (rewrite_reg D rd) (rewrite_reg U rs1) imm
  | Ori rd rs1 imm \<Rightarrow> Ori (rewrite_reg D rd) (rewrite_reg U rs1) imm
  | Andi rd rs1 imm \<Rightarrow> Andi (rewrite_reg D rd) (rewrite_reg U rs1) imm
  | Slli rd rs1 imm \<Rightarrow> Slli (rewrite_reg D rd) (rewrite_reg U rs1) imm
  | Srli rd rs1 imm \<Rightarrow> Srli (rewrite_reg D rd) (rewrite_reg U rs1) imm
  | Srai rd rs1 imm \<Rightarrow> Srai (rewrite_reg D rd) (rewrite_reg U rs1) imm
  | Slliw rd rs1 imm \<Rightarrow> Slliw (rewrite_reg D rd) (rewrite_reg U rs1) imm
  | Srliw rd rs1 imm \<Rightarrow> Srliw (rewrite_reg D rd) (rewrite_reg U rs1) imm
  | Sraiw rd rs1 imm \<Rightarrow> Sraiw (rewrite_reg D rd) (rewrite_reg U rs1) imm
  | Slti rd rs1 imm \<Rightarrow> Slti (rewrite_reg D rd) (rewrite_reg U rs1) imm
  | Sltiu rd rs1 imm \<Rightarrow> Sltiu (rewrite_reg D rd) (rewrite_reg U rs1) imm
  | Lb rd rs1 imm \<Rightarrow> Lb (rewrite_reg D rd) (rewrite_reg U rs1) imm
  | Lh rd rs1 imm \<Rightarrow> Lh (rewrite_reg D rd) (rewrite_reg U rs1) imm
  | Lw rd rs1 imm \<Rightarrow> Lw (rewrite_reg D rd) (rewrite_reg U rs1) imm
  | Ld rd rs1 imm \<Rightarrow> Ld (rewrite_reg D rd) (rewrite_reg U rs1) imm
  | Lbu rd rs1 imm \<Rightarrow> Lbu (rewrite_reg D rd) (rewrite_reg U rs1) imm
  | Lhu rd rs1 imm \<Rightarrow> Lhu (rewrite_reg D rd) (rewrite_reg U rs1) imm
  | Lwu rd rs1 imm \<Rightarrow> Lwu (rewrite_reg D rd) (rewrite_reg U rs1) imm
  | Sb rs1 rs2 imm \<Rightarrow> Sb (rewrite_reg U rs1) (rewrite_reg U rs2) imm
  | Sh rs1 rs2 imm \<Rightarrow> Sh (rewrite_reg U rs1) (rewrite_reg U rs2) imm
  | Sw rs1 rs2 imm \<Rightarrow> Sw (rewrite_reg U rs1) (rewrite_reg U rs2) imm
  | Sd rs1 rs2 imm \<Rightarrow> Sd (rewrite_reg U rs1) (rewrite_reg U rs2) imm
  | Beq rs1 rs2 label \<Rightarrow> Beq (rewrite_reg U rs1) (rewrite_reg U rs2) label
  | Bne rs1 rs2 label \<Rightarrow> Bne (rewrite_reg U rs1) (rewrite_reg U rs2) label
  | Blt rs1 rs2 label \<Rightarrow> Blt (rewrite_reg U rs1) (rewrite_reg U rs2) label
  | Bge rs1 rs2 label \<Rightarrow> Bge (rewrite_reg U rs1) (rewrite_reg U rs2) label
  | Bltu rs1 rs2 label \<Rightarrow> Bltu (rewrite_reg U rs1) (rewrite_reg U rs2) label
  | Bgeu rs1 rs2 label \<Rightarrow> Bgeu (rewrite_reg U rs1) (rewrite_reg U rs2) label
  | Jal rd label \<Rightarrow> Jal (rewrite_reg D rd) label
  | Jalr rd rs1 imm \<Rightarrow> Jalr (rewrite_reg D rd) (rewrite_reg U rs1) imm
  | Lui rd imm \<Rightarrow> Lui (rewrite_reg D rd) imm
  | Auipc rd imm \<Rightarrow> Auipc (rewrite_reg D rd) imm
  | Mul rd rs1 rs2 \<Rightarrow> Mul (rewrite_reg D rd) (rewrite_reg U rs1) (rewrite_reg U rs2)
  | Mulh rd rs1 rs2 \<Rightarrow> Mulh (rewrite_reg D rd) (rewrite_reg U rs1) (rewrite_reg U rs2)
  | Mulsu rd rs1 rs2 \<Rightarrow> Mulsu (rewrite_reg D rd) (rewrite_reg U rs1) (rewrite_reg U rs2)
  | Mulu rd rs1 rs2 \<Rightarrow> Mulu (rewrite_reg D rd) (rewrite_reg U rs1) (rewrite_reg U rs2)
  | Mulw rd rs1 rs2 \<Rightarrow> Mulw (rewrite_reg D rd) (rewrite_reg U rs1) (rewrite_reg U rs2)
  | Div rd rs1 rs2 \<Rightarrow> Div (rewrite_reg D rd) (rewrite_reg U rs1) (rewrite_reg U rs2)
  | Divu rd rs1 rs2 \<Rightarrow> Divu (rewrite_reg D rd) (rewrite_reg U rs1) (rewrite_reg U rs2)
  | Rem rd rs1 rs2 \<Rightarrow> Rem (rewrite_reg D rd) (rewrite_reg U rs1) (rewrite_reg U rs2)
  | Remu rd rs1 rs2 \<Rightarrow> Remu (rewrite_reg D rd) (rewrite_reg U rs1) (rewrite_reg U rs2)
  | Divw rd rs1 rs2 \<Rightarrow> Divw (rewrite_reg D rd) (rewrite_reg U rs1) (rewrite_reg U rs2)
  | Divuw rd rs1 rs2 \<Rightarrow> Divuw (rewrite_reg D rd) (rewrite_reg U rs1) (rewrite_reg U rs2)
  | Remw rd rs1 rs2 \<Rightarrow> Remw (rewrite_reg D rd) (rewrite_reg U rs1) (rewrite_reg U rs2)
  | Remuw rd rs1 rs2 \<Rightarrow> Remuw (rewrite_reg D rd) (rewrite_reg U rs1) (rewrite_reg U rs2)
  | Mv rd rs \<Rightarrow> Mv (rewrite_reg D rd) (rewrite_reg U rs)
  | Li rd imm \<Rightarrow> Li (rewrite_reg D rd) imm
  | Ret \<Rightarrow> Ret
  | La rd label \<Rightarrow> La (rewrite_reg D rd) label
  | Nop \<Rightarrow> Nop
  | Lbs rd symbol \<Rightarrow> Lbs (rewrite_reg D rd) symbol
  | Lhs rd symbol \<Rightarrow> Lhs (rewrite_reg D rd) symbol
  | Lws rd symbol \<Rightarrow> Lws (rewrite_reg D rd) symbol
  | Lds rd symbol \<Rightarrow> Lds (rewrite_reg D rd) symbol
  | Sbs rs symbol rt \<Rightarrow> Sbs (rewrite_reg U rs) symbol (rewrite_reg D rt)
  | Shs rs symbol rt \<Rightarrow> Shs (rewrite_reg U rs) symbol (rewrite_reg D rt)
  | Sws rs symbol rt \<Rightarrow> Sws (rewrite_reg U rs) symbol (rewrite_reg D rt)
  | Sds rs symbol rt \<Rightarrow> Sds (rewrite_reg U rs) symbol (rewrite_reg D rt)
  | Call func num_args \<Rightarrow> Call func num_args
  | Tail func num_args \<Rightarrow> Tail func num_args
  | LoadStack rd slot \<Rightarrow> LoadStack (rewrite_reg D rd) slot
  | SaveStack rs slot rt \<Rightarrow> SaveStack (rewrite_reg U rs) slot (rewrite_reg D rt)
  | StoreOutgoingArg rs offset rt \<Rightarrow> StoreOutgoingArg (rewrite_reg U rs) offset (rewrite_reg D rt)
  | LoadIncomingArg rd offset \<Rightarrow> LoadIncomingArg (rewrite_reg D rd) offset
  | GetStackAddr rd slot \<Rightarrow> GetStackAddr (rewrite_reg D rd) slot)"

definition rv64_is_call :: "rv64_inst \<Rightarrow> bool" where
  "rv64_is_call i = (case i of Call _ _ \<Rightarrow> True | _ \<Rightarrow> False)"

definition rv64_size_in_bytes :: "rv64_inst \<Rightarrow> nat" where
  "rv64_size_in_bytes i = (case i of
    Call _ _ \<Rightarrow> 8
  | Tail _ _ \<Rightarrow> 8
  | La _ _ \<Rightarrow> 8
  | Lbs _ _ \<Rightarrow> 8
  | Lhs _ _ \<Rightarrow> 8
  | Lws _ _ \<Rightarrow> 8
  | Lds _ _ \<Rightarrow> 8
  | Sbs _ _ _ \<Rightarrow> 8
  | Shs _ _ _ \<Rightarrow> 8
  | Sws _ _ _ \<Rightarrow> 8
  | Sds _ _ _ \<Rightarrow> 8
  | Li _ imm \<Rightarrow> (if -2048 \<le> sint imm \<and> sint imm \<le> 2047 then 4 else 8)
  | _ \<Rightarrow> 4)"

definition rv64_get_branch_target :: "rv64_inst \<Rightarrow> block_id option" where
  "rv64_get_branch_target i = (case i of
    Beq _ _ label \<Rightarrow> Some label
  | Bne _ _ label \<Rightarrow> Some label
  | Blt _ _ label \<Rightarrow> Some label
  | Bge _ _ label \<Rightarrow> Some label
  | Bltu _ _ label \<Rightarrow> Some label
  | Bgeu _ _ label \<Rightarrow> Some label
  | _ \<Rightarrow> None)"

definition rv64_set_branch_target :: "rv64_inst \<Rightarrow> block_id \<Rightarrow> rv64_inst" where
  "rv64_set_branch_target i b = (case i of
    Beq rs1 rs2 _ \<Rightarrow> Beq rs1 rs2 b
  | Bne rs1 rs2 _ \<Rightarrow> Bne rs1 rs2 b
  | Blt rs1 rs2 _ \<Rightarrow> Blt rs1 rs2 b
  | Bge rs1 rs2 _ \<Rightarrow> Bge rs1 rs2 b
  | Bltu rs1 rs2 _ \<Rightarrow> Bltu rs1 rs2 b
  | Bgeu rs1 rs2 _ \<Rightarrow> Bgeu rs1 rs2 b
  | _ \<Rightarrow> i)"

definition rv64_def_conflict_regs ::
  "rv64_inst \<Rightarrow> rv64_reg register \<rightharpoonup> rv64_reg register list" where
  "rv64_def_conflict_regs i = (case i of
    SaveStack rs _ rt \<Rightarrow> [rt \<mapsto> [rs]]
  | StoreOutgoingArg rs _ rt \<Rightarrow> [rt \<mapsto> [rs]]
  | _ \<Rightarrow> Map.empty)"

definition rv64_as_move :: "rv64_inst \<Rightarrow> (rv64_reg register \<times> rv64_reg register) option" where
  "rv64_as_move i = (case i of
    Mv rd rs \<Rightarrow> Some (rd, rs)
  | Addi rd rs1 imm \<Rightarrow> if imm = 0 then Some (rd, rs1) else None
  | Xori rd rs1 imm \<Rightarrow> if imm = 0 then Some (rd, rs1) else None
  | Ori rd rs1 imm \<Rightarrow> if imm = 0 then Some (rd, rs1) else None
  | Andi rd rs1 imm \<Rightarrow> if imm = - 1 then Some (rd, rs1) else None
  | _ \<Rightarrow> None)"

section \<open>Lowering methods\<close>

definition rv64_stack_arg_offset :: "nat \<Rightarrow> i32" where
  "rv64_stack_arg_offset stack_index = word_of_nat (stack_index * 8)"

definition rv64_emit_jump :: "block_id \<Rightarrow> rv64_inst" where
  "rv64_emit_jump label = Jal (Physical Zero) label"

definition rv64_emit_load_mem ::
  "rv64_reg register \<Rightarrow> rv64_reg register \<Rightarrow> i32 \<Rightarrow> nat \<Rightarrow> bool \<Rightarrow> rv64_inst option" where
  "rv64_emit_load_mem rd rs1 imm size_bytes unsigned_load =
     (if size_bytes = 1 then Some (if unsigned_load then Lbu rd rs1 imm else Lb rd rs1 imm)
      else if size_bytes = 2 then Some (if unsigned_load then Lhu rd rs1 imm else Lh rd rs1 imm)
      else if size_bytes = 4 then Some (if unsigned_load then Lwu rd rs1 imm else Lw rd rs1 imm)
      else if size_bytes = 8 then Some (Ld rd rs1 imm)
      else None)"

definition rv64_emit_load_global ::
  "rv64_reg register \<Rightarrow> symbol_id \<Rightarrow> nat \<Rightarrow> bool \<Rightarrow> rv64_inst option" where
  "rv64_emit_load_global rd symbol size_bytes unsigned_load =
     (if size_bytes = 1 \<and> \<not> unsigned_load then Some (Lbs rd symbol)
      else if size_bytes = 2 \<and> \<not> unsigned_load then Some (Lhs rd symbol)
      else if size_bytes = 4 then Some (Lws rd symbol)
      else if size_bytes = 8 then Some (Lds rd symbol)
      else None)"

definition rv64_emit_store_mem ::
  "rv64_reg register \<Rightarrow> rv64_reg register \<Rightarrow> i32 \<Rightarrow> nat \<Rightarrow> rv64_inst option" where
  "rv64_emit_store_mem rs1 rs2 imm size_bytes =
     (if size_bytes = 1 then Some (Sb rs1 rs2 imm)
      else if size_bytes = 2 then Some (Sh rs1 rs2 imm)
      else if size_bytes = 4 then Some (Sw rs1 rs2 imm)
      else if size_bytes = 8 then Some (Sd rs1 rs2 imm)
      else None)"

definition rv64_emit_store_global ::
  "rv64_reg register \<Rightarrow> symbol_id \<Rightarrow> nat \<Rightarrow> rv64_reg register \<Rightarrow> rv64_inst option" where
  "rv64_emit_store_global rs symbol size_bytes rt =
     (if size_bytes = 1 then Some (Sbs rs symbol rt)
      else if size_bytes = 2 then Some (Shs rs symbol rt)
      else if size_bytes = 4 then Some (Sws rs symbol rt)
      else if size_bytes = 8 then Some (Sds rs symbol rt)
      else None)"

definition rv64_emit_adjust_sp :: "int \<Rightarrow> rv64_inst list" where
  "rv64_emit_adjust_sp offset =
     (if offset = 0 then []
      else if -2048 \<le> offset \<and> offset \<le> 2047 then
        [Addi (Physical Sp) (Physical Sp) (word_of_int offset)]
      else let temp_reg = rv64_spill_scratch_regs ! 0 in
        [Li (Physical temp_reg) (word_of_int offset),
         Add (Physical Sp) (Physical Sp) (Physical temp_reg)])"

text \<open>\<open>slot_offsets[slot]\<close> panics on a slot without offset, and the sum of two \<open>i32\<close> on overflow.\<close>

definition rv64_expand_pseudo :: "rv64_inst \<Rightarrow> rv64_reg frame_layout \<Rightarrow> rv64_inst list option" where
  "rv64_expand_pseudo i fl = (case i of
    LoadStack rd slot \<Rightarrow> do {
      offset \<leftarrow> slot_offsets fl slot;
      Some (if -2048 \<le> offset \<and> offset \<le> 2047
        then [Ld rd (Physical Sp) (word_of_int offset)]
        else [Li rd (word_of_int offset), Add rd (Physical Sp) rd, Ld rd rd 0]) }
  | SaveStack rs slot rt \<Rightarrow> do {
      offset \<leftarrow> slot_offsets fl slot;
      Some (if -2048 \<le> offset \<and> offset \<le> 2047
        then [Sd (Physical Sp) rs (word_of_int offset)]
        else [Li rt (word_of_int offset), Add rt (Physical Sp) rt, Sd rt rs 0]) }
  | StoreOutgoingArg rs arg_offset rt \<Rightarrow> do {
      offset \<leftarrow> i32_add (word_of_int (outgoing_arg_offset fl)) arg_offset;
      Some (if -2048 \<le> sint offset \<and> sint offset \<le> 2047
        then [Sd (Physical Sp) rs offset]
        else [Li rt offset, Add rt (Physical Sp) rt, Sd rt rs 0]) }
  | LoadIncomingArg rd arg_offset \<Rightarrow> do {
      offset \<leftarrow> i32_add (word_of_int (incoming_arg_offset fl)) arg_offset;
      Some (if -2048 \<le> sint offset \<and> sint offset \<le> 2047
        then [Ld rd (Physical Sp) offset]
        else [Li rd offset, Add rd (Physical Sp) rd, Ld rd rd 0]) }
  | GetStackAddr rd slot \<Rightarrow> do {
      slot_offset \<leftarrow> slot_offsets fl slot;
      let offset = (word_of_int slot_offset :: i32);
      Some (if -2048 \<le> sint offset \<and> sint offset \<le> 2047
        then [Addi rd (Physical Sp) offset]
        else [Li rd offset, Add rd (Physical Sp) rd]) }
  | _ \<Rightarrow> Some [i])"

definition rv64_is_jump_to :: "rv64_inst \<Rightarrow> block_id \<Rightarrow> bool" where
  "rv64_is_jump_to i target = (case i of
    Jal rd label \<Rightarrow> rd = Physical Zero \<and> label = target
  | _ \<Rightarrow> False)"

section \<open>The dictionary\<close>

text \<open>RV64 overrides every \<open>w\<close> method with the narrow instruction.\<close>

definition rv64_target :: "(rv64_reg, rv64_inst) lowering_target" where
  "rv64_target = \<lparr>
     get_allocatable_regs = rv64_allocatable_regs, spill_scratch_regs = rv64_spill_scratch_regs,
     is_callee_saved = rv64_is_callee_saved, branch_offset_range = (-4096, 4095),
     def_regs = rv64_def_regs, use_regs = rv64_use_regs, def_conflict_regs = rv64_def_conflict_regs,
     is_terminator = rv64_is_terminator, is_ret = rv64_is_ret, get_successors = rv64_get_successors,
     load_imm = rv64_load_imm, mv = rv64_mv, rewrite_vreg = rv64_rewrite_vreg, is_call = rv64_is_call,
     size_in_bytes = rv64_size_in_bytes, get_branch_target = rv64_get_branch_target,
     set_branch_target = rv64_set_branch_target, as_move = rv64_as_move,
     WORD_SIZE = 8, FRAME_ALIGN = 16, SHIFT_AMT_BITS = 6,
     zero_reg = Zero, return_reg = A0, ra_reg = Ra, sp_reg = Sp, arg_reg = rv64_reg_a,
     num_arg_regs = 8, stack_arg_size = 8, stack_arg_offset = rv64_stack_arg_offset,
     emit_add = Add, emit_sub = Sub, emit_xor = Xor, emit_or = Or, emit_and = And, emit_sll = Sll
     , emit_srl = Srl, emit_sra = Sra, emit_slt = Slt, emit_sltu = Sltu, emit_mul = Mul
     , emit_div = Div, emit_divu = Divu, emit_rem = Rem, emit_remu = Remu, emit_addw = Addw
     , emit_subw = Subw, emit_sllw = Sllw, emit_srlw = Srlw, emit_sraw = Sraw, emit_mulw = Mulw
     , emit_divw = Divw, emit_divuw = Divuw, emit_remw = Remw, emit_remuw = Remuw, emit_addi = Addi
     , emit_xori = Xori, emit_ori = Ori, emit_andi = Andi, emit_slli = Slli, emit_srli = Srli
     , emit_srai = Srai, emit_addiw = Addiw, emit_slliw = Slliw, emit_srliw = Srliw
     , emit_sraiw = Sraiw, emit_sltiu = Sltiu, emit_branch_ne = Bne, emit_branch_eq = Beq
     , emit_branch_lt = Blt, emit_branch_ge = Bge, emit_branch_ltu = Bltu, emit_branch_geu = Bgeu
     , emit_jump = rv64_emit_jump, emit_call = Call, emit_ret = Ret
     , emit_load_mem = rv64_emit_load_mem, emit_load_global = rv64_emit_load_global
     , emit_load_symbol_addr = La, emit_store_mem = rv64_emit_store_mem
     , emit_store_global = rv64_emit_store_global, emit_store_outgoing_arg = StoreOutgoingArg
     , emit_load_incoming_arg = LoadIncomingArg, emit_get_stack_addr = GetStackAddr
     , emit_load_stack_slot = LoadStack, emit_store_stack_slot = SaveStack
     , emit_adjust_sp = rv64_emit_adjust_sp, expand_pseudo = rv64_expand_pseudo
     , is_jump_to = rv64_is_jump_to\<rparr>"

section \<open>Meaning\<close>

unbundle bit_operations_syntax

text \<open>The frame pseudo-instructions mean an access relative to the stack pointer; the scratch register
  of a store keeps its value here, and is exempt from the claims.\<close>

definition rv64_exec ::
  "64 word link_env \<Rightarrow> rv64_reg frame_layout \<Rightarrow> rv64_inst \<Rightarrow> (rv64_reg, 64 word) mstate \<Rightarrow>
     (rv64_reg, 64 word) mstate option" where
  "rv64_exec E fl i st = (case i of
    Add rd rs1 rs2 \<Rightarrow> step_op3 Zero (+) rd rs1 rs2 st
  | Sub rd rs1 rs2 \<Rightarrow> step_op3 Zero (-) rd rs1 rs2 st
  | Addw rd rs1 rs2 \<Rightarrow> step_op3 Zero (w_op (+)) rd rs1 rs2 st
  | Subw rd rs1 rs2 \<Rightarrow> step_op3 Zero (w_op (-)) rd rs1 rs2 st
  | Xor rd rs1 rs2 \<Rightarrow> step_op3 Zero (XOR) rd rs1 rs2 st
  | Or rd rs1 rs2 \<Rightarrow> step_op3 Zero (OR) rd rs1 rs2 st
  | And rd rs1 rs2 \<Rightarrow> step_op3 Zero (AND) rd rs1 rs2 st
  | Sll rd rs1 rs2 \<Rightarrow> step_op3 Zero rv_sll rd rs1 rs2 st
  | Srl rd rs1 rs2 \<Rightarrow> step_op3 Zero rv_srl rd rs1 rs2 st
  | Sra rd rs1 rs2 \<Rightarrow> step_op3 Zero rv_sra rd rs1 rs2 st
  | Sllw rd rs1 rs2 \<Rightarrow> step_op3 Zero (w_op rv_sll) rd rs1 rs2 st
  | Srlw rd rs1 rs2 \<Rightarrow> step_op3 Zero (w_op rv_srl) rd rs1 rs2 st
  | Sraw rd rs1 rs2 \<Rightarrow> step_op3 Zero (w_op rv_sra) rd rs1 rs2 st
  | Slt rd rs1 rs2 \<Rightarrow> step_op3 Zero rv_slt rd rs1 rs2 st
  | Sltu rd rs1 rs2 \<Rightarrow> step_op3 Zero rv_sltu rd rs1 rs2 st
  | Addi rd rs1 imm \<Rightarrow> step_imm Zero (+) rd rs1 imm st
  | Addiw rd rs1 imm \<Rightarrow> step_imm Zero (w_op (+)) rd rs1 imm st
  | Xori rd rs1 imm \<Rightarrow> step_imm Zero (XOR) rd rs1 imm st
  | Ori rd rs1 imm \<Rightarrow> step_imm Zero (OR) rd rs1 imm st
  | Andi rd rs1 imm \<Rightarrow> step_imm Zero (AND) rd rs1 imm st
  | Slli rd rs1 imm \<Rightarrow> step_shift_imm Zero 64 rv_sll rd rs1 imm st
  | Srli rd rs1 imm \<Rightarrow> step_shift_imm Zero 64 rv_srl rd rs1 imm st
  | Srai rd rs1 imm \<Rightarrow> step_shift_imm Zero 64 rv_sra rd rs1 imm st
  | Slliw rd rs1 imm \<Rightarrow> step_shift_imm Zero 32 (w_op rv_sll) rd rs1 imm st
  | Srliw rd rs1 imm \<Rightarrow> step_shift_imm Zero 32 (w_op rv_srl) rd rs1 imm st
  | Sraiw rd rs1 imm \<Rightarrow> step_shift_imm Zero 32 (w_op rv_sra) rd rs1 imm st
  | Slti rd rs1 imm \<Rightarrow> step_imm Zero rv_slt rd rs1 imm st
  | Sltiu rd rs1 imm \<Rightarrow> step_imm Zero rv_sltu rd rs1 imm st
  | Lb rd rs1 imm \<Rightarrow> step_load_imm Zero (load_signed 1) rd rs1 imm st
  | Lh rd rs1 imm \<Rightarrow> step_load_imm Zero (load_signed 2) rd rs1 imm st
  | Lw rd rs1 imm \<Rightarrow> step_load_imm Zero (load_signed 4) rd rs1 imm st
  | Ld rd rs1 imm \<Rightarrow> step_load_imm Zero (load_signed 8) rd rs1 imm st
  | Lbu rd rs1 imm \<Rightarrow> step_load_imm Zero (load_unsigned 1) rd rs1 imm st
  | Lhu rd rs1 imm \<Rightarrow> step_load_imm Zero (load_unsigned 2) rd rs1 imm st
  | Lwu rd rs1 imm \<Rightarrow> step_load_imm Zero (load_unsigned 4) rd rs1 imm st
  | Sb rs1 rs2 imm \<Rightarrow> step_store_imm Zero 1 rs1 rs2 imm st
  | Sh rs1 rs2 imm \<Rightarrow> step_store_imm Zero 2 rs1 rs2 imm st
  | Sw rs1 rs2 imm \<Rightarrow> step_store_imm Zero 4 rs1 rs2 imm st
  | Sd rs1 rs2 imm \<Rightarrow> step_store_imm Zero 8 rs1 rs2 imm st
  | Beq _ _ _ \<Rightarrow> None
  | Bne _ _ _ \<Rightarrow> None
  | Blt _ _ _ \<Rightarrow> None
  | Bge _ _ _ \<Rightarrow> None
  | Bltu _ _ _ \<Rightarrow> None
  | Bgeu _ _ _ \<Rightarrow> None
  | Jal _ _ \<Rightarrow> None
  | Jalr _ _ _ \<Rightarrow> None
  | Lui rd imm \<Rightarrow> Some (put_reg Zero rd (simm imm * 4096) st)
  | Auipc _ _ \<Rightarrow> None
  | Mul rd rs1 rs2 \<Rightarrow> step_op3 Zero (*) rd rs1 rs2 st
  | Mulh rd rs1 rs2 \<Rightarrow> step_op3 Zero (\<lambda>x y. rv_mulh (sint x) (sint y)) rd rs1 rs2 st
  | Mulsu rd rs1 rs2 \<Rightarrow> step_op3 Zero (\<lambda>x y. rv_mulh (sint x) (uint y)) rd rs1 rs2 st
  | Mulu rd rs1 rs2 \<Rightarrow> step_op3 Zero (\<lambda>x y. rv_mulh (uint x) (uint y)) rd rs1 rs2 st
  | Mulw rd rs1 rs2 \<Rightarrow> step_op3 Zero (w_op (*)) rd rs1 rs2 st
  | Div rd rs1 rs2 \<Rightarrow> step_op3 Zero rv_div rd rs1 rs2 st
  | Divu rd rs1 rs2 \<Rightarrow> step_op3 Zero rv_divu rd rs1 rs2 st
  | Rem rd rs1 rs2 \<Rightarrow> step_op3 Zero rv_rem rd rs1 rs2 st
  | Remu rd rs1 rs2 \<Rightarrow> step_op3 Zero rv_remu rd rs1 rs2 st
  | Divw rd rs1 rs2 \<Rightarrow> step_op3 Zero (w_op rv_div) rd rs1 rs2 st
  | Divuw rd rs1 rs2 \<Rightarrow> step_op3 Zero (w_op rv_divu) rd rs1 rs2 st
  | Remw rd rs1 rs2 \<Rightarrow> step_op3 Zero (w_op rv_rem) rd rs1 rs2 st
  | Remuw rd rs1 rs2 \<Rightarrow> step_op3 Zero (w_op rv_remu) rd rs1 rs2 st
  | Mv rd rs \<Rightarrow> Some (put_reg Zero rd (get_reg Zero st rs) st)
  | Li rd imm \<Rightarrow> Some (put_reg Zero rd (simm imm) st)
  | Ret \<Rightarrow> None
  | La rd label \<Rightarrow> Some (put_reg Zero rd (sym_addr E label) st)
  | Nop \<Rightarrow> Some st
  | Lbs rd symbol \<Rightarrow> step_load Zero (load_signed 1) rd (sym_addr E symbol) st
  | Lhs rd symbol \<Rightarrow> step_load Zero (load_signed 2) rd (sym_addr E symbol) st
  | Lws rd symbol \<Rightarrow> step_load Zero (load_signed 4) rd (sym_addr E symbol) st
  | Lds rd symbol \<Rightarrow> step_load Zero (load_signed 8) rd (sym_addr E symbol) st
  | Sbs rs symbol rt \<Rightarrow> step_store_global Zero (sym_addr E) (sym_hi E) 1 rs symbol rt st
  | Shs rs symbol rt \<Rightarrow> step_store_global Zero (sym_addr E) (sym_hi E) 2 rs symbol rt st
  | Sws rs symbol rt \<Rightarrow> step_store_global Zero (sym_addr E) (sym_hi E) 4 rs symbol rt st
  | Sds rs symbol rt \<Rightarrow> step_store_global Zero (sym_addr E) (sym_hi E) 8 rs symbol rt st
  | Call _ _ \<Rightarrow> None
  | Tail _ _ \<Rightarrow> None
  | LoadStack rd slot \<Rightarrow> do {
      offset \<leftarrow> slot_offsets fl slot;
      step_load Zero (load_signed 8) rd (get_reg Zero st (Physical Sp) + word_of_int offset) st }
  | SaveStack rs slot rt \<Rightarrow> do {
      offset \<leftarrow> slot_offsets fl slot;
      step_store Zero 8 (get_reg Zero st (Physical Sp) + word_of_int offset) rs st }
  | StoreOutgoingArg rs offset rt \<Rightarrow> step_store Zero 8
      (get_reg Zero st (Physical Sp) + word_of_int (outgoing_arg_offset fl + sint offset)) rs st
  | LoadIncomingArg rd offset \<Rightarrow> step_load Zero (load_signed 8) rd
      (get_reg Zero st (Physical Sp) + word_of_int (incoming_arg_offset fl + sint offset)) st
  | GetStackAddr rd slot \<Rightarrow> do {
      offset \<leftarrow> slot_offsets fl slot;
      Some (put_reg Zero rd (get_reg Zero st (Physical Sp) + word_of_int offset) st) })"

definition rv64_branch_taken :: "rv64_inst \<Rightarrow> (rv64_reg, 64 word) mstate \<Rightarrow> bool option" where
  "rv64_branch_taken i st = (case i of
    Beq rs1 rs2 _ \<Rightarrow> Some (get_reg Zero st rs1 = get_reg Zero st rs2)
  | Bne rs1 rs2 _ \<Rightarrow> Some (get_reg Zero st rs1 \<noteq> get_reg Zero st rs2)
  | Blt rs1 rs2 _ \<Rightarrow> Some (sint (get_reg Zero st rs1) < sint (get_reg Zero st rs2))
  | Bge rs1 rs2 _ \<Rightarrow> Some (sint (get_reg Zero st rs2) \<le> sint (get_reg Zero st rs1))
  | Bltu rs1 rs2 _ \<Rightarrow> Some (get_reg Zero st rs1 < get_reg Zero st rs2)
  | Bgeu rs1 rs2 _ \<Rightarrow> Some (get_reg Zero st rs2 \<le> get_reg Zero st rs1)
  | _ \<Rightarrow> None)"

section \<open>The target's laws\<close>

lemmas rv64_inst_defs = rv64_def_regs_def rv64_use_regs_def rv64_is_terminator_def
  rv64_get_successors_def rv64_is_call_def rv64_rewrite_vreg_def rv64_get_branch_target_def
  rv64_set_branch_target_def rv64_size_in_bytes_def rv64_as_move_def rv64_def_conflict_regs_def
  rv64_mv_def

lemma rv64_target_sel [simp]:
  "def_regs rv64_target = rv64_def_regs" "use_regs rv64_target = rv64_use_regs"
  "is_terminator rv64_target = rv64_is_terminator" "get_successors rv64_target = rv64_get_successors"
  "is_call rv64_target = rv64_is_call" "rewrite_vreg rv64_target = rv64_rewrite_vreg"
  "get_branch_target rv64_target = rv64_get_branch_target"
  "set_branch_target rv64_target = rv64_set_branch_target"
  "size_in_bytes rv64_target = rv64_size_in_bytes" "as_move rv64_target = rv64_as_move"
  "def_conflict_regs rv64_target = rv64_def_conflict_regs" "mv rv64_target = rv64_mv"
  "load_imm rv64_target = rv64_load_imm" "is_ret rv64_target = rv64_is_ret"
  "is_jump_to rv64_target = rv64_is_jump_to" "emit_jump rv64_target = rv64_emit_jump"
  "expand_pseudo rv64_target = rv64_expand_pseudo" "emit_adjust_sp rv64_target = rv64_emit_adjust_sp"
  "zero_reg rv64_target = Zero" "sp_reg rv64_target = Sp" "ra_reg rv64_target = Ra"
  "return_reg rv64_target = A0" "WORD_SIZE rv64_target = 8" "FRAME_ALIGN rv64_target = 16"
  "branch_offset_range rv64_target = (-4096, 4095)"
  "get_allocatable_regs rv64_target = rv64_allocatable_regs"
  "spill_scratch_regs rv64_target = rv64_spill_scratch_regs"
  "is_callee_saved rv64_target = rv64_is_callee_saved"
  "emit_load_stack_slot rv64_target = LoadStack" "emit_store_stack_slot rv64_target = SaveStack"
  by (simp_all add: rv64_target_def)

interpretation rv64_laws: target_inst_laws rv64_target
proof
  fix i :: rv64_inst and U D
  show "def_regs rv64_target (rewrite_vreg rv64_target i U D) =
      map (rewrite_reg D) (def_regs rv64_target i)"
    by (cases i) (simp_all add: rv64_inst_defs)
  show "use_regs rv64_target (rewrite_vreg rv64_target i U D) =
      map (rewrite_reg U) (use_regs rv64_target i)"
    by (cases i) (simp_all add: rv64_inst_defs del: map_map)
  show "is_terminator rv64_target (rewrite_vreg rv64_target i U D) = is_terminator rv64_target i"
    by (cases i) (simp_all add: rv64_inst_defs)
  show "get_successors rv64_target (rewrite_vreg rv64_target i U D) = get_successors rv64_target i"
    by (cases i) (simp_all add: rv64_inst_defs)
  show "is_call rv64_target (rewrite_vreg rv64_target i U D) = is_call rv64_target i"
    by (cases i) (simp_all add: rv64_inst_defs)
  show "rewrite_vreg rv64_target i Map.empty Map.empty = i"
    by (cases i) (simp_all add: rv64_inst_defs)
next
  fix i :: rv64_inst and b b'
  assume "get_branch_target rv64_target i = Some b"
  then show "is_terminator rv64_target i \<and> get_successors rv64_target i = Some [b]"
    "get_branch_target rv64_target (set_branch_target rv64_target i b') = Some b' \<and>
      set_branch_target rv64_target i b = i \<and>
      size_in_bytes rv64_target (set_branch_target rv64_target i b') = size_in_bytes rv64_target i"
    by (cases i; simp add: rv64_inst_defs)+
next
  fix i :: rv64_inst and d s
  assume "as_move rv64_target i = Some (d, s)"
  then show "def_regs rv64_target i = [d] \<and> use_regs rv64_target i = [s]"
    by (cases i) (auto simp: rv64_inst_defs split: if_splits)
next
  fix d s
  show "as_move rv64_target (mv rv64_target d s) = Some (d, s)" by (simp add: rv64_inst_defs)
next
  fix i :: rv64_inst and d cs
  assume "def_conflict_regs rv64_target i d = Some cs"
  then show "d \<in> set (def_regs rv64_target i) \<and> set cs \<subseteq> set (use_regs rv64_target i)"
    by (cases i) (auto simp: rv64_inst_defs split: if_splits)
next
  fix i :: rv64_inst
  show "0 < size_in_bytes rv64_target i" by (cases i) (simp_all add: rv64_inst_defs)
qed

interpretation rv64_moves: move_semantics rv64_target Zero "rv64_exec E fl" "get_reg Zero" for E fl
proof
  fix d s :: "rv64_reg register" and st
  assume "d \<noteq> Physical Zero"
  then show "\<exists>st'. rv64_exec E fl (mv rv64_target d s) st = Some st' \<and>
      get_reg Zero st' = (get_reg Zero st)(d := get_reg Zero st s)"
    by (auto simp: rv64_mv_def rv64_exec_def get_put_reg fun_eq_iff)
qed

interpretation rv64_alu: alu_machine rv64_target "rv64_exec E fl" rv64_branch_taken for E fl
  by unfold_locales (simp_all add: rv64_target_def rv64_exec_def rv64_branch_taken_def rv64_load_imm_def
    rv64_mv_def)

end
