(* ===== verification/Frame.thy ===== *)
theory Frame
  imports Machine_Sem
begin

text \<open>
  Stack frames: \<open>compute_frame_layout\<close> (\<open>src/src/mir/lower/layout.rs\<close>) and \<open>insert_logue\<close>
  (\<open>src/src/mir/lower/logue.rs\<close>).  The layout places the slots one after the other above the
  outgoing arguments; the prologue moves the stack pointer and saves the return address and the
  callee-saved registers, and the epilogue, run before every return, undoes it.

  The layout lemmas say that slots are aligned, apart and inside the frame.  The locale
  \<open>frame_machine\<close> is what the logue needs of a target's slot instructions; inside it the epilogue is
  shown to restore what the prologue saved.
\<close>

section \<open>Layout\<close>

text \<open>The slots of the callee-saved registers: the ones a previous layout chose, or new ones.\<close>

fun alloc_callee_slots ::
  "nat \<Rightarrow> 'r list \<Rightarrow> ('r, 'i) machine_function \<Rightarrow> ('r \<rightharpoonup> stack_slot_id) \<times> ('r, 'i) machine_function" where
  "alloc_callee_slots W [] mf = (Map.empty, mf)"
| "alloc_callee_slots W (phy # rest) mf =
     (case callee_saved_slots (frame_layout mf) phy of
        Some slot \<Rightarrow>
          let (m, mf1) = alloc_callee_slots W rest mf in (m(phy \<mapsto> slot), mf1)
      | None \<Rightarrow>
          let (slot, mf1) = new_stack_slot mf W W CalleeSavedSlot;
              (m, mf2) = alloc_callee_slots W rest mf1
          in (m(phy \<mapsto> slot), mf2))"

definition alloc_ra_slot ::
  "nat \<Rightarrow> ('r, 'i) machine_function \<Rightarrow> stack_slot_id option \<times> ('r, 'i) machine_function" where
  "alloc_ra_slot W mf =
     (if need_save_ra (frame_info mf) then
        (case ra_slot (frame_layout mf) of
           Some slot \<Rightarrow> (Some slot, mf)
         | None \<Rightarrow> let (slot, mf1) = new_stack_slot mf W W LocalTempSlot in (Some slot, mf1))
      else (None, mf))"

text \<open>The loop over \<open>stack_slots\<close>; \<open>next_multiple_of(0)\<close> panics.\<close>

fun place_slots ::
  "stack_slot list \<Rightarrow> nat \<Rightarrow> (stack_slot_id \<rightharpoonup> int) \<Rightarrow> (nat \<times> (stack_slot_id \<rightharpoonup> int)) option" where
  "place_slots [] current offsets = Some (current, offsets)"
| "place_slots (slot # rest) current offsets = do {
     rust_assert (slot_align slot \<noteq> 0);
     let current1 = next_multiple_of current (slot_align slot);
     place_slots rest (current1 + slot_size slot) (offsets(slot_id slot \<mapsto> int current1))
   }"

definition compute_frame_layout ::
  "('r :: linorder, 'i, 'z) target_alu_scheme \<Rightarrow> ('r, 'i) machine_function \<Rightarrow>
     ('r, 'i) machine_function option" where
  "compute_frame_layout T mf = do {
     let (ra, mf1) = alloc_ra_slot (WORD_SIZE T) mf;
     let (callee, mf2) = alloc_callee_slots (WORD_SIZE T)
           (sorted_list_of_set (used_callee_saved (frame_info mf))) mf1;
     let fi = frame_info mf2;
     (current, offsets) \<leftarrow>
       place_slots (stack_slots fi) (next_multiple_of (max_outgoing_arg_size fi) (WORD_SIZE T)) Map.empty;
     let frame_align = max (max_align fi) (FRAME_ALIGN T);
     let fsize = next_multiple_of current frame_align;
     Some (mf2\<lparr>frame_layout := \<lparr>frame_size = fsize, slot_offsets = offsets, outgoing_arg_offset = 0,
        incoming_arg_offset = int fsize, callee_saved_slots = callee, ra_slot = ra\<rparr>\<rparr>)
   }"

section \<open>Where the slots are\<close>

lemma place_slots_total: "(\<forall>s \<in> set slots. slot_align s \<noteq> 0) \<Longrightarrow>
    \<exists>current' offsets'. place_slots slots current offsets = Some (current', offsets')"
  by (induction slots arbitrary: current offsets) (simp_all add: Let_def)

text \<open>The offsets of a list of slots with distinct ids, read off the result: a chain of aligned,
  consecutive ranges between the start and the end.\<close>

fun slot_chain :: "stack_slot list \<Rightarrow> nat \<Rightarrow> (stack_slot_id \<rightharpoonup> int) \<Rightarrow> nat \<Rightarrow> bool" where
  "slot_chain [] lo m hi \<longleftrightarrow> lo \<le> hi"
| "slot_chain (s # ss) lo m hi \<longleftrightarrow>
     (\<exists>k. m (slot_id s) = Some (int k) \<and> lo \<le> k \<and> slot_align s dvd k \<and>
        slot_chain ss (k + slot_size s) m hi)"

lemma place_slots_other:
  "place_slots slots current offsets = Some (current', offsets') \<Longrightarrow>
     nid \<notin> slot_id ` set slots \<Longrightarrow> offsets' nid = offsets nid"
  by (induction slots arbitrary: current offsets) (auto simp: Let_def)

lemma place_slots_chain:
  "place_slots slots current offsets = Some (current', offsets') \<Longrightarrow> distinct (map slot_id slots) \<Longrightarrow>
     slot_chain slots current offsets' current'"
proof (induction slots arbitrary: current offsets)
  case Nil
  then show ?case by simp
next
  case (Cons s slots)
  let ?k = "next_multiple_of current (slot_align s)"
  have rest: "place_slots slots (?k + slot_size s) (offsets(slot_id s \<mapsto> int ?k)) = Some (current', offsets')"
    and al: "0 < slot_align s"
    using Cons.prems(1) by (auto simp: Let_def)
  have "offsets' (slot_id s) = Some (int ?k)"
    using place_slots_other [OF rest, of "slot_id s"] Cons.prems(2) by simp
  moreover have "slot_chain slots (?k + slot_size s) offsets' current'"
    using Cons.IH [OF rest] Cons.prems(2) by simp
  ultimately show ?case using al next_multiple_of_ge by (auto intro!: exI [of _ ?k])
qed

lemma slot_chain_le: "slot_chain slots lo m hi \<Longrightarrow> lo \<le> hi"
  by (induction slots arbitrary: lo) (auto, fastforce)

lemma slot_chain_bounds:
  "slot_chain slots lo m hi \<Longrightarrow> s \<in> set slots \<Longrightarrow>
     \<exists>k. m (slot_id s) = Some (int k) \<and> lo \<le> k \<and> k + slot_size s \<le> hi \<and> slot_align s dvd k"
proof (induction slots arbitrary: lo)
  case Nil
  then show ?case by simp
next
  case (Cons s0 slots)
  then obtain k where k: "m (slot_id s0) = Some (int k)" "lo \<le> k" "slot_align s0 dvd k"
    and rest: "slot_chain slots (k + slot_size s0) m hi" by auto
  show ?case
  proof (cases "s = s0")
    case True
    with k slot_chain_le [OF rest] show ?thesis by auto
  next
    case False
    with Cons.prems(2) Cons.IH [OF rest] obtain j where
      "m (slot_id s) = Some (int j)" "k + slot_size s0 \<le> j" "j + slot_size s \<le> hi" "slot_align s dvd j"
      by auto
    with k(2) show ?thesis by (intro exI [of _ j]) simp
  qed
qed

text \<open>Two slots of a chain never overlap.\<close>

lemma slot_chain_apart:
  assumes "slot_chain slots lo m hi" "i < j" "j < length slots"
    and "m (slot_id (slots ! i)) = Some (int a)" "m (slot_id (slots ! j)) = Some (int b)"
  shows "a + slot_size (slots ! i) \<le> b"
  using assms
proof (induction slots arbitrary: lo i j)
  case Nil
  then show ?case by simp
next
  case (Cons s slots)
  then obtain k where k: "m (slot_id s) = Some (int k)"
    and rest: "slot_chain slots (k + slot_size s) m hi" by auto
  from Cons.prems(2) obtain j' where j: "j = Suc j'" by (cases j) auto
  show ?case
  proof (cases i)
    case 0
    then have "a = k" using k Cons.prems(4) by simp
    moreover obtain b' where "m (slot_id (slots ! j')) = Some (int b')" "k + slot_size s \<le> b'"
      using slot_chain_bounds [OF rest, of "slots ! j'"] Cons.prems(3) j by auto
    ultimately show ?thesis using Cons.prems(5) 0 j by simp
  next
    case (Suc i')
    then show ?thesis using Cons.IH [OF rest, of i' j'] Cons.prems j by simp
  qed
qed

section \<open>What the layout of a function is\<close>

lemma alloc_callee_slots_effect:
  assumes "alloc_callee_slots W ps mf = (m, mf')" and "frame_info_wf (frame_info mf)"
    and "distinct ps" and none: "\<forall>p \<in> set ps. callee_saved_slots (frame_layout mf) p = None"
  shows "dom m = set ps \<and> frame_info_wf (frame_info mf') \<and>
    (\<exists>ext. stack_slots (frame_info mf') = stack_slots (frame_info mf) @ ext \<and>
       (\<forall>s \<in> set ext. slot_size s = W \<and> slot_align s = W)) \<and>
    (\<forall>p s. m p = Some s \<longrightarrow> length (stack_slots (frame_info mf)) \<le> s \<and>
       s < length (stack_slots (frame_info mf'))) \<and> inj_on m (set ps) \<and>
    max_outgoing_arg_size (frame_info mf') = max_outgoing_arg_size (frame_info mf) \<and>
    blocks mf' = blocks mf \<and> vreg_counter mf' = vreg_counter mf \<and> entry mf' = entry mf \<and>
    used_callee_saved (frame_info mf') = used_callee_saved (frame_info mf) \<and> mf_name mf' = mf_name mf"
  using assms
proof (induction ps arbitrary: mf m mf')
  case Nil
  then show ?case by (auto intro: exI [of _ "[]"])
next
  case (Cons p ps)
  let ?n = "length (stack_slots (frame_info mf))"
  obtain mf1 where new: "new_stack_slot mf W W CalleeSavedSlot = (?n, mf1)"
    by (simp add: new_stack_slot_def Let_def)
  obtain m1 where rest: "alloc_callee_slots W ps mf1 = (m1, mf')" and m: "m = m1(p \<mapsto> ?n)"
    using Cons.prems(1,4) new by (auto split: prod.splits)
  have fl: "frame_layout mf1 = frame_layout mf"
    and slots: "stack_slots (frame_info mf1) = stack_slots (frame_info mf) @
      [\<lparr>slot_id = ?n, slot_size = W, slot_align = W, slot_kind = CalleeSavedSlot\<rparr>]"
    and same: "max_outgoing_arg_size (frame_info mf1) = max_outgoing_arg_size (frame_info mf)"
      "blocks mf1 = blocks mf" "vreg_counter mf1 = vreg_counter mf" "entry mf1 = entry mf"
      "used_callee_saved (frame_info mf1) = used_callee_saved (frame_info mf)" "mf_name mf1 = mf_name mf"
    using new by (auto simp: new_stack_slot_def Let_def)
  have "frame_info_wf (frame_info mf1)" by (rule new_stack_slot_wf [OF Cons.prems(2) new])
  then have IH: "dom m1 = set ps" "frame_info_wf (frame_info mf')"
    "\<exists>ext. stack_slots (frame_info mf') = stack_slots (frame_info mf1) @ ext \<and>
       (\<forall>s \<in> set ext. slot_size s = W \<and> slot_align s = W)"
    "\<And>q s. m1 q = Some s \<Longrightarrow> Suc ?n \<le> s \<and> s < length (stack_slots (frame_info mf'))"
    "inj_on m1 (set ps)" "max_outgoing_arg_size (frame_info mf') = max_outgoing_arg_size (frame_info mf1)"
    "blocks mf' = blocks mf1" "vreg_counter mf' = vreg_counter mf1" "entry mf' = entry mf1"
    "used_callee_saved (frame_info mf') = used_callee_saved (frame_info mf1)" "mf_name mf' = mf_name mf1"
    using Cons.IH [OF rest] Cons.prems(3,4) fl slots by auto
  obtain ext where ext: "stack_slots (frame_info mf') = stack_slots (frame_info mf1) @ ext"
    "\<forall>s \<in> set ext. slot_size s = W \<and> slot_align s = W" using IH(3) by blast
  have p: "p \<notin> set ps" using Cons.prems(3) by simp
  have "inj_on m (set (p # ps))"
  proof -
    have "m1 q \<noteq> Some ?n" "Some ?n \<noteq> m1 q" for q using IH(4) [of q ?n] by auto
    with IH(5) p show ?thesis by (auto simp: m inj_on_def)
  qed
  moreover have "?n \<le> s \<and> s < length (stack_slots (frame_info mf'))" if "m q = Some s" for q s
    using that IH(4) [of q s] ext slots by (auto simp: m split: if_splits)
  moreover have "dom m = set (p # ps)" using IH(1) by (auto simp: m)
  moreover have "stack_slots (frame_info mf') = stack_slots (frame_info mf) @
      (\<lparr>slot_id = ?n, slot_size = W, slot_align = W, slot_kind = CalleeSavedSlot\<rparr> # ext)"
    using ext slots by simp
  ultimately show ?case using IH(2,6-) same ext(2) by (intro conjI) (blast, blast, force, metis+)
qed

text \<open>What a laid-out frame is: its slots form a chain between the outgoing arguments and the frame
  size, and the registers to save have slots of their own, a word wide.\<close>

definition saved_slots ::
  "('r :: linorder, 'i, 'z) target_alu_scheme \<Rightarrow> ('r, 'i) machine_function \<Rightarrow>
     ('r \<times> stack_slot_id) list option" where
  "saved_slots T mf = do {
     callee \<leftarrow> mapM_opt (\<lambda>p. do { slot \<leftarrow> callee_saved_slots (frame_layout mf) p; Some (p, slot) })
       (sorted_list_of_set (used_callee_saved (frame_info mf)));
     Some ((case ra_slot (frame_layout mf) of None \<Rightarrow> [] | Some slot \<Rightarrow> [(ra_reg T, slot)]) @ callee)
   }"

definition frame_laid_out ::
  "('r :: linorder, 'i, 'z) target_alu_scheme \<Rightarrow> ('r, 'i) machine_function \<Rightarrow> bool" where
  "frame_laid_out T mf \<longleftrightarrow>
     frame_info_wf (frame_info mf) \<and>
     slot_chain (stack_slots (frame_info mf))
       (next_multiple_of (max_outgoing_arg_size (frame_info mf)) (WORD_SIZE T))
       (slot_offsets (frame_layout mf)) (frame_size (frame_layout mf)) \<and>
     max (max_align (frame_info mf)) (FRAME_ALIGN T) dvd frame_size (frame_layout mf) \<and>
     incoming_arg_offset (frame_layout mf) = int (frame_size (frame_layout mf)) \<and>
     outgoing_arg_offset (frame_layout mf) = 0 \<and>
     (\<exists>saves. saved_slots T mf = Some saves \<and> distinct (map snd saves) \<and>
        (\<forall>s \<in> snd ` set saves. s < length (stack_slots (frame_info mf)) \<and>
           slot_size (stack_slots (frame_info mf) ! s) = WORD_SIZE T))"

lemma slot_chain_mono: "slot_chain slots lo m hi \<Longrightarrow> hi \<le> hi' \<Longrightarrow> slot_chain slots lo m hi'"
  by (induction slots arbitrary: lo) auto

text \<open>The slot for the return address comes first, so the callee-saved ones follow it.\<close>

lemma alloc_ra_slot_effect:
  assumes "alloc_ra_slot W mf = (ra, mf')" and "frame_info_wf (frame_info mf)"
    and "ra_slot (frame_layout mf) = None"
  shows "frame_info_wf (frame_info mf')" "frame_layout mf' = frame_layout mf"
    "\<exists>ext. stack_slots (frame_info mf') = stack_slots (frame_info mf) @ ext \<and>
       (\<forall>s \<in> set ext. slot_size s = W \<and> slot_align s = W)"
    "\<And>s. ra = Some s \<Longrightarrow> length (stack_slots (frame_info mf)) \<le> s \<and>
       s < length (stack_slots (frame_info mf'))"
    "ra = None \<longleftrightarrow> \<not> need_save_ra (frame_info mf)"
    "max_outgoing_arg_size (frame_info mf') = max_outgoing_arg_size (frame_info mf)"
    "blocks mf' = blocks mf" "vreg_counter mf' = vreg_counter mf" "entry mf' = entry mf"
    "used_callee_saved (frame_info mf') = used_callee_saved (frame_info mf)" "mf_name mf' = mf_name mf"
proof -
  have "(ra, mf') = (if need_save_ra (frame_info mf)
      then (Some (length (stack_slots (frame_info mf))), snd (new_stack_slot mf W W LocalTempSlot))
      else (None, mf))"
    using assms(1,3) by (simp add: alloc_ra_slot_def new_stack_slot_def Let_def split: if_splits)
  moreover have "frame_info_wf (frame_info (snd (new_stack_slot mf W W LocalTempSlot)))"
    by (rule new_stack_slot_wf [OF assms(2)]) (simp add: prod_eq_iff)
  ultimately show "frame_info_wf (frame_info mf')" "frame_layout mf' = frame_layout mf"
    "\<exists>ext. stack_slots (frame_info mf') = stack_slots (frame_info mf) @ ext \<and>
       (\<forall>s \<in> set ext. slot_size s = W \<and> slot_align s = W)"
    "\<And>s. ra = Some s \<Longrightarrow> length (stack_slots (frame_info mf)) \<le> s \<and>
       s < length (stack_slots (frame_info mf'))"
    "ra = None \<longleftrightarrow> \<not> need_save_ra (frame_info mf)"
    "max_outgoing_arg_size (frame_info mf') = max_outgoing_arg_size (frame_info mf)"
    "blocks mf' = blocks mf" "vreg_counter mf' = vreg_counter mf" "entry mf' = entry mf"
    "used_callee_saved (frame_info mf') = used_callee_saved (frame_info mf)" "mf_name mf' = mf_name mf"
    using assms(2) by (auto simp: new_stack_slot_def Let_def split: if_splits)
qed

lemma mapM_opt_map_lookup:
  assumes "\<forall>p \<in> set ps. m p \<noteq> None"
  shows "mapM_opt (\<lambda>p. do { s \<leftarrow> m p; Some (p, s) }) ps = Some (map (\<lambda>p. (p, the (m p))) ps)"
  using assms by (induction ps) auto

text \<open>The layout of a function that has none yet.\<close>

lemma compute_frame_layout_laid_out:
  assumes wf: "frame_info_wf (frame_info mf)"
    and al: "\<forall>s \<in> set (stack_slots (frame_info mf)). slot_align s \<noteq> 0"
    and none: "ra_slot (frame_layout mf) = None" "callee_saved_slots (frame_layout mf) = Map.empty"
    and fin: "finite (used_callee_saved (frame_info mf))"
    and pos: "WORD_SIZE T \<noteq> 0" "FRAME_ALIGN T \<noteq> 0"
  shows "\<exists>mf'. compute_frame_layout T mf = Some mf' \<and> frame_laid_out T mf' \<and>
    (\<exists>ext. stack_slots (frame_info mf') = stack_slots (frame_info mf) @ ext) \<and>
    (ra_slot (frame_layout mf') = None \<longleftrightarrow> \<not> need_save_ra (frame_info mf)) \<and>
    used_callee_saved (frame_info mf') = used_callee_saved (frame_info mf) \<and>
    blocks mf' = blocks mf \<and> vreg_counter mf' = vreg_counter mf \<and> entry mf' = entry mf"
proof -
  let ?W = "WORD_SIZE T"
  let ?ps = "sorted_list_of_set (used_callee_saved (frame_info mf))"
  obtain ra mf1 where ra: "alloc_ra_slot ?W mf = (ra, mf1)" by fastforce
  note R = alloc_ra_slot_effect [OF ra wf none(1)]
  obtain m mf2 where callee: "alloc_callee_slots ?W ?ps mf1 = (m, mf2)" by fastforce
  have "distinct ?ps" "\<forall>p \<in> set ?ps. callee_saved_slots (frame_layout mf1) p = None"
    by (simp_all add: R(2) none(2))
  from alloc_callee_slots_effect [OF callee R(1) this]
  have C: "dom m = set ?ps" "frame_info_wf (frame_info mf2)"
    "\<exists>ext. stack_slots (frame_info mf2) = stack_slots (frame_info mf1) @ ext \<and>
       (\<forall>s \<in> set ext. slot_size s = ?W \<and> slot_align s = ?W)"
    "\<And>p s. m p = Some s \<Longrightarrow> length (stack_slots (frame_info mf1)) \<le> s \<and>
       s < length (stack_slots (frame_info mf2))" "inj_on m (set ?ps)"
    "max_outgoing_arg_size (frame_info mf2) = max_outgoing_arg_size (frame_info mf1)"
    "blocks mf2 = blocks mf1" "vreg_counter mf2 = vreg_counter mf1" "entry mf2 = entry mf1"
    "used_callee_saved (frame_info mf2) = used_callee_saved (frame_info mf1)"
    by blast+
  obtain e1 e2 where e1: "stack_slots (frame_info mf1) = stack_slots (frame_info mf) @ e1"
      "\<forall>s \<in> set e1. slot_size s = ?W \<and> slot_align s = ?W"
    and e2: "stack_slots (frame_info mf2) = stack_slots (frame_info mf1) @ e2"
      "\<forall>s \<in> set e2. slot_size s = ?W \<and> slot_align s = ?W"
    using R(3) C(3) by blast
  let ?slots = "stack_slots (frame_info mf2)"
  let ?lo = "next_multiple_of (max_outgoing_arg_size (frame_info mf2)) ?W"
  have "\<forall>s \<in> set ?slots. slot_align s \<noteq> 0" using al e1 e2 pos(1) by auto
  then obtain cur offs where place: "place_slots ?slots ?lo Map.empty = Some (cur, offs)"
    using place_slots_total by blast
  have ids: "map slot_id ?slots = [0..<length ?slots]" using C(2) by (simp add: frame_info_wf_def)
  then have "distinct (map slot_id ?slots)" by simp
  then have chain: "slot_chain ?slots ?lo offs cur" by (rule place_slots_chain [OF place])
  let ?al = "max (max_align (frame_info mf2)) (FRAME_ALIGN T)"
  let ?fs = "next_multiple_of cur ?al"
  let ?fl = "\<lparr>frame_size = ?fs, slot_offsets = offs, outgoing_arg_offset = 0,
    incoming_arg_offset = int ?fs, callee_saved_slots = m, ra_slot = ra\<rparr>"
  let ?mf = "mf2\<lparr>frame_layout := ?fl\<rparr>"
  have res: "compute_frame_layout T mf = Some ?mf"
    by (simp add: compute_frame_layout_def ra callee place Let_def)
  have used: "used_callee_saved (frame_info mf2) = used_callee_saved (frame_info mf)"
    using C(10) R(10) by simp
  let ?cs = "map (\<lambda>p. (p, the (m p))) ?ps"
  let ?ra = "case ra of None \<Rightarrow> [] | Some slot \<Rightarrow> [(ra_reg T, slot)]"
  have "mapM_opt (\<lambda>p. do { slot \<leftarrow> m p; Some (p, slot) }) ?ps = Some ?cs"
    by (rule mapM_opt_map_lookup) (use C(1) in auto)
  then have saves: "saved_slots T ?mf = Some (?ra @ ?cs)"
    by (simp add: saved_slots_def used)
  have cs_range: "length (stack_slots (frame_info mf1)) \<le> s \<and> s < length ?slots" if "s \<in> snd ` set ?cs" for s
  proof -
    from that obtain p where p: "p \<in> set ?ps" "s = the (m p)" by auto
    then obtain s' where "m p = Some s'" using C(1) by blast
    with p C(4) show ?thesis by auto
  qed
  have ra_range: "length (stack_slots (frame_info mf)) \<le> s \<and> s < length (stack_slots (frame_info mf1))"
    if "s \<in> snd ` set ?ra" for s
    using that R(4) by (auto split: option.splits)
  have "distinct (map snd ?cs)"
  proof -
    have "inj_on (\<lambda>p. the (m p)) (set ?ps)"
      by (rule inj_onI) (metis C(1,5) domD inj_onD option.sel)
    then show ?thesis by (simp add: distinct_map comp_def)
  qed
  moreover have "snd ` set ?ra \<inter> snd ` set ?cs = {}"
    using cs_range ra_range by (meson disjoint_iff leD)
  moreover have "distinct (map snd ?ra)" by (simp split: option.splits)
  ultimately have dist: "distinct (map snd (?ra @ ?cs))"
    by (simp only: map_append distinct_append list.set_map simp_thms)
  have size: "s < length ?slots \<and> slot_size (?slots ! s) = ?W" if "s \<in> snd ` set (?ra @ ?cs)" for s
  proof -
    from that have "s \<in> snd ` set ?ra \<or> s \<in> snd ` set ?cs" by (simp only: set_append image_Un Un_iff)
    then have s: "length (stack_slots (frame_info mf)) \<le> s \<and> s < length ?slots"
    proof
      assume "s \<in> snd ` set ?ra"
      from ra_range [OF this] show ?thesis by (simp add: e1(1) e2(1))
    next
      assume "s \<in> snd ` set ?cs"
      from cs_range [OF this] show ?thesis by (simp add: e1(1) e2(1))
    qed
    have "?slots = stack_slots (frame_info mf) @ (e1 @ e2)" using e1(1) e2(1) by simp
    then have "?slots ! s = (e1 @ e2) ! (s - length (stack_slots (frame_info mf)))"
      and "s - length (stack_slots (frame_info mf)) < length (e1 @ e2)"
      using s by (auto simp: nth_append_right)
    then have "?slots ! s \<in> set (e1 @ e2)" by (metis nth_mem)
    then have "slot_size (?slots ! s) = ?W" using e1(2) e2(2) by auto
    with s show ?thesis by blast
  qed
  have "frame_laid_out T ?mf"
    unfolding frame_laid_out_def
  proof (intro conjI exI [of _ "?ra @ ?cs"] ballI saves dist)
    show "frame_info_wf (frame_info ?mf)" using C(2) by simp
    show "slot_chain (stack_slots (frame_info ?mf))
        (next_multiple_of (max_outgoing_arg_size (frame_info ?mf)) ?W)
        (slot_offsets (frame_layout ?mf)) (frame_size (frame_layout ?mf))"
      using slot_chain_mono [OF chain next_multiple_of_ge] by simp
    show "max (max_align (frame_info ?mf)) (FRAME_ALIGN T) dvd frame_size (frame_layout ?mf)"
      using pos(2) by simp
  qed (use size in simp_all)
  moreover have "\<exists>ext. stack_slots (frame_info ?mf) = stack_slots (frame_info mf) @ ext"
    using e1(1) e2(1) by simp
  ultimately show ?thesis
    using res R(5,7-9) C(7-9) used by auto
qed

section \<open>Prologue and epilogue\<close>

text \<open>\<open>rt\<close> is the scratch register \<open>spill_scratch_regs()[0]\<close>; the epilogue is the reversed list of the
  closures the code collects.\<close>

definition logue_code ::
  "('r :: linorder, 'i, 'z) lowering_target_scheme \<Rightarrow> ('r, 'i) machine_function \<Rightarrow>
     ('i list \<times> 'i list) option" where
  "logue_code T mf = do {
     scratch \<leftarrow> (case spill_scratch_regs T of [] \<Rightarrow> None | r # _ \<Rightarrow> Some r);
     let rt = Physical scratch;
     let fsize = int (frame_size (frame_layout mf));
     saves \<leftarrow> saved_slots T mf;
     let prologue = emit_adjust_sp T (- fsize) @
           map (\<lambda>(p, slot). emit_store_stack_slot T (Physical p) slot rt) saves;
     let epilogue_fns = emit_adjust_sp T fsize #
           map (\<lambda>(p, slot). [emit_load_stack_slot T (Physical p) slot]) saves;
     Some (prologue, concat (rev epilogue_fns))
   }"

definition insert_logue ::
  "('r :: linorder, 'i, 'z) lowering_target_scheme \<Rightarrow> ('r, 'i) machine_function \<Rightarrow>
     ('r, 'i) machine_function option" where
  "insert_logue T mf = do {
     (prologue, epilogue) \<leftarrow> logue_code T mf;
     mf1 \<leftarrow> with_block_mut mf (entry mf) (\<lambda>b. b\<lparr>instructions := prologue @ instructions b\<rparr>);
     Some (mf1\<lparr>blocks := map (\<lambda>b. b\<lparr>instructions :=
         concat (map (\<lambda>i. if is_ret T i then epilogue @ [i] else [i]) (instructions b))\<rparr>) (blocks mf1)\<rparr>)
   }"

section \<open>What the logue does\<close>

text \<open>The slot at offset \<open>off\<close> from the stack pointer value \<open>x\<close>.\<close>

definition slot_addr :: "('w :: len) word \<Rightarrow> (stack_slot_id \<rightharpoonup> int) \<Rightarrow> stack_slot_id \<Rightarrow> 'w word" where
  "slot_addr x m slot = x + word_of_int (the (m slot))"

definition store_saves ::
  "nat \<Rightarrow> (stack_slot_id \<Rightarrow> 'w :: len word) \<Rightarrow> ('r \<Rightarrow> 'w word) \<Rightarrow> ('r \<times> stack_slot_id) list \<Rightarrow>
     ('w word \<Rightarrow> u8) \<Rightarrow> ('w word \<Rightarrow> u8)" where
  "store_saves W addr val saves m = foldl (\<lambda>m (p, slot). store_le W (addr slot) (uint (val p)) m) m saves"

lemma store_saves_Cons:
  "store_saves W addr val ((p, slot) # saves) m =
     store_saves W addr val saves (store_le W (addr slot) (uint (val p)) m)"
  by (simp add: store_saves_def)

lemma store_saves_other:
  "\<forall>slot \<in> snd ` set saves. b \<notin> byte_range (addr slot) W \<Longrightarrow> store_saves W addr val saves m b = m b"
proof (induction saves arbitrary: m)
  case Nil
  then show ?case by (simp add: store_saves_def)
next
  case (Cons ps saves)
  then show ?case by (cases ps) (simp add: store_saves_Cons store_le_other)
qed

lemma store_saves_load:
  fixes addr :: "stack_slot_id \<Rightarrow> 'w :: len word"
  assumes "LENGTH('w) = 8 * W" and "distinct (map snd saves)"
    and "\<forall>s \<in> snd ` set saves. \<forall>s' \<in> snd ` set saves. s \<noteq> s' \<longrightarrow>
      byte_range (addr s) W \<inter> byte_range (addr s') W = {}"
    and "(p, slot) \<in> set saves"
  shows "load_signed W (store_saves W addr val saves m) (addr slot) = val p"
  using assms(2-)
proof (induction saves arbitrary: m)
  case Nil
  then show ?case by simp
next
  case (Cons ps saves)
  obtain q slot' where ps: "ps = (q, slot')" by (cases ps)
  show ?case
  proof (cases "(p, slot) = ps")
    case True
    let ?m = "store_le W (addr slot) (uint (val p)) m"
    have "store_saves W addr val saves ?m b = ?m b" if "b \<in> byte_range (addr slot) W" for b
    proof (rule store_saves_other, intro ballI notI)
      fix s assume s: "s \<in> snd ` set saves" "b \<in> byte_range (addr s) W"
      then have "s \<noteq> slot" using Cons.prems(1) True by force
      then have "byte_range (addr slot) W \<inter> byte_range (addr s) W = {}"
        using Cons.prems(2) s(1) True by (metis image_eqI insertI1 insertI2 list.simps(15) snd_conv image_insert)
      with that s(2) show False by blast
    qed
    then have "load_le W (store_saves W addr val saves ?m) (addr slot) = load_le W ?m (addr slot)"
      by (intro load_le_cong) simp
    moreover have "load_signed W ?m (addr slot) = val p" by (rule load_signed_store [OF assms(1)])
    ultimately show ?thesis by (simp add: True [symmetric] store_saves_Cons load_signed_def)
  next
    case False
    then have "(p, slot) \<in> set saves" using Cons.prems(3) by simp
    with Cons.IH Cons.prems(1,2) show ?thesis by (simp add: ps store_saves_Cons)
  qed
qed

text \<open>What the logue needs of a target: stores and loads of a slot are word accesses at the slot's
  offset, and the stack pointer is adjusted with no effect but on the scratch register.\<close>

locale frame_machine =
  fixes T :: "('r :: linorder, 'i, 'z) lowering_target_scheme"
    and exec :: "'r frame_layout \<Rightarrow> 'i \<Rightarrow> ('r, 'w :: len word) mstate \<Rightarrow> ('r, 'w word) mstate option"
    and scratch :: 'r
  assumes word_width: "LENGTH('w) = 8 * WORD_SIZE T" "32 \<le> LENGTH('w)"
    and scratch_reg: "\<exists>rest. spill_scratch_regs T = scratch # rest"
    and special_regs: "distinct [zero_reg T, sp_reg T, ra_reg T, scratch]"
    and callee_saved_proper: "is_callee_saved T p \<Longrightarrow>
      p \<notin> {zero_reg T, sp_reg T, ra_reg T, scratch}"
    and exec_store_slot: "slot_offsets fl slot = Some off \<Longrightarrow>
      exec fl (emit_store_stack_slot T r slot rt) st = Some (st\<lparr>memory := store_le (WORD_SIZE T)
        (get_reg (zero_reg T) st (Physical (sp_reg T)) + word_of_int off)
        (uint (get_reg (zero_reg T) st r)) (memory st)\<rparr>)"
    and exec_load_slot: "slot_offsets fl slot = Some off \<Longrightarrow>
      exec fl (emit_load_stack_slot T r slot) st = Some (put_reg (zero_reg T) r
        (load_signed (WORD_SIZE T) (memory st)
          (get_reg (zero_reg T) st (Physical (sp_reg T)) + word_of_int off)) st)"
    and exec_adjust_sp: "i32_range k \<Longrightarrow>
      \<exists>st'. exec_all (exec fl) (emit_adjust_sp T k) st = Some st' \<and>
        get_reg (zero_reg T) st' (Physical (sp_reg T)) =
          get_reg (zero_reg T) st (Physical (sp_reg T)) + word_of_int k \<and>
        agree_except {Physical (sp_reg T), Physical scratch} st st'"
begin

lemma exec_stores:
  "\<forall>slot \<in> snd ` set saves. slot_offsets fl slot \<noteq> None \<Longrightarrow>
   exec_all (exec fl) (map (\<lambda>(p, slot). emit_store_stack_slot T (Physical p) slot rt) saves) st =
     Some (st\<lparr>memory := store_saves (WORD_SIZE T)
       (slot_addr (get_reg (zero_reg T) st (Physical (sp_reg T))) (slot_offsets fl))
       (\<lambda>p. get_reg (zero_reg T) st (Physical p)) saves (memory st)\<rparr>)"
proof (induction saves arbitrary: st)
  case Nil
  then show ?case by (simp add: store_saves_def)
next
  case (Cons ps saves)
  obtain p slot where ps: "ps = (p, slot)" by (cases ps)
  then obtain off where "slot_offsets fl slot = Some off" using Cons.prems by auto
  with ps Cons show ?case
    by (simp add: exec_store_slot store_saves_Cons slot_addr_def)
qed

lemma exec_loads:
  "\<forall>slot \<in> snd ` set saves. slot_offsets fl slot \<noteq> None \<Longrightarrow> distinct (map fst saves) \<Longrightarrow>
   \<forall>p \<in> fst ` set saves. p \<noteq> sp_reg T \<and> p \<noteq> zero_reg T \<Longrightarrow>
   \<exists>st'. exec_all (exec fl) (map (\<lambda>(p, slot). emit_load_stack_slot T (Physical p) slot) saves) st = Some st' \<and>
     memory st' = memory st \<and>
     (\<forall>(p, slot) \<in> set saves. get_reg (zero_reg T) st' (Physical p) = load_signed (WORD_SIZE T) (memory st)
        (slot_addr (get_reg (zero_reg T) st (Physical (sp_reg T))) (slot_offsets fl) slot)) \<and>
     (\<forall>r. r \<notin> Physical ` fst ` set saves \<longrightarrow> get_reg (zero_reg T) st' r = get_reg (zero_reg T) st r)"
proof (induction saves arbitrary: st)
  case Nil
  then show ?case by simp
next
  case (Cons ps saves)
  obtain p slot where ps: "ps = (p, slot)" by (cases ps)
  then obtain off where off: "slot_offsets fl slot = Some off" using Cons.prems(1) by auto
  let ?sp = "get_reg (zero_reg T) st (Physical (sp_reg T))"
  let ?v = "load_signed (WORD_SIZE T) (memory st) (?sp + word_of_int off)"
  let ?st1 = "put_reg (zero_reg T) (Physical p) ?v st"
  have p: "p \<noteq> sp_reg T" "p \<noteq> zero_reg T" "p \<notin> fst ` set saves" using Cons.prems(2,3) ps by auto
  have sp: "get_reg (zero_reg T) ?st1 (Physical (sp_reg T)) = ?sp" using p(1) by simp
  obtain st' where st': "exec_all (exec fl)
        (map (\<lambda>(p, slot). emit_load_stack_slot T (Physical p) slot) saves) ?st1 = Some st'"
      "memory st' = memory st"
      "\<forall>(p, slot) \<in> set saves. get_reg (zero_reg T) st' (Physical p) =
        load_signed (WORD_SIZE T) (memory st) (slot_addr ?sp (slot_offsets fl) slot)"
      "\<forall>r. r \<notin> Physical ` fst ` set saves \<longrightarrow> get_reg (zero_reg T) st' r = get_reg (zero_reg T) ?st1 r"
    using Cons.IH [of ?st1] Cons.prems sp by auto
  have "get_reg (zero_reg T) st' (Physical p) = ?v" using st'(4) p by (simp add: image_iff)
  moreover have "\<forall>r. r \<notin> Physical ` fst ` set (ps # saves) \<longrightarrow>
      get_reg (zero_reg T) st' r = get_reg (zero_reg T) st r"
    using st'(4) by (simp add: ps)
  ultimately show ?case
    using st'(1-3) off by (auto simp: ps exec_load_slot slot_addr_def)
qed

lemma saves_regs:
  assumes "saved_slots T mf = Some saves" "used_callee_saved (frame_info mf) \<subseteq> {p. is_callee_saved T p}"
  shows "distinct (map fst saves)" "\<forall>p \<in> fst ` set saves. p \<noteq> sp_reg T \<and> p \<noteq> zero_reg T \<and> p \<noteq> scratch"
    "finite (used_callee_saved (frame_info mf)) \<Longrightarrow> used_callee_saved (frame_info mf) \<subseteq> fst ` set saves"
    "ra_slot (frame_layout mf) \<noteq> None \<Longrightarrow> ra_reg T \<in> fst ` set saves"
proof -
  let ?ps = "sorted_list_of_set (used_callee_saved (frame_info mf))"
  obtain cs where cs: "mapM_opt (\<lambda>p. do { slot \<leftarrow> callee_saved_slots (frame_layout mf) p; Some (p, slot) }) ?ps = Some cs"
    and saves: "saves = (case ra_slot (frame_layout mf) of None \<Rightarrow> [] | Some slot \<Rightarrow> [(ra_reg T, slot)]) @ cs"
    using assms(1) by (auto simp: saved_slots_def bind_eq_Some_conv)
  have fst_cs: "map fst cs = ?ps"
  proof -
    have "list_all2 (\<lambda>p c. fst c = p) ?ps cs"
      using cs by (auto simp: mapM_opt_Some_iff bind_eq_Some_conv elim!: list_all2_mono)
    then show ?thesis by (simp add: list_all2_conv_all_nth list_eq_iff_nth_eq)
  qed
  then have fst_set: "fst ` set cs = set ?ps" by (metis list.set_map)
  have sub: "set ?ps \<subseteq> {p. is_callee_saved T p}"
    using assms(2) by (cases "finite (used_callee_saved (frame_info mf))") auto
  then have "ra_reg T \<notin> set ?ps" using callee_saved_proper by blast
  then show "distinct (map fst saves)"
    by (simp add: saves fst_cs split: option.splits)
  show "\<forall>p \<in> fst ` set saves. p \<noteq> sp_reg T \<and> p \<noteq> zero_reg T \<and> p \<noteq> scratch"
    using sub callee_saved_proper special_regs fst_set
    by (auto simp: saves image_Un split: option.splits)
  show "used_callee_saved (frame_info mf) \<subseteq> fst ` set saves"
    if "finite (used_callee_saved (frame_info mf))"
    using that by (auto simp: saves image_Un fst_set)
  show "ra_reg T \<in> fst ` set saves" if "ra_slot (frame_layout mf) \<noteq> None"
    using that by (auto simp: saves)
qed

text \<open>The slots of a laid-out frame do not overlap in memory.\<close>

lemma laid_out_slots:
  assumes laid: "frame_laid_out T mf" and saves: "saved_slots T mf = Some saves"
    and small: "frame_size (frame_layout mf) \<le> 2147483647"
  shows "\<forall>slot \<in> snd ` set saves. slot_offsets (frame_layout mf) slot \<noteq> None"
    "\<forall>s \<in> snd ` set saves. \<forall>s' \<in> snd ` set saves. s \<noteq> s' \<longrightarrow>
       byte_range (slot_addr x (slot_offsets (frame_layout mf)) s) (WORD_SIZE T) \<inter>
       byte_range (slot_addr x (slot_offsets (frame_layout mf)) s') (WORD_SIZE T) = ({} :: 'w word set)"
    "distinct (map snd saves)"
proof -
  let ?slots = "stack_slots (frame_info mf)"
  let ?m = "slot_offsets (frame_layout mf)"
  let ?fs = "frame_size (frame_layout mf)"
  have chain: "slot_chain ?slots (next_multiple_of (max_outgoing_arg_size (frame_info mf)) (WORD_SIZE T)) ?m ?fs"
    and ids: "map slot_id ?slots = [0..<length ?slots]"
    and sz: "\<And>s. s \<in> snd ` set saves \<Longrightarrow> s < length ?slots \<and> slot_size (?slots ! s) = WORD_SIZE T"
    using laid saves by (auto simp: frame_laid_out_def frame_info_wf_def)
  show "distinct (map snd saves)" using laid saves by (auto simp: frame_laid_out_def)
  have nth_id: "slot_id (?slots ! s) = s" if "s < length ?slots" for s
    using ids that by (metis add.left_neutral length_map nth_map nth_upt)
  have off: "\<exists>k. ?m s = Some (int k) \<and> k + WORD_SIZE T \<le> ?fs" if "s \<in> snd ` set saves" for s
    using slot_chain_bounds [OF chain, of "?slots ! s"] sz [OF that] nth_id [of s] by auto
  then show "\<forall>slot \<in> snd ` set saves. ?m slot \<noteq> None" by force
  have "(2 :: nat) ^ 32 \<le> 2 ^ LENGTH('w)" by (rule power_increasing) (simp_all add: word_width(2))
  then have fs: "?fs \<le> 2 ^ LENGTH('w)" using small by simp
  have apart: "byte_range (slot_addr x ?m s) (WORD_SIZE T) \<inter> byte_range (slot_addr x ?m s') (WORD_SIZE T)
      = ({} :: 'w word set)" if s: "s \<in> snd ` set saves" and s': "s' \<in> snd ` set saves" and lt: "s < s'" for s s'
  proof -
    obtain a b where a: "?m s = Some (int a)" and b: "?m s' = Some (int b)" "b + WORD_SIZE T \<le> ?fs"
      using off [OF s] off [OF s'] by blast
    have "a + WORD_SIZE T \<le> b"
      using slot_chain_apart [OF chain lt] sz [OF s] sz [OF s'] nth_id [of s] nth_id [of s'] a b(1) by simp
    moreover have "b + WORD_SIZE T \<le> 2 ^ LENGTH('w)" using b(2) fs by linarith
    ultimately show ?thesis using byte_range_disjoint by (simp add: slot_addr_def a b(1))
  qed
  then show "\<forall>s \<in> snd ` set saves. \<forall>s' \<in> snd ` set saves. s \<noteq> s' \<longrightarrow>
      byte_range (slot_addr x ?m s) (WORD_SIZE T) \<inter> byte_range (slot_addr x ?m s') (WORD_SIZE T)
        = ({} :: 'w word set)"
    by (metis Int_commute linorder_neqE_nat)
qed

text \<open>The epilogue undoes the prologue, whatever the body does in between, as long as it leaves the
  stack pointer and the bytes of the saved slots alone.\<close>

lemma logue_restores:
  assumes laid: "frame_laid_out T mf" and small: "frame_size (frame_layout mf) \<le> 2147483647"
    and saves: "saved_slots T mf = Some saves" and code: "logue_code T mf = Some (prologue, epilogue)"
    and used: "used_callee_saved (frame_info mf) \<subseteq> {p. is_callee_saved T p}"
  shows "\<exists>st1. exec_all (exec (frame_layout mf)) prologue st = Some st1 \<and>
    get_reg (zero_reg T) st1 (Physical (sp_reg T)) =
      get_reg (zero_reg T) st (Physical (sp_reg T)) - word_of_nat (frame_size (frame_layout mf)) \<and>
    (\<forall>r. r \<notin> {Physical (sp_reg T), Physical scratch} \<longrightarrow>
       get_reg (zero_reg T) st1 r = get_reg (zero_reg T) st r) \<and>
    (\<forall>b. (\<forall>slot \<in> snd ` set saves. b \<notin> byte_range (slot_addr (get_reg (zero_reg T) st1
          (Physical (sp_reg T))) (slot_offsets (frame_layout mf)) slot) (WORD_SIZE T)) \<longrightarrow>
       memory st1 b = memory st b) \<and>
    (\<forall>st2. get_reg (zero_reg T) st2 (Physical (sp_reg T)) = get_reg (zero_reg T) st1 (Physical (sp_reg T)) \<longrightarrow>
      (\<forall>slot \<in> snd ` set saves. \<forall>b \<in> byte_range (slot_addr (get_reg (zero_reg T) st1
          (Physical (sp_reg T))) (slot_offsets (frame_layout mf)) slot) (WORD_SIZE T).
         memory st2 b = memory st1 b) \<longrightarrow>
      (\<exists>st3. exec_all (exec (frame_layout mf)) epilogue st2 = Some st3 \<and> memory st3 = memory st2 \<and>
        get_reg (zero_reg T) st3 (Physical (sp_reg T)) = get_reg (zero_reg T) st (Physical (sp_reg T)) \<and>
        (\<forall>p \<in> fst ` set saves. get_reg (zero_reg T) st3 (Physical p) = get_reg (zero_reg T) st (Physical p)) \<and>
        (\<forall>r. r \<notin> {Physical (sp_reg T), Physical scratch} \<union> Physical ` fst ` set saves \<longrightarrow>
           get_reg (zero_reg T) st3 r = get_reg (zero_reg T) st2 r)))"
proof -
  let ?z = "zero_reg T" and ?sp = "Physical (sp_reg T)" and ?fl = "frame_layout mf" and ?W = "WORD_SIZE T"
  let ?fs = "frame_size ?fl"
  obtain rest where scr: "spill_scratch_regs T = scratch # rest" using scratch_reg by blast
  have pro: "prologue = emit_adjust_sp T (- int ?fs) @
      map (\<lambda>(p, slot). emit_store_stack_slot T (Physical p) slot (Physical scratch)) saves"
    and epi: "epilogue = map (\<lambda>(p, slot). emit_load_stack_slot T (Physical p) slot) (rev saves) @
      emit_adjust_sp T (int ?fs)"
  proof -
    have "concat (map (\<lambda>(p, slot). [emit_load_stack_slot T (Physical p) slot]) qs) =
        map (\<lambda>(p, slot). emit_load_stack_slot T (Physical p) slot) qs" for qs
      by (induction qs) auto
    then show "prologue = emit_adjust_sp T (- int ?fs) @
        map (\<lambda>(p, slot). emit_store_stack_slot T (Physical p) slot (Physical scratch)) saves"
      "epilogue = map (\<lambda>(p, slot). emit_load_stack_slot T (Physical p) slot) (rev saves) @
        emit_adjust_sp T (int ?fs)"
      using code by (simp_all add: logue_code_def scr saves Let_def rev_map)
  qed
  have range: "i32_range (- int ?fs)" "i32_range (int ?fs)" using small by (simp_all add: i32_range_def)
  obtain st0 where st0: "exec_all (exec ?fl) (emit_adjust_sp T (- int ?fs)) st = Some st0"
    "get_reg ?z st0 ?sp = get_reg ?z st ?sp + word_of_int (- int ?fs)"
    "agree_except {?sp, Physical scratch} st st0"
    using exec_adjust_sp [OF range(1)] by blast
  let ?x = "get_reg ?z st0 ?sp"
  let ?addr = "slot_addr ?x (slot_offsets ?fl)"
  let ?mem = "store_saves ?W ?addr (\<lambda>p. get_reg ?z st0 (Physical p)) saves (memory st0)"
  let ?st1 = "st0\<lparr>memory := ?mem\<rparr>"
  note slots = laid_out_slots [OF laid saves small]
  note regs = saves_regs [OF saves used]
  have run1: "exec_all (exec ?fl) prologue st = Some ?st1"
    by (simp add: pro exec_all_append st0(1) exec_stores [OF slots(1)])
  have keep: "get_reg ?z ?st1 r = get_reg ?z st r" if "r \<notin> {?sp, Physical scratch}" for r
    using agree_except_get [OF st0(3) that] by simp
  have mem1: "memory ?st1 b = memory st b" if "\<forall>slot \<in> snd ` set saves. b \<notin> byte_range (?addr slot) ?W" for b
    using store_saves_other [OF that] st0(3) by (simp add: agree_except_def)
  have undo: "\<exists>st3. exec_all (exec ?fl) epilogue st2 = Some st3 \<and> memory st3 = memory st2 \<and>
      get_reg ?z st3 ?sp = get_reg ?z st ?sp \<and>
      (\<forall>p \<in> fst ` set saves. get_reg ?z st3 (Physical p) = get_reg ?z st (Physical p)) \<and>
      (\<forall>r. r \<notin> {?sp, Physical scratch} \<union> Physical ` fst ` set saves \<longrightarrow>
         get_reg ?z st3 r = get_reg ?z st2 r)"
    if sp2: "get_reg ?z st2 ?sp = get_reg ?z ?st1 ?sp"
      and mem2: "\<forall>slot \<in> snd ` set saves. \<forall>b \<in> byte_range (?addr slot) ?W. memory st2 b = memory ?st1 b" for st2
  proof -
    have sp2': "get_reg ?z st2 ?sp = ?x" using sp2 by simp
    have none: "\<forall>slot \<in> snd ` set (rev saves). slot_offsets ?fl slot \<noteq> None"
      and dist: "distinct (map fst (rev saves))"
      and proper: "\<forall>p \<in> fst ` set (rev saves). p \<noteq> sp_reg T \<and> p \<noteq> ?z"
      using slots(1) regs(1,2) by (auto simp: rev_map [symmetric])
    obtain st' where st': "exec_all (exec ?fl)
          (map (\<lambda>(p, slot). emit_load_stack_slot T (Physical p) slot) (rev saves)) st2 = Some st'"
        "memory st' = memory st2"
        "\<forall>(p, slot) \<in> set saves. get_reg ?z st' (Physical p) = load_signed ?W (memory st2) (?addr slot)"
        "\<forall>r. r \<notin> Physical ` fst ` set saves \<longrightarrow> get_reg ?z st' r = get_reg ?z st2 r"
      using exec_loads [OF none dist proper, of st2] by (auto simp: sp2')
    obtain st3 where st3: "exec_all (exec ?fl) (emit_adjust_sp T (int ?fs)) st' = Some st3"
        "get_reg ?z st3 ?sp = get_reg ?z st' ?sp + word_of_int (int ?fs)"
        "agree_except {?sp, Physical scratch} st' st3"
      using exec_adjust_sp [OF range(2)] by blast
    have "?sp \<notin> Physical ` fst ` set saves" using regs(2) by auto
    then have "get_reg ?z st3 ?sp = get_reg ?z st ?sp"
      using st3(2) st'(4) sp2' st0(2) by simp
    moreover have "get_reg ?z st3 (Physical p) = get_reg ?z st (Physical p)" if "p \<in> fst ` set saves" for p
    proof -
      obtain slot where slot: "(p, slot) \<in> set saves" using \<open>p \<in> fst ` set saves\<close> by auto
      have np: "Physical p \<notin> {?sp, Physical scratch}" using that regs(2) by auto
      have "load_le ?W (memory st2) (?addr slot) = load_le ?W ?mem (?addr slot)"
        by (rule load_le_cong) (use mem2 slot in force)
      then have "load_signed ?W (memory st2) (?addr slot) = get_reg ?z st0 (Physical p)"
        using store_saves_load [OF word_width(1) slots(3,2) slot] by (simp add: load_signed_def)
      moreover have "get_reg ?z st3 (Physical p) = get_reg ?z st' (Physical p)"
        by (rule agree_except_get [OF st3(3) np])
      moreover have "get_reg ?z st0 (Physical p) = get_reg ?z st (Physical p)"
        by (rule agree_except_get [OF st0(3) np])
      ultimately show ?thesis using st'(3) slot by auto
    qed
    moreover have "get_reg ?z st3 r = get_reg ?z st2 r"
      if "r \<notin> {?sp, Physical scratch} \<union> Physical ` fst ` set saves" for r
      using that st'(4) agree_except_get [OF st3(3), of r] by auto
    moreover have "memory st3 = memory st2" using st3(3) st'(2) by (simp add: agree_except_def)
    moreover have "exec_all (exec ?fl) epilogue st2 = Some st3"
      by (simp add: epi exec_all_append st'(1) st3(1))
    ultimately show ?thesis by blast
  qed
  show ?thesis
    using run1 keep mem1 undo st0(2) by (intro exI [of _ ?st1]) simp
qed

end

end
