(* ===== verification/Targets.thy ===== *)
theory Targets
  imports Frame RV32 RV64
begin

text \<open>
  The two targets against the reference machine: the lists of registers an instruction writes and
  reads, the expansion of the frame pseudo-instructions, the stack pointer adjustment, and the
  parallel copies that phi nodes and calls are lowered to.
\<close>

section \<open>RV32: the register lists are sound\<close>

lemma rv32_def_sound:
  "rv32_exec E fl i st = Some st' \<Longrightarrow> r \<notin> set (rv32_def_regs i) \<Longrightarrow>
     get_reg rv32_reg.Zero st' r = get_reg rv32_reg.Zero st r"
  by (cases i) (auto simp: rv32_exec_def rv32_def_regs_def step_defs bind_eq_Some_conv split: if_splits)

text \<open>The scratch register of a frame store is written by the expansion only.\<close>

definition rv32_scratch :: "rv32_inst \<Rightarrow> rv32_reg register set" where
  "rv32_scratch i = (case i of
     rv32_inst.SaveStack _ _ rt \<Rightarrow> {rt} | rv32_inst.StoreOutgoingArg _ _ rt \<Rightarrow> {rt} | _ \<Rightarrow> {})"

lemma rv32_use_sound:
  assumes "rv32_exec E fl i st = Some st'"
    and "\<forall>r \<in> set (rv32_use_regs i). get_reg rv32_reg.Zero st2 r = get_reg rv32_reg.Zero st r"
    and "memory st2 = memory st"
  shows "\<exists>st2'. rv32_exec E fl i st2 = Some st2' \<and> memory st2' = memory st' \<and>
    (\<forall>r \<in> set (rv32_def_regs i) - rv32_scratch i.
       get_reg rv32_reg.Zero st2' r = get_reg rv32_reg.Zero st' r)"
  using assms
  by (cases i) (auto simp: rv32_exec_def rv32_def_regs_def rv32_use_regs_def rv32_scratch_def step_defs
      bind_eq_Some_conv get_put_reg split: if_splits)

section \<open>RV32: frame pseudo-instructions\<close>

text \<open>The offsets an expansion handles are the ones an \<open>i32\<close> holds.\<close>

definition rv32_offset_ok :: "rv32_inst \<Rightarrow> rv32_reg frame_layout \<Rightarrow> bool" where
  "rv32_offset_ok i fl = (case i of
     rv32_inst.LoadStack _ slot \<Rightarrow> pred_option i32_range (slot_offsets fl slot)
   | rv32_inst.SaveStack _ slot _ \<Rightarrow> pred_option i32_range (slot_offsets fl slot)
   | rv32_inst.GetStackAddr _ slot \<Rightarrow> pred_option i32_range (slot_offsets fl slot)
   | rv32_inst.StoreOutgoingArg _ off _ \<Rightarrow>
       i32_range (outgoing_arg_offset fl) \<and> i32_range (outgoing_arg_offset fl + sint off)
   | rv32_inst.LoadIncomingArg _ off \<Rightarrow>
       i32_range (incoming_arg_offset fl) \<and> i32_range (incoming_arg_offset fl + sint off)
   | _ \<Rightarrow> True)"

text \<open>No destination is the stack pointer, and a scratch register is neither the zero register nor
  the register being stored (what \<open>def_conflict_regs\<close> asks of the allocator).\<close>

definition rv32_regs_ok :: "rv32_inst \<Rightarrow> bool" where
  "rv32_regs_ok i = (case i of
     rv32_inst.LoadStack rd _ \<Rightarrow> rd \<noteq> Physical rv32_reg.Sp
   | rv32_inst.SaveStack rs _ rt \<Rightarrow>
       rt \<noteq> rs \<and> rt \<noteq> Physical rv32_reg.Sp \<and> rt \<noteq> Physical rv32_reg.Zero
   | rv32_inst.StoreOutgoingArg rs _ rt \<Rightarrow>
       rt \<noteq> rs \<and> rt \<noteq> Physical rv32_reg.Sp \<and> rt \<noteq> Physical rv32_reg.Zero
   | rv32_inst.LoadIncomingArg rd _ \<Rightarrow> rd \<noteq> Physical rv32_reg.Sp
   | rv32_inst.GetStackAddr rd _ \<Rightarrow> rd \<noteq> Physical rv32_reg.Sp
   | _ \<Rightarrow> True)"

definition rv32_is_frame_pseudo :: "rv32_inst \<Rightarrow> bool" where
  "rv32_is_frame_pseudo i = (case i of
     rv32_inst.LoadStack _ _ \<Rightarrow> True | rv32_inst.SaveStack _ _ _ \<Rightarrow> True
   | rv32_inst.StoreOutgoingArg _ _ _ \<Rightarrow> True | rv32_inst.LoadIncomingArg _ _ \<Rightarrow> True
   | rv32_inst.GetStackAddr _ _ \<Rightarrow> True | _ \<Rightarrow> False)"

lemma rv32_load_expansion:
  assumes "i32_range offset" "rd \<noteq> Physical rv32_reg.Sp"
  shows "exec_all (rv32_exec E fl)
      (if -2048 \<le> offset \<and> offset \<le> 2047
       then [rv32_inst.Lw rd (Physical rv32_reg.Sp) (word_of_int offset)]
       else [rv32_inst.Li rd (word_of_int offset), rv32_inst.Add rd (Physical rv32_reg.Sp) rd,
             rv32_inst.Lw rd rd 0]) st =
    step_load rv32_reg.Zero (load_signed 4) rd
      (get_reg rv32_reg.Zero st (Physical rv32_reg.Sp) + word_of_int offset) st"
  using assms
  by (cases "rd = Physical rv32_reg.Zero")
    (auto simp: rv32_exec_def step_defs fits12_of_int simm_of_int put_reg_zero)

lemma rv32_store_expansion:
  assumes "i32_range offset" "rt \<noteq> rs" "rt \<noteq> Physical rv32_reg.Sp" "rt \<noteq> Physical rv32_reg.Zero"
  shows "\<exists>st' st''. step_store rv32_reg.Zero 4
      (get_reg rv32_reg.Zero st (Physical rv32_reg.Sp) + word_of_int offset) rs st = Some st' \<and>
    exec_all (rv32_exec E fl)
      (if -2048 \<le> offset \<and> offset \<le> 2047
       then [rv32_inst.Sw (Physical rv32_reg.Sp) rs (word_of_int offset)]
       else [rv32_inst.Li rt (word_of_int offset), rv32_inst.Add rt (Physical rv32_reg.Sp) rt,
             rv32_inst.Sw rt rs 0]) st = Some st'' \<and> agree_except {rt} st' st''"
  using assms
  by (auto simp: rv32_exec_def step_defs fits12_of_int simm_of_int get_put_reg agree_except_def
      gpr_put_reg)

lemma rv32_addr_expansion:
  assumes "i32_range offset" "rd \<noteq> Physical rv32_reg.Sp"
  shows "exec_all (rv32_exec E fl)
      (if -2048 \<le> offset \<and> offset \<le> 2047
       then [rv32_inst.Addi rd (Physical rv32_reg.Sp) (word_of_int offset)]
       else [rv32_inst.Li rd (word_of_int offset), rv32_inst.Add rd (Physical rv32_reg.Sp) rd]) st =
    Some (put_reg rv32_reg.Zero rd
      (get_reg rv32_reg.Zero st (Physical rv32_reg.Sp) + word_of_int offset) st)"
  using assms
  by (cases "rd = Physical rv32_reg.Zero")
    (auto simp: rv32_exec_def step_defs fits12_of_int simm_of_int put_reg_zero)

text \<open>The executable pseudo-instructions with in-range offsets expand to a run that agrees with their
  meaning up to the scratch register, and leaves no pseudo-instruction behind.\<close>

lemma rv32_expand_pseudo_run:
  assumes exec: "rv32_exec E fl i st = Some st'" and off: "rv32_offset_ok i fl" and regs: "rv32_regs_ok i"
  shows "\<exists>is st''. rv32_expand_pseudo i fl = Some is \<and> exec_all (rv32_exec E fl) is st = Some st'' \<and>
    agree_except (rv32_scratch i) st' st'' \<and> list_all (\<lambda>j. \<not> rv32_is_frame_pseudo j) is"
proof (cases "rv32_is_frame_pseudo i")
  case False
  then have "rv32_expand_pseudo i fl = Some [i]"
    by (cases i) (simp_all add: rv32_is_frame_pseudo_def rv32_expand_pseudo_def)
  with exec False show ?thesis by simp
next
  case True
  then consider (load) rd slot where "i = rv32_inst.LoadStack rd slot"
    | (save) rs slot rt where "i = rv32_inst.SaveStack rs slot rt"
    | (out_arg) rs arg rt where "i = rv32_inst.StoreOutgoingArg rs arg rt"
    | (in_arg) rd arg where "i = rv32_inst.LoadIncomingArg rd arg"
    | (addr) rd slot where "i = rv32_inst.GetStackAddr rd slot"
    by (cases i) (simp_all add: rv32_is_frame_pseudo_def)
  then show ?thesis
  proof cases
    case load
    then obtain k where k: "slot_offsets fl slot = Some k" using exec
      by (auto simp: rv32_exec_def bind_eq_Some_conv)
    then have st': "step_load rv32_reg.Zero (load_signed 4) rd
        (get_reg rv32_reg.Zero st (Physical rv32_reg.Sp) + word_of_int k) st = Some st'"
      using exec load by (simp add: rv32_exec_def)
    have r: "i32_range k" "rd \<noteq> Physical rv32_reg.Sp"
      using off regs load k by (simp_all add: rv32_offset_ok_def rv32_regs_ok_def)
    note run = rv32_load_expansion [OF r, of E fl st, unfolded st']
    show ?thesis
      using run k load by (auto simp: rv32_expand_pseudo_def rv32_is_frame_pseudo_def)
  next
    case save
    then obtain k where k: "slot_offsets fl slot = Some k" using exec
      by (auto simp: rv32_exec_def bind_eq_Some_conv)
    then have st': "step_store rv32_reg.Zero 4
        (get_reg rv32_reg.Zero st (Physical rv32_reg.Sp) + word_of_int k) rs st = Some st'"
      using exec save by (simp add: rv32_exec_def)
    have r: "i32_range k" "rt \<noteq> rs" "rt \<noteq> Physical rv32_reg.Sp" "rt \<noteq> Physical rv32_reg.Zero"
      using off regs save k by (simp_all add: rv32_offset_ok_def rv32_regs_ok_def)
    note run = rv32_store_expansion [OF r, of st E fl, unfolded st']
    show ?thesis
      using run k save
      by (auto simp: rv32_expand_pseudo_def rv32_is_frame_pseudo_def rv32_scratch_def)
  next
    case out_arg
    let ?k = "outgoing_arg_offset fl + sint arg"
    have r: "i32_range (outgoing_arg_offset fl)" "i32_range ?k" "rt \<noteq> rs"
        "rt \<noteq> Physical rv32_reg.Sp" "rt \<noteq> Physical rv32_reg.Zero"
      using off regs out_arg by (simp_all add: rv32_offset_ok_def rv32_regs_ok_def)
    have st': "step_store rv32_reg.Zero 4
        (get_reg rv32_reg.Zero st (Physical rv32_reg.Sp) + word_of_int ?k) rs st = Some st'"
      using exec out_arg by (simp add: rv32_exec_def)
    note run = rv32_store_expansion [OF r(2-5), of st E fl, unfolded st']
    show ?thesis
      using run out_arg
      by (auto simp: rv32_expand_pseudo_def rv32_is_frame_pseudo_def rv32_scratch_def
          i32_add_of_int [OF r(1,2)] sint_of_int [OF r(2)] simp del: of_int_add wi_hom_add)
  next
    case in_arg
    let ?k = "incoming_arg_offset fl + sint arg"
    have r: "i32_range (incoming_arg_offset fl)" "i32_range ?k" "rd \<noteq> Physical rv32_reg.Sp"
      using off regs in_arg by (simp_all add: rv32_offset_ok_def rv32_regs_ok_def)
    have st': "step_load rv32_reg.Zero (load_signed 4) rd
        (get_reg rv32_reg.Zero st (Physical rv32_reg.Sp) + word_of_int ?k) st = Some st'"
      using exec in_arg by (simp add: rv32_exec_def)
    note run = rv32_load_expansion [OF r(2,3), of E fl st, unfolded st']
    show ?thesis
      using run in_arg
      by (auto simp: rv32_expand_pseudo_def rv32_is_frame_pseudo_def
          i32_add_of_int [OF r(1,2)] sint_of_int [OF r(2)] simp del: of_int_add wi_hom_add)
  next
    case addr
    then obtain k where k: "slot_offsets fl slot = Some k" using exec
      by (auto simp: rv32_exec_def bind_eq_Some_conv)
    then have st': "st' = put_reg rv32_reg.Zero rd
        (get_reg rv32_reg.Zero st (Physical rv32_reg.Sp) + word_of_int k) st"
      using exec addr by (simp add: rv32_exec_def)
    have r: "i32_range k" "rd \<noteq> Physical rv32_reg.Sp"
      using off regs addr k by (simp_all add: rv32_offset_ok_def rv32_regs_ok_def)
    note run = rv32_addr_expansion [OF r, of E fl st, folded st']
    show ?thesis
      using run k addr
      by (auto simp: rv32_expand_pseudo_def rv32_is_frame_pseudo_def sint_of_int [OF r(1)] Let_def)
  qed
qed

lemma rv32_adjust_sp_run:
  assumes "i32_range offset"
  shows "\<exists>st'. exec_all (rv32_exec E fl) (rv32_emit_adjust_sp offset) st = Some st' \<and>
    get_reg rv32_reg.Zero st' (Physical rv32_reg.Sp) =
      get_reg rv32_reg.Zero st (Physical rv32_reg.Sp) + word_of_int offset \<and>
    agree_except {Physical rv32_reg.Sp, Physical rv32_reg.T6} st st'"
  using assms
  by (auto simp: rv32_emit_adjust_sp_def rv32_spill_scratch_regs_def rv32_exec_def step_defs
      fits12_of_int simm_of_int get_put_reg agree_except_def gpr_put_reg Let_def)

section \<open>RV32: frames\<close>

interpretation rv32_frame: frame_machine rv32_target "rv32_exec E" rv32_reg.T6 for E
proof
  show "LENGTH(32) = 8 * WORD_SIZE rv32_target" "32 \<le> LENGTH(32)" by simp_all
  show "\<exists>rest. spill_scratch_regs rv32_target = rv32_reg.T6 # rest"
    by (simp add: rv32_spill_scratch_regs_def)
  show "distinct [zero_reg rv32_target, sp_reg rv32_target, ra_reg rv32_target, rv32_reg.T6]" by simp
  fix p show "is_callee_saved rv32_target p \<Longrightarrow>
      p \<notin> {zero_reg rv32_target, sp_reg rv32_target, ra_reg rv32_target, rv32_reg.T6}"
    by (auto simp: rv32_is_callee_saved_def)
next
  fix fl :: "rv32_reg frame_layout" and slot off r rt and st :: "(rv32_reg, 32 word) mstate"
  assume "slot_offsets fl slot = Some off"
  then show "rv32_exec E fl (emit_store_stack_slot rv32_target r slot rt) st =
      Some (st\<lparr>memory := store_le (WORD_SIZE rv32_target)
        (get_reg (zero_reg rv32_target) st (Physical (sp_reg rv32_target)) + word_of_int off)
        (uint (get_reg (zero_reg rv32_target) st r)) (memory st)\<rparr>)"
    "rv32_exec E fl (emit_load_stack_slot rv32_target r slot) st =
      Some (put_reg (zero_reg rv32_target) r (load_signed (WORD_SIZE rv32_target) (memory st)
        (get_reg (zero_reg rv32_target) st (Physical (sp_reg rv32_target)) + word_of_int off)) st)"
    by (simp_all add: rv32_exec_def step_store_def step_load_def)
next
  fix fl :: "rv32_reg frame_layout" and k and st :: "(rv32_reg, 32 word) mstate"
  assume "i32_range k"
  from rv32_adjust_sp_run [OF this]
  show "\<exists>st'. exec_all (rv32_exec E fl) (emit_adjust_sp rv32_target k) st = Some st' \<and>
      get_reg (zero_reg rv32_target) st' (Physical (sp_reg rv32_target)) =
        get_reg (zero_reg rv32_target) st (Physical (sp_reg rv32_target)) + word_of_int k \<and>
      agree_except {Physical (sp_reg rv32_target), Physical rv32_reg.T6} st st'" by simp
qed

section \<open>RV64: the register lists are sound\<close>

lemma rv64_def_sound:
  "rv64_exec E fl i st = Some st' \<Longrightarrow> r \<notin> set (rv64_def_regs i) \<Longrightarrow>
     get_reg rv64_reg.Zero st' r = get_reg rv64_reg.Zero st r"
  by (cases i) (auto simp: rv64_exec_def rv64_def_regs_def step_defs bind_eq_Some_conv split: if_splits)

text \<open>The scratch register of a frame store is written by the expansion only.\<close>

definition rv64_scratch :: "rv64_inst \<Rightarrow> rv64_reg register set" where
  "rv64_scratch i = (case i of
     rv64_inst.SaveStack _ _ rt \<Rightarrow> {rt} | rv64_inst.StoreOutgoingArg _ _ rt \<Rightarrow> {rt} | _ \<Rightarrow> {})"

lemma rv64_use_sound:
  assumes "rv64_exec E fl i st = Some st'"
    and "\<forall>r \<in> set (rv64_use_regs i). get_reg rv64_reg.Zero st2 r = get_reg rv64_reg.Zero st r"
    and "memory st2 = memory st"
  shows "\<exists>st2'. rv64_exec E fl i st2 = Some st2' \<and> memory st2' = memory st' \<and>
    (\<forall>r \<in> set (rv64_def_regs i) - rv64_scratch i.
       get_reg rv64_reg.Zero st2' r = get_reg rv64_reg.Zero st' r)"
  using assms
  by (cases i) (auto simp: rv64_exec_def rv64_def_regs_def rv64_use_regs_def rv64_scratch_def step_defs
      bind_eq_Some_conv get_put_reg split: if_splits)

section \<open>RV64: frame pseudo-instructions\<close>

text \<open>The offsets an expansion handles are the ones an \<open>i32\<close> holds.\<close>

definition rv64_offset_ok :: "rv64_inst \<Rightarrow> rv64_reg frame_layout \<Rightarrow> bool" where
  "rv64_offset_ok i fl = (case i of
     rv64_inst.LoadStack _ slot \<Rightarrow> pred_option i32_range (slot_offsets fl slot)
   | rv64_inst.SaveStack _ slot _ \<Rightarrow> pred_option i32_range (slot_offsets fl slot)
   | rv64_inst.GetStackAddr _ slot \<Rightarrow> pred_option i32_range (slot_offsets fl slot)
   | rv64_inst.StoreOutgoingArg _ off _ \<Rightarrow>
       i32_range (outgoing_arg_offset fl) \<and> i32_range (outgoing_arg_offset fl + sint off)
   | rv64_inst.LoadIncomingArg _ off \<Rightarrow>
       i32_range (incoming_arg_offset fl) \<and> i32_range (incoming_arg_offset fl + sint off)
   | _ \<Rightarrow> True)"

text \<open>No destination is the stack pointer, and a scratch register is neither the zero register nor
  the register being stored (what \<open>def_conflict_regs\<close> asks of the allocator).\<close>

definition rv64_regs_ok :: "rv64_inst \<Rightarrow> bool" where
  "rv64_regs_ok i = (case i of
     rv64_inst.LoadStack rd _ \<Rightarrow> rd \<noteq> Physical rv64_reg.Sp
   | rv64_inst.SaveStack rs _ rt \<Rightarrow>
       rt \<noteq> rs \<and> rt \<noteq> Physical rv64_reg.Sp \<and> rt \<noteq> Physical rv64_reg.Zero
   | rv64_inst.StoreOutgoingArg rs _ rt \<Rightarrow>
       rt \<noteq> rs \<and> rt \<noteq> Physical rv64_reg.Sp \<and> rt \<noteq> Physical rv64_reg.Zero
   | rv64_inst.LoadIncomingArg rd _ \<Rightarrow> rd \<noteq> Physical rv64_reg.Sp
   | rv64_inst.GetStackAddr rd _ \<Rightarrow> rd \<noteq> Physical rv64_reg.Sp
   | _ \<Rightarrow> True)"

definition rv64_is_frame_pseudo :: "rv64_inst \<Rightarrow> bool" where
  "rv64_is_frame_pseudo i = (case i of
     rv64_inst.LoadStack _ _ \<Rightarrow> True | rv64_inst.SaveStack _ _ _ \<Rightarrow> True
   | rv64_inst.StoreOutgoingArg _ _ _ \<Rightarrow> True | rv64_inst.LoadIncomingArg _ _ \<Rightarrow> True
   | rv64_inst.GetStackAddr _ _ \<Rightarrow> True | _ \<Rightarrow> False)"

lemma rv64_load_expansion:
  assumes "i32_range offset" "rd \<noteq> Physical rv64_reg.Sp"
  shows "exec_all (rv64_exec E fl)
      (if -2048 \<le> offset \<and> offset \<le> 2047
       then [rv64_inst.Ld rd (Physical rv64_reg.Sp) (word_of_int offset)]
       else [rv64_inst.Li rd (word_of_int offset), rv64_inst.Add rd (Physical rv64_reg.Sp) rd,
             rv64_inst.Ld rd rd 0]) st =
    step_load rv64_reg.Zero (load_signed 8) rd
      (get_reg rv64_reg.Zero st (Physical rv64_reg.Sp) + word_of_int offset) st"
  using assms
  by (cases "rd = Physical rv64_reg.Zero")
    (auto simp: rv64_exec_def step_defs fits12_of_int simm_of_int put_reg_zero)

lemma rv64_store_expansion:
  assumes "i32_range offset" "rt \<noteq> rs" "rt \<noteq> Physical rv64_reg.Sp" "rt \<noteq> Physical rv64_reg.Zero"
  shows "\<exists>st' st''. step_store rv64_reg.Zero 8
      (get_reg rv64_reg.Zero st (Physical rv64_reg.Sp) + word_of_int offset) rs st = Some st' \<and>
    exec_all (rv64_exec E fl)
      (if -2048 \<le> offset \<and> offset \<le> 2047
       then [rv64_inst.Sd (Physical rv64_reg.Sp) rs (word_of_int offset)]
       else [rv64_inst.Li rt (word_of_int offset), rv64_inst.Add rt (Physical rv64_reg.Sp) rt,
             rv64_inst.Sd rt rs 0]) st = Some st'' \<and> agree_except {rt} st' st''"
  using assms
  by (auto simp: rv64_exec_def step_defs fits12_of_int simm_of_int get_put_reg agree_except_def
      gpr_put_reg)

lemma rv64_addr_expansion:
  assumes "i32_range offset" "rd \<noteq> Physical rv64_reg.Sp"
  shows "exec_all (rv64_exec E fl)
      (if -2048 \<le> offset \<and> offset \<le> 2047
       then [rv64_inst.Addi rd (Physical rv64_reg.Sp) (word_of_int offset)]
       else [rv64_inst.Li rd (word_of_int offset), rv64_inst.Add rd (Physical rv64_reg.Sp) rd]) st =
    Some (put_reg rv64_reg.Zero rd
      (get_reg rv64_reg.Zero st (Physical rv64_reg.Sp) + word_of_int offset) st)"
  using assms
  by (cases "rd = Physical rv64_reg.Zero")
    (auto simp: rv64_exec_def step_defs fits12_of_int simm_of_int put_reg_zero)

text \<open>The executable pseudo-instructions with in-range offsets expand to a run that agrees with their
  meaning up to the scratch register, and leaves no pseudo-instruction behind.\<close>

lemma rv64_expand_pseudo_run:
  assumes exec: "rv64_exec E fl i st = Some st'" and off: "rv64_offset_ok i fl" and regs: "rv64_regs_ok i"
  shows "\<exists>is st''. rv64_expand_pseudo i fl = Some is \<and> exec_all (rv64_exec E fl) is st = Some st'' \<and>
    agree_except (rv64_scratch i) st' st'' \<and> list_all (\<lambda>j. \<not> rv64_is_frame_pseudo j) is"
proof (cases "rv64_is_frame_pseudo i")
  case False
  then have "rv64_expand_pseudo i fl = Some [i]"
    by (cases i) (simp_all add: rv64_is_frame_pseudo_def rv64_expand_pseudo_def)
  with exec False show ?thesis by simp
next
  case True
  then consider (load) rd slot where "i = rv64_inst.LoadStack rd slot"
    | (save) rs slot rt where "i = rv64_inst.SaveStack rs slot rt"
    | (out_arg) rs arg rt where "i = rv64_inst.StoreOutgoingArg rs arg rt"
    | (in_arg) rd arg where "i = rv64_inst.LoadIncomingArg rd arg"
    | (addr) rd slot where "i = rv64_inst.GetStackAddr rd slot"
    by (cases i) (simp_all add: rv64_is_frame_pseudo_def)
  then show ?thesis
  proof cases
    case load
    then obtain k where k: "slot_offsets fl slot = Some k" using exec
      by (auto simp: rv64_exec_def bind_eq_Some_conv)
    then have st': "step_load rv64_reg.Zero (load_signed 8) rd
        (get_reg rv64_reg.Zero st (Physical rv64_reg.Sp) + word_of_int k) st = Some st'"
      using exec load by (simp add: rv64_exec_def)
    have r: "i32_range k" "rd \<noteq> Physical rv64_reg.Sp"
      using off regs load k by (simp_all add: rv64_offset_ok_def rv64_regs_ok_def)
    note run = rv64_load_expansion [OF r, of E fl st, unfolded st']
    show ?thesis
      using run k load by (auto simp: rv64_expand_pseudo_def rv64_is_frame_pseudo_def)
  next
    case save
    then obtain k where k: "slot_offsets fl slot = Some k" using exec
      by (auto simp: rv64_exec_def bind_eq_Some_conv)
    then have st': "step_store rv64_reg.Zero 8
        (get_reg rv64_reg.Zero st (Physical rv64_reg.Sp) + word_of_int k) rs st = Some st'"
      using exec save by (simp add: rv64_exec_def)
    have r: "i32_range k" "rt \<noteq> rs" "rt \<noteq> Physical rv64_reg.Sp" "rt \<noteq> Physical rv64_reg.Zero"
      using off regs save k by (simp_all add: rv64_offset_ok_def rv64_regs_ok_def)
    note run = rv64_store_expansion [OF r, of st E fl, unfolded st']
    show ?thesis
      using run k save
      by (auto simp: rv64_expand_pseudo_def rv64_is_frame_pseudo_def rv64_scratch_def)
  next
    case out_arg
    let ?k = "outgoing_arg_offset fl + sint arg"
    have r: "i32_range (outgoing_arg_offset fl)" "i32_range ?k" "rt \<noteq> rs"
        "rt \<noteq> Physical rv64_reg.Sp" "rt \<noteq> Physical rv64_reg.Zero"
      using off regs out_arg by (simp_all add: rv64_offset_ok_def rv64_regs_ok_def)
    have st': "step_store rv64_reg.Zero 8
        (get_reg rv64_reg.Zero st (Physical rv64_reg.Sp) + word_of_int ?k) rs st = Some st'"
      using exec out_arg by (simp add: rv64_exec_def)
    note run = rv64_store_expansion [OF r(2-5), of st E fl, unfolded st']
    show ?thesis
      using run out_arg
      by (auto simp: rv64_expand_pseudo_def rv64_is_frame_pseudo_def rv64_scratch_def
          i32_add_of_int [OF r(1,2)] sint_of_int [OF r(2)] simp del: of_int_add wi_hom_add)
  next
    case in_arg
    let ?k = "incoming_arg_offset fl + sint arg"
    have r: "i32_range (incoming_arg_offset fl)" "i32_range ?k" "rd \<noteq> Physical rv64_reg.Sp"
      using off regs in_arg by (simp_all add: rv64_offset_ok_def rv64_regs_ok_def)
    have st': "step_load rv64_reg.Zero (load_signed 8) rd
        (get_reg rv64_reg.Zero st (Physical rv64_reg.Sp) + word_of_int ?k) st = Some st'"
      using exec in_arg by (simp add: rv64_exec_def)
    note run = rv64_load_expansion [OF r(2,3), of E fl st, unfolded st']
    show ?thesis
      using run in_arg
      by (auto simp: rv64_expand_pseudo_def rv64_is_frame_pseudo_def
          i32_add_of_int [OF r(1,2)] sint_of_int [OF r(2)] simp del: of_int_add wi_hom_add)
  next
    case addr
    then obtain k where k: "slot_offsets fl slot = Some k" using exec
      by (auto simp: rv64_exec_def bind_eq_Some_conv)
    then have st': "st' = put_reg rv64_reg.Zero rd
        (get_reg rv64_reg.Zero st (Physical rv64_reg.Sp) + word_of_int k) st"
      using exec addr by (simp add: rv64_exec_def)
    have r: "i32_range k" "rd \<noteq> Physical rv64_reg.Sp"
      using off regs addr k by (simp_all add: rv64_offset_ok_def rv64_regs_ok_def)
    note run = rv64_addr_expansion [OF r, of E fl st, folded st']
    show ?thesis
      using run k addr
      by (auto simp: rv64_expand_pseudo_def rv64_is_frame_pseudo_def sint_of_int [OF r(1)] Let_def)
  qed
qed

lemma rv64_adjust_sp_run:
  assumes "i32_range offset"
  shows "\<exists>st'. exec_all (rv64_exec E fl) (rv64_emit_adjust_sp offset) st = Some st' \<and>
    get_reg rv64_reg.Zero st' (Physical rv64_reg.Sp) =
      get_reg rv64_reg.Zero st (Physical rv64_reg.Sp) + word_of_int offset \<and>
    agree_except {Physical rv64_reg.Sp, Physical rv64_reg.T6} st st'"
  using assms
  by (auto simp: rv64_emit_adjust_sp_def rv64_spill_scratch_regs_def rv64_exec_def step_defs
      fits12_of_int simm_of_int get_put_reg agree_except_def gpr_put_reg Let_def)

section \<open>RV64: frames\<close>

interpretation rv64_frame: frame_machine rv64_target "rv64_exec E" rv64_reg.T6 for E
proof
  show "LENGTH(64) = 8 * WORD_SIZE rv64_target" "32 \<le> LENGTH(64)" by simp_all
  show "\<exists>rest. spill_scratch_regs rv64_target = rv64_reg.T6 # rest"
    by (simp add: rv64_spill_scratch_regs_def)
  show "distinct [zero_reg rv64_target, sp_reg rv64_target, ra_reg rv64_target, rv64_reg.T6]" by simp
  fix p show "is_callee_saved rv64_target p \<Longrightarrow>
      p \<notin> {zero_reg rv64_target, sp_reg rv64_target, ra_reg rv64_target, rv64_reg.T6}"
    by (auto simp: rv64_is_callee_saved_def)
next
  fix fl :: "rv64_reg frame_layout" and slot off r rt and st :: "(rv64_reg, 64 word) mstate"
  assume "slot_offsets fl slot = Some off"
  then show "rv64_exec E fl (emit_store_stack_slot rv64_target r slot rt) st =
      Some (st\<lparr>memory := store_le (WORD_SIZE rv64_target)
        (get_reg (zero_reg rv64_target) st (Physical (sp_reg rv64_target)) + word_of_int off)
        (uint (get_reg (zero_reg rv64_target) st r)) (memory st)\<rparr>)"
    "rv64_exec E fl (emit_load_stack_slot rv64_target r slot) st =
      Some (put_reg (zero_reg rv64_target) r (load_signed (WORD_SIZE rv64_target) (memory st)
        (get_reg (zero_reg rv64_target) st (Physical (sp_reg rv64_target)) + word_of_int off)) st)"
    by (simp_all add: rv64_exec_def step_store_def step_load_def)
next
  fix fl :: "rv64_reg frame_layout" and k and st :: "(rv64_reg, 64 word) mstate"
  assume "i32_range k"
  from rv64_adjust_sp_run [OF this]
  show "\<exists>st'. exec_all (rv64_exec E fl) (emit_adjust_sp rv64_target k) st = Some st' \<and>
      get_reg (zero_reg rv64_target) st' (Physical (sp_reg rv64_target)) =
        get_reg (zero_reg rv64_target) st (Physical (sp_reg rv64_target)) + word_of_int k \<and>
      agree_except {Physical (sp_reg rv64_target), Physical rv64_reg.T6} st st'" by simp
qed

section \<open>Properties\<close>

text \<open>C6. The register lists of RV64 are sound, which is what liveness and allocation rest on: an
  instruction changes no register outside \<open>def_regs\<close>; and two states that agree on the memory and
  on \<open>use_regs\<close> run alike, ending with the same memory and the same values in every written
  register (the scratch register of a frame store aside).\<close>

theorem rv64_register_lists_sound:
  assumes "rv64_exec E fl i st = Some st'"
  shows "(\<forall>r. r \<notin> set (rv64_def_regs i) \<longrightarrow>
      get_reg rv64_reg.Zero st' r = get_reg rv64_reg.Zero st r) \<and>
    (\<forall>st2. (\<forall>r \<in> set (rv64_use_regs i). get_reg rv64_reg.Zero st2 r = get_reg rv64_reg.Zero st r) \<longrightarrow>
       memory st2 = memory st \<longrightarrow>
       (\<exists>st2'. rv64_exec E fl i st2 = Some st2' \<and> memory st2' = memory st' \<and>
         (\<forall>r \<in> set (rv64_def_regs i) - rv64_scratch i.
            get_reg rv64_reg.Zero st2' r = get_reg rv64_reg.Zero st' r)))"
  using rv64_def_sound [OF assms] rv64_use_sound [OF assms] by blast

text \<open>A machine with every register and byte zero, and a frame with one slot far from the stack
  pointer.\<close>

definition blank_state :: "('r, 'w :: len word) mstate" where
  "blank_state = \<lparr>gpr = (\<lambda>_. 0), memory = (\<lambda>_. 0)\<rparr>"

definition blank_env :: "('w :: len word) link_env" where
  "blank_env = \<lparr>sym_addr = (\<lambda>s. word_of_nat (4096 * s)), sym_hi = (\<lambda>s. word_of_nat (4096 * s))\<rparr>"

definition far_frame :: "'r frame_layout" where
  "far_frame = \<lparr>frame_size = 8192, slot_offsets = [0 \<mapsto> 4096], outgoing_arg_offset = 0,
     incoming_arg_offset = 8192, callee_saved_slots = Map.empty, ra_slot = None\<rparr>"

theorem rv64_register_lists_sound_witness:
  "\<exists>st'. rv64_exec blank_env far_frame
      (rv64_inst.Addi (Physical rv64_reg.A0) (Physical rv64_reg.A1) 5) blank_state = Some st' \<and>
    get_reg rv64_reg.Zero st' (Physical rv64_reg.A2) = get_reg rv64_reg.Zero blank_state (Physical rv64_reg.A2)"
proof -
  let ?i = "rv64_inst.Addi (Physical rv64_reg.A0) (Physical rv64_reg.A1) 5"
  obtain st' where st': "rv64_exec blank_env far_frame ?i blank_state = Some st'"
    by (simp add: rv64_exec_def step_imm_def fits12_def)
  have "Physical rv64_reg.A2 \<notin> set (rv64_def_regs ?i)" by (simp add: rv64_def_regs_def)
  then show ?thesis using rv64_register_lists_sound [OF st'] st' by blast
qed

text \<open>C7. Expansion of the frame pseudo-instructions on RV32 is correct: when a pseudo-instruction has
  a meaning, its offset is one an \<open>i32\<close> holds, and its registers are as the allocator leaves them,
  \<open>expand_pseudo\<close> returns a run of encodable instructions (a 12-bit offset in one access, any other
  through the scratch register) that ends in the same memory and registers, the scratch register
  aside, with no frame pseudo-instruction left.\<close>

theorem rv32_expand_pseudo_correct:
  assumes "rv32_exec E fl i st = Some st'" and "rv32_offset_ok i fl" and "rv32_regs_ok i"
  shows "\<exists>is st''. rv32_expand_pseudo i fl = Some is \<and> exec_all (rv32_exec E fl) is st = Some st'' \<and>
    agree_except (rv32_scratch i) st' st'' \<and> list_all (\<lambda>j. \<not> rv32_is_frame_pseudo j) is"
  by (rule rv32_expand_pseudo_run [OF assms])

theorem rv32_expand_pseudo_correct_witness:
  "\<exists>is. rv32_expand_pseudo (rv32_inst.SaveStack (Physical rv32_reg.A0) 0 (Physical rv32_reg.T6))
      far_frame = Some is \<and> list_all (\<lambda>j. \<not> rv32_is_frame_pseudo j) is"
proof -
  let ?i = "rv32_inst.SaveStack (Physical rv32_reg.A0) 0 (Physical rv32_reg.T6)"
  obtain st' where st': "rv32_exec blank_env far_frame ?i blank_state = Some st'"
    by (simp add: rv32_exec_def step_store_def far_frame_def)
  have "rv32_offset_ok ?i far_frame" "rv32_regs_ok ?i"
    by (simp_all add: rv32_offset_ok_def rv32_regs_ok_def far_frame_def i32_range_def)
  from rv32_expand_pseudo_correct [OF st' this] show ?thesis by blast
qed

text \<open>C29. The same for RV64, whose accesses are 8 bytes wide.\<close>

theorem rv64_expand_pseudo_correct:
  assumes "rv64_exec E fl i st = Some st'" and "rv64_offset_ok i fl" and "rv64_regs_ok i"
  shows "\<exists>is st''. rv64_expand_pseudo i fl = Some is \<and> exec_all (rv64_exec E fl) is st = Some st'' \<and>
    agree_except (rv64_scratch i) st' st'' \<and> list_all (\<lambda>j. \<not> rv64_is_frame_pseudo j) is"
  by (rule rv64_expand_pseudo_run [OF assms])

theorem rv64_expand_pseudo_correct_witness:
  "\<exists>is. rv64_expand_pseudo (rv64_inst.LoadStack (Physical rv64_reg.A0) 0) far_frame = Some is \<and>
    list_all (\<lambda>j. \<not> rv64_is_frame_pseudo j) is"
proof -
  let ?i = "rv64_inst.LoadStack (Physical rv64_reg.A0) 0"
  obtain st' where st': "rv64_exec blank_env far_frame ?i blank_state = Some st'"
    by (simp add: rv64_exec_def step_load_def far_frame_def)
  have "rv64_offset_ok ?i far_frame" "rv64_regs_ok ?i"
    by (simp_all add: rv64_offset_ok_def rv64_regs_ok_def far_frame_def i32_range_def)
  from rv64_expand_pseudo_correct [OF st' this] show ?thesis by blast
qed

text \<open>C9. Parallel copies on RV64: for moves with distinct destinations, none of them the zero
  register, over virtual registers the function has already handed out, and whatever the order in
  which the hash map yields the sources, \<open>resolve_parallel_copy\<close> returns a sequence whose sequential
  run is the simultaneous assignment: every destination ends with the value its source had at the
  start, and no other register that existed before changes.\<close>

theorem rv64_parallel_copy_correct:
  assumes "distinct (map cm_dst moves)" and "set nodes = dom (copy_edges moves)"
    and "\<forall>m \<in> set moves. cm_dst m \<noteq> Physical rv64_reg.Zero"
    and "\<forall>m \<in> set moves. \<forall>v. Virtual v \<in> {cm_dst m, cm_src m} \<longrightarrow> v < vreg_counter mf"
  shows "\<exists>is mf' st'. resolve_parallel_copy rv64_target nodes moves mf = Some (is, mf') \<and>
    exec_all (rv64_exec E fl) is st = Some st' \<and>
    (\<forall>m \<in> set moves. get_reg rv64_reg.Zero st' (cm_dst m) = get_reg rv64_reg.Zero st (cm_src m)) \<and>
    (\<forall>r. r \<notin> cm_dst ` set moves \<longrightarrow> (\<forall>v. r = Virtual v \<longrightarrow> v < vreg_counter mf) \<longrightarrow>
       get_reg rv64_reg.Zero st' r = get_reg rv64_reg.Zero st r)"
  by (rule rv64_moves.resolve_parallel_copy_correct [OF assms])

text \<open>The witness swaps \<open>a0\<close> and \<open>a1\<close>: a cycle, which needs a temporary.\<close>

theorem rv64_parallel_copy_correct_witness:
  "\<exists>is mf' st'. resolve_parallel_copy rv64_target [Physical rv64_reg.A0, Physical rv64_reg.A1]
      [\<lparr>cm_dst = Physical rv64_reg.A0, cm_src = Physical rv64_reg.A1\<rparr>,
       \<lparr>cm_dst = Physical rv64_reg.A1, cm_src = Physical rv64_reg.A0\<rparr>]
      (empty_machine_function ''f'') = Some (is, mf') \<and>
    exec_all (rv64_exec blank_env far_frame) is blank_state = Some st' \<and>
    get_reg rv64_reg.Zero st' (Physical rv64_reg.A0) =
      get_reg rv64_reg.Zero blank_state (Physical rv64_reg.A1)"
proof -
  let ?m = "[\<lparr>cm_dst = Physical rv64_reg.A0, cm_src = Physical rv64_reg.A1\<rparr>,
       \<lparr>cm_dst = Physical rv64_reg.A1, cm_src = Physical rv64_reg.A0\<rparr>]"
  have "distinct (map cm_dst ?m)" by simp
  moreover have "set [Physical rv64_reg.A0, Physical rv64_reg.A1] = dom (copy_edges ?m)"
    by (auto simp: copy_edges_def add_copy_edge_def)
  moreover have "\<forall>m \<in> set ?m. cm_dst m \<noteq> Physical rv64_reg.Zero" by simp
  moreover have "\<forall>m \<in> set ?m. \<forall>v. Virtual v \<in> {cm_dst m, cm_src m} \<longrightarrow>
      v < vreg_counter (empty_machine_function ''f'' :: (rv64_reg, rv64_inst) machine_function)"
    by simp
  ultimately obtain "is" mf' st' where r: "resolve_parallel_copy rv64_target
        [Physical rv64_reg.A0, Physical rv64_reg.A1] ?m (empty_machine_function ''f'') = Some (is, mf')"
      "exec_all (rv64_exec blank_env far_frame) is blank_state = Some st'"
      "\<forall>m \<in> set ?m. get_reg rv64_reg.Zero st' (cm_dst m) = get_reg rv64_reg.Zero blank_state (cm_src m)"
    using rv64_parallel_copy_correct [of ?m "[Physical rv64_reg.A0, Physical rv64_reg.A1]"
        "empty_machine_function ''f''" blank_env far_frame blank_state] by blast
  then show ?thesis by auto
qed

text \<open>A multiple of the larger of two numbers, one of which divides the other, is one of both.\<close>

lemma dvd_of_max_dvd:
  fixes a b n :: nat
  assumes "a dvd b \<or> b dvd a" and "max a b dvd n" and "a \<noteq> 0" "b \<noteq> 0"
  shows "a dvd n \<and> b dvd n"
proof -
  have "a dvd max a b \<and> b dvd max a b" using assms(1,3,4) by (auto simp: max_def dest: dvd_imp_le)
  with assms(2) show ?thesis by (blast intro: dvd_trans)
qed

text \<open>C11. Frame layout: on a function whose slots are numbered in order and have nonzero alignments,
  that has no layout yet, \<open>compute_frame_layout\<close> returns, and in the result every slot has an offset
  that is a multiple of its alignment, lies above the outgoing arguments and ends inside the frame; two
  slots never overlap; the frame size is a multiple of the larger of the largest slot alignment and the
  ABI's, hence of both when one divides the other, as it does for powers of two; and the incoming
  arguments start at the end of the frame.\<close>

theorem frame_layout_sound:
  assumes "frame_info_wf (frame_info mf)"
    and "\<forall>s \<in> set (stack_slots (frame_info mf)). slot_align s \<noteq> 0"
    and "ra_slot (frame_layout mf) = None" "callee_saved_slots (frame_layout mf) = Map.empty"
    and "finite (used_callee_saved (frame_info mf))"
    and "WORD_SIZE T \<noteq> 0" "FRAME_ALIGN T \<noteq> 0"
  shows "\<exists>mf'. compute_frame_layout T mf = Some mf' \<and>
    (let slots = stack_slots (frame_info mf'); fl = frame_layout mf' in
     (\<forall>i < length slots. \<exists>k. slot_offsets fl i = Some (int k) \<and>
        max_outgoing_arg_size (frame_info mf') \<le> k \<and> slot_align (slots ! i) dvd k \<and>
        k + slot_size (slots ! i) \<le> frame_size fl) \<and>
     (\<forall>i j a b. i < j \<and> j < length slots \<and> slot_offsets fl i = Some (int a) \<and>
        slot_offsets fl j = Some (int b) \<longrightarrow> a + slot_size (slots ! i) \<le> b) \<and>
     max (max_align (frame_info mf')) (FRAME_ALIGN T) dvd frame_size fl \<and>
     (max_align (frame_info mf') \<noteq> 0 \<and> (max_align (frame_info mf') dvd FRAME_ALIGN T \<or>
        FRAME_ALIGN T dvd max_align (frame_info mf')) \<longrightarrow>
        max_align (frame_info mf') dvd frame_size fl \<and> FRAME_ALIGN T dvd frame_size fl) \<and>
     incoming_arg_offset fl = int (frame_size fl))"
proof -
  obtain mf' where mf': "compute_frame_layout T mf = Some mf'" "frame_laid_out T mf'"
    using compute_frame_layout_laid_out [OF assms] by blast
  let ?slots = "stack_slots (frame_info mf')" and ?fl = "frame_layout mf'"
  have chain: "slot_chain ?slots (next_multiple_of (max_outgoing_arg_size (frame_info mf')) (WORD_SIZE T))
      (slot_offsets ?fl) (frame_size ?fl)"
    and ids: "map slot_id ?slots = [0..<length ?slots]"
    using mf'(2) by (auto simp: frame_laid_out_def frame_info_wf_def)
  have nth_id: "slot_id (?slots ! i) = i" if "i < length ?slots" for i
    using ids that by (metis add.left_neutral length_map nth_map nth_upt)
  have "\<exists>k. slot_offsets ?fl i = Some (int k) \<and> max_outgoing_arg_size (frame_info mf') \<le> k \<and>
      slot_align (?slots ! i) dvd k \<and> k + slot_size (?slots ! i) \<le> frame_size ?fl"
    if "i < length ?slots" for i
    using slot_chain_bounds [OF chain nth_mem [OF that]] nth_id [OF that]
      next_multiple_of_ge [of "max_outgoing_arg_size (frame_info mf')" "WORD_SIZE T"]
    by (auto intro: order_trans)
  moreover have "a + slot_size (?slots ! i) \<le> b"
    if "i < j" "j < length ?slots" "slot_offsets ?fl i = Some (int a)" "slot_offsets ?fl j = Some (int b)" for i j a b
    using slot_chain_apart [OF chain that(1,2)] that nth_id [of i] nth_id [of j] by simp
  moreover have "max_align (frame_info mf') dvd frame_size ?fl \<and> FRAME_ALIGN T dvd frame_size ?fl"
    if "max_align (frame_info mf') \<noteq> 0"
      "max_align (frame_info mf') dvd FRAME_ALIGN T \<or> FRAME_ALIGN T dvd max_align (frame_info mf')"
    using mf'(2) that assms(7) by (intro dvd_of_max_dvd) (auto simp: frame_laid_out_def)
  ultimately show ?thesis
    using mf' by (auto simp: Let_def frame_laid_out_def)
qed

theorem frame_layout_sound_witness:
  "\<exists>mf'. compute_frame_layout rv64_target
      (snd (new_stack_slot (empty_machine_function ''f'') 12 4 AllocaSlot)) = Some mf' \<and>
    16 dvd frame_size (frame_layout mf')"
proof -
  let ?mf = "snd (new_stack_slot (empty_machine_function ''f'') 12 4 AllocaSlot) ::
    (rv64_reg, rv64_inst) machine_function"
  have "frame_info_wf (frame_info ?mf)" "\<forall>s \<in> set (stack_slots (frame_info ?mf)). slot_align s \<noteq> 0"
    "ra_slot (frame_layout ?mf) = None" "callee_saved_slots (frame_layout ?mf) = Map.empty"
    "finite (used_callee_saved (frame_info ?mf))" "max_align (frame_info ?mf) = 4"
    by (simp_all add: frame_info_wf_def new_stack_slot_def empty_machine_function_def Let_def)
  from frame_layout_sound [OF this(1-5), of rv64_target]
  obtain mf' where mf': "compute_frame_layout rv64_target ?mf = Some mf'"
    "max (max_align (frame_info mf')) 16 dvd frame_size (frame_layout mf')"
    by (auto simp: Let_def)
  obtain k where "max (max_align (frame_info mf')) 16 = (16 :: nat)"
    using mf'(1) by (auto simp: compute_frame_layout_def alloc_ra_slot_def new_stack_slot_def
        empty_machine_function_def Let_def)
  with mf' show ?thesis by auto
qed

text \<open>Where \<open>insert_logue\<close> puts the two sequences: neither contains a return, so the prologue stands
  in front of the entry block and the epilogue in front of every return.\<close>

lemma update_first_block_map:
  "distinct (map mb_id bs) \<Longrightarrow> n \<in> mb_id ` set bs \<Longrightarrow>
   update_first_block n f bs = Some (map (\<lambda>b. if mb_id b = n then f b else b) bs)"
proof (induction bs)
  case (Cons b bs)
  show ?case
  proof (cases "mb_id b = n")
    case True
    then have "n \<notin> mb_id ` set bs" using Cons.prems(1) by simp
    then have "map (\<lambda>b. if mb_id b = n then f b else b) bs = bs"
      by (intro map_idI) (auto simp: image_iff)
    then show ?thesis using True by simp
  qed (use Cons in auto)
qed simp

lemma insert_logue_blocks:
  assumes code: "logue_code T mf = Some (prologue, epilogue)"
    and ids: "distinct (map mb_id (blocks mf))" "entry mf \<in> mb_id ` set (blocks mf)"
    and no_ret: "\<forall>i \<in> set prologue. \<not> is_ret T i"
  shows "insert_logue T mf = Some (mf\<lparr>blocks := map (\<lambda>b. b\<lparr>instructions :=
      (if mb_id b = entry mf then prologue else []) @
      concat (map (\<lambda>i. if is_ret T i then epilogue @ [i] else [i]) (instructions b))\<rparr>) (blocks mf)\<rparr>)"
proof -
  have "concat (map (\<lambda>i. if is_ret T i then epilogue @ [i] else [i]) prologue) = prologue"
    using no_ret by (induction prologue) auto
  then show ?thesis
    using code update_first_block_map [OF ids]
    by (auto simp: insert_logue_def with_block_mut_def)
qed

lemma rv64_prologue_no_ret:
  assumes "logue_code rv64_target mf = Some (prologue, epilogue)"
  shows "\<forall>i \<in> set prologue. \<not> rv64_is_ret i"
proof -
  have "\<forall>i \<in> set (rv64_emit_adjust_sp k). \<not> rv64_is_ret i" for k
    by (auto simp: rv64_emit_adjust_sp_def rv64_is_ret_def Let_def)
  moreover have "\<not> rv64_is_ret (rv64_inst.SaveStack r slot rt)" for r slot rt
    by (simp add: rv64_is_ret_def)
  ultimately show ?thesis
    using assms by (auto simp: logue_code_def bind_eq_Some_conv Let_def split: list.splits)
qed

text \<open>C13. Prologue and epilogue on RV64: for a laid-out frame below 2 GiB whose used callee-saved
  registers are callee-saved, in a function with distinct block numbers and an entry block,
  \<open>insert_logue\<close> returns: it finds the slots to save to, puts a prologue in front of the entry block
  and an epilogue in front of every return, and changes nothing else. The prologue runs from every
  state, lowers the stack pointer by the frame size, changes no other register but the scratch register
  and no byte outside the slots it saves to; and from any later state with that stack pointer and those
  slots' bytes, the epilogue runs, writes no memory and ends with the stack pointer, the return address
  (if it is saved) and every used callee-saved register as they were before the prologue.\<close>

theorem rv64_logue_restores:
  assumes "frame_laid_out rv64_target mf" and "frame_size (frame_layout mf) \<le> 2147483647"
    and "used_callee_saved (frame_info mf) \<subseteq> {p. rv64_is_callee_saved p}"
    and "distinct (map mb_id (blocks mf))" and "entry mf \<in> mb_id ` set (blocks mf)"
  shows "\<exists>saves prologue epilogue st1. saved_slots rv64_target mf = Some saves \<and>
    insert_logue rv64_target mf = Some (mf\<lparr>blocks := map (\<lambda>b. b\<lparr>instructions :=
      (if mb_id b = entry mf then prologue else []) @
      concat (map (\<lambda>i. if rv64_is_ret i then epilogue @ [i] else [i]) (instructions b))\<rparr>) (blocks mf)\<rparr>) \<and>
    exec_all (rv64_exec E (frame_layout mf)) prologue st = Some st1 \<and>
    get_reg rv64_reg.Zero st1 (Physical rv64_reg.Sp) =
      get_reg rv64_reg.Zero st (Physical rv64_reg.Sp) - word_of_nat (frame_size (frame_layout mf)) \<and>
    (\<forall>r. r \<notin> {Physical rv64_reg.Sp, Physical rv64_reg.T6} \<longrightarrow>
       get_reg rv64_reg.Zero st1 r = get_reg rv64_reg.Zero st r) \<and>
    (\<forall>b. (\<forall>slot \<in> snd ` set saves. b \<notin> byte_range (slot_addr (get_reg rv64_reg.Zero st1
          (Physical rv64_reg.Sp)) (slot_offsets (frame_layout mf)) slot) 8) \<longrightarrow>
       memory st1 b = memory st b) \<and>
    (\<forall>st2. get_reg rv64_reg.Zero st2 (Physical rv64_reg.Sp) = get_reg rv64_reg.Zero st1 (Physical rv64_reg.Sp) \<longrightarrow>
      (\<forall>slot \<in> snd ` set saves. \<forall>b \<in> byte_range (slot_addr (get_reg rv64_reg.Zero st1
          (Physical rv64_reg.Sp)) (slot_offsets (frame_layout mf)) slot) 8. memory st2 b = memory st1 b) \<longrightarrow>
      (\<exists>st3. exec_all (rv64_exec E (frame_layout mf)) epilogue st2 = Some st3 \<and> memory st3 = memory st2 \<and>
        get_reg rv64_reg.Zero st3 (Physical rv64_reg.Sp) = get_reg rv64_reg.Zero st (Physical rv64_reg.Sp) \<and>
        (ra_slot (frame_layout mf) \<noteq> None \<longrightarrow> get_reg rv64_reg.Zero st3 (Physical rv64_reg.Ra) =
           get_reg rv64_reg.Zero st (Physical rv64_reg.Ra)) \<and>
        (\<forall>p \<in> used_callee_saved (frame_info mf).
           get_reg rv64_reg.Zero st3 (Physical p) = get_reg rv64_reg.Zero st (Physical p))))"
proof -
  let ?z = rv64_reg.Zero and ?sp = "Physical rv64_reg.Sp" and ?fl = "frame_layout mf"
  have used: "used_callee_saved (frame_info mf) \<subseteq> {p. is_callee_saved rv64_target p}" using assms(3) by simp
  have fin: "finite (used_callee_saved (frame_info mf))"
    by (rule finite_subset [OF assms(3)]) (simp add: rv64_is_callee_saved_def)
  obtain saves where saves: "saved_slots rv64_target mf = Some saves"
    using assms(1) by (auto simp: frame_laid_out_def)
  obtain prologue epilogue where code: "logue_code rv64_target mf = Some (prologue, epilogue)"
    by (auto simp: logue_code_def rv64_spill_scratch_regs_def saves Let_def)
  have no_ret: "\<forall>i \<in> set prologue. \<not> is_ret rv64_target i" using rv64_prologue_no_ret [OF code] by simp
  note placed = insert_logue_blocks [OF code assms(4,5) no_ret, unfolded rv64_target_sel]
  note regs = rv64_frame.saves_regs(3) [OF saves used fin] rv64_frame.saves_regs(4) [OF saves used]
  have both: "(\<forall>p \<in> fst ` set saves. P p) \<Longrightarrow>
      (ra_slot ?fl \<noteq> None \<longrightarrow> P rv64_reg.Ra) \<and> (\<forall>p \<in> used_callee_saved (frame_info mf). P p)" for P
    using regs unfolding rv64_target_sel by blast
  obtain st1 where st1: "exec_all (rv64_exec E ?fl) prologue st = Some st1"
      "get_reg ?z st1 ?sp = get_reg ?z st ?sp - word_of_nat (frame_size ?fl)"
      "\<forall>r. r \<notin> {?sp, Physical rv64_reg.T6} \<longrightarrow> get_reg ?z st1 r = get_reg ?z st r"
      "\<forall>b. (\<forall>slot \<in> snd ` set saves. b \<notin> byte_range (slot_addr (get_reg ?z st1 ?sp)
        (slot_offsets ?fl) slot) 8) \<longrightarrow> memory st1 b = memory st b"
    and undo: "\<forall>st2. get_reg ?z st2 ?sp = get_reg ?z st1 ?sp \<longrightarrow>
      (\<forall>slot \<in> snd ` set saves. \<forall>b \<in> byte_range (slot_addr (get_reg ?z st1 ?sp) (slot_offsets ?fl) slot) 8.
        memory st2 b = memory st1 b) \<longrightarrow>
      (\<exists>st3. exec_all (rv64_exec E ?fl) epilogue st2 = Some st3 \<and> memory st3 = memory st2 \<and>
        get_reg ?z st3 ?sp = get_reg ?z st ?sp \<and>
        (\<forall>p \<in> fst ` set saves. get_reg ?z st3 (Physical p) = get_reg ?z st (Physical p)) \<and>
        (\<forall>r. r \<notin> {?sp, Physical rv64_reg.T6} \<union> Physical ` fst ` set saves \<longrightarrow>
           get_reg ?z st3 r = get_reg ?z st2 r))"
    using rv64_frame.logue_restores [OF assms(1,2) saves code used, of E st] unfolding rv64_target_sel
    by (elim exE conjE) (rule that; assumption)
  have "\<exists>st3. exec_all (rv64_exec E ?fl) epilogue st2 = Some st3 \<and> memory st3 = memory st2 \<and>
      get_reg ?z st3 ?sp = get_reg ?z st ?sp \<and>
      (ra_slot ?fl \<noteq> None \<longrightarrow> get_reg ?z st3 (Physical rv64_reg.Ra) = get_reg ?z st (Physical rv64_reg.Ra)) \<and>
      (\<forall>p \<in> used_callee_saved (frame_info mf). get_reg ?z st3 (Physical p) = get_reg ?z st (Physical p))"
    if same: "get_reg ?z st2 ?sp = get_reg ?z st1 ?sp"
      and bytes: "\<forall>slot \<in> snd ` set saves. \<forall>b \<in> byte_range (slot_addr (get_reg ?z st1 ?sp) (slot_offsets ?fl) slot) 8.
        memory st2 b = memory st1 b" for st2
  proof -
    obtain st3 where st3: "exec_all (rv64_exec E ?fl) epilogue st2 = Some st3" "memory st3 = memory st2"
        "get_reg ?z st3 ?sp = get_reg ?z st ?sp"
        "\<forall>p \<in> fst ` set saves. get_reg ?z st3 (Physical p) = get_reg ?z st (Physical p)"
      using undo [THEN spec, THEN mp, OF same, THEN mp, OF bytes] by (elim exE conjE) (rule that; assumption)
    then show ?thesis using both [of "\<lambda>p. get_reg ?z st3 (Physical p) = get_reg ?z st (Physical p)"] by blast
  qed
  with st1 saves placed show ?thesis by blast
qed

text \<open>The witness: a function that calls, so that the return address is saved.\<close>

theorem rv64_logue_restores_witness:
  "\<exists>mf mf' saves. saved_slots rv64_target mf = Some saves \<and> ra_slot (frame_layout mf) \<noteq> None \<and>
    insert_logue rv64_target mf = Some mf' \<and> length (blocks mf') = 1"
proof -
  let ?mf = "(empty_machine_function ''f'')\<lparr>frame_info := \<lparr>stack_slots = [], max_align = 1,
      max_outgoing_arg_size = 0, used_callee_saved = {}, need_save_ra = True\<rparr>,
      blocks := [\<lparr>mb_id = 0, mb_name = ''entry'', instructions = [rv64_inst.Ret]\<rparr>]\<rparr> ::
    (rv64_reg, rv64_inst) machine_function"
  have "compute_frame_layout rv64_target ?mf \<noteq> None"
    by (simp add: compute_frame_layout_def alloc_ra_slot_def new_stack_slot_def empty_machine_function_def Let_def)
  obtain mf where mf: "compute_frame_layout rv64_target ?mf = Some mf" "frame_laid_out rv64_target mf"
      "ra_slot (frame_layout mf) \<noteq> None" "used_callee_saved (frame_info mf) = {}"
    using compute_frame_layout_laid_out [of ?mf rv64_target]
    by (auto simp: frame_info_wf_def empty_machine_function_def)
  have size: "frame_size (frame_layout mf) = 16" "blocks mf = blocks ?mf" "entry mf = 0"
    using mf(1) by (auto simp: compute_frame_layout_def alloc_ra_slot_def new_stack_slot_def
        empty_machine_function_def next_multiple_of_def Let_def)
  have "frame_size (frame_layout mf) \<le> 2147483647"
    "used_callee_saved (frame_info mf) \<subseteq> {p. rv64_is_callee_saved p}"
    "distinct (map mb_id (blocks mf))" "entry mf \<in> mb_id ` set (blocks mf)" by (simp_all add: size mf(4))
  from rv64_logue_restores [OF mf(2) this, of blank_env blank_state]
  obtain saves prologue epilogue where "saved_slots rv64_target mf = Some saves"
    "insert_logue rv64_target mf = Some (mf\<lparr>blocks := map (\<lambda>b. b\<lparr>instructions :=
      (if mb_id b = entry mf then prologue else []) @
      concat (map (\<lambda>i. if rv64_is_ret i then epilogue @ [i] else [i]) (instructions b))\<rparr>) (blocks mf)\<rparr>)"
    by blast
  then show ?thesis using mf(3) size(2) by auto
qed

end
