(* ===== verification/Machine_Run.thy ===== *)
theory Machine_Run
  imports Parallel_Copy
begin

text \<open>
  Running a machine function.  The blocks are flattened into the text the assembler sees, labels
  and instructions in order, so that falling through to the next block needs no rule of its own; a
  position is the rest of the text.  \<open>runs\<close> relates a position and a state to the state in which the
  function returns.  What an instruction does is the parameter \<open>step\<close>; the locale \<open>control_machine\<close>
  is what the passes that rearrange blocks and branches need of it.  This is the specification the
  passes are checked against; it models no code of the repository.
\<close>

section \<open>Code as text\<close>

datatype 'st control = Fall 'st | Goto block_id 'st | Return 'st

datatype 'i item = Label block_id | Ins 'i

definition block_items :: "'i machine_block \<Rightarrow> 'i item list" where
  "block_items b = Label (mb_id b) # map Ins (instructions b)"

definition items :: "'i machine_block list \<Rightarrow> 'i item list" where
  "items bs = concat (map block_items bs)"

lemma items_simps [simp]:
  "items [] = []" "items (b # bs) = block_items b @ items bs" "items (bs @ cs) = items bs @ items cs"
  by (simp_all add: items_def)

fun find_label :: "block_id \<Rightarrow> 'i item list \<Rightarrow> 'i item list option" where
  "find_label b [] = None"
| "find_label b (Label b' # k) = (if b' = b then Some k else find_label b k)"
| "find_label b (Ins i # k) = find_label b k"

lemma find_label_Ins [simp]: "find_label b (map Ins is @ k) = find_label b k"
  by (induction "is") auto

lemma find_label_items:
  "find_label b (items (blk # bs) @ k) =
     (if mb_id blk = b then Some (map Ins (instructions blk) @ items bs @ k)
      else find_label b (items bs @ k))"
  by (simp add: block_items_def)

inductive runs ::
  "('i \<Rightarrow> 'st \<Rightarrow> 'st control option) \<Rightarrow> 'i item list \<Rightarrow> 'i item list \<Rightarrow> 'st \<Rightarrow> 'st \<Rightarrow> bool"
  for step and prog where
  runs_label: "runs step prog k st r \<Longrightarrow> runs step prog (Label b # k) st r"
| runs_fall: "step i st = Some (Fall st1) \<Longrightarrow> runs step prog k st1 r \<Longrightarrow>
    runs step prog (Ins i # k) st r"
| runs_goto: "step i st = Some (Goto b st1) \<Longrightarrow> find_label b prog = Some k1 \<Longrightarrow>
    runs step prog k1 st1 r \<Longrightarrow> runs step prog (Ins i # k) st r"
| runs_return: "step i st = Some (Return st1) \<Longrightarrow> runs step prog (Ins i # k) st st1"

inductive_simps runs_Nil [simp]: "runs step prog [] st r"
inductive_simps runs_Label [simp]: "runs step prog (Label b # k) st r"
inductive_cases runs_InsE: "runs step prog (Ins i # k) st r"

definition fn_runs ::
  "('i \<Rightarrow> 'st \<Rightarrow> 'st control option) \<Rightarrow> ('r, 'i) machine_function \<Rightarrow> 'st \<Rightarrow> 'st \<Rightarrow> bool" where
  "fn_runs step mf st r \<longleftrightarrow>
     (\<exists>k. find_label (entry mf) (items (blocks mf)) = Some k \<and> runs step (items (blocks mf)) k st r)"

text \<open>The first outcome is the only one.\<close>

lemma runs_deterministic: "runs step prog k st r \<Longrightarrow> runs step prog k st r' \<Longrightarrow> r = r'"
proof (induction arbitrary: r' rule: runs.induct)
  case (runs_label k st r b)
  then show ?case by simp
next
  case (runs_fall i st st1 k r)
  from runs_fall.prems runs_fall.hyps(1) runs_fall.IH show ?case by (auto elim: runs_InsE)
next
  case (runs_goto i st b st1 k1 r k)
  from runs_goto.prems runs_goto.hyps(1,2) runs_goto.IH show ?case by (auto elim: runs_InsE)
next
  case (runs_return i st st1 k)
  from runs_return.prems runs_return.hyps show ?case by (auto elim: runs_InsE)
qed

section \<open>What the passes need of a target\<close>

locale control_machine =
  fixes T :: "('r, 'i, 'z) lowering_target_scheme"
    and step :: "'i \<Rightarrow> 'st \<Rightarrow> 'st control option"
  assumes step_jump: "step (emit_jump T b) st = Some (Goto b st)"
    and step_is_jump: "is_jump_to T i b \<Longrightarrow> step i st = Some (Goto b st)"
    and step_self_move: "as_move T i = Some (r, r) \<Longrightarrow> step i st = Some (Fall st)"
    and step_branch: "get_branch_target T i = Some b \<Longrightarrow>
      step i st = Some (Goto b st) \<and> step (set_branch_target T i b') st = Some (Goto b' st) \<or>
      step i st = Some (Fall st) \<and> step (set_branch_target T i b') st = Some (Fall st)"
    and step_ret: "is_ret T i \<Longrightarrow> step i st = Some (Return st)"
    and step_goto: "step i st = Some (Goto b st1) \<Longrightarrow> \<exists>ss. get_successors T i = Some ss \<and> b \<in> set ss"
    and jump_succ: "get_successors T (emit_jump T b) = Some [b]"
    and jump_is_jump: "is_jump_to T (emit_jump T b) b"
    and jump_no_branch: "get_branch_target T (emit_jump T b) = None"
    and branch_conditional: "get_branch_target T i = Some b \<Longrightarrow> \<not> is_ret T i \<and> \<not> is_jump_to T i t"
    and jump_size: "size_in_bytes T (emit_jump T b) = 4"

end
