(* ===== verification/Mir_Opt.thy ===== *)
theory Mir_Opt
  imports Machine_Run
begin

text \<open>
  The two clean-up passes over machine code: \<open>peephole_optimize\<close> (\<open>src/src/mir/opt/peephole.rs\<close>)
  drops a move from a register to itself, \<open>optimize_fallthroughs\<close>
  (\<open>src/src/mir/opt/fallthrough.rs\<close>) drops a jump to the block that follows.  Both leave every run
  of the function as it was.
\<close>

section \<open>Peephole\<close>

definition is_self_move :: "('r, 'i, 'z) target_inst_scheme \<Rightarrow> 'i \<Rightarrow> bool" where
  "is_self_move T i = (case as_move T i of Some (src, dst) \<Rightarrow> src = dst | None \<Rightarrow> False)"

definition peephole_optimize ::
  "('r, 'i, 'z) target_inst_scheme \<Rightarrow> ('r, 'i) machine_function \<Rightarrow> ('r, 'i) machine_function" where
  "peephole_optimize T mf = mf\<lparr>blocks :=
     map (\<lambda>b. b\<lparr>instructions := filter (\<lambda>i. \<not> is_self_move T i) (instructions b)\<rparr>) (blocks mf)\<rparr>"

definition drop_self_moves :: "('r, 'i, 'z) target_inst_scheme \<Rightarrow> 'i item list \<Rightarrow> 'i item list" where
  "drop_self_moves T k = filter (\<lambda>x. case x of Label _ \<Rightarrow> True | Ins i \<Rightarrow> \<not> is_self_move T i) k"

lemma drop_self_moves_simps [simp]:
  "drop_self_moves T [] = []"
  "drop_self_moves T (Label b # k) = Label b # drop_self_moves T k"
  "drop_self_moves T (Ins i # k) = (if is_self_move T i then drop_self_moves T k
     else Ins i # drop_self_moves T k)"
  "drop_self_moves T (k @ k') = drop_self_moves T k @ drop_self_moves T k'"
  by (simp_all add: drop_self_moves_def)

lemma drop_self_moves_Ins:
  "drop_self_moves T (map Ins is) = map Ins (filter (\<lambda>i. \<not> is_self_move T i) is)"
  by (induction "is") auto

lemma items_peephole:
  "items (map (\<lambda>b. b\<lparr>instructions := filter (\<lambda>i. \<not> is_self_move T i) (instructions b)\<rparr>) bs) =
     drop_self_moves T (items bs)"
  by (induction bs) (auto simp: block_items_def drop_self_moves_Ins)

lemma find_label_drop:
  "find_label b (drop_self_moves T k) = map_option (drop_self_moves T) (find_label b k)"
  by (induction b k rule: find_label.induct) auto

section \<open>Fallthroughs\<close>

definition trim_jump :: "('r, 'i, 'z) lowering_target_scheme \<Rightarrow> block_id \<Rightarrow> 'i list \<Rightarrow> 'i list" where
  "trim_jump T next_id is =
     (if is \<noteq> [] \<and> is_jump_to T (last is) next_id then butlast is else is)"

text \<open>The zip of the blocks with the ids that follow them.\<close>

fun trim_blocks ::
  "('r, 'i, 'z) lowering_target_scheme \<Rightarrow> 'i machine_block list \<Rightarrow> 'i machine_block list" where
  "trim_blocks T (b # c # rest) =
     b\<lparr>instructions := trim_jump T (mb_id c) (instructions b)\<rparr> # trim_blocks T (c # rest)"
| "trim_blocks T bs = bs"

definition optimize_fallthroughs ::
  "('r, 'i, 'z) lowering_target_scheme \<Rightarrow> ('r, 'i) machine_function \<Rightarrow> ('r, 'i) machine_function" where
  "optimize_fallthroughs T mf = mf\<lparr>blocks := trim_blocks T (blocks mf)\<rparr>"

text \<open>On the text: a jump right before its own target goes away.\<close>

definition jumps_next :: "('r, 'i, 'z) lowering_target_scheme \<Rightarrow> 'i item \<Rightarrow> 'i item list \<Rightarrow> bool" where
  "jumps_next T x k = (case x of
     Label _ \<Rightarrow> False
   | Ins i \<Rightarrow> (case k of Label b # _ \<Rightarrow> is_jump_to T i b | _ \<Rightarrow> False))"

fun drop_jumps :: "('r, 'i, 'z) lowering_target_scheme \<Rightarrow> 'i item list \<Rightarrow> 'i item list" where
  "drop_jumps T [] = []"
| "drop_jumps T (x # k) = (if jumps_next T x k then drop_jumps T k else x # drop_jumps T k)"

lemma jumps_next_simps [simp]:
  "\<not> jumps_next T (Label b) k" "\<not> jumps_next T x []" "\<not> jumps_next T x (Ins i # k)"
  "jumps_next T (Ins i) (Label b # k) \<longleftrightarrow> is_jump_to T i b"
  by (simp_all add: jumps_next_def split: item.splits)

lemma jumps_nextE:
  assumes "jumps_next T x k"
  obtains i b k' where "x = Ins i" "k = Label b # k'" "is_jump_to T i b"
  using assms by (auto simp: jumps_next_def split: item.splits list.splits)

lemma drop_jumps_Ins_no_label: "drop_jumps T (map Ins is) = map Ins is"
proof (induction "is")
  case (Cons i rest)
  then show ?case by (cases rest) auto
qed simp

lemma drop_jumps_Ins:
  "drop_jumps T (map Ins is @ Label b # k) = map Ins (trim_jump T b is) @ Label b # drop_jumps T k"
proof (induction "is")
  case Nil
  then show ?case by (simp add: trim_jump_def)
next
  case (Cons i rest)
  then show ?case by (cases rest) (auto simp: trim_jump_def)
qed

lemma items_trim: "items (trim_blocks T bs) = drop_jumps T (items bs)"
proof (induction bs)
  case (Cons b bs)
  then show ?case
    by (cases bs) (simp_all add: block_items_def drop_jumps_Ins drop_jumps_Ins_no_label)
qed simp

lemma find_label_drop_jumps:
  "find_label b (drop_jumps T k) = map_option (drop_jumps T) (find_label b k)"
proof (induction k)
  case (Cons x k)
  then show ?case by (cases x) (auto elim!: jumps_nextE)
qed simp

section \<open>Runs are unchanged\<close>

text \<open>Where labels are distinct, a label is found where it stands.\<close>

definition labels :: "'i item list \<Rightarrow> block_id list" where
  "labels k = concat (map (\<lambda>x. case x of Label b \<Rightarrow> [b] | Ins _ \<Rightarrow> []) k)"

lemma labels_simps [simp]:
  "labels [] = []" "labels (Label b # k) = b # labels k" "labels (Ins i # k) = labels k"
  "labels (k @ k') = labels k @ labels k'"
  by (simp_all add: labels_def)

lemma labels_Ins [simp]: "labels (map Ins is) = []" by (induction "is") auto

lemma labels_items: "labels (items bs) = map mb_id bs"
  by (induction bs) (auto simp: block_items_def)

lemma find_label_here: "distinct (labels (pre @ Label b # k)) \<Longrightarrow> find_label b (pre @ Label b # k) = Some k"
proof (induction pre)
  case (Cons x pre)
  then show ?case by (cases x) auto
qed simp

lemma find_label_suffix: "find_label b k = Some k1 \<Longrightarrow> \<exists>pre. k = pre @ k1"
proof (induction k)
  case (Cons x k)
  show ?case
  proof (cases "x = Label b")
    case True
    with Cons.prems show ?thesis by (intro exI [of _ "x # []"]) simp
  next
    case False
    then have "find_label b k = Some k1" using Cons.prems by (cases x) auto
    then obtain pre where "k = pre @ k1" using Cons.IH by blast
    then show ?thesis by (intro exI [of _ "x # pre"]) simp
  qed
qed simp

context control_machine
begin

lemma self_move_step: "is_self_move T i \<Longrightarrow> step i st = Some (Fall st)"
  using step_self_move by (auto simp: is_self_move_def split: option.splits)

lemma runs_drop_moves: "runs step prog k st r \<Longrightarrow>
    runs step (drop_self_moves T prog) (drop_self_moves T k) st r"
proof (induction rule: runs.induct)
  case (runs_fall i st st1 k r)
  then show ?case using self_move_step [of i st] by (auto intro: runs.intros)
next
  case (runs_goto i st b st1 k1 r k)
  then have "\<not> is_self_move T i" using self_move_step [of i st] by auto
  with runs_goto show ?case by (auto intro!: runs.runs_goto simp: find_label_drop)
next
  case (runs_return i st st1 k)
  then have "\<not> is_self_move T i" using self_move_step [of i st] by auto
  with runs_return show ?case by (auto intro: runs.runs_return)
qed simp

lemma runs_undrop_moves: "runs step prog' k' st r \<Longrightarrow> prog' = drop_self_moves T prog \<Longrightarrow>
    k' = drop_self_moves T k \<Longrightarrow> runs step prog k st r"
proof (induction arbitrary: k rule: runs.induct)
  case (runs_label k' st r b)
  from runs_label.prems(2) show ?case
  proof (induction k)
    case (Cons x k)
    show ?case
    proof (cases x)
      case (Label b')
      with Cons.prems have "k' = drop_self_moves T k" by simp
      with runs_label Label show ?thesis by simp
    next
      case (Ins i)
      with Cons show ?thesis using self_move_step [of i st]
        by (auto split: if_splits intro: runs.runs_fall)
    qed
  qed simp
next
  case (runs_fall i st st1 k' r)
  from runs_fall.prems(2) show ?case
  proof (induction k)
    case (Cons x k)
    show ?case
    proof (cases x)
      case (Ins j)
      show ?thesis
      proof (cases "is_self_move T j")
        case True
        with Cons Ins show ?thesis using self_move_step [OF True] by (auto intro: runs.runs_fall)
      next
        case False
        with Cons.prems Ins have "j = i" "k' = drop_self_moves T k" by simp_all
        with runs_fall Ins show ?thesis by (auto intro: runs.runs_fall)
      qed
    qed (use Cons in simp)
  qed simp
next
  case (runs_goto i st b st1 k1 r k')
  obtain j where j: "find_label b prog = Some j" "k1 = drop_self_moves T j"
    using runs_goto.hyps(2) runs_goto.prems(1) by (auto simp: find_label_drop)
  from runs_goto.prems(2) show ?case
  proof (induction k)
    case (Cons x k)
    show ?case
    proof (cases x)
      case (Ins i')
      show ?thesis
      proof (cases "is_self_move T i'")
        case True
        with Cons Ins show ?thesis using self_move_step [OF True] by (auto intro: runs.runs_fall)
      next
        case False
        with Cons.prems Ins have "i' = i" by simp
        with runs_goto j Ins show ?thesis by (auto intro: runs.runs_goto)
      qed
    qed (use Cons in simp)
  qed simp
next
  case (runs_return i st st1 k')
  from runs_return.prems(2) show ?case
  proof (induction k)
    case (Cons x k)
    show ?case
    proof (cases x)
      case (Ins i')
      show ?thesis
      proof (cases "is_self_move T i'")
        case True
        with Cons Ins show ?thesis using self_move_step [OF True] by (auto intro: runs.runs_fall)
      next
        case False
        with Cons.prems Ins have "i' = i" by simp
        with runs_return Ins show ?thesis by (auto intro: runs.runs_return)
      qed
    qed (use Cons in simp)
  qed simp
qed

lemma peephole_runs: "fn_runs step (peephole_optimize T mf) st r \<longleftrightarrow> fn_runs step mf st r"
  by (auto simp: fn_runs_def peephole_optimize_def items_peephole find_label_drop
      intro: runs_drop_moves runs_undrop_moves)

lemma runs_drop_jumps:
  "runs step prog k st r \<Longrightarrow> distinct (labels prog) \<Longrightarrow> \<exists>pre. prog = pre @ k \<Longrightarrow>
     runs step (drop_jumps T prog) (drop_jumps T k) st r"
proof (induction rule: runs.induct)
  case (runs_label k st r b)
  then have "\<exists>pre. prog = pre @ k" by (metis append.assoc append_Cons append_Nil)
  with runs_label show ?case by simp
next
  case (runs_fall i st st1 k r)
  have "\<exists>pre. prog = pre @ k" using runs_fall.prems(2) by (metis append.assoc append_Cons append_Nil)
  then have IH: "runs step (drop_jumps T prog) (drop_jumps T k) st1 r"
    using runs_fall.IH runs_fall.prems(1) by blast
  have "\<not> is_jump_to T i b" for b using step_is_jump [of i b st] runs_fall.hyps(1) by auto
  then have "\<not> jumps_next T (Ins i) k" by (auto elim: jumps_nextE)
  with IH runs_fall.hyps(1) show ?case by (auto intro: runs.runs_fall)
next
  case (runs_goto i st b st1 k1 r k)
  have IH: "runs step (drop_jumps T prog) (drop_jumps T k1) st1 r"
    using runs_goto.IH runs_goto.prems(1) find_label_suffix [OF runs_goto.hyps(2)] by blast
  show ?case
  proof (cases "jumps_next T (Ins i) k")
    case True
    then obtain n k0 where k: "k = Label n # k0" "is_jump_to T i n" by (auto elim: jumps_nextE)
    then have "b = n" "st1 = st" using step_is_jump [OF k(2), of st] runs_goto.hyps(1) by simp_all
    obtain pre where "prog = (pre @ [Ins i]) @ Label n # k0" using runs_goto.prems(2) k(1) by auto
    then have "find_label n prog = Some k0" using find_label_here runs_goto.prems(1) by metis
    then have "k1 = k0" using runs_goto.hyps(2) \<open>b = n\<close> by simp
    with IH k \<open>st1 = st\<close> show ?thesis by simp
  next
    case False
    have "find_label b (drop_jumps T prog) = Some (drop_jumps T k1)"
      using runs_goto.hyps(2) by (simp add: find_label_drop_jumps)
    with IH runs_goto.hyps(1) False show ?thesis by (auto intro: runs.runs_goto)
  qed
next
  case (runs_return i st st1 k)
  have "\<not> is_jump_to T i b" for b using step_is_jump [of i b st] runs_return.hyps(1) by auto
  then have "\<not> jumps_next T (Ins i) k" by (auto elim: jumps_nextE)
  with runs_return.hyps(1) show ?case by (auto intro: runs.runs_return)
qed

lemma drop_jumps_Label_cases:
  assumes "Label b # k' = drop_jumps T k"
  obtains k0 where "k = Label b # k0" "k' = drop_jumps T k0"
  | i k0 where "k = Ins i # Label b # k0" "is_jump_to T i b" "k' = drop_jumps T k0"
proof (cases k)
  case Nil
  with assms show ?thesis by simp
next
  case (Cons x k1)
  show ?thesis
  proof (cases "jumps_next T x k1")
    case True
    then obtain i n k0 where "x = Ins i" "k1 = Label n # k0" "is_jump_to T i n" by (rule jumps_nextE)
    with assms Cons True that(2) show ?thesis by simp
  next
    case False
    with assms Cons that(1) show ?thesis by simp
  qed
qed

lemma drop_jumps_Ins_cases:
  assumes "Ins i # k' = drop_jumps T k"
  obtains k0 where "k = Ins i # k0" "k' = drop_jumps T k0"
proof (cases k)
  case Nil
  with assms show ?thesis by simp
next
  case (Cons x k1)
  then show ?thesis using assms that by (auto elim!: jumps_nextE split: if_splits)
qed

lemma runs_undrop_jumps:
  "runs step prog' k' st r \<Longrightarrow> prog' = drop_jumps T prog \<Longrightarrow> k' = drop_jumps T k \<Longrightarrow>
     distinct (labels prog) \<Longrightarrow> \<exists>pre. prog = pre @ k \<Longrightarrow> runs step prog k st r"
proof (induction arbitrary: k rule: runs.induct)
  case (runs_label k' st r b)
  from runs_label.prems(2) show ?case
  proof (cases rule: drop_jumps_Label_cases)
    case (1 k0)
    then have "\<exists>pre. prog = pre @ k0" using runs_label.prems(4) by (metis append.assoc append_Cons append_Nil)
    then show ?thesis using runs_label.IH [OF runs_label.prems(1) 1(2)] runs_label.prems(3) 1(1) by simp
  next
    case (2 i k0)
    obtain pre where pre: "prog = (pre @ [Ins i]) @ Label b # k0" using runs_label.prems(4) 2(1) by auto
    then have fl: "find_label b prog = Some k0" using find_label_here runs_label.prems(3) by metis
    have "\<exists>pre. prog = pre @ k0" using pre by (metis append.assoc append_Cons append_Nil)
    then have "runs step prog k0 st r"
      using runs_label.IH [OF runs_label.prems(1) 2(3)] runs_label.prems(3) by simp
    with fl step_is_jump [OF 2(2)] 2(1) show ?thesis by (auto intro: runs.runs_goto)
  qed
next
  case (runs_fall i st st1 k' r)
  from runs_fall.prems(2) obtain k0 where k: "k = Ins i # k0" "k' = drop_jumps T k0"
    by (rule drop_jumps_Ins_cases)
  then have "\<exists>pre. prog = pre @ k0" using runs_fall.prems(4) by (metis append.assoc append_Cons append_Nil)
  then show ?case
    using runs_fall.IH [OF runs_fall.prems(1) k(2)] runs_fall.prems(3) runs_fall.hyps(1) k(1)
    by (auto intro: runs.runs_fall)
next
  case (runs_goto i st b st1 k1 r k')
  from runs_goto.prems(2) obtain k0 where k: "k = Ins i # k0" by (rule drop_jumps_Ins_cases)
  obtain j where j: "find_label b prog = Some j" "k1 = drop_jumps T j"
    using runs_goto.hyps(2) runs_goto.prems(1) by (auto simp: find_label_drop_jumps)
  have "runs step prog j st1 r"
    using runs_goto.IH [OF runs_goto.prems(1) j(2)] runs_goto.prems(3) find_label_suffix [OF j(1)] by simp
  then show ?case using runs_goto.hyps(1) j(1) k by (auto intro: runs.runs_goto)
next
  case (runs_return i st st1 k')
  from runs_return.prems(2) obtain k0 where "k = Ins i # k0" by (rule drop_jumps_Ins_cases)
  then show ?case using runs_return.hyps by (auto intro: runs.runs_return)
qed

lemma fallthroughs_runs:
  assumes "distinct (map mb_id (blocks mf))"
  shows "fn_runs step (optimize_fallthroughs T mf) st r \<longleftrightarrow> fn_runs step mf st r"
proof -
  let ?p = "items (blocks mf)"
  have dist: "distinct (labels ?p)" using assms by (simp add: labels_items)
  have "runs step (drop_jumps T ?p) (drop_jumps T k) st r \<longleftrightarrow> runs step ?p k st r"
    if "find_label (entry mf) ?p = Some k" for k
    using runs_drop_jumps [OF _ dist] runs_undrop_jumps [OF _ refl refl dist] find_label_suffix [OF that]
    by blast
  then show ?thesis
    by (auto simp: fn_runs_def optimize_fallthroughs_def items_trim find_label_drop_jumps)
qed

end

end
