(* ===== verification/Branch_Relax.thy ===== *)
theory Branch_Relax
  imports Mir_Opt
begin

text \<open>
  Branch relaxation (\<open>src/src/mir/lower/branch_relax.rs\<close>): as long as some conditional branch
  cannot reach its target, a block holding one jump, a springboard, is put right after the
  branch's block and the branch is pointed at it.

  A round preserves the runs of the function.  The loop of the code need not end (a springboard can
  itself be out of reach); it is a \<open>partial_function\<close> here, and it is shown to end, with every
  branch in reach, when each branch stands close enough to the end of its block, as the branches the
  lowering emits do.
\<close>

section \<open>The algorithm\<close>

definition inst_bytes :: "('r, 'i, 'z) target_inst_scheme \<Rightarrow> 'i list \<Rightarrow> nat" where
  "inst_bytes T is = sum_list (map (size_in_bytes T) is)"

fun compute_block_offsets ::
  "('r, 'i, 'z) target_inst_scheme \<Rightarrow> 'i machine_block list \<Rightarrow> nat \<Rightarrow> (block_id \<rightharpoonup> nat) \<Rightarrow>
     (block_id \<rightharpoonup> nat)" where
  "compute_block_offsets T [] current_offset offsets = offsets"
| "compute_block_offsets T (b # bs) current_offset offsets =
     compute_block_offsets T bs (current_offset + inst_bytes T (instructions b))
       (offsets(mb_id b \<mapsto> current_offset))"

text \<open>The inner loop: the first branch out of range, as its index and its target.  Indexing the
  offsets with an unknown block panics.\<close>

fun scan_insts ::
  "('r, 'i, 'z) target_inst_scheme \<Rightarrow> (block_id \<rightharpoonup> nat) \<Rightarrow> nat \<Rightarrow> nat \<Rightarrow> 'i list \<Rightarrow>
     (nat \<times> block_id) option option" where
  "scan_insts T offsets current_offset inst_index [] = Some None"
| "scan_insts T offsets current_offset inst_index (inst # rest) =
     (case get_branch_target T inst of
        None \<Rightarrow> scan_insts T offsets (current_offset + size_in_bytes T inst) (Suc inst_index) rest
      | Some target \<Rightarrow> do {
          target_offset \<leftarrow> offsets target;
          let branch_offset = int target_offset - int current_offset;
          if fst (branch_offset_range T) \<le> branch_offset \<and> branch_offset \<le> snd (branch_offset_range T)
          then scan_insts T offsets (current_offset + size_in_bytes T inst) (Suc inst_index) rest
          else Some (Some (inst_index, target)) })"

fun scan_blocks ::
  "('r, 'i, 'z) target_inst_scheme \<Rightarrow> (block_id \<rightharpoonup> nat) \<Rightarrow> nat \<Rightarrow> 'i machine_block list \<Rightarrow>
     (nat \<times> nat \<times> block_id) option option" where
  "scan_blocks T offsets block_index [] = Some None"
| "scan_blocks T offsets block_index (block # rest) = do {
     current_offset \<leftarrow> offsets (mb_id block);
     found \<leftarrow> scan_insts T offsets current_offset 0 (instructions block);
     (case found of
        Some (inst_index, target) \<Rightarrow> Some (Some (block_index, inst_index, target))
      | None \<Rightarrow> scan_blocks T offsets (Suc block_index) rest) }"

definition find_far ::
  "('r, 'i, 'z) target_inst_scheme \<Rightarrow> ('r, 'i) machine_function \<Rightarrow>
     (nat \<times> nat \<times> block_id) option option" where
  "find_far T mf = scan_blocks T (compute_block_offsets T (blocks mf) 0 Map.empty) 0 (blocks mf)"

fun show_nat :: "nat \<Rightarrow> string" where
  "show_nat n = (if n < 10 then [char_of (48 + n)] else show_nat (n div 10) @ [char_of (48 + n mod 10)])"

declare show_nat.simps [simp del]

definition insert_springboard ::
  "('r, 'i, 'z) lowering_target_scheme \<Rightarrow> ('r, 'i) machine_function \<Rightarrow> nat \<Rightarrow> nat \<Rightarrow> block_id \<Rightarrow>
     ('r, 'i) machine_function" where
  "insert_springboard T mf block_index inst_index old_target =
     (let new_block_id = length (blocks mf);
          springboard = \<lparr>mb_id = new_block_id, mb_name = ''.bb.springboard_'' @ show_nat new_block_id,
            instructions = [emit_jump T old_target]\<rparr>;
          block = blocks mf ! block_index;
          inst = instructions block ! inst_index;
          inst1 = (case get_branch_target T inst of
            Some _ \<Rightarrow> set_branch_target T inst new_block_id | None \<Rightarrow> inst);
          bs = (blocks mf)[block_index := block\<lparr>instructions := (instructions block)[inst_index := inst1]\<rparr>]
      in mf\<lparr>blocks := take (Suc block_index) bs @ springboard # drop (Suc block_index) bs\<rparr>)"

text \<open>One round of the loop: \<open>None\<close> is a panic, \<open>Some None\<close> the end of the loop.\<close>

definition relax_step ::
  "('r, 'i, 'z) lowering_target_scheme \<Rightarrow> ('r, 'i) machine_function \<Rightarrow>
     ('r, 'i) machine_function option option" where
  "relax_step T mf = do {
     rewrite \<leftarrow> find_far T mf;
     Some (case rewrite of
       None \<Rightarrow> None
     | Some (block_index, inst_index, old_target) \<Rightarrow>
         Some (insert_springboard T mf block_index inst_index old_target)) }"

partial_function (option) relax_branches ::
  "('r, 'i, 'z) lowering_target_scheme \<Rightarrow> ('r, 'i) machine_function \<Rightarrow>
     ('r, 'i) machine_function option" where
  "relax_branches T mf = do {
     round \<leftarrow> relax_step T mf;
     (case round of None \<Rightarrow> Some mf | Some mf1 \<Rightarrow> relax_branches T mf1) }"

section \<open>Offsets\<close>

lemma inst_bytes_simps [simp]:
  "inst_bytes T [] = 0" "inst_bytes T (i # is) = size_in_bytes T i + inst_bytes T is"
  "inst_bytes T (is @ js) = inst_bytes T is + inst_bytes T js"
  by (simp_all add: inst_bytes_def)

definition blocks_bytes :: "('r, 'i, 'z) target_inst_scheme \<Rightarrow> 'i machine_block list \<Rightarrow> nat" where
  "blocks_bytes T bs = sum_list (map (\<lambda>b. inst_bytes T (instructions b)) bs)"

lemma blocks_bytes_simps [simp]:
  "blocks_bytes T [] = 0" "blocks_bytes T (b # bs) = inst_bytes T (instructions b) + blocks_bytes T bs"
  "blocks_bytes T (bs @ cs) = blocks_bytes T bs + blocks_bytes T cs"
  by (simp_all add: blocks_bytes_def)

lemma compute_block_offsets_other:
  "b \<notin> mb_id ` set bs \<Longrightarrow> compute_block_offsets T bs cur m b = m b"
  by (induction bs arbitrary: cur m) auto

lemma compute_block_offsets_at:
  "distinct (map mb_id (A @ b # B)) \<Longrightarrow>
     compute_block_offsets T (A @ b # B) cur m (mb_id b) = Some (cur + blocks_bytes T A)"
  by (induction A arbitrary: cur m) (auto simp: compute_block_offsets_other)

lemma compute_block_offsets_dom:
  "dom (compute_block_offsets T bs cur m) = dom m \<union> mb_id ` set bs"
  by (induction bs arbitrary: cur m) auto

section \<open>What the scan finds\<close>

definition in_reach :: "('r, 'i, 'z) target_inst_scheme \<Rightarrow> (block_id \<rightharpoonup> nat) \<Rightarrow> nat \<Rightarrow> block_id \<Rightarrow> bool" where
  "in_reach T offsets here target \<longleftrightarrow> (\<exists>o1. offsets target = Some o1 \<and>
     fst (branch_offset_range T) \<le> int o1 - int here \<and> int o1 - int here \<le> snd (branch_offset_range T))"

lemma scan_insts_found:
  "scan_insts T offsets cur idx is = Some (Some (ii, t)) \<Longrightarrow>
     \<exists>pre i post. is = pre @ i # post \<and> ii = idx + length pre \<and> get_branch_target T i = Some t \<and>
       \<not> in_reach T offsets (cur + inst_bytes T pre) t"
proof (induction "is" arbitrary: cur idx)
  case Nil
  then show ?case by simp
next
  case (Cons i rest)
  show ?case
  proof (cases "scan_insts T offsets (cur + size_in_bytes T i) (Suc idx) rest = Some (Some (ii, t))")
    case True
    from Cons.IH [OF this] obtain pre j post where
      "rest = pre @ j # post" "ii = Suc idx + length pre" "get_branch_target T j = Some t"
      "\<not> in_reach T offsets (cur + size_in_bytes T i + inst_bytes T pre) t" by blast
    then show ?thesis by (intro exI [of _ "i # pre"] exI [of _ j] exI [of _ post]) (simp add: add.assoc)
  next
    case False
    with Cons.prems have "get_branch_target T i = Some t" "ii = idx" "\<not> in_reach T offsets cur t"
      by (auto simp: in_reach_def Let_def bind_eq_Some_conv split: option.splits if_splits)
    then show ?thesis by (intro exI [of _ "[]"] exI [of _ i] exI [of _ rest]) simp
  qed
qed

lemma scan_insts_none:
  "scan_insts T offsets cur idx is = Some None \<Longrightarrow> is = pre @ i # post \<Longrightarrow>
     get_branch_target T i = Some t \<Longrightarrow> in_reach T offsets (cur + inst_bytes T pre) t"
proof (induction "is" arbitrary: cur idx pre)
  case Nil
  then show ?case by simp
next
  case (Cons j rest)
  have rest: "scan_insts T offsets (cur + size_in_bytes T j) (Suc idx) rest = Some None"
    using Cons.prems(1) by (auto simp: Let_def bind_eq_Some_conv split: option.splits if_splits)
  show ?case
  proof (cases pre)
    case Nil
    with Cons.prems show ?thesis
      by (auto simp: in_reach_def Let_def bind_eq_Some_conv split: if_splits)
  next
    case (Cons j' pre')
    with Cons.prems(2) have "rest = pre' @ i # post" "j' = j" by simp_all
    from Cons.IH [OF rest this(1) Cons.prems(3)] Cons \<open>j' = j\<close> show ?thesis by (simp add: add.assoc)
  qed
qed

lemma scan_insts_total:
  "\<forall>i \<in> set is. \<forall>t. get_branch_target T i = Some t \<longrightarrow> offsets t \<noteq> None \<Longrightarrow>
     scan_insts T offsets cur idx is \<noteq> None"
  by (induction "is" arbitrary: cur idx) (auto simp: Let_def split: option.splits)

lemma scan_blocks_found:
  "scan_blocks T offsets idx bs = Some (Some (bi, ii, t)) \<Longrightarrow>
     \<exists>A b B pre i post here. bs = A @ b # B \<and> bi = idx + length A \<and>
       instructions b = pre @ i # post \<and> ii = length pre \<and> get_branch_target T i = Some t \<and>
       offsets (mb_id b) = Some here \<and> \<not> in_reach T offsets (here + inst_bytes T pre) t"
proof (induction bs arbitrary: idx)
  case Nil
  then show ?case by simp
next
  case (Cons b bs)
  obtain here found where here: "offsets (mb_id b) = Some here"
    and found: "scan_insts T offsets here 0 (instructions b) = Some found"
    using Cons.prems by (auto simp: bind_eq_Some_conv)
  show ?case
  proof (cases found)
    case None
    then have "scan_blocks T offsets (Suc idx) bs = Some (Some (bi, ii, t))"
      using Cons.prems here found by simp
    from Cons.IH [OF this] obtain A c B pre i post h where
      "bs = A @ c # B" "bi = Suc idx + length A" "instructions c = pre @ i # post" "ii = length pre"
      "get_branch_target T i = Some t" "offsets (mb_id c) = Some h"
      "\<not> in_reach T offsets (h + inst_bytes T pre) t" by blast
    then show ?thesis
      by (intro exI [of _ "b # A"] exI [of _ c] exI [of _ B] exI [of _ pre] exI [of _ i] exI [of _ post]
          exI [of _ h]) simp
  next
    case (Some p)
    obtain ii' t' where p: "p = (ii', t')" by (cases p)
    with Some Cons.prems here found have eq: "bi = idx" "ii' = ii" "t' = t" by simp_all
    from scan_insts_found [of T offsets here 0 "instructions b" ii t] found Some p eq
    obtain pre i post where "instructions b = pre @ i # post" "ii = length pre"
      "get_branch_target T i = Some t" "\<not> in_reach T offsets (here + inst_bytes T pre) t" by auto
    with here eq show ?thesis
      by (intro exI [of _ "[]"] exI [of _ b] exI [of _ bs] exI [of _ pre] exI [of _ i] exI [of _ post]
          exI [of _ here]) simp
  qed
qed

lemma scan_blocks_none:
  "scan_blocks T offsets idx bs = Some None \<Longrightarrow> b \<in> set bs \<Longrightarrow> instructions b = pre @ i # post \<Longrightarrow>
     get_branch_target T i = Some t \<Longrightarrow>
     \<exists>here. offsets (mb_id b) = Some here \<and> in_reach T offsets (here + inst_bytes T pre) t"
proof (induction bs arbitrary: idx)
  case Nil
  then show ?case by simp
next
  case (Cons c bs)
  obtain here found where here: "offsets (mb_id c) = Some here"
    and found: "scan_insts T offsets here 0 (instructions c) = Some found"
    using Cons.prems by (auto simp: bind_eq_Some_conv)
  with Cons.prems(1) have none: "found = None" "scan_blocks T offsets (Suc idx) bs = Some None"
    by (auto split: option.splits)
  show ?case
  proof (cases "b = c")
    case True
    with here found none scan_insts_none [of T offsets here 0 "instructions c" pre i post t] Cons.prems(3,4)
    show ?thesis by simp
  next
    case False
    with Cons.IH [OF none(2)] Cons.prems show ?thesis by simp
  qed
qed

lemma scan_blocks_total:
  "\<forall>b \<in> set bs. offsets (mb_id b) \<noteq> None \<and>
     (\<forall>i \<in> set (instructions b). \<forall>t. get_branch_target T i = Some t \<longrightarrow> offsets t \<noteq> None) \<Longrightarrow>
   scan_blocks T offsets idx bs \<noteq> None"
proof (induction bs arbitrary: idx)
  case (Cons b bs)
  then obtain here where here: "offsets (mb_id b) = Some here" by auto
  have "scan_insts T offsets here 0 (instructions b) \<noteq> None"
    by (rule scan_insts_total) (use Cons.prems in simp)
  with here Cons show ?case by (auto split: option.splits)
qed simp

text \<open>The round as an edit of the block list.\<close>

lemma insert_springboard_split:
  assumes "blocks mf = A @ b # B" "instructions b = pre @ i # post" "get_branch_target T i = Some t"
  shows "insert_springboard T mf (length A) (length pre) old = mf\<lparr>blocks :=
    A @ b\<lparr>instructions := pre @ set_branch_target T i (length (blocks mf)) # post\<rparr> #
    \<lparr>mb_id = length (blocks mf), mb_name = ''.bb.springboard_'' @ show_nat (length (blocks mf)),
     instructions = [emit_jump T old]\<rparr> # B\<rparr>"
  using assms by (simp add: insert_springboard_def Let_def)

section \<open>Well-formed code\<close>

text \<open>Block ids are the numbers below the number of blocks, every block ends in a jump or a return, and
  every successor exists: what the lowering establishes before the pass runs.\<close>

definition closed_insts :: "('r, 'i, 'z) lowering_target_scheme \<Rightarrow> 'i list \<Rightarrow> bool" where
  "closed_insts T is \<longleftrightarrow> is \<noteq> [] \<and> (is_ret T (last is) \<or> (\<exists>t. is_jump_to T (last is) t))"

definition succs_below :: "('r, 'i, 'z) target_inst_scheme \<Rightarrow> nat \<Rightarrow> 'i list \<Rightarrow> bool" where
  "succs_below T n is \<longleftrightarrow> (\<forall>i \<in> set is. \<forall>ss. get_successors T i = Some ss \<longrightarrow> (\<forall>b \<in> set ss. b < n))"

definition code_wf :: "('r, 'i, 'z) lowering_target_scheme \<Rightarrow> 'i machine_block list \<Rightarrow> bool" where
  "code_wf T bs \<longleftrightarrow> distinct (map mb_id bs) \<and> mb_id ` set bs = {..<length bs} \<and>
     (\<forall>b \<in> set bs. closed_insts T (instructions b) \<and> succs_below T (length bs) (instructions b))"

lemma find_label_append:
  "find_label b (xs @ ys) = (case find_label b xs of Some k \<Rightarrow> Some (k @ ys) | None \<Rightarrow> find_label b ys)"
  by (induction b xs rule: find_label.induct) auto

lemma find_label_only_Ins [simp]: "find_label b (map Ins is) = None"
  by (induction "is") auto

lemma find_label_None: "find_label b k = None \<longleftrightarrow> b \<notin> set (labels k)"
  by (induction b k rule: find_label.induct) auto

section \<open>A round preserves the runs\<close>

text \<open>Positions of the old text and of the new one: before the edited branch, between it and the end
  of its block, and after the block.\<close>

definition spring_pos ::
  "'i item list \<Rightarrow> 'i \<Rightarrow> 'i \<Rightarrow> 'i list \<Rightarrow> 'i item list \<Rightarrow> 'i item list \<Rightarrow> 'i item list \<Rightarrow> 'i item list \<Rightarrow> bool"
where
  "spring_pos P i i' post S C k k' \<longleftrightarrow>
     (\<exists>p1 p2. P = p1 @ p2 \<and> k = p2 @ Ins i # map Ins post @ C \<and> k' = p2 @ Ins i' # map Ins post @ S @ C) \<or>
     (\<exists>q1 q2. post = q1 @ q2 \<and> q2 \<noteq> [] \<and> k = map Ins q2 @ C \<and> k' = map Ins q2 @ S @ C) \<or>
     (\<exists>c1. C = c1 @ k \<and> k' = k)"

context control_machine
begin

lemma closed_last_no_fall:
  assumes "closed_insts T (is @ [i])"
  shows "step i st \<noteq> Some (Fall st1)"
proof -
  have "is_ret T i \<or> (\<exists>t. is_jump_to T i t)" using assms by (simp add: closed_insts_def)
  then show ?thesis using step_ret [of i st] step_is_jump [of i _ st] by auto
qed

lemma spring_pos_label:
  assumes "find_label b (P @ Ins i # map Ins post @ C) = Some k" and "b \<noteq> n"
    and "distinct (labels (P @ C))"
  shows "\<exists>k'. find_label b (P @ Ins i' # map Ins post @ Label n # Ins j # C) = Some k' \<and>
    spring_pos P i i' post [Label n, Ins j] C k k'"
proof (cases "find_label b P")
  case (Some p2)
  then obtain p1 where p1: "P = p1 @ p2" using find_label_suffix by blast
  have k: "k = p2 @ Ins i # map Ins post @ C" using Some assms(1) by (simp add: find_label_append)
  have "find_label b (P @ Ins i' # map Ins post @ Label n # Ins j # C) =
      Some (p2 @ Ins i' # map Ins post @ Label n # Ins j # C)"
    using Some by (simp add: find_label_append)
  moreover have "spring_pos P i i' post [Label n, Ins j] C k (p2 @ Ins i' # map Ins post @ Label n # Ins j # C)"
    unfolding spring_pos_def by (intro disjI1 exI [of _ p1] exI [of _ p2]) (simp add: p1 k)
  ultimately show ?thesis by blast
next
  case None
  then have "find_label b C = Some k" using assms(1) by (simp add: find_label_append)
  moreover from this obtain c1 where "C = c1 @ k" using find_label_suffix by blast
  ultimately show ?thesis using None assms(2) by (auto simp: find_label_append spring_pos_def)
qed

text \<open>One edit of the text, \<open>n\<close> being a fresh label.\<close>

lemma spring_runs_forward:
  assumes run: "runs step prog k st r"
    and prog: "prog = P @ Ins i # map Ins post @ C"
    and prog': "prog' = P @ Ins i' # map Ins post @ Label n # Ins (emit_jump T t) # C"
    and i: "get_branch_target T i = Some t" "i' = set_branch_target T i n"
    and fresh: "n \<notin> set (labels (P @ C))" and dist: "distinct (labels (P @ C))"
    and closed: "closed_insts T (pre @ i # post)"
  shows "spring_pos P i i' post [Label n, Ins (emit_jump T t)] C k k' \<Longrightarrow> runs step prog' k' st r"
  using run
proof (induction arbitrary: k' rule: runs.induct)
  let ?S = "[Label n, Ins (emit_jump T t)]"
  have label_n: "find_label n prog' = Some (Ins (emit_jump T t) # C)"
    using fresh by (simp add: prog' find_label_append find_label_None [symmetric] split: option.splits)
  have goto: "\<exists>k1'. find_label b prog' = Some k1' \<and> spring_pos P i i' post ?S C k1 k1'"
    if "find_label b prog = Some k1" for b k1
  proof -
    have "b \<in> set (labels (P @ C))"
      using that find_label_None [of b prog] by (auto simp: prog)
    then have "b \<noteq> n" using fresh by auto
    from spring_pos_label [OF that [unfolded prog] this dist] show ?thesis by (simp add: prog')
  qed
  {
    case (runs_label k st r b)
    from runs_label.prems show ?case
      unfolding spring_pos_def
    proof (elim disjE exE conjE)
      fix p1 p2 assume p: "P = p1 @ p2" "Label b # k = p2 @ Ins i # map Ins post @ C"
        "k' = p2 @ Ins i' # map Ins post @ ?S @ C"
      then obtain p3 where p3: "p2 = Label b # p3" by (cases p2) auto
      with p have "spring_pos P i i' post ?S C k (p3 @ Ins i' # map Ins post @ ?S @ C)"
        unfolding spring_pos_def by (intro disjI1 exI [of _ "p1 @ [Label b]"] exI [of _ p3]) simp
      with runs_label.IH p p3 show ?thesis by simp
    next
      fix q1 q2 assume "Label b # k = map Ins q2 @ C" "q2 \<noteq> []"
      then show ?thesis by (cases q2) auto
    next
      fix c1 assume c: "C = c1 @ Label b # k" "k' = Label b # k"
      then have "spring_pos P i i' post ?S C k k"
        unfolding spring_pos_def by (intro disjI2 exI [of _ "c1 @ [Label b]"]) simp
      with runs_label.IH c show ?thesis by simp
    qed
  next
    case (runs_fall j st st1 k r)
    from runs_fall.prems show ?case
      unfolding spring_pos_def
    proof (elim disjE exE conjE)
      fix p1 p2 assume p: "P = p1 @ p2" "Ins j # k = p2 @ Ins i # map Ins post @ C"
        "k' = p2 @ Ins i' # map Ins post @ ?S @ C"
      show ?thesis
      proof (cases p2)
        case Nil
        with p have j: "j = i" "k = map Ins post @ C" by simp_all
        have "post \<noteq> []" using closed_last_no_fall [of pre i st st1] closed runs_fall.hyps(1) j(1) by auto
        with j have "spring_pos P i i' post ?S C k (map Ins post @ ?S @ C)"
          unfolding spring_pos_def by (intro disjI2 disjI1 exI [of _ "[]"] exI [of _ post]) simp
        then have "runs step prog' (map Ins post @ ?S @ C) st1 r" by (rule runs_fall.IH)
        moreover have "step i' st = Some (Fall st1)"
          using step_branch [OF i(1), of st n] runs_fall.hyps(1) j(1) i(2) by auto
        ultimately show ?thesis using p(3) Nil by (auto intro: runs.runs_fall)
      next
        case (Cons x p3)
        with p have x: "x = Ins j" "k = p3 @ Ins i # map Ins post @ C" by simp_all
        with p Cons have "spring_pos P i i' post ?S C k (p3 @ Ins i' # map Ins post @ ?S @ C)"
          unfolding spring_pos_def by (intro disjI1 exI [of _ "p1 @ [Ins j]"] exI [of _ p3]) simp
        with runs_fall p Cons x show ?thesis by (auto intro: runs.runs_fall)
      qed
    next
      fix q1 q2 assume q: "post = q1 @ q2" "q2 \<noteq> []" "Ins j # k = map Ins q2 @ C" "k' = map Ins q2 @ ?S @ C"
      then obtain q3 where q3: "q2 = j # q3" "k = map Ins q3 @ C" by (cases q2) auto
      have "q3 \<noteq> []"
        using closed_last_no_fall [of "pre @ i # q1" j st st1] closed runs_fall.hyps(1) q q3 by auto
      with q q3 have "spring_pos P i i' post ?S C k (map Ins q3 @ ?S @ C)"
        unfolding spring_pos_def by (intro disjI2 disjI1 exI [of _ "q1 @ [j]"] exI [of _ q3]) simp
      with runs_fall q q3 show ?thesis by (auto intro: runs.runs_fall)
    next
      fix c1 assume c: "C = c1 @ Ins j # k" "k' = Ins j # k"
      then have "spring_pos P i i' post ?S C k k"
        unfolding spring_pos_def by (intro disjI2 exI [of _ "c1 @ [Ins j]"]) simp
      with runs_fall c show ?thesis by (auto intro: runs.runs_fall)
    qed
  next
    case (runs_goto j st b st1 k1 r k)
    obtain k1' where k1': "find_label b prog' = Some k1'" "runs step prog' k1' st1 r"
      using goto [OF runs_goto.hyps(2)] runs_goto.IH by blast
    have same: "runs step prog' (Ins j # kk) st r" for kk
      using runs_goto.hyps(1) k1' by (auto intro: runs.runs_goto)
    from runs_goto.prems show ?case
      unfolding spring_pos_def
    proof (elim disjE exE conjE)
      fix p1 p2 assume p: "P = p1 @ p2" "Ins j # k = p2 @ Ins i # map Ins post @ C"
        "k' = p2 @ Ins i' # map Ins post @ ?S @ C"
      show ?thesis
      proof (cases p2)
        case Nil
        with p have j: "j = i" by simp
        with runs_goto.hyps(1) step_branch [OF i(1), of st n] i(2)
        have "b = t" "st1 = st" "step i' st = Some (Goto n st)" by auto
        moreover have "runs step prog' (Ins (emit_jump T t) # C) st r"
          using k1' \<open>b = t\<close> \<open>st1 = st\<close> step_jump by (auto intro: runs.runs_goto)
        ultimately show ?thesis using label_n p(3) Nil by (auto intro: runs.runs_goto)
      next
        case (Cons x p3)
        with p same show ?thesis by simp
      qed
    next
      fix q1 q2 assume "q2 \<noteq> []" "Ins j # k = map Ins q2 @ C" "k' = map Ins q2 @ ?S @ C"
      with same show ?thesis by (cases q2) auto
    next
      fix c1 assume "k' = Ins j # k"
      with same show ?thesis by simp
    qed
  next
    case (runs_return j st st1 k)
    have same: "runs step prog' (Ins j # kk) st st1" for kk
      using runs_return.hyps(1) by (rule runs.runs_return)
    from runs_return.prems show ?case
      unfolding spring_pos_def
    proof (elim disjE exE conjE)
      fix p1 p2 assume p: "P = p1 @ p2" "Ins j # k = p2 @ Ins i # map Ins post @ C"
        "k' = p2 @ Ins i' # map Ins post @ ?S @ C"
      show ?thesis
      proof (cases p2)
        case Nil
        with p have "j = i" by simp
        with runs_return.hyps(1) step_branch [OF i(1), of st n] show ?thesis by auto
      next
        case (Cons x p3)
        with p same show ?thesis by simp
      qed
    next
      fix q1 q2 assume "q2 \<noteq> []" "Ins j # k = map Ins q2 @ C" "k' = map Ins q2 @ ?S @ C"
      with same show ?thesis by (cases q2) auto
    next
      fix c1 assume "k' = Ins j # k"
      with same show ?thesis by simp
    qed
  }
qed

lemma spring_pos_label_back:
  assumes "find_label b (P @ Ins i' # map Ins post @ Label n # Ins j # C) = Some k'" and "b \<noteq> n"
  shows "\<exists>k. find_label b (P @ Ins i # map Ins post @ C) = Some k \<and>
    spring_pos P i i' post [Label n, Ins j] C k k'"
proof (cases "find_label b P")
  case (Some p2)
  then obtain p1 where p1: "P = p1 @ p2" using find_label_suffix by blast
  have k': "k' = p2 @ Ins i' # map Ins post @ Label n # Ins j # C"
    using Some assms(1) by (simp add: find_label_append)
  have "find_label b (P @ Ins i # map Ins post @ C) = Some (p2 @ Ins i # map Ins post @ C)"
    using Some by (simp add: find_label_append)
  moreover have "spring_pos P i i' post [Label n, Ins j] C (p2 @ Ins i # map Ins post @ C) k'"
    unfolding spring_pos_def by (intro disjI1 exI [of _ p1] exI [of _ p2]) (simp add: p1 k')
  ultimately show ?thesis by blast
next
  case None
  then have "find_label b C = Some k'" using assms by (simp add: find_label_append)
  moreover from this obtain c1 where "C = c1 @ k'" using find_label_suffix by blast
  ultimately show ?thesis using None by (auto simp: find_label_append spring_pos_def)
qed

lemma spring_pos_mem:
  assumes "spring_pos P i i' post S C k k'" "prog = P @ Ins i # map Ins post @ C" "Ins j \<in> set k"
  shows "Ins j \<in> set prog"
  using assms unfolding spring_pos_def by auto

lemma spring_runs_backward:
  assumes run: "runs step prog' k' st r"
    and prog: "prog = P @ Ins i # map Ins post @ C"
    and prog': "prog' = P @ Ins i' # map Ins post @ Label n # Ins (emit_jump T t) # C"
    and i: "get_branch_target T i = Some t" "i' = set_branch_target T i n"
    and fresh: "n \<notin> set (labels (P @ C))" and tn: "t \<noteq> n"
    and no_n: "\<And>j st b st1. Ins j \<in> set prog \<Longrightarrow> step j st = Some (Goto b st1) \<Longrightarrow> b \<noteq> n"
    and closed: "closed_insts T (pre @ i # post)"
  shows "(\<forall>k. spring_pos P i i' post [Label n, Ins (emit_jump T t)] C k k' \<longrightarrow> runs step prog k st r) \<and>
    (k' = Ins (emit_jump T t) # C \<longrightarrow> (\<exists>k1. find_label t prog = Some k1 \<and> runs step prog k1 st r))"
  using run
proof (induction rule: runs.induct)
  let ?S = "[Label n, Ins (emit_jump T t)]"
  have label_n: "find_label n prog' = Some (Ins (emit_jump T t) # C)"
    using fresh by (simp add: prog' find_label_append find_label_None [symmetric] split: option.splits)
  have goto: "\<exists>k1. find_label b prog = Some k1 \<and> spring_pos P i i' post ?S C k1 k1'"
    if "find_label b prog' = Some k1'" "b \<noteq> n" for b k1'
    using spring_pos_label_back [OF that(1) [unfolded prog'] that(2)] by (simp add: prog)
  {
    case (runs_label k' st r b)
    have "runs step prog k st r" if "spring_pos P i i' post ?S C k (Label b # k')" for k
      using that unfolding spring_pos_def
    proof (elim disjE exE conjE)
      fix p1 p2 assume p: "P = p1 @ p2" "k = p2 @ Ins i # map Ins post @ C"
        "Label b # k' = p2 @ Ins i' # map Ins post @ ?S @ C"
      then obtain p3 where p3: "p2 = Label b # p3" by (cases p2) auto
      with p have "spring_pos P i i' post ?S C (p3 @ Ins i # map Ins post @ C) k'"
        unfolding spring_pos_def by (intro disjI1 exI [of _ "p1 @ [Label b]"] exI [of _ p3]) simp
      with runs_label.IH p p3 show ?thesis by simp
    next
      fix q1 q2 assume "Label b # k' = map Ins q2 @ ?S @ C" "q2 \<noteq> []"
      then show ?thesis by (cases q2) auto
    next
      fix c1 assume c: "C = c1 @ k" "Label b # k' = k"
      then have "spring_pos P i i' post ?S C k' k'"
        unfolding spring_pos_def by (intro disjI2 exI [of _ "c1 @ [Label b]"]) simp
      with runs_label.IH c(2) [symmetric] show ?thesis by simp
    qed
    then show ?case by simp
  next
    case (runs_fall j st st1 k' r)
    have "runs step prog k st r" if "spring_pos P i i' post ?S C k (Ins j # k')" for k
      using that unfolding spring_pos_def
    proof (elim disjE exE conjE)
      fix p1 p2 assume p: "P = p1 @ p2" "k = p2 @ Ins i # map Ins post @ C"
        "Ins j # k' = p2 @ Ins i' # map Ins post @ ?S @ C"
      show ?thesis
      proof (cases p2)
        case Nil
        with p have j: "j = i'" "k' = map Ins post @ ?S @ C" by simp_all
        then have fall: "step i st = Some (Fall st1)"
          using step_branch [OF i(1), of st n] runs_fall.hyps(1) i(2) by auto
        then have "post \<noteq> []" using closed_last_no_fall [of pre i st st1] closed by auto
        with j have "spring_pos P i i' post ?S C (map Ins post @ C) k'"
          unfolding spring_pos_def by (intro disjI2 disjI1 exI [of _ "[]"] exI [of _ post]) simp
        with runs_fall.IH fall p(2) Nil show ?thesis by (auto intro: runs.runs_fall)
      next
        case (Cons x p3)
        with p have x: "x = Ins j" "k' = p3 @ Ins i' # map Ins post @ ?S @ C" by simp_all
        with p Cons have "spring_pos P i i' post ?S C (p3 @ Ins i # map Ins post @ C) k'"
          unfolding spring_pos_def by (intro disjI1 exI [of _ "p1 @ [Ins j]"] exI [of _ p3]) simp
        with runs_fall p Cons x show ?thesis by (auto intro: runs.runs_fall)
      qed
    next
      fix q1 q2 assume q: "post = q1 @ q2" "q2 \<noteq> []" "k = map Ins q2 @ C" "Ins j # k' = map Ins q2 @ ?S @ C"
      then obtain q3 where q3: "q2 = j # q3" "k' = map Ins q3 @ ?S @ C" by (cases q2) auto
      have "q3 \<noteq> []"
        using closed_last_no_fall [of "pre @ i # q1" j st st1] closed runs_fall.hyps(1) q q3 by auto
      with q q3 have "spring_pos P i i' post ?S C (map Ins q3 @ C) k'"
        unfolding spring_pos_def by (intro disjI2 disjI1 exI [of _ "q1 @ [j]"] exI [of _ q3]) simp
      with runs_fall q q3 show ?thesis by (auto intro: runs.runs_fall)
    next
      fix c1 assume c: "C = c1 @ k" "Ins j # k' = k"
      then have "spring_pos P i i' post ?S C k' k'"
        unfolding spring_pos_def by (intro disjI2 exI [of _ "c1 @ [Ins j]"]) simp
      with runs_fall c(2) [symmetric] show ?thesis by (auto intro: runs.runs_fall)
    qed
    moreover have "j \<noteq> emit_jump T t" using runs_fall.hyps(1) step_jump by auto
    ultimately show ?case by simp
  next
    case (runs_goto j st b st1 k1' r k')
    have old: "\<exists>k1. find_label b prog = Some k1 \<and> runs step prog k1 st1 r" if "b \<noteq> n"
      using goto [OF runs_goto.hyps(2) that] runs_goto.IH by blast
    have same: "runs step prog (Ins j # kk) st r" if "Ins j \<in> set prog" for kk
      using old [OF no_n [OF that runs_goto.hyps(1)]] runs_goto.hyps(1) by (auto intro: runs.runs_goto)
    have "runs step prog k st r" if pos: "spring_pos P i i' post ?S C k (Ins j # k')" for k
      using pos unfolding spring_pos_def
    proof (elim disjE exE conjE)
      fix p1 p2 assume p: "P = p1 @ p2" "k = p2 @ Ins i # map Ins post @ C"
        "Ins j # k' = p2 @ Ins i' # map Ins post @ ?S @ C"
      show ?thesis
      proof (cases p2)
        case Nil
        with p have j: "j = i'" by simp
        with runs_goto.hyps(1) step_branch [OF i(1), of st n] i(2)
        have b: "b = n" "st1 = st" "step i st = Some (Goto t st)" by auto
        then have "k1' = Ins (emit_jump T t) # C" using runs_goto.hyps(2) label_n by simp
        then obtain k1 where "find_label t prog = Some k1" "runs step prog k1 st r"
          using runs_goto.IH b(2) by blast
        with b(3) p(2) Nil show ?thesis by (auto intro: runs.runs_goto)
      next
        case (Cons x p3)
        with p have "x = Ins j" by simp
        with p Cons show ?thesis using same [of "p3 @ Ins i # map Ins post @ C"] by (simp add: prog)
      qed
    next
      fix q1 q2 assume q: "post = q1 @ q2" "q2 \<noteq> []" "k = map Ins q2 @ C" "Ins j # k' = map Ins q2 @ ?S @ C"
      then obtain q3 where "q2 = j # q3" by (cases q2) auto
      with q show ?thesis using same [of "map Ins q3 @ C"] by (simp add: prog)
    next
      fix c1 assume "C = c1 @ k" "Ins j # k' = k"
      then show ?thesis using same [of k'] by (auto simp: prog)
    qed
    moreover have "\<exists>k1. find_label t prog = Some k1 \<and> runs step prog k1 st r" if "j = emit_jump T t"
    proof -
      have "b = t" "st1 = st" using runs_goto.hyps(1) step_jump that by auto
      then show ?thesis using old tn by simp
    qed
    ultimately show ?case by simp
  next
    case (runs_return j st st1 k')
    have same: "runs step prog (Ins j # kk) st st1" for kk
      using runs_return.hyps(1) by (rule runs.runs_return)
    have "runs step prog k st st1" if pos: "spring_pos P i i' post ?S C k (Ins j # k')" for k
      using pos unfolding spring_pos_def
    proof (elim disjE exE conjE)
      fix p1 p2 assume p: "P = p1 @ p2" "k = p2 @ Ins i # map Ins post @ C"
        "Ins j # k' = p2 @ Ins i' # map Ins post @ ?S @ C"
      show ?thesis
      proof (cases p2)
        case Nil
        with p have "j = i'" by simp
        with runs_return.hyps(1) step_branch [OF i(1), of st n] i(2) show ?thesis by auto
      next
        case (Cons x p3)
        with p same show ?thesis by simp
      qed
    next
      fix q1 q2 assume "q2 \<noteq> []" "k = map Ins q2 @ C" "Ins j # k' = map Ins q2 @ ?S @ C"
      with same show ?thesis by (cases q2) auto
    next
      fix c1 assume "Ins j # k' = k"
      with same show ?thesis by auto
    qed
    moreover have "j \<noteq> emit_jump T t" using runs_return.hyps(1) step_jump by auto
    ultimately show ?case by simp
  }
qed

text \<open>The edit of one round on the blocks.\<close>

lemma spring_insert_runs:
  assumes wf: "code_wf T (blocks mf)" and split: "blocks mf = A @ b # B" "instructions b = pre @ i # post"
    and i: "get_branch_target T i = Some t" and entry: "entry mf < length (blocks mf)"
    and succ: "get_successors T i = Some [t]"
  shows "fn_runs step (insert_springboard T mf (length A) (length pre) t) st r \<longleftrightarrow> fn_runs step mf st r"
proof -
  let ?n = "length (blocks mf)"
  let ?i' = "set_branch_target T i ?n"
  let ?P = "items A @ Label (mb_id b) # map Ins pre"
  let ?C = "items B"
  let ?prog = "items (blocks mf)"
  let ?mf' = "insert_springboard T mf (length A) (length pre) t"
  have prog: "?prog = ?P @ Ins i # map Ins post @ ?C"
    by (simp add: split block_items_def)
  have prog': "items (blocks ?mf') = ?P @ Ins ?i' # map Ins post @ Label ?n # Ins (emit_jump T t) # ?C"
    by (simp add: insert_springboard_split [OF split i] block_items_def)
  have labels: "labels (?P @ ?C) = map mb_id (blocks mf)" by (simp add: split labels_items)
  have ids: "distinct (map mb_id (blocks mf))" "mb_id ` set (blocks mf) = {..<?n}"
    and blk: "\<And>c. c \<in> set (blocks mf) \<Longrightarrow> closed_insts T (instructions c) \<and> succs_below T ?n (instructions c)"
    using wf by (auto simp: code_wf_def)
  have fresh: "?n \<notin> set (labels (?P @ ?C))" unfolding labels using ids(2) by auto
  have dist: "distinct (labels (?P @ ?C))" unfolding labels by (rule ids(1))
  have closed: "closed_insts T (pre @ i # post)" using blk [of b] split by simp
  have "t < ?n" using blk [of b] succ split by (auto simp: succs_below_def)
  then have tn: "t \<noteq> ?n" by simp
  have no_n: "x \<noteq> ?n" if mem: "Ins j \<in> set ?prog" and go: "step j st = Some (Goto x st1)" for j st x st1
  proof -
    obtain ss where ss: "get_successors T j = Some ss" "x \<in> set ss" using step_goto [OF go] by blast
    from mem obtain c where "c \<in> set (blocks mf)" "j \<in> set (instructions c)"
      by (auto simp: items_def block_items_def)
    with blk ss have "x < ?n" unfolding succs_below_def by blast
    then show ?thesis by simp
  qed
  have entry_ne: "entry mf \<noteq> ?n" using entry by simp
  have same_entry: "entry ?mf' = entry mf" by (simp add: insert_springboard_def Let_def)
  show ?thesis
  proof
    assume "fn_runs step mf st r"
    then obtain k where k: "find_label (entry mf) ?prog = Some k" "runs step ?prog k st r"
      by (auto simp: fn_runs_def)
    from spring_pos_label [OF k(1) [unfolded prog] entry_ne dist]
    obtain k' where "find_label (entry mf) (items (blocks ?mf')) = Some k'"
      "spring_pos ?P i ?i' post [Label ?n, Ins (emit_jump T t)] ?C k k'" unfolding prog' by blast
    with spring_runs_forward [OF k(2) prog prog' i refl fresh dist closed] same_entry
    show "fn_runs step ?mf' st r" by (auto simp: fn_runs_def)
  next
    assume "fn_runs step ?mf' st r"
    then obtain k' where k': "find_label (entry mf) (items (blocks ?mf')) = Some k'"
      "runs step (items (blocks ?mf')) k' st r"
      by (auto simp: fn_runs_def same_entry)
    from spring_pos_label_back [OF k'(1) [unfolded prog'] entry_ne]
    obtain k where "find_label (entry mf) ?prog = Some k"
      "spring_pos ?P i ?i' post [Label ?n, Ins (emit_jump T t)] ?C k k'" unfolding prog by blast
    with spring_runs_backward [OF k'(2) prog prog' i refl fresh tn no_n closed]
    show "fn_runs step mf st r" by (auto simp: fn_runs_def)
  qed
qed

end

section \<open>A round keeps the code well-formed\<close>

lemma append_split_not_mem:
  assumes "xs @ ys = as @ b # bs" and "b \<notin> set xs"
  obtains cs where "as = xs @ cs" "ys = cs @ b # bs"
proof -
  from assms(1) obtain us where "xs = as @ us \<and> us @ ys = b # bs \<or> xs @ us = as \<and> ys = us @ b # bs"
    by (auto simp: append_eq_append_conv2)
  then show ?thesis
  proof
    assume us: "xs = as @ us \<and> us @ ys = b # bs"
    with assms(2) have "us = []" by (cases us) auto
    with us that [of "[]"] show ?thesis by simp
  next
    assume "xs @ us = as \<and> ys = us @ b # bs"
    with that [of us] show ?thesis by simp
  qed
qed

locale relax_machine = control_machine T step + target_inst_laws T
  for T :: "('r, 'i, 'z) lowering_target_scheme" and step :: "'i \<Rightarrow> 'st \<Rightarrow> 'st control option"
begin

lemma set_branch_succ:
  assumes "get_branch_target T i = Some t"
  shows "get_successors T (set_branch_target T i b) = Some [b]"
  using branch_target_set [OF assms, of b] branch_target_succ by blast

lemma spring_insert_wf:
  assumes wf: "code_wf T (blocks mf)" and split: "blocks mf = A @ b # B" "instructions b = pre @ i # post"
    and i: "get_branch_target T i = Some t"
  shows "code_wf T (blocks (insert_springboard T mf (length A) (length pre) t))"
proof -
  let ?n = "length (blocks mf)"
  let ?b = "b\<lparr>instructions := pre @ set_branch_target T i ?n # post\<rparr>"
  let ?s = "\<lparr>mb_id = ?n, mb_name = ''.bb.springboard_'' @ show_nat ?n, instructions = [emit_jump T t]\<rparr>"
  have bs: "blocks (insert_springboard T mf (length A) (length pre) t) = A @ ?b # ?s # B"
    by (simp add: insert_springboard_split [OF split i])
  have ids: "distinct (map mb_id (A @ b # B))" "mb_id ` set (A @ b # B) = {..<?n}"
    and blk: "\<And>c. c \<in> set (A @ b # B) \<Longrightarrow>
      closed_insts T (instructions c) \<and> succs_below T ?n (instructions c)"
    using wf by (auto simp: code_wf_def split(1))
  have n: "?n = length A + Suc (length B)" by (simp add: split(1))
  have "?n \<notin> mb_id ` set (A @ b # B)" unfolding ids(2) by simp
  then have "distinct (map mb_id (A @ ?b # ?s # B))" using ids(1) by auto
  moreover have "mb_id ` set (A @ ?b # ?s # B) = insert ?n (mb_id ` set (A @ b # B))" by auto
  then have "mb_id ` set (A @ ?b # ?s # B) = {..<length (A @ ?b # ?s # B)}"
    unfolding ids(2) by (simp add: n lessThan_Suc)
  moreover have "closed_insts T (instructions c) \<and> succs_below T (Suc ?n) (instructions c)"
    if c: "c \<in> set (A @ ?b # ?s # B)" for c
  proof -
    have up: "succs_below T (Suc ?n) is" if "succs_below T ?n is" for "is"
      using that less_SucI unfolding succs_below_def by blast
    have b: "closed_insts T (pre @ i # post)" "succs_below T ?n (pre @ i # post)"
      using blk [of b] split(2) by simp_all
    have "t < ?n" using b(2) branch_target_succ [OF i] by (auto simp: succs_below_def)
    then have "closed_insts T (instructions ?s) \<and> succs_below T (Suc ?n) (instructions ?s)"
      using jump_is_jump by (auto simp: closed_insts_def succs_below_def jump_succ)
    moreover have "closed_insts T (instructions ?b)"
    proof -
      have "post \<noteq> []" using b(1) branch_conditional [OF i] by (auto simp: closed_insts_def)
      with b(1) show ?thesis by (simp add: closed_insts_def)
    qed
    moreover have "succs_below T (Suc ?n) (instructions ?b)"
      using up [OF b(2)] set_branch_succ [OF i] by (auto simp: succs_below_def)
    ultimately show ?thesis using c blk up by auto
  qed
  ultimately show ?thesis
    unfolding bs code_wf_def by (simp only: length_append list.size n add_Suc_right) auto
qed

section \<open>The loop ends\<close>

definition branch_to :: "(nat \<Rightarrow> bool) \<Rightarrow> 'i \<Rightarrow> bool" where
  "branch_to P i \<longleftrightarrow> (\<exists>t. get_branch_target T i = Some t \<and> P t)"

definition count_branches :: "(nat \<Rightarrow> bool) \<Rightarrow> 'i machine_block \<Rightarrow> nat" where
  "count_branches P b = length (filter (branch_to P) (instructions b))"

text \<open>From a branch to the end of its block there is room for one springboard per branch.\<close>

definition branches_near_end :: "'i machine_block \<Rightarrow> bool" where
  "branches_near_end b \<longleftrightarrow> (\<forall>k < length (instructions b). branch_to (\<lambda>_. True) (instructions b ! k) \<longrightarrow>
     int (inst_bytes T (drop k (instructions b)) + 4 * count_branches (\<lambda>_. True) b)
       \<le> snd (branch_offset_range T))"

text \<open>Each block of the input with the springboards made for it.\<close>

definition flat :: "('i machine_block \<times> 'i machine_block list) list \<Rightarrow> 'i machine_block list" where
  "flat gs = concat (map (\<lambda>(b, ss). b # ss) gs)"

definition group_ok :: "nat \<Rightarrow> 'i machine_block \<times> 'i machine_block list \<Rightarrow> bool" where
  "group_ok n0 g \<longleftrightarrow> (\<forall>s \<in> set (snd g). \<exists>t. instructions s = [emit_jump T t]) \<and>
     length (snd g) \<le> count_branches (\<lambda>t. n0 \<le> t) (fst g) \<and>
     (\<forall>i \<in> set (instructions (fst g)). \<forall>t. get_branch_target T i = Some t \<longrightarrow> n0 \<le> t \<longrightarrow>
        t \<in> mb_id ` set (snd g)) \<and> branches_near_end (fst g)"

lemma flat_simps [simp]:
  "flat [] = []" "flat ((b, ss) # gs) = b # ss @ flat gs" "flat (gs @ hs) = flat gs @ flat hs"
  by (simp_all add: flat_def)

lemma flat_split:
  assumes "flat gs = A @ b # B" and "\<forall>g \<in> set gs. \<forall>s \<in> set (snd g). s \<noteq> b"
  shows "\<exists>G1 ss G2. gs = G1 @ (b, ss) # G2 \<and> A = flat G1 \<and> B = ss @ flat G2"
  using assms
proof (induction gs arbitrary: A)
  case Nil
  then show ?case by simp
next
  case (Cons g gs)
  obtain c ss where g: "g = (c, ss)" by (cases g)
  show ?case
  proof (cases A)
    case Nil
    with Cons.prems(1) g show ?thesis by (intro exI [of _ "[]"] exI [of _ ss] exI [of _ gs]) simp
  next
    case (Cons a A1)
    with Cons.prems(1) g have c: "a = c" and eq: "ss @ flat gs = A1 @ b # B" by simp_all
    have "b \<notin> set ss" using Cons.prems(2) g by auto
    with eq obtain A2 where A2: "A1 = ss @ A2" "flat gs = A2 @ b # B"
      by (elim append_split_not_mem)
    have "\<forall>g \<in> set gs. \<forall>s \<in> set (snd g). s \<noteq> b" using Cons.prems(2) by simp
    from Cons.IH [OF A2(2) this] obtain G1 ss' G2 where
      "gs = G1 @ (b, ss') # G2" "A2 = flat G1" "B = ss' @ flat G2" by blast
    with c g A2(1) Cons show ?thesis by (intro exI [of _ "g # G1"] exI [of _ ss'] exI [of _ G2]) simp
  qed
qed

lemma length_filter_le_filter:
  "(\<And>x. P x \<Longrightarrow> Q x) \<Longrightarrow> length (filter P xs) \<le> length (filter Q xs)"
  by (induction xs) (auto intro: le_SucI)

lemma count_branches_le: "count_branches P b \<le> count_branches (\<lambda>_. True) b"
  unfolding count_branches_def by (rule length_filter_le_filter) (auto simp: branch_to_def)

text \<open>A branch to one of its own springboards reaches it.\<close>

lemma spring_in_reach:
  assumes ids: "distinct (map mb_id (A @ b # ss @ C))" and ok: "group_ok n0 (b, ss)"
    and split: "instructions b = pre @ i # post" and i: "get_branch_target T i = Some t" "n0 \<le> t"
    and lo: "fst (branch_offset_range T) \<le> 0"
  shows "in_reach T (compute_block_offsets T (A @ b # ss @ C) 0 Map.empty)
    (blocks_bytes T A + inst_bytes T pre) t"
proof -
  have "t \<in> mb_id ` set ss" using ok i split by (auto simp: group_ok_def)
  then obtain s s1 s2 where s: "ss = s1 @ s # s2" "mb_id s = t"
    by (metis imageE split_list)
  have "blocks_bytes T s1 = 4 * length s1"
  proof -
    have "\<forall>s \<in> set s1. \<exists>u. instructions s = [emit_jump T u]" using ok s(1) by (auto simp: group_ok_def)
    then show ?thesis by (induction s1) (auto simp: jump_size)
  qed
  then have off: "compute_block_offsets T (A @ b # ss @ C) 0 Map.empty t =
      Some (blocks_bytes T A + inst_bytes T (instructions b) + 4 * length s1)"
    using compute_block_offsets_at [of "A @ b # s1" s "s2 @ C" T 0 Map.empty] ids s by simp
  have "length s1 < length ss" using s(1) by simp
  also have "length ss \<le> count_branches (\<lambda>t. n0 \<le> t) b" using ok by (simp add: group_ok_def)
  also have "\<dots> \<le> count_branches (\<lambda>_. True) b" by (rule count_branches_le)
  finally have len: "length s1 < count_branches (\<lambda>_. True) b" .
  have near: "branches_near_end b" using ok by (simp add: group_ok_def)
  have "length pre < length (instructions b)" "branch_to (\<lambda>_. True) (instructions b ! length pre)"
    "drop (length pre) (instructions b) = i # post"
    by (simp_all add: split branch_to_def i)
  with near have "int (inst_bytes T (i # post) + 4 * count_branches (\<lambda>_. True) b) \<le> snd (branch_offset_range T)"
    unfolding branches_near_end_def by metis
  with off len lo show ?thesis by (auto simp: in_reach_def split)
qed

lemma near_end_edit:
  assumes "branches_near_end b" and "instructions b = pre @ i # post" and i: "get_branch_target T i = Some t"
  shows "branches_near_end (b\<lparr>instructions := pre @ set_branch_target T i n # post\<rparr>)"
proof -
  let ?new = "pre @ set_branch_target T i n # post" and ?old = "pre @ i # post"
  have sizes: "map (size_in_bytes T) ?new = map (size_in_bytes T) ?old"
    using branch_target_set [OF i, of n] by simp
  have kinds: "map (branch_to (\<lambda>_. True)) ?new = map (branch_to (\<lambda>_. True)) ?old"
    using branch_target_set [OF i, of n] i by (simp add: branch_to_def)
  have bytes: "inst_bytes T (drop k ?new) = inst_bytes T (drop k ?old)" for k
    unfolding inst_bytes_def drop_map [symmetric] sizes ..
  have nth: "branch_to (\<lambda>_. True) (?new ! k) = branch_to (\<lambda>_. True) (?old ! k)" if "k < length ?old" for k
  proof -
    have "map (branch_to (\<lambda>_. True)) ?new ! k = map (branch_to (\<lambda>_. True)) ?old ! k" by (simp only: kinds)
    moreover have "k < length ?new" using that by simp
    ultimately show ?thesis using that by (simp only: nth_map)
  qed
  have count: "count_branches (\<lambda>_. True) (b\<lparr>instructions := ?new\<rparr>) = count_branches (\<lambda>_. True) b"
    using branch_target_set [OF i, of n] i assms(2) by (simp add: count_branches_def branch_to_def)
  show ?thesis
    unfolding branches_near_end_def count
  proof (intro allI impI)
    fix k assume k: "k < length (instructions (b\<lparr>instructions := ?new\<rparr>))"
      "branch_to (\<lambda>_. True) (instructions (b\<lparr>instructions := ?new\<rparr>) ! k)"
    then have "k < length ?old" "branch_to (\<lambda>_. True) (?old ! k)" using nth by simp_all
    then have "int (inst_bytes T (drop k ?old) + 4 * count_branches (\<lambda>_. True) b) \<le> snd (branch_offset_range T)"
      using assms(1,2) unfolding branches_near_end_def by metis
    then show "int (inst_bytes T (drop k (instructions (b\<lparr>instructions := ?new\<rparr>))) +
        4 * count_branches (\<lambda>_. True) b) \<le> snd (branch_offset_range T)"
      using bytes [of k] by simp
  qed
qed

lemma group_edit:
  fixes name :: string
  assumes ok: "group_ok n0 (b, ss)" and split: "instructions b = pre @ i # post"
    and i: "get_branch_target T i = Some t" "t < n0" "n0 \<le> n"
  defines "b' \<equiv> b\<lparr>instructions := pre @ set_branch_target T i n # post\<rparr>"
    and "s \<equiv> \<lparr>mb_id = n, mb_name = name, instructions = [emit_jump T t]\<rparr>"
  shows "group_ok n0 (b', s # ss)"
    "Suc (count_branches (\<lambda>t. t < n0) b') = count_branches (\<lambda>t. t < n0) b"
proof -
  have new: "get_branch_target T (set_branch_target T i n) = Some n"
    using branch_target_set [OF i(1)] by blast
  show "Suc (count_branches (\<lambda>t. t < n0) b') = count_branches (\<lambda>t. t < n0) b"
    using i new by (simp add: count_branches_def branch_to_def split b'_def)
  have "count_branches (\<lambda>t. n0 \<le> t) b' = Suc (count_branches (\<lambda>t. n0 \<le> t) b)"
    using i new by (simp add: count_branches_def branch_to_def split b'_def)
  then have "length (s # ss) \<le> count_branches (\<lambda>t. n0 \<le> t) b'"
    using ok by (simp add: group_ok_def)
  moreover have "u \<in> mb_id ` set (s # ss)"
    if "j \<in> set (instructions b')" "get_branch_target T j = Some u" "n0 \<le> u" for j u
    using that ok new split by (auto simp: group_ok_def b'_def s_def)
  moreover have "branches_near_end b'"
    unfolding b'_def by (rule near_end_edit [OF _ split i(1)]) (use ok in \<open>simp add: group_ok_def\<close>)
  moreover have "\<forall>u \<in> set (s # ss). \<exists>t. instructions u = [emit_jump T t]"
    using ok by (auto simp: group_ok_def s_def)
  ultimately show "group_ok n0 (b', s # ss)" by (simp add: group_ok_def)
qed

lemma find_far_total: "code_wf T (blocks mf) \<Longrightarrow> find_far T mf \<noteq> None"
  unfolding find_far_def
proof (rule scan_blocks_total, intro ballI conjI allI impI)
  fix b assume wf: "code_wf T (blocks mf)" and b: "b \<in> set (blocks mf)"
  let ?offs = "compute_block_offsets T (blocks mf) 0 Map.empty"
  have dom: "dom ?offs = {..<length (blocks mf)}"
    using wf by (simp add: compute_block_offsets_dom code_wf_def)
  have "mb_id b \<in> dom ?offs" using b by (simp add: compute_block_offsets_dom)
  then show "?offs (mb_id b) \<noteq> None" by blast
  fix i t assume i: "i \<in> set (instructions b)" "get_branch_target T i = Some t"
  then have "t < length (blocks mf)"
    using wf b branch_target_succ [OF i(2)] by (auto simp: code_wf_def succs_below_def)
  then have "t \<in> dom ?offs" by (simp add: dom)
  then show "?offs t \<noteq> None" by blast
qed

definition all_in_reach :: "('r, 'i) machine_function \<Rightarrow> bool" where
  "all_in_reach mf \<longleftrightarrow> (\<forall>b \<in> set (blocks mf). \<forall>pre i post t. instructions b = pre @ i # post \<longrightarrow>
     get_branch_target T i = Some t \<longrightarrow>
     (\<exists>here. compute_block_offsets T (blocks mf) 0 Map.empty (mb_id b) = Some here \<and>
        in_reach T (compute_block_offsets T (blocks mf) 0 Map.empty) (here + inst_bytes T pre) t))"

lemma relax_branches_groups:
  assumes "code_wf T (blocks mf)" and "entry mf < length (blocks mf)" and "blocks mf = flat gs"
    and "\<forall>g \<in> set gs. group_ok n0 g" and "n0 \<le> length (blocks mf)"
    and lo: "fst (branch_offset_range T) \<le> 0"
  shows "\<exists>mf'. relax_branches T mf = Some mf' \<and> all_in_reach mf' \<and> code_wf T (blocks mf') \<and>
    entry mf' = entry mf \<and> (\<forall>st r. fn_runs step mf' st r \<longleftrightarrow> fn_runs step mf st r)"
  using assms(1-5)
proof (induction "sum_list (map (\<lambda>g. count_branches (\<lambda>t. t < n0) (fst g)) gs)" arbitrary: mf gs
    rule: less_induct)
  case less
  let ?offs = "compute_block_offsets T (blocks mf) 0 Map.empty"
  obtain found where found: "find_far T mf = Some found"
    using find_far_total [OF less.prems(1)] by blast
  show ?case
  proof (cases found)
    case None
    then have "relax_step T mf = Some None" using found by (simp add: relax_step_def)
    then have "relax_branches T mf = Some mf" by (simp add: relax_branches.simps)
    moreover have "all_in_reach mf"
      using scan_blocks_none found None by (auto simp: all_in_reach_def find_far_def)
    ultimately show ?thesis using less.prems(1) by blast
  next
    case (Some p)
    obtain bi ii t where p: "p = (bi, ii, t)" by (cases p)
    from scan_blocks_found [of T ?offs 0 "blocks mf" bi ii t] found Some p
    obtain A b B pre i post here where split: "blocks mf = A @ b # B" "instructions b = pre @ i # post"
      and idx: "bi = length A" "ii = length pre" and i: "get_branch_target T i = Some t"
      and here: "?offs (mb_id b) = Some here" and far: "\<not> in_reach T ?offs (here + inst_bytes T pre) t"
      by (auto simp: find_far_def)
    let ?mf = "insert_springboard T mf bi ii t" and ?n = "length (blocks mf)"
    have "\<forall>g \<in> set gs. \<forall>s \<in> set (snd g). s \<noteq> b"
    proof (intro ballI notI)
      fix g s assume "g \<in> set gs" "s \<in> set (snd g)" "s = b"
      then obtain u where "instructions b = [emit_jump T u]"
        using less.prems(4) unfolding group_ok_def by blast
      with split(2) have "i = emit_jump T u" by (simp add: Cons_eq_append_conv)
      with i jump_no_branch show False by simp
    qed
    from flat_split [OF _ this] obtain G1 ss G2 where
      gs: "gs = G1 @ (b, ss) # G2" and A: "A = flat G1" and B: "B = ss @ flat G2"
      using less.prems(3) split(1) by metis
    have ok: "group_ok n0 (b, ss)" using less.prems(4) gs by simp
    have ids: "distinct (map mb_id (A @ b # ss @ flat G2))"
      using less.prems(1) by (simp add: code_wf_def split(1) B)
    have "here = blocks_bytes T A"
      using compute_block_offsets_at [of A b B T 0 Map.empty] ids here by (simp add: split(1) B)
    then have "\<not> n0 \<le> t"
      using spring_in_reach [OF ids ok split(2) i _ lo] far by (auto simp: split(1) B)
    then have t: "t < n0" by simp
    let ?b = "b\<lparr>instructions := pre @ set_branch_target T i ?n # post\<rparr>"
    let ?s = "\<lparr>mb_id = ?n, mb_name = ''.bb.springboard_'' @ show_nat ?n, instructions = [emit_jump T t]\<rparr>"
    let ?gs = "G1 @ (?b, ?s # ss) # G2"
    note edit = group_edit [OF ok split(2) i t less.prems(5)]
    have bs: "blocks ?mf = flat ?gs"
      unfolding idx insert_springboard_split [OF split i] by (simp add: A B)
    have wf: "code_wf T (blocks ?mf)"
      unfolding idx by (rule spring_insert_wf [OF less.prems(1) split i])
    have len: "length (blocks ?mf) = Suc ?n"
      unfolding idx insert_springboard_split [OF split i] by (simp add: split(1))
    have entry: "entry ?mf = entry mf" by (simp add: insert_springboard_def Let_def)
    have "sum_list (map (\<lambda>g. count_branches (\<lambda>t. t < n0) (fst g)) ?gs) <
        sum_list (map (\<lambda>g. count_branches (\<lambda>t. t < n0) (fst g)) gs)"
      using edit(2) by (simp add: gs)
    moreover have "entry ?mf < length (blocks ?mf)" using less.prems(2) by (simp add: entry len)
    moreover have "\<forall>g \<in> set ?gs. group_ok n0 g" using less.prems(4) gs edit(1) by auto
    moreover have "n0 \<le> length (blocks ?mf)" using less.prems(5) len by simp
    ultimately obtain mf' where mf': "relax_branches T ?mf = Some mf'" "all_in_reach mf'"
      "code_wf T (blocks mf')" "entry mf' = entry ?mf"
      "\<forall>st r. fn_runs step mf' st r \<longleftrightarrow> fn_runs step ?mf st r"
      using less.hyps [OF _ wf _ bs] by blast
    have "get_successors T i = Some [t]" using branch_target_succ [OF i] by blast
    then have "fn_runs step ?mf st r \<longleftrightarrow> fn_runs step mf st r" for st r
      unfolding idx by (rule spring_insert_runs [OF less.prems(1) split i less.prems(2)])
    moreover have "relax_branches T mf = relax_branches T ?mf"
      using found Some p by (subst relax_branches.simps) (simp add: relax_step_def)
    ultimately show ?thesis using mf' entry by metis
  qed
qed

lemma relax_branches_correct:
  assumes wf: "code_wf T (blocks mf)" and entry: "entry mf < length (blocks mf)"
    and near: "\<forall>b \<in> set (blocks mf). branches_near_end b" and lo: "fst (branch_offset_range T) \<le> 0"
  shows "\<exists>mf'. relax_branches T mf = Some mf' \<and> all_in_reach mf' \<and> code_wf T (blocks mf') \<and>
    entry mf' = entry mf \<and> (\<forall>st r. fn_runs step mf' st r \<longleftrightarrow> fn_runs step mf st r)"
proof (rule relax_branches_groups [OF wf entry _ _ _ lo])
  let ?gs = "map (\<lambda>b. (b, [] :: 'i machine_block list)) (blocks mf)"
  show "blocks mf = flat ?gs" by (induction "blocks mf") (simp_all add: flat_def comp_def concat_map_singleton)
  show "\<forall>g \<in> set ?gs. group_ok (length (blocks mf)) g"
  proof
    fix g :: "'i machine_block \<times> 'i machine_block list" assume "g \<in> set ?gs"
    then obtain b where b: "b \<in> set (blocks mf)" "g = (b, [])" by auto
    have "t < length (blocks mf)" if "i \<in> set (instructions b)" "get_branch_target T i = Some t" for i t
      using wf b(1) that(1) branch_target_succ [OF that(2)] by (auto simp: code_wf_def succs_below_def)
    then show "group_ok (length (blocks mf)) g"
      using b near by (fastforce simp: group_ok_def)
  qed
qed simp

text \<open>The peephole pass before it keeps the code well-formed: a jump or a return is no move.\<close>

lemma peephole_wf:
  assumes "code_wf T (blocks mf)"
  shows "code_wf T (blocks (peephole_optimize T mf))"
proof -
  let ?keep = "\<lambda>i. \<not> is_self_move T i"
  have closed: "closed_insts T (filter ?keep is)" if "closed_insts T is" for "is"
  proof -
    have "is \<noteq> []" and l: "is_ret T (last is) \<or> (\<exists>t. is_jump_to T (last is) t)"
      using that by (auto simp: closed_insts_def)
    have "?keep (last is)"
      using l self_move_step [of "last is" undefined] step_ret [of "last is" undefined]
        step_is_jump [of "last is" _ undefined] by fastforce
    moreover have "is = butlast is @ [last is]" using \<open>is \<noteq> []\<close> by simp
    ultimately have "filter ?keep is = filter ?keep (butlast is) @ [last is]"
      by (metis filter.simps(1) filter.simps(2) filter_append)
    with l show ?thesis by (simp add: closed_insts_def)
  qed
  have succs: "succs_below T n (filter ?keep is)" if "succs_below T n is" for n "is"
    using that by (auto simp: succs_below_def)
  show ?thesis
    using assms closed succs by (auto simp: code_wf_def peephole_optimize_def comp_def image_image)
qed

end

section \<open>The passes after expansion\<close>

text \<open>The end of \<open>lower_function\<close> in \<open>src/src/mir/lower.rs\<close>, with the flags of its options.\<close>

record lower_options =
  lower_function_bodies :: bool
  need_branch_relaxation :: bool
  opt_fallthroughs :: bool
  opt_peephole :: bool

definition late_passes ::
  "lower_options \<Rightarrow> ('r, 'i, 'z) lowering_target_scheme \<Rightarrow> ('r, 'i) machine_function \<Rightarrow>
     ('r, 'i) machine_function option" where
  "late_passes opts T mf = do {
     let mf1 = (if opt_peephole opts then peephole_optimize T mf else mf);
     mf2 \<leftarrow> (if need_branch_relaxation opts then relax_branches T mf1 else Some mf1);
     Some (if opt_fallthroughs opts then optimize_fallthroughs T mf2 else mf2) }"

context relax_machine
begin

lemma late_passes_correct:
  assumes wf: "code_wf T (blocks mf)" and entry: "entry mf < length (blocks mf)"
    and near: "need_branch_relaxation opts \<Longrightarrow> \<forall>b \<in> set (blocks
      (if opt_peephole opts then peephole_optimize T mf else mf)). branches_near_end b"
    and lo: "fst (branch_offset_range T) \<le> 0"
  shows "\<exists>mf'. late_passes opts T mf = Some mf' \<and>
    (\<forall>st r. fn_runs step mf' st r \<longleftrightarrow> fn_runs step mf st r)"
proof -
  let ?mf1 = "if opt_peephole opts then peephole_optimize T mf else mf"
  have wf1: "code_wf T (blocks ?mf1)" using wf peephole_wf by simp
  have entry1: "entry ?mf1 < length (blocks ?mf1)" using entry by (simp add: peephole_optimize_def)
  have runs1: "fn_runs step ?mf1 st r \<longleftrightarrow> fn_runs step mf st r" for st r by (simp add: peephole_runs)
  obtain mf2 where mf2: "(if need_branch_relaxation opts then relax_branches T ?mf1 else Some ?mf1) = Some mf2"
    and wf2: "code_wf T (blocks mf2)" and runs2: "\<And>st r. fn_runs step mf2 st r \<longleftrightarrow> fn_runs step ?mf1 st r"
  proof (cases "need_branch_relaxation opts")
    case True
    from relax_branches_correct [OF wf1 entry1 near [OF True] lo] that True show ?thesis by auto
  next
    case False
    with that [of ?mf1] wf1 show ?thesis by simp
  qed
  have "distinct (map mb_id (blocks mf2))" using wf2 by (simp add: code_wf_def)
  then have "fn_runs step (if opt_fallthroughs opts then optimize_fallthroughs T mf2 else mf2) st r \<longleftrightarrow>
      fn_runs step mf st r" for st r
    using fallthroughs_runs runs1 runs2 by simp
  moreover have "late_passes opts T mf =
      Some (if opt_fallthroughs opts then optimize_fallthroughs T mf2 else mf2)"
    using mf2 by (simp add: late_passes_def Let_def)
  ultimately show ?thesis by blast
qed

end

end
