(* ===== verification/Target_Runs.thy ===== *)
theory Target_Runs
  imports Targets Branch_Relax
begin

text \<open>
  Whole functions on the two targets: the step of an instruction, branches, jumps, returns and calls
  included, the interpretation of the passes' interface, and with it the passes that run after
  expansion.
\<close>

section \<open>RV32\<close>

text \<open>A call is the parameter \<open>call\<close>: what the callee does to the state.\<close>

definition rv32_step ::
  "(symbol_id \<Rightarrow> nat \<Rightarrow> (rv32_reg, 32 word) mstate \<Rightarrow> (rv32_reg, 32 word) mstate option) \<Rightarrow>
     32 word link_env \<Rightarrow> rv32_reg frame_layout \<Rightarrow> rv32_inst \<Rightarrow> (rv32_reg, 32 word) mstate \<Rightarrow>
     (rv32_reg, 32 word) mstate control option" where
  "rv32_step call E fl i st = (case rv32_branch_taken i st of
     Some taken \<Rightarrow>
       if taken then map_option (\<lambda>b. Goto b st) (rv32_get_branch_target i) else Some (Fall st)
   | None \<Rightarrow> (case i of
       rv32_inst.Jal rd label \<Rightarrow> if rd = Physical rv32_reg.Zero then Some (Goto label st) else None
     | rv32_inst.Ret \<Rightarrow> Some (Return st)
     | rv32_inst.Call f n \<Rightarrow> map_option Fall (call f n st)
     | _ \<Rightarrow> map_option Fall (rv32_exec E fl i st)))"

lemma rv32_branch_cases:
  assumes "rv32_get_branch_target i = Some b"
  obtains a c where "i = rv32_inst.Beq a c b" | a c where "i = rv32_inst.Bne a c b"
  | a c where "i = rv32_inst.Blt a c b" | a c where "i = rv32_inst.Bge a c b"
  | a c where "i = rv32_inst.Bltu a c b" | a c where "i = rv32_inst.Bgeu a c b"
  using assms by (cases i) (auto simp: rv32_get_branch_target_def)

lemma rv32_step_self_move:
  assumes "rv32_as_move i = Some (r, r)"
  shows "rv32_step call E fl i st = Some (Fall st)"
proof -
  have "put_reg rv32_reg.Zero r (get_reg rv32_reg.Zero st r) st = st"
    by (simp add: put_reg_def get_reg_def)
  with assms show ?thesis
    by (cases i) (auto simp: rv32_as_move_def rv32_step_def rv32_branch_taken_def rv32_exec_def
        step_imm_def split: if_splits)
qed

interpretation rv32_ctrl: control_machine rv32_target "rv32_step call E fl" for call E fl
proof
  fix st :: "(rv32_reg, 32 word) mstate" and i b b' st1 t
  show "rv32_step call E fl (emit_jump rv32_target b) st = Some (Goto b st)"
    by (simp add: rv32_emit_jump_def rv32_step_def rv32_branch_taken_def)
  show "is_jump_to rv32_target i b \<Longrightarrow> rv32_step call E fl i st = Some (Goto b st)"
    by (cases i) (auto simp: rv32_is_jump_to_def rv32_step_def rv32_branch_taken_def)
  show "as_move rv32_target i = Some (r, r) \<Longrightarrow> rv32_step call E fl i st = Some (Fall st)" for r
    using rv32_step_self_move by simp
  show "get_branch_target rv32_target i = Some b \<Longrightarrow>
      rv32_step call E fl i st = Some (Goto b st) \<and>
        rv32_step call E fl (set_branch_target rv32_target i b') st = Some (Goto b' st) \<or>
      rv32_step call E fl i st = Some (Fall st) \<and>
        rv32_step call E fl (set_branch_target rv32_target i b') st = Some (Fall st)"
    unfolding rv32_target_sel
    by (elim rv32_branch_cases) (simp_all add: rv32_step_def rv32_branch_taken_def
        rv32_get_branch_target_def rv32_set_branch_target_def)
  show "is_ret rv32_target i \<Longrightarrow> rv32_step call E fl i st = Some (Return st)"
    by (cases i) (auto simp: rv32_is_ret_def rv32_step_def rv32_branch_taken_def)
  show "rv32_step call E fl i st = Some (Goto b st1) \<Longrightarrow>
      \<exists>ss. get_successors rv32_target i = Some ss \<and> b \<in> set ss"
    by (cases i) (auto simp: rv32_step_def rv32_branch_taken_def rv32_get_branch_target_def
        rv32_get_successors_def split: if_splits)
  show "get_successors rv32_target (emit_jump rv32_target b) = Some [b]"
    "is_jump_to rv32_target (emit_jump rv32_target b) b"
    "get_branch_target rv32_target (emit_jump rv32_target b) = None"
    "size_in_bytes rv32_target (emit_jump rv32_target b) = 4"
    by (simp_all add: rv32_emit_jump_def rv32_get_successors_def rv32_is_jump_to_def
        rv32_get_branch_target_def rv32_size_in_bytes_def)
  show "get_branch_target rv32_target i = Some b \<Longrightarrow>
      \<not> is_ret rv32_target i \<and> \<not> is_jump_to rv32_target i t"
    unfolding rv32_target_sel
    by (elim rv32_branch_cases) (simp_all add: rv32_is_ret_def rv32_is_jump_to_def)
qed

interpretation rv32_relax: relax_machine rv32_target "rv32_step call E fl" for call E fl
  by unfold_locales

section \<open>RV64\<close>

text \<open>A call is the parameter \<open>call\<close>: what the callee does to the state.\<close>

definition rv64_step ::
  "(symbol_id \<Rightarrow> nat \<Rightarrow> (rv64_reg, 64 word) mstate \<Rightarrow> (rv64_reg, 64 word) mstate option) \<Rightarrow>
     64 word link_env \<Rightarrow> rv64_reg frame_layout \<Rightarrow> rv64_inst \<Rightarrow> (rv64_reg, 64 word) mstate \<Rightarrow>
     (rv64_reg, 64 word) mstate control option" where
  "rv64_step call E fl i st = (case rv64_branch_taken i st of
     Some taken \<Rightarrow>
       if taken then map_option (\<lambda>b. Goto b st) (rv64_get_branch_target i) else Some (Fall st)
   | None \<Rightarrow> (case i of
       rv64_inst.Jal rd label \<Rightarrow> if rd = Physical rv64_reg.Zero then Some (Goto label st) else None
     | rv64_inst.Ret \<Rightarrow> Some (Return st)
     | rv64_inst.Call f n \<Rightarrow> map_option Fall (call f n st)
     | _ \<Rightarrow> map_option Fall (rv64_exec E fl i st)))"

lemma rv64_branch_cases:
  assumes "rv64_get_branch_target i = Some b"
  obtains a c where "i = rv64_inst.Beq a c b" | a c where "i = rv64_inst.Bne a c b"
  | a c where "i = rv64_inst.Blt a c b" | a c where "i = rv64_inst.Bge a c b"
  | a c where "i = rv64_inst.Bltu a c b" | a c where "i = rv64_inst.Bgeu a c b"
  using assms by (cases i) (auto simp: rv64_get_branch_target_def)

lemma rv64_step_self_move:
  assumes "rv64_as_move i = Some (r, r)"
  shows "rv64_step call E fl i st = Some (Fall st)"
proof -
  have "put_reg rv64_reg.Zero r (get_reg rv64_reg.Zero st r) st = st"
    by (simp add: put_reg_def get_reg_def)
  with assms show ?thesis
    by (cases i) (auto simp: rv64_as_move_def rv64_step_def rv64_branch_taken_def rv64_exec_def
        step_imm_def split: if_splits)
qed

interpretation rv64_ctrl: control_machine rv64_target "rv64_step call E fl" for call E fl
proof
  fix st :: "(rv64_reg, 64 word) mstate" and i b b' st1 t
  show "rv64_step call E fl (emit_jump rv64_target b) st = Some (Goto b st)"
    by (simp add: rv64_emit_jump_def rv64_step_def rv64_branch_taken_def)
  show "is_jump_to rv64_target i b \<Longrightarrow> rv64_step call E fl i st = Some (Goto b st)"
    by (cases i) (auto simp: rv64_is_jump_to_def rv64_step_def rv64_branch_taken_def)
  show "as_move rv64_target i = Some (r, r) \<Longrightarrow> rv64_step call E fl i st = Some (Fall st)" for r
    using rv64_step_self_move by simp
  show "get_branch_target rv64_target i = Some b \<Longrightarrow>
      rv64_step call E fl i st = Some (Goto b st) \<and>
        rv64_step call E fl (set_branch_target rv64_target i b') st = Some (Goto b' st) \<or>
      rv64_step call E fl i st = Some (Fall st) \<and>
        rv64_step call E fl (set_branch_target rv64_target i b') st = Some (Fall st)"
    unfolding rv64_target_sel
    by (elim rv64_branch_cases) (simp_all add: rv64_step_def rv64_branch_taken_def
        rv64_get_branch_target_def rv64_set_branch_target_def)
  show "is_ret rv64_target i \<Longrightarrow> rv64_step call E fl i st = Some (Return st)"
    by (cases i) (auto simp: rv64_is_ret_def rv64_step_def rv64_branch_taken_def)
  show "rv64_step call E fl i st = Some (Goto b st1) \<Longrightarrow>
      \<exists>ss. get_successors rv64_target i = Some ss \<and> b \<in> set ss"
    by (cases i) (auto simp: rv64_step_def rv64_branch_taken_def rv64_get_branch_target_def
        rv64_get_successors_def split: if_splits)
  show "get_successors rv64_target (emit_jump rv64_target b) = Some [b]"
    "is_jump_to rv64_target (emit_jump rv64_target b) b"
    "get_branch_target rv64_target (emit_jump rv64_target b) = None"
    "size_in_bytes rv64_target (emit_jump rv64_target b) = 4"
    by (simp_all add: rv64_emit_jump_def rv64_get_successors_def rv64_is_jump_to_def
        rv64_get_branch_target_def rv64_size_in_bytes_def)
  show "get_branch_target rv64_target i = Some b \<Longrightarrow>
      \<not> is_ret rv64_target i \<and> \<not> is_jump_to rv64_target i t"
    unfolding rv64_target_sel
    by (elim rv64_branch_cases) (simp_all add: rv64_is_ret_def rv64_is_jump_to_def)
qed

interpretation rv64_relax: relax_machine rv64_target "rv64_step call E fl" for call E fl
  by unfold_locales

section \<open>Properties\<close>

text \<open>C10. Peephole and fallthrough on RV64 change nothing a run can see: dropping the moves from a
  register to itself, and dropping the jumps to the block that follows (block ids being distinct),
  leaves the function with exactly the runs it had, for every callee behaviour.\<close>

theorem rv64_cleanup_preserves_runs:
  assumes "distinct (map mb_id (blocks mf))"
  shows "(fn_runs (rv64_step call E fl) (peephole_optimize rv64_target mf) st r \<longleftrightarrow>
      fn_runs (rv64_step call E fl) mf st r) \<and>
    (fn_runs (rv64_step call E fl) (optimize_fallthroughs rv64_target mf) st r \<longleftrightarrow>
      fn_runs (rv64_step call E fl) mf st r)"
  using rv64_ctrl.peephole_runs rv64_ctrl.fallthroughs_runs [OF assms] by blast

text \<open>Two blocks, the first jumping to the second, and a move of a register to itself.\<close>

definition two_blocks :: "(rv64_reg, rv64_inst) machine_function" where
  "two_blocks = (empty_machine_function ''f'')\<lparr>blocks :=
     [\<lparr>mb_id = 0, mb_name = ''.bb0'', instructions =
         [rv64_inst.Mv (Physical rv64_reg.A0) (Physical rv64_reg.A0),
          rv64_inst.Bne (Physical rv64_reg.A0) (Physical rv64_reg.Zero) 1,
          rv64_inst.Jal (Physical rv64_reg.Zero) 1]\<rparr>,
      \<lparr>mb_id = 1, mb_name = ''.bb1'', instructions = [rv64_inst.Ret]\<rparr>]\<rparr>"

theorem rv64_cleanup_preserves_runs_witness:
  "fn_runs (rv64_step (\<lambda>_ _ st. Some st) blank_env far_frame)
     (optimize_fallthroughs rv64_target two_blocks) blank_state blank_state"
proof -
  have "distinct (map mb_id (blocks two_blocks))" by (simp add: two_blocks_def)
  moreover have "fn_runs (rv64_step (\<lambda>_ _ st. Some st) blank_env far_frame) two_blocks blank_state blank_state"
  proof -
    let ?S = "rv64_step (\<lambda>_ _ st. Some st) blank_env far_frame"
    let ?mv = "rv64_inst.Mv (Physical rv64_reg.A0) (Physical rv64_reg.A0)"
    let ?bne = "rv64_inst.Bne (Physical rv64_reg.A0) (Physical rv64_reg.Zero) 1"
    let ?jal = "rv64_inst.Jal (Physical rv64_reg.Zero) 1"
    let ?p = "[Label 0, Ins ?mv, Ins ?bne, Ins ?jal, Label 1, Ins rv64_inst.Ret]"
    have mv: "?S ?mv blank_state = Some (Fall blank_state)"
      by (rule rv64_step_self_move) (simp add: rv64_as_move_def)
    have bne: "?S ?bne blank_state = Some (Fall blank_state)"
      by (simp add: rv64_step_def rv64_branch_taken_def blank_state_def get_reg_def)
    have jal: "?S ?jal blank_state = Some (Goto 1 blank_state)"
      by (simp add: rv64_step_def rv64_branch_taken_def)
    have ret: "?S rv64_inst.Ret blank_state = Some (Return blank_state)"
      by (simp add: rv64_step_def rv64_branch_taken_def)
    have "find_label 1 ?p = Some [Ins rv64_inst.Ret]" by simp
    moreover have "runs ?S ?p [Ins rv64_inst.Ret] blank_state blank_state"
      using ret by (rule runs_return)
    ultimately have "runs ?S ?p [Ins ?jal, Label 1, Ins rv64_inst.Ret] blank_state blank_state"
      by (rule runs_goto [where step = ?S, OF jal])
    then have "runs ?S ?p [Ins ?mv, Ins ?bne, Ins ?jal, Label 1, Ins rv64_inst.Ret] blank_state blank_state"
      by (intro runs_fall [where step = ?S, OF mv] runs_fall [where step = ?S, OF bne])
    moreover have "items (blocks two_blocks) = ?p" "entry two_blocks = 0"
      by (simp_all add: two_blocks_def block_items_def empty_machine_function_def)
    ultimately show ?thesis unfolding fn_runs_def by simp
  qed
  ultimately show ?thesis using rv64_cleanup_preserves_runs by blast
qed

text \<open>C5. Branch relaxation on RV64 ends and is right: on a function whose block ids are the numbers
  below the number of blocks, whose blocks end in a jump or a return and name existing successors, and
  whose conditional branches stand close enough to the end of their block, the loop returns, every
  conditional branch of the result reaches its target in the 13-bit range, and the result has exactly
  the runs of the input.\<close>

theorem rv64_relax_branches_correct:
  assumes "code_wf rv64_target (blocks mf)" and "entry mf < length (blocks mf)"
    and "\<forall>b \<in> set (blocks mf). rv64_relax.branches_near_end b"
  shows "\<exists>mf'. relax_branches rv64_target mf = Some mf' \<and>
    (\<forall>b \<in> set (blocks mf'). \<forall>pre i post t. instructions b = pre @ i # post \<longrightarrow>
       rv64_get_branch_target i = Some t \<longrightarrow>
       (\<exists>here o1. compute_block_offsets rv64_target (blocks mf') 0 Map.empty (mb_id b) = Some here \<and>
          compute_block_offsets rv64_target (blocks mf') 0 Map.empty t = Some o1 \<and>
          -4096 \<le> int o1 - int (here + inst_bytes rv64_target pre) \<and>
          int o1 - int (here + inst_bytes rv64_target pre) \<le> 4095)) \<and>
    (\<forall>st r. fn_runs (rv64_step call E fl) mf' st r \<longleftrightarrow> fn_runs (rv64_step call E fl) mf st r)"
proof -
  have "fst (branch_offset_range rv64_target) \<le> 0" by simp
  from rv64_relax.relax_branches_correct [OF assms this, of call E fl]
  obtain mf' where mf': "relax_branches rv64_target mf = Some mf'" "rv64_relax.all_in_reach mf'"
    "\<forall>st r. fn_runs (rv64_step call E fl) mf' st r \<longleftrightarrow> fn_runs (rv64_step call E fl) mf st r" by blast
  then show ?thesis
    unfolding rv64_relax.all_in_reach_def in_reach_def rv64_target_sel fst_conv snd_conv by blast
qed

theorem rv64_relax_branches_correct_witness:
  "\<exists>mf'. relax_branches rv64_target two_blocks = Some mf' \<and>
    (\<forall>st r. fn_runs (rv64_step (\<lambda>_ _ st. Some st) blank_env far_frame) mf' st r \<longleftrightarrow>
      fn_runs (rv64_step (\<lambda>_ _ st. Some st) blank_env far_frame) two_blocks st r)"
proof -
  have "code_wf rv64_target (blocks two_blocks)"
    by (auto simp: code_wf_def two_blocks_def closed_insts_def succs_below_def rv64_is_ret_def
        rv64_is_jump_to_def rv64_get_successors_def)
  moreover have "entry two_blocks < length (blocks two_blocks)"
    by (simp add: two_blocks_def empty_machine_function_def)
  moreover have "\<forall>b \<in> set (blocks two_blocks). rv64_relax.branches_near_end b"
    by (auto simp: two_blocks_def rv64_relax.branches_near_end_def rv64_relax.branch_to_def less_Suc_eq
        rv64_relax.count_branches_def rv64_get_branch_target_def rv64_size_in_bytes_def)
  ultimately show ?thesis using rv64_relax_branches_correct by blast
qed

text \<open>C15. The passes that end \<open>lower_function\<close> (peephole, relaxation, fallthrough, each behind its
  flag) return on RV32 and together leave every run of the function as it was, for a function whose
  block ids are the numbers below the number of its blocks, whose blocks are closed by a jump or a
  return, whose successors and entry are blocks of the function and, when relaxation is on, whose
  branches stand near enough to the end of their block (after the peephole pass, if that is on) for the
  springboards that follow the block to be in reach.\<close>

theorem rv32_late_passes_correct:
  assumes "code_wf rv32_target (blocks mf)" and "entry mf < length (blocks mf)"
    and "need_branch_relaxation opts \<Longrightarrow> \<forall>b \<in> set (blocks
      (if opt_peephole opts then peephole_optimize rv32_target mf else mf)). rv32_relax.branches_near_end b"
  shows "\<exists>mf'. late_passes opts rv32_target mf = Some mf' \<and>
    (\<forall>st r. fn_runs (rv32_step call E fl) mf' st r \<longleftrightarrow> fn_runs (rv32_step call E fl) mf st r)"
  by (rule rv32_relax.late_passes_correct [OF assms]) simp_all

theorem rv32_late_passes_correct_witness:
  "\<exists>mf'. late_passes \<lparr>lower_function_bodies = True, need_branch_relaxation = True, opt_fallthroughs = True,
       opt_peephole = True\<rparr> rv32_target
     ((empty_machine_function ''f'')\<lparr>blocks := [\<lparr>mb_id = 0, mb_name = ''.bb0'', instructions =
       [rv32_inst.Mv (Physical rv32_reg.A0) (Physical rv32_reg.A0), rv32_inst.Ret]\<rparr>]\<rparr>) = Some mf'"
proof -
  let ?mf = "(empty_machine_function ''f'')\<lparr>blocks := [\<lparr>mb_id = 0, mb_name = ''.bb0'', instructions =
       [rv32_inst.Mv (Physical rv32_reg.A0) (Physical rv32_reg.A0), rv32_inst.Ret]\<rparr>]\<rparr>
     :: (rv32_reg, rv32_inst) machine_function"
  have wf: "code_wf rv32_target (blocks ?mf)"
    by (simp add: code_wf_def closed_insts_def succs_below_def rv32_is_ret_def rv32_get_successors_def
        lessThan_Suc)
  have entry: "entry ?mf < length (blocks ?mf)" by (simp add: empty_machine_function_def)
  have near: "\<forall>b \<in> set (blocks (peephole_optimize rv32_target ?mf)). rv32_relax.branches_near_end b"
    by (simp add: peephole_optimize_def is_self_move_def rv32_as_move_def rv32_relax.branches_near_end_def
        rv32_relax.branch_to_def rv32_get_branch_target_def)
  from rv32_late_passes_correct [OF wf entry, of "\<lparr>lower_function_bodies = True, need_branch_relaxation = True,
      opt_fallthroughs = True, opt_peephole = True\<rparr>" "\<lambda>_ _ st. Some st" blank_env far_frame] near
  show ?thesis by auto
qed

end
