(* ===== verification/Liveness.thy ===== *)
theory Liveness
  imports Mir "HOL-Library.While_Combinator"
begin

text \<open>
  Liveness of registers: \<open>LivenessInfo\<close> of \<open>src/src/mir.rs\<close>, \<open>compute_cfg\<close> and
  \<open>liveness_analysis\<close> of \<open>src/src/mir/lower.rs\<close>.  The four maps from blocks to register sets are
  read with an empty default everywhere, so they are functions here; \<open>live_after\<close> is indexed and
  panics where it has no entry, so it is a map.

  The analysis iterates until a round changes nothing.  It is a \<open>while_option\<close> here; it is shown to
  return, and its result to satisfy the data-flow equations.
\<close>

section \<open>The analysis\<close>

record 'r liveness_info =
  li_uses :: "block_id \<Rightarrow> 'r register set"
  li_defs :: "block_id \<Rightarrow> 'r register set"
  live_in :: "block_id \<Rightarrow> 'r register set"
  live_out :: "block_id \<Rightarrow> 'r register set"
  live_after :: "block_id \<times> nat \<rightharpoonup> 'r register set"

text \<open>The fold of \<open>LivenessInfo::new\<close>: registers read before any write, and registers written.\<close>

definition uses_defs_step ::
  "('r, 'i, 'z) target_inst_scheme \<Rightarrow> 'r register set \<times> 'r register set \<Rightarrow> 'i \<Rightarrow>
     'r register set \<times> 'r register set" where
  "uses_defs_step T acc inst = (case acc of (uses, defs) \<Rightarrow>
     (uses \<union> set (filter (\<lambda>r. r \<notin> defs) (use_regs T inst)), defs \<union> set (def_regs T inst)))"

definition block_uses_defs ::
  "('r, 'i, 'z) target_inst_scheme \<Rightarrow> 'i list \<Rightarrow> 'r register set \<times> 'r register set" where
  "block_uses_defs T is = foldl (uses_defs_step T) ({}, {}) is"

definition liveness_insert ::
  "('r, 'i, 'z) target_inst_scheme \<Rightarrow> 'r liveness_info \<Rightarrow> 'i machine_block \<Rightarrow> 'r liveness_info" where
  "liveness_insert T li b =
     (let ud = block_uses_defs T (instructions b)
      in li\<lparr>li_uses := (li_uses li)(mb_id b := fst ud), li_defs := (li_defs li)(mb_id b := snd ud)\<rparr>)"

definition liveness_new ::
  "('r, 'i, 'z) target_inst_scheme \<Rightarrow> 'i machine_block list \<Rightarrow> 'r liveness_info" where
  "liveness_new T bs = foldl (liveness_insert T)
     \<lparr>li_uses = (\<lambda>_. {}), li_defs = (\<lambda>_. {}), live_in = (\<lambda>_. {}), live_out = (\<lambda>_. {}),
      live_after = Map.empty\<rparr> bs"

text \<open>\<open>compute_cfg\<close>: the successors named by the terminators at the end of each block, read backwards.
  An indirect jump panics.\<close>

fun term_succs :: "('r, 'i, 'z) target_inst_scheme \<Rightarrow> 'i list \<Rightarrow> block_id set option" where
  "term_succs T [] = Some {}"
| "term_succs T (inst # rest) =
     (if \<not> is_terminator T inst then Some {}
      else do { ss \<leftarrow> get_successors T inst; others \<leftarrow> term_succs T rest; Some (set ss \<union> others) })"

fun compute_cfg ::
  "('r, 'i, 'z) target_inst_scheme \<Rightarrow> 'i machine_block list \<Rightarrow> (block_id \<rightharpoonup> block_id set) option" where
  "compute_cfg T [] = Some Map.empty"
| "compute_cfg T (b # bs) = do {
     ss \<leftarrow> term_succs T (rev (instructions b));
     cfg \<leftarrow> compute_cfg T bs;
     Some (cfg(mb_id b \<mapsto> ss \<union> (case cfg (mb_id b) of None \<Rightarrow> {} | Some others \<Rightarrow> others))) }"

definition update_livein :: "'r liveness_info \<Rightarrow> block_id \<Rightarrow> bool \<times> 'r liveness_info" where
  "update_livein li b =
     (let new_live_in = li_uses li b \<union> (live_out li b - li_defs li b)
      in if new_live_in \<noteq> live_in li b
         then (True, li\<lparr>live_in := (live_in li)(b := new_live_in)\<rparr>) else (False, li))"

definition update_liveout ::
  "'r liveness_info \<Rightarrow> block_id \<Rightarrow> block_id set \<Rightarrow> bool \<times> 'r liveness_info" where
  "update_liveout li b succs =
     (let new_live_out = (\<Union>s \<in> succs. live_in li s)
      in if new_live_out \<noteq> live_out li b
         then (True, li\<lparr>live_out := (live_out li)(b := new_live_out)\<rparr>) else (False, li))"

text \<open>The body of the inner loop, and the inner loop over the reversed blocks.\<close>

definition live_visit ::
  "(block_id \<Rightarrow> block_id set) \<Rightarrow> block_id \<Rightarrow> bool \<times> 'r liveness_info \<Rightarrow> bool \<times> 'r liveness_info" where
  "live_visit succs b acc = (case acc of (changed, li) \<Rightarrow>
     (let (c1, li1) = update_liveout li b (succs b); (c2, li2) = update_livein li1 b
      in (changed \<or> c1 \<or> c2, li2)))"

definition live_round ::
  "(block_id \<Rightarrow> block_id set) \<Rightarrow> block_id list \<Rightarrow> 'r liveness_info \<Rightarrow> bool \<times> 'r liveness_info" where
  "live_round succs ids li = fold (live_visit succs) (rev ids) (False, li)"

definition live_loop ::
  "(block_id \<Rightarrow> block_id set) \<Rightarrow> block_id list \<Rightarrow> 'r liveness_info \<Rightarrow> (bool \<times> 'r liveness_info) option" where
  "live_loop succs ids li =
     while_option (\<lambda>(changed, _). changed) (\<lambda>(_, li). live_round succs ids li) (True, li)"

text \<open>\<open>compute_live_after\<close>: from the end of the block, the set after each instruction; the result lists
  them in the order of the instructions, with the set before the first.\<close>

definition live_before :: "('r, 'i, 'z) target_inst_scheme \<Rightarrow> 'i \<Rightarrow> 'r register set \<Rightarrow> 'r register set" where
  "live_before T inst live = set (use_regs T inst) \<union> (live - set (def_regs T inst))"

fun live_scan ::
  "('r, 'i, 'z) target_inst_scheme \<Rightarrow> 'i list \<Rightarrow> 'r register set \<Rightarrow>
     'r register set list \<times> 'r register set" where
  "live_scan T [] live = ([], live)"
| "live_scan T (inst # rest) live =
     (case live_scan T rest live of (afters, after) \<Rightarrow> (after # afters, live_before T inst after))"

definition insert_live_after ::
  "('r, 'i, 'z) target_inst_scheme \<Rightarrow> 'r liveness_info \<Rightarrow> 'i machine_block \<Rightarrow> 'r liveness_info" where
  "insert_live_after T li b =
     (let afters = fst (live_scan T (instructions b) (live_out li (mb_id b)))
      in li\<lparr>live_after := (\<lambda>loc. if fst loc = mb_id b \<and> snd loc < length afters
          then Some (afters ! snd loc) else live_after li loc)\<rparr>)"

definition compute_live_after ::
  "('r, 'i, 'z) target_inst_scheme \<Rightarrow> 'i machine_block list \<Rightarrow> 'r liveness_info \<Rightarrow> 'r liveness_info" where
  "compute_live_after T bs li = foldl (insert_live_after T) li bs"

definition get_live_after :: "'r liveness_info \<Rightarrow> block_id \<Rightarrow> nat \<Rightarrow> 'r register set option" where
  "get_live_after li b inst_index = live_after li (b, inst_index)"

definition liveness_analysis ::
  "('r, 'i, 'z) target_inst_scheme \<Rightarrow> ('r, 'i) machine_function \<Rightarrow> 'r liveness_info option" where
  "liveness_analysis T mf = do {
     let li = liveness_new T (blocks mf);
     cfg \<leftarrow> compute_cfg T (blocks mf);
     (changed, li1) \<leftarrow> live_loop (\<lambda>b. case cfg b of None \<Rightarrow> {} | Some ss \<Rightarrow> ss)
        (map mb_id (blocks mf)) li;
     Some (compute_live_after T (blocks mf) li1) }"

section \<open>Block summaries\<close>

text \<open>The live set before a list of instructions.\<close>

definition live_at :: "('r, 'i, 'z) target_inst_scheme \<Rightarrow> 'i list \<Rightarrow> 'r register set \<Rightarrow> 'r register set" where
  "live_at T is live = foldr (live_before T) is live"

lemma live_at_simps [simp]:
  "live_at T [] live = live" "live_at T (i # is) live = live_before T i (live_at T is live)"
  by (simp_all add: live_at_def)

lemma live_scan_at: "snd (live_scan T is live) = live_at T is live"
  by (induction "is") (auto split: prod.splits)

lemma live_scan_length: "length (fst (live_scan T is live)) = length is"
  by (induction "is") (auto split: prod.splits)

lemma live_scan_nth:
  "n < length is \<Longrightarrow> fst (live_scan T is live) ! n = live_at T (drop (Suc n) is) live"
proof (induction "is" arbitrary: n)
  case (Cons i rest)
  obtain afters after where s: "live_scan T rest live = (afters, after)" by fastforce
  show ?case
  proof (cases n)
    case 0
    with s live_scan_at [of T rest live] show ?thesis by simp
  next
    case (Suc m)
    with s Cons show ?thesis by simp
  qed
qed simp

lemma uses_defs_fold:
  "foldl (uses_defs_step T) (U, D) is = (U', D') \<Longrightarrow>
     U \<union> (live_at T is live - D) = U' \<union> (live - D')"
proof (induction "is" arbitrary: U D)
  case (Cons i rest)
  let ?U = "U \<union> {r \<in> set (use_regs T i). r \<notin> D}" and ?D = "D \<union> set (def_regs T i)"
  have "foldl (uses_defs_step T) (?U, ?D) rest = (U', D')"
    using Cons.prems by (simp add: uses_defs_step_def [of T "(U, D)"])
  from Cons.IH [OF this] show ?case by (simp add: live_before_def) blast
qed simp

text \<open>The transfer of a whole block is the composition of its instructions' transfers.\<close>

lemma block_uses_defs_live:
  "block_uses_defs T is = (uses, defs) \<Longrightarrow> uses \<union> (live - defs) = live_at T is live"
  using uses_defs_fold [of T "{}" "{}" "is" uses defs live] by (simp add: block_uses_defs_def)

lemma liveness_insert_fields [simp]:
  "live_in (liveness_insert T li b) = live_in li" "live_out (liveness_insert T li b) = live_out li"
  "live_after (liveness_insert T li b) = live_after li"
  "li_uses (liveness_insert T li b) = (li_uses li)(mb_id b := fst (block_uses_defs T (instructions b)))"
  "li_defs (liveness_insert T li b) = (li_defs li)(mb_id b := snd (block_uses_defs T (instructions b)))"
  by (simp_all add: liveness_insert_def Let_def)

lemma liveness_fold_fields:
  "live_in (foldl (liveness_insert T) li bs) = live_in li"
  "live_out (foldl (liveness_insert T) li bs) = live_out li"
  "live_after (foldl (liveness_insert T) li bs) = live_after li"
  "x \<notin> mb_id ` set bs \<Longrightarrow> li_uses (foldl (liveness_insert T) li bs) x = li_uses li x"
  "x \<notin> mb_id ` set bs \<Longrightarrow> li_defs (foldl (liveness_insert T) li bs) x = li_defs li x"
  by (induction bs arbitrary: li) auto

lemma liveness_fold_block:
  "distinct (map mb_id bs) \<Longrightarrow> b \<in> set bs \<Longrightarrow>
     li_uses (foldl (liveness_insert T) li bs) (mb_id b) = fst (block_uses_defs T (instructions b)) \<and>
     li_defs (foldl (liveness_insert T) li bs) (mb_id b) = snd (block_uses_defs T (instructions b))"
proof (induction bs arbitrary: li)
  case (Cons c bs)
  show ?case
  proof (cases "b = c")
    case True
    with Cons.prems(1) have "mb_id b \<notin> mb_id ` set bs" by simp
    with True show ?thesis by (simp add: liveness_fold_fields)
  next
    case False
    with Cons show ?thesis by simp
  qed
qed simp

lemma liveness_new_fields:
  "live_in (liveness_new T bs) = (\<lambda>_. {})" "live_out (liveness_new T bs) = (\<lambda>_. {})"
  "live_after (liveness_new T bs) = Map.empty"
  "x \<notin> mb_id ` set bs \<Longrightarrow> li_uses (liveness_new T bs) x = {}"
  by (simp_all add: liveness_new_def liveness_fold_fields)

lemma liveness_new_block:
  "distinct (map mb_id bs) \<Longrightarrow> b \<in> set bs \<Longrightarrow>
     li_uses (liveness_new T bs) (mb_id b) = fst (block_uses_defs T (instructions b)) \<and>
     li_defs (liveness_new T bs) (mb_id b) = snd (block_uses_defs T (instructions b))"
  by (simp add: liveness_new_def liveness_fold_block)

section \<open>Termination and the fixpoint\<close>

text \<open>The sets only grow: each is below what its equation asks for.\<close>

definition live_below :: "(block_id \<Rightarrow> block_id set) \<Rightarrow> 'r liveness_info \<Rightarrow> bool" where
  "live_below succs li \<longleftrightarrow> (\<forall>b. live_out li b \<subseteq> (\<Union>s \<in> succs b. live_in li s) \<and>
     live_in li b \<subseteq> li_uses li b \<union> (live_out li b - li_defs li b))"

definition live_equations :: "(block_id \<Rightarrow> block_id set) \<Rightarrow> 'r liveness_info \<Rightarrow> block_id \<Rightarrow> bool" where
  "live_equations succs li b \<longleftrightarrow> live_out li b = (\<Union>s \<in> succs b. live_in li s) \<and>
     live_in li b = li_uses li b \<union> (live_out li b - li_defs li b)"

definition live_le :: "'r liveness_info \<Rightarrow> 'r liveness_info \<Rightarrow> bool" where
  "live_le li li' \<longleftrightarrow> li_uses li' = li_uses li \<and> li_defs li' = li_defs li \<and> live_after li' = live_after li \<and>
     (\<forall>b. live_in li b \<subseteq> live_in li' b \<and> live_out li b \<subseteq> live_out li' b)"

lemma live_le_refl: "live_le li li" by (simp add: live_le_def)

lemma live_le_trans: "live_le a b \<Longrightarrow> live_le b c \<Longrightarrow> live_le a c"
  unfolding live_le_def by (metis subset_trans)

lemma live_belowD:
  assumes "live_below succs li"
  shows "live_out li b \<subseteq> (\<Union>s \<in> succs b. live_in li s)"
    "live_in li b \<subseteq> li_uses li b \<union> (live_out li b - li_defs li b)"
  using assms by (simp_all add: live_below_def)

lemma raise_live_out:
  assumes below: "live_below succs li" and "live_out li b \<subseteq> N" and "N \<subseteq> (\<Union>s \<in> succs b. live_in li s)"
  shows "live_below succs (li\<lparr>live_out := (live_out li)(b := N)\<rparr>)"
    "live_le li (li\<lparr>live_out := (live_out li)(b := N)\<rparr>)"
proof -
  show "live_below succs (li\<lparr>live_out := (live_out li)(b := N)\<rparr>)"
    unfolding live_below_def
  proof (intro allI conjI)
    fix x
    let ?li = "li\<lparr>live_out := (live_out li)(b := N)\<rparr>"
    show "live_out ?li x \<subseteq> (\<Union>s \<in> succs x. live_in ?li s)"
      using live_belowD(1) [OF below, of x] assms(3) by simp
    show "live_in ?li x \<subseteq> li_uses ?li x \<union> (live_out ?li x - li_defs ?li x)"
      using live_belowD(2) [OF below, of x] assms(2) by (cases "x = b") auto
  qed
  show "live_le li (li\<lparr>live_out := (live_out li)(b := N)\<rparr>)"
    using assms(2) by (simp add: live_le_def)
qed

lemma raise_live_in:
  assumes below: "live_below succs li" and "live_in li b \<subseteq> N"
    and "N \<subseteq> li_uses li b \<union> (live_out li b - li_defs li b)"
  shows "live_below succs (li\<lparr>live_in := (live_in li)(b := N)\<rparr>)"
    "live_le li (li\<lparr>live_in := (live_in li)(b := N)\<rparr>)"
proof -
  show "live_below succs (li\<lparr>live_in := (live_in li)(b := N)\<rparr>)"
    unfolding live_below_def
  proof (intro allI conjI)
    fix x
    let ?li = "li\<lparr>live_in := (live_in li)(b := N)\<rparr>"
    have "live_in li s \<subseteq> live_in ?li s" for s using assms(2) by simp
    then show "live_out ?li x \<subseteq> (\<Union>s \<in> succs x. live_in ?li s)"
      using live_belowD(1) [OF below, of x] by fastforce
    show "live_in ?li x \<subseteq> li_uses ?li x \<union> (live_out ?li x - li_defs ?li x)"
      using live_belowD(2) [OF below, of x] assms(3) by simp
  qed
  show "live_le li (li\<lparr>live_in := (live_in li)(b := N)\<rparr>)"
    using assms(2) by (simp add: live_le_def)
qed

lemma update_liveout_below:
  assumes below: "live_below succs li" and upd: "update_liveout li b (succs b) = (c, li')"
  shows "live_below succs li'" "live_le li li'"
    "\<not> c \<Longrightarrow> li' = li \<and> live_out li b = (\<Union>s \<in> succs b. live_in li s)"
    "c \<Longrightarrow> live_out li b \<subset> live_out li' b"
proof -
  let ?N = "\<Union>s \<in> succs b. live_in li s"
  have sub: "live_out li b \<subseteq> ?N" by (rule live_belowD(1) [OF below])
  note raised = raise_live_out [OF below sub order.refl]
  have "live_below succs li' \<and> live_le li li' \<and> (\<not> c \<longrightarrow> li' = li \<and> live_out li b = ?N) \<and>
      (c \<longrightarrow> live_out li b \<subset> live_out li' b)"
  proof (cases "?N = live_out li b")
    case True
    then have "(c, li') = (False, li)" using upd unfolding update_liveout_def Let_def by simp
    with below True show ?thesis by (simp add: live_le_refl)
  next
    case False
    then have res: "(c, li') = (True, li\<lparr>live_out := (live_out li)(b := ?N)\<rparr>)"
      using upd unfolding update_liveout_def Let_def by simp
    then have "live_out li' b = ?N" by simp
    then have "live_out li b \<subset> live_out li' b" using sub False by (simp add: psubset_eq)
    with raised res show ?thesis by simp
  qed
  then show "live_below succs li'" "live_le li li'" "\<not> c \<Longrightarrow> li' = li \<and> live_out li b = ?N"
    "c \<Longrightarrow> live_out li b \<subset> live_out li' b" by simp_all
qed

lemma update_livein_below:
  assumes below: "live_below succs li" and upd: "update_livein li b = (c, li')"
  shows "live_below succs li'" "live_le li li'"
    "\<not> c \<Longrightarrow> li' = li \<and> live_in li b = li_uses li b \<union> (live_out li b - li_defs li b)"
    "c \<Longrightarrow> live_in li b \<subset> live_in li' b"
proof -
  let ?N = "li_uses li b \<union> (live_out li b - li_defs li b)"
  have sub: "live_in li b \<subseteq> ?N" by (rule live_belowD(2) [OF below])
  note raised = raise_live_in [OF below sub order.refl]
  have "live_below succs li' \<and> live_le li li' \<and> (\<not> c \<longrightarrow> li' = li \<and> live_in li b = ?N) \<and>
      (c \<longrightarrow> live_in li b \<subset> live_in li' b)"
  proof (cases "?N = live_in li b")
    case True
    then have "(c, li') = (False, li)" using upd unfolding update_livein_def Let_def by simp
    with below True show ?thesis by (simp add: live_le_refl)
  next
    case False
    then have res: "(c, li') = (True, li\<lparr>live_in := (live_in li)(b := ?N)\<rparr>)"
      using upd unfolding update_livein_def Let_def by simp
    then have "live_in li' b = ?N" by simp
    then have "live_in li b \<subset> live_in li' b" using sub False by (simp add: psubset_eq)
    with raised res show ?thesis by simp
  qed
  then show "live_below succs li'" "live_le li li'" "\<not> c \<Longrightarrow> li' = li \<and> live_in li b = ?N"
    "c \<Longrightarrow> live_in li b \<subset> live_in li' b" by simp_all
qed

text \<open>The size that bounds the loop: what is missing from the sets of the blocks, all of which stay
  inside a finite set of registers.\<close>

definition live_bounded :: "'r register set \<Rightarrow> 'r liveness_info \<Rightarrow> bool" where
  "live_bounded U li \<longleftrightarrow> (\<forall>b. live_in li b \<subseteq> U \<and> live_out li b \<subseteq> U \<and> li_uses li b \<subseteq> U)"

definition live_size :: "block_id set \<Rightarrow> 'r liveness_info \<Rightarrow> nat" where
  "live_size B li = (\<Sum>b \<in> B. card (live_in li b) + card (live_out li b))"

text \<open>More generally, every solution of the data-flow inequations bounds every state the iteration
  reaches.\<close>

definition live_within ::
  "(block_id \<Rightarrow> block_id set) \<Rightarrow> (block_id \<Rightarrow> 'r register set) \<Rightarrow> (block_id \<Rightarrow> 'r register set) \<Rightarrow>
     'r liveness_info \<Rightarrow> bool" where
  "live_within succs LI LO li \<longleftrightarrow>
     (\<forall>b. (\<Union>s \<in> succs b. LI s) \<subseteq> LO b \<and> li_uses li b \<union> (LO b - li_defs li b) \<subseteq> LI b \<and>
        live_in li b \<subseteq> LI b \<and> live_out li b \<subseteq> LO b)"

lemma live_bounded_within: "live_bounded U li \<longleftrightarrow> live_within succs (\<lambda>_. U) (\<lambda>_. U) li"
  by (auto simp: live_bounded_def live_within_def)

lemma update_liveout_within:
  assumes within: "live_within succs LI LO li" and upd: "update_liveout li b (succs b) = (c, li')"
  shows "live_within succs LI LO li'"
proof (cases "(\<Union>s \<in> succs b. live_in li s) = live_out li b")
  case True
  then have "(c, li') = (False, li)" using upd unfolding update_liveout_def Let_def by simp
  with within show ?thesis by simp
next
  case False
  then have "(c, li') = (True, li\<lparr>live_out := (live_out li)(b := (\<Union>s \<in> succs b. live_in li s))\<rparr>)"
    using upd unfolding update_liveout_def Let_def by simp
  moreover have "(\<Union>s \<in> succs b. live_in li s) \<subseteq> LO b"
    using within unfolding live_within_def by blast
  ultimately show ?thesis using within by (simp add: live_within_def)
qed

lemma update_livein_within:
  assumes within: "live_within succs LI LO li" and upd: "update_livein li b = (c, li')"
  shows "live_within succs LI LO li'"
proof (cases "li_uses li b \<union> (live_out li b - li_defs li b) = live_in li b")
  case True
  then have "(c, li') = (False, li)" using upd unfolding update_livein_def Let_def by simp
  with within show ?thesis by simp
next
  case False
  then have "(c, li') =
      (True, li\<lparr>live_in := (live_in li)(b := li_uses li b \<union> (live_out li b - li_defs li b))\<rparr>)"
    using upd unfolding update_livein_def Let_def by simp
  moreover have "li_uses li b \<union> (live_out li b - li_defs li b) \<subseteq> LI b"
    using within unfolding live_within_def by blast
  ultimately show ?thesis using within by (simp add: live_within_def)
qed

lemma live_visit_facts:
  assumes "live_below succs li" and "live_visit succs b (c, li) = (c', li')"
  shows "live_below succs li'" "live_le li li'" "c' \<longleftrightarrow> c \<or> li' \<noteq> li"
    "li' = li \<Longrightarrow> live_equations succs li b"
    "li' \<noteq> li \<Longrightarrow> live_in li b \<subset> live_in li' b \<or> live_out li b \<subset> live_out li' b"
    "live_within succs LI LO li \<Longrightarrow> live_within succs LI LO li'"
proof -
  obtain c1 li1 where 1: "update_liveout li b (succs b) = (c1, li1)" by fastforce
  obtain c2 li2 where 2: "update_livein li1 b = (c2, li2)" by fastforce
  have res: "c' = (c \<or> c1 \<or> c2)" "li' = li2"
    using assms(2) 1 2 by (auto simp: live_visit_def)
  note O = update_liveout_below [OF assms(1) 1]
  note I = update_livein_below [OF O(1) 2]
  show "live_below succs li'" "live_le li li'" using I(1) live_le_trans [OF O(2) I(2)] res by simp_all
  have strict: "live_in li b \<subset> live_in li' b \<or> live_out li b \<subset> live_out li' b" if "c1 \<or> c2"
    using that O(2,4) I(2,4) unfolding res live_le_def by blast
  then have changed: "c1 \<or> c2 \<longleftrightarrow> li' \<noteq> li" using O(3) I(3) res by auto
  then show "c' \<longleftrightarrow> c \<or> li' \<noteq> li" using res by auto
  show "li' \<noteq> li \<Longrightarrow> live_in li b \<subset> live_in li' b \<or> live_out li b \<subset> live_out li' b"
    using strict changed by blast
  show "live_equations succs li b" if "li' = li"
    using that changed O(3) I(3) by (auto simp: live_equations_def)
  show "live_within succs LI LO li \<Longrightarrow> live_within succs LI LO li'"
    using update_liveout_within [where succs = succs, OF _ 1] update_livein_within [OF _ 2] res by blast
qed

lemma live_le_size:
  assumes "live_le li li'" and "live_bounded U li'" and "finite U" and "finite B"
  shows "live_size B li \<le> live_size B li'"
    "b \<in> B \<Longrightarrow> live_in li b \<subset> live_in li' b \<or> live_out li b \<subset> live_out li' b \<Longrightarrow>
       live_size B li < live_size B li'"
proof -
  have fin: "finite (live_in li' x)" "finite (live_out li' x)" for x
    using assms(2,3) unfolding live_bounded_def by (meson finite_subset)+
  have le: "card (live_in li x) \<le> card (live_in li' x)" "card (live_out li x) \<le> card (live_out li' x)" for x
    using assms(1) fin unfolding live_le_def by (simp_all add: card_mono)
  show "live_size B li \<le> live_size B li'"
    unfolding live_size_def by (intro sum_mono add_mono le)
  show "live_size B li < live_size B li'"
    if "b \<in> B" "live_in li b \<subset> live_in li' b \<or> live_out li b \<subset> live_out li' b"
  proof -
    have "card (live_in li b) < card (live_in li' b) \<or> card (live_out li b) < card (live_out li' b)"
      using that(2) psubset_card_mono [OF fin(1)] psubset_card_mono [OF fin(2)] by blast
    with le [of b] have "card (live_in li b) + card (live_out li b) < card (live_in li' b) + card (live_out li' b)"
      by linarith
    with that(1) assms(4) show ?thesis
      unfolding live_size_def by (intro sum_strict_mono_ex1 ballI add_mono le) auto
  qed
qed

text \<open>A whole round.  Either it reports no change, has made none, and every visited block satisfies
  its equations, or it reports a change and a set of a visited block has grown.\<close>

lemma live_fold_facts:
  assumes "live_below succs li" and "live_bounded U li" and "finite U" and "finite B" and "set bs \<subseteq> B"
    and "fold (live_visit succs) bs (c, li) = (c', li')"
  shows "live_below succs li' \<and> live_le li li' \<and> live_bounded U li' \<and>
    (\<forall>LI LO. live_within succs LI LO li \<longrightarrow> live_within succs LI LO li') \<and>
    ((c' = c \<and> li' = li \<and> (\<forall>b \<in> set bs. live_equations succs li b)) \<or>
     (c' \<and> live_size B li < live_size B li'))"
  using assms
proof (induction bs arbitrary: c li)
  case Nil
  then show ?case by (simp add: live_le_refl)
next
  case (Cons b bs)
  obtain c1 li1 where v: "live_visit succs b (c, li) = (c1, li1)" by fastforce
  note F = live_visit_facts [OF Cons.prems(1) v]
  have bound1: "live_bounded U li1"
    using F(6) Cons.prems(2) unfolding live_bounded_within [where succs = succs] .
  have rest: "live_below succs li' \<and> live_le li1 li' \<and> live_bounded U li' \<and>
    (\<forall>LI LO. live_within succs LI LO li1 \<longrightarrow> live_within succs LI LO li') \<and>
    ((c' = c1 \<and> li' = li1 \<and> (\<forall>b \<in> set bs. live_equations succs li1 b)) \<or>
     (c' \<and> live_size B li1 < live_size B li'))"
    by (rule Cons.IH) (use Cons.prems v F(1) bound1 in auto)
  then have le: "live_le li li'" "\<forall>LI LO. live_within succs LI LO li \<longrightarrow> live_within succs LI LO li'"
    using live_le_trans [OF F(2)] F(6) by blast+
  show ?case
  proof (cases "li1 = li")
    case True
    then have "c1 = c" "live_equations succs li b" using F(3,4) by simp_all
    with rest le True show ?thesis by auto
  next
    case False
    then have "c1" using F(3) by simp
    have "live_size B li < live_size B li1"
      using live_le_size(2) [OF F(2) bound1 Cons.prems(3,4), of b] F(5) False Cons.prems(5) by simp
    then have "c' \<and> live_size B li < live_size B li'" using rest \<open>c1\<close> by auto
    with rest le show ?thesis by blast
  qed
qed

lemma live_size_bound:
  assumes "live_bounded U li" and "finite U" and "finite B"
  shows "live_size B li \<le> card B * (2 * card U)"
proof -
  have "card (live_in li b) + card (live_out li b) \<le> 2 * card U" for b
    using assms(1,2) card_mono [of U "live_in li b"] card_mono [of U "live_out li b"]
    unfolding live_bounded_def by (smt (verit) add_mono mult_2)
  then have "live_size B li \<le> (\<Sum>b \<in> B. 2 * card U)"
    unfolding live_size_def by (intro sum_mono) simp
  then show ?thesis by simp
qed

text \<open>The iteration returns; its result satisfies the equations of every block and is below every
  other solution.\<close>

lemma live_loop_fixpoint:
  assumes "live_below succs li" and "live_bounded U li" and "finite U"
  shows "\<exists>li'. live_loop succs ids li = Some (False, li') \<and> live_le li li' \<and>
    (\<forall>LI LO. live_within succs LI LO li \<longrightarrow> live_within succs LI LO li') \<and>
    (\<forall>b \<in> set ids. live_equations succs li' b)"
proof -
  define P where "P = (\<lambda>(c :: bool, l). live_below succs l \<and> live_bounded U l \<and> live_le li l \<and>
    (\<forall>LI LO. live_within succs LI LO li \<longrightarrow> live_within succs LI LO l) \<and>
    (\<not> c \<longrightarrow> (\<forall>b \<in> set ids. live_equations succs l b)))"
  define m where "m = (\<lambda>(c :: bool, l :: 'a liveness_info).
    (if c then 1 else 0) + (card (set ids) * (2 * card U) - live_size (set ids) l))"
  have step: "P (live_round succs ids l) \<and> m (live_round succs ids l) < m (c, l)"
    if p: "P (c, l)" and c: "c" for c l
  proof -
    obtain c' l' where r: "live_round succs ids l = (c', l')" by fastforce
    have pl: "live_below succs l" "live_bounded U l" "live_le li l"
      "\<forall>LI LO. live_within succs LI LO li \<longrightarrow> live_within succs LI LO l"
      using p by (simp_all add: P_def)
    have F: "live_below succs l' \<and> live_le l l' \<and> live_bounded U l' \<and>
      (\<forall>LI LO. live_within succs LI LO l \<longrightarrow> live_within succs LI LO l') \<and>
      ((\<not> c' \<and> l' = l \<and> (\<forall>b \<in> set ids. live_equations succs l b)) \<or>
       (c' \<and> live_size (set ids) l < live_size (set ids) l'))"
      using live_fold_facts [OF pl(1,2) assms(3) finite_set [of ids], of "rev ids" False c' l'] r
      by (simp add: live_round_def)
    then have "live_size (set ids) l' \<le> card (set ids) * (2 * card U)"
      using live_size_bound [OF _ assms(3) finite_set] by blast
    with F live_le_trans [OF pl(3)] pl(4) c show ?thesis unfolding r P_def m_def by auto
  qed
  have init: "P (True, li)" using assms by (simp add: P_def live_le_refl)
  have "\<exists>t. live_loop succs ids li = Some t"
    unfolding live_loop_def
    by (rule measure_while_option_Some [where P = P and f = m])
      (use step init in \<open>auto split: prod.splits\<close>)
  then obtain c' li' where res: "live_loop succs ids li = Some (c', li')" by fastforce
  have "P (c', li')"
    using res unfolding live_loop_def
    by (rule while_option_rule [where P = P, rotated]) (use step init in \<open>auto split: prod.splits\<close>)
  moreover have "\<not> c'"
    using while_option_stop [OF res [unfolded live_loop_def]] by simp
  ultimately show ?thesis using res by (auto simp: P_def)
qed

section \<open>The result of the analysis\<close>

lemma compute_cfg_other: "compute_cfg T bs = Some cfg \<Longrightarrow> x \<notin> mb_id ` set bs \<Longrightarrow> cfg x = None"
  by (induction bs arbitrary: cfg) (auto simp: Option.bind_eq_Some_conv)

lemma compute_cfg_block:
  assumes "compute_cfg T bs = Some cfg" and "distinct (map mb_id bs)" and "b \<in> set bs"
  shows "\<exists>ss. term_succs T (rev (instructions b)) = Some ss \<and> cfg (mb_id b) = Some ss"
  using assms
proof (induction bs arbitrary: cfg)
    case (Cons c bs)
    then obtain ss cfg' where 1: "term_succs T (rev (instructions c)) = Some ss"
      "compute_cfg T bs = Some cfg'"
      "cfg = cfg'(mb_id c \<mapsto> ss \<union> (case cfg' (mb_id c) of None \<Rightarrow> {} | Some others \<Rightarrow> others))"
      by (auto simp: Option.bind_eq_Some_conv)
    have none: "cfg' (mb_id c) = None" using compute_cfg_other [OF 1(2)] Cons.prems(2) by simp
    show ?case
    proof (cases "b = c")
      case True
      with 1 none show ?thesis by simp
    next
      case False
      with Cons.prems(2,3) have b: "b \<in> set bs" by simp
      then have "mb_id b \<in> mb_id ` set bs" by simp
      with Cons.prems(2) have d: "distinct (map mb_id bs)" "mb_id b \<noteq> mb_id c" by auto
      from Cons.IH [OF 1(2) d(1) b] d(2) 1(3) show ?thesis by simp
    qed
qed simp

lemma insert_live_after_fields [simp]:
  "live_in (insert_live_after T li b) = live_in li" "live_out (insert_live_after T li b) = live_out li"
  "li_uses (insert_live_after T li b) = li_uses li" "li_defs (insert_live_after T li b) = li_defs li"
  by (simp_all add: insert_live_after_def Let_def)

lemma insert_live_after_lookup:
  "live_after (insert_live_after T li b) (x, n) =
     (if x = mb_id b \<and> n < length (instructions b)
      then Some (live_at T (drop (Suc n) (instructions b)) (live_out li x)) else live_after li (x, n))"
  by (auto simp: insert_live_after_def Let_def live_scan_length live_scan_nth)

lemma live_after_fold_fields [simp]:
  "live_in (foldl (insert_live_after T) li bs) = live_in li"
  "live_out (foldl (insert_live_after T) li bs) = live_out li"
  "x \<notin> mb_id ` set bs \<Longrightarrow> live_after (foldl (insert_live_after T) li bs) (x, n) = live_after li (x, n)"
  by (induction bs arbitrary: li) (auto simp: insert_live_after_lookup)

lemma live_after_fold_block:
  "distinct (map mb_id bs) \<Longrightarrow> b \<in> set bs \<Longrightarrow> n < length (instructions b) \<Longrightarrow>
     live_after (foldl (insert_live_after T) li bs) (mb_id b, n) =
       Some (live_at T (drop (Suc n) (instructions b)) (live_out li (mb_id b)))"
proof (induction bs arbitrary: li)
  case (Cons c bs)
  show ?case
  proof (cases "b = c")
    case True
    with Cons.prems show ?thesis by (simp add: insert_live_after_lookup)
  next
    case False
    with Cons show ?thesis by simp
  qed
qed simp

lemma live_after_outside:
  "\<not> (\<exists>b \<in> set bs. x = mb_id b \<and> n < length (instructions b)) \<Longrightarrow>
     live_after (foldl (insert_live_after T) li bs) (x, n) = live_after li (x, n)"
  by (induction bs arbitrary: li) (auto simp: insert_live_after_lookup)

text \<open>What the allocator uses of an analysis result.\<close>

definition live_sound ::
  "('r, 'i, 'z) target_inst_scheme \<Rightarrow> ('r, 'i) machine_function \<Rightarrow> 'r liveness_info \<Rightarrow> bool" where
  "live_sound T mf li \<longleftrightarrow> (\<forall>b \<in> set (blocks mf).
     (\<exists>ss. term_succs T (rev (instructions b)) = Some ss \<and>
        live_out li (mb_id b) = (\<Union>s \<in> ss. live_in li s)) \<and>
     live_in li (mb_id b) = live_at T (instructions b) (live_out li (mb_id b)) \<and>
     (\<forall>n < length (instructions b). get_live_after li (mb_id b) n =
        Some (live_at T (drop (Suc n) (instructions b)) (live_out li (mb_id b))))) \<and>
     (\<forall>x n. \<not> (\<exists>b \<in> set (blocks mf). x = mb_id b \<and> n < length (instructions b)) \<longrightarrow>
        get_live_after li x n = None)"

text \<open>A solution of the data-flow inequations, written on the instructions of the blocks.\<close>

definition live_solution ::
  "('r, 'i, 'z) target_inst_scheme \<Rightarrow> ('r, 'i) machine_function \<Rightarrow> (block_id \<Rightarrow> 'r register set) \<Rightarrow>
     (block_id \<Rightarrow> 'r register set) \<Rightarrow> bool" where
  "live_solution T mf LI LO \<longleftrightarrow> (\<forall>b \<in> set (blocks mf).
     (\<exists>ss. term_succs T (rev (instructions b)) = Some ss \<and> (\<Union>s \<in> ss. LI s) \<subseteq> LO (mb_id b)) \<and>
     live_at T (instructions b) (LO (mb_id b)) \<subseteq> LI (mb_id b))"

lemma block_uses_finite: "finite (fst (block_uses_defs T is))"
proof -
  have "finite (fst acc) \<Longrightarrow> finite (fst (foldl (uses_defs_step T) acc is))" for acc
    by (induction "is" arbitrary: acc) (auto simp: uses_defs_step_def split: prod.splits)
  then show ?thesis by (simp add: block_uses_defs_def)
qed

lemma liveness_new_bounded:
  "live_bounded (\<Union>b \<in> set bs. fst (block_uses_defs T (instructions b))) (liveness_new T bs)"
proof -
  let ?U = "\<Union>b \<in> set bs. fst (block_uses_defs T (instructions b))"
  have uses: "\<forall>x. li_uses (foldl (liveness_insert T) li cs) x \<subseteq> ?U"
    if "\<forall>x. li_uses li x \<subseteq> ?U" "set cs \<subseteq> set bs" for li cs
    using that
  proof (induction cs arbitrary: li)
    case (Cons c cs)
    have "fst (block_uses_defs T (instructions c)) \<subseteq> ?U" using Cons.prems(2) by auto
    then have "\<forall>x. li_uses (liveness_insert T li c) x \<subseteq> ?U" using Cons.prems(1) by simp
    with Cons show ?case by simp
  qed simp
  have "\<forall>x. li_uses (liveness_new T bs) x \<subseteq> ?U"
    unfolding liveness_new_def by (rule uses) simp_all
  then show ?thesis by (simp add: live_bounded_def liveness_new_fields)
qed

text \<open>The analysis panics exactly when the successors of a terminator are unknown, and otherwise
  returns.\<close>

lemma liveness_analysis_result:
  assumes cfg: "compute_cfg T (blocks mf) = Some cfg" and dist: "distinct (map mb_id (blocks mf))"
  shows "\<exists>li. liveness_analysis T mf = Some li \<and> live_sound T mf li \<and>
    (\<forall>LI LO. live_solution T mf LI LO \<longrightarrow>
       (\<forall>b \<in> set (blocks mf). live_in li (mb_id b) \<subseteq> LI (mb_id b) \<and> live_out li (mb_id b) \<subseteq> LO (mb_id b)))"
proof -
  let ?bs = "blocks mf" and ?succs = "\<lambda>b. case cfg b of None \<Rightarrow> {} | Some ss \<Rightarrow> ss"
  let ?li = "liveness_new T ?bs" and ?U = "\<Union>b \<in> set (blocks mf). fst (block_uses_defs T (instructions b))"
  have "live_below ?succs ?li" by (simp add: live_below_def liveness_new_fields)
  moreover have "finite ?U" by (simp add: block_uses_finite)
  ultimately obtain li1 where loop: "live_loop ?succs (map mb_id ?bs) ?li = Some (False, li1)"
      and le: "live_le ?li li1"
      and least: "\<forall>LI LO. live_within ?succs LI LO ?li \<longrightarrow> live_within ?succs LI LO li1" and eqs: "\<forall>b \<in> set (map mb_id ?bs). live_equations ?succs li1 b"
    using live_loop_fixpoint [OF _ liveness_new_bounded [of T ?bs], of ?succs "map mb_id ?bs"] by blast
  let ?li2 = "compute_live_after T ?bs li1"
  have res: "liveness_analysis T mf = Some ?li2"
    by (simp add: liveness_analysis_def cfg loop Let_def)
  have "live_sound T mf ?li2"
    unfolding live_sound_def
  proof (intro ballI conjI allI impI)
    fix x n assume "\<not> (\<exists>b \<in> set ?bs. x = mb_id b \<and> n < length (instructions b))"
    then show "get_live_after ?li2 x n = None"
      using le live_after_outside [of ?bs x n T li1]
      by (simp add: get_live_after_def compute_live_after_def live_le_def liveness_new_fields)
  next
    fix b assume b: "b \<in> set ?bs"
    from compute_cfg_block [OF cfg dist b] obtain ss
      where ss: "term_succs T (rev (instructions b)) = Some ss" "cfg (mb_id b) = Some ss" by blast
    have eq: "live_equations ?succs li1 (mb_id b)" using eqs b by simp
    show "\<exists>ss. term_succs T (rev (instructions b)) = Some ss \<and>
        live_out ?li2 (mb_id b) = (\<Union>s \<in> ss. live_in ?li2 s)"
      using ss eq by (simp add: live_equations_def compute_live_after_def)
    obtain uses defs where ud: "block_uses_defs T (instructions b) = (uses, defs)" by fastforce
    have "li_uses li1 (mb_id b) = uses" "li_defs li1 (mb_id b) = defs"
      using liveness_new_block [OF dist b, of T] ud le by (simp_all add: live_le_def)
    then show "live_in ?li2 (mb_id b) = live_at T (instructions b) (live_out ?li2 (mb_id b))"
      using eq block_uses_defs_live [OF ud] by (simp add: live_equations_def compute_live_after_def)
    fix n assume "n < length (instructions b)"
    then show "get_live_after ?li2 (mb_id b) n =
        Some (live_at T (drop (Suc n) (instructions b)) (live_out ?li2 (mb_id b)))"
      using live_after_fold_block [OF dist b, of n T li1]
      by (simp add: compute_live_after_def get_live_after_def)
  qed
  moreover have "live_in ?li2 (mb_id b) \<subseteq> LI (mb_id b) \<and> live_out ?li2 (mb_id b) \<subseteq> LO (mb_id b)"
    if sol: "live_solution T mf LI LO" and b: "b \<in> set ?bs" for LI LO b
  proof -
    let ?LO = "\<lambda>x. if x \<in> mb_id ` set ?bs then LO x else {}"
    have "live_within ?succs LI ?LO ?li"
      unfolding live_within_def
    proof (intro allI conjI)
      fix x
      show "live_in ?li x \<subseteq> LI x" "live_out ?li x \<subseteq> ?LO x" by (simp_all add: liveness_new_fields)
      show "(\<Union>s \<in> ?succs x. LI s) \<subseteq> ?LO x"
      proof (cases "x \<in> mb_id ` set ?bs")
        case True
        then obtain c where c: "c \<in> set ?bs" "x = mb_id c" by blast
        from compute_cfg_block [OF cfg dist c(1)] obtain ss
          where ss: "term_succs T (rev (instructions c)) = Some ss" "cfg (mb_id c) = Some ss" by blast
        have "\<Union> (LI ` ss) \<subseteq> LO (mb_id c)" using sol c(1) ss(1) unfolding live_solution_def by (metis option.inject)
        with c ss(2) show ?thesis by simp
      qed (simp add: compute_cfg_other [OF cfg])
      show "li_uses ?li x \<union> (?LO x - li_defs ?li x) \<subseteq> LI x"
      proof (cases "x \<in> mb_id ` set ?bs")
        case True
        then obtain c where c: "c \<in> set ?bs" "x = mb_id c" by blast
        obtain uses defs where ud: "block_uses_defs T (instructions c) = (uses, defs)" by fastforce
        with sol c block_uses_defs_live [OF ud, of "LO x"] liveness_new_block [OF dist c(1), of T]
        show ?thesis by (simp add: live_solution_def)
      qed (simp add: liveness_new_fields)
    qed
    with least have "live_within ?succs LI ?LO li1" by blast
    then have "live_in li1 (mb_id b) \<subseteq> LI (mb_id b) \<and> live_out li1 (mb_id b) \<subseteq> ?LO (mb_id b)"
      by (simp add: live_within_def)
    with b show ?thesis by (simp add: compute_live_after_def)
  qed
  ultimately show ?thesis using res by blast
qed

lemma liveness_analysis_None: "liveness_analysis T mf = None" if "compute_cfg T (blocks mf) = None"
  using that by (simp add: liveness_analysis_def Let_def)

definition live_finite :: "'r liveness_info \<Rightarrow> bool" where
  "live_finite li \<longleftrightarrow> (\<forall>b n X. get_live_after li b n = Some X \<longrightarrow> finite X)"

lemma live_finiteD: "live_finite li \<Longrightarrow> get_live_after li b n = Some X \<Longrightarrow> finite X"
  by (auto simp: live_finite_def)

lemma live_at_subset:
  "(\<Union>i \<in> set is. set (use_regs T i)) \<subseteq> U \<Longrightarrow> live \<subseteq> U \<Longrightarrow> live_at T is live \<subseteq> U"
  by (induction "is") (auto simp: live_before_def)

text \<open>The live sets are finite: they hold registers the function reads.\<close>

lemma liveness_analysis_finite:
  assumes "compute_cfg T (blocks mf) = Some cfg" and "distinct (map mb_id (blocks mf))"
    and "liveness_analysis T mf = Some li"
  shows "live_finite li"
proof -
  let ?U = "\<Union>b \<in> set (blocks mf). \<Union>i \<in> set (instructions b). set (use_regs T i)"
  obtain li' where li': "liveness_analysis T mf = Some li'" "live_sound T mf li'"
      "\<forall>LI LO. live_solution T mf LI LO \<longrightarrow> (\<forall>b \<in> set (blocks mf).
         live_in li' (mb_id b) \<subseteq> LI (mb_id b) \<and> live_out li' (mb_id b) \<subseteq> LO (mb_id b))"
    using liveness_analysis_result [OF assms(1,2)] by blast
  with assms(3) have sound: "live_sound T mf li"
    and least: "\<And>LI LO b. live_solution T mf LI LO \<Longrightarrow> b \<in> set (blocks mf) \<Longrightarrow> live_out li (mb_id b) \<subseteq> LO (mb_id b)"
    by simp_all
  have uses: "(\<Union>i \<in> set (instructions b). set (use_regs T i)) \<subseteq> ?U" if "b \<in> set (blocks mf)" for b
    using that by blast
  have "live_solution T mf (\<lambda>_. ?U) (\<lambda>_. ?U)"
    unfolding live_solution_def
  proof (intro ballI conjI)
    fix b assume b: "b \<in> set (blocks mf)"
    from compute_cfg_block [OF assms(1,2) b]
    show "\<exists>ss. term_succs T (rev (instructions b)) = Some ss \<and> (\<Union>s \<in> ss. ?U) \<subseteq> ?U" by blast
    show "live_at T (instructions b) ?U \<subseteq> ?U" by (rule live_at_subset [OF uses [OF b] order.refl])
  qed
  note out = least [OF this]
  have "finite ?U" by simp
  have "finite X" if X: "get_live_after li x n = Some X" for x n X
  proof (cases "\<exists>b \<in> set (blocks mf). x = mb_id b \<and> n < length (instructions b)")
    case True
    then obtain b where b: "b \<in> set (blocks mf)" "x = mb_id b" "n < length (instructions b)" by blast
    then have "X = live_at T (drop (Suc n) (instructions b)) (live_out li (mb_id b))"
      using sound X unfolding live_sound_def by fastforce
    moreover have "(\<Union>i \<in> set (drop (Suc n) (instructions b)). set (use_regs T i)) \<subseteq> ?U"
      using uses [OF b(1)] set_drop_subset [of "Suc n" "instructions b"] by blast
    ultimately have "X \<subseteq> ?U" using live_at_subset out [OF b(1)] by metis
    then show ?thesis using \<open>finite ?U\<close> by (rule finite_subset)
  next
    case False
    with X sound show ?thesis unfolding live_sound_def by (metis option.discI)
  qed
  then show ?thesis by (auto simp: live_finite_def)
qed

end
