(* ===== verification/Reg_Alloc.thy ===== *)
theory Reg_Alloc
  imports Liveness "HOL-Library.AList" "HOL-Library.Product_Lexorder"
begin

text \<open>
  Register allocation (\<open>src/src/mir/lower/regalloc.rs\<close>): graph colouring with spilling.

  A hash map the code iterates over is an association list here, with keys that stay distinct; the
  code's results do not depend on the order of the iteration, since each minimum it takes breaks ties
  by the id or the register.  A hash map that is only looked up is a function.  The weights are
  \<open>u64\<close> counts in the code, bounded by the number of instructions times \<open>10\<^sup>4\<close>, and naturals here.
\<close>

section \<open>Helpers\<close>

text \<open>\<open>entry(k).or_insert(d)\<close>, then the value is updated by \<open>f\<close>.\<close>

definition entry_or :: "'k \<Rightarrow> 'v \<Rightarrow> ('v \<Rightarrow> 'v) \<Rightarrow> ('k \<times> 'v) list \<Rightarrow> ('k \<times> 'v) list" where
  "entry_or k d f m = AList.update k (f (case map_of m k of None \<Rightarrow> d | Some v \<Rightarrow> v)) m"

text \<open>\<open>Iterator::min_by\<close>: the first of the minima.\<close>

fun min_by :: "('a \<Rightarrow> 'a \<Rightarrow> bool) \<Rightarrow> 'a list \<Rightarrow> 'a option" where
  "min_by le [] = None"
| "min_by le (x # xs) = (case min_by le xs of
     None \<Rightarrow> Some x | Some y \<Rightarrow> if le x y then Some x else Some y)"

definition virtuals :: "'r register set \<Rightarrow> vreg_id set" where
  "virtuals X = (\<Union>r \<in> X. case r of Virtual v \<Rightarrow> {v} | Physical _ \<Rightarrow> {})"

definition physicals :: "'r register set \<Rightarrow> 'r set" where
  "physicals X = (\<Union>r \<in> X. case r of Virtual _ \<Rightarrow> {} | Physical p \<Rightarrow> {p})"

section \<open>The interference graph\<close>

record 'r interference_graph =
  edges :: "(vreg_id \<times> vreg_id set) list"
  forbidden_phys :: "vreg_id \<Rightarrow> 'r set"

record vreg_stats =
  use_weight :: nat
  def_weight :: nat
  call_cross_weight :: nat

definition default_stats :: vreg_stats where
  "default_stats = \<lparr>use_weight = 0, def_weight = 0, call_cross_weight = 0\<rparr>"

definition spill_cost :: "vreg_stats \<Rightarrow> nat" where
  "spill_cost s = use_weight s * 4 + def_weight s * 5 + call_cross_weight s * 2 + 1"

definition add_edge :: "vreg_id \<Rightarrow> vreg_id \<Rightarrow> (vreg_id \<times> vreg_id set) list \<Rightarrow> (vreg_id \<times> vreg_id set) list" where
  "add_edge v1 v2 es =
     (if v1 \<noteq> v2 then entry_or v2 {} (insert v1) (entry_or v1 {} (insert v2) es) else es)"

text \<open>The loop over the registers \<open>X\<close> that must not share the register of \<open>d\<close>.\<close>

definition add_interference ::
  "'r register \<Rightarrow> 'r register set \<Rightarrow> 'r interference_graph \<Rightarrow> 'r interference_graph" where
  "add_interference d X G = (case d of
     Virtual v1 \<Rightarrow>
       G\<lparr>edges := fold (add_edge v1) (sorted_list_of_set (virtuals X)) (edges G),
         forbidden_phys := (forbidden_phys G)(v1 := forbidden_phys G v1 \<union> physicals X)\<rparr>
   | Physical phy \<Rightarrow>
       G\<lparr>forbidden_phys := (\<lambda>v. if Virtual v \<in> X then insert phy (forbidden_phys G v) else forbidden_phys G v)\<rparr>)"

definition add_node :: "'r register \<Rightarrow> 'r interference_graph \<Rightarrow> 'r interference_graph" where
  "add_node d G = (case d of
     Virtual v \<Rightarrow> G\<lparr>edges := entry_or v {} (\<lambda>s. s) (edges G)\<rparr> | Physical _ \<Rightarrow> G)"

definition conflicts_of :: "('r, 'i, 'z) target_inst_scheme \<Rightarrow> 'i \<Rightarrow> 'r register \<Rightarrow> 'r register set" where
  "conflicts_of T inst d = (case def_conflict_regs T inst d of None \<Rightarrow> {} | Some cs \<Rightarrow> set cs)"

definition build_inst ::
  "('r, 'i, 'z) target_inst_scheme \<Rightarrow> 'r register set \<Rightarrow> 'i \<Rightarrow> 'r interference_graph \<Rightarrow>
     'r interference_graph" where
  "build_inst T live inst G =
     fold (\<lambda>d. add_interference d (live \<union> conflicts_of T inst d)) (def_regs T inst)
       (fold add_node (def_regs T inst) G)"

text \<open>\<open>get_live_after\<close> indexes its map; a missing entry panics.\<close>

fun build_insts ::
  "('r, 'i, 'z) target_inst_scheme \<Rightarrow> 'r liveness_info \<Rightarrow> block_id \<Rightarrow> nat \<Rightarrow> 'i list \<Rightarrow>
     'r interference_graph \<Rightarrow> 'r interference_graph option" where
  "build_insts T li b index [] G = Some G"
| "build_insts T li b index (inst # rest) G = do {
     live \<leftarrow> get_live_after li b index;
     build_insts T li b (Suc index) rest (build_inst T live inst G) }"

fun build_blocks ::
  "('r, 'i, 'z) target_inst_scheme \<Rightarrow> 'r liveness_info \<Rightarrow> 'i machine_block list \<Rightarrow>
     'r interference_graph \<Rightarrow> 'r interference_graph option" where
  "build_blocks T li [] G = Some G"
| "build_blocks T li (b # bs) G = do {
     G1 \<leftarrow> build_insts T li (mb_id b) 0 (instructions b) G; build_blocks T li bs G1 }"

definition build ::
  "('r, 'i, 'z) target_inst_scheme \<Rightarrow> ('r, 'i) machine_function \<Rightarrow> 'r liveness_info \<Rightarrow>
     'r interference_graph option" where
  "build T mf li = build_blocks T li (blocks mf) \<lparr>edges = [], forbidden_phys = (\<lambda>_. {})\<rparr>"

definition available_regs :: "('r, 'z) target_arch_scheme \<Rightarrow> 'r interference_graph \<Rightarrow> vreg_id \<Rightarrow> 'r list" where
  "available_regs T G v = filter (\<lambda>x. x \<notin> forbidden_phys G v) (get_allocatable_regs T)"

section \<open>Simplification\<close>

definition stats_of :: "(vreg_id \<rightharpoonup> vreg_stats) \<Rightarrow> vreg_id \<Rightarrow> vreg_stats" where
  "stats_of stats v = (case stats v of None \<Rightarrow> default_stats | Some s \<Rightarrow> s)"

text \<open>Lower cost per interference edge first, then the higher degree, then the lower id.\<close>

definition spill_before ::
  "(vreg_id \<rightharpoonup> vreg_stats) \<Rightarrow> vreg_id \<times> nat \<times> nat \<Rightarrow> vreg_id \<times> nat \<times> nat \<Rightarrow> bool" where
  "spill_before stats lhs rhs = (case (lhs, rhs) of ((lhs_id, lhs_deg, _), (rhs_id, rhs_deg, _)) \<Rightarrow>
     let lhs_degree = lhs_deg + 1; rhs_degree = rhs_deg + 1;
         lhs_scaled = spill_cost (stats_of stats lhs_id) * rhs_degree;
         rhs_scaled = spill_cost (stats_of stats rhs_id) * lhs_degree
     in lhs_scaled < rhs_scaled \<or> lhs_scaled = rhs_scaled \<and>
        (rhs_degree < lhs_degree \<or> rhs_degree = lhs_degree \<and> lhs_id \<le> rhs_id))"

definition select_spill_candidate ::
  "(vreg_id \<times> nat \<times> nat) list \<Rightarrow> (vreg_id \<rightharpoonup> vreg_stats) \<Rightarrow> vreg_id option" where
  "select_spill_candidate degrees stats = map_option fst (min_by (spill_before stats) degrees)"

definition pick_node :: "(vreg_id \<times> nat \<times> nat) list \<Rightarrow> (vreg_id \<rightharpoonup> vreg_stats) \<Rightarrow> vreg_id option" where
  "pick_node degrees stats =
     (case min_by (\<lambda>(n1, d1, k1) (n2, d2, k2). (d1, k1, n1) \<le> (d2, k2, n2))
             (filter (\<lambda>(_, degree, k). degree < k) degrees) of
        Some (node, _) \<Rightarrow> Some node
      | None \<Rightarrow> select_spill_candidate degrees stats)"

text \<open>\<open>*degree -= 1\<close> for the neighbours that are left; going below zero panics.\<close>

definition decrement ::
  "vreg_id set \<Rightarrow> (vreg_id \<times> nat \<times> nat) list \<Rightarrow> (vreg_id \<times> nat \<times> nat) list option" where
  "decrement ns degrees = mapM_opt (\<lambda>(node, degree, k).
     if node \<in> ns then (if degree = 0 then None else Some (node, degree - 1, k))
     else Some (node, degree, k)) degrees"

lemma min_by_mem: "min_by le xs = Some x \<Longrightarrow> x \<in> set xs"
  by (induction xs arbitrary: x) (auto split: option.splits if_splits)

lemma min_by_None [simp]: "min_by le xs = None \<longleftrightarrow> xs = []"
  by (cases xs) (auto split: option.splits)

lemma pick_node_mem:
  assumes "pick_node degrees stats = Some node"
  shows "node \<in> fst ` set degrees"
  using assms by (auto simp: pick_node_def select_spill_candidate_def dest!: min_by_mem
      split: option.splits prod.splits intro: rev_image_eqI)

lemma decrement_length: "decrement ns degrees = Some degrees' \<Longrightarrow> length degrees' = length degrees"
  by (auto simp: decrement_def mapM_opt_Some_iff dest: list_all2_lengthD)

lemma length_delete_less: "x \<in> fst ` set m \<Longrightarrow> length (AList.delete x m) < length m"
  by (auto simp: AList.delete_eq intro!: length_filter_less)

function simplify_loop ::
  "(vreg_id \<times> vreg_id set) list \<Rightarrow> (vreg_id \<rightharpoonup> vreg_stats) \<Rightarrow> (vreg_id \<times> nat \<times> nat) list \<Rightarrow>
     vreg_id list \<Rightarrow> vreg_id list option" where
  "simplify_loop es stats degrees stack =
     (if degrees = [] then Some stack
      else do {
        node \<leftarrow> pick_node degrees stats;
        ns \<leftarrow> map_of es node;
        degrees' \<leftarrow> decrement ns (AList.delete node degrees);
        simplify_loop es stats degrees' (stack @ [node]) })"
  by pat_completeness auto
termination
  by (relation "measure (\<lambda>(_, _, degrees, _). length degrees)")
    (auto dest!: decrement_length pick_node_mem length_delete_less)

declare simplify_loop.simps [simp del]

definition simplify ::
  "('r, 'z) target_arch_scheme \<Rightarrow> 'r interference_graph \<Rightarrow> (vreg_id \<rightharpoonup> vreg_stats) \<Rightarrow> vreg_id list option" where
  "simplify T G stats = simplify_loop (edges G) stats
     (map (\<lambda>(v, ns). (v, card ns, length (available_regs T G v))) (edges G)) []"

section \<open>Weights\<close>

text \<open>\<open>block_order\<close>: the position of a block, the last one for a repeated id.\<close>

definition block_order :: "'i machine_block list \<Rightarrow> block_id \<rightharpoonup> nat" where
  "block_order bs = foldl (\<lambda>m (index, b). m(mb_id b \<mapsto> index)) Map.empty (zip [0..<length bs] bs)"

definition predecessors :: "'i machine_block list \<Rightarrow> (block_id \<Rightarrow> block_id set) \<Rightarrow> block_id \<Rightarrow> block_id list" where
  "predecessors bs succs b = filter (\<lambda>a. b \<in> succs a) (remdups (map mb_id bs))"

text \<open>The blocks of the loop a back edge closes: the worklist pops its last element, here the head.\<close>

definition loop_blocks :: "(block_id \<Rightarrow> block_id list) \<Rightarrow> block_id \<Rightarrow> block_id \<Rightarrow> block_id set option" where
  "loop_blocks preds header b = map_option fst
     (while_option (\<lambda>(_, worklist). worklist \<noteq> [])
        (\<lambda>(found, worklist). if hd worklist \<in> found then (found, tl worklist)
           else (insert (hd worklist) found, rev (preds (hd worklist)) @ tl worklist))
        ({header}, [b]))"

fun loop_edges ::
  "(block_id \<rightharpoonup> nat) \<Rightarrow> (block_id \<Rightarrow> block_id list) \<Rightarrow> nat \<Rightarrow> block_id \<Rightarrow> block_id list \<Rightarrow>
     (block_id \<Rightarrow> nat) \<Rightarrow> (block_id \<Rightarrow> nat) option" where
  "loop_edges order preds block_index b [] depths = Some depths"
| "loop_edges order preds block_index b (succ # rest) depths = do {
     succ_index \<leftarrow> order succ;
     if block_index < succ_index then loop_edges order preds block_index b rest depths
     else do {
       found \<leftarrow> loop_blocks preds succ b;
       loop_edges order preds block_index b rest
         (\<lambda>x. if x \<in> found then Suc (depths x) else depths x) } }"

fun loop_depths ::
  "(block_id \<rightharpoonup> nat) \<Rightarrow> (block_id \<Rightarrow> block_id list) \<Rightarrow> (block_id \<Rightarrow> block_id set) \<Rightarrow>
     'i machine_block list \<Rightarrow> (block_id \<Rightarrow> nat) \<Rightarrow> (block_id \<Rightarrow> nat) option" where
  "loop_depths order preds succs [] depths = Some depths"
| "loop_depths order preds succs (b # bs) depths = do {
     block_index \<leftarrow> order (mb_id b);
     depths1 \<leftarrow> loop_edges order preds block_index (mb_id b) (sorted_list_of_set (succs (mb_id b))) depths;
     loop_depths order preds succs bs depths1 }"

text \<open>The weight of a block, read with the default 1.\<close>

definition compute_block_weights ::
  "('r, 'i, 'z) target_inst_scheme \<Rightarrow> ('r, 'i) machine_function \<Rightarrow> (block_id \<Rightarrow> nat) option" where
  "compute_block_weights T mf = do {
     cfg \<leftarrow> compute_cfg T (blocks mf);
     let succs = (\<lambda>b. case cfg b of None \<Rightarrow> {} | Some ss \<Rightarrow> ss);
     depths \<leftarrow> loop_depths (block_order (blocks mf)) (predecessors (blocks mf) succs) succs (blocks mf) (\<lambda>_. 0);
     Some (\<lambda>b. 10 ^ min (depths b) 4) }"

definition bump :: "(vreg_stats \<Rightarrow> vreg_stats) \<Rightarrow> 'r register \<Rightarrow> (vreg_id \<rightharpoonup> vreg_stats) \<Rightarrow> (vreg_id \<rightharpoonup> vreg_stats)" where
  "bump f r stats = (case r of Virtual v \<Rightarrow> stats(v \<mapsto> f (stats_of stats v)) | Physical _ \<Rightarrow> stats)"

definition stats_inst ::
  "('r, 'i, 'z) target_inst_scheme \<Rightarrow> nat \<Rightarrow> 'r register set option \<Rightarrow> 'i \<Rightarrow> (vreg_id \<rightharpoonup> vreg_stats) \<Rightarrow>
     (vreg_id \<rightharpoonup> vreg_stats) option" where
  "stats_inst T weight live inst stats = do {
     let stats1 = fold (bump (\<lambda>s. s\<lparr>use_weight := use_weight s + weight\<rparr>)) (use_regs T inst) stats;
     let stats2 = fold (bump (\<lambda>s. s\<lparr>def_weight := def_weight s + weight\<rparr>)) (def_regs T inst) stats1;
     if is_call T inst then do {
       X \<leftarrow> live;
       Some (\<lambda>v. if Virtual v \<in> X
         then Some ((stats_of stats2 v)\<lparr>call_cross_weight := call_cross_weight (stats_of stats2 v) + weight\<rparr>)
         else stats2 v) }
     else Some stats2 }"

fun stats_insts ::
  "('r, 'i, 'z) target_inst_scheme \<Rightarrow> 'r liveness_info \<Rightarrow> nat \<Rightarrow> block_id \<Rightarrow> nat \<Rightarrow> 'i list \<Rightarrow>
     (vreg_id \<rightharpoonup> vreg_stats) \<Rightarrow> (vreg_id \<rightharpoonup> vreg_stats) option" where
  "stats_insts T li weight b index [] stats = Some stats"
| "stats_insts T li weight b index (inst # rest) stats = do {
     stats1 \<leftarrow> stats_inst T weight (get_live_after li b index) inst stats;
     stats_insts T li weight b (Suc index) rest stats1 }"

fun collect_vreg_stats ::
  "('r, 'i, 'z) target_inst_scheme \<Rightarrow> 'r liveness_info \<Rightarrow> (block_id \<Rightarrow> nat) \<Rightarrow> 'i machine_block list \<Rightarrow>
     (vreg_id \<rightharpoonup> vreg_stats) \<Rightarrow> (vreg_id \<rightharpoonup> vreg_stats) option" where
  "collect_vreg_stats T li weights [] stats = Some stats"
| "collect_vreg_stats T li weights (b # bs) stats = do {
     stats1 \<leftarrow> stats_insts T li (weights (mb_id b)) (mb_id b) 0 (instructions b) stats;
     collect_vreg_stats T li weights bs stats1 }"

type_synonym 'r move_pairs = "'r register \<Rightarrow> ('r register \<times> nat) list"

definition add_move_pair :: "nat \<Rightarrow> 'r register \<Rightarrow> 'r register \<Rightarrow> 'r move_pairs \<Rightarrow> 'r move_pairs" where
  "add_move_pair weight a b mp = mp(a := entry_or b 0 (\<lambda>w. w + weight) (mp a))"

definition move_pairs_inst ::
  "('r, 'i, 'z) target_inst_scheme \<Rightarrow> nat \<Rightarrow> 'i \<Rightarrow> 'r move_pairs \<Rightarrow> 'r move_pairs" where
  "move_pairs_inst T weight inst mp = (case as_move T inst of
     Some (src, dst) \<Rightarrow> add_move_pair weight dst src (add_move_pair weight src dst mp)
   | None \<Rightarrow> mp)"

definition collect_move_pairs ::
  "('r, 'i, 'z) target_inst_scheme \<Rightarrow> (block_id \<Rightarrow> nat) \<Rightarrow> 'i machine_block list \<Rightarrow> 'r move_pairs" where
  "collect_move_pairs T weights bs =
     fold (\<lambda>b. fold (move_pairs_inst T (weights (mb_id b))) (instructions b)) bs (\<lambda>_. [])"

section \<open>Colouring\<close>

definition add_preference ::
  "(vreg_id \<rightharpoonup> 'r) \<Rightarrow> 'r register \<times> nat \<Rightarrow> ('r \<Rightarrow> nat) \<Rightarrow> ('r \<Rightarrow> nat)" where
  "add_preference assigned p pref = (case p of
     (Virtual other, weight) \<Rightarrow> (case assigned other of
        Some reg \<Rightarrow> pref(reg := pref reg + weight) | None \<Rightarrow> pref)
   | (Physical phy, weight) \<Rightarrow> pref(phy := pref phy + weight))"

text \<open>\<open>saturating_mul(100) as i64\<close>.\<close>

definition preference_bonus :: "nat \<Rightarrow> int" where
  "preference_bonus w = sint (word_of_nat (min (w * 100) (2 ^ 64 - 1)) :: i64)"

definition callee_saved_penalty :: "('r, 'z) target_arch_scheme \<Rightarrow> 'r set \<Rightarrow> 'r \<Rightarrow> int" where
  "callee_saved_penalty T used reg =
     (if is_callee_saved T reg then (if reg \<in> used then 1000 else 10000) else 0)"

definition reg_order :: "'r list \<Rightarrow> 'r \<Rightarrow> nat" where
  "reg_order regs reg =
     (case map_of (rev (zip regs [0..<length regs])) reg of Some i \<Rightarrow> i | None \<Rightarrow> 2 ^ 64 - 1)"

definition choose_physical_reg ::
  "('r :: linorder, 'z) target_arch_scheme \<Rightarrow> vreg_id \<Rightarrow> 'r list \<Rightarrow> (vreg_id \<rightharpoonup> 'r) \<Rightarrow> 'r set \<Rightarrow>
     'r move_pairs \<Rightarrow> 'r option" where
  "choose_physical_reg T v regs assigned used mp =
     (let preferred_weights = fold (add_preference assigned) (mp (Virtual v)) (\<lambda>_. 0);
          key = (\<lambda>reg. (callee_saved_penalty T used reg - preference_bonus (preferred_weights reg),
                        reg_order (get_allocatable_regs T) reg, reg))
      in min_by (\<lambda>a b. key a \<le> key b) regs)"

type_synonym 'r colouring = "vreg_id list \<times> (vreg_id \<rightharpoonup> 'r) \<times> 'r set"

fun colour ::
  "('r :: linorder, 'z) target_arch_scheme \<Rightarrow> 'r interference_graph \<Rightarrow> 'r move_pairs \<Rightarrow> vreg_id list \<Rightarrow>
     'r colouring \<Rightarrow> 'r colouring option" where
  "colour T G mp [] acc = Some acc"
| "colour T G mp (v # vs) (spills, assigned, used) = do {
     ns \<leftarrow> map_of (edges G) v;
     let regs = filter (\<lambda>reg. \<forall>n \<in> ns. assigned n \<noteq> Some reg) (available_regs T G v);
     (case choose_physical_reg T v regs assigned used mp of
        Some reg \<Rightarrow> colour T G mp vs
          (spills, assigned(v \<mapsto> reg), if is_callee_saved T reg then insert reg used else used)
      | None \<Rightarrow> colour T G mp vs (spills @ [v], assigned, used)) }"

definition compute_spill ::
  "('r :: linorder, 'i, 'z) target_inst_scheme \<Rightarrow> ('r, 'i) machine_function \<Rightarrow>
     (vreg_id list \<times> (vreg_id \<rightharpoonup> 'r)) option" where
  "compute_spill T mf = do {
     li \<leftarrow> liveness_analysis T mf;
     weights \<leftarrow> compute_block_weights T mf;
     stats \<leftarrow> collect_vreg_stats T li weights (blocks mf) Map.empty;
     G \<leftarrow> build T mf li;
     let mp = collect_move_pairs T weights (blocks mf);
     stack \<leftarrow> simplify T G stats;
     (spills, assigned, used) \<leftarrow> colour T G mp (rev stack) ([], Map.empty, {});
     Some (spills, assigned) }"

section \<open>Spilling\<close>

fun unique_spilled_vregs :: "vreg_id set \<Rightarrow> vreg_id set \<Rightarrow> 'r register list \<Rightarrow> vreg_id list" where
  "unique_spilled_vregs spilled seen [] = []"
| "unique_spilled_vregs spilled seen (Virtual v # rs) =
     (if v \<in> spilled \<and> v \<notin> seen then v # unique_spilled_vregs spilled (insert v seen) rs
      else unique_spilled_vregs spilled seen rs)"
| "unique_spilled_vregs spilled seen (Physical _ # rs) = unique_spilled_vregs spilled seen rs"

fun spill_slots ::
  "('r, 'i, 'z) target_alu_scheme \<Rightarrow> vreg_id list \<Rightarrow> ('r, 'i) machine_function \<Rightarrow>
     (vreg_id \<rightharpoonup> stack_slot_id) \<Rightarrow> (vreg_id \<rightharpoonup> stack_slot_id) \<times> ('r, 'i) machine_function" where
  "spill_slots T [] mf slots = (slots, mf)"
| "spill_slots T (v # vs) mf slots =
     (case new_stack_slot mf (WORD_SIZE T) (WORD_SIZE T) SpillSlot of
        (slot, mf1) \<Rightarrow> spill_slots T vs mf1 (slots(v \<mapsto> slot)))"

text \<open>The reloads before an instruction, the names of its results, the stores after it.\<close>

fun spill_uses ::
  "('r, 'i, 'z) lowering_target_scheme \<Rightarrow> (vreg_id \<rightharpoonup> stack_slot_id) \<Rightarrow> vreg_id list \<Rightarrow>
     ('r, 'i) machine_function \<Rightarrow>
     ('i list \<times> (vreg_id \<rightharpoonup> 'r register) \<times> ('r, 'i) machine_function) option" where
  "spill_uses T slots [] mf = Some ([], Map.empty, mf)"
| "spill_uses T slots (v # vs) mf = do {
     let (temp_in, mf1) = new_vreg mf;
     slot \<leftarrow> slots v;
     (loads, use_map, mf2) \<leftarrow> spill_uses T slots vs mf1;
     Some (emit_load_stack_slot T (Virtual temp_in) slot # loads, use_map(v \<mapsto> Virtual temp_in), mf2) }"

fun spill_defs ::
  "vreg_id list \<Rightarrow> ('r, 'i) machine_function \<Rightarrow> (vreg_id \<rightharpoonup> 'r register) \<times> ('r, 'i) machine_function" where
  "spill_defs [] mf = (Map.empty, mf)"
| "spill_defs (v # vs) mf =
     (case new_vreg mf of (temp_out, mf1) \<Rightarrow>
        case spill_defs vs mf1 of (def_map, mf2) \<Rightarrow> (def_map(v \<mapsto> Virtual temp_out), mf2))"

fun spill_stores ::
  "('r, 'i, 'z) lowering_target_scheme \<Rightarrow> (vreg_id \<rightharpoonup> stack_slot_id) \<Rightarrow> (vreg_id \<rightharpoonup> 'r register) \<Rightarrow>
     vreg_id list \<Rightarrow> ('r, 'i) machine_function \<Rightarrow> ('i list \<times> ('r, 'i) machine_function) option" where
  "spill_stores T slots def_map [] mf = Some ([], mf)"
| "spill_stores T slots def_map (v # vs) mf = do {
     temp_out \<leftarrow> def_map v;
     let (rt, mf1) = new_vreg mf;
     slot \<leftarrow> slots v;
     (stores, mf2) \<leftarrow> spill_stores T slots def_map vs mf1;
     Some (emit_store_stack_slot T temp_out slot (Virtual rt) # stores, mf2) }"

definition spill_inst ::
  "('r, 'i, 'z) lowering_target_scheme \<Rightarrow> vreg_id set \<Rightarrow> (vreg_id \<rightharpoonup> stack_slot_id) \<Rightarrow> 'i \<Rightarrow>
     ('r, 'i) machine_function \<Rightarrow> ('i list \<times> ('r, 'i) machine_function) option" where
  "spill_inst T spilled slots inst mf = do {
     let uses_spilled = unique_spilled_vregs spilled {} (use_regs T inst);
     let defs_spilled = unique_spilled_vregs spilled {} (def_regs T inst);
     (loads, use_map, mf1) \<leftarrow> spill_uses T slots uses_spilled mf;
     let (def_map, mf2) = spill_defs defs_spilled mf1;
     let rewritten = rewrite_vreg T inst use_map def_map;
     (stores, mf3) \<leftarrow> spill_stores T slots def_map defs_spilled mf2;
     Some (loads @ rewritten # stores, mf3) }"

fun spill_insts ::
  "('r, 'i, 'z) lowering_target_scheme \<Rightarrow> vreg_id set \<Rightarrow> (vreg_id \<rightharpoonup> stack_slot_id) \<Rightarrow> 'i list \<Rightarrow>
     ('r, 'i) machine_function \<Rightarrow> ('i list \<times> ('r, 'i) machine_function) option" where
  "spill_insts T spilled slots [] mf = Some ([], mf)"
| "spill_insts T spilled slots (inst # rest) mf = do {
     (is, mf1) \<leftarrow> spill_inst T spilled slots inst mf;
     (new_insts, mf2) \<leftarrow> spill_insts T spilled slots rest mf1;
     Some (is @ new_insts, mf2) }"

fun spill_blocks ::
  "('r, 'i, 'z) lowering_target_scheme \<Rightarrow> vreg_id set \<Rightarrow> (vreg_id \<rightharpoonup> stack_slot_id) \<Rightarrow>
     'i machine_block list \<Rightarrow> ('r, 'i) machine_function \<Rightarrow>
     ('i machine_block list \<times> ('r, 'i) machine_function) option" where
  "spill_blocks T spilled slots [] mf = Some ([], mf)"
| "spill_blocks T spilled slots (b # bs) mf = do {
     (is, mf1) \<leftarrow> spill_insts T spilled slots (instructions b) mf;
     (new_bs, mf2) \<leftarrow> spill_blocks T spilled slots bs mf1;
     Some (b\<lparr>instructions := is\<rparr> # new_bs, mf2) }"

definition spill_vreg ::
  "('r, 'i, 'z) lowering_target_scheme \<Rightarrow> vreg_id list \<Rightarrow> ('r, 'i) machine_function \<Rightarrow>
     ('r, 'i) machine_function option" where
  "spill_vreg T vreg_ids mf = do {
     let (slots, mf1) = spill_slots T vreg_ids mf Map.empty;
     (bs, mf2) \<leftarrow> spill_blocks T (set vreg_ids) slots (blocks mf1) mf1;
     Some (mf2\<lparr>blocks := bs\<rparr>) }"

section \<open>The whole pass\<close>

text \<open>The loop of \<open>register_allocation\<close>: it ends when nothing is spilled.\<close>

partial_function (option) alloc_rounds ::
  "('r :: linorder, 'i, 'z) lowering_target_scheme \<Rightarrow> ('r, 'i) machine_function \<Rightarrow>
     (('r, 'i) machine_function \<times> (vreg_id \<rightharpoonup> 'r)) option" where
  "alloc_rounds T mf = do {
     round \<leftarrow> compute_spill T mf;
     (case round of (spills, assigned) \<Rightarrow>
        if spills = [] then Some (mf, assigned)
        else do { mf1 \<leftarrow> spill_vreg T spills mf; alloc_rounds T mf1 }) }"

definition callee_saved_scan ::
  "('r, 'i, 'z) target_inst_scheme \<Rightarrow> ('r, 'i) machine_function \<Rightarrow> ('r, 'i) machine_function" where
  "callee_saved_scan T mf =
     (let insts = concat (map instructions (blocks mf))
      in mf\<lparr>frame_info := (frame_info mf)\<lparr>
           used_callee_saved := {p \<in> physicals (\<Union>i \<in> set insts. set (def_regs T i)). is_callee_saved T p},
           need_save_ra := (\<exists>i \<in> set insts. is_call T i)\<rparr>\<rparr>)"

definition rewrite_function ::
  "('r, 'i, 'z) target_inst_scheme \<Rightarrow> (vreg_id \<rightharpoonup> 'r) \<Rightarrow> ('r, 'i) machine_function \<Rightarrow>
     ('r, 'i) machine_function" where
  "rewrite_function T assigned mf =
     (let m = (\<lambda>v. map_option Physical (assigned v))
      in mf\<lparr>blocks := map (\<lambda>b. b\<lparr>instructions := map (\<lambda>i. rewrite_vreg T i m m) (instructions b)\<rparr>) (blocks mf)\<rparr>)"

definition register_allocation ::
  "('r :: linorder, 'i, 'z) lowering_target_scheme \<Rightarrow> ('r, 'i) machine_function \<Rightarrow>
     ('r, 'i) machine_function option" where
  "register_allocation T mf = do {
     (mf1, assigned) \<leftarrow> alloc_rounds T mf;
     Some (callee_saved_scan T (rewrite_function T assigned mf1)) }"

section \<open>The graph keeps apart what interferes\<close>

lemma map_of_entry_or [simp]:
  "map_of (entry_or k d f m) = (map_of m)(k \<mapsto> f (case map_of m k of None \<Rightarrow> d | Some v \<Rightarrow> v))"
  by (simp add: entry_or_def AList.update_conv')

lemma distinct_entry_or: "distinct (map fst m) \<Longrightarrow> distinct (map fst (entry_or k d f m))"
  by (simp add: entry_or_def AList.distinct_update)

lemma virtuals_iff [simp]: "v \<in> virtuals X \<longleftrightarrow> Virtual v \<in> X"
  by (auto simp: virtuals_def split: register.splits intro: bexI [of _ "Virtual v"]) (metis register.exhaust)

lemma physicals_iff [simp]: "p \<in> physicals X \<longleftrightarrow> Physical p \<in> X"
  by (auto simp: physicals_def split: register.splits intro: bexI [of _ "Physical p"]) (metis register.exhaust)

lemma finite_virtuals: "finite X \<Longrightarrow> finite (virtuals X)"
  unfolding virtuals_def by (auto split: register.splits)

definition edge :: "(vreg_id \<times> vreg_id set) list \<Rightarrow> vreg_id \<Rightarrow> vreg_id \<Rightarrow> bool" where
  "edge es v w \<longleftrightarrow> (\<exists>ns. map_of es v = Some ns \<and> w \<in> ns)"

definition node :: "(vreg_id \<times> vreg_id set) list \<Rightarrow> vreg_id \<Rightarrow> bool" where
  "node es v \<longleftrightarrow> v \<in> fst ` set es"

lemma node_iff: "node es v \<longleftrightarrow> map_of es v \<noteq> None"
  by (simp add: node_def map_of_eq_None_iff)

definition edges_wf :: "(vreg_id \<times> vreg_id set) list \<Rightarrow> bool" where
  "edges_wf es \<longleftrightarrow> distinct (map fst es) \<and> (\<forall>v. finite {w. edge es v w}) \<and>
     (\<forall>v w. edge es v w \<longrightarrow> v \<noteq> w \<and> edge es w v)"

lemma edge_node: "edge es v w \<Longrightarrow> node es v"
  by (auto simp: edge_def node_iff)

lemma edge_entry_or:
  "edge (entry_or k {} f es) v w \<longleftrightarrow>
     (if v = k then w \<in> f (case map_of es k of None \<Rightarrow> {} | Some ns \<Rightarrow> ns) else edge es v w)"
  by (simp add: edge_def)

lemma node_entry_or [simp]: "node (entry_or k d f es) v \<longleftrightarrow> v = k \<or> node es v"
  by (simp add: node_iff)

lemma edge_default: "w \<in> (case map_of es k of None \<Rightarrow> {} | Some ns \<Rightarrow> ns) \<longleftrightarrow> edge es k w"
  by (auto simp: edge_def split: option.splits)

lemma edge_add_edge:
  "edge (add_edge a b es) v w \<longleftrightarrow> edge es v w \<or> a \<noteq> b \<and> (v = a \<and> w = b \<or> v = b \<and> w = a)"
  by (auto simp: add_edge_def edge_entry_or edge_default)

lemma node_add_edge: "node (add_edge a b es) v \<longleftrightarrow> node es v \<or> a \<noteq> b \<and> (v = a \<or> v = b)"
  by (auto simp: add_edge_def)

lemma add_edge_wf:
  assumes "edges_wf es"
  shows "edges_wf (add_edge a b es)"
  unfolding edges_wf_def
proof (intro conjI allI impI)
  show "distinct (map fst (add_edge a b es))"
    using assms by (simp add: edges_wf_def add_edge_def distinct_entry_or)
  fix v w
  have "{w. edge (add_edge a b es) v w} \<subseteq> insert a (insert b {w. edge es v w})"
    by (auto simp: edge_add_edge)
  moreover have "finite {w. edge es v w}" using assms by (simp add: edges_wf_def)
  ultimately show "finite {w. edge (add_edge a b es) v w}" by (simp add: finite_subset)
  assume "edge (add_edge a b es) v w"
  with assms show "v \<noteq> w" "edge (add_edge a b es) w v"
    unfolding edge_add_edge edges_wf_def by blast+
qed

lemma fold_add_edge_wf: "edges_wf es \<Longrightarrow> edges_wf (fold (add_edge a) ws es)"
  by (induction ws arbitrary: es) (simp_all add: add_edge_wf)

lemma edge_fold_add_edge:
  "edge (fold (add_edge a) ws es) v w \<longleftrightarrow>
     edge es v w \<or> (v = a \<and> w \<in> set ws \<or> w = a \<and> v \<in> set ws) \<and> v \<noteq> w"
  by (induction ws arbitrary: es) (auto simp: edge_add_edge)

lemma node_fold_add_edge: "node es v \<Longrightarrow> node (fold (add_edge a) ws es) v"
  by (induction ws arbitrary: es) (simp_all add: node_add_edge)

text \<open>Two registers that must not share a physical register, as the graph records it.\<close>

definition kept_apart :: "'r interference_graph \<Rightarrow> 'r register \<Rightarrow> 'r register \<Rightarrow> bool" where
  "kept_apart G d x = (case (d, x) of
     (Virtual v, Virtual w) \<Rightarrow> v = w \<or> edge (edges G) v w
   | (Virtual v, Physical p) \<Rightarrow> p \<in> forbidden_phys G v
   | (Physical p, Virtual v) \<Rightarrow> p \<in> forbidden_phys G v
   | (Physical _, Physical _) \<Rightarrow> True)"

definition graph_le :: "'r interference_graph \<Rightarrow> 'r interference_graph \<Rightarrow> bool" where
  "graph_le G G' \<longleftrightarrow> (\<forall>v w. edge (edges G) v w \<longrightarrow> edge (edges G') v w) \<and>
     (\<forall>v. node (edges G) v \<longrightarrow> node (edges G') v) \<and> (\<forall>v. forbidden_phys G v \<subseteq> forbidden_phys G' v)"

lemma graph_le_refl: "graph_le G G" by (simp add: graph_le_def)

lemma graph_le_trans: "graph_le G G1 \<Longrightarrow> graph_le G1 G2 \<Longrightarrow> graph_le G G2"
  unfolding graph_le_def by (meson subset_trans)

lemma kept_apart_mono: "graph_le G G' \<Longrightarrow> kept_apart G d x \<Longrightarrow> kept_apart G' d x"
  unfolding graph_le_def kept_apart_def by (auto split: register.splits)

lemma add_node_facts:
  assumes "edges_wf (edges G)"
  shows "edges_wf (edges (add_node d G))" "graph_le G (add_node d G)"
    "d = Virtual v \<Longrightarrow> node (edges (add_node d G)) v"
proof -
  have e: "edge (entry_or k {} (\<lambda>s. s) es) v w \<longleftrightarrow> edge es v w" for es k v w
    by (simp add: edge_entry_or edge_default)
  show "edges_wf (edges (add_node d G))" "graph_le G (add_node d G)"
    "d = Virtual v \<Longrightarrow> node (edges (add_node d G)) v"
    using assms
    by (auto simp: add_node_def e edges_wf_def graph_le_def distinct_entry_or split: register.splits)
qed

lemma add_interference_facts:
  assumes "edges_wf (edges G)" and "finite X"
  shows "edges_wf (edges (add_interference d X G))" "graph_le G (add_interference d X G)"
    "x \<in> X \<Longrightarrow> kept_apart (add_interference d X G) d x"
proof -
  show "edges_wf (edges (add_interference d X G))"
    using assms(1) by (auto simp: add_interference_def fold_add_edge_wf split: register.splits)
  show "graph_le G (add_interference d X G)"
    by (auto simp: add_interference_def graph_le_def edge_fold_add_edge node_fold_add_edge split: register.splits)
  show "x \<in> X \<Longrightarrow> kept_apart (add_interference d X G) d x"
    using finite_virtuals [OF assms(2)]
    by (auto simp: add_interference_def kept_apart_def edge_fold_add_edge split: register.splits)
qed

lemma add_nodes_facts:
  "edges_wf (edges G) \<Longrightarrow> edges_wf (edges (fold add_node ds G)) \<and> graph_le G (fold add_node ds G) \<and>
     (\<forall>v. Virtual v \<in> set ds \<longrightarrow> node (edges (fold add_node ds G)) v)"
proof (induction ds arbitrary: G)
  case Nil
  then show ?case by (simp add: graph_le_refl)
next
  case (Cons d ds)
  note F = add_node_facts [OF Cons.prems, of d]
  note IH = Cons.IH [OF F(1)]
  then have "graph_le G (fold add_node ds (add_node d G))" using graph_le_trans [OF F(2)] by blast
  moreover have "node (edges (fold add_node ds (add_node d G))) v" if "d = Virtual v" for v
    using F(3) [OF that] IH unfolding graph_le_def by blast
  ultimately show ?case using IH by auto
qed

lemma add_interferences_facts:
  "edges_wf (edges G) \<Longrightarrow> \<forall>d \<in> set ds. finite (X d) \<Longrightarrow>
     edges_wf (edges (fold (\<lambda>d. add_interference d (X d)) ds G)) \<and>
     graph_le G (fold (\<lambda>d. add_interference d (X d)) ds G) \<and>
     (\<forall>d \<in> set ds. \<forall>x \<in> X d. kept_apart (fold (\<lambda>d. add_interference d (X d)) ds G) d x)"
proof (induction ds arbitrary: G)
  case Nil
  then show ?case by (simp add: graph_le_refl)
next
  case (Cons d ds)
  let ?G = "add_interference d (X d) G"
  have fin: "finite (X d)" using Cons.prems(2) by simp
  note F = add_interference_facts [OF Cons.prems(1) fin]
  have IH: "edges_wf (edges (fold (\<lambda>d. add_interference d (X d)) ds ?G)) \<and>
     graph_le ?G (fold (\<lambda>d. add_interference d (X d)) ds ?G) \<and>
     (\<forall>d \<in> set ds. \<forall>x \<in> X d. kept_apart (fold (\<lambda>d. add_interference d (X d)) ds ?G) d x)"
    by (rule Cons.IH [OF F(1)]) (use Cons.prems(2) in simp)
  then have "graph_le G (fold (\<lambda>d. add_interference d (X d)) ds ?G)"
    using graph_le_trans [OF F(2)] by blast
  moreover have "kept_apart (fold (\<lambda>d. add_interference d (X d)) ds ?G) d x" if "x \<in> X d" for x
    using kept_apart_mono [OF _ F(3) [OF that]] IH by blast
  ultimately show ?case using IH by simp
qed

text \<open>What the graph owes an instruction whose live-out set is \<open>live\<close>.\<close>

definition inst_in_graph ::
  "('r, 'i, 'z) target_inst_scheme \<Rightarrow> 'r interference_graph \<Rightarrow> 'r register set \<Rightarrow> 'i \<Rightarrow> bool" where
  "inst_in_graph T G live inst \<longleftrightarrow> (\<forall>d \<in> set (def_regs T inst).
     (\<forall>v. d = Virtual v \<longrightarrow> node (edges G) v) \<and>
     (\<forall>x \<in> live \<union> conflicts_of T inst d. kept_apart G d x))"

lemma inst_in_graph_mono: "graph_le G G' \<Longrightarrow> inst_in_graph T G live inst \<Longrightarrow> inst_in_graph T G' live inst"
  unfolding inst_in_graph_def using kept_apart_mono [of G G'] by (simp add: graph_le_def)

lemma finite_conflicts: "finite (conflicts_of T inst d)"
  by (simp add: conflicts_of_def split: option.splits)

lemma build_inst_facts:
  assumes "edges_wf (edges G)" and "finite live"
  shows "edges_wf (edges (build_inst T live inst G))" "graph_le G (build_inst T live inst G)"
    "inst_in_graph T (build_inst T live inst G) live inst"
proof -
  let ?G = "fold add_node (def_regs T inst) G"
  note N = add_nodes_facts [OF assms(1), of "def_regs T inst"]
  have I: "edges_wf (edges (build_inst T live inst G)) \<and> graph_le ?G (build_inst T live inst G) \<and>
     (\<forall>d \<in> set (def_regs T inst). \<forall>x \<in> live \<union> conflicts_of T inst d. kept_apart (build_inst T live inst G) d x)"
    unfolding build_inst_def
    by (rule add_interferences_facts) (use N assms(2) finite_conflicts in auto)
  then show "edges_wf (edges (build_inst T live inst G))" by blast
  show "graph_le G (build_inst T live inst G)" using N I graph_le_trans by blast
  show "inst_in_graph T (build_inst T live inst G) live inst"
    using N I unfolding inst_in_graph_def graph_le_def by blast
qed

lemma build_insts_facts:
  assumes "edges_wf (edges G)" and "build_insts T li b index is G = Some G'"
    and fin: "live_finite li"
  shows "edges_wf (edges G') \<and> graph_le G G' \<and>
    (\<forall>n < length is. \<exists>X. get_live_after li b (index + n) = Some X \<and> inst_in_graph T G' X (is ! n))"
  using assms(1,2)
proof (induction "is" arbitrary: index G)
  case Nil
  then show ?case by (simp add: graph_le_refl)
next
  case (Cons i rest)
  from Cons.prems(2) obtain X where X: "get_live_after li b index = Some X"
      and rest: "build_insts T li b (Suc index) rest (build_inst T X i G) = Some G'"
    by (auto simp: Option.bind_eq_Some_conv)
  note F = build_inst_facts [OF Cons.prems(1) live_finiteD [OF fin X], of T i]
  note IH = Cons.IH [OF F(1) rest]
  have le: "graph_le G G'" using IH graph_le_trans [OF F(2)] by blast
  have "\<exists>X. get_live_after li b (index + n) = Some X \<and> inst_in_graph T G' X ((i # rest) ! n)"
    if "n < length (i # rest)" for n
  proof (cases n)
    case 0
    with X IH inst_in_graph_mono [OF _ F(3)] show ?thesis by simp
  next
    case (Suc m)
    with IH that show ?thesis by simp
  qed
  with IH le show ?case by blast
qed

definition graph_sound ::
  "('r, 'i, 'z) target_inst_scheme \<Rightarrow> 'r liveness_info \<Rightarrow> 'i machine_block list \<Rightarrow> 'r interference_graph \<Rightarrow> bool" where
  "graph_sound T li bs G \<longleftrightarrow> (\<forall>b \<in> set bs. \<forall>n < length (instructions b).
     \<exists>X. get_live_after li (mb_id b) n = Some X \<and> inst_in_graph T G X (instructions b ! n))"

lemma build_blocks_facts:
  assumes "edges_wf (edges G)" and "build_blocks T li bs G = Some G'"
    and fin: "live_finite li"
  shows "edges_wf (edges G') \<and> graph_le G G' \<and> graph_sound T li bs G'"
  using assms(1,2)
proof (induction bs arbitrary: G)
  case Nil
  then show ?case by (simp add: graph_le_refl graph_sound_def)
next
  case (Cons b bs)
  from Cons.prems(2) obtain G1 where 1: "build_insts T li (mb_id b) 0 (instructions b) G = Some G1"
      "build_blocks T li bs G1 = Some G'"
    by (auto simp: Option.bind_eq_Some_conv)
  note F = build_insts_facts [OF Cons.prems(1) 1(1) fin]
  then have wf1: "edges_wf (edges G1)" by blast
  note IH = Cons.IH [OF wf1 1(2)]
  then have le: "graph_le G1 G'" "graph_le G G'" using F graph_le_trans by blast+
  have "\<exists>X. get_live_after li (mb_id b) n = Some X \<and> inst_in_graph T G' X (instructions b ! n)"
    if "n < length (instructions b)" for n
    using F that inst_in_graph_mono [OF le(1)] by fastforce
  with IH le(2) show ?case by (simp add: graph_sound_def)
qed

lemma build_facts:
  assumes "build T mf li = Some G" and "live_finite li"
  shows "edges_wf (edges G)" "graph_sound T li (blocks mf) G"
proof -
  have "edges_wf []" by (simp add: edges_wf_def edge_def)
  then show "edges_wf (edges G)" "graph_sound T li (blocks mf) G"
    using build_blocks_facts [OF _ assms(1) [unfolded build_def] assms(2)] by simp_all
qed

section \<open>Simplification orders the nodes\<close>

definition neighbours :: "(vreg_id \<times> vreg_id set) list \<Rightarrow> vreg_id \<Rightarrow> vreg_id set" where
  "neighbours es v = {w. edge es v w}"

lemma neighbours_map_of: "map_of es v = Some ns \<Longrightarrow> neighbours es v = ns"
  by (simp add: neighbours_def edge_def)

lemma neighbours_finite: "edges_wf es \<Longrightarrow> finite (neighbours es v)"
  by (simp add: edges_wf_def neighbours_def)

lemma neighbours_sym: "edges_wf es \<Longrightarrow> w \<in> neighbours es v \<longleftrightarrow> v \<in> neighbours es w"
  by (auto simp: edges_wf_def neighbours_def)

text \<open>Each degree counts the neighbours that are left; so no subtraction goes below zero.\<close>

definition degrees_ok :: "(vreg_id \<times> vreg_id set) list \<Rightarrow> (vreg_id \<times> nat \<times> nat) list \<Rightarrow> bool" where
  "degrees_ok es degrees \<longleftrightarrow> distinct (map fst degrees) \<and>
     (\<forall>(v, d, k) \<in> set degrees. node es v \<and> d = card (neighbours es v \<inter> fst ` set degrees))"

lemma keys_delete: "fst ` set (AList.delete v m) = fst ` set m - {v}"
  by (auto simp: AList.delete_eq)

lemma decrement_keys: "decrement ns degrees = Some degrees' \<Longrightarrow> map fst degrees' = map fst degrees"
proof (induction degrees arbitrary: degrees')
  case (Cons e degrees)
  obtain n d k where e: "e = (n, d, k)" by (cases e)
  with Cons show ?case by (auto simp: decrement_def Option.bind_eq_Some_conv split: if_splits)
qed (simp add: decrement_def)

lemma decrement_Some:
  assumes "\<forall>(n, d, k) \<in> set degrees. n \<in> ns \<longrightarrow> d \<noteq> 0"
  shows "decrement ns degrees =
    Some (map (\<lambda>(n, d, k). (n, if n \<in> ns then d - 1 else d, k)) degrees)"
  using assms unfolding decrement_def by (induction degrees) auto

lemma simplify_round:
  assumes wf: "edges_wf es" and ok: "degrees_ok es degrees" and v: "map_of es v = Some ns"
    "v \<in> fst ` set degrees"
  shows "\<exists>degrees'. decrement ns (AList.delete v degrees) = Some degrees' \<and> degrees_ok es degrees' \<and>
    fst ` set degrees' = fst ` set degrees - {v}"
proof -
  let ?D = "AList.delete v degrees" and ?K = "fst ` set degrees"
  have ns: "ns = neighbours es v" using v(1) by (simp add: neighbours_map_of)
  have entry: "node es n \<and> n \<noteq> v \<and> d = card (neighbours es n \<inter> ?K)" if "(n, d, k) \<in> set ?D" for n d k
    using that ok by (auto simp: degrees_ok_def AList.delete_eq)
  have less: "card (neighbours es n \<inter> ?K) = Suc (card (neighbours es n \<inter> (?K - {v})))"
    if "n \<in> ns" for n
  proof -
    have "v \<in> neighbours es n \<inter> ?K" using that v(2) neighbours_sym [OF wf] ns by blast
    moreover have "finite (neighbours es n \<inter> ?K)" using neighbours_finite [OF wf] by blast
    moreover have "neighbours es n \<inter> ?K - {v} = neighbours es n \<inter> (?K - {v})" by blast
    ultimately show ?thesis by (metis card.remove)
  qed
  have same: "neighbours es n \<inter> ?K = neighbours es n \<inter> (?K - {v})" if "n \<notin> ns" for n
    using that neighbours_sym [OF wf] ns by blast
  let ?D' = "map (\<lambda>(n, d, k). (n, if n \<in> ns then d - 1 else d, k)) ?D"
  have dec: "decrement ns ?D = Some ?D'"
    by (rule decrement_Some) (use entry less in fastforce)
  have keys: "map fst ?D' = map fst ?D" by (auto simp: case_prod_unfold)
  then have keyset: "fst ` set ?D' = ?K - {v}" by (metis keys_delete set_map)
  moreover have "degrees_ok es ?D'"
    unfolding degrees_ok_def
  proof (intro conjI ballI)
    show "distinct (map fst ?D')" using ok unfolding keys degrees_ok_def
      by (simp add: AList.distinct_delete)
    fix e assume "e \<in> set ?D'"
    then obtain n d k where e: "e = (n, if n \<in> ns then d - 1 else d, k)" "(n, d, k) \<in> set ?D" by auto
    have "(if n \<in> ns then d - 1 else d) = card (neighbours es n \<inter> (?K - {v}))"
      using entry [OF e(2)] less [of n] same [of n] by auto
    then show "case e of (v, d, k) \<Rightarrow> node es v \<and> d = card (neighbours es v \<inter> fst ` set ?D')"
      using entry [OF e(2)] keyset e(1) by simp
  qed
  ultimately show ?thesis using dec by blast
qed

lemma pick_node_total: "degrees \<noteq> [] \<Longrightarrow> \<exists>node. pick_node degrees stats = Some node"
proof -
  assume "degrees \<noteq> []"
  then obtain y where "min_by (spill_before stats) degrees = Some y"
    by (metis min_by_None not_None_eq)
  then show ?thesis by (auto simp: pick_node_def select_spill_candidate_def split: option.splits)
qed

lemma simplify_loop_total:
  assumes wf: "edges_wf es" and "degrees_ok es degrees"
  shows "\<exists>vs. simplify_loop es stats degrees stack = Some (stack @ vs) \<and> distinct vs \<and>
    set vs = fst ` set degrees"
  using assms(2)
proof (induction "length degrees" arbitrary: degrees stack rule: less_induct)
  case less
  show ?case
  proof (cases "degrees = []")
    case True
    then show ?thesis by (simp add: simplify_loop.simps)
  next
    case False
    then obtain n where n: "pick_node degrees stats = Some n" using pick_node_total by blast
    note mem = pick_node_mem [OF n]
    then have "node es n" using less.prems by (auto simp: degrees_ok_def)
    then obtain ns where ns: "map_of es n = Some ns" by (auto simp: node_iff)
    obtain degrees' where d': "decrement ns (AList.delete n degrees) = Some degrees'"
      "degrees_ok es degrees'" "fst ` set degrees' = fst ` set degrees - {n}"
      using simplify_round [OF wf less.prems ns mem] by blast
    have "length degrees' < length degrees"
      using decrement_length [OF d'(1)] length_delete_less [OF mem] by simp
    from less.hyps [OF this d'(2), of "stack @ [n]"] obtain vs
      where vs: "simplify_loop es stats degrees' (stack @ [n]) = Some ((stack @ [n]) @ vs)"
        "distinct vs" "set vs = fst ` set degrees'" by blast
    have "simplify_loop es stats degrees stack = Some (stack @ (n # vs))"
      using False n ns d'(1) vs(1) by (subst simplify_loop.simps) simp
    moreover have "distinct (n # vs)" "set (n # vs) = fst ` set degrees"
      using vs(2,3) d'(3) mem by auto
    ultimately show ?thesis by blast
  qed
qed

lemma simplify_total:
  assumes "edges_wf (edges G)"
  shows "\<exists>vs. simplify T G stats = Some vs \<and> distinct vs \<and> set vs = fst ` set (edges G)"
proof -
  let ?degrees = "map (\<lambda>(v, ns). (v, card ns, length (available_regs T G v))) (edges G)"
  have keys: "map fst ?degrees = map fst (edges G)" by (auto simp: case_prod_unfold)
  then have keyset: "fst ` set ?degrees = fst ` set (edges G)" by (metis set_map)
  have "degrees_ok (edges G) ?degrees"
    unfolding degrees_ok_def
  proof (intro conjI ballI)
    show "distinct (map fst ?degrees)" using assms by (simp only: keys edges_wf_def)
    fix e assume "e \<in> set ?degrees"
    then obtain v ns where e: "e = (v, card ns, length (available_regs T G v))" "(v, ns) \<in> set (edges G)"
      by auto
    then have "map_of (edges G) v = Some ns" using assms by (simp add: edges_wf_def)
    then have "neighbours (edges G) v = ns" by (rule neighbours_map_of)
    moreover have "neighbours (edges G) v \<subseteq> fst ` set (edges G)"
      using assms edge_node unfolding neighbours_def edges_wf_def node_def by blast
    ultimately show "case e of (v, d, k) \<Rightarrow>
        node (edges G) v \<and> d = card (neighbours (edges G) v \<inter> fst ` set ?degrees)"
      unfolding keyset using e by (auto simp: node_def Int_absorb2 intro: rev_image_eqI)
  qed
  from simplify_loop_total [OF assms this, of stats "[]"] show ?thesis
    unfolding keyset simplify_def by simp
qed

section \<open>Colouring is proper\<close>

lemma choose_physical_reg_mem: "choose_physical_reg T v regs assigned used mp = Some reg \<Longrightarrow> reg \<in> set regs"
  by (auto simp: choose_physical_reg_def Let_def dest: min_by_mem)

lemma choose_physical_reg_None: "choose_physical_reg T v regs assigned used mp = None \<longleftrightarrow> regs = []"
  by (simp add: choose_physical_reg_def Let_def)

text \<open>The state of the colouring after the nodes \<open>done_vs\<close>: they are split into coloured and spilled
  ones, a colour is allowed and differs from every neighbour's, and whoever is spilled found every
  register it may use taken by a neighbour.\<close>

definition colouring_ok ::
  "('r, 'z) target_arch_scheme \<Rightarrow> 'r interference_graph \<Rightarrow> vreg_id set \<Rightarrow> 'r colouring \<Rightarrow> bool" where
  "colouring_ok T G done_vs acc = (case acc of (spills, assigned, used) \<Rightarrow>
     dom assigned \<union> set spills = done_vs \<and> dom assigned \<inter> set spills = {} \<and> distinct spills \<and>
     (\<forall>v reg. assigned v = Some reg \<longrightarrow> reg \<in> set (available_regs T G v)) \<and>
     (\<forall>v w. edge (edges G) v w \<longrightarrow> assigned v \<noteq> None \<longrightarrow> assigned v \<noteq> assigned w) \<and>
     (\<forall>v \<in> set spills. set (available_regs T G v) \<subseteq> {reg. \<exists>w. edge (edges G) v w \<and> assigned w = Some reg}))"

lemma colour_facts:
  assumes wf: "edges_wf (edges G)"
  shows "colouring_ok T G D acc \<Longrightarrow> distinct vs \<Longrightarrow> set vs \<inter> D = {} \<Longrightarrow>
    \<forall>v \<in> set vs. node (edges G) v \<Longrightarrow>
    \<exists>acc'. colour T G mp vs acc = Some acc' \<and> colouring_ok T G (D \<union> set vs) acc'"
proof (induction vs arbitrary: D acc)
  case Nil
  then show ?case by (cases acc) simp
next
  case (Cons v vs)
  obtain spills assigned used where acc: "acc = (spills, assigned, used)" by (cases acc)
  obtain ns where ns: "map_of (edges G) v = Some ns" using Cons.prems(4) by (auto simp: node_iff)
  have nbr: "edge (edges G) v w \<longleftrightarrow> w \<in> ns" for w using ns by (simp add: edge_def)
  let ?regs = "filter (\<lambda>reg. \<forall>n \<in> ns. assigned n \<noteq> Some reg) (available_regs T G v)"
  have fresh: "v \<notin> dom assigned" "v \<notin> set spills"
    using Cons.prems(1,3) by (auto simp: colouring_ok_def acc)
  show ?case
  proof (cases "choose_physical_reg T v ?regs assigned used mp")
    case None
    let ?acc = "(spills @ [v], assigned, used)"
    have "set (available_regs T G v) \<subseteq> {reg. \<exists>w. edge (edges G) v w \<and> assigned w = Some reg}"
      using None unfolding choose_physical_reg_None by (auto simp: filter_empty_conv nbr)
    then have "colouring_ok T G (insert v D) ?acc"
      using Cons.prems(1) fresh by (auto simp: colouring_ok_def acc)
    from Cons.IH [OF this] Cons.prems None ns show ?thesis
      by (auto simp: acc Let_def)
  next
    case (Some reg)
    let ?acc = "(spills, assigned(v \<mapsto> reg), if is_callee_saved T reg then insert reg used else used)"
    have reg: "reg \<in> set (available_regs T G v)" "\<forall>n \<in> ns. assigned n \<noteq> Some reg"
      using choose_physical_reg_mem [OF Some] by auto
    have old: "\<And>x y. edge (edges G) x y \<Longrightarrow> assigned x \<noteq> None \<Longrightarrow> assigned x \<noteq> assigned y"
      "\<And>x. x \<in> set spills \<Longrightarrow> set (available_regs T G x) \<subseteq> {reg. \<exists>w. edge (edges G) x w \<and> assigned w = Some reg}"
      using Cons.prems(1) by (auto simp: colouring_ok_def acc)
    have "(assigned(v \<mapsto> reg)) x \<noteq> (assigned(v \<mapsto> reg)) y"
      if "edge (edges G) x y" "(assigned(v \<mapsto> reg)) x \<noteq> None" for x y
    proof -
      have sym: "x \<noteq> y" "edge (edges G) y x" using wf that(1) by (auto simp: edges_wf_def)
      then show ?thesis using old(1) [OF that(1)] that reg(2) nbr by (auto split: if_splits) 
    qed
    moreover have "set (available_regs T G x) \<subseteq>
        {r. \<exists>w. edge (edges G) x w \<and> (assigned(v \<mapsto> reg)) w = Some r}" if "x \<in> set spills" for x
      using old(2) [OF that] fresh(1) by fastforce
    ultimately have "colouring_ok T G (insert v D) ?acc"
      using Cons.prems(1) fresh reg(1) by (auto simp: colouring_ok_def acc)
    from Cons.IH [OF this] Cons.prems Some ns show ?thesis
      by (auto simp: acc Let_def)
  qed
qed

section \<open>The round returns\<close>

lemma loop_blocks_total:
  assumes "finite U" and "b \<in> U" and preds: "\<And>x. set (preds x) \<subseteq> U"
  shows "\<exists>found. loop_blocks preds header b = Some found"
proof -
  define P where "P = (\<lambda>(found :: block_id set, worklist). set worklist \<subseteq> U)"
  define go where "go = (\<lambda>(found, worklist). if hd worklist \<in> found then (found, tl worklist)
           else (insert (hd worklist) found, rev (preds (hd worklist)) @ tl worklist))"
  define R where "R = inv_image (less_than <*lex*> less_than)
    (\<lambda>(found, worklist :: block_id list). (card (U - found), length worklist))"
  have step: "P (go (found, x # rest)) \<and> (go (found, x # rest), (found, x # rest)) \<in> R"
    if "P (found, x # rest)" for found x rest
  proof -
    have "x \<notin> found \<Longrightarrow> card (U - insert x found) < card (U - found)"
      using that assms(1) by (intro psubset_card_mono) (auto simp: P_def)
    then show ?thesis using that preds [of x] by (auto simp: P_def go_def R_def)
  qed
  have "\<exists>t. while_option (\<lambda>(_, worklist). worklist \<noteq> []) go ({header}, [b]) = Some t"
  proof (rule wf_rel_while_option_Some [where P = P and R = R])
    show "wf R" by (auto simp: R_def)
    show "P ({header}, [b])" using assms(2) by (simp add: P_def)
    fix s assume P: "P s \<and> (case s of (_, worklist) \<Rightarrow> worklist \<noteq> [])"
    then obtain found x rest where s: "s = (found, x # rest)" by (cases s) (auto simp: neq_Nil_conv)
    then show "(go s, s) \<in> R" "P (go s)" using step P by simp_all
  qed
  then show ?thesis by (auto simp: loop_blocks_def go_def)
qed

lemma block_order_total: "b \<in> set bs \<Longrightarrow> \<exists>n. block_order bs (mb_id b) = Some n"
proof -
  have mono: "m x \<noteq> None \<Longrightarrow> foldl (\<lambda>m (index, b). m(mb_id b \<mapsto> index)) m ps x \<noteq> None"
    for x m and ps :: "(nat \<times> 'a machine_block) list"
    by (induction ps arbitrary: m) (auto split: prod.splits)
  have "(n, b) \<in> set ps \<Longrightarrow> foldl (\<lambda>m (index, b). m(mb_id b \<mapsto> index)) m ps (mb_id b) \<noteq> None"
    for n b and ps :: "(nat \<times> 'a machine_block) list" and m
  proof (induction ps arbitrary: m)
    case (Cons p ps)
    show ?case
    proof (cases "p = (n, b)")
      case True
      have "foldl (\<lambda>m (index, b). m(mb_id b \<mapsto> index)) (m(mb_id b \<mapsto> n)) ps (mb_id b) \<noteq> None"
        by (rule mono) simp
      with True show ?thesis by (simp del: fun_upd_apply)
    next
      case False
      with Cons show ?thesis by (cases p) auto
    qed
  qed simp
  moreover assume "b \<in> set bs"
  then obtain n where "n < length bs" "b = bs ! n" by (auto simp: in_set_conv_nth)
  then have "(n, b) \<in> set (zip [0..<length bs] bs)" by (auto simp: set_zip intro!: exI [of _ n])
  ultimately show ?thesis unfolding block_order_def by blast
qed

lemma loop_edges_total:
  assumes "finite U" and "b \<in> U" and "\<And>x. set (preds x) \<subseteq> U"
  shows "\<forall>s \<in> set ss. order s \<noteq> None \<Longrightarrow> \<exists>d. loop_edges order preds n b ss depths = Some d"
proof (induction ss arbitrary: depths)
  case (Cons s ss)
  from loop_blocks_total [OF assms(1,2), of preds s] assms(3) obtain found where "loop_blocks preds s b = Some found" by blast
  with Cons show ?case by (cases "order s") auto
qed simp

lemma loop_depths_total:
  assumes "finite U" and "\<And>x. set (preds x) \<subseteq> U"
    and "\<And>b s. s \<in> succs b \<Longrightarrow> order s \<noteq> None" and "\<And>b. finite (succs b)"
  shows "\<forall>b \<in> set bs. order (mb_id b) \<noteq> None \<and> mb_id b \<in> U \<Longrightarrow>
    \<exists>d. loop_depths order preds succs bs depths = Some d"
proof (induction bs arbitrary: depths)
  case (Cons b bs)
  then obtain n where n: "order (mb_id b) = Some n" by auto
  have "\<forall>s \<in> set (sorted_list_of_set (succs (mb_id b))). order s \<noteq> None" using assms(3,4) by simp
  from loop_edges_total [OF assms(1), of "mb_id b" preds "sorted_list_of_set (succs (mb_id b))" order n depths] assms(2) this Cons.prems
  obtain d where "loop_edges order preds n (mb_id b) (sorted_list_of_set (succs (mb_id b))) depths = Some d"
    by auto
  with n Cons show ?case by simp
qed simp

text \<open>Every successor a terminator names is the id of a block.\<close>

definition succs_known :: "('r, 'i, 'z) target_inst_scheme \<Rightarrow> 'i machine_block list \<Rightarrow> bool" where
  "succs_known T bs \<longleftrightarrow> (\<forall>b \<in> set bs. \<forall>ss. term_succs T (rev (instructions b)) = Some ss \<longrightarrow>
     ss \<subseteq> mb_id ` set bs)"

lemma compute_block_weights_total:
  assumes cfg: "compute_cfg T (blocks mf) = Some cfg" and dist: "distinct (map mb_id (blocks mf))"
    and known: "succs_known T (blocks mf)"
  shows "\<exists>w. compute_block_weights T mf = Some w"
proof -
  let ?succs = "\<lambda>b. case cfg b of None \<Rightarrow> {} | Some ss \<Rightarrow> ss" and ?bs = "blocks mf"
  have sub: "?succs b \<subseteq> mb_id ` set ?bs" for b
  proof (cases "b \<in> mb_id ` set ?bs")
    case True
    then obtain c where "c \<in> set ?bs" "b = mb_id c" by blast
    with compute_cfg_block [OF cfg dist] known show ?thesis unfolding succs_known_def by force
  qed (simp add: compute_cfg_other [OF cfg])
  have order: "order s \<noteq> None" if "s \<in> ?succs b" "order = block_order ?bs" for b s order
    using sub that block_order_total [of _ ?bs] by fastforce
  have "\<exists>d. loop_depths (block_order ?bs) (predecessors ?bs ?succs) ?succs ?bs (\<lambda>_. 0) = Some d"
  proof (rule loop_depths_total [where U = "mb_id ` set ?bs"])
    show "set (predecessors ?bs ?succs x) \<subseteq> mb_id ` set ?bs" for x
      by (auto simp: predecessors_def)
    show "finite (?succs b)" for b using sub by (rule finite_subset) simp
    show "\<forall>b \<in> set ?bs. block_order ?bs (mb_id b) \<noteq> None \<and> mb_id b \<in> mb_id ` set ?bs"
      using block_order_total [of _ ?bs] by fastforce
  qed (use order in auto)
  then show ?thesis by (auto simp: compute_block_weights_def cfg Let_def)
qed

lemma build_insts_total:
  "\<forall>n < length is. get_live_after li b (index + n) \<noteq> None \<Longrightarrow> \<exists>G'. build_insts T li b index is G = Some G'"
proof (induction "is" arbitrary: index G)
  case (Cons i rest)
  from Cons.prems [rule_format, of 0] obtain X where X: "get_live_after li b index = Some X" by auto
  have "\<forall>n < length rest. get_live_after li b (Suc index + n) \<noteq> None"
    using Cons.prems [rule_format, of "Suc n" for n] by simp
  from Cons.IH [OF this] X show ?case by simp
qed simp

lemma stats_insts_total:
  "\<forall>n < length is. get_live_after li b (index + n) \<noteq> None \<Longrightarrow>
     \<exists>s. stats_insts T li w b index is stats = Some s"
proof (induction "is" arbitrary: index stats)
  case (Cons i rest)
  from Cons.prems [rule_format, of 0] obtain X where X: "get_live_after li b index = Some X" by auto
  then have "\<exists>s. stats_inst T w (get_live_after li b index) i stats = Some s"
    by (simp add: stats_inst_def Let_def)
  moreover have "\<forall>n < length rest. get_live_after li b (Suc index + n) \<noteq> None"
    using Cons.prems [rule_format, of "Suc n" for n] by simp
  ultimately show ?case using Cons.IH by auto
qed simp

definition live_total :: "'r liveness_info \<Rightarrow> 'i machine_block list \<Rightarrow> bool" where
  "live_total li bs \<longleftrightarrow> (\<forall>b \<in> set bs. \<forall>n < length (instructions b). get_live_after li (mb_id b) n \<noteq> None)"

lemma build_blocks_total: "live_total li bs \<Longrightarrow> \<exists>G'. build_blocks T li bs G = Some G'"
proof (induction bs arbitrary: G)
  case (Cons b bs)
  then have "\<forall>n < length (instructions b). get_live_after li (mb_id b) (0 + n) \<noteq> None"
    by (simp add: live_total_def)
  from build_insts_total [OF this] obtain G1
    where "build_insts T li (mb_id b) 0 (instructions b) G = Some G1" by blast
  moreover have "live_total li bs" using Cons.prems by (simp add: live_total_def)
  ultimately show ?case using Cons.IH by simp
qed simp

lemma collect_vreg_stats_total:
  "live_total li bs \<Longrightarrow> \<exists>s. collect_vreg_stats T li weights bs stats = Some s"
proof (induction bs arbitrary: stats)
  case (Cons b bs)
  then have "\<forall>n < length (instructions b). get_live_after li (mb_id b) (0 + n) \<noteq> None"
    by (simp add: live_total_def)
  from stats_insts_total [OF this] obtain s1
    where "stats_insts T li (weights (mb_id b)) (mb_id b) 0 (instructions b) stats = Some s1" by blast
  moreover have "live_total li bs" using Cons.prems by (simp add: live_total_def)
  ultimately show ?case using Cons.IH by simp
qed simp

lemma live_sound_total: "live_sound T mf li \<Longrightarrow> live_total li (blocks mf)"
  by (simp add: live_sound_def live_total_def)

text \<open>What one round computes, as far as its caller relies on it.\<close>

definition round_ok ::
  "('r, 'i, 'z) target_inst_scheme \<Rightarrow> ('r, 'i) machine_function \<Rightarrow> 'r liveness_info \<Rightarrow>
     'r interference_graph \<Rightarrow> vreg_id list \<Rightarrow> (vreg_id \<rightharpoonup> 'r) \<Rightarrow> bool" where
  "round_ok T mf li G spills assigned \<longleftrightarrow>
     liveness_analysis T mf = Some li \<and> live_sound T mf li \<and>
     edges_wf (edges G) \<and> graph_sound T li (blocks mf) G \<and>
     (\<exists>used. colouring_ok T G (fst ` set (edges G)) (spills, assigned, used))"

lemma compute_spill_result:
  assumes cfg: "compute_cfg T (blocks mf) = Some cfg" and dist: "distinct (map mb_id (blocks mf))"
    and known: "succs_known T (blocks mf)"
  shows "\<exists>spills assigned li G. compute_spill T mf = Some (spills, assigned) \<and>
    build T mf li = Some G \<and> round_ok T mf li G spills assigned"
proof -
  obtain li where li: "liveness_analysis T mf = Some li" "live_sound T mf li"
    using liveness_analysis_result [OF cfg dist] by blast
  have fin: "live_finite li" by (rule liveness_analysis_finite [OF cfg dist li(1)])
  have total: "live_total li (blocks mf)" by (rule live_sound_total [OF li(2)])
  obtain w where w: "compute_block_weights T mf = Some w"
    using compute_block_weights_total [OF cfg dist known] by blast
  obtain stats where stats: "collect_vreg_stats T li w (blocks mf) Map.empty = Some stats"
    using collect_vreg_stats_total [OF total] by blast
  obtain G where G: "build T mf li = Some G"
    using build_blocks_total [OF total] unfolding build_def by blast
  note gf = build_facts [OF G fin]
  obtain vs where vs: "simplify T G stats = Some vs" "distinct vs" "set vs = fst ` set (edges G)"
    using simplify_total [OF gf(1)] by blast
  let ?mp = "collect_move_pairs T w (blocks mf)"
  have "colouring_ok T G {} ([], Map.empty, {})" by (simp add: colouring_ok_def)
  from colour_facts [OF gf(1) this, of "rev vs" ?mp] vs obtain acc
    where acc: "colour T G ?mp (rev vs) ([], Map.empty, {}) = Some acc"
      "colouring_ok T G (fst ` set (edges G)) acc"
    by (auto simp: node_def)
  obtain spills assigned used where a: "acc = (spills, assigned, used)" by (cases acc)
  have "compute_spill T mf = Some (spills, assigned)"
    using li(1) w stats G vs(1) acc(1) a by (simp add: compute_spill_def Let_def)
  moreover have "round_ok T mf li G spills assigned"
    using li gf acc(2) a by (auto simp: round_ok_def)
  ultimately show ?thesis using G by blast
qed

text \<open>A graph all of whose nodes have fewer neighbours than registers is coloured without spills.\<close>

lemma low_degree_no_spill:
  assumes "colouring_ok T G D (spills, assigned, used)" and "edges_wf (edges G)"
    and "distinct (get_allocatable_regs T)"
    and "\<And>v. v \<in> D \<Longrightarrow> card (neighbours (edges G) v) < length (available_regs T G v)"
  shows "spills = []"
proof (rule ccontr)
  assume "spills \<noteq> []"
  then obtain v where v: "v \<in> set spills" by (cases spills) auto
  let ?taken = "{reg. \<exists>w. edge (edges G) v w \<and> assigned w = Some reg}"
  have "set (available_regs T G v) \<subseteq> ?taken" "v \<in> D"
    using assms(1) v by (auto simp: colouring_ok_def)
  moreover have "?taken \<subseteq> (\<lambda>w. the (assigned w)) ` neighbours (edges G) v"
    by (force simp: neighbours_def)
  moreover have fin: "finite (neighbours (edges G) v)" by (rule neighbours_finite [OF assms(2)])
  ultimately have "card (set (available_regs T G v)) \<le> card (neighbours (edges G) v)"
    by (meson card_image_le card_mono finite_imageI le_trans subset_trans)
  moreover have "card (set (available_regs T G v)) = length (available_regs T G v)"
    using assms(3) unfolding available_regs_def by (intro distinct_card distinct_filter)
  ultimately show False using assms(4) [OF \<open>v \<in> D\<close>] by simp
qed

text \<open>The register a register of the machine IR ends up in, if it has one.\<close>

definition register_of :: "(vreg_id \<rightharpoonup> 'r) \<Rightarrow> 'r register \<Rightarrow> 'r option" where
  "register_of assigned r = (case r of Virtual v \<Rightarrow> assigned v | Physical p \<Rightarrow> Some p)"

lemma register_of_simps [simp]:
  "register_of assigned (Virtual v) = assigned v" "register_of assigned (Physical p) = Some p"
  by (simp_all add: register_of_def)

lemma kept_apart_registers:
  assumes col: "colouring_ok T G D (spills, assigned, used)" and wf: "edges_wf (edges G)"
    and apart: "kept_apart G d x" and "x \<noteq> d" and d: "register_of assigned d = Some p"
  shows "register_of assigned x \<noteq> Some p"
proof -
  have differ: "\<And>v w. edge (edges G) v w \<Longrightarrow> assigned v \<noteq> None \<Longrightarrow> assigned v \<noteq> assigned w"
    using col by (simp add: colouring_ok_def)
  have allowed: "\<And>v q. assigned v = Some q \<Longrightarrow> q \<notin> forbidden_phys G v"
    using col by (auto simp: colouring_ok_def available_regs_def)
  show ?thesis
  proof (cases d)
    case v: (Virtual v)
    show ?thesis
    proof (cases x)
      case (Virtual w)
      with v apart \<open>x \<noteq> d\<close> have "edge (edges G) v w" by (simp add: kept_apart_def)
      from differ [OF this] d v Virtual show ?thesis by auto
    next
      case (Physical q)
      with v apart d allowed [of v p] show ?thesis by (auto simp: kept_apart_def)
    qed
  next
    case q: (Physical q)
    then show ?thesis
      using apart d allowed \<open>x \<noteq> d\<close> by (cases x) (auto simp: kept_apart_def)
  qed
qed

text \<open>A round on a well-formed function returns; it gives a register to every virtual register written
  except those it spills, and keeps each result apart from everything live after it.\<close>

lemma compute_spill_sound:
  assumes cfg: "compute_cfg T (blocks mf) = Some cfg" and dist: "distinct (map mb_id (blocks mf))"
    and known: "succs_known T (blocks mf)"
  shows "\<exists>spills assigned li. compute_spill T mf = Some (spills, assigned) \<and>
    liveness_analysis T mf = Some li \<and> dom assigned \<inter> set spills = {} \<and>
    ran assigned \<subseteq> set (get_allocatable_regs T) \<and>
    (\<forall>b \<in> set (blocks mf). \<forall>n < length (instructions b). \<exists>L. get_live_after li (mb_id b) n = Some L \<and>
       (\<forall>d \<in> set (def_regs T (instructions b ! n)).
          (\<forall>v. d = Virtual v \<longrightarrow> v \<in> dom assigned \<union> set spills) \<and>
          (\<forall>x \<in> L \<union> conflicts_of T (instructions b ! n) d. \<forall>p. x \<noteq> d \<longrightarrow>
             register_of assigned d = Some p \<longrightarrow> register_of assigned x \<noteq> Some p)))"
proof -
  obtain spills assigned li G where r: "compute_spill T mf = Some (spills, assigned)"
    "round_ok T mf li G spills assigned"
    using compute_spill_result [OF assms] by blast
  then obtain used where c: "colouring_ok T G (fst ` set (edges G)) (spills, assigned, used)"
    and wf: "edges_wf (edges G)" and g: "graph_sound T li (blocks mf) G"
    and li: "liveness_analysis T mf = Some li"
    by (auto simp: round_ok_def)
  have nodes: "node (edges G) v \<Longrightarrow> v \<in> dom assigned \<union> set spills" for v
    using c by (simp add: colouring_ok_def node_def)
  have "\<exists>L. get_live_after li (mb_id b) n = Some L \<and> (\<forall>d \<in> set (def_regs T (instructions b ! n)).
          (\<forall>v. d = Virtual v \<longrightarrow> v \<in> dom assigned \<union> set spills) \<and>
          (\<forall>x \<in> L \<union> conflicts_of T (instructions b ! n) d. \<forall>p. x \<noteq> d \<longrightarrow>
             register_of assigned d = Some p \<longrightarrow> register_of assigned x \<noteq> Some p))"
    if b: "b \<in> set (blocks mf)" "n < length (instructions b)" for b n
  proof -
    obtain L where L: "get_live_after li (mb_id b) n = Some L" "inst_in_graph T G L (instructions b ! n)"
      using g b unfolding graph_sound_def by blast
    with nodes kept_apart_registers [OF c wf] show ?thesis unfolding inst_in_graph_def by blast
  qed
  moreover have "dom assigned \<inter> set spills = {}" "ran assigned \<subseteq> set (get_allocatable_regs T)"
    using c by (auto simp: colouring_ok_def available_regs_def ran_def)
  ultimately show ?thesis using r(1) li by blast
qed

text \<open>When nothing is spilled the allocation is over, and no virtual register is written any more.\<close>

lemma alloc_rounds_no_spill: "compute_spill T mf = Some ([], assigned) \<Longrightarrow> alloc_rounds T mf = Some (mf, assigned)"
  by (simp add: alloc_rounds.simps)

lemma register_allocation_no_spill:
  "compute_spill T mf = Some ([], assigned) \<Longrightarrow>
     register_allocation T mf = Some (callee_saved_scan T (rewrite_function T assigned mf))"
  by (simp add: register_allocation_def alloc_rounds_no_spill)

lemma callee_saved_scan_frame [simp]:
  "blocks (callee_saved_scan T mf) = blocks mf" "entry (callee_saved_scan T mf) = entry mf"
  by (simp_all add: callee_saved_scan_def Let_def)

section \<open>What a spilling round does to the code\<close>

definition inst_vregs :: "('r, 'i, 'z) target_inst_scheme \<Rightarrow> 'i \<Rightarrow> vreg_id set" where
  "inst_vregs T i = virtuals (set (def_regs T i) \<union> set (use_regs T i))"

definition vregs_below :: "('r, 'i, 'z) target_inst_scheme \<Rightarrow> nat \<Rightarrow> 'i list \<Rightarrow> bool" where
  "vregs_below T n is \<longleftrightarrow> (\<forall>i \<in> set is. \<forall>v \<in> inst_vregs T i. v < n)"

lemma vregs_below_mono: "vregs_below T n is \<Longrightarrow> n \<le> m \<Longrightarrow> vregs_below T m is"
  by (force simp: vregs_below_def)

lemma unique_spilled_set: "set (unique_spilled_vregs spilled seen rs) = (virtuals (set rs) \<inter> spilled) - seen"
  by (induction spilled seen rs rule: unique_spilled_vregs.induct) (auto simp: virtuals_def)

text \<open>How the slots are reached.\<close>

locale spill_target = target_inst_laws T for T :: "('r, 'i, 'z) lowering_target_scheme" +
  assumes load_slot_regs: "def_regs T (emit_load_stack_slot T rd slot) = [rd]"
      "use_regs T (emit_load_stack_slot T rd slot) = [Physical (sp_reg T)]"
    and store_slot_regs: "def_regs T (emit_store_stack_slot T rs slot rt) = [rt]"
      "use_regs T (emit_store_stack_slot T rs slot rt) = [Physical (sp_reg T), rs]"
begin

lemma inst_vregs_load [simp]: "inst_vregs T (emit_load_stack_slot T (Virtual v) slot) = {v}"
  by (auto simp: inst_vregs_def load_slot_regs)

lemma inst_vregs_store [simp]: "inst_vregs T (emit_store_stack_slot T (Virtual v) slot (Virtual w)) = {v, w}"
  by (auto simp: inst_vregs_def store_slot_regs)

lemma inst_vregs_rewrite:
  "inst_vregs T (rewrite_vreg T i U D) =
     virtuals (rewrite_reg D ` set (def_regs T i) \<union> rewrite_reg U ` set (use_regs T i))"
  by (simp add: inst_vregs_def def_rewrite use_rewrite)

text \<open>A fresh name for each spilled register read or written.\<close>

definition maps_into :: "nat \<Rightarrow> nat \<Rightarrow> (vreg_id \<rightharpoonup> 'r register) \<Rightarrow> bool" where
  "maps_into lo hi m \<longleftrightarrow> (\<forall>v r. m v = Some r \<longrightarrow> r \<in> Virtual ` {lo..<hi})"

lemma maps_into_upd:
  "maps_into (Suc lo) hi m \<Longrightarrow> Suc lo \<le> hi \<Longrightarrow> maps_into lo hi (m(v \<mapsto> Virtual lo))"
  by (force simp: maps_into_def)

lemma spill_uses_facts:
  "\<forall>v \<in> set vs. slots v \<noteq> None \<Longrightarrow> \<exists>is m mf'. spill_uses T slots vs mf = Some (is, m, mf') \<and>
     vreg_counter mf \<le> vreg_counter mf' \<and> dom m = set vs \<and>
     maps_into (vreg_counter mf) (vreg_counter mf') m \<and>
     (\<forall>i \<in> set is. \<forall>v \<in> inst_vregs T i. vreg_counter mf \<le> v \<and> v < vreg_counter mf')"
proof (induction vs arbitrary: mf)
  case (Cons v vs)
  let ?mf = "mf\<lparr>vreg_counter := Suc (vreg_counter mf)\<rparr>"
  obtain "is" m mf' where IH: "spill_uses T slots vs ?mf = Some (is, m, mf')"
    "Suc (vreg_counter mf) \<le> vreg_counter mf'" "dom m = set vs"
    "maps_into (Suc (vreg_counter mf)) (vreg_counter mf') m"
    "\<forall>i \<in> set is. \<forall>v \<in> inst_vregs T i. Suc (vreg_counter mf) \<le> v \<and> v < vreg_counter mf'"
    using Cons.IH [of ?mf] Cons.prems by auto
  obtain slot where "slots v = Some slot" using Cons.prems by auto
  with IH(1) have "spill_uses T slots (v # vs) mf =
      Some (emit_load_stack_slot T (Virtual (vreg_counter mf)) slot # is, m(v \<mapsto> Virtual (vreg_counter mf)), mf')"
    by (simp add: new_vreg_def)
  moreover have "maps_into (vreg_counter mf) (vreg_counter mf') (m(v \<mapsto> Virtual (vreg_counter mf)))"
    using IH(2,4) by (intro maps_into_upd)
  moreover have "\<forall>i \<in> set (emit_load_stack_slot T (Virtual (vreg_counter mf)) slot # is).
      \<forall>v \<in> inst_vregs T i. vreg_counter mf \<le> v \<and> v < vreg_counter mf'"
    using IH(2,5) by (auto dest: Suc_leD)
  moreover have "vreg_counter mf \<le> vreg_counter mf'" "dom (m(v \<mapsto> Virtual (vreg_counter mf))) = set (v # vs)"
    using IH(2,3) by auto
  ultimately show ?case by blast
qed (simp add: maps_into_def)

lemma spill_defs_facts:
  "\<exists>m mf'. spill_defs vs mf = (m, mf') \<and> vreg_counter mf \<le> vreg_counter mf' \<and> dom m = set vs \<and>
     maps_into (vreg_counter mf) (vreg_counter mf') m"
proof (induction vs arbitrary: mf)
  case (Cons v vs)
  let ?mf = "mf\<lparr>vreg_counter := Suc (vreg_counter mf)\<rparr>"
  obtain m mf' where IH: "spill_defs vs ?mf = (m, mf')" "Suc (vreg_counter mf) \<le> vreg_counter mf'" "dom m = set vs"
    "maps_into (Suc (vreg_counter mf)) (vreg_counter mf') m"
    using Cons.IH [of ?mf] by auto
  have "spill_defs (v # vs) mf = (m(v \<mapsto> Virtual (vreg_counter mf)), mf')"
    using IH(1) by (simp add: new_vreg_def)
  moreover have "maps_into (vreg_counter mf) (vreg_counter mf') (m(v \<mapsto> Virtual (vreg_counter mf)))"
    using IH(2,4) by (intro maps_into_upd)
  ultimately show ?case using IH(2,3) by auto
qed (simp add: maps_into_def)

lemma spill_stores_facts:
  "\<forall>v \<in> set vs. slots v \<noteq> None \<Longrightarrow> \<forall>v \<in> set vs. \<exists>t. m v = Some (Virtual t) \<and> lo \<le> t \<and> t < vreg_counter mf \<Longrightarrow>
     lo \<le> vreg_counter mf \<Longrightarrow>
     \<exists>is mf'. spill_stores T slots m vs mf = Some (is, mf') \<and> vreg_counter mf \<le> vreg_counter mf' \<and>
       (\<forall>i \<in> set is. \<forall>v \<in> inst_vregs T i. lo \<le> v \<and> v < vreg_counter mf')"
proof (induction vs arbitrary: mf)
  case (Cons v vs)
  let ?mf = "mf\<lparr>vreg_counter := Suc (vreg_counter mf)\<rparr>"
  have "\<forall>v \<in> set vs. \<exists>t. m v = Some (Virtual t) \<and> lo \<le> t \<and> t < vreg_counter ?mf"
    using Cons.prems(2) less_SucI by fastforce
  then obtain "is" mf' where IH: "spill_stores T slots m vs ?mf = Some (is, mf')"
    "Suc (vreg_counter mf) \<le> vreg_counter mf'"
    "\<forall>i \<in> set is. \<forall>v \<in> inst_vregs T i. lo \<le> v \<and> v < vreg_counter mf'"
    using Cons.IH [of ?mf] Cons.prems(1,3) by auto
  obtain slot t where st: "slots v = Some slot" "m v = Some (Virtual t)" "lo \<le> t" "t < vreg_counter mf"
    using Cons.prems(1,2) by auto
  with IH(1) have "spill_stores T slots m (v # vs) mf =
      Some (emit_store_stack_slot T (Virtual t) slot (Virtual (vreg_counter mf)) # is, mf')"
    by (simp add: new_vreg_def)
  moreover have "\<forall>i \<in> set (emit_store_stack_slot T (Virtual t) slot (Virtual (vreg_counter mf)) # is).
      \<forall>v \<in> inst_vregs T i. lo \<le> v \<and> v < vreg_counter mf'"
    using IH(2,3) st(3,4) Cons.prems(3) by auto
  ultimately show ?case using IH(2) by auto
qed simp

lemma rewrite_virtual:
  assumes "Virtual w \<in> rewrite_reg m ` set rs" and "dom m = set (unique_spilled_vregs spilled {} rs)"
    and "maps_into lo hi m"
  shows "w \<in> virtuals (set rs) - spilled \<or> lo \<le> w \<and> w < hi"
proof -
  obtain r where r: "r \<in> set rs" "rewrite_reg m r = Virtual w" using assms(1) by auto
  from r(2) obtain v where v: "r = Virtual v" by (cases r) simp_all
  show ?thesis
  proof (cases "m v")
    case None
    with assms(2) have "v \<notin> set (unique_spilled_vregs spilled {} rs)" by blast
    with r v None show ?thesis by (auto simp: unique_spilled_set rewrite_reg_def)
  next
    case (Some x)
    with assms(3) r(2) v show ?thesis by (force simp: rewrite_reg_def maps_into_def)
  qed
qed

lemma spill_inst_facts:
  assumes "\<forall>v \<in> spilled. slots v \<noteq> None"
  shows "\<exists>is mf'. spill_inst T spilled slots inst mf = Some (is, mf') \<and> vreg_counter mf \<le> vreg_counter mf' \<and>
    (\<forall>i \<in> set is. \<forall>v \<in> inst_vregs T i. v \<in> inst_vregs T inst - spilled \<or> vreg_counter mf \<le> v \<and> v < vreg_counter mf')"
proof -
  let ?us = "unique_spilled_vregs spilled {} (use_regs T inst)"
  let ?ds = "unique_spilled_vregs spilled {} (def_regs T inst)"
  have slots: "\<forall>v \<in> set ?us. slots v \<noteq> None" "\<forall>v \<in> set ?ds. slots v \<noteq> None"
    using assms by (auto simp: unique_spilled_set)
  obtain loads U mf1 where 1: "spill_uses T slots ?us mf = Some (loads, U, mf1)"
    "vreg_counter mf \<le> vreg_counter mf1" "dom U = set ?us"
    "maps_into (vreg_counter mf) (vreg_counter mf1) U"
    "\<forall>i \<in> set loads. \<forall>v \<in> inst_vregs T i. vreg_counter mf \<le> v \<and> v < vreg_counter mf1"
    using spill_uses_facts [OF slots(1), of mf] by blast
  obtain D mf2 where 2: "spill_defs ?ds mf1 = (D, mf2)" "vreg_counter mf1 \<le> vreg_counter mf2" "dom D = set ?ds"
    "maps_into (vreg_counter mf1) (vreg_counter mf2) D"
    using spill_defs_facts [of ?ds mf1] by blast
  have "\<forall>v \<in> set ?ds. \<exists>t. D v = Some (Virtual t) \<and> vreg_counter mf1 \<le> t \<and> t < vreg_counter mf2"
  proof
    fix v assume "v \<in> set ?ds"
    then obtain r where "D v = Some r" using 2(3) by blast
    with 2(4) show "\<exists>t. D v = Some (Virtual t) \<and> vreg_counter mf1 \<le> t \<and> t < vreg_counter mf2"
      by (force simp: maps_into_def)
  qed
  from spill_stores_facts [OF slots(2) this 2(2)] obtain stores mf3
    where 3: "spill_stores T slots D ?ds mf2 = Some (stores, mf3)" "vreg_counter mf2 \<le> vreg_counter mf3"
      "\<forall>i \<in> set stores. \<forall>v \<in> inst_vregs T i. vreg_counter mf1 \<le> v \<and> v < vreg_counter mf3" by blast
  have res: "spill_inst T spilled slots inst mf = Some (loads @ rewrite_vreg T inst U D # stores, mf3)"
    using 1(1) 2(1) 3(1) by (simp add: spill_inst_def Let_def)
  have "w \<in> inst_vregs T inst - spilled \<or> vreg_counter mf \<le> w \<and> w < vreg_counter mf3"
    if "w \<in> inst_vregs T (rewrite_vreg T inst U D)" for w
    using that rewrite_virtual [OF _ 2(3,4), of w] rewrite_virtual [OF _ 1(3,4), of w] 1(2) 2(2) 3(2)
    unfolding inst_vregs_rewrite virtuals_iff Un_iff by (auto simp: inst_vregs_def)
  with 1(2,5) 2(2) 3(2,3) have "\<forall>i \<in> set (loads @ rewrite_vreg T inst U D # stores). \<forall>v \<in> inst_vregs T i.
      v \<in> inst_vregs T inst - spilled \<or> vreg_counter mf \<le> v \<and> v < vreg_counter mf3"
    by (fastforce dest: bspec)
  with res 1(2) 2(2) 3(2) show ?thesis by (auto intro: le_trans)
qed

text \<open>The code after a round: only registers that were not spilled, and fresh ones.\<close>

definition vregs_ok :: "nat \<Rightarrow> vreg_id set \<Rightarrow> nat \<Rightarrow> 'i list \<Rightarrow> bool" where
  "vregs_ok lo spilled hi is \<longleftrightarrow>
     (\<forall>i \<in> set is. \<forall>v \<in> inst_vregs T i. v < lo \<and> v \<notin> spilled \<or> lo \<le> v \<and> v < hi)"

lemma vregs_ok_mono: "vregs_ok lo spilled hi is \<Longrightarrow> hi \<le> hi' \<Longrightarrow> vregs_ok lo spilled hi' is"
  by (force simp: vregs_ok_def)

lemma vregs_ok_append [simp]:
  "vregs_ok lo spilled hi (is @ js) \<longleftrightarrow> vregs_ok lo spilled hi is \<and> vregs_ok lo spilled hi js"
  by (auto simp: vregs_ok_def)

lemma spill_insts_facts:
  assumes slots: "\<forall>v \<in> spilled. slots v \<noteq> None"
  shows "vregs_below T lo is \<Longrightarrow> lo \<le> vreg_counter mf \<Longrightarrow>
    \<exists>is' mf'. spill_insts T spilled slots is mf = Some (is', mf') \<and> vreg_counter mf \<le> vreg_counter mf' \<and>
      vregs_ok lo spilled (vreg_counter mf') is'"
proof (induction "is" arbitrary: mf)
  case Nil
  then show ?case by (simp add: vregs_ok_def)
next
  case (Cons i rest)
  obtain is1 mf1 where 1: "spill_inst T spilled slots i mf = Some (is1, mf1)" "vreg_counter mf \<le> vreg_counter mf1"
    "\<forall>j \<in> set is1. \<forall>v \<in> inst_vregs T j. v \<in> inst_vregs T i - spilled \<or> vreg_counter mf \<le> v \<and> v < vreg_counter mf1"
    using spill_inst_facts [OF slots, of i mf] by blast
  have below: "vregs_below T lo rest" "lo \<le> vreg_counter mf1"
    using Cons.prems 1(2) by (auto simp: vregs_below_def)
  obtain is2 mf2 where 2: "spill_insts T spilled slots rest mf1 = Some (is2, mf2)"
    "vreg_counter mf1 \<le> vreg_counter mf2" "vregs_ok lo spilled (vreg_counter mf2) is2"
    using Cons.IH [OF below] by blast
  have "\<forall>v \<in> inst_vregs T i. v < lo" using Cons.prems(1) by (simp add: vregs_below_def)
  then have "vregs_ok lo spilled (vreg_counter mf1) is1"
    using 1(3) Cons.prems(2) unfolding vregs_ok_def by (meson DiffD1 DiffD2 le_trans)
  then have "vregs_ok lo spilled (vreg_counter mf2) (is1 @ is2)"
    using vregs_ok_mono [OF _ 2(2)] 2(3) by simp
  with 1(1,2) 2(1,2) show ?case by auto
qed

lemma spill_blocks_facts:
  assumes slots: "\<forall>v \<in> spilled. slots v \<noteq> None"
  shows "\<forall>b \<in> set bs. vregs_below T lo (instructions b) \<Longrightarrow> lo \<le> vreg_counter mf \<Longrightarrow>
    \<exists>bs' mf'. spill_blocks T spilled slots bs mf = Some (bs', mf') \<and> vreg_counter mf \<le> vreg_counter mf' \<and>
      map mb_id bs' = map mb_id bs \<and> (\<forall>b \<in> set bs'. vregs_ok lo spilled (vreg_counter mf') (instructions b))"
proof (induction bs arbitrary: mf)
  case (Cons b bs)
  obtain is1 mf1 where 1: "spill_insts T spilled slots (instructions b) mf = Some (is1, mf1)"
    "vreg_counter mf \<le> vreg_counter mf1" "vregs_ok lo spilled (vreg_counter mf1) is1"
    using spill_insts_facts [OF slots, of lo "instructions b" mf] Cons.prems by auto
  obtain bs2 mf2 where 2: "spill_blocks T spilled slots bs mf1 = Some (bs2, mf2)"
    "vreg_counter mf1 \<le> vreg_counter mf2" "map mb_id bs2 = map mb_id bs"
    "\<forall>b \<in> set bs2. vregs_ok lo spilled (vreg_counter mf2) (instructions b)"
    using Cons.IH [of mf1] Cons.prems 1(2) by auto
  have "vregs_ok lo spilled (vreg_counter mf2) is1" by (rule vregs_ok_mono [OF 1(3) 2(2)])
  with 1(1,2) 2 show ?case by auto
qed simp

lemma spill_slots_facts:
  assumes "spill_slots T vs mf m = (slots, mf')"
  shows "vreg_counter mf' = vreg_counter mf" "blocks mf' = blocks mf"
    "\<forall>v. v \<in> set vs \<or> m v \<noteq> None \<longrightarrow> slots v \<noteq> None"
    "frame_info_wf (frame_info mf) \<Longrightarrow> frame_info_wf (frame_info mf')"
    "length (stack_slots (frame_info mf')) = length (stack_slots (frame_info mf)) + length vs"
proof -
  have "vreg_counter mf' = vreg_counter mf \<and> blocks mf' = blocks mf \<and>
    (\<forall>v. v \<in> set vs \<or> m v \<noteq> None \<longrightarrow> slots v \<noteq> None) \<and>
    (frame_info_wf (frame_info mf) \<longrightarrow> frame_info_wf (frame_info mf')) \<and>
    length (stack_slots (frame_info mf')) = length (stack_slots (frame_info mf)) + length vs"
    using assms
  proof (induction vs arbitrary: mf m)
    case (Cons v vs)
    obtain slot mf1 where n: "new_stack_slot mf (WORD_SIZE T) (WORD_SIZE T) SpillSlot = (slot, mf1)" by fastforce
    have "spill_slots T vs mf1 (m(v \<mapsto> slot)) = (slots, mf')" using Cons.prems n by simp
    from Cons.IH [OF this] new_stack_slot_frame [OF n] new_stack_slot_wf [OF _ n]
    show ?case by (auto split: if_splits)
  qed simp
  then show "vreg_counter mf' = vreg_counter mf" "blocks mf' = blocks mf"
    "\<forall>v. v \<in> set vs \<or> m v \<noteq> None \<longrightarrow> slots v \<noteq> None"
    "frame_info_wf (frame_info mf) \<Longrightarrow> frame_info_wf (frame_info mf')"
    "length (stack_slots (frame_info mf')) = length (stack_slots (frame_info mf)) + length vs"
    by simp_all
qed

text \<open>A round never panics, and every register it was asked to spill is gone afterwards.\<close>

lemma spill_vreg_facts:
  assumes below: "\<forall>b \<in> set (blocks mf). vregs_below T (vreg_counter mf) (instructions b)"
  shows "\<exists>mf'. spill_vreg T vs mf = Some mf' \<and> map mb_id (blocks mf') = map mb_id (blocks mf) \<and>
    vreg_counter mf \<le> vreg_counter mf' \<and>
    (\<forall>b \<in> set (blocks mf'). vregs_ok (vreg_counter mf) (set vs) (vreg_counter mf') (instructions b))"
proof -
  obtain slots mf1 where 1: "spill_slots T vs mf Map.empty = (slots, mf1)" by fastforce
  note F = spill_slots_facts [OF 1]
  have "\<forall>v \<in> set vs. slots v \<noteq> None" using F(3) by blast
  from spill_blocks_facts [OF this, of "blocks mf1" "vreg_counter mf" mf1] below F(1,2)
  obtain bs mf2 where 2: "spill_blocks T (set vs) slots (blocks mf1) mf1 = Some (bs, mf2)"
    "vreg_counter mf \<le> vreg_counter mf2" "map mb_id bs = map mb_id (blocks mf)"
    "\<forall>b \<in> set bs. vregs_ok (vreg_counter mf) (set vs) (vreg_counter mf2) (instructions b)" by auto
  have "spill_vreg T vs mf = Some (mf2\<lparr>blocks := bs\<rparr>)" using 1 2(1) by (simp add: spill_vreg_def)
  with 2 show ?thesis by simp
qed

end

end
