(* ===== verification/Alloc_Sim.thy ===== *)
theory Alloc_Sim
  imports Reg_Alloc Branch_Relax Machine_Sem
begin

text \<open>
  A proper colouring keeps the meaning of a function.  The states before and after allocation are
  related when the memory is the same and every live register has, under the renaming, the value it
  had; the relation is carried along a run.  The locale \<open>rename_machine\<close> is what this needs of a
  target: an instruction under a renaming does to the renamed registers what it did to the originals.
\<close>

section \<open>The relation\<close>

definition renaming :: "(vreg_id \<rightharpoonup> 'r) \<Rightarrow> vreg_id \<rightharpoonup> 'r register" where
  "renaming assigned v = map_option Physical (assigned v)"

definition renamed :: "(vreg_id \<rightharpoonup> 'r) \<Rightarrow> 'r register \<Rightarrow> 'r register" where
  "renamed assigned r = rewrite_reg (renaming assigned) r"

lemma rewrite_renaming [simp]: "rewrite_reg (renaming assigned) r = renamed assigned r"
  by (simp add: renamed_def)

lemma renamed_simps [simp]:
  "renamed assigned (Physical p) = Physical p"
  "renamed assigned (Virtual v) = (case assigned v of Some p \<Rightarrow> Physical p | None \<Rightarrow> Virtual v)"
  by (simp_all add: renamed_def rewrite_reg_def renaming_def split: option.splits)

lemma renamed_eq_physical:
  "ran assigned \<subseteq> set regs \<Longrightarrow> p \<notin> set regs \<Longrightarrow> renamed assigned r = Physical p \<longleftrightarrow> r = Physical p"
  by (cases r) (auto simp: ran_def split: option.splits)

text \<open>The effect of one instruction, in the original and in the renamed program: the memories stay
  the same, the results go to the renamed registers, and nothing else is written.  The registers
  \<open>scr\<close> are written without a value the source program knows of.\<close>

definition rename_effect ::
  "'r \<Rightarrow> ('r register \<Rightarrow> 'r register) \<Rightarrow> 'r register list \<Rightarrow> 'r register set \<Rightarrow>
     ('r, 'w :: len word) mstate \<Rightarrow> ('r, 'w word) mstate \<Rightarrow> ('r, 'w word) mstate \<Rightarrow> ('r, 'w word) mstate \<Rightarrow> bool" where
  "rename_effect zero f ds scr st st' st1 st1' \<longleftrightarrow> memory st1' = memory st1 \<and>
     (\<forall>d \<in> set ds - scr. get_reg zero st1' (f d) = get_reg zero st1 d) \<and>
     (\<forall>r. r \<notin> set ds \<longrightarrow> get_reg zero st1 r = get_reg zero st r) \<and>
     (\<forall>r. r \<notin> f ` set ds \<longrightarrow> get_reg zero st1' r = get_reg zero st' r)"

text \<open>Two outcomes of the same kind, with related states.\<close>

definition same_control :: "('st \<Rightarrow> 'st \<Rightarrow> bool) \<Rightarrow> 'st control \<Rightarrow> 'st control \<Rightarrow> bool" where
  "same_control R c c' = (case (c, c') of
     (Fall x, Fall y) \<Rightarrow> R x y
   | (Goto b x, Goto b' y) \<Rightarrow> b' = b \<and> R x y
   | (Return x, Return y) \<Rightarrow> R x y
   | _ \<Rightarrow> False)"

lemma same_control_simps [simp]:
  "same_control R (Fall x) c' \<longleftrightarrow> (\<exists>y. c' = Fall y \<and> R x y)"
  "same_control R (Goto b x) c' \<longleftrightarrow> (\<exists>y. c' = Goto b y \<and> R x y)"
  "same_control R (Return x) c' \<longleftrightarrow> (\<exists>y. c' = Return y \<and> R x y)"
  by (auto simp: same_control_def split: control.splits)

lemma same_control_mono: "same_control R c c' \<Longrightarrow> (\<And>x y. R x y \<Longrightarrow> R' x y) \<Longrightarrow> same_control R' c c'"
  by (cases c) auto

lemma rename_effect_same:
  "memory st' = memory st \<Longrightarrow> ds = [] \<Longrightarrow> rename_effect zero f ds scr st st' st st'"
  by (simp add: rename_effect_def)

lemma rename_effect_memory:
  "rename_effect zero f [] scr st st' (st\<lparr>memory := m\<rparr>) (st'\<lparr>memory := m\<rparr>)"
  by (simp add: rename_effect_def)

text \<open>A pseudo-store: its scratch register may be changed by the expansion only.\<close>

lemma rename_effect_memory_scratch:
  "rt \<in> scr \<Longrightarrow> rename_effect zero f [rt] scr st st' (st\<lparr>memory := m\<rparr>) (st'\<lparr>memory := m\<rparr>)"
  by (simp add: rename_effect_def)

lemma rename_effect_put:
  assumes "memory st' = memory st" and "f rd = Physical zero \<longleftrightarrow> rd = Physical zero"
  shows "rename_effect zero f [rd] scr st st' (put_reg zero rd v st) (put_reg zero (f rd) v st')"
  using assms by (auto simp: rename_effect_def get_put_reg)

section \<open>What a target provides\<close>

locale rename_machine = target_inst_laws T + control_machine T step
  for T :: "('r :: linorder, 'i, 'z) lowering_target_scheme"
    and step :: "'i \<Rightarrow> ('r, 'w :: len word) mstate \<Rightarrow> ('r, 'w word) mstate control option" +
  fixes plain :: "'i \<Rightarrow> bool"
    and scratch :: "'i \<Rightarrow> 'r register set"
    and stable ghost returned :: "'r set"
  assumes step_rename: "step i st = Some c \<Longrightarrow> plain i \<Longrightarrow> memory st' = memory st \<Longrightarrow>
      (\<And>u. u \<in> set (use_regs T i) - Physical ` ghost \<Longrightarrow>
         get_reg (zero_reg T) st' (renamed assigned u) = get_reg (zero_reg T) st u) \<Longrightarrow>
      (\<And>p. p \<in> stable \<Longrightarrow> get_reg (zero_reg T) st' (Physical p) = get_reg (zero_reg T) st (Physical p)) \<Longrightarrow>
      ran assigned \<subseteq> set (get_allocatable_regs T) \<Longrightarrow>
      \<exists>c'. step (rewrite_vreg T i (renaming assigned) (renaming assigned)) st' = Some c' \<and>
        same_control (rename_effect (zero_reg T) (renamed assigned) (def_regs T i)
          (scratch i \<union> Physical ` ghost) st st') c c'"
    and stable_reserved: "stable \<inter> set (get_allocatable_regs T) = {}"
    and zero_stable: "zero_reg T \<in> stable"
    and scratch_unstable: "(scratch i \<union> Physical ` ghost) \<inter> Physical ` stable = {}"
    and successors_terminate: "get_successors T i = Some ss \<Longrightarrow> ss \<noteq> [] \<Longrightarrow> is_terminator T i"
    and step_return: "step i st = Some (Return st1) \<Longrightarrow>
      st1 = st \<and> Physical ` returned \<subseteq> set (use_regs T i)"
    and returned_not_ghost: "returned \<inter> ghost = {}"
begin

abbreviation "get \<equiv> get_reg (zero_reg T)"

definition alloc_rel :: "(vreg_id \<rightharpoonup> 'r) \<Rightarrow> 'r register set \<Rightarrow> ('r, 'w word) mstate \<Rightarrow> ('r, 'w word) mstate \<Rightarrow> bool" where
  "alloc_rel assigned L st st' \<longleftrightarrow> memory st' = memory st \<and>
     (\<forall>r \<in> L - Physical ` ghost. get st' (renamed assigned r) = get st r) \<and>
     (\<forall>p \<in> stable. get st' (Physical p) = get st (Physical p))"

lemma alloc_rel_mono: "alloc_rel assigned L st st' \<Longrightarrow> L' \<subseteq> L \<union> Physical ` stable \<Longrightarrow> alloc_rel assigned L' st st'"
  by (auto simp: alloc_rel_def)

text \<open>A colouring that gives a register to every node of the graph.\<close>

definition full_colouring :: "'r interference_graph \<Rightarrow> (vreg_id \<rightharpoonup> 'r) \<Rightarrow> bool" where
  "full_colouring G assigned \<longleftrightarrow> edges_wf (edges G) \<and>
     (\<exists>used. colouring_ok T G (fst ` set (edges G)) ([], assigned, used))"

lemma full_colouringD:
  assumes "full_colouring G assigned"
  shows "node (edges G) v \<Longrightarrow> \<exists>p. assigned v = Some p"
    "edge (edges G) v w \<Longrightarrow> \<exists>p q. assigned v = Some p \<and> assigned w = Some q \<and> p \<noteq> q"
    "assigned v = Some p \<Longrightarrow> p \<notin> forbidden_phys G v \<and> p \<in> set (get_allocatable_regs T)"
    "ran assigned \<subseteq> set (get_allocatable_regs T)"
proof -
  from assms obtain used where c: "colouring_ok T G (fst ` set (edges G)) ([], assigned, used)"
      and wf: "edges_wf (edges G)"
    by (auto simp: full_colouring_def)
  have dom: "dom assigned = fst ` set (edges G)" using c by (simp add: colouring_ok_def)
  show n: "\<exists>p. assigned v = Some p" if "node (edges G) v" for v using that dom by (auto simp: node_def)
  show "edge (edges G) v w \<Longrightarrow> \<exists>p q. assigned v = Some p \<and> assigned w = Some q \<and> p \<noteq> q"
  proof -
    assume e: "edge (edges G) v w"
    then have "node (edges G) v" "node (edges G) w" using wf edge_node unfolding edges_wf_def by blast+
    then obtain p q where "assigned v = Some p" "assigned w = Some q" using n by blast
    moreover have "\<And>v w. edge (edges G) v w \<Longrightarrow> assigned v \<noteq> None \<Longrightarrow> assigned v \<noteq> assigned w"
      using c by (simp add: colouring_ok_def)
    note this [OF e]
    ultimately show ?thesis by auto
  qed
  show *: "p \<notin> forbidden_phys G v \<and> p \<in> set (get_allocatable_regs T)" if "assigned v = Some p" for v p
    using c that by (auto simp: colouring_ok_def available_regs_def)
  show "ran assigned \<subseteq> set (get_allocatable_regs T)" using * by (auto simp: ran_def)
qed

lemma renamed_distinct:
  assumes col: "full_colouring G assigned" and inst: "inst_in_graph T G L i"
    and d: "d \<in> set (def_regs T i)" and r: "r \<in> L" "r \<noteq> d"
  shows "renamed assigned r \<noteq> renamed assigned d"
proof -
  note F = full_colouringD [OF col]
  have k: "kept_apart G d r" using inst d r(1) unfolding inst_in_graph_def by blast
  have n: "\<And>v. d = Virtual v \<Longrightarrow> node (edges G) v" using inst d unfolding inst_in_graph_def by blast
  show ?thesis
  proof (cases d)
    case d': (Virtual v)
    obtain p where p: "assigned v = Some p" using F(1) [OF n [OF d']] by blast
    show ?thesis
    proof (cases r)
      case r': (Virtual w)
      with k d' r(2) have "edge (edges G) v w" by (simp add: kept_apart_def)
      from F(2) [OF this] d' r' show ?thesis by auto
    next
      case (Physical q)
      with k d' F(3) [OF p] p show ?thesis by (auto simp: kept_apart_def)
    qed
  next
    case d': (Physical p)
    show ?thesis
    proof (cases r)
      case r': (Virtual w)
      with k d' F(3) [of w] show ?thesis by (auto simp: kept_apart_def split: option.splits)
    next
      case (Physical q)
      with d' r(2) show ?thesis by simp
    qed
  qed
qed

text \<open>One instruction keeps the relation.\<close>

lemma effect_keeps_rel:
  assumes col: "full_colouring G assigned" and inst: "inst_in_graph T G L i"
    and rel: "alloc_rel assigned (live_before T i L) st st'"
    and eff: "rename_effect (zero_reg T) (renamed assigned) (def_regs T i)
      (scratch i \<union> Physical ` ghost) st st' st1 st1'"
    and dead: "scratch i \<inter> L = {}"
  shows "alloc_rel assigned L st1 st1'"
  unfolding alloc_rel_def
proof (intro conjI ballI)
  show "memory st1' = memory st1" using eff by (simp add: rename_effect_def)
next
  fix r assume r: "r \<in> L - Physical ` ghost"
  show "get st1' (renamed assigned r) = get st1 r"
  proof (cases "r \<in> set (def_regs T i)")
    case True
    with eff dead r show ?thesis by (auto simp: rename_effect_def)
  next
    case False
    have "renamed assigned r \<notin> renamed assigned ` set (def_regs T i)"
      using renamed_distinct [OF col inst] r False by blast
    moreover have "r \<in> live_before T i L - Physical ` ghost" using r False by (simp add: live_before_def)
    ultimately show ?thesis using eff rel False by (simp add: rename_effect_def alloc_rel_def)
  qed
next
  fix p assume p: "p \<in> stable"
  show "get st1' (Physical p) = get st1 (Physical p)"
  proof (cases "Physical p \<in> set (def_regs T i)")
    case True
    moreover have "Physical p \<notin> scratch i \<union> Physical ` ghost" using scratch_unstable [of i] p by blast
    ultimately have "get st1' (renamed assigned (Physical p)) = get st1 (Physical p)"
      using eff unfolding rename_effect_def by blast
    then show ?thesis by simp
  next
    case False
    have "Physical p \<noteq> renamed assigned d" if "d \<in> set (def_regs T i)" for d
    proof (cases d)
      case (Virtual v)
      have "p \<notin> ran assigned" using full_colouringD(4) [OF col] stable_reserved p by blast
      with Virtual show ?thesis by (auto simp: ran_def split: option.splits)
    next
      case (Physical q)
      with that False show ?thesis by auto
    qed
    then have "Physical p \<notin> renamed assigned ` set (def_regs T i)" by blast
    with eff rel False p show ?thesis by (simp add: rename_effect_def alloc_rel_def)
  qed
qed

text \<open>A function whose terminators stand at the end of their blocks, write at most the zero register,
  and close the block.\<close>

definition terms_last :: "'i list \<Rightarrow> bool" where
  "terms_last is \<longleftrightarrow> (\<forall>n m. n \<le> m \<longrightarrow> m < length is \<longrightarrow> is_terminator T (is ! n) \<longrightarrow>
     is_terminator T (is ! m) \<and> set (def_regs T (is ! m)) \<subseteq> {Physical (zero_reg T)})"

definition plain_block :: "'r liveness_info \<Rightarrow> 'i machine_block \<Rightarrow> bool" where
  "plain_block li b \<longleftrightarrow> (\<forall>n < length (instructions b). plain (instructions b ! n) \<and>
     (\<forall>L. get_live_after li (mb_id b) n = Some L \<longrightarrow> scratch (instructions b ! n) \<inter> L = {}))"

definition rename_item :: "(vreg_id \<rightharpoonup> 'r) \<Rightarrow> 'i item \<Rightarrow> 'i item" where
  "rename_item assigned x = (case x of
     Label b \<Rightarrow> Label b | Ins i \<Rightarrow> Ins (rewrite_vreg T i (renaming assigned) (renaming assigned)))"

lemma rename_item_simps [simp]:
  "rename_item assigned (Label b) = Label b"
  "rename_item assigned (Ins i) = Ins (rewrite_vreg T i (renaming assigned) (renaming assigned))"
  by (simp_all add: rename_item_def)

lemma items_rewrite: "items (blocks (rewrite_function T assigned mf)) = map (rename_item assigned) (items (blocks mf))"
proof -
  have "items (map (\<lambda>b. b\<lparr>instructions := map (\<lambda>i. rewrite_vreg T i (renaming assigned) (renaming assigned))
      (instructions b)\<rparr>) bs) = map (rename_item assigned) (items bs)" for bs :: "'i machine_block list"
    by (induction bs) (simp_all add: block_items_def)
  moreover have "(\<lambda>v. map_option Physical (assigned v)) = renaming assigned"
    by (simp add: fun_eq_iff renaming_def)
  ultimately show ?thesis by (simp add: rewrite_function_def Let_def)
qed

lemma find_label_rename:
  "find_label b (map (rename_item assigned) k) = map_option (map (rename_item assigned)) (find_label b k)"
  by (induction b k rule: find_label.induct) simp_all

lemma find_label_block:
  "find_label b (items bs) = Some k \<Longrightarrow>
     \<exists>blk rest. blk \<in> set bs \<and> mb_id blk = b \<and> k = map Ins (instructions blk) @ rest"
proof (induction bs)
  case (Cons c bs)
  show ?case
  proof (cases "mb_id c = b")
    case True
    with Cons.prems find_label_items [of b c bs "[]"] show ?thesis by auto
  next
    case False
    with Cons find_label_items [of b c bs "[]"] show ?thesis by auto
  qed
qed simp

lemma term_succs_mem:
  "term_succs T (rev is) = Some ss \<Longrightarrow> n < length is \<Longrightarrow> (\<forall>m. n \<le> m \<longrightarrow> m < length is \<longrightarrow> is_terminator T (is ! m)) \<Longrightarrow>
     get_successors T (is ! n) = Some s \<Longrightarrow> set s \<subseteq> ss"
proof (induction "is" arbitrary: ss rule: rev_induct)
  case (snoc i "is")
  have i: "is_terminator T i" using snoc.prems(2) snoc.prems(3) [rule_format, of "length is"] by simp
  with snoc.prems(1) obtain s1 ss1 where 1: "get_successors T i = Some s1" "term_succs T (rev is) = Some ss1"
    "ss = set s1 \<union> ss1" by (auto simp: Option.bind_eq_Some_conv)
  show ?case
  proof (cases "n = length is")
    case True
    with 1 snoc.prems(4) show ?thesis by simp
  next
    case False
    then have n: "n < length is" using snoc.prems(2) by simp
    have "\<forall>m. n \<le> m \<longrightarrow> m < length is \<longrightarrow> is_terminator T (is ! m)"
    proof (intro allI impI)
      fix m assume "n \<le> m" "m < length is"
      with snoc.prems(3) [rule_format, of m] show "is_terminator T (is ! m)" by (simp add: nth_append)
    qed
    from snoc.IH [OF 1(2) n this] snoc.prems(4) n 1(3) show ?thesis by (auto simp: nth_append)
  qed
qed simp

lemma live_at_terms:
  "\<forall>i \<in> set is. set (def_regs T i) \<subseteq> {Physical (zero_reg T)} \<Longrightarrow>
     L \<subseteq> live_at T is L \<union> {Physical (zero_reg T)}"
  by (induction "is") (auto simp: live_before_def)

text \<open>The allocation of a whole function.\<close>

definition allocated ::
  "('r, 'i) machine_function \<Rightarrow> 'r liveness_info \<Rightarrow> 'r interference_graph \<Rightarrow> (vreg_id \<rightharpoonup> 'r) \<Rightarrow> bool" where
  "allocated mf li G assigned \<longleftrightarrow> live_sound T mf li \<and> graph_sound T li (blocks mf) G \<and>
     full_colouring G assigned \<and>
     (\<forall>b \<in> set (blocks mf). closed_insts T (instructions b) \<and> terms_last (instructions b) \<and> plain_block li b)"

lemma allocated_block:
  assumes al: "allocated mf li G assigned" and b: "b \<in> set (blocks mf)" and n: "n < length (instructions b)"
  defines "L \<equiv> live_at T (drop (Suc n) (instructions b)) (live_out li (mb_id b))"
  shows "plain (instructions b ! n)" "scratch (instructions b ! n) \<inter> L = {}"
    "inst_in_graph T G L (instructions b ! n)"
    "live_at T (drop n (instructions b)) (live_out li (mb_id b)) = live_before T (instructions b ! n) L"
proof -
  have X: "get_live_after li (mb_id b) n = Some L"
    using al b n by (auto simp: allocated_def live_sound_def L_def)
  then show "plain (instructions b ! n)" "scratch (instructions b ! n) \<inter> L = {}"
    using al b n by (auto simp: allocated_def plain_block_def)
  show "inst_in_graph T G L (instructions b ! n)"
    using al b n X by (fastforce simp: allocated_def graph_sound_def)
  show "live_at T (drop n (instructions b)) (live_out li (mb_id b)) = live_before T (instructions b ! n) L"
    using n by (simp add: L_def Cons_nth_drop_Suc [symmetric])
qed

lemma allocated_step:
  assumes al: "allocated mf li G assigned" and b: "b \<in> set (blocks mf)" and n: "n < length (instructions b)"
    and rel: "alloc_rel assigned (live_at T (drop n (instructions b)) (live_out li (mb_id b))) st st'"
    and step: "step (instructions b ! n) st = Some c"
  shows "\<exists>c'. step (rewrite_vreg T (instructions b ! n) (renaming assigned) (renaming assigned)) st' = Some c' \<and>
    same_control (alloc_rel assigned (live_at T (drop (Suc n) (instructions b)) (live_out li (mb_id b)))) c c'"
proof -
  let ?i = "instructions b ! n"
  let ?L = "live_at T (drop (Suc n) (instructions b)) (live_out li (mb_id b))"
  note B = allocated_block [OF al b n]
  have col: "full_colouring G assigned" using al by (simp add: allocated_def)
  have rel': "alloc_rel assigned (live_before T ?i ?L) st st'" using rel B(4) by simp
  have "\<exists>c'. step (rewrite_vreg T ?i (renaming assigned) (renaming assigned)) st' = Some c' \<and>
      same_control (rename_effect (zero_reg T) (renamed assigned) (def_regs T ?i)
        (scratch ?i \<union> Physical ` ghost) st st') c c'"
    by (rule step_rename [OF step B(1)])
      (use rel' full_colouringD(4) [OF col] in \<open>auto simp: alloc_rel_def live_before_def\<close>)
  then obtain c' where c': "step (rewrite_vreg T ?i (renaming assigned) (renaming assigned)) st' = Some c'"
    "same_control (rename_effect (zero_reg T) (renamed assigned) (def_regs T ?i)
        (scratch ?i \<union> Physical ` ghost) st st') c c'" by blast
  have keep: "alloc_rel assigned ?L st1 st1'"
    if "rename_effect (zero_reg T) (renamed assigned) (def_regs T ?i)
      (scratch ?i \<union> Physical ` ghost) st st' st1 st1'" for st1 st1'
    by (rule effect_keeps_rel [OF col B(3) rel' that B(2)])
  have "same_control (alloc_rel assigned ?L) c c'" by (rule same_control_mono [OF c'(2)]) (rule keep)
  with c'(1) show ?thesis by blast
qed

text \<open>A jump lands where the state is related again.\<close>

lemma allocated_goto:
  assumes al: "allocated mf li G assigned" and b: "b \<in> set (blocks mf)" and n: "n < length (instructions b)"
    and step: "step (instructions b ! n) st = Some (Goto t st1)" and blk: "blk \<in> set (blocks mf)" "mb_id blk = t"
    and rel: "alloc_rel assigned (live_at T (drop (Suc n) (instructions b)) (live_out li (mb_id b))) st1 st1'"
  shows "0 < length (instructions blk)"
    "alloc_rel assigned (live_at T (drop 0 (instructions blk)) (live_out li (mb_id blk))) st1 st1'"
proof -
  let ?is = "instructions b" and ?out = "live_out li (mb_id b)"
  have closed: "closed_insts T (instructions blk)" and last: "terms_last ?is"
    using al b blk by (auto simp: allocated_def)
  then show "0 < length (instructions blk)" by (simp add: closed_insts_def)
  obtain s where s: "get_successors T (?is ! n) = Some s" "t \<in> set s" using step_goto [OF step] by blast
  then have termi: "is_terminator T (?is ! n)" using successors_terminate by fastforce
  have terms: "is_terminator T (?is ! m) \<and> set (def_regs T (?is ! m)) \<subseteq> {Physical (zero_reg T)}"
    if "n \<le> m" "m < length ?is" for m
    using last that termi unfolding terms_last_def by blast
  obtain ss where ss: "term_succs T (rev ?is) = Some ss" "?out = (\<Union>x \<in> ss. live_in li x)"
    using al b by (auto simp: allocated_def live_sound_def)
  have "t \<in> ss" using term_succs_mem [OF ss(1) n _ s(1)] terms s(2) by blast
  then have "live_in li t \<subseteq> ?out" using ss(2) by blast
  moreover have "\<forall>i \<in> set (drop (Suc n) ?is). set (def_regs T i) \<subseteq> {Physical (zero_reg T)}"
  proof
    fix i assume "i \<in> set (drop (Suc n) ?is)"
    then obtain j where "j < length ?is - Suc n" "i = ?is ! (Suc n + j)"
      by (auto simp: in_set_conv_nth)
    with terms [of "Suc n + j"] show "set (def_regs T i) \<subseteq> {Physical (zero_reg T)}" by simp
  qed
  from live_at_terms [OF this, of ?out]
  have "?out \<subseteq> live_at T (drop (Suc n) ?is) ?out \<union> {Physical (zero_reg T)}" .
  moreover have "live_in li t = live_at T (instructions blk) (live_out li (mb_id blk))"
    using al blk by (auto simp: allocated_def live_sound_def)
  ultimately have "live_at T (instructions blk) (live_out li (mb_id blk)) \<subseteq>
      live_at T (drop (Suc n) ?is) ?out \<union> Physical ` stable"
    using zero_stable by blast
  with rel show "alloc_rel assigned (live_at T (drop 0 (instructions blk)) (live_out li (mb_id blk))) st1 st1'"
    by (auto intro: alloc_rel_mono)
qed

lemma closed_never_falls:
  assumes "closed_insts T is" and "n < length is" and "step (is ! n) st = Some (Fall st1)"
  shows "Suc n < length is"
proof (rule ccontr)
  assume "\<not> ?thesis"
  with assms(2) have "is ! n = last is" by (metis Suc_lessI diff_Suc_1 last_conv_nth length_0_conv not_less_zero)
  with assms step_ret step_is_jump show False by (fastforce simp: closed_insts_def)
qed

lemma alloc_runs_aux:
  assumes al: "allocated mf li G assigned"
  shows "runs step (items (blocks mf)) k st r \<Longrightarrow> b \<in> set (blocks mf) \<Longrightarrow> n < length (instructions b) \<Longrightarrow>
    k = map Ins (drop n (instructions b)) @ rest \<Longrightarrow>
    alloc_rel assigned (live_at T (drop n (instructions b)) (live_out li (mb_id b))) st st' \<Longrightarrow>
    \<exists>r'. runs step (map (rename_item assigned) (items (blocks mf))) (map (rename_item assigned) k) st' r' \<and>
      alloc_rel assigned (Physical ` returned) r r'"
proof (induction arbitrary: b n rest st' rule: runs.induct)
  case (runs_label k st r l)
  then show ?case by (simp add: Cons_nth_drop_Suc [symmetric])
next
  case (runs_fall i st st1 k r)
  have i: "i = instructions b ! n" "k = map Ins (drop (Suc n) (instructions b)) @ rest"
    using runs_fall.prems(2,3) by (simp_all add: Cons_nth_drop_Suc [symmetric])
  note S = runs_fall.hyps(1) [unfolded i(1)]
  obtain st1' where st1': "step (rewrite_vreg T i (renaming assigned) (renaming assigned)) st' = Some (Fall st1')"
    "alloc_rel assigned (live_at T (drop (Suc n) (instructions b)) (live_out li (mb_id b))) st1 st1'"
    using allocated_step [OF al runs_fall.prems(1,2,4) S] i(1) by auto
  have "closed_insts T (instructions b)" using al runs_fall.prems(1) by (simp add: allocated_def)
  from closed_never_falls [OF this runs_fall.prems(2) S] have "Suc n < length (instructions b)" .
  from runs_fall.IH [OF runs_fall.prems(1) this i(2) st1'(2)] obtain r'
    where "runs step (map (rename_item assigned) (items (blocks mf))) (map (rename_item assigned) k) st1' r'"
      "alloc_rel assigned (Physical ` returned) r r'" by blast
  with st1'(1) show ?case by (auto intro: runs.runs_fall)
next
  case (runs_goto i st t st1 k1 r k)
  have i: "i = instructions b ! n" using runs_goto.prems(2,3) by (simp add: Cons_nth_drop_Suc [symmetric])
  note S = runs_goto.hyps(1) [unfolded i]
  obtain st1' where st1': "step (rewrite_vreg T i (renaming assigned) (renaming assigned)) st' = Some (Goto t st1')"
    "alloc_rel assigned (live_at T (drop (Suc n) (instructions b)) (live_out li (mb_id b))) st1 st1'"
    using allocated_step [OF al runs_goto.prems(1,2,4) S] i by auto
  obtain blk rest1 where blk: "blk \<in> set (blocks mf)" "mb_id blk = t" "k1 = map Ins (instructions blk) @ rest1"
    using find_label_block [OF runs_goto.hyps(2)] by blast
  note G = allocated_goto [OF al runs_goto.prems(1,2) S blk(1,2) st1'(2)]
  from runs_goto.IH [OF blk(1) G(1) _ G(2)] blk(3) obtain r'
    where "runs step (map (rename_item assigned) (items (blocks mf))) (map (rename_item assigned) k1) st1' r'"
      "alloc_rel assigned (Physical ` returned) r r'" by auto
  moreover have "find_label t (map (rename_item assigned) (items (blocks mf))) = Some (map (rename_item assigned) k1)"
    using runs_goto.hyps(2) by (simp add: find_label_rename)
  ultimately show ?case using st1'(1) by (auto intro: runs.runs_goto)
next
  case (runs_return i st st1 k)
  have i: "i = instructions b ! n" using runs_return.prems(2,3) by (simp add: Cons_nth_drop_Suc [symmetric])
  note S = runs_return.hyps(1) [unfolded i]
  obtain st1' where st1': "step (rewrite_vreg T i (renaming assigned) (renaming assigned)) st' = Some (Return st1')"
    using allocated_step [OF al runs_return.prems(1,2,4) S] i by auto
  note R = step_return [OF runs_return.hyps] and R' = step_return [OF st1']
  have "Physical ` returned \<subseteq> live_at T (drop n (instructions b)) (live_out li (mb_id b))"
    using R i runs_return.prems(2) by (auto simp: Cons_nth_drop_Suc [symmetric] live_before_def)
  then have "alloc_rel assigned (Physical ` returned) st st'"
    by (intro alloc_rel_mono [OF runs_return.prems(4)]) blast
  with R R' have "alloc_rel assigned (Physical ` returned) st1 st1'" by simp
  with st1' show ?case by (auto intro: runs.runs_return)
qed

theorem alloc_preserves_runs:
  assumes al: "allocated mf li G assigned" and run: "fn_runs step mf st r"
    and rel: "alloc_rel assigned (live_in li (entry mf)) st st'"
  shows "\<exists>r'. fn_runs step (rewrite_function T assigned mf) st' r' \<and>
    alloc_rel assigned (Physical ` returned) r r'"
proof -
  from run obtain k where k: "find_label (entry mf) (items (blocks mf)) = Some k"
      "runs step (items (blocks mf)) k st r" by (auto simp: fn_runs_def)
  obtain blk rest where blk: "blk \<in> set (blocks mf)" "mb_id blk = entry mf" "k = map Ins (instructions blk) @ rest"
    using find_label_block [OF k(1)] by blast
  have "closed_insts T (instructions blk)" using al blk by (auto simp: allocated_def)
  then have n: "0 < length (instructions blk)" by (simp add: closed_insts_def)
  have "live_in li (entry mf) = live_at T (instructions blk) (live_out li (mb_id blk))"
    using al blk by (auto simp: allocated_def live_sound_def)
  with rel have "alloc_rel assigned (live_at T (drop 0 (instructions blk)) (live_out li (mb_id blk))) st st'" by simp
  from alloc_runs_aux [OF al k(2) blk(1) n _ this] blk(3) obtain r'
    where "runs step (map (rename_item assigned) (items (blocks mf))) (map (rename_item assigned) k) st' r'"
      "alloc_rel assigned (Physical ` returned) r r'" by auto
  moreover have "entry (rewrite_function T assigned mf) = entry mf" by (simp add: rewrite_function_def Let_def)
  ultimately show ?thesis using k(1) by (auto simp: fn_runs_def items_rewrite find_label_rename)
qed

text \<open>From the result of a round to the hypotheses above.\<close>

lemma round_allocated:
  assumes "round_ok T mf li G [] assigned"
    and "\<forall>b \<in> set (blocks mf). closed_insts T (instructions b) \<and> terms_last (instructions b) \<and> plain_block li b"
  shows "allocated mf li G assigned"
  using assms by (auto simp: round_ok_def allocated_def full_colouring_def)

lemma register_allocation_preserves_runs:
  assumes cfg: "compute_cfg T (blocks mf) = Some cfg" and dist: "distinct (map mb_id (blocks mf))"
    and known: "succs_known T (blocks mf)"
    and spill: "compute_spill T mf = Some ([], assigned)" and li: "liveness_analysis T mf = Some li"
    and shape: "\<forall>b \<in> set (blocks mf). closed_insts T (instructions b) \<and> terms_last (instructions b) \<and> plain_block li b"
    and entry: "\<forall>v. Virtual v \<notin> live_in li (entry mf)"
    and run: "fn_runs step mf st r"
  shows "\<exists>mf' r'. register_allocation T mf = Some mf' \<and> fn_runs step mf' st r' \<and>
    memory r' = memory r \<and> (\<forall>p \<in> returned \<union> stable. get r' (Physical p) = get r (Physical p))"
proof -
  obtain G where "round_ok T mf li G [] assigned"
    using compute_spill_result [OF cfg dist known] spill li by (auto simp: round_ok_def)
  note al = round_allocated [OF this shape]
  have "renamed assigned x = x" if "x \<in> live_in li (entry mf)" for x
    using that entry by (cases x) auto
  then have "alloc_rel assigned (live_in li (entry mf)) st st" by (simp add: alloc_rel_def)
  from alloc_preserves_runs [OF al run this] obtain r'
    where r': "fn_runs step (rewrite_function T assigned mf) st r'" "alloc_rel assigned (Physical ` returned) r r'"
    by blast
  let ?mf = "callee_saved_scan T (rewrite_function T assigned mf)"
  have "fn_runs step ?mf st r'" using r'(1) by (simp add: fn_runs_def)
  moreover have "get r' (Physical p) = get r (Physical p)" if "p \<in> returned \<union> stable" for p
  proof (cases "p \<in> stable")
    case True
    with r'(2) show ?thesis by (simp add: alloc_rel_def)
  next
    case False
    with that returned_not_ghost have "Physical p \<in> Physical ` returned - Physical ` ghost" by blast
    then have "get r' (renamed assigned (Physical p)) = get r (Physical p)"
      using r'(2) unfolding alloc_rel_def by blast
    then show ?thesis by simp
  qed
  ultimately show ?thesis
    using register_allocation_no_spill [OF spill] r'(2) by (auto simp: alloc_rel_def)
qed

end

end
