(* ===== verification/Target_Alloc.thy ===== *)
theory Target_Alloc
  imports Target_Runs Alloc_Sim
begin

text \<open>
  Register allocation on the two targets: the calling convention it relies on, and the
  interpretations of the renaming and the spilling interfaces.
\<close>

section \<open>RV32\<close>

definition rv32_stable :: "rv32_reg set" where
  "rv32_stable = {rv32_reg.Zero, rv32_reg.Sp, rv32_reg.Gp, rv32_reg.Tp}"

text \<open>The scratch register of a pseudo-store, and what a call leaves undefined.\<close>

definition rv32_undefined :: "rv32_inst \<Rightarrow> rv32_reg register set" where
  "rv32_undefined i = (case i of
     rv32_inst.SaveStack rs slot rt \<Rightarrow> {rt} - Physical ` rv32_stable
   | rv32_inst.StoreOutgoingArg rs offset rt \<Rightarrow> {rt} - Physical ` rv32_stable
   | rv32_inst.Call f n \<Rightarrow> set (rv32_def_regs (rv32_inst.Call f n)) -
       {Physical rv32_reg.Ra, Physical rv32_reg.A0, Physical rv32_reg.A1}
   | _ \<Rightarrow> {})"

text \<open>The calling convention, as the allocator relies on it: the callee changes only caller-saved
  registers and memory, and the memory and the two result registers depend on the memory, the
  argument registers, and the stack, global and thread pointers alone.\<close>

definition rv32_call_ok ::
  "(symbol_id \<Rightarrow> nat \<Rightarrow> (rv32_reg, 32 word) mstate \<Rightarrow> (rv32_reg, 32 word) mstate option) \<Rightarrow>
     symbol_id \<Rightarrow> nat \<Rightarrow> bool" where
  "rv32_call_ok call f n \<longleftrightarrow> (\<forall>st st1. call f n st = Some st1 \<longrightarrow>
     (\<forall>r. r \<notin> set (rv32_def_regs (rv32_inst.Call f n)) \<longrightarrow>
        get_reg rv32_reg.Zero st1 r = get_reg rv32_reg.Zero st r) \<and>
     (\<forall>st'. memory st' = memory st \<and>
        (\<forall>u \<in> set (rv32_use_regs (rv32_inst.Call f n)) \<union> Physical ` rv32_stable.
           get_reg rv32_reg.Zero st' u = get_reg rv32_reg.Zero st u) \<longrightarrow>
        (\<exists>st1'. call f n st' = Some st1' \<and> memory st1' = memory st1 \<and>
           get_reg rv32_reg.Zero st1' (Physical rv32_reg.A0) = get_reg rv32_reg.Zero st1 (Physical rv32_reg.A0) \<and>
           get_reg rv32_reg.Zero st1' (Physical rv32_reg.A1) = get_reg rv32_reg.Zero st1 (Physical rv32_reg.A1))))"

lemma rv32_call_okD:
  assumes "rv32_call_ok call f n" and "call f n st = Some st1"
  shows "r \<notin> set (rv32_def_regs (rv32_inst.Call f n)) \<Longrightarrow>
      get_reg rv32_reg.Zero st1 r = get_reg rv32_reg.Zero st r"
    "memory st' = memory st \<Longrightarrow> \<forall>u \<in> set (rv32_use_regs (rv32_inst.Call f n)) \<union> Physical ` rv32_stable.
       get_reg rv32_reg.Zero st' u = get_reg rv32_reg.Zero st u \<Longrightarrow>
     \<exists>st1'. call f n st' = Some st1' \<and> memory st1' = memory st1 \<and>
       get_reg rv32_reg.Zero st1' (Physical rv32_reg.A0) = get_reg rv32_reg.Zero st1 (Physical rv32_reg.A0) \<and>
       get_reg rv32_reg.Zero st1' (Physical rv32_reg.A1) = get_reg rv32_reg.Zero st1 (Physical rv32_reg.A1)"
  using assms(1) [unfolded rv32_call_ok_def, rule_format, OF assms(2)] by simp_all

text \<open>The instructions the claim is about: stores to globals are left out (their scratch register is
  not kept apart from the stored one), the scratch register of a pseudo-store is virtual, only a
  return reads the return address, and a call obeys the convention.\<close>

definition rv32_plain ::
  "(symbol_id \<Rightarrow> nat \<Rightarrow> (rv32_reg, 32 word) mstate \<Rightarrow> (rv32_reg, 32 word) mstate option) \<Rightarrow>
     rv32_inst \<Rightarrow> bool" where
  "rv32_plain call i \<longleftrightarrow> (Physical rv32_reg.Ra \<in> set (rv32_use_regs i) \<longrightarrow> i = rv32_inst.Ret) \<and> (case i of
     rv32_inst.Sbs _ _ _ \<Rightarrow> False | rv32_inst.Shs _ _ _ \<Rightarrow> False | rv32_inst.Sws _ _ _ \<Rightarrow> False
   | rv32_inst.SaveStack _ _ rt \<Rightarrow> (\<exists>v. rt = Virtual v)
   | rv32_inst.StoreOutgoingArg _ _ rt \<Rightarrow> (\<exists>v. rt = Virtual v)
   | rv32_inst.Call f n \<Rightarrow> rv32_call_ok call f n
   | _ \<Rightarrow> True)"

lemma rv32_exec_rename:
  assumes ex: "rv32_exec E fl i st = Some st1" and plain: "rv32_plain call i" and mem: "memory st' = memory st"
    and uses: "\<forall>u \<in> set (rv32_use_regs i). get_reg rv32_reg.Zero st' (renamed assigned u) = get_reg rv32_reg.Zero st u"
    and zero: "\<And>r. renamed assigned r = Physical rv32_reg.Zero \<longleftrightarrow> r = Physical rv32_reg.Zero"
  shows "\<exists>st1'. rv32_exec E fl (rv32_rewrite_vreg i (renaming assigned) (renaming assigned)) st' = Some st1' \<and>
    rename_effect rv32_reg.Zero (renamed assigned) (rv32_def_regs i) (rv32_undefined i \<union> Physical ` {rv32_reg.Ra}) st st' st1 st1'"
proof -
  note put = rename_effect_put [OF mem zero]
  show ?thesis
    using ex plain uses
    by (cases i) (auto simp: rv32_exec_def rv32_rewrite_vreg_def rv32_def_regs_def rv32_use_regs_def
        rv32_undefined_def rv32_plain_def step_defs mem Option.bind_eq_Some_conv rv32_stable_def
        split: if_splits intro!: put rename_effect_same rename_effect_memory rename_effect_memory_scratch)
qed

lemma rv32_step_rename:
  assumes step: "rv32_step call E fl i st = Some c" and plain: "rv32_plain call i" and mem: "memory st' = memory st"
    and uses: "\<And>u. u \<in> set (rv32_use_regs i) - Physical ` {rv32_reg.Ra} \<Longrightarrow>
      get_reg rv32_reg.Zero st' (renamed assigned u) = get_reg rv32_reg.Zero st u"
    and stable: "\<And>p. p \<in> rv32_stable \<Longrightarrow>
      get_reg rv32_reg.Zero st' (Physical p) = get_reg rv32_reg.Zero st (Physical p)"
    and ran: "ran assigned \<subseteq> set rv32_allocatable_regs"
  shows "\<exists>c'. rv32_step call E fl (rv32_rewrite_vreg i (renaming assigned) (renaming assigned)) st' = Some c' \<and>
    same_control (rename_effect rv32_reg.Zero (renamed assigned) (rv32_def_regs i)
      (rv32_undefined i \<union> Physical ` {rv32_reg.Ra}) st st') c c'"
proof -
  have zero: "renamed assigned r = Physical rv32_reg.Zero \<longleftrightarrow> r = Physical rv32_reg.Zero" for r
    by (rule renamed_eq_physical [OF ran]) (simp add: rv32_allocatable_regs_def)
  show ?thesis
  proof (cases "i = rv32_inst.Ret")
    case True
    with step mem show ?thesis
      by (auto simp: rv32_step_def rv32_branch_taken_def rv32_rewrite_vreg_def rv32_def_regs_def rename_effect_same)
  next
    case False
    then have all: "\<forall>u \<in> set (rv32_use_regs i). get_reg rv32_reg.Zero st' (renamed assigned u) = get_reg rv32_reg.Zero st u"
      using uses plain by (auto simp: rv32_plain_def)
    consider b where "rv32_get_branch_target i = Some b" | rd l where "i = rv32_inst.Jal rd l"
      | f n where "i = rv32_inst.Call f n"
      | "rv32_get_branch_target i = None" "\<forall>rd l. i \<noteq> rv32_inst.Jal rd l" "\<forall>f n. i \<noteq> rv32_inst.Call f n"
      by (cases "rv32_get_branch_target i") blast+
    then show ?thesis
    proof cases
      case 1
      then show ?thesis
        using step all mem
        by (elim rv32_branch_cases) (auto simp: rv32_step_def rv32_branch_taken_def rv32_get_branch_target_def
          rv32_rewrite_vreg_def rv32_def_regs_def rv32_use_regs_def rename_effect_same split: if_splits)
    next
      case 2
      have "rename_effect rv32_reg.Zero (renamed assigned) [Physical rv32_reg.Zero] scr st st' st st'" for scr
        using mem by (simp add: rename_effect_def)
      with 2 step show ?thesis
        by (auto simp: rv32_step_def rv32_branch_taken_def rv32_rewrite_vreg_def rv32_def_regs_def split: if_splits)
    next
      case 3
      let ?ds = "rv32_def_regs i"
      have rn: "renamed assigned u = u" if "u \<in> set (rv32_use_regs i) \<union> set ?ds" for u
        using that 3 by (auto simp: rv32_use_regs_def rv32_def_regs_def dest!: in_set_takeD)
      have ok: "rv32_call_ok call f n" using plain 3 by (simp add: rv32_plain_def)
      obtain st1 where st1: "call f n st = Some st1" "c = Fall st1"
        using step 3 by (auto simp: rv32_step_def rv32_branch_taken_def)
      have "\<forall>u \<in> set (rv32_use_regs i) \<union> Physical ` rv32_stable.
          get_reg rv32_reg.Zero st' u = get_reg rv32_reg.Zero st u"
        using all rn stable by force
      then obtain st1' where st1': "call f n st' = Some st1'" "memory st1' = memory st1"
        "get_reg rv32_reg.Zero st1' (Physical rv32_reg.A0) = get_reg rv32_reg.Zero st1 (Physical rv32_reg.A0)"
        "get_reg rv32_reg.Zero st1' (Physical rv32_reg.A1) = get_reg rv32_reg.Zero st1 (Physical rv32_reg.A1)"
        using rv32_call_okD(2) [OF ok st1(1) mem] 3 by blast
      have keep: "r \<notin> set ?ds \<Longrightarrow> get_reg rv32_reg.Zero st1 r = get_reg rv32_reg.Zero st r"
        "r \<notin> set ?ds \<Longrightarrow> get_reg rv32_reg.Zero st1' r = get_reg rv32_reg.Zero st' r" for r
        using rv32_call_okD(1) [OF ok st1(1)] rv32_call_okD(1) [OF ok st1'(1)] 3 by simp_all
      have "renamed assigned ` set ?ds = set ?ds" using rn by force
      moreover have "set ?ds - (rv32_undefined i \<union> Physical ` {rv32_reg.Ra}) \<subseteq>
          {Physical rv32_reg.A0, Physical rv32_reg.A1}"
        using 3 by (auto simp: rv32_undefined_def)
      ultimately have "rename_effect rv32_reg.Zero (renamed assigned) ?ds
          (rv32_undefined i \<union> Physical ` {rv32_reg.Ra}) st st' st1 st1'"
        using st1' keep unfolding rename_effect_def by auto
      with 3 st1 st1' show ?thesis
        by (simp add: rv32_step_def rv32_branch_taken_def rv32_rewrite_vreg_def)
    next
      case 4
      have other: "rv32_step call E fl j s = map_option Fall (rv32_exec E fl j s)"
        if "rv32_get_branch_target j = None" "\<forall>rd l. j \<noteq> rv32_inst.Jal rd l" "\<forall>f n. j \<noteq> rv32_inst.Call f n"
          "j \<noteq> rv32_inst.Ret" for j s
        using that by (cases j) (simp_all add: rv32_step_def rv32_branch_taken_def rv32_get_branch_target_def)
      let ?j = "rv32_rewrite_vreg i (renaming assigned) (renaming assigned)"
      have j: "rv32_get_branch_target ?j = None" "\<forall>rd l. ?j \<noteq> rv32_inst.Jal rd l"
        "\<forall>f n. ?j \<noteq> rv32_inst.Call f n" "?j \<noteq> rv32_inst.Ret"
        using 4 False by (cases i; simp add: rv32_rewrite_vreg_def rv32_get_branch_target_def)+
      obtain st1 where st1: "rv32_exec E fl i st = Some st1" "c = Fall st1"
        using step other [OF 4 False] by auto
      from rv32_exec_rename [OF st1(1) plain mem all zero] st1(2) other [OF j] show ?thesis by auto
    qed
  qed
qed

interpretation rv32_rename: rename_machine rv32_target "rv32_step call E fl" "rv32_plain call" rv32_undefined
    rv32_stable "{rv32_reg.Ra}" "{rv32_reg.A0, rv32_reg.A1}" for call E fl
proof
  fix st st' :: "(rv32_reg, 32 word) mstate" and i c assigned
  assume "rv32_step call E fl i st = Some c" "rv32_plain call i" "memory st' = memory st"
    "\<And>u. u \<in> set (use_regs rv32_target i) - Physical ` {rv32_reg.Ra} \<Longrightarrow>
      get_reg (zero_reg rv32_target) st' (renamed assigned u) = get_reg (zero_reg rv32_target) st u"
    "\<And>p. p \<in> rv32_stable \<Longrightarrow>
      get_reg (zero_reg rv32_target) st' (Physical p) = get_reg (zero_reg rv32_target) st (Physical p)"
    "ran assigned \<subseteq> set (get_allocatable_regs rv32_target)"
  then show "\<exists>c'. rv32_step call E fl (rewrite_vreg rv32_target i (renaming assigned) (renaming assigned)) st' = Some c' \<and>
    same_control (rename_effect (zero_reg rv32_target) (renamed assigned) (def_regs rv32_target i)
      (rv32_undefined i \<union> Physical ` {rv32_reg.Ra}) st st') c c'"
    unfolding rv32_target_sel by (rule rv32_step_rename)
next
  show "rv32_stable \<inter> set (get_allocatable_regs rv32_target) = {}"
    by (simp add: rv32_stable_def rv32_allocatable_regs_def)
  show "zero_reg rv32_target \<in> rv32_stable" by (simp add: rv32_stable_def)
next
  fix i show "(rv32_undefined i \<union> Physical ` {rv32_reg.Ra}) \<inter> Physical ` rv32_stable = {}"
    by (cases i) (auto simp: rv32_undefined_def rv32_stable_def rv32_def_regs_def)
next
  fix i ss assume "get_successors rv32_target i = Some ss" "ss \<noteq> []"
  then show "is_terminator rv32_target i"
    by (cases i) (auto simp: rv32_get_successors_def rv32_is_terminator_def)
next
  fix i and st st1 :: "(rv32_reg, 32 word) mstate"
  assume "rv32_step call E fl i st = Some (Return st1)"
  then show "st1 = st \<and> Physical ` {rv32_reg.A0, rv32_reg.A1} \<subseteq> set (use_regs rv32_target i)"
    by (cases i) (auto simp: rv32_step_def rv32_branch_taken_def rv32_get_branch_target_def rv32_use_regs_def
        split: if_splits)
qed simp

interpretation rv32_spill: spill_target rv32_target
  by unfold_locales (simp_all add: rv32_def_regs_def rv32_use_regs_def)

section \<open>RV64\<close>

definition rv64_stable :: "rv64_reg set" where
  "rv64_stable = {rv64_reg.Zero, rv64_reg.Sp, rv64_reg.Gp, rv64_reg.Tp}"

text \<open>The scratch register of a pseudo-store, and what a call leaves undefined.\<close>

definition rv64_undefined :: "rv64_inst \<Rightarrow> rv64_reg register set" where
  "rv64_undefined i = (case i of
     rv64_inst.SaveStack rs slot rt \<Rightarrow> {rt} - Physical ` rv64_stable
   | rv64_inst.StoreOutgoingArg rs offset rt \<Rightarrow> {rt} - Physical ` rv64_stable
   | rv64_inst.Call f n \<Rightarrow> set (rv64_def_regs (rv64_inst.Call f n)) -
       {Physical rv64_reg.Ra, Physical rv64_reg.A0, Physical rv64_reg.A1}
   | _ \<Rightarrow> {})"

text \<open>The calling convention, as the allocator relies on it: the callee changes only caller-saved
  registers and memory, and the memory and the two result registers depend on the memory, the
  argument registers, and the stack, global and thread pointers alone.\<close>

definition rv64_call_ok ::
  "(symbol_id \<Rightarrow> nat \<Rightarrow> (rv64_reg, 64 word) mstate \<Rightarrow> (rv64_reg, 64 word) mstate option) \<Rightarrow>
     symbol_id \<Rightarrow> nat \<Rightarrow> bool" where
  "rv64_call_ok call f n \<longleftrightarrow> (\<forall>st st1. call f n st = Some st1 \<longrightarrow>
     (\<forall>r. r \<notin> set (rv64_def_regs (rv64_inst.Call f n)) \<longrightarrow>
        get_reg rv64_reg.Zero st1 r = get_reg rv64_reg.Zero st r) \<and>
     (\<forall>st'. memory st' = memory st \<and>
        (\<forall>u \<in> set (rv64_use_regs (rv64_inst.Call f n)) \<union> Physical ` rv64_stable.
           get_reg rv64_reg.Zero st' u = get_reg rv64_reg.Zero st u) \<longrightarrow>
        (\<exists>st1'. call f n st' = Some st1' \<and> memory st1' = memory st1 \<and>
           get_reg rv64_reg.Zero st1' (Physical rv64_reg.A0) = get_reg rv64_reg.Zero st1 (Physical rv64_reg.A0) \<and>
           get_reg rv64_reg.Zero st1' (Physical rv64_reg.A1) = get_reg rv64_reg.Zero st1 (Physical rv64_reg.A1))))"

lemma rv64_call_okD:
  assumes "rv64_call_ok call f n" and "call f n st = Some st1"
  shows "r \<notin> set (rv64_def_regs (rv64_inst.Call f n)) \<Longrightarrow>
      get_reg rv64_reg.Zero st1 r = get_reg rv64_reg.Zero st r"
    "memory st' = memory st \<Longrightarrow> \<forall>u \<in> set (rv64_use_regs (rv64_inst.Call f n)) \<union> Physical ` rv64_stable.
       get_reg rv64_reg.Zero st' u = get_reg rv64_reg.Zero st u \<Longrightarrow>
     \<exists>st1'. call f n st' = Some st1' \<and> memory st1' = memory st1 \<and>
       get_reg rv64_reg.Zero st1' (Physical rv64_reg.A0) = get_reg rv64_reg.Zero st1 (Physical rv64_reg.A0) \<and>
       get_reg rv64_reg.Zero st1' (Physical rv64_reg.A1) = get_reg rv64_reg.Zero st1 (Physical rv64_reg.A1)"
  using assms(1) [unfolded rv64_call_ok_def, rule_format, OF assms(2)] by simp_all

text \<open>The instructions the claim is about: stores to globals are left out (their scratch register is
  not kept apart from the stored one), the scratch register of a pseudo-store is virtual, only a
  return reads the return address, and a call obeys the convention.\<close>

definition rv64_plain ::
  "(symbol_id \<Rightarrow> nat \<Rightarrow> (rv64_reg, 64 word) mstate \<Rightarrow> (rv64_reg, 64 word) mstate option) \<Rightarrow>
     rv64_inst \<Rightarrow> bool" where
  "rv64_plain call i \<longleftrightarrow> (Physical rv64_reg.Ra \<in> set (rv64_use_regs i) \<longrightarrow> i = rv64_inst.Ret) \<and> (case i of
     rv64_inst.Sbs _ _ _ \<Rightarrow> False | rv64_inst.Shs _ _ _ \<Rightarrow> False | rv64_inst.Sws _ _ _ \<Rightarrow> False | rv64_inst.Sds _ _ _ \<Rightarrow> False
   | rv64_inst.SaveStack _ _ rt \<Rightarrow> (\<exists>v. rt = Virtual v)
   | rv64_inst.StoreOutgoingArg _ _ rt \<Rightarrow> (\<exists>v. rt = Virtual v)
   | rv64_inst.Call f n \<Rightarrow> rv64_call_ok call f n
   | _ \<Rightarrow> True)"

lemma rv64_exec_rename:
  assumes ex: "rv64_exec E fl i st = Some st1" and plain: "rv64_plain call i" and mem: "memory st' = memory st"
    and uses: "\<forall>u \<in> set (rv64_use_regs i). get_reg rv64_reg.Zero st' (renamed assigned u) = get_reg rv64_reg.Zero st u"
    and zero: "\<And>r. renamed assigned r = Physical rv64_reg.Zero \<longleftrightarrow> r = Physical rv64_reg.Zero"
  shows "\<exists>st1'. rv64_exec E fl (rv64_rewrite_vreg i (renaming assigned) (renaming assigned)) st' = Some st1' \<and>
    rename_effect rv64_reg.Zero (renamed assigned) (rv64_def_regs i) (rv64_undefined i \<union> Physical ` {rv64_reg.Ra}) st st' st1 st1'"
proof -
  note put = rename_effect_put [OF mem zero]
  show ?thesis
    using ex plain uses
    by (cases i) (auto simp: rv64_exec_def rv64_rewrite_vreg_def rv64_def_regs_def rv64_use_regs_def
        rv64_undefined_def rv64_plain_def step_defs mem Option.bind_eq_Some_conv rv64_stable_def
        split: if_splits intro!: put rename_effect_same rename_effect_memory rename_effect_memory_scratch)
qed

lemma rv64_step_rename:
  assumes step: "rv64_step call E fl i st = Some c" and plain: "rv64_plain call i" and mem: "memory st' = memory st"
    and uses: "\<And>u. u \<in> set (rv64_use_regs i) - Physical ` {rv64_reg.Ra} \<Longrightarrow>
      get_reg rv64_reg.Zero st' (renamed assigned u) = get_reg rv64_reg.Zero st u"
    and stable: "\<And>p. p \<in> rv64_stable \<Longrightarrow>
      get_reg rv64_reg.Zero st' (Physical p) = get_reg rv64_reg.Zero st (Physical p)"
    and ran: "ran assigned \<subseteq> set rv64_allocatable_regs"
  shows "\<exists>c'. rv64_step call E fl (rv64_rewrite_vreg i (renaming assigned) (renaming assigned)) st' = Some c' \<and>
    same_control (rename_effect rv64_reg.Zero (renamed assigned) (rv64_def_regs i)
      (rv64_undefined i \<union> Physical ` {rv64_reg.Ra}) st st') c c'"
proof -
  have zero: "renamed assigned r = Physical rv64_reg.Zero \<longleftrightarrow> r = Physical rv64_reg.Zero" for r
    by (rule renamed_eq_physical [OF ran]) (simp add: rv64_allocatable_regs_def)
  show ?thesis
  proof (cases "i = rv64_inst.Ret")
    case True
    with step mem show ?thesis
      by (auto simp: rv64_step_def rv64_branch_taken_def rv64_rewrite_vreg_def rv64_def_regs_def rename_effect_same)
  next
    case False
    then have all: "\<forall>u \<in> set (rv64_use_regs i). get_reg rv64_reg.Zero st' (renamed assigned u) = get_reg rv64_reg.Zero st u"
      using uses plain by (auto simp: rv64_plain_def)
    consider b where "rv64_get_branch_target i = Some b" | rd l where "i = rv64_inst.Jal rd l"
      | f n where "i = rv64_inst.Call f n"
      | "rv64_get_branch_target i = None" "\<forall>rd l. i \<noteq> rv64_inst.Jal rd l" "\<forall>f n. i \<noteq> rv64_inst.Call f n"
      by (cases "rv64_get_branch_target i") blast+
    then show ?thesis
    proof cases
      case 1
      then show ?thesis
        using step all mem
        by (elim rv64_branch_cases) (auto simp: rv64_step_def rv64_branch_taken_def rv64_get_branch_target_def
          rv64_rewrite_vreg_def rv64_def_regs_def rv64_use_regs_def rename_effect_same split: if_splits)
    next
      case 2
      have "rename_effect rv64_reg.Zero (renamed assigned) [Physical rv64_reg.Zero] scr st st' st st'" for scr
        using mem by (simp add: rename_effect_def)
      with 2 step show ?thesis
        by (auto simp: rv64_step_def rv64_branch_taken_def rv64_rewrite_vreg_def rv64_def_regs_def split: if_splits)
    next
      case 3
      let ?ds = "rv64_def_regs i"
      have rn: "renamed assigned u = u" if "u \<in> set (rv64_use_regs i) \<union> set ?ds" for u
        using that 3 by (auto simp: rv64_use_regs_def rv64_def_regs_def dest!: in_set_takeD)
      have ok: "rv64_call_ok call f n" using plain 3 by (simp add: rv64_plain_def)
      obtain st1 where st1: "call f n st = Some st1" "c = Fall st1"
        using step 3 by (auto simp: rv64_step_def rv64_branch_taken_def)
      have "\<forall>u \<in> set (rv64_use_regs i) \<union> Physical ` rv64_stable.
          get_reg rv64_reg.Zero st' u = get_reg rv64_reg.Zero st u"
        using all rn stable by force
      then obtain st1' where st1': "call f n st' = Some st1'" "memory st1' = memory st1"
        "get_reg rv64_reg.Zero st1' (Physical rv64_reg.A0) = get_reg rv64_reg.Zero st1 (Physical rv64_reg.A0)"
        "get_reg rv64_reg.Zero st1' (Physical rv64_reg.A1) = get_reg rv64_reg.Zero st1 (Physical rv64_reg.A1)"
        using rv64_call_okD(2) [OF ok st1(1) mem] 3 by blast
      have keep: "r \<notin> set ?ds \<Longrightarrow> get_reg rv64_reg.Zero st1 r = get_reg rv64_reg.Zero st r"
        "r \<notin> set ?ds \<Longrightarrow> get_reg rv64_reg.Zero st1' r = get_reg rv64_reg.Zero st' r" for r
        using rv64_call_okD(1) [OF ok st1(1)] rv64_call_okD(1) [OF ok st1'(1)] 3 by simp_all
      have "renamed assigned ` set ?ds = set ?ds" using rn by force
      moreover have "set ?ds - (rv64_undefined i \<union> Physical ` {rv64_reg.Ra}) \<subseteq>
          {Physical rv64_reg.A0, Physical rv64_reg.A1}"
        using 3 by (auto simp: rv64_undefined_def)
      ultimately have "rename_effect rv64_reg.Zero (renamed assigned) ?ds
          (rv64_undefined i \<union> Physical ` {rv64_reg.Ra}) st st' st1 st1'"
        using st1' keep unfolding rename_effect_def by auto
      with 3 st1 st1' show ?thesis
        by (simp add: rv64_step_def rv64_branch_taken_def rv64_rewrite_vreg_def)
    next
      case 4
      have other: "rv64_step call E fl j s = map_option Fall (rv64_exec E fl j s)"
        if "rv64_get_branch_target j = None" "\<forall>rd l. j \<noteq> rv64_inst.Jal rd l" "\<forall>f n. j \<noteq> rv64_inst.Call f n"
          "j \<noteq> rv64_inst.Ret" for j s
        using that by (cases j) (simp_all add: rv64_step_def rv64_branch_taken_def rv64_get_branch_target_def)
      let ?j = "rv64_rewrite_vreg i (renaming assigned) (renaming assigned)"
      have j: "rv64_get_branch_target ?j = None" "\<forall>rd l. ?j \<noteq> rv64_inst.Jal rd l"
        "\<forall>f n. ?j \<noteq> rv64_inst.Call f n" "?j \<noteq> rv64_inst.Ret"
        using 4 False by (cases i; simp add: rv64_rewrite_vreg_def rv64_get_branch_target_def)+
      obtain st1 where st1: "rv64_exec E fl i st = Some st1" "c = Fall st1"
        using step other [OF 4 False] by auto
      from rv64_exec_rename [OF st1(1) plain mem all zero] st1(2) other [OF j] show ?thesis by auto
    qed
  qed
qed

interpretation rv64_rename: rename_machine rv64_target "rv64_step call E fl" "rv64_plain call" rv64_undefined
    rv64_stable "{rv64_reg.Ra}" "{rv64_reg.A0, rv64_reg.A1}" for call E fl
proof
  fix st st' :: "(rv64_reg, 64 word) mstate" and i c assigned
  assume "rv64_step call E fl i st = Some c" "rv64_plain call i" "memory st' = memory st"
    "\<And>u. u \<in> set (use_regs rv64_target i) - Physical ` {rv64_reg.Ra} \<Longrightarrow>
      get_reg (zero_reg rv64_target) st' (renamed assigned u) = get_reg (zero_reg rv64_target) st u"
    "\<And>p. p \<in> rv64_stable \<Longrightarrow>
      get_reg (zero_reg rv64_target) st' (Physical p) = get_reg (zero_reg rv64_target) st (Physical p)"
    "ran assigned \<subseteq> set (get_allocatable_regs rv64_target)"
  then show "\<exists>c'. rv64_step call E fl (rewrite_vreg rv64_target i (renaming assigned) (renaming assigned)) st' = Some c' \<and>
    same_control (rename_effect (zero_reg rv64_target) (renamed assigned) (def_regs rv64_target i)
      (rv64_undefined i \<union> Physical ` {rv64_reg.Ra}) st st') c c'"
    unfolding rv64_target_sel by (rule rv64_step_rename)
next
  show "rv64_stable \<inter> set (get_allocatable_regs rv64_target) = {}"
    by (simp add: rv64_stable_def rv64_allocatable_regs_def)
  show "zero_reg rv64_target \<in> rv64_stable" by (simp add: rv64_stable_def)
next
  fix i show "(rv64_undefined i \<union> Physical ` {rv64_reg.Ra}) \<inter> Physical ` rv64_stable = {}"
    by (cases i) (auto simp: rv64_undefined_def rv64_stable_def rv64_def_regs_def)
next
  fix i ss assume "get_successors rv64_target i = Some ss" "ss \<noteq> []"
  then show "is_terminator rv64_target i"
    by (cases i) (auto simp: rv64_get_successors_def rv64_is_terminator_def)
next
  fix i and st st1 :: "(rv64_reg, 64 word) mstate"
  assume "rv64_step call E fl i st = Some (Return st1)"
  then show "st1 = st \<and> Physical ` {rv64_reg.A0, rv64_reg.A1} \<subseteq> set (use_regs rv64_target i)"
    by (cases i) (auto simp: rv64_step_def rv64_branch_taken_def rv64_get_branch_target_def rv64_use_regs_def
        split: if_splits)
qed simp

interpretation rv64_spill: spill_target rv64_target
  by unfold_locales (simp_all add: rv64_def_regs_def rv64_use_regs_def)

end
