(* ===== verification/Alloc_Props.thy ===== *)
theory Alloc_Props
  imports Target_Alloc
begin

text \<open>
  The properties of liveness analysis and register allocation, on the two targets.
\<close>

section \<open>An example\<close>

text \<open>A constant into a virtual register, that into the result register, and a return.\<close>

definition one_value :: "(rv64_reg, rv64_inst) machine_function" where
  "one_value = (empty_machine_function ''f'')\<lparr>blocks := [\<lparr>mb_id = 0, mb_name = ''.bb0'', instructions =
     [rv64_inst.Li (Virtual 0) 5, rv64_inst.Mv (Physical rv64_reg.A0) (Virtual 0), rv64_inst.Ret]\<rparr>],
     vreg_counter := 1\<rparr>"

lemma one_value_shape:
  "distinct (map mb_id (blocks one_value))" "compute_cfg rv64_target (blocks one_value) = Some [0 \<mapsto> {}]"
  "succs_known rv64_target (blocks one_value)"
  "\<forall>b \<in> set (blocks one_value). vregs_below rv64_target (vreg_counter one_value) (instructions b)"
  by (auto simp: one_value_def succs_known_def vregs_below_def inst_vregs_def rv64_is_terminator_def
      rv64_get_successors_def rv64_def_regs_def rv64_use_regs_def)

lemma one_value_graph:
  assumes "liveness_analysis rv64_target one_value = Some li" and "build rv64_target one_value li = Some G"
  shows "edges G = [(0, {})]" "node (edges G) v \<Longrightarrow> v = 0" "neighbours (edges G) v = {}"
    "0 < length (available_regs rv64_target G 0)"
proof -
  obtain li' where "liveness_analysis rv64_target one_value = Some li'" "live_sound rv64_target one_value li'"
    using liveness_analysis_result [OF one_value_shape(2,1)] by blast
  with assms(1) have sound: "live_sound rv64_target one_value li" by simp
  let ?is = "[rv64_inst.Li (Virtual 0) 5, rv64_inst.Mv (Physical rv64_reg.A0) (Virtual 0), rv64_inst.Ret]"
  have "live_out li 0 = {}"
    using sound by (auto simp: live_sound_def one_value_def rv64_is_terminator_def rv64_get_successors_def)
  then have after: "get_live_after li 0 n = Some (live_at rv64_target (drop (Suc n) ?is) {})" if "n < 3" for n
    using sound that by (auto simp: live_sound_def one_value_def)
  let ?L0 = "{Virtual 0, Physical rv64_reg.Ra, Physical rv64_reg.A1}"
    and ?L1 = "{Physical rv64_reg.Ra, Physical rv64_reg.A0, Physical rv64_reg.A1} :: rv64_reg register set"
  have l0: "get_live_after li 0 0 = Some ?L0" and l1: "get_live_after li 0 1 = Some ?L1"
    and l2: "get_live_after li 0 2 = Some {}"
    using after [of 0] after [of 1] after [of 2]
    by (auto simp: live_before_def rv64_use_regs_def rv64_def_regs_def numeral_2_eq_2 numeral_3_eq_3)
  have v: "virtuals ?L0 = {0}" and p: "physicals ?L0 = {rv64_reg.Ra, rv64_reg.A1}" by auto
  let ?G0 = "\<lparr>edges = [], forbidden_phys = (\<lambda>_. {})\<rparr> :: rv64_reg interference_graph"
  have none: "conflicts_of rv64_target i d = {}" if "i \<in> set ?is" for i d
    using that by (auto simp: conflicts_of_def rv64_def_conflict_regs_def)
  have G1: "build_inst rv64_target ?L0 (?is ! 0) ?G0 =
      \<lparr>edges = [(0, {})], forbidden_phys = (\<lambda>_. {})(0 := {rv64_reg.Ra, rv64_reg.A1})\<rparr>" (is "_ = ?G1")
    using none [of "?is ! 0"] v p
    by (simp add: build_inst_def rv64_def_regs_def add_node_def add_interference_def entry_or_def add_edge_def)
  have "build_inst rv64_target ?L1 (?is ! 1) ?G1 = ?G1"
    using none [of "?is ! 1"]
    by (simp add: build_inst_def rv64_def_regs_def add_node_def add_interference_def fun_eq_iff)
  moreover have "build_inst rv64_target {} (?is ! 2) ?G1 = ?G1"
    by (simp add: build_inst_def rv64_def_regs_def)
  ultimately have "build_blocks rv64_target li (blocks one_value) ?G0 = Some ?G1"
    using G1 l0 l1 l2 by (simp add: one_value_def numeral_2_eq_2)
  with assms(2) have G: "edges G = [(0, {})]" "forbidden_phys G 0 = {rv64_reg.Ra, rv64_reg.A1}"
    by (auto simp: build_def)
  then have "rv64_reg.T0 \<in> set (available_regs rv64_target G 0)"
    by (simp add: available_regs_def rv64_allocatable_regs_def)
  then show "0 < length (available_regs rv64_target G 0)" by (rule length_pos_if_in_set)
  show "edges G = [(0, {})]" "node (edges G) v \<Longrightarrow> v = 0" "neighbours (edges G) v = {}"
    using G by (auto simp: neighbours_def edge_def node_def split: if_splits)
qed

lemma one_value_allocated:
  "\<exists>assigned li. compute_spill rv64_target one_value = Some ([], assigned) \<and>
     liveness_analysis rv64_target one_value = Some li"
proof -
  obtain spills assigned li G where r: "compute_spill rv64_target one_value = Some (spills, assigned)"
    "build rv64_target one_value li = Some G" "round_ok rv64_target one_value li G spills assigned"
    using compute_spill_result [OF one_value_shape(2,1,3)] by blast
  then obtain used where li: "liveness_analysis rv64_target one_value = Some li"
    and wf: "edges_wf (edges G)"
    and c: "colouring_ok rv64_target G (fst ` set (edges G)) (spills, assigned, used)"
    by (auto simp: round_ok_def)
  have "spills = []"
    by (rule low_degree_no_spill [OF c wf])
      (use one_value_graph [OF li r(2)] in \<open>auto simp: rv64_allocatable_regs_def\<close>)
  with r(1) li show ?thesis by blast
qed

section \<open>Properties\<close>

text \<open>C9. Liveness analysis: on a function whose terminators name their successors (an indirect jump
  makes it panic) and whose block ids are distinct, the iteration ends; its sets satisfy the data-flow
  equations of every block, the set recorded after each instruction is the backward transfer of the
  rest of its block, and no solution of the inequations is smaller.\<close>

theorem liveness_analysis_is_least_solution:
  assumes "compute_cfg T (blocks mf) = Some cfg" and "distinct (map mb_id (blocks mf))"
  shows "\<exists>li. liveness_analysis T mf = Some li \<and> live_sound T mf li \<and>
    (\<forall>LI LO. live_solution T mf LI LO \<longrightarrow>
       (\<forall>b \<in> set (blocks mf). live_in li (mb_id b) \<subseteq> LI (mb_id b) \<and> live_out li (mb_id b) \<subseteq> LO (mb_id b)))"
  by (rule liveness_analysis_result [OF assms])

theorem liveness_analysis_is_least_solution_witness:
  "\<exists>li. liveness_analysis rv64_target one_value = Some li \<and> live_sound rv64_target one_value li"
  using liveness_analysis_is_least_solution [OF one_value_shape(2,1)] by blast

text \<open>C8. On a function with distinct block ids, whose terminators name their successors (an indirect
  jump has none, and \<open>compute_cfg\<close> panics on it) and whose successors are blocks of the function, a
  round of colouring on RV64 returns. Every virtual register the code writes is coloured or spilled,
  never both; colours are allocatable registers; and the register an instruction writes is not the
  register of anything else that is live after it or that the instruction declares in conflict with
  it.\<close>

theorem rv64_colouring_sound:
  assumes "compute_cfg rv64_target (blocks mf) = Some cfg" and "distinct (map mb_id (blocks mf))"
    and "succs_known rv64_target (blocks mf)"
  shows "\<exists>spills assigned li. compute_spill rv64_target mf = Some (spills, assigned) \<and>
    liveness_analysis rv64_target mf = Some li \<and> dom assigned \<inter> set spills = {} \<and>
    ran assigned \<subseteq> set rv64_allocatable_regs \<and>
    (\<forall>b \<in> set (blocks mf). \<forall>n < length (instructions b). \<exists>L. get_live_after li (mb_id b) n = Some L \<and>
       (\<forall>d \<in> set (rv64_def_regs (instructions b ! n)).
          (\<forall>v. d = Virtual v \<longrightarrow> v \<in> dom assigned \<union> set spills) \<and>
          (\<forall>x \<in> L \<union> conflicts_of rv64_target (instructions b ! n) d. \<forall>p. x \<noteq> d \<longrightarrow>
             register_of assigned d = Some p \<longrightarrow> register_of assigned x \<noteq> Some p)))"
  using compute_spill_sound [OF assms] by simp

theorem rv64_colouring_sound_witness:
  "\<exists>spills assigned. compute_spill rv64_target one_value = Some (spills, assigned) \<and>
     0 \<in> dom assigned \<union> set spills"
proof -
  let ?b = "blocks one_value ! 0"
  have b: "?b \<in> set (blocks one_value)" "0 < length (instructions ?b)"
    "Virtual 0 \<in> set (rv64_def_regs (instructions ?b ! 0))"
    by (simp_all add: one_value_def rv64_def_regs_def)
  obtain spills assigned li where c: "compute_spill rv64_target one_value = Some (spills, assigned)"
    "\<forall>b \<in> set (blocks one_value). \<forall>n < length (instructions b). \<exists>L. get_live_after li (mb_id b) n = Some L \<and>
       (\<forall>d \<in> set (rv64_def_regs (instructions b ! n)). (\<forall>v. d = Virtual v \<longrightarrow> v \<in> dom assigned \<union> set spills) \<and>
          (\<forall>x \<in> L \<union> conflicts_of rv64_target (instructions b ! n) d. \<forall>p. x \<noteq> d \<longrightarrow>
             register_of assigned d = Some p \<longrightarrow> register_of assigned x \<noteq> Some p))"
    using rv64_colouring_sound [OF one_value_shape(2,1,3)] by (elim exE conjE)
  from c(2) [rule_format, OF b(1,2)] b(3) have "0 \<in> dom assigned \<union> set spills" by blast
  with c(1) show ?thesis by blast
qed

text \<open>C2. Register allocation on RV64 keeps the meaning of the function. Take a function with
  distinct block ids, whose terminators name their successors, blocks of the function, whose blocks
  are closed by a return or a jump, whose terminators stand at the end of their blocks, which stores to
  no global, whose pseudo-stores name a dead virtual scratch register, whose calls obey the calling
  convention, which reads no virtual register before writing it, and which the first round colours
  without spilling. If the function runs to its return, so does the allocated one from the same state,
  with the same memory, results, and stack, global and thread pointers.\<close>

theorem rv64_allocation_preserves_runs:
  assumes "compute_cfg rv64_target (blocks mf) = Some cfg" and "distinct (map mb_id (blocks mf))"
    and "succs_known rv64_target (blocks mf)"
    and "compute_spill rv64_target mf = Some ([], assigned)" and "liveness_analysis rv64_target mf = Some li"
    and "\<forall>b \<in> set (blocks mf). closed_insts rv64_target (instructions b) \<and>
      rv64_rename.terms_last (instructions b) \<and> rv64_rename.plain_block call li b"
    and "\<forall>v. Virtual v \<notin> live_in li (entry mf)"
    and "fn_runs (rv64_step call E fl) mf st r"
  shows "\<exists>mf' r'. register_allocation rv64_target mf = Some mf' \<and>
    fn_runs (rv64_step call E fl) mf' st r' \<and> memory r' = memory r \<and>
    (\<forall>p \<in> {rv64_reg.A0, rv64_reg.A1, rv64_reg.Sp, rv64_reg.Gp, rv64_reg.Tp}.
       get_reg rv64_reg.Zero r' (Physical p) = get_reg rv64_reg.Zero r (Physical p))"
proof -
  from rv64_rename.register_allocation_preserves_runs [OF assms]
  obtain mf' r' where "register_allocation rv64_target mf = Some mf'"
    "fn_runs (rv64_step call E fl) mf' st r'" "memory r' = memory r"
    "\<forall>p \<in> {rv64_reg.A0, rv64_reg.A1} \<union> rv64_stable.
       get_reg rv64_reg.Zero r' (Physical p) = get_reg rv64_reg.Zero r (Physical p)" by auto
  then show ?thesis unfolding rv64_stable_def by blast
qed

lemma one_value_runs:
  "fn_runs (rv64_step call E fl) one_value st
     (put_reg rv64_reg.Zero (Physical rv64_reg.A0) 5 (put_reg rv64_reg.Zero (Virtual 0) 5 st))"
proof -
  let ?S = "rv64_step call E fl"
  let ?st1 = "put_reg rv64_reg.Zero (Virtual 0) 5 st"
  let ?st2 = "put_reg rv64_reg.Zero (Physical rv64_reg.A0) 5 ?st1"
  let ?is = "[rv64_inst.Li (Virtual 0) 5, rv64_inst.Mv (Physical rv64_reg.A0) (Virtual 0), rv64_inst.Ret]"
  have "(simm (5 :: i32) :: 64 word) = 5" by (simp add: simm_def)
  then have 1: "?S (?is ! 0) st = Some (Fall ?st1)" and 2: "?S (?is ! 1) ?st1 = Some (Fall ?st2)"
    and 3: "?S (?is ! 2) ?st2 = Some (Return ?st2)"
    by (simp_all add: rv64_step_def rv64_branch_taken_def rv64_exec_def)
  have "runs ?S (items (blocks one_value)) (map Ins ?is) st ?st2"
    using runs_fall [where step = ?S, OF 1] runs_fall [where step = ?S, OF 2] runs_return [where step = ?S, OF 3]
    by simp
  then show ?thesis by (simp add: fn_runs_def one_value_def empty_machine_function_def block_items_def)
qed

lemma one_value_plain:
  "\<forall>b \<in> set (blocks one_value). closed_insts rv64_target (instructions b) \<and>
      rv64_rename.terms_last (instructions b) \<and> rv64_rename.plain_block call li b"
proof -
  let ?is = "[rv64_inst.Li (Virtual 0) 5, rv64_inst.Mv (Physical rv64_reg.A0) (Virtual 0), rv64_inst.Ret]"
  have "rv64_plain call i \<and> rv64_undefined i = {}" if "i \<in> set ?is" for i
    using that by (auto simp: rv64_plain_def rv64_undefined_def rv64_use_regs_def)
  then have "rv64_rename.plain_block call li \<lparr>mb_id = 0, mb_name = ''.bb0'', instructions = ?is\<rparr>"
    unfolding rv64_rename.plain_block_def by (metis inf_bot_left machine_block.select_convs(3) nth_mem)
  moreover have "rv64_rename.terms_last ?is"
    unfolding rv64_rename.terms_last_def
    by (auto simp: rv64_is_terminator_def rv64_def_regs_def nth_Cons split: nat.splits)
  ultimately show ?thesis
    by (simp add: one_value_def closed_insts_def rv64_is_ret_def)
qed

theorem rv64_allocation_preserves_runs_witness:
  "\<exists>mf' r'. register_allocation rv64_target one_value = Some mf' \<and>
    fn_runs (rv64_step (\<lambda>_ _ st. Some st) blank_env far_frame) mf' blank_state r' \<and>
    get_reg rv64_reg.Zero r' (Physical rv64_reg.A0) = 5"
proof -
  obtain assigned li where al: "compute_spill rv64_target one_value = Some ([], assigned)"
    "liveness_analysis rv64_target one_value = Some li" using one_value_allocated by blast
  obtain li' where "liveness_analysis rv64_target one_value = Some li'" "live_sound rv64_target one_value li'"
    using liveness_analysis_result [OF one_value_shape(2,1)] by blast
  with al have "live_sound rv64_target one_value li" by simp
  then have "live_in li 0 \<subseteq> {Physical rv64_reg.Ra, Physical rv64_reg.A1}"
    by (auto simp: live_sound_def one_value_def rv64_is_terminator_def rv64_get_successors_def
        live_before_def rv64_use_regs_def rv64_def_regs_def)
  then have entry: "\<forall>v. Virtual v \<notin> live_in li (entry one_value)"
    by (auto simp: one_value_def empty_machine_function_def)
  from rv64_allocation_preserves_runs [OF one_value_shape(2,1,3) al one_value_plain entry
      one_value_runs [of "\<lambda>_ _ st. Some st" blank_env far_frame blank_state]]
  show ?thesis by auto
qed

text \<open>C16. On RV64 the allocator does not loop when the pressure is low: on a function with distinct
  block ids, whose terminators name their successors (on an indirect jump \<open>compute_cfg\<close> panics) and
  whose successors are blocks of the function, if every virtual register interferes with fewer others
  than there are registers it may use, the first round spills nothing and allocation returns.\<close>

theorem rv64_low_pressure_allocation_returns:
  assumes "compute_cfg rv64_target (blocks mf) = Some cfg" and "distinct (map mb_id (blocks mf))"
    and "succs_known rv64_target (blocks mf)"
    and "\<And>li G v. liveness_analysis rv64_target mf = Some li \<Longrightarrow> build rv64_target mf li = Some G \<Longrightarrow>
      node (edges G) v \<Longrightarrow> card (neighbours (edges G) v) < length (available_regs rv64_target G v)"
  shows "\<exists>assigned. compute_spill rv64_target mf = Some ([], assigned) \<and>
    register_allocation rv64_target mf = Some (callee_saved_scan rv64_target (rewrite_function rv64_target assigned mf))"
proof -
  obtain spills assigned li G where r: "compute_spill rv64_target mf = Some (spills, assigned)"
    "build rv64_target mf li = Some G" "round_ok rv64_target mf li G spills assigned"
    using compute_spill_result [OF assms(1-3)] by blast
  then obtain used where c: "colouring_ok rv64_target G (fst ` set (edges G)) (spills, assigned, used)"
    and wf: "edges_wf (edges G)" and li: "liveness_analysis rv64_target mf = Some li"
    by (auto simp: round_ok_def)
  have "spills = []"
    by (rule low_degree_no_spill [OF c wf])
      (use assms(4) [OF li r(2)] in \<open>auto simp: rv64_allocatable_regs_def node_def\<close>)
  with r(1) register_allocation_no_spill show ?thesis by blast
qed

theorem rv64_low_pressure_allocation_returns_witness:
  "\<exists>assigned. register_allocation rv64_target one_value =
     Some (callee_saved_scan rv64_target (rewrite_function rv64_target assigned one_value))"
proof -
  have "card (neighbours (edges G) v) < length (available_regs rv64_target G v)"
    if "liveness_analysis rv64_target one_value = Some li" "build rv64_target one_value li = Some G"
      "node (edges G) v" for li G v
    using one_value_graph [OF that(1,2)] that(3) by auto
  note low = this
  have "\<exists>assigned. compute_spill rv64_target one_value = Some ([], assigned) \<and>
      register_allocation rv64_target one_value =
        Some (callee_saved_scan rv64_target (rewrite_function rv64_target assigned one_value))"
    by (rule rv64_low_pressure_allocation_returns [OF one_value_shape(2,1,3)]) (rule low)
  then show ?thesis by blast
qed

text \<open>C15. On a function whose virtual registers are all below its register counter, as \<open>new_vreg\<close> keeps
  them, a spilling round on RV32 never panics. Afterwards the code mentions none of the registers it
  was asked to spill: what it mentions was there before, or is a fresh register below the new count.\<close>

theorem rv32_spill_round_removes_vregs:
  assumes "\<forall>b \<in> set (blocks mf). vregs_below rv32_target (vreg_counter mf) (instructions b)"
  shows "\<exists>mf'. spill_vreg rv32_target vs mf = Some mf' \<and> map mb_id (blocks mf') = map mb_id (blocks mf) \<and>
    (\<forall>b \<in> set (blocks mf'). \<forall>i \<in> set (instructions b). \<forall>v.
       Virtual v \<in> set (rv32_def_regs i) \<union> set (rv32_use_regs i) \<longrightarrow>
       v < vreg_counter mf \<and> v \<notin> set vs \<or> vreg_counter mf \<le> v \<and> v < vreg_counter mf')"
proof -
  obtain mf' where "spill_vreg rv32_target vs mf = Some mf'" "map mb_id (blocks mf') = map mb_id (blocks mf)"
    "\<forall>b \<in> set (blocks mf'). rv32_spill.vregs_ok (vreg_counter mf) (set vs) (vreg_counter mf') (instructions b)"
    using rv32_spill.spill_vreg_facts [OF assms] by blast
  then show ?thesis unfolding rv32_spill.vregs_ok_def inst_vregs_def virtuals_iff by auto
qed

theorem rv32_spill_round_removes_vregs_witness:
  "\<exists>mf'. spill_vreg rv32_target [0] ((empty_machine_function ''f'')\<lparr>blocks := [\<lparr>mb_id = 0, mb_name = ''.bb0'',
       instructions = [rv32_inst.Li (Virtual 0) 5, rv32_inst.Mv (Physical rv32_reg.A0) (Virtual 0),
         rv32_inst.Ret]\<rparr>], vreg_counter := 1\<rparr>) = Some mf'"
proof -
  let ?mf = "(empty_machine_function ''f'')\<lparr>blocks := [\<lparr>mb_id = 0, mb_name = ''.bb0'',
       instructions = [rv32_inst.Li (Virtual 0) 5, rv32_inst.Mv (Physical rv32_reg.A0) (Virtual 0),
         rv32_inst.Ret]\<rparr>], vreg_counter := 1\<rparr> :: (rv32_reg, rv32_inst) machine_function"
  have "\<forall>b \<in> set (blocks ?mf). vregs_below rv32_target (vreg_counter ?mf) (instructions b)"
    by (auto simp: vregs_below_def inst_vregs_def rv32_def_regs_def rv32_use_regs_def)
  from rv32_spill_round_removes_vregs [OF this] show ?thesis by blast
qed

end
