(* ===== verification/IR_Types.thy ===== *)
theory IR_Types
  imports Prelude
begin

text \<open>
  The types of the IR (\<open>src/src/ir/ir_type.rs\<close>), the attribute sets of functions, results and
  parameters (\<open>src/src/ir/attribute.rs\<close>) and the layout engine (\<open>src/src/ir/layout.rs\<close>).

  A \<open>TypePtr\<close> is a value here: the reference counts and the \<open>RefCell\<close>s inside a struct type (its
  name and its body are set once, while the type is built) are not modelled.  \<open>Size\<close> and
  \<open>Align\<close> are \<open>u32\<close>: a size that leaves the range panics, as it does in the dev profile.  Layouts
  come from a cache keyed by types: where the engine returns, it returns what the computation without a
  cache returns, and those layouts are sound; where the cache hashes an anonymous opaque struct it
  panics.
\<close>

section \<open>Types\<close>

datatype 'a struct_type_enum = Opaque | Body "'a list" bool

datatype ir_type =
    IntT nat
  | FunctionT ir_type "ir_type list"
  | PtrT
  | StructT "string option" "ir_type struct_type_enum"
  | ArrayT ir_type nat
  | VoidT
  | LabelT

text \<open>The equality of types: the name of a struct does not take part.\<close>

fun type_eq :: "ir_type \<Rightarrow> ir_type \<Rightarrow> bool" and types_eq :: "ir_type list \<Rightarrow> ir_type list \<Rightarrow> bool" where
  "type_eq (IntT a) t = (t = IntT a)"
| "type_eq (FunctionT r ps) t =
     (case t of FunctionT r' ps' \<Rightarrow> type_eq r r' \<and> types_eq ps ps' | _ \<Rightarrow> False)"
| "type_eq PtrT t = (t = PtrT)"
| "type_eq (StructT _ Opaque) t = (case t of StructT _ Opaque \<Rightarrow> True | _ \<Rightarrow> False)"
| "type_eq (StructT _ (Body tys packed)) t =
     (case t of StructT _ (Body tys' packed') \<Rightarrow> types_eq tys tys' \<and> packed = packed' | _ \<Rightarrow> False)"
| "type_eq (ArrayT e n) t = (case t of ArrayT e' n' \<Rightarrow> type_eq e e' \<and> n = n' | _ \<Rightarrow> False)"
| "type_eq VoidT t = (t = VoidT)"
| "type_eq LabelT t = (t = LabelT)"
| "types_eq [] us = (us = [])"
| "types_eq (t # ts) us = (case us of [] \<Rightarrow> False | u # us' \<Rightarrow> type_eq t u \<and> types_eq ts us')"

definition is_aggregate_type :: "ir_type \<Rightarrow> bool" where
  "is_aggregate_type ty =
     (case ty of ArrayT _ _ \<Rightarrow> True | FunctionT _ _ \<Rightarrow> True | StructT _ _ \<Rightarrow> True | _ \<Rightarrow> False)"

definition is_zero_length_type :: "ir_type \<Rightarrow> bool" where
  "is_zero_length_type ty =
     (case ty of VoidT \<Rightarrow> True | StructT _ (Body tys _) \<Rightarrow> tys = [] | _ \<Rightarrow> False)"

definition get_struct_name :: "ir_type \<Rightarrow> string option" where
  "get_struct_name ty = (case ty of StructT n _ \<Rightarrow> n | _ \<Rightarrow> None)"

definition is_fat_ptr :: "ir_type \<Rightarrow> bool" where
  "is_fat_ptr ty = (get_struct_name ty = Some ''fat_ptr'')"

definition set_body :: "ir_type \<Rightarrow> ir_type list \<Rightarrow> bool \<Rightarrow> ir_type" where
  "set_body ty tys packed = (case ty of StructT n _ \<Rightarrow> StructT n (Body tys packed) | t \<Rightarrow> t)"

definition get_body :: "ir_type \<Rightarrow> ir_type list option" where
  "get_body ty = (case ty of StructT _ (Body tys _) \<Rightarrow> Some tys | _ \<Rightarrow> None)"

definition is_fields_type_same :: "ir_type \<Rightarrow> ir_type list \<Rightarrow> bool" where
  "is_fields_type_same ty tys =
     (case get_body ty of None \<Rightarrow> False | Some body \<Rightarrow> types_eq body tys)"

lemma types_eq_list_all2: "types_eq ts us = list_all2 type_eq ts us"
  by (induction ts arbitrary: us) (auto simp: list_all2_Cons1 split: list.splits)

lemma type_eq_refl [simp]: "type_eq t t"
proof (induction t)
  case (StructT n k)
  then show ?case by (cases k) (auto simp: types_eq_list_all2 list_all2_same)
qed (auto simp: types_eq_list_all2 list_all2_same)

text \<open>The field list of a struct is the last one set, whatever its name.\<close>

lemma get_set_body [simp]:
  "get_body (set_body (StructT n k) tys packed) = Some tys"
  by (simp add: get_body_def set_body_def)

section \<open>Attributes\<close>

datatype attribute_kind = StructReturnKind | NonNullKind | AlignKind

datatype attribute = StructReturn ir_type | NonNull | Align nat

fun attr_kind :: "attribute \<Rightarrow> attribute_kind" where
  "attr_kind (StructReturn _) = StructReturnKind"
| "attr_kind NonNull = NonNullKind"
| "attr_kind (Align _) = AlignKind"

type_synonym attribute_set = "attribute list"

text \<open>\<open>AttributeSet::insert\<close>: the attribute of the same kind is replaced in place and returned.\<close>

fun attr_insert :: "attribute_set \<Rightarrow> attribute \<Rightarrow> attribute_set \<times> attribute option" where
  "attr_insert [] a = ([a], None)"
| "attr_insert (d # ds) a =
     (if attr_kind d = attr_kind a then (a # ds, Some d)
      else let (ds', old) = attr_insert ds a in (d # ds', old))"

fun attr_remove :: "attribute_set \<Rightarrow> attribute_kind \<Rightarrow> attribute_set \<times> attribute option" where
  "attr_remove [] k = ([], None)"
| "attr_remove (d # ds) k =
     (if attr_kind d = k then (ds, Some d)
      else let (ds', old) = attr_remove ds k in (d # ds', old))"

definition attr_get :: "attribute_set \<Rightarrow> attribute_kind \<Rightarrow> attribute option" where
  "attr_get ds k = find (\<lambda>d. attr_kind d = k) ds"

definition attr_contains :: "attribute_set \<Rightarrow> attribute_kind \<Rightarrow> bool" where
  "attr_contains ds k = (attr_get ds k \<noteq> None)"

definition struct_return_ty :: "attribute_set \<Rightarrow> ir_type option" where
  "struct_return_ty ds =
     (case attr_get ds StructReturnKind of Some (StructReturn ty) \<Rightarrow> Some ty | _ \<Rightarrow> None)"

record function_attributes =
  fn_attrs :: attribute_set
  ret_attrs :: attribute_set

definition attr_set_ok :: "attribute_set \<Rightarrow> bool" where
  "attr_set_ok ds \<longleftrightarrow> distinct (map attr_kind ds)"

lemma attr_insert_Cons:
  "fst (attr_insert (d # ds) a) =
     (if attr_kind d = attr_kind a then a # ds else d # fst (attr_insert ds a))"
  "snd (attr_insert (d # ds) a) =
     (if attr_kind d = attr_kind a then Some d else snd (attr_insert ds a))"
  by (simp_all split: prod.splits)

lemma attr_remove_Cons:
  "fst (attr_remove (d # ds) k) = (if attr_kind d = k then ds else d # fst (attr_remove ds k))"
  by (simp split: prod.splits)

declare attr_insert.simps(2) [simp del] attr_remove.simps(2) [simp del]
declare attr_insert_Cons [simp] attr_remove_Cons [simp]

lemma attr_get_insert:
  "attr_get (fst (attr_insert ds a)) k =
     (if k = attr_kind a then Some a else attr_get ds k)"
  by (induction ds) (auto simp: attr_get_def)

lemma attr_insert_returns: "snd (attr_insert ds a) = attr_get ds (attr_kind a)"
  by (induction ds) (auto simp: attr_get_def)

lemma kinds_attr_insert:
  "attr_kind ` set (fst (attr_insert ds a)) = insert (attr_kind a) (attr_kind ` set ds)"
  by (induction ds) (simp_all add: insert_commute)

lemma attr_insert_ok: "attr_set_ok ds \<Longrightarrow> attr_set_ok (fst (attr_insert ds a))"
proof (induction ds)
  case (Cons d ds)
  then show ?case using kinds_attr_insert [of ds a]
    by (cases "attr_kind d = attr_kind a") (simp_all add: attr_set_ok_def)
qed (simp add: attr_set_ok_def)

lemma kinds_attr_remove: "set (fst (attr_remove ds k)) \<subseteq> set ds"
  by (induction ds) auto

lemma attr_remove_ok: "attr_set_ok ds \<Longrightarrow> attr_set_ok (fst (attr_remove ds k))"
proof (induction ds)
  case (Cons d ds)
  have "attr_kind ` set (fst (attr_remove ds k)) \<subseteq> attr_kind ` set ds"
    by (rule image_mono [OF kinds_attr_remove])
  with Cons show ?case by (auto simp: attr_set_ok_def)
qed (simp add: attr_set_ok_def)

lemma attr_get_absent: "k \<notin> attr_kind ` set ds \<Longrightarrow> attr_get ds k = None"
  by (auto simp: attr_get_def find_None_iff)

lemma attr_get_remove:
  "attr_set_ok ds \<Longrightarrow>
     attr_get (fst (attr_remove ds k)) k' = (if k' = k then None else attr_get ds k')"
proof (induction ds)
  case (Cons d ds)
  then show ?case using attr_get_absent [of k ds]
    by (auto simp: attr_get_def attr_set_ok_def)
qed (simp add: attr_get_def)

section \<open>Layouts\<close>

record layout =
  size_of_layout :: nat
  align_of_layout :: nat

definition layout_zero :: layout where
  "layout_zero = \<lparr>size_of_layout = 0, align_of_layout = 1\<rparr>"

text \<open>A \<open>u32\<close> that leaves its range panics.\<close>

definition u32_checked :: "nat \<Rightarrow> nat option" where
  "u32_checked n = (if n < 2 ^ 32 then Some n else None)"

definition align_to :: "nat \<Rightarrow> nat \<Rightarrow> nat option" where
  "align_to value align =
     (if align = 0 then None else u32_checked (next_multiple_of value align))"

definition stride :: "layout \<Rightarrow> nat option" where
  "stride l = align_to (size_of_layout l) (align_of_layout l)"

record field_layout =
  offset :: nat
  field_layout :: layout

record struct_layout =
  struct_layout :: layout
  struct_fields :: "field_layout list"
  struct_packed :: bool

record array_layout =
  array_layout :: layout
  elem :: layout
  elem_stride :: nat
  array_len :: nat

datatype layout_shape = ScalarShape | ArrayShape array_layout | StructShape struct_layout

record type_layout =
  layout :: layout
  shape :: layout_shape

definition as_struct :: "type_layout \<Rightarrow> struct_layout option" where
  "as_struct l = (case shape l of StructShape s \<Rightarrow> Some s | _ \<Rightarrow> None)"

definition as_array :: "type_layout \<Rightarrow> array_layout option" where
  "as_array l = (case shape l of ArrayShape a \<Rightarrow> Some a | _ \<Rightarrow> None)"

record target_data_layout =
  pointer_size :: nat
  pointer_align :: nat

definition rv32_data_layout :: target_data_layout where
  "rv32_data_layout = \<lparr>pointer_size = 4, pointer_align = 4\<rparr>"

definition rv64_data_layout :: target_data_layout where
  "rv64_data_layout = \<lparr>pointer_size = 8, pointer_align = 8\<rparr>"

datatype layout_error =
    OpaqueStruct "string option"
  | UnsizedFunction
  | InvalidLabel
  | InvalidFieldIndex nat nat

definition layout_of_int :: "nat \<Rightarrow> layout" where
  "layout_of_int bits =
     (let bytes = (max bits 1 + 7) div 8
      in \<lparr>size_of_layout = bytes,
          align_of_layout = (if bytes \<le> 1 then 1 else if bytes = 2 then 2
                             else if bytes \<le> 4 then 4 else 8)\<rparr>)"

text \<open>\<open>Hash for StructType\<close>: a struct type hashes by its name, or else by its body, and an anonymous
  opaque struct panics (\<open>StructType has no body!\<close>).  The other types hash their parts.\<close>

fun hashable :: "ir_type \<Rightarrow> bool" where
  "hashable (FunctionT r ps) = (hashable r \<and> list_all hashable ps)"
| "hashable (StructT (Some n) k) = True"
| "hashable (StructT None Opaque) = False"
| "hashable (StructT None (Body tys pk)) = list_all hashable tys"
| "hashable (ArrayT e n) = hashable e"
| "hashable _ = True"

text \<open>The engine.  The outer option is a panic, the sum a \<open>Result\<close>, and the cache is threaded
  through.  Since a struct type hashes by its name but compares by its body, the hash map may miss an
  entry whose key is equal: \<open>hit stored asked\<close> says whether the entry is found.  A probe hashes the key,
  unless the map is empty (the \<open>get\<close> of the standard library returns before it hashes), and so does an
  insertion.\<close>

type_synonym layout_cache = "(ir_type \<times> type_layout) list"
type_synonym 'a cached = "((layout_error + 'a) \<times> layout_cache) option"

definition cache_get :: "(ir_type \<Rightarrow> ir_type \<Rightarrow> bool) \<Rightarrow> layout_cache \<Rightarrow> ir_type \<Rightarrow> type_layout option" where
  "cache_get hit c ty = map_option snd (find (\<lambda>(k, _). hit k ty) c)"

definition cache_probe ::
  "(ir_type \<Rightarrow> ir_type \<Rightarrow> bool) \<Rightarrow> layout_cache \<Rightarrow> ir_type \<Rightarrow> type_layout option option" where
  "cache_probe hit c ty = (if c \<noteq> [] \<and> \<not> hashable ty then None else Some (cache_get hit c ty))"

definition cache_insert :: "ir_type \<Rightarrow> type_layout \<Rightarrow> layout_cache \<Rightarrow> layout_cache option" where
  "cache_insert ty l c = (if hashable ty then Some ((ty, l) # c) else None)"

definition scalar_layout :: "layout \<Rightarrow> type_layout" where
  "scalar_layout l = \<lparr>layout = l, shape = ScalarShape\<rparr>"

definition make_array_layout :: "layout \<Rightarrow> nat \<Rightarrow> type_layout option" where
  "make_array_layout el len = do {
     st \<leftarrow> stride el;
     size \<leftarrow> u32_checked (st * len);
     let l = \<lparr>size_of_layout = size, align_of_layout = align_of_layout el\<rparr>;
     Some \<lparr>layout = l, shape = ArrayShape \<lparr>array_layout = l, elem = el, elem_stride = st, array_len = len\<rparr>\<rparr>
   }"

text \<open>One round of the loop of \<open>compute_struct_layout\<close>: offset, alignment so far and the fields.\<close>

definition place_field ::
  "bool \<Rightarrow> layout \<Rightarrow> nat \<times> nat \<times> field_layout list \<Rightarrow> (nat \<times> nat \<times> field_layout list) option" where
  "place_field pk fl st = (case st of (off, al, fs) \<Rightarrow> do {
     off1 \<leftarrow> align_to off (if pk then 1 else align_of_layout fl);
     off2 \<leftarrow> u32_checked (off1 + size_of_layout fl);
     Some (off2, if pk then al else max al (align_of_layout fl),
           fs @ [\<lparr>offset = off1, field_layout = fl\<rparr>])
   })"

definition finish_struct :: "bool \<Rightarrow> nat \<times> nat \<times> field_layout list \<Rightarrow> struct_layout option" where
  "finish_struct pk st = (case st of (off, al, fs) \<Rightarrow> do {
     let align = (if pk then 1 else al);
     size \<leftarrow> align_to off align;
     Some \<lparr>struct_layout = \<lparr>size_of_layout = size, align_of_layout = align\<rparr>, struct_fields = fs, struct_packed = pk\<rparr>
   })"

function layout_of ::
  "(ir_type \<Rightarrow> ir_type \<Rightarrow> bool) \<Rightarrow> target_data_layout \<Rightarrow> ir_type \<Rightarrow> layout_cache \<Rightarrow> type_layout cached"
and compute_layout ::
  "(ir_type \<Rightarrow> ir_type \<Rightarrow> bool) \<Rightarrow> target_data_layout \<Rightarrow> ir_type \<Rightarrow> layout_cache \<Rightarrow> type_layout cached"
and place_fields ::
  "(ir_type \<Rightarrow> ir_type \<Rightarrow> bool) \<Rightarrow> target_data_layout \<Rightarrow> bool \<Rightarrow> ir_type list \<Rightarrow>
     nat \<times> nat \<times> field_layout list \<Rightarrow> layout_cache \<Rightarrow> (nat \<times> nat \<times> field_layout list) cached"
where
  "layout_of hit td ty c =
     (case cache_probe hit c ty of
        None \<Rightarrow> None
      | Some (Some l) \<Rightarrow> Some (Inr l, c)
      | Some None \<Rightarrow>
          (case compute_layout hit td ty c of
             None \<Rightarrow> None
           | Some (Inl e, c1) \<Rightarrow> Some (Inl e, c1)
           | Some (Inr l, c1) \<Rightarrow> map_option (\<lambda>c2. (Inr l, c2)) (cache_insert ty l c1)))"
| "compute_layout hit td (IntT b) c = Some (Inr (scalar_layout (layout_of_int b)), c)"
| "compute_layout hit td PtrT c =
     Some (Inr (scalar_layout \<lparr>size_of_layout = pointer_size td, align_of_layout = pointer_align td\<rparr>), c)"
| "compute_layout hit td VoidT c = Some (Inr (scalar_layout layout_zero), c)"
| "compute_layout hit td (ArrayT e len) c =
     (case layout_of hit td e c of
        None \<Rightarrow> None
      | Some (Inl er, c1) \<Rightarrow> Some (Inl er, c1)
      | Some (Inr el, c1) \<Rightarrow> map_option (\<lambda>l. (Inr l, c1)) (make_array_layout (layout el) len))"
| "compute_layout hit td (StructT n Opaque) c = Some (Inl (OpaqueStruct n), c)"
| "compute_layout hit td (StructT n (Body tys pk)) c =
     (case place_fields hit td pk tys (0, 1, []) c of
        None \<Rightarrow> None
      | Some (Inl er, c1) \<Rightarrow> Some (Inl er, c1)
      | Some (Inr st, c1) \<Rightarrow>
          map_option (\<lambda>s. (Inr \<lparr>layout = struct_layout s, shape = StructShape s\<rparr>, c1)) (finish_struct pk st))"
| "compute_layout hit td (FunctionT r ps) c = Some (Inl UnsizedFunction, c)"
| "compute_layout hit td LabelT c = Some (Inl InvalidLabel, c)"
| "place_fields hit td pk [] st c = Some (Inr st, c)"
| "place_fields hit td pk (ty # tys) st c =
     (case layout_of hit td ty c of
        None \<Rightarrow> None
      | Some (Inl er, c1) \<Rightarrow> Some (Inl er, c1)
      | Some (Inr l, c1) \<Rightarrow>
          (case place_field pk (layout l) st of
             None \<Rightarrow> None
           | Some st' \<Rightarrow> place_fields hit td pk tys st' c1))"
  by pat_completeness auto

termination
  by (relation "measures [\<lambda>x. case x of Inl (_, _, ty, _) \<Rightarrow> size ty
                                    | Inr (Inl (_, _, ty, _)) \<Rightarrow> size ty
                                    | Inr (Inr (_, _, _, tys, _, _)) \<Rightarrow> size_list size tys,
                          \<lambda>x. case x of Inl _ \<Rightarrow> 1 | _ \<Rightarrow> (0 :: nat)]") auto

text \<open>The queries.  \<open>array_layout_of\<close> and \<open>struct_layout_of\<close> unwrap the shape.\<close>

definition cached_map :: "('a \<Rightarrow> 'b option) \<Rightarrow> 'a cached \<Rightarrow> 'b cached" where
  "cached_map f r =
     (case r of
        None \<Rightarrow> None
      | Some (Inl e, c) \<Rightarrow> Some (Inl e, c)
      | Some (Inr x, c) \<Rightarrow> map_option (\<lambda>y. (Inr y, c)) (f x))"

definition size_of where
  "size_of hit td ty c = cached_map (\<lambda>l. Some (size_of_layout (layout l))) (layout_of hit td ty c)"

definition align_of where
  "align_of hit td ty c = cached_map (\<lambda>l. Some (align_of_layout (layout l))) (layout_of hit td ty c)"

definition stride_of where
  "stride_of hit td ty c = cached_map (\<lambda>l. stride (layout l)) (layout_of hit td ty c)"

definition array_layout_of where
  "array_layout_of hit td ty c = cached_map as_array (layout_of hit td ty c)"

definition array_offset_of where
  "array_offset_of hit td ty index c =
     cached_map (\<lambda>a. u32_checked (elem_stride a * index)) (array_layout_of hit td ty c)"

definition struct_layout_of where
  "struct_layout_of hit td ty c = cached_map as_struct (layout_of hit td ty c)"

definition field_layout_of ::
  "(ir_type \<Rightarrow> ir_type \<Rightarrow> bool) \<Rightarrow> target_data_layout \<Rightarrow> ir_type \<Rightarrow> nat \<Rightarrow> layout_cache \<Rightarrow> field_layout cached" where
  "field_layout_of hit td ty index c =
     (case struct_layout_of hit td ty c of
        None \<Rightarrow> None
      | Some (Inl e, c1) \<Rightarrow> Some (Inl e, c1)
      | Some (Inr s, c1) \<Rightarrow>
          Some (if index < length (struct_fields s) then Inr (struct_fields s ! index)
                else Inl (InvalidFieldIndex index (length (struct_fields s))), c1))"

definition field_offset_of where
  "field_offset_of hit td ty index c = cached_map (\<lambda>f. Some (offset f)) (field_layout_of hit td ty index c)"

declare layout_of.simps [simp del]

section \<open>The computation without a cache\<close>

fun plain_layout :: "target_data_layout \<Rightarrow> ir_type \<Rightarrow> (layout_error + type_layout) option"
and plain_fields :: "target_data_layout \<Rightarrow> bool \<Rightarrow> ir_type list \<Rightarrow> nat \<times> nat \<times> field_layout list \<Rightarrow>
     (layout_error + nat \<times> nat \<times> field_layout list) option" where
  "plain_layout td (IntT b) = Some (Inr (scalar_layout (layout_of_int b)))"
| "plain_layout td PtrT =
     Some (Inr (scalar_layout \<lparr>size_of_layout = pointer_size td, align_of_layout = pointer_align td\<rparr>))"
| "plain_layout td VoidT = Some (Inr (scalar_layout layout_zero))"
| "plain_layout td (ArrayT e len) =
     (case plain_layout td e of
        Some (Inr el) \<Rightarrow> map_option Inr (make_array_layout (layout el) len)
      | r \<Rightarrow> r)"
| "plain_layout td (StructT n Opaque) = Some (Inl (OpaqueStruct n))"
| "plain_layout td (StructT n (Body tys pk)) =
     (case plain_fields td pk tys (0, 1, []) of
        None \<Rightarrow> None
      | Some (Inl er) \<Rightarrow> Some (Inl er)
      | Some (Inr st) \<Rightarrow>
          map_option (\<lambda>s. Inr \<lparr>layout = struct_layout s, shape = StructShape s\<rparr>) (finish_struct pk st))"
| "plain_layout td (FunctionT r ps) = Some (Inl UnsizedFunction)"
| "plain_layout td LabelT = Some (Inl InvalidLabel)"
| "plain_fields td pk [] st = Some (Inr st)"
| "plain_fields td pk (ty # tys) st =
     (case plain_layout td ty of
        None \<Rightarrow> None
      | Some (Inl er) \<Rightarrow> Some (Inl er)
      | Some (Inr l) \<Rightarrow>
          (case place_field pk (layout l) st of
             None \<Rightarrow> None
           | Some st' \<Rightarrow> plain_fields td pk tys st'))"

text \<open>Equal types have equal layouts, so a hit for a struct of another name does no harm.\<close>

lemma type_eq_ArrayT: "type_eq (ArrayT e n) u \<Longrightarrow> \<exists>e'. u = ArrayT e' n \<and> type_eq e e'"
  by (auto split: ir_type.splits)

lemma type_eq_BodyT:
  "type_eq (StructT n (Body tys pk)) u \<Longrightarrow> \<exists>n' tys'. u = StructT n' (Body tys' pk) \<and> types_eq tys tys'"
  by (auto split: ir_type.splits struct_type_enum.splits)

lemma plain_ArrayT_Inr:
  "plain_layout td (ArrayT e n) = Some (Inr l) \<longleftrightarrow>
     (\<exists>el. plain_layout td e = Some (Inr el) \<and> make_array_layout (layout el) n = Some l)"
  by (simp split: option.splits sum.splits)

lemma plain_BodyT_Inr:
  "plain_layout td (StructT n (Body tys pk)) = Some (Inr l) \<longleftrightarrow>
     (\<exists>st s. plain_fields td pk tys (0, 1, []) = Some (Inr st) \<and> finish_struct pk st = Some s \<and>
       l = \<lparr>layout = struct_layout s, shape = StructShape s\<rparr>)"
  by (simp split: option.splits sum.splits) auto

lemma plain_fields_Cons_Inr:
  "plain_fields td pk (ty # tys) st = Some (Inr r) \<longleftrightarrow>
     (\<exists>l st'. plain_layout td ty = Some (Inr l) \<and> place_field pk (layout l) st = Some st' \<and>
       plain_fields td pk tys st' = Some (Inr r))"
  by (simp split: option.splits sum.splits)

lemmas plain_Inr = plain_ArrayT_Inr plain_BodyT_Inr plain_fields_Cons_Inr

lemma plain_type_eq:
  "type_eq t u \<Longrightarrow> plain_layout td t = Some (Inr l) \<Longrightarrow> plain_layout td u = Some (Inr l)"
  and plain_types_eq:
  "types_eq ts us \<Longrightarrow> plain_fields td pk ts st = Some (Inr r) \<Longrightarrow> plain_fields td pk us st = Some (Inr r)"
proof (induction td t and td pk ts st arbitrary: u l and us r rule: plain_layout_plain_fields.induct)
  case (4 td e len)
  from type_eq_ArrayT [OF 4(2)] obtain e' where u: "u = ArrayT e' len" "type_eq e e'" by blast
  show ?case using 4(1) [OF u(2)] 4(3) unfolding u(1) plain_ArrayT_Inr by blast
next
  case (6 td n tys pk)
  from type_eq_BodyT [OF 6(2)] obtain n' tys' where
    u: "u = StructT n' (Body tys' pk)" "types_eq tys tys'" by blast
  show ?case using 6(1) [OF u(2)] 6(3) unfolding u(1) plain_BodyT_Inr by blast
next
  case (10 td pk ty tys st)
  from 10(3) obtain u us' where us: "us = u # us'" "type_eq ty u" "types_eq tys us'"
    by (auto split: list.splits)
  from 10(4) obtain l st' where
    l: "plain_layout td ty = Some (Inr l)" and st': "place_field pk (layout l) st = Some st'"
      "plain_fields td pk tys st' = Some (Inr r)"
    unfolding plain_Inr by blast
  have "plain_fields td pk us' st' = Some (Inr r)"
    using 10(2) l st' us(3) by blast
  then show ?case using 10(1) l st' us by (auto simp: plain_fields_Cons_Inr)
qed (auto split: ir_type.splits struct_type_enum.splits)

definition cache_ok :: "target_data_layout \<Rightarrow> layout_cache \<Rightarrow> bool" where
  "cache_ok td c \<longleftrightarrow> (\<forall>(k, l) \<in> set c. plain_layout td k = Some (Inr l))"

lemma cache_hit:
  assumes "cache_ok td c" "\<And>k q. hit k q \<Longrightarrow> type_eq k q" "cache_get hit c ty = Some l"
  shows "plain_layout td ty = Some (Inr l)"
proof -
  from assms(3) obtain k where k: "find (\<lambda>(k, _). hit k ty) c = Some (k, l)"
    by (auto simp: cache_get_def)
  then have "(k, l) \<in> set c" "hit k ty" using nth_mem by (fastforce simp: find_Some_iff)+
  with assms(1,2) have "plain_layout td k = Some (Inr l)" "type_eq k ty" by (auto simp: cache_ok_def)
  with plain_type_eq show ?thesis by blast
qed

text \<open>No type that the computation asks about hashes an anonymous opaque struct.  That holds of every
  type that has a layout.\<close>

fun hashes_well :: "ir_type \<Rightarrow> bool" where
  "hashes_well (FunctionT r ps) = hashable (FunctionT r ps)"
| "hashes_well (StructT n Opaque) = hashable (StructT n Opaque)"
| "hashes_well (StructT n (Body tys pk)) = (hashable (StructT n (Body tys pk)) \<and> list_all hashes_well tys)"
| "hashes_well (ArrayT e n) = hashes_well e"
| "hashes_well _ = True"

lemma hashes_well_hashable: "hashes_well ty \<Longrightarrow> hashable ty"
  by (induction ty rule: hashes_well.induct) simp_all

lemma hashable_body: "list_all hashes_well tys \<Longrightarrow> hashable (StructT n (Body tys pk))"
  using hashes_well_hashable by (cases n) (auto simp: list_all_iff)

lemma plain_hashes_well:
  "plain_layout td ty = Some (Inr l) \<Longrightarrow> hashes_well ty"
  and plain_fields_hash_well:
  "plain_fields td pk tys st = Some (Inr r) \<Longrightarrow> list_all hashes_well tys"
proof (induction td ty and td pk tys st arbitrary: l and r rule: plain_layout_plain_fields.induct)
  case (4 td e len)
  from 4(2) obtain el where "plain_layout td e = Some (Inr el)" unfolding plain_Inr by blast
  with 4(1) show ?case by simp
next
  case (6 td n tys pk)
  from 6(2) obtain st where "plain_fields td pk tys (0, 1, []) = Some (Inr st)" unfolding plain_Inr by blast
  from 6(1) [OF this] hashable_body [of tys n pk] show ?case by simp
next
  case (10 td pk ty tys st)
  from 10(3) obtain l st' where l: "plain_layout td ty = Some (Inr l)"
    and st': "place_field pk (layout l) st = Some st'" and r: "plain_fields td pk tys st' = Some (Inr r)"
    unfolding plain_Inr by blast
  from 10(1) [OF l] 10(2) [OF l refl st' r] show ?case by simp
qed simp_all

text \<open>The engine returns what the computation returns, and keeps the cache right.  It panics when the
  computation does, or when the computation ends in an error and a key cannot be hashed.\<close>

definition cached_as :: "target_data_layout \<Rightarrow> (layout_error + 'a) option \<Rightarrow> bool \<Rightarrow> 'a cached \<Rightarrow> bool" where
  "cached_as td p well r \<longleftrightarrow>
     (case r of
        None \<Rightarrow> p = None \<or> (\<exists>e. p = Some (Inl e)) \<and> \<not> well
      | Some (x, c) \<Rightarrow> p = Some x \<and> cache_ok td c)"

lemma cached_as_simps [simp]:
  "cached_as td p well None \<longleftrightarrow> p = None \<or> (\<exists>e. p = Some (Inl e)) \<and> \<not> well"
  "cached_as td p well (Some (x, c)) \<longleftrightarrow> p = Some x \<and> cache_ok td c"
  by (auto simp: cached_as_def)

lemma cached_as_map:
  "cache_ok td c \<Longrightarrow> cached_as td (map_option f x) well (map_option (\<lambda>l. (f l, c)) x)"
  by (cases x) auto

lemma layout_of_plain:
  "(\<And>k q. hit k q \<Longrightarrow> type_eq k q) \<Longrightarrow> cache_ok td c \<Longrightarrow>
     cached_as td (plain_layout td ty) (hashes_well ty) (layout_of hit td ty c)"
  and compute_layout_plain:
  "(\<And>k q. hit k q \<Longrightarrow> type_eq k q) \<Longrightarrow> cache_ok td c \<Longrightarrow>
     cached_as td (plain_layout td ty) (hashes_well ty) (compute_layout hit td ty c)"
  and place_fields_plain:
  "(\<And>k q. hit k q \<Longrightarrow> type_eq k q) \<Longrightarrow> cache_ok td c \<Longrightarrow>
     cached_as td (plain_fields td pk tys st) (list_all hashes_well tys) (place_fields hit td pk tys st c)"
proof (induction hit td ty c and hit td ty c and hit td pk tys st c
       rule: layout_of_compute_layout_place_fields.induct)
  case (1 hit td ty c)
  note well = plain_hashes_well [of td ty] hashes_well_hashable [of ty]
  show ?case
  proof (cases "c \<noteq> [] \<and> \<not> hashable ty")
    case True
    then have "layout_of hit td ty c = None" by (simp add: layout_of.simps cache_probe_def)
    moreover have "\<not> hashes_well ty" using True well(2) by blast
    moreover have "plain_layout td ty = None \<or> (\<exists>e. plain_layout td ty = Some (Inl e))"
      using well(1) \<open>\<not> hashes_well ty\<close> by (metis obj_sumE option.exhaust)
    ultimately show ?thesis by simp
  next
    case False
    then have probe: "cache_probe hit c ty = Some (cache_get hit c ty)" by (simp add: cache_probe_def)
    show ?thesis
    proof (cases "cache_get hit c ty")
      case None
      from 1(1) [OF probe [unfolded None] refl 1(2,3)] None probe well show ?thesis
        by (auto simp: layout_of.simps cache_ok_def cache_insert_def split: option.splits sum.splits prod.splits)
    next
      case (Some l)
      with cache_hit [OF 1(3,2)] have "plain_layout td ty = Some (Inr l)" by blast
      with Some probe 1(3) show ?thesis by (simp add: layout_of.simps)
    qed
  qed
next
  case (5 hit td e len c)
  from 5(1) [OF 5(2,3)] show ?case
    by (cases "layout_of hit td e c") (auto intro!: cached_as_map split: option.splits sum.splits)
next
  case (7 hit td n tys pk c)
  from 7(1) [OF 7(2,3)] show ?case
    by (cases "place_fields hit td pk tys (0, 1, []) c") (auto intro!: cached_as_map split: option.splits sum.splits)
next
  case (11 hit td pk ty tys st c)
  show ?case
  proof (cases "layout_of hit td ty c")
    case None
    with 11(1) [OF 11(3,4)] show ?thesis by auto
  next
    case (Some rc)
    obtain r c1 where rc: "rc = (r, c1)" by force
    from 11(1) [OF 11(3,4)] Some rc have r: "plain_layout td ty = Some r" "cache_ok td c1" by auto
    show ?thesis
    proof (cases r)
      case (Inl e)
      with r Some rc show ?thesis by simp
    next
      case (Inr l)
      show ?thesis
      proof (cases "place_field pk (layout l) st")
        case None
        with r Some rc Inr show ?thesis by simp
      next
        case (Some st')
        from 11(2) [OF \<open>layout_of hit td ty c = Some rc\<close> rc [symmetric] Inr Some 11(3) r(2)]
        show ?thesis using r \<open>layout_of hit td ty c = Some rc\<close> rc Inr Some plain_hashes_well [of td ty l]
          by (cases "place_fields hit td pk tys st' c1") auto
      qed
    qed
  qed
qed auto

text \<open>The cache never shrinks, and is not empty after a layout was found.\<close>

lemma cache_get_Nil [simp]: "cache_get hit [] ty = None"
  by (simp add: cache_get_def)

lemma layout_of_cache:
  "layout_of hit td ty c = Some (r, c') \<Longrightarrow> (c \<noteq> [] \<or> (\<exists>l. r = Inr l) \<longrightarrow> c' \<noteq> [])"
  and compute_layout_cache:
  "compute_layout hit td ty c = Some (r, c') \<Longrightarrow> c \<noteq> [] \<longrightarrow> c' \<noteq> []"
  and place_fields_cache:
  "place_fields hit td pk tys st c = Some (r', c') \<Longrightarrow> (c \<noteq> [] \<or> tys \<noteq> [] \<and> (\<exists>x. r' = Inr x) \<longrightarrow> c' \<noteq> [])"
proof (induction hit td ty c and hit td ty c and hit td pk tys st c arbitrary: r c' and r c' and r' c'
       rule: layout_of_compute_layout_place_fields.induct)
  case (1 hit td ty c)
  show ?case
  proof (cases "cache_probe hit c ty")
    case (Some h)
    show ?thesis
    proof (cases h)
      case None
      with 1(2) Some obtain r1 c1 where c1: "compute_layout hit td ty c = Some (r1, c1)"
        by (auto simp: layout_of.simps split: option.splits)
      from 1(1) [OF Some None c1] 1(2) Some None c1 show ?thesis
        by (cases r1) (auto simp: layout_of.simps cache_insert_def split: if_splits)
    next
      case (Some l)
      with 1(2) \<open>cache_probe hit c ty = Some h\<close> show ?thesis
        by (cases c) (auto simp: layout_of.simps cache_probe_def split: if_splits)
    qed
  qed (use 1(2) in \<open>simp add: layout_of.simps\<close>)
next
  case (5 hit td e len c)
  then obtain r1 c1 where c1: "layout_of hit td e c = Some (r1, c1)" by (auto split: option.splits)
  from 5(1) [OF c1] 5(2) c1 show ?case by (cases r1) auto
next
  case (7 hit td n tys pk c)
  then obtain r1 c1 where c1: "place_fields hit td pk tys (0, 1, []) c = Some (r1, c1)" by (auto split: option.splits)
  from 7(1) [OF c1] 7(2) c1 show ?case by (cases r1) auto
next
  case (11 hit td pk ty tys st c)
  then obtain r1 c1 where c1: "layout_of hit td ty c = Some (r1, c1)" by (auto split: option.splits)
  show ?case
  proof (cases r1)
    case (Inl e)
    with 11(3) 11(1) [OF c1] c1 show ?thesis by auto
  next
    case (Inr l)
    with 11(3) c1 obtain st' where st': "place_field pk (layout l) st = Some st'"
      "place_fields hit td pk tys st' c1 = Some (r', c')" by (auto split: option.splits)
    from 11(1) [OF c1] Inr have "c1 \<noteq> []" by blast
    with 11(2) [OF c1 refl Inr st'] show ?thesis by blast
  qed
qed auto

lemma place_fields_append:
  "place_fields hit td pk (tys @ us) st c =
     (case place_fields hit td pk tys st c of
        None \<Rightarrow> None
      | Some (Inl e, c1) \<Rightarrow> Some (Inl e, c1)
      | Some (Inr st1, c1) \<Rightarrow> place_fields hit td pk us st1 c1)"
  by (induction tys arbitrary: st c) (auto split: option.splits sum.splits prod.splits)

lemma plain_fields_append:
  "plain_fields td pk (tys @ us) st =
     (case plain_fields td pk tys st of
        None \<Rightarrow> None
      | Some (Inl e) \<Rightarrow> Some (Inl e)
      | Some (Inr st1) \<Rightarrow> plain_fields td pk us st1)"
  by (induction tys arbitrary: st) (auto split: option.splits sum.splits)

section \<open>Soundness of layouts\<close>

definition pow2 :: "nat \<Rightarrow> bool" where
  "pow2 n \<longleftrightarrow> (\<exists>k. n = 2 ^ k)"

lemma pow2_intros [simp]:
  "pow2 1" "pow2 (Suc 0)" "pow2 2" "pow2 4" "pow2 8"
proof -
  have "(1 :: nat) = 2 ^ 0" "(2 :: nat) = 2 ^ 1" "(4 :: nat) = 2 ^ 2" "(8 :: nat) = 2 ^ 3" by simp_all
  then show "pow2 1" "pow2 (Suc 0)" "pow2 2" "pow2 4" "pow2 8" unfolding pow2_def One_nat_def by metis+
qed

lemma pow2_pos: "pow2 n \<Longrightarrow> 0 < n"
  by (auto simp: pow2_def)

lemma pow2_dvd: "pow2 a \<Longrightarrow> pow2 b \<Longrightarrow> a \<le> b \<Longrightarrow> a dvd b"
  by (auto simp: pow2_def intro: le_imp_power_dvd)

lemma align_to_Some:
  "align_to n a = Some m \<Longrightarrow> n \<le> m \<and> a dvd m \<and> 0 < a"
  by (auto simp: align_to_def u32_checked_def next_multiple_of_ge split: if_splits)

definition field_end :: "field_layout \<Rightarrow> nat" where
  "field_end f = offset f + size_of_layout (field_layout f)"

text \<open>Where the fields of a struct lie: in order, without overlap, inside the struct, and on a
  multiple of their alignment unless the struct is packed.\<close>

definition struct_sound :: "struct_layout \<Rightarrow> bool" where
  "struct_sound s \<longleftrightarrow>
     (\<forall>f \<in> set (struct_fields s). field_end f \<le> size_of_layout (struct_layout s)) \<and>
     sorted_wrt (\<lambda>f g. field_end f \<le> offset g) (struct_fields s) \<and>
     align_of_layout (struct_layout s) dvd size_of_layout (struct_layout s) \<and>
     (\<not> struct_packed s \<longrightarrow> (\<forall>f \<in> set (struct_fields s).
        align_of_layout (field_layout f) dvd offset f \<and>
        align_of_layout (field_layout f) dvd align_of_layout (struct_layout s)))"

definition array_sound :: "array_layout \<Rightarrow> bool" where
  "array_sound a \<longleftrightarrow>
     align_of_layout (elem a) dvd elem_stride a \<and>
     (\<forall>i < array_len a. elem_stride a * i + size_of_layout (elem a) \<le> size_of_layout (array_layout a))"

definition layout_sound :: "type_layout \<Rightarrow> bool" where
  "layout_sound l \<longleftrightarrow> pow2 (align_of_layout (layout l)) \<and>
     (case shape l of
        ScalarShape \<Rightarrow> True
      | ArrayShape a \<Rightarrow> array_layout a = layout l \<and> array_sound a
      | StructShape s \<Rightarrow> struct_layout s = layout l \<and> struct_sound s)"

definition placed :: "bool \<Rightarrow> nat \<times> nat \<times> field_layout list \<Rightarrow> bool" where
  "placed pk st = (case st of (off, al, fs) \<Rightarrow>
     pow2 al \<and> (\<forall>f \<in> set fs. field_end f \<le> off) \<and> sorted_wrt (\<lambda>f g. field_end f \<le> offset g) fs \<and>
     (\<not> pk \<longrightarrow> (\<forall>f \<in> set fs. align_of_layout (field_layout f) dvd offset f \<and>
        align_of_layout (field_layout f) dvd al)))"

lemma place_field_placed:
  assumes "place_field pk fl st = Some st'" "placed pk st" "pow2 (align_of_layout fl)"
  shows "placed pk st'"
proof -
  obtain off al fs where st: "st = (off, al, fs)" by (cases st)
  from assms(1) obtain off1 where
    off1: "align_to off (if pk then 1 else align_of_layout fl) = Some off1"
    and st': "st' = (off1 + size_of_layout fl, if pk then al else max al (align_of_layout fl),
                     fs @ [\<lparr>offset = off1, field_layout = fl\<rparr>])"
    by (auto simp: st place_field_def u32_checked_def bind_eq_Some_conv split: if_splits)
  from assms(2) st have p: "pow2 al" "\<forall>f \<in> set fs. field_end f \<le> off"
    "sorted_wrt (\<lambda>f g. field_end f \<le> offset g) fs"
    "\<not> pk \<Longrightarrow> \<forall>f \<in> set fs. align_of_layout (field_layout f) dvd offset f \<and>
        align_of_layout (field_layout f) dvd al"
    by (auto simp: placed_def)
  have le: "off \<le> off1" and dvd: "\<not> pk \<Longrightarrow> align_of_layout fl dvd off1"
    using align_to_Some [OF off1] by (auto split: if_splits)
  have al: "pow2 (max al (align_of_layout fl))" using p(1) assms(3) by (simp add: max_def)
  have dvd_max: "al dvd max al (align_of_layout fl)" "align_of_layout fl dvd max al (align_of_layout fl)"
    using p(1) assms(3) by (auto simp: max_def intro: pow2_dvd)
  show ?thesis
    unfolding placed_def st' prod.case
  proof (intro conjI impI)
    show "pow2 (if pk then al else max al (align_of_layout fl))" using p(1) al by simp
    show "\<forall>f \<in> set (fs @ [\<lparr>offset = off1, field_layout = fl\<rparr>]). field_end f \<le> off1 + size_of_layout fl"
      using p(2) le by (force simp: field_end_def)
    show "sorted_wrt (\<lambda>f g. field_end f \<le> offset g) (fs @ [\<lparr>offset = off1, field_layout = fl\<rparr>])"
      using p(2,3) le by (force simp: sorted_wrt_append)
    assume "\<not> pk"
    with p(4) dvd dvd_max show "\<forall>f \<in> set (fs @ [\<lparr>offset = off1, field_layout = fl\<rparr>]).
        align_of_layout (field_layout f) dvd offset f \<and>
        align_of_layout (field_layout f) dvd (if pk then al else max al (align_of_layout fl))"
      by (auto intro: dvd_trans)
  qed
qed

lemma finish_struct_sound:
  assumes "finish_struct pk st = Some s" "placed pk st"
  shows "struct_sound s \<and> pow2 (align_of_layout (struct_layout s))"
proof -
  obtain off al fs where st: "st = (off, al, fs)" by (cases st)
  from assms(1) obtain sz where sz: "align_to off (if pk then 1 else al) = Some sz"
    and s: "s = \<lparr>struct_layout = \<lparr>size_of_layout = sz, align_of_layout = (if pk then 1 else al)\<rparr>,
                 struct_fields = fs, struct_packed = pk\<rparr>"
    by (auto simp: st finish_struct_def Let_def bind_eq_Some_conv)
  from align_to_Some [OF sz] assms(2) show ?thesis
    unfolding s st struct_sound_def placed_def by (auto intro: order_trans)
qed

lemma make_array_sound:
  assumes "make_array_layout el len = Some l" "pow2 (align_of_layout el)"
  shows "layout_sound l"
proof -
  from assms(1) obtain st where st: "stride el = Some st"
    and l: "layout l = \<lparr>size_of_layout = st * len, align_of_layout = align_of_layout el\<rparr>"
      "shape l = ArrayShape \<lparr>array_layout = layout l, elem = el, elem_stride = st, array_len = len\<rparr>"
    by (auto simp: make_array_layout_def u32_checked_def Let_def bind_eq_Some_conv split: if_splits)
  from align_to_Some [OF st [unfolded stride_def]]
  have st': "size_of_layout el \<le> st" "align_of_layout el dvd st" by auto
  have "st * i + size_of_layout el \<le> st * len" if "i < len" for i
  proof -
    have "st * i + st \<le> st * len" using that
      by (metis Suc_leI mult_Suc_right mult_le_mono2 add.commute)
    with st'(1) show ?thesis by linarith
  qed
  with st' assms(2) show ?thesis by (simp add: layout_sound_def array_sound_def l)
qed

lemma plain_layout_sound:
  "pow2 (pointer_align td) \<Longrightarrow> plain_layout td ty = Some (Inr l) \<Longrightarrow> layout_sound l"
  and plain_fields_placed:
  "pow2 (pointer_align td) \<Longrightarrow> plain_fields td pk tys st = Some (Inr st') \<Longrightarrow> placed pk st \<Longrightarrow> placed pk st'"
proof (induction td ty and td pk tys st arbitrary: l and st' rule: plain_layout_plain_fields.induct)
  case (1 td b)
  then show ?case
    by (auto simp: layout_sound_def scalar_layout_def layout_of_int_def Let_def)
next
  case (4 td e len)
  from 4(3) obtain el where "plain_layout td e = Some (Inr el)" "make_array_layout (layout el) len = Some l"
    unfolding plain_Inr by blast
  with 4(1) [OF 4(2)] make_array_sound show ?case by (auto simp: layout_sound_def)
next
  case (6 td n tys pk)
  from 6(3) obtain st s where st: "plain_fields td pk tys (0, 1, []) = Some (Inr st)"
    "finish_struct pk st = Some s" "l = \<lparr>layout = struct_layout s, shape = StructShape s\<rparr>"
    unfolding plain_Inr by blast
  have "placed pk st" using 6(1) [OF 6(2) st(1)] by (simp add: placed_def)
  with finish_struct_sound [OF st(2)] st(3) show ?case by (simp add: layout_sound_def)
next
  case (10 td pk ty tys st)
  from 10(4) obtain l1 st1 where "plain_layout td ty = Some (Inr l1)"
    "place_field pk (layout l1) st = Some st1" "plain_fields td pk tys st1 = Some (Inr st')"
    unfolding plain_Inr by blast
  with 10 place_field_placed show ?case by (metis layout_sound_def)
qed (auto simp: layout_sound_def scalar_layout_def layout_zero_def)

lemma plain_fields_types:
  "plain_fields td pk tys (off, al, fs) = Some (Inr (off', al', fs')) \<Longrightarrow>
     \<exists>gs. fs' = fs @ gs \<and>
       list_all2 (\<lambda>ty g. \<exists>l. plain_layout td ty = Some (Inr l) \<and> field_layout g = layout l) tys gs"
proof (induction tys arbitrary: off al fs)
  case (Cons ty tys)
  from Cons.prems obtain l st1 where l: "plain_layout td ty = Some (Inr l)"
    and st1: "place_field pk (layout l) (off, al, fs) = Some st1"
    and r: "plain_fields td pk tys st1 = Some (Inr (off', al', fs'))"
    unfolding plain_Inr by blast
  from st1 obtain off1 al1 o1 where "st1 = (off1, al1, fs @ [\<lparr>offset = o1, field_layout = layout l\<rparr>])"
    by (auto simp: place_field_def bind_eq_Some_conv)
  with Cons.IH r obtain gs where "fs' = (fs @ [\<lparr>offset = o1, field_layout = layout l\<rparr>]) @ gs"
    "list_all2 (\<lambda>ty g. \<exists>l. plain_layout td ty = Some (Inr l) \<and> field_layout g = layout l) tys gs" by blast
  with l show ?case by (intro exI [of _ "\<lparr>offset = o1, field_layout = layout l\<rparr> # gs"]) auto
qed auto

section \<open>Properties\<close>

text \<open>C19. The layout engine with its cache agrees with the computation without a cache, for every query
  after every sequence of earlier queries (the cache holds only layouts the computation gives, which the
  empty one does, and stays that way), even though a hit may come from an equal struct type of another name.
  When a query returns, an error or a layout, it is what the computation returns.  When it panics, the computation
  panics too (a size above 32 bits), or it ends in an error and the query hashes an anonymous opaque struct;
  so every type that has a layout gets it.\<close>

theorem layout_cache_transparent:
  assumes "\<And>k q. hit k q \<Longrightarrow> type_eq k q" and "cache_ok td c"
  shows "case layout_of hit td ty c of
           None \<Rightarrow> plain_layout td ty = None \<or> (\<exists>e. plain_layout td ty = Some (Inl e)) \<and> \<not> hashes_well ty
         | Some (r, c') \<Rightarrow> plain_layout td ty = Some r \<and> cache_ok td c'"
  using layout_of_plain [of hit td c ty, OF assms]
  by (cases "layout_of hit td ty c") auto

definition example_struct :: "string \<Rightarrow> ir_type" where
  "example_struct n = StructT (Some n) (Body [IntT 8, ArrayT (IntT 32) 3, PtrT] False)"

definition example_layout :: type_layout where
  "example_layout =
     (let l = \<lparr>size_of_layout = 24, align_of_layout = 8\<rparr>;
          i8 = \<lparr>size_of_layout = 1, align_of_layout = 1\<rparr>;
          arr = \<lparr>size_of_layout = 12, align_of_layout = 4\<rparr>;
          ptr = \<lparr>size_of_layout = 8, align_of_layout = 8\<rparr>
      in \<lparr>layout = l, shape = StructShape \<lparr>struct_layout = l, struct_fields =
           [\<lparr>offset = 0, field_layout = i8\<rparr>, \<lparr>offset = 4, field_layout = arr\<rparr>,
            \<lparr>offset = 16, field_layout = ptr\<rparr>], struct_packed = False\<rparr>\<rparr>)"

lemma example_plain: "plain_layout rv64_data_layout (example_struct n) = Some (Inr example_layout)"
  by (simp add: example_struct_def example_layout_def rv64_data_layout_def scalar_layout_def
      layout_of_int_def make_array_layout_def stride_def align_to_def next_multiple_of_def
      u32_checked_def place_field_def finish_struct_def Let_def)

lemma example_cache_ok: "cache_ok rv64_data_layout [(example_struct ''A'', example_layout)]"
  by (simp add: cache_ok_def example_plain)

lemma example_layout_of:
  "layout_of type_eq rv64_data_layout (example_struct ''B'') [(example_struct ''A'', example_layout)] =
     Some (Inr example_layout, [(example_struct ''A'', example_layout)])"
  by (simp add: layout_of.simps cache_probe_def cache_get_def example_struct_def)

lemma layout_cache_transparent_witness:
  "plain_layout rv64_data_layout (example_struct ''B'') = Some (Inr example_layout)"
  using layout_cache_transparent [OF _ example_cache_ok, of type_eq "example_struct ''B''"]
  by (simp add: example_layout_of)

text \<open>C18. Every layout the engine returns is sound, for a target whose pointers are aligned to a power of
  two (4 on RV32, 8 on RV64) and from a cache that holds only layouts the computation gives, as the empty
  one does and every query keeps it.  The alignment of the layout is a power of two.  The fields
  of a struct correspond one to one to the field types, each with the layout of its type, lie in
  order without overlap inside the struct, and (unless the struct is packed) at multiples of their
  alignments, which divide the alignment of the struct, which divides its size.  The elements of an
  array lie inside it at multiples of the element's alignment.\<close>

theorem layout_of_sound:
  assumes "\<And>k q. hit k q \<Longrightarrow> type_eq k q" and "cache_ok td c" and "pow2 (pointer_align td)"
    and "layout_of hit td ty c = Some (Inr l, c')"
  shows "layout_sound l \<and>
     (\<forall>n tys pk. ty = StructT n (Body tys pk) \<longrightarrow>
        (\<exists>s. as_struct l = Some s \<and> struct_packed s = pk \<and>
           list_all2 (\<lambda>ty f. \<exists>l'. plain_layout td ty = Some (Inr l') \<and> field_layout f = layout l')
             tys (struct_fields s)))"
proof (intro conjI allI impI)
  have p: "plain_layout td ty = Some (Inr l)"
    using layout_of_plain [of hit td c ty, OF assms(1,2)] assms(4) by simp
  show "layout_sound l" by (rule plain_layout_sound [OF assms(3) p])
  fix n tys pk assume ty: "ty = StructT n (Body tys pk)"
  from p obtain off al fs s where st: "plain_fields td pk tys (0, 1, []) = Some (Inr (off, al, fs))"
    "finish_struct pk (off, al, fs) = Some s" "l = \<lparr>layout = struct_layout s, shape = StructShape s\<rparr>"
    unfolding ty plain_Inr by force
  from st(2) have "struct_fields s = fs" "struct_packed s = pk"
    by (auto simp: finish_struct_def Let_def bind_eq_Some_conv)
  with plain_fields_types [OF st(1)] st(3)
  show "\<exists>s. as_struct l = Some s \<and> struct_packed s = pk \<and>
     list_all2 (\<lambda>ty f. \<exists>l'. plain_layout td ty = Some (Inr l') \<and> field_layout f = layout l')
       tys (struct_fields s)"
    by (auto simp: as_struct_def)
qed

lemma layout_of_sound_witness: "layout_sound example_layout"
  using layout_of_sound [OF _ example_cache_ok _ example_layout_of]
  by (simp add: rv64_data_layout_def)

text \<open>C0. The cache makes the engine panic where the computation reports an error.  Hashing an anonymous
  opaque struct panics, so the error for it (\<open>opaque anonymous struct does not have a concrete layout\<close>) is
  reported only while the cache is empty.  In a struct with such a field after fields that have layouts,
  the computation reports the error and the engine panics, from every cache that holds only layouts the
  computation gives.\<close>

theorem anonymous_opaque_field_panics:
  assumes "\<And>k q. hit k q \<Longrightarrow> type_eq k q" and "cache_ok td c"
    and "tys \<noteq> []" and "plain_fields td pk tys (0, 1, []) = Some (Inr st)"
  shows "plain_layout td (StructT n (Body (tys @ StructT None Opaque # us) pk)) = Some (Inl (OpaqueStruct None)) \<and>
    layout_of hit td (StructT n (Body (tys @ StructT None Opaque # us) pk)) c = None"
proof -
  let ?ty = "StructT n (Body (tys @ StructT None Opaque # us) pk)"
  have p: "plain_layout td ?ty = Some (Inl (OpaqueStruct None))" using assms(4) by (simp add: plain_fields_append)
  have "place_fields hit td pk (tys @ StructT None Opaque # us) (0, 1, []) c = None"
  proof (cases "place_fields hit td pk tys (0, 1, []) c")
    case (Some rc)
    with place_fields_plain [OF assms(1,2), of hit pk tys "(0, 1, [])"] assms(4) obtain c1 where
      c1: "place_fields hit td pk tys (0, 1, []) c = Some (Inr st, c1)" by (cases rc) auto
    with place_fields_cache [OF c1] assms(3) have "c1 \<noteq> []" by blast
    with c1 show ?thesis by (simp add: place_fields_append layout_of.simps cache_probe_def)
  qed (simp add: place_fields_append)
  moreover have "cache_get hit c ?ty = None"
    using cache_hit [OF assms(2,1), where ty = ?ty] p by (cases "cache_get hit c ?ty") auto
  ultimately have "layout_of hit td ?ty c = None" by (simp add: layout_of.simps cache_probe_def)
  with p show ?thesis by blast
qed

lemma anonymous_opaque_field_panics_witness:
  "layout_of type_eq rv64_data_layout (StructT (Some ''A'') (Body [PtrT, StructT None Opaque] False)) [] = None"
proof -
  have "plain_fields rv64_data_layout False [PtrT] (0, 1, []) =
      Some (Inr (8, 8, [\<lparr>offset = 0, field_layout = \<lparr>size_of_layout = 8, align_of_layout = 8\<rparr>\<rparr>]))"
    by (simp add: scalar_layout_def place_field_def align_to_def next_multiple_of_def u32_checked_def rv64_data_layout_def)
  from anonymous_opaque_field_panics [of type_eq rv64_data_layout "[]", OF _ _ _ this, of "Some ''A''" "[]"]
  show ?thesis by (simp add: cache_ok_def)
qed

end
