(* ===== verification/IR_Inst.thy ===== *)
theory IR_Inst
  imports IR_Types Core_Int
begin

text \<open>
  The instructions and the constants of the IR (\<open>src/src/ir/core_inst.rs\<close>,
  \<open>src/src/ir/core_value.rs\<close>) and the references of \<open>src/src/ir/core.rs\<close> they are made of.

  The keys of a slot map are naturals.  The incoming edges of a phi are a hash map from an index to
  an edge: an association list here, whose order nothing depends on.  The closures that
  \<open>for_each_value_operand\<close> and \<open>for_each_block_operand\<close> take are the elements of the lists
  \<open>value_operands\<close> and \<open>block_operands\<close>.  The lemmas give the laws of operand replacement: slots
  are unique, and a replacement changes one slot and nothing else.
\<close>

section \<open>References\<close>

type_synonym function_id = nat
type_synonym ir_block_id = nat
type_synonym inst_id = nat
type_synonym arg_id = nat
type_synonym global_id = nat
type_synonym const_id = nat

datatype block_ref = BlockRef (br_func: function_id) (br_block: ir_block_id)
datatype inst_ref = InstRef (ir_func: function_id) (ir_inst: inst_id)
datatype arg_ref = ArgRef (ar_func: function_id) (ar_arg: arg_id)

datatype value_id = VInst inst_ref | VArg arg_ref | VGlobal global_id | VConst const_id

section \<open>Instructions\<close>

datatype operand_slot =
    BinaryLhs | BinaryRhs | CallArg nat | BranchCond | GEPBase | GEPIndex nat | LoadPtr | RetVal
  | StorePtr | StoreVal | ICmpLhs | ICmpRhs | PhiIncomingVal nat | SelectCond | SelectThenVal
  | SelectElseVal | PtrToIntPtr | TruncVal | ZextVal | SextVal

datatype block_operand_slot = BranchThen | BranchElse | PhiIncomingBlock nat

datatype binary_opcode =
  Add | Sub | Mul | UDiv | SDiv | URem | SRem | Shl | LShr | AShr | BitAnd | BitOr | BitXor

datatype icmp_code = CEq | CNe | CUgt | CUge | CUlt | CUle | CSgt | CSge | CSlt | CSle

datatype cond_branch = CondBranch (cb_cond: value_id) (cb_else: ir_block_id)
datatype phi_incoming = PhiIncoming (pi_block: ir_block_id) (pi_value: value_id)

datatype inst_kind =
    Binary binary_opcode value_id value_id
  | Call function_id "value_id list"
  | Branch ir_block_id "cond_branch option"
  | GetElementPtr ir_type value_id "value_id list"
  | Alloca ir_type
  | Load value_id
  | Ret "value_id option"
  | Store value_id value_id
  | ICmp icmp_code value_id value_id
  | Phi "(nat \<times> phi_incoming) list" nat
  | Select value_id value_id value_id
  | PtrToInt value_id
  | Trunc value_id
  | Zext value_id
  | Sext value_id
  | Unreachable

definition kind_is_terminator :: "inst_kind \<Rightarrow> bool" where
  "kind_is_terminator k = (case k of Branch _ _ \<Rightarrow> True | Ret _ \<Rightarrow> True | Unreachable \<Rightarrow> True | _ \<Rightarrow> False)"

definition is_phi :: "inst_kind \<Rightarrow> bool" where
  "is_phi k = (case k of Phi _ _ \<Rightarrow> True | _ \<Rightarrow> False)"

fun block_operands :: "inst_kind \<Rightarrow> (ir_block_id \<times> block_operand_slot) list" where
  "block_operands (Branch then_block None) = [(then_block, BranchThen)]"
| "block_operands (Branch then_block (Some cb)) = [(then_block, BranchThen), (cb_else cb, BranchElse)]"
| "block_operands (Phi incomings _) = map (\<lambda>(i, inc). (pi_block inc, PhiIncomingBlock i)) incomings"
| "block_operands _ = []"

definition enum_slots :: "(nat \<Rightarrow> 's) \<Rightarrow> 'v list \<Rightarrow> ('v \<times> 's) list" where
  "enum_slots slot vs = map (\<lambda>i. (vs ! i, slot i)) [0..<length vs]"

fun value_operands :: "inst_kind \<Rightarrow> (value_id \<times> operand_slot) list" where
  "value_operands (Binary _ lhs rhs) = [(lhs, BinaryLhs), (rhs, BinaryRhs)]"
| "value_operands (Call _ args) = enum_slots CallArg args"
| "value_operands (Branch _ None) = []"
| "value_operands (Branch _ (Some cb)) = [(cb_cond cb, BranchCond)]"
| "value_operands (GetElementPtr _ base indices) = (base, GEPBase) # enum_slots GEPIndex indices"
| "value_operands (Alloca _) = []"
| "value_operands (Load ptr) = [(ptr, LoadPtr)]"
| "value_operands (Ret None) = []"
| "value_operands (Ret (Some v)) = [(v, RetVal)]"
| "value_operands (Store v ptr) = [(v, StoreVal), (ptr, StorePtr)]"
| "value_operands (ICmp _ lhs rhs) = [(lhs, ICmpLhs), (rhs, ICmpRhs)]"
| "value_operands (Phi incomings _) = map (\<lambda>(i, inc). (pi_value inc, PhiIncomingVal i)) incomings"
| "value_operands (Select c t e) = [(c, SelectCond), (t, SelectThenVal), (e, SelectElseVal)]"
| "value_operands (PtrToInt ptr) = [(ptr, PtrToIntPtr)]"
| "value_operands (Trunc v) = [(v, TruncVal)]"
| "value_operands (Zext v) = [(v, ZextVal)]"
| "value_operands (Sext v) = [(v, SextVal)]"
| "value_operands Unreachable = []"

text \<open>\<open>incomings.get_mut(&i).unwrap()\<close> and the write through it.\<close>

definition update_incoming ::
  "nat \<Rightarrow> (phi_incoming \<Rightarrow> phi_incoming) \<Rightarrow> (nat \<times> phi_incoming) list \<Rightarrow> (nat \<times> phi_incoming) list" where
  "update_incoming i f inc = map (\<lambda>(j, e). (j, if j = i then f e else e)) inc"

text \<open>The old operand and the instruction after the write; a slot the instruction does not have
  panics.\<close>

fun replace_kind_block :: "inst_kind \<Rightarrow> block_operand_slot \<Rightarrow> ir_block_id \<Rightarrow> (ir_block_id \<times> inst_kind) option" where
  "replace_kind_block (Branch t c) BranchThen b = Some (t, Branch b c)"
| "replace_kind_block (Branch t (Some cb)) BranchElse b =
     Some (cb_else cb, Branch t (Some (CondBranch (cb_cond cb) b)))"
| "replace_kind_block (Phi inc idx) (PhiIncomingBlock i) b =
     map_option (\<lambda>e. (pi_block e, Phi (update_incoming i (\<lambda>e. PhiIncoming b (pi_value e)) inc) idx))
       (map_of inc i)"
| "replace_kind_block _ _ _ = None"

definition replace_nth :: "'v list \<Rightarrow> nat \<Rightarrow> 'v \<Rightarrow> ('v \<times> 'v list) option" where
  "replace_nth vs i v = (if i < length vs then Some (vs ! i, vs[i := v]) else None)"

definition replace_kind_operand :: "inst_kind \<Rightarrow> operand_slot \<Rightarrow> value_id \<Rightarrow> (value_id \<times> inst_kind) option" where
  "replace_kind_operand k slot v =
     (case k of
        Binary op lhs rhs \<Rightarrow>
          if slot = BinaryLhs then Some (lhs, Binary op v rhs)
          else if slot = BinaryRhs then Some (rhs, Binary op lhs v) else None
      | Call f args \<Rightarrow>
          (case slot of CallArg i \<Rightarrow> map_option (\<lambda>(old, args'). (old, Call f args')) (replace_nth args i v)
           | _ \<Rightarrow> None)
      | Branch t (Some cb) \<Rightarrow>
          if slot = BranchCond then Some (cb_cond cb, Branch t (Some (CondBranch v (cb_else cb)))) else None
      | GetElementPtr ty base indices \<Rightarrow>
          (case slot of
             GEPBase \<Rightarrow> Some (base, GetElementPtr ty v indices)
           | GEPIndex i \<Rightarrow>
               map_option (\<lambda>(old, ix). (old, GetElementPtr ty base ix)) (replace_nth indices i v)
           | _ \<Rightarrow> None)
      | Load ptr \<Rightarrow> if slot = LoadPtr then Some (ptr, Load v) else None
      | Ret (Some x) \<Rightarrow> if slot = RetVal then Some (x, Ret (Some v)) else None
      | Store x ptr \<Rightarrow>
          if slot = StorePtr then Some (ptr, Store x v)
          else if slot = StoreVal then Some (x, Store v ptr) else None
      | ICmp op lhs rhs \<Rightarrow>
          if slot = ICmpLhs then Some (lhs, ICmp op v rhs)
          else if slot = ICmpRhs then Some (rhs, ICmp op lhs v) else None
      | Phi inc idx \<Rightarrow>
          (case slot of PhiIncomingVal i \<Rightarrow>
             map_option (\<lambda>e. (pi_value e, Phi (update_incoming i (\<lambda>e. PhiIncoming (pi_block e) v) inc) idx))
               (map_of inc i)
           | _ \<Rightarrow> None)
      | Select c t e \<Rightarrow>
          if slot = SelectCond then Some (c, Select v t e)
          else if slot = SelectThenVal then Some (t, Select c v e)
          else if slot = SelectElseVal then Some (e, Select c t v) else None
      | PtrToInt ptr \<Rightarrow> if slot = PtrToIntPtr then Some (ptr, PtrToInt v) else None
      | Trunc x \<Rightarrow> if slot = TruncVal then Some (x, Trunc v) else None
      | Zext x \<Rightarrow> if slot = ZextVal then Some (x, Zext v) else None
      | Sext x \<Rightarrow> if slot = SextVal then Some (x, Sext v) else None
      | _ \<Rightarrow> None)"

section \<open>Constants and globals\<close>

datatype const_kind =
    CInt core_int
  | CArray "const_id list"
  | CStruct "const_id list"
  | CString string
  | CNull
  | CUndef

datatype global_kind =
    FunctionGlobal function_id
  | GlobalVariable bool "const_id option"

section \<open>Laws of the operands\<close>

text \<open>The keys of the incoming edges are distinct and below the next index.\<close>

definition kind_ok :: "inst_kind \<Rightarrow> bool" where
  "kind_ok k = (case k of Phi inc idx \<Rightarrow> distinct (map fst inc) \<and> (\<forall>i \<in> fst ` set inc. i < idx) | _ \<Rightarrow> True)"

lemma set_enum_slots [simp]: "(v, s) \<in> set (enum_slots f vs) \<longleftrightarrow> (\<exists>i < length vs. v = vs ! i \<and> s = f i)"
  by (auto simp: enum_slots_def)

lemma snd_enum_slots [simp]: "map snd (enum_slots f vs) = map f [0..<length vs]"
  by (simp add: enum_slots_def)

lemma distinct_value_slots: "kind_ok k \<Longrightarrow> distinct (map snd (value_operands k))"
proof (induction k rule: value_operands.induct)
  case (12 inc idx)
  then have "distinct (map PhiIncomingVal (map fst inc))"
    by (simp add: kind_ok_def distinct_map inj_on_def)
  then show ?case by (simp add: case_prod_beta' comp_def)
qed (auto simp: distinct_map inj_on_def)

lemma distinct_block_slots: "kind_ok k \<Longrightarrow> distinct (map snd (block_operands k))"
proof (induction k rule: block_operands.induct)
  case (3 inc idx)
  then have "distinct (map PhiIncomingBlock (map fst inc))"
    by (simp add: kind_ok_def distinct_map inj_on_def)
  then show ?case by (simp add: case_prod_beta' comp_def)
qed auto

lemma value_slot_unique:
  "kind_ok k \<Longrightarrow> (v, s) \<in> set (value_operands k) \<Longrightarrow> (w, s) \<in> set (value_operands k) \<Longrightarrow> v = w"
  using distinct_value_slots [of k] by (force simp: distinct_map inj_on_def)

lemma block_slot_unique:
  "kind_ok k \<Longrightarrow> (b, s) \<in> set (block_operands k) \<Longrightarrow> (c, s) \<in> set (block_operands k) \<Longrightarrow> b = c"
  using distinct_block_slots [of k] by (force simp: distinct_map inj_on_def)

lemma map_fst_update_incoming [simp]: "map fst (update_incoming i f inc) = map fst inc"
  by (simp add: update_incoming_def case_prod_beta' comp_def)

lemma set_update_incoming:
  "(j, e) \<in> set (update_incoming i f inc) \<longleftrightarrow> (\<exists>e'. (j, e') \<in> set inc \<and> e = (if j = i then f e' else e'))"
  by (force simp: update_incoming_def)

text \<open>What an instruction with one slot rewritten has as its operands.\<close>

definition slot_set :: "'s \<Rightarrow> 'v \<Rightarrow> ('v \<times> 's) set \<Rightarrow> ('v \<times> 's) set" where
  "slot_set slot v ops = {(w, s). if s = slot then w = v else (w, s) \<in> ops}"

lemma replace_nth_enum:
  assumes "replace_nth vs i v = Some (old, vs')" "\<And>i j. f i = f j \<Longrightarrow> i = j"
  shows "(old, f i) \<in> set (enum_slots f vs)"
    "set (enum_slots f vs') = slot_set (f i) v (set (enum_slots f vs))"
proof -
  from assms(1) have i: "i < length vs" "old = vs ! i" "vs' = vs[i := v]"
    by (auto simp: replace_nth_def split: if_splits)
  then show "(old, f i) \<in> set (enum_slots f vs)" by auto
  show "set (enum_slots f vs') = slot_set (f i) v (set (enum_slots f vs))"
  proof (intro set_eqI iffI)
    fix x assume "x \<in> set (enum_slots f vs')"
    moreover obtain w s where x: "x = (w, s)" by force
    ultimately obtain j where "j < length vs" "w = vs' ! j" "s = f j" using i(3) by auto
    with i assms(2) show "x \<in> slot_set (f i) v (set (enum_slots f vs))"
      by (auto simp: x slot_set_def nth_list_update)
  next
    fix x assume x: "x \<in> slot_set (f i) v (set (enum_slots f vs))"
    show "x \<in> set (enum_slots f vs')"
    proof (cases "snd x = f i")
      case True
      with x have "x = (v, f i)" by (auto simp: slot_set_def)
      with i show ?thesis by (auto intro!: exI [of _ i])
    next
      case False
      with x obtain j where j: "j < length vs" "x = (vs ! j, f j)" by (auto simp: slot_set_def)
      with False have "j \<noteq> i" by auto
      with j i show ?thesis by (auto intro!: exI [of _ j])
    qed
  qed
qed

lemma phi_value_operand:
  "(w, s) \<in> set (value_operands (Phi inc idx)) \<longleftrightarrow>
     (\<exists>i e. (i, e) \<in> set inc \<and> w = pi_value e \<and> s = PhiIncomingVal i)"
  by force

lemma phi_block_operand:
  "(b, s) \<in> set (block_operands (Phi inc idx)) \<longleftrightarrow>
     (\<exists>i e. (i, e) \<in> set inc \<and> b = pi_block e \<and> s = PhiIncomingBlock i)"
  by force

lemma set_eq_pairI: "(\<And>v s. (v, s) \<in> A \<longleftrightarrow> (v, s) \<in> B) \<Longrightarrow> A = B"
  by auto

lemma phi_value_write:
  assumes "(i, e) \<in> set inc"
  shows "set (value_operands (Phi (update_incoming i (\<lambda>e. PhiIncoming (pi_block e) v) inc) idx)) =
         slot_set (PhiIncomingVal i) v (set (value_operands (Phi inc idx)))"
    and "set (block_operands (Phi (update_incoming i (\<lambda>e. PhiIncoming (pi_block e) v) inc) idx)) =
         set (block_operands (Phi inc idx))"
proof -
  show "set (value_operands (Phi (update_incoming i (\<lambda>e. PhiIncoming (pi_block e) v) inc) idx)) =
         slot_set (PhiIncomingVal i) v (set (value_operands (Phi inc idx)))"
    by (rule set_eq_pairI, simp only: phi_value_operand slot_set_def set_update_incoming mem_Collect_eq prod.case)
      (use assms in \<open>auto split: if_splits\<close>)
  show "set (block_operands (Phi (update_incoming i (\<lambda>e. PhiIncoming (pi_block e) v) inc) idx)) =
         set (block_operands (Phi inc idx))"
    by (rule arg_cong [of _ _ set], induction inc) (auto simp: update_incoming_def)
qed

lemma phi_block_write:
  assumes "(i, e) \<in> set inc"
  shows "set (block_operands (Phi (update_incoming i (\<lambda>e. PhiIncoming b (pi_value e)) inc) idx)) =
         slot_set (PhiIncomingBlock i) b (set (block_operands (Phi inc idx)))"
    and "set (value_operands (Phi (update_incoming i (\<lambda>e. PhiIncoming b (pi_value e)) inc) idx)) =
         set (value_operands (Phi inc idx))"
proof -
  show "set (block_operands (Phi (update_incoming i (\<lambda>e. PhiIncoming b (pi_value e)) inc) idx)) =
         slot_set (PhiIncomingBlock i) b (set (block_operands (Phi inc idx)))"
    by (rule set_eq_pairI, simp only: phi_block_operand slot_set_def set_update_incoming mem_Collect_eq prod.case)
      (use assms in \<open>auto split: if_splits\<close>)
  show "set (value_operands (Phi (update_incoming i (\<lambda>e. PhiIncoming b (pi_value e)) inc) idx)) =
         set (value_operands (Phi inc idx))"
    by (rule arg_cong [of _ _ set], induction inc) (auto simp: update_incoming_def)
qed

lemma kind_ok_phi_write [simp]:
  "kind_ok (Phi (update_incoming i f inc) idx) = kind_ok (Phi inc idx)"
proof -
  have "fst ` set (update_incoming i f inc) = fst ` set inc"
    by (metis list.set_map map_fst_update_incoming)
  then show ?thesis by (simp add: kind_ok_def)
qed

lemma slot_set_simps:
  "slot_set s v {} = {(v, s)}"
  "slot_set s v (insert (w, s') A) = (if s' = s then slot_set s v A else insert (w, s') (slot_set s v A))"
  by (auto simp: slot_set_def)

lemma slot_set_id: "(v, s) \<in> slot_set s v A"
  by (simp add: slot_set_def)

lemma slot_set_fresh_head:
  "slot_set (f i) v (insert (w, s) A) = insert (w, s) (slot_set (f i) v A)" if "s \<noteq> f i"
  using that by (auto simp: slot_set_def)

lemma slot_set_other:
  "\<forall>(w, s') \<in> A. s' \<noteq> s \<Longrightarrow> slot_set s v A = insert (v, s) A"
  by (auto simp: slot_set_def split: if_splits)

lemma replace_operand_law:
  assumes "replace_kind_operand k slot v = Some (old, k')" "kind_ok k"
  shows "(old, slot) \<in> set (value_operands k) \<and>
    set (value_operands k') = slot_set slot v (set (value_operands k)) \<and>
    set (block_operands k') = set (block_operands k) \<and>
    kind_ok k' \<and> is_phi k' = is_phi k \<and> kind_is_terminator k' = kind_is_terminator k"
proof (cases k)
  case (Call f args)
  with assms(1) obtain i args' where
    i: "slot = CallArg i" "replace_nth args i v = Some (old, args')" "k' = Call f args'"
    by (auto simp: replace_kind_operand_def split: operand_slot.splits)
  with replace_nth_enum [OF i(2), of CallArg] Call show ?thesis
    by (simp add: kind_ok_def is_phi_def kind_is_terminator_def)
next
  case (GetElementPtr ty base indices)
  show ?thesis
  proof (cases "slot = GEPBase")
    case True
    with assms(1) GetElementPtr have "k' = GetElementPtr ty v indices" "old = base"
      by (auto simp: replace_kind_operand_def)
    moreover have "insert (v, GEPBase) (set (enum_slots GEPIndex indices)) =
      slot_set GEPBase v (set (enum_slots GEPIndex indices))"
      by (rule slot_set_other [symmetric]) auto
    ultimately show ?thesis using True GetElementPtr
      by (simp add: slot_set_simps kind_ok_def is_phi_def kind_is_terminator_def)
  next
    case False
    with assms(1) GetElementPtr obtain i ix where
      i: "slot = GEPIndex i" "replace_nth indices i v = Some (old, ix)" "k' = GetElementPtr ty base ix"
      by (auto simp: replace_kind_operand_def split: operand_slot.splits)
    with replace_nth_enum [OF i(2), of GEPIndex] GetElementPtr show ?thesis
      by (simp add: slot_set_fresh_head kind_ok_def is_phi_def kind_is_terminator_def)
  qed
next
  case (Phi inc idx)
  with assms(1) obtain i e where i: "slot = PhiIncomingVal i" "map_of inc i = Some e" "old = pi_value e"
    "k' = Phi (update_incoming i (\<lambda>e. PhiIncoming (pi_block e) v) inc) idx"
    by (auto simp: replace_kind_operand_def split: operand_slot.splits)
  from i(2) have e: "(i, e) \<in> set inc" by (rule map_of_SomeD)
  have "(old, slot) \<in> set (value_operands k)"
    unfolding Phi phi_value_operand using e i by blast
  with phi_value_write [OF e, of v idx] i Phi assms(2) show ?thesis
    by (simp only: kind_ok_phi_write) (simp add: is_phi_def kind_is_terminator_def)
qed (use assms in \<open>auto simp: replace_kind_operand_def slot_set_simps kind_ok_def is_phi_def
       kind_is_terminator_def split: option.splits if_splits\<close>)

lemma replace_block_law:
  assumes "replace_kind_block k slot b = Some (old, k')" "kind_ok k"
  shows "(old, slot) \<in> set (block_operands k) \<and>
    set (block_operands k') = slot_set slot b (set (block_operands k)) \<and>
    set (value_operands k') = set (value_operands k) \<and>
    kind_ok k' \<and> is_phi k' = is_phi k \<and> kind_is_terminator k' = kind_is_terminator k"
proof (cases "(k, slot, b)" rule: replace_kind_block.cases)
  case (3 inc idx i b')
  with assms(1) obtain e where i: "map_of inc i = Some e" "old = pi_block e"
    "k' = Phi (update_incoming i (\<lambda>e. PhiIncoming b (pi_value e)) inc) idx"
    by auto
  from i(1) have e: "(i, e) \<in> set inc" by (rule map_of_SomeD)
  have "(old, slot) \<in> set (block_operands k)"
    using 3 e i by (auto simp: phi_block_operand)
  with phi_block_write [OF e, of b idx] i 3 assms(2) show ?thesis
    by (simp only: kind_ok_phi_write) (simp add: is_phi_def kind_is_terminator_def)
next
  case (1 t c b')
  with assms show ?thesis
    by (cases c) (auto simp: slot_set_simps kind_ok_def is_phi_def kind_is_terminator_def)
qed (use assms in \<open>auto simp: slot_set_simps kind_ok_def is_phi_def kind_is_terminator_def\<close>)

text \<open>A slot that an instruction has can be rewritten.\<close>

lemma replace_operand_total:
  assumes "(old, slot) \<in> set (value_operands k)" "kind_ok k"
  shows "\<exists>k'. replace_kind_operand k slot v = Some (old, k')"
proof (cases k)
  case (Phi inc idx)
  with assms obtain i e where "(i, e) \<in> set inc" "old = pi_value e" "slot = PhiIncomingVal i"
    by (auto simp: phi_value_operand)
  with Phi assms(2) show ?thesis by (auto simp: replace_kind_operand_def kind_ok_def)
next
  case (Branch t c)
  with assms show ?thesis by (cases c) (auto simp: replace_kind_operand_def)
next
  case (Ret x)
  with assms show ?thesis by (cases x) (auto simp: replace_kind_operand_def)
qed (use assms in \<open>auto simp: replace_kind_operand_def replace_nth_def\<close>)

lemma replace_block_total:
  assumes "(old, slot) \<in> set (block_operands k)" "kind_ok k"
  shows "\<exists>k'. replace_kind_block k slot b = Some (old, k')"
proof (cases k)
  case (Phi inc idx)
  with assms obtain i e where "(i, e) \<in> set inc" "old = pi_block e" "slot = PhiIncomingBlock i"
    by (auto simp: phi_block_operand)
  with Phi assms(2) show ?thesis by (auto simp: kind_ok_def)
next
  case (Branch t c)
  with assms show ?thesis by (cases c) auto
qed (use assms in auto)

end
