(* ===== verification/IR_Core.thy ===== *)
theory IR_Core
  imports IR_Inst "HOL-Library.AList"
begin

text \<open>
  The module of the IR (\<open>src/src/ir/core.rs\<close>): slot maps of functions, blocks, instructions,
  arguments, globals and constants, and the operations every builder and optimisation goes through.
  Each value and each block carries the list of its uses; the operations keep these lists, the
  operands of the instructions and the instruction lists of the blocks in step.

  A slot map is a partial function.  The key that an insertion returns is chosen by the slot-map
  crate: it is an argument of the operation (\<open>fresh\<close> for the constants that an erasure adds), and
  the laws ask of it only that it is not in use.  \<open>None\<close> is a panic; the \<open>debug_assert!\<close>s
  are checked, as in the dev profile.

  The definitions come first; \<open>IR_Core_Laws\<close> proves the invariant.
\<close>

section \<open>Data\<close>

datatype ir_use = Use (use_user: inst_ref) (use_slot: operand_slot)
datatype block_use = BlockUse (bu_user: inst_ref) (bu_slot: block_operand_slot)

record block_data =
  bd_name :: "string option"
  bd_phis :: "inst_id list"
  bd_insts :: "inst_id list"
  bd_terminator :: "inst_id option"
  bd_parent :: function_id
  bd_uses :: "block_use list"

record inst_data =
  id_parent :: "block_ref option"
  id_ty :: ir_type
  id_kind :: inst_kind
  id_uses :: "ir_use list"
  id_name :: "string option"

record arg_data =
  ad_name :: "string option"
  ad_ty :: ir_type
  ad_attrs :: attribute_set
  ad_parent :: function_id
  ad_uses :: "ir_use list"

record global_data =
  gd_name :: string
  gd_ty :: ir_type
  gd_kind :: global_kind
  gd_uses :: "ir_use list"

record const_data =
  cd_ty :: ir_type
  cd_kind :: const_kind
  cd_uses :: "ir_use list"

record function_data =
  fd_name :: string
  fd_ty :: ir_type
  fd_attrs :: function_attributes
  fd_args :: "arg_id \<rightharpoonup> arg_data"
  fd_blocks :: "ir_block_id \<rightharpoonup> block_data"
  fd_insts :: "inst_id \<rightharpoonup> inst_data"
  fd_block_order :: "ir_block_id list"
  fd_entry :: ir_block_id
  fd_is_declare :: bool

record module_core =
  func_map :: "function_id \<rightharpoonup> function_data"
  global_map :: "global_id \<rightharpoonup> global_data"
  const_map :: "const_id \<rightharpoonup> const_data"
  function_globals :: "function_id \<rightharpoonup> global_id"
  named_structs :: "string \<rightharpoonup> ir_type"
  module_layout :: "target_data_layout option"

datatype inst_position = PhiPos nat | InstPos nat | TerminatorPos

definition module_new :: module_core where
  "module_new = \<lparr>func_map = Map.empty, global_map = Map.empty, const_map = Map.empty,
     function_globals = Map.empty, named_structs = Map.empty, module_layout = None\<rparr>"

definition set_target_data_layout :: "target_data_layout \<Rightarrow> module_core \<Rightarrow> module_core" where
  "set_target_data_layout td M = M\<lparr>module_layout := Some td\<rparr>"

definition set_named_struct :: "string \<Rightarrow> ir_type \<Rightarrow> module_core \<Rightarrow> module_core" where
  "set_named_struct n ty M = M\<lparr>named_structs := (named_structs M)(n \<mapsto> ty)\<rparr>"

definition extend_named_structs :: "(string \<times> ir_type) list \<Rightarrow> module_core \<Rightarrow> module_core" where
  "extend_named_structs nts M = fold (\<lambda>(n, ty). set_named_struct n ty) nts M"

definition get_named_struct :: "module_core \<Rightarrow> string \<Rightarrow> ir_type option" where
  "get_named_struct M n = named_structs M n"

section \<open>Readers and writers\<close>

text \<open>Indexing a slot map with a dead key panics.  The \<open>_mut\<close> accessors and the write through
  them are the \<open>with_\<close> definitions.\<close>

definition with_func :: "function_id \<Rightarrow> (function_data \<Rightarrow> function_data) \<Rightarrow> module_core \<Rightarrow> module_core option" where
  "with_func f g M =
     map_option (\<lambda>F. M\<lparr>func_map := (func_map M)(f \<mapsto> g F)\<rparr>) (func_map M f)"

definition block_at :: "module_core \<Rightarrow> block_ref \<rightharpoonup> block_data" where
  "block_at M b = Option.bind (func_map M (br_func b)) (\<lambda>F. fd_blocks F (br_block b))"

definition with_block :: "block_ref \<Rightarrow> (block_data \<Rightarrow> block_data) \<Rightarrow> module_core \<Rightarrow> module_core option" where
  "with_block b g M = do {
     B \<leftarrow> block_at M b;
     with_func (br_func b) (\<lambda>F. F\<lparr>fd_blocks := (fd_blocks F)(br_block b \<mapsto> g B)\<rparr>) M
   }"

definition inst_at :: "module_core \<Rightarrow> inst_ref \<rightharpoonup> inst_data" where
  "inst_at M i = Option.bind (func_map M (ir_func i)) (\<lambda>F. fd_insts F (ir_inst i))"

definition with_inst :: "inst_ref \<Rightarrow> (inst_data \<Rightarrow> inst_data) \<Rightarrow> module_core \<Rightarrow> module_core option" where
  "with_inst i g M = do {
     D \<leftarrow> inst_at M i;
     with_func (ir_func i) (\<lambda>F. F\<lparr>fd_insts := (fd_insts F)(ir_inst i \<mapsto> g D)\<rparr>) M
   }"

definition arg_at :: "module_core \<Rightarrow> arg_ref \<rightharpoonup> arg_data" where
  "arg_at M a = Option.bind (func_map M (ar_func a)) (\<lambda>F. fd_args F (ar_arg a))"

definition with_arg :: "arg_ref \<Rightarrow> (arg_data \<Rightarrow> arg_data) \<Rightarrow> module_core \<Rightarrow> module_core option" where
  "with_arg a g M = do {
     D \<leftarrow> arg_at M a;
     with_func (ar_func a) (\<lambda>F. F\<lparr>fd_args := (fd_args F)(ar_arg a \<mapsto> g D)\<rparr>) M
   }"

definition blocks_in_order :: "module_core \<Rightarrow> function_id \<Rightarrow> block_ref list option" where
  "blocks_in_order M f = map_option (\<lambda>F. map (BlockRef f) (fd_block_order F)) (func_map M f)"

definition phis_in_order :: "module_core \<Rightarrow> block_ref \<Rightarrow> inst_ref list option" where
  "phis_in_order M b = map_option (\<lambda>B. map (InstRef (br_func b)) (bd_phis B)) (block_at M b)"

definition insts_in_order :: "module_core \<Rightarrow> block_ref \<Rightarrow> inst_ref list option" where
  "insts_in_order M b = map_option (\<lambda>B. map (InstRef (br_func b)) (bd_insts B)) (block_at M b)"

definition ir_terminator :: "module_core \<Rightarrow> block_ref \<Rightarrow> inst_ref option option" where
  "ir_terminator M b = map_option (\<lambda>B. map_option (InstRef (br_func b)) (bd_terminator B)) (block_at M b)"

definition value_ty :: "module_core \<Rightarrow> value_id \<Rightarrow> ir_type option" where
  "value_ty M v =
     (case v of
        VInst i \<Rightarrow> map_option id_ty (inst_at M i)
      | VArg a \<Rightarrow> map_option ad_ty (arg_at M a)
      | VGlobal g \<Rightarrow> map_option gd_ty (global_map M g)
      | VConst c \<Rightarrow> map_option cd_ty (const_map M c))"

definition value_uses :: "module_core \<Rightarrow> value_id \<rightharpoonup> ir_use list" where
  "value_uses M v =
     (case v of
        VInst i \<Rightarrow> map_option id_uses (inst_at M i)
      | VArg a \<Rightarrow> map_option ad_uses (arg_at M a)
      | VGlobal g \<Rightarrow> map_option gd_uses (global_map M g)
      | VConst c \<Rightarrow> map_option cd_uses (const_map M c))"

definition with_value_uses :: "value_id \<Rightarrow> (ir_use list \<Rightarrow> ir_use list) \<Rightarrow> module_core \<Rightarrow> module_core option" where
  "with_value_uses v g M =
     (case v of
        VInst i \<Rightarrow> with_inst i (\<lambda>D. D\<lparr>id_uses := g (id_uses D)\<rparr>) M
      | VArg a \<Rightarrow> with_arg a (\<lambda>D. D\<lparr>ad_uses := g (ad_uses D)\<rparr>) M
      | VGlobal x \<Rightarrow>
          map_option (\<lambda>D. M\<lparr>global_map := (global_map M)(x \<mapsto> D\<lparr>gd_uses := g (gd_uses D)\<rparr>)\<rparr>) (global_map M x)
      | VConst c \<Rightarrow>
          map_option (\<lambda>D. M\<lparr>const_map := (const_map M)(c \<mapsto> D\<lparr>cd_uses := g (cd_uses D)\<rparr>)\<rparr>) (const_map M c))"

definition block_uses :: "module_core \<Rightarrow> block_ref \<rightharpoonup> block_use list" where
  "block_uses M b = map_option bd_uses (block_at M b)"

definition with_block_uses :: "block_ref \<Rightarrow> (block_use list \<Rightarrow> block_use list) \<Rightarrow> module_core \<Rightarrow> module_core option" where
  "with_block_uses b g = with_block b (\<lambda>B. B\<lparr>bd_uses := g (bd_uses B)\<rparr>)"

text \<open>\<open>iter().position(..)\<close>.\<close>

definition position :: "('a \<Rightarrow> bool) \<Rightarrow> 'a list \<Rightarrow> nat option" where
  "position P xs = (let n = length (takeWhile (\<lambda>x. \<not> P x) xs) in if n < length xs then Some n else None)"

definition remove_nth :: "nat \<Rightarrow> 'a list \<Rightarrow> 'a list" where
  "remove_nth n xs = take n xs @ drop (Suc n) xs"

definition insert_nth :: "nat \<Rightarrow> 'a \<Rightarrow> 'a list \<Rightarrow> 'a list" where
  "insert_nth n x xs = take n xs @ x # drop n xs"

definition locate_inst :: "inst_ref \<Rightarrow> module_core \<Rightarrow> inst_position option" where
  "locate_inst i M = do {
     D \<leftarrow> inst_at M i;
     p \<leftarrow> id_parent D;
     B \<leftarrow> block_at M p;
     (case position ((=) (ir_inst i)) (bd_insts B) of
        Some n \<Rightarrow> Some (InstPos n)
      | None \<Rightarrow> (case position ((=) (ir_inst i)) (bd_phis B) of
          Some n \<Rightarrow> Some (PhiPos n)
        | None \<Rightarrow> if bd_terminator B = Some (ir_inst i) then Some TerminatorPos else None))
   }"

section \<open>Functions, arguments, globals, constants\<close>

definition empty_attrs :: function_attributes where
  "empty_attrs = \<lparr>fn_attrs = [], ret_attrs = []\<rparr>"

text \<open>The default key of a slot map never is a live one; it is a parameter.\<close>

definition define_function ::
  "function_id \<Rightarrow> ir_block_id \<Rightarrow> bool \<Rightarrow> string \<Rightarrow> ir_type \<Rightarrow> module_core \<Rightarrow> module_core" where
  "define_function key no_block decl name ty M =
     M\<lparr>func_map := (func_map M)(key \<mapsto>
        \<lparr>fd_name = name, fd_ty = ty, fd_attrs = empty_attrs, fd_args = Map.empty,
         fd_blocks = Map.empty, fd_insts = Map.empty, fd_block_order = [], fd_entry = no_block,
         fd_is_declare = decl\<rparr>)\<rparr>"

definition append_block ::
  "ir_block_id \<Rightarrow> function_id \<Rightarrow> string option \<Rightarrow> module_core \<Rightarrow> module_core option" where
  "append_block key f name M =
     with_func f (\<lambda>F. F\<lparr>fd_blocks := (fd_blocks F)(key \<mapsto>
          \<lparr>bd_name = name, bd_phis = [], bd_insts = [], bd_terminator = None, bd_parent = f, bd_uses = []\<rparr>),
        fd_block_order := fd_block_order F @ [key]\<rparr>) M"

definition create_function ::
  "function_id \<Rightarrow> ir_block_id \<Rightarrow> ir_block_id \<Rightarrow> string \<Rightarrow> ir_type \<Rightarrow> module_core \<Rightarrow> module_core option" where
  "create_function key no_block bkey name ty M = do {
     M1 \<leftarrow> append_block bkey key (Some ''entry'') (define_function key no_block False name ty M);
     with_func key (\<lambda>F. F\<lparr>fd_entry := bkey\<rparr>) M1
   }"

definition declare_function ::
  "function_id \<Rightarrow> ir_block_id \<Rightarrow> string \<Rightarrow> ir_type \<Rightarrow> module_core \<Rightarrow> module_core" where
  "declare_function key no_block name ty M = define_function key no_block True name ty M"

definition append_arg ::
  "arg_id \<Rightarrow> function_id \<Rightarrow> ir_type \<Rightarrow> string option \<Rightarrow> module_core \<Rightarrow> module_core option" where
  "append_arg key f ty name M =
     with_func f (\<lambda>F. F\<lparr>fd_args := (fd_args F)(key \<mapsto>
        \<lparr>ad_name = name, ad_ty = ty, ad_attrs = [], ad_parent = f, ad_uses = []\<rparr>)\<rparr>) M"

definition add_fn_attr :: "function_id \<Rightarrow> attribute \<Rightarrow> module_core \<Rightarrow> module_core option" where
  "add_fn_attr f a = with_func f (\<lambda>F. F\<lparr>fd_attrs := (fd_attrs F)\<lparr>fn_attrs := fst (attr_insert (fn_attrs (fd_attrs F)) a)\<rparr>\<rparr>)"

definition add_ret_attr :: "function_id \<Rightarrow> attribute \<Rightarrow> module_core \<Rightarrow> module_core option" where
  "add_ret_attr f a = with_func f (\<lambda>F. F\<lparr>fd_attrs := (fd_attrs F)\<lparr>ret_attrs := fst (attr_insert (ret_attrs (fd_attrs F)) a)\<rparr>\<rparr>)"

definition add_arg_attr :: "arg_ref \<Rightarrow> attribute \<Rightarrow> module_core \<Rightarrow> module_core option" where
  "add_arg_attr a at = with_arg a (\<lambda>D. D\<lparr>ad_attrs := fst (attr_insert (ad_attrs D) at)\<rparr>)"

definition add_global :: "global_id \<Rightarrow> string \<Rightarrow> ir_type \<Rightarrow> global_kind \<Rightarrow> module_core \<Rightarrow> module_core" where
  "add_global key name ty kind M =
     (let M1 = M\<lparr>global_map := (global_map M)(key \<mapsto> \<lparr>gd_name = name, gd_ty = ty, gd_kind = kind, gd_uses = []\<rparr>)\<rparr>
      in case kind of
           FunctionGlobal f \<Rightarrow> M1\<lparr>function_globals := (function_globals M1)(f \<mapsto> key)\<rparr>
         | GlobalVariable _ _ \<Rightarrow> M1)"

definition add_const :: "const_id \<Rightarrow> ir_type \<Rightarrow> const_kind \<Rightarrow> module_core \<Rightarrow> module_core" where
  "add_const key ty kind M =
     M\<lparr>const_map := (const_map M)(key \<mapsto> \<lparr>cd_ty = ty, cd_kind = kind, cd_uses = []\<rparr>)\<rparr>"

definition add_int_const :: "const_id \<Rightarrow> nat \<Rightarrow> i64 \<Rightarrow> module_core \<Rightarrow> module_core option" where
  "add_int_const key bits v M = map_option (\<lambda>c. add_const key (IntT bits) (CInt c) M) (from_signed v bits)"

definition add_i1_const :: "const_id \<Rightarrow> bool \<Rightarrow> module_core \<Rightarrow> module_core option" where
  "add_i1_const key b = add_int_const key 1 (if b then 1 else 0)"

definition add_i32_const :: "const_id \<Rightarrow> u32 \<Rightarrow> module_core \<Rightarrow> module_core option" where
  "add_i32_const key v = add_int_const key 32 (ucast v)"

definition add_null_const :: "const_id \<Rightarrow> module_core \<Rightarrow> module_core" where
  "add_null_const key = add_const key PtrT CNull"

definition add_undef_const :: "const_id \<Rightarrow> ir_type \<Rightarrow> module_core \<Rightarrow> module_core" where
  "add_undef_const key ty = add_const key ty CUndef"

definition entry_block :: "module_core \<Rightarrow> function_id \<Rightarrow> block_ref option option" where
  "entry_block M f =
     map_option (\<lambda>F. if fd_is_declare F then None else Some (BlockRef f (fd_entry F))) (func_map M f)"

definition get_function_value :: "module_core \<Rightarrow> function_id \<Rightarrow> global_id option" where
  "get_function_value M f = function_globals M f"

definition as_function_value :: "module_core \<Rightarrow> value_id \<Rightarrow> function_id option option" where
  "as_function_value M v =
     (case v of
        VGlobal g \<Rightarrow> map_option (\<lambda>D. case gd_kind D of FunctionGlobal f \<Rightarrow> Some f | _ \<Rightarrow> None) (global_map M g)
      | _ \<Rightarrow> Some None)"

text \<open>\<open>append_signature_args\<close>: one argument per parameter type, with the keys the slot map hands
  out.\<close>

fun append_args ::
  "function_id \<Rightarrow> (arg_id \<times> ir_type) list \<Rightarrow> module_core \<Rightarrow> (arg_ref list \<times> module_core) option" where
  "append_args f [] M = Some ([], M)"
| "append_args f ((key, ty) # rest) M = do {
     M1 \<leftarrow> append_arg key f ty None M;
     (as, M2) \<leftarrow> append_args f rest M1;
     Some (ArgRef f key # as, M2)
   }"

definition append_signature_args ::
  "arg_id list \<Rightarrow> function_id \<Rightarrow> module_core \<Rightarrow> (arg_ref list \<times> module_core) option" where
  "append_signature_args keys f M = do {
     F \<leftarrow> func_map M f;
     rust_assert (fd_args F = Map.empty);
     (case fd_ty F of
        FunctionT _ params \<Rightarrow> append_args f (zip keys params) M
      | _ \<Rightarrow> None)
   }"

text \<open>\<open>args.keys().next()\<close>: the first key in the order of the slot map, \<open>first\<close>.\<close>

definition sret_type :: "((arg_id \<rightharpoonup> arg_data) \<Rightarrow> arg_id option) \<Rightarrow> module_core \<Rightarrow> function_id \<Rightarrow> ir_type option option" where
  "sret_type first M f = do {
     F \<leftarrow> func_map M f;
     (case first (fd_args F) of
        None \<Rightarrow> Some None
      | Some a \<Rightarrow> map_option (\<lambda>D. struct_return_ty (ad_attrs D)) (arg_at M (ArgRef f a)))
   }"

definition set_sret :: "((arg_id \<rightharpoonup> arg_data) \<Rightarrow> arg_id option) \<Rightarrow> function_id \<Rightarrow> ir_type \<Rightarrow> module_core \<Rightarrow> module_core option" where
  "set_sret first f ty M = do {
     F \<leftarrow> func_map M f;
     a \<leftarrow> first (fd_args F);
     add_arg_attr (ArgRef f a) (StructReturn ty) M
   }"

definition add_string_const :: "const_id \<Rightarrow> string \<Rightarrow> module_core \<Rightarrow> module_core" where
  "add_string_const key s = add_const key (ArrayT (IntT 8) (length s)) (CString s)"

definition add_array_const :: "const_id \<Rightarrow> ir_type \<Rightarrow> const_id list \<Rightarrow> module_core \<Rightarrow> module_core" where
  "add_array_const key ty vs = add_const key ty (CArray vs)"

definition add_struct_const :: "const_id \<Rightarrow> ir_type \<Rightarrow> const_id list \<Rightarrow> module_core \<Rightarrow> module_core" where
  "add_struct_const key ty vs = add_const key ty (CStruct vs)"

definition define_function_value ::
  "function_id \<Rightarrow> ir_block_id \<Rightarrow> global_id \<Rightarrow> string \<Rightarrow> ir_type \<Rightarrow> module_core \<Rightarrow> module_core" where
  "define_function_value key no_block gkey name ty M =
     add_global gkey name ty (FunctionGlobal key) (define_function key no_block False name ty M)"

text \<open>\<open>func_mut(f).entry = b\<close>, how the generator sets the entry of a function it defines.\<close>

definition set_entry :: "function_id \<Rightarrow> ir_block_id \<Rightarrow> module_core \<Rightarrow> module_core option" where
  "set_entry f b = with_func f (\<lambda>F. F\<lparr>fd_entry := b\<rparr>)"

definition create_function_value ::
  "function_id \<Rightarrow> ir_block_id \<Rightarrow> ir_block_id \<Rightarrow> global_id \<Rightarrow> string \<Rightarrow> ir_type \<Rightarrow> module_core \<Rightarrow> module_core option" where
  "create_function_value key no_block bkey gkey name ty M =
     map_option (add_global gkey name ty (FunctionGlobal key)) (create_function key no_block bkey name ty M)"

definition declare_function_value ::
  "function_id \<Rightarrow> ir_block_id \<Rightarrow> global_id \<Rightarrow> string \<Rightarrow> ir_type \<Rightarrow> module_core \<Rightarrow> module_core" where
  "declare_function_value key no_block gkey name ty M =
     add_global gkey name ty (FunctionGlobal key) (declare_function key no_block name ty M)"

definition new_inst ::
  "inst_id \<Rightarrow> function_id \<Rightarrow> ir_type \<Rightarrow> inst_kind \<Rightarrow> string option \<Rightarrow> module_core \<Rightarrow> module_core option" where
  "new_inst key f ty kind name M =
     with_func f (\<lambda>F. F\<lparr>fd_insts := (fd_insts F)(key \<mapsto>
        \<lparr>id_parent = None, id_ty = ty, id_kind = kind, id_uses = [], id_name = name\<rparr>)\<rparr>) M"

section \<open>Attaching instructions\<close>

fun fold_opt :: "('a \<Rightarrow> 's \<Rightarrow> 's option) \<Rightarrow> 'a list \<Rightarrow> 's \<Rightarrow> 's option" where
  "fold_opt f [] s = Some s"
| "fold_opt f (x # xs) s = Option.bind (f x s) (fold_opt f xs)"

definition register_inst_use :: "inst_ref \<Rightarrow> module_core \<Rightarrow> module_core option" where
  "register_inst_use user M = do {
     D \<leftarrow> inst_at M user;
     M1 \<leftarrow> fold_opt (\<lambda>(v, s). with_value_uses v (\<lambda>us. us @ [Use user s])) (value_operands (id_kind D)) M;
     fold_opt (\<lambda>(b, s). with_block_uses (BlockRef (ir_func user) b) (\<lambda>us. us @ [BlockUse user s]))
       (block_operands (id_kind D)) M1
   }"

text \<open>Removes the first use of this instruction and slot, if there is one (\<open>remove1\<close>).\<close>

definition unregister_inst_use :: "inst_ref \<Rightarrow> module_core \<Rightarrow> module_core option" where
  "unregister_inst_use user M = do {
     D \<leftarrow> inst_at M user;
     M1 \<leftarrow> fold_opt (\<lambda>(v, s). with_value_uses v (remove1 (Use user s))) (value_operands (id_kind D)) M;
     fold_opt (\<lambda>(b, s). with_block_uses (BlockRef (ir_func user) b) (remove1 (BlockUse user s)))
       (block_operands (id_kind D)) M1
   }"

definition assert_can_insert :: "block_ref \<Rightarrow> inst_ref \<Rightarrow> module_core \<Rightarrow> unit option" where
  "assert_can_insert b i M = do {
     rust_assert (br_func b = ir_func i);
     D \<leftarrow> inst_at M i;
     rust_assert (id_parent D = None)
   }"

definition is_plain :: "inst_kind \<Rightarrow> bool" where
  "is_plain k \<longleftrightarrow> \<not> is_phi k \<and> \<not> kind_is_terminator k"

text \<open>The common end of every insertion: write the block, set the parent, register the uses.\<close>

definition attach_inst :: "block_ref \<Rightarrow> inst_ref \<Rightarrow> (block_data \<Rightarrow> block_data) \<Rightarrow> module_core \<Rightarrow> module_core option" where
  "attach_inst b i g M = do {
     M1 \<leftarrow> with_block b g M;
     M2 \<leftarrow> with_inst i (\<lambda>D. D\<lparr>id_parent := Some b\<rparr>) M1;
     register_inst_use i M2
   }"

definition append_inst :: "block_ref \<Rightarrow> inst_ref \<Rightarrow> module_core \<Rightarrow> module_core option" where
  "append_inst b i M = do {
     assert_can_insert b i M;
     D \<leftarrow> inst_at M i;
     rust_assert (is_plain (id_kind D));
     attach_inst b i (\<lambda>B. B\<lparr>bd_insts := bd_insts B @ [ir_inst i]\<rparr>) M
   }"

definition push_front_inst :: "block_ref \<Rightarrow> inst_ref \<Rightarrow> module_core \<Rightarrow> module_core option" where
  "push_front_inst b i M = do {
     assert_can_insert b i M;
     D \<leftarrow> inst_at M i;
     rust_assert (is_plain (id_kind D));
     attach_inst b i (\<lambda>B. B\<lparr>bd_insts := ir_inst i # bd_insts B\<rparr>) M
   }"

definition insert_before_at ::
  "block_ref \<Rightarrow> inst_ref \<Rightarrow> inst_data \<Rightarrow> inst_position \<Rightarrow> module_core \<Rightarrow> module_core option" where
  "insert_before_at p i D pos M =
     (case pos of
        PhiPos n \<Rightarrow> do {
          rust_assert (is_phi (id_kind D));
          attach_inst p i (\<lambda>B. B\<lparr>bd_phis := insert_nth n (ir_inst i) (bd_phis B)\<rparr>) M
        }
      | InstPos n \<Rightarrow> do {
          rust_assert (is_plain (id_kind D));
          attach_inst p i (\<lambda>B. B\<lparr>bd_insts := insert_nth n (ir_inst i) (bd_insts B)\<rparr>) M
        }
      | TerminatorPos \<Rightarrow> do {
          rust_assert (is_plain (id_kind D));
          attach_inst p i (\<lambda>B. B\<lparr>bd_insts := bd_insts B @ [ir_inst i]\<rparr>) M
        })"

definition insert_before :: "inst_ref \<Rightarrow> inst_ref \<Rightarrow> module_core \<Rightarrow> module_core option" where
  "insert_before anchor i M = do {
     A \<leftarrow> inst_at M anchor;
     p \<leftarrow> id_parent A;
     assert_can_insert p i M;
     D \<leftarrow> inst_at M i;
     pos \<leftarrow> locate_inst anchor M;
     insert_before_at p i D pos M
   }"

definition insert_after_at ::
  "block_ref \<Rightarrow> inst_ref \<Rightarrow> inst_data \<Rightarrow> inst_position \<Rightarrow> module_core \<Rightarrow> module_core option" where
  "insert_after_at p i D pos M =
     (case pos of
        PhiPos n \<Rightarrow> do {
          rust_assert (is_phi (id_kind D));
          attach_inst p i (\<lambda>B. B\<lparr>bd_phis := insert_nth (n + 1) (ir_inst i) (bd_phis B)\<rparr>) M
        }
      | InstPos n \<Rightarrow> do {
          rust_assert (is_plain (id_kind D));
          attach_inst p i (\<lambda>B. B\<lparr>bd_insts := insert_nth (n + 1) (ir_inst i) (bd_insts B)\<rparr>) M
        }
      | TerminatorPos \<Rightarrow> None)"

definition insert_after :: "inst_ref \<Rightarrow> inst_ref \<Rightarrow> module_core \<Rightarrow> module_core option" where
  "insert_after anchor i M = do {
     A \<leftarrow> inst_at M anchor;
     p \<leftarrow> id_parent A;
     assert_can_insert p i M;
     D \<leftarrow> inst_at M i;
     pos \<leftarrow> locate_inst anchor M;
     insert_after_at p i D pos M
   }"

definition append_phi :: "block_ref \<Rightarrow> inst_ref \<Rightarrow> module_core \<Rightarrow> module_core option" where
  "append_phi b i M = do {
     assert_can_insert b i M;
     D \<leftarrow> inst_at M i;
     rust_assert (is_phi (id_kind D));
     attach_inst b i (\<lambda>B. B\<lparr>bd_phis := bd_phis B @ [ir_inst i]\<rparr>) M
   }"

definition set_terminator :: "block_ref \<Rightarrow> inst_ref \<Rightarrow> module_core \<Rightarrow> module_core option" where
  "set_terminator b i M = do {
     assert_can_insert b i M;
     D \<leftarrow> inst_at M i;
     rust_assert (kind_is_terminator (id_kind D));
     B \<leftarrow> block_at M b;
     rust_assert (bd_terminator B = None);
     attach_inst b i (\<lambda>B. B\<lparr>bd_terminator := Some (ir_inst i)\<rparr>) M
   }"

definition append_to_block :: "block_ref \<Rightarrow> inst_ref \<Rightarrow> module_core \<Rightarrow> module_core option" where
  "append_to_block b i M = do {
     D \<leftarrow> inst_at M i;
     rust_assert (id_parent D = None);
     rust_assert (br_func b = ir_func i);
     B \<leftarrow> block_at M b;
     if is_phi (id_kind D) then do {
       rust_assert (bd_insts B = []);
       rust_assert (bd_terminator B = None);
       append_phi b i M
     } else if kind_is_terminator (id_kind D) then do {
       rust_assert (bd_terminator B = None);
       set_terminator b i M
     } else do {
       rust_assert (bd_terminator B = None);
       append_inst b i M
     }
   }"

section \<open>Detaching and erasing\<close>

definition detach_inst :: "inst_ref \<Rightarrow> module_core \<Rightarrow> module_core option" where
  "detach_inst i M = do {
     M1 \<leftarrow> unregister_inst_use i M;
     D \<leftarrow> inst_at M1 i;
     (case id_parent D of
        None \<Rightarrow> Some M1
      | Some p \<Rightarrow> do {
          pos \<leftarrow> locate_inst i M1;
          M2 \<leftarrow> (case pos of
             InstPos n \<Rightarrow> with_block p (\<lambda>B. B\<lparr>bd_insts := remove_nth n (bd_insts B)\<rparr>) M1
           | PhiPos n \<Rightarrow> with_block p (\<lambda>B. B\<lparr>bd_phis := remove_nth n (bd_phis B)\<rparr>) M1
           | TerminatorPos \<Rightarrow> with_block p (\<lambda>B. B\<lparr>bd_terminator := None\<rparr>) M1);
          with_inst i (\<lambda>D. D\<lparr>id_parent := None\<rparr>) M2
        })
   }"

definition remove_inst :: "inst_ref \<Rightarrow> module_core \<Rightarrow> module_core option" where
  "remove_inst i = with_func (ir_func i) (\<lambda>F. F\<lparr>fd_insts := (fd_insts F)(ir_inst i := None)\<rparr>)"

definition erase_inst_from_parent :: "inst_ref \<Rightarrow> module_core \<Rightarrow> module_core option" where
  "erase_inst_from_parent i M = do {
     us \<leftarrow> value_uses M (VInst i);
     rust_assert (us = []);
     M1 \<leftarrow> detach_inst i M;
     remove_inst i M1
   }"

section \<open>Replacing operands\<close>

definition replace_inst_operand :: "inst_ref \<Rightarrow> operand_slot \<Rightarrow> value_id \<Rightarrow> module_core \<Rightarrow> module_core option" where
  "replace_inst_operand i slot v M = do {
     D \<leftarrow> inst_at M i;
     (old, k) \<leftarrow> replace_kind_operand (id_kind D) slot v;
     M1 \<leftarrow> with_inst i (\<lambda>D. D\<lparr>id_kind := k\<rparr>) M;
     M2 \<leftarrow> with_value_uses old (filter (\<lambda>u. \<not> (use_user u = i \<and> use_slot u = slot))) M1;
     with_value_uses v (\<lambda>us. us @ [Use i slot]) M2
   }"

definition replace_all_uses_with :: "value_id \<Rightarrow> value_id \<Rightarrow> module_core \<Rightarrow> module_core option" where
  "replace_all_uses_with old new M = do {
     rust_assert (old \<noteq> new);
     us \<leftarrow> value_uses M old;
     fold_opt (\<lambda>u. replace_inst_operand (use_user u) (use_slot u) new) us M
   }"

definition replace_block_operand :: "inst_ref \<Rightarrow> block_operand_slot \<Rightarrow> block_ref \<Rightarrow> module_core \<Rightarrow> module_core option" where
  "replace_block_operand i slot b M = do {
     rust_assert (ir_func i = br_func b);
     D \<leftarrow> inst_at M i;
     (old, k) \<leftarrow> replace_kind_block (id_kind D) slot (br_block b);
     M1 \<leftarrow> with_inst i (\<lambda>D. D\<lparr>id_kind := k\<rparr>) M;
     M2 \<leftarrow> with_block_uses (BlockRef (ir_func i) old)
             (filter (\<lambda>u. \<not> (bu_user u = i \<and> bu_slot u = slot))) M1;
     with_block_uses b (\<lambda>us. us @ [BlockUse i slot]) M2
   }"

definition replace_all_block_uses_with :: "block_ref \<Rightarrow> block_ref \<Rightarrow> module_core \<Rightarrow> module_core option" where
  "replace_all_block_uses_with old new M = do {
     rust_assert (old \<noteq> new);
     us \<leftarrow> block_uses M old;
     fold_opt (\<lambda>u. replace_block_operand (bu_user u) (bu_slot u) new) us M
   }"

definition replace_inst :: "inst_ref \<Rightarrow> inst_ref \<Rightarrow> module_core \<Rightarrow> module_core option" where
  "replace_inst old new M = do {
     rust_assert (ir_func old = ir_func new);
     O1 \<leftarrow> inst_at M old;
     p \<leftarrow> id_parent O1;
     N \<leftarrow> inst_at M new;
     rust_assert (id_parent N = None);
     rust_assert (type_eq (id_ty O1) (id_ty N));
     pos \<leftarrow> locate_inst old M;
     M1 \<leftarrow> (case pos of
        InstPos n \<Rightarrow> do {
          rust_assert (is_plain (id_kind N));
          with_block p (\<lambda>B. B\<lparr>bd_insts := (bd_insts B)[n := ir_inst new]\<rparr>) M
        }
      | PhiPos n \<Rightarrow> do {
          rust_assert (is_phi (id_kind N));
          with_block p (\<lambda>B. B\<lparr>bd_phis := (bd_phis B)[n := ir_inst new]\<rparr>) M
        }
      | TerminatorPos \<Rightarrow> do {
          rust_assert (kind_is_terminator (id_kind N));
          with_block p (\<lambda>B. B\<lparr>bd_terminator := Some (ir_inst new)\<rparr>) M
        });
     M2 \<leftarrow> with_inst new (\<lambda>D. D\<lparr>id_parent := Some p\<rparr>) M1;
     M3 \<leftarrow> with_inst old (\<lambda>D. D\<lparr>id_parent := None\<rparr>) M2;
     replace_all_uses_with (VInst old) (VInst new) M3
   }"

definition overwrite_inst :: "inst_ref \<Rightarrow> inst_ref \<Rightarrow> module_core \<Rightarrow> module_core option" where
  "overwrite_inst old new M = Option.bind (replace_inst old new M) (erase_inst_from_parent old)"

section \<open>Phis\<close>

definition phi_add_incoming :: "inst_ref \<Rightarrow> block_ref \<Rightarrow> value_id \<Rightarrow> module_core \<Rightarrow> module_core option" where
  "phi_add_incoming phi b v M = do {
     rust_assert (ir_func phi = br_func b);
     D \<leftarrow> inst_at M phi;
     (case id_kind D of
        Phi inc idx \<Rightarrow> do {
          M1 \<leftarrow> with_inst phi (\<lambda>D. D\<lparr>id_kind := Phi (AList.update idx (PhiIncoming (br_block b) v) inc) (idx + 1)\<rparr>) M;
          M2 \<leftarrow> with_value_uses v (\<lambda>us. us @ [Use phi (PhiIncomingVal idx)]) M1;
          with_block_uses b (\<lambda>us. us @ [BlockUse phi (PhiIncomingBlock idx)]) M2
        }
      | _ \<Rightarrow> None)
   }"

definition phi_remove_incoming_from :: "inst_ref \<Rightarrow> nat \<Rightarrow> module_core \<Rightarrow> module_core option" where
  "phi_remove_incoming_from phi n M = do {
     D \<leftarrow> inst_at M phi;
     (case id_kind D of
        Phi inc idx \<Rightarrow> do {
          e \<leftarrow> map_of inc n;
          M1 \<leftarrow> with_inst phi (\<lambda>D. D\<lparr>id_kind := Phi (AList.delete n inc) idx\<rparr>) M;
          M2 \<leftarrow> with_value_uses (pi_value e)
                  (filter (\<lambda>u. \<not> (use_user u = phi \<and> use_slot u = PhiIncomingVal n))) M1;
          with_block_uses (BlockRef (ir_func phi) (pi_block e))
            (filter (\<lambda>u. \<not> (bu_user u = phi \<and> bu_slot u = PhiIncomingBlock n))) M2
        }
      | _ \<Rightarrow> None)
   }"

section \<open>Erasing with uses, erasing blocks\<close>

definition erase_inst_from_parent_forcely ::
  "((const_id \<rightharpoonup> const_data) \<Rightarrow> const_id) \<Rightarrow> inst_ref \<Rightarrow> module_core \<Rightarrow> module_core option" where
  "erase_inst_from_parent_forcely fresh i M = do {
     us \<leftarrow> value_uses M (VInst i);
     M1 \<leftarrow> fold_opt (\<lambda>u M. do {
              ty \<leftarrow> value_ty M (VInst i);
              let c = fresh (const_map M);
              replace_inst_operand (use_user u) (use_slot u) (VConst c) (add_undef_const c ty M)
            }) us M;
     erase_inst_from_parent i M1
   }"

definition erase_block_insts ::
  "((const_id \<rightharpoonup> const_data) \<Rightarrow> const_id) \<Rightarrow> block_ref \<Rightarrow> module_core \<Rightarrow> module_core option" where
  "erase_block_insts fresh b M = do {
     ps \<leftarrow> phis_in_order M b;
     M1 \<leftarrow> fold_opt (erase_inst_from_parent_forcely fresh) ps M;
     is' \<leftarrow> insts_in_order M1 b;
     M2 \<leftarrow> fold_opt (erase_inst_from_parent_forcely fresh) is' M1;
     t \<leftarrow> ir_terminator M2 b;
     (case t of None \<Rightarrow> Some M2 | Some i \<Rightarrow> erase_inst_from_parent_forcely fresh i M2)
   }"

definition remove_block :: "block_ref \<Rightarrow> module_core \<Rightarrow> module_core option" where
  "remove_block b M = do {
     us \<leftarrow> block_uses M b;
     M1 \<leftarrow> fold_opt (\<lambda>u M. case bu_slot u of
              PhiIncomingBlock n \<Rightarrow> phi_remove_incoming_from (bu_user u) n M
            | _ \<Rightarrow> None) us M;
     with_func (br_func b) (\<lambda>F. F\<lparr>fd_blocks := (fd_blocks F)(br_block b := None)\<rparr>) M1
   }"

definition retain_blocks :: "block_ref list \<Rightarrow> function_id \<Rightarrow> module_core \<Rightarrow> module_core option" where
  "retain_blocks bs f =
     with_func f (\<lambda>F. F\<lparr>fd_block_order := filter (\<lambda>b. BlockRef f b \<notin> set bs) (fd_block_order F)\<rparr>)"

definition erase_blocks_from_parent ::
  "((const_id \<rightharpoonup> const_data) \<Rightarrow> const_id) \<Rightarrow> block_ref list \<Rightarrow> module_core \<Rightarrow> module_core option" where
  "erase_blocks_from_parent fresh bs M = do {
     M1 \<leftarrow> fold_opt (erase_block_insts fresh) bs M;
     M2 \<leftarrow> fold_opt remove_block bs M1;
     fold_opt (retain_blocks bs) (remdups (map br_func bs)) M2
   }"

section \<open>Successors\<close>

definition ir_successors :: "module_core \<Rightarrow> inst_ref \<Rightarrow> block_ref list option" where
  "ir_successors M i =
     map_option (\<lambda>D. case id_kind D of
         Branch t (Some cb) \<Rightarrow> [BlockRef (ir_func i) (cb_else cb), BlockRef (ir_func i) t]
       | Branch t None \<Rightarrow> [BlockRef (ir_func i) t]
       | _ \<Rightarrow> []) (inst_at M i)"

definition block_successors :: "module_core \<Rightarrow> block_ref \<Rightarrow> block_ref list option" where
  "block_successors M b = do {
     t \<leftarrow> ir_terminator M b;
     (case t of None \<Rightarrow> Some [] | Some i \<Rightarrow> ir_successors M i)
   }"

end
