(* ===== verification/IR_Core_Laws.thy ===== *)
theory IR_Core_Laws
  imports IR_Core
begin

text \<open>
  The invariant of the IR module: the use list of every value holds exactly the operand slots of
  attached instructions that read it, each once; the same for blocks; the instruction lists of the
  blocks and the parents of the instructions agree; phis, plain instructions and terminators are
  where they belong; a function's block order lists its blocks.

  States are compared through views (\<open>kind_at\<close>, \<open>parent_at\<close>, \<open>lists_at\<close>, \<open>value_uses\<close>, \<open>block_uses\<close>,
  \<open>order_at\<close>): each writer changes one of them.
\<close>

section \<open>Views\<close>

definition kind_at :: "module_core \<Rightarrow> inst_ref \<rightharpoonup> inst_kind" where
  "kind_at M i = map_option id_kind (inst_at M i)"

definition parent_at :: "module_core \<Rightarrow> inst_ref \<rightharpoonup> block_ref option" where
  "parent_at M i = map_option id_parent (inst_at M i)"

datatype inst_lists = Lists "inst_id list" "inst_id list" "inst_id option"

definition lists_of :: "block_data \<Rightarrow> inst_lists" where
  "lists_of B = Lists (bd_phis B) (bd_insts B) (bd_terminator B)"

definition lists_at :: "module_core \<Rightarrow> block_ref \<rightharpoonup> inst_lists" where
  "lists_at M b = map_option lists_of (block_at M b)"

definition order_at :: "module_core \<Rightarrow> function_id \<rightharpoonup> ir_block_id list \<times> ir_block_id \<times> bool" where
  "order_at M f = map_option (\<lambda>F. (fd_block_order F, fd_entry F, fd_is_declare F)) (func_map M f)"

lemmas view_defs = kind_at_def parent_at_def lists_at_def order_at_def

text \<open>What each writer does to the maps under the views.\<close>

lemma with_funcE:
  assumes "with_func f g M = Some M'"
  obtains F where "func_map M f = Some F" "M' = M\<lparr>func_map := (func_map M)(f \<mapsto> g F)\<rparr>"
  using assms by (auto simp: with_func_def)

lemma with_inst_maps:
  assumes "with_inst i g M = Some M'"
  shows "inst_at M i \<noteq> None" "inst_at M' = (inst_at M)(i := map_option g (inst_at M i))"
    "block_at M' = block_at M" "arg_at M' = arg_at M" "global_map M' = global_map M"
    "const_map M' = const_map M" "order_at M' = order_at M"
proof -
  from assms obtain D F where D: "inst_at M i = Some D" and F: "func_map M (ir_func i) = Some F"
    and M': "M' = M\<lparr>func_map := (func_map M)(ir_func i \<mapsto> F\<lparr>fd_insts := (fd_insts F)(ir_inst i \<mapsto> g D)\<rparr>)\<rparr>"
    by (auto simp: with_inst_def bind_eq_Some_conv elim: with_funcE)
  from D show "inst_at M i \<noteq> None" by simp
  show "inst_at M' = (inst_at M)(i := map_option g (inst_at M i))"
    using D F by (auto simp: M' inst_at_def fun_eq_iff inst_ref.expand)
  show "block_at M' = block_at M" "arg_at M' = arg_at M" "global_map M' = global_map M"
    "const_map M' = const_map M" "order_at M' = order_at M"
    using F by (auto simp: M' block_at_def arg_at_def order_at_def fun_eq_iff)
qed

lemma with_block_maps:
  assumes "with_block b g M = Some M'"
  shows "block_at M b \<noteq> None" "block_at M' = (block_at M)(b := map_option g (block_at M b))"
    "inst_at M' = inst_at M" "arg_at M' = arg_at M" "global_map M' = global_map M"
    "const_map M' = const_map M" "order_at M' = order_at M"
proof -
  from assms obtain D F where D: "block_at M b = Some D" and F: "func_map M (br_func b) = Some F"
    and M': "M' = M\<lparr>func_map := (func_map M)(br_func b \<mapsto> F\<lparr>fd_blocks := (fd_blocks F)(br_block b \<mapsto> g D)\<rparr>)\<rparr>"
    by (auto simp: with_block_def bind_eq_Some_conv elim: with_funcE)
  from D show "block_at M b \<noteq> None" by simp
  show "block_at M' = (block_at M)(b := map_option g (block_at M b))"
    using D F by (auto simp: M' block_at_def fun_eq_iff block_ref.expand)
  show "inst_at M' = inst_at M" "arg_at M' = arg_at M" "global_map M' = global_map M"
    "const_map M' = const_map M" "order_at M' = order_at M"
    using F by (auto simp: M' inst_at_def arg_at_def order_at_def fun_eq_iff)
qed

lemma with_arg_maps:
  assumes "with_arg a g M = Some M'"
  shows "arg_at M a \<noteq> None" "arg_at M' = (arg_at M)(a := map_option g (arg_at M a))"
    "inst_at M' = inst_at M" "block_at M' = block_at M" "global_map M' = global_map M"
    "const_map M' = const_map M" "order_at M' = order_at M"
proof -
  from assms obtain D F where D: "arg_at M a = Some D" and F: "func_map M (ar_func a) = Some F"
    and M': "M' = M\<lparr>func_map := (func_map M)(ar_func a \<mapsto> F\<lparr>fd_args := (fd_args F)(ar_arg a \<mapsto> g D)\<rparr>)\<rparr>"
    by (auto simp: with_arg_def bind_eq_Some_conv elim: with_funcE)
  from D show "arg_at M a \<noteq> None" by simp
  show "arg_at M' = (arg_at M)(a := map_option g (arg_at M a))"
    using D F by (auto simp: M' arg_at_def fun_eq_iff arg_ref.expand)
  show "inst_at M' = inst_at M" "block_at M' = block_at M" "global_map M' = global_map M"
    "const_map M' = const_map M" "order_at M' = order_at M"
    using F by (auto simp: M' inst_at_def block_at_def order_at_def fun_eq_iff)
qed

text \<open>The state as the views show it.\<close>

definition same_views :: "module_core \<Rightarrow> module_core \<Rightarrow> bool" where
  "same_views M M' \<longleftrightarrow> kind_at M' = kind_at M \<and> parent_at M' = parent_at M \<and>
     lists_at M' = lists_at M \<and> order_at M' = order_at M"

lemma same_views_refl [simp]: "same_views M M"
  by (simp add: same_views_def)

lemma same_views_trans [trans]: "same_views M M1 \<Longrightarrow> same_views M1 M2 \<Longrightarrow> same_views M M2"
  by (simp add: same_views_def)

lemma with_value_uses_views:
  assumes "with_value_uses v g M = Some M'"
  shows "value_uses M v \<noteq> None" "value_uses M' = (value_uses M)(v := map_option g (value_uses M v))"
    "block_uses M' = block_uses M" "same_views M M'"
proof -
  have "value_uses M v \<noteq> None \<and> value_uses M' = (value_uses M)(v := map_option g (value_uses M v)) \<and>
    block_uses M' = block_uses M \<and> same_views M M'"
  proof (cases v)
    case (VInst i)
    with assms have w: "with_inst i (\<lambda>D. D\<lparr>id_uses := g (id_uses D)\<rparr>) M = Some M'"
      by (simp add: with_value_uses_def)
    from with_inst_maps [OF w] VInst show ?thesis
      by (auto simp: value_uses_def block_uses_def same_views_def view_defs fun_eq_iff
          option.map_comp comp_def split: value_id.splits)
  next
    case (VArg a)
    with assms have w: "with_arg a (\<lambda>D. D\<lparr>ad_uses := g (ad_uses D)\<rparr>) M = Some M'"
      by (simp add: with_value_uses_def)
    from with_arg_maps [OF w] VArg show ?thesis
      by (auto simp: value_uses_def block_uses_def same_views_def view_defs fun_eq_iff
          option.map_comp comp_def split: value_id.splits)
  next
    case (VGlobal x)
    with assms show ?thesis
      by (auto simp: with_value_uses_def value_uses_def block_uses_def same_views_def view_defs
          inst_at_def arg_at_def block_at_def fun_eq_iff split: value_id.splits)
  next
    case (VConst c)
    with assms show ?thesis
      by (auto simp: with_value_uses_def value_uses_def block_uses_def same_views_def view_defs
          inst_at_def arg_at_def block_at_def fun_eq_iff split: value_id.splits)
  qed
  then show "value_uses M v \<noteq> None" "value_uses M' = (value_uses M)(v := map_option g (value_uses M v))"
    "block_uses M' = block_uses M" "same_views M M'" by auto
qed

lemma with_block_uses_views:
  assumes "with_block_uses b g M = Some M'"
  shows "block_uses M b \<noteq> None" "block_uses M' = (block_uses M)(b := map_option g (block_uses M b))"
    "value_uses M' = value_uses M" "same_views M M'"
proof -
  from with_block_maps [OF assms [unfolded with_block_uses_def]]
  show "block_uses M b \<noteq> None" "block_uses M' = (block_uses M)(b := map_option g (block_uses M b))"
    "value_uses M' = value_uses M" "same_views M M'"
    by (auto simp: value_uses_def block_uses_def same_views_def view_defs lists_of_def fun_eq_iff
        option.map_comp comp_def split: value_id.splits)
qed

lemma with_inst_kind_views:
  assumes "with_inst i (\<lambda>D. D\<lparr>id_kind := k\<rparr>) M = Some M'"
  shows "kind_at M i \<noteq> None" "kind_at M' = (kind_at M)(i \<mapsto> k)" "parent_at M' = parent_at M"
    "lists_at M' = lists_at M" "order_at M' = order_at M"
    "value_uses M' = value_uses M" "block_uses M' = block_uses M"
  using with_inst_maps [OF assms]
  by (auto simp: value_uses_def block_uses_def view_defs fun_eq_iff option.map_comp comp_def
      split: value_id.splits)

lemma with_inst_parent_views:
  assumes "with_inst i (\<lambda>D. D\<lparr>id_parent := p\<rparr>) M = Some M'"
  shows "parent_at M i \<noteq> None" "parent_at M' = (parent_at M)(i \<mapsto> p)" "kind_at M' = kind_at M"
    "lists_at M' = lists_at M" "order_at M' = order_at M"
    "value_uses M' = value_uses M" "block_uses M' = block_uses M"
  using with_inst_maps [OF assms]
  by (auto simp: value_uses_def block_uses_def view_defs fun_eq_iff option.map_comp comp_def
      split: value_id.splits)

lemma with_block_lists_views:
  assumes "with_block b g M = Some M'" "\<And>B. bd_uses (g B) = bd_uses B"
  shows "lists_at M b \<noteq> None"
    "lists_at M' = (lists_at M)(b := map_option (\<lambda>B. lists_of (g B)) (block_at M b))"
    "parent_at M' = parent_at M" "kind_at M' = kind_at M" "order_at M' = order_at M"
    "value_uses M' = value_uses M" "block_uses M' = block_uses M"
  using with_block_maps [OF assms(1)] assms(2)
  by (auto simp: value_uses_def block_uses_def view_defs fun_eq_iff option.map_comp comp_def
      split: value_id.splits)

section \<open>Use lists that mirror a relation\<close>

definition mirrors :: "('x \<rightharpoonup> 'u list) \<Rightarrow> ('x \<times> 'u) set \<Rightarrow> bool" where
  "mirrors U R \<longleftrightarrow>
     (\<forall>x us. U x = Some us \<longrightarrow> distinct us \<and> set us = {u. (x, u) \<in> R}) \<and>
     (\<forall>x u. (x, u) \<in> R \<longrightarrow> U x \<noteq> None)"

lemma mirrors_push:
  assumes "mirrors U R" "U x \<noteq> None" "(x, u) \<notin> R"
  shows "mirrors (U(x := map_option (\<lambda>us. us @ [u]) (U x))) (insert (x, u) R)"
  using assms by (auto simp: mirrors_def split: if_splits)

lemma mirrors_remove1:
  assumes "mirrors U R" "U x \<noteq> None"
  shows "mirrors (U(x := map_option (remove1 u) (U x))) (R - {(x, u)})"
  using assms by (auto simp: mirrors_def split: if_splits)

lemma mirrors_filter:
  assumes "mirrors U R" "U x \<noteq> None" "\<And>w. P w \<longleftrightarrow> w \<noteq> u"
  shows "mirrors (U(x := map_option (filter P) (U x))) (R - {(x, u)})"
  using assms by (auto simp: mirrors_def split: if_splits)

lemma mirrors_mem: "mirrors U R \<Longrightarrow> U x = Some us \<Longrightarrow> u \<in> set us \<longleftrightarrow> (x, u) \<in> R"
  by (auto simp: mirrors_def)

lemma mirrors_empty: "mirrors U R \<Longrightarrow> U x = Some [] \<Longrightarrow> (x, u) \<notin> R"
  using mirrors_mem [of U R x "[]" u] by simp

text \<open>The links of the module: who reads what.\<close>

definition attached :: "module_core \<Rightarrow> inst_ref \<Rightarrow> bool" where
  "attached M i \<longleftrightarrow> (\<exists>b. parent_at M i = Some (Some b))"

definition kind_values :: "inst_ref \<Rightarrow> inst_kind \<Rightarrow> (value_id \<times> ir_use) set" where
  "kind_values i k = {(v, Use i s) | v s. (v, s) \<in> set (value_operands k)}"

definition kind_blocks :: "inst_ref \<Rightarrow> inst_kind \<Rightarrow> (block_ref \<times> block_use) set" where
  "kind_blocks i k = {(BlockRef (ir_func i) b, BlockUse i s) | b s. (b, s) \<in> set (block_operands k)}"

definition value_links :: "module_core \<Rightarrow> (value_id \<times> ir_use) set" where
  "value_links M = (\<Union>i \<in> {i. attached M i}. \<Union>k \<in> set_option (kind_at M i). kind_values i k)"

definition block_links :: "module_core \<Rightarrow> (block_ref \<times> block_use) set" where
  "block_links M = (\<Union>i \<in> {i. attached M i}. \<Union>k \<in> set_option (kind_at M i). kind_blocks i k)"

lemma value_links_iff:
  "(v, Use i s) \<in> value_links M \<longleftrightarrow>
     attached M i \<and> (\<exists>k. kind_at M i = Some k \<and> (v, s) \<in> set (value_operands k))"
  by (auto simp: value_links_def kind_values_def)

lemma block_links_iff:
  "(b, BlockUse i s) \<in> block_links M \<longleftrightarrow>
     attached M i \<and> br_func b = ir_func i \<and>
     (\<exists>k. kind_at M i = Some k \<and> (br_block b, s) \<in> set (block_operands k))"
  by (cases b) (auto simp: block_links_def kind_blocks_def)

lemma kind_values_iff [simp]:
  "(v, Use j s) \<in> kind_values i k \<longleftrightarrow> j = i \<and> (v, s) \<in> set (value_operands k)"
  by (auto simp: kind_values_def)

lemma kind_blocks_iff [simp]:
  "(b, BlockUse j s) \<in> kind_blocks i k \<longleftrightarrow>
     j = i \<and> br_func b = ir_func i \<and> (br_block b, s) \<in> set (block_operands k)"
  by (cases b) (auto simp: kind_blocks_def)

lemma value_rel_eqI:
  "(\<And>v i s. (v, Use i s) \<in> A \<longleftrightarrow> (v, Use i s) \<in> B) \<Longrightarrow> A = B"
  by (rule set_eqI) (metis ir_use.exhaust surj_pair)

lemma block_rel_eqI:
  "(\<And>b i s. (b, BlockUse i s) \<in> A \<longleftrightarrow> (b, BlockUse i s) \<in> B) \<Longrightarrow> A = B"
  by (rule set_eqI) (metis block_use.exhaust surj_pair)

definition use_inv :: "module_core \<Rightarrow> bool" where
  "use_inv M \<longleftrightarrow> mirrors (value_uses M) (value_links M) \<and> mirrors (block_uses M) (block_links M)"

definition kinds_inv :: "module_core \<Rightarrow> bool" where
  "kinds_inv M \<longleftrightarrow> (\<forall>i k. kind_at M i = Some k \<longrightarrow> kind_ok k)"

section \<open>Registration\<close>

text \<open>A table of use lists inside a state, and what its writer keeps.  Values and blocks are the two
  tables of the module.\<close>

locale use_table =
  fixes look :: "'s \<Rightarrow> 'x \<rightharpoonup> 'u list"
    and modify :: "'x \<Rightarrow> ('u list \<Rightarrow> 'u list) \<Rightarrow> 's \<Rightarrow> 's option"
    and frame :: "'s \<Rightarrow> 's \<Rightarrow> bool"
  assumes modify_look: "modify x g st = Some st' \<Longrightarrow>
            look st x \<noteq> None \<and> look st' = (look st)(x := map_option g (look st x))"
    and modify_frame: "modify x g st = Some st' \<Longrightarrow> frame st st'"
    and modify_live: "look st x \<noteq> None \<Longrightarrow> \<exists>st'. modify x g st = Some st'"
    and frame_refl: "frame st st"
    and frame_trans: "frame st st1 \<Longrightarrow> frame st1 st2 \<Longrightarrow> frame st st2"
begin

lemma push_all:
  assumes "fold_opt (\<lambda>(x, u). modify x (\<lambda>us. us @ [u])) ps st = Some st'"
    and "mirrors (look st) R" and "distinct ps" and "set ps \<inter> R = {}"
  shows "mirrors (look st') (R \<union> set ps) \<and> frame st st'"
  using assms
proof (induction ps arbitrary: st R)
  case Nil
  then show ?case by (simp add: frame_refl)
next
  case (Cons p ps)
  obtain x u where p: "p = (x, u)" by force
  from Cons.prems(1) obtain st1 where st1: "modify x (\<lambda>us. us @ [u]) st = Some st1"
    and r: "fold_opt (\<lambda>(x, u). modify x (\<lambda>us. us @ [u])) ps st1 = Some st'"
    by (auto simp: p bind_eq_Some_conv)
  have m1: "mirrors (look st1) (insert p R)"
    using mirrors_push [OF Cons.prems(2), of x u] modify_look [OF st1] Cons.prems(4) by (simp add: p)
  from Cons.IH [OF r m1] Cons.prems(3,4) have "mirrors (look st') (insert p R \<union> set ps) \<and> frame st1 st'"
    by auto
  with modify_frame [OF st1] frame_trans show ?case by auto
qed

lemma drop_all:
  assumes "fold_opt (\<lambda>(x, u). modify x (remove1 u)) ps st = Some st'" and "mirrors (look st) R"
  shows "mirrors (look st') (R - set ps) \<and> frame st st'"
  using assms
proof (induction ps arbitrary: st R)
  case Nil
  then show ?case by (simp add: frame_refl)
next
  case (Cons p ps)
  obtain x u where p: "p = (x, u)" by force
  from Cons.prems(1) obtain st1 where st1: "modify x (remove1 u) st = Some st1"
    and r: "fold_opt (\<lambda>(x, u). modify x (remove1 u)) ps st1 = Some st'"
    by (auto simp: p bind_eq_Some_conv)
  have m1: "mirrors (look st1) (R - {p})"
    using mirrors_remove1 [OF Cons.prems(2), of x u] modify_look [OF st1] by (simp add: p)
  from Cons.IH [OF r m1] have "mirrors (look st') (R - {p} - set ps) \<and> frame st1 st'" .
  moreover have "R - {p} - set ps = R - set (p # ps)" by auto
  ultimately show ?case using modify_frame [OF st1] frame_trans by metis
qed

lemma modify_push:
  assumes "modify x (\<lambda>us. us @ [u]) st = Some st'" "mirrors (look st) R" "(x, u) \<notin> R"
  shows "mirrors (look st') (insert (x, u) R) \<and> frame st st'"
  using mirrors_push [OF assms(2), of x u] modify_look [OF assms(1)] modify_frame [OF assms(1)] assms(3)
  by simp

lemma modify_filter:
  assumes "modify x (filter P) st = Some st'" "mirrors (look st) R" "\<And>w. P w \<longleftrightarrow> w \<noteq> u"
  shows "mirrors (look st') (R - {(x, u)}) \<and> frame st st'"
  using mirrors_filter [OF assms(2) _ assms(3), of x] modify_look [OF assms(1)] modify_frame [OF assms(1)]
  by simp

lemma dom_modify: "modify x g st = Some st' \<Longrightarrow> dom (look st') = dom (look st)"
  using modify_look [of x g st st'] by (auto simp: dom_def)

lemma fold_live:
  assumes "\<forall>(x, u) \<in> set ps. look st x \<noteq> None"
  shows "\<exists>st'. fold_opt (\<lambda>(x, u). modify x (g u)) ps st = Some st'"
  using assms
proof (induction ps arbitrary: st)
  case (Cons p ps)
  obtain x u where p: "p = (x, u)" by force
  with Cons.prems obtain st1 where st1: "modify x (g u) st = Some st1" using modify_live by fastforce
  have "\<forall>(x, u) \<in> set ps. look st1 x \<noteq> None"
    using Cons.prems dom_modify [OF st1] by (fastforce simp: dom_def)
  with Cons.IH st1 p show ?case by simp
qed simp

lemma fold_dom:
  "fold_opt (\<lambda>(x, u). modify x (g u)) ps st = Some st' \<Longrightarrow> dom (look st') = dom (look st)"
proof (induction ps arbitrary: st)
  case (Cons p ps)
  then obtain st1 where "modify (fst p) (g (snd p)) st = Some st1" "fold_opt (\<lambda>(x, u). modify x (g u)) ps st1 = Some st'"
    by (auto simp: bind_eq_Some_conv case_prod_beta')
  with Cons.IH dom_modify show ?case by metis
qed simp

end

definition value_frame :: "module_core \<Rightarrow> module_core \<Rightarrow> bool" where
  "value_frame M M' \<longleftrightarrow> block_uses M' = block_uses M \<and> same_views M M'"

definition block_frame :: "module_core \<Rightarrow> module_core \<Rightarrow> bool" where
  "block_frame M M' \<longleftrightarrow> value_uses M' = value_uses M \<and> same_views M M'"

lemma with_inst_live: "inst_at M i \<noteq> None \<Longrightarrow> \<exists>M'. with_inst i g M = Some M'"
  by (auto simp: with_inst_def inst_at_def with_func_def bind_eq_Some_conv)

lemma with_block_live: "block_at M b \<noteq> None \<Longrightarrow> \<exists>M'. with_block b g M = Some M'"
  by (auto simp: with_block_def block_at_def with_func_def bind_eq_Some_conv)

lemma with_arg_live: "arg_at M a \<noteq> None \<Longrightarrow> \<exists>M'. with_arg a g M = Some M'"
  by (auto simp: with_arg_def arg_at_def with_func_def bind_eq_Some_conv)

lemma with_value_uses_live: "value_uses M v \<noteq> None \<Longrightarrow> \<exists>M'. with_value_uses v g M = Some M'"
  using with_inst_live with_arg_live
  by (cases v) (fastforce simp: with_value_uses_def value_uses_def)+

lemma with_block_uses_live: "block_uses M b \<noteq> None \<Longrightarrow> \<exists>M'. with_block_uses b g M = Some M'"
  using with_block_live by (auto simp: with_block_uses_def block_uses_def)

interpretation vu: use_table value_uses with_value_uses value_frame
  by unfold_locales
    (use with_value_uses_views with_value_uses_live same_views_trans in \<open>auto simp: value_frame_def\<close>)

interpretation bu: use_table block_uses with_block_uses block_frame
  by unfold_locales
    (use with_block_uses_views with_block_uses_live same_views_trans in \<open>auto simp: block_frame_def\<close>)

lemma fold_opt_map: "fold_opt f (map h xs) st = fold_opt (\<lambda>x. f (h x)) xs st"
  by (induction xs arbitrary: st) (auto intro: Option.bind_cong)

lemma fold_values:
  "fold_opt (\<lambda>(v, s). with_value_uses v (g (Use i s))) ops =
   fold_opt (\<lambda>(x, u). with_value_uses x (g u)) (map (\<lambda>(v, s). (v, Use i s)) ops)"
  by (rule ext) (simp add: fold_opt_map case_prod_beta')

lemma fold_blocks:
  "fold_opt (\<lambda>(b, s). with_block_uses (BlockRef f b) (g (BlockUse i s))) ops =
   fold_opt (\<lambda>(x, u). with_block_uses x (g u)) (map (\<lambda>(b, s). (BlockRef f b, BlockUse i s)) ops)"
  by (rule ext) (simp add: fold_opt_map case_prod_beta')

lemma kind_values_list: "kind_values i k = set (map (\<lambda>(v, s). (v, Use i s)) (value_operands k))"
  by (force simp: kind_values_def)

lemma kind_blocks_list:
  "kind_blocks i k = set (map (\<lambda>(b, s). (BlockRef (ir_func i) b, BlockUse i s)) (block_operands k))"
  by (force simp: kind_blocks_def)

lemma distinct_kind_lists:
  assumes "kind_ok k"
  shows "distinct (map (\<lambda>(v, s). (v, Use i s)) (value_operands k))"
    and "distinct (map (\<lambda>(b, s). (BlockRef (ir_func i) b, BlockUse i s)) (block_operands k))"
  using distinct_value_slots [OF assms] distinct_block_slots [OF assms]
  by (auto simp: distinct_map inj_on_def)

lemma register_law:
  assumes "register_inst_use i M = Some M'" "kind_at M i = Some k" "kind_ok k"
    and "mirrors (value_uses M) R" "mirrors (block_uses M) B"
    and "kind_values i k \<inter> R = {}" "kind_blocks i k \<inter> B = {}"
  shows "mirrors (value_uses M') (R \<union> kind_values i k)" "mirrors (block_uses M') (B \<union> kind_blocks i k)"
    "same_views M M'"
proof -
  from assms(1,2) obtain M1 where
    M1: "fold_opt (\<lambda>(v, s). with_value_uses v (\<lambda>us. us @ [Use i s])) (value_operands k) M = Some M1"
    and M': "fold_opt (\<lambda>(b, s). with_block_uses (BlockRef (ir_func i) b) (\<lambda>us. us @ [BlockUse i s]))
       (block_operands k) M1 = Some M'"
    by (auto simp: register_inst_use_def kind_at_def bind_eq_Some_conv)
  have v: "mirrors (value_uses M1) (R \<union> kind_values i k) \<and> value_frame M M1"
    unfolding kind_values_list
    by (rule vu.push_all [OF M1 [unfolded fold_values [of "\<lambda>u us. us @ [u]"]] assms(4)
          distinct_kind_lists(1) [OF assms(3)] assms(6) [unfolded kind_values_list]])
  with assms(5) have "mirrors (block_uses M1) B" by (simp add: value_frame_def)
  then have b: "mirrors (block_uses M') (B \<union> kind_blocks i k) \<and> block_frame M1 M'"
    unfolding kind_blocks_list
    by (rule bu.push_all [OF M' [unfolded fold_blocks [of _ "\<lambda>u us. us @ [u]"]] _
          distinct_kind_lists(2) [OF assms(3)] assms(7) [unfolded kind_blocks_list]])
  from v b show "mirrors (value_uses M') (R \<union> kind_values i k)" "mirrors (block_uses M') (B \<union> kind_blocks i k)"
    "same_views M M'"
    using same_views_trans by (auto simp: value_frame_def block_frame_def)
qed

lemma unregister_law:
  assumes "unregister_inst_use i M = Some M'" "kind_at M i = Some k"
    and "mirrors (value_uses M) R" "mirrors (block_uses M) B"
  shows "mirrors (value_uses M') (R - kind_values i k)" "mirrors (block_uses M') (B - kind_blocks i k)"
    "same_views M M'"
proof -
  from assms(1,2) obtain M1 where
    M1: "fold_opt (\<lambda>(v, s). with_value_uses v (remove1 (Use i s))) (value_operands k) M = Some M1"
    and M': "fold_opt (\<lambda>(b, s). with_block_uses (BlockRef (ir_func i) b) (remove1 (BlockUse i s)))
       (block_operands k) M1 = Some M'"
    by (auto simp: unregister_inst_use_def kind_at_def bind_eq_Some_conv)
  have v: "mirrors (value_uses M1) (R - kind_values i k) \<and> value_frame M M1"
    unfolding kind_values_list
    by (rule vu.drop_all [OF M1 [unfolded fold_values [of remove1]] assms(3)])
  with assms(4) have "mirrors (block_uses M1) B" by (simp add: value_frame_def)
  then have b: "mirrors (block_uses M') (B - kind_blocks i k) \<and> block_frame M1 M'"
    unfolding kind_blocks_list
    by (rule bu.drop_all [OF M' [unfolded fold_blocks [of _ remove1]]])
  from v b show "mirrors (value_uses M') (R - kind_values i k)" "mirrors (block_uses M') (B - kind_blocks i k)"
    "same_views M M'"
    using same_views_trans by (auto simp: value_frame_def block_frame_def)
qed

section \<open>Where instructions are\<close>

fun all_insts :: "inst_lists \<Rightarrow> inst_id list" where
  "all_insts (Lists ps xs t) = ps @ xs @ (case t of None \<Rightarrow> [] | Some j \<Rightarrow> [j])"

fun lists_kinds :: "(inst_ref \<rightharpoonup> inst_kind) \<Rightarrow> function_id \<Rightarrow> inst_lists \<Rightarrow> bool" where
  "lists_kinds K f (Lists ps xs t) \<longleftrightarrow>
     (\<forall>j \<in> set ps. \<exists>k. K (InstRef f j) = Some k \<and> is_phi k) \<and>
     (\<forall>j \<in> set xs. \<exists>k. K (InstRef f j) = Some k \<and> is_plain k) \<and>
     (\<forall>j. t = Some j \<longrightarrow> (\<exists>k. K (InstRef f j) = Some k \<and> kind_is_terminator k))"

definition block_ok :: "module_core \<Rightarrow> block_ref \<Rightarrow> inst_lists \<Rightarrow> bool" where
  "block_ok M b L \<longleftrightarrow> distinct (all_insts L) \<and>
     (\<forall>j. j \<in> set (all_insts L) \<longleftrightarrow> parent_at M (InstRef (br_func b) j) = Some (Some b)) \<and>
     lists_kinds (kind_at M) (br_func b) L"

definition live_block :: "module_core \<Rightarrow> block_ref \<Rightarrow> bool" where
  "live_block M b \<longleftrightarrow> lists_at M b \<noteq> None"

definition place_inv :: "module_core \<Rightarrow> bool" where
  "place_inv M \<longleftrightarrow>
     (\<forall>b L. lists_at M b = Some L \<longrightarrow> block_ok M b L) \<and>
     (\<forall>i b. parent_at M i = Some (Some b) \<longrightarrow> br_func b = ir_func i \<and> live_block M b)"

text \<open>The functions of \<open>S\<close> have no entry block yet.\<close>

definition order_inv :: "function_id set \<Rightarrow> module_core \<Rightarrow> bool" where
  "order_inv S M \<longleftrightarrow>
     (\<forall>f ord e d. order_at M f = Some (ord, e, d) \<longrightarrow>
        distinct ord \<and> (\<forall>b. b \<in> set ord \<longleftrightarrow> live_block M (BlockRef f b)) \<and> (d \<or> f \<in> S \<or> live_block M (BlockRef f e)))"

definition module_inv_but :: "function_id set \<Rightarrow> module_core \<Rightarrow> bool" where
  "module_inv_but S M \<longleftrightarrow> use_inv M \<and> kinds_inv M \<and> place_inv M \<and> order_inv S M"

abbreviation module_inv :: "module_core \<Rightarrow> bool" where
  "module_inv \<equiv> module_inv_but {}"

lemmas module_inv_def = module_inv_but_def

lemma same_views_inv:
  assumes "same_views M M'"
  shows "attached M' = attached M" "value_links M' = value_links M" "block_links M' = block_links M"
    "kinds_inv M' = kinds_inv M" "place_inv M' = place_inv M" "order_inv S M' = order_inv S M"
proof -
  have e: "kind_at M' = kind_at M" "parent_at M' = parent_at M" "lists_at M' = lists_at M" "order_at M' = order_at M"
    using assms by (simp_all add: same_views_def)
  show a: "attached M' = attached M" by (simp add: attached_def fun_eq_iff e)
  show "value_links M' = value_links M" "block_links M' = block_links M"
    by (simp_all add: value_links_def block_links_def a e)
  show "kinds_inv M' = kinds_inv M" "place_inv M' = place_inv M" "order_inv S M' = order_inv S M"
    by (simp_all add: kinds_inv_def place_inv_def block_ok_def order_inv_def live_block_def e)
qed

lemma order_inv_same:
  "order_at M' = order_at M \<Longrightarrow> live_block M' = live_block M \<Longrightarrow> order_inv S M \<Longrightarrow> order_inv S M'"
  unfolding order_inv_def by metis

lemma order_inv_mono: "order_inv S M \<Longrightarrow> S \<subseteq> S' \<Longrightarrow> order_inv S' M"
  unfolding order_inv_def by blast

lemma place_invD: "place_inv M \<Longrightarrow> lists_at M b = Some L \<Longrightarrow> block_ok M b L"
  by (simp add: place_inv_def)

text \<open>A list of a block with one instruction more, or one less.\<close>

definition grown :: "inst_id \<Rightarrow> inst_id list \<Rightarrow> inst_id list \<Rightarrow> bool" where
  "grown j xs ys \<longleftrightarrow> set ys = insert j (set xs) \<and> (distinct xs \<and> j \<notin> set xs \<longrightarrow> distinct ys)"

fun lists_grown :: "inst_kind \<Rightarrow> inst_id \<Rightarrow> inst_lists \<Rightarrow> inst_lists \<Rightarrow> bool" where
  "lists_grown k j (Lists ps xs t) (Lists ps' xs' t') \<longleftrightarrow>
     is_phi k \<and> grown j ps ps' \<and> xs' = xs \<and> t' = t \<or>
     is_plain k \<and> ps' = ps \<and> grown j xs xs' \<and> t' = t \<or>
     kind_is_terminator k \<and> ps' = ps \<and> xs' = xs \<and> t = None \<and> t' = Some j"

lemma set_grown: "lists_grown k j L L' \<Longrightarrow> set (all_insts L') = insert j (set (all_insts L))"
  by (cases L; cases L') (auto simp: grown_def)

lemma distinct_grown:
  "lists_grown k j L L' \<Longrightarrow> distinct (all_insts L) \<Longrightarrow> j \<notin> set (all_insts L) \<Longrightarrow> distinct (all_insts L')"
  by (cases L; cases L') (auto simp: grown_def split: option.splits)

lemma kinds_grown:
  "lists_grown k j L L' \<Longrightarrow> lists_kinds K f L \<Longrightarrow> K (InstRef f j) = Some k \<Longrightarrow> lists_kinds K f L'"
  by (cases L; cases L') (auto simp: grown_def)

lemma place_inv_attach:
  assumes inv: "place_inv M" and i: "parent_at M i = Some None" and k: "kind_at M i = Some k"
    and b: "br_func b = ir_func i" and L: "lists_at M b = Some L" and L': "lists_grown k (ir_inst i) L L'"
    and M': "kind_at M' = kind_at M" "parent_at M' = (parent_at M)(i \<mapsto> Some b)"
      "lists_at M' = (lists_at M)(b \<mapsto> L')"
  shows "place_inv M'"
  unfolding place_inv_def
proof (intro conjI allI impI)
  fix c LC assume LC: "lists_at M' c = Some LC"
  have ii: "InstRef (br_func b) (ir_inst i) = i" using b by (simp add: inst_ref.expand)
  show "block_ok M' c LC"
  proof (cases "c = b")
    case True
    with LC M' have [simp]: "LC = L'" "c = b" by auto
    from place_invD [OF inv L] have ok: "block_ok M b L" .
    then have notin: "ir_inst i \<notin> set (all_insts L)" using i ii by (simp add: block_ok_def)
    show ?thesis unfolding block_ok_def
    proof (intro conjI allI)
      show "distinct (all_insts LC)" using distinct_grown [OF L'] ok notin by (simp add: block_ok_def)
      show "lists_kinds (kind_at M') (br_func c) LC"
        using kinds_grown [OF L'] ok k ii by (simp add: block_ok_def M')
      fix j
      have "InstRef (br_func b) j = i \<longleftrightarrow> j = ir_inst i" using b by (cases i) auto
      then show "(j \<in> set (all_insts LC)) = (parent_at M' (InstRef (br_func c) j) = Some (Some c))"
        using ok by (auto simp: block_ok_def M' set_grown [OF L'])
    qed
  next
    case False
    with LC M' have "lists_at M c = Some LC" by simp
    from place_invD [OF inv this] have ok: "block_ok M c LC" .
    have "InstRef (br_func c) j \<noteq> i" if "j \<in> set (all_insts LC)" for j
      using ok i that by (auto simp: block_ok_def)
    then show ?thesis using ok False by (auto simp: block_ok_def M')
  qed
next
  fix j c assume "parent_at M' j = Some (Some c)"
  then show "br_func c = ir_func j" "live_block M' c"
    using inv b by (auto simp: M' place_inv_def live_block_def split: if_splits)
qed

lemma links_attach:
  assumes "\<not> attached M i" "kind_at M i = Some k"
    and "kind_at M' = kind_at M" "parent_at M' = (parent_at M)(i \<mapsto> Some b)"
  shows "value_links M' = value_links M \<union> kind_values i k" "block_links M' = block_links M \<union> kind_blocks i k"
    "kind_values i k \<inter> value_links M = {}" "kind_blocks i k \<inter> block_links M = {}"
proof -
  have a: "attached M' j \<longleftrightarrow> attached M j \<or> j = i" for j using assms(4) by (simp add: attached_def)
  show "value_links M' = value_links M \<union> kind_values i k"
    by (rule value_rel_eqI) (use assms(1,2,3) a in \<open>auto simp: value_links_iff\<close>)
  show "block_links M' = block_links M \<union> kind_blocks i k"
    by (rule block_rel_eqI) (use assms(1,2,3) a in \<open>auto simp: block_links_iff\<close>)
  show "kind_values i k \<inter> value_links M = {}"
    using assms(1) by (force simp: kind_values_def value_links_iff)
  show "kind_blocks i k \<inter> block_links M = {}"
    using assms(1) by (force simp: kind_blocks_def block_links_iff)
qed

theorem attach_inst_inv:
  assumes inv: "module_inv_but S M" and att: "attach_inst b i g M = Some M'"
    and k: "kind_at M i = Some k" and p: "parent_at M i = Some None" and b: "br_func b = ir_func i"
    and g: "\<And>B. bd_uses (g B) = bd_uses B"
    and L: "\<And>B. block_at M b = Some B \<Longrightarrow> lists_grown k (ir_inst i) (lists_of B) (lists_of (g B))"
  shows "module_inv_but S M'"
proof -
  from att obtain M1 M2 where M1: "with_block b g M = Some M1"
    and M2: "with_inst i (\<lambda>D. D\<lparr>id_parent := Some b\<rparr>) M1 = Some M2"
    and M': "register_inst_use i M2 = Some M'"
    by (auto simp: attach_inst_def bind_eq_Some_conv)
  note v1 = with_block_lists_views [OF M1 g] and v2 = with_inst_parent_views [OF M2]
  from v1(1) obtain B where B: "block_at M b = Some B" by (auto simp: lists_at_def)
  have K: "kind_at M2 = kind_at M" and P: "parent_at M2 = (parent_at M)(i \<mapsto> Some b)"
    and LM: "lists_at M2 = (lists_at M)(b \<mapsto> lists_of (g B))" and O1: "order_at M2 = order_at M"
    and V: "value_uses M2 = value_uses M" "block_uses M2 = block_uses M"
    using v1 v2 B by simp_all
  have na: "\<not> attached M i" using p by (simp add: attached_def)
  note lk = links_attach [OF na k K P]
  have kok: "kind_ok k" using inv k by (auto simp: module_inv_def kinds_inv_def)
  have m: "mirrors (value_uses M2) (value_links M)" "mirrors (block_uses M2) (block_links M)"
    using inv V by (simp_all add: module_inv_def use_inv_def)
  have k2: "kind_at M2 i = Some k" using K k by simp
  note reg = register_law [OF M' k2 kok m lk(3,4)]
  have pl: "place_inv M2"
    by (rule place_inv_attach [OF _ p k b _ L [OF B] K P LM])
      (use inv B in \<open>auto simp: module_inv_def lists_at_def\<close>)
  have ord: "order_inv S M2"
    by (rule order_inv_same [OF O1])
      (use inv B LM in \<open>simp_all add: module_inv_def live_block_def lists_at_def fun_eq_iff\<close>)
  have ki: "kinds_inv M2" using inv K by (simp add: module_inv_def kinds_inv_def)
  from same_views_inv [OF reg(3)] reg(1,2) lk(1,2) pl ord ki show ?thesis
    by (simp add: module_inv_def use_inv_def)
qed

end
