(* ===== verification/IR_Core_Inv.thy ===== *)
theory IR_Core_Inv
  imports IR_Core_Laws
begin

text \<open>
  Every operation of the IR module keeps the invariant of \<open>IR_Core_Laws\<close>, except \<open>replace_inst\<close>,
  which is shown to lose the uses of the new instruction.
\<close>

section \<open>Insertion\<close>

lemma locate_views:
  assumes "locate_inst i M = Some pos"
  shows "\<exists>p B. parent_at M i = Some (Some p) \<and> block_at M p = Some B \<and>
     (case pos of
        InstPos n \<Rightarrow> n < length (bd_insts B) \<and> bd_insts B ! n = ir_inst i
      | PhiPos n \<Rightarrow> n < length (bd_phis B) \<and> bd_phis B ! n = ir_inst i
      | TerminatorPos \<Rightarrow> bd_terminator B = Some (ir_inst i))"
proof -
  have pos: "position ((=) j) xs = Some n \<Longrightarrow> n < length xs \<and> xs ! n = j" for j n and xs :: "inst_id list"
    using nth_length_takeWhile [of "\<lambda>x. j \<noteq> x" xs] by (auto simp: position_def Let_def split: if_splits)
  from assms obtain D p B where D: "inst_at M i = Some D" "id_parent D = Some p" and B: "block_at M p = Some B"
    and c: "(case position ((=) (ir_inst i)) (bd_insts B) of
        Some n \<Rightarrow> Some (InstPos n)
      | None \<Rightarrow> (case position ((=) (ir_inst i)) (bd_phis B) of
          Some n \<Rightarrow> Some (PhiPos n)
        | None \<Rightarrow> if bd_terminator B = Some (ir_inst i) then Some TerminatorPos else None)) = Some pos"
    unfolding locate_inst_def bind_eq_Some_conv by blast
  have "case pos of
        InstPos n \<Rightarrow> n < length (bd_insts B) \<and> bd_insts B ! n = ir_inst i
      | PhiPos n \<Rightarrow> n < length (bd_phis B) \<and> bd_phis B ! n = ir_inst i
      | TerminatorPos \<Rightarrow> bd_terminator B = Some (ir_inst i)"
  proof (cases "position ((=) (ir_inst i)) (bd_insts B)")
    case None
    with c show ?thesis
      by (cases "position ((=) (ir_inst i)) (bd_phis B)") (auto dest: pos split: if_splits)
  next
    case (Some n)
    with c pos show ?thesis by auto
  qed
  with D B show ?thesis by (simp add: parent_at_def)
qed

lemma grown_intros [simp]:
  "grown j xs (xs @ [j])" "grown j xs (j # xs)" "grown j xs (insert_nth n j xs)"
proof -
  show "grown j xs (xs @ [j])" "grown j xs (j # xs)" by (auto simp: grown_def)
  have s: "set (take n xs) \<union> set (drop n xs) = set xs" by (metis append_take_drop_id set_append)
  have d: "distinct xs \<Longrightarrow> set (take n xs) \<inter> set (drop n xs) = {}"
    by (metis append_take_drop_id distinct_append)
  show "grown j xs (insert_nth n j xs)"
    using s d by (auto simp: grown_def insert_nth_def)
qed

lemma can_insert:
  assumes "assert_can_insert b i M = Some u"
  shows "br_func b = ir_func i" "parent_at M i = Some None"
  using assms by (auto simp: assert_can_insert_def parent_at_def bind_eq_Some_conv)

lemma insert_inv:
  assumes "module_inv_but S M" "assert_can_insert b i M = Some u" "inst_at M i = Some D"
    and "attach_inst b i g M = Some M'" "\<And>B. bd_uses (g B) = bd_uses B"
    and "\<And>B. block_at M b = Some B \<Longrightarrow> lists_grown (id_kind D) (ir_inst i) (lists_of B) (lists_of (g B))"
  shows "module_inv_but S M'"
  by (rule attach_inst_inv [OF assms(1,4) _ can_insert(2,1) [OF assms(2)] assms(5,6)])
    (simp_all add: kind_at_def assms(3))

lemma append_inst_inv:
  assumes "module_inv_but S M" "append_inst b i M = Some M'"
  shows "module_inv_but S M'"
  using assms(2) by (auto simp: append_inst_def bind_eq_Some_conv lists_of_def
      intro!: insert_inv [OF assms(1)])

lemma push_front_inst_inv:
  assumes "module_inv_but S M" "push_front_inst b i M = Some M'"
  shows "module_inv_but S M'"
  using assms(2) by (auto simp: push_front_inst_def bind_eq_Some_conv lists_of_def
      intro!: insert_inv [OF assms(1)])

lemma append_phi_inv:
  assumes "module_inv_but S M" "append_phi b i M = Some M'"
  shows "module_inv_but S M'"
  using assms(2) by (auto simp: append_phi_def bind_eq_Some_conv lists_of_def
      intro!: insert_inv [OF assms(1)])

lemma set_terminator_inv:
  assumes "module_inv_but S M" "set_terminator b i M = Some M'"
  shows "module_inv_but S M'"
  using assms(2) by (auto simp: set_terminator_def bind_eq_Some_conv lists_of_def
      intro!: insert_inv [OF assms(1)])

lemma append_to_block_inv:
  assumes "module_inv_but S M" "append_to_block b i M = Some M'"
  shows "module_inv_but S M'"
  using assms(2) append_inst_inv [OF assms(1)] append_phi_inv [OF assms(1)] set_terminator_inv [OF assms(1)]
  by (auto simp: append_to_block_def bind_eq_Some_conv split: if_splits)

lemma insert_before_inv:
  assumes "module_inv_but S M" "insert_before a i M = Some M'"
  shows "module_inv_but S M'"
proof -
  from assms(2) obtain p D pos u where c: "assert_can_insert p i M = Some u" "inst_at M i = Some D"
    "insert_before_at p i D pos M = Some M'"
    unfolding insert_before_def bind_eq_Some_conv by blast
  from c(3) show ?thesis
    by (cases pos) (auto simp: insert_before_at_def bind_eq_Some_conv lists_of_def
        intro!: insert_inv [OF assms(1) c(1,2)])
qed

lemma insert_after_inv:
  assumes "module_inv_but S M" "insert_after a i M = Some M'"
  shows "module_inv_but S M'"
proof -
  from assms(2) obtain p D pos u where c: "assert_can_insert p i M = Some u" "inst_at M i = Some D"
    "insert_after_at p i D pos M = Some M'"
    unfolding insert_after_def bind_eq_Some_conv by blast
  from c(3) show ?thesis
    by (cases pos) (auto simp: insert_after_at_def bind_eq_Some_conv lists_of_def
        intro!: insert_inv [OF assms(1) c(1,2)])
qed

section \<open>Replacing operands\<close>

lemma operand_link:
  assumes "kinds_inv M" "(old, Use i slot) \<in> value_links M" "kind_at M i = Some k"
  shows "(old, slot) \<in> set (value_operands k)" "kind_ok k" "attached M i"
  using assms by (auto simp: value_links_iff kinds_inv_def)

text \<open>The effect of one replacement on an attached instruction: one link moves.\<close>

definition only_kinds :: "module_core \<Rightarrow> module_core \<Rightarrow> bool" where
  "only_kinds M M' \<longleftrightarrow> parent_at M' = parent_at M \<and> lists_at M' = lists_at M \<and> order_at M' = order_at M \<and>
     (\<forall>i. rel_option (\<lambda>k k'. is_phi k' = is_phi k \<and> kind_is_terminator k' = kind_is_terminator k)
        (kind_at M i) (kind_at M' i))"

lemma rel_option_kind_refl [simp]:
  "rel_option (\<lambda>k k'. is_phi k' = is_phi k \<and> kind_is_terminator k' = kind_is_terminator k) x x"
  by (cases x) auto

lemma only_kinds_refl [simp]: "only_kinds M M"
  by (simp add: only_kinds_def)

lemma only_kinds_trans [trans]:
  assumes "only_kinds M M1" "only_kinds M1 M2" shows "only_kinds M M2"
proof -
  have "rel_option (\<lambda>k k'. is_phi k' = is_phi k \<and> kind_is_terminator k' = kind_is_terminator k)
        (kind_at M i) (kind_at M2 i)" for i
  proof -
    from assms have
      "rel_option (\<lambda>k k'. is_phi k' = is_phi k \<and> kind_is_terminator k' = kind_is_terminator k) (kind_at M i) (kind_at M1 i)"
      "rel_option (\<lambda>k k'. is_phi k' = is_phi k \<and> kind_is_terminator k' = kind_is_terminator k) (kind_at M1 i) (kind_at M2 i)"
      by (simp_all add: only_kinds_def)
    then show ?thesis
      by (cases "kind_at M i"; cases "kind_at M1 i"; cases "kind_at M2 i") auto
  qed
  with assms show ?thesis by (simp add: only_kinds_def)
qed

lemma only_kinds_same: "same_views M M' \<Longrightarrow> only_kinds M M'"
  by (simp add: only_kinds_def same_views_def)

lemma only_kinds_upd:
  assumes "kind_at M' = (kind_at M)(i \<mapsto> k')" "kind_at M i = Some k"
    and "is_phi k' = is_phi k" "kind_is_terminator k' = kind_is_terminator k"
    and "parent_at M' = parent_at M" "lists_at M' = lists_at M" "order_at M' = order_at M"
  shows "only_kinds M M'"
  using assms by (auto simp: only_kinds_def)

lemma only_kinds_inv:
  assumes o: "only_kinds M M'"
  shows "place_inv M \<Longrightarrow> place_inv M'" "order_inv S M \<Longrightarrow> order_inv S M'" "attached M' = attached M"
proof -
  have e: "parent_at M' = parent_at M" "lists_at M' = lists_at M" "order_at M' = order_at M"
    using o by (simp_all add: only_kinds_def)
  have k: "\<exists>k'. kind_at M' i = Some k' \<and> is_phi k' = is_phi k \<and> kind_is_terminator k' = kind_is_terminator k"
    if "kind_at M i = Some k" for i k
    using o that by (auto simp: only_kinds_def option_rel_Some1 dest!: spec [of _ i])
  have lk: "lists_kinds (kind_at M) f L \<Longrightarrow> lists_kinds (kind_at M') f L" for f L
    using k by (cases L) (fastforce simp: is_plain_def)
  show "order_inv S M \<Longrightarrow> order_inv S M'" by (rule order_inv_same) (simp_all add: live_block_def fun_eq_iff e)
  show "attached M' = attached M" by (simp add: attached_def fun_eq_iff e)
  show "place_inv M \<Longrightarrow> place_inv M'"
    using lk by (simp add: place_inv_def block_ok_def live_block_def e)
qed

lemma replace_operand_step:
  assumes inv: "use_inv M" "kinds_inv M" and l: "(old, Use i slot) \<in> value_links M"
    and new: "value_uses M new \<noteq> None"
  shows "\<exists>M'. replace_inst_operand i slot new M = Some M' \<and> use_inv M' \<and> kinds_inv M' \<and> only_kinds M M' \<and>
    value_links M' = insert (new, Use i slot) (value_links M - {(old, Use i slot)}) \<and>
    block_links M' = block_links M \<and> dom (value_uses M') = dom (value_uses M) \<and>
    (\<exists>k k'. kind_at M i = Some k \<and> replace_kind_operand k slot new = Some (old, k') \<and>
       kind_at M' = (kind_at M)(i \<mapsto> k'))"
proof -
  from l obtain k where k: "kind_at M i = Some k" by (auto simp: value_links_iff)
  note ol = operand_link [OF inv(2) l k]
  from replace_operand_total [OF ol(1,2)] obtain k' where
    k': "replace_kind_operand k slot new = Some (old, k')" by blast
  note law = replace_operand_law [OF k' ol(2)]
  from k obtain D where D: "inst_at M i = Some D" "id_kind D = k" by (auto simp: kind_at_def)
  then obtain M1 where M1: "with_inst i (\<lambda>D. D\<lparr>id_kind := k'\<rparr>) M = Some M1" using with_inst_live by blast
  note v1 = with_inst_kind_views [OF M1]
  have m: "mirrors (value_uses M1) (value_links M)" "mirrors (block_uses M1) (block_links M)"
    using inv(1) v1 by (simp_all add: use_inv_def)
  from l m(1) have "value_uses M1 old \<noteq> None" by (auto simp: mirrors_def)
  then obtain M2 where
    M2: "with_value_uses old (filter (\<lambda>u. \<not> (use_user u = i \<and> use_slot u = slot))) M1 = Some M2"
    using with_value_uses_live by blast
  have u: "\<not> (use_user w = i \<and> use_slot w = slot) \<longleftrightarrow> w \<noteq> Use i slot" for w by (cases w) auto
  from vu.modify_filter [OF M2 m(1) u] have m2: "mirrors (value_uses M2) (value_links M - {(old, Use i slot)})"
    and f2: "value_frame M1 M2" by auto
  have d2: "dom (value_uses M2) = dom (value_uses M1)" by (rule vu.dom_modify [OF M2])
  with new v1 have "value_uses M2 new \<noteq> None" by (auto simp: dom_def)
  then obtain M3 where M3: "with_value_uses new (\<lambda>us. us @ [Use i slot]) M2 = Some M3"
    using with_value_uses_live by blast
  have nl: "(new, Use i slot) \<notin> value_links M - {(old, Use i slot)}"
    using value_slot_unique [OF ol(2)] ol(1) k by (auto simp: value_links_iff)
  from vu.modify_push [OF M3 m2 nl]
  have m3: "mirrors (value_uses M3) (insert (new, Use i slot) (value_links M - {(old, Use i slot)}))"
    and f3: "value_frame M2 M3" by auto
  have s: "same_views M1 M3" and b3: "block_uses M3 = block_uses M1"
    using f2 f3 same_views_trans by (auto simp: value_frame_def)
  have K: "kind_at M3 = (kind_at M)(i \<mapsto> k')" and P: "parent_at M3 = parent_at M"
    and L: "lists_at M3 = lists_at M" and O1: "order_at M3 = order_at M"
    using s v1 by (simp_all add: same_views_def)
  have ok: "only_kinds M M3"
    by (rule only_kinds_upd [OF K k _ _ P L O1]) (use law in simp_all)
  have a: "attached M3 = attached M" by (rule only_kinds_inv(3) [OF ok])
  have vl: "value_links M3 = insert (new, Use i slot) (value_links M - {(old, Use i slot)})"
  proof (rule value_rel_eqI)
    fix v j s
    show "(v, Use j s) \<in> value_links M3 \<longleftrightarrow>
        (v, Use j s) \<in> insert (new, Use i slot) (value_links M - {(old, Use i slot)})"
    proof (cases "j = i")
      case True
      then show ?thesis
        using law k ol value_slot_unique [OF ol(2)] by (auto simp: value_links_iff a K slot_set_def)
    next
      case False
      then show ?thesis by (auto simp: value_links_iff a K)
    qed
  qed
  have bl: "block_links M3 = block_links M"
    by (rule block_rel_eqI) (use law k in \<open>auto simp: block_links_iff a K\<close>)
  have "use_inv M3" using m3 vl bl b3 m(2) by (simp add: use_inv_def)
  moreover have "kinds_inv M3" using inv(2) law by (auto simp: kinds_inv_def K)
  moreover have "replace_inst_operand i slot new M = Some M3"
    using M2 M3 by (simp add: replace_inst_operand_def D k' M1)
  moreover have "dom (value_uses M3) = dom (value_uses M)"
    using d2 vu.dom_modify [OF M3] v1 by simp
  ultimately show ?thesis using ok vl bl k k' K by blast
qed

lemma replace_inst_operand_inv:
  assumes inv: "module_inv_but S M" and r: "replace_inst_operand i slot new M = Some M'" and a: "attached M i"
  shows "module_inv_but S M'"
proof -
  from r obtain D old k' M1 M2 where D: "inst_at M i = Some D"
    and k': "replace_kind_operand (id_kind D) slot new = Some (old, k')"
    and M1: "with_inst i (\<lambda>D. D\<lparr>id_kind := k'\<rparr>) M = Some M1"
    and M2: "with_value_uses old (filter (\<lambda>u. \<not> (use_user u = i \<and> use_slot u = slot))) M1 = Some M2"
    and M': "with_value_uses new (\<lambda>us. us @ [Use i slot]) M2 = Some M'"
    by (auto simp: replace_inst_operand_def bind_eq_Some_conv)
  have k: "kind_at M i = Some (id_kind D)" using D by (simp add: kind_at_def)
  with inv have "kind_ok (id_kind D)" by (auto simp: module_inv_def kinds_inv_def)
  from replace_operand_law [OF k' this] k a have l: "(old, Use i slot) \<in> value_links M"
    by (auto simp: value_links_iff)
  have "value_uses M2 new \<noteq> None" by (rule with_value_uses_views(1) [OF M'])
  with vu.dom_modify [OF M2] with_inst_kind_views [OF M1] have n: "value_uses M new \<noteq> None"
    by (auto simp: dom_def)
  from inv have "use_inv M" "kinds_inv M" "place_inv M" "order_inv S M" by (simp_all add: module_inv_def)
  with replace_operand_step [OF _ _ l n] r only_kinds_inv(1,2) show ?thesis
    by (auto simp: module_inv_def)
qed

text \<open>Replacing a list of links one by one, with any live value for each.\<close>

lemma replace_uses_fold:
  assumes "use_inv M" "kinds_inv M" "\<forall>u \<in> set us. (old, u) \<in> value_links M" "distinct us"
    and "old \<noteq> new" "value_uses M new \<noteq> None"
  shows "\<exists>M'. fold_opt (\<lambda>u. replace_inst_operand (use_user u) (use_slot u) new) us M = Some M' \<and>
    use_inv M' \<and> kinds_inv M' \<and> only_kinds M M' \<and>
    value_links M' = (value_links M - {(old, u) | u. u \<in> set us}) \<union> {(new, u) | u. u \<in> set us} \<and>
    block_links M' = block_links M \<and> dom (value_uses M') = dom (value_uses M)"
  using assms
proof (induction us arbitrary: M)
  case Nil
  then show ?case by simp
next
  case (Cons u us)
  obtain i s where u: "u = Use i s" by (cases u)
  from Cons.prems(3) have l: "(old, Use i s) \<in> value_links M" by (simp add: u)
  from replace_operand_step [OF Cons.prems(1,2) l Cons.prems(6)] obtain M1 where
    M1: "replace_inst_operand i s new M = Some M1" "use_inv M1" "kinds_inv M1" "only_kinds M M1"
    and vl: "value_links M1 = insert (new, u) (value_links M - {(old, u)})"
    and bl: "block_links M1 = block_links M" and d: "dom (value_uses M1) = dom (value_uses M)"
    by (auto simp: u)
  have "\<forall>w \<in> set us. (old, w) \<in> value_links M1" using Cons.prems(3,4) by (auto simp: vl)
  moreover have "value_uses M1 new \<noteq> None" using Cons.prems(6) d by (auto simp: dom_def)
  ultimately obtain M' where
    M': "fold_opt (\<lambda>u. replace_inst_operand (use_user u) (use_slot u) new) us M1 = Some M'"
      "use_inv M'" "kinds_inv M'" "only_kinds M1 M'"
    and vl': "value_links M' = (value_links M1 - {(old, u) | u. u \<in> set us}) \<union> {(new, u) | u. u \<in> set us}"
    and "block_links M' = block_links M1" "dom (value_uses M') = dom (value_uses M1)"
    using Cons.IH [OF M1(2,3)] Cons.prems(4,5) by auto
  moreover have "value_links M' = (value_links M - {(old, w) | w. w \<in> set (u # us)}) \<union> {(new, w) | w. w \<in> set (u # us)}"
    unfolding vl' vl using Cons.prems(5) by auto
  moreover have "fold_opt (\<lambda>u. replace_inst_operand (use_user u) (use_slot u) new) (u # us) M = Some M'"
    using M1(1) M'(1) by (simp add: u)
  ultimately show ?case using only_kinds_trans [OF M1(4)] bl d by metis
qed

lemma rename_image:
  assumes "old \<noteq> new"
  shows "(v, u) \<in> (\<lambda>(v, u). (if v = old then new else v, u)) ` R \<longleftrightarrow>
    (v \<noteq> old \<and> (v, u) \<in> R \<or> v = new \<and> (old, u) \<in> R)"
proof
  assume "(v, u) \<in> (\<lambda>(v, u). (if v = old then new else v, u)) ` R"
  then show "v \<noteq> old \<and> (v, u) \<in> R \<or> v = new \<and> (old, u) \<in> R"
    using assms by (auto split: if_splits)
next
  assume "v \<noteq> old \<and> (v, u) \<in> R \<or> v = new \<and> (old, u) \<in> R"
  then show "(v, u) \<in> (\<lambda>(v, u). (if v = old then new else v, u)) ` R"
  proof
    assume "v \<noteq> old \<and> (v, u) \<in> R"
    then show ?thesis by (intro image_eqI [of _ _ "(v, u)"]) auto
  next
    assume "v = new \<and> (old, u) \<in> R"
    then show ?thesis by (intro image_eqI [of _ _ "(old, u)"]) auto
  qed
qed

text \<open>After replacing all uses, nothing reads the old value, everything that read it reads the new
  one, and nothing panics.\<close>

lemma replace_all_uses_law:
  assumes inv: "module_inv_but S M" and ne: "old \<noteq> new" and live: "value_uses M old \<noteq> None" "value_uses M new \<noteq> None"
  shows "\<exists>M'. replace_all_uses_with old new M = Some M' \<and> module_inv_but S M' \<and> only_kinds M M' \<and>
    value_links M' = (\<lambda>(v, u). (if v = old then new else v, u)) ` value_links M \<and>
    block_links M' = block_links M \<and> dom (value_uses M') = dom (value_uses M)"
proof -
  from live obtain us where us: "value_uses M old = Some us" by blast
  from inv have m: "mirrors (value_uses M) (value_links M)" by (simp add: module_inv_def use_inv_def)
  with us have d: "distinct us" and s: "set us = {u. (old, u) \<in> value_links M}" by (auto simp: mirrors_def)
  from s have mem: "\<forall>u \<in> set us. (old, u) \<in> value_links M" by simp
  from inv have i: "use_inv M" "kinds_inv M" "place_inv M" "order_inv S M" by (simp_all add: module_inv_def)
  from replace_uses_fold [OF i(1,2) mem d ne live(2)] obtain M' where
    M': "fold_opt (\<lambda>u. replace_inst_operand (use_user u) (use_slot u) new) us M = Some M'"
      "use_inv M'" "kinds_inv M'" "only_kinds M M'"
    and vl: "value_links M' = (value_links M - {(old, u) | u. u \<in> set us}) \<union> {(new, u) | u. u \<in> set us}"
    and r: "block_links M' = block_links M" "dom (value_uses M') = dom (value_uses M)" by blast
  have "value_links M' = (\<lambda>(v, u). (if v = old then new else v, u)) ` value_links M"
  proof (rule set_eqI)
    fix x :: "value_id \<times> ir_use" obtain v u where x: "x = (v, u)" by force
    have "x \<in> (\<lambda>(v, u). (if v = old then new else v, u)) ` value_links M \<longleftrightarrow>
      (v \<noteq> old \<and> (v, u) \<in> value_links M \<or> v = new \<and> (old, u) \<in> value_links M)"
      unfolding x rename_image [OF ne] ..
    then show "x \<in> value_links M' \<longleftrightarrow> x \<in> (\<lambda>(v, u). (if v = old then new else v, u)) ` value_links M"
      unfolding vl s by (auto simp: x)
  qed
  moreover have "module_inv_but S M'"
    using M' i only_kinds_inv [OF M'(4)] by (simp add: module_inv_def)
  ultimately show ?thesis using M' r ne us by (auto simp: replace_all_uses_with_def)
qed

section \<open>New functions, blocks, instructions, constants\<close>

lemma mirrors_new:
  assumes "mirrors U R" "U x = None" shows "mirrors (U(x \<mapsto> [])) R"
  using assms by (auto simp: mirrors_def)

lemma mirrors_gone:
  assumes "mirrors U R" "U x = Some []" shows "mirrors (U(x := None)) R"
  using assms mirrors_empty [OF assms] by (auto simp: mirrors_def)

lemma value_links_cong:
  assumes "\<And>i. attached M' i = attached M i" "\<And>i. attached M i \<Longrightarrow> kind_at M' i = kind_at M i"
  shows "value_links M' = value_links M" "block_links M' = block_links M"
proof -
  show "value_links M' = value_links M"
    by (rule value_rel_eqI) (use assms in \<open>auto simp: value_links_iff\<close>)
  show "block_links M' = block_links M"
    by (rule block_rel_eqI) (use assms in \<open>auto simp: block_links_iff\<close>)
qed

text \<open>A change of the module that only extends the use tables with empty lists.\<close>

lemma add_const_views:
  assumes "const_map M c = None"
  shows "same_views M (add_const c ty kind M)" "block_uses (add_const c ty kind M) = block_uses M"
    "value_uses (add_const c ty kind M) = (value_uses M)(VConst c \<mapsto> [])"
    "value_ty (add_const c ty kind M) = (value_ty M)(VConst c \<mapsto> ty)"
  using assms
  by (auto simp: add_const_def same_views_def view_defs inst_at_def block_at_def arg_at_def block_uses_def
      value_uses_def value_ty_def fun_eq_iff split: value_id.splits)

lemma add_const_inv:
  assumes inv: "module_inv_but S M" and c: "const_map M c = None"
  shows "module_inv_but S (add_const c ty kind M)"
proof -
  note v = add_const_views [OF c, of ty kind]
  have "value_uses M (VConst c) = None" using c by (simp add: value_uses_def)
  with inv have "mirrors ((value_uses M)(VConst c \<mapsto> [])) (value_links M)"
    by (auto simp: module_inv_def use_inv_def intro: mirrors_new)
  with same_views_inv [OF v(1)] v(2,3) inv show ?thesis by (simp add: module_inv_def use_inv_def)
qed

lemma add_global_inv:
  assumes inv: "module_inv_but S M" and g: "global_map M g = None"
  shows "module_inv_but S (add_global g name ty kind M)"
proof -
  have v: "same_views M (add_global g name ty kind M)" "block_uses (add_global g name ty kind M) = block_uses M"
    "value_uses (add_global g name ty kind M) = (value_uses M)(VGlobal g \<mapsto> [])"
    using g
    by (auto simp: add_global_def Let_def same_views_def view_defs inst_at_def block_at_def arg_at_def
        block_uses_def value_uses_def fun_eq_iff split: value_id.splits global_kind.splits)
  have "value_uses M (VGlobal g) = None" using g by (simp add: value_uses_def)
  with inv have "mirrors ((value_uses M)(VGlobal g \<mapsto> [])) (value_links M)"
    by (auto simp: module_inv_def use_inv_def intro: mirrors_new)
  with same_views_inv [OF v(1)] v(2,3) inv show ?thesis by (simp add: module_inv_def use_inv_def)
qed

lemma append_arg_inv:
  assumes inv: "module_inv_but S M" and r: "append_arg a f ty name M = Some M'" and a: "arg_at M (ArgRef f a) = None"
  shows "module_inv_but S M'"
proof -
  from r obtain F where F: "func_map M f = Some F" and M': "M' = M\<lparr>func_map := (func_map M)(f \<mapsto>
      F\<lparr>fd_args := (fd_args F)(a \<mapsto> \<lparr>ad_name = name, ad_ty = ty, ad_attrs = [], ad_parent = f, ad_uses = []\<rparr>)\<rparr>)\<rparr>"
    by (auto simp: append_arg_def elim: with_funcE)
  have v: "same_views M M'" "block_uses M' = block_uses M"
    "value_uses M' = (value_uses M)(VArg (ArgRef f a) \<mapsto> [])"
    using F
    by (auto simp: M' same_views_def view_defs inst_at_def block_at_def arg_at_def
        block_uses_def value_uses_def fun_eq_iff arg_ref.expand split: value_id.splits)
  have "value_uses M (VArg (ArgRef f a)) = None" using a by (simp add: value_uses_def)
  with inv have "mirrors ((value_uses M)(VArg (ArgRef f a) \<mapsto> [])) (value_links M)"
    by (auto simp: module_inv_def use_inv_def intro: mirrors_new)
  with same_views_inv [OF v(1)] v(2,3) inv show ?thesis by (simp add: module_inv_def use_inv_def)
qed

lemma new_inst_views:
  assumes r: "new_inst n f ty kind name M = Some M'"
  shows "kind_at M' = (kind_at M)(InstRef f n \<mapsto> kind)" "parent_at M' = (parent_at M)(InstRef f n \<mapsto> None)"
    "lists_at M' = lists_at M" "order_at M' = order_at M" "block_uses M' = block_uses M"
    "value_uses M' = (value_uses M)(VInst (InstRef f n) \<mapsto> [])"
proof -
  from r obtain F where F: "func_map M f = Some F" and M': "M' = M\<lparr>func_map := (func_map M)(f \<mapsto>
      F\<lparr>fd_insts := (fd_insts F)(n \<mapsto>
        \<lparr>id_parent = None, id_ty = ty, id_kind = kind, id_uses = [], id_name = name\<rparr>)\<rparr>)\<rparr>"
    by (auto simp: new_inst_def elim: with_funcE)
  show "kind_at M' = (kind_at M)(InstRef f n \<mapsto> kind)" "parent_at M' = (parent_at M)(InstRef f n \<mapsto> None)"
    "lists_at M' = lists_at M" "order_at M' = order_at M" "block_uses M' = block_uses M"
    "value_uses M' = (value_uses M)(VInst (InstRef f n) \<mapsto> [])"
    using F
    by (auto simp: M' view_defs inst_at_def block_at_def arg_at_def
        block_uses_def value_uses_def fun_eq_iff inst_ref.expand split: value_id.splits)
qed

lemma new_inst_inv:
  assumes inv: "module_inv_but S M" and r: "new_inst n f ty kind name M = Some M'"
    and n: "inst_at M (InstRef f n) = None" and k: "kind_ok kind"
  shows "module_inv_but S M'"
proof -
  note v = new_inst_views [OF r]
  have p: "parent_at M (InstRef f n) = None" using n by (simp add: parent_at_def)
  then have a: "attached M' i = attached M i" "attached M i \<Longrightarrow> i \<noteq> InstRef f n" for i
    by (auto simp: attached_def v)
  have lk: "value_links M' = value_links M" "block_links M' = block_links M"
    by (rule value_links_cong; use a in \<open>auto simp: v\<close>)+
  have "value_uses M (VInst (InstRef f n)) = None" using n by (simp add: value_uses_def)
  with inv lk v have "use_inv M'" by (auto simp: module_inv_def use_inv_def intro: mirrors_new)
  moreover have "kinds_inv M'" using inv k by (auto simp: module_inv_def kinds_inv_def v)
  moreover have "order_inv S M'"
    by (rule order_inv_same [OF v(4)]) (use inv in \<open>simp_all add: module_inv_def live_block_def fun_eq_iff v\<close>)
  moreover have "place_inv M'"
    unfolding place_inv_def
  proof (intro conjI allI impI)
    fix b L assume "lists_at M' b = Some L"
    with inv place_invD have ok: "block_ok M b L" by (simp add: v module_inv_def)
    have ne: "InstRef (br_func b) j \<noteq> InstRef f n" if "j \<in> set (all_insts L)" for j
      using ok p that by (auto simp: block_ok_def)
    have "lists_kinds (kind_at M') (br_func b) L"
      using ok ne by (cases L) (auto simp: block_ok_def v)
    moreover have "(j \<in> set (all_insts L)) = (parent_at M' (InstRef (br_func b) j) = Some (Some b))" for j
      using ok ne [of j] p by (auto simp: block_ok_def v)
    ultimately show "block_ok M' b L" using ok by (simp add: block_ok_def)
  next
    fix i b assume "parent_at M' i = Some (Some b)"
    then have "parent_at M i = Some (Some b)" by (simp add: v split: if_splits)
    with inv show "br_func b = ir_func i" "live_block M' b"
      by (auto simp: module_inv_def place_inv_def live_block_def v)
  qed
  ultimately show ?thesis by (simp add: module_inv_def)
qed

lemma append_block_views:
  assumes r: "append_block b f name M = Some M'"
  shows "kind_at M' = kind_at M" "parent_at M' = parent_at M" "value_uses M' = value_uses M"
    "lists_at M' = (lists_at M)(BlockRef f b \<mapsto> Lists [] [] None)"
    "block_uses M' = (block_uses M)(BlockRef f b \<mapsto> [])"
    "order_at M' = (order_at M)(f := map_option (\<lambda>(ord, e, d). (ord @ [b], e, d)) (order_at M f))"
proof -
  from r obtain F where F: "func_map M f = Some F" and M': "M' = M\<lparr>func_map := (func_map M)(f \<mapsto>
      F\<lparr>fd_blocks := (fd_blocks F)(b \<mapsto> \<lparr>bd_name = name, bd_phis = [], bd_insts = [], bd_terminator = None,
           bd_parent = f, bd_uses = []\<rparr>), fd_block_order := fd_block_order F @ [b]\<rparr>)\<rparr>"
    by (auto simp: append_block_def elim: with_funcE)
  show "kind_at M' = kind_at M" "parent_at M' = parent_at M" "value_uses M' = value_uses M"
    "lists_at M' = (lists_at M)(BlockRef f b \<mapsto> Lists [] [] None)"
    "block_uses M' = (block_uses M)(BlockRef f b \<mapsto> [])"
    "order_at M' = (order_at M)(f := map_option (\<lambda>(ord, e, d). (ord @ [b], e, d)) (order_at M f))"
    using F
    by (auto simp: M' view_defs inst_at_def block_at_def arg_at_def lists_of_def
        block_uses_def value_uses_def fun_eq_iff block_ref.expand split: value_id.splits)
qed

text \<open>A new block, in a function whose block order and entry may change with it.\<close>

lemma new_block_inv:
  assumes inv: "use_inv M" "kinds_inv M" "place_inv M" and fresh: "\<not> live_block M b"
    and v: "kind_at M' = kind_at M" "parent_at M' = parent_at M" "value_uses M' = value_uses M"
    "lists_at M' = (lists_at M)(b \<mapsto> Lists [] [] None)" "block_uses M' = (block_uses M)(b \<mapsto> [])"
  shows "use_inv M'" "kinds_inv M'" "place_inv M'"
proof -
  have lk: "value_links M' = value_links M" "block_links M' = block_links M"
    by (rule value_links_cong; simp add: attached_def v)+
  have "block_uses M b = None" using fresh by (auto simp: live_block_def lists_at_def block_uses_def)
  with inv(1) lk v show "use_inv M'" by (auto simp: use_inv_def intro: mirrors_new)
  show "kinds_inv M'" using inv(2) by (simp add: kinds_inv_def v)
  have "parent_at M i \<noteq> Some (Some b)" for i using inv(3) fresh by (auto simp: place_inv_def)
  then show "place_inv M'"
    using inv(3) by (auto simp: place_inv_def block_ok_def live_block_def v)
qed

lemma append_block_inv:
  assumes inv: "module_inv_but S M" and r: "append_block b f name M = Some M'" and b: "\<not> live_block M (BlockRef f b)"
  shows "module_inv_but S M'"
proof -
  note v = append_block_views [OF r]
  from inv have i: "use_inv M" "kinds_inv M" "place_inv M" and o: "order_inv S M" by (simp_all add: module_inv_def)
  have "order_inv S M'"
    unfolding order_inv_def
  proof (intro allI impI)
    fix g ord e d assume g: "order_at M' g = Some (ord, e, d)"
    show "distinct ord \<and> (\<forall>c. (c \<in> set ord) = live_block M' (BlockRef g c)) \<and> (d \<or> g \<in> S \<or> live_block M' (BlockRef g e))"
    proof (cases "g = f")
      case True
      with g v(6) obtain ord0 where ord0: "order_at M f = Some (ord0, e, d)" "ord = ord0 @ [b]"
        by (cases "order_at M f") auto
      with o have o0: "distinct ord0" "\<And>c. c \<in> set ord0 \<longleftrightarrow> live_block M (BlockRef f c)" "d \<or> f \<in> S \<or> live_block M (BlockRef f e)"
        unfolding order_inv_def by blast+
      have "live_block M' (BlockRef f c) \<longleftrightarrow> c = b \<or> live_block M (BlockRef f c)" for c
        by (simp add: live_block_def v)
      with o0 b True ord0(2) show ?thesis by auto
    next
      case False
      with g v(6) have "order_at M g = Some (ord, e, d)" by simp
      with o have "distinct ord \<and> (\<forall>c. (c \<in> set ord) = live_block M (BlockRef g c)) \<and> (d \<or> g \<in> S \<or> live_block M (BlockRef g e))"
        unfolding order_inv_def by blast
      moreover have "live_block M' (BlockRef g c) = live_block M (BlockRef g c)" for c
        using False by (simp add: live_block_def v)
      ultimately show ?thesis by simp
    qed
  qed
  with new_block_inv [OF i b v(1-5)] show ?thesis by (simp add: module_inv_def)
qed

lemma no_func:
  assumes "func_map M f = None"
  shows "\<not> live_block M (BlockRef f b)" "order_at M f = None"
  using assms by (simp_all add: live_block_def view_defs block_at_def)

lemma define_function_views:
  assumes "func_map M f = None"
  shows "kind_at (define_function f nb d name ty M) = kind_at M"
    "parent_at (define_function f nb d name ty M) = parent_at M"
    "lists_at (define_function f nb d name ty M) = lists_at M"
    "value_uses (define_function f nb d name ty M) = value_uses M"
    "block_uses (define_function f nb d name ty M) = block_uses M"
    "order_at (define_function f nb d name ty M) = (order_at M)(f \<mapsto> ([], nb, d))"
  using assms
  by (auto simp: define_function_def view_defs inst_at_def block_at_def arg_at_def
      block_uses_def value_uses_def fun_eq_iff split: value_id.splits)

lemma new_function_inv:
  assumes inv: "module_inv_but S M" and f: "func_map M f = None" and S: "S \<subseteq> S'" "d \<or> f \<in> S'"
  shows "module_inv_but S' (define_function f nb d name ty M)"
proof -
  let ?M' = "define_function f nb d name ty M"
  note v = define_function_views [OF f]
  have lk: "value_links ?M' = value_links M" "block_links ?M' = block_links M"
    by (rule value_links_cong; simp add: attached_def v)+
  have lb: "live_block ?M' = live_block M" by (simp add: live_block_def fun_eq_iff v)
  have "order_inv S' M" using inv S(1) order_inv_mono by (auto simp: module_inv_def)
  then have "order_inv S' ?M'"
    using no_func [OF f] S(2) by (auto simp: order_inv_def v lb split: if_splits)
  with inv show ?thesis
    by (simp add: module_inv_def use_inv_def kinds_inv_def place_inv_def block_ok_def v lk lb)
qed

lemma declare_function_inv:
  assumes "module_inv_but S M" "func_map M f = None"
  shows "module_inv_but S (declare_function f nb name ty M)"
  unfolding declare_function_def by (rule new_function_inv [OF assms]) simp_all

lemma define_function_inv:
  assumes "module_inv_but S M" "func_map M f = None"
  shows "module_inv_but (insert f S) (define_function f nb False name ty M)"
  by (rule new_function_inv [OF assms]) auto

text \<open>Setting the entry of a function to one of its blocks.\<close>

lemma set_entry_inv:
  assumes inv: "module_inv_but S M" and e: "set_entry f b M = Some M'" and b: "block_at M (BlockRef f b) \<noteq> None"
  shows "module_inv_but (S - {f}) M'"
proof -
  from e obtain F where F: "func_map M f = Some F" and M': "M' = M\<lparr>func_map := (func_map M)(f \<mapsto> F\<lparr>fd_entry := b\<rparr>)\<rparr>"
    by (auto simp: set_entry_def elim: with_funcE)
  have v: "kind_at M' = kind_at M" "parent_at M' = parent_at M" "lists_at M' = lists_at M"
    "value_uses M' = value_uses M" "block_uses M' = block_uses M"
    "order_at M' = (order_at M)(f := map_option (\<lambda>(ord, e, d). (ord, b, d)) (order_at M f))"
    using F
    by (auto simp: M' view_defs inst_at_def block_at_def arg_at_def
        block_uses_def value_uses_def fun_eq_iff split: value_id.splits)
  have lk: "value_links M' = value_links M" "block_links M' = block_links M"
    by (rule value_links_cong; simp add: attached_def v)+
  have lb: "live_block M' = live_block M" by (simp add: live_block_def fun_eq_iff v)
  have "live_block M (BlockRef f b)" using b by (simp add: live_block_def lists_at_def)
  then have "order_inv (S - {f}) M'"
    using inv unfolding module_inv_def order_inv_def v(6) lb by (auto split: if_splits)
  with inv show ?thesis
    by (simp add: module_inv_def use_inv_def kinds_inv_def place_inv_def block_ok_def v lk lb)
qed

lemma create_function_inv:
  assumes inv: "module_inv_but S M" and r: "create_function f nb b name ty M = Some M'" and f: "func_map M f = None"
  shows "module_inv_but S M'"
proof -
  from r have M': "M' = M\<lparr>func_map := (func_map M)(f \<mapsto>
      \<lparr>fd_name = name, fd_ty = ty, fd_attrs = empty_attrs, fd_args = Map.empty,
       fd_blocks = [b \<mapsto> \<lparr>bd_name = Some ''entry'', bd_phis = [], bd_insts = [], bd_terminator = None,
           bd_parent = f, bd_uses = []\<rparr>],
       fd_insts = Map.empty, fd_block_order = [b], fd_entry = b, fd_is_declare = False\<rparr>)\<rparr>"
    by (simp add: create_function_def define_function_def append_block_def with_func_def)
  have v: "kind_at M' = kind_at M" "parent_at M' = parent_at M" "value_uses M' = value_uses M"
    "lists_at M' = (lists_at M)(BlockRef f b \<mapsto> Lists [] [] None)"
    "block_uses M' = (block_uses M)(BlockRef f b \<mapsto> [])"
    "order_at M' = (order_at M)(f \<mapsto> ([b], b, False))"
    using f
    by (auto simp: M' view_defs inst_at_def block_at_def arg_at_def lists_of_def
        block_uses_def value_uses_def fun_eq_iff block_ref.expand split: value_id.splits)
  have "order_inv S M'"
    unfolding order_inv_def
  proof (intro allI impI)
    fix g ord e d assume g: "order_at M' g = Some (ord, e, d)"
    show "distinct ord \<and> (\<forall>c. (c \<in> set ord) = live_block M' (BlockRef g c)) \<and> (d \<or> g \<in> S \<or> live_block M' (BlockRef g e))"
    proof (cases "g = f")
      case True
      with g v no_func(1) [OF f] show ?thesis by (auto simp: live_block_def)
    next
      case False
      with g v inv have "distinct ord \<and> (\<forall>c. (c \<in> set ord) = live_block M (BlockRef g c)) \<and> (d \<or> g \<in> S \<or> live_block M (BlockRef g e))"
        by (simp add: module_inv_def order_inv_def)
      with False show ?thesis by (simp add: live_block_def v)
    qed
  qed
  with new_block_inv [OF _ _ _ no_func(1) [OF f] v(1-5)] inv show ?thesis by (simp add: module_inv_def)
qed

section \<open>Detaching and erasing\<close>

fun lists_minus :: "inst_id \<Rightarrow> inst_lists \<Rightarrow> inst_lists" where
  "lists_minus j (Lists ps xs t) =
     Lists (removeAll j ps) (removeAll j xs) (if t = Some j then None else t)"

lemma set_lists_minus: "set (all_insts (lists_minus j L)) = set (all_insts L) - {j}"
  by (cases L) (auto split: option.splits)

lemma distinct_lists_minus: "distinct (all_insts L) \<Longrightarrow> distinct (all_insts (lists_minus j L))"
  by (cases L) (auto simp: distinct_removeAll split: option.splits)

lemma kinds_lists_minus: "lists_kinds K f L \<Longrightarrow> lists_kinds K f (lists_minus j L)"
  by (cases L) auto

lemma remove_nth_distinct:
  assumes "distinct xs" "n < length xs" "xs ! n = j"
  shows "remove_nth n xs = removeAll j xs"
proof -
  have "xs = take n xs @ j # drop (Suc n) xs" using assms(2,3) id_take_nth_drop by blast
  moreover from this assms(1) have "j \<notin> set (take n xs)" "j \<notin> set (drop (Suc n) xs)"
    by (metis distinct_append distinct.simps(2) disjoint_iff list.set_intros(1))+
  ultimately show ?thesis
    by (metis remove_nth_def removeAll_append removeAll.simps(2) removeAll_id)
qed

lemma locate_remove:
  assumes "locate_inst i M = Some pos" "block_at M p = Some B" "parent_at M i = Some (Some p)"
    "distinct (all_insts (lists_of B))"
  shows "lists_of (case pos of
      InstPos n \<Rightarrow> B\<lparr>bd_insts := remove_nth n (bd_insts B)\<rparr>
    | PhiPos n \<Rightarrow> B\<lparr>bd_phis := remove_nth n (bd_phis B)\<rparr>
    | TerminatorPos \<Rightarrow> B\<lparr>bd_terminator := None\<rparr>) = lists_minus (ir_inst i) (lists_of B)"
proof -
  from locate_views [OF assms(1)] assms(2,3) have
    l: "case pos of
        InstPos n \<Rightarrow> n < length (bd_insts B) \<and> bd_insts B ! n = ir_inst i
      | PhiPos n \<Rightarrow> n < length (bd_phis B) \<and> bd_phis B ! n = ir_inst i
      | TerminatorPos \<Rightarrow> bd_terminator B = Some (ir_inst i)" by auto
  show ?thesis
  proof (cases pos)
    case (PhiPos n)
    with l have "ir_inst i \<in> set (bd_phis B)" using nth_mem by force
    with assms(4) have "ir_inst i \<notin> set (bd_insts B)" "bd_terminator B \<noteq> Some (ir_inst i)"
      by (auto simp: lists_of_def)
    with PhiPos l assms(4) show ?thesis
      by (auto simp: lists_of_def remove_nth_distinct split: option.splits)
  next
    case (InstPos n)
    with l have "ir_inst i \<in> set (bd_insts B)" using nth_mem by force
    with assms(4) have "ir_inst i \<notin> set (bd_phis B)" "bd_terminator B \<noteq> Some (ir_inst i)"
      by (auto simp: lists_of_def)
    with InstPos l assms(4) show ?thesis
      by (auto simp: lists_of_def remove_nth_distinct split: option.splits)
  next
    case TerminatorPos
    with l assms(4) show ?thesis by (auto simp: lists_of_def)
  qed
qed

text \<open>The views after a successful detachment of an attached instruction.\<close>

lemma detach_views:
  assumes inv: "module_inv_but S M" and r: "detach_inst i M = Some M'" and k: "kind_at M i = Some k"
    and p: "parent_at M i = Some (Some p)"
  shows "kind_at M' = kind_at M" "parent_at M' = (parent_at M)(i \<mapsto> None)"
    "lists_at M' = (lists_at M)(p := map_option (lists_minus (ir_inst i)) (lists_at M p))"
    "order_at M' = order_at M" "br_func p = ir_func i"
    "mirrors (value_uses M') (value_links M - kind_values i k)"
    "mirrors (block_uses M') (block_links M - kind_blocks i k)"
proof -
  from inv have use: "mirrors (value_uses M) (value_links M)" "mirrors (block_uses M) (block_links M)"
    and pl: "place_inv M" by (simp_all add: module_inv_def use_inv_def)
  from pl p show bf: "br_func p = ir_func i" by (simp add: place_inv_def)
  from r obtain M1 D where M1: "unregister_inst_use i M = Some M1" and D: "inst_at M1 i = Some D"
    and rest: "(case id_parent D of
        None \<Rightarrow> Some M1
      | Some p \<Rightarrow> do {
          pos \<leftarrow> locate_inst i M1;
          M2 \<leftarrow> (case pos of
             InstPos n \<Rightarrow> with_block p (\<lambda>B. B\<lparr>bd_insts := remove_nth n (bd_insts B)\<rparr>) M1
           | PhiPos n \<Rightarrow> with_block p (\<lambda>B. B\<lparr>bd_phis := remove_nth n (bd_phis B)\<rparr>) M1
           | TerminatorPos \<Rightarrow> with_block p (\<lambda>B. B\<lparr>bd_terminator := None\<rparr>) M1);
          with_inst i (\<lambda>D. D\<lparr>id_parent := None\<rparr>) M2
        }) = Some M'"
    unfolding detach_inst_def bind_eq_Some_conv by blast
  note un = unregister_law [OF M1 k use]
  have P1: "parent_at M1 = parent_at M" "kind_at M1 = kind_at M" "lists_at M1 = lists_at M" "order_at M1 = order_at M"
    using un(3) by (simp_all add: same_views_def)
  have "id_parent D = Some p" using P1(1) p D by (metis option.inject option.simps(9) parent_at_def)
  with rest obtain pos M2 where pos: "locate_inst i M1 = Some pos"
    and M2: "(case pos of
             InstPos n \<Rightarrow> with_block p (\<lambda>B. B\<lparr>bd_insts := remove_nth n (bd_insts B)\<rparr>) M1
           | PhiPos n \<Rightarrow> with_block p (\<lambda>B. B\<lparr>bd_phis := remove_nth n (bd_phis B)\<rparr>) M1
           | TerminatorPos \<Rightarrow> with_block p (\<lambda>B. B\<lparr>bd_terminator := None\<rparr>) M1) = Some M2"
    and M': "with_inst i (\<lambda>D. D\<lparr>id_parent := None\<rparr>) M2 = Some M'"
    by (auto simp: bind_eq_Some_conv)
  define g where "g B = (case pos of
      InstPos n \<Rightarrow> B\<lparr>bd_insts := remove_nth n (bd_insts B)\<rparr>
    | PhiPos n \<Rightarrow> B\<lparr>bd_phis := remove_nth n (bd_phis B)\<rparr>
    | TerminatorPos \<Rightarrow> B\<lparr>bd_terminator := None\<rparr>)" for B :: block_data
  have w: "with_block p g M1 = Some M2" using M2 by (cases pos) (simp_all add: g_def [abs_def])
  have gu: "bd_uses (g B) = bd_uses B" for B by (cases pos) (simp_all add: g_def)
  note v2 = with_block_lists_views [OF w gu] and v3 = with_inst_parent_views [OF M']
  from v2(1) obtain B where B: "block_at M1 p = Some B" by (auto simp: lists_at_def)
  then have LB: "lists_at M p = Some (lists_of B)" using P1(3) by (metis lists_at_def option.simps(9))
  with place_invD [OF pl] have dist: "distinct (all_insts (lists_of B))" by (auto simp: block_ok_def)
  have "lists_of (g B) = lists_minus (ir_inst i) (lists_of B)"
    unfolding g_def by (rule locate_remove [OF pos B _ dist]) (simp add: P1 p)
  then show "lists_at M' = (lists_at M)(p := map_option (lists_minus (ir_inst i)) (lists_at M p))"
    using v2 v3 P1 B LB by simp
  show "kind_at M' = kind_at M" "parent_at M' = (parent_at M)(i \<mapsto> None)" "order_at M' = order_at M"
    using v2 v3 P1 by simp_all
  show "mirrors (value_uses M') (value_links M - kind_values i k)"
    "mirrors (block_uses M') (block_links M - kind_blocks i k)"
    using v2 v3 un(1,2) by simp_all
qed

lemma place_inv_detach:
  assumes pl: "place_inv M" and p: "parent_at M i = Some (Some p)"
    and v: "kind_at M' = kind_at M" "parent_at M' = (parent_at M)(i \<mapsto> None)"
    "lists_at M' = (lists_at M)(p := map_option (lists_minus (ir_inst i)) (lists_at M p))"
  shows "place_inv M'" "live_block M' = live_block M"
proof -
  show lb: "live_block M' = live_block M" by (simp add: live_block_def fun_eq_iff v)
  from pl p have bf: "br_func p = ir_func i" by (simp add: place_inv_def)
  have ij: "InstRef (br_func p) j = i \<longleftrightarrow> j = ir_inst i" for j using bf by (cases i) auto
  show "place_inv M'"
    unfolding place_inv_def
  proof (intro conjI allI impI)
    fix b L' assume L': "lists_at M' b = Some L'"
    show "block_ok M' b L'"
    proof (cases "b = p")
      case True
      with L' v(3) obtain L where L: "lists_at M p = Some L" "L' = lists_minus (ir_inst i) L" by auto
      from place_invD [OF pl L(1)] have ok: "block_ok M p L" .
      have "(j \<in> set (all_insts L')) = (parent_at M' (InstRef (br_func p) j) = Some (Some p))" for j
        using ok ij [of j] by (auto simp: block_ok_def L(2) set_lists_minus v)
      then show ?thesis
        using ok by (simp add: True block_ok_def L(2) v distinct_lists_minus kinds_lists_minus)
    next
      case False
      with L' v(3) have "lists_at M b = Some L'" by simp
      from place_invD [OF pl this] have ok: "block_ok M b L'" .
      have "InstRef (br_func b) j \<noteq> i" if "j \<in> set (all_insts L')" for j
        using ok p False that by (auto simp: block_ok_def)
      then show ?thesis using ok by (auto simp: block_ok_def v)
    qed
  next
    fix j b assume "parent_at M' j = Some (Some b)"
    then have "parent_at M j = Some (Some b)" by (simp add: v split: if_splits)
    with pl show "br_func b = ir_func j" "live_block M' b" by (auto simp: lb place_inv_def)
  qed
qed

lemma links_detach:
  assumes "kind_at M i = Some k" "kind_at M' = kind_at M" "parent_at M' = (parent_at M)(i \<mapsto> None)"
  shows "value_links M' = value_links M - kind_values i k" "block_links M' = block_links M - kind_blocks i k"
proof -
  have a: "attached M' j \<longleftrightarrow> attached M j \<and> j \<noteq> i" for j using assms(3) by (simp add: attached_def)
  show "value_links M' = value_links M - kind_values i k"
    by (rule value_rel_eqI) (auto simp: value_links_iff a assms(1,2))
  show "block_links M' = block_links M - kind_blocks i k"
    by (rule block_rel_eqI) (auto simp: block_links_iff a assms(1,2))
qed

lemma unattached_links:
  assumes "\<not> attached M i"
  shows "value_links M - kind_values i k = value_links M" "block_links M - kind_blocks i k = block_links M"
proof -
  show "value_links M - kind_values i k = value_links M"
    by (rule value_rel_eqI) (use assms in \<open>auto simp: value_links_iff\<close>)
  show "block_links M - kind_blocks i k = block_links M"
    by (rule block_rel_eqI) (use assms in \<open>auto simp: block_links_iff\<close>)
qed

lemma detach_inst_inv:
  assumes inv: "module_inv_but S M" and r: "detach_inst i M = Some M'"
  shows "module_inv_but S M' \<and> parent_at M' i = Some None \<and> kind_at M' = kind_at M \<and> value_links M' \<subseteq> value_links M"
proof -
  from r obtain D where D: "inst_at M i = Some D"
    by (auto simp: detach_inst_def unregister_inst_use_def bind_eq_Some_conv)
  then have k: "kind_at M i = Some (id_kind D)" by (simp add: kind_at_def)
  from inv have i: "use_inv M" "kinds_inv M" "place_inv M" "order_inv S M" by (simp_all add: module_inv_def)
  show ?thesis
  proof (cases "id_parent D")
    case (Some p)
    with D have p: "parent_at M i = Some (Some p)" by (simp add: parent_at_def)
    note v = detach_views [OF inv r k p]
    note pl = place_inv_detach [OF i(3) p v(1-3)] and lk = links_detach [OF k v(1,2)]
    have "order_inv S M'" by (rule order_inv_same [OF v(4) pl(2) i(4)])
    then show ?thesis
      using v lk pl i(2) by (simp add: module_inv_def use_inv_def kinds_inv_def)
  next
    case None
    with D have p: "parent_at M i = Some None" by (simp add: parent_at_def)
    from r obtain M1 D1 where M1: "unregister_inst_use i M = Some M1" and D1: "inst_at M1 i = Some D1"
      and c: "(case id_parent D1 of
        None \<Rightarrow> Some M1
      | Some p \<Rightarrow> do {
          pos \<leftarrow> locate_inst i M1;
          M2 \<leftarrow> (case pos of
             InstPos n \<Rightarrow> with_block p (\<lambda>B. B\<lparr>bd_insts := remove_nth n (bd_insts B)\<rparr>) M1
           | PhiPos n \<Rightarrow> with_block p (\<lambda>B. B\<lparr>bd_phis := remove_nth n (bd_phis B)\<rparr>) M1
           | TerminatorPos \<Rightarrow> with_block p (\<lambda>B. B\<lparr>bd_terminator := None\<rparr>) M1);
          with_inst i (\<lambda>D. D\<lparr>id_parent := None\<rparr>) M2
        }) = Some M'"
      unfolding detach_inst_def bind_eq_Some_conv by blast
    note un = unregister_law [OF M1 k i(1) [unfolded use_inv_def, THEN conjunct1] i(1) [unfolded use_inv_def, THEN conjunct2]]
    have "parent_at M1 i = Some None" using un(3) p by (simp add: same_views_def)
    with D1 have "id_parent D1 = None" by (simp add: parent_at_def)
    with c have [simp]: "M1 = M'" by simp
    have "\<not> attached M i" using p by (simp add: attached_def)
    with un same_views_inv [OF un(3)] i unattached_links [of M i] \<open>parent_at M1 i = Some None\<close>
    show ?thesis by (simp add: module_inv_def use_inv_def) (simp add: same_views_def)
  qed
qed

lemma remove_inst_views:
  assumes r: "remove_inst i M = Some M'"
  shows "kind_at M' = (kind_at M)(i := None)" "parent_at M' = (parent_at M)(i := None)"
    "lists_at M' = lists_at M" "order_at M' = order_at M" "block_uses M' = block_uses M"
    "value_uses M' = (value_uses M)(VInst i := None)"
proof -
  from r obtain F where F: "func_map M (ir_func i) = Some F" and M': "M' = M\<lparr>func_map := (func_map M)(ir_func i \<mapsto>
      F\<lparr>fd_insts := (fd_insts F)(ir_inst i := None)\<rparr>)\<rparr>"
    by (auto simp: remove_inst_def elim: with_funcE)
  show "kind_at M' = (kind_at M)(i := None)" "parent_at M' = (parent_at M)(i := None)"
    "lists_at M' = lists_at M" "order_at M' = order_at M" "block_uses M' = block_uses M"
    "value_uses M' = (value_uses M)(VInst i := None)"
    using F
    by (auto simp: M' view_defs inst_at_def block_at_def arg_at_def
        block_uses_def value_uses_def fun_eq_iff inst_ref.expand split: value_id.splits)
qed

lemma remove_inst_inv:
  assumes inv: "module_inv_but S M" and r: "remove_inst i M = Some M'"
    and p: "parent_at M i = Some None" and u: "value_uses M (VInst i) = Some []"
  shows "module_inv_but S M'" "value_links M' = value_links M" "block_links M' = block_links M" "live_block M' = live_block M"
proof -
  note v = remove_inst_views [OF r]
  from inv have i: "use_inv M" "kinds_inv M" "place_inv M" "order_inv S M" by (simp_all add: module_inv_def)
  have a: "attached M' j = attached M j" "attached M j \<Longrightarrow> j \<noteq> i" for j
    using p by (auto simp: attached_def v)
  show lk: "value_links M' = value_links M" "block_links M' = block_links M"
    by (rule value_links_cong; use a in \<open>auto simp: v\<close>)+
  show lb: "live_block M' = live_block M" by (simp add: live_block_def fun_eq_iff v)
  have "use_inv M'" using i(1) lk u by (auto simp: use_inv_def v intro: mirrors_gone)
  moreover have "kinds_inv M'" using i(2) by (auto simp: kinds_inv_def v split: if_splits)
  moreover have "order_inv S M'" by (rule order_inv_same [OF v(4) lb i(4)])
  moreover have "place_inv M'"
    unfolding place_inv_def
  proof (intro conjI allI impI)
    fix b L assume "lists_at M' b = Some L"
    then have ok: "block_ok M b L" using place_invD [OF i(3)] by (simp add: v)
    have ne: "InstRef (br_func b) j \<noteq> i" if "j \<in> set (all_insts L)" for j
      using ok p that by (auto simp: block_ok_def)
    have "lists_kinds (kind_at M') (br_func b) L"
      using ok ne by (cases L) (auto simp: block_ok_def v)
    moreover have "(j \<in> set (all_insts L)) = (parent_at M' (InstRef (br_func b) j) = Some (Some b))" for j
      using ok ne [of j] by (auto simp: block_ok_def v)
    ultimately show "block_ok M' b L" using ok by (simp add: block_ok_def)
  next
    fix j b assume "parent_at M' j = Some (Some b)"
    then have "parent_at M j = Some (Some b)" by (simp add: v split: if_splits)
    with i(3) show "br_func b = ir_func j" "live_block M' b" by (auto simp: place_inv_def lb)
  qed
  ultimately show "module_inv_but S M'" by (simp add: module_inv_def)
qed

lemma erase_inst_inv:
  assumes inv: "module_inv_but S M" and r: "erase_inst_from_parent i M = Some M'"
  shows "module_inv_but S M'" "kind_at M' = (kind_at M)(i := None)"
proof -
  from r obtain M1 where u: "value_uses M (VInst i) = Some []" and M1: "detach_inst i M = Some M1"
    and M': "remove_inst i M1 = Some M'"
    by (auto simp: erase_inst_from_parent_def bind_eq_Some_conv)
  note d = detach_inst_inv [OF inv M1]
  from u inv have no: "(VInst i, w) \<notin> value_links M" for w
    by (auto simp: module_inv_def use_inv_def dest: mirrors_empty)
  from d have "parent_at M1 i = Some None" by blast
  then have live: "value_uses M1 (VInst i) \<noteq> None" by (auto simp: value_uses_def parent_at_def)
  then obtain us where us: "value_uses M1 (VInst i) = Some us" by blast
  with d have "set us = {w. (VInst i, w) \<in> value_links M1}" by (auto simp: module_inv_def use_inv_def mirrors_def)
  with d no have "us = []" by (auto simp flip: set_empty)
  with remove_inst_inv [OF _ M'] us d show "module_inv_but S M'" by blast
  show "kind_at M' = (kind_at M)(i := None)" using remove_inst_views [OF M'] d by simp
qed

section \<open>Phis and block operands\<close>

lemma phi_values_add:
  assumes "kind_ok (Phi inc idx)"
  shows "set (value_operands (Phi (AList.update idx (PhiIncoming b v) inc) (Suc idx))) =
      insert (v, PhiIncomingVal idx) (set (value_operands (Phi inc idx)))"
    and "set (block_operands (Phi (AList.update idx (PhiIncoming b v) inc) (Suc idx))) =
      insert (b, PhiIncomingBlock idx) (set (block_operands (Phi inc idx)))"
    and "kind_ok (Phi (AList.update idx (PhiIncoming b v) inc) (Suc idx))"
    and "(w, PhiIncomingVal idx) \<notin> set (value_operands (Phi inc idx))"
    and "(c, PhiIncomingBlock idx) \<notin> set (block_operands (Phi inc idx))"
proof -
  from assms have n: "idx \<notin> fst ` set inc" and d: "distinct (map fst inc)" and lt: "\<forall>i \<in> fst ` set inc. i < idx"
    by (auto simp: kind_ok_def)
  have u: "AList.update idx (PhiIncoming b v) inc = inc @ [(idx, PhiIncoming b v)]"
    using n by (induction inc) auto
  show "set (value_operands (Phi (AList.update idx (PhiIncoming b v) inc) (Suc idx))) =
      insert (v, PhiIncomingVal idx) (set (value_operands (Phi inc idx)))"
    "set (block_operands (Phi (AList.update idx (PhiIncoming b v) inc) (Suc idx))) =
      insert (b, PhiIncomingBlock idx) (set (block_operands (Phi inc idx)))"
    by (simp_all add: u)
  show "kind_ok (Phi (AList.update idx (PhiIncoming b v) inc) (Suc idx))"
    using n d lt by (fastforce simp: u kind_ok_def)
  show "(w, PhiIncomingVal idx) \<notin> set (value_operands (Phi inc idx))"
    "(c, PhiIncomingBlock idx) \<notin> set (block_operands (Phi inc idx))"
    using n by force+
qed

lemma phi_values_delete:
  assumes "map_of inc n = Some e" "distinct (map fst inc)"
  shows "set (value_operands (Phi (AList.delete n inc) idx)) =
      set (value_operands (Phi inc idx)) - {(pi_value e, PhiIncomingVal n)}"
    and "set (block_operands (Phi (AList.delete n inc) idx)) =
      set (block_operands (Phi inc idx)) - {(pi_block e, PhiIncomingBlock n)}"
proof -
  have s: "set (AList.delete n inc) = {p \<in> set inc. fst p \<noteq> n}" by (auto simp: AList.delete_eq)
  have u: "e' = e" if "(n, e') \<in> set inc" for e' using that assms by (metis map_of_is_SomeI option.inject)
  show "set (value_operands (Phi (AList.delete n inc) idx)) =
      set (value_operands (Phi inc idx)) - {(pi_value e, PhiIncomingVal n)}"
    by (rule set_eq_pairI, simp only: phi_value_operand Diff_iff s) (use u in fastforce)
  show "set (block_operands (Phi (AList.delete n inc) idx)) =
      set (block_operands (Phi inc idx)) - {(pi_block e, PhiIncomingBlock n)}"
    by (rule set_eq_pairI, simp only: phi_block_operand Diff_iff s) (use u in fastforce)
qed

text \<open>One instruction changes its kind; its operands change by the given links.\<close>

lemma links_kind_upd:
  assumes a: "attached M i" and k: "kind_at M i = Some k"
    and K: "kind_at M' = (kind_at M)(i \<mapsto> k')" and P: "parent_at M' = parent_at M"
  shows "value_links M' = value_links M - kind_values i k \<union> kind_values i k'"
    "block_links M' = block_links M - kind_blocks i k \<union> kind_blocks i k'"
proof -
  have e: "attached M' j = attached M j" for j by (simp add: attached_def P)
  show "value_links M' = value_links M - kind_values i k \<union> kind_values i k'"
    by (rule value_rel_eqI) (use k in \<open>auto simp: value_links_iff e K a\<close>)
  show "block_links M' = block_links M - kind_blocks i k \<union> kind_blocks i k'"
    by (rule block_rel_eqI) (use k in \<open>auto simp: block_links_iff e K a\<close>)
qed

lemma phi_add_incoming_inv:
  assumes inv: "module_inv_but S M" and r: "phi_add_incoming phi b v M = Some M'" and a: "attached M phi"
  shows "module_inv_but S M'"
proof -
  from r obtain D where bf: "ir_func phi = br_func b" and D: "inst_at M phi = Some D"
    and c: "(case id_kind D of
        Phi inc idx \<Rightarrow> do {
          M1 \<leftarrow> with_inst phi (\<lambda>D. D\<lparr>id_kind := Phi (AList.update idx (PhiIncoming (br_block b) v) inc) (idx + 1)\<rparr>) M;
          M2 \<leftarrow> with_value_uses v (\<lambda>us. us @ [Use phi (PhiIncomingVal idx)]) M1;
          with_block_uses b (\<lambda>us. us @ [BlockUse phi (PhiIncomingBlock idx)]) M2
        }
      | _ \<Rightarrow> None) = Some M'"
    by (auto simp: phi_add_incoming_def bind_eq_Some_conv)
  then obtain inc idx where k0: "id_kind D = Phi inc idx" by (cases "id_kind D") auto
  let ?k' = "Phi (AList.update idx (PhiIncoming (br_block b) v) inc) (Suc idx)"
  from c k0 obtain M1 M2 where M1: "with_inst phi (\<lambda>D. D\<lparr>id_kind := ?k'\<rparr>) M = Some M1"
    and M2: "with_value_uses v (\<lambda>us. us @ [Use phi (PhiIncomingVal idx)]) M1 = Some M2"
    and M': "with_block_uses b (\<lambda>us. us @ [BlockUse phi (PhiIncomingBlock idx)]) M2 = Some M'"
    by (auto simp: bind_eq_Some_conv)
  from inv have i: "use_inv M" "kinds_inv M" "place_inv M" "order_inv S M" by (simp_all add: module_inv_def)
  have k: "kind_at M phi = Some (Phi inc idx)" using D k0 by (simp add: kind_at_def)
  with i(2) have ok: "kind_ok (Phi inc idx)" by (simp add: kinds_inv_def)
  note ph = phi_values_add [OF ok]
  note v1 = with_inst_kind_views [OF M1]
  have m: "mirrors (value_uses M1) (value_links M)" "mirrors (block_uses M1) (block_links M)"
    using i(1) v1 by (simp_all add: use_inv_def)
  have nv: "(v, Use phi (PhiIncomingVal idx)) \<notin> value_links M"
    using ph(4) k by (simp add: value_links_iff)
  have nb: "(b, BlockUse phi (PhiIncomingBlock idx)) \<notin> block_links M"
    using ph(5) k by (simp add: block_links_iff)
  from vu.modify_push [OF M2 m(1) nv] have m2: "mirrors (value_uses M2) (insert (v, Use phi (PhiIncomingVal idx)) (value_links M))"
    and f2: "value_frame M1 M2" by auto
  have "mirrors (block_uses M2) (block_links M)" using m(2) f2 by (simp add: value_frame_def)
  from bu.modify_push [OF M' this nb] have m3: "mirrors (block_uses M') (insert (b, BlockUse phi (PhiIncomingBlock idx)) (block_links M))"
    and f3: "block_frame M2 M'" by auto
  have s: "same_views M1 M'" "value_uses M' = value_uses M2"
    using f2 f3 same_views_trans by (auto simp: value_frame_def block_frame_def)
  have K: "kind_at M' = (kind_at M)(phi \<mapsto> ?k')" and P: "parent_at M' = parent_at M"
    and L: "lists_at M' = lists_at M" and O1: "order_at M' = order_at M"
    using s v1 by (simp_all add: same_views_def)
  have o: "only_kinds M M'"
    by (rule only_kinds_upd [OF K k _ _ P L O1]) (simp_all add: is_phi_def kind_is_terminator_def)
  note lk = links_kind_upd [OF a k K P]
  have "value_links M' = insert (v, Use phi (PhiIncomingVal idx)) (value_links M)"
    unfolding lk(1) by (rule value_rel_eqI) (use a k in \<open>auto simp: value_links_iff ph(1) simp del: value_operands.simps\<close>)
  moreover have "block_links M' = insert (b, BlockUse phi (PhiIncomingBlock idx)) (block_links M)"
    unfolding lk(2) by (rule block_rel_eqI) (use a k bf in \<open>auto simp: block_links_iff ph(2) block_ref.expand simp del: block_operands.simps\<close>)
  ultimately have "use_inv M'" using m2 m3 s by (simp add: use_inv_def)
  moreover have "kinds_inv M'" using i(2) ph(3) by (auto simp: kinds_inv_def K)
  ultimately show ?thesis using only_kinds_inv [OF o] i by (simp add: module_inv_def)
qed

lemma phi_remove_law:
  assumes inv: "use_inv M" "kinds_inv M" and a: "attached M phi"
    and k: "kind_at M phi = Some (Phi inc idx)" and e: "map_of inc n = Some e"
  shows "\<exists>M'. phi_remove_incoming_from phi n M = Some M' \<and> use_inv M' \<and> kinds_inv M' \<and> only_kinds M M' \<and>
    value_links M' = value_links M - {(pi_value e, Use phi (PhiIncomingVal n))} \<and>
    block_links M' = block_links M - {(BlockRef (ir_func phi) (pi_block e), BlockUse phi (PhiIncomingBlock n))} \<and>
    dom (block_uses M') = dom (block_uses M)"
proof -
  from k inv(2) have ok: "kind_ok (Phi inc idx)" by (auto simp: kinds_inv_def)
  then have dist: "distinct (map fst inc)" by (simp add: kind_ok_def)
  note ph = phi_values_delete [OF e dist]
  let ?k' = "Phi (AList.delete n inc) idx"
  have ok': "kind_ok ?k'"
    using ok by (auto simp: kind_ok_def AList.delete_eq distinct_map_filter)
  from e have mem: "(n, e) \<in> set inc" by (rule map_of_SomeD)
  from k obtain D where D: "inst_at M phi = Some D" "id_kind D = Phi inc idx" by (auto simp: kind_at_def)
  then obtain M1 where M1: "with_inst phi (\<lambda>D. D\<lparr>id_kind := ?k'\<rparr>) M = Some M1" using with_inst_live by blast
  note v1 = with_inst_kind_views [OF M1]
  have m: "mirrors (value_uses M1) (value_links M)" "mirrors (block_uses M1) (block_links M)"
    using inv(1) v1 by (simp_all add: use_inv_def)
  have vl: "(pi_value e, Use phi (PhiIncomingVal n)) \<in> value_links M"
    unfolding value_links_iff k using a mem phi_value_operand by blast
  have bl: "(BlockRef (ir_func phi) (pi_block e), BlockUse phi (PhiIncomingBlock n)) \<in> block_links M"
    unfolding block_links_iff k using a mem phi_block_operand by auto
  from vl m(1) have "value_uses M1 (pi_value e) \<noteq> None" by (auto simp: mirrors_def)
  then obtain M2 where M2: "with_value_uses (pi_value e)
      (filter (\<lambda>u. \<not> (use_user u = phi \<and> use_slot u = PhiIncomingVal n))) M1 = Some M2"
    using with_value_uses_live by blast
  have u: "\<not> (use_user w = phi \<and> use_slot w = PhiIncomingVal n) \<longleftrightarrow> w \<noteq> Use phi (PhiIncomingVal n)" for w
    by (cases w) auto
  from vu.modify_filter [OF M2 m(1) u]
  have m2: "mirrors (value_uses M2) (value_links M - {(pi_value e, Use phi (PhiIncomingVal n))})"
    and f2: "value_frame M1 M2" by auto
  have mb: "mirrors (block_uses M2) (block_links M)" using m(2) f2 by (simp add: value_frame_def)
  with bl have "block_uses M2 (BlockRef (ir_func phi) (pi_block e)) \<noteq> None" by (auto simp: mirrors_def)
  then obtain M3 where M3: "with_block_uses (BlockRef (ir_func phi) (pi_block e))
      (filter (\<lambda>u. \<not> (bu_user u = phi \<and> bu_slot u = PhiIncomingBlock n))) M2 = Some M3"
    using with_block_uses_live by blast
  have ub: "\<not> (bu_user w = phi \<and> bu_slot w = PhiIncomingBlock n) \<longleftrightarrow> w \<noteq> BlockUse phi (PhiIncomingBlock n)" for w
    by (cases w) auto
  from bu.modify_filter [OF M3 mb ub] have
    m3: "mirrors (block_uses M3) (block_links M - {(BlockRef (ir_func phi) (pi_block e), BlockUse phi (PhiIncomingBlock n))})"
    and f3: "block_frame M2 M3" by auto
  have s: "same_views M1 M3" "value_uses M3 = value_uses M2"
    using f2 f3 same_views_trans by (auto simp: value_frame_def block_frame_def)
  have K: "kind_at M3 = (kind_at M)(phi \<mapsto> ?k')" and P: "parent_at M3 = parent_at M"
    and L: "lists_at M3 = lists_at M" and O1: "order_at M3 = order_at M"
    using s v1 by (simp_all add: same_views_def)
  have o: "only_kinds M M3"
    by (rule only_kinds_upd [OF K k _ _ P L O1]) (simp_all add: is_phi_def kind_is_terminator_def)
  note lk = links_kind_upd [OF a k K P]
  have V: "value_links M3 = value_links M - {(pi_value e, Use phi (PhiIncomingVal n))}"
    unfolding lk(1) by (rule value_rel_eqI) (use a k in \<open>auto simp: value_links_iff ph(1) simp del: value_operands.simps\<close>)
  have B: "block_links M3 = block_links M - {(BlockRef (ir_func phi) (pi_block e), BlockUse phi (PhiIncomingBlock n))}"
    unfolding lk(2)
  proof (rule block_rel_eqI)
    fix b i s
    show "(b, BlockUse i s) \<in> block_links M - kind_blocks phi (Phi inc idx) \<union> kind_blocks phi ?k' \<longleftrightarrow>
      (b, BlockUse i s) \<in> block_links M - {(BlockRef (ir_func phi) (pi_block e), BlockUse phi (PhiIncomingBlock n))}"
      using a k by (cases b) (auto simp: block_links_iff ph(2) simp del: block_operands.simps)
  qed
  have "use_inv M3" using m2 m3 s V B by (simp add: use_inv_def)
  moreover have "kinds_inv M3" using inv(2) ok' by (auto simp: kinds_inv_def K)
  moreover have "phi_remove_incoming_from phi n M = Some M3"
    using M2 M3 by (simp add: phi_remove_incoming_from_def D e M1)
  moreover have "dom (block_uses M3) = dom (block_uses M)"
    using bu.dom_modify [OF M3] f2 v1 by (simp add: value_frame_def)
  ultimately show ?thesis using o V B by blast
qed

lemma phi_remove_incoming_inv:
  assumes inv: "module_inv_but S M" and r: "phi_remove_incoming_from phi n M = Some M'" and a: "attached M phi"
  shows "module_inv_but S M'"
proof -
  from r obtain D where D: "inst_at M phi = Some D"
    and c: "(case id_kind D of
        Phi inc idx \<Rightarrow> do {
          e \<leftarrow> map_of inc n;
          M1 \<leftarrow> with_inst phi (\<lambda>D. D\<lparr>id_kind := Phi (AList.delete n inc) idx\<rparr>) M;
          M2 \<leftarrow> with_value_uses (pi_value e)
                  (filter (\<lambda>u. \<not> (use_user u = phi \<and> use_slot u = PhiIncomingVal n))) M1;
          with_block_uses (BlockRef (ir_func phi) (pi_block e))
            (filter (\<lambda>u. \<not> (bu_user u = phi \<and> bu_slot u = PhiIncomingBlock n))) M2
        }
      | _ \<Rightarrow> None) = Some M'"
    by (auto simp: phi_remove_incoming_from_def bind_eq_Some_conv)
  then obtain inc idx where k0: "id_kind D = Phi inc idx" by (cases "id_kind D") auto
  with c obtain e where e: "map_of inc n = Some e" by (auto simp: bind_eq_Some_conv)
  have k: "kind_at M phi = Some (Phi inc idx)" using D k0 by (simp add: kind_at_def)
  from inv have i: "use_inv M" "kinds_inv M" "place_inv M" "order_inv S M" by (simp_all add: module_inv_def)
  from phi_remove_law [OF i(1,2) a k e] r only_kinds_inv i show ?thesis by (auto simp: module_inv_def)
qed

lemma replace_block_operand_inv:
  assumes inv: "module_inv_but S M" and r: "replace_block_operand i slot b M = Some M'" and a: "attached M i"
  shows "module_inv_but S M'"
proof -
  from r obtain D old k' M1 M2 where bf: "ir_func i = br_func b" and D: "inst_at M i = Some D"
    and k': "replace_kind_block (id_kind D) slot (br_block b) = Some (old, k')"
    and M1: "with_inst i (\<lambda>D. D\<lparr>id_kind := k'\<rparr>) M = Some M1"
    and M2: "with_block_uses (BlockRef (ir_func i) old)
       (filter (\<lambda>u. \<not> (bu_user u = i \<and> bu_slot u = slot))) M1 = Some M2"
    and M': "with_block_uses b (\<lambda>us. us @ [BlockUse i slot]) M2 = Some M'"
    by (auto simp: replace_block_operand_def bind_eq_Some_conv)
  let ?k = "id_kind D"
  have k: "kind_at M i = Some ?k" using D by (simp add: kind_at_def)
  from inv have i: "use_inv M" "kinds_inv M" "place_inv M" "order_inv S M" by (simp_all add: module_inv_def)
  with k have ok: "kind_ok ?k" by (auto simp: kinds_inv_def)
  note law = replace_block_law [OF k' ok]
  note v1 = with_inst_kind_views [OF M1]
  have m: "mirrors (block_uses M1) (block_links M)" "mirrors (value_uses M1) (value_links M)"
    using i(1) v1 by (simp_all add: use_inv_def)
  have u: "\<not> (bu_user w = i \<and> bu_slot w = slot) \<longleftrightarrow> w \<noteq> BlockUse i slot" for w by (cases w) auto
  from bu.modify_filter [OF M2 m(1) u]
  have m2: "mirrors (block_uses M2) (block_links M - {(BlockRef (ir_func i) old, BlockUse i slot)})"
    and f2: "block_frame M1 M2" by auto
  have old: "br_block c = old" if "(c, BlockUse i slot) \<in> block_links M" for c
    using that k law block_slot_unique [OF ok] by (auto simp: block_links_iff)
  have nl: "(b, BlockUse i slot) \<notin> block_links M - {(BlockRef (ir_func i) old, BlockUse i slot)}"
    using old [of b] bf by (cases b) auto
  from bu.modify_push [OF M' m2 nl]
  have m3: "mirrors (block_uses M') (insert (b, BlockUse i slot) (block_links M - {(BlockRef (ir_func i) old, BlockUse i slot)}))"
    and f3: "block_frame M2 M'" by auto
  have s: "same_views M1 M'" "value_uses M' = value_uses M1"
    using f2 f3 same_views_trans by (auto simp: block_frame_def)
  have K: "kind_at M' = (kind_at M)(i \<mapsto> k')" and P: "parent_at M' = parent_at M"
    and L: "lists_at M' = lists_at M" and O1: "order_at M' = order_at M"
    using s v1 by (simp_all add: same_views_def)
  have o: "only_kinds M M'"
    by (rule only_kinds_upd [OF K k _ _ P L O1]) (use law in simp_all)
  note lk = links_kind_upd [OF a k K P]
  have V: "value_links M' = value_links M"
    unfolding lk(1) by (rule value_rel_eqI) (use a k law in \<open>auto simp: value_links_iff\<close>)
  have B: "block_links M' = insert (b, BlockUse i slot) (block_links M - {(BlockRef (ir_func i) old, BlockUse i slot)})"
    unfolding lk(2)
  proof (rule block_rel_eqI)
    fix c j s
    show "(c, BlockUse j s) \<in> block_links M - kind_blocks i ?k \<union> kind_blocks i k' \<longleftrightarrow>
      (c, BlockUse j s) \<in> insert (b, BlockUse i slot) (block_links M - {(BlockRef (ir_func i) old, BlockUse i slot)})"
    proof (cases "j = i \<and> s = slot")
      case True
      have "(c, BlockUse i slot) \<in> kind_blocks i k' \<longleftrightarrow> c = b"
        using law bf by (cases c; cases b) (auto simp: slot_set_def)
      moreover have "(c, BlockUse i slot) \<in> block_links M \<Longrightarrow> c = BlockRef (ir_func i) old"
        using old [of c] by (cases c) (auto simp: block_links_iff)
      moreover have "(c, BlockUse i slot) \<in> block_links M \<Longrightarrow> (c, BlockUse i slot) \<in> kind_blocks i ?k"
        using k by (auto simp: block_links_iff)
      ultimately show ?thesis using True by blast
    next
      case False
      then show ?thesis using a k law by (auto simp: block_links_iff slot_set_def)
    qed
  qed
  have "use_inv M'" using m(2) m3 s V B by (simp add: use_inv_def)
  moreover have "kinds_inv M'" using i(2) law by (auto simp: kinds_inv_def K)
  ultimately show ?thesis using only_kinds_inv [OF o] i by (simp add: module_inv_def)
qed

lemma replace_block_operand_parents:
  assumes "replace_block_operand i slot b M = Some M'"
  shows "parent_at M' = parent_at M"
proof -
  from assms obtain D old k' M1 M2 where "ir_func i = br_func b" "inst_at M i = Some D"
    "replace_kind_block (id_kind D) slot (br_block b) = Some (old, k')"
    and M1: "with_inst i (\<lambda>D. D\<lparr>id_kind := k'\<rparr>) M = Some M1"
    and M2: "with_block_uses (BlockRef (ir_func i) old)
       (filter (\<lambda>u. \<not> (bu_user u = i \<and> bu_slot u = slot))) M1 = Some M2"
    and M': "with_block_uses b (\<lambda>us. us @ [BlockUse i slot]) M2 = Some M'"
    by (auto simp: replace_block_operand_def bind_eq_Some_conv)
  from with_inst_kind_views(3) [OF M1] with_block_uses_views(4) [OF M2] with_block_uses_views(4) [OF M']
  show ?thesis by (simp add: same_views_def)
qed

lemma replace_block_fold_inv:
  assumes "module_inv_but S M" "fold_opt (\<lambda>u. replace_block_operand (bu_user u) (bu_slot u) new) us M = Some M'"
    and "\<forall>u \<in> set us. attached M (bu_user u)"
  shows "module_inv_but S M'"
  using assms
proof (induction us arbitrary: M)
  case Nil
  then show ?case by simp
next
  case (Cons u us)
  from Cons.prems(2) obtain M1 where M1: "replace_block_operand (bu_user u) (bu_slot u) new M = Some M1"
    and r: "fold_opt (\<lambda>u. replace_block_operand (bu_user u) (bu_slot u) new) us M1 = Some M'"
    by (auto simp: bind_eq_Some_conv)
  have inv1: "module_inv_but S M1"
    using replace_block_operand_inv [OF Cons.prems(1) M1] Cons.prems(3) by simp
  have "\<forall>u \<in> set us. attached M1 (bu_user u)" using Cons.prems(3) replace_block_operand_parents [OF M1]
    by (simp add: attached_def)
  from Cons.IH [OF inv1 r this] show ?case .
qed

lemma replace_all_block_uses_inv:
  assumes inv: "module_inv_but S M" and r: "replace_all_block_uses_with old new M = Some M'"
  shows "module_inv_but S M'"
proof -
  from r obtain us where us: "block_uses M old = Some us"
    and f: "fold_opt (\<lambda>u. replace_block_operand (bu_user u) (bu_slot u) new) us M = Some M'"
    by (auto simp: replace_all_block_uses_with_def bind_eq_Some_conv)
  have "attached M (bu_user u)" if "u \<in> set us" for u
  proof -
    from inv have "mirrors (block_uses M) (block_links M)" by (simp add: module_inv_def use_inv_def)
    from mirrors_mem [OF this us, of u] that have "(old, u) \<in> block_links M" by simp
    then show ?thesis by (cases u) (simp add: block_links_iff)
  qed
  with replace_block_fold_inv [OF inv f] show ?thesis by blast
qed

section \<open>Erasing with uses\<close>

lemma const_dom: "c \<in> dom (const_map M) \<longleftrightarrow> VConst c \<in> dom (value_uses M)"
  by (auto simp: value_uses_def)

lemma const_dom_cong: "dom (value_uses M') = dom (value_uses M) \<Longrightarrow> dom (const_map M') = dom (const_map M)"
  using const_dom by blast

lemma only_kinds_live: "only_kinds M M' \<Longrightarrow> inst_at M i \<noteq> None \<longleftrightarrow> inst_at M' i \<noteq> None"
  by (cases "inst_at M i"; cases "inst_at M' i")
    (auto simp: only_kinds_def kind_at_def dest!: spec [of _ i])

text \<open>The choice of keys: for a slot map, which is finite, an unused one.\<close>

definition fresh_key :: "((const_id \<rightharpoonup> const_data) \<Rightarrow> const_id) \<Rightarrow> bool" where
  "fresh_key fresh \<longleftrightarrow> (\<forall>m. finite (dom m) \<longrightarrow> m (fresh m) = None)"

definition undef_use ::
  "((const_id \<rightharpoonup> const_data) \<Rightarrow> const_id) \<Rightarrow> inst_ref \<Rightarrow> ir_use \<Rightarrow> module_core \<Rightarrow> module_core option" where
  "undef_use fresh i u M = do {
     ty \<leftarrow> value_ty M (VInst i);
     let c = fresh (const_map M);
     replace_inst_operand (use_user u) (use_slot u) (VConst c) (add_undef_const c ty M)
   }"

text \<open>The loop that gives every reader of the instruction an undefined constant.\<close>

lemma undef_use_step:
  assumes inv: "module_inv_but S M" and fresh: "fresh_key fresh" and fin: "finite (dom (const_map M))"
    and l: "(VInst i, u) \<in> value_links M" and live: "inst_at M i \<noteq> None"
  shows "\<exists>M'. undef_use fresh i u M = Some M' \<and> module_inv_but S M' \<and> only_kinds M M' \<and> finite (dom (const_map M')) \<and>
     (\<forall>w. (VInst i, w) \<in> value_links M' \<longleftrightarrow> (VInst i, w) \<in> value_links M \<and> w \<noteq> u) \<and>
     block_links M' = block_links M"
proof -
  define c where "c = fresh (const_map M)"
  from fresh fin have c: "const_map M c = None" by (simp add: fresh_key_def c_def)
  from live obtain ty where ty: "value_ty M (VInst i) = Some ty" by (auto simp: value_ty_def)
  let ?M0 = "add_undef_const c ty M"
  have v: "same_views M ?M0" "value_uses ?M0 = (value_uses M)(VConst c \<mapsto> [])"
    using add_const_views [OF c] by (simp_all add: add_undef_const_def)
  have inv0: "module_inv_but S ?M0" unfolding add_undef_const_def by (rule add_const_inv [OF inv c])
  note lk0 = same_views_inv [OF v(1)]
  obtain j s where u: "u = Use j s" by (cases u)
  have l0: "(VInst i, Use j s) \<in> value_links ?M0" using l u lk0 by simp
  have n0: "value_uses ?M0 (VConst c) \<noteq> None" by (simp add: v)
  from inv0 have i0: "use_inv ?M0" "kinds_inv ?M0" "place_inv ?M0" "order_inv S ?M0" by (simp_all add: module_inv_def)
  from replace_operand_step [OF i0(1,2) l0 n0] obtain M' where
    M': "replace_inst_operand j s (VConst c) ?M0 = Some M'" "use_inv M'" "kinds_inv M'" "only_kinds ?M0 M'"
    and vl: "value_links M' = insert (VConst c, Use j s) (value_links ?M0 - {(VInst i, Use j s)})"
    and bl: "block_links M' = block_links ?M0" and d: "dom (value_uses M') = dom (value_uses ?M0)" by blast
  have "undef_use fresh i u M = Some M'" using M'(1) by (simp add: undef_use_def ty c_def [symmetric] u)
  moreover have "module_inv_but S M'" using M' only_kinds_inv [OF M'(4)] i0 by (simp add: module_inv_def)
  moreover have "only_kinds M M'" using only_kinds_same [OF v(1)] M'(4) by (rule only_kinds_trans)
  moreover have "dom (const_map M') = insert c (dom (const_map M))"
    using const_dom_cong [OF d] by (simp add: add_undef_const_def add_const_def)
  ultimately show ?thesis using fin vl lk0 bl u by auto
qed

lemma undef_fold:
  assumes "module_inv_but S M" "fresh_key fresh" "finite (dom (const_map M))"
    and "distinct us" "\<forall>u \<in> set us. (VInst i, u) \<in> value_links M" and "inst_at M i \<noteq> None"
  shows "\<exists>M'. fold_opt (undef_use fresh i) us M = Some M' \<and> module_inv_but S M' \<and> only_kinds M M' \<and>
     finite (dom (const_map M')) \<and>
     (\<forall>u. (VInst i, u) \<in> value_links M' \<longleftrightarrow> (VInst i, u) \<in> value_links M \<and> u \<notin> set us) \<and>
     block_links M' = block_links M"
  using assms
proof (induction us arbitrary: M)
  case Nil
  then show ?case by simp
next
  case (Cons u us)
  from Cons.prems(5) have l: "(VInst i, u) \<in> value_links M" by simp
  from undef_use_step [OF Cons.prems(1,2,3) l Cons.prems(6)] obtain M1 where
    M1: "undef_use fresh i u M = Some M1" "module_inv_but S M1" "only_kinds M M1" "finite (dom (const_map M1))"
    and vl: "\<And>w. (VInst i, w) \<in> value_links M1 \<longleftrightarrow> (VInst i, w) \<in> value_links M \<and> w \<noteq> u"
    and bl: "block_links M1 = block_links M" by blast
  have us1: "\<forall>w \<in> set us. (VInst i, w) \<in> value_links M1" using Cons.prems(4,5) by (auto simp: vl)
  have live1: "inst_at M1 i \<noteq> None" using Cons.prems(6) only_kinds_live [OF M1(3)] by blast
  from Cons.IH [OF M1(2) Cons.prems(2) M1(4) _ us1 live1] Cons.prems(4) obtain M' where
    M': "fold_opt (undef_use fresh i) us M1 = Some M'" "module_inv_but S M'" "only_kinds M1 M'"
      "finite (dom (const_map M'))" "block_links M' = block_links M1"
    and vl': "\<And>w. (VInst i, w) \<in> value_links M' \<longleftrightarrow> (VInst i, w) \<in> value_links M1 \<and> w \<notin> set us"
    by auto
  then show ?case using M1 bl only_kinds_trans [OF M1(3)] vl by auto
qed

lemma erase_forcely_alt:
  "erase_inst_from_parent_forcely fresh i M = do {
     us \<leftarrow> value_uses M (VInst i);
     M1 \<leftarrow> fold_opt (undef_use fresh i) us M;
     erase_inst_from_parent i M1
   }"
  by (simp add: erase_inst_from_parent_forcely_def undef_use_def [abs_def])

lemma fold_opt_keeps:
  assumes "fold_opt f xs st = Some st'" "P st"
    and "\<And>x st st'. x \<in> set xs \<Longrightarrow> f x st = Some st' \<Longrightarrow> P st \<Longrightarrow> P st'"
  shows "P st'"
  using assms by (induction xs arbitrary: st) (auto simp: bind_eq_Some_conv)

lemma const_dom_value: "with_value_uses v g M = Some M' \<Longrightarrow> dom (const_map M') = dom (const_map M)"
  by (rule const_dom_cong) (rule vu.dom_modify)

lemma const_dom_block: "with_block_uses b g M = Some M' \<Longrightarrow> dom (const_map M') = dom (const_map M)"
  using with_block_uses_views(3) const_dom_cong by metis

lemma const_dom_unregister:
  assumes "unregister_inst_use i M = Some M'"
  shows "dom (const_map M') = dom (const_map M)"
proof -
  from assms obtain D M1 where "inst_at M i = Some D" and
    M1: "fold_opt (\<lambda>(v, s). with_value_uses v (remove1 (Use i s))) (value_operands (id_kind D)) M = Some M1"
    and M': "fold_opt (\<lambda>(b, s). with_block_uses (BlockRef (ir_func i) b) (remove1 (BlockUse i s)))
       (block_operands (id_kind D)) M1 = Some M'"
    unfolding unregister_inst_use_def bind_eq_Some_conv by blast
  have "dom (const_map M1) = dom (const_map M)"
    by (rule fold_opt_keeps [OF M1, where P = "\<lambda>M1. dom (const_map M1) = dom (const_map M)"])
      (rule refl, metis (no_types, lifting) case_prod_beta' const_dom_value)
  moreover have "dom (const_map M') = dom (const_map M1)"
    by (rule fold_opt_keeps [OF M', where P = "\<lambda>M'. dom (const_map M') = dom (const_map M1)"])
      (rule refl, metis (no_types, lifting) case_prod_beta' const_dom_block)
  ultimately show ?thesis by simp
qed

lemma const_dom_detach:
  assumes "detach_inst i M = Some M'"
  shows "dom (const_map M') = dom (const_map M)"
proof -
  from assms obtain M1 D1 where M1: "unregister_inst_use i M = Some M1" and D1: "inst_at M1 i = Some D1"
      and c: "(case id_parent D1 of
        None \<Rightarrow> Some M1
      | Some p \<Rightarrow> do {
          pos \<leftarrow> locate_inst i M1;
          M2 \<leftarrow> (case pos of
             InstPos n \<Rightarrow> with_block p (\<lambda>B. B\<lparr>bd_insts := remove_nth n (bd_insts B)\<rparr>) M1
           | PhiPos n \<Rightarrow> with_block p (\<lambda>B. B\<lparr>bd_phis := remove_nth n (bd_phis B)\<rparr>) M1
           | TerminatorPos \<Rightarrow> with_block p (\<lambda>B. B\<lparr>bd_terminator := None\<rparr>) M1);
          with_inst i (\<lambda>D. D\<lparr>id_parent := None\<rparr>) M2
        }) = Some M'"
    unfolding detach_inst_def bind_eq_Some_conv by blast
  have "const_map M' = const_map M1"
  proof (cases "id_parent D1")
    case None
    with c show ?thesis by simp
  next
    case (Some p)
    with c obtain pos M2 where M2: "(case pos of
             InstPos n \<Rightarrow> with_block p (\<lambda>B. B\<lparr>bd_insts := remove_nth n (bd_insts B)\<rparr>) M1
           | PhiPos n \<Rightarrow> with_block p (\<lambda>B. B\<lparr>bd_phis := remove_nth n (bd_phis B)\<rparr>) M1
           | TerminatorPos \<Rightarrow> with_block p (\<lambda>B. B\<lparr>bd_terminator := None\<rparr>) M1) = Some M2"
      and M': "with_inst i (\<lambda>D. D\<lparr>id_parent := None\<rparr>) M2 = Some M'"
      by (auto simp: bind_eq_Some_conv)
    from M2 have "const_map M2 = const_map M1" by (cases pos) (auto dest: with_block_maps(6))
    with with_inst_maps(6) [OF M'] show ?thesis by simp
  qed
  with const_dom_unregister [OF M1] show ?thesis by simp
qed

lemma erase_inst_views:
  assumes inv: "module_inv_but S M" and r: "erase_inst_from_parent i M = Some M'"
    and p: "parent_at M i = Some (Some p)"
  shows "lists_at M' = (lists_at M)(p := map_option (lists_minus (ir_inst i)) (lists_at M p))"
    "order_at M' = order_at M" "dom (const_map M') = dom (const_map M)"
    "kind_at M' = (kind_at M)(i := None)" "parent_at M' = (parent_at M)(i := None)"
    "block_links M' \<subseteq> block_links M"
proof -
  from r obtain M1 where u: "value_uses M (VInst i) = Some []" and M1: "detach_inst i M = Some M1"
    and M': "remove_inst i M1 = Some M'"
    by (auto simp: erase_inst_from_parent_def bind_eq_Some_conv)
  from p obtain k where k: "kind_at M i = Some k" by (auto simp: parent_at_def kind_at_def)
  note d = detach_views [OF inv M1 k p] and v = remove_inst_views [OF M']
  show "lists_at M' = (lists_at M)(p := map_option (lists_minus (ir_inst i)) (lists_at M p))"
    "order_at M' = order_at M"
    "kind_at M' = (kind_at M)(i := None)" "parent_at M' = (parent_at M)(i := None)"
    using d v by simp_all
  have "const_map M' = const_map M1" using M' by (auto simp: remove_inst_def elim: with_funcE)
  with const_dom_detach [OF M1] show "dom (const_map M') = dom (const_map M)" by simp
  have a: "attached M' j = attached M1 j" "attached M1 j \<Longrightarrow> j \<noteq> i" for j
    using d(2) by (auto simp: attached_def v)
  have "block_links M' = block_links M1"
    by (rule value_links_cong(2)) (use a in \<open>auto simp: v\<close>)
  with links_detach(2) [OF k d(1,2)] show "block_links M' \<subseteq> block_links M" by auto
qed

text \<open>Forced erasure of an attached instruction never panics and keeps the invariant.\<close>

lemma erase_forcely_law:
  assumes inv: "module_inv_but S M" and fresh: "fresh_key fresh" and fin: "finite (dom (const_map M))"
    and p: "parent_at M i = Some (Some p)"
    and r: "erase_inst_from_parent_forcely fresh i M = Some M'"
  shows "module_inv_but S M'" "finite (dom (const_map M'))" "order_at M' = order_at M"
    "lists_at M' = (lists_at M)(p := map_option (lists_minus (ir_inst i)) (lists_at M p))"
    "parent_at M' = (parent_at M)(i := None)"
proof -
  from r obtain us M1 where us: "value_uses M (VInst i) = Some us"
    and M1: "fold_opt (undef_use fresh i) us M = Some M1" and M': "erase_inst_from_parent i M1 = Some M'"
    by (auto simp: erase_forcely_alt bind_eq_Some_conv)
  from inv us have d: "distinct us" and s: "set us = {u. (VInst i, u) \<in> value_links M}"
    by (auto simp: module_inv_def use_inv_def mirrors_def)
  from p have live: "inst_at M i \<noteq> None" by (auto simp: parent_at_def)
  have mem: "\<forall>u \<in> set us. (VInst i, u) \<in> value_links M" using s by simp
  from undef_fold [OF inv fresh fin d mem live] M1 have
    f: "module_inv_but S M1" "only_kinds M M1" "finite (dom (const_map M1))" by auto
  then have p1: "parent_at M1 i = Some (Some p)" using p by (simp add: only_kinds_def)
  note e = erase_inst_views [OF f(1) M' p1]
  show "module_inv_but S M'" by (rule erase_inst_inv(1) [OF f(1) M'])
  show "finite (dom (const_map M'))" using e(3) f(3) by simp
  show "order_at M' = order_at M"
    "lists_at M' = (lists_at M)(p := map_option (lists_minus (ir_inst i)) (lists_at M p))"
    "parent_at M' = (parent_at M)(i := None)"
    using e f(2) by (simp_all add: only_kinds_def)
qed

section \<open>Erasing blocks\<close>

fun lists_without :: "inst_id set \<Rightarrow> inst_lists \<Rightarrow> inst_lists" where
  "lists_without J (Lists ps xs t) =
     Lists (filter (\<lambda>j. j \<notin> J) ps) (filter (\<lambda>j. j \<notin> J) xs)
       (case t of None \<Rightarrow> None | Some j \<Rightarrow> if j \<in> J then None else Some j)"

lemma lists_without_empty [simp]: "lists_without {} L = L"
  by (cases L) (auto split: option.splits)

lemma lists_without_minus: "lists_without J (lists_minus j L) = lists_without (insert j J) L"
  by (cases L) (auto simp: removeAll_filter_not_eq filter_filter conj_commute split: option.splits
      intro!: filter_cong)

lemma erase_fold_law:
  assumes "module_inv_but S M" "fresh_key fresh" "finite (dom (const_map M))"
    and "distinct is'" "\<forall>i \<in> set is'. parent_at M i = Some (Some b)"
    and "fold_opt (erase_inst_from_parent_forcely fresh) is' M = Some M'"
  shows "module_inv_but S M' \<and> finite (dom (const_map M')) \<and> order_at M' = order_at M \<and>
    lists_at M' = (lists_at M)(b := map_option (lists_without (ir_inst ` set is')) (lists_at M b))"
  using assms
proof (induction is' arbitrary: M)
  case Nil
  then show ?case by (simp add: option.map_id0 [unfolded id_def] fun_upd_idem)
next
  case (Cons i is')
  from Cons.prems(6) obtain M1 where M1: "erase_inst_from_parent_forcely fresh i M = Some M1"
    and r: "fold_opt (erase_inst_from_parent_forcely fresh) is' M1 = Some M'"
    by (auto simp: bind_eq_Some_conv)
  from Cons.prems(5) have p: "parent_at M i = Some (Some b)" by simp
  note e = erase_forcely_law [OF Cons.prems(1,2,3) p M1]
  have "\<forall>j \<in> set is'. parent_at M1 j = Some (Some b)" using Cons.prems(4,5) by (auto simp: e(5))
  with Cons.IH [OF e(1) Cons.prems(2) e(2) _ _ r] Cons.prems(4) e(3,4) show ?case
    by (simp add: option.map_comp comp_def lists_without_minus fun_eq_iff)
qed

lemma erase_block_insts_law:
  assumes inv: "module_inv_but S M" and fr: "fresh_key fresh" and fin: "finite (dom (const_map M))"
    and r: "erase_block_insts fresh b M = Some M'"
  shows "module_inv_but S M' \<and> finite (dom (const_map M')) \<and> order_at M' = order_at M \<and>
    lists_at M' = (lists_at M)(b \<mapsto> Lists [] [] None) \<and> live_block M b"
proof -
  from r obtain ps M1 xs M2 t where ps: "phis_in_order M b = Some ps"
    and M1: "fold_opt (erase_inst_from_parent_forcely fresh) ps M = Some M1"
    and xs: "insts_in_order M1 b = Some xs"
    and M2: "fold_opt (erase_inst_from_parent_forcely fresh) xs M1 = Some M2"
    and t: "ir_terminator M2 b = Some t"
    and M': "(case t of None \<Rightarrow> Some M2 | Some i \<Rightarrow> erase_inst_from_parent_forcely fresh i M2) = Some M'"
    unfolding erase_block_insts_def bind_eq_Some_conv by blast
  have ii: "ir_inst ` InstRef f ` J = J" for f J by force
  from ps obtain B where B: "block_at M b = Some B" "ps = map (InstRef (br_func b)) (bd_phis B)"
    by (auto simp: phis_in_order_def)
  then have L: "lists_at M b = Some (Lists (bd_phis B) (bd_insts B) (bd_terminator B))"
    by (simp add: lists_at_def lists_of_def)
  from inv have "place_inv M" by (simp add: module_inv_def)
  from place_invD [OF this L] have ok: "block_ok M b (Lists (bd_phis B) (bd_insts B) (bd_terminator B))" .
  have "distinct ps" "\<forall>i \<in> set ps. parent_at M i = Some (Some b)"
    using ok by (auto simp: B(2) block_ok_def distinct_map inj_on_def)
  from erase_fold_law [OF inv fr fin this M1]
  have e1: "module_inv_but S M1" "finite (dom (const_map M1))" "order_at M1 = order_at M"
    and l1: "lists_at M1 = (lists_at M)(b := map_option (lists_without (set (bd_phis B))) (lists_at M b))"
    by (simp_all add: B(2) ii)
  have "lists_without (set (bd_phis B)) (Lists (bd_phis B) (bd_insts B) (bd_terminator B)) =
    Lists [] (bd_insts B) (bd_terminator B)"
    using ok by (auto simp: block_ok_def filter_id_conv split: option.splits)
  with l1 L have L1: "lists_at M1 b = Some (Lists [] (bd_insts B) (bd_terminator B))" by simp
  from e1(1) have "place_inv M1" by (simp add: module_inv_def)
  from place_invD [OF this L1] have ok1: "block_ok M1 b (Lists [] (bd_insts B) (bd_terminator B))" .
  from xs L1 have xs': "xs = map (InstRef (br_func b)) (bd_insts B)"
    by (auto simp: insts_in_order_def lists_at_def lists_of_def)
  have "distinct xs" "\<forall>i \<in> set xs. parent_at M1 i = Some (Some b)"
    using ok1 by (auto simp: xs' block_ok_def distinct_map inj_on_def)
  from erase_fold_law [OF e1(1) fr e1(2) this M2]
  have e2: "module_inv_but S M2" "finite (dom (const_map M2))" "order_at M2 = order_at M"
    and l2: "lists_at M2 = (lists_at M1)(b := map_option (lists_without (set (bd_insts B))) (lists_at M1 b))"
    using e1(3) by (simp_all add: xs' ii)
  have "lists_without (set (bd_insts B)) (Lists [] (bd_insts B) (bd_terminator B)) = Lists [] [] (bd_terminator B)"
    using ok1 by (auto simp: block_ok_def split: option.splits)
  with l2 L1 have L2: "lists_at M2 b = Some (Lists [] [] (bd_terminator B))" by simp
  from t L2 have t': "t = map_option (InstRef (br_func b)) (bd_terminator B)"
    by (auto simp: ir_terminator_def lists_at_def lists_of_def)
  have lb: "live_block M b" using L by (simp add: live_block_def)
  have base: "lists_at M2 = (lists_at M)(b \<mapsto> Lists [] [] (bd_terminator B))"
    using l1 l2 L1 L2 by (auto simp: fun_eq_iff)
  show ?thesis
  proof (cases "bd_terminator B")
    case None
    with M' t' e2 base lb show ?thesis by simp
  next
    case (Some j)
    with t' have tj: "t = Some (InstRef (br_func b) j)" by simp
    from e2(1) have "place_inv M2" by (simp add: module_inv_def)
    from place_invD [OF this L2] Some have p: "parent_at M2 (InstRef (br_func b) j) = Some (Some b)"
      by (auto simp: block_ok_def)
    from M' tj have f: "erase_inst_from_parent_forcely fresh (InstRef (br_func b) j) M2 = Some M'" by simp
    from erase_forcely_law [OF e2(1) fr e2(2) p f] e2(3) base Some lb show ?thesis by simp
  qed
qed

definition inv3 :: "module_core \<Rightarrow> bool" where
  "inv3 M \<longleftrightarrow> use_inv M \<and> kinds_inv M \<and> place_inv M"

lemma phi_block_slot:
  assumes "(b, PhiIncomingBlock n) \<in> set (block_operands k)"
  obtains inc idx e where "k = Phi inc idx" "(n, e) \<in> set inc" "pi_block e = b"
  using assms by (cases k rule: block_operands.cases) auto

definition drop_phi_use :: "block_use \<Rightarrow> module_core \<Rightarrow> module_core option" where
  "drop_phi_use u M = (case bu_slot u of
       PhiIncomingBlock n \<Rightarrow> phi_remove_incoming_from (bu_user u) n M
     | _ \<Rightarrow> None)"

lemma drop_phi_uses_law:
  assumes "inv3 M" "\<forall>u \<in> set us. (b, u) \<in> block_links M" "distinct us"
    and "fold_opt drop_phi_use us M = Some M'"
  shows "inv3 M' \<and> only_kinds M M' \<and> block_links M' = block_links M - {(b, u) | u. u \<in> set us} \<and>
    dom (block_uses M') = dom (block_uses M)"
  using assms
proof (induction us arbitrary: M)
  case Nil
  then show ?case by simp
next
  case (Cons u us)
  from Cons.prems(4) obtain M1 where M1: "drop_phi_use u M = Some M1" and r: "fold_opt drop_phi_use us M1 = Some M'"
    by (auto simp: bind_eq_Some_conv)
  from M1 obtain i n where u: "u = BlockUse i (PhiIncomingBlock n)"
    and p: "phi_remove_incoming_from i n M = Some M1"
    by (cases u) (auto simp: drop_phi_use_def split: block_operand_slot.splits)
  from Cons.prems(2) have "(b, BlockUse i (PhiIncomingBlock n)) \<in> block_links M" by (simp add: u)
  then obtain k where a: "attached M i" and bf: "br_func b = ir_func i" and k: "kind_at M i = Some k"
    and ks: "(br_block b, PhiIncomingBlock n) \<in> set (block_operands k)"
    by (auto simp: block_links_iff)
  from ks obtain inc idx e where k': "k = Phi inc idx" "(n, e) \<in> set inc" "pi_block e = br_block b"
    by (rule phi_block_slot)
  from Cons.prems(1) have i3: "use_inv M" "kinds_inv M" "place_inv M" by (simp_all add: inv3_def)
  from i3(2) k have "kind_ok k" by (auto simp: kinds_inv_def)
  then have "distinct (map fst inc)" using k' by (simp add: kind_ok_def)
  with k' have e: "map_of inc n = Some e" by simp
  have bb: "BlockRef (ir_func i) (pi_block e) = b" using bf k'(3) by (cases b) simp
  from phi_remove_law [OF i3(1,2) a k [unfolded k'] e] p bb
  have s: "use_inv M1" "kinds_inv M1" "only_kinds M M1" "block_links M1 = block_links M - {(b, u)}"
    "dom (block_uses M1) = dom (block_uses M)"
    by (auto simp: u)
  have "inv3 M1" using s only_kinds_inv(1) [OF s(3) i3(3)] by (simp add: inv3_def)
  moreover have "\<forall>w \<in> set us. (b, w) \<in> block_links M1" using Cons.prems(2,3) by (auto simp: s(4))
  ultimately have "inv3 M' \<and> only_kinds M1 M' \<and> block_links M' = block_links M1 - {(b, u) | u. u \<in> set us} \<and>
    dom (block_uses M') = dom (block_uses M1)"
    using Cons.IH r Cons.prems(3) by simp
  moreover have "block_links M1 - {(b, u) | u. u \<in> set us} = block_links M - {(b, w) | w. w \<in> set (u # us)}"
    by (auto simp: s(4))
  ultimately show ?case using only_kinds_trans [OF s(3)] s(5) by simp
qed

lemma drop_block_views:
  assumes "with_func (br_func b) (\<lambda>F. F\<lparr>fd_blocks := (fd_blocks F)(br_block b := None)\<rparr>) M = Some M'"
  shows "lists_at M' = (lists_at M)(b := None)" "block_uses M' = (block_uses M)(b := None)"
    "kind_at M' = kind_at M" "parent_at M' = parent_at M" "value_uses M' = value_uses M" "order_at M' = order_at M"
proof -
  from assms obtain F where F: "func_map M (br_func b) = Some F" and M': "M' = M\<lparr>func_map := (func_map M)(br_func b \<mapsto>
      F\<lparr>fd_blocks := (fd_blocks F)(br_block b := None)\<rparr>)\<rparr>"
    by (auto elim: with_funcE)
  show "lists_at M' = (lists_at M)(b := None)" "block_uses M' = (block_uses M)(b := None)"
    "kind_at M' = kind_at M" "parent_at M' = parent_at M" "value_uses M' = value_uses M" "order_at M' = order_at M"
    using F
    by (auto simp: M' view_defs inst_at_def block_at_def arg_at_def
        block_uses_def value_uses_def fun_eq_iff block_ref.expand split: value_id.splits)
qed

lemma remove_block_law:
  assumes inv: "inv3 M" and e: "lists_at M b = Some (Lists [] [] None)" and r: "remove_block b M = Some M'"
  shows "inv3 M' \<and> lists_at M' = (lists_at M)(b := None) \<and> order_at M' = order_at M"
proof -
  from r obtain us M1 where us: "block_uses M b = Some us" and M1: "fold_opt drop_phi_use us M = Some M1"
    and M': "with_func (br_func b) (\<lambda>F. F\<lparr>fd_blocks := (fd_blocks F)(br_block b := None)\<rparr>) M1 = Some M'"
    unfolding remove_block_def bind_eq_Some_conv drop_phi_use_def [abs_def] by blast
  from inv us have d: "distinct us" and s: "set us = {u. (b, u) \<in> block_links M}"
    by (auto simp: inv3_def use_inv_def mirrors_def)
  have "\<forall>u \<in> set us. (b, u) \<in> block_links M" using s by simp
  from drop_phi_uses_law [OF inv this d M1]
  have f: "inv3 M1" "only_kinds M M1" "block_links M1 = block_links M - {(b, u) | u. u \<in> set us}"
    "dom (block_uses M1) = dom (block_uses M)" by auto
  have L1: "lists_at M1 = lists_at M" "order_at M1 = order_at M" using f(2) by (simp_all add: only_kinds_def)
  note v = drop_block_views [OF M']
  have lk: "value_links M' = value_links M1" "block_links M' = block_links M1"
    by (rule value_links_cong; simp add: attached_def v)+
  have no: "(b, u) \<notin> block_links M1" for u using s by (auto simp: f(3))
  have mb: "mirrors (block_uses M1) (block_links M1)" using f(1) by (simp add: inv3_def use_inv_def)
  from us f(4) obtain us1 where us1: "block_uses M1 b = Some us1" by (auto simp: dom_def set_eq_iff)
  with mb no have "us1 = []" by (auto simp: mirrors_def simp flip: set_empty)
  with mirrors_gone [OF mb] us1 f(1) lk v have "use_inv M'" by (simp add: inv3_def use_inv_def)
  moreover have "kinds_inv M'" using f(1) by (simp add: inv3_def kinds_inv_def v)
  moreover have "place_inv M'"
  proof -
    have pl: "place_inv M1" using f(1) by (simp add: inv3_def)
    have e1: "lists_at M1 b = Some (Lists [] [] None)" using e L1 by simp
    from place_invD [OF pl this] have nop: "parent_at M1 i \<noteq> Some (Some b)" for i
    proof -
      have "parent_at M1 (InstRef (br_func b) j) \<noteq> Some (Some b)" for j
        using place_invD [OF pl e1] by (simp add: block_ok_def)
      moreover have "parent_at M1 i = Some (Some b) \<Longrightarrow> i = InstRef (br_func b) (ir_inst i)"
        using pl by (cases i) (auto simp: place_inv_def)
      ultimately show ?thesis by metis
    qed
    show ?thesis
      unfolding place_inv_def
    proof (intro conjI allI impI)
      fix c L assume "lists_at M' c = Some L"
      then have "lists_at M1 c = Some L" by (simp add: v split: if_splits)
      from place_invD [OF pl this] show "block_ok M' c L" by (simp add: block_ok_def v)
    next
      fix i c assume "parent_at M' i = Some (Some c)"
      then have "parent_at M1 i = Some (Some c)" by (simp add: v)
      with pl nop show "br_func c = ir_func i" "live_block M' c"
        by (auto simp: place_inv_def live_block_def v)
    qed
  qed
  ultimately show ?thesis using v L1 by (simp add: inv3_def)
qed

lemma erase_all_law:
  assumes "module_inv_but S M" "fresh_key fresh" "finite (dom (const_map M))"
    and "fold_opt (erase_block_insts fresh) bs M = Some M'"
  shows "module_inv_but S M' \<and> order_at M' = order_at M \<and> live_block M' = live_block M \<and>
    (\<forall>b. lists_at M' b = (if b \<in> set bs then Some (Lists [] [] None) else lists_at M b))"
  using assms
proof (induction bs arbitrary: M)
  case Nil
  then show ?case by simp
next
  case (Cons b bs)
  from Cons.prems(4) obtain M1 where M1: "erase_block_insts fresh b M = Some M1"
    and r: "fold_opt (erase_block_insts fresh) bs M1 = Some M'"
    by (auto simp: bind_eq_Some_conv)
  note l = erase_block_insts_law [OF Cons.prems(1-3) M1]
  have lb: "live_block M1 = live_block M"
    using l by (auto simp: live_block_def fun_eq_iff)
  from l r Cons.IH [of M1] Cons.prems(2) have
    "module_inv_but S M' \<and> order_at M' = order_at M1 \<and> live_block M' = live_block M1 \<and>
    (\<forall>b. lists_at M' b = (if b \<in> set bs then Some (Lists [] [] None) else lists_at M1 b))" by blast
  with l lb show ?case by auto
qed

lemma remove_all_law:
  assumes "inv3 M" "\<forall>b \<in> set bs. lists_at M b = None \<or> lists_at M b = Some (Lists [] [] None)"
    and "fold_opt remove_block bs M = Some M'"
  shows "inv3 M' \<and> order_at M' = order_at M \<and>
    (\<forall>b. lists_at M' b = (if b \<in> set bs then None else lists_at M b))"
  using assms
proof (induction bs arbitrary: M)
  case Nil
  then show ?case by simp
next
  case (Cons b bs)
  from Cons.prems(3) obtain M1 where M1: "remove_block b M = Some M1" and r: "fold_opt remove_block bs M1 = Some M'"
    by (auto simp: bind_eq_Some_conv)
  have "lists_at M b \<noteq> None"
    using M1 by (auto simp: remove_block_def bind_eq_Some_conv block_uses_def lists_at_def)
  with Cons.prems(2) have e: "lists_at M b = Some (Lists [] [] None)" by auto
  note l = remove_block_law [OF Cons.prems(1) e M1]
  have "\<forall>c \<in> set bs. lists_at M1 c = None \<or> lists_at M1 c = Some (Lists [] [] None)"
    using Cons.prems(2) l by simp
  with Cons.IH [OF _ this r] l show ?case by auto
qed

lemma retain_all_order:
  assumes "fold_opt (retain_blocks bs) fs M = Some M'" "distinct fs"
  shows "kind_at M' = kind_at M \<and> parent_at M' = parent_at M \<and> lists_at M' = lists_at M \<and>
    value_uses M' = value_uses M \<and> block_uses M' = block_uses M \<and>
    (\<forall>f. order_at M' f = (if f \<in> set fs
       then map_option (\<lambda>(ord, e, d). (filter (\<lambda>b. BlockRef f b \<notin> set bs) ord, e, d)) (order_at M f)
       else order_at M f))"
  using assms
proof (induction fs arbitrary: M)
  case Nil
  then show ?case by simp
next
  case (Cons f fs)
  from Cons.prems(1) obtain M1 where M1: "retain_blocks bs f M = Some M1"
    and r: "fold_opt (retain_blocks bs) fs M1 = Some M'"
    by (auto simp: bind_eq_Some_conv)
  from M1 obtain F where F: "func_map M f = Some F" and M1': "M1 = M\<lparr>func_map := (func_map M)(f \<mapsto>
      F\<lparr>fd_block_order := filter (\<lambda>b. BlockRef f b \<notin> set bs) (fd_block_order F)\<rparr>)\<rparr>"
    by (auto simp: retain_blocks_def elim: with_funcE)
  have v: "kind_at M1 = kind_at M" "parent_at M1 = parent_at M" "lists_at M1 = lists_at M"
    "value_uses M1 = value_uses M" "block_uses M1 = block_uses M"
    using F
    by (auto simp: M1' view_defs inst_at_def block_at_def arg_at_def
        block_uses_def value_uses_def fun_eq_iff split: value_id.splits)
  have o: "order_at M1 g = (if g = f then map_option (\<lambda>(ord, e, d). (filter (\<lambda>b. BlockRef f b \<notin> set bs) ord, e, d)) (order_at M f)
       else order_at M g)" for g
    using F by (auto simp: M1' order_at_def)
  from Cons.IH [OF r] Cons.prems(2) show ?case by (auto simp: v o)
qed

lemma erase_blocks_inv:
  assumes inv: "module_inv_but S M" and fr: "fresh_key fresh" and fin: "finite (dom (const_map M))"
    and entry: "\<And>f ord e. f \<notin> S \<Longrightarrow> order_at M f = Some (ord, e, False) \<Longrightarrow> BlockRef f e \<notin> set bs"
    and r: "erase_blocks_from_parent fresh bs M = Some M'"
  shows "module_inv_but S M' \<and> (\<forall>b. live_block M' b \<longleftrightarrow> live_block M b \<and> b \<notin> set bs)"
proof -
  from r obtain M1 M2 where M1: "fold_opt (erase_block_insts fresh) bs M = Some M1"
    and M2: "fold_opt remove_block bs M1 = Some M2"
    and M': "fold_opt (retain_blocks bs) (remdups (map br_func bs)) M2 = Some M'"
    unfolding erase_blocks_from_parent_def bind_eq_Some_conv by blast
  note l1 = erase_all_law [OF inv fr fin M1]
  from l1 have "inv3 M1" "\<forall>b \<in> set bs. lists_at M1 b = None \<or> lists_at M1 b = Some (Lists [] [] None)"
    by (auto simp: module_inv_def inv3_def)
  note l2 = remove_all_law [OF this M2]
  note l3 = retain_all_order [OF M' distinct_remdups]
  have lists: "lists_at M' b = (if b \<in> set bs then None else lists_at M b)" for b
    using l1 l2 l3 by auto
  then have lb: "live_block M' b \<longleftrightarrow> live_block M b \<and> b \<notin> set bs" for b
    by (auto simp: live_block_def)
  have lk: "value_links M' = value_links M2" "block_links M' = block_links M2"
    by (rule value_links_cong; simp add: attached_def l3)+
  have i3: "inv3 M2" using l2 by blast
  then have "use_inv M'" "kinds_inv M'" "place_inv M'"
    using l3 lk by (auto simp: inv3_def use_inv_def kinds_inv_def place_inv_def block_ok_def live_block_def)
  moreover have "order_inv S M'"
    unfolding order_inv_def
  proof (intro allI impI)
    fix f ord e d assume o: "order_at M' f = Some (ord, e, d)"
    have om: "order_at M2 f = order_at M f" using l1 l2 by simp
    have "\<exists>ord0. order_at M f = Some (ord0, e, d) \<and> ord = filter (\<lambda>b. BlockRef f b \<notin> set bs) ord0"
    proof (cases "f \<in> br_func ` set bs")
      case True
      with o l3 om show ?thesis by (cases "order_at M f") auto
    next
      case False
      then have "BlockRef f b \<notin> set bs" for b by force
      with o l3 om False show ?thesis by auto
    qed
    then obtain ord0 where ord0: "order_at M f = Some (ord0, e, d)" "ord = filter (\<lambda>b. BlockRef f b \<notin> set bs) ord0"
      by blast
    from inv have "order_inv S M" by (simp add: module_inv_def)
    with ord0(1) have "distinct ord0 \<and> (\<forall>b. (b \<in> set ord0) = live_block M (BlockRef f b)) \<and> (d \<or> f \<in> S \<or> live_block M (BlockRef f e))"
      unfolding order_inv_def by blast
    with ord0 entry [of f ord0 e] show
      "distinct ord \<and> (\<forall>b. (b \<in> set ord) = live_block M' (BlockRef f b)) \<and> (d \<or> f \<in> S \<or> live_block M' (BlockRef f e))"
      by (auto simp: lb)
  qed
  ultimately show ?thesis using lb by (simp add: module_inv_def)
qed

end
