(* ===== verification/IR_Core_Props.thy ===== *)
theory IR_Core_Props
  imports IR_Core_Inv
begin

text \<open>
  The operations of the IR module as a step relation, the invariant over every run of them, and the
  operation that breaks it.
\<close>

section \<open>Runs of the module's operations\<close>

lemma frame_inv:
  assumes "module_inv_but S M" "same_views M M'" "value_uses M' = value_uses M" "block_uses M' = block_uses M"
  shows "module_inv_but S M'"
  using assms same_views_inv [OF assms(2)] by (simp add: module_inv_def use_inv_def)

lemma func_frame:
  assumes "with_func f g M = Some M'"
    and "\<And>F. fd_insts (g F) = fd_insts F" "\<And>F. fd_blocks (g F) = fd_blocks F" "\<And>F. fd_args (g F) = fd_args F"
    "\<And>F. fd_block_order (g F) = fd_block_order F" "\<And>F. fd_entry (g F) = fd_entry F"
    "\<And>F. fd_is_declare (g F) = fd_is_declare F"
  shows "same_views M M'" "value_uses M' = value_uses M" "block_uses M' = block_uses M"
proof -
  from assms(1) obtain F where F: "func_map M f = Some F" and M': "M' = M\<lparr>func_map := (func_map M)(f \<mapsto> g F)\<rparr>"
    by (rule with_funcE)
  show "same_views M M'" "value_uses M' = value_uses M" "block_uses M' = block_uses M"
    using F assms(2-)
    by (auto simp: M' same_views_def view_defs inst_at_def block_at_def arg_at_def
        block_uses_def value_uses_def fun_eq_iff split: value_id.splits)
qed

lemma fn_attr_inv:
  assumes "module_inv_but S M" "add_fn_attr f a M = Some M'"
  shows "module_inv_but S M'"
  by (rule frame_inv [OF assms(1) func_frame [OF assms(2) [unfolded add_fn_attr_def]]]) simp_all

lemma ret_attr_inv:
  assumes "module_inv_but S M" "add_ret_attr f a M = Some M'"
  shows "module_inv_but S M'"
  by (rule frame_inv [OF assms(1) func_frame [OF assms(2) [unfolded add_ret_attr_def]]]) simp_all

lemma arg_attr_inv:
  assumes "module_inv_but S M" "add_arg_attr x a M = Some M'"
  shows "module_inv_but S M'"
proof -
  from with_arg_maps [OF assms(2) [unfolded add_arg_attr_def]]
  have "same_views M M'" "value_uses M' = value_uses M" "block_uses M' = block_uses M"
    by (auto simp: same_views_def view_defs block_uses_def value_uses_def fun_eq_iff
        option.map_comp comp_def split: value_id.splits)
  with frame_inv [OF assms(1)] show ?thesis by blast
qed

lemma replace_all_uses_live:
  assumes inv: "module_inv_but S M" and r: "replace_all_uses_with old new M = Some M'"
  shows "M' = M \<and> value_uses M old = Some [] \<or> value_uses M old \<noteq> None \<and> value_uses M new \<noteq> None"
proof -
  from r obtain us where us: "value_uses M old = Some us"
    and f: "fold_opt (\<lambda>u. replace_inst_operand (use_user u) (use_slot u) new) us M = Some M'"
    by (auto simp: replace_all_uses_with_def bind_eq_Some_conv)
  show ?thesis
  proof (cases us)
    case Nil
    with f us show ?thesis by simp
  next
    case (Cons u us')
    with f obtain M0 where "replace_inst_operand (use_user u) (use_slot u) new M = Some M0"
      by (auto simp: bind_eq_Some_conv)
    then obtain D k old' M1 M2 M3 where "inst_at M (use_user u) = Some D" and
      M1: "with_inst (use_user u) (\<lambda>D. D\<lparr>id_kind := k\<rparr>) M = Some M1"
      and M2: "with_value_uses old' (filter (\<lambda>w. \<not> (use_user w = use_user u \<and> use_slot w = use_slot u))) M1 = Some M2"
      and M3: "with_value_uses new (\<lambda>us. us @ [Use (use_user u) (use_slot u)]) M2 = Some M3"
      by (auto simp: replace_inst_operand_def bind_eq_Some_conv)
    have "value_uses M2 new \<noteq> None" by (rule with_value_uses_views(1) [OF M3])
    with vu.dom_modify [OF M2] with_inst_kind_views(6) [OF M1] us show ?thesis by (auto simp: dom_def)
  qed
qed

text \<open>Afterwards the old value has no uses.\<close>

lemma replace_all_uses_inv:
  assumes inv: "module_inv_but S M" and r: "replace_all_uses_with old new M = Some M'"
  shows "module_inv_but S M'" "value_uses M' old = Some []" "only_kinds M M'" "dom (value_uses M') = dom (value_uses M)"
proof -
  have ne: "old \<noteq> new" using r by (auto simp: replace_all_uses_with_def bind_eq_Some_conv)
  have "module_inv_but S M' \<and> value_uses M' old = Some [] \<and> only_kinds M M' \<and> dom (value_uses M') = dom (value_uses M)"
    using replace_all_uses_live [OF inv r]
  proof (elim disjE conjE)
    assume "M' = M" "value_uses M old = Some []"
    with inv show ?thesis by simp
  next
    assume "value_uses M old \<noteq> None" "value_uses M new \<noteq> None"
    from replace_all_uses_law [OF inv ne this] r have i': "module_inv_but S M'" and k: "only_kinds M M'"
      and l: "value_links M' = (\<lambda>(v, u). (if v = old then new else v, u)) ` value_links M"
      and d: "dom (value_uses M') = dom (value_uses M)" by auto
    have no: "(old, u) \<notin> value_links M'" for u
      unfolding l rename_image [OF ne] using ne by simp
    from d \<open>value_uses M old \<noteq> None\<close> obtain us where us: "value_uses M' old = Some us" by (auto simp: dom_def)
    have "mirrors (value_uses M') (value_links M')" using i' by (simp add: module_inv_def use_inv_def)
    with us no have "us = []" by (auto simp: mirrors_def simp flip: set_empty)
    with i' k us d show ?thesis by simp
  qed
  then show "module_inv_but S M'" "value_uses M' old = Some []" "only_kinds M M'"
    "dom (value_uses M') = dom (value_uses M)" by simp_all
qed

text \<open>One operation.  \<open>S\<close> are the functions made by \<open>define_function\<close> whose entry block is still to be set.\<close>

inductive ir_step :: "((const_id \<rightharpoonup> const_data) \<Rightarrow> const_id) \<Rightarrow> function_id set \<Rightarrow> module_core \<Rightarrow>
    function_id set \<Rightarrow> module_core \<Rightarrow> bool"
  for fresh where
  layout_step: "ir_step fresh S M S (set_target_data_layout td M)"
| struct_step: "ir_step fresh S M S (set_named_struct n ty M)"
| declare_step: "func_map M f = None \<Longrightarrow> ir_step fresh S M S (declare_function f nb name ty M)"
| define_step: "func_map M f = None \<Longrightarrow> ir_step fresh S M (insert f S) (define_function f nb False name ty M)"
| entry_step: "block_at M (BlockRef f b) \<noteq> None \<Longrightarrow> set_entry f b M = Some M' \<Longrightarrow> ir_step fresh S M (S - {f}) M'"
| create_step: "func_map M f = None \<Longrightarrow> create_function f nb b name ty M = Some M' \<Longrightarrow> ir_step fresh S M S M'"
| arg_step: "arg_at M (ArgRef f a) = None \<Longrightarrow> append_arg a f ty name0 M = Some M' \<Longrightarrow> ir_step fresh S M S M'"
| fn_attr_step: "add_fn_attr f at M = Some M' \<Longrightarrow> ir_step fresh S M S M'"
| ret_attr_step: "add_ret_attr f at M = Some M' \<Longrightarrow> ir_step fresh S M S M'"
| arg_attr_step: "add_arg_attr x at M = Some M' \<Longrightarrow> ir_step fresh S M S M'"
| global_step: "global_map M g = None \<Longrightarrow> ir_step fresh S M S (add_global g name ty gk M)"
| const_step: "const_map M c = None \<Longrightarrow> ir_step fresh S M S (add_const c ty ck M)"
| block_step: "block_at M (BlockRef f b) = None \<Longrightarrow> append_block b f name0 M = Some M' \<Longrightarrow> ir_step fresh S M S M'"
| inst_step: "inst_at M (InstRef f n) = None \<Longrightarrow> kind_ok k \<Longrightarrow> new_inst n f ty k name0 M = Some M' \<Longrightarrow>
    ir_step fresh S M S M'"
| append_step: "append_inst b i M = Some M' \<Longrightarrow> ir_step fresh S M S M'"
| push_front_step: "push_front_inst b i M = Some M' \<Longrightarrow> ir_step fresh S M S M'"
| before_step: "insert_before anchor i M = Some M' \<Longrightarrow> ir_step fresh S M S M'"
| after_step: "insert_after anchor i M = Some M' \<Longrightarrow> ir_step fresh S M S M'"
| phi_step: "append_phi b i M = Some M' \<Longrightarrow> ir_step fresh S M S M'"
| term_step: "set_terminator b i M = Some M' \<Longrightarrow> ir_step fresh S M S M'"
| append_to_step: "append_to_block b i M = Some M' \<Longrightarrow> ir_step fresh S M S M'"
| detach_step: "detach_inst i M = Some M' \<Longrightarrow> ir_step fresh S M S M'"
| erase_step: "erase_inst_from_parent i M = Some M' \<Longrightarrow> ir_step fresh S M S M'"
| force_step: "attached M i \<Longrightarrow> finite (dom (const_map M)) \<Longrightarrow>
    erase_inst_from_parent_forcely fresh i M = Some M' \<Longrightarrow> ir_step fresh S M S M'"
| blocks_step: "finite (dom (const_map M)) \<Longrightarrow>
    (\<And>f ord e. f \<notin> S \<Longrightarrow> order_at M f = Some (ord, e, False) \<Longrightarrow> BlockRef f e \<notin> set bs) \<Longrightarrow>
    erase_blocks_from_parent fresh bs M = Some M' \<Longrightarrow> ir_step fresh S M S M'"
| operand_step: "attached M i \<Longrightarrow> replace_inst_operand i slot v M = Some M' \<Longrightarrow> ir_step fresh S M S M'"
| all_uses_step: "replace_all_uses_with old new M = Some M' \<Longrightarrow> ir_step fresh S M S M'"
| block_operand_step: "attached M i \<Longrightarrow> replace_block_operand i bslot b M = Some M' \<Longrightarrow> ir_step fresh S M S M'"
| all_block_uses_step: "replace_all_block_uses_with oldb newb M = Some M' \<Longrightarrow> ir_step fresh S M S M'"
| phi_add_step: "attached M i \<Longrightarrow> phi_add_incoming i b v M = Some M' \<Longrightarrow> ir_step fresh S M S M'"
| phi_remove_step: "attached M i \<Longrightarrow> phi_remove_incoming_from i n M = Some M' \<Longrightarrow> ir_step fresh S M S M'"

inductive ir_steps :: "((const_id \<rightharpoonup> const_data) \<Rightarrow> const_id) \<Rightarrow> function_id set \<Rightarrow> module_core \<Rightarrow>
    function_id set \<Rightarrow> module_core \<Rightarrow> bool"
  for fresh where
  ir_refl: "ir_steps fresh S M S M"
| ir_cons: "ir_step fresh S M S1 M1 \<Longrightarrow> ir_steps fresh S1 M1 S2 M2 \<Longrightarrow> ir_steps fresh S M S2 M2"

lemma ir_step_inv:
  assumes "ir_step fresh S M S' M'" "fresh_key fresh" "module_inv_but S M"
  shows "module_inv_but S' M'"
  using assms
proof (induction rule: ir_step.induct)
  case (layout_step S M td)
  show ?case
    by (rule frame_inv [OF layout_step(2)])
      (auto simp: set_target_data_layout_def same_views_def view_defs inst_at_def block_at_def arg_at_def
        block_uses_def value_uses_def fun_eq_iff split: value_id.splits)
next
  case (struct_step S M n ty)
  show ?case
    by (rule frame_inv [OF struct_step(2)])
      (auto simp: set_named_struct_def same_views_def view_defs inst_at_def block_at_def arg_at_def
        block_uses_def value_uses_def fun_eq_iff split: value_id.splits)
next
  case (block_step M f b name0 M')
  then have "\<not> live_block M (BlockRef f b)" by (simp add: live_block_def lists_at_def)
  with block_step append_block_inv show ?case by blast
next
  case (force_step M i M' S)
  then obtain p where "parent_at M i = Some (Some p)" by (auto simp: attached_def)
  with force_step erase_forcely_law(1) show ?case by blast
next
  case (blocks_step S M bs M')
  with erase_blocks_inv show ?case by blast
next
  case (detach_step i M M')
  with detach_inst_inv show ?case by blast
qed (blast intro: declare_function_inv define_function_inv set_entry_inv create_function_inv append_arg_inv fn_attr_inv ret_attr_inv arg_attr_inv
  add_global_inv add_const_inv new_inst_inv append_inst_inv push_front_inst_inv insert_before_inv
  insert_after_inv append_phi_inv set_terminator_inv append_to_block_inv erase_inst_inv(1)
  replace_inst_operand_inv replace_all_uses_inv(1) replace_block_operand_inv replace_all_block_uses_inv
  phi_add_incoming_inv phi_remove_incoming_inv)+

lemma ir_steps_inv:
  assumes "ir_steps fresh S M S' M'" "fresh_key fresh" "module_inv_but S M"
  shows "module_inv_but S' M'"
  using assms by (induction rule: ir_steps.induct) (use ir_step_inv in blast)+

lemma module_new_inv: "module_inv_but S module_new"
proof -
  have v: "kind_at module_new = Map.empty" "parent_at module_new = Map.empty" "lists_at module_new = Map.empty"
    "order_at module_new = Map.empty" "value_uses module_new = Map.empty" "block_uses module_new = Map.empty"
    by (auto simp: module_new_def view_defs inst_at_def block_at_def arg_at_def block_uses_def value_uses_def
        fun_eq_iff split: value_id.splits)
  have l: "value_links module_new = {}" "block_links module_new = {}"
    by (simp_all add: value_links_def block_links_def attached_def v)
  show ?thesis
    by (simp add: module_inv_def use_inv_def mirrors_def kinds_inv_def place_inv_def order_inv_def v l)
qed

section \<open>Properties\<close>

text \<open>C3. Whatever sequence of operations builds and rewrites a module from the empty one, its
  def-use information is exact.  Every operand slot of an attached instruction reads a live value
  and appears once in that value's use list; every use recorded for a value is such an operand; the
  same holds of blocks; the instruction lists, parents and block orders agree; and every function with a
  body has a live entry block, except the functions of \<open>S\<close>, made by \<open>define_function\<close> and still without an
  entry (\<open>module_inv_but\<close>).  The sequence covers every operation of the module except \<open>replace_inst\<close> and
  \<open>overwrite_inst\<close>, under these conditions: keys are new, a new phi has distinct slots below its counter
  (\<open>kind_ok\<close>, true of every other kind), operands, incoming edges and forced erasure are applied to attached
  instructions, the entry of a function is set to one of its blocks, a set entry block is never erased, and
  the constants are finitely many when an erasure makes an undefined one.\<close>

theorem ir_use_lists_exact:
  assumes "ir_steps fresh {} module_new S M" and "fresh_key fresh"
  shows "module_inv_but S M \<and>
    (\<forall>i k v s. attached M i \<and> kind_at M i = Some k \<and> (v, s) \<in> set (value_operands k) \<longrightarrow>
       (\<exists>us. value_uses M v = Some us \<and> distinct us \<and> Use i s \<in> set us)) \<and>
    (\<forall>v us i s. value_uses M v = Some us \<and> Use i s \<in> set us \<longrightarrow>
       attached M i \<and> (\<exists>k. kind_at M i = Some k \<and> (v, s) \<in> set (value_operands k)))"
proof -
  have inv: "module_inv_but S M" by (rule ir_steps_inv [OF assms module_new_inv])
  then have m: "mirrors (value_uses M) (value_links M)" by (simp add: module_inv_def use_inv_def)
  have "\<exists>us. value_uses M v = Some us \<and> distinct us \<and> Use i s \<in> set us"
    if "attached M i" "kind_at M i = Some k" "(v, s) \<in> set (value_operands k)" for i k v s
  proof -
    have "(v, Use i s) \<in> value_links M" using that by (simp add: value_links_iff)
    with m show ?thesis by (auto simp: mirrors_def)
  qed
  moreover have "attached M i \<and> (\<exists>k. kind_at M i = Some k \<and> (v, s) \<in> set (value_operands k))"
    if "value_uses M v = Some us" "Use i s \<in> set us" for v us i s
    using mirrors_mem [OF m that(1)] that(2) by (simp add: value_links_iff)
  ultimately show ?thesis using inv by blast
qed

definition example_fresh :: "(const_id \<rightharpoonup> const_data) \<Rightarrow> const_id" where
  "example_fresh m = Suc (Max (insert 0 (dom m)))"

lemma example_fresh_key: "fresh_key example_fresh"
proof -
  have "m (Suc (Max (insert 0 (dom m)))) = None" if "finite (dom m)" for m :: "const_id \<rightharpoonup> const_data"
  proof (rule ccontr)
    assume "m (Suc (Max (insert 0 (dom m)))) \<noteq> None"
    then have "Suc (Max (insert 0 (dom m))) \<in> insert 0 (dom m)" by auto
    with that have "Suc (Max (insert 0 (dom m))) \<le> Max (insert 0 (dom m))" by (intro Max_ge) auto
    then show False by simp
  qed
  then show ?thesis by (simp add: fresh_key_def example_fresh_def)
qed

text \<open>Modules with one function of one block: an alloca (0), a load of it (1), a second load (2).\<close>

definition ex_module_from :: "ir_block_id \<Rightarrow> (inst_id \<rightharpoonup> inst_data) \<Rightarrow> inst_id list \<Rightarrow> module_core" where
  "ex_module_from e is' xs =
     \<lparr>func_map = [0 \<mapsto> \<lparr>fd_name = ''f'', fd_ty = FunctionT VoidT [], fd_attrs = empty_attrs,
       fd_args = Map.empty, fd_blocks = [0 \<mapsto> \<lparr>bd_name = Some ''entry'', bd_phis = [], bd_insts = xs,
         bd_terminator = None, bd_parent = 0, bd_uses = []\<rparr>], fd_insts = is',
       fd_block_order = [0], fd_entry = e, fd_is_declare = False\<rparr>],
      global_map = Map.empty, const_map = Map.empty, function_globals = Map.empty,
      named_structs = Map.empty, module_layout = None\<rparr>"

definition ex_module :: "(inst_id \<rightharpoonup> inst_data) \<Rightarrow> inst_id list \<Rightarrow> module_core" where
  "ex_module = ex_module_from 0"

definition ex_alloca :: "block_ref option \<Rightarrow> ir_use list \<Rightarrow> inst_data" where
  "ex_alloca p us = \<lparr>id_parent = p, id_ty = PtrT, id_kind = Alloca (IntT 32), id_uses = us, id_name = None\<rparr>"

definition ex_load :: "block_ref option \<Rightarrow> inst_data" where
  "ex_load p = \<lparr>id_parent = p, id_ty = IntT 32, id_kind = Load (VInst (InstRef 0 0)), id_uses = [], id_name = None\<rparr>"

abbreviation "blk \<equiv> BlockRef 0 0"
abbreviation "use1 \<equiv> Use (InstRef 0 1) LoadPtr"

lemmas run_simps = with_func_def with_inst_def with_block_def block_at_def inst_at_def arg_at_def
  attach_inst_def assert_can_insert_def is_plain_def is_phi_def kind_is_terminator_def
  register_inst_use_def unregister_inst_use_def with_value_uses_def with_block_uses_def
  value_uses_def block_uses_def locate_inst_def position_def Let_def ex_module_def ex_module_from_def ex_alloca_def ex_load_def

lemma ex_runs:
  "append_block 0 0 (Some ''entry'') (define_function 0 9 False ''f'' (FunctionT VoidT []) module_new) =
     Some (ex_module_from 9 Map.empty [])"
  "set_entry 0 0 (ex_module_from 9 Map.empty []) = Some (ex_module Map.empty [])"
  "new_inst 0 0 PtrT (Alloca (IntT 32)) None (ex_module Map.empty []) =
     Some (ex_module [0 \<mapsto> ex_alloca None []] [])"
  "append_inst blk (InstRef 0 0) (ex_module [0 \<mapsto> ex_alloca None []] []) =
     Some (ex_module [0 \<mapsto> ex_alloca (Some blk) []] [0])"
  "new_inst 1 0 (IntT 32) (Load (VInst (InstRef 0 0))) None (ex_module [0 \<mapsto> ex_alloca (Some blk) []] [0]) =
     Some (ex_module [0 \<mapsto> ex_alloca (Some blk) [], 1 \<mapsto> ex_load None] [0])"
  "append_inst blk (InstRef 0 1) (ex_module [0 \<mapsto> ex_alloca (Some blk) [], 1 \<mapsto> ex_load None] [0]) =
     Some (ex_module [0 \<mapsto> ex_alloca (Some blk) [use1], 1 \<mapsto> ex_load (Some blk)] [0, 1])"
  "new_inst 2 0 (IntT 32) (Load (VInst (InstRef 0 0))) None
       (ex_module [0 \<mapsto> ex_alloca (Some blk) [use1], 1 \<mapsto> ex_load (Some blk)] [0, 1]) =
     Some (ex_module [0 \<mapsto> ex_alloca (Some blk) [use1], 1 \<mapsto> ex_load (Some blk), 2 \<mapsto> ex_load None] [0, 1])"
  by (simp_all add: define_function_def append_block_def set_entry_def module_new_def new_inst_def
      append_inst_def run_simps fun_upd_twist)

definition ex_before :: module_core where
  "ex_before = ex_module [0 \<mapsto> ex_alloca (Some blk) [use1], 1 \<mapsto> ex_load (Some blk), 2 \<mapsto> ex_load None] [0, 1]"

lemma ex_before_steps: "ir_steps fresh {} module_new {} ex_before"
proof -
  let ?D = "define_function 0 9 False ''f'' (FunctionT VoidT []) module_new"
  have 1: "ir_step fresh {} module_new {0} ?D" by (rule define_step) (simp add: module_new_def)
  have 2: "ir_step fresh {0} ?D {0} (ex_module_from 9 Map.empty [])"
    by (rule block_step [OF _ ex_runs(1)]) (simp add: block_at_def define_function_def)
  have "ir_step fresh {0} (ex_module_from 9 Map.empty []) ({0} - {0}) (ex_module Map.empty [])"
    by (rule entry_step [OF _ ex_runs(2)]) (simp add: run_simps)
  then have 3: "ir_step fresh {0} (ex_module_from 9 Map.empty []) {} (ex_module Map.empty [])" by simp
  note inst = inst_step [OF _ _ ex_runs(3)] inst_step [OF _ _ ex_runs(5)] inst_step [OF _ _ ex_runs(7)]
  show ?thesis
    unfolding ex_before_def
    by (rule ir_cons [OF 1 ir_cons [OF 2 ir_cons [OF 3 ir_cons [OF inst(1) ir_cons [OF append_step [OF ex_runs(4)]
      ir_cons [OF inst(2) ir_cons [OF append_step [OF ex_runs(6)] ir_cons [OF inst(3) ir_refl]]]]]]]])
      (simp_all add: run_simps kind_ok_def)
qed

lemma ex_before_inv: "module_inv ex_before"
  by (rule ir_steps_inv [OF ex_before_steps example_fresh_key module_new_inv])

lemma ir_use_lists_exact_witness:
  "module_inv ex_before \<and> value_uses ex_before (VInst (InstRef 0 0)) = Some [use1]"
  using ir_use_lists_exact [OF ex_before_steps example_fresh_key]
  by (simp add: ex_before_def run_simps)

text \<open>C12. Replacing all uses of a value by another live value never panics, keeps the invariant,
  leaves the old value without uses, moves every use of the old value to the new one and changes no
  other use, no block use, no instruction list and no parent.\<close>

theorem replace_all_uses_correct:
  assumes "module_inv M" and "old \<noteq> new" and "value_uses M old = Some us_old" and "value_uses M new = Some us_new"
  shows "\<exists>M' us. replace_all_uses_with old new M = Some M' \<and> module_inv M' \<and>
    value_uses M' old = Some [] \<and> value_uses M' new = Some us \<and> set us = set us_new \<union> set us_old \<and>
    (\<forall>v us. v \<noteq> old \<and> v \<noteq> new \<and> value_uses M v = Some us \<longrightarrow>
       (\<exists>us'. value_uses M' v = Some us' \<and> set us' = set us)) \<and>
    block_links M' = block_links M \<and> parent_at M' = parent_at M \<and> lists_at M' = lists_at M"
proof -
  from replace_all_uses_law [OF assms(1,2)] assms(3,4) obtain M' where
    M': "replace_all_uses_with old new M = Some M'" "module_inv M'" "only_kinds M M'"
    and vl: "value_links M' = (\<lambda>(v, u). (if v = old then new else v, u)) ` value_links M"
    and bl: "block_links M' = block_links M" and d: "dom (value_uses M') = dom (value_uses M)" by auto
  have m: "mirrors (value_uses M) (value_links M)" "mirrors (value_uses M') (value_links M')"
    using assms(1) M'(2) by (simp_all add: module_inv_def use_inv_def)
  have link: "(v, u) \<in> value_links M' \<longleftrightarrow>
      (v \<noteq> old \<and> (v, u) \<in> value_links M \<or> v = new \<and> (old, u) \<in> value_links M)" for v u
    unfolding vl by (rule rename_image [OF assms(2)])
  have live: "\<exists>us'. value_uses M' v = Some us' \<and> set us' = {u. (v, u) \<in> value_links M'}"
    if "value_uses M v \<noteq> None" for v
  proof -
    from that d have "v \<in> dom (value_uses M')" by blast
    then obtain us' where "value_uses M' v = Some us'" by blast
    with m(2) show ?thesis by (auto simp: mirrors_def)
  qed
  have in_M: "set us = {u. (v, u) \<in> value_links M}" if "value_uses M v = Some us" for v us
    using m(1) that by (auto simp: mirrors_def)
  have "value_uses M' old = Some []" using live [of old] assms(2,3) link by auto
  moreover from live [of new] assms(4) obtain us where
    us: "value_uses M' new = Some us" "set us = {u. (new, u) \<in> value_links M'}" by auto
  then have "set us = set us_new \<union> set us_old"
    using in_M [OF assms(3)] in_M [OF assms(4)] assms(2) link by auto
  moreover have "\<exists>us'. value_uses M' v = Some us' \<and> set us' = set us"
    if "v \<noteq> old" "v \<noteq> new" "value_uses M v = Some us" for v us
    using live [of v] in_M [OF that(3)] that link by auto
  ultimately show ?thesis using M' us(1) bl by (auto simp: only_kinds_def)
qed

lemma replace_all_uses_correct_witness:
  "\<exists>M'. replace_all_uses_with (VInst (InstRef 0 0)) (VInst (InstRef 0 2)) ex_before = Some M' \<and>
     value_uses M' (VInst (InstRef 0 0)) = Some []"
  using replace_all_uses_correct [of ex_before "VInst (InstRef 0 0)" "VInst (InstRef 0 2)" "[use1]" "[]"]
    ex_before_inv
  by (auto simp: ex_before_def run_simps)

text \<open>C25. \<open>overwrite_inst\<close> does not keep the invariant: the instruction that takes the old one's
  place is attached without its operands being registered.  In a module built by the other
  operations, overwriting the load (1) by the load (2) leaves the alloca without uses, so that
  erasing the alloca succeeds although the attached load (2) still reads it.\<close>

theorem overwrite_inst_loses_uses:
  "\<exists>M1 M2. ir_steps example_fresh {} module_new {} ex_before \<and>
     overwrite_inst (InstRef 0 1) (InstRef 0 2) ex_before = Some M1 \<and> \<not> use_inv M1 \<and>
     erase_inst_from_parent (InstRef 0 0) M1 = Some M2 \<and>
     attached M2 (InstRef 0 2) \<and> kind_at M2 (InstRef 0 2) = Some (Load (VInst (InstRef 0 0))) \<and>
     inst_at M2 (InstRef 0 0) = None"
proof -
  let ?M1 = "ex_module [0 \<mapsto> ex_alloca (Some blk) [], 2 \<mapsto> ex_load (Some blk)] [0, 2]"
  let ?M2 = "ex_module [2 \<mapsto> ex_load (Some blk)] [2]"
  let ?R = "ex_module [0 \<mapsto> ex_alloca (Some blk) [use1], 1 \<mapsto> ex_load None, 2 \<mapsto> ex_load (Some blk)] [0, 2]"
  have r: "replace_inst (InstRef 0 1) (InstRef 0 2) ex_before = Some ?R"
    by (simp add: ex_before_def replace_inst_def replace_all_uses_with_def run_simps) (simp add: fun_eq_iff)
  have er: "erase_inst_from_parent (InstRef 0 1) ?R = Some ?M1"
    by (simp add: erase_inst_from_parent_def detach_inst_def remove_inst_def run_simps) (simp add: fun_eq_iff)
  have o: "overwrite_inst (InstRef 0 1) (InstRef 0 2) ex_before = Some ?M1"
    by (simp only: overwrite_inst_def r er Option.bind.simps)
  have e: "erase_inst_from_parent (InstRef 0 0) ?M1 = Some ?M2"
    by (simp add: erase_inst_from_parent_def detach_inst_def remove_inst_def remove_nth_def run_simps)
  have "(VInst (InstRef 0 0), Use (InstRef 0 2) LoadPtr) \<in> value_links ?M1"
    by (simp add: value_links_iff attached_def parent_at_def kind_at_def run_simps)
  moreover have "value_uses ?M1 (VInst (InstRef 0 0)) = Some []" by (simp add: run_simps)
  ultimately have "\<not> mirrors (value_uses ?M1) (value_links ?M1)" by (metis mirrors_empty)
  then have "\<not> use_inv ?M1" by (simp only: use_inv_def simp_thms)
  moreover have "attached ?M2 (InstRef 0 2)" "kind_at ?M2 (InstRef 0 2) = Some (Load (VInst (InstRef 0 0)))"
    "inst_at ?M2 (InstRef 0 0) = None"
    by (simp_all add: attached_def parent_at_def kind_at_def run_simps)
  ultimately show ?thesis using ex_before_steps o e by blast
qed

end
