(* ===== verification/IR_Cfg.thy ===== *)
theory IR_Cfg
  imports IR_Core_Props
begin

text \<open>
  Control-flow graphs of IR functions, the depth-first numbering, the dominator tree with its
  frontier, and block splitting (\<open>src/src/ir/cfg.rs\<close>).

  A hash set is a list of distinct elements in its iteration order; hash maps are partial functions.
  The order in which a slot map or a hash set is iterated is therefore part of the graph, and the
  theorems hold for every order.  The recursions that the Rust code bounds by the finite graph have
  fuel; the numbering is proved to return with fuel one above the number of nodes.
\<close>

section \<open>Graphs\<close>

datatype cfg_node = BlockNode ir_block_id | FakeNode

record control_flow_graph =
  cfg_entry :: cfg_node
  cfg_succs :: "cfg_node \<rightharpoonup> cfg_node list"
  cfg_preds :: "cfg_node \<rightharpoonup> cfg_node list"

text \<open>\<open>entry(k).or_default()\<close> and \<open>entry(k).or_default().insert(x)\<close>.\<close>

definition or_default :: "'k \<Rightarrow> ('k \<rightharpoonup> 'a list) \<Rightarrow> ('k \<rightharpoonup> 'a list)" where
  "or_default k m = (case m k of None \<Rightarrow> m(k \<mapsto> []) | Some _ \<Rightarrow> m)"

definition entry_insert :: "'k \<Rightarrow> 'a \<Rightarrow> ('k \<rightharpoonup> 'a list) \<Rightarrow> ('k \<rightharpoonup> 'a list)" where
  "entry_insert k x m =
     (let xs = (case m k of None \<Rightarrow> [] | Some xs \<Rightarrow> xs)
      in m(k \<mapsto> (if x \<in> set xs then xs else xs @ [x])))"

definition set_at :: "('k \<rightharpoonup> 'a list) \<Rightarrow> 'k \<Rightarrow> 'a set" where
  "set_at m k = (case m k of None \<Rightarrow> {} | Some xs \<Rightarrow> set xs)"

text \<open>The targets of a terminator, in the order \<open>build_cfg\<close> adds them.\<close>

definition branch_targets :: "inst_kind \<Rightarrow> ir_block_id list" where
  "branch_targets k =
     (case k of
        Branch t None \<Rightarrow> [t]
      | Branch t (Some cb) \<Rightarrow> [t, cb_else cb]
      | _ \<Rightarrow> [])"

definition add_edge :: "cfg_node \<Rightarrow> cfg_node \<Rightarrow> control_flow_graph \<Rightarrow> control_flow_graph" where
  "add_edge a b G = G\<lparr>cfg_succs := entry_insert a b (cfg_succs G), cfg_preds := entry_insert b a (cfg_preds G)\<rparr>"

definition add_block :: "function_data \<Rightarrow> ir_block_id \<Rightarrow> control_flow_graph \<Rightarrow> control_flow_graph option" where
  "add_block F b G = do {
     B \<leftarrow> fd_blocks F b;
     let n = BlockNode b;
     let G1 = G\<lparr>cfg_succs := or_default n (cfg_succs G), cfg_preds := or_default n (cfg_preds G)\<rparr>;
     (case bd_terminator B of
        None \<Rightarrow> Some G1
      | Some t \<Rightarrow> do {
          D \<leftarrow> fd_insts F t;
          Some (fold (\<lambda>t. add_edge n (BlockNode t)) (branch_targets (id_kind D)) G1)
        })
   }"

text \<open>\<open>keys\<close> are the blocks of the function in the order of its slot map.\<close>

definition build_cfg :: "ir_block_id list \<Rightarrow> module_core \<Rightarrow> function_id \<Rightarrow> control_flow_graph option" where
  "build_cfg keys M f = do {
     F \<leftarrow> func_map M f;
     fold_opt (add_block F) keys
       \<lparr>cfg_entry = BlockNode (fd_entry F), cfg_succs = Map.empty, cfg_preds = Map.empty\<rparr>
   }"

text \<open>\<open>ends\<close> in the order of its hash set.\<close>

definition reverse_cfg :: "ir_block_id list \<Rightarrow> control_flow_graph \<Rightarrow> control_flow_graph" where
  "reverse_cfg ends G =
     (let G1 = \<lparr>cfg_entry = FakeNode, cfg_succs = or_default FakeNode (cfg_preds G),
                cfg_preds = or_default FakeNode (cfg_succs G)\<rparr>
      in fold (\<lambda>e. add_edge FakeNode (BlockNode e)) ends G1)"

section \<open>Depth-first numbering\<close>

record dfs_state =
  dfs_visited :: "cfg_node set"
  dfs_order :: "cfg_node list"
  dfs_parent :: "cfg_node \<rightharpoonup> cfg_node"

definition succ_list :: "control_flow_graph \<Rightarrow> cfg_node \<Rightarrow> cfg_node list" where
  "succ_list G n = (case cfg_succs G n of None \<Rightarrow> [] | Some xs \<Rightarrow> xs)"

definition dfs_enter :: "cfg_node \<Rightarrow> cfg_node option \<Rightarrow> dfs_state \<Rightarrow> dfs_state" where
  "dfs_enter b from_node st =
     (let st1 = (case from_node of None \<Rightarrow> st | Some p \<Rightarrow> st\<lparr>dfs_parent := (dfs_parent st)(b \<mapsto> p)\<rparr>)
      in st1\<lparr>dfs_order := dfs_order st1 @ [b], dfs_visited := insert b (dfs_visited st1)\<rparr>)"

fun dfs_visit ::
  "nat \<Rightarrow> control_flow_graph \<Rightarrow> cfg_node \<Rightarrow> cfg_node option \<Rightarrow> dfs_state \<Rightarrow> dfs_state option" where
  "dfs_visit 0 G b from_node st = None"
| "dfs_visit (Suc n) G b from_node st =
     (if b \<in> dfs_visited st then Some st
      else fold_opt (\<lambda>s. dfs_visit n G s (Some b)) (succ_list G b) (dfs_enter b from_node st))"

record dfs_result =
  dfs_result_order :: "cfg_node list"
  dfn :: "cfg_node \<rightharpoonup> nat"
  dfs_result_parent :: "cfg_node \<rightharpoonup> cfg_node"

definition build_dfn :: "nat \<Rightarrow> control_flow_graph \<Rightarrow> dfs_result option" where
  "build_dfn fuel G = do {
     st \<leftarrow> dfs_visit fuel G (cfg_entry G) None \<lparr>dfs_visited = {}, dfs_order = [], dfs_parent = Map.empty\<rparr>;
     Some \<lparr>dfs_result_order = dfs_order st,
           dfn = map_of (zip (dfs_order st) [0..<length (dfs_order st)]),
           dfs_result_parent = dfs_parent st\<rparr>
   }"

section \<open>Dominators\<close>

record dom_state =
  sdom :: "cfg_node \<rightharpoonup> cfg_node"
  idoms :: "cfg_node \<rightharpoonup> cfg_node"
  disjoint_set :: "cfg_node \<rightharpoonup> cfg_node"
  best :: "cfg_node \<rightharpoonup> cfg_node"
  bucket :: "cfg_node \<rightharpoonup> cfg_node list"

text \<open>\<open>dfn[&sdom[&v]]\<close>.\<close>

definition sdom_number :: "(cfg_node \<rightharpoonup> nat) \<Rightarrow> dom_state \<Rightarrow> cfg_node \<Rightarrow> nat option" where
  "sdom_number num st v = Option.bind (sdom st v) num"

fun dom_find ::
  "nat \<Rightarrow> (cfg_node \<rightharpoonup> nat) \<Rightarrow> cfg_node \<Rightarrow> dom_state \<Rightarrow> (cfg_node \<times> dom_state) option" where
  "dom_find 0 num v st = None"
| "dom_find (Suc n) num v st = do {
     parent \<leftarrow> disjoint_set st v;
     if parent \<noteq> v then do {
       (root, st1) \<leftarrow> dom_find n num parent st;
       bp \<leftarrow> best st1 parent;
       bv \<leftarrow> best st1 v;
       np \<leftarrow> sdom_number num st1 bp;
       nv \<leftarrow> sdom_number num st1 bv;
       let st2 = (if np < nv then st1\<lparr>best := (best st1)(v \<mapsto> bp)\<rparr> else st1);
       Some (root, st2\<lparr>disjoint_set := (disjoint_set st2)(v \<mapsto> root)\<rparr>)
     } else Some (v, st)
   }"

definition dom_pred ::
  "nat \<Rightarrow> (cfg_node \<rightharpoonup> nat) \<Rightarrow> cfg_node \<Rightarrow> cfg_node \<Rightarrow> dom_state \<Rightarrow> dom_state option" where
  "dom_pred fuel num node p st =
     (if num p = None then Some st
      else do {
        (candidate, st1) \<leftarrow> dom_find fuel num p st;
        nc \<leftarrow> sdom_number num st1 candidate;
        nn \<leftarrow> sdom_number num st1 node;
        Some (if nc < nn then st1\<lparr>sdom := (sdom st1)(node \<mapsto> candidate)\<rparr> else st1)
      })"

definition dom_bucket :: "nat \<Rightarrow> (cfg_node \<rightharpoonup> nat) \<Rightarrow> cfg_node \<Rightarrow> dom_state \<Rightarrow> dom_state option" where
  "dom_bucket fuel num v st = do {
     (w, st1) \<leftarrow> dom_find fuel num v st;
     sw \<leftarrow> sdom st1 w;
     sv \<leftarrow> sdom st1 v;
     Some (st1\<lparr>idoms := (idoms st1)(v \<mapsto> (if sw = sv then sv else w))\<rparr>)
   }"

definition dom_node ::
  "nat \<Rightarrow> control_flow_graph \<Rightarrow> dfs_result \<Rightarrow> cfg_node \<Rightarrow> dom_state \<Rightarrow> dom_state option" where
  "dom_node fuel G R node st =
     (if node = cfg_entry G then Some st
      else do {
        ps \<leftarrow> cfg_preds G node;
        st1 \<leftarrow> fold_opt (dom_pred fuel (dfn R) node) ps st;
        s \<leftarrow> sdom st1 node;
        let st2 = st1\<lparr>bucket := entry_insert s node (bucket st1)\<rparr>;
        parent \<leftarrow> dfs_result_parent R node;
        let st3 = st2\<lparr>disjoint_set := (disjoint_set st2)(node \<mapsto> parent)\<rparr>;
        st4 \<leftarrow> fold_opt (dom_bucket fuel (dfn R)) (case bucket st3 parent of None \<Rightarrow> [] | Some vs \<Rightarrow> vs) st3;
        Some (st4\<lparr>bucket := (bucket st4)(parent := None)\<rparr>)
      })"

definition dom_fix :: "cfg_node \<Rightarrow> dom_state \<Rightarrow> dom_state option" where
  "dom_fix node st = do {
     i \<leftarrow> idoms st node;
     s \<leftarrow> sdom st node;
     if i \<noteq> s then do { ii \<leftarrow> idoms st i; Some (st\<lparr>idoms := (idoms st)(node \<mapsto> ii)\<rparr>) } else Some st
   }"

record dominator_tree =
  dt_root :: cfg_node
  dt_children :: "cfg_node \<rightharpoonup> cfg_node list"
  dt_idom :: "cfg_node \<rightharpoonup> cfg_node"

definition build_dom_tree :: "nat \<Rightarrow> control_flow_graph \<Rightarrow> dominator_tree option" where
  "build_dom_tree fuel G = do {
     R \<leftarrow> build_dfn fuel G;
     let order = dfs_result_order R;
     rust_assert (order \<noteq> []);
     let self = map_of (map (\<lambda>b. (b, b)) order);
     st \<leftarrow> fold_opt (dom_node fuel G R) (rev order)
        \<lparr>sdom = self, idoms = self, disjoint_set = self, best = self, bucket = Map.empty\<rparr>;
     st1 \<leftarrow> fold_opt dom_fix (drop 1 order) st;
     let idom = (idoms st1)(cfg_entry G \<mapsto> cfg_entry G);
     Some \<lparr>dt_root = cfg_entry G,
       dt_children = (\<lambda>n. if n \<in> set order
          then Some (filter (\<lambda>m. idom m = Some n \<and> m \<noteq> n) order) else None),
       dt_idom = idom\<rparr>
   }"

text \<open>\<open>dominates\<close>: the walk up the tree; a node that is not in the tree panics.\<close>

fun dom_walk :: "nat \<Rightarrow> dominator_tree \<Rightarrow> cfg_node \<Rightarrow> cfg_node \<Rightarrow> bool option" where
  "dom_walk 0 T a current = None"
| "dom_walk (Suc n) T a current =
     (if current = dt_root T then Some False
      else if current = a then Some True
      else Option.bind (dt_idom T current) (dom_walk n T a))"

definition dominates :: "nat \<Rightarrow> dominator_tree \<Rightarrow> cfg_node \<Rightarrow> cfg_node \<Rightarrow> bool option" where
  "dominates fuel T a b = (if a = dt_root T then Some True else dom_walk fuel T a b)"

text \<open>The dominance frontier; \<open>keys\<close> are the nodes of the tree in the order of its hash map.\<close>

fun frontier_walk ::
  "nat \<Rightarrow> dominator_tree \<Rightarrow> cfg_node \<Rightarrow> cfg_node \<Rightarrow> (cfg_node \<rightharpoonup> cfg_node list) \<Rightarrow>
     (cfg_node \<rightharpoonup> cfg_node list) option" where
  "frontier_walk 0 T block runner fr = None"
| "frontier_walk (Suc n) T block runner fr = do {
     stop \<leftarrow> dt_idom T block;
     if runner = stop then Some fr
     else
       let fr1 = entry_insert runner block fr
       in case dt_idom T runner of
            None \<Rightarrow> Some fr1
          | Some next_runner \<Rightarrow>
              if next_runner \<noteq> runner then frontier_walk n T block next_runner fr1 else Some fr1
   }"

definition frontier_block ::
  "nat \<Rightarrow> control_flow_graph \<Rightarrow> dominator_tree \<Rightarrow> cfg_node \<Rightarrow> (cfg_node \<rightharpoonup> cfg_node list) \<Rightarrow>
     (cfg_node \<rightharpoonup> cfg_node list) option" where
  "frontier_block fuel G T block fr = do {
     ps \<leftarrow> cfg_preds G block;
     if 2 \<le> length ps
     then fold_opt (\<lambda>p fr. if dt_idom T p = None then Some fr else frontier_walk fuel T block p fr) ps fr
     else Some fr
   }"

definition build_dom_frontier ::
  "nat \<Rightarrow> cfg_node list \<Rightarrow> control_flow_graph \<Rightarrow> dominator_tree \<Rightarrow> (cfg_node \<rightharpoonup> cfg_node list) option" where
  "build_dom_frontier fuel keys G T = fold_opt (frontier_block fuel G T) keys Map.empty"

section \<open>Splitting a block\<close>

text \<open>\<open>bkey\<close> and \<open>ikey\<close> are the keys of the new block and of the jump.\<close>

definition move_inst :: "function_id \<Rightarrow> block_ref \<Rightarrow> inst_id \<Rightarrow> module_core \<Rightarrow> module_core option" where
  "move_inst f b j M = Option.bind (detach_inst (InstRef f j) M) (append_inst b (InstRef f j))"

definition split_block_at ::
  "ir_block_id \<Rightarrow> inst_id \<Rightarrow> inst_ref \<Rightarrow> bool \<Rightarrow> module_core \<Rightarrow> (block_ref \<times> module_core) option" where
  "split_block_at bkey ikey i add_terminator M = do {
     let f = ir_func i;
     D \<leftarrow> inst_at M i;
     parent \<leftarrow> id_parent D;
     B \<leftarrow> block_at M parent;
     phi_flags \<leftarrow> mapM_opt (\<lambda>u. map_option (\<lambda>U. (u, is_phi (id_kind U))) (inst_at M (bu_user u))) (bd_uses B);
     let phi_uses = map fst (filter snd phi_flags);
     pos \<leftarrow> position ((=) (ir_inst i)) (bd_insts B);
     M1 \<leftarrow> append_block bkey f None M;
     let new_block = BlockRef f bkey;
     B1 \<leftarrow> block_at M1 parent;
     M2 \<leftarrow> fold_opt (move_inst f new_block) (drop pos (bd_insts B1)) M1;
     B2 \<leftarrow> block_at M2 parent;
     M3 \<leftarrow> (case bd_terminator B2 of
        None \<Rightarrow> Some M2
      | Some t \<Rightarrow> Option.bind (detach_inst (InstRef f t) M2) (set_terminator new_block (InstRef f t)));
     M4 \<leftarrow> fold_opt (\<lambda>u. replace_block_operand (bu_user u) (bu_slot u) new_block) phi_uses M3;
     if add_terminator then do {
       M5 \<leftarrow> new_inst ikey f VoidT (Branch bkey None) None M4;
       M6 \<leftarrow> set_terminator parent (InstRef f ikey) M5;
       Some (new_block, M6)
     } else Some (new_block, M4)
   }"

section \<open>The numbering is the depth-first order of the reachable nodes\<close>

definition cfg_edges :: "control_flow_graph \<Rightarrow> (cfg_node \<times> cfg_node) set" where
  "cfg_edges G = {(a, b). b \<in> set (succ_list G a)}"

text \<open>Every node but the first has a parent that is numbered before it, along an edge.\<close>

definition tree_order :: "control_flow_graph \<Rightarrow> dfs_state \<Rightarrow> bool" where
  "tree_order G st \<longleftrightarrow>
     (\<forall>i < length (dfs_order st). 0 < i \<longrightarrow>
        (\<exists>p \<in> set (take i (dfs_order st)). dfs_parent st (dfs_order st ! i) = Some p \<and>
           (p, dfs_order st ! i) \<in> cfg_edges G))"

definition dfs_ok :: "control_flow_graph \<Rightarrow> dfs_state \<Rightarrow> bool" where
  "dfs_ok G st \<longleftrightarrow> distinct (dfs_order st) \<and> dfs_visited st = set (dfs_order st) \<and> tree_order G st"

definition may_enter :: "control_flow_graph \<Rightarrow> cfg_node \<Rightarrow> cfg_node option \<Rightarrow> dfs_state \<Rightarrow> bool" where
  "may_enter G b from_node st \<longleftrightarrow>
     (case from_node of None \<Rightarrow> dfs_order st = []
      | Some p \<Rightarrow> p \<in> dfs_visited st \<and> (p, b) \<in> cfg_edges G)"

text \<open>What one visit adds: the new nodes are reachable from the ones it was started at, and their
  successors are visited.\<close>

definition dfs_extends :: "control_flow_graph \<Rightarrow> cfg_node set \<Rightarrow> dfs_state \<Rightarrow> dfs_state \<Rightarrow> bool" where
  "dfs_extends G bs st st' \<longleftrightarrow>
     (\<exists>new. dfs_order st' = dfs_order st @ new \<and> set new \<subseteq> (cfg_edges G)\<^sup>* `` bs \<and>
        bs \<subseteq> dfs_visited st' \<and> (\<forall>n \<in> set new. set (succ_list G n) \<subseteq> dfs_visited st'))"

lemma dfs_enter_ok:
  assumes ok: "dfs_ok G st" and new: "b \<notin> dfs_visited st" and may: "may_enter G b from_node st"
  shows "dfs_ok G (dfs_enter b from_node st)"
proof -
  let ?st = "dfs_enter b from_node st"
  have ord: "dfs_order ?st = dfs_order st @ [b]" and vis: "dfs_visited ?st = insert b (dfs_visited st)"
    by (simp_all add: dfs_enter_def split: option.split)
  have par: "dfs_parent ?st n = dfs_parent st n" if "n \<noteq> b" for n
    using that by (simp add: dfs_enter_def split: option.split)
  have "tree_order G ?st"
    unfolding tree_order_def ord
  proof (intro allI impI)
    fix i assume i: "i < length (dfs_order st @ [b])" "0 < i"
    show "\<exists>p\<in>set (take i (dfs_order st @ [b])). dfs_parent ?st ((dfs_order st @ [b]) ! i) = Some p \<and>
       (p, (dfs_order st @ [b]) ! i) \<in> cfg_edges G"
    proof (cases "i < length (dfs_order st)")
      case True
      then have "dfs_order st ! i \<noteq> b" using new ok nth_mem [OF True] by (auto simp: dfs_ok_def)
      with True i ok show ?thesis by (auto simp: dfs_ok_def tree_order_def nth_append par)
    next
      case False
      with i have eq: "i = length (dfs_order st)" "dfs_order st \<noteq> []" by auto
      with may obtain p where "from_node = Some p" "p \<in> dfs_visited st" "(p, b) \<in> cfg_edges G"
        by (auto simp: may_enter_def split: option.splits)
      with eq ok show ?thesis by (auto simp: dfs_enter_def dfs_ok_def)
    qed
  qed
  with ok new ord vis show ?thesis by (auto simp: dfs_ok_def)
qed

lemma dfs_extends_refl: "bs \<subseteq> dfs_visited st \<Longrightarrow> dfs_extends G bs st st"
  by (simp add: dfs_extends_def)

lemma dfs_extends_trans:
  assumes "dfs_extends G as st st1" "dfs_extends G bs st1 st2" "dfs_ok G st1" "dfs_ok G st2"
  shows "dfs_extends G (as \<union> bs) st st2"
proof -
  from assms(1) obtain n1 where 1: "dfs_order st1 = dfs_order st @ n1" "set n1 \<subseteq> (cfg_edges G)\<^sup>* `` as"
      "as \<subseteq> dfs_visited st1" "\<forall>n\<in>set n1. set (succ_list G n) \<subseteq> dfs_visited st1"
    by (auto simp: dfs_extends_def)
  from assms(2) obtain n2 where 2: "dfs_order st2 = dfs_order st1 @ n2" "set n2 \<subseteq> (cfg_edges G)\<^sup>* `` bs"
      "bs \<subseteq> dfs_visited st2" "\<forall>n\<in>set n2. set (succ_list G n) \<subseteq> dfs_visited st2"
    by (auto simp: dfs_extends_def)
  have sub: "dfs_visited st1 \<subseteq> dfs_visited st2" using 2(1) assms(3,4) by (auto simp: dfs_ok_def)
  show ?thesis unfolding dfs_extends_def
  proof (intro exI conjI)
    show "dfs_order st2 = dfs_order st @ (n1 @ n2)" using 1(1) 2(1) by simp
    show "set (n1 @ n2) \<subseteq> (cfg_edges G)\<^sup>* `` (as \<union> bs)" using 1(2) 2(2) by auto
    show "as \<union> bs \<subseteq> dfs_visited st2" using 1(3) 2(3) sub by blast
    show "\<forall>n\<in>set (n1 @ n2). set (succ_list G n) \<subseteq> dfs_visited st2" using 1(4) 2(4) sub by auto
  qed
qed

text \<open>The contract of one visit, and the fold over the successors under it.\<close>

definition visit_good ::
  "control_flow_graph \<Rightarrow> cfg_node set \<Rightarrow> dfs_state \<Rightarrow> dfs_state option \<Rightarrow> bool" where
  "visit_good G bs st r \<longleftrightarrow> (\<exists>st'. r = Some st' \<and> dfs_ok G st' \<and> dfs_extends G bs st st')"

lemma visit_fold_good:
  assumes step: "\<And>s c. c \<in> set cs \<Longrightarrow> dfs_ok G s \<Longrightarrow> dfs_visited st \<subseteq> dfs_visited s \<Longrightarrow>
      visit_good G {c} s (visit c s)"
    and "dfs_ok G st"
  shows "visit_good G (set cs) st (fold_opt visit cs st)"
  using assms
proof (induction cs arbitrary: st)
  case Nil
  then show ?case by (simp add: visit_good_def dfs_extends_refl)
next
  case (Cons c cs)
  from Cons.prems(1) [of c st] Cons.prems(2) obtain s1 where
    s1: "visit c st = Some s1" "dfs_ok G s1" "dfs_extends G {c} st s1"
    by (auto simp: visit_good_def)
  have sub: "dfs_visited st \<subseteq> dfs_visited s1"
    using s1 Cons.prems(2) by (auto simp: dfs_extends_def dfs_ok_def)
  have "visit_good G (set cs) s1 (fold_opt visit cs s1)"
    by (rule Cons.IH [OF Cons.prems(1)]) (use sub s1(2) in auto)
  then obtain s2 where s2: "fold_opt visit cs s1 = Some s2" "dfs_ok G s2" "dfs_extends G (set cs) s1 s2"
    by (auto simp: visit_good_def)
  from dfs_extends_trans [OF s1(3) s2(3) s1(2) s2(2)] s1(1) s2(1,2) show ?case
    by (simp add: visit_good_def)
qed

lemma dfs_visit_good:
  assumes "finite V" "\<And>a b. a \<in> V \<Longrightarrow> (a, b) \<in> cfg_edges G \<Longrightarrow> b \<in> V"
    and "b \<in> V" "card (V - dfs_visited st) < n" "dfs_ok G st" "b \<in> dfs_visited st \<or> may_enter G b from_node st"
  shows "visit_good G {b} st (dfs_visit n G b from_node st)"
  using assms(3-)
proof (induction n arbitrary: b from_node st)
  case 0
  then show ?case by simp
next
  case (Suc n)
  show ?case
  proof (cases "b \<in> dfs_visited st")
    case True
    with Suc.prems show ?thesis by (simp add: visit_good_def dfs_extends_refl)
  next
    case False
    let ?e = "dfs_enter b from_node st"
    have e: "dfs_ok G ?e" by (rule dfs_enter_ok) (use Suc.prems False in auto)
    have ord: "dfs_order ?e = dfs_order st @ [b]" and vis: "dfs_visited ?e = insert b (dfs_visited st)"
      by (simp_all add: dfs_enter_def split: option.split)
    have "visit_good G (set (succ_list G b)) ?e
        (fold_opt (\<lambda>c s. dfs_visit n G c (Some b) s) (succ_list G b) ?e)"
    proof (rule visit_fold_good)
      fix s c assume c: "c \<in> set (succ_list G b)" "dfs_ok G s" "dfs_visited ?e \<subseteq> dfs_visited s"
      have "V - dfs_visited s \<subset> V - dfs_visited st" using c(3) False Suc.prems(1) vis by auto
      then have "card (V - dfs_visited s) < card (V - dfs_visited st)"
        using assms(1) by (simp add: psubset_card_mono)
      moreover have "(b, c) \<in> cfg_edges G" using c(1) by (simp add: cfg_edges_def)
      ultimately show "visit_good G {c} s (dfs_visit n G c (Some b) s)"
        using Suc.prems c vis assms(2) [of b c]
        by (intro Suc.IH) (auto simp: may_enter_def)
    qed (rule e)
    then obtain s' where s': "fold_opt (\<lambda>c s. dfs_visit n G c (Some b) s) (succ_list G b) ?e = Some s'"
        "dfs_ok G s'" "dfs_extends G (set (succ_list G b)) ?e s'"
      by (auto simp: visit_good_def)
    from s'(3) obtain new where new: "dfs_order s' = dfs_order ?e @ new"
        "set new \<subseteq> (cfg_edges G)\<^sup>* `` set (succ_list G b)" "set (succ_list G b) \<subseteq> dfs_visited s'"
        "\<forall>n\<in>set new. set (succ_list G n) \<subseteq> dfs_visited s'"
      by (auto simp: dfs_extends_def)
    have "dfs_extends G {b} st s'"
      unfolding dfs_extends_def
    proof (intro exI conjI)
      show "dfs_order s' = dfs_order st @ (b # new)" using new(1) ord by simp
      show "set (b # new) \<subseteq> (cfg_edges G)\<^sup>* `` {b}"
        using new(2) by (auto simp: cfg_edges_def intro: converse_rtrancl_into_rtrancl)
      show "{b} \<subseteq> dfs_visited s'" using new(1) ord s'(2) by (simp add: dfs_ok_def)
      show "\<forall>n\<in>set (b # new). set (succ_list G n) \<subseteq> dfs_visited s'" using new(3,4) by simp
    qed
    with s'(1,2) False show ?thesis by (simp add: visit_good_def)
  qed
qed

lemma fold_opt_grows:
  assumes "\<And>c s s'. visit c s = Some s' \<Longrightarrow> \<exists>new. g s' = g s @ new"
  shows "fold_opt visit cs s1 = Some s2 \<Longrightarrow> \<exists>new. g s2 = g s1 @ new"
proof (induction cs arbitrary: s1)
  case (Cons c cs)
  then obtain s where s: "visit c s1 = Some s" "fold_opt visit cs s = Some s2"
    by (auto simp: bind_eq_Some_conv)
  from assms [OF s(1)] Cons.IH [OF s(2)] show ?case by auto
qed simp

lemma dfs_visit_grows:
  "dfs_visit n G b from_node st = Some st' \<Longrightarrow> \<exists>new. dfs_order st' = dfs_order st @ new"
proof (induction n arbitrary: b from_node st st')
  case (Suc n)
  note fold = fold_opt_grows [where visit = "\<lambda>c s. dfs_visit n G c (Some b) s" and g = dfs_order, OF Suc.IH]
  show ?case
    using Suc.prems fold by (fastforce simp: dfs_enter_def split: if_splits option.splits)
qed simp

lemma dfs_visit_first:
  assumes "dfs_visit n G b from_node st = Some st'" "dfs_visited st = {}" "dfs_order st = []"
  shows "\<exists>new. dfs_order st' = b # new"
proof (cases n)
  case (Suc m)
  have "dfs_order (dfs_enter b from_node st) = [b]"
    using assms(3) by (simp add: dfs_enter_def split: option.split)
  with assms(1,2) Suc fold_opt_grows [where visit = "\<lambda>c s. dfs_visit m G c (Some b) s" and g = dfs_order, OF dfs_visit_grows]
  show ?thesis by fastforce
qed (use assms(1) in simp)

text \<open>C21. The depth-first numbering, on every graph whose nodes are among finitely many and for every
  iteration order of the successor sets: with fuel above the number of nodes it returns, its order
  lists every node reachable from the entry exactly once and starts with the entry, the numbers are
  the positions in the order, and every other node has a parent with a smaller number and an edge to it.\<close>

theorem dfs_numbering:
  assumes fin: "finite V" and ent: "cfg_entry G \<in> V"
    and closed: "\<And>a b. a \<in> V \<Longrightarrow> (a, b) \<in> cfg_edges G \<Longrightarrow> b \<in> V" and fuel: "card V < fuel"
  shows "\<exists>R. build_dfn fuel G = Some R \<and> distinct (dfs_result_order R) \<and>
    set (dfs_result_order R) = (cfg_edges G)\<^sup>* `` {cfg_entry G} \<and>
    hd (dfs_result_order R) = cfg_entry G \<and>
    (\<forall>i < length (dfs_result_order R). dfn R (dfs_result_order R ! i) = Some i) \<and>
    (\<forall>i < length (dfs_result_order R). 0 < i \<longrightarrow>
       (\<exists>j < i. dfs_result_parent R (dfs_result_order R ! i) = Some (dfs_result_order R ! j) \<and>
          (dfs_result_order R ! j, dfs_result_order R ! i) \<in> cfg_edges G))"
proof -
  define s0 where "s0 = \<lparr>dfs_visited = {}, dfs_order = [], dfs_parent = Map.empty\<rparr>"
  have "visit_good G {cfg_entry G} s0 (dfs_visit fuel G (cfg_entry G) None s0)"
    by (rule dfs_visit_good [OF fin closed ent])
      (use fuel in \<open>simp_all add: s0_def dfs_ok_def tree_order_def may_enter_def\<close>)
  then obtain st new where st: "dfs_visit fuel G (cfg_entry G) None s0 = Some st" "dfs_ok G st"
      and new: "dfs_order st = new" "set new \<subseteq> (cfg_edges G)\<^sup>* `` {cfg_entry G}"
        "cfg_entry G \<in> dfs_visited st" "\<forall>n\<in>set new. set (succ_list G n) \<subseteq> dfs_visited st"
    by (auto simp: visit_good_def dfs_extends_def s0_def)
  let ?o = "dfs_order st"
  have reach: "n \<in> set ?o" if "(cfg_entry G, n) \<in> (cfg_edges G)\<^sup>*" for n
    using that by induction (use new st(2) in \<open>auto simp: dfs_ok_def cfg_edges_def\<close>)
  have hd: "hd ?o = cfg_entry G"
    using dfs_visit_first [OF st(1)] by (auto simp: s0_def)
  have d: "distinct ?o" and t: "tree_order G st" using st(2) by (simp_all add: dfs_ok_def)
  have num: "map_of (zip ?o [0..<length ?o]) (?o ! i) = Some i" if "i < length ?o" for i
    using that d by (subst map_of_zip_nth) simp_all
  have par: "\<exists>j < i. dfs_parent st (?o ! i) = Some (?o ! j) \<and> (?o ! j, ?o ! i) \<in> cfg_edges G"
    if i: "i < length ?o" "0 < i" for i
  proof -
    from t i obtain p where p: "p \<in> set (take i ?o)" "dfs_parent st (?o ! i) = Some p" "(p, ?o ! i) \<in> cfg_edges G"
      by (auto simp: tree_order_def)
    from p(1) obtain j where "j < i" "p = ?o ! j" by (auto simp: in_set_conv_nth)
    with p show ?thesis by blast
  qed
  show ?thesis
    using st(1) new(2) reach hd d num par by (auto simp: build_dfn_def s0_def [symmetric] new(1))
qed

section \<open>The graph of a function\<close>

definition block_edges :: "function_data \<Rightarrow> ir_block_id \<Rightarrow> (cfg_node \<times> cfg_node) set" where
  "block_edges F b =
     {(BlockNode b, BlockNode t) | t B i D. fd_blocks F b = Some B \<and> bd_terminator B = Some i \<and>
        fd_insts F i = Some D \<and> t \<in> set (branch_targets (id_kind D))}"

text \<open>The predecessor sets are the successor sets read backwards.\<close>

definition cfg_mirrored :: "control_flow_graph \<Rightarrow> bool" where
  "cfg_mirrored G \<longleftrightarrow> (\<forall>a b. a \<in> set_at (cfg_preds G) b \<longleftrightarrow> b \<in> set_at (cfg_succs G) a)"

lemma set_at_or_default [simp]: "set_at (or_default k m) = set_at m"
  by (auto simp: set_at_def or_default_def fun_eq_iff split: option.split)

lemma set_at_entry_insert [simp]:
  "set_at (entry_insert k x m) n = (if n = k then insert x (set_at m k) else set_at m n)"
  by (auto simp: set_at_def entry_insert_def split: option.split)

lemma succ_list_set_at: "set (succ_list G n) = set_at (cfg_succs G) n"
  by (simp add: succ_list_def set_at_def split: option.split)

lemma cfg_edges_set_at: "(a, b) \<in> cfg_edges G \<longleftrightarrow> b \<in> set_at (cfg_succs G) a"
  by (simp add: cfg_edges_def succ_list_set_at)

lemma add_edge_law:
  "cfg_edges (add_edge a b G) = insert (a, b) (cfg_edges G)"
  "cfg_mirrored G \<Longrightarrow> cfg_mirrored (add_edge a b G)" "cfg_entry (add_edge a b G) = cfg_entry G"
  by (auto simp: cfg_edges_set_at cfg_mirrored_def add_edge_def split: if_splits)

lemma add_edges_law:
  "cfg_edges (fold (\<lambda>t. add_edge n (BlockNode t)) ts G) = {(n, BlockNode t) | t. t \<in> set ts} \<union> cfg_edges G \<and>
   (cfg_mirrored G \<longrightarrow> cfg_mirrored (fold (\<lambda>t. add_edge n (BlockNode t)) ts G)) \<and>
   cfg_entry (fold (\<lambda>t. add_edge n (BlockNode t)) ts G) = cfg_entry G"
  by (induction ts arbitrary: G) (auto simp: add_edge_law)

lemma add_block_law:
  assumes "add_block F b G = Some G'"
  shows "cfg_edges G' = block_edges F b \<union> cfg_edges G \<and> (cfg_mirrored G \<longrightarrow> cfg_mirrored G') \<and>
    cfg_entry G' = cfg_entry G"
proof -
  let ?n = "BlockNode b"
  let ?G1 = "G\<lparr>cfg_succs := or_default ?n (cfg_succs G), cfg_preds := or_default ?n (cfg_preds G)\<rparr>"
  have G1: "cfg_edges ?G1 = cfg_edges G" "cfg_mirrored ?G1 = cfg_mirrored G" "cfg_entry ?G1 = cfg_entry G"
    by (auto simp: cfg_edges_set_at cfg_mirrored_def)
  from assms obtain B where B: "fd_blocks F b = Some B"
    and c: "(case bd_terminator B of None \<Rightarrow> Some ?G1
      | Some t \<Rightarrow> do { D \<leftarrow> fd_insts F t; Some (fold (\<lambda>t. add_edge ?n (BlockNode t)) (branch_targets (id_kind D)) ?G1) })
      = Some G'"
    by (auto simp: add_block_def Let_def bind_eq_Some_conv)
  show ?thesis
  proof (cases "bd_terminator B")
    case None
    with c B G1 show ?thesis by (auto simp: block_edges_def)
  next
    case (Some t)
    with c obtain D where "fd_insts F t = Some D"
      and "G' = fold (\<lambda>t. add_edge ?n (BlockNode t)) (branch_targets (id_kind D)) ?G1"
      by (auto simp: bind_eq_Some_conv)
    with Some B G1 add_edges_law [of ?n "branch_targets (id_kind D)" ?G1] show ?thesis
      by (auto simp: block_edges_def)
  qed
qed

text \<open>C22. The control-flow graph of a function: when no block or terminator is missing its entry is the
  function's entry block, its edges are exactly those from a block to the targets of its terminator, and
  its predecessor sets are the successor sets read backwards, for every iteration order of the blocks.\<close>

theorem build_cfg_edges:
  assumes "build_cfg keys M f = Some G"
  shows "\<exists>F. func_map M f = Some F \<and> cfg_entry G = BlockNode (fd_entry F) \<and>
    cfg_edges G = (\<Union>b \<in> set keys. block_edges F b) \<and>
    (\<forall>a b. a \<in> set_at (cfg_preds G) b \<longleftrightarrow> (a, b) \<in> cfg_edges G)"
proof -
  from assms obtain F where F: "func_map M f = Some F"
    and r: "fold_opt (add_block F) keys
       \<lparr>cfg_entry = BlockNode (fd_entry F), cfg_succs = Map.empty, cfg_preds = Map.empty\<rparr> = Some G"
    by (auto simp: build_cfg_def bind_eq_Some_conv)
  have "cfg_edges G' = (\<Union>b \<in> set ks. block_edges F b) \<union> cfg_edges G0 \<and>
      (cfg_mirrored G0 \<longrightarrow> cfg_mirrored G') \<and> cfg_entry G' = cfg_entry G0"
    if "fold_opt (add_block F) ks G0 = Some G'" for ks G0 G'
    using that
  proof (induction ks arbitrary: G0)
    case (Cons k ks)
    then obtain G1 where G1: "add_block F k G0 = Some G1" "fold_opt (add_block F) ks G1 = Some G'"
      by (auto simp: bind_eq_Some_conv)
    from add_block_law [OF G1(1)] Cons.IH [OF G1(2)] show ?case by auto
  qed simp
  note law = this [OF r]
  have "cfg_edges \<lparr>cfg_entry = BlockNode (fd_entry F), cfg_succs = Map.empty, cfg_preds = Map.empty\<rparr> = {}"
    "cfg_mirrored \<lparr>cfg_entry = BlockNode (fd_entry F), cfg_succs = Map.empty, cfg_preds = Map.empty\<rparr>"
    by (auto simp: cfg_edges_set_at cfg_mirrored_def set_at_def)
  with law have "cfg_edges G = (\<Union>b \<in> set keys. block_edges F b)" "cfg_mirrored G"
    "cfg_entry G = BlockNode (fd_entry F)" by simp_all
  with F show ?thesis by (simp add: cfg_mirrored_def flip: cfg_edges_set_at)
qed

section \<open>Example: a shared block behind a short circuit\<close>

text \<open>The graph of \<open>if a && b { w } else { x } ...\<close> with the two branches joined: the entry (0) goes to
  \<open>r\<close> (1) and \<open>x\<close> (2), \<open>r\<close> to \<open>w\<close> (3) and \<open>x\<close>, and \<open>x\<close> falls into \<open>w\<close>.\<close>

definition ex_graph :: control_flow_graph where
  "ex_graph = \<lparr>cfg_entry = BlockNode 0,
     cfg_succs = [BlockNode 0 \<mapsto> [BlockNode 1, BlockNode 2], BlockNode 1 \<mapsto> [BlockNode 3, BlockNode 2],
       BlockNode 2 \<mapsto> [BlockNode 3], BlockNode 3 \<mapsto> []],
     cfg_preds = [BlockNode 0 \<mapsto> [], BlockNode 1 \<mapsto> [BlockNode 0], BlockNode 2 \<mapsto> [BlockNode 0, BlockNode 1],
       BlockNode 3 \<mapsto> [BlockNode 1, BlockNode 2]]\<rparr>"

lemma dfs_numbering_witness:
  "\<exists>R. build_dfn 5 ex_graph = Some R \<and> hd (dfs_result_order R) = BlockNode 0 \<and>
     distinct (dfs_result_order R)"
proof -
  let ?V = "{BlockNode 0, BlockNode 1, BlockNode 2, BlockNode 3}"
  have "card ?V < 5" by simp
  moreover have "cfg_entry ex_graph \<in> ?V" by (simp add: ex_graph_def)
  moreover have "b \<in> ?V" if "a \<in> ?V" "(a, b) \<in> cfg_edges ex_graph" for a b
    using that by (auto simp: cfg_edges_def succ_list_def ex_graph_def)
  ultimately obtain R where "build_dfn 5 ex_graph = Some R" "distinct (dfs_result_order R)"
      "hd (dfs_result_order R) = cfg_entry ex_graph"
    using dfs_numbering [of ?V ex_graph 5] by blast
  then show ?thesis by (auto simp: ex_graph_def)
qed

text \<open>A function of two blocks: the entry (0) jumps to a loop (1) that goes back to itself or to the entry.\<close>

definition ex_loop_block :: "inst_id \<Rightarrow> block_data" where
  "ex_loop_block t = \<lparr>bd_name = None, bd_phis = [], bd_insts = [], bd_terminator = Some t, bd_parent = 0, bd_uses = []\<rparr>"

definition ex_loop_inst :: "ir_block_id \<Rightarrow> inst_kind \<Rightarrow> inst_data" where
  "ex_loop_inst b k = \<lparr>id_parent = Some (BlockRef 0 b), id_ty = VoidT, id_kind = k, id_uses = [], id_name = None\<rparr>"

definition ex_loop_module :: module_core where
  "ex_loop_module = module_new\<lparr>func_map := [0 \<mapsto>
     \<lparr>fd_name = ''f'', fd_ty = FunctionT VoidT [], fd_attrs = empty_attrs, fd_args = Map.empty,
      fd_blocks = [0 \<mapsto> ex_loop_block 0, 1 \<mapsto> ex_loop_block 1],
      fd_insts = [0 \<mapsto> ex_loop_inst 0 (Branch 1 None), 1 \<mapsto> ex_loop_inst 1 (Branch 1 (Some (CondBranch (VConst 0) 0)))],
      fd_block_order = [0, 1], fd_entry = 0, fd_is_declare = False\<rparr>]\<rparr>"

lemma build_cfg_edges_witness:
  "\<exists>G. build_cfg [0, 1] ex_loop_module 0 = Some G \<and> cfg_entry G = BlockNode 0 \<and>
     cfg_edges G = {(BlockNode 0, BlockNode 1), (BlockNode 1, BlockNode 1), (BlockNode 1, BlockNode 0)}"
proof -
  have "build_cfg [0, 1] ex_loop_module 0 \<noteq> None"
    by (simp add: build_cfg_def add_block_def ex_loop_module_def ex_loop_block_def ex_loop_inst_def Let_def)
  then obtain G where G: "build_cfg [0, 1] ex_loop_module 0 = Some G" by auto
  from build_cfg_edges [OF G] obtain F where F: "func_map ex_loop_module 0 = Some F"
      and g: "cfg_entry G = BlockNode (fd_entry F)" "cfg_edges G = (\<Union>b \<in> set [0, 1]. block_edges F b)"
    by blast
  have "cfg_entry G = BlockNode 0"
    "cfg_edges G = {(BlockNode 0, BlockNode 1), (BlockNode 1, BlockNode 1), (BlockNode 1, BlockNode 0)}"
    using F unfolding g
    by (auto simp: ex_loop_module_def block_edges_def ex_loop_block_def ex_loop_inst_def branch_targets_def)
  with G show ?thesis by blast
qed

text \<open>A path in the graph that avoids a node.\<close>

definition reaches_avoiding :: "control_flow_graph \<Rightarrow> cfg_node \<Rightarrow> cfg_node \<Rightarrow> bool" where
  "reaches_avoiding G r w \<longleftrightarrow> (cfg_entry G, w) \<in> {(a, b) \<in> cfg_edges G. a \<noteq> r \<and> b \<noteq> r}\<^sup>*"

text \<open>C0. The dominator tree is wrong.  \<open>find\<close> returns the root of the disjoint-set tree where the
  algorithm needs the node of smallest semidominator on the path (\<open>best\<close>, which is kept up to date and
  never read for the result), so a node can get an immediate dominator that does not dominate it.  On
  the example graph \<open>r\<close> is claimed to dominate \<open>w\<close> although the entry reaches \<open>w\<close> without passing \<open>r\<close>.\<close>

theorem dominator_tree_unsound:
  "\<exists>T. build_dom_tree 5 ex_graph = Some T \<and> dominates 5 T (BlockNode 1) (BlockNode 3) = Some True \<and>
     reaches_avoiding ex_graph (BlockNode 1) (BlockNode 3)"
proof -
  have "map_option (\<lambda>T. dominates 5 T (BlockNode 1) (BlockNode 3)) (build_dom_tree 5 ex_graph) = Some (Some True)"
    by code_simp
  then have T: "\<exists>T. build_dom_tree 5 ex_graph = Some T \<and> dominates 5 T (BlockNode 1) (BlockNode 3) = Some True"
    by auto
  let ?E = "{(a, b) \<in> cfg_edges ex_graph. a \<noteq> BlockNode 1 \<and> b \<noteq> BlockNode 1}"
  have "(BlockNode 0, BlockNode 2) \<in> ?E" "(BlockNode 2, BlockNode 3) \<in> ?E"
    by (simp_all add: cfg_edges_def succ_list_def ex_graph_def)
  then have "(BlockNode 0, BlockNode 3) \<in> ?E\<^sup>*" by (meson r_into_rtrancl rtrancl_trans)
  with T show ?thesis by (simp add: reaches_avoiding_def ex_graph_def)
qed

end
