(* ===== verification/IR_Split.thy ===== *)
theory IR_Split
  imports IR_Cfg
begin

text \<open>
  Correctness of \<open>split_block_at\<close> (\<open>src/src/ir/cfg.rs\<close>): what it does to the instruction lists, to
  the phis that name the split block as a predecessor, and that the module's invariant survives.
\<close>

section \<open>Attaching, detaching and moving, as changes of the views\<close>

lemma register_same_views:
  assumes "register_inst_use i M = Some M'"
  shows "same_views M M'"
proof -
  from assms obtain D M1 where "inst_at M i = Some D" and
    M1: "fold_opt (\<lambda>(v, s). with_value_uses v (\<lambda>us. us @ [Use i s])) (value_operands (id_kind D)) M = Some M1"
    and M': "fold_opt (\<lambda>(b, s). with_block_uses (BlockRef (ir_func i) b) (\<lambda>us. us @ [BlockUse i s]))
       (block_operands (id_kind D)) M1 = Some M'"
    unfolding register_inst_use_def bind_eq_Some_conv by blast
  have "same_views M M1"
    by (rule fold_opt_keeps [OF M1, where P = "same_views M"])
      (rule same_views_refl, metis (no_types, lifting) case_prod_beta' with_value_uses_views(4) same_views_trans)
  moreover have "same_views M1 M'"
    by (rule fold_opt_keeps [OF M', where P = "same_views M1"])
      (rule same_views_refl, metis (no_types, lifting) case_prod_beta' with_block_uses_views(4) same_views_trans)
  ultimately show ?thesis by (rule same_views_trans)
qed

lemma attach_views:
  assumes att: "attach_inst b i g M = Some M'" and g: "\<And>B. bd_uses (g B) = bd_uses B"
  shows "kind_at M' = kind_at M" "parent_at M' = (parent_at M)(i \<mapsto> Some b)" "order_at M' = order_at M"
    "lists_at M' = (lists_at M)(b := map_option (\<lambda>B. lists_of (g B)) (block_at M b))"
proof -
  from att obtain M1 M2 where M1: "with_block b g M = Some M1"
    and M2: "with_inst i (\<lambda>D. D\<lparr>id_parent := Some b\<rparr>) M1 = Some M2"
    and M': "register_inst_use i M2 = Some M'"
    by (auto simp: attach_inst_def bind_eq_Some_conv)
  note v1 = with_block_lists_views [OF M1 g] and v2 = with_inst_parent_views [OF M2]
  from register_same_views [OF M'] v1 v2 show "kind_at M' = kind_at M" "order_at M' = order_at M"
    "parent_at M' = (parent_at M)(i \<mapsto> Some b)"
    "lists_at M' = (lists_at M)(b := map_option (\<lambda>B. lists_of (g B)) (block_at M b))"
    by (simp_all add: same_views_def)
qed

lemma lists_at_block: "lists_at M b = Some (Lists ps xs t) \<longleftrightarrow>
    (\<exists>B. block_at M b = Some B \<and> bd_phis B = ps \<and> bd_insts B = xs \<and> bd_terminator B = t)"
  by (auto simp: lists_at_def lists_of_def)

text \<open>Moving a plain instruction from the middle of one block to the end of another.\<close>

lemma move_inst_law:
  assumes inv: "module_inv M" and r: "move_inst f b j M = Some M'" and ne: "p \<noteq> b"
    and p: "lists_at M p = Some (Lists ps (xs @ j # ys) t)" and b: "lists_at M b = Some (Lists qs zs u)"
    and f: "br_func p = f"
  shows "module_inv M' \<and> kind_at M' = kind_at M \<and> parent_at M' = (parent_at M)(InstRef f j \<mapsto> Some b) \<and>
    lists_at M' = (lists_at M)(p \<mapsto> Lists ps (xs @ ys) t, b \<mapsto> Lists qs (zs @ [j]) u) \<and>
    order_at M' = order_at M"
proof -
  let ?i = "InstRef f j"
  from r obtain M1 where M1: "detach_inst ?i M = Some M1" and M': "append_inst b ?i M1 = Some M'"
    by (auto simp: move_inst_def bind_eq_Some_conv)
  have ok: "block_ok M p (Lists ps (xs @ j # ys) t)"
    using inv p by (auto simp: module_inv_def intro: place_invD)
  then have par: "parent_at M ?i = Some (Some p)" using f by (auto simp: block_ok_def)
  obtain k where k: "kind_at M ?i = Some k" using ok f by (auto simp: block_ok_def)
  note d = detach_views [OF inv M1 k par]
  have dist: "j \<notin> set ps" "j \<notin> set xs" "j \<notin> set ys" "t \<noteq> Some j"
    using ok by (auto simp: block_ok_def)
  have l1: "lists_at M1 = (lists_at M)(p \<mapsto> Lists ps (xs @ ys) t)"
    using d(3) p dist by (simp add: removeAll_id)
  from M' have att: "attach_inst b ?i (\<lambda>B. B\<lparr>bd_insts := bd_insts B @ [j]\<rparr>) M1 = Some M'"
    by (auto simp: append_inst_def bind_eq_Some_conv)
  have "lists_at M1 b = Some (Lists qs zs u)" using l1 b ne by simp
  then obtain B where B: "block_at M1 b = Some B" "bd_phis B = qs" "bd_insts B = zs" "bd_terminator B = u"
    by (auto simp: lists_at_block)
  note a = attach_views [OF att]
  have "lists_at M' = (lists_at M1)(b \<mapsto> Lists qs (zs @ [j]) u)"
    using a(4) B by (simp add: lists_of_def)
  then show ?thesis
    using append_inst_inv [OF _ M'] detach_inst_inv [OF inv M1] a(1-3) d l1 by simp
qed

lemma move_all_law:
  assumes "module_inv M" "fold_opt (move_inst f b) ys M = Some M'" "p \<noteq> b" "br_func p = f"
    "lists_at M p = Some (Lists ps (xs @ ys) t)" "lists_at M b = Some (Lists qs zs u)"
  shows "module_inv M' \<and> kind_at M' = kind_at M \<and> attached M' = attached M \<and> order_at M' = order_at M \<and>
    lists_at M' = (lists_at M)(p \<mapsto> Lists ps xs t, b \<mapsto> Lists qs (zs @ ys) u)"
  using assms
proof (induction ys arbitrary: M zs)
  case Nil
  then show ?case by (auto simp: fun_eq_iff)
next
  case (Cons y ys)
  from Cons.prems(2) obtain M1 where M1: "move_inst f b y M = Some M1" and r: "fold_opt (move_inst f b) ys M1 = Some M'"
    by (auto simp: bind_eq_Some_conv)
  note m = move_inst_law [OF Cons.prems(1) M1 Cons.prems(3,5,6,4)]
  have l: "lists_at M1 p = Some (Lists ps (xs @ ys) t)" "lists_at M1 b = Some (Lists qs (zs @ [y]) u)"
    using m Cons.prems(3) by simp_all
  have a: "attached M1 = attached M"
  proof -
    have "parent_at M (InstRef f y) = Some (Some p)"
      using Cons.prems(1,4,5) by (auto simp: module_inv_def block_ok_def dest!: place_invD)
    with m show ?thesis by (auto simp: attached_def fun_eq_iff)
  qed
  from Cons.IH [OF _ r Cons.prems(3,4) l] m a show ?case
    using Cons.prems(3) by (simp add: fun_eq_iff)
qed

section \<open>Redirecting the phis\<close>

definition phi_reads :: "module_core \<Rightarrow> block_ref \<Rightarrow> block_use set" where
  "phi_reads M b = {u. (b, u) \<in> block_links M \<and> (\<exists>k. kind_at M (bu_user u) = Some k \<and> is_phi k)}"

lemma redirect_views:
  assumes inv: "module_inv M" and r: "replace_block_operand i slot b M = Some M'" and a: "attached M i"
  shows "lists_at M' = lists_at M" "parent_at M' = parent_at M" "order_at M' = order_at M"
    "inst_at M' j = None \<longleftrightarrow> inst_at M j = None"
    "p \<noteq> b \<Longrightarrow> phi_reads M' p \<subseteq> phi_reads M p - {BlockUse i slot}"
proof -
  from r obtain D old k' M1 M2 where bf: "ir_func i = br_func b" and D: "inst_at M i = Some D"
    and k': "replace_kind_block (id_kind D) slot (br_block b) = Some (old, k')"
    and M1: "with_inst i (\<lambda>D. D\<lparr>id_kind := k'\<rparr>) M = Some M1"
    and M2: "with_block_uses (BlockRef (ir_func i) old)
       (filter (\<lambda>u. \<not> (bu_user u = i \<and> bu_slot u = slot))) M1 = Some M2"
    and M': "with_block_uses b (\<lambda>us. us @ [BlockUse i slot]) M2 = Some M'"
    by (auto simp: replace_block_operand_def bind_eq_Some_conv)
  note v1 = with_inst_kind_views [OF M1]
    and v2 = with_block_uses_views(4) [OF M2] and v3 = with_block_uses_views(4) [OF M']
  show l: "lists_at M' = lists_at M" "parent_at M' = parent_at M" "order_at M' = order_at M"
    using v1 v2 v3 by (simp_all add: same_views_def)
  have K: "kind_at M' = (kind_at M)(i \<mapsto> k')" using v1 v2 v3 by (simp add: same_views_def)
  show "inst_at M' j = None \<longleftrightarrow> inst_at M j = None"
    using K D by (metis fun_upd_apply kind_at_def option.map_disc_iff option.distinct(1))
  have k: "kind_at M i = Some (id_kind D)" using D by (simp add: kind_at_def)
  then have "kind_ok (id_kind D)" using inv by (auto simp: module_inv_def kinds_inv_def)
  note law = replace_block_law [OF k' this]
  assume ne: "p \<noteq> b"
  show "phi_reads M' p \<subseteq> phi_reads M p - {BlockUse i slot}"
  proof
    fix u assume u: "u \<in> phi_reads M' p"
    obtain n s where us: "u = BlockUse n s" by (cases u)
    show "u \<in> phi_reads M p - {BlockUse i slot}"
    proof (cases "n = i")
      case False
      with u us K l(2) show ?thesis by (auto simp: phi_reads_def block_links_iff attached_def)
    next
      case True
      with u us K have s: "(br_block p, s) \<in> set (block_operands k')" "br_func p = ir_func i" "is_phi k'"
        by (auto simp: phi_reads_def block_links_iff)
      have "br_block p \<noteq> br_block b" using ne bf s(2) block_ref.expand by metis
      with s(1) law have "s \<noteq> slot" "(br_block p, s) \<in> set (block_operands (id_kind D))"
        by (auto simp: slot_set_def split: if_splits)
      with True u us k l(2) law s show ?thesis
        by (auto simp: phi_reads_def block_links_iff attached_def)
    qed
  qed
qed

lemma redirect_all:
  assumes "module_inv M" "fold_opt (\<lambda>u. replace_block_operand (bu_user u) (bu_slot u) b) us M = Some M'"
    "\<forall>u \<in> set us. attached M (bu_user u)" "p \<noteq> b"
  shows "module_inv M' \<and> lists_at M' = lists_at M \<and> parent_at M' = parent_at M \<and> order_at M' = order_at M \<and>
    (\<forall>j. inst_at M' j = None \<longleftrightarrow> inst_at M j = None) \<and> phi_reads M' p \<subseteq> phi_reads M p - set us"
  using assms
proof (induction us arbitrary: M)
  case Nil
  then show ?case by simp
next
  case (Cons u us)
  from Cons.prems(2) obtain M1 where M1: "replace_block_operand (bu_user u) (bu_slot u) b M = Some M1"
    and r: "fold_opt (\<lambda>u. replace_block_operand (bu_user u) (bu_slot u) b) us M1 = Some M'"
    by (auto simp: bind_eq_Some_conv)
  have a: "attached M (bu_user u)" using Cons.prems(3) by simp
  note v = redirect_views [OF Cons.prems(1) M1 a]
  have "module_inv M1" by (rule replace_block_operand_inv [OF Cons.prems(1) M1 a])
  moreover have "\<forall>u \<in> set us. attached M1 (bu_user u)"
    using Cons.prems(3) v(2) by (simp add: attached_def)
  ultimately show ?case
    using Cons.IH [OF _ r _ Cons.prems(4)] v Cons.prems(4) by (cases u) fastforce
qed

section \<open>The split\<close>

lemma set_terminator_views:
  assumes "set_terminator b i M = Some M'" "lists_at M b = Some (Lists ps xs t)"
  shows "t = None" "kind_at M' = kind_at M" "parent_at M' = (parent_at M)(i \<mapsto> Some b)"
    "order_at M' = order_at M" "lists_at M' = (lists_at M)(b \<mapsto> Lists ps xs (Some (ir_inst i)))"
    "parent_at M i = Some None"
proof -
  from assms(1) obtain B where B: "block_at M b = Some B" "bd_terminator B = None"
    and c: "assert_can_insert b i M = Some ()"
    and att: "attach_inst b i (\<lambda>B. B\<lparr>bd_terminator := Some (ir_inst i)\<rparr>) M = Some M'"
    by (auto simp: set_terminator_def bind_eq_Some_conv)
  note a = attach_views [OF att]
  show "t = None" using B assms(2) by (auto simp: lists_at_block)
  show "kind_at M' = kind_at M" "parent_at M' = (parent_at M)(i \<mapsto> Some b)" "order_at M' = order_at M"
    using a by simp_all
  show "lists_at M' = (lists_at M)(b \<mapsto> Lists ps xs (Some (ir_inst i)))"
    using a(4) B assms(2) by (auto simp: lists_at_block lists_of_def)
  show "parent_at M i = Some None" by (rule can_insert(2) [OF c])
qed

lemma move_terminator_law:
  assumes inv: "module_inv M" and ne: "p \<noteq> b" and f: "br_func p = f"
    and p: "lists_at M p = Some (Lists ps xs t)" and b: "lists_at M b = Some (Lists qs zs None)"
    and r: "(case t of None \<Rightarrow> Some M
       | Some t \<Rightarrow> Option.bind (detach_inst (InstRef f t) M) (set_terminator b (InstRef f t))) = Some M'"
  shows "module_inv M' \<and> kind_at M' = kind_at M \<and> attached M' = attached M \<and> order_at M' = order_at M \<and>
    lists_at M' = (lists_at M)(p \<mapsto> Lists ps xs None, b \<mapsto> Lists qs zs t)"
proof (cases t)
  case None
  with assms show ?thesis by (auto simp: fun_eq_iff)
next
  case (Some j)
  let ?i = "InstRef f j"
  from r Some obtain M1 where M1: "detach_inst ?i M = Some M1" and M': "set_terminator b ?i M1 = Some M'"
    by (auto simp: bind_eq_Some_conv)
  have ok: "block_ok M p (Lists ps xs (Some j))"
    using inv p Some by (auto simp: module_inv_def intro: place_invD)
  then have par: "parent_at M ?i = Some (Some p)" using f by (auto simp: block_ok_def)
  obtain k where k: "kind_at M ?i = Some k" using ok f by (auto simp: block_ok_def)
  note d = detach_views [OF inv M1 k par]
  have l1: "lists_at M1 = (lists_at M)(p \<mapsto> Lists ps xs None)"
    using d(3) p ok Some by (auto simp: block_ok_def removeAll_id)
  then have "lists_at M1 b = Some (Lists qs zs None)" using b ne by simp
  note s = set_terminator_views [OF M' this]
  have "attached M' = attached M"
    using s(3) d(2) par by (auto simp: attached_def fun_eq_iff)
  moreover have "module_inv M'" using set_terminator_inv [OF _ M'] detach_inst_inv [OF inv M1] by simp
  ultimately show ?thesis using s d l1 Some by simp
qed

lemma phi_flags_uses:
  assumes "mapM_opt (\<lambda>u. map_option (\<lambda>U. (u, is_phi (id_kind U))) (inst_at M (bu_user u))) us = Some fl"
  shows "set (map fst (filter snd fl)) = {u \<in> set us. \<exists>k. kind_at M (bu_user u) = Some k \<and> is_phi k}"
  using assms
proof (induction us arbitrary: fl)
  case Nil
  then show ?case by simp
next
  case (Cons u us)
  from Cons.prems obtain U fl' where U: "inst_at M (bu_user u) = Some U"
    and fl': "mapM_opt (\<lambda>u. map_option (\<lambda>U. (u, is_phi (id_kind U))) (inst_at M (bu_user u))) us = Some fl'"
    and fl: "fl = (u, is_phi (id_kind U)) # fl'"
    by (auto simp: bind_eq_Some_conv)
  have "set (map fst (filter snd fl)) =
      (if is_phi (id_kind U) then {u} else {}) \<union> set (map fst (filter snd fl'))"
    by (simp add: fl)
  moreover have "kind_at M (bu_user u) = Some (id_kind U)" using U by (simp add: kind_at_def)
  ultimately show ?case unfolding Cons.IH [OF fl'] by auto
qed

text \<open>C20. Splitting a block before an instruction, in a module with the invariant and with fresh keys for
  the new block and the jump.  Whenever it returns: the invariant holds again; the old block keeps its
  phis and the instructions before the split point and ends in the new jump, if one is asked for, and
  otherwise in nothing; the new block has no phis, the instructions from the split point on and the
  old terminator; no other block's lists change; and no phi names the old block as its predecessor any
  more, as the old terminator is now the new block's (the jump is not a phi).\<close>

theorem split_block_law:
  assumes inv: "module_inv M"
    and r: "split_block_at bkey ikey i add_terminator M = Some (nb, M')"
    and par: "parent_at M i = Some (Some p)"
    and L: "lists_at M p = Some (Lists ps (xs @ ir_inst i # ys) t)"
    and fresh: "block_at M (BlockRef (ir_func i) bkey) = None" "inst_at M (InstRef (ir_func i) ikey) = None"
  shows "nb = BlockRef (ir_func i) bkey \<and> module_inv M' \<and>
    lists_at M' = (lists_at M)(p \<mapsto> Lists ps xs (if add_terminator then Some ikey else None),
      nb \<mapsto> Lists [] (ir_inst i # ys) t) \<and>
    phi_reads M' p = {}"
proof -
  let ?f = "ir_func i" and ?zs = "ir_inst i # ys"
  let ?nb = "BlockRef ?f bkey" and ?j = "InstRef ?f ikey"
  have f: "br_func p = ?f" using inv par by (auto simp: module_inv_def place_inv_def)
  have ok: "block_ok M p (Lists ps (xs @ ?zs) t)"
    using inv L by (auto simp: module_inv_def intro: place_invD)
  from L obtain B where B: "block_at M p = Some B" "bd_phis B = ps" "bd_insts B = xs @ ?zs" "bd_terminator B = t"
    by (auto simp: lists_at_block)
  have pos: "position ((=) (ir_inst i)) (bd_insts B) = Some (length xs)"
  proof -
    have "ir_inst i \<notin> set xs" using ok by (auto simp: block_ok_def)
    then have "takeWhile (\<lambda>x. ir_inst i \<noteq> x) (xs @ ?zs) = xs"
      by (subst takeWhile_append2) auto
    then show ?thesis by (simp add: position_def B)
  qed
  obtain D where D: "inst_at M i = Some D" "id_parent D = Some p"
    using par by (auto simp: parent_at_def)
  from r obtain fl M1 M2 M3 M4 where
    fl: "mapM_opt (\<lambda>u. map_option (\<lambda>U. (u, is_phi (id_kind U))) (inst_at M (bu_user u))) (bd_uses B) = Some fl"
    and M1: "append_block bkey ?f None M = Some M1"
    and M2: "\<exists>B1. block_at M1 p = Some B1 \<and> fold_opt (move_inst ?f ?nb) (drop (length xs) (bd_insts B1)) M1 = Some M2"
    and M3: "\<exists>B2. block_at M2 p = Some B2 \<and> (case bd_terminator B2 of None \<Rightarrow> Some M2
       | Some t \<Rightarrow> Option.bind (detach_inst (InstRef ?f t) M2) (set_terminator ?nb (InstRef ?f t))) = Some M3"
    and M4: "fold_opt (\<lambda>u. replace_block_operand (bu_user u) (bu_slot u) ?nb) (map fst (filter snd fl)) M3 = Some M4"
    and fin: "nb = ?nb" "if add_terminator then \<exists>M5. new_inst ikey ?f VoidT (Branch bkey None) None M4 = Some M5 \<and>
       set_terminator p ?j M5 = Some M' else M' = M4"
    using D B pos by (auto simp: split_block_at_def Let_def bind_eq_Some_conv split: if_splits)
  have "\<not> live_block M ?nb" using fresh(1) by (simp add: live_block_def lists_at_def)
  then have inv1: "module_inv M1" and ne: "p \<noteq> ?nb"
    using append_block_inv [OF inv M1] L by (auto simp: live_block_def)
  note v1 = append_block_views [OF M1]
  have L1: "lists_at M1 p = Some (Lists ps (xs @ ?zs) t)" "lists_at M1 ?nb = Some (Lists [] [] None)"
    using v1(4) L ne by simp_all
  have m2: "fold_opt (move_inst ?f ?nb) ?zs M1 = Some M2"
    using M2 L1(1) by (auto simp: lists_at_block)
  note v2 = move_all_law [OF inv1 m2 ne f L1]
  have L2: "lists_at M2 p = Some (Lists ps xs t)" "lists_at M2 ?nb = Some (Lists [] ?zs None)"
    using v2 ne by simp_all
  have m3: "(case t of None \<Rightarrow> Some M2
       | Some t \<Rightarrow> Option.bind (detach_inst (InstRef ?f t) M2) (set_terminator ?nb (InstRef ?f t))) = Some M3"
    using M3 L2(1) by (auto simp: lists_at_block)
  note v3 = move_terminator_law [OF _ ne f L2 m3]
  have K3: "kind_at M3 = kind_at M" "attached M3 = attached M"
    using v1 v2 v3 by (simp_all add: attached_def fun_eq_iff)
  have use: "mirrors (block_uses M) (block_links M)" using inv by (simp add: module_inv_def use_inv_def)
  have bu: "block_uses M p = Some (bd_uses B)" using B(1) by (simp add: block_uses_def)
  have users: "u \<in> set (bd_uses B) \<longleftrightarrow> (p, u) \<in> block_links M" for u
    by (rule mirrors_mem [OF use bu])
  have links3: "block_links M3 = block_links M"
    using K3 by (simp add: block_links_def)
  have reads3: "phi_reads M3 p = set (map fst (filter snd fl))"
    unfolding phi_flags_uses [OF fl] phi_reads_def links3 K3(1) using users by blast
  have att: "\<forall>u \<in> set (map fst (filter snd fl)). attached M3 (bu_user u)"
  proof
    fix u assume "u \<in> set (map fst (filter snd fl))"
    then show "attached M3 (bu_user u)"
      unfolding reads3 [symmetric] by (cases u) (auto simp: phi_reads_def links3 K3 block_links_iff)
  qed
  note v4 = redirect_all [OF _ M4 att ne]
  have inv4: "module_inv M4" and L4: "lists_at M4 = lists_at M3" and reads4: "phi_reads M4 p = {}"
    using v2 v3 v4 reads3 by auto
  have L3: "lists_at M3 = (lists_at M)(p \<mapsto> Lists ps xs None, ?nb \<mapsto> Lists [] ?zs t)"
    using v1(4) v2 v3 by (auto simp: fun_eq_iff)
  show ?thesis
  proof (cases add_terminator)
    case False
    with fin inv4 L4 L3 reads4 show ?thesis by simp
  next
    case True
    with fin obtain M5 where M5: "new_inst ikey ?f VoidT (Branch bkey None) None M4 = Some M5"
      and M': "set_terminator p ?j M5 = Some M'" by auto
    have "kind_at M3 ?j = None" using fresh(2) K3 by (simp add: kind_at_def)
    then have "inst_at M3 ?j = None" by (simp add: kind_at_def)
    then have j4: "inst_at M4 ?j = None" using v2 v3 v4 by simp
    have inv5: "module_inv M5" by (rule new_inst_inv [OF inv4 M5 j4]) (simp add: kind_ok_def)
    note v5 = new_inst_views [OF M5]
    have "lists_at M5 p = Some (Lists ps xs None)" using v5(3) L4 L3 ne by simp
    note v6 = set_terminator_views [OF M' this]
    have "phi_reads M' p \<subseteq> phi_reads M4 p"
    proof
      fix u assume u: "u \<in> phi_reads M' p"
      obtain n s where us: "u = BlockUse n s" by (cases u)
      with u v6(2) v5(1) have n: "n \<noteq> ?j" by (auto simp: phi_reads_def is_phi_def)
      with u us v6(2,3) v5(1,2) show "u \<in> phi_reads M4 p"
        by (auto simp: phi_reads_def block_links_iff attached_def)
    qed
    then show ?thesis
      using True fin(1) reads4 set_terminator_inv [OF inv5 M'] v6(5) v5(3) L4 L3 ne
      by (auto simp: fun_eq_iff)
  qed
qed

lemma split_block_law_witness:
  "\<exists>M'. split_block_at 1 3 (InstRef 0 1) True ex_before = Some (BlockRef 0 1, M') \<and> module_inv M' \<and>
     lists_at M' blk = Some (Lists [] [0] (Some 3)) \<and> lists_at M' (BlockRef 0 1) = Some (Lists [] [1] None)"
proof -
  have inv: "module_inv ex_before" by (rule ex_before_inv)
  have par: "parent_at ex_before (InstRef 0 1) = Some (Some blk)"
    and L: "lists_at ex_before blk = Some (Lists [] ([0] @ ir_inst (InstRef 0 1) # []) None)"
    by (simp_all add: ex_before_def parent_at_def lists_at_def lists_of_def run_simps)
  have "split_block_at 1 3 (InstRef 0 1) True ex_before \<noteq> None"
    by (simp add: split_block_at_def move_inst_def append_inst_def detach_inst_def append_block_def new_inst_def
        set_terminator_def ex_before_def remove_nth_def run_simps)
  then obtain nb M' where r: "split_block_at 1 3 (InstRef 0 1) True ex_before = Some (nb, M')" by auto
  have "block_at ex_before (BlockRef (ir_func (InstRef 0 1)) 1) = None"
    "inst_at ex_before (InstRef (ir_func (InstRef 0 1)) 3) = None"
    by (simp_all add: ex_before_def run_simps)
  from split_block_law [OF inv r par L this] r show ?thesis by auto
qed

end
