(* ===== verification/IR_Algebraic.thy ===== *)
theory IR_Algebraic
  imports IR_Core_Props
begin

text \<open>
  Algebraic simplification of IR instructions (\<open>src/src/ir/opt/algebraic.rs\<close>).

  A constant the pass makes gets the key \<open>fresh\<close> chooses for the current constants, as in the rest of
  the module model.  A simplification is \<open>None\<close> when it panics and otherwise the simplified value, if
  there is one, with the module after it.  The reference for its soundness is \<open>binary_val\<close>, the
  meaning of a binary instruction on the unsigned readings of its operands, in which a division by
  zero, an overflowing signed division and a shift by the width or more are undefined.
\<close>

type_synonym fresh_const = "(const_id \<rightharpoonup> const_data) \<Rightarrow> const_id"

section \<open>Constants\<close>

definition int_width :: "ir_type \<Rightarrow> nat option" where
  "int_width ty = (case ty of IntT n \<Rightarrow> Some n | _ \<Rightarrow> None)"

text \<open>\<open>const_data(id).kind\<close> of a constant operand; a value of another sort gives \<open>Some None\<close>.\<close>

definition const_kind_of :: "module_core \<Rightarrow> value_id \<Rightarrow> const_kind option option" where
  "const_kind_of M v = (case v of VConst c \<Rightarrow> map_option (\<lambda>D. Some (cd_kind D)) (const_map M c) | _ \<Rightarrow> Some None)"

definition as_int_const :: "module_core \<Rightarrow> value_id \<Rightarrow> core_int option option" where
  "as_int_const M v = do {
     k \<leftarrow> const_kind_of M v;
     (case k of
        Some (CInt c) \<Rightarrow> Some (Some c)
      | Some CNull \<Rightarrow> map_option Some (ci_new 0 32)
      | Some CUndef \<Rightarrow> map_option Some (ci_new 0 1)
      | _ \<Rightarrow> Some None)
   }"

definition is_zero_const :: "module_core \<Rightarrow> value_id \<Rightarrow> bool option" where
  "is_zero_const M v = do {
     k \<leftarrow> const_kind_of M v;
     Some (case k of Some (CInt c) \<Rightarrow> as_u64 c = 0 | Some CNull \<Rightarrow> True | _ \<Rightarrow> False)
   }"

definition is_one_const :: "module_core \<Rightarrow> value_id \<Rightarrow> bool option" where
  "is_one_const M v = do {
     k \<leftarrow> const_kind_of M v;
     Some (case k of Some (CInt c) \<Rightarrow> as_u64 c = 1 | _ \<Rightarrow> False)
   }"

definition is_all_ones_const :: "module_core \<Rightarrow> value_id \<Rightarrow> ir_type \<Rightarrow> bool option" where
  "is_all_ones_const M v ty = do {
     k \<leftarrow> const_kind_of M v;
     Some (case k of
        Some (CInt c) \<Rightarrow> (case int_width ty of Some n \<Rightarrow> as_u64 c AND mask_for n = mask_for n | None \<Rightarrow> False)
      | _ \<Rightarrow> False)
   }"

definition make_const :: "fresh_const \<Rightarrow> ir_type \<Rightarrow> const_kind \<Rightarrow> module_core \<Rightarrow> value_id \<times> module_core" where
  "make_const fresh ty k M = (let c = fresh (const_map M) in (VConst c, add_const c ty k M))"

text \<open>\<open>Some(ValueId::Const(self.add_const(ty, ConstKind::Int(c))))\<close> for a computed \<open>c\<close>.\<close>

definition make_int ::
  "fresh_const \<Rightarrow> ir_type \<Rightarrow> core_int option \<Rightarrow> module_core \<Rightarrow> (value_id option \<times> module_core) option" where
  "make_int fresh ty c M =
     map_option (\<lambda>c. let (v, M') = make_const fresh ty (CInt c) M in (Some v, M')) c"

definition make_sized_const ::
  "fresh_const \<Rightarrow> (nat \<Rightarrow> u64) \<Rightarrow> ir_type \<Rightarrow> module_core \<Rightarrow> (value_id option \<times> module_core) option" where
  "make_sized_const fresh value ty M =
     (case int_width ty of None \<Rightarrow> Some (None, M) | Some n \<Rightarrow> make_int fresh ty (ci_new (value n) n) M)"

definition make_zero_const :: "fresh_const \<Rightarrow> ir_type \<Rightarrow> module_core \<Rightarrow> (value_id option \<times> module_core) option" where
  "make_zero_const fresh = make_sized_const fresh (\<lambda>n. 0)"

definition make_all_ones_const :: "fresh_const \<Rightarrow> ir_type \<Rightarrow> module_core \<Rightarrow> (value_id option \<times> module_core) option" where
  "make_all_ones_const fresh = make_sized_const fresh mask_for"

definition make_bool_const ::
  "fresh_const \<Rightarrow> bool \<Rightarrow> ir_type \<Rightarrow> module_core \<Rightarrow> (value_id option \<times> module_core) option" where
  "make_bool_const fresh b = make_sized_const fresh (\<lambda>n. if b then 1 else 0)"

section \<open>Folding and simplifying one instruction\<close>

definition fold_binary_op :: "binary_opcode \<Rightarrow> core_int \<Rightarrow> core_int \<Rightarrow> core_int option option" where
  "fold_binary_op op lhs rhs =
     (case op of
        Add \<Rightarrow> map_option Some (wrapping_add lhs rhs)
      | Sub \<Rightarrow> map_option Some (wrapping_sub lhs rhs)
      | Mul \<Rightarrow> map_option Some (wrapping_mul lhs rhs)
      | UDiv \<Rightarrow> checked_udiv lhs rhs
      | SDiv \<Rightarrow> checked_sdiv lhs rhs
      | URem \<Rightarrow> checked_urem lhs rhs
      | SRem \<Rightarrow> checked_srem lhs rhs
      | Shl \<Rightarrow> checked_shl lhs rhs
      | LShr \<Rightarrow> checked_lshr lhs rhs
      | AShr \<Rightarrow> checked_ashr lhs rhs
      | BitAnd \<Rightarrow> map_option Some (ci_bitand lhs rhs)
      | BitOr \<Rightarrow> map_option Some (ci_bitor lhs rhs)
      | BitXor \<Rightarrow> map_option Some (ci_bitxor lhs rhs))"

definition fold_binary_const_alg ::
  "fresh_const \<Rightarrow> binary_opcode \<Rightarrow> core_int \<Rightarrow> core_int \<Rightarrow> ir_type \<Rightarrow> module_core \<Rightarrow>
     (value_id option \<times> module_core) option" where
  "fold_binary_const_alg fresh op lhs rhs ty M = do {
     r \<leftarrow> fold_binary_op op lhs rhs;
     (case r of None \<Rightarrow> Some (None, M) | Some c \<Rightarrow> make_int fresh ty (Some c) M)
   }"

definition try_simplify_binary ::
  "fresh_const \<Rightarrow> binary_opcode \<Rightarrow> value_id \<Rightarrow> value_id \<Rightarrow> ir_type \<Rightarrow> module_core \<Rightarrow>
     (value_id option \<times> module_core) option" where
  "try_simplify_binary fresh op lhs rhs ty M = do {
     lc \<leftarrow> as_int_const M lhs;
     rc \<leftarrow> as_int_const M rhs;
     (case (lc, rc) of
        (Some a, Some b) \<Rightarrow> fold_binary_const_alg fresh op a b ty M
      | _ \<Rightarrow> do {
          lz \<leftarrow> is_zero_const M lhs;
          rz \<leftarrow> is_zero_const M rhs;
          l1 \<leftarrow> is_one_const M lhs;
          r1 \<leftarrow> is_one_const M rhs;
          la \<leftarrow> is_all_ones_const M lhs ty;
          ra \<leftarrow> is_all_ones_const M rhs ty;
          (case op of
             Add \<Rightarrow> if rz then Some (Some lhs, M) else if lz then Some (Some rhs, M) else Some (None, M)
           | Sub \<Rightarrow>
               if rz then Some (Some lhs, M)
               else if lhs = rhs then make_zero_const fresh ty M else Some (None, M)
           | Mul \<Rightarrow>
               if r1 then Some (Some lhs, M) else if l1 then Some (Some rhs, M)
               else if rz \<or> lz then make_zero_const fresh ty M else Some (None, M)
           | UDiv \<Rightarrow> if r1 then Some (Some lhs, M) else if lz then make_zero_const fresh ty M else Some (None, M)
           | SDiv \<Rightarrow> if r1 then Some (Some lhs, M) else if lz then make_zero_const fresh ty M else Some (None, M)
           | URem \<Rightarrow> if r1 \<or> lz then make_zero_const fresh ty M else Some (None, M)
           | SRem \<Rightarrow> if r1 \<or> lz then make_zero_const fresh ty M else Some (None, M)
           | BitAnd \<Rightarrow>
               if rz \<or> lz then make_zero_const fresh ty M
               else if ra then Some (Some lhs, M) else if la then Some (Some rhs, M)
               else if lhs = rhs then Some (Some lhs, M) else Some (None, M)
           | BitOr \<Rightarrow>
               if rz then Some (Some lhs, M) else if lz then Some (Some rhs, M)
               else if ra \<or> la then make_all_ones_const fresh ty M
               else if lhs = rhs then Some (Some lhs, M) else Some (None, M)
           | BitXor \<Rightarrow>
               if rz then Some (Some lhs, M) else if lz then Some (Some rhs, M)
               else if lhs = rhs then make_zero_const fresh ty M else Some (None, M)
           | _ \<Rightarrow> if rz then Some (Some lhs, M) else if lz then make_zero_const fresh ty M else Some (None, M))
        })
   }"

definition fold_icmp :: "icmp_code \<Rightarrow> core_int \<Rightarrow> core_int \<Rightarrow> bool option" where
  "fold_icmp op a b =
     (case op of
        CEq \<Rightarrow> cmp_eq a b | CNe \<Rightarrow> cmp_ne a b
      | CUgt \<Rightarrow> cmp_ugt a b | CUge \<Rightarrow> cmp_uge a b | CUlt \<Rightarrow> cmp_ult a b | CUle \<Rightarrow> cmp_ule a b
      | CSgt \<Rightarrow> cmp_sgt a b | CSge \<Rightarrow> cmp_sge a b | CSlt \<Rightarrow> cmp_slt a b | CSle \<Rightarrow> cmp_sle a b)"

definition icmp_reflexive :: "icmp_code \<Rightarrow> bool" where
  "icmp_reflexive op \<longleftrightarrow> op \<in> {CEq, CUge, CUle, CSge, CSle}"

definition try_simplify_icmp ::
  "fresh_const \<Rightarrow> icmp_code \<Rightarrow> value_id \<Rightarrow> value_id \<Rightarrow> ir_type \<Rightarrow> module_core \<Rightarrow>
     (value_id option \<times> module_core) option" where
  "try_simplify_icmp fresh op lhs rhs ty M = do {
     lc \<leftarrow> as_int_const M lhs;
     rc \<leftarrow> as_int_const M rhs;
     (case (lc, rc) of
        (Some a, Some b) \<Rightarrow> do { r \<leftarrow> fold_icmp op a b; make_bool_const fresh r ty M }
      | _ \<Rightarrow> if lhs = rhs then make_bool_const fresh (icmp_reflexive op) ty M else Some (None, M))
   }"

definition try_simplify_select :: "value_id \<Rightarrow> value_id \<Rightarrow> value_id \<Rightarrow> module_core \<Rightarrow> value_id option option" where
  "try_simplify_select cond then_val else_val M =
     (if then_val = else_val then Some (Some then_val)
      else do {
        c \<leftarrow> as_int_const M cond;
        Some (map_option (\<lambda>c. if as_u64 c \<noteq> 0 then then_val else else_val) c)
      })"

definition try_simplify_phi :: "(nat \<times> phi_incoming) list \<Rightarrow> value_id option" where
  "try_simplify_phi inc =
     (case map (pi_value \<circ> snd) inc of
        [] \<Rightarrow> None
      | first # values \<Rightarrow> if (\<forall>v \<in> set values. v = first) then Some first else None)"

definition try_fold_const_global_load ::
  "fresh_const \<Rightarrow> value_id \<Rightarrow> ir_type \<Rightarrow> module_core \<Rightarrow> (value_id option \<times> module_core) option" where
  "try_fold_const_global_load fresh ptr ty M =
     (case ptr of
        VGlobal g \<Rightarrow> do {
          D \<leftarrow> global_map M g;
          (case gd_kind D of
             GlobalVariable True (Some i) \<Rightarrow> do {
               C \<leftarrow> const_map M i;
               (case cd_kind C of
                  CInt c \<Rightarrow> if int_width ty \<noteq> None then make_int fresh ty (Some c) M else Some (None, M)
                | CNull \<Rightarrow> if ty = PtrT then (let (v, M') = make_const fresh ty CNull M in Some (Some v, M'))
                           else Some (None, M)
                | _ \<Rightarrow> Some (None, M))
             }
           | _ \<Rightarrow> Some (None, M))
        }
      | _ \<Rightarrow> Some (None, M))"

text \<open>The three casts of a constant; \<open>keep\<close> decides when the value itself is the result.\<close>

definition try_fold_cast ::
  "fresh_const \<Rightarrow> (nat \<Rightarrow> nat \<Rightarrow> bool) \<Rightarrow> (core_int \<Rightarrow> nat \<Rightarrow> core_int option) \<Rightarrow> value_id \<Rightarrow> ir_type \<Rightarrow>
     module_core \<Rightarrow> (value_id option \<times> module_core) option" where
  "try_fold_cast fresh keep cast value ty M = do {
     c \<leftarrow> as_int_const M value;
     (case c of
        None \<Rightarrow> Some (None, M)
      | Some c \<Rightarrow>
          (case int_width ty of
             None \<Rightarrow> Some (None, M)
           | Some n \<Rightarrow> if keep (bit_width c) n then Some (Some value, M) else make_int fresh ty (cast c n) M))
   }"

definition try_fold_trunc where
  "try_fold_trunc fresh = try_fold_cast fresh (\<lambda>w n. w \<le> n) trunc_to"

definition try_fold_zext where
  "try_fold_zext fresh = try_fold_cast fresh (\<lambda>w n. n \<le> w) zero_extend"

definition try_fold_sext where
  "try_fold_sext fresh = try_fold_cast fresh (\<lambda>w n. n \<le> w) sign_extend"

definition try_fold_ptr_to_int ::
  "fresh_const \<Rightarrow> value_id \<Rightarrow> ir_type \<Rightarrow> module_core \<Rightarrow> (value_id option \<times> module_core) option" where
  "try_fold_ptr_to_int fresh value ty M = do {
     k \<leftarrow> const_kind_of M value;
     if k = Some CNull then make_zero_const fresh ty M else Some (None, M)
   }"

definition try_simplify_inst ::
  "fresh_const \<Rightarrow> inst_ref \<Rightarrow> module_core \<Rightarrow> (value_id option \<times> module_core) option" where
  "try_simplify_inst fresh i M = do {
     D \<leftarrow> inst_at M i;
     (case id_kind D of
        Binary op lhs rhs \<Rightarrow> try_simplify_binary fresh op lhs rhs (id_ty D) M
      | ICmp op lhs rhs \<Rightarrow> try_simplify_icmp fresh op lhs rhs (id_ty D) M
      | Select c t e \<Rightarrow> map_option (\<lambda>r. (r, M)) (try_simplify_select c t e M)
      | Phi inc _ \<Rightarrow> Some (try_simplify_phi inc, M)
      | Load ptr \<Rightarrow> try_fold_const_global_load fresh ptr (id_ty D) M
      | Trunc v \<Rightarrow> try_fold_trunc fresh v (id_ty D) M
      | Zext v \<Rightarrow> try_fold_zext fresh v (id_ty D) M
      | Sext v \<Rightarrow> try_fold_sext fresh v (id_ty D) M
      | PtrToInt p \<Rightarrow> try_fold_ptr_to_int fresh p (id_ty D) M
      | _ \<Rightarrow> Some (None, M))
   }"

section \<open>The pass\<close>

text \<open>One round for the instruction popped from the work list: the users of the result are put back.\<close>

definition simplify_round ::
  "fresh_const \<Rightarrow> inst_ref \<Rightarrow> inst_ref list \<Rightarrow> module_core \<Rightarrow> (inst_ref list \<times> module_core) option" where
  "simplify_round fresh i work M = do {
     F \<leftarrow> func_map M (ir_func i);
     if fd_insts F (ir_inst i) = None then Some (work, M)
     else do {
       (r, M1) \<leftarrow> try_simplify_inst fresh i M;
       (case r of
          None \<Rightarrow> Some (work, M1)
        | Some result \<Rightarrow> do {
            M2 \<leftarrow> replace_all_uses_with (VInst i) result M1;
            us \<leftarrow> value_uses M2 result;
            own \<leftarrow> value_uses M2 (VInst i);
            M3 \<leftarrow> (if own = [] then erase_inst_from_parent i M2 else Some M2);
            Some (work @ map use_user us, M3)
          })
     }
   }"

text \<open>Running out of fuel is \<open>None\<close>, a panic is \<open>Some None\<close>.\<close>

fun simplify_loop :: "nat \<Rightarrow> fresh_const \<Rightarrow> inst_ref list \<Rightarrow> module_core \<Rightarrow> module_core option option" where
  "simplify_loop 0 fresh work M = None"
| "simplify_loop (Suc n) fresh work M =
     (if work = [] then Some (Some M)
      else case simplify_round fresh (last work) (butlast work) M of
        None \<Rightarrow> Some None
      | Some (work', M') \<Rightarrow> simplify_loop n fresh work' M')"

text \<open>\<open>keys\<close> are the instructions of the function in the order of its slot map.\<close>

definition func_algebraic_simplification ::
  "nat \<Rightarrow> fresh_const \<Rightarrow> inst_id list \<Rightarrow> function_id \<Rightarrow> module_core \<Rightarrow> module_core option option" where
  "func_algebraic_simplification fuel fresh keys f M =
     (case func_map M f of
        None \<Rightarrow> Some None
      | Some F \<Rightarrow> if fd_is_declare F then Some (Some M) else simplify_loop fuel fresh (map (InstRef f) keys) M)"

text \<open>The pass over the functions \<open>ids\<close> of the module in order.\<close>

fun opt_algebraic_simplification ::
  "nat \<Rightarrow> fresh_const \<Rightarrow> (function_id \<Rightarrow> module_core \<Rightarrow> inst_id list) \<Rightarrow> function_id list \<Rightarrow> module_core \<Rightarrow>
     module_core option option" where
  "opt_algebraic_simplification fuel fresh keys [] M = Some (Some M)"
| "opt_algebraic_simplification fuel fresh keys (f # ids) M =
     (case func_algebraic_simplification fuel fresh (keys f M) f M of
        Some (Some M') \<Rightarrow> opt_algebraic_simplification fuel fresh keys ids M'
      | r \<Rightarrow> r)"

end
