(* ===== verification/IR_Scalar_Sem.thy ===== *)
theory IR_Scalar_Sem
  imports IR_Algebraic
begin

text \<open>
  The meaning of the scalar instructions on unsigned readings, and the constant folder of
  \<open>src/src/ir/opt/algebraic.rs\<close> against it.
\<close>

unbundle bit_operations_syntax

section \<open>Reference meaning\<close>

definition signed_of :: "nat \<Rightarrow> int \<Rightarrow> int" where
  "signed_of n x = signed_take_bit (n - 1) x"

fun binary_val :: "binary_opcode \<Rightarrow> nat \<Rightarrow> int \<Rightarrow> int \<Rightarrow> int option" where
  "binary_val Add n a b = Some ((a + b) mod 2 ^ n)"
| "binary_val Sub n a b = Some ((a - b) mod 2 ^ n)"
| "binary_val Mul n a b = Some ((a * b) mod 2 ^ n)"
| "binary_val UDiv n a b = (if b = 0 then None else Some (a div b))"
| "binary_val URem n a b = (if b = 0 then None else Some (a mod b))"
| "binary_val SDiv n a b =
     (if b = 0 \<or> (signed_of n a = - (2 ^ (n - 1)) \<and> signed_of n b = - 1) then None
      else Some (tdiv (signed_of n a) (signed_of n b) mod 2 ^ n))"
| "binary_val SRem n a b =
     (if b = 0 \<or> (signed_of n a = - (2 ^ (n - 1)) \<and> signed_of n b = - 1) then None
      else Some (trem (signed_of n a) (signed_of n b) mod 2 ^ n))"
| "binary_val Shl n a b = (if int n \<le> b then None else Some ((a * 2 ^ nat b) mod 2 ^ n))"
| "binary_val LShr n a b = (if int n \<le> b then None else Some (a div 2 ^ nat b))"
| "binary_val AShr n a b = (if int n \<le> b then None else Some ((signed_of n a div 2 ^ nat b) mod 2 ^ n))"
| "binary_val BitAnd n a b = Some (a AND b)"
| "binary_val BitOr n a b = Some (a OR b)"
| "binary_val BitXor n a b = Some (a XOR b)"

fun icmp_val :: "icmp_code \<Rightarrow> nat \<Rightarrow> int \<Rightarrow> int \<Rightarrow> bool" where
  "icmp_val CEq n a b \<longleftrightarrow> a = b"
| "icmp_val CNe n a b \<longleftrightarrow> a \<noteq> b"
| "icmp_val CUgt n a b \<longleftrightarrow> a > b"
| "icmp_val CUge n a b \<longleftrightarrow> a \<ge> b"
| "icmp_val CUlt n a b \<longleftrightarrow> a < b"
| "icmp_val CUle n a b \<longleftrightarrow> a \<le> b"
| "icmp_val CSgt n a b \<longleftrightarrow> signed_of n a > signed_of n b"
| "icmp_val CSge n a b \<longleftrightarrow> signed_of n a \<ge> signed_of n b"
| "icmp_val CSlt n a b \<longleftrightarrow> signed_of n a < signed_of n b"
| "icmp_val CSle n a b \<longleftrightarrow> signed_of n a \<le> signed_of n b"

text \<open>The value of a scalar instruction whose operands have width \<open>w\<close> and whose type has width \<open>n\<close>.\<close>

definition inst_val :: "(value_id \<Rightarrow> int option) \<Rightarrow> nat \<Rightarrow> nat \<Rightarrow> inst_kind \<Rightarrow> int option" where
  "inst_val env w n k =
     (case k of
        Binary op l r \<Rightarrow> do { a \<leftarrow> env l; b \<leftarrow> env r; binary_val op w a b }
      | ICmp op l r \<Rightarrow> do { a \<leftarrow> env l; b \<leftarrow> env r; Some (if icmp_val op w a b then 1 else 0) }
      | Select c t e \<Rightarrow> do { b \<leftarrow> env c; if b \<noteq> 0 then env t else env e }
      | Trunc v \<Rightarrow> map_option (\<lambda>a. a mod 2 ^ n) (env v)
      | Zext v \<Rightarrow> env v
      | Sext v \<Rightarrow> map_option (\<lambda>a. signed_of w a mod 2 ^ n) (env v)
      | _ \<Rightarrow> None)"

text \<open>The operations that read a sign: they are not folded at width 1, where \<open>as_i64\<close> reads a set bit
  as 1.\<close>

definition signed_op :: "binary_opcode \<Rightarrow> bool" where
  "signed_op op \<longleftrightarrow> op \<in> {SDiv, SRem, AShr}"

definition signed_cmp :: "icmp_code \<Rightarrow> bool" where
  "signed_cmp op \<longleftrightarrow> op \<in> {CSgt, CSge, CSlt, CSle}"

section \<open>Well-formed integers and their readings\<close>

lemma ci_unsigned_range: "ci_wf c \<Longrightarrow> 0 \<le> ci_unsigned c \<and> ci_unsigned c < 2 ^ bit_width c"
  by (simp add: ci_unsigned_def ci_wf_uint_less)

lemma ci_signed_of: "ci_signed c = signed_of (bit_width c) (ci_unsigned c)"
  by (simp add: ci_signed_def ci_unsigned_def signed_of_def)

lemma ci_unsigned_new:
  "1 \<le> n \<Longrightarrow> n \<le> 64 \<Longrightarrow> ci_new v n = Some c \<Longrightarrow> ci_unsigned c = uint v mod 2 ^ n"
  by (auto simp: ci_new_Some ci_unsigned_def unsigned_take_bit_eq simp flip: take_bit_eq_mod)

lemma signed_of_mod: "0 < n \<Longrightarrow> signed_of n x mod 2 ^ n = x mod 2 ^ n"
  by (simp add: signed_of_def take_bit_signed_take_bit flip: take_bit_eq_mod)

lemma signed_of_small: "0 \<le> x \<Longrightarrow> x < 2 ^ (n - 1) \<Longrightarrow> signed_of n x = x"
  by (simp add: signed_of_def signed_take_bit_int_eq_self_iff)

lemma signed_of_zero [simp]: "signed_of n 0 = 0"
  by (simp add: signed_of_def)

lemma signed_of_eq_zero_iff: "0 \<le> x \<Longrightarrow> x < 2 ^ n \<Longrightarrow> 0 < n \<Longrightarrow> signed_of n x = 0 \<longleftrightarrow> x = 0"
  using signed_of_mod [of n x] by auto

section \<open>The folder computes the reference meaning\<close>

text \<open>A refused operation is undefined, and a folded one has the value of the reference.\<close>

definition folds_to :: "nat \<Rightarrow> core_int option option \<Rightarrow> int option \<Rightarrow> bool" where
  "folds_to n r x \<longleftrightarrow>
     (\<exists>c. r = Some c \<and> (\<forall>y. x = Some y \<longrightarrow> (\<exists>d. c = Some d \<and> ci_wf d \<and> bit_width d = n \<and> ci_unsigned d = y)))"

lemma folds_to_new:
  assumes "1 \<le> n" "n \<le> 64" and "uint v mod 2 ^ n = y"
  shows "folds_to n (map_option Some (ci_new v n)) (Some y)"
proof -
  obtain c where c: "ci_new v n = Some c" using assms by (simp add: ci_new_Some)
  with ci_unsigned_new [OF assms(1,2) c] ci_new_wf [OF c] assms(3) show ?thesis
    by (auto simp: folds_to_def)
qed

lemma folds_to_none: "folds_to n (Some r) None"
  by (simp add: folds_to_def)

lemma unsigned_small:
  assumes "ci_wf a" "0 \<le> x" "x \<le> ci_unsigned a"
  shows "x mod 2 ^ bit_width a = x"
  using assms ci_unsigned_range [of a] by simp

lemma fold_arith:
  assumes wf: "ci_wf a" "bit_width a = n" and b: "bit_width b = n"
  shows "folds_to n (map_option Some (wrapping_add a b)) (Some ((ci_unsigned a + ci_unsigned b) mod 2 ^ n))"
    "folds_to n (map_option Some (wrapping_sub a b)) (Some ((ci_unsigned a - ci_unsigned b) mod 2 ^ n))"
    "folds_to n (map_option Some (wrapping_mul a b)) (Some ((ci_unsigned a * ci_unsigned b) mod 2 ^ n))"
proof -
  have ab: "bit_width b = bit_width a" using wf(2) b by simp
  note arith = wrapping_arith_mod [OF wf(1) ab]
  have wfs: "wrapping_add a b = Some c \<Longrightarrow> ci_wf c \<and> bit_width c = n"
    "wrapping_sub a b = Some c \<Longrightarrow> ci_wf c \<and> bit_width c = n"
    "wrapping_mul a b = Some c \<Longrightarrow> ci_wf c \<and> bit_width c = n" for c
    using wrapping_ops_wf [of _ a b c] wf(2) by auto
  show "folds_to n (map_option Some (wrapping_add a b)) (Some ((ci_unsigned a + ci_unsigned b) mod 2 ^ n))"
    "folds_to n (map_option Some (wrapping_sub a b)) (Some ((ci_unsigned a - ci_unsigned b) mod 2 ^ n))"
    "folds_to n (map_option Some (wrapping_mul a b)) (Some ((ci_unsigned a * ci_unsigned b) mod 2 ^ n))"
    using arith wfs wf(2) by (auto simp: folds_to_def)
qed

lemma fold_bits:
  assumes wf: "ci_wf a" "ci_wf b" "bit_width a = n" "bit_width b = n"
  shows "folds_to n (map_option Some (ci_bitand a b)) (Some (ci_unsigned a AND ci_unsigned b))"
    "folds_to n (map_option Some (ci_bitor a b)) (Some (ci_unsigned a OR ci_unsigned b))"
    "folds_to n (map_option Some (ci_bitxor a b)) (Some (ci_unsigned a XOR ci_unsigned b))"
proof -
  have n: "1 \<le> n" "n \<le> 64" using wf by (auto simp: ci_wf_def)
  have t: "take_bit n (uint (ci_value a)) = uint (ci_value a)" "take_bit n (uint (ci_value b)) = uint (ci_value b)"
    using wf by (auto simp: ci_wf_def simp flip: unsigned_take_bit_eq)
  have e: "(uint (ci_value a) AND uint (ci_value b)) mod 2 ^ n = uint (ci_value a) AND uint (ci_value b)"
    "(uint (ci_value a) OR uint (ci_value b)) mod 2 ^ n = uint (ci_value a) OR uint (ci_value b)"
    "(uint (ci_value a) XOR uint (ci_value b)) mod 2 ^ n = uint (ci_value a) XOR uint (ci_value b)"
    using t by (simp_all add: take_bit_and take_bit_or take_bit_xor flip: take_bit_eq_mod)
  show "folds_to n (map_option Some (ci_bitand a b)) (Some (ci_unsigned a AND ci_unsigned b))"
    "folds_to n (map_option Some (ci_bitor a b)) (Some (ci_unsigned a OR ci_unsigned b))"
    "folds_to n (map_option Some (ci_bitxor a b)) (Some (ci_unsigned a XOR ci_unsigned b))"
    using wf folds_to_new [OF n, of "ci_value a AND ci_value b"] folds_to_new [OF n, of "ci_value a OR ci_value b"]
      folds_to_new [OF n, of "ci_value a XOR ci_value b"]
    by (simp_all add: ci_bitand_def ci_bitor_def ci_bitxor_def assert_same_bit_width_same ci_unsigned_def
        uint_and uint_or uint_xor e)
qed

lemma fold_udiv:
  assumes wf: "ci_wf a" "ci_wf b" "bit_width a = n" "bit_width b = n"
  shows "folds_to n (checked_udiv a b) (binary_val UDiv n (ci_unsigned a) (ci_unsigned b))"
    "folds_to n (checked_urem a b) (binary_val URem n (ci_unsigned a) (ci_unsigned b))"
proof -
  have n: "1 \<le> n" "n \<le> 64" using wf by (auto simp: ci_wf_def)
  have lt: "uint (ci_value a) < 2 ^ n" "uint (ci_value b) < 2 ^ n"
    using ci_wf_uint_less [of a] ci_wf_uint_less [of b] wf by simp_all
  show "folds_to n (checked_udiv a b) (binary_val UDiv n (ci_unsigned a) (ci_unsigned b))"
  proof (cases "ci_value b = 0")
    case True
    with wf show ?thesis
      by (simp add: checked_udiv_def assert_same_bit_width_same u64_checked_div_def ci_map_new_def ci_unsigned_def folds_to_none)
  next
    case False
    have b0: "uint (ci_value b) \<noteq> 0" using False by (simp add: uint_0_iff)
    have "uint (ci_value a div ci_value b) = uint (ci_value a) div uint (ci_value b)" by (rule uint_div)
    moreover have "uint (ci_value a) div uint (ci_value b) \<le> uint (ci_value a)"
      by (metis div_by_1 b0 int_one_le_iff_zero_less uint_ge_0 zdiv_mono2 order_less_le zero_less_one)
    ultimately have "uint (ci_value a div ci_value b) mod 2 ^ n = uint (ci_value a) div uint (ci_value b)"
      using lt by (simp add: div_int_pos_iff)
    from folds_to_new [OF n this] False wf b0 show ?thesis
      by (simp add: checked_udiv_def assert_same_bit_width_same u64_checked_div_def ci_map_new_def ci_unsigned_def)
  qed
  show "folds_to n (checked_urem a b) (binary_val URem n (ci_unsigned a) (ci_unsigned b))"
  proof (cases "ci_value b = 0")
    case True
    with wf show ?thesis
      by (simp add: checked_urem_def assert_same_bit_width_same u64_checked_rem_def ci_map_new_def ci_unsigned_def folds_to_none)
  next
    case False
    have b0: "0 < uint (ci_value b)" using False by (metis uint_0_iff uint_ge_0 order_less_le)
    have "uint (ci_value a mod ci_value b) = uint (ci_value a) mod uint (ci_value b)" by (rule uint_mod)
    moreover have "uint (ci_value a) mod uint (ci_value b) < 2 ^ n" using b0 lt by (smt (verit) pos_mod_bound)
    ultimately have "uint (ci_value a mod ci_value b) mod 2 ^ n = uint (ci_value a) mod uint (ci_value b)"
      using b0 by simp
    from folds_to_new [OF n this] False wf b0 show ?thesis
      by (simp add: checked_urem_def assert_same_bit_width_same u64_checked_rem_def ci_map_new_def ci_unsigned_def)
  qed
qed

lemma folds_to_wf:
  assumes "c = Some (Some d)" "ci_wf d" "bit_width d = n" "ci_unsigned d = y"
  shows "folds_to n c (Some y)"
  using assms by (simp add: folds_to_def)

lemma fold_sdiv:
  assumes wf: "ci_wf a" "ci_wf b" "bit_width a = n" "bit_width b = n" and n1: "n \<noteq> 1"
  shows "folds_to n (checked_sdiv a b) (binary_val SDiv n (ci_unsigned a) (ci_unsigned b))"
    "folds_to n (checked_srem a b) (binary_val SRem n (ci_unsigned a) (ci_unsigned b))"
proof -
  let ?ref = "ci_signed b = 0 \<or> (ci_signed a = - (2 ^ 63) \<and> ci_signed b = - 1)"
  have n: "1 \<le> n" "n \<le> 64" using wf by (auto simp: ci_wf_def)
  have bw: "bit_width b = bit_width a" "bit_width a \<noteq> 1" using wf n1 by simp_all
  note cases = checked_sdiv_srem_cases [OF wf(1,2) bw]
  have sa: "ci_signed a = signed_of n (ci_unsigned a)" and sb: "ci_signed b = signed_of n (ci_unsigned b)"
    using wf by (simp_all add: ci_signed_of)
  have b0: "ci_signed b = 0 \<longleftrightarrow> ci_unsigned b = 0"
    unfolding sb by (rule signed_of_eq_zero_iff) (use wf n ci_unsigned_range [of b] in auto)
  have mods: "ci_unsigned c = x mod 2 ^ n" if "ci_wf c" "bit_width c = n" "ci_signed c = signed_take_bit (n - 1) x" for c x
    using ci_signed_mod [OF that(1)] that n signed_of_mod [of n x] by (simp add: signed_of_def)
  show "folds_to n (checked_sdiv a b) (binary_val SDiv n (ci_unsigned a) (ci_unsigned b))"
    "folds_to n (checked_srem a b) (binary_val SRem n (ci_unsigned a) (ci_unsigned b))"
  proof (atomize (full), cases ?ref)
    case True
    have "binary_val SDiv n (ci_unsigned a) (ci_unsigned b) = None \<and> binary_val SRem n (ci_unsigned a) (ci_unsigned b) = None"
    proof (cases "ci_signed b = 0")
      case False
      with True have "ci_signed a = - (2 ^ 63)" "ci_signed b = - 1" by auto
      moreover have "- (2 ^ (n - 1)) \<le> ci_signed a" using ci_signed_range(1) [OF wf(1)] wf(3) by simp
      then have "n = 64" using n \<open>ci_signed a = - (2 ^ 63)\<close> power_strict_increasing_iff [of "2 :: int" "n - 1" 63]
        by (cases "n = 64") auto
      ultimately show ?thesis using sa sb by simp
    qed (use b0 in simp)
    with cases(1) [OF True] show "folds_to n (checked_sdiv a b) (binary_val SDiv n (ci_unsigned a) (ci_unsigned b)) \<and>
        folds_to n (checked_srem a b) (binary_val SRem n (ci_unsigned a) (ci_unsigned b))"
      by (simp add: folds_to_none del: binary_val.simps)
  next
    case False
    from cases(2) [OF this] obtain q r where q: "checked_sdiv a b = Some (Some q)" and r: "checked_srem a b = Some (Some r)"
      and qs: "ci_signed q = signed_take_bit (n - 1) (tdiv (ci_signed a) (ci_signed b))"
      and rs: "ci_signed r = signed_take_bit (n - 1) (trem (ci_signed a) (ci_signed b))"
      using wf(3) by auto
    have qw: "ci_wf q" "bit_width q = n" and rw: "ci_wf r" "bit_width r = n"
      using checked_ops_wf [of checked_sdiv a b q] checked_ops_wf [of checked_srem a b r] q r wf(3) by simp_all
    from mods [OF qw qs] mods [OF rw rs] q r qw rw
    show "folds_to n (checked_sdiv a b) (binary_val SDiv n (ci_unsigned a) (ci_unsigned b)) \<and>
        folds_to n (checked_srem a b) (binary_val SRem n (ci_unsigned a) (ci_unsigned b))"
      by (auto simp: sa sb folds_to_def)
  qed
qed

lemma fold_shift:
  assumes wf: "ci_wf a" "ci_wf b" "bit_width a = n" "bit_width b = n"
  shows "folds_to n (checked_shl a b) (binary_val Shl n (ci_unsigned a) (ci_unsigned b))"
    "folds_to n (checked_lshr a b) (binary_val LShr n (ci_unsigned a) (ci_unsigned b))"
    "n \<noteq> 1 \<Longrightarrow> folds_to n (checked_ashr a b) (binary_val AShr n (ci_unsigned a) (ci_unsigned b))"
proof -
  have n: "1 \<le> n" "n \<le> 64" using wf by (auto simp: ci_wf_def)
  have le: "of_nat n \<le> ci_value b \<longleftrightarrow> int n \<le> ci_unsigned b"
    using n by (simp add: word_le_def ci_unsigned_def unsigned_of_nat take_bit_nat_eq_self)
  have k: "shift_amount (ci_value b) = nat (ci_unsigned b)" if "\<not> int n \<le> ci_unsigned b"
  proof -
    have "uint (ci_value b) < 64" using that n by (simp add: ci_unsigned_def)
    then have "uint (ci_value b AND 63) = uint (ci_value b)"
      using take_bit_eq_mask [of 6 "uint (ci_value b)"] take_bit_int_eq_self [of "uint (ci_value b)" 6]
      by (simp add: uint_and mask_eq_exp_minus_1)
    then show ?thesis by (simp only: shift_amount_def ci_unsigned_def unat_eq_nat_uint)
  qed
  have lt: "uint (ci_value a) < 2 ^ n" using ci_wf_uint_less [OF wf(1)] wf(3) by simp
  show "folds_to n (checked_shl a b) (binary_val Shl n (ci_unsigned a) (ci_unsigned b))"
  proof (cases "int n \<le> ci_unsigned b")
    case False
    have "uint (push_bit (nat (ci_unsigned b)) (ci_value a)) mod 2 ^ n = (ci_unsigned a * 2 ^ nat (ci_unsigned b)) mod 2 ^ n"
    proof -
      have "uint (push_bit k v) = take_bit 64 (uint v * 2 ^ k)" for k and v :: u64
      proof -
        have "uint (push_bit k v) = take_bit LENGTH(64) (push_bit k (uint v))" by (rule unsigned_push_bit_eq)
        then show ?thesis by (simp only: push_bit_eq_mult [of k "uint v"]) simp
      qed
      then show ?thesis using n by (simp add: ci_unsigned_def min_def flip: take_bit_eq_mod)
    qed
    from folds_to_new [OF n this] False le k [OF False] wf show ?thesis
      by (simp add: checked_shl_def assert_same_bit_width_same)
  qed (use le wf in \<open>simp add: checked_shl_def assert_same_bit_width_same folds_to_none\<close>)
  show "folds_to n (checked_lshr a b) (binary_val LShr n (ci_unsigned a) (ci_unsigned b))"
  proof (cases "int n \<le> ci_unsigned b")
    case False
    have dle: "uint (ci_value a) div 2 ^ nat (ci_unsigned b) \<le> uint (ci_value a)"
      by (metis div_by_1 one_le_power one_le_numeral uint_ge_0 zdiv_mono2 zero_less_one)
    have "uint (drop_bit (nat (ci_unsigned b)) (ci_value a)) mod 2 ^ n = ci_unsigned a div 2 ^ nat (ci_unsigned b)"
    proof -
      have "uint (drop_bit k v) = uint v div 2 ^ k" for k and v :: u64
      proof -
        have "uint (drop_bit k v) = drop_bit k (take_bit LENGTH(64) (uint v))" by (rule unsigned_drop_bit_eq)
        also have "take_bit LENGTH(64) (uint v) = uint v" using uint_lt2p [of v] by (simp add: take_bit_int_eq_self)
        finally show ?thesis by (simp only: drop_bit_eq_div)
      qed
      with dle show ?thesis using lt by (simp add: ci_unsigned_def div_int_pos_iff)
    qed
    from folds_to_new [OF n this] False le k [OF False] wf show ?thesis
      by (simp add: checked_lshr_def assert_same_bit_width_same)
  qed (use le wf in \<open>simp add: checked_lshr_def assert_same_bit_width_same folds_to_none\<close>)
  assume n1: "n \<noteq> 1"
  show "folds_to n (checked_ashr a b) (binary_val AShr n (ci_unsigned a) (ci_unsigned b))"
  proof (cases "int n \<le> ci_unsigned b")
    case False
    have s: "sint (as_i64 a) = signed_of n (ci_unsigned a)"
      using sint_as_i64 [OF wf(1)] n1 wf(3) by (simp add: ci_signed_of)
    have "uint w mod 2 ^ n = sint w mod 2 ^ n" for w :: "64 word"
    proof -
      have "take_bit n (take_bit 64 (sint w)) = take_bit n (sint w)" using n by (simp add: min_def)
      then show ?thesis by (simp add: uint_sint flip: take_bit_eq_mod)
    qed
    then have "uint (signed_drop_bit (nat (ci_unsigned b)) (as_i64 a)) mod 2 ^ n =
        (signed_of n (ci_unsigned a) div 2 ^ nat (ci_unsigned b)) mod 2 ^ n"
      by (simp add: sint_signed_drop_bit_eq s drop_bit_eq_div)
    from folds_to_new [OF n this] False le k [OF False] wf show ?thesis
      by (simp add: checked_ashr_def from_signed_def assert_same_bit_width_same)
  qed (use le wf in \<open>simp add: checked_ashr_def assert_same_bit_width_same folds_to_none\<close>)
qed

lemma fold_binary_correct:
  assumes wf: "ci_wf a" "ci_wf b" "bit_width a = n" "bit_width b = n" and s: "signed_op op \<Longrightarrow> n \<noteq> 1"
  shows "folds_to n (fold_binary_op op a b) (binary_val op n (ci_unsigned a) (ci_unsigned b))"
  using fold_arith [OF wf(1,3,4)] fold_bits [OF wf] fold_udiv [OF wf] fold_sdiv [OF wf] fold_shift [OF wf] s
  by (cases op) (simp_all add: fold_binary_op_def signed_op_def del: binary_val.simps(4-10))

lemma fold_icmp_correct:
  assumes wf: "ci_wf a" "ci_wf b" "bit_width a = n" "bit_width b = n" and s: "signed_cmp op \<Longrightarrow> n \<noteq> 1"
  shows "fold_icmp op a b = Some (icmp_val op n (ci_unsigned a) (ci_unsigned b))"
proof -
  have sa: "n \<noteq> 1 \<Longrightarrow> sint (as_i64 a) = signed_of n (ci_unsigned a)" "n \<noteq> 1 \<Longrightarrow> sint (as_i64 b) = signed_of n (ci_unsigned b)"
    using sint_as_i64 [OF wf(1)] sint_as_i64 [OF wf(2)] wf by (simp_all add: ci_signed_of)
  have e: "ci_value a = ci_value b \<longleftrightarrow> uint (ci_value a) = uint (ci_value b)" by (rule word_eq_iff_unsigned)
  show ?thesis
    using wf s sa
    by (cases op) (auto simp: e fold_icmp_def signed_cmp_def cmp_eq_def cmp_ne_def cmp_ugt_def cmp_uge_def cmp_ult_def
        cmp_ule_def cmp_sgt_def cmp_sge_def cmp_slt_def cmp_sle_def assert_same_bit_width_same ci_unsigned_def
        word_less_def word_le_def)
qed

end
