(* ===== verification/IR_Algebraic_Props.thy ===== *)
theory IR_Algebraic_Props
  imports IR_Scalar_Sem
begin

text \<open>
  Soundness of the algebraic simplification (\<open>src/src/ir/opt/algebraic.rs\<close>): a simplified scalar
  instruction has the value of the instruction, and the pass terminates and keeps the module's
  invariant.
\<close>

unbundle bit_operations_syntax

section \<open>Typed operands and environments\<close>

text \<open>An operand of width \<open>n\<close>: an integer constant of that width or a value that is not a constant.\<close>

definition typed_operand :: "module_core \<Rightarrow> (value_id \<Rightarrow> nat) \<Rightarrow> nat \<Rightarrow> value_id \<Rightarrow> bool" where
  "typed_operand M wd n v \<longleftrightarrow>
     (case const_kind_of M v of
        Some None \<Rightarrow> wd v = n
      | Some (Some (CInt c)) \<Rightarrow> ci_wf c \<and> bit_width c = n
      | _ \<Rightarrow> False)"

text \<open>An environment gives unsigned readings: constants have their own, other values one in range.\<close>

definition env_ok :: "module_core \<Rightarrow> (value_id \<Rightarrow> nat) \<Rightarrow> (value_id \<Rightarrow> int option) \<Rightarrow> bool" where
  "env_ok M wd env \<longleftrightarrow>
     (\<forall>c D i. const_map M c = Some D \<and> cd_kind D = CInt i \<longrightarrow> env (VConst c) = Some (ci_unsigned i)) \<and>
     (\<forall>v a. env v = Some a \<and> (\<forall>c. v \<noteq> VConst c) \<longrightarrow> 0 \<le> a \<and> a < 2 ^ wd v)"

lemma env_ok_mono: "env_ok M' wd env \<Longrightarrow> const_map M \<subseteq>\<^sub>m const_map M' \<Longrightarrow> env_ok M wd env"
  unfolding env_ok_def map_le_def by (metis domI)

lemma typed_cases [consumes 1, case_names other int]:
  assumes "typed_operand M wd n v"
  obtains "const_kind_of M v = Some None" "wd v = n" "\<forall>c. v \<noteq> VConst c"
  | c i D where "const_kind_of M v = Some (Some (CInt i))" "ci_wf i" "bit_width i = n" "v = VConst c"
      "const_map M c = Some D" "cd_kind D = CInt i"
  using assms
  by (cases v) (auto simp: typed_operand_def const_kind_of_def split: option.splits const_kind.splits)

lemma operand_range:
  assumes t: "typed_operand M wd n v" and e: "env_ok M wd env" and v: "env v = Some a"
  shows "0 \<le> a" "a < 2 ^ n"
proof -
  from t have "0 \<le> a \<and> a < 2 ^ n"
  proof (cases rule: typed_cases)
    case other
    with e v show ?thesis unfolding env_ok_def by blast
  next
    case (int c i D)
    with e v ci_unsigned_range [of i] show ?thesis by (auto simp: env_ok_def)
  qed
  then show "0 \<le> a" "a < 2 ^ n" by simp_all
qed

text \<open>What the tests on an operand tell about its value.\<close>

lemma typed_tests:
  assumes t: "typed_operand M wd n v"
  obtains c z l ones where "as_int_const M v = Some c" "is_zero_const M v = Some z" "is_one_const M v = Some l"
    "is_all_ones_const M v (IntT n) = Some ones"
    "\<And>i. c = Some i \<Longrightarrow> ci_wf i \<and> bit_width i = n \<and> (\<forall>env. env_ok M wd env \<longrightarrow> env v = Some (ci_unsigned i))"
    "\<And>env a. z \<Longrightarrow> env_ok M wd env \<Longrightarrow> env v = Some a \<Longrightarrow> a = 0"
    "\<And>env a. l \<Longrightarrow> env_ok M wd env \<Longrightarrow> env v = Some a \<Longrightarrow> a = 1"
    "\<And>env a. ones \<Longrightarrow> env_ok M wd env \<Longrightarrow> env v = Some a \<Longrightarrow> a = mask n"
  using t
proof (cases rule: typed_cases)
  case other
  show thesis
    by (rule that [of None False False False])
      (simp_all add: other as_int_const_def is_zero_const_def is_one_const_def is_all_ones_const_def)
next
  case (int c i D)
  have val: "env v = Some (ci_unsigned i)" if "env_ok M wd env" for env
    using that int by (auto simp: env_ok_def)
  have val': "a = ci_unsigned i" if "env_ok M wd env" "env v = Some a" for env a
    using val [OF that(1)] that(2) by simp
  have n: "n \<le> 64" using int by (auto simp: ci_wf_def)
  have t: "take_bit n (ci_value i) = ci_value i" using int by (auto simp: ci_wf_def)
  have ones: "ci_unsigned i = mask n" if "ci_value i AND mask_for n = mask_for n"
  proof -
    have "ci_value i = mask n" using that t by (simp add: mask_for_eq_mask flip: take_bit_eq_mask)
    then show ?thesis using n by (simp add: ci_unsigned_def uint_mask_eq min_def)
  qed
  show thesis
    by (rule that [of "Some i" "as_u64 i = 0" "as_u64 i = 1" "as_u64 i AND mask_for n = mask_for n"])
      (use int(1-3) val ones in \<open>auto dest!: val' simp: as_int_const_def is_zero_const_def is_one_const_def is_all_ones_const_def
         int_width_def as_u64_def ci_unsigned_def\<close>)
qed

section \<open>Simplified values\<close>

text \<open>A simplification returns without panic, keeps the constants there are, and the value it names has
  the value \<open>val\<close> gives, wherever that is defined.\<close>

definition simplifies ::
  "module_core \<Rightarrow> (value_id \<Rightarrow> nat) \<Rightarrow> ((value_id \<Rightarrow> int option) \<Rightarrow> int option) \<Rightarrow>
     (value_id option \<times> module_core) option \<Rightarrow> bool" where
  "simplifies M wd val r \<longleftrightarrow>
     (\<exists>v M'. r = Some (v, M') \<and> const_map M \<subseteq>\<^sub>m const_map M' \<and>
        (\<forall>w env y. v = Some w \<longrightarrow> env_ok M' wd env \<longrightarrow> val env = Some y \<longrightarrow> env w = Some y))"

lemma simplifies_none: "simplifies M wd val (Some (None, M))"
  by (simp add: simplifies_def)

lemma simplifies_if:
  "(c \<Longrightarrow> simplifies M wd val a) \<Longrightarrow> (\<not> c \<Longrightarrow> simplifies M wd val b) \<Longrightarrow> simplifies M wd val (if c then a else b)"
  by simp

lemma simplifies_value:
  "(\<And>env y. env_ok M wd env \<Longrightarrow> val env = Some y \<Longrightarrow> env w = Some y) \<Longrightarrow> simplifies M wd val (Some (Some w, M))"
  by (simp add: simplifies_def)

lemma simplifies_int:
  assumes fresh: "fresh_key fresh" "finite (dom (const_map M))"
    and "\<And>env y. env_ok M wd env \<Longrightarrow> val env = Some y \<Longrightarrow> ci_unsigned c = y"
  shows "simplifies M wd val (make_int fresh ty (Some c) M)"
proof -
  let ?k = "fresh (const_map M)"
  have le: "const_map M \<subseteq>\<^sub>m const_map (add_const ?k ty (CInt c) M)"
    using fresh by (auto simp: fresh_key_def add_const_def map_le_def)
  show ?thesis
    unfolding simplifies_def
  proof (intro exI conjI allI impI)
    show "make_int fresh ty (Some c) M = Some (Some (VConst ?k), add_const ?k ty (CInt c) M)"
      by (simp add: make_int_def make_const_def Let_def)
    fix w env y
    assume w: "Some (VConst ?k) = Some w" and e: "env_ok (add_const ?k ty (CInt c) M) wd env" and y: "val env = Some y"
    from e have "env (VConst ?k) = Some (ci_unsigned c)"
      unfolding env_ok_def by (force simp: add_const_def)
    with assms(3) [OF env_ok_mono [OF e le] y] w show "env w = Some y" by simp
  qed (rule le)
qed

lemma simplifies_sized:
  assumes fresh: "fresh_key fresh" "finite (dom (const_map M))" and n: "1 \<le> n" "n \<le> 64"
    and v: "\<And>env y. env_ok M wd env \<Longrightarrow> val env = Some y \<Longrightarrow> uint (f n) mod 2 ^ n = y"
  shows "simplifies M wd val (make_sized_const fresh f (IntT n) M)"
proof -
  obtain c where c: "ci_new (f n) n = Some c" using n by (simp add: ci_new_Some)
  have "simplifies M wd val (make_int fresh (IntT n) (Some c) M)"
    by (rule simplifies_int [OF fresh]) (use ci_unsigned_new [OF n c] v in simp)
  with c show ?thesis by (simp add: make_sized_const_def int_width_def)
qed

lemma simplifies_fold:
  assumes fresh: "fresh_key fresh" "finite (dom (const_map M))"
    and f: "folds_to n (fold_binary_op op a b) x"
    and v: "\<And>env y. env_ok M wd env \<Longrightarrow> val env = Some y \<Longrightarrow> x = Some y"
  shows "simplifies M wd val (fold_binary_const_alg fresh op a b ty M)"
proof -
  from f obtain r where r: "fold_binary_op op a b = Some r"
    and d: "\<And>y. x = Some y \<Longrightarrow> \<exists>d. r = Some d \<and> ci_unsigned d = y" by (auto simp: folds_to_def)
  show ?thesis
  proof (cases r)
    case None
    with r simplifies_none show ?thesis by (simp add: fold_binary_const_alg_def)
  next
    case (Some c)
    have "simplifies M wd val (make_int fresh ty (Some c) M)"
      by (rule simplifies_int [OF fresh]) (use v d Some in auto)
    with r Some show ?thesis by (simp add: fold_binary_const_alg_def)
  qed
qed

section \<open>The identities\<close>

lemma signed_of_one: "1 < n \<Longrightarrow> signed_of n 1 = 1"
  by (rule signed_of_small) (simp_all add: power_increasing)

lemma and_mask: "0 \<le> a \<Longrightarrow> a < 2 ^ n \<Longrightarrow> a AND mask n = a" "0 \<le> a \<Longrightarrow> a < 2 ^ n \<Longrightarrow> mask n AND a = a"
  for a :: int
  by (simp_all add: take_bit_int_eq_self and.commute flip: take_bit_eq_mask)

lemma or_mask: "0 \<le> a \<Longrightarrow> a < 2 ^ n \<Longrightarrow> a OR mask n = mask n" "0 \<le> a \<Longrightarrow> a < 2 ^ n \<Longrightarrow> mask n OR a = mask n"
  for a :: int
proof -
  assume "0 \<le> a" "a < 2 ^ n"
  then have "a = take_bit n a" by (simp add: take_bit_int_eq_self)
  then show "a OR mask n = mask n"
    by (intro bit_eqI) (metis bit_mask_iff bit_or_iff bit_take_bit_iff possible_bit_int)
  then show "mask n OR a = mask n" by (simp add: or.commute)
qed

lemma tdiv_one [simp]: "tdiv a 1 = a" "tdiv 0 b = 0"
  by (simp_all add: tdiv_def mult_sgn_abs)

lemma trem_one [simp]: "trem a 1 = 0" "trem 0 b = 0"
  by (simp_all add: trem_def)

text \<open>Each rewriting of \<open>try_simplify_binary\<close> as a law of \<open>binary_val\<close>.\<close>

lemma binary_val_right_unit:
  assumes a: "0 \<le> a" "a < 2 ^ n" and n: "0 < n"
  shows "op \<in> {Add, Sub, BitOr, BitXor, Shl, LShr, AShr} \<Longrightarrow> binary_val op n a 0 = Some a"
    "op \<in> {Mul, UDiv} \<Longrightarrow> binary_val op n a 1 = Some a"
    "1 < n \<Longrightarrow> binary_val SDiv n a 1 = Some a"
    "binary_val BitAnd n a (mask n) = Some a"
  using a n signed_of_mod [of n a] by (auto simp: signed_of_one and_mask)

lemma binary_val_left_unit:
  assumes b: "0 \<le> b" "b < 2 ^ n"
  shows "op \<in> {Add, BitOr, BitXor} \<Longrightarrow> binary_val op n 0 b = Some b"
    "binary_val Mul n 1 b = Some b" "binary_val BitAnd n (mask n) b = Some b"
  using b by (auto simp: and_mask)

lemma binary_val_zero:
  "op \<in> {Mul, BitAnd} \<Longrightarrow> binary_val op n a 0 = Some 0"
  "op \<in> {Mul, BitAnd, UDiv, SDiv, URem, SRem, Shl, LShr, AShr} \<Longrightarrow> binary_val op n 0 b = Some y \<Longrightarrow> y = 0"
  "binary_val URem n a 1 = Some 0" "1 < n \<Longrightarrow> binary_val SRem n a 1 = Some 0"
  "op \<in> {Sub, BitXor} \<Longrightarrow> binary_val op n a a = Some 0"
  by (auto simp: signed_of_one split: if_splits)

lemma binary_val_zeroD:
  "binary_val op n 0 b = Some y \<Longrightarrow> op \<in> {Mul, BitAnd, UDiv, SDiv, URem, SRem, Shl, LShr, AShr} \<Longrightarrow> y = 0"
  by (rule binary_val_zero(2))

lemma binary_val_idem:
  "op \<in> {BitAnd, BitOr} \<Longrightarrow> binary_val op n a a = Some a"
  by auto

lemma binary_val_ones:
  assumes "0 \<le> a" "a < 2 ^ n"
  shows "binary_val BitOr n a (mask n) = Some (mask n)" "binary_val BitOr n (mask n) a = Some (mask n)"
  using assms by (simp_all add: or_mask)

section \<open>Soundness\<close>

definition scalar_typed :: "module_core \<Rightarrow> (value_id \<Rightarrow> nat) \<Rightarrow> nat \<Rightarrow> nat \<Rightarrow> inst_kind \<Rightarrow> bool" where
  "scalar_typed M wd w n k \<longleftrightarrow> 1 \<le> w \<and> w \<le> 64 \<and> 1 \<le> n \<and> n \<le> 64 \<and>
     (case k of
        Binary op l r \<Rightarrow> w = n \<and> typed_operand M wd w l \<and> typed_operand M wd w r \<and> (signed_op op \<longrightarrow> w \<noteq> 1)
      | ICmp op l r \<Rightarrow> n = 1 \<and> typed_operand M wd w l \<and> typed_operand M wd w r \<and> (signed_cmp op \<longrightarrow> w \<noteq> 1)
      | Select c t e \<Rightarrow> typed_operand M wd 1 c
      | Trunc v \<Rightarrow> n \<le> w \<and> typed_operand M wd w v
      | Zext v \<Rightarrow> w \<le> n \<and> typed_operand M wd w v
      | Sext v \<Rightarrow> w \<le> n \<and> typed_operand M wd w v
      | _ \<Rightarrow> False)"

lemma inst_val_binaryE:
  assumes "inst_val env w n (Binary op l r) = Some y"
    and "typed_operand M wd w l" "typed_operand M wd w r" "env_ok M wd env"
  obtains a b where "env l = Some a" "env r = Some b" "binary_val op w a b = Some y"
    "0 \<le> a" "a < 2 ^ w" "0 \<le> b" "b < 2 ^ w"
  using assms operand_range [OF assms(2,4)] operand_range [OF assms(3,4)]
  by (auto simp: inst_val_def bind_eq_Some_conv)

lemma uint_mask_for: "n \<le> 64 \<Longrightarrow> uint (mask_for n) mod 2 ^ n = mask n"
proof -
  assume "n \<le> 64"
  then have "uint (mask_for n) = 2 ^ n - 1"
    unfolding mask_for_eq_mask uint_mask_eq by (simp add: min_def mask_eq_exp_minus_1)
  moreover have "(2 ^ n - 1 :: int) mod 2 ^ n = 2 ^ n - 1" by (rule mod_pos_pos_trivial) auto
  ultimately show ?thesis by (simp only: mask_eq_exp_minus_1)
qed

lemma simplify_binary_sound:
  assumes fresh: "fresh_key fresh" "finite (dom (const_map M))"
    and t: "scalar_typed M wd n n (Binary op l r)"
  shows "simplifies M wd (\<lambda>env. inst_val env n n (Binary op l r)) (try_simplify_binary fresh op l r (IntT n) M)"
    (is "simplifies M wd ?val _")
proof -
  from t have n: "1 \<le> n" "n \<le> 64" and tl: "typed_operand M wd n l" and tr: "typed_operand M wd n r"
    and sg: "signed_op op \<Longrightarrow> 1 < n" by (auto simp: scalar_typed_def)
  obtain lc lz l1 la where L: "as_int_const M l = Some lc" "is_zero_const M l = Some lz" "is_one_const M l = Some l1"
    "is_all_ones_const M l (IntT n) = Some la"
    and lc: "\<And>i. lc = Some i \<Longrightarrow> ci_wf i \<and> bit_width i = n \<and> (\<forall>env. env_ok M wd env \<longrightarrow> env l = Some (ci_unsigned i))"
    and lz: "\<And>env a. lz \<Longrightarrow> env_ok M wd env \<Longrightarrow> env l = Some a \<Longrightarrow> a = 0"
    and l1: "\<And>env a. l1 \<Longrightarrow> env_ok M wd env \<Longrightarrow> env l = Some a \<Longrightarrow> a = 1"
    and la: "\<And>env a. la \<Longrightarrow> env_ok M wd env \<Longrightarrow> env l = Some a \<Longrightarrow> a = mask n"
    using typed_tests [OF tl] by blast
  obtain rc rz r1 ra where R: "as_int_const M r = Some rc" "is_zero_const M r = Some rz" "is_one_const M r = Some r1"
    "is_all_ones_const M r (IntT n) = Some ra"
    and rc: "\<And>i. rc = Some i \<Longrightarrow> ci_wf i \<and> bit_width i = n \<and> (\<forall>env. env_ok M wd env \<longrightarrow> env r = Some (ci_unsigned i))"
    and rz: "\<And>env a. rz \<Longrightarrow> env_ok M wd env \<Longrightarrow> env r = Some a \<Longrightarrow> a = 0"
    and r1: "\<And>env a. r1 \<Longrightarrow> env_ok M wd env \<Longrightarrow> env r = Some a \<Longrightarrow> a = 1"
    and ra: "\<And>env a. ra \<Longrightarrow> env_ok M wd env \<Longrightarrow> env r = Some a \<Longrightarrow> a = mask n"
    using typed_tests [OF tr] by blast
  define val where "val = ?val"
  have E: "\<exists>a b. env l = Some a \<and> env r = Some b \<and> binary_val op n a b = Some y \<and>
      0 \<le> a \<and> a < 2 ^ n \<and> 0 \<le> b \<and> b < 2 ^ n" if "env_ok M wd env" "val env = Some y" for env y
    by (rule inst_val_binaryE [OF that(2) [unfolded val_def] tl tr that(1)]) blast
  have left: "simplifies M wd val (Some (Some l, M))"
    if "\<And>env a b. env_ok M wd env \<Longrightarrow> env l = Some a \<Longrightarrow> env r = Some b \<Longrightarrow> 0 \<le> a \<Longrightarrow> a < 2 ^ n \<Longrightarrow>
       binary_val op n a b = Some a"
  proof (rule simplifies_value)
    fix env y assume e: "env_ok M wd env" "val env = Some y"
    from E [OF e] that [OF e(1)] show "env l = Some y" by (metis option.inject)
  qed
  have right: "simplifies M wd val (Some (Some r, M))"
    if "\<And>env a b. env_ok M wd env \<Longrightarrow> env l = Some a \<Longrightarrow> env r = Some b \<Longrightarrow> 0 \<le> b \<Longrightarrow> b < 2 ^ n \<Longrightarrow>
       binary_val op n a b = Some b"
  proof (rule simplifies_value)
    fix env y assume e: "env_ok M wd env" "val env = Some y"
    from E [OF e] that [OF e(1)] show "env r = Some y" by (metis option.inject)
  qed
  have zero: "simplifies M wd val (make_zero_const fresh (IntT n) M)"
    if "\<And>env a b y. env_ok M wd env \<Longrightarrow> env l = Some a \<Longrightarrow> env r = Some b \<Longrightarrow> binary_val op n a b = Some y \<Longrightarrow> y = 0"
    unfolding make_zero_const_def
  proof (rule simplifies_sized [OF fresh n])
    fix env y assume e: "env_ok M wd env" "val env = Some y"
    from E [OF e] that [OF e(1)] have "y = 0" by blast
    then show "uint (0 :: u64) mod 2 ^ n = y" by simp
  qed
  have ones: "simplifies M wd val (make_all_ones_const fresh (IntT n) M)"
    if "\<And>env a b. env_ok M wd env \<Longrightarrow> env l = Some a \<Longrightarrow> env r = Some b \<Longrightarrow> 0 \<le> a \<Longrightarrow> a < 2 ^ n \<Longrightarrow>
       0 \<le> b \<Longrightarrow> b < 2 ^ n \<Longrightarrow> binary_val op n a b = Some (mask n)"
    unfolding make_all_ones_const_def
  proof (rule simplifies_sized [OF fresh n])
    fix env y assume e: "env_ok M wd env" "val env = Some y"
    from E [OF e] that [OF e(1)] have "Some y = Some (mask n)" by metis
    then show "uint (mask_for n) mod 2 ^ n = y" using uint_mask_for [OF n(2)] by simp
  qed
  have "simplifies M wd val (try_simplify_binary fresh op l r (IntT n) M)"
  proof (cases "\<exists>a b. lc = Some a \<and> rc = Some b")
    case True
    then obtain a b where ab: "lc = Some a" "rc = Some b" by blast
    have ea: "env_ok M wd env \<Longrightarrow> env l = Some (ci_unsigned a)" "env_ok M wd env \<Longrightarrow> env r = Some (ci_unsigned b)" for env
      using lc [OF ab(1)] rc [OF ab(2)] by blast+
    have x: "binary_val op n (ci_unsigned a) (ci_unsigned b) = Some y" if "env_ok M wd env" "val env = Some y" for env y
      using that(2) ea [OF that(1)] by (simp add: inst_val_def val_def)
    have "folds_to n (fold_binary_op op a b) (binary_val op n (ci_unsigned a) (ci_unsigned b))"
      by (rule fold_binary_correct) (use lc [OF ab(1)] rc [OF ab(2)] sg in auto)
    from simplifies_fold [OF fresh this x] show ?thesis
      by (simp only: try_simplify_binary_def L R ab Option.bind.simps prod.case option.case)
  next
    case False
    then have nc: "(case (lc, rc) of (Some a, Some b) \<Rightarrow> x a b | _ \<Rightarrow> y) = y" for x :: "_ \<Rightarrow> _ \<Rightarrow> 'z" and y
      by (cases lc; cases rc) auto
    have n0: "0 < n" using n by simp
    have s1: "op \<in> {SDiv, SRem, AShr} \<Longrightarrow> Suc 0 < n" using sg by (auto simp: signed_op_def)
    have zs: "rz \<Longrightarrow> env_ok M wd env \<Longrightarrow> env r = Some b \<Longrightarrow> b = 0" "lz \<Longrightarrow> env_ok M wd env \<Longrightarrow> env l = Some a \<Longrightarrow> a = 0"
      "r1 \<Longrightarrow> env_ok M wd env \<Longrightarrow> env r = Some b \<Longrightarrow> b = 1" "l1 \<Longrightarrow> env_ok M wd env \<Longrightarrow> env l = Some a \<Longrightarrow> a = 1"
      "ra \<Longrightarrow> env_ok M wd env \<Longrightarrow> env r = Some b \<Longrightarrow> b = mask n" "la \<Longrightarrow> env_ok M wd env \<Longrightarrow> env l = Some a \<Longrightarrow> a = mask n"
      for env a b by (fact rz lz r1 l1 ra la)+
    note U = binary_val_right_unit [OF _ _ n0] binary_val_left_unit binary_val_zero binary_val_idem binary_val_ones
    note [simp del] = binary_val.simps
    show ?thesis
      unfolding try_simplify_binary_def
      by (simp only: L R Option.bind.simps nc)
        (cases op; simp only: binary_opcode.case; intro simplifies_if simplifies_none left right zero ones;
         (elim disjE)?; (drule (2) zs)?; force simp: U s1 dest: binary_val_zeroD)
  qed
  then show ?thesis by (simp only: val_def)
qed

lemma simplify_icmp_sound:
  assumes fresh: "fresh_key fresh" "finite (dom (const_map M))"
    and t: "scalar_typed M wd w n (ICmp op l r)"
  shows "simplifies M wd (\<lambda>env. inst_val env w n (ICmp op l r)) (try_simplify_icmp fresh op l r (IntT n) M)"
proof -
  from t have w: "1 \<le> w" and n: "n = 1" and tl: "typed_operand M wd w l" and tr: "typed_operand M wd w r"
    and sg: "signed_cmp op \<Longrightarrow> w \<noteq> 1" by (auto simp: scalar_typed_def)
  obtain lc where L: "as_int_const M l = Some lc"
    and lc: "\<And>i. lc = Some i \<Longrightarrow> ci_wf i \<and> bit_width i = w \<and> (\<forall>env. env_ok M wd env \<longrightarrow> env l = Some (ci_unsigned i))"
    by (rule typed_tests [OF tl]) blast
  obtain rc where R: "as_int_const M r = Some rc"
    and rc: "\<And>i. rc = Some i \<Longrightarrow> ci_wf i \<and> bit_width i = w \<and> (\<forall>env. env_ok M wd env \<longrightarrow> env r = Some (ci_unsigned i))"
    by (rule typed_tests [OF tr]) blast
  have bool: "simplifies M wd (\<lambda>env. inst_val env w n (ICmp op l r)) (make_bool_const fresh b (IntT n) M)"
    if b: "\<And>env x y. env_ok M wd env \<Longrightarrow> env l = Some x \<Longrightarrow> env r = Some y \<Longrightarrow> icmp_val op w x y = b" for b
    unfolding make_bool_const_def
  proof (rule simplifies_sized [OF fresh])
    fix env y assume e: "env_ok M wd env" "inst_val env w n (ICmp op l r) = Some y"
    from e(2) obtain x z where xz: "env l = Some x" "env r = Some z" "y = (if icmp_val op w x z then 1 else 0)"
      by (auto simp: inst_val_def bind_eq_Some_conv)
    from b [OF e(1) xz(1,2)] xz(3) n show "uint (if b then 1 else 0 :: u64) mod 2 ^ n = y" by simp
  qed (use n in simp_all)
  show ?thesis
  proof (cases "\<exists>a b. lc = Some a \<and> rc = Some b")
    case True
    then obtain a b where ab: "lc = Some a" "rc = Some b" by blast
    have f: "fold_icmp op a b = Some (icmp_val op w (ci_unsigned a) (ci_unsigned b))"
      by (rule fold_icmp_correct) (use lc [OF ab(1)] rc [OF ab(2)] sg in auto)
    have "simplifies M wd (\<lambda>env. inst_val env w n (ICmp op l r))
        (make_bool_const fresh (icmp_val op w (ci_unsigned a) (ci_unsigned b)) (IntT n) M)"
      by (rule bool) (metis ab lc rc option.inject)
    then show ?thesis by (simp only: try_simplify_icmp_def L R ab f Option.bind.simps prod.case option.case)
  next
    case False
    then have nc: "(case (lc, rc) of (Some a, Some b) \<Rightarrow> x a b | _ \<Rightarrow> y) = y" for x :: "_ \<Rightarrow> _ \<Rightarrow> 'z" and y
      by (cases lc; cases rc) auto
    have "icmp_val op w x x = icmp_reflexive op" for x
      by (cases op) (simp_all add: icmp_reflexive_def)
    then have "simplifies M wd (\<lambda>env. inst_val env w n (ICmp op l r)) (make_bool_const fresh (icmp_reflexive op) (IntT n) M)"
      if "l = r" using that by (intro bool) auto
    then show ?thesis
      by (simp only: try_simplify_icmp_def L R Option.bind.simps nc) (simp add: simplifies_none)
  qed
qed

lemma simplify_select_sound:
  assumes t: "scalar_typed M wd w n (Select c a b)"
  shows "simplifies M wd (\<lambda>env. inst_val env w n (Select c a b)) (map_option (\<lambda>r. (r, M)) (try_simplify_select c a b M))"
proof -
  from t have tc: "typed_operand M wd 1 c" by (simp add: scalar_typed_def)
  obtain cc where C: "as_int_const M c = Some cc"
    and cc: "\<And>i. cc = Some i \<Longrightarrow> \<forall>env. env_ok M wd env \<longrightarrow> env c = Some (ci_unsigned i)"
    by (rule typed_tests [OF tc]) blast
  show ?thesis
  proof (cases "a = b")
    case True
    then show ?thesis
      by (auto simp: try_simplify_select_def inst_val_def bind_eq_Some_conv split: if_splits intro!: simplifies_value)
  next
    case False
    show ?thesis
    proof (cases cc)
      case None
      with False C simplifies_none show ?thesis by (simp add: try_simplify_select_def)
    next
      case (Some i)
      have "(as_u64 i \<noteq> 0) = (ci_unsigned i \<noteq> 0)" by (simp add: as_u64_def ci_unsigned_def uint_0_iff)
      with False C Some cc [OF Some] show ?thesis
        by (auto simp: try_simplify_select_def inst_val_def intro!: simplifies_value)
    qed
  qed
qed

text \<open>The casts: the value is kept when the widths agree, and a constant is converted otherwise.\<close>

lemma simplify_cast_sound:
  assumes fresh: "fresh_key fresh" "finite (dom (const_map M))" and t: "typed_operand M wd w v"
    and keep: "\<And>env a. keep w n \<Longrightarrow> env_ok M wd env \<Longrightarrow> env v = Some a \<Longrightarrow> f a = a"
    and cast: "\<And>c. \<not> keep w n \<Longrightarrow> ci_wf c \<Longrightarrow> bit_width c = w \<Longrightarrow> \<exists>d. cast c n = Some d \<and> ci_unsigned d = f (ci_unsigned c)"
  shows "simplifies M wd (\<lambda>env. map_option f (env v)) (try_fold_cast fresh keep cast v (IntT n) M)"
  using t
proof (cases rule: typed_cases)
  case other
  then show ?thesis by (simp add: try_fold_cast_def as_int_const_def simplifies_none)
next
  case (int c i D)
  then have C: "as_int_const M v = Some (Some i)" by (simp add: as_int_const_def)
  show ?thesis
  proof (cases "keep w n")
    case True
    with C int have "try_fold_cast fresh keep cast v (IntT n) M = Some (Some v, M)"
      by (simp add: try_fold_cast_def int_width_def)
    moreover have "simplifies M wd (\<lambda>env. map_option f (env v)) (Some (Some v, M))"
      by (rule simplifies_value) (use keep [OF True] in auto)
    ultimately show ?thesis by simp
  next
    case False
    from cast [OF False int(2,3)] obtain d where d: "cast i n = Some d" "ci_unsigned d = f (ci_unsigned i)" by blast
    have "a = ci_unsigned i" if "env_ok M wd env" "env v = Some a" for env a
      using that int by (auto simp: env_ok_def)
    then have "simplifies M wd (\<lambda>env. map_option f (env v)) (make_int fresh (IntT n) (Some d) M)"
      by (intro simplifies_int [OF fresh]) (use d(2) in fastforce)
    with C False int(3) d(1) show ?thesis by (simp add: try_fold_cast_def int_width_def)
  qed
qed

lemma simplify_casts_sound:
  assumes fresh: "fresh_key fresh" "finite (dom (const_map M))"
  shows "scalar_typed M wd w n (Trunc v) \<Longrightarrow>
      simplifies M wd (\<lambda>env. inst_val env w n (Trunc v)) (try_fold_trunc fresh v (IntT n) M)"
    "scalar_typed M wd w n (Zext v) \<Longrightarrow>
      simplifies M wd (\<lambda>env. inst_val env w n (Zext v)) (try_fold_zext fresh v (IntT n) M)"
    "scalar_typed M wd w n (Sext v) \<Longrightarrow>
      simplifies M wd (\<lambda>env. inst_val env w n (Sext v)) (try_fold_sext fresh v (IntT n) M)"
proof -
  assume t: "scalar_typed M wd w n (Trunc v)"
  then have v: "typed_operand M wd w v" and n: "1 \<le> n" "n \<le> 64" "n \<le> w" by (auto simp: scalar_typed_def)
  have "simplifies M wd (\<lambda>env. map_option (\<lambda>a. a mod 2 ^ n) (env v)) (try_fold_trunc fresh v (IntT n) M)"
    unfolding try_fold_trunc_def
  proof (rule simplify_cast_sound [OF fresh v])
    show "a mod 2 ^ n = a" if "w \<le> n" "env_ok M wd env" "env v = Some a" for env a
      using operand_range [OF v that(2,3)] that(1) n(3) by simp
    show "\<exists>d. trunc_to c n = Some d \<and> ci_unsigned d = ci_unsigned c mod 2 ^ n" if "ci_wf c" "bit_width c = w" for c
    proof -
      obtain d where d: "ci_new (ci_value c) n = Some d" using n by (simp add: ci_new_Some)
      with ci_unsigned_new [OF n(1,2) d] that n show ?thesis by (auto simp: trunc_to_def ci_unsigned_def)
    qed
  qed
  then show "simplifies M wd (\<lambda>env. inst_val env w n (Trunc v)) (try_fold_trunc fresh v (IntT n) M)"
    by (simp add: inst_val_def)
next
  assume t: "scalar_typed M wd w n (Zext v)"
  then have v: "typed_operand M wd w v" and n: "n \<le> 64" "w \<le> n" by (auto simp: scalar_typed_def)
  have "simplifies M wd (\<lambda>env. map_option (\<lambda>a. a) (env v)) (try_fold_zext fresh v (IntT n) M)"
    unfolding try_fold_zext_def
    by (rule simplify_cast_sound [OF fresh v]) (use zero_extend_correct [OF _ _ n(1)] n in \<open>fastforce+\<close>)
  then show "simplifies M wd (\<lambda>env. inst_val env w n (Zext v)) (try_fold_zext fresh v (IntT n) M)"
    by (simp add: inst_val_def option.map_ident)
next
  assume t: "scalar_typed M wd w n (Sext v)"
  then have v: "typed_operand M wd w v" and n: "1 \<le> w" "n \<le> 64" "w \<le> n" by (auto simp: scalar_typed_def)
  have "simplifies M wd (\<lambda>env. map_option (\<lambda>a. signed_of w a mod 2 ^ n) (env v)) (try_fold_sext fresh v (IntT n) M)"
    unfolding try_fold_sext_def
  proof (rule simplify_cast_sound [OF fresh v])
    show "signed_of w a mod 2 ^ n = a" if "n \<le> w" "env_ok M wd env" "env v = Some a" for env a
      using operand_range [OF v that(2,3)] that(1) n signed_of_mod [of w a] by simp
    show "\<exists>d. sign_extend c n = Some d \<and> ci_unsigned d = signed_of w (ci_unsigned c) mod 2 ^ n"
      if c: "ci_wf c" "bit_width c = w" for c
    proof -
      obtain d where d: "sign_extend c n = Some d" "ci_wf d" "bit_width d = n" "ci_signed d = ci_signed c"
        using sign_extend_correct [OF c(1), of n] c(2) n by auto
      with ci_signed_mod [OF d(2)] c(2) show ?thesis by (simp add: ci_signed_of)
    qed
  qed
  then show "simplifies M wd (\<lambda>env. inst_val env w n (Sext v)) (try_fold_sext fresh v (IntT n) M)"
    by (simp add: inst_val_def)
qed

text \<open>C0. Algebraic simplification of scalar instructions is sound.  For a binary operation, comparison,
  selection or cast of integers of 1 to 64 bits, whose operands have the widths the instruction asks
  for and, where they are constants, are integer constants masked to their width (\<open>undef\<close> and \<open>null\<close>
  operands are outside the claim: folding panics on some of them), and which is not a signed division,
  signed remainder, arithmetic shift or signed comparison of 1-bit values (\<open>as_i64\<close> reads the 1-bit
  one as 1, not as -1): the simplifier does not panic, keeps every constant of the module, and the
  value it names, if any, equals the instruction's value in every environment in which that is defined:
  folding is exact, and each identity (\<open>x + 0\<close>, \<open>x * 0\<close>, \<open>x / 1\<close>, \<open>x & x\<close>, ...) is a law.  Divisions
  by zero, overflowing signed divisions and shifts by the width or more have no value.  The key the
  table hands out for a new constant is one not in use.\<close>

theorem algebraic_simplification_sound:
  assumes "fresh_key fresh" "finite (dom (const_map M))"
    and "inst_at M i = Some D" "id_ty D = IntT n" "scalar_typed M wd w n (id_kind D)"
  shows "\<exists>v M'. try_simplify_inst fresh i M = Some (v, M') \<and> const_map M \<subseteq>\<^sub>m const_map M' \<and>
    (\<forall>u env y. v = Some u \<longrightarrow> env_ok M' wd env \<longrightarrow> inst_val env w n (id_kind D) = Some y \<longrightarrow> env u = Some y)"
proof -
  note simplify = simplify_binary_sound [OF assms(1,2)] simplify_icmp_sound [OF assms(1,2)]
    simplify_select_sound simplify_casts_sound [OF assms(1,2)]
  have "simplifies M wd (\<lambda>env. inst_val env w n (id_kind D)) (try_simplify_inst fresh i M)"
  proof (cases "id_kind D")
    case (Binary op l r)
    with assms(5) have "w = n" by (simp add: scalar_typed_def)
    with Binary assms(3-5) simplify show ?thesis by (simp add: try_simplify_inst_def)
  qed (use assms(3-5) simplify in \<open>simp_all add: try_simplify_inst_def scalar_typed_def\<close>)
  then show ?thesis by (simp add: simplifies_def)
qed

definition ex_algebraic :: "inst_kind \<Rightarrow> module_core" where
  "ex_algebraic k = module_new\<lparr>
     func_map := [0 \<mapsto> \<lparr>fd_name = ''f'', fd_ty = FunctionT VoidT [], fd_attrs = empty_attrs, fd_args = Map.empty,
       fd_blocks = Map.empty, fd_insts = [0 \<mapsto> \<lparr>id_parent = None, id_ty = IntT 32, id_kind = k, id_uses = [], id_name = None\<rparr>],
       fd_block_order = [], fd_entry = 0, fd_is_declare = False\<rparr>],
     const_map := [0 \<mapsto> \<lparr>cd_ty = IntT 32, cd_kind = CInt \<lparr>ci_value = 1, bit_width = 32\<rparr>, cd_uses = []\<rparr>,
       1 \<mapsto> \<lparr>cd_ty = IntT 32, cd_kind = CUndef, cd_uses = []\<rparr>]\<rparr>"

lemma algebraic_simplification_sound_witness:
  "\<exists>M'. try_simplify_inst example_fresh (InstRef 0 0) (ex_algebraic (Binary SDiv (VArg (ArgRef 0 0)) (VConst 0))) =
       Some (Some (VArg (ArgRef 0 0)), M')"
proof -
  let ?k = "Binary SDiv (VArg (ArgRef 0 0)) (VConst 0)" and ?wd = "\<lambda>v. 32 :: nat"
  obtain D where D: "inst_at (ex_algebraic ?k) (InstRef 0 0) = Some D" "id_ty D = IntT 32" "id_kind D = ?k"
    by (simp add: ex_algebraic_def inst_at_def)
  have t: "scalar_typed (ex_algebraic ?k) ?wd 32 32 (id_kind D)"
    by (simp add: D scalar_typed_def typed_operand_def const_kind_of_def ex_algebraic_def ci_wf_def)
  have fin: "finite (dom (const_map (ex_algebraic ?k)))" by (simp add: ex_algebraic_def)
  from algebraic_simplification_sound [OF example_fresh_key fin D(1,2) t]
  obtain v M' where r: "try_simplify_inst example_fresh (InstRef 0 0) (ex_algebraic ?k) = Some (v, M')" by blast
  have "v = Some (VArg (ArgRef 0 0))"
    using r D by (auto simp: try_simplify_inst_def try_simplify_binary_def as_int_const_def is_zero_const_def
        is_one_const_def is_all_ones_const_def const_kind_of_def ex_algebraic_def as_u64_def int_width_def)
  with r show ?thesis by blast
qed

text \<open>C0. Folding panics on undefined values.  \<open>as_int_const\<close> reads an undefined constant of any type as the
  1-bit integer 0, so a binary operation of an undefined operand and a wider constant reaches
  \<open>fold_binary_const_alg\<close> with operands of two widths and fails the assertion there, whatever the
  operation: here \<open>undef op 1\<close> at 32 bits.\<close>

theorem algebraic_folding_panics_on_undef:
  "try_simplify_inst fresh (InstRef 0 0) (ex_algebraic (Binary op (VConst 1) (VConst 0))) = None"
  by (cases op) (simp_all add: try_simplify_inst_def try_simplify_binary_def as_int_const_def const_kind_of_def
      ex_algebraic_def inst_at_def ci_new_Some fold_binary_const_alg_def fold_binary_op_def wrapping_defs checked_defs
      assert_same_bit_width_def)

section \<open>The pass terminates and keeps the invariant\<close>

definition only_adds_const ::
  "fresh_const \<Rightarrow> module_core \<Rightarrow> (value_id option \<times> module_core) option \<Rightarrow> bool" where
  "only_adds_const fresh M r \<longleftrightarrow>
     (\<forall>v M'. r = Some (v, M') \<longrightarrow> M' = M \<or> (\<exists>ty k. M' = add_const (fresh (const_map M)) ty k M))"

lemma only_adds_intros:
  "only_adds_const fresh M (Some (v, M))" "only_adds_const fresh M None"
  "only_adds_const fresh M (make_int fresh ty c M)" "only_adds_const fresh M (make_sized_const fresh f ty M)"
  "only_adds_const fresh M (make_zero_const fresh ty M)" "only_adds_const fresh M (make_all_ones_const fresh ty M)"
  "only_adds_const fresh M (make_bool_const fresh b ty M)" "only_adds_const fresh M (map_option (\<lambda>r. (r, M)) x)"
  "only_adds_const fresh M (case make_const fresh ty k M of (v, M') \<Rightarrow> Some (Some v, M'))"
  by (auto simp: only_adds_const_def make_int_def make_const_def Let_def make_sized_const_def make_zero_const_def
      make_all_ones_const_def make_bool_const_def split: option.splits)

lemma only_adds_bind: "(\<And>x. only_adds_const fresh M (f x)) \<Longrightarrow> only_adds_const fresh M (Option.bind r f)"
  by (cases r) (simp_all add: only_adds_intros)

lemma only_adds_if: "only_adds_const fresh M a \<Longrightarrow> only_adds_const fresh M b \<Longrightarrow> only_adds_const fresh M (if c then a else b)"
  by simp

lemma only_adds_option:
  "only_adds_const fresh M a \<Longrightarrow> (\<And>x. only_adds_const fresh M (f x)) \<Longrightarrow>
   only_adds_const fresh M (case r of None \<Rightarrow> a | Some x \<Rightarrow> f x)"
  by (cases r) simp_all

lemmas only_adds = only_adds_intros only_adds_bind only_adds_if only_adds_option

lemma only_adds_parts:
  "only_adds_const fresh M (fold_binary_const_alg fresh op a b ty M)"
  "only_adds_const fresh M (try_fold_cast fresh keep cast v ty M)"
  "only_adds_const fresh M (try_fold_ptr_to_int fresh v ty M)"
  "only_adds_const fresh M (try_simplify_icmp fresh cop l r ty M)"
  by (auto simp: fold_binary_const_alg_def try_fold_cast_def try_fold_ptr_to_int_def try_simplify_icmp_def
      intro!: only_adds split: prod.split)

lemma only_adds_load: "only_adds_const fresh M (try_fold_const_global_load fresh p ty M)"
  unfolding try_fold_const_global_load_def
  by (cases p) (auto intro!: only_adds split: global_kind.split bool.split option.split const_kind.split)

lemma only_adds_binary: "only_adds_const fresh M (try_simplify_binary fresh op l r ty M)"
  unfolding try_simplify_binary_def
  by (cases op; simp only: binary_opcode.case prod.case; intro only_adds only_adds_parts)

lemma only_adds_inst: "only_adds_const fresh M (try_simplify_inst fresh i M)"
  unfolding try_simplify_inst_def
  by (rule only_adds_bind)
    (auto simp: try_fold_trunc_def try_fold_zext_def try_fold_sext_def
      intro!: only_adds_binary only_adds_parts only_adds_load only_adds_intros split: inst_kind.split)

text \<open>One round either drops the popped instruction from the work list or erases it.\<close>

lemma simplify_round_law:
  assumes inv: "module_inv M" and fresh: "fresh_key fresh" and fin: "finite (dom (const_map M))"
    and r: "simplify_round fresh i work M = Some (work', M')"
  shows "module_inv M' \<and> finite (dom (const_map M')) \<and>
    (dom (kind_at M') = dom (kind_at M) \<and> work' = work \<or>
     dom (kind_at M') = dom (kind_at M) - {i} \<and> i \<in> dom (kind_at M))"
proof -
  from r obtain F where F: "func_map M (ir_func i) = Some F" by (auto simp: simplify_round_def bind_eq_Some_conv)
  show ?thesis
  proof (cases "fd_insts F (ir_inst i)")
    case None
    with r F inv fin show ?thesis by (simp add: simplify_round_def)
  next
    case (Some D)
    with F have i: "i \<in> dom (kind_at M)" by (simp add: kind_at_def inst_at_def dom_def)
    from r F Some obtain v M1 where s: "try_simplify_inst fresh i M = Some (v, M1)"
      and rest: "(case v of None \<Rightarrow> Some (work, M1)
        | Some result \<Rightarrow> do {
            M2 \<leftarrow> replace_all_uses_with (VInst i) result M1;
            us \<leftarrow> value_uses M2 result;
            own \<leftarrow> value_uses M2 (VInst i);
            M3 \<leftarrow> (if own = [] then erase_inst_from_parent i M2 else Some M2);
            Some (work @ map use_user us, M3)
          }) = Some (work', M')"
      by (auto simp: simplify_round_def bind_eq_Some_conv)
    have c0: "const_map M (fresh (const_map M)) = None" using fresh fin by (simp add: fresh_key_def)
    have M1: "module_inv M1 \<and> kind_at M1 = kind_at M \<and> finite (dom (const_map M1))"
      using only_adds_inst [of fresh M i, unfolded only_adds_const_def, rule_format, OF s]
    proof (elim disjE exE)
      fix ty k assume "M1 = add_const (fresh (const_map M)) ty k M"
      with add_const_inv [OF inv c0] add_const_views(1) [OF c0] fin show ?thesis
        by (simp add: same_views_def) (simp add: add_const_def)
    qed (use inv fin in simp)
    show ?thesis
    proof (cases v)
      case None
      with rest M1 show ?thesis by simp
    next
      case (Some result)
      with rest obtain M2 own where M2: "replace_all_uses_with (VInst i) result M1 = Some M2"
        and own: "value_uses M2 (VInst i) = Some own"
        and M3: "(if own = [] then erase_inst_from_parent i M2 else Some M2) = Some M'"
        by (auto simp: bind_eq_Some_conv)
      note ra = replace_all_uses_inv [OF M1 [THEN conjunct1] M2]
      from ra(2) own M3 have e: "erase_inst_from_parent i M2 = Some M'" by simp
      have K: "dom (kind_at M2) = dom (kind_at M)"
      proof -
        have "inst_at M2 j \<noteq> None \<longleftrightarrow> inst_at M1 j \<noteq> None" for j using only_kinds_live [OF ra(3)] by blast
        then have "dom (kind_at M2) = dom (kind_at M1)" unfolding kind_at_def dom_def by simp
        with M1 show ?thesis by simp
      qed
      have c2: "dom (const_map M2) = dom (const_map M1)" by (rule const_dom_cong [OF ra(4)])
      from e obtain Md where Md: "detach_inst i M2 = Some Md" and "remove_inst i Md = Some M'"
        by (auto simp: erase_inst_from_parent_def bind_eq_Some_conv)
      then have "const_map M' = const_map Md" by (auto simp: remove_inst_def elim: with_funcE)
      with const_dom_detach [OF Md] have "dom (const_map M') = dom (const_map M2)" by simp
      with erase_inst_inv [OF ra(1) e] c2 K M1 i show ?thesis by auto
    qed
  qed
qed

text \<open>C23. The simplification pass terminates on every module that satisfies the invariant, from every work
  list: it ends, possibly in a panic, after finitely many rounds, since a round either shortens the work
  list or erases an instruction; and when it returns, the module satisfies the invariant again.\<close>

theorem algebraic_pass_terminates:
  assumes "module_inv M" and "fresh_key fresh" and "finite (dom (const_map M))" and "finite (dom (kind_at M))"
  shows "\<exists>fuel r. simplify_loop fuel fresh work M = Some r \<and> (\<forall>M'. r = Some M' \<longrightarrow> module_inv M')"
  using assms(1,3,4)
proof (induction "(M, work)" arbitrary: M work
    rule: wf_induct_rule [OF wf_measures [of "[\<lambda>p. card (dom (kind_at (fst p))), \<lambda>p. length (snd p)]"]])
  case (1 M work)
  show ?case
  proof (cases "work = []")
    case True
    then have "simplify_loop 1 fresh work M = Some (Some M)" by simp
    with 1(2) show ?thesis by blast
  next
    case False
    show ?thesis
    proof (cases "simplify_round fresh (last work) (butlast work) M")
      case None
      with False have "simplify_loop 1 fresh work M = Some None" by simp
      then show ?thesis by blast
    next
      case (Some p)
      obtain work' M' where p: "p = (work', M')" by (cases p)
      note law = simplify_round_law [OF 1(2) assms(2) 1(3) Some [unfolded p]]
      have "card (dom (kind_at M')) < card (dom (kind_at M)) \<or>
          card (dom (kind_at M')) = card (dom (kind_at M)) \<and> length work' < length work"
        using law
      proof (elim conjE disjE)
        assume d: "dom (kind_at M') = dom (kind_at M) - {last work}" "last work \<in> dom (kind_at M)"
        have "card (dom (kind_at M) - {last work}) < card (dom (kind_at M))"
          by (rule card_Diff1_less [OF 1(4) d(2)])
        with d(1) show ?thesis by simp
      qed (use False in simp)
      then have "((M', work'), (M, work)) \<in> measures [\<lambda>p. card (dom (kind_at (fst p))), \<lambda>p. length (snd p)]"
        by auto
      moreover have "finite (dom (kind_at M'))" using law 1(4) by auto
      ultimately have "\<exists>fuel r. simplify_loop fuel fresh work' M' = Some r \<and> (\<forall>M'. r = Some M' \<longrightarrow> module_inv M')"
        using law by (intro 1(1)) auto
      then obtain fuel r where r: "simplify_loop fuel fresh work' M' = Some r" "\<forall>M'. r = Some M' \<longrightarrow> module_inv M'"
        by blast
      with False Some p have "simplify_loop (Suc fuel) fresh work M = Some r" by simp
      with r(2) show ?thesis by blast
    qed
  qed
qed

lemma algebraic_pass_terminates_witness:
  "\<exists>fuel r. simplify_loop fuel example_fresh [InstRef 0 0, InstRef 0 1, InstRef 0 2] ex_before = Some r \<and>
     (\<forall>M'. r = Some M' \<longrightarrow> module_inv M')"
proof (rule algebraic_pass_terminates [OF _ example_fresh_key])
  show "module_inv ex_before" by (rule ex_before_inv)
  show "finite (dom (const_map ex_before))" by (simp add: ex_before_def ex_module_def ex_module_from_def)
  have "dom (kind_at ex_before) \<subseteq> InstRef 0 ` {0, 1, 2}"
  proof
    fix i assume "i \<in> dom (kind_at ex_before)"
    then show "i \<in> InstRef 0 ` {0, 1, 2}"
      by (cases i) (auto simp: kind_at_def inst_at_def ex_before_def ex_module_def ex_module_from_def split: if_splits)
  qed
  then show "finite (dom (kind_at ex_before))" by (rule finite_subset) simp
qed

end
