(* ===== verification/IR_Strength.thy ===== *)
theory IR_Strength
  imports IR_Algebraic_Props IR_Split
begin

text \<open>
  Strength reduction (\<open>src/src/ir/opt/strength.rs\<close>): multiplications, divisions and remainders by a
  power of two become shifts and masks.  The rewriting is proved correct, for signed operations under
  the condition that the dividend is not negative; the analysis that is to establish the condition is
  shown not to.
\<close>

unbundle bit_operations_syntax

section \<open>The analysis\<close>

type_synonym nonneg_cache = "value_id \<rightharpoonup> bool"

definition as_int_const_sr :: "module_core \<Rightarrow> value_id \<Rightarrow> core_int option option" where
  "as_int_const_sr M v = map_option (\<lambda>k. case k of Some (CInt c) \<Rightarrow> Some c | _ \<Rightarrow> None) (const_kind_of M v)"

text \<open>The short-circuit connectives and \<open>Iterator::all\<close> over tests that carry the cache.\<close>

type_synonym nonneg_test = "nonneg_cache \<Rightarrow> (bool \<times> nonneg_cache) option"

definition test_and :: "nonneg_test \<Rightarrow> nonneg_test \<Rightarrow> nonneg_test" where
  "test_and p q c = do { (b, c1) \<leftarrow> p c; if b then q c1 else Some (False, c1) }"

definition test_or :: "nonneg_test \<Rightarrow> nonneg_test \<Rightarrow> nonneg_test" where
  "test_or p q c = do { (b, c1) \<leftarrow> p c; if b then Some (True, c1) else q c1 }"

definition test_all :: "nonneg_test list \<Rightarrow> nonneg_test" where
  "test_all ps = foldr test_and ps (\<lambda>c. Some (True, c))"

definition compute_nonneg :: "(value_id \<Rightarrow> nonneg_test) \<Rightarrow> module_core \<Rightarrow> value_id \<Rightarrow> nonneg_test" where
  "compute_nonneg nonneg M v c =
     (case v of
        VConst k \<Rightarrow> map_option (\<lambda>D. (case cd_kind D of
            CInt ci \<Rightarrow> bit_width ci = 0 \<or> ci_value ci AND push_bit (bit_width ci - 1) 1 = 0
          | _ \<Rightarrow> False, c)) (const_map M k)
      | VArg _ \<Rightarrow> Some (False, c)
      | VGlobal _ \<Rightarrow> Some (False, c)
      | VInst i \<Rightarrow> do {
          D \<leftarrow> inst_at M i;
          (case id_kind D of
             Binary op lhs rhs \<Rightarrow>
               (case op of
                  BitAnd \<Rightarrow> test_or (nonneg lhs) (nonneg rhs) c
                | BitOr \<Rightarrow> test_and (nonneg lhs) (nonneg rhs) c
                | BitXor \<Rightarrow> test_and (nonneg lhs) (nonneg rhs) c
                | LShr \<Rightarrow> Some (True, c)
                | UDiv \<Rightarrow> Some (True, c)
                | URem \<Rightarrow> Some (True, c)
                | Shl \<Rightarrow> test_and (nonneg lhs) (nonneg rhs) c
                | AShr \<Rightarrow> test_and (nonneg lhs) (nonneg rhs) c
                | SDiv \<Rightarrow> test_and (nonneg lhs) (nonneg rhs) c
                | SRem \<Rightarrow> nonneg lhs c
                | _ \<Rightarrow> Some (False, c))
           | Zext _ \<Rightarrow> Some (True, c)
           | ICmp _ _ _ \<Rightarrow> Some (True, c)
           | Phi inc _ \<Rightarrow> test_all (map (\<lambda>(_, e). nonneg (pi_value e)) inc) c
           | Select _ t e \<Rightarrow> test_and (nonneg t) (nonneg e) c
           | _ \<Rightarrow> Some (False, c))
        })"

text \<open>The recursion is bounded by the values without a cached answer; running out of fuel is \<open>None\<close>.\<close>

fun is_value_nonneg :: "nat \<Rightarrow> module_core \<Rightarrow> value_id \<Rightarrow> nonneg_test" where
  "is_value_nonneg 0 M v c = None"
| "is_value_nonneg (Suc n) M v c =
     (case c v of
        Some b \<Rightarrow> Some (b, c)
      | None \<Rightarrow> do {
          (r, c1) \<leftarrow> compute_nonneg (is_value_nonneg n M) M v (c(v \<mapsto> False));
          Some (r, c1(v \<mapsto> r))
        })"

section \<open>The rewriting\<close>

text \<open>\<open>is_power_of_two\<close> and \<open>trailing_zeros\<close> of a \<open>u64\<close>.\<close>

definition trailing_zeros :: "u64 \<Rightarrow> nat" where
  "trailing_zeros v = (if v = 0 then 64 else length (takeWhile Not (map (bit v) [0..<64])))"

definition is_power_of_two :: "u64 \<Rightarrow> bool" where
  "is_power_of_two v = (length (filter (bit v) [0..<64]) = 1)"

text \<open>The divisor is usable: a power of two that is not negative at the width.\<close>

definition divisor_ok :: "nat \<Rightarrow> u64 \<Rightarrow> bool" where
  "divisor_ok bits v \<longleftrightarrow> v \<noteq> 0 \<and> is_power_of_two v \<and>
     \<not> (drop_bit 1 (mask_for bits + 1) \<le> v \<and> bits < 64)"

text \<open>The replacement operation with its constant, when the operation can be reduced.\<close>

definition strength_op :: "binary_opcode \<Rightarrow> bool \<Rightarrow> u64 \<Rightarrow> (binary_opcode \<times> u64) option" where
  "strength_op op nonneg v =
     (case op of
        Mul \<Rightarrow> Some (Shl, of_nat (trailing_zeros v))
      | UDiv \<Rightarrow> Some (LShr, of_nat (trailing_zeros v))
      | URem \<Rightarrow> Some (BitAnd, v - 1)
      | SDiv \<Rightarrow> if nonneg then Some (LShr, of_nat (trailing_zeros v)) else None
      | SRem \<Rightarrow> if nonneg then Some (BitAnd, v - 1) else None
      | _ \<Rightarrow> None)"

definition replace_inst_kind :: "inst_ref \<Rightarrow> inst_kind \<Rightarrow> module_core \<Rightarrow> module_core option" where
  "replace_inst_kind i k M = do {
     M1 \<leftarrow> unregister_inst_use i M;
     M2 \<leftarrow> with_inst i (\<lambda>D. D\<lparr>id_kind := k\<rparr>) M1;
     register_inst_use i M2
   }"

text \<open>Installs the reduced operation, when there is one; the cache is cleared.\<close>

definition install_reduced ::
  "fresh_const \<Rightarrow> inst_ref \<Rightarrow> ir_type \<Rightarrow> nat \<Rightarrow> value_id \<Rightarrow> (binary_opcode \<times> u64) option \<Rightarrow>
     nonneg_cache \<times> module_core \<Rightarrow> (nonneg_cache \<times> module_core) option" where
  "install_reduced fresh i ty bits lhs reduced st =
     (case reduced of
        None \<Rightarrow> Some st
      | Some (op', v) \<Rightarrow> do {
          ci \<leftarrow> ci_new v bits;
          let (k, M1) = make_const fresh ty (CInt ci) (snd st);
          M2 \<leftarrow> replace_inst_kind i (Binary op' lhs k) M1;
          Some (Map.empty, M2)
        })"

definition strength_inst ::
  "nat \<Rightarrow> fresh_const \<Rightarrow> inst_ref \<Rightarrow> nonneg_cache \<times> module_core \<Rightarrow> (nonneg_cache \<times> module_core) option" where
  "strength_inst fuel fresh i st =
     (let (cache, M) = st in
      case inst_at M i of
        None \<Rightarrow> Some st
      | Some D \<Rightarrow>
          (case id_kind D of
             Binary op lhs rhs \<Rightarrow> do {
               rc \<leftarrow> as_int_const_sr M rhs;
               (case (rc, int_width (id_ty D)) of
                  (Some c, Some bits) \<Rightarrow>
                    if \<not> divisor_ok bits (ci_value c) then Some st
                    else do {
                      (nn, cache1) \<leftarrow> (if op \<in> {SDiv, SRem} then is_value_nonneg fuel M lhs cache else Some (False, cache));
                      install_reduced fresh i (id_ty D) bits lhs (strength_op op nn (ci_value c)) (cache1, M)
                    }
                | _ \<Rightarrow> Some st)
             }
           | _ \<Rightarrow> Some st))"

text \<open>\<open>keys\<close> are the instructions of the function in the order of its slot map.\<close>

definition func_strength_reduction ::
  "nat \<Rightarrow> fresh_const \<Rightarrow> inst_id list \<Rightarrow> function_id \<Rightarrow> module_core \<Rightarrow> module_core option" where
  "func_strength_reduction fuel fresh keys f M = do {
     F \<leftarrow> func_map M f;
     if fd_is_declare F then Some M
     else map_option snd (fold_opt (\<lambda>n. strength_inst fuel fresh (InstRef f n)) keys (Map.empty, M))
   }"

definition opt_strength_reduction ::
  "nat \<Rightarrow> fresh_const \<Rightarrow> (function_id \<Rightarrow> module_core \<Rightarrow> inst_id list) \<Rightarrow> function_id list \<Rightarrow> module_core \<Rightarrow>
     module_core option" where
  "opt_strength_reduction fuel fresh keys = fold_opt (\<lambda>f M. func_strength_reduction fuel fresh (keys f M) f M)"

section \<open>Powers of two\<close>

lemma power_of_two:
  assumes "is_power_of_two v"
  obtains k where "k < 64" "v = push_bit k 1" "trailing_zeros v = k"
proof -
  from assms obtain k where f: "filter (bit v) [0..<64] = [k]"
    by (auto simp: is_power_of_two_def length_Suc_conv)
  have b: "bit v n \<longleftrightarrow> n = k" if "n < 64" for n
  proof -
    have "bit v n \<longleftrightarrow> n \<in> set (filter (bit v) [0..<64])" using that by simp
    then show ?thesis by (simp only: f) simp
  qed
  have k: "k < 64" using arg_cong [OF f, of set] by auto
  have v: "v = push_bit k 1"
    by (rule bit_word_eqI) (use b in \<open>auto simp: bit_exp_iff\<close>)
  have nz: "v \<noteq> 0" using b [OF k] by auto
  have "takeWhile Not (map (bit v) [0..<64]) = map (bit v) [0..<k]"
  proof -
    have s: "[0..<64] = [0..<k] @ k # [Suc k..<64]"
    proof -
      have "[0..<k + (64 - k)] = [0..<k] @ [k..<k + (64 - k)]" by (rule upt_add_eq_append) simp
      with k show ?thesis by (simp add: upt_conv_Cons)
    qed
    have "takeWhile Not (map (bit v) [0..<k] @ True # map (bit v) [Suc k..<64]) = map (bit v) [0..<k]"
      by (subst takeWhile_append2) (use b k in auto)
    then show ?thesis using b [OF k] by (simp only: s map_append list.map) simp
  qed
  then have "trailing_zeros v = k" using nz by (simp add: trailing_zeros_def)
  with k v that show thesis by blast
qed

lemma uint_power: "k < 64 \<Longrightarrow> uint (push_bit k 1 :: u64) = 2 ^ k"
proof -
  assume k: "k < 64"
  have "uint (push_bit k 1 :: u64) = take_bit LENGTH(64) (push_bit k (uint (1 :: u64)))"
    by (rule unsigned_push_bit_eq)
  also have "\<dots> = take_bit 64 (2 ^ k)" by simp
  also have "\<dots> = 2 ^ k" by (rule take_bit_int_eq_self) (use power_strict_increasing [OF k, of "2 :: int"] in simp_all)
  finally show ?thesis .
qed

lemma uint_power_pred: "k < 64 \<Longrightarrow> uint (push_bit k 1 - 1 :: u64) = mask k"
  by (simp only: mask_eq_push_bit_minus_1 uint_mask_eq) simp

text \<open>A usable divisor is a power of two below the sign bit, or the sign bit itself at width 64.\<close>

lemma divisor_okE:
  assumes d: "divisor_ok n v" and n: "1 \<le> n" "n \<le> 64"
  obtains k where "v = push_bit k 1" "trailing_zeros v = k" "k < n" "k < n - 1 \<or> n = 64 \<and> k = 63"
proof -
  from d have "is_power_of_two v" by (simp add: divisor_ok_def)
  then obtain k where k: "k < 64" "v = push_bit k 1" "trailing_zeros v = k" by (rule power_of_two)
  have "k < n - 1 \<or> n = 64 \<and> k = 63"
  proof (cases "n < 64")
    case True
    have m: "mask_for n + 1 = push_bit n 1" by (simp add: mask_for_def True not_le)
    have "drop_bit 1 (push_bit n 1 :: u64) = push_bit (n - 1) 1"
      by (rule bit_word_eqI) (use n True in \<open>auto simp: bit_drop_bit_eq bit_exp_iff\<close>)
    with d True m have "\<not> push_bit (n - 1) 1 \<le> v" by (simp add: divisor_ok_def)
    then have "uint v < uint (push_bit (n - 1) 1 :: u64)" by (simp only: word_le_def not_le)
    then have "(2 :: int) ^ k < 2 ^ (n - 1)" using k True by (simp only: k(2) uint_power less_imp_diff_less)
    then have "k < n - 1" by (simp add: power_strict_increasing_iff)
    then show ?thesis by simp
  next
    case False
    with n k(1) show ?thesis by auto
  qed
  with k n that show thesis by force
qed

lemma signed_of_divisor:
  assumes "k < n - 1 \<or> n = 64 \<and> k = 63"
  shows "signed_of n (2 ^ k) = (if k < n - 1 then 2 ^ k else - (2 ^ k))"
proof (cases "k < n - 1")
  case True
  then have "(2 :: int) ^ k < 2 ^ (n - 1)" by (simp add: power_strict_increasing_iff)
  with True signed_of_small [of "2 ^ k" n] show ?thesis by simp
next
  case False
  with assms show ?thesis by (simp add: signed_of_def signed_take_bit_eq_take_bit_minus)
qed

lemma tdiv_power: "0 \<le> a \<Longrightarrow> tdiv a (2 ^ k) = a div 2 ^ k" "0 \<le> a \<Longrightarrow> trem a (2 ^ k) = a mod 2 ^ k"
proof -
  assume "0 \<le> a"
  then show "tdiv a (2 ^ k) = a div 2 ^ k" by (cases "a = 0") (simp_all add: tdiv_def)
  then show "trem a (2 ^ k) = a mod 2 ^ k" by (simp add: trem_def minus_mult_div_eq_mod)
qed

lemma tdiv_small: "0 \<le> a \<Longrightarrow> a < 2 ^ k \<Longrightarrow> tdiv a (- (2 ^ k)) = 0" "0 \<le> a \<Longrightarrow> a < 2 ^ k \<Longrightarrow> trem a (- (2 ^ k)) = a"
  by (simp_all add: tdiv_def trem_def)

text \<open>The reduced operation has the value of the original one.\<close>

lemma strength_val:
  assumes d: "divisor_ok n v" and n: "1 \<le> n" "n \<le> 64" and a: "0 \<le> a" "a < 2 ^ n"
    and op: "strength_op op nn v = Some (op', w)" and nonneg: "op \<in> {SDiv, SRem} \<Longrightarrow> 0 \<le> signed_of n a"
    and y: "binary_val op n a (uint v) = Some y"
  shows "binary_val op' n a (uint w mod 2 ^ n) = Some y"
proof -
  obtain k where k: "v = push_bit k 1" "trailing_zeros v = k" "k < n" "k < n - 1 \<or> n = 64 \<and> k = 63"
    by (rule divisor_okE [OF d n])
  have k64: "k < 64" using k(3) n by simp
  have v: "uint v = 2 ^ k" using uint_power [OF k64] k(1) by simp
  have kn: "int k < 2 ^ n" using k(3) by (metis less_exp of_nat_less_iff of_nat_power of_nat_numeral order_less_trans)
  have sh: "uint (of_nat k :: u64) mod 2 ^ n = int k"
    using k64 kn by (simp add: unsigned_of_nat take_bit_nat_eq_self)
  have "(mask k :: int) < 2 ^ n" using k(3) by (simp add: mask_eq_exp_minus_1 power_increasing_iff less_le_trans [of _ "2 ^ k"])
  then have ms: "uint (v - 1) mod 2 ^ n = mask k"
    using uint_power_pred [OF k64] by (simp add: k(1))
  have am: "a AND mask k = a mod 2 ^ k" by (simp add: take_bit_eq_mod flip: take_bit_eq_mask)
  have le: "a div 2 ^ k < 2 ^ n" "0 \<le> a div 2 ^ k" "a mod 2 ^ k < 2 ^ n" "0 \<le> a mod 2 ^ k"
  proof -
    have "a div 2 ^ k \<le> a" using a by (metis div_by_1 one_le_power one_le_numeral zdiv_mono2 zero_less_one)
    moreover have "a mod 2 ^ k \<le> a" using a by (simp add: zmod_le_nonneg_dividend)
    ultimately show "a div 2 ^ k < 2 ^ n" "0 \<le> a div 2 ^ k" "a mod 2 ^ k < 2 ^ n" "0 \<le> a mod 2 ^ k"
      using a by (simp_all add: div_int_pos_iff)
  qed
  have sa: "signed_of n a = a \<and> a < 2 ^ (n - 1)" if "op \<in> {SDiv, SRem}"
  proof -
    have lt: "signed_of n a < 2 ^ (n - 1)" by (simp add: signed_of_def signed_take_bit_int_less_exp)
    moreover have "(2 :: int) ^ (n - 1) < 2 ^ n" using n by simp
    ultimately have "signed_of n a < 2 ^ n" by (rule order.strict_trans)
    then have "signed_of n a mod 2 ^ n = signed_of n a" using nonneg [OF that] by simp
    moreover have "signed_of n a mod 2 ^ n = a" using signed_of_mod [of n a] n a by simp
    ultimately show ?thesis using lt by simp
  qed
  have sd: "signed_of n (2 ^ k) = 2 ^ k \<or> signed_of n (2 ^ k) = - (2 ^ k) \<and> a < 2 ^ k" if "op \<in> {SDiv, SRem}"
    using signed_of_divisor [OF k(4)] k(4) sa [OF that] by (auto split: if_splits)
  have div: "tdiv a (signed_of n (2 ^ k)) = a div 2 ^ k" "trem a (signed_of n (2 ^ k)) = a mod 2 ^ k"
    if "op \<in> {SDiv, SRem}"
    using sd [OF that] tdiv_power [OF a(1), of k] tdiv_small [OF a(1), of k] a(1) by auto
  note y' = y [unfolded v]
  have shift: "binary_val op' n a (uint w mod 2 ^ n) = binary_val op' n a (int k)" if "w = of_nat k"
    unfolding that sh ..
  have masked: "binary_val BitAnd n a (uint w mod 2 ^ n) = Some (a mod 2 ^ k)" if "w = v - 1"
    unfolding that ms by (simp add: am)
  show ?thesis
  proof (cases op)
    case Mul
    with op k(2) have "op' = Shl" "w = of_nat k" by (simp_all add: strength_op_def)
    with shift y' Mul k(3) show ?thesis by simp
  next
    case UDiv
    with op k(2) have "op' = LShr" "w = of_nat k" by (simp_all add: strength_op_def)
    with shift y' UDiv k(3) show ?thesis by simp
  next
    case URem
    with op have "op' = BitAnd" "w = v - 1" by (simp_all add: strength_op_def)
    with masked y' URem show ?thesis by simp
  next
    case SDiv
    with op k(2) have "op' = LShr" "w = of_nat k" by (simp_all add: strength_op_def split: if_splits)
    with shift y' SDiv k(3) sa div le show ?thesis by (simp split: if_splits)
  next
    case SRem
    with op have "op' = BitAnd" "w = v - 1" by (simp_all add: strength_op_def split: if_splits)
    with masked y' SRem sa div le show ?thesis by (simp split: if_splits)
  qed (use op in \<open>simp_all add: strength_op_def\<close>)
qed

section \<open>The pass rewrites to equal values\<close>

text \<open>Changing use lists leaves the views and the constants' kinds.\<close>

definition const_kinds :: "module_core \<Rightarrow> const_id \<rightharpoonup> const_kind" where
  "const_kinds M c = map_option cd_kind (const_map M c)"

definition uses_only :: "module_core \<Rightarrow> module_core \<Rightarrow> bool" where
  "uses_only M M' \<longleftrightarrow> same_views M M' \<and> const_kinds M' = const_kinds M"

lemma uses_only_refl: "uses_only M M"
  by (simp add: uses_only_def)

lemma uses_only_trans: "uses_only M M1 \<Longrightarrow> uses_only M1 M2 \<Longrightarrow> uses_only M M2"
  unfolding uses_only_def using same_views_trans by metis

lemma uses_only_value: "with_value_uses v g M = Some M' \<Longrightarrow> uses_only M M'"
  using with_value_uses_views(4) [of v g M M']
  by (cases v) (auto simp: uses_only_def const_kinds_def with_value_uses_def with_inst_def with_arg_def with_func_def
      fun_eq_iff bind_eq_Some_conv)

lemma uses_only_block: "with_block_uses b g M = Some M' \<Longrightarrow> uses_only M M'"
  using with_block_uses_views(4) [of b g M M']
  by (auto simp: uses_only_def const_kinds_def with_block_uses_def with_block_def with_func_def
      fun_eq_iff bind_eq_Some_conv)

lemma uses_only_fold:
  assumes "fold_opt f xs M = Some M'" "\<And>x M M'. f x M = Some M' \<Longrightarrow> uses_only M M'"
  shows "uses_only M M'"
  by (rule fold_opt_keeps [OF assms(1), where P = "uses_only M"]) (use assms(2) uses_only_refl uses_only_trans in blast)+

lemma uses_only_register:
  "register_inst_use i M = Some M' \<Longrightarrow> uses_only M M'" "unregister_inst_use i M = Some M' \<Longrightarrow> uses_only M M'"
  unfolding register_inst_use_def unregister_inst_use_def bind_eq_Some_conv
  by (elim exE conjE, rule uses_only_trans; erule uses_only_fold; force intro: uses_only_value uses_only_block)+

lemma replace_inst_kind_views:
  assumes "replace_inst_kind i k M = Some M'"
  shows "kind_at M' i = Some k" "const_kinds M' = const_kinds M"
proof -
  from assms obtain M1 M2 where M1: "unregister_inst_use i M = Some M1"
    and M2: "with_inst i (\<lambda>D. D\<lparr>id_kind := k\<rparr>) M1 = Some M2" and M': "register_inst_use i M2 = Some M'"
    by (auto simp: replace_inst_kind_def bind_eq_Some_conv)
  from uses_only_register(1) [OF M'] with_inst_kind_views(2) [OF M2] show "kind_at M' i = Some k"
    by (simp add: uses_only_def same_views_def)
  have "const_map M2 = const_map M1" using M2 by (auto simp: with_inst_def with_func_def bind_eq_Some_conv)
  with uses_only_register(1) [OF M'] uses_only_register(2) [OF M1] show "const_kinds M' = const_kinds M"
    by (simp add: uses_only_def) (simp add: const_kinds_def fun_eq_iff)
qed

lemma env_ok_kinds:
  "env_ok M wd env \<longleftrightarrow> (\<forall>c i. const_kinds M c = Some (CInt i) \<longrightarrow> env (VConst c) = Some (ci_unsigned i)) \<and>
     (\<forall>v a. env v = Some a \<and> (\<forall>c. v \<noteq> VConst c) \<longrightarrow> 0 \<le> a \<and> a < 2 ^ wd v)"
  unfolding env_ok_def const_kinds_def by (fastforce simp: map_option_eq_Some)

section \<open>The analysis returns\<close>

text \<open>Every instruction reads live values, attached or not.\<close>

definition operands_live :: "module_core \<Rightarrow> bool" where
  "operands_live M \<longleftrightarrow> (\<forall>i k v s. kind_at M i = Some k \<longrightarrow> (v, s) \<in> set (value_operands k) \<longrightarrow> value_uses M v \<noteq> None)"

text \<open>A test that returns from every cache that has the answers of \<open>c\<close>, and keeps the answers.\<close>

definition returns_from :: "nonneg_cache \<Rightarrow> nonneg_test \<Rightarrow> bool" where
  "returns_from c p \<longleftrightarrow> (\<forall>c1. dom c \<subseteq> dom c1 \<longrightarrow> (\<exists>b c2. p c1 = Some (b, c2) \<and> dom c1 \<subseteq> dom c2))"

lemma returns_fromE:
  assumes "returns_from c p" "dom c \<subseteq> dom c1"
  obtains b c2 where "p c1 = Some (b, c2)" "dom c1 \<subseteq> dom c2"
  using assms unfolding returns_from_def by blast

lemma returns_const: "returns_from c (\<lambda>c. Some (b, c))"
  by (simp add: returns_from_def)

lemma returns_if:
  "returns_from c p \<Longrightarrow> returns_from c q \<Longrightarrow> returns_from c (\<lambda>c. if b then p c else q c)"
  by (cases b) simp_all

lemma returns_seq:
  assumes "returns_from c p" "\<And>b. returns_from c (q b)"
  shows "returns_from c (\<lambda>c. do { (b, c1) \<leftarrow> p c; q b c1 })"
  unfolding returns_from_def
proof (intro allI impI)
  fix c1 :: nonneg_cache assume c1: "dom c \<subseteq> dom c1"
  obtain b c2 where p: "p c1 = Some (b, c2)" "dom c1 \<subseteq> dom c2" by (rule returns_fromE [OF assms(1) c1])
  obtain b' c3 where "q b c2 = Some (b', c3)" "dom c2 \<subseteq> dom c3"
    by (rule returns_fromE [OF assms(2) order_trans [OF c1 p(2)]])
  with p show "\<exists>b' c3. (do { (b, c1) \<leftarrow> p c1; q b c1 }) = Some (b', c3) \<and> dom c1 \<subseteq> dom c3" by auto
qed

lemma returns_and: "returns_from c p \<Longrightarrow> returns_from c q \<Longrightarrow> returns_from c (test_and p q)"
  unfolding test_and_def by (rule returns_seq, assumption) (simp add: returns_const returns_if)

lemma returns_or: "returns_from c p \<Longrightarrow> returns_from c q \<Longrightarrow> returns_from c (test_or p q)"
  unfolding test_or_def by (rule returns_seq, assumption) (simp add: returns_const returns_if)

lemma returns_all: "\<forall>p \<in> set ps. returns_from c p \<Longrightarrow> returns_from c (test_all ps)"
  by (induction ps) (simp_all add: test_all_def returns_const returns_and)

lemma compute_nonneg_returns:
  assumes ops: "operands_live M" and v: "value_uses M v \<noteq> None"
    and rec: "\<And>w i. v = VInst i \<Longrightarrow> value_uses M w \<noteq> None \<Longrightarrow> returns_from c (nonneg w)"
  shows "returns_from c (compute_nonneg nonneg M v)"
proof (cases v)
  case (VInst i)
  with v obtain D where D: "inst_at M i = Some D" by (auto simp: value_uses_def)
  have kD: "kind_at M i = Some (id_kind D)" using D by (simp add: kind_at_def)
  have op: "returns_from c (nonneg w)" if "(w, s) \<in> set (value_operands (id_kind D))" for w s
  proof (rule rec [OF VInst])
    show "value_uses M w \<noteq> None" using ops kD that unfolding operands_live_def by blast
  qed
  show ?thesis
  proof (cases "id_kind D")
    case (Binary bop l r)
    with op have "returns_from c (nonneg l)" "returns_from c (nonneg r)" by (auto intro!: op)
    with Binary show ?thesis
      by (cases bop) (simp_all add: compute_nonneg_def [abs_def] VInst D returns_const returns_and returns_or)
  next
    case (Phi inc k)
    then have "returns_from c (test_all (map (\<lambda>(_, e). nonneg (pi_value e)) inc))"
      by (intro returns_all) (auto intro!: op)
    with Phi show ?thesis by (simp add: compute_nonneg_def [abs_def] VInst D)
  next
    case (Select x t e)
    with op have "returns_from c (nonneg t)" "returns_from c (nonneg e)" by (auto intro!: op)
    with Select show ?thesis by (simp add: compute_nonneg_def [abs_def] VInst D returns_and)
  qed (simp_all add: compute_nonneg_def [abs_def] VInst D returns_const)
qed (use v in \<open>auto simp: compute_nonneg_def [abs_def] value_uses_def returns_const returns_from_def\<close>)

text \<open>One level of recursion per instruction without an answer.\<close>

definition unanswered :: "module_core \<Rightarrow> nonneg_cache \<Rightarrow> inst_ref set" where
  "unanswered M c = {i \<in> dom (kind_at M). c (VInst i) = None}"

lemma is_value_nonneg_returns:
  assumes ops: "operands_live M" and fin: "finite (dom (kind_at M))"
  shows "value_uses M v \<noteq> None \<Longrightarrow> card (unanswered M c) < n \<Longrightarrow>
    \<exists>b c'. is_value_nonneg n M v c = Some (b, c') \<and> dom c \<subseteq> dom c'"
proof (induction n arbitrary: v c)
  case (Suc n)
  show ?case
  proof (cases "c v")
    case None
    let ?c = "c(v \<mapsto> False)"
    have "returns_from ?c (is_value_nonneg n M w)" if "v = VInst i" "value_uses M w \<noteq> None" for w i
      unfolding returns_from_def
    proof (intro allI impI)
      fix c1 :: nonneg_cache assume c1: "dom ?c \<subseteq> dom c1"
      have fs: "finite (unanswered M c)" using fin by (simp add: unanswered_def)
      have i: "i \<in> unanswered M c" using that(1) None Suc.prems(1) by (auto simp: unanswered_def kind_at_def value_uses_def)
      have "unanswered M c1 \<subseteq> unanswered M c - {i}" using c1 that(1) by (auto simp: unanswered_def dom_def split: if_splits)
      then have "card (unanswered M c1) \<le> card (unanswered M c - {i})" using fs by (intro card_mono) auto
      also have "\<dots> < card (unanswered M c)" by (rule card_Diff1_less [OF fs i])
      finally have "card (unanswered M c1) < n" using Suc.prems(2) by simp
      then show "\<exists>b c2. is_value_nonneg n M w c1 = Some (b, c2) \<and> dom c1 \<subseteq> dom c2" by (rule Suc.IH [OF that(2)])
    qed
    then have r: "returns_from ?c (compute_nonneg (is_value_nonneg n M) M v)"
      by (rule compute_nonneg_returns [OF ops Suc.prems(1)])
    obtain b c2 where "compute_nonneg (is_value_nonneg n M) M v ?c = Some (b, c2)" "dom ?c \<subseteq> dom c2"
      by (rule returns_fromE [OF r order_refl])
    with None show ?thesis by auto
  qed simp
qed simp

section \<open>The rewriting returns\<close>

lemma bind_no_blocks [simp]: "Option.bind x (fold_opt f []) = x"
  by (cases x) simp_all

lemma unregister_returns:
  assumes k: "kind_at M i = Some k" and b: "block_operands k = []"
    and live: "\<forall>(v, s) \<in> set (value_operands k). value_uses M v \<noteq> None"
  shows "\<exists>M'. unregister_inst_use i M = Some M' \<and> dom (value_uses M') = dom (value_uses M)"
proof -
  from k obtain D where D: "inst_at M i = Some D" "id_kind D = k" by (auto simp: kind_at_def)
  let ?ps = "map (\<lambda>(v, s). (v, Use i s)) (value_operands k)"
  have "\<forall>(x, u) \<in> set ?ps. value_uses M x \<noteq> None" using live by auto
  from vu.fold_live [where g = remove1, OF this] obtain M' where
    M': "fold_opt (\<lambda>(x, u). with_value_uses x (remove1 u)) ?ps M = Some M'" by blast
  have "unregister_inst_use i M = fold_opt (\<lambda>(x, u). with_value_uses x (remove1 u)) ?ps M"
    by (simp add: unregister_inst_use_def D b fold_values [of remove1])
  with M' vu.fold_dom [OF M'] show ?thesis by simp
qed

lemma register_returns:
  assumes k: "kind_at M i = Some k" and b: "block_operands k = []"
    and live: "\<forall>(v, s) \<in> set (value_operands k). value_uses M v \<noteq> None"
  shows "\<exists>M'. register_inst_use i M = Some M'"
proof -
  from k obtain D where D: "inst_at M i = Some D" "id_kind D = k" by (auto simp: kind_at_def)
  let ?ps = "map (\<lambda>(v, s). (v, Use i s)) (value_operands k)"
  have "\<forall>(x, u) \<in> set ?ps. value_uses M x \<noteq> None" using live by auto
  from vu.fold_live [where g = "\<lambda>u us. us @ [u]", OF this] show ?thesis
    by (simp add: register_inst_use_def D b fold_values [of "\<lambda>u us. us @ [u]"])
qed

lemma replace_inst_kind_inv:
  assumes inv: "module_inv_but S M" and a: "attached M i" and k: "kind_at M i = Some k"
    and k': "kind_ok k'" "is_phi k' = is_phi k" "kind_is_terminator k' = kind_is_terminator k"
    and b: "block_operands k = []" "block_operands k' = []"
    and live: "\<forall>(v, s) \<in> set (value_operands k'). value_uses M v \<noteq> None"
  shows "\<exists>M'. replace_inst_kind i k' M = Some M' \<and> module_inv_but S M' \<and> kind_at M' = (kind_at M)(i \<mapsto> k')"
proof -
  have inv': "use_inv M" "kinds_inv M" "place_inv M" "order_inv S M" using inv by (simp_all add: module_inv_def)
  have m: "mirrors (value_uses M) (value_links M)" "mirrors (block_uses M) (block_links M)"
    using inv'(1) by (simp_all add: use_inv_def)
  have "\<forall>(v, s) \<in> set (value_operands k). (v, Use i s) \<in> value_links M" using a k by (auto simp: value_links_iff)
  then have "\<forall>(v, s) \<in> set (value_operands k). value_uses M v \<noteq> None" using m(1) unfolding mirrors_def by blast
  from unregister_returns [OF k b(1) this] obtain M1 where M1: "unregister_inst_use i M = Some M1"
    and d1: "dom (value_uses M1) = dom (value_uses M)" by blast
  note l1 = unregister_law [OF M1 k m]
  have k1: "kind_at M1 i = Some k" using l1(3) k by (simp add: same_views_def)
  then obtain D1 where "inst_at M1 i = Some D1" by (auto simp: kind_at_def)
  then obtain M2 where M2: "with_inst i (\<lambda>D. D\<lparr>id_kind := k'\<rparr>) M1 = Some M2" using with_inst_live by blast
  note v2 = with_inst_kind_views [OF M2]
  have k2: "kind_at M2 i = Some k'" by (simp add: v2)
  have "value_uses M2 v \<noteq> None" if "value_uses M v \<noteq> None" for v using that d1 v2(6) by (auto simp: dom_def)
  with live have "\<forall>(v, s) \<in> set (value_operands k'). value_uses M2 v \<noteq> None" by fast
  from register_returns [OF k2 b(2) this] obtain M' where M': "register_inst_use i M2 = Some M'" by blast
  have dis: "kind_values i k' \<inter> (value_links M - kind_values i k) = {}" "kind_blocks i k' \<inter> (block_links M - kind_blocks i k) = {}"
    using k b by (auto simp: kind_values_def kind_blocks_def value_links_iff)
  have m2: "mirrors (value_uses M2) (value_links M - kind_values i k)" "mirrors (block_uses M2) (block_links M - kind_blocks i k)"
    using l1(1,2) by (simp_all add: v2)
  note l2 = register_law [OF M' k2 k'(1) m2 dis]
  have K: "kind_at M' = (kind_at M)(i \<mapsto> k')" and P: "parent_at M' = parent_at M"
    and L: "lists_at M' = lists_at M" and O1: "order_at M' = order_at M"
    using l1(3) l2(3) v2 by (simp_all add: same_views_def)
  note lk = links_kind_upd [OF a k K P]
  have o: "only_kinds M M'" by (rule only_kinds_upd [OF K k k'(2,3) P L O1])
  have "use_inv M'" using l2(1,2) by (simp add: use_inv_def lk)
  moreover have "kinds_inv M'" using inv'(2) k'(1) by (auto simp: kinds_inv_def K)
  ultimately have "module_inv_but S M'" using only_kinds_inv [OF o] inv' by (simp add: module_inv_def)
  moreover have "replace_inst_kind i k' M = Some M'" using M1 M2 M' by (simp add: replace_inst_kind_def)
  ultimately show ?thesis using K by blast
qed

text \<open>The rewriting keeps the value of the instruction, when it returns.\<close>

lemma strength_value:
  assumes fresh: "fresh_key fresh" "finite (dom (const_map M))"
    and D: "inst_at M i = Some D" "id_ty D = IntT n" "id_kind D = Binary op l r"
    and t: "scalar_typed M wd n n (Binary op l r)"
    and s: "strength_inst fuel fresh i (cache, M) = Some (cache', M')"
  shows "\<exists>k'. kind_at M' i = Some k' \<and>
    (\<forall>env a y. env_ok M' wd env \<longrightarrow> env l = Some a \<longrightarrow> (op \<in> {SDiv, SRem} \<longrightarrow> 0 \<le> signed_of n a) \<longrightarrow>
       inst_val env n n (Binary op l r) = Some y \<longrightarrow> inst_val env n n k' = Some y)"
proof -
  from t have n: "1 \<le> n" "n \<le> 64" and tl: "typed_operand M wd n l" and tr: "typed_operand M wd n r"
    by (auto simp: scalar_typed_def)
  have k0: "kind_at M i = Some (Binary op l r)" using D by (simp add: kind_at_def)
  from s D obtain rc where rc: "as_int_const_sr M r = Some rc"
    by (auto simp: strength_inst_def bind_eq_Some_conv)
  show ?thesis
  proof (cases "M' = M")
    case True
    with k0 show ?thesis by blast
  next
    case False
    with s D rc obtain c nn cache1 where c: "rc = Some c" "divisor_ok n (ci_value c)"
      and st: "install_reduced fresh i (IntT n) n l (strength_op op nn (ci_value c)) (cache1, M) = Some (cache', M')"
      by (auto simp: strength_inst_def int_width_def bind_eq_Some_conv split: option.splits if_splits)
    let ?f = "fresh (const_map M)"
    from st False obtain op' v ci where op': "strength_op op nn (ci_value c) = Some (op', v)" and ci: "ci_new v n = Some ci"
      and M': "replace_inst_kind i (Binary op' l (VConst ?f)) (add_const ?f (IntT n) (CInt ci) M) = Some M'"
      by (auto simp: install_reduced_def make_const_def Let_def bind_eq_Some_conv split: option.splits)
    note v = replace_inst_kind_views [OF M']
    from tr rc c(1) obtain kc where r: "r = VConst kc" "const_kinds M kc = Some (CInt c)" "ci_wf c" "bit_width c = n"
      by (cases rule: typed_cases) (auto simp: as_int_const_sr_def const_kinds_def)
    have f0: "const_map M ?f = None" using fresh by (simp add: fresh_key_def)
    have ck: "const_kinds M' = (const_kinds M)(?f \<mapsto> CInt ci)"
      using v(2) by (simp add: const_kinds_def add_const_def fun_eq_iff)
    have kc: "kc \<noteq> ?f" using r(2) f0 by (auto simp: const_kinds_def)
    have "inst_val env n n (Binary op' l (VConst ?f)) = Some y"
      if e: "env_ok M' wd env" and l: "env l = Some a" and pos: "op \<in> {SDiv, SRem} \<longrightarrow> 0 \<le> signed_of n a"
        and val: "inst_val env n n (Binary op l r) = Some y" for env a y
    proof -
      have ef: "env (VConst ?f) = Some (ci_unsigned ci)" and er: "env r = Some (ci_unsigned c)"
        using e ck kc r by (simp_all add: env_ok_kinds)
      have "const_kinds M ?f = None" using f0 by (simp add: const_kinds_def)
      then have "const_kinds M c = Some (CInt i) \<Longrightarrow> const_kinds M' c = Some (CInt i)" for c i using ck by auto
      with e have eM: "env_ok M wd env" unfolding env_ok_kinds by blast
      note a = operand_range [OF tl eM l]
      from val l er have "binary_val op n a (uint (ci_value c)) = Some y"
        by (simp add: inst_val_def ci_unsigned_def)
      from strength_val [OF c(2) n a op' _ this] pos have "binary_val op' n a (uint v mod 2 ^ n) = Some y" by blast
      with ci_unsigned_new [OF n ci] ef l show ?thesis by (simp add: inst_val_def)
    qed
    with v(1) show ?thesis by blast
  qed
qed

text \<open>The divisor is a constant that the pass can use, and the operation it is replaced by.\<close>

definition usable_divisor :: "module_core \<Rightarrow> nat \<Rightarrow> value_id \<Rightarrow> bool" where
  "usable_divisor M n r \<longleftrightarrow> (\<exists>c. as_int_const_sr M r = Some (Some c) \<and> divisor_ok n (ci_value c))"

definition reduced_op :: "binary_opcode \<Rightarrow> binary_opcode" where
  "reduced_op op = (case op of Mul \<Rightarrow> Shl | UDiv \<Rightarrow> LShr | SDiv \<Rightarrow> LShr | _ \<Rightarrow> BitAnd)"

definition reducible :: "binary_opcode \<Rightarrow> bool \<Rightarrow> bool" where
  "reducible op nn \<longleftrightarrow> op \<in> {Mul, UDiv, URem} \<or> op \<in> {SDiv, SRem} \<and> nn"

lemma strength_op_reducible:
  "strength_op op nn v = (if reducible op nn then Some (reduced_op op,
     if op \<in> {URem, SRem} then v - 1 else of_nat (trailing_zeros v)) else None)"
  by (cases op) (simp_all add: strength_op_def reducible_def reduced_op_def)

lemma typed_as_int_const: "typed_operand M wd n r \<Longrightarrow> \<exists>rc. as_int_const_sr M r = Some rc"
  by (auto simp: typed_operand_def as_int_const_sr_def split: option.splits)

lemma binary_kind_simps [simp]:
  "kind_ok (Binary op l r)" "is_phi (Binary op l r) = False" "kind_is_terminator (Binary op l r) = False"
  by (simp_all add: kind_ok_def is_phi_def kind_is_terminator_def)

lemma install_reduced_returns:
  assumes fresh: "fresh_key fresh" "finite (dom (const_map M))" and inv: "module_inv M"
    and a: "attached M i" and k: "kind_at M i = Some (Binary op l r)" and n: "1 \<le> n" "n \<le> 64"
  shows "\<exists>M' c. install_reduced fresh i (IntT n) n l (Some (op', w)) (cache, M) = Some (Map.empty, M') \<and>
    module_inv M' \<and> kind_at M' = (kind_at M)(i \<mapsto> Binary op' l (VConst c))"
proof -
  let ?f = "fresh (const_map M)"
  obtain ci where ci: "ci_new w n = Some ci" using ci_new_Some [OF n] by simp
  have f0: "const_map M ?f = None" using fresh by (simp add: fresh_key_def)
  let ?M1 = "add_const ?f (IntT n) (CInt ci) M"
  have inv1: "module_inv ?M1" by (rule add_const_inv [OF inv f0])
  note v = add_const_views [OF f0, of "IntT n" "CInt ci"]
  have sv: "attached ?M1 i" "kind_at ?M1 i = Some (Binary op l r)" "kind_at ?M1 = kind_at M"
    using same_views_inv [OF v(1)] v(1) a k by (simp_all add: same_views_def)
  have "(l, Use i BinaryLhs) \<in> value_links M" using a k by (simp add: value_links_iff)
  then have "value_uses M l \<noteq> None" using inv unfolding module_inv_def use_inv_def mirrors_def by blast
  then have live: "\<forall>(v, s) \<in> set (value_operands (Binary op' l (VConst ?f))). value_uses ?M1 v \<noteq> None"
    by (simp add: v)
  from replace_inst_kind_inv [OF inv1 sv(1,2) _ _ _ _ _ live] obtain M' where
    "replace_inst_kind i (Binary op' l (VConst ?f)) ?M1 = Some M'" "module_inv M'"
    "kind_at M' = (kind_at M)(i \<mapsto> Binary op' l (VConst ?f))" unfolding sv(3) by auto
  then show ?thesis by (auto simp: install_reduced_def ci make_const_def Let_def)
qed

text \<open>C7. Strength reduction of an attached integer operation, in a module that satisfies the invariant,
  whose instructions read live values, and with fuel for its finitely many instructions.  The step returns,
  keeps the invariant and changes no other instruction.  When the right operand is a usable power of two
  and the operation a multiplication, an unsigned division, an unsigned remainder, or a signed division or
  remainder of a dividend that the analysis takes for non-negative, the instruction becomes the shift or
  the mask of its left operand with a new constant; otherwise the module stays as it is.  The replacement has the
  same value in every environment where the old operation has one, for the signed operations where the
  dividend really is not negative (the analysis is not sound).  Operands are typed integers of one width
  up to 64, signed operations at width 1 and undefined and null operands excluded (\<open>scalar_typed\<close>).\<close>

theorem strength_reduction_sound:
  assumes fresh: "fresh_key fresh" "finite (dom (const_map M))"
    and inv: "module_inv M" "operands_live M" "finite (dom (kind_at M))" and fuel: "card (dom (kind_at M)) < fuel"
    and D: "inst_at M i = Some D" "id_ty D = IntT n" "id_kind D = Binary op l r" and a: "attached M i"
    and t: "scalar_typed M wd n n (Binary op l r)"
  shows "\<exists>cache' M' nn. strength_inst fuel fresh i (cache, M) = Some (cache', M') \<and> module_inv M' \<and>
    (\<forall>j. j \<noteq> i \<longrightarrow> kind_at M' j = kind_at M j) \<and>
    (op \<in> {SDiv, SRem} \<longrightarrow> usable_divisor M n r \<longrightarrow> map_option fst (is_value_nonneg fuel M l cache) = Some nn) \<and>
    (if usable_divisor M n r \<and> reducible op nn
     then \<exists>c. kind_at M' i = Some (Binary (reduced_op op) l (VConst c)) \<and>
       (\<forall>env a y. env_ok M' wd env \<longrightarrow> env l = Some a \<longrightarrow> (op \<in> {SDiv, SRem} \<longrightarrow> 0 \<le> signed_of n a) \<longrightarrow>
          inst_val env n n (Binary op l r) = Some y \<longrightarrow>
          inst_val env n n (Binary (reduced_op op) l (VConst c)) = Some y)
     else M' = M)"
proof -
  from t have n: "1 \<le> n" "n \<le> 64" and tr: "typed_operand M wd n r" by (auto simp: scalar_typed_def)
  have k: "kind_at M i = Some (Binary op l r)" using D by (simp add: kind_at_def)
  from typed_as_int_const [OF tr] obtain rc where rc: "as_int_const_sr M r = Some rc" by blast
  have "(l, BinaryLhs) \<in> set (value_operands (Binary op l r))" by simp
  then have l: "value_uses M l \<noteq> None" using inv(2) k unfolding operands_live_def by blast
  have "card (unanswered M cache) \<le> card (dom (kind_at M))" by (rule card_mono [OF inv(3)]) (auto simp: unanswered_def)
  then obtain b c' where nonneg: "is_value_nonneg fuel M l cache = Some (b, c')"
    using is_value_nonneg_returns [OF inv(2,3) l, of cache fuel] fuel by auto
  show ?thesis
  proof (cases "usable_divisor M n r")
    case False
    then have "strength_inst fuel fresh i (cache, M) = Some (cache, M)"
      using D rc by (auto simp: strength_inst_def int_width_def usable_divisor_def split: option.splits)
    with False inv show ?thesis by auto
  next
    case True
    then obtain c where c: "rc = Some c" "divisor_ok n (ci_value c)" using rc by (auto simp: usable_divisor_def)
    let ?nn = "op \<in> {SDiv, SRem} \<and> b" and ?cache = "if op \<in> {SDiv, SRem} then c' else cache"
    have s: "strength_inst fuel fresh i (cache, M) =
        install_reduced fresh i (IntT n) n l (strength_op op ?nn (ci_value c)) (?cache, M)"
      using D rc c nonneg by (auto simp: strength_inst_def int_width_def)
    show ?thesis
    proof (cases "reducible op ?nn")
      case red: False
      then have "strength_inst fuel fresh i (cache, M) = Some (?cache, M)"
        by (simp only: s strength_op_reducible if_False) (simp add: install_reduced_def)
      with red True inv nonneg show ?thesis by (intro exI [of _ ?cache] exI [of _ M] exI [of _ ?nn]) auto
    next
      case red: True
      obtain w where w: "strength_op op ?nn (ci_value c) = Some (reduced_op op, w)"
        using red by (simp only: strength_op_reducible if_True simp_thms)
      from install_reduced_returns [OF fresh inv(1) a k n, of "reduced_op op" w ?cache] obtain M' ck where
        r: "strength_inst fuel fresh i (cache, M) = Some (Map.empty, M')" and M': "module_inv M'"
        "kind_at M' = (kind_at M)(i \<mapsto> Binary (reduced_op op) l (VConst ck))" unfolding s w by blast
      from strength_value [OF fresh D t r] M'(2) red True r M'(1) nonneg show ?thesis
        by (intro exI [of _ Map.empty] exI [of _ M'] exI [of _ ?nn]) auto
    qed
  qed
qed

section \<open>Examples\<close>

text \<open>A function of one argument \<open>x\<close> with the instructions \<open>a = x & 0x7fffffff\<close>, \<open>b = a << 1\<close> and
  \<open>c = b / 4\<close> (signed): \<open>((x & 0x7fffffff) << 1) / 4\<close>.\<close>

abbreviation "sr_arg \<equiv> VArg (ArgRef 0 0)"
abbreviation "sr_val n \<equiv> VInst (InstRef 0 n)"

definition sr_inst :: "inst_kind \<Rightarrow> ir_use list \<Rightarrow> inst_data" where
  "sr_inst k us = \<lparr>id_parent = Some (BlockRef 0 0), id_ty = IntT 32, id_kind = k, id_uses = us, id_name = None\<rparr>"

definition sr_const :: "u64 \<Rightarrow> ir_use list \<Rightarrow> const_data" where
  "sr_const v us = \<lparr>cd_ty = IntT 32, cd_kind = CInt \<lparr>ci_value = v, bit_width = 32\<rparr>, cd_uses = us\<rparr>"

definition sr_module :: module_core where
  "sr_module = module_new\<lparr>
     func_map := [0 \<mapsto> \<lparr>fd_name = ''f'', fd_ty = FunctionT VoidT [IntT 32], fd_attrs = empty_attrs,
       fd_args = [0 \<mapsto> \<lparr>ad_name = None, ad_ty = IntT 32, ad_attrs = [], ad_parent = 0, ad_uses = [Use (InstRef 0 0) BinaryLhs]\<rparr>],
       fd_blocks = [0 \<mapsto> \<lparr>bd_name = None, bd_phis = [], bd_insts = [0, 1, 2], bd_terminator = None, bd_parent = 0, bd_uses = []\<rparr>],
       fd_insts = [0 \<mapsto> sr_inst (Binary BitAnd sr_arg (VConst 0)) [Use (InstRef 0 1) BinaryLhs],
         1 \<mapsto> sr_inst (Binary Shl (sr_val 0) (VConst 1)) [Use (InstRef 0 2) BinaryLhs],
         2 \<mapsto> sr_inst (Binary SDiv (sr_val 1) (VConst 2)) []],
       fd_block_order = [0], fd_entry = 0, fd_is_declare = False\<rparr>],
     const_map := [0 \<mapsto> sr_const 0x7fffffff [Use (InstRef 0 0) BinaryRhs],
       1 \<mapsto> sr_const 1 [Use (InstRef 0 1) BinaryRhs], 2 \<mapsto> sr_const 4 [Use (InstRef 0 2) BinaryRhs]]\<rparr>"

lemmas sr_defs = sr_module_def sr_inst_def sr_const_def inst_at_def

lemma sr_divisors: "divisor_ok 32 0x7fffffff = False" "divisor_ok 32 1" "divisor_ok 32 4" "trailing_zeros 4 = 2"
  by code_simp+

lemma sr_fresh: "example_fresh (const_map sr_module) = 3"
  by (simp add: example_fresh_def sr_module_def insert_commute)

lemma sr_nonneg: "is_value_nonneg 10 sr_module (sr_val 1) Map.empty =
    Some (True, [sr_val 1 \<mapsto> True, sr_val 0 \<mapsto> True, sr_arg \<mapsto> False, VConst 0 \<mapsto> True, VConst 1 \<mapsto> True])"
  by (simp add: eval_nat_numeral compute_nonneg_def sr_defs test_and_def test_or_def fun_eq_iff)

lemma sr_steps:
  "strength_inst 10 example_fresh (InstRef 0 0) (Map.empty, sr_module) = Some (Map.empty, sr_module)"
  "strength_inst 10 example_fresh (InstRef 0 1) (Map.empty, sr_module) = Some (Map.empty, sr_module)"
  "\<exists>M'. strength_inst 10 example_fresh (InstRef 0 2) (Map.empty, sr_module) = Some (Map.empty, M') \<and>
     kind_at M' (InstRef 0 2) = Some (Binary LShr (sr_val 1) (VConst 3)) \<and>
     const_kinds M' = (const_kinds sr_module)(3 \<mapsto> CInt \<lparr>ci_value = 2, bit_width = 32\<rparr>)"
proof -
  show "strength_inst 10 example_fresh (InstRef 0 0) (Map.empty, sr_module) = Some (Map.empty, sr_module)"
    by (simp add: strength_inst_def sr_defs as_int_const_sr_def const_kind_of_def int_width_def sr_divisors)
  show "strength_inst 10 example_fresh (InstRef 0 1) (Map.empty, sr_module) = Some (Map.empty, sr_module)"
    by (simp add: strength_inst_def sr_defs as_int_const_sr_def const_kind_of_def int_width_def sr_divisors
        strength_op_def install_reduced_def)
  let ?M1 = "add_const 3 (IntT 32) (CInt \<lparr>ci_value = 2, bit_width = 32\<rparr>) sr_module"
  have D: "inst_at sr_module (InstRef 0 2) = Some (sr_inst (Binary SDiv (sr_val 1) (VConst 2)) [])"
    by (simp add: sr_module_def inst_at_def)
  have c: "as_int_const_sr sr_module (VConst 2) = Some (Some \<lparr>ci_value = 4, bit_width = 32\<rparr>)"
    by (simp add: as_int_const_sr_def const_kind_of_def sr_defs)
  have "replace_inst_kind (InstRef 0 2) (Binary LShr (sr_val 1) (VConst 3)) ?M1 \<noteq> None"
    by (simp add: replace_inst_kind_def run_simps sr_module_def sr_inst_def sr_const_def add_const_def module_new_def)
  then obtain M' where M': "replace_inst_kind (InstRef 0 2) (Binary LShr (sr_val 1) (VConst 3)) ?M1 = Some M'" by auto
  have "strength_inst 10 example_fresh (InstRef 0 2) (Map.empty, sr_module) = Some (Map.empty, M')"
    using M' by (simp add: strength_inst_def D sr_inst_def c int_width_def sr_divisors sr_nonneg [simplified] strength_op_def
        install_reduced_def ci_new_Some make_const_def sr_fresh)
  moreover have "const_kinds ?M1 = (const_kinds sr_module)(3 \<mapsto> CInt \<lparr>ci_value = 2, bit_width = 32\<rparr>)"
    by (simp add: const_kinds_def add_const_def fun_eq_iff)
  ultimately show "\<exists>M'. strength_inst 10 example_fresh (InstRef 0 2) (Map.empty, sr_module) = Some (Map.empty, M') \<and>
     kind_at M' (InstRef 0 2) = Some (Binary LShr (sr_val 1) (VConst 3)) \<and>
     const_kinds M' = (const_kinds sr_module)(3 \<mapsto> CInt \<lparr>ci_value = 2, bit_width = 32\<rparr>)"
    using replace_inst_kind_views [OF M'] by simp
qed

definition sr_env :: "value_id \<Rightarrow> int option" where
  "sr_env = [sr_arg \<mapsto> 0x40000000, sr_val 0 \<mapsto> 0x40000000, sr_val 1 \<mapsto> 0x80000000, sr_val 2 \<mapsto> 0xE0000000,
     VConst 0 \<mapsto> 0x7fffffff, VConst 1 \<mapsto> 1, VConst 2 \<mapsto> 4, VConst 3 \<mapsto> 2]"

lemma sr_env_run:
  "inst_val sr_env 32 32 (Binary BitAnd sr_arg (VConst 0)) = sr_env (sr_val 0)"
  "inst_val sr_env 32 32 (Binary Shl (sr_val 0) (VConst 1)) = sr_env (sr_val 1)"
  "inst_val sr_env 32 32 (Binary SDiv (sr_val 1) (VConst 2)) = sr_env (sr_val 2)"
  "inst_val sr_env 32 32 (Binary LShr (sr_val 1) (VConst 3)) = Some 0x20000000"
  by (simp_all add: inst_val_def sr_env_def signed_of_def tdiv_def)

lemma sr_views:
  "kind_at sr_module = [InstRef 0 0 \<mapsto> Binary BitAnd sr_arg (VConst 0), InstRef 0 1 \<mapsto> Binary Shl (sr_val 0) (VConst 1),
     InstRef 0 2 \<mapsto> Binary SDiv (sr_val 1) (VConst 2)]"
  "parent_at sr_module = [InstRef 0 0 \<mapsto> Some (BlockRef 0 0), InstRef 0 1 \<mapsto> Some (BlockRef 0 0),
     InstRef 0 2 \<mapsto> Some (BlockRef 0 0)]"
  "lists_at sr_module = [BlockRef 0 0 \<mapsto> Lists [] [0, 1, 2] None]"
  "order_at sr_module = [0 \<mapsto> ([0], 0, False)]"
  "block_uses sr_module = [BlockRef 0 0 \<mapsto> []]"
  "value_uses sr_module = [sr_val 0 \<mapsto> [Use (InstRef 0 1) BinaryLhs], sr_val 1 \<mapsto> [Use (InstRef 0 2) BinaryLhs],
     sr_val 2 \<mapsto> [], sr_arg \<mapsto> [Use (InstRef 0 0) BinaryLhs], VConst 0 \<mapsto> [Use (InstRef 0 0) BinaryRhs],
     VConst 1 \<mapsto> [Use (InstRef 0 1) BinaryRhs], VConst 2 \<mapsto> [Use (InstRef 0 2) BinaryRhs]]"
  by (auto simp: view_defs lists_of_def value_uses_def block_uses_def block_at_def arg_at_def sr_defs module_new_def
      fun_eq_iff inst_ref.expand block_ref.expand arg_ref.expand split: value_id.splits)

lemma sr_inv: "module_inv sr_module" "operands_live sr_module" "attached sr_module (InstRef 0 2)"
proof -
  have att: "attached sr_module i \<longleftrightarrow> i \<in> InstRef 0 ` {0, 1, 2}" for i
    by (cases i) (auto simp: attached_def sr_views)
  have l: "value_links sr_module = {(sr_arg, Use (InstRef 0 0) BinaryLhs), (VConst 0, Use (InstRef 0 0) BinaryRhs),
      (sr_val 0, Use (InstRef 0 1) BinaryLhs), (VConst 1, Use (InstRef 0 1) BinaryRhs),
      (sr_val 1, Use (InstRef 0 2) BinaryLhs), (VConst 2, Use (InstRef 0 2) BinaryRhs)}"
    by (rule value_rel_eqI) (auto simp: value_links_iff att sr_views)
  have "block_links sr_module = {}"
    by (rule block_rel_eqI) (auto simp: block_links_iff att sr_views)
  then have "mirrors (block_uses sr_module) (block_links sr_module)" by (simp add: mirrors_def sr_views)
  moreover have "mirrors (value_uses sr_module) (value_links sr_module)"
    unfolding mirrors_def
  proof (intro conjI allI impI)
    fix x us assume "value_uses sr_module x = Some us"
    then show "distinct us" "set us = {u. (x, u) \<in> value_links sr_module}"
      unfolding l sr_views by (auto split: if_splits)
  next
    fix x u assume "(x, u) \<in> value_links sr_module"
    then show "value_uses sr_module x \<noteq> None" unfolding l sr_views by auto
  qed
  ultimately have "use_inv sr_module" by (simp add: use_inv_def)
  moreover have "kinds_inv sr_module" by (simp add: kinds_inv_def sr_views)
  moreover have "place_inv sr_module"
    by (auto simp: place_inv_def block_ok_def live_block_def sr_views is_plain_def split: if_splits)
  moreover have "order_inv {} sr_module" by (auto simp: order_inv_def live_block_def sr_views)
  ultimately show "module_inv sr_module" by (simp add: module_inv_def)
  show "operands_live sr_module" by (auto simp: operands_live_def sr_views split: if_splits)
  show "attached sr_module (InstRef 0 2)" by (simp add: att)
qed

lemma strength_reduction_sound_witness:
  "\<exists>cache' M' c. strength_inst 10 example_fresh (InstRef 0 2) (Map.empty, sr_module) = Some (cache', M') \<and>
     module_inv M' \<and> kind_at M' (InstRef 0 2) = Some (Binary LShr (sr_val 1) (VConst c))"
proof -
  let ?k = "Binary SDiv (sr_val 1) (VConst 2)"
  obtain D where D: "inst_at sr_module (InstRef 0 2) = Some D" "id_ty D = IntT 32" "id_kind D = ?k"
    by (simp add: sr_defs)
  have t: "scalar_typed sr_module (\<lambda>_. 32) 32 32 ?k"
    by (simp add: scalar_typed_def typed_operand_def const_kind_of_def sr_defs ci_wf_def signed_op_def)
  have fin: "finite (dom (const_map sr_module))" by (simp add: sr_module_def)
  have "dom (kind_at sr_module) = InstRef 0 ` {0, 1, 2}" by (auto simp: sr_views)
  then have k: "finite (dom (kind_at sr_module))" "card (dom (kind_at sr_module)) < 10" by (simp_all add: card_insert_if)
  have u: "usable_divisor sr_module 32 (VConst 2)"
    by (simp add: usable_divisor_def as_int_const_sr_def const_kind_of_def sr_defs sr_divisors)
  from strength_reduction_sound [OF example_fresh_key fin sr_inv(1,2) k D sr_inv(3) t, where cache = Map.empty]
  show ?thesis using u sr_nonneg by (auto simp: reducible_def reduced_op_def)
qed

text \<open>C0. The non-negativity analysis of strength reduction is wrong: it takes a left shift of non-negative
  operands for non-negative.  In \<open>((x & 0x7fffffff) << 1) / 4\<close> the signed division is replaced by a
  logical shift, and for \<open>x = 0x40000000\<close> the result changes from \<open>-2^29\<close> to \<open>2^29\<close>.\<close>

theorem nonneg_analysis_unsound:
  "\<exists>M' k'. func_strength_reduction 10 example_fresh [0, 1, 2] 0 sr_module = Some M' \<and>
     kind_at M' (InstRef 0 2) = Some k' \<and> env_ok M' (\<lambda>_. 32) sr_env \<and>
     Option.bind (kind_at sr_module (InstRef 0 0)) (inst_val sr_env 32 32) = sr_env (sr_val 0) \<and>
     Option.bind (kind_at sr_module (InstRef 0 1)) (inst_val sr_env 32 32) = sr_env (sr_val 1) \<and>
     Option.bind (kind_at sr_module (InstRef 0 2)) (inst_val sr_env 32 32) = sr_env (sr_val 2) \<and>
     inst_val sr_env 32 32 k' = Some 0x20000000 \<and> sr_env (sr_val 2) = Some 0xE0000000"
proof -
  from sr_steps(3) obtain M' where M': "strength_inst 10 example_fresh (InstRef 0 2) (Map.empty, sr_module) = Some (Map.empty, M')"
      "kind_at M' (InstRef 0 2) = Some (Binary LShr (sr_val 1) (VConst 3))"
      "const_kinds M' = (const_kinds sr_module)(3 \<mapsto> CInt \<lparr>ci_value = 2, bit_width = 32\<rparr>)" by blast
  have "\<exists>F. func_map sr_module 0 = Some F \<and> \<not> fd_is_declare F" by (simp add: sr_module_def)
  then have "func_strength_reduction 10 example_fresh [0, 1, 2] 0 sr_module = Some M'"
    using sr_steps(1,2) M'(1) by (auto simp: func_strength_reduction_def)
  moreover have "env_ok M' (\<lambda>_. 32) sr_env"
    unfolding env_ok_kinds M'(3)
    by (auto simp: const_kinds_def sr_module_def sr_const_def sr_env_def ci_unsigned_def split: if_splits)
  moreover have "Option.bind (kind_at sr_module (InstRef 0 0)) (inst_val sr_env 32 32) = sr_env (sr_val 0)"
    "Option.bind (kind_at sr_module (InstRef 0 1)) (inst_val sr_env 32 32) = sr_env (sr_val 1)"
    "Option.bind (kind_at sr_module (InstRef 0 2)) (inst_val sr_env 32 32) = sr_env (sr_val 2)"
    using sr_env_run by (simp_all add: kind_at_def sr_defs)
  moreover have "sr_env (sr_val 2) = Some 0xE0000000" by (simp add: sr_env_def)
  ultimately show ?thesis using M'(2) sr_env_run(4) by blast
qed

end
