(* ===== verification/Lower_Emit.thy ===== *)
theory Lower_Emit
  imports IR_Core Parallel_Copy Branch_Relax
begin

text \<open>
  The first half of \<open>src/src/mir/lower.rs\<close>: the errors of the lowering, its state, and the routines
  that emit the code of one operation (operands, normalisation to a width, arithmetic with a
  constant, comparisons, address arithmetic, inline copies).

  The mutable arguments \<open>out\<close>, \<open>state\<close>, \<open>machine_function\<close> and \<open>machine_module\<close> are one record, the
  \<open>lower_state\<close>, threaded through.  A routine that can fail returns a sum inside an option: the left
  injection is a \<open>LowerError\<close>, \<open>None\<close> is a panic, and \<open>try_low\<close> is the question mark of the code.
\<close>

section \<open>Errors\<close>

datatype lower_error =
    DuplicateSymbol string
  | MissingFunctionName
  | MissingEntryBlock string
  | UnknownFunctionSymbol string
  | UnknownBlock string "string option"
  | UnimplementedGlobal string
  | UnimplementedInstruction string string
  | TypeLayoutError string
  | UnknownOperand string string

type_synonym 'a lowered = "(lower_error + 'a) option"

definition try_low :: "'a lowered \<Rightarrow> ('a \<Rightarrow> 'b lowered) \<Rightarrow> 'b lowered" where
  "try_low r f = (case r of None \<Rightarrow> None | Some (Inl e) \<Rightarrow> Some (Inl e) | Some (Inr x) \<Rightarrow> f x)"

lemma try_low_simps [simp]:
  "try_low None f = None" "try_low (Some (Inl e)) f = Some (Inl e)" "try_low (Some (Inr x)) f = f x"
  by (simp_all add: try_low_def)

lemma try_low_Inr: "try_low r f = Some (Inr y) \<longleftrightarrow> (\<exists>x. r = Some (Inr x) \<and> f x = Some (Inr y))"
  by (auto simp: try_low_def split: option.splits sum.splits)

lemma try_low_cong [fundef_cong]:
  "r = r' \<Longrightarrow> (\<And>x. r' = Some (Inr x) \<Longrightarrow> f x = g x) \<Longrightarrow> try_low r f = try_low r' g"
  by (auto simp: try_low_def split: option.splits sum.splits)

text \<open>\<open>Display\<close> of a \<open>LayoutError\<close> (\<open>src/src/ir/layout.rs\<close>) and of a \<open>LowerError\<close>.\<close>

fun show_layout_error :: "layout_error \<Rightarrow> string" where
  "show_layout_error (OpaqueStruct (Some name)) =
     ''opaque struct `'' @ name @ ''` does not have a concrete layout''"
| "show_layout_error (OpaqueStruct None) = ''opaque anonymous struct does not have a concrete layout''"
| "show_layout_error UnsizedFunction = ''function types do not have an in-memory layout''"
| "show_layout_error InvalidLabel = ''basic block labels do not have an in-memory layout''"
| "show_layout_error (InvalidFieldIndex index count) =
     ''field index '' @ show_nat index @ '' is out of range for struct with '' @ show_nat count @ '' fields''"

fun show_lower_error :: "lower_error \<Rightarrow> string" where
  "show_lower_error (DuplicateSymbol name) = ''duplicate machine symbol `'' @ name @ ''`''"
| "show_lower_error MissingFunctionName = ''function value is missing a symbol name''"
| "show_lower_error (MissingEntryBlock f) = ''function `'' @ f @ ''` does not contain an entry block''"
| "show_lower_error (UnknownFunctionSymbol name) =
     ''function symbol `'' @ name @ ''` was not registered before lowering''"
| "show_lower_error (UnknownBlock f (Some b)) = ''unknown block `'' @ b @ ''` in function `'' @ f @ ''`''"
| "show_lower_error (UnknownBlock f None) = ''unknown unnamed block in function `'' @ f @ ''`''"
| "show_lower_error (UnimplementedGlobal name) =
     ''global lowering for `'' @ name @ ''` has not been implemented yet''"
| "show_lower_error (UnimplementedInstruction f opcode) =
     ''instruction lowering for `'' @ opcode @ ''` in function `'' @ f @ ''` has not been implemented yet''"
| "show_lower_error (TypeLayoutError e) = ''type layout error: '' @ e"
| "show_lower_error (UnknownOperand f operand) =
     ''unknown operand `'' @ operand @ ''` in function `'' @ f @ ''`''"

section \<open>State\<close>

record phi_edge =
  pe_pred :: block_id
  pe_value :: value_id

record phi_info =
  pi_dst :: vreg_id
  pi_edges :: "phi_edge list"

record fn_lowering =
  fl_name :: string
  fl_block_map :: "block_ref \<rightharpoonup> block_id"
  fl_block_order :: "block_ref list"
  fl_vregs :: "value_id \<rightharpoonup> vreg_id"
  fl_slots :: "inst_ref \<rightharpoonup> stack_slot_id"
  fl_phis :: "block_id \<rightharpoonup> phi_info list"

definition fn_lowering_new :: "string \<Rightarrow> fn_lowering" where
  "fn_lowering_new name = \<lparr>fl_name = name, fl_block_map = Map.empty, fl_block_order = [],
     fl_vregs = Map.empty, fl_slots = Map.empty, fl_phis = Map.empty\<rparr>"

definition record_block :: "block_ref \<Rightarrow> block_id \<Rightarrow> fn_lowering \<Rightarrow> fn_lowering" where
  "record_block b n st =
     st\<lparr>fl_block_map := (fl_block_map st)(b \<mapsto> n), fl_block_order := fl_block_order st @ [b]\<rparr>"

definition record_vreg :: "value_id \<Rightarrow> vreg_id \<Rightarrow> fn_lowering \<Rightarrow> fn_lowering" where
  "record_vreg v r st = st\<lparr>fl_vregs := (fl_vregs st)(v \<mapsto> r)\<rparr>"

definition filter_pred :: "phi_info \<Rightarrow> block_id \<Rightarrow> value_id option" where
  "filter_pred info pred = map_option pe_value (find (\<lambda>e. pe_pred e = pred) (pi_edges info))"

record ('r, 'i) lower_state =
  ls_out :: "'i list"
  ls_mf :: "('r, 'i) machine_function"
  ls_fn :: fn_lowering
  ls_mm :: "('r, 'i) machine_module"

definition push_inst :: "'i \<Rightarrow> ('r, 'i) lower_state \<Rightarrow> ('r, 'i) lower_state" where
  "push_inst i s = s\<lparr>ls_out := ls_out s @ [i]\<rparr>"

definition push_insts :: "'i list \<Rightarrow> ('r, 'i) lower_state \<Rightarrow> ('r, 'i) lower_state" where
  "push_insts is s = s\<lparr>ls_out := ls_out s @ is\<rparr>"

definition fresh_reg :: "('r, 'i) lower_state \<Rightarrow> 'r register \<times> ('r, 'i) lower_state" where
  "fresh_reg s = (let (v, mf) = new_vreg (ls_mf s) in (Virtual v, s\<lparr>ls_mf := mf\<rparr>))"

text \<open>The orders in which the code iterates over its hash maps and slot maps.\<close>

record 'r iteration_orders =
  copy_nodes :: "'r copy_edges \<Rightarrow> 'r register list"
  func_keys :: "function_id list"
  global_keys :: "global_id list"
  arg_keys :: "function_id \<Rightarrow> arg_id list"

section \<open>Readers of the module\<close>

text \<open>Every call of \<open>type_layout\<close> makes an engine with an empty cache; no layout depends on which equal keys its
  hash map finds (\<open>IR_Types\<close>), so it finds them all here.\<close>

definition type_layout :: "module_core \<Rightarrow> ir_type \<Rightarrow> type_layout lowered" where
  "type_layout M ty =
     (case module_layout M of
        None \<Rightarrow> Some (Inl (TypeLayoutError ''missing target data layout''))
      | Some td \<Rightarrow>
          (case layout_of type_eq td ty [] of
             None \<Rightarrow> None
           | Some (Inl e, _) \<Rightarrow> Some (Inl (TypeLayoutError (show_layout_error e)))
           | Some (Inr l, _) \<Rightarrow> Some (Inr l)))"

definition value_name :: "module_core \<Rightarrow> value_id \<Rightarrow> string option option" where
  "value_name M v =
     (case v of
        VInst i \<Rightarrow> map_option id_name (inst_at M i)
      | VArg a \<Rightarrow> map_option ad_name (arg_at M a)
      | VGlobal g \<Rightarrow> map_option (\<lambda>G. Some (gd_name G)) (global_map M g)
      | VConst _ \<Rightarrow> Some None)"

definition block_name :: "module_core \<Rightarrow> block_ref \<Rightarrow> string option option" where
  "block_name M b = map_option bd_name (block_at M b)"

definition as_int_ty :: "ir_type \<Rightarrow> nat option" where
  "as_int_ty ty = (case ty of IntT b \<Rightarrow> Some b | _ \<Rightarrow> None)"

definition int_bits_for_value :: "module_core \<Rightarrow> value_id \<Rightarrow> nat option option" where
  "int_bits_for_value M v = map_option as_int_ty (value_ty M v)"

definition const_int :: "module_core \<Rightarrow> value_id \<Rightarrow> core_int option option" where
  "const_int M v =
     (case v of
        VConst c \<Rightarrow> map_option (\<lambda>C. case cd_kind C of CInt n \<Rightarrow> Some n | _ \<Rightarrow> None) (const_map M c)
      | _ \<Rightarrow> Some None)"

definition const_int_u64 :: "module_core \<Rightarrow> value_id \<Rightarrow> u64 option option" where
  "const_int_u64 M v = map_option (map_option as_u64) (const_int M v)"

definition is_false_const :: "module_core \<Rightarrow> value_id \<Rightarrow> bool option" where
  "is_false_const M v = map_option (\<lambda>c. c = Some 0) (const_int_u64 M v)"

text \<open>\<open>number.as_i64() as i32\<close>: the low half.\<close>

definition as_i32 :: "core_int \<Rightarrow> i32" where
  "as_i32 n = ucast (as_i64 n)"

section \<open>Operands\<close>

definition lower_operand ::
  "('r, 'i, 'z) lowering_target_scheme \<Rightarrow> module_core \<Rightarrow> value_id \<Rightarrow> ('r, 'i) lower_state \<Rightarrow>
     ('r register \<times> ('r, 'i) lower_state) lowered" where
  "lower_operand T M v s =
     (case v of
        VGlobal g \<Rightarrow> do {
          G \<leftarrow> global_map M g;
          symbol \<leftarrow> symbol_map (ls_mm s) (gd_name G);
          let (rd, s1) = fresh_reg s;
          Some (Inr (rd, push_inst (emit_load_symbol_addr T rd symbol) s1))
        }
      | VConst c \<Rightarrow> do {
          C \<leftarrow> const_map M c;
          (case cd_kind C of
             CInt n \<Rightarrow>
               (if as_u64 n = 0 then Some (Inr (Physical (zero_reg T), s))
                else let (rd, s1) = fresh_reg s
                     in Some (Inr (rd, push_inst (load_imm T rd (as_i32 n)) s1)))
           | CNull \<Rightarrow> Some (Inr (Physical (zero_reg T), s))
           | CUndef \<Rightarrow> Some (Inr (Physical (zero_reg T), s))
           | _ \<Rightarrow> Some (Inl (UnimplementedGlobal ''non-scalar constant operand lowering is not implemented yet'')))
        }
      | _ \<Rightarrow>
          (case fl_vregs (ls_fn s) v of
             Some r \<Rightarrow> Some (Inr (Virtual r, s))
           | None \<Rightarrow> do {
               name \<leftarrow> value_name M v;
               Some (Inl (UnknownOperand (fl_name (ls_fn s)) (case name of Some n \<Rightarrow> n | None \<Rightarrow> ''unknown'')))
             }))"

text \<open>The operands of a list, left to right.\<close>

fun lower_operands ::
  "('r, 'i, 'z) lowering_target_scheme \<Rightarrow> module_core \<Rightarrow> value_id list \<Rightarrow> ('r, 'i) lower_state \<Rightarrow>
     ('r register list \<times> ('r, 'i) lower_state) lowered" where
  "lower_operands T M [] s = Some (Inr ([], s))"
| "lower_operands T M (v # vs) s =
     try_low (lower_operand T M v s) (\<lambda>(r, s1).
     try_low (lower_operands T M vs s1) (\<lambda>(rs, s2). Some (Inr (r # rs, s2))))"

definition emit_copies ::
  "('r, 'i, 'z) lowering_target_scheme \<Rightarrow> 'r iteration_orders \<Rightarrow> 'r copy_move list \<Rightarrow>
     ('r, 'i) lower_state \<Rightarrow> ('r, 'i) lower_state option" where
  "emit_copies T H moves s = do {
     (insts, mf) \<leftarrow> resolve_parallel_copy T (copy_nodes H (copy_edges moves)) moves (ls_mf s);
     Some (push_insts insts (s\<lparr>ls_mf := mf\<rparr>)) }"

definition parallel_copy ::
  "('r, 'i, 'z) lowering_target_scheme \<Rightarrow> 'r iteration_orders \<Rightarrow> module_core \<Rightarrow>
     (vreg_id \<times> value_id) list \<Rightarrow> ('r, 'i) lower_state \<Rightarrow> ('r, 'i) lower_state lowered" where
  "parallel_copy T H M phis s =
     try_low (lower_operands T M (map snd phis) s) (\<lambda>(srcs, s1).
       map_option Inr (emit_copies T H
         (map2 (\<lambda>(dst, _) src. \<lparr>cm_dst = Virtual dst, cm_src = src\<rparr>) phis srcs) s1))"

section \<open>Normalisation to a width\<close>

definition reg_bits :: "('r, 'i, 'z) target_alu_scheme \<Rightarrow> nat" where
  "reg_bits T = WORD_SIZE T * 8"

definition emit_masked_value ::
  "('r, 'i, 'z) target_imm_scheme \<Rightarrow> 'r register \<Rightarrow> nat \<Rightarrow> ('r, 'i) lower_state \<Rightarrow>
     'r register \<times> ('r, 'i) lower_state" where
  "emit_masked_value T src bits s =
     (if reg_bits T \<le> bits then (src, s)
      else let (rd, s1) = fresh_reg s; mask = push_bit bits (1 :: u64) - 1
        in if mask \<le> 0x7ff then (rd, push_inst (emit_andi T rd src (ucast mask)) s1)
           else if mask \<le> 0x7fffffff
           then let (mask_reg, s2) = fresh_reg s1
                in (rd, push_inst (emit_and T rd src mask_reg)
                          (push_inst (load_imm T mask_reg (ucast mask)) s2))
           else let shift = word_of_nat (reg_bits T - bits)
                in (rd, push_inst (emit_srli T rd rd shift) (push_inst (emit_slli T rd src shift) s1)))"

definition emit_sign_extended_value ::
  "('r, 'i, 'z) target_imm_scheme \<Rightarrow> 'r register \<Rightarrow> nat \<Rightarrow> ('r, 'i) lower_state \<Rightarrow>
     'r register \<times> ('r, 'i) lower_state" where
  "emit_sign_extended_value T src bits s =
     (if reg_bits T \<le> bits then (src, s)
      else let (rd, s1) = fresh_reg s; shift = word_of_nat (reg_bits T - bits)
        in (rd, push_inst (emit_srai T rd rd shift) (push_inst (emit_slli T rd src shift) s1)))"

definition emit_normalized_int_value ::
  "('r, 'i, 'z) target_imm_scheme \<Rightarrow> 'r register \<Rightarrow> nat \<Rightarrow> bool \<Rightarrow> ('r, 'i) lower_state \<Rightarrow>
     'r register \<times> ('r, 'i) lower_state" where
  "emit_normalized_int_value T src bits sgnd s =
     (if sgnd then emit_sign_extended_value T src bits s else emit_masked_value T src bits s)"

text \<open>\<open>Iterator::all\<close> with a test that may panic.\<close>

fun all_opt :: "('a \<Rightarrow> bool option) \<Rightarrow> 'a list \<Rightarrow> bool option" where
  "all_opt p [] = Some True"
| "all_opt p (x # xs) = do { b \<leftarrow> p x; if b then all_opt p xs else Some False }"

text \<open>The kinds whose result \<open>lower_instruction\<close> leaves sign extended at 32 bits.\<close>

definition sign_extending_op :: "binary_opcode \<Rightarrow> bool" where
  "sign_extending_op op \<longleftrightarrow> op \<in> {Add, Sub, Mul, SDiv, SRem, UDiv, URem, Shl, AShr, LShr}"

fun is_known_sign_extended_depth ::
  "('r, 'i, 'z) target_alu_scheme \<Rightarrow> module_core \<Rightarrow> value_id \<Rightarrow> nat \<Rightarrow> nat \<Rightarrow> bool option" where
  "is_known_sign_extended_depth T M v bits 0 =
     (if reg_bits T \<le> bits then Some True
      else if WORD_SIZE T \<noteq> 8 \<or> bits \<noteq> 32 then Some False
      else do { _ \<leftarrow> int_bits_for_value M v; Some False })"
| "is_known_sign_extended_depth T M v bits (Suc depth) =
     (if reg_bits T \<le> bits then Some True
      else if WORD_SIZE T \<noteq> 8 \<or> bits \<noteq> 32 then Some False
      else do {
        b \<leftarrow> int_bits_for_value M v;
        if b \<noteq> Some bits then Some False
        else (case v of
            VConst _ \<Rightarrow> Some True
          | VArg _ \<Rightarrow> Some True
          | VGlobal _ \<Rightarrow> Some False
          | VInst i \<Rightarrow> do {
              D \<leftarrow> inst_at M i;
              (case id_kind D of
                 Load _ \<Rightarrow> Some True
               | Sext _ \<Rightarrow> Some True
               | Call _ _ \<Rightarrow> Some True
               | Binary op _ _ \<Rightarrow> Some (sign_extending_op op)
               | Phi incomings _ \<Rightarrow>
                   all_opt (\<lambda>e. is_known_sign_extended_depth T M (pi_value (snd e)) bits depth) incomings
               | _ \<Rightarrow> Some False)
            })
      })"

definition is_known_sign_extended ::
  "('r, 'i, 'z) target_alu_scheme \<Rightarrow> module_core \<Rightarrow> value_id \<Rightarrow> nat \<Rightarrow> bool option" where
  "is_known_sign_extended T M v bits = is_known_sign_extended_depth T M v bits 4"

definition emit_normalized_int_operand ::
  "('r, 'i, 'z) target_imm_scheme \<Rightarrow> module_core \<Rightarrow> value_id \<Rightarrow> 'r register \<Rightarrow> nat \<Rightarrow> bool \<Rightarrow>
     ('r, 'i) lower_state \<Rightarrow> ('r register \<times> ('r, 'i) lower_state) option" where
  "emit_normalized_int_operand T M v src bits sgnd s = do {
     known \<leftarrow> (if sgnd then is_known_sign_extended T M v bits else Some False);
     Some (if known then (src, s) else emit_normalized_int_value T src bits sgnd s) }"

section \<open>Arithmetic with a constant\<close>

text \<open>\<open>trailing_zeros\<close> (of a nonzero number) and \<open>is_power_of_two\<close> of a \<open>u32\<close>.\<close>

fun trailing_zeros :: "nat \<Rightarrow> nat" where
  "trailing_zeros n = (if n = 0 \<or> odd n then 0 else Suc (trailing_zeros (n div 2)))"

declare trailing_zeros.simps [simp del]

definition is_power_of_two :: "nat \<Rightarrow> bool" where
  "is_power_of_two n \<longleftrightarrow> n = 2 ^ trailing_zeros n"

definition unsigned_abs :: "i32 \<Rightarrow> nat" where
  "unsigned_abs imm = nat \<bar>sint imm\<bar>"

definition imm12 :: "i32 \<Rightarrow> bool" where
  "imm12 imm \<longleftrightarrow> -2048 \<le> sint imm \<and> sint imm \<le> 2047"

definition emit_copy_or_move ::
  "('r, 'i, 'z) target_inst_scheme \<Rightarrow> 'r register \<Rightarrow> 'r register \<Rightarrow> ('r, 'i) lower_state \<Rightarrow> ('r, 'i) lower_state" where
  "emit_copy_or_move T dst src s = (if dst \<noteq> src then push_inst (mv T dst src) s else s)"

definition emit_const_int ::
  "('r, 'i, 'z) target_alu_scheme \<Rightarrow> 'r register \<Rightarrow> i32 \<Rightarrow> ('r, 'i) lower_state \<Rightarrow> ('r, 'i) lower_state" where
  "emit_const_int T rd v s =
     (if v = 0 then emit_copy_or_move T rd (Physical (zero_reg T)) s else push_inst (load_imm T rd v) s)"

text \<open>Whether the 32-bit instruction forms of RV64 are used.\<close>

definition narrow :: "('r, 'i, 'z) target_alu_scheme \<Rightarrow> nat \<Rightarrow> bool" where
  "narrow T result_bits \<longleftrightarrow> result_bits = 32 \<and> WORD_SIZE T = 8"

definition emit_neg ::
  "('r, 'i, 'z) target_alu_scheme \<Rightarrow> 'r register \<Rightarrow> 'r register \<Rightarrow> ('r, 'i) lower_state \<Rightarrow> ('r, 'i) lower_state" where
  "emit_neg T rd rs s = push_inst (emit_sub T rd (Physical (zero_reg T)) rs) s"

text \<open>The constant routines return whether they emitted the operation, and the state.\<close>

definition emit_mul_const ::
  "('r, 'i, 'z) target_imm_scheme \<Rightarrow> 'r register \<Rightarrow> 'r register \<Rightarrow> i32 \<Rightarrow> nat \<Rightarrow> ('r, 'i) lower_state \<Rightarrow>
     bool \<times> ('r, 'i) lower_state" where
  "emit_mul_const T rd rs imm result_bits s =
     (if imm = 0 then (True, emit_const_int T rd 0 s)
      else if imm = 1 then (True, emit_copy_or_move T rd rs s)
      else if imm = -1 then (True, emit_neg T rd rs s)
      else if is_power_of_two (unsigned_abs imm) then
        let (tmp, s1) = (if sint imm < 0 then fresh_reg s else (rd, s));
            shift = word_of_nat (trailing_zeros (unsigned_abs imm));
            s2 = push_inst ((if narrow T result_bits then emit_slliw T else emit_slli T) tmp rs shift) s1
        in (True, if sint imm < 0 then emit_neg T rd tmp s2 else s2)
      else (False, s))"

definition emit_udiv_const ::
  "('r, 'i, 'z) target_imm_scheme \<Rightarrow> 'r register \<Rightarrow> 'r register \<Rightarrow> u32 \<Rightarrow> nat \<Rightarrow> ('r, 'i) lower_state \<Rightarrow>
     bool \<times> ('r, 'i) lower_state" where
  "emit_udiv_const T rd rs imm result_bits s =
     (if imm = 0 then (False, s)
      else if imm = 1 then (True, emit_copy_or_move T rd rs s)
      else if is_power_of_two (unat imm) then
        let shift = word_of_nat (trailing_zeros (unat imm))
        in (True, push_inst ((if narrow T result_bits then emit_srliw T else emit_srli T) rd rs shift) s)
      else (False, s))"

definition emit_urem_const ::
  "('r, 'i, 'z) target_imm_scheme \<Rightarrow> 'r register \<Rightarrow> 'r register \<Rightarrow> u32 \<Rightarrow> ('r, 'i) lower_state \<Rightarrow>
     bool \<times> ('r, 'i) lower_state" where
  "emit_urem_const T rd rs imm s =
     (if imm = 0 then (False, s)
      else if imm = 1 then (True, emit_const_int T rd 0 s)
      else if is_power_of_two (unat imm) then
        let (masked, s1) = emit_masked_value T rs (trailing_zeros (unat imm)) s
        in (True, emit_copy_or_move T rd masked s1)
      else (False, s))"

definition emit_sdiv_const ::
  "('r, 'i, 'z) target_imm_scheme \<Rightarrow> 'r register \<Rightarrow> 'r register \<Rightarrow> i32 \<Rightarrow> nat \<Rightarrow> ('r, 'i) lower_state \<Rightarrow>
     bool \<times> ('r, 'i) lower_state" where
  "emit_sdiv_const T rd rs imm result_bits s =
     (if imm = 0 \<or> sint imm = - 2147483648 then (False, s)
      else if imm = 1 then (True, emit_copy_or_move T rd rs s)
      else if imm = -1 then (True, emit_neg T rd rs s)
      else if is_power_of_two (unsigned_abs imm) then
        let k = trailing_zeros (unsigned_abs imm);
            (sgn_reg, s1) = fresh_reg s;
            (biased, s2) = fresh_reg s1;
            s3 = push_inst (if narrow T result_bits then emit_sraiw T sgn_reg rs 31
                            else emit_srai T sgn_reg rs (word_of_nat (result_bits - 1))) s2;
            s4 = push_inst (emit_srli T sgn_reg sgn_reg (word_of_nat (WORD_SIZE T * 8) - word_of_nat k)) s3;
            s5 = push_inst (emit_add T biased rs sgn_reg) s4;
            (quotient, s6) = (if sint imm < 0 then fresh_reg s5 else (rd, s5));
            s7 = push_inst ((if narrow T result_bits then emit_sraiw T else emit_srai T)
                              quotient biased (word_of_nat k)) s6
        in (True, if sint imm < 0 then emit_neg T rd quotient s7 else s7)
      else (False, s))"

definition emit_srem_const ::
  "('r, 'i, 'z) target_imm_scheme \<Rightarrow> 'r register \<Rightarrow> 'r register \<Rightarrow> i32 \<Rightarrow> nat \<Rightarrow> ('r, 'i) lower_state \<Rightarrow>
     bool \<times> ('r, 'i) lower_state" where
  "emit_srem_const T rd rs imm result_bits s =
     (if imm = 0 \<or> sint imm = - 2147483648 then (False, s)
      else if unsigned_abs imm = 1 then (True, emit_const_int T rd 0 s)
      else if is_power_of_two (unsigned_abs imm) then
        let (quotient, s1) = fresh_reg s;
            (divided, s2) = emit_sdiv_const T quotient rs imm result_bits s1
        in if \<not> divided then (False, s2)
           else
             let (product, s3) = fresh_reg s2;
                 (multiplied, s4) = emit_mul_const T product quotient imm result_bits s3;
                 s5 = (if multiplied then s4
                       else let (imm_reg, s4') = fresh_reg s4
                            in push_inst ((if narrow T result_bits then emit_mulw T else emit_mul T)
                                            product quotient imm_reg)
                                 (push_inst (load_imm T imm_reg imm) s4'))
             in (True, push_inst (emit_sub T rd rs product) s5)
      else (False, s))"

definition binary_operands_are_signed :: "binary_opcode \<Rightarrow> bool" where
  "binary_operands_are_signed op \<longleftrightarrow> op \<in> {SDiv, SRem, AShr}"

definition binary_result_is_signed :: "binary_opcode \<Rightarrow> bool" where
  "binary_result_is_signed op \<longleftrightarrow> op \<in> {Add, Sub, Mul, SDiv, SRem, AShr}"

definition binary_result_needs_normalization :: "binary_opcode \<Rightarrow> bool" where
  "binary_result_needs_normalization op \<longleftrightarrow>
     op \<in> {Add, Sub, Mul, UDiv, SDiv, URem, SRem, Shl, LShr, AShr, BitAnd, BitOr, BitXor}"

definition icmp_operands_are_signed :: "icmp_code \<Rightarrow> bool" where
  "icmp_operands_are_signed op \<longleftrightarrow> op \<in> {CSgt, CSge, CSlt, CSle}"

definition binary_op_has_32_bit_machine_result :: "binary_opcode \<Rightarrow> nat \<Rightarrow> bool" where
  "binary_op_has_32_bit_machine_result op bits \<longleftrightarrow>
     bits = 32 \<and> op \<in> {Add, Sub, Mul, UDiv, SDiv, URem, SRem, Shl, LShr, AShr}"

section \<open>Inline copies and offsets\<close>

definition starts_with :: "string \<Rightarrow> string \<Rightarrow> bool" where
  "starts_with s p \<longleftrightarrow> take (length p) s = p"

definition copy_piece ::
  "('r, 'i, 'z) lowering_target_scheme \<Rightarrow> 'r register \<Rightarrow> 'r register \<Rightarrow> nat \<Rightarrow> nat \<Rightarrow>
     ('r, 'i) lower_state \<Rightarrow> ('r, 'i) lower_state option" where
  "copy_piece T dest src n off s = do {
     let (piece, s1) = fresh_reg s;
     ld \<leftarrow> emit_load_mem T piece src (word_of_nat off) n True;
     st \<leftarrow> emit_store_mem T dest piece (word_of_nat off) n;
     Some (push_inst st (push_inst ld s1)) }"

definition try_emit_inline_memcpy ::
  "('r, 'i, 'z) lowering_target_scheme \<Rightarrow> module_core \<Rightarrow> string \<Rightarrow> value_id list \<Rightarrow>
     ('r, 'i) lower_state \<Rightarrow> (bool \<times> ('r, 'i) lower_state) lowered" where
  "try_emit_inline_memcpy T M callee args s =
     (if \<not> starts_with callee ''llvm.memcpy.'' \<or> length args < 4 then Some (Inr (False, s))
      else do {
        sz \<leftarrow> const_int_u64 M (args ! 2);
        (case sz of
           None \<Rightarrow> Some (Inr (False, s))
         | Some n \<Rightarrow> do {
             nonvolatile \<leftarrow> (if n > 32 then Some False else is_false_const M (args ! 3));
             if \<not> nonvolatile then Some (Inr (False, s))
             else
               try_low (lower_operand T M (args ! 0) s) (\<lambda>(dest, s1).
               try_low (lower_operand T M (args ! 1) s1) (\<lambda>(src, s2).
                 map_option (\<lambda>s3. Inr (True, s3))
                   (if n = 4 then copy_piece T dest src 4 0 s2
                    else fold_opt (copy_piece T dest src 1) [0..<unat n] s2)))
           })
      })"

definition i32_checked_mul :: "i32 \<Rightarrow> i32 \<Rightarrow> i32 option" where
  "i32_checked_mul x y = (if sint (x * y) = sint x * sint y then Some (x * y) else None)"

text \<open>The source of a zero extension from 32 bits, when the index is one.\<close>

definition zext_source :: "module_core \<Rightarrow> value_id \<Rightarrow> value_id option option" where
  "zext_source M index =
     (case index of
        VInst i \<Rightarrow> do {
          D \<leftarrow> inst_at M i;
          (case id_kind D of
             Zext v \<Rightarrow> map_option (\<lambda>b. if b = Some 32 then Some v else None) (int_bits_for_value M v)
           | _ \<Rightarrow> Some None)
        }
      | _ \<Rightarrow> Some None)"

definition add_base ::
  "('r, 'i, 'z) target_alu_scheme \<Rightarrow> 'r register \<Rightarrow> 'r register \<Rightarrow> ('r, 'i) lower_state \<Rightarrow>
     'r register \<times> ('r, 'i) lower_state" where
  "add_base T base temp s =
     (let (result, s1) = fresh_reg s in (result, push_inst (emit_add T result base temp) s1))"

definition emit_add_offset ::
  "('r, 'i, 'z) lowering_target_scheme \<Rightarrow> module_core \<Rightarrow> 'r register \<Rightarrow> nat \<Rightarrow> value_id \<Rightarrow>
     ('r, 'i) lower_state \<Rightarrow> ('r register \<times> ('r, 'i) lower_state) lowered" where
  "emit_add_offset T M base strd index s = do {
     c \<leftarrow> const_int M index;
     (case c of
        Some n \<Rightarrow> do {
          imm \<leftarrow> i32_checked_mul (as_i32 n) (word_of_nat strd);
          Some (Inr (
            if imm = 0 then (base, s)
            else if imm12 imm
            then let (result, s1) = fresh_reg s in (result, push_inst (emit_addi T result base imm) s1)
            else let (temp, s1) = fresh_reg s in add_base T base temp (push_inst (load_imm T temp imm) s1)))
        }
      | None \<Rightarrow>
          if strd = 0 then Some (Inr (base, s))
          else
            let (temp, s1) = fresh_reg s; shift = trailing_zeros strd
            in do {
              zext_src \<leftarrow> (if is_power_of_two strd \<and> WORD_SIZE T = 8 \<and> 0 < shift \<and> shift \<le> 32
                           then zext_source M index else Some None);
              (case zext_src of
                 Some v \<Rightarrow>
                   try_low (lower_operand T M v s1) (\<lambda>(src, s2).
                     Some (Inr (add_base T base temp
                       (push_inst (emit_srli T temp temp (32 - word_of_nat shift))
                         (push_inst (emit_slli T temp src 32) s2)))))
               | None \<Rightarrow>
                   try_low (lower_operand T M index s1) (\<lambda>(index_reg, s2).
                     Some (Inr (add_base T base temp
                       (if is_power_of_two strd
                        then push_inst (emit_slli T temp index_reg (word_of_nat shift)) s2
                        else let (stride_reg, s3) = fresh_reg s2
                             in push_inst (emit_mul T temp index_reg stride_reg)
                                  (push_inst (load_imm T stride_reg (word_of_nat strd)) s3))))))
            })
   }"

section \<open>Comparisons\<close>

text \<open>\<open>t\<close> first, then \<open>rd\<close> from a fresh register that \<open>t\<close> writes.\<close>

definition via_temp ::
  "('r register \<Rightarrow> 'i) \<Rightarrow> ('r register \<Rightarrow> 'i) \<Rightarrow> ('r, 'i) lower_state \<Rightarrow> ('r, 'i) lower_state" where
  "via_temp f g s = (let (tmp, s1) = fresh_reg s in push_inst (g tmp) (push_inst (f tmp) s1))"

definition emit_icmp ::
  "('r, 'i, 'z) target_imm_scheme \<Rightarrow> icmp_code \<Rightarrow> 'r register \<Rightarrow> 'r register \<Rightarrow> 'r register \<Rightarrow>
     ('r, 'i) lower_state \<Rightarrow> ('r, 'i) lower_state" where
  "emit_icmp T code rd rs1 rs2 s =
     (let zero = Physical (zero_reg T) in
      case code of
        CEq \<Rightarrow>
          if rs1 = zero then push_inst (emit_sltiu T rd rs2 1) s
          else if rs2 = zero then push_inst (emit_sltiu T rd rs1 1) s
          else via_temp (\<lambda>t. emit_xor T t rs1 rs2) (\<lambda>t. emit_sltiu T rd t 1) s
      | CNe \<Rightarrow>
          if rs1 = zero then push_inst (emit_sltu T rd zero rs2) s
          else if rs2 = zero then push_inst (emit_sltu T rd zero rs1) s
          else via_temp (\<lambda>t. emit_xor T t rs1 rs2) (\<lambda>t. emit_sltu T rd zero t) s
      | CUgt \<Rightarrow> push_inst (emit_sltu T rd rs2 rs1) s
      | CUge \<Rightarrow> via_temp (\<lambda>t. emit_sltu T t rs1 rs2) (\<lambda>t. emit_xori T rd t 1) s
      | CUlt \<Rightarrow> push_inst (emit_sltu T rd rs1 rs2) s
      | CUle \<Rightarrow> via_temp (\<lambda>t. emit_sltu T t rs2 rs1) (\<lambda>t. emit_xori T rd t 1) s
      | CSgt \<Rightarrow> push_inst (emit_slt T rd rs2 rs1) s
      | CSge \<Rightarrow> via_temp (\<lambda>t. emit_slt T t rs1 rs2) (\<lambda>t. emit_xori T rd t 1) s
      | CSlt \<Rightarrow> push_inst (emit_slt T rd rs1 rs2) s
      | CSle \<Rightarrow> via_temp (\<lambda>t. emit_slt T t rs2 rs1) (\<lambda>t. emit_xori T rd t 1) s)"

definition icmp_is_only_branch_cond :: "module_core \<Rightarrow> inst_ref \<Rightarrow> bool option" where
  "icmp_is_only_branch_cond M i =
     map_option (list_all (\<lambda>u. use_slot u = BranchCond)) (value_uses M (VInst i))"

definition branch_cond_icmp :: "module_core \<Rightarrow> value_id \<Rightarrow> (icmp_code \<times> value_id \<times> value_id) option option" where
  "branch_cond_icmp M v =
     (case v of
        VInst i \<Rightarrow> do {
          only \<leftarrow> icmp_is_only_branch_cond M i;
          if \<not> only then Some None
          else do {
            D \<leftarrow> inst_at M i;
            Some (case id_kind D of ICmp op l r \<Rightarrow> Some (op, l, r) | _ \<Rightarrow> None)
          }
        }
      | _ \<Rightarrow> Some None)"

definition emit_icmp_branch ::
  "('r, 'i, 'z) target_imm_scheme \<Rightarrow> icmp_code \<Rightarrow> 'r register \<Rightarrow> 'r register \<Rightarrow> block_id \<Rightarrow> 'i" where
  "emit_icmp_branch T code rs1 rs2 label =
     (case code of
        CEq \<Rightarrow> emit_branch_eq T rs1 rs2 label
      | CNe \<Rightarrow> emit_branch_ne T rs1 rs2 label
      | CUgt \<Rightarrow> emit_branch_ltu T rs2 rs1 label
      | CUge \<Rightarrow> emit_branch_geu T rs1 rs2 label
      | CUlt \<Rightarrow> emit_branch_ltu T rs1 rs2 label
      | CUle \<Rightarrow> emit_branch_geu T rs2 rs1 label
      | CSgt \<Rightarrow> emit_branch_lt T rs2 rs1 label
      | CSge \<Rightarrow> emit_branch_ge T rs1 rs2 label
      | CSlt \<Rightarrow> emit_branch_lt T rs1 rs2 label
      | CSle \<Rightarrow> emit_branch_ge T rs2 rs1 label)"

definition normalize_icmp_operand ::
  "('r, 'i, 'z) lowering_target_scheme \<Rightarrow> module_core \<Rightarrow> icmp_code \<Rightarrow> value_id \<Rightarrow> 'r register \<Rightarrow>
     ('r, 'i) lower_state \<Rightarrow> ('r register \<times> ('r, 'i) lower_state) option" where
  "normalize_icmp_operand T M code v rs s = do {
     b \<leftarrow> int_bits_for_value M v;
     (case b of
        None \<Rightarrow> Some (rs, s)
      | Some bits \<Rightarrow> emit_normalized_int_operand T M v rs bits (icmp_operands_are_signed code) s) }"

definition lower_icmp_operands ::
  "('r, 'i, 'z) lowering_target_scheme \<Rightarrow> module_core \<Rightarrow> value_id \<Rightarrow> value_id \<Rightarrow> icmp_code \<Rightarrow>
     ('r, 'i) lower_state \<Rightarrow> (('r register \<times> 'r register) \<times> ('r, 'i) lower_state) lowered" where
  "lower_icmp_operands T M lhs rhs code s =
     try_low (lower_operand T M lhs s) (\<lambda>(rs1, s1).
     try_low (lower_operand T M rhs s1) (\<lambda>(rs2, s2). do {
       (rs1', s3) \<leftarrow> normalize_icmp_operand T M code lhs rs1 s2;
       (rs2', s4) \<leftarrow> normalize_icmp_operand T M code rhs rs2 s3;
       Some (Inr ((rs1', rs2'), s4)) }))"

end
