(* ===== verification/Lower_Inst.thy ===== *)
theory Lower_Inst
  imports Lower_Emit
begin

text \<open>
  \<open>Lowerer::lower_instruction\<close> of \<open>src/src/mir/lower.rs\<close>: one definition per kind of instruction,
  and the dispatch.  The result of an instruction is the list \<open>ls_out\<close>; the machine function, the
  symbol table and the value map change on the way.
\<close>

section \<open>Registers of values\<close>

definition ensure_inst_vreg :: "inst_ref \<Rightarrow> ('r, 'i) lower_state \<Rightarrow> 'r register \<times> ('r, 'i) lower_state" where
  "ensure_inst_vreg i s =
     (case fl_vregs (ls_fn s) (VInst i) of
        Some v \<Rightarrow> (Virtual v, s)
      | None \<Rightarrow> (let (v, mf) = new_vreg (ls_mf s)
                 in (Virtual v, s\<lparr>ls_mf := mf, ls_fn := record_vreg (VInst i) v (ls_fn s)\<rparr>)))"

definition nth_opt :: "'a list \<Rightarrow> nat \<Rightarrow> 'a option" where
  "nth_opt xs n = (if n < length xs then Some (xs ! n) else None)"

section \<open>Binary operations\<close>

text \<open>The rest of a constant routine that did not emit: the constant goes to a register.\<close>

definition or_load_imm ::
  "('r, 'i, 'z) target_imm_scheme \<Rightarrow> ('r register \<Rightarrow> 'i) \<Rightarrow> i32 \<Rightarrow> bool \<times> ('r, 'i) lower_state \<Rightarrow>
     'i option \<times> ('r, 'i) lower_state" where
  "or_load_imm T f imm r =
     (case r of (emitted, s) \<Rightarrow>
        if emitted then (None, s)
        else let (imm_reg, s1) = fresh_reg s in (Some (f imm_reg), push_inst (load_imm T imm_reg imm) s1))"

definition shift_in_range :: "('r, 'i, 'z) target_alu_scheme \<Rightarrow> i32 \<Rightarrow> bool" where
  "shift_in_range T imm \<longleftrightarrow> 0 \<le> sint imm \<and> sint imm < 2 ^ SHIFT_AMT_BITS T"

fun binary_imm_inst ::
  "('r, 'i, 'z) target_imm_scheme \<Rightarrow> binary_opcode \<Rightarrow> bool \<Rightarrow> 'r register \<Rightarrow> 'r register \<Rightarrow> i32 \<Rightarrow> nat \<Rightarrow>
     ('r, 'i) lower_state \<Rightarrow> 'i option \<times> ('r, 'i) lower_state" where
  "binary_imm_inst T Add w rd rs imm n s =
     (if imm12 imm then Some ((if w then emit_addiw T else emit_addi T) rd rs imm) else None, s)"
| "binary_imm_inst T Sub w rd rs imm n s =
     (if sint imm \<noteq> - 2147483648 \<and> imm12 (- imm)
      then Some ((if w then emit_addiw T else emit_addi T) rd rs (- imm)) else None, s)"
| "binary_imm_inst T Mul w rd rs imm n s =
     or_load_imm T (\<lambda>r. (if w then emit_mulw T else emit_mul T) rd rs r) imm (emit_mul_const T rd rs imm n s)"
| "binary_imm_inst T UDiv w rd rs imm n s =
     or_load_imm T (\<lambda>r. (if w then emit_divuw T else emit_divu T) rd rs r) imm (emit_udiv_const T rd rs imm n s)"
| "binary_imm_inst T SDiv w rd rs imm n s =
     or_load_imm T (\<lambda>r. (if w then emit_divw T else emit_div T) rd rs r) imm (emit_sdiv_const T rd rs imm n s)"
| "binary_imm_inst T URem w rd rs imm n s =
     or_load_imm T (\<lambda>r. (if w then emit_remuw T else emit_remu T) rd rs r) imm (emit_urem_const T rd rs imm s)"
| "binary_imm_inst T SRem w rd rs imm n s =
     or_load_imm T (\<lambda>r. (if w then emit_remw T else emit_rem T) rd rs r) imm (emit_srem_const T rd rs imm n s)"
| "binary_imm_inst T Shl w rd rs imm n s =
     (if shift_in_range T imm then Some ((if w then emit_slliw T else emit_slli T) rd rs imm) else None, s)"
| "binary_imm_inst T LShr w rd rs imm n s =
     (if shift_in_range T imm then Some ((if w then emit_srliw T else emit_srli T) rd rs imm) else None, s)"
| "binary_imm_inst T AShr w rd rs imm n s =
     (if shift_in_range T imm then Some ((if w then emit_sraiw T else emit_srai T) rd rs imm) else None, s)"
| "binary_imm_inst T BitAnd w rd rs imm n s = (if imm12 imm then Some (emit_andi T rd rs imm) else None, s)"
| "binary_imm_inst T BitOr w rd rs imm n s = (if imm12 imm then Some (emit_ori T rd rs imm) else None, s)"
| "binary_imm_inst T BitXor w rd rs imm n s = (if imm12 imm then Some (emit_xori T rd rs imm) else None, s)"

fun binary_reg_inst :: "('r, 'i, 'z) target_alu_scheme \<Rightarrow> binary_opcode \<Rightarrow> bool \<Rightarrow> ('r, 'i) emit3" where
  "binary_reg_inst T Add w = (if w then emit_addw T else emit_add T)"
| "binary_reg_inst T Sub w = (if w then emit_subw T else emit_sub T)"
| "binary_reg_inst T Mul w = (if w then emit_mulw T else emit_mul T)"
| "binary_reg_inst T UDiv w = (if w then emit_divuw T else emit_divu T)"
| "binary_reg_inst T SDiv w = (if w then emit_divw T else emit_div T)"
| "binary_reg_inst T URem w = (if w then emit_remuw T else emit_remu T)"
| "binary_reg_inst T SRem w = (if w then emit_remw T else emit_rem T)"
| "binary_reg_inst T BitAnd w = emit_and T"
| "binary_reg_inst T BitOr w = emit_or T"
| "binary_reg_inst T BitXor w = emit_xor T"
| "binary_reg_inst T Shl w = (if w then emit_sllw T else emit_sll T)"
| "binary_reg_inst T LShr w = (if w then emit_srlw T else emit_srl T)"
| "binary_reg_inst T AShr w = (if w then emit_sraw T else emit_sra T)"

text \<open>The register of the result, and the one the operation writes before normalisation.\<close>

definition binary_dest ::
  "inst_ref \<Rightarrow> binary_opcode \<Rightarrow> bool \<Rightarrow> ('r, 'i) lower_state \<Rightarrow>
     'r register \<times> 'r register \<times> ('r, 'i) lower_state" where
  "binary_dest i op w s =
     (let (rd, s1) = ensure_inst_vreg i s
      in if binary_result_needs_normalization op \<and> \<not> w
         then let (raw, s2) = fresh_reg s1 in (rd, raw, s2) else (rd, rd, s1))"

definition finish_binary ::
  "('r, 'i, 'z) target_imm_scheme \<Rightarrow> binary_opcode \<Rightarrow> bool \<Rightarrow> nat \<Rightarrow> 'r register \<Rightarrow> 'r register \<Rightarrow>
     ('r, 'i) lower_state \<Rightarrow> ('r, 'i) lower_state" where
  "finish_binary T op w result_bits rd raw s =
     (if binary_result_needs_normalization op \<and> \<not> w
      then let (normalized, s1) = emit_normalized_int_value T raw result_bits (binary_result_is_signed op) s
           in emit_copy_or_move T rd normalized s1
      else s)"

text \<open>A constant right operand.  The flag says whether the operation was lowered; if not, the code
  goes on with the general case, the registers taken here stay taken.\<close>

definition lower_binary_imm ::
  "('r, 'i, 'z) target_imm_scheme \<Rightarrow> inst_ref \<Rightarrow> binary_opcode \<Rightarrow> nat \<Rightarrow> 'r register \<Rightarrow> i32 \<Rightarrow>
     ('r, 'i) lower_state \<Rightarrow> bool \<times> ('r, 'i) lower_state" where
  "lower_binary_imm T i op result_bits rs1 imm s =
     (let w = binary_op_has_32_bit_machine_result op result_bits;
          (rd, raw, s1) = binary_dest i op w s;
          (lowered, s2) = binary_imm_inst T op w raw rs1 imm result_bits s1
      in if lowered = None \<and> op \<notin> {Mul, UDiv, SDiv, URem, SRem} then (False, s2)
         else (True, finish_binary T op w result_bits rd raw
                       (case lowered of Some ins \<Rightarrow> push_inst ins s2 | None \<Rightarrow> s2)))"

definition lower_binary_reg ::
  "('r, 'i, 'z) lowering_target_scheme \<Rightarrow> module_core \<Rightarrow> inst_ref \<Rightarrow> binary_opcode \<Rightarrow> nat \<Rightarrow> nat \<Rightarrow>
     'r register \<Rightarrow> value_id \<Rightarrow> ('r, 'i) lower_state \<Rightarrow> ('r, 'i) lower_state lowered" where
  "lower_binary_reg T M i op operand_bits result_bits rs1 rhs s =
     (let w = binary_op_has_32_bit_machine_result op result_bits in
      try_low (lower_operand T M rhs s) (\<lambda>(rs2, s1). do {
        rb \<leftarrow> int_bits_for_value M rhs;
        let rhs_bits = (case rb of Some b \<Rightarrow> b | None \<Rightarrow> operand_bits);
        (rs2', s2) \<leftarrow> (if w then Some (rs2, s1)
          else emit_normalized_int_operand T M rhs rs2 rhs_bits (binary_operands_are_signed op) s1);
        let (rd, raw, s3) = binary_dest i op w s2;
        Some (Inr (finish_binary T op w result_bits rd raw (push_inst (binary_reg_inst T op w raw rs1 rs2') s3)))
      }))"

definition lower_binary ::
  "('r, 'i, 'z) lowering_target_scheme \<Rightarrow> module_core \<Rightarrow> inst_ref \<Rightarrow> binary_opcode \<Rightarrow> value_id \<Rightarrow> value_id \<Rightarrow>
     ('r, 'i) lower_state \<Rightarrow> ('r, 'i) lower_state lowered" where
  "lower_binary T M i op lhs rhs s = do {
     rb \<leftarrow> int_bits_for_value M (VInst i);
     let result_bits = (case rb of Some b \<Rightarrow> b | None \<Rightarrow> reg_bits T);
     ob \<leftarrow> int_bits_for_value M lhs;
     let operand_bits = (case ob of Some b \<Rightarrow> b | None \<Rightarrow> result_bits);
     let w = binary_op_has_32_bit_machine_result op result_bits;
     try_low (lower_operand T M lhs s) (\<lambda>(rs, s1). do {
       (rs1, s2) \<leftarrow> (if w then Some (rs, s1)
         else emit_normalized_int_operand T M lhs rs operand_bits (binary_operands_are_signed op) s1);
       c \<leftarrow> const_int M rhs;
       let (lowered, s3) = (case c of
           Some n \<Rightarrow> lower_binary_imm T i op result_bits rs1 (as_i32 n) s2
         | None \<Rightarrow> (False, s2));
       if lowered then Some (Inr s3)
       else lower_binary_reg T M i op operand_bits result_bits rs1 rhs s3
     })
   }"

section \<open>Calls\<close>

text \<open>The library function an intrinsic copy becomes, without the volatile flag.\<close>

definition call_callee :: "string \<Rightarrow> value_id list \<Rightarrow> string \<times> value_id list" where
  "call_callee callee args =
     (if starts_with callee ''llvm.memcpy.'' \<or> starts_with callee ''llvm.memmove.''
      then (if starts_with callee ''llvm.memmove.'' then ''memmove'' else ''memcpy'',
            if 4 \<le> length args then take 3 args else args)
      else (callee, args))"

definition call_symbol :: "string \<Rightarrow> ('r, 'i) lower_state \<Rightarrow> (symbol_id \<times> ('r, 'i) lower_state) option" where
  "call_symbol name s =
     (case symbol_map (ls_mm s) name of
        Some k \<Rightarrow> Some (k, s)
      | None \<Rightarrow> map_option (\<lambda>(k, mm). (k, s\<lparr>ls_mm := mm\<rparr>))
                  (new_symbol (ls_mm s) name ExternalPlaceholder TextSegment External 4))"

text \<open>A value at a call boundary: 32 bits are sign extended on RV64, other integers masked.\<close>

definition emit_abi_value ::
  "('r, 'i, 'z) target_imm_scheme \<Rightarrow> nat option \<Rightarrow> 'r register \<Rightarrow> ('r, 'i) lower_state \<Rightarrow>
     'r register \<times> ('r, 'i) lower_state" where
  "emit_abi_value T b rs s =
     (case b of
        None \<Rightarrow> (rs, s)
      | Some bits \<Rightarrow> if WORD_SIZE T = 8 \<and> bits = 32 then emit_sign_extended_value T rs bits s
                     else emit_masked_value T rs bits s)"

fun pass_args ::
  "('r, 'i, 'z) lowering_target_scheme \<Rightarrow> module_core \<Rightarrow> nat \<Rightarrow> (value_id \<times> 'r register) list \<Rightarrow>
     ('r, 'i) lower_state \<Rightarrow> ('r copy_move list \<times> ('r, 'i) lower_state) option" where
  "pass_args T M index [] s = Some ([], s)"
| "pass_args T M index ((v, rs) # rest) s = do {
     b \<leftarrow> int_bits_for_value M v;
     let (rs1, s1) = emit_abi_value T b rs s;
     if index < num_arg_regs T then do {
       r \<leftarrow> arg_reg T index;
       (moves, s2) \<leftarrow> pass_args T M (Suc index) rest s1;
       Some (\<lparr>cm_dst = Physical r, cm_src = rs1\<rparr> # moves, s2)
     } else do {
       let (rt, s2) = fresh_reg s1;
       pass_args T M (Suc index) rest
         (push_inst (emit_store_outgoing_arg T rs1 (stack_arg_offset T (index - num_arg_regs T)) rt) s2)
     }
   }"

definition is_void_ty :: "ir_type \<Rightarrow> bool" where
  "is_void_ty ty \<longleftrightarrow> ty = VoidT"

definition take_result ::
  "('r, 'i, 'z) target_imm_scheme \<Rightarrow> inst_ref \<Rightarrow> ir_type \<Rightarrow> ('r, 'i) lower_state \<Rightarrow> ('r, 'i) lower_state" where
  "take_result T i ty s =
     (if is_void_ty ty then s
      else let (rd, s1) = ensure_inst_vreg i s;
               (r, s2) = emit_abi_value T (as_int_ty ty) (Physical (return_reg T)) s1
           in emit_copy_or_move T rd r s2)"

definition lower_call ::
  "('r, 'i, 'z) lowering_target_scheme \<Rightarrow> 'r iteration_orders \<Rightarrow> module_core \<Rightarrow> inst_ref \<Rightarrow> function_id \<Rightarrow>
     value_id list \<Rightarrow> ('r, 'i) lower_state \<Rightarrow> ('r, 'i) lower_state lowered" where
  "lower_call T H M i f raw_args s = do {
     F \<leftarrow> func_map M f;
     try_low (try_emit_inline_memcpy T M (fd_name F) raw_args s) (\<lambda>(inlined, s1).
       if inlined then Some (Inr s1)
       else do {
         let (callee, args) = call_callee (fd_name F) raw_args;
         (symbol, s2) \<leftarrow> call_symbol callee s1;
         let stack_args = (length args - num_arg_regs T) * stack_arg_size T;
         let s3 = s2\<lparr>ls_mf := record_outgoing_arg (ls_mf s2) stack_args\<rparr>;
         try_low (lower_operands T M args s3) (\<lambda>(rs, s4). do {
           (moves, s5) \<leftarrow> pass_args T M 0 (zip args rs) s4;
           s6 \<leftarrow> emit_copies T H moves s5;
           ty \<leftarrow> value_ty M (VInst i);
           Some (Inr (take_result T i ty (push_inst (emit_call T symbol (length args)) s6)))
         })
       })
   }"

section \<open>Branches\<close>

definition edge_phis :: "('r, 'i) lower_state \<Rightarrow> block_id \<Rightarrow> block_id \<Rightarrow> (vreg_id \<times> value_id) list" where
  "edge_phis s target pred =
     (case fl_phis (ls_fn s) target of
        None \<Rightarrow> []
      | Some infos \<Rightarrow> List.map_filter (\<lambda>info. map_option (\<lambda>v. (pi_dst info, v)) (filter_pred info pred)) infos)"

text \<open>The block on an edge that has copies: the target is left alone without any.\<close>

definition add_transit_block ::
  "('r, 'i, 'z) lowering_target_scheme \<Rightarrow> 'r iteration_orders \<Rightarrow> module_core \<Rightarrow> block_id \<Rightarrow> block_id \<Rightarrow>
     ('r, 'i) lower_state \<Rightarrow> (block_id \<times> ('r, 'i) lower_state) lowered" where
  "add_transit_block T H M target pred s =
     (let phis = edge_phis s target pred; n = length (blocks (ls_mf s)) in
      if phis = [] then Some (Inr (target, s))
      else try_low (parallel_copy T H M phis (s\<lparr>ls_out := []\<rparr>)) (\<lambda>s1.
        let b = \<lparr>mb_id = n, mb_name = ''.bb'' @ show_nat n, instructions = ls_out s1 @ [emit_jump T target]\<rparr>
        in Some (Inr (n, s1\<lparr>ls_out := ls_out s, ls_mf := (ls_mf s1)\<lparr>blocks := blocks (ls_mf s1) @ [b]\<rparr>\<rparr>))))"

definition lower_cond_branch ::
  "('r, 'i, 'z) lowering_target_scheme \<Rightarrow> module_core \<Rightarrow> value_id \<Rightarrow> block_id \<Rightarrow>
     ('r, 'i) lower_state \<Rightarrow> ('r, 'i) lower_state lowered" where
  "lower_cond_branch T M cond true_id s = do {
     icmp \<leftarrow> branch_cond_icmp M cond;
     (case icmp of
        Some (code, lhs, rhs) \<Rightarrow>
          try_low (lower_icmp_operands T M lhs rhs code s) (\<lambda>((rs1, rs2), s1).
            Some (Inr (push_inst (emit_icmp_branch T code rs1 rs2 true_id) s1)))
      | None \<Rightarrow>
          try_low (lower_operand T M cond s) (\<lambda>(r, s1).
            Some (Inr (push_inst (emit_branch_ne T r (Physical (zero_reg T)) true_id) s1))))
   }"

definition lower_branch ::
  "('r, 'i, 'z) lowering_target_scheme \<Rightarrow> 'r iteration_orders \<Rightarrow> module_core \<Rightarrow> function_id \<Rightarrow> block_id \<Rightarrow>
     ir_block_id \<Rightarrow> cond_branch option \<Rightarrow> ('r, 'i) lower_state \<Rightarrow> ('r, 'i) lower_state lowered" where
  "lower_branch T H M f pred then_block cond s =
     (case cond of
        Some cb \<Rightarrow> do {
          t \<leftarrow> fl_block_map (ls_fn s) (BlockRef f then_block);
          e \<leftarrow> fl_block_map (ls_fn s) (BlockRef f (cb_else cb));
          try_low (add_transit_block T H M t pred s) (\<lambda>(true_id, s1).
          try_low (add_transit_block T H M e pred s1) (\<lambda>(false_id, s2).
          try_low (lower_cond_branch T M (cb_cond cb) true_id s2) (\<lambda>s3.
            Some (Inr (push_inst (emit_jump T false_id) s3)))))
        }
      | None \<Rightarrow> do {
          t \<leftarrow> fl_block_map (ls_fn s) (BlockRef f then_block);
          try_low (if edge_phis s t pred = [] then Some (Inr s) else parallel_copy T H M (edge_phis s t pred) s)
            (\<lambda>s1. Some (Inr (push_inst (emit_jump T t) s1)))
        })"

section \<open>Addresses and memory\<close>

definition add_field_offset ::
  "('r, 'i, 'z) target_imm_scheme \<Rightarrow> 'r register \<Rightarrow> nat \<Rightarrow> ('r, 'i) lower_state \<Rightarrow>
     'r register \<times> ('r, 'i) lower_state" where
  "add_field_offset T base off s =
     (if off = 0 then (base, s)
      else if off \<le> 2047
      then let (temp, s1) = fresh_reg s in (temp, push_inst (emit_addi T temp base (word_of_nat off)) s1)
      else let (imm_reg, s1) = fresh_reg s;
               s2 = push_inst (load_imm T imm_reg (word_of_nat off)) s1;
               (temp, s3) = fresh_reg s2
           in (temp, push_inst (emit_add T temp base imm_reg) s3))"

definition struct_body :: "ir_type \<Rightarrow> ir_type list option" where
  "struct_body ty = (case ty of StructT _ _ \<Rightarrow> get_body ty | _ \<Rightarrow> None)"

fun lower_gep_indices ::
  "('r, 'i, 'z) lowering_target_scheme \<Rightarrow> module_core \<Rightarrow> value_id list \<Rightarrow> ir_type \<Rightarrow> 'r register \<Rightarrow>
     ('r, 'i) lower_state \<Rightarrow> ('r register \<times> ('r, 'i) lower_state) lowered" where
  "lower_gep_indices T M [] ty base s = Some (Inr (base, s))"
| "lower_gep_indices T M (index # rest) ty base s =
     try_low (type_layout M ty) (\<lambda>l.
       case shape l of
         StructShape sl \<Rightarrow> do {
           c \<leftarrow> const_int M index;
           (case c of
              None \<Rightarrow> Some (Inl (UnimplementedInstruction (fl_name (ls_fn s)) ''non-constant struct GEP index''))
            | Some n \<Rightarrow> do {
                let k = unat (as_u64 n);
                fl \<leftarrow> nth_opt (struct_fields sl) k;
                let (base1, s1) = add_field_offset T base (offset fl) s;
                body \<leftarrow> struct_body ty;
                ty1 \<leftarrow> nth_opt body k;
                lower_gep_indices T M rest ty1 base1 s1
              })
         }
       | ArrayShape al \<Rightarrow>
           try_low (emit_add_offset T M base (elem_stride al) index s) (\<lambda>(base1, s1).
             case ty of ArrayT e _ \<Rightarrow> lower_gep_indices T M rest e base1 s1 | _ \<Rightarrow> None)
       | ScalarShape \<Rightarrow>
           Some (Inl (UnimplementedInstruction (fl_name (ls_fn s)) ''GEP on non-struct non-array type'')))"

definition lower_gep ::
  "('r, 'i, 'z) lowering_target_scheme \<Rightarrow> module_core \<Rightarrow> inst_ref \<Rightarrow> ir_type \<Rightarrow> value_id \<Rightarrow> value_id list \<Rightarrow>
     ('r, 'i) lower_state \<Rightarrow> ('r, 'i) lower_state lowered" where
  "lower_gep T M i base_ty base indices s =
     try_low (lower_operand T M base s) (\<lambda>(b, s1).
     try_low (case indices of
         [] \<Rightarrow> Some (Inr (b, s1))
       | index # rest \<Rightarrow>
           try_low (type_layout M base_ty) (\<lambda>l. do {
             st \<leftarrow> stride (layout l);
             try_low (emit_add_offset T M b st index s1) (\<lambda>(b1, s2).
               lower_gep_indices T M rest base_ty b1 s2) }))
       (\<lambda>(r, s3).
          let (rd, s4) = ensure_inst_vreg i s3
          in Some (Inr (if r = rd then s4 else push_inst (mv T rd r) s4))))"

definition lower_alloca ::
  "('r, 'i, 'z) lowering_target_scheme \<Rightarrow> module_core \<Rightarrow> inst_ref \<Rightarrow> ir_type \<Rightarrow>
     ('r, 'i) lower_state \<Rightarrow> ('r, 'i) lower_state lowered" where
  "lower_alloca T M i ty s =
     try_low (type_layout M ty) (\<lambda>l.
       let (slot, mf) = new_stack_slot (ls_mf s) (size_of_layout (layout l)) (align_of_layout (layout l)) AllocaSlot;
           fn = ls_fn s;
           s1 = s\<lparr>ls_mf := mf, ls_fn := fn\<lparr>fl_slots := (fl_slots fn)(i \<mapsto> slot)\<rparr>\<rparr>;
           (rd, s2) = ensure_inst_vreg i s1
       in Some (Inr (push_inst (emit_get_stack_addr T rd slot) s2)))"

definition global_symbol :: "module_core \<Rightarrow> global_id \<Rightarrow> ('r, 'i) lower_state \<Rightarrow> symbol_id option" where
  "global_symbol M g s = do { G \<leftarrow> global_map M g; symbol_map (ls_mm s) (gd_name G) }"

definition lower_load ::
  "('r, 'i, 'z) lowering_target_scheme \<Rightarrow> module_core \<Rightarrow> inst_ref \<Rightarrow> value_id \<Rightarrow>
     ('r, 'i) lower_state \<Rightarrow> ('r, 'i) lower_state lowered" where
  "lower_load T M i ptr s = do {
     let (rd, s1) = ensure_inst_vreg i s;
     ty \<leftarrow> value_ty M (VInst i);
     try_low (type_layout M ty) (\<lambda>l.
       let n = size_of_layout (layout l) in
       case ptr of
         VGlobal g \<Rightarrow> do {
           symbol \<leftarrow> global_symbol M g s1;
           rust_assert (n \<le> WORD_SIZE T);
           ins \<leftarrow> emit_load_global T rd symbol n False;
           Some (Inr (push_inst ins s1))
         }
       | _ \<Rightarrow>
           try_low (lower_operand T M ptr s1) (\<lambda>(rs1, s2). do {
             rust_assert (n \<le> WORD_SIZE T);
             ins \<leftarrow> emit_load_mem T rd rs1 0 n (n < WORD_SIZE T \<and> n \<noteq> 4);
             Some (Inr (push_inst ins s2)) }))
   }"

definition lower_store ::
  "('r, 'i, 'z) lowering_target_scheme \<Rightarrow> module_core \<Rightarrow> value_id \<Rightarrow> value_id \<Rightarrow>
     ('r, 'i) lower_state \<Rightarrow> ('r, 'i) lower_state lowered" where
  "lower_store T M v ptr s =
     try_low (lower_operand T M v s) (\<lambda>(rs2, s1). do {
       stored_ty \<leftarrow> value_ty M (case v of VGlobal _ \<Rightarrow> ptr | _ \<Rightarrow> v);
       try_low (type_layout M stored_ty) (\<lambda>l.
         let n = size_of_layout (layout l) in
         case ptr of
           VGlobal g \<Rightarrow> do {
             symbol \<leftarrow> global_symbol M g s1;
             rust_assert (n \<le> WORD_SIZE T);
             let (rt, s2) = fresh_reg s1;
             ins \<leftarrow> emit_store_global T rs2 symbol n rt;
             Some (Inr (push_inst ins s2))
           }
         | _ \<Rightarrow>
             try_low (lower_operand T M ptr s1) (\<lambda>(rs1, s2). do {
               rust_assert (n \<le> WORD_SIZE T);
               ins \<leftarrow> emit_store_mem T rs1 rs2 0 n;
               Some (Inr (push_inst ins s2)) }))
     })"

definition lower_ret ::
  "('r, 'i, 'z) lowering_target_scheme \<Rightarrow> module_core \<Rightarrow> value_id option \<Rightarrow>
     ('r, 'i) lower_state \<Rightarrow> ('r, 'i) lower_state lowered" where
  "lower_ret T M v s =
     try_low (case v of
         None \<Rightarrow> Some (Inr s)
       | Some x \<Rightarrow>
           try_low (lower_operand T M x s) (\<lambda>(rs, s1). do {
             b \<leftarrow> int_bits_for_value M x;
             let (r, s2) = (case b of Some bits \<Rightarrow> emit_masked_value T rs bits s1 | None \<Rightarrow> (rs, s1));
             Some (Inr (emit_copy_or_move T (Physical (return_reg T)) r s2)) }))
       (\<lambda>s3. Some (Inr (push_inst (emit_ret T) s3)))"

section \<open>The other instructions\<close>

definition lower_icmp ::
  "('r, 'i, 'z) lowering_target_scheme \<Rightarrow> module_core \<Rightarrow> inst_ref \<Rightarrow> icmp_code \<Rightarrow> value_id \<Rightarrow> value_id \<Rightarrow>
     ('r, 'i) lower_state \<Rightarrow> ('r, 'i) lower_state lowered" where
  "lower_icmp T M i op lhs rhs s = do {
     only \<leftarrow> icmp_is_only_branch_cond M i;
     if only then Some (Inr s)
     else try_low (lower_icmp_operands T M lhs rhs op s) (\<lambda>((rs1, rs2), s1).
       let (rd, s2) = ensure_inst_vreg i s1 in Some (Inr (emit_icmp T op rd rs1 rs2 s2)))
   }"

definition lower_select ::
  "('r, 'i, 'z) lowering_target_scheme \<Rightarrow> module_core \<Rightarrow> inst_ref \<Rightarrow> value_id \<Rightarrow> value_id \<Rightarrow> value_id \<Rightarrow>
     ('r, 'i) lower_state \<Rightarrow> ('r, 'i) lower_state lowered" where
  "lower_select T M i c t e s =
     try_low (lower_operand T M c s) (\<lambda>(cond, s1).
     try_low (lower_operand T M t s1) (\<lambda>(true_val, s2).
     try_low (lower_operand T M e s2) (\<lambda>(false_val, s3).
       let (mask1, s4) = fresh_reg s3;
           (mask2, s5) = fresh_reg s4;
           s6 = push_inst (emit_xori T mask2 mask1 (-1)) (emit_neg T mask1 cond s5);
           (true_part, s7) = fresh_reg s6;
           (false_part, s8) = fresh_reg s7;
           s9 = push_inst (emit_and T false_part false_val mask2)
                  (push_inst (emit_and T true_part true_val mask1) s8);
           (rd, s10) = ensure_inst_vreg i s9
       in Some (Inr (push_inst (emit_or T rd true_part false_part) s10)))))"

definition lower_ptr_to_int ::
  "('r, 'i, 'z) lowering_target_scheme \<Rightarrow> module_core \<Rightarrow> inst_ref \<Rightarrow> value_id \<Rightarrow>
     ('r, 'i) lower_state \<Rightarrow> ('r, 'i) lower_state lowered" where
  "lower_ptr_to_int T M i ptr s =
     try_low (lower_operand T M ptr s) (\<lambda>(src, s1).
       let (rd, s2) = ensure_inst_vreg i s1 in Some (Inr (push_inst (mv T rd src) s2)))"

text \<open>\<open>value_ty(..).as_int().unwrap()\<close>.\<close>

definition int_bits_of :: "module_core \<Rightarrow> value_id \<Rightarrow> nat option" where
  "int_bits_of M v = Option.bind (int_bits_for_value M v) (\<lambda>b. b)"

definition lower_trunc ::
  "('r, 'i, 'z) lowering_target_scheme \<Rightarrow> module_core \<Rightarrow> inst_ref \<Rightarrow> value_id \<Rightarrow>
     ('r, 'i) lower_state \<Rightarrow> ('r, 'i) lower_state lowered" where
  "lower_trunc T M i v s =
     try_low (lower_operand T M v s) (\<lambda>(src, s1). do {
       dst_bits \<leftarrow> int_bits_of M (VInst i);
       let (masked, s2) = emit_masked_value T src dst_bits s1;
       let (rd, s3) = ensure_inst_vreg i s2;
       Some (Inr (emit_copy_or_move T rd masked s3)) })"

definition lower_zext ::
  "('r, 'i, 'z) lowering_target_scheme \<Rightarrow> module_core \<Rightarrow> inst_ref \<Rightarrow> value_id \<Rightarrow>
     ('r, 'i) lower_state \<Rightarrow> ('r, 'i) lower_state lowered" where
  "lower_zext T M i v s =
     try_low (lower_operand T M v s) (\<lambda>(src, s1). do {
       src_bits \<leftarrow> int_bits_of M v;
       let (extended, s2) = emit_masked_value T src src_bits s1;
       let (rd, s3) = ensure_inst_vreg i s2;
       Some (Inr (emit_copy_or_move T rd extended s3)) })"

definition lower_sext ::
  "('r, 'i, 'z) lowering_target_scheme \<Rightarrow> module_core \<Rightarrow> inst_ref \<Rightarrow> value_id \<Rightarrow>
     ('r, 'i) lower_state \<Rightarrow> ('r, 'i) lower_state lowered" where
  "lower_sext T M i v s =
     try_low (lower_operand T M v s) (\<lambda>(src, s1). do {
       let (rd, s2) = ensure_inst_vreg i s1;
       src_bits \<leftarrow> int_bits_of M v;
       let shift = word_of_nat (reg_bits T - src_bits);
       Some (Inr (
         if reg_bits T \<le> src_bits then push_inst (mv T rd src) s2
         else push_inst (emit_srai T rd rd shift) (push_inst (emit_slli T rd src shift) s2))) })"

definition lower_phi :: "inst_ref \<Rightarrow> ('r, 'i) lower_state \<Rightarrow> ('r, 'i) lower_state lowered" where
  "lower_phi i s = do { rust_assert (fl_vregs (ls_fn s) (VInst i) \<noteq> None); Some (Inr s) }"

section \<open>Dispatch\<close>

fun lower_kind ::
  "('r, 'i, 'z) lowering_target_scheme \<Rightarrow> 'r iteration_orders \<Rightarrow> module_core \<Rightarrow> inst_ref \<Rightarrow> block_ref \<Rightarrow>
     block_id \<Rightarrow> inst_kind \<Rightarrow> ('r, 'i) lower_state \<Rightarrow> ('r, 'i) lower_state lowered" where
  "lower_kind T H M i b n (Binary op lhs rhs) s = lower_binary T M i op lhs rhs s"
| "lower_kind T H M i b n (Call f args) s = lower_call T H M i f args s"
| "lower_kind T H M i b n (Branch t cond) s = lower_branch T H M (br_func b) n t cond s"
| "lower_kind T H M i b n (GetElementPtr base_ty base indices) s = lower_gep T M i base_ty base indices s"
| "lower_kind T H M i b n (Alloca ty) s = lower_alloca T M i ty s"
| "lower_kind T H M i b n (Load ptr) s = lower_load T M i ptr s"
| "lower_kind T H M i b n (Ret v) s = lower_ret T M v s"
| "lower_kind T H M i b n (Store v ptr) s = lower_store T M v ptr s"
| "lower_kind T H M i b n (ICmp op lhs rhs) s = lower_icmp T M i op lhs rhs s"
| "lower_kind T H M i b n (Phi _ _) s = lower_phi i s"
| "lower_kind T H M i b n (Select c t e) s = lower_select T M i c t e s"
| "lower_kind T H M i b n (PtrToInt ptr) s = lower_ptr_to_int T M i ptr s"
| "lower_kind T H M i b n (Trunc v) s = lower_trunc T M i v s"
| "lower_kind T H M i b n (Zext v) s = lower_zext T M i v s"
| "lower_kind T H M i b n (Sext v) s = lower_sext T M i v s"
| "lower_kind T H M i b n Unreachable s = Some (Inr s)"

definition lower_instruction ::
  "('r, 'i, 'z) lowering_target_scheme \<Rightarrow> 'r iteration_orders \<Rightarrow> module_core \<Rightarrow> inst_ref \<Rightarrow> block_ref \<Rightarrow>
     block_id \<Rightarrow> ('r, 'i) lower_state \<Rightarrow> ('i list \<times> ('r, 'i) lower_state) lowered" where
  "lower_instruction T H M i b n s = do {
     D \<leftarrow> inst_at M i;
     try_low (lower_kind T H M i b n (id_kind D) (s\<lparr>ls_out := []\<rparr>))
       (\<lambda>s1. Some (Inr (ls_out s1, s1)))
   }"

end
