(* ===== verification/Lower.thy ===== *)
theory Lower
  imports Lower_Inst Reg_Alloc Frame "HOL-Library.Char_ord" "HOL-Library.List_Lexorder"
begin

text \<open>
  The driver of \<open>src/src/mir/lower.rs\<close> and \<open>src/src/mir/lower/phi.rs\<close>: the symbols of a module, the
  bytes of its constants and globals, the set-up of a function (blocks, phis, arguments, registers)
  and the pipeline of a function and of a module.

  A constant refers to its parts by key, so the recursion of \<open>lower_const_data\<close> is on a depth given
  as fuel, which stands for the depth to which constants refer to one another; no theorem depends on
  how much is given, and running out is \<open>None\<close>, as a panic is.
\<close>

section \<open>Constants\<close>

definition bytes_of_u64 :: "u64 \<Rightarrow> u8 list" where
  "bytes_of_u64 x = map (\<lambda>k. ucast (drop_bit (8 * k) x)) [0..<8]"

definition resize_bytes :: "nat \<Rightarrow> u8 list \<Rightarrow> u8 list" where
  "resize_bytes n bs = take n bs @ replicate (n - length bs) 0"

definition slice_to :: "nat \<Rightarrow> 'a list \<Rightarrow> 'a list option" where
  "slice_to n xs = (if n \<le> length xs then Some (take n xs) else None)"

definition string_bytes :: "string \<Rightarrow> u8 list" where
  "string_bytes s = map (\<lambda>c. word_of_nat (of_char c)) s"

text \<open>One round of the two loops: an element padded to the stride, a field at its offset.\<close>

definition append_element :: "nat \<Rightarrow> u8 list \<Rightarrow> u8 list \<Rightarrow> u8 list option" where
  "append_element strd bytes element_bytes = do {
     rust_assert (length element_bytes \<le> strd);
     Some (bytes @ resize_bytes strd element_bytes) }"

definition pad_to_field :: "nat \<Rightarrow> u8 list \<Rightarrow> u8 list option" where
  "pad_to_field off bytes = do {
     rust_assert (length bytes \<le> off);
     Some (resize_bytes off bytes) }"

fun lower_elements :: "(const_id \<Rightarrow> u8 list lowered) \<Rightarrow> nat \<Rightarrow> const_id list \<Rightarrow> u8 list \<Rightarrow> u8 list lowered" where
  "lower_elements lower_one strd [] bytes = Some (Inr bytes)"
| "lower_elements lower_one strd (e # es) bytes =
     try_low (lower_one e) (\<lambda>bs. do {
       bytes1 \<leftarrow> append_element strd bytes bs;
       lower_elements lower_one strd es bytes1 })"

fun lower_fields ::
  "(const_id \<Rightarrow> u8 list lowered) \<Rightarrow> (const_id \<times> field_layout) list \<Rightarrow> u8 list \<Rightarrow> u8 list lowered" where
  "lower_fields lower_one [] bytes = Some (Inr bytes)"
| "lower_fields lower_one ((f, fl) # rest) bytes = do {
     bytes1 \<leftarrow> pad_to_field (offset fl) bytes;
     try_low (lower_one f) (\<lambda>bs. lower_fields lower_one rest (bytes1 @ bs))
   }"

fun lower_const_data :: "nat \<Rightarrow> module_core \<Rightarrow> const_id \<Rightarrow> u8 list lowered" where
  "lower_const_data 0 M c = None"
| "lower_const_data (Suc fuel) M c = do {
     C \<leftarrow> const_map M c;
     try_low (type_layout M (cd_ty C)) (\<lambda>l.
       let n = size_of_layout (layout l) in
       case cd_kind C of
         CInt v \<Rightarrow> map_option Inr (slice_to n (bytes_of_u64 (as_i64 v)))
       | CArray es \<Rightarrow> do {
           al \<leftarrow> as_array l;
           try_low (lower_elements (lower_const_data fuel M) (elem_stride al) es [])
             (\<lambda>bytes. Some (Inr (resize_bytes n bytes)))
         }
       | CStruct fs \<Rightarrow> do {
           sl \<leftarrow> as_struct l;
           try_low (lower_fields (lower_const_data fuel M) (zip fs (struct_fields sl)) [])
             (\<lambda>bytes. Some (Inr (resize_bytes n bytes)))
         }
       | CString s \<Rightarrow> do {
           rust_assert (length (string_bytes s) \<le> n);
           Some (Inr (resize_bytes n (string_bytes s)))
         }
       | CNull \<Rightarrow> Some (Inr (replicate n 0))
       | CUndef \<Rightarrow> None)
   }"

definition lower_constant :: "nat \<Rightarrow> module_core \<Rightarrow> ir_type \<Rightarrow> const_id option \<Rightarrow> u8 list lowered" where
  "lower_constant fuel M ty c =
     try_low (type_layout M ty) (\<lambda>l.
       let n = size_of_layout (layout l) in
       try_low (case c of Some k \<Rightarrow> lower_const_data fuel M k | None \<Rightarrow> Some (Inr (replicate n 0)))
         (\<lambda>bytes. do {
            rust_assert (length bytes \<le> n);
            Some (Inr (resize_bytes n bytes)) }))"

section \<open>Symbols\<close>

record module_lowering =
  function_symbols :: "string \<rightharpoonup> symbol_id"
  global_symbols :: "string \<rightharpoonup> symbol_id"

definition empty_module_lowering :: module_lowering where
  "empty_module_lowering = \<lparr>function_symbols = Map.empty, global_symbols = Map.empty\<rparr>"

text \<open>\<open>functions_in_order\<close> and \<open>globals_in_order\<close> of \<open>src/src/ir/core.rs\<close>: the keys, sorted by name.\<close>

definition sorted_by_name :: "('k \<Rightarrow> string option) \<Rightarrow> 'k list \<Rightarrow> 'k list option" where
  "sorted_by_name name keys = do {
     names \<leftarrow> mapM_opt name keys;
     Some (map snd (sort_key fst (zip names keys))) }"

definition functions_in_order :: "'r iteration_orders \<Rightarrow> module_core \<Rightarrow> function_id list option" where
  "functions_in_order H M = sorted_by_name (\<lambda>f. map_option fd_name (func_map M f)) (func_keys H)"

definition globals_in_order :: "'r iteration_orders \<Rightarrow> module_core \<Rightarrow> global_id list option" where
  "globals_in_order H M = sorted_by_name (\<lambda>g. map_option gd_name (global_map M g)) (global_keys H)"

definition args_in_order :: "'r iteration_orders \<Rightarrow> function_id \<Rightarrow> arg_ref list" where
  "args_in_order H f = map (ArgRef f) (arg_keys H f)"

definition ensure_symbol_absent :: "('r, 'i) machine_module \<Rightarrow> string \<Rightarrow> unit lowered" where
  "ensure_symbol_absent mm name =
     Some (if symbol_map mm name \<noteq> None then Inl (DuplicateSymbol name) else Inr ())"

definition is_function_global :: "global_data \<Rightarrow> bool" where
  "is_function_global G = (case gd_kind G of FunctionGlobal _ \<Rightarrow> True | GlobalVariable _ _ \<Rightarrow> False)"

fun collect_globals ::
  "module_core \<Rightarrow> global_id list \<Rightarrow> module_lowering \<times> ('r, 'i) machine_module \<Rightarrow>
     (module_lowering \<times> ('r, 'i) machine_module) lowered" where
  "collect_globals M [] ms = Some (Inr ms)"
| "collect_globals M (g # gs) ms = do {
     G \<leftarrow> global_map M g;
     if is_function_global G then collect_globals M gs ms
     else try_low (ensure_symbol_absent (snd ms) (gd_name G)) (\<lambda>_. do {
       (k, mm) \<leftarrow> new_symbol (snd ms) (gd_name G) ExternalPlaceholder DataSegment Internal 1;
       collect_globals M gs
         ((fst ms)\<lparr>global_symbols := (global_symbols (fst ms))(gd_name G \<mapsto> k)\<rparr>, mm) })
   }"

fun collect_functions ::
  "module_core \<Rightarrow> function_id list \<Rightarrow> module_lowering \<times> ('r, 'i) machine_module \<Rightarrow>
     (module_lowering \<times> ('r, 'i) machine_module) lowered" where
  "collect_functions M [] ms = Some (Inr ms)"
| "collect_functions M (f # fs) ms = do {
     F \<leftarrow> func_map M f;
     try_low (ensure_symbol_absent (snd ms) (fd_name F)) (\<lambda>_. do {
       let link = (if fd_is_declare F \<or> fd_name F = ''main'' then External else Internal);
       let kind = (if fd_is_declare F then ExternalPlaceholder
                   else FunctionSymbol (empty_machine_function (fd_name F)));
       (k, mm) \<leftarrow> new_symbol (snd ms) (fd_name F) kind TextSegment link 4;
       collect_functions M fs
         ((fst ms)\<lparr>function_symbols := (function_symbols (fst ms))(fd_name F \<mapsto> k)\<rparr>, mm) })
   }"

definition collect_symbols ::
  "'r iteration_orders \<Rightarrow> module_core \<Rightarrow> (module_lowering \<times> ('r, 'i) machine_module) lowered" where
  "collect_symbols H M = do {
     gs \<leftarrow> globals_in_order H M;
     try_low (collect_globals M gs (empty_module_lowering, empty_machine_module)) (\<lambda>ms. do {
       fs \<leftarrow> functions_in_order H M;
       collect_functions M fs ms }) }"

section \<open>Globals\<close>

text \<open>Writing through \<open>symbols[id]\<close>.\<close>

definition with_symbol ::
  "symbol_id \<Rightarrow> (('r, 'i) machine_symbol \<Rightarrow> ('r, 'i) machine_symbol) \<Rightarrow> ('r, 'i) machine_module \<Rightarrow>
     ('r, 'i) machine_module option" where
  "with_symbol k f mm =
     (if k < length (symbols mm) then Some (mm\<lparr>symbols := (symbols mm)[k := f (symbols mm ! k)]\<rparr>) else None)"

definition lower_global :: "nat \<Rightarrow> module_core \<Rightarrow> global_id \<Rightarrow> ('r, 'i) machine_symbol_kind lowered" where
  "lower_global fuel M g = do {
     G \<leftarrow> global_map M g;
     (case gd_kind G of
        FunctionGlobal _ \<Rightarrow> Some (Inl (UnimplementedGlobal (gd_name G)))
      | GlobalVariable _ init \<Rightarrow>
          try_low (lower_constant fuel M (gd_ty G) init) (\<lambda>bytes. Some (Inr (DataSymbol bytes))))
   }"

fun lower_globals ::
  "nat \<Rightarrow> module_core \<Rightarrow> module_lowering \<Rightarrow> global_id list \<Rightarrow> ('r, 'i) machine_module \<Rightarrow>
     ('r, 'i) machine_module lowered" where
  "lower_globals fuel M ms [] mm = Some (Inr mm)"
| "lower_globals fuel M ms (g # gs) mm = do {
     G \<leftarrow> global_map M g;
     (case gd_kind G of
        FunctionGlobal _ \<Rightarrow> lower_globals fuel M ms gs mm
      | GlobalVariable is_constant _ \<Rightarrow> do {
          k \<leftarrow> global_symbols ms (gd_name G);
          rust_assert (k < length (symbols mm));
          try_low (lower_global fuel M g) (\<lambda>kind.
          try_low (type_layout M (gd_ty G)) (\<lambda>l. do {
            mm1 \<leftarrow> with_symbol k (\<lambda>sym. sym\<lparr>sym_kind := kind,
                sym_segment := (if is_constant then ReadOnlyDataSegment else sym_segment sym),
                sym_alignment := align_of_layout (layout l)\<rparr>) mm;
            lower_globals fuel M ms gs mm1 }))
        })
   }"

section \<open>Functions\<close>

fun initialize_blocks ::
  "module_core \<Rightarrow> nat \<Rightarrow> block_ref list \<Rightarrow> ('r, 'i) lower_state \<Rightarrow> ('r, 'i) lower_state option" where
  "initialize_blocks M index [] s = Some s"
| "initialize_blocks M index (b # bs) s = do {
     name \<leftarrow> block_name M b;
     let blk = \<lparr>mb_id = index,
       mb_name = (case name of Some n \<Rightarrow> n | None \<Rightarrow> ''.bb'' @ show_nat index), instructions = []\<rparr>;
     initialize_blocks M (Suc index) bs
       (s\<lparr>ls_mf := (ls_mf s)\<lparr>blocks := blocks (ls_mf s) @ [blk]\<rparr>, ls_fn := record_block b index (ls_fn s)\<rparr>)
   }"

definition phi_edges_of :: "module_core \<Rightarrow> fn_lowering \<Rightarrow> inst_ref \<Rightarrow> phi_edge list option" where
  "phi_edges_of M fn phi = do {
     D \<leftarrow> inst_at M phi;
     (case id_kind D of
        Phi incomings _ \<Rightarrow>
          mapM_opt (\<lambda>(_, e). map_option (\<lambda>pred. \<lparr>pe_pred = pred, pe_value = pi_value e\<rparr>)
                     (fl_block_map fn (BlockRef (ir_func phi) (pi_block e)))) incomings
      | _ \<Rightarrow> None)
   }"

fun collect_block_phis ::
  "module_core \<Rightarrow> inst_ref list \<Rightarrow> ('r, 'i) lower_state \<Rightarrow> (phi_info list \<times> ('r, 'i) lower_state) option" where
  "collect_block_phis M [] s = Some ([], s)"
| "collect_block_phis M (phi # phis) s = do {
     edges \<leftarrow> phi_edges_of M (ls_fn s) phi;
     let (v, mf) = new_vreg (ls_mf s);
     (infos, s1) \<leftarrow> collect_block_phis M phis
        (s\<lparr>ls_mf := mf, ls_fn := record_vreg (VInst phi) v (ls_fn s)\<rparr>);
     Some (\<lparr>pi_dst = v, pi_edges = edges\<rparr> # infos, s1)
   }"

fun collect_phis :: "module_core \<Rightarrow> block_ref list \<Rightarrow> ('r, 'i) lower_state \<Rightarrow> ('r, 'i) lower_state option" where
  "collect_phis M [] s = Some s"
| "collect_phis M (b # bs) s = do {
     n \<leftarrow> fl_block_map (ls_fn s) b;
     phis \<leftarrow> phis_in_order M b;
     (infos, s1) \<leftarrow> collect_block_phis M phis s;
     let fn = ls_fn s1;
     collect_phis M bs (s1\<lparr>ls_fn := fn\<lparr>fl_phis := (fl_phis fn)(n \<mapsto> infos)\<rparr>\<rparr>)
   }"

fun argument_moves ::
  "('r, 'i, 'z) lowering_target_scheme \<Rightarrow> nat \<Rightarrow> arg_ref list \<Rightarrow> ('r, 'i) lower_state \<Rightarrow>
     ('i list \<times> ('r, 'i) lower_state) option" where
  "argument_moves T index [] s = Some ([], s)"
| "argument_moves T index (a # as) s = do {
     let (v, mf) = new_vreg (ls_mf s);
     ins \<leftarrow> (if index < num_arg_regs T
             then map_option (\<lambda>r. mv T (Virtual v) (Physical r)) (arg_reg T index)
             else Some (emit_load_incoming_arg T (Virtual v) (stack_arg_offset T (index - num_arg_regs T))));
     (insts, s1) \<leftarrow> argument_moves T (Suc index) as
        (s\<lparr>ls_mf := mf, ls_fn := record_vreg (VArg a) v (ls_fn s)\<rparr>);
     Some (ins # insts, s1)
   }"

text \<open>\<open>get_block_mut(id).unwrap().instructions.extend(..)\<close>.\<close>

definition extend_block ::
  "block_id \<Rightarrow> 'i list \<Rightarrow> ('r, 'i) lower_state \<Rightarrow> ('r, 'i) lower_state option" where
  "extend_block n insts s =
     map_option (\<lambda>mf. s\<lparr>ls_mf := mf\<rparr>)
       (with_block_mut (ls_mf s) n (\<lambda>b. b\<lparr>instructions := instructions b @ insts\<rparr>))"

definition initialize_func_arguments ::
  "('r, 'i, 'z) lowering_target_scheme \<Rightarrow> arg_ref list \<Rightarrow> ('r, 'i) lower_state \<Rightarrow> ('r, 'i) lower_state option" where
  "initialize_func_arguments T as s = do {
     (insts, s1) \<leftarrow> argument_moves T 0 as s;
     extend_block (entry (ls_mf s1)) insts s1 }"

text \<open>The instructions of a block: phis, body, terminator.\<close>

definition block_insts :: "module_core \<Rightarrow> block_ref \<Rightarrow> inst_ref list option" where
  "block_insts M b = do {
     phis \<leftarrow> phis_in_order M b;
     insts \<leftarrow> insts_in_order M b;
     t \<leftarrow> ir_terminator M b;
     Some (phis @ insts @ (case t of Some i \<Rightarrow> [i] | None \<Rightarrow> [])) }"

definition collect_inst :: "module_core \<Rightarrow> inst_ref \<Rightarrow> ('r, 'i) lower_state \<Rightarrow> ('r, 'i) lower_state option" where
  "collect_inst M i s = do {
     ty \<leftarrow> value_ty M (VInst i);
     Some (if is_void_ty ty then s else snd (ensure_inst_vreg i s)) }"

definition collect_value :: "module_core \<Rightarrow> block_ref \<Rightarrow> ('r, 'i) lower_state \<Rightarrow> ('r, 'i) lower_state option" where
  "collect_value M b s = do {
     insts \<leftarrow> block_insts M b;
     fold_opt (collect_inst M) insts s }"

fun lower_insts ::
  "('r, 'i, 'z) lowering_target_scheme \<Rightarrow> 'r iteration_orders \<Rightarrow> module_core \<Rightarrow> block_ref \<Rightarrow> block_id \<Rightarrow>
     inst_ref list \<Rightarrow> ('r, 'i) lower_state \<Rightarrow> ('r, 'i) lower_state lowered" where
  "lower_insts T H M b n [] s = Some (Inr s)"
| "lower_insts T H M b n (i # is) s =
     try_low (lower_instruction T H M i b n s) (\<lambda>(insts, s1). do {
       s2 \<leftarrow> extend_block n insts s1;
       lower_insts T H M b n is s2 })"

definition lower_block ::
  "('r, 'i, 'z) lowering_target_scheme \<Rightarrow> 'r iteration_orders \<Rightarrow> module_core \<Rightarrow> block_ref \<Rightarrow>
     ('r, 'i) lower_state \<Rightarrow> ('r, 'i) lower_state lowered" where
  "lower_block T H M b s = do {
     n \<leftarrow> fl_block_map (ls_fn s) b;
     insts \<leftarrow> block_insts M b;
     lower_insts T H M b n insts s }"

fun lower_blocks ::
  "('r, 'i, 'z) lowering_target_scheme \<Rightarrow> 'r iteration_orders \<Rightarrow> module_core \<Rightarrow> block_ref list \<Rightarrow>
     ('r, 'i) lower_state \<Rightarrow> ('r, 'i) lower_state lowered" where
  "lower_blocks T H M [] s = Some (Inr s)"
| "lower_blocks T H M (b # bs) s = try_low (lower_block T H M b s) (lower_blocks T H M bs)"

fun expand_insts ::
  "('r, 'i, 'z) lowering_target_scheme \<Rightarrow> 'r frame_layout \<Rightarrow> 'i list \<Rightarrow> 'i list option" where
  "expand_insts T fl [] = Some []"
| "expand_insts T fl (i # is) = do {
     xs \<leftarrow> expand_pseudo T i fl;
     ys \<leftarrow> expand_insts T fl is;
     Some (xs @ ys) }"

definition expand_pseudo_instructions ::
  "('r, 'i, 'z) lowering_target_scheme \<Rightarrow> ('r, 'i) machine_function \<Rightarrow> ('r, 'i) machine_function option" where
  "expand_pseudo_instructions T mf = do {
     bs \<leftarrow> mapM_opt (\<lambda>b. map_option (\<lambda>is. b\<lparr>instructions := is\<rparr>)
             (expand_insts T (frame_layout mf) (instructions b))) (blocks mf);
     Some (mf\<lparr>blocks := bs\<rparr>) }"

text \<open>The passes after instruction selection.\<close>

definition finish_function ::
  "lower_options \<Rightarrow> ('r :: linorder, 'i, 'z) lowering_target_scheme \<Rightarrow> ('r, 'i) machine_function \<Rightarrow>
     ('r, 'i) machine_function option" where
  "finish_function opts T mf = do {
     mf1 \<leftarrow> register_allocation T mf;
     mf2 \<leftarrow> compute_frame_layout T mf1;
     mf3 \<leftarrow> insert_logue T mf2;
     mf4 \<leftarrow> expand_pseudo_instructions T mf3;
     late_passes opts T mf4 }"

text \<open>Instruction selection: everything of \<open>lower_function\<close> before register allocation.\<close>

definition select_function ::
  "('r, 'i, 'z) lowering_target_scheme \<Rightarrow> 'r iteration_orders \<Rightarrow> module_core \<Rightarrow> function_id \<Rightarrow>
     ('r, 'i) machine_module \<Rightarrow> ('r, 'i) lower_state lowered" where
  "select_function T H M f mm = do {
     F \<leftarrow> func_map M f;
     bs \<leftarrow> blocks_in_order M f;
     e \<leftarrow> entry_block M f;
     (case e of
        None \<Rightarrow> Some (Inl (MissingEntryBlock (fd_name F)))
      | Some entry_ref \<Rightarrow> do {
          let s0 = \<lparr>ls_out = [], ls_mf = empty_machine_function (fd_name F),
                    ls_fn = fn_lowering_new (fd_name F), ls_mm = mm\<rparr>;
          s1 \<leftarrow> initialize_blocks M 0 bs s0;
          s2 \<leftarrow> collect_phis M (fl_block_order (ls_fn s1)) s1;
          s3 \<leftarrow> initialize_func_arguments T (args_in_order H f) s2;
          n \<leftarrow> fl_block_map (ls_fn s3) entry_ref;
          s4 \<leftarrow> fold_opt (collect_value M) bs (s3\<lparr>ls_mf := (ls_mf s3)\<lparr>entry := n\<rparr>\<rparr>);
          lower_blocks T H M bs s4
        })
   }"

definition lower_function ::
  "lower_options \<Rightarrow> ('r :: linorder, 'i, 'z) lowering_target_scheme \<Rightarrow> 'r iteration_orders \<Rightarrow> module_core \<Rightarrow>
     function_id \<Rightarrow> ('r, 'i) machine_module \<Rightarrow> (('r, 'i) machine_function \<times> ('r, 'i) machine_module) lowered" where
  "lower_function opts T H M f mm =
     try_low (select_function T H M f mm) (\<lambda>s.
       map_option (\<lambda>mf. Inr (mf, ls_mm s)) (finish_function opts T (ls_mf s)))"

fun lower_functions ::
  "lower_options \<Rightarrow> ('r :: linorder, 'i, 'z) lowering_target_scheme \<Rightarrow> 'r iteration_orders \<Rightarrow> module_core \<Rightarrow>
     module_lowering \<Rightarrow> function_id list \<Rightarrow> ('r, 'i) machine_module \<Rightarrow> ('r, 'i) machine_module lowered" where
  "lower_functions opts T H M ms [] mm = Some (Inr mm)"
| "lower_functions opts T H M ms (f # fs) mm = do {
     F \<leftarrow> func_map M f;
     if fd_is_declare F then lower_functions opts T H M ms fs mm
     else do {
       k \<leftarrow> function_symbols ms (fd_name F);
       try_low (lower_function opts T H M f mm) (\<lambda>(mf, mm1). do {
         mm2 \<leftarrow> with_symbol k (\<lambda>sym. sym\<lparr>sym_kind := FunctionSymbol mf\<rparr>) mm1;
         lower_functions opts T H M ms fs mm2 })
     }
   }"

section \<open>Modules\<close>

definition lower_module ::
  "nat \<Rightarrow> lower_options \<Rightarrow> ('r :: linorder, 'i, 'z) lowering_target_scheme \<Rightarrow> 'r iteration_orders \<Rightarrow>
     module_core \<Rightarrow> ('r, 'i) machine_module lowered" where
  "lower_module fuel opts T H M =
     try_low (collect_symbols H M) (\<lambda>(ms, mm). do {
       gs \<leftarrow> globals_in_order H M;
       try_low (lower_globals fuel M ms gs mm) (\<lambda>mm1.
         if lower_function_bodies opts then do {
           fs \<leftarrow> functions_in_order H M;
           lower_functions opts T H M ms fs mm1
         } else Some (Inr mm1)) })"

end
