(* ===== verification/Lower_Words.thy ===== *)
theory Lower_Words
  imports IR_Scalar_Sem Lower_Inst Machine_Sem
begin

text \<open>
  The arithmetic behind instruction selection.  An integer of width \<open>n\<close> lives in a register of a
  wider machine; an operation is done on operands brought to a normal form and is right modulo
  \<open>2 ^ n\<close>.  The theory relates the machine's word operations to the reference meaning of the IR on
  unsigned readings, and gives the value of each of the short sequences that multiply, divide and
  take remainders by a power of two.  It models no code of the repository.
\<close>

unbundle bit_operations_syntax

section \<open>Normal forms\<close>

text \<open>The register content for the reading \<open>x\<close>: sign extended or zero extended.\<close>

definition normal :: "bool \<Rightarrow> nat \<Rightarrow> int \<Rightarrow> 'w :: len word" where
  "normal sgnd n x = word_of_int (if sgnd then signed_of n x else x)"

lemma uint_of_int_mod:
  "n \<le> LENGTH('w) \<Longrightarrow> uint (word_of_int z :: 'w :: len word) mod 2 ^ n = z mod 2 ^ n"
  by (simp add: uint_word_of_int mod_mod_cancel le_imp_power_dvd)

lemma uint_of_int_small:
  assumes "0 \<le> z" "z < 2 ^ n" "n \<le> LENGTH('w)"
  shows "uint (word_of_int z :: 'w :: len word) = z"
proof -
  have "(2 :: int) ^ n \<le> 2 ^ LENGTH('w)" by (rule power_increasing) (use assms(3) in simp_all)
  with assms have "z mod 2 ^ LENGTH('w) = z" by (intro mod_pos_pos_trivial) linarith+
  then show ?thesis by (simp add: uint_word_of_int)
qed

lemma uint_arith_mod:
  assumes n: "n \<le> LENGTH('w)"
  shows "uint (word_of_int a + word_of_int b :: 'w :: len word) mod 2 ^ n = (a + b) mod 2 ^ n"
    "uint (word_of_int a - word_of_int b :: 'w :: len word) mod 2 ^ n = (a - b) mod 2 ^ n"
    "uint (word_of_int a * word_of_int b :: 'w :: len word) mod 2 ^ n = (a * b) mod 2 ^ n"
  unfolding wi_hom_add wi_hom_sub wi_hom_mult by (rule uint_of_int_mod [OF n])+

lemma signed_of_range:
  "0 < n \<Longrightarrow> - (2 ^ (n - 1)) \<le> signed_of n x \<and> signed_of n x < 2 ^ (n - 1)"
  unfolding signed_of_def
  by (simp add: signed_take_bit_int_greater_eq_minus_exp signed_take_bit_int_less_exp)

lemma sint_of_int_range:
  assumes "- (2 ^ (n - 1)) \<le> z" "z < 2 ^ (n - 1)" "n \<le> LENGTH('w)"
  shows "sint (word_of_int z :: 'w :: len word) = z"
proof -
  have p: "(2 :: int) ^ (n - 1) \<le> 2 ^ (LENGTH('w) - 1)"
    by (rule power_increasing [OF diff_le_mono [OF assms(3)]]) simp
  have "signed_take_bit (LENGTH('w) - 1) z = z"
    by (rule signed_take_bit_int_eq_self) (use assms p in linarith)+
  then show ?thesis by (simp add: sint_sbintrunc')
qed

lemma sint_normal:
  "0 < n \<Longrightarrow> n \<le> LENGTH('w) \<Longrightarrow> sint (normal True n x :: 'w :: len word) = signed_of n x"
  unfolding normal_def if_True
  by (rule sint_of_int_range [of n]) (use signed_of_range [of n x] in auto)

lemma uint_normal:
  "0 \<le> x \<Longrightarrow> x < 2 ^ n \<Longrightarrow> n \<le> LENGTH('w) \<Longrightarrow> uint (normal False n x :: 'w :: len word) = x"
  by (simp add: normal_def uint_of_int_small)

lemma normal_mod:
  assumes "0 < n" "n \<le> LENGTH('w)"
  shows "uint (normal sgnd n x :: 'w :: len word) mod 2 ^ n = x mod 2 ^ n"
  using assms by (simp add: normal_def uint_of_int_mod signed_of_mod)

lemma signed_of_mod_arg: "0 < n \<Longrightarrow> signed_of n (x mod 2 ^ n) = signed_of n x"
  by (simp add: signed_of_def signed_take_bit_eq_iff_take_bit_eq flip: take_bit_eq_mod)

lemma normal_mod_arg: "0 < n \<Longrightarrow> normal True n (x mod 2 ^ n) = normal True n x"
  by (simp add: normal_def signed_of_mod_arg)

text \<open>At the machine's own width the two forms agree.\<close>

lemma normal_full: "normal sgnd LENGTH('w) x = (word_of_int x :: 'w :: len word)"
  by (simp add: normal_def signed_of_def word_of_int_eq_iff take_bit_signed_take_bit)

lemma word_normal_full:
  assumes "uint (w :: 'w :: len word) mod 2 ^ LENGTH('w) = x"
  shows "w = normal sgnd LENGTH('w) x"
proof -
  have "uint w mod 2 ^ LENGTH('w) = uint w" using uint_lt2p [of w] by (simp add: mod_pos_pos_trivial)
  with assms have "x = uint w" by simp
  then show ?thesis by (simp add: normal_full)
qed

section \<open>Operations on normal forms\<close>

fun word_op :: "binary_opcode \<Rightarrow> 'w :: len word \<Rightarrow> 'w word \<Rightarrow> 'w word" where
  "word_op Add = (+)"
| "word_op Sub = (-)"
| "word_op Mul = (*)"
| "word_op UDiv = rv_divu"
| "word_op SDiv = rv_div"
| "word_op URem = rv_remu"
| "word_op SRem = rv_rem"
| "word_op Shl = rv_sll"
| "word_op LShr = rv_srl"
| "word_op AShr = rv_sra"
| "word_op BitAnd = (AND)"
| "word_op BitOr = (OR)"
| "word_op BitXor = (XOR)"

lemma shamt_of_int:
  assumes "0 \<le> b" "b < int n" "n \<le> LENGTH('w)"
  shows "shamt (word_of_int b :: 'w :: len word) = nat b"
proof -
  have l: "b < int LENGTH('w)" using assms by linarith
  have "LENGTH('w) < 2 ^ LENGTH('w)" by (rule less_exp)
  then have "int LENGTH('w) < 2 ^ LENGTH('w)" by (metis of_nat_less_iff of_nat_numeral of_nat_power)
  then have "uint (word_of_int b :: 'w word) = b"
    by (intro uint_of_int_small [of _ "LENGTH('w)"]) (use assms(1) l in linarith)+
  then have "unat (word_of_int b :: 'w word) = nat b" by (simp only: unat_eq_nat_uint)
  then show ?thesis using assms(1) l by (simp add: shamt_def nat_less_iff)
qed

lemma int_less_half: "b < int n \<Longrightarrow> 0 < n \<Longrightarrow> b < 2 ^ (n - 1)"
proof -
  assume b: "b < int n" and "0 < n"
  then have "int n \<le> 2 ^ (n - 1)" by (metis Suc_leI Suc_pred' less_exp of_nat_le_iff of_nat_numeral of_nat_power)
  with b show ?thesis by linarith
qed

lemma shamt_normal:
  assumes "0 \<le> b" "b < int n" "0 < n" "n \<le> LENGTH('w)"
  shows "shamt (normal sgnd n b :: 'w :: len word) = nat b"
  using assms int_less_half [OF assms(2,3)] by (simp add: normal_def signed_of_small shamt_of_int)

lemma uint_push: "uint (push_bit k (x :: 'w :: len word)) = (uint x * 2 ^ k) mod 2 ^ LENGTH('w)"
proof -
  have "uint (push_bit k x) = take_bit LENGTH('w) (push_bit k (uint x))" by (rule unsigned_push_bit_eq)
  then show ?thesis by (simp only: push_bit_eq_mult take_bit_eq_mod)
qed

lemma uint_drop: "uint (drop_bit k (x :: 'w :: len word)) = uint x div 2 ^ k"
proof -
  have "uint (drop_bit k x) = drop_bit k (take_bit LENGTH('w) (uint x))" by (rule unsigned_drop_bit_eq)
  also have "take_bit LENGTH('w) (uint x) = uint x" using uint_lt2p [of x] by (simp add: take_bit_int_eq_self)
  finally show ?thesis by (simp only: drop_bit_eq_div)
qed

lemma mod_pow_cancel: "n \<le> k \<Longrightarrow> (z :: int) mod 2 ^ k mod 2 ^ n = z mod 2 ^ n"
  by (simp add: mod_mod_cancel le_imp_power_dvd)

lemma normal_zero_iff:
  assumes "0 \<le> x" "x < 2 ^ n" "0 < n" "n \<le> LENGTH('w)"
  shows "(normal sgnd n x :: 'w :: len word) = 0 \<longleftrightarrow> x = 0"
proof
  assume "(normal sgnd n x :: 'w word) = 0"
  then have "uint (normal sgnd n x :: 'w word) mod 2 ^ n = 0" by simp
  with normal_mod [OF assms(3,4), of sgnd x] assms(1,2) show "x = 0" by simp
qed (simp add: normal_def)

lemma word_op_correct:
  fixes X Y :: "'w :: len word"
  assumes n: "0 < n" "n \<le> LENGTH('w)" and a: "0 \<le> a" "a < 2 ^ n" and b: "0 \<le> b" "b < 2 ^ n"
    and v: "binary_val op n a b = Some v"
    and X: "X = normal (binary_operands_are_signed op) n a" and Y: "Y = normal (binary_operands_are_signed op) n b"
  shows "uint (word_op op X Y) mod 2 ^ n = v"
proof (cases op)
  case Add
  with v X Y n show ?thesis by (auto simp: normal_def binary_operands_are_signed_def uint_arith_mod)
next
  case Sub
  with v X Y n show ?thesis by (auto simp: normal_def binary_operands_are_signed_def uint_arith_mod)
next
  case Mul
  with v X Y n show ?thesis by (auto simp: normal_def binary_operands_are_signed_def uint_arith_mod)
next
  case UDiv
  have u: "uint X = a" "uint Y = b" using X Y a b n UDiv by (simp_all add: binary_operands_are_signed_def uint_normal)
  from v UDiv have "b \<noteq> 0" "v = a div b" by (simp_all split: if_splits)
  moreover have "Y \<noteq> 0" using u(2) \<open>b \<noteq> 0\<close> by auto
  moreover have "a div b < 2 ^ n" using a b \<open>b \<noteq> 0\<close> zdiv_mono2 [of a 1 b] by simp
  ultimately show ?thesis using UDiv u a b by (simp add: rv_divu_def uint_div pos_imp_zdiv_nonneg_iff)
next
  case URem
  have u: "uint X = a" "uint Y = b" using X Y a b n URem by (simp_all add: binary_operands_are_signed_def uint_normal)
  from v URem have "b \<noteq> 0" "v = a mod b" by (simp_all split: if_splits)
  moreover have "Y \<noteq> 0" using u(2) \<open>b \<noteq> 0\<close> by auto
  moreover have "0 \<le> a mod b" "a mod b < 2 ^ n" using a b \<open>b \<noteq> 0\<close> pos_mod_bound [of b a] by (simp_all del: pos_mod_bound)
  ultimately show ?thesis using URem u by (simp add: rv_remu_def uint_mod)
next
  case SDiv
  have s: "sint X = signed_of n a" "sint Y = signed_of n b"
    using X Y n SDiv by (simp_all add: binary_operands_are_signed_def sint_normal)
  from v SDiv have b0: "b \<noteq> 0" and v': "v = tdiv (signed_of n a) (signed_of n b) mod 2 ^ n"
    by (simp_all split: if_splits)
  have "Y \<noteq> 0" unfolding Y using b0 b n by (simp add: normal_zero_iff)
  with s n show ?thesis by (simp add: SDiv rv_div_def uint_of_int_mod v')
next
  case SRem
  have s: "sint X = signed_of n a" "sint Y = signed_of n b"
    using X Y n SRem by (simp_all add: binary_operands_are_signed_def sint_normal)
  from v SRem have b0: "b \<noteq> 0" and v': "v = trem (signed_of n a) (signed_of n b) mod 2 ^ n"
    by (simp_all split: if_splits)
  have "Y \<noteq> 0" unfolding Y using b0 b n by (simp add: normal_zero_iff)
  with s n show ?thesis by (simp add: SRem rv_rem_def uint_of_int_mod v')
next
  case Shl
  from v Shl have lt: "b < int n" and v': "v = (a * 2 ^ nat b) mod 2 ^ n" by (simp_all split: if_splits)
  have u: "uint X = a" using X a n Shl by (simp add: binary_operands_are_signed_def uint_normal)
  show ?thesis unfolding Shl word_op.simps rv_sll_def Y shamt_normal [OF b(1) lt n] uint_push u v'
    by (rule mod_pow_cancel [OF n(2)])
next
  case LShr
  from v LShr have lt: "b < int n" and v': "v = a div 2 ^ nat b" by (simp_all split: if_splits)
  have u: "uint X = a" using X a n LShr by (simp add: binary_operands_are_signed_def uint_normal)
  have "a div 2 ^ nat b \<le> a" using zdiv_mono2 [of a 1 "2 ^ nat b"] a by simp
  then have "a div 2 ^ nat b < 2 ^ n" using a by linarith
  then show ?thesis unfolding LShr word_op.simps rv_srl_def Y shamt_normal [OF b(1) lt n] uint_drop u v'
    using a by (simp add: pos_imp_zdiv_nonneg_iff)
next
  case AShr
  from v AShr have lt: "b < int n" and v': "v = (signed_of n a div 2 ^ nat b) mod 2 ^ n" by (simp_all split: if_splits)
  have s: "sint X = signed_of n a" using X n AShr by (simp add: binary_operands_are_signed_def sint_normal)
  show ?thesis unfolding AShr word_op.simps rv_sra_def Y shamt_normal [OF b(1) lt n] s v'
    by (rule uint_of_int_mod [OF n(2)])
next
  case BitAnd
  have u: "uint X = a" "uint Y = b" using X Y a b n BitAnd by (simp_all add: binary_operands_are_signed_def uint_normal)
  have "take_bit n (a AND b) = a AND b" using a b by (simp add: take_bit_and take_bit_int_eq_self)
  with v BitAnd u show ?thesis by (auto simp: uint_and take_bit_eq_mod)
next
  case BitOr
  have u: "uint X = a" "uint Y = b" using X Y a b n BitOr by (simp_all add: binary_operands_are_signed_def uint_normal)
  have "take_bit n (a OR b) = a OR b" using a b by (simp add: take_bit_or take_bit_int_eq_self)
  with v BitOr u show ?thesis by (auto simp: uint_or take_bit_eq_mod)
next
  case BitXor
  have u: "uint X = a" "uint Y = b" using X Y a b n BitXor by (simp_all add: binary_operands_are_signed_def uint_normal)
  have "take_bit n (a XOR b) = a XOR b" using a b by (simp add: take_bit_xor take_bit_int_eq_self)
  with v BitXor u show ?thesis by (auto simp: uint_xor take_bit_eq_mod)
qed

text \<open>The reading of a defined operation is in range.\<close>

lemma binary_val_range:
  assumes n: "0 < n" "n \<le> LENGTH('w :: len)" and ab: "0 \<le> a" "a < 2 ^ n" "0 \<le> b" "b < 2 ^ n"
    and v: "binary_val op n a b = Some v"
  shows "0 \<le> v \<and> v < 2 ^ n"
proof -
  let ?s = "binary_operands_are_signed op"
  have "uint (word_op op (normal ?s n a) (normal ?s n b :: 'w word)) mod 2 ^ n = v"
    by (rule word_op_correct [OF n ab v refl refl])
  then show ?thesis by auto
qed

section \<open>The 32-bit forms\<close>

lemma w_op_of_int:
  assumes "uint x mod 2 ^ 32 = a" "uint y mod 2 ^ 32 = b"
  shows "w_op f x (y :: 'w :: len word) = word_of_int (sint (f (word_of_int a :: 32 word) (word_of_int b)))"
proof -
  have "(word_of_int (z mod 2 ^ 32) :: 32 word) = word_of_int z" for z
    by (simp add: word_of_int_eq_iff take_bit_eq_mod)
  then show ?thesis unfolding w_op_def assms [symmetric] by simp
qed

lemma narrow_op_correct:
  fixes x y :: "'w :: len word"
  assumes x: "uint x mod 2 ^ 32 = a" and y: "uint y mod 2 ^ 32 = b" and v: "binary_val op 32 a b = Some v"
  shows "w_op (word_op op) x y = normal True 32 v"
proof -
  have a: "0 \<le> a" "a < 2 ^ 32" and b: "0 \<le> b" "b < 2 ^ 32" using x y by auto
  let ?r = "word_op op (word_of_int a :: 32 word) (word_of_int b)"
  have full: "(word_of_int z :: 32 word) = normal sgnd 32 z" for z sgnd
    using normal_full [where 'w = 32] by simp
  have "uint ?r mod 2 ^ 32 = v"
    by (rule word_op_correct [of 32 a b op v]) (use a b v full in auto)
  then have "?r = normal True 32 v" using word_normal_full [of ?r v True] by simp
  then have "sint ?r = signed_of 32 v" using sint_normal [of 32 v, where 'w = 32] by simp
  with w_op_of_int [OF x y, of "word_op op"] show ?thesis by (simp add: normal_def)
qed

section \<open>Shifts by a constant\<close>

lemma simm_of_nat: "k < 2 ^ 31 \<Longrightarrow> simm (word_of_nat k) = word_of_int (int k)"
  using simm_of_int [of "int k"] by (simp add: i32_range_def)

lemma sint_of_nat: "k < 2 ^ 31 \<Longrightarrow> sint (word_of_nat k :: i32) = int k"
  using sint_of_int [of "int k"] by (simp add: i32_range_def)

lemma shift_by:
  fixes x :: "'w :: len word"
  assumes "k < LENGTH('w)" "k < 2 ^ 31"
  shows "rv_sll x (simm (word_of_nat k)) = push_bit k x"
    "rv_srl x (simm (word_of_nat k)) = drop_bit k x"
    "rv_sra x (simm (word_of_nat k)) = word_of_int (sint x div 2 ^ k)"
proof -
  have "shamt (word_of_int (int k) :: 'w word) = k"
    using shamt_of_int [of "int k" "LENGTH('w)", where 'w = 'w] assms(1) by simp
  then have "shamt (simm (word_of_nat k) :: 'w word) = k" unfolding simm_of_nat [OF assms(2)] .
  then show "rv_sll x (simm (word_of_nat k)) = push_bit k x"
    "rv_srl x (simm (word_of_nat k)) = drop_bit k x"
    "rv_sra x (simm (word_of_nat k)) = word_of_int (sint x div 2 ^ k)"
    by (simp_all add: rv_sll_def rv_srl_def rv_sra_def)
qed

text \<open>The two sequences that bring a value to a width.\<close>

lemma mask_shifts:
  assumes "0 < n" "n < LENGTH('w)"
  shows "drop_bit (LENGTH('w) - n) (push_bit (LENGTH('w) - n) (x :: 'w :: len word)) =
    normal False n (uint x mod 2 ^ n)"
proof (rule word_uint_eqI)
  let ?s = "LENGTH('w) - n"
  have l: "(2 :: int) ^ LENGTH('w) = 2 ^ n * 2 ^ ?s" using assms by (simp flip: power_add)
  have "uint (drop_bit ?s (push_bit ?s x)) = (uint x * 2 ^ ?s) mod (2 ^ n * 2 ^ ?s) div 2 ^ ?s"
    by (simp only: uint_drop uint_push l)
  also have "\<dots> = uint x mod 2 ^ n" by (simp only: mod_mult_mult2) simp
  also have "\<dots> = uint (normal False n (uint x mod 2 ^ n) :: 'w word)"
    by (rule uint_normal [symmetric]) (use assms in simp_all)
  finally show "uint (drop_bit ?s (push_bit ?s x)) = uint (normal False n (uint x mod 2 ^ n) :: 'w word)" .
qed

lemma mod_eq_word:
  assumes "a mod 2 ^ LENGTH('w) = b mod 2 ^ LENGTH('w)"
  shows "(word_of_int a :: 'w :: len word) = word_of_int b"
  using assms by (simp add: word_of_int_eq_iff take_bit_eq_mod)

lemma sign_shifts:
  fixes x :: "'w :: len word"
  assumes "0 < n" "n < LENGTH('w)"
  shows "word_of_int (sint (push_bit (LENGTH('w) - n) x) div 2 ^ (LENGTH('w) - n)) =
    (normal True n (uint x mod 2 ^ n) :: 'w word)"
proof -
  let ?s = "LENGTH('w) - n" and ?z = "signed_of n (uint x)"
  have l: "(2 :: int) ^ LENGTH('w) = 2 ^ n * 2 ^ ?s" "(2 :: int) ^ (LENGTH('w) - 1) = 2 ^ (n - 1) * 2 ^ ?s"
    using assms by (simp_all flip: power_add)
  have "(uint x * 2 ^ ?s) mod 2 ^ LENGTH('w) = (?z * 2 ^ ?s) mod 2 ^ LENGTH('w)"
    unfolding l(1) mod_mult_mult2 using signed_of_mod [OF assms(1), of "uint x"] by simp
  then have "(word_of_int (uint x * 2 ^ ?s) :: 'w word) = word_of_int (?z * 2 ^ ?s)" by (rule mod_eq_word)
  moreover have "push_bit ?s x = word_of_int (uint x * 2 ^ ?s)"
    by (rule word_uint_eqI) (simp only: uint_push uint_word_of_int)
  ultimately have "push_bit ?s x = word_of_int (?z * 2 ^ ?s)" by (simp only:)
  moreover have "sint (word_of_int (?z * 2 ^ ?s) :: 'w word) = ?z * 2 ^ ?s"
  proof (rule sint_of_int_range)
    note r = signed_of_range [OF assms(1), of "uint x"]
    have "- (2 ^ (n - 1)) * 2 ^ ?s \<le> ?z * 2 ^ ?s" by (rule mult_right_mono) (use r in auto)
    then show "- (2 ^ (LENGTH('w) - 1)) \<le> ?z * 2 ^ ?s" unfolding l(2) by linarith
    have "?z * 2 ^ ?s < 2 ^ (n - 1) * 2 ^ ?s" by (rule mult_strict_right_mono) (use r in auto)
    then show "?z * 2 ^ ?s < 2 ^ (LENGTH('w) - 1)" by (simp only: l(2))
  qed simp
  ultimately show ?thesis using signed_of_mod_arg [OF assms(1), of "uint x"] by (simp add: normal_def)
qed

text \<open>\<open>x AND mask\<close>.\<close>

lemma and_mask_normal:
  assumes "0 < n" "n < LENGTH('w)"
  shows "(x :: 'w :: len word) AND mask n = normal False n (uint x mod 2 ^ n)"
proof (rule word_uint_eqI)
  have "x AND mask n = take_bit n x" by (rule take_bit_eq_mask [symmetric])
  moreover have "uint (take_bit n x) = take_bit n (uint x)" by (rule unsigned_take_bit_eq)
  ultimately have "uint (x AND mask n) = uint x mod 2 ^ n" by (simp only: take_bit_eq_mod)
  also have "\<dots> = uint (normal False n (uint x mod 2 ^ n) :: 'w word)"
    by (rule uint_normal [symmetric]) (use assms in simp_all)
  finally show "uint (x AND mask n) = uint (normal False n (uint x mod 2 ^ n) :: 'w word)" .
qed

lemma mask_of_int: "(mask n :: 'w :: len word) = word_of_int (2 ^ n - 1)"
  by (simp add: mask_eq_exp_minus_1)

lemma uint_mask_u64:
  assumes "n < 64"
  shows "uint (push_bit n (1 :: u64) - 1) = 2 ^ n - 1"
proof -
  have "(2 :: int) ^ n < 2 ^ 64" by (rule power_strict_increasing) (use assms in simp_all)
  then show ?thesis unfolding mask_eq_push_bit_minus_1 mask_of_int
    by (intro uint_of_int_small [of _ 64]) simp_all
qed

lemma simm_mask:
  assumes "n < 32"
  shows "simm (ucast (push_bit n (1 :: u64) - 1)) = mask n"
proof -
  have p: "(2 :: int) ^ n \<le> 2 ^ 31" by (rule power_increasing) (use assms in simp_all)
  have p0: "(0 :: int) < 2 ^ n" by simp
  have "(ucast (push_bit n (1 :: u64) - 1) :: i32) = word_of_int (2 ^ n - 1)"
    unfolding ucast_eq using assms by (simp only: uint_mask_u64)
  moreover have "simm (word_of_int (2 ^ n - 1)) = (word_of_int (2 ^ n - 1) :: 'w :: len word)"
    by (rule simm_of_int) (use p p0 in \<open>simp add: i32_range_def; linarith\<close>)
  ultimately show ?thesis unfolding mask_of_int by simp
qed

lemma mask_bounds:
  assumes "n < 64"
  shows "push_bit n (1 :: u64) - 1 \<le> 0x7ff \<longleftrightarrow> n \<le> 11" "push_bit n (1 :: u64) - 1 \<le> 0x7fffffff \<longleftrightarrow> n \<le> 31"
proof -
  have "(2 :: int) ^ n \<le> 2 ^ k \<longleftrightarrow> n \<le> k" for k by simp
  from this [of 11] this [of 31] show "push_bit n (1 :: u64) - 1 \<le> 0x7ff \<longleftrightarrow> n \<le> 11"
    "push_bit n (1 :: u64) - 1 \<le> 0x7fffffff \<longleftrightarrow> n \<le> 31"
    unfolding word_le_def uint_mask_u64 [OF assms] by simp_all
qed

section \<open>Powers of two\<close>

lemma tdiv_bias:
  "tdiv a (2 ^ k) = (a + (if a < 0 then 2 ^ k - 1 else 0)) div 2 ^ k"
proof (cases "a < 0")
  case True
  define q where "q = - a div 2 ^ k"
  define r where "r = - a mod 2 ^ k"
  have a: "a = - q * 2 ^ k - r" unfolding q_def r_def using div_mult_mod_eq [of "- a" "2 ^ k"] by linarith
  have r: "0 \<le> r" "r < 2 ^ k" unfolding r_def by simp_all
  have "a + (2 ^ k - 1) = (2 ^ k - 1 - r) + - q * 2 ^ k" unfolding a by simp
  also have "\<dots> div 2 ^ k = - q" using r by (simp only: div_mult_self1) simp
  finally show ?thesis using True by (simp add: tdiv_def q_def)
next
  case False
  then show ?thesis by (cases "a = 0") (simp_all add: tdiv_def)
qed

lemma tdiv_minus: "tdiv a (- b) = - tdiv a b"
  by (simp add: tdiv_def)

lemma tdiv_pos_bound: "\<bar>tdiv a (2 ^ k)\<bar> * 2 ^ k \<le> \<bar>a\<bar>"
proof -
  have "\<bar>tdiv a (2 ^ k)\<bar> \<le> \<bar>a\<bar> div 2 ^ k"
    by (cases "a = 0") (auto simp: tdiv_def abs_mult pos_imp_zdiv_nonneg_iff)
  then have "\<bar>tdiv a (2 ^ k)\<bar> * 2 ^ k \<le> \<bar>a\<bar> div 2 ^ k * 2 ^ k" by (rule mult_right_mono) simp
  also have "\<dots> \<le> \<bar>a\<bar>"
  proof -
    have "0 \<le> \<bar>a\<bar> mod 2 ^ k" by (rule pos_mod_sign) simp
    with div_mult_mod_eq [of "\<bar>a\<bar>" "2 ^ k"] show ?thesis by linarith
  qed
  finally show ?thesis .
qed

text \<open>\<open>is_power_of_two\<close> and \<open>trailing_zeros\<close>.\<close>

lemma is_power_of_twoD: "is_power_of_two n \<Longrightarrow> n = 2 ^ trailing_zeros n"
  by (simp add: is_power_of_two_def)

lemma power_of_two_i32:
  assumes "is_power_of_two (unsigned_abs imm)"
  shows "\<bar>sint imm\<bar> = 2 ^ trailing_zeros (unsigned_abs imm)" "trailing_zeros (unsigned_abs imm) \<le> 31"
proof -
  let ?k = "trailing_zeros (unsigned_abs imm)"
  have "unsigned_abs imm = 2 ^ ?k" using assms by (rule is_power_of_twoD)
  then show a: "\<bar>sint imm\<bar> = 2 ^ ?k" unfolding unsigned_abs_def
    by (metis abs_ge_zero nat_0_le of_nat_numeral of_nat_power)
  have "\<bar>sint imm\<bar> \<le> 2 ^ 31" using sint_lt [of imm] sint_ge [of imm] by simp
  with a have "(2 :: int) ^ ?k \<le> 2 ^ 31" by simp
  then show "?k \<le> 31" by (rule power_le_imp_le_exp [rotated]) simp
qed

lemma power_of_two_u32:
  assumes "is_power_of_two (unat (imm :: 32 word))"
  shows "uint imm = 2 ^ trailing_zeros (unat imm)" "trailing_zeros (unat imm) \<le> 31"
proof -
  let ?k = "trailing_zeros (unat imm)"
  have "unat imm = 2 ^ ?k" using assms by (rule is_power_of_twoD)
  then show a: "uint imm = 2 ^ ?k" by (metis of_nat_numeral of_nat_power uint_nat)
  have "uint imm < 2 ^ 32" using uint_lt2p [of imm] by simp
  with a have "(2 :: int) ^ ?k < 2 ^ 32" by simp
  then have "?k < 32" by (rule power_less_imp_less_exp [rotated]) simp
  then show "?k \<le> 31" by simp
qed

end
