(* ===== verification/Lower_Sem.thy ===== *)
theory Lower_Sem
  imports Lower_Words
begin

text \<open>
  What the emitting routines of \<open>src/src/mir/lower.rs\<close> compute.  \<open>emits\<close> relates the lowering states
  before and after a routine: the code appended in between runs from every machine state, changes
  only the registers named and the virtual registers taken on the way, and establishes a relation
  between the machine states.  The locale \<open>scalar_machine\<close> extends the interface of the emit methods
  by the register width; the two targets interpret it at the end.
\<close>

unbundle bit_operations_syntax

section \<open>Emitted code\<close>

definition next_vreg :: "('r, 'i) lower_state \<Rightarrow> nat" where
  "next_vreg s = vreg_counter (ls_mf s)"

definition bump :: "('r, 'i) lower_state \<Rightarrow> ('r, 'i) lower_state" where
  "bump s = s\<lparr>ls_mf := (ls_mf s)\<lparr>vreg_counter := Suc (next_vreg s)\<rparr>\<rparr>"

lemma fresh_reg_bump: "fresh_reg s = (Virtual (next_vreg s), bump s)"
  by (simp add: fresh_reg_def new_vreg_def bump_def next_vreg_def)

lemma next_vreg_simps [simp]:
  "next_vreg (bump s) = Suc (next_vreg s)" "next_vreg (push_inst i s) = next_vreg s"
  by (simp_all add: next_vreg_def bump_def push_inst_def)

definition fresh_regs :: "('r, 'i) lower_state \<Rightarrow> ('r, 'i) lower_state \<Rightarrow> 'r register set" where
  "fresh_regs s s' = Virtual ` {next_vreg s..<next_vreg s'}"

lemma Virtual_fresh_regs [simp]: "Virtual v \<in> fresh_regs s s' \<longleftrightarrow> next_vreg s \<le> v \<and> v < next_vreg s'"
  by (auto simp: fresh_regs_def)

lemma Physical_fresh_regs [simp]: "Physical p \<notin> fresh_regs s s'"
  by (auto simp: fresh_regs_def)

text \<open>A register the state already knows.\<close>

definition old_reg :: "('r, 'i) lower_state \<Rightarrow> 'r register \<Rightarrow> bool" where
  "old_reg s r \<longleftrightarrow> (case r of Virtual v \<Rightarrow> v < next_vreg s | Physical _ \<Rightarrow> True)"

lemma old_reg_simps [simp]:
  "old_reg s (Physical p)" "old_reg s (Virtual v) \<longleftrightarrow> v < next_vreg s"
  "old_reg (push_inst i s) r \<longleftrightarrow> old_reg s r"
  by (simp_all add: old_reg_def split: register.splits)

lemma old_reg_neq: "old_reg s r \<Longrightarrow> next_vreg s \<le> v \<Longrightarrow> r \<noteq> Virtual v"
  by (auto simp: old_reg_def)

lemma old_reg_not_fresh: "old_reg s r \<Longrightarrow> r \<notin> fresh_regs s s'"
  by (cases r) auto

definition only_vregs :: "('r, 'i) lower_state \<Rightarrow> ('r, 'i) lower_state \<Rightarrow> bool" where
  "only_vregs s s' \<longleftrightarrow> ls_fn s' = ls_fn s \<and> ls_mm s' = ls_mm s \<and>
     (\<exists>k. next_vreg s \<le> k \<and> ls_mf s' = (ls_mf s)\<lparr>vreg_counter := k\<rparr>)"

lemma only_vregs_refl [simp]: "only_vregs s s"
  unfolding only_vregs_def next_vreg_def by (intro conjI refl exI [of _ "vreg_counter (ls_mf s)"]) simp_all

lemma only_vregs_le: "only_vregs s s' \<Longrightarrow> next_vreg s \<le> next_vreg s'"
  by (auto simp: only_vregs_def next_vreg_def)

lemma only_vregsI:
  "ls_fn s' = ls_fn s \<Longrightarrow> ls_mm s' = ls_mm s \<Longrightarrow> next_vreg s \<le> k \<Longrightarrow>
     ls_mf s' = (ls_mf s)\<lparr>vreg_counter := k\<rparr> \<Longrightarrow> only_vregs s s'"
  unfolding only_vregs_def by blast

lemma only_vregsE:
  assumes "only_vregs s s'"
  obtains k where "ls_fn s' = ls_fn s" "ls_mm s' = ls_mm s" "next_vreg s \<le> k" "next_vreg s' = k"
    "ls_mf s' = (ls_mf s)\<lparr>vreg_counter := k\<rparr>"
proof -
  from assms obtain k where k: "ls_fn s' = ls_fn s" "ls_mm s' = ls_mm s" "next_vreg s \<le> k"
    "ls_mf s' = (ls_mf s)\<lparr>vreg_counter := k\<rparr>" unfolding only_vregs_def by blast
  with that [of k] show thesis by (simp add: next_vreg_def)
qed

lemma only_vregs_trans: "only_vregs s s1 \<Longrightarrow> only_vregs s1 s2 \<Longrightarrow> only_vregs s s2"
proof -
  assume "only_vregs s s1" "only_vregs s1 s2"
  from this(1) obtain k1 where k1: "ls_fn s1 = ls_fn s" "ls_mm s1 = ls_mm s" "next_vreg s \<le> k1" "next_vreg s1 = k1"
    "ls_mf s1 = (ls_mf s)\<lparr>vreg_counter := k1\<rparr>" by (rule only_vregsE)
  from \<open>only_vregs s1 s2\<close> obtain k2 where k2: "ls_fn s2 = ls_fn s1" "ls_mm s2 = ls_mm s1" "next_vreg s1 \<le> k2"
    "ls_mf s2 = (ls_mf s1)\<lparr>vreg_counter := k2\<rparr>" by (rule only_vregsE) blast
  show ?thesis by (rule only_vregsI [of s2 s k2]) (use k1 k2 in simp_all)
qed

lemma only_vregs_push: "only_vregs s s1 \<Longrightarrow> only_vregs s (push_inst i s1)"
  by (auto simp: only_vregs_def push_inst_def)

lemma only_vregs_bump: "only_vregs s s1 \<Longrightarrow> only_vregs s (bump s1)"
proof -
  have "only_vregs s1 (bump s1)" by (rule only_vregsI [of _ _ "Suc (next_vreg s1)"]) (simp_all add: bump_def)
  then show "only_vregs s s1 \<Longrightarrow> only_vregs s (bump s1)" by (rule only_vregs_trans [rotated])
qed

lemmas only_vregs_step = only_vregs_push only_vregs_bump

lemma old_reg_mono: "old_reg s r \<Longrightarrow> only_vregs s s' \<Longrightarrow> old_reg s' r"
  using only_vregs_le [of s s'] by (auto simp: old_reg_def split: register.splits)

text \<open>The code of a routine as a function on machine states, and the relation that is used outside.\<close>

definition runs_as ::
  "('i \<Rightarrow> 'st \<Rightarrow> 'st option) \<Rightarrow> ('r, 'i) lower_state \<Rightarrow> ('r, 'i) lower_state \<Rightarrow> ('st \<Rightarrow> 'st) \<Rightarrow> bool" where
  "runs_as exec s s' f \<longleftrightarrow> only_vregs s s' \<and>
     (\<exists>code. ls_out s' = ls_out s @ code \<and> (\<forall>st. exec_all exec code st = Some (f st)))"

lemma runs_as_refl: "runs_as exec s s (\<lambda>st. st)"
  by (simp add: runs_as_def)

lemma runs_as_bump: "runs_as exec s s1 f \<Longrightarrow> runs_as exec s (bump s1) f"
  by (auto simp: runs_as_def only_vregs_step) (simp add: bump_def)

lemma runs_as_push:
  assumes r: "runs_as exec s s1 f" and x: "\<And>st. exec i st = Some (g st)"
  shows "runs_as exec s (push_inst i s1) (\<lambda>st. g (f st))"
proof -
  from r obtain code where c: "only_vregs s s1" "ls_out s1 = ls_out s @ code"
    "\<And>st. exec_all exec code st = Some (f st)" by (auto simp: runs_as_def)
  then have "ls_out (push_inst i s1) = ls_out s @ (code @ [i])" by (simp add: push_inst_def)
  moreover have "exec_all exec (code @ [i]) st = Some (g (f st))" for st
    by (simp add: exec_all_append c(3) x)
  ultimately show ?thesis using c(1) unfolding runs_as_def by (blast intro: only_vregs_step)
qed

lemmas runs_as_intros = runs_as_push runs_as_bump runs_as_refl

definition emits ::
  "('i \<Rightarrow> ('r, 'v) mstate \<Rightarrow> ('r, 'v) mstate option) \<Rightarrow> 'r register set \<Rightarrow> ('r, 'i) lower_state \<Rightarrow>
     ('r, 'i) lower_state \<Rightarrow> (('r, 'v) mstate \<Rightarrow> ('r, 'v) mstate \<Rightarrow> bool) \<Rightarrow> bool" where
  "emits exec W s s' P \<longleftrightarrow> only_vregs s s' \<and>
     (\<exists>code. ls_out s' = ls_out s @ code \<and>
        (\<forall>st. \<exists>st'. exec_all exec code st = Some st' \<and> agree_except (W \<union> fresh_regs s s') st st' \<and> P st st'))"

lemma emits_runs:
  assumes "runs_as exec s s' f"
    and "\<And>st. agree_except (W \<union> fresh_regs s s') st (f st)" and "\<And>st. P st (f st)"
  shows "emits exec W s s' P"
  using assms unfolding runs_as_def emits_def by fastforce

lemma emits_refl: "(\<And>st. P st st) \<Longrightarrow> emits exec W s s P"
  by (rule emits_runs [OF runs_as_refl]) simp_all

lemma emits_only_vregs: "emits exec W s s' P \<Longrightarrow> only_vregs s s'"
  by (simp add: emits_def)

lemma emits_mono:
  assumes "emits exec W s s' P" "W \<subseteq> W'" "\<And>st st'. agree_except (W \<union> fresh_regs s s') st st' \<Longrightarrow> P st st' \<Longrightarrow> Q st st'"
  shows "emits exec W' s s' Q"
proof -
  have "agree_except (W' \<union> fresh_regs s s') st st'" if "agree_except (W \<union> fresh_regs s s') st st'" for st st'
    by (rule agree_except_mono [OF that]) (use assms(2) in blast)
  with assms show ?thesis unfolding emits_def by meson
qed

lemma fresh_regs_trans:
  "only_vregs s s1 \<Longrightarrow> only_vregs s1 s2 \<Longrightarrow> fresh_regs s s2 = fresh_regs s s1 \<union> fresh_regs s1 s2"
  using only_vregs_le [of s s1] only_vregs_le [of s1 s2] by (force simp: fresh_regs_def)

lemma emits_seq:
  assumes e1: "emits exec W s s1 P" and e2: "emits exec W s1 s2 Q"
    and R: "\<And>st st1 st2. P st st1 \<Longrightarrow> Q st1 st2 \<Longrightarrow> agree_except (W \<union> fresh_regs s s1) st st1 \<Longrightarrow>
      agree_except (W \<union> fresh_regs s1 s2) st1 st2 \<Longrightarrow> R st st2"
  shows "emits exec W s s2 R"
proof -
  from e1 obtain c1 where c1: "only_vregs s s1" "ls_out s1 = ls_out s @ c1"
    "\<And>st. \<exists>st1. exec_all exec c1 st = Some st1 \<and> agree_except (W \<union> fresh_regs s s1) st st1 \<and> P st st1"
    unfolding emits_def by blast
  from e2 obtain c2 where c2: "only_vregs s1 s2" "ls_out s2 = ls_out s1 @ c2"
    "\<And>st. \<exists>st2. exec_all exec c2 st = Some st2 \<and> agree_except (W \<union> fresh_regs s1 s2) st st2 \<and> Q st st2"
    unfolding emits_def by blast
  have "\<exists>st2. exec_all exec (c1 @ c2) st = Some st2 \<and> agree_except (W \<union> fresh_regs s s2) st st2 \<and> R st st2" for st
  proof -
    obtain st1 where st1: "exec_all exec c1 st = Some st1" "agree_except (W \<union> fresh_regs s s1) st st1" "P st st1"
      using c1(3) by blast
    obtain st2 where st2: "exec_all exec c2 st1 = Some st2" "agree_except (W \<union> fresh_regs s1 s2) st1 st2" "Q st1 st2"
      using c2(3) by blast
    have "agree_except (W \<union> fresh_regs s s2) st st1" "agree_except (W \<union> fresh_regs s s2) st1 st2"
      by (rule agree_except_mono [OF st1(2)] agree_except_mono [OF st2(2)],
          use fresh_regs_trans [OF c1(1) c2(1)] in blast)+
    with st1 st2 R [OF st1(3) st2(3) st1(2) st2(2)] show ?thesis
      by (auto simp: exec_all_append intro: agree_except_trans)
  qed
  moreover have "ls_out s2 = ls_out s @ (c1 @ c2)" using c1(2) c2(2) by simp
  ultimately show ?thesis unfolding emits_def using only_vregs_trans [OF c1(1) c2(1)] by blast
qed

text \<open>A register taken before the code may be written by it.\<close>

lemma emits_bump:
  assumes e: "emits exec W (bump s) s' P" and W: "W \<subseteq> insert (Virtual (next_vreg s)) W'"
  shows "emits exec W' s s' P"
proof -
  from e obtain code where c: "only_vregs (bump s) s'" "ls_out s' = ls_out (bump s) @ code"
    "\<And>st. \<exists>st'. exec_all exec code st = Some st' \<and> agree_except (W \<union> fresh_regs (bump s) s') st st' \<and> P st st'"
    unfolding emits_def by blast
  have b: "only_vregs s (bump s)" by (rule only_vregs_bump) simp
  have "W \<union> fresh_regs (bump s) s' \<subseteq> W' \<union> fresh_regs s s'"
    using W only_vregs_le [OF c(1)] by (force simp: fresh_regs_def)
  with c(3) have "\<exists>st'. exec_all exec code st = Some st' \<and> agree_except (W' \<union> fresh_regs s s') st st' \<and> P st st'" for st
    by (meson agree_except_mono)
  with c(2) only_vregs_trans [OF b c(1)] show ?thesis unfolding emits_def by (auto simp: bump_def)
qed

lemma agree_except_putI:
  "agree_except rs st st' \<Longrightarrow> r \<in> rs \<Longrightarrow> agree_except rs st (put_reg zero r v st')"
  by (rule agree_except_put)

section \<open>The machine\<close>

locale scalar_machine = alu_machine T exec taken
  for T :: "('r, 'i, 'z) lowering_target_scheme"
    and exec :: "'i \<Rightarrow> ('r, 'w :: len word) mstate \<Rightarrow> ('r, 'w word) mstate option"
    and taken :: "'i \<Rightarrow> ('r, 'w word) mstate \<Rightarrow> bool option" +
  assumes xlen: "LENGTH('w) = 32 \<or> LENGTH('w) = 64"
    and shift_bits: "2 ^ SHIFT_AMT_BITS T = LENGTH('w)"
begin

lemma reg_bits_xlen: "reg_bits T = LENGTH('w)" "WORD_SIZE T = 8 \<longleftrightarrow> LENGTH('w) = 64"
  using width xlen by (auto simp: reg_bits_def)

lemma xlen_bound: "LENGTH('w) \<le> 64" "LENGTH('w) < 2 ^ 31"
  using xlen by auto

lemma narrow_iff: "narrow T n \<longleftrightarrow> n = 32 \<and> LENGTH('w) = 64"
  by (simp add: narrow_def reg_bits_xlen)

text \<open>The emit methods as functions on states.\<close>

lemma run_op3:
  "exec (emit_add T rd a b) st = Some (put_reg (zero_reg T) rd (get_reg (zero_reg T) st a + get_reg (zero_reg T) st b) st)"
  "exec (emit_sub T rd a b) st = Some (put_reg (zero_reg T) rd (get_reg (zero_reg T) st a - get_reg (zero_reg T) st b) st)"
  "exec (emit_xor T rd a b) st = Some (put_reg (zero_reg T) rd (get_reg (zero_reg T) st a XOR get_reg (zero_reg T) st b) st)"
  "exec (emit_or T rd a b) st = Some (put_reg (zero_reg T) rd (get_reg (zero_reg T) st a OR get_reg (zero_reg T) st b) st)"
  "exec (emit_and T rd a b) st = Some (put_reg (zero_reg T) rd (get_reg (zero_reg T) st a AND get_reg (zero_reg T) st b) st)"
  "exec (emit_slt T rd a b) st = Some (put_reg (zero_reg T) rd (rv_slt (get_reg (zero_reg T) st a) (get_reg (zero_reg T) st b)) st)"
  "exec (emit_sltu T rd a b) st = Some (put_reg (zero_reg T) rd (rv_sltu (get_reg (zero_reg T) st a) (get_reg (zero_reg T) st b)) st)"
  "exec (mv T rd a) st = Some (put_reg (zero_reg T) rd (get_reg (zero_reg T) st a) st)"
  "exec (load_imm T rd imm) st = Some (put_reg (zero_reg T) rd (simm imm) st)"
  by (simp_all add: exec_simps step_op3_def)

lemma run_imm:
  assumes "fits12 imm"
  shows "exec (emit_addi T rd a imm) st = Some (put_reg (zero_reg T) rd (get_reg (zero_reg T) st a + simm imm) st)"
    "exec (emit_xori T rd a imm) st = Some (put_reg (zero_reg T) rd (get_reg (zero_reg T) st a XOR simm imm) st)"
    "exec (emit_ori T rd a imm) st = Some (put_reg (zero_reg T) rd (get_reg (zero_reg T) st a OR simm imm) st)"
    "exec (emit_andi T rd a imm) st = Some (put_reg (zero_reg T) rd (get_reg (zero_reg T) st a AND simm imm) st)"
    "exec (emit_sltiu T rd a imm) st = Some (put_reg (zero_reg T) rd (rv_sltu (get_reg (zero_reg T) st a) (simm imm)) st)"
    "exec (emit_addiw T rd a imm) st = Some (put_reg (zero_reg T) rd (w_op (+) (get_reg (zero_reg T) st a) (simm imm)) st)"
  using assms by (simp_all add: exec_simps step_imm_def)

lemma run_shift:
  assumes "k < LENGTH('w)"
  shows "exec (emit_slli T rd a (word_of_nat k)) st = Some (put_reg (zero_reg T) rd (push_bit k (get_reg (zero_reg T) st a)) st)"
    "exec (emit_srli T rd a (word_of_nat k)) st = Some (put_reg (zero_reg T) rd (drop_bit k (get_reg (zero_reg T) st a)) st)"
    "exec (emit_srai T rd a (word_of_nat k)) st =
       Some (put_reg (zero_reg T) rd (word_of_int (sint (get_reg (zero_reg T) st a) div 2 ^ k)) st)"
proof -
  have k: "k < 2 ^ 31" using assms xlen_bound by linarith
  have s: "0 \<le> sint (word_of_nat k :: i32)" "sint (word_of_nat k :: i32) < int LENGTH('w)"
    using assms sint_of_nat [OF k] by simp_all
  show "exec (emit_slli T rd a (word_of_nat k)) st = Some (put_reg (zero_reg T) rd (push_bit k (get_reg (zero_reg T) st a)) st)"
    "exec (emit_srli T rd a (word_of_nat k)) st = Some (put_reg (zero_reg T) rd (drop_bit k (get_reg (zero_reg T) st a)) st)"
    "exec (emit_srai T rd a (word_of_nat k)) st =
       Some (put_reg (zero_reg T) rd (word_of_int (sint (get_reg (zero_reg T) st a) div 2 ^ k)) st)"
    using s shift_by [OF assms k] by (simp_all add: exec_simps step_shift_imm_def)
qed

lemma run_shift_w:
  assumes "k < 32"
  shows "exec (emit_slliw T rd a (word_of_nat k)) st =
      Some (put_reg (zero_reg T) rd (w_op rv_sll (get_reg (zero_reg T) st a) (simm (word_of_nat k))) st)"
    "exec (emit_srliw T rd a (word_of_nat k)) st =
      Some (put_reg (zero_reg T) rd (w_op rv_srl (get_reg (zero_reg T) st a) (simm (word_of_nat k))) st)"
    "exec (emit_sraiw T rd a (word_of_nat k)) st =
      Some (put_reg (zero_reg T) rd (w_op rv_sra (get_reg (zero_reg T) st a) (simm (word_of_nat k))) st)"
  using assms sint_of_nat [of k] by (simp_all add: exec_simps step_shift_imm_def)

section \<open>Normalisation\<close>

lemma fits12_mask: "n \<le> 11 \<Longrightarrow> fits12 (ucast (push_bit n (1 :: u64) - 1))"
proof -
  assume n: "n \<le> 11"
  have p: "(2 :: int) ^ n \<le> 2 ^ 11" "(0 :: int) < 2 ^ n" using power_increasing [OF n, of "2 :: int"] by simp_all
  have "(ucast (push_bit n (1 :: u64) - 1) :: i32) = word_of_int (2 ^ n - 1)"
    unfolding ucast_eq using n by (simp only: uint_mask_u64)
  moreover have "i32_range (2 ^ n - 1)" unfolding i32_range_def using p by (simp, linarith)
  then have "fits12 (word_of_int (2 ^ n - 1))" by (subst fits12_of_int) (use p in \<open>simp_all, linarith\<close>)
  ultimately show ?thesis by (simp only:)
qed

lemma emit_masked_value_correct:
  assumes src: "old_reg s src" and n: "0 < n" "n \<le> LENGTH('w)" and e: "emit_masked_value T src n s = (r, s')"
  shows "emits exec {} s s' (\<lambda>st st'.
      get_reg (zero_reg T) st' r = normal False n (uint (get_reg (zero_reg T) st src) mod 2 ^ n)) \<and> old_reg s' r"
    (is "emits _ _ _ _ ?P \<and> _")
proof (cases "n = LENGTH('w)")
  case True
  then have "r = src" "s' = s" using e by (simp_all add: emit_masked_value_def reg_bits_xlen)
  with src word_normal_full [OF refl, where sgnd = False] True show ?thesis by (auto intro: emits_refl)
next
  case False
  let ?c = "next_vreg s"
  have ne: "src \<noteq> Virtual ?c" "src \<noteq> Virtual (Suc ?c)" using old_reg_neq [OF src] by auto
  have n': "n < LENGTH('w)" and n64: "n < 64" using xlen_bound n False by auto
  note defs = emit_masked_value_def fresh_reg_bump reg_bits_xlen Let_def
  note bounds = mask_bounds [OF n64]
  consider "n \<le> 11" | "11 < n" "n \<le> 31" | "31 < n" by linarith
  then show ?thesis
  proof cases
    case 1
    let ?s = "push_inst (emit_andi T (Virtual ?c) src (ucast (push_bit n (1 :: u64) - 1))) (bump s)"
    have "emit_masked_value T src n s = (Virtual ?c, ?s)"
      unfolding defs bounds using n' 1 by simp
    with e [symmetric] have "(r, s') = (Virtual ?c, ?s)" by (rule trans)
    then have r: "r = Virtual ?c" and s': "s' = ?s" by simp_all
    have "emits exec {} s s' ?P"
      unfolding s' by (rule emits_runs, (rule runs_as_intros run_imm(4) [OF fits12_mask [OF 1]])+)
        (use 1 n n' in \<open>simp_all add: r agree_except_putI simm_mask [unfolded push_bit_of_1] and_mask_normal\<close>)
    then show ?thesis by (simp add: s' r)
  next
    case 2
    let ?s = "push_inst (emit_and T (Virtual ?c) src (Virtual (Suc ?c)))
        (push_inst (load_imm T (Virtual (Suc ?c)) (ucast (push_bit n (1 :: u64) - 1))) (bump (bump s)))"
    have "emit_masked_value T src n s = (Virtual ?c, ?s)"
      unfolding defs bounds using n' 2 by simp
    with e [symmetric] have "(r, s') = (Virtual ?c, ?s)" by (rule trans)
    then have r: "r = Virtual ?c" and s': "s' = ?s" by simp_all
    have "emits exec {} s s' ?P"
      unfolding s' by (rule emits_runs, (rule runs_as_intros run_op3)+)
        (use 2 n n' ne in \<open>simp_all add: r agree_except_putI simm_mask [unfolded push_bit_of_1] and_mask_normal get_put_reg\<close>)
    then show ?thesis by (simp add: s' r)
  next
    case 3
    have k: "LENGTH('w) - n < LENGTH('w)" using n n' by simp
    let ?s = "push_inst (emit_srli T (Virtual ?c) (Virtual ?c) (word_of_nat (LENGTH('w) - n)))
        (push_inst (emit_slli T (Virtual ?c) src (word_of_nat (LENGTH('w) - n))) (bump s))"
    have "emit_masked_value T src n s = (Virtual ?c, ?s)"
      unfolding defs bounds using n' 3 by simp
    with e [symmetric] have "(r, s') = (Virtual ?c, ?s)" by (rule trans)
    then have r: "r = Virtual ?c" and s': "s' = ?s" by simp_all
    have "emits exec {} s s' ?P"
      unfolding s' by (rule emits_runs, (rule runs_as_intros run_shift [OF k])+)
        (use n n' ne in \<open>simp_all add: r agree_except_putI mask_shifts get_put_reg\<close>)
    then show ?thesis by (simp add: s' r)
  qed
qed

lemma emit_sign_extended_value_correct:
  assumes src: "old_reg s src" and n: "0 < n" "n \<le> LENGTH('w)" and e: "emit_sign_extended_value T src n s = (r, s')"
  shows "emits exec {} s s' (\<lambda>st st'.
      get_reg (zero_reg T) st' r = normal True n (uint (get_reg (zero_reg T) st src) mod 2 ^ n)) \<and> old_reg s' r"
    (is "emits _ _ _ _ ?P \<and> _")
proof (cases "n = LENGTH('w)")
  case True
  then have "r = src" "s' = s" using e by (simp_all add: emit_sign_extended_value_def reg_bits_xlen)
  with src word_normal_full [OF refl, where sgnd = True] True show ?thesis by (auto intro: emits_refl)
next
  case False
  let ?c = "next_vreg s"
  have ne: "src \<noteq> Virtual ?c" using old_reg_neq [OF src] by auto
  have n': "n < LENGTH('w)" and k: "LENGTH('w) - n < LENGTH('w)" using n False by auto
  let ?s = "push_inst (emit_srai T (Virtual ?c) (Virtual ?c) (word_of_nat (LENGTH('w) - n)))
      (push_inst (emit_slli T (Virtual ?c) src (word_of_nat (LENGTH('w) - n))) (bump s))"
  have "emit_sign_extended_value T src n s = (Virtual ?c, ?s)"
    unfolding emit_sign_extended_value_def fresh_reg_bump reg_bits_xlen Let_def using n' by simp
  with e [symmetric] have "(r, s') = (Virtual ?c, ?s)" by (rule trans)
    then have r: "r = Virtual ?c" and s': "s' = ?s" by simp_all
  have "emits exec {} s s' ?P"
    unfolding s' by (rule emits_runs, (rule runs_as_intros run_shift [OF k])+)
      (use n n' ne in \<open>simp_all add: r agree_except_putI sign_shifts get_put_reg\<close>)
  then show ?thesis by (simp add: s' r)
qed

lemma emit_normalized_int_value_correct:
  assumes "old_reg s src" "0 < n" "n \<le> LENGTH('w)" "emit_normalized_int_value T src n sgnd s = (r, s')"
  shows "emits exec {} s s' (\<lambda>st st'.
      get_reg (zero_reg T) st' r = normal sgnd n (uint (get_reg (zero_reg T) st src) mod 2 ^ n)) \<and> old_reg s' r"
  using assms emit_masked_value_correct [OF assms(1-3)] emit_sign_extended_value_correct [OF assms(1-3)]
  by (cases sgnd) (simp_all add: emit_normalized_int_value_def)

end

end
