(* ===== verification/Lower_Arith.thy ===== *)
theory Lower_Arith
  imports Lower_Sem
begin

text \<open>
  The arithmetic routines of \<open>src/src/mir/lower.rs\<close> on a \<open>scalar_machine\<close>: copies and constants,
  products, quotients and remainders by a constant, and the comparisons.
\<close>

unbundle bit_operations_syntax

section \<open>Word facts of the constant routines\<close>

lemma reads_simm:
  assumes "n \<le> LENGTH('w)"
  shows "uint (simm imm :: 'w :: len word) mod 2 ^ n = sint imm mod 2 ^ n"
  unfolding simm_def by (rule uint_of_int_mod [OF assms])

lemma uint_times_simm:
  assumes "n \<le> LENGTH('w)"
  shows "uint (x * simm imm :: 'w :: len word) mod 2 ^ n = (uint x mod 2 ^ n * sint imm) mod 2 ^ n"
  using uint_arith_mod(3) [OF assms, of "uint x" "sint imm"] by (simp add: simm_def mod_mult_left_eq)

lemma push_bit_times: "push_bit k (x :: 'w :: len word) = x * word_of_int (2 ^ k)"
  by (simp add: push_bit_eq_mult)

text \<open>A 32-bit shift by a constant.\<close>

lemma w_op_shift:
  fixes x :: "'w :: len word"
  assumes k: "k < 32" and l: "32 \<le> LENGTH('w)"
  shows "w_op rv_sll x (simm (word_of_nat k)) = normal True 32 ((uint x mod 2 ^ 32 * 2 ^ k) mod 2 ^ 32)"
    "w_op rv_srl x (simm (word_of_nat k)) = normal True 32 (uint x mod 2 ^ 32 div 2 ^ k)"
    "w_op rv_sra x (simm (word_of_nat k)) =
       normal True 32 ((signed_of 32 (uint x mod 2 ^ 32) div 2 ^ k) mod 2 ^ 32)"
proof -
  have s: "uint (simm (word_of_nat k) :: 'w word) mod 2 ^ 32 = int k"
    unfolding reads_simm [OF l] using k sint_of_nat [of k] by simp
  have "binary_val Shl 32 (uint x mod 2 ^ 32) (int k) = Some ((uint x mod 2 ^ 32 * 2 ^ k) mod 2 ^ 32)"
    "binary_val LShr 32 (uint x mod 2 ^ 32) (int k) = Some (uint x mod 2 ^ 32 div 2 ^ k)"
    "binary_val AShr 32 (uint x mod 2 ^ 32) (int k) = Some ((signed_of 32 (uint x mod 2 ^ 32) div 2 ^ k) mod 2 ^ 32)"
    using k by simp_all
  from narrow_op_correct [OF refl s this(1)] narrow_op_correct [OF refl s this(2)] narrow_op_correct [OF refl s this(3)]
  show "w_op rv_sll x (simm (word_of_nat k)) = normal True 32 ((uint x mod 2 ^ 32 * 2 ^ k) mod 2 ^ 32)"
    "w_op rv_srl x (simm (word_of_nat k)) = normal True 32 (uint x mod 2 ^ 32 div 2 ^ k)"
    "w_op rv_sra x (simm (word_of_nat k)) = normal True 32 ((signed_of 32 (uint x mod 2 ^ 32) div 2 ^ k) mod 2 ^ 32)"
    by simp_all
qed

lemma simm_power:
  assumes "\<bar>sint imm\<bar> = 2 ^ k"
  shows "simm imm = (if sint imm < 0 then - word_of_int (2 ^ k) else word_of_int (2 ^ k))"
proof (cases "sint imm < 0")
  case True
  then have "sint imm = - (2 ^ k)" using assms by linarith
  then have "simm imm = word_of_int (- (2 ^ k))" unfolding simm_def by (simp only:)
  with True show ?thesis by simp
next
  case False
  then have "sint imm = 2 ^ k" using assms by linarith
  then have "simm imm = word_of_int (2 ^ k)" unfolding simm_def by (simp only:)
  with False show ?thesis by simp
qed

lemma sint_cases_i32:
  "sint (imm :: i32) = 0 \<longleftrightarrow> imm = 0" "sint (imm :: i32) = 1 \<longleftrightarrow> imm = 1" "sint (imm :: i32) = -1 \<longleftrightarrow> imm = -1"
proof -
  have w: "imm = word_of_int (sint imm)" by simp
  show "sint imm = 0 \<longleftrightarrow> imm = 0" by (metis w signed_0 of_int_0)
  show "sint imm = 1 \<longleftrightarrow> imm = 1"
  proof
    assume "sint imm = 1"
    with w show "imm = 1" by (metis of_int_1)
  qed simp
  show "sint imm = -1 \<longleftrightarrow> imm = -1"
  proof
    assume "sint imm = -1"
    with w show "imm = -1" by (metis of_int_minus of_int_1)
  qed simp
qed

lemma drop_sign:
  assumes "k < LENGTH('w)"
  shows "drop_bit (LENGTH('w) - k) (word_of_int (if b then -1 else 0) :: 'w :: len word) =
    word_of_int (if b then 2 ^ k - 1 else 0)"
proof (cases b)
  case True
  have p: "(2 :: int) ^ LENGTH('w) = 2 ^ k * 2 ^ (LENGTH('w) - k)" using assms by (simp flip: power_add)
  have "uint (- 1 :: 'w word) = 2 ^ LENGTH('w) - 1" by (simp add: unsigned_minus_1_eq_mask mask_eq_exp_minus_1)
  also have "\<dots> = (2 ^ (LENGTH('w) - k) - 1) + (2 ^ k - 1) * 2 ^ (LENGTH('w) - k)" unfolding p by (simp add: algebra_simps)
  finally have "uint (- 1 :: 'w word) div 2 ^ (LENGTH('w) - k) = 2 ^ k - 1" by (simp only: div_mult_self1) simp
  moreover have "uint (word_of_int (2 ^ k - 1) :: 'w word) = 2 ^ k - 1"
    by (rule uint_of_int_small [of _ k]) (use assms in simp_all)
  ultimately have "drop_bit (LENGTH('w) - k) (- 1 :: 'w word) = word_of_int (2 ^ k - 1)"
    by (intro word_uint_eqI) (simp only: uint_drop)
  with True show ?thesis by simp
qed simp

lemma sign_div:
  assumes "- (2 ^ m) \<le> a" "a < 2 ^ m"
  shows "a div 2 ^ m = (if a < 0 then -1 else (0 :: int))"
proof (cases "a < 0")
  case True
  have "a div 2 ^ m = ((a + 2 ^ m) + (- 1) * 2 ^ m) div 2 ^ m" by simp
  also have "\<dots> = - 1 + (a + 2 ^ m) div 2 ^ m" by (rule div_mult_self1) simp
  also have "(a + 2 ^ m) div 2 ^ m = 0" using assms True by (intro div_pos_pos_trivial) linarith+
  finally show ?thesis using True by simp
next
  case False
  with assms show ?thesis by (simp add: div_pos_pos_trivial)
qed

text \<open>The quotient by a power of two, from the biased dividend.\<close>

lemma biased_range:
  assumes "- (2 ^ m) \<le> a" "a < 2 ^ m" "k \<le> m"
  shows "- (2 ^ m) \<le> a + (if a < 0 then 2 ^ k - 1 else (0 :: int))" "a + (if a < 0 then 2 ^ k - 1 else 0) < 2 ^ m"
proof -
  have p: "(1 :: int) \<le> 2 ^ k" "(2 :: int) ^ k \<le> 2 ^ m" using assms(3) by simp_all
  show "- (2 ^ m) \<le> a + (if a < 0 then 2 ^ k - 1 else 0)" using assms(1) p(1) by (split if_split, intro conjI impI) linarith+
  show "a + (if a < 0 then 2 ^ k - 1 else 0) < 2 ^ m" using assms(2) p(2) by (split if_split, intro conjI impI) linarith+
qed

lemma tdiv_power_range:
  assumes "- (2 ^ m) \<le> a" "a < 2 ^ m"
  shows "- (2 ^ m) \<le> tdiv a (2 ^ k)" "tdiv a (2 ^ k) < 2 ^ m"
    "- (2 ^ m) \<le> tdiv a (2 ^ k) * 2 ^ k" "tdiv a (2 ^ k) * 2 ^ k < 2 ^ m"
proof -
  let ?t = "tdiv a (2 ^ k)"
  note b = tdiv_pos_bound [of a k]
  have p: "(1 :: int) \<le> 2 ^ k" by simp
  have s: "0 \<le> a \<Longrightarrow> 0 \<le> ?t" "a \<le> 0 \<Longrightarrow> ?t \<le> 0"
    by (cases "a = 0"; simp add: tdiv_def pos_imp_zdiv_nonneg_iff sgn_if)+
  have t: "\<bar>?t\<bar> \<le> \<bar>?t\<bar> * 2 ^ k" using mult_left_mono [OF p, of "\<bar>?t\<bar>"] by simp
  have m: "?t * 2 ^ k = (if 0 \<le> a then \<bar>?t\<bar> * 2 ^ k else - (\<bar>?t\<bar> * 2 ^ k))" using s by auto
  show "- (2 ^ m) \<le> ?t" "?t < 2 ^ m" using assms b t s by linarith+
  show "- (2 ^ m) \<le> ?t * 2 ^ k" "?t * 2 ^ k < 2 ^ m" unfolding m using assms b t by (auto; linarith)+
qed

lemma tdiv_unit [simp]: "tdiv a 1 = a" "tdiv a (- 1) = - a"
  by (simp_all add: tdiv_def mult_sgn_abs)

lemma trem_unit: "trem a 1 = 0" "trem a (- 1) = 0"
  by (simp_all add: trem_def)

text \<open>The two words of a signed division by \<open>2 ^ k\<close>: the biased dividend and its arithmetic shift.\<close>

lemma biased_quotient:
  fixes x :: "'w :: len word"
  assumes x: "x = word_of_int a" and a: "- (2 ^ (n - 1)) \<le> a" "a < 2 ^ (n - 1)"
    and n: "0 < n" "n \<le> LENGTH('w)" and k: "k < LENGTH('w)"
  shows "word_of_int (sint (x + drop_bit (LENGTH('w) - k) (word_of_int (sint x div 2 ^ (n - 1)))) div 2 ^ k) =
    (word_of_int (tdiv a (2 ^ k)) :: 'w word)"
proof -
  let ?b = "if a < 0 then 2 ^ k - 1 else 0 :: int"
  have p: "(2 :: int) ^ (n - 1) \<le> 2 ^ (LENGTH('w) - 1)" by (rule power_increasing [OF diff_le_mono [OF n(2)]]) simp
  have sx: "sint x = a" unfolding x by (rule sint_of_int_range [OF a n(2)])
  have "drop_bit (LENGTH('w) - k) (word_of_int (a div 2 ^ (n - 1)) :: 'w word) = word_of_int ?b"
    unfolding sign_div [OF a] by (rule drop_sign [OF k])
  then have "x + drop_bit (LENGTH('w) - k) (word_of_int (sint x div 2 ^ (n - 1))) = x + word_of_int ?b"
    by (simp only: sx)
  also have "\<dots> = word_of_int (a + ?b)" unfolding x by (rule wi_hom_add)
  finally have b: "x + drop_bit (LENGTH('w) - k) (word_of_int (sint x div 2 ^ (n - 1))) = word_of_int (a + ?b)" .
  have "sint (word_of_int (a + ?b) :: 'w word) = a + ?b"
    by (rule sint_of_int_range [OF biased_range order_refl]) (use a p k in linarith)+
  then show ?thesis unfolding b tdiv_bias by (simp only:)
qed

lemma biased_quotient_w:
  fixes x :: "'w :: len word"
  assumes a: "a = signed_of 32 (uint x mod 2 ^ 32)" and l: "32 \<le> LENGTH('w)" and k: "k < 32"
  shows "w_op rv_sra (x + drop_bit (LENGTH('w) - k) (w_op rv_sra x (simm (word_of_nat 31)))) (simm (word_of_nat k)) =
    (word_of_int (tdiv a (2 ^ k)) :: 'w word)"
proof -
  let ?b = "if a < 0 then 2 ^ k - 1 else 0 :: int"
  have r: "- (2 ^ 31) \<le> a" "a < 2 ^ 31" unfolding a using signed_of_range [of 32] by simp_all
  have k': "k \<le> 31" "k < LENGTH('w)" using k l by simp_all
  have small: "normal True 32 (z mod 2 ^ 32) = word_of_int z" if "- (2 ^ 31) \<le> z" "z < 2 ^ 31" for z
  proof -
    have "signed_of 32 z = z" using that by (simp add: signed_of_def signed_take_bit_int_eq_self)
    then show ?thesis unfolding normal_def if_True signed_of_mod_arg [OF zero_less_numeral] by (simp only:)
  qed
  have "w_op rv_sra x (simm (word_of_nat 31)) = normal True 32 ((a div 2 ^ 31) mod 2 ^ 32)"
    unfolding a by (rule w_op_shift(3) [OF _ l]) simp
  also have "\<dots> = word_of_int (a div 2 ^ 31)" by (rule small) (simp_all only: sign_div [OF r], simp_all)
  finally have "w_op rv_sra x (simm (word_of_nat 31)) = word_of_int (if a < 0 then - 1 else 0)"
    unfolding sign_div [OF r] .
  then have d: "drop_bit (LENGTH('w) - k) (w_op rv_sra x (simm (word_of_nat 31))) = word_of_int ?b"
    by (simp only: drop_sign [OF k'(2)])
  have "uint (x + word_of_int ?b) mod 2 ^ 32 = (a + ?b) mod 2 ^ 32"
  proof -
    have "uint (x + word_of_int ?b) mod 2 ^ 32 = (uint x + ?b) mod 2 ^ 32"
      using uint_arith_mod(1) [OF l, of "uint x" ?b] by simp
    also have "\<dots> = (a + ?b) mod 2 ^ 32"
      unfolding a by (metis mod_add_left_eq mod_mod_trivial signed_of_mod zero_less_numeral)
    finally show ?thesis .
  qed
  moreover have "signed_of 32 ((a + ?b) mod 2 ^ 32) = a + ?b"
  proof -
    have "signed_of 32 ((a + ?b) mod 2 ^ 32) = signed_of 32 (a + ?b)" by (rule signed_of_mod_arg) simp
    also have "\<dots> = a + ?b" unfolding signed_of_def
      by (rule signed_take_bit_int_eq_self) (use biased_range [OF r k'(1)] in simp_all)
    finally show ?thesis .
  qed
  ultimately have "w_op rv_sra (x + word_of_int ?b) (simm (word_of_nat k)) =
      (normal True 32 (((a + ?b) div 2 ^ k) mod 2 ^ 32) :: 'w word)"
    using w_op_shift(3) [OF k l, of "x + word_of_int ?b"] by simp
  also have "\<dots> = word_of_int (tdiv a (2 ^ k))"
    unfolding tdiv_bias [symmetric] by (rule small) (use tdiv_power_range [OF r] in simp_all)
  finally show ?thesis unfolding d .
qed

section \<open>Comparisons of words\<close>

fun word_cmp :: "icmp_code \<Rightarrow> 'w :: len word \<Rightarrow> 'w word \<Rightarrow> bool" where
  "word_cmp CEq x y \<longleftrightarrow> x = y"
| "word_cmp CNe x y \<longleftrightarrow> x \<noteq> y"
| "word_cmp CUgt x y \<longleftrightarrow> y < x"
| "word_cmp CUge x y \<longleftrightarrow> y \<le> x"
| "word_cmp CUlt x y \<longleftrightarrow> x < y"
| "word_cmp CUle x y \<longleftrightarrow> x \<le> y"
| "word_cmp CSgt x y \<longleftrightarrow> sint y < sint x"
| "word_cmp CSge x y \<longleftrightarrow> sint y \<le> sint x"
| "word_cmp CSlt x y \<longleftrightarrow> sint x < sint y"
| "word_cmp CSle x y \<longleftrightarrow> sint x \<le> sint y"

lemma word_cmp_correct:
  assumes "0 < n" "n \<le> LENGTH('w)" "0 \<le> a" "a < 2 ^ n" "0 \<le> b" "b < 2 ^ n"
  shows "word_cmp op (normal (icmp_operands_are_signed op) n a :: 'w :: len word)
      (normal (icmp_operands_are_signed op) n b) \<longleftrightarrow> icmp_val op n a b"
  using assms by (cases op) (simp_all add: icmp_operands_are_signed_def word_uint_eq_iff word_less_def word_le_def
      uint_normal sint_normal)

lemma sltu_simps:
  "rv_sltu x (1 :: 'w :: len word) = (if x = 0 then 1 else 0)" "rv_sltu 0 x = (if x = 0 then 0 else (1 :: 'w word))"
  by (simp_all add: rv_sltu_def word_neq_0_conv less_eq_word_def)

lemma xor_one:
  "rv_sltu x y XOR 1 = (if y \<le> x then 1 else (0 :: 'w :: len word))"
  "rv_slt x y XOR 1 = (if sint y \<le> sint x then 1 else (0 :: 'w :: len word))"
  by (auto simp: rv_sltu_def rv_slt_def not_less)

lemma xor_zero_iff: "x XOR y = 0 \<longleftrightarrow> x = (y :: 'w :: len word)"
  by (metis xor.left_neutral xor_self_eq xor.assoc xor.commute)

context scalar_machine
begin

lemma emit_copy_or_move_correct:
  assumes "rd \<noteq> Physical (zero_reg T)"
  shows "emits exec {rd} s (emit_copy_or_move T rd rs s) (\<lambda>st st'. get_reg (zero_reg T) st' rd = get_reg (zero_reg T) st rs)"
proof (cases "rd = rs")
  case True
  then show ?thesis by (simp add: emit_copy_or_move_def emits_refl)
next
  case False
  have "emits exec {rd} s (push_inst (mv T rd rs) s) (\<lambda>st st'. get_reg (zero_reg T) st' rd = get_reg (zero_reg T) st rs)"
    by (rule emits_runs, (rule runs_as_intros run_op3)+) (use assms in \<open>simp_all add: agree_except_putI\<close>)
  with False show ?thesis by (simp add: emit_copy_or_move_def)
qed

lemma emit_const_int_correct:
  assumes "rd \<noteq> Physical (zero_reg T)"
  shows "emits exec {rd} s (emit_const_int T rd imm s) (\<lambda>st st'. get_reg (zero_reg T) st' rd = simm imm)"
proof (cases "imm = 0")
  case True
  from emits_mono [OF emit_copy_or_move_correct [OF assms, of s "Physical (zero_reg T)"]] True
  show ?thesis by (simp add: emit_const_int_def)
next
  case False
  have "emits exec {rd} s (push_inst (load_imm T rd imm) s) (\<lambda>st st'. get_reg (zero_reg T) st' rd = simm imm)"
    by (rule emits_runs, (rule runs_as_intros run_op3)+) (use assms in \<open>simp_all add: agree_except_putI\<close>)
  with False show ?thesis by (simp add: emit_const_int_def)
qed

lemma emit_neg_correct:
  assumes "rd \<noteq> Physical (zero_reg T)"
  shows "emits exec {rd} s (emit_neg T rd rs s) (\<lambda>st st'. get_reg (zero_reg T) st' rd = - get_reg (zero_reg T) st rs)"
  unfolding emit_neg_def
  by (rule emits_runs, (rule runs_as_intros run_op3)+) (use assms in \<open>simp_all add: agree_except_putI\<close>)

section \<open>Products\<close>

lemma emit_mul_const_correct:
  assumes rs: "old_reg s rs" and rd: "rd \<noteq> Physical (zero_reg T)" "old_reg s rd"
    and e: "emit_mul_const T rd rs imm n s = (True, s')"
  shows "emits exec {rd} s s' (\<lambda>st st'.
    (\<not> narrow T n \<or> \<bar>sint imm\<bar> \<le> 1 \<longrightarrow> get_reg (zero_reg T) st' rd = get_reg (zero_reg T) st rs * simm imm) \<and>
    (narrow T n \<and> 1 < sint imm \<longrightarrow>
       get_reg (zero_reg T) st' rd = normal True 32 ((uint (get_reg (zero_reg T) st rs) mod 2 ^ 32 * sint imm) mod 2 ^ 32)))"
    (is "emits _ _ _ _ ?P")
proof -
  consider "imm = 0" | "imm = 1" | "imm = -1" | "imm \<noteq> 0" "imm \<noteq> 1" "imm \<noteq> -1" by blast
  then show ?thesis
  proof cases
    case 1
    with e have "s' = emit_const_int T rd 0 s" by (simp add: emit_mul_const_def)
    with emits_mono [OF emit_const_int_correct [OF rd(1), of s 0]] 1 show ?thesis by simp
  next
    case 2
    with e have "s' = emit_copy_or_move T rd rs s" by (simp add: emit_mul_const_def)
    with emits_mono [OF emit_copy_or_move_correct [OF rd(1), of s rs]] 2 show ?thesis by (simp add: simm_def)
  next
    case 3
    with e have "s' = emit_neg T rd rs s" by (simp add: emit_mul_const_def)
    with emits_mono [OF emit_neg_correct [OF rd(1), of s rs]] 3 show ?thesis by simp
  next
    case 4
    let ?k = "trailing_zeros (unsigned_abs imm)" and ?c = "next_vreg s"
    have p: "is_power_of_two (unsigned_abs imm)" using e 4 by (simp add: emit_mul_const_def split: if_splits)
    note pk = power_of_two_i32 [OF p]
    have k: "?k < 32" "?k < LENGTH('w)" using pk(2) xlen by auto
    have c: "rd \<noteq> Virtual ?c" "rs \<noteq> Virtual ?c" using old_reg_neq [OF rd(2)] old_reg_neq [OF rs] by auto
    have big: "1 < \<bar>sint imm\<bar>" using sint_cases_i32 [of imm] 4 by linarith
    have shl: "exec ((if narrow T n then emit_slliw T else emit_slli T) r rs (word_of_nat ?k)) st =
        Some (put_reg (zero_reg T) r ((if narrow T n then (\<lambda>x. normal True 32 ((uint x mod 2 ^ 32 * 2 ^ ?k) mod 2 ^ 32))
          else (\<lambda>x. x * word_of_int (2 ^ ?k))) (get_reg (zero_reg T) st rs)) st)" for r st
      by (cases "narrow T n") (simp_all only: if_True if_False run_shift(1) [OF k(2)] run_shift_w(1) [OF k(1)]
          w_op_shift(1) [OF k(1) width(2)] push_bit_times)
    note def = emit_mul_const_def fresh_reg_bump Let_def emit_neg_def
    show ?thesis
    proof (cases "sint imm < 0")
      case True
      let ?s = "push_inst (emit_sub T rd (Physical (zero_reg T)) (Virtual ?c))
        (push_inst ((if narrow T n then emit_slliw T else emit_slli T) (Virtual ?c) rs (word_of_nat ?k)) (bump s))"
      have "emit_mul_const T rd rs imm n s = (True, ?s)" unfolding def using 4 p True by simp
      with e have s': "s' = ?s" by simp
      show ?thesis
        unfolding s' by (rule emits_runs, (rule runs_as_intros run_op3 shl)+)
          (use rd(1) c True big in \<open>simp_all add: agree_except_putI get_put_reg simm_power [OF pk(1)]\<close>)
    next
      case False
      let ?s = "push_inst ((if narrow T n then emit_slliw T else emit_slli T) rd rs (word_of_nat ?k)) s"
      have "emit_mul_const T rd rs imm n s = (True, ?s)" unfolding def using 4 p False by simp
      with e have s': "s' = ?s" by simp
      have si: "sint imm = 2 ^ ?k" using pk(1) False by linarith
      show ?thesis
        unfolding s' by (rule emits_runs, (rule runs_as_intros shl)+)
          (use rd(1) c False big si in \<open>simp_all add: agree_except_putI simm_power [OF pk(1)]\<close>)
    qed
  qed
qed

section \<open>Quotients and remainders of unsigned readings\<close>

lemma emit_udiv_const_correct:
  assumes rs: "old_reg s rs" and rd: "rd \<noteq> Physical (zero_reg T)"
    and e: "emit_udiv_const T rd rs imm n s = (True, s')"
  shows "emits exec {rd} s s' (\<lambda>st st'.
    (\<not> narrow T n \<or> imm = 1 \<longrightarrow>
       uint (get_reg (zero_reg T) st' rd) = uint (get_reg (zero_reg T) st rs) div uint imm) \<and>
    (narrow T n \<and> imm \<noteq> 1 \<longrightarrow>
       get_reg (zero_reg T) st' rd = normal True 32 (uint (get_reg (zero_reg T) st rs) mod 2 ^ 32 div uint imm)))"
    (is "emits _ _ _ _ ?P")
proof (cases "imm = 1")
  case True
  with e have "s' = emit_copy_or_move T rd rs s" by (simp add: emit_udiv_const_def split: if_splits)
  with emits_mono [OF emit_copy_or_move_correct [OF rd, of s rs]] True show ?thesis by simp
next
  case False
  let ?k = "trailing_zeros (unat imm)"
  have p: "is_power_of_two (unat imm)" and nz: "imm \<noteq> 0" using e False by (auto simp: emit_udiv_const_def split: if_splits)
  note pk = power_of_two_u32 [OF p]
  have k: "?k < 32" "?k < LENGTH('w)" using pk(2) xlen by auto
  let ?s = "push_inst ((if narrow T n then emit_srliw T else emit_srli T) rd rs (word_of_nat ?k)) s"
  have "emit_udiv_const T rd rs imm n s = (True, ?s)" unfolding emit_udiv_const_def Let_def using False nz p by simp
  with e have s': "s' = ?s" by simp
  have shr: "exec ((if narrow T n then emit_srliw T else emit_srli T) rd rs (word_of_nat ?k)) st =
      Some (put_reg (zero_reg T) rd ((if narrow T n then (\<lambda>x. normal True 32 (uint x mod 2 ^ 32 div 2 ^ ?k))
        else drop_bit ?k) (get_reg (zero_reg T) st rs)) st)" for st
    by (cases "narrow T n") (simp_all only: if_True if_False run_shift(2) [OF k(2)] run_shift_w(2) [OF k(1)]
          w_op_shift(2) [OF k(1) width(2)])
  show ?thesis
    unfolding s' by (rule emits_runs, (rule runs_as_intros shr)+)
      (use rd False in \<open>simp_all add: agree_except_putI pk(1) uint_drop\<close>)
qed

lemma emit_urem_const_correct:
  assumes rs: "old_reg s rs" and rd: "rd \<noteq> Physical (zero_reg T)"
    and e: "emit_urem_const T rd rs imm s = (True, s')"
  shows "emits exec {rd} s s' (\<lambda>st st'.
    get_reg (zero_reg T) st' rd = word_of_int (uint (get_reg (zero_reg T) st rs) mod uint imm))"
    (is "emits _ _ _ _ ?P")
proof (cases "imm = 1")
  case True
  with e have "s' = emit_const_int T rd 0 s" by (simp add: emit_urem_const_def split: if_splits)
  with emits_mono [OF emit_const_int_correct [OF rd, of s 0]] True show ?thesis by simp
next
  case False
  let ?k = "trailing_zeros (unat imm)"
  have p: "is_power_of_two (unat imm)" and nz: "imm \<noteq> 0" using e False by (auto simp: emit_urem_const_def split: if_splits)
  note pk = power_of_two_u32 [OF p]
  obtain r s1 where m: "emit_masked_value T rs ?k s = (r, s1)" by (cases "emit_masked_value T rs ?k s")
  have k: "0 < ?k" "?k \<le> LENGTH('w)"
  proof -
    have "uint imm \<noteq> 1" using False by (metis uint_1 word_uint_eqI)
    then show "0 < ?k" using pk(1) by (cases ?k) simp_all
    show "?k \<le> LENGTH('w)" using pk(2) xlen by auto
  qed
  from e False nz p m have s': "s' = emit_copy_or_move T rd r s1" by (simp add: emit_urem_const_def)
  note masked = emit_masked_value_correct [OF rs k m]
  have "emits exec {rd} s s1 (\<lambda>st st'. get_reg (zero_reg T) st' r = normal False ?k (uint (get_reg (zero_reg T) st rs) mod 2 ^ ?k))"
    by (rule emits_mono [OF conjunct1 [OF masked]]) simp_all
  from emits_seq [OF this emit_copy_or_move_correct [OF rd]] show ?thesis
    unfolding s' by (simp add: pk(1) normal_def)
qed

section \<open>Quotients and remainders of signed readings\<close>

text \<open>What the dividend has to be: any word with the right low half where the 32-bit forms divide,
  else the signed value itself.\<close>

definition dividend_ok :: "nat \<Rightarrow> i32 \<Rightarrow> 'w word \<Rightarrow> int \<Rightarrow> bool" where
  "dividend_ok n imm x a \<longleftrightarrow>
     (if narrow T n \<and> 1 < \<bar>sint imm\<bar> then a = signed_of 32 (uint x mod 2 ^ 32)
      else x = word_of_int a \<and> - (2 ^ (n - 1)) \<le> a \<and> a < 2 ^ (n - 1))"

lemma emit_sdiv_const_correct:
  assumes rs: "old_reg s rs" and rd: "rd \<noteq> Physical (zero_reg T)" "old_reg s rd"
    and n: "0 < n" "n \<le> LENGTH('w)" and e: "emit_sdiv_const T rd rs imm n s = (True, s')"
  shows "emits exec {rd} s s' (\<lambda>st st'. \<forall>a. dividend_ok n imm (get_reg (zero_reg T) st rs) a \<longrightarrow>
    get_reg (zero_reg T) st' rd = word_of_int (tdiv a (sint imm)))"
    (is "emits _ _ _ _ ?P")
proof -
  consider "imm = 1" | "imm = -1" | "imm \<noteq> 1" "imm \<noteq> -1" by blast
  then show ?thesis
  proof cases
    case 1
    with e have "s' = emit_copy_or_move T rd rs s" by (simp add: emit_sdiv_const_def)
    with emits_mono [OF emit_copy_or_move_correct [OF rd(1), of s rs]] 1 show ?thesis
      by (simp add: dividend_ok_def)
  next
    case 2
    with e have "s' = emit_neg T rd rs s" by (simp add: emit_sdiv_const_def split: if_splits)
    with emits_mono [OF emit_neg_correct [OF rd(1), of s rs]] 2 show ?thesis
      by (simp add: dividend_ok_def)
  next
    case 3
    let ?k = "trailing_zeros (unsigned_abs imm)" and ?c = "next_vreg s"
    have nz: "imm \<noteq> 0" "sint imm \<noteq> - 2147483648" and p: "is_power_of_two (unsigned_abs imm)"
      using e 3 by (auto simp: emit_sdiv_const_def split: if_splits)
    note pk = power_of_two_i32 [OF p]
    have big: "1 < \<bar>sint imm\<bar>" using sint_cases_i32 [of imm] 3 nz by linarith
    have k: "?k < 32" "?k < LENGTH('w)" "0 < ?k"
      using pk xlen big by (auto intro: gr0I)
    have l: "LENGTH('w) - ?k < LENGTH('w)" "n - 1 < LENGTH('w)" using k n by simp_all
    have of: "word_of_nat (WORD_SIZE T * 8) - word_of_nat ?k = (word_of_nat (LENGTH('w) - ?k) :: i32)"
      using reg_bits_xlen(1) k by (simp add: reg_bits_def)
    have c: "rd \<noteq> Virtual ?c" "rs \<noteq> Virtual ?c" "rd \<noteq> Virtual (Suc ?c)" "rs \<noteq> Virtual (Suc ?c)"
      "rd \<noteq> Virtual (Suc (Suc ?c))" "rs \<noteq> Virtual (Suc (Suc ?c))"
      using old_reg_neq [OF rd(2)] old_reg_neq [OF rs] by auto
    define f where "f x = (if narrow T n then w_op rv_sra x (simm (word_of_nat 31)) else word_of_int (sint x div 2 ^ (n - 1)))"
      for x :: "'w word"
    define g where "g x = (if narrow T n then w_op rv_sra x (simm (word_of_nat ?k)) else word_of_int (sint x div 2 ^ ?k))"
      for x :: "'w word"
    have sgn: "exec (if narrow T n then emit_sraiw T r rs 31 else emit_srai T r rs (word_of_nat (n - 1))) st =
        Some (put_reg (zero_reg T) r (f (get_reg (zero_reg T) st rs)) st)" for r st
    proof (cases "narrow T n")
      case True
      have "(31 :: i32) = word_of_nat 31" by simp
      then show ?thesis using True run_shift_w(3) [of 31 r rs st] by (simp only: if_True f_def)
    qed (simp only: f_def if_False run_shift(3) [OF l(2)])
    have sra: "exec ((if narrow T n then emit_sraiw T else emit_srai T) r r' (word_of_nat ?k)) st =
        Some (put_reg (zero_reg T) r (g (get_reg (zero_reg T) st r')) st)" for r r' st
      by (cases "narrow T n") (simp_all only: g_def if_True if_False run_shift(3) [OF k(2)] run_shift_w(3) [OF k(1)])
    have q: "g (x + drop_bit (LENGTH('w) - ?k) (f x)) = word_of_int (tdiv a (2 ^ ?k))" if "dividend_ok n imm x a" for x a
    proof (cases "narrow T n")
      case True
      with that big have "a = signed_of 32 (uint x mod 2 ^ 32)" by (simp add: dividend_ok_def)
      from biased_quotient_w [OF this width(2) k(1)] True show ?thesis unfolding f_def g_def by simp
    next
      case False
      with that have "x = word_of_int a" "- (2 ^ (n - 1)) \<le> a" "a < 2 ^ (n - 1)" by (simp_all add: dividend_ok_def)
      from biased_quotient [OF this n k(2)] False show ?thesis unfolding f_def g_def by simp
    qed
    note def = emit_sdiv_const_def fresh_reg_bump Let_def emit_neg_def of
    let ?sgn = "Virtual ?c" and ?biased = "Virtual (Suc ?c)" and ?quot = "Virtual (Suc (Suc ?c))"
    let ?s1 = "push_inst (emit_add T ?biased rs ?sgn) (push_inst (emit_srli T ?sgn ?sgn (word_of_nat (LENGTH('w) - ?k)))
      (push_inst (if narrow T n then emit_sraiw T ?sgn rs 31 else emit_srai T ?sgn rs (word_of_nat (n - 1))) (bump (bump s))))"
    show ?thesis
    proof (cases "sint imm < 0")
      case True
      let ?s = "push_inst (emit_sub T rd (Physical (zero_reg T)) ?quot)
        (push_inst ((if narrow T n then emit_sraiw T else emit_srai T) ?quot ?biased (word_of_nat ?k)) (bump ?s1))"
      have "emit_sdiv_const T rd rs imm n s = (True, ?s)" unfolding def using 3 nz p True by simp
      with e have s': "s' = ?s" by simp
      have si: "sint imm = - (2 ^ ?k)" using pk(1) True by linarith
      show ?thesis
        unfolding s' by (rule emits_runs, (rule runs_as_intros run_op3 run_shift(2) [OF l(1)] sgn sra)+)
          (use rd(1) c in \<open>simp_all add: agree_except_putI get_put_reg q si tdiv_minus\<close>)
    next
      case False
      let ?s = "push_inst ((if narrow T n then emit_sraiw T else emit_srai T) rd ?biased (word_of_nat ?k)) ?s1"
      have "emit_sdiv_const T rd rs imm n s = (True, ?s)" unfolding def using 3 nz p False by simp
      with e have s': "s' = ?s" by simp
      have si: "sint imm = 2 ^ ?k" using pk(1) False by linarith
      show ?thesis
        unfolding s' by (rule emits_runs, (rule runs_as_intros run_op3 run_shift(2) [OF l(1)] sgn sra)+)
          (use rd(1) c in \<open>simp_all add: agree_except_putI get_put_reg q si\<close>)
    qed
  qed
qed

lemma emit_srem_const_correct:
  assumes rs: "old_reg s rs" and rd: "rd \<noteq> Physical (zero_reg T)" "old_reg s rd"
    and n: "0 < n" "n \<le> LENGTH('w)" and e: "emit_srem_const T rd rs imm n s = (True, s')"
    and pos: "narrow T n \<Longrightarrow> 0 < sint imm \<or> sint imm = -1"
  shows "emits exec {rd} s s' (\<lambda>st st'. \<forall>a.
    get_reg (zero_reg T) st rs = word_of_int a \<and> - (2 ^ (n - 1)) \<le> a \<and> a < 2 ^ (n - 1) \<longrightarrow>
    get_reg (zero_reg T) st' rd = word_of_int (trem a (sint imm)))"
    (is "emits _ _ _ _ ?P")
proof (cases "unsigned_abs imm = 1")
  case True
  with e have "s' = emit_const_int T rd 0 s" by (simp add: emit_srem_const_def split: if_splits)
  moreover have "sint imm = 1 \<or> sint imm = -1" using True by (auto simp: unsigned_abs_def)
  then have "trem a (sint imm) = 0" for a by (metis trem_unit)
  ultimately show ?thesis using emits_mono [OF emit_const_int_correct [OF rd(1), of s 0]] by simp
next
  case False
  let ?c = "next_vreg s" and ?k = "trailing_zeros (unsigned_abs imm)"
  have nz: "imm \<noteq> 0" "sint imm \<noteq> - 2147483648" and p: "is_power_of_two (unsigned_abs imm)"
    using e False by (auto simp: emit_srem_const_def split: if_splits)
  note pk = power_of_two_i32 [OF p]
  have big: "1 < \<bar>sint imm\<bar>"
  proof -
    have "\<bar>sint imm\<bar> \<noteq> 1" "sint imm \<noteq> 0" using False sint_cases_i32 [of imm] nz by (auto simp: unsigned_abs_def)
    then show ?thesis by linarith
  qed
  then have one: "imm \<noteq> 1" "imm \<noteq> -1" by auto
  obtain s2 where d: "emit_sdiv_const T (Virtual ?c) rs imm n (bump s) = (True, s2)"
    using nz p one by (cases "emit_sdiv_const T (Virtual ?c) rs imm n (bump s)") (simp add: emit_sdiv_const_def Let_def split: prod.splits)
  let ?p = "next_vreg s2"
  obtain s4 where m: "emit_mul_const T (Virtual ?p) (Virtual ?c) imm n (bump s2) = (True, s4)"
    using nz p one by (cases "emit_mul_const T (Virtual ?p) (Virtual ?c) imm n (bump s2)") (simp add: emit_mul_const_def Let_def split: prod.splits)
  have s': "s' = push_inst (emit_sub T rd rs (Virtual ?p)) s4"
    using e False nz p d m by (simp add: emit_srem_const_def fresh_reg_bump)
  have div: "emits exec {} s s2 (\<lambda>st st'. \<forall>a. dividend_ok n imm (get_reg (zero_reg T) st rs) a \<longrightarrow>
      get_reg (zero_reg T) st' (Virtual ?c) = word_of_int (tdiv a (sint imm)))"
    by (rule emits_bump [OF emit_sdiv_const_correct [OF _ _ _ n d]])
      (use old_reg_mono [OF rs only_vregs_bump [OF only_vregs_refl]] in simp_all)
  have c: "?c < ?p" using only_vregs_le [OF emits_only_vregs [OF emit_sdiv_const_correct [OF _ _ _ n d]]]
      old_reg_mono [OF rs only_vregs_bump [OF only_vregs_refl]] by simp
  have mul: "emits exec {} s2 s4 (\<lambda>st st'.
      (\<not> narrow T n \<or> \<bar>sint imm\<bar> \<le> 1 \<longrightarrow> get_reg (zero_reg T) st' (Virtual ?p) = get_reg (zero_reg T) st (Virtual ?c) * simm imm) \<and>
      (narrow T n \<and> 1 < sint imm \<longrightarrow> get_reg (zero_reg T) st' (Virtual ?p) =
         normal True 32 ((uint (get_reg (zero_reg T) st (Virtual ?c)) mod 2 ^ 32 * sint imm) mod 2 ^ 32)))"
    by (rule emits_bump [OF emit_mul_const_correct [OF _ _ _ m]]) (use c in simp_all)
  have sub: "emits exec {rd} s4 s' (\<lambda>st st'.
      get_reg (zero_reg T) st' rd = get_reg (zero_reg T) st rs - get_reg (zero_reg T) st (Virtual ?p))"
    unfolding s' by (rule emits_runs, (rule runs_as_intros run_op3)+) (use rd in \<open>simp_all add: agree_except_putI\<close>)
  have rs2: "old_reg s2 rs" by (rule old_reg_mono [OF rs emits_only_vregs [OF div]])
  have both: "emits exec {} s s4 (\<lambda>st st'. \<forall>a.
      get_reg (zero_reg T) st rs = word_of_int a \<and> - (2 ^ (n - 1)) \<le> a \<and> a < 2 ^ (n - 1) \<longrightarrow>
      get_reg (zero_reg T) st' (Virtual ?p) = word_of_int (tdiv a (sint imm) * sint imm) \<and>
      get_reg (zero_reg T) st' rs = word_of_int a)"
  proof (rule emits_seq [OF div mul], intro allI impI, elim conjE, intro conjI)
    fix st st1 st2 :: "('r, 'w word) mstate" and a
    let ?q = "get_reg (zero_reg T) st1 (Virtual ?c)" and ?r = "get_reg (zero_reg T) st2 (Virtual ?p)"
    assume q: "\<forall>a. dividend_ok n imm (get_reg (zero_reg T) st rs) a \<longrightarrow> ?q = word_of_int (tdiv a (sint imm))"
      and agree: "agree_except ({} \<union> fresh_regs s s2) st st1" "agree_except ({} \<union> fresh_regs s2 s4) st1 st2"
      and a: "get_reg (zero_reg T) st rs = word_of_int a" "- (2 ^ (n - 1)) \<le> a" "a < 2 ^ (n - 1)"
      and plain: "\<not> narrow T n \<or> \<bar>sint imm\<bar> \<le> 1 \<longrightarrow> ?r = ?q * simm imm"
      and wide: "narrow T n \<and> 1 < sint imm \<longrightarrow> ?r = normal True 32 ((uint ?q mod 2 ^ 32 * sint imm) mod 2 ^ 32)"
    show "get_reg (zero_reg T) st2 rs = word_of_int a"
      using agree_except_get [OF agree(1)] agree_except_get [OF agree(2)] old_reg_not_fresh [OF rs] old_reg_not_fresh [OF rs2] a(1)
      by simp
    have "dividend_ok n imm (get_reg (zero_reg T) st rs) a"
    proof (cases "narrow T n")
      case True
      then have "n = 32" by (simp add: narrow_iff)
      have "signed_of 32 (uint (word_of_int a :: 'w word) mod 2 ^ 32) = signed_of 32 a"
        unfolding uint_of_int_mod [OF width(2)] by (rule signed_of_mod_arg) simp
      also have "\<dots> = a" unfolding signed_of_def
        by (rule signed_take_bit_int_eq_self) (use a \<open>n = 32\<close> in simp_all)
      finally show ?thesis using a by (simp only: dividend_ok_def if_cancel) simp
    qed (use a in \<open>simp add: dividend_ok_def\<close>)
    with q have qa: "?q = word_of_int (tdiv a (sint imm))" by blast
    show "?r = word_of_int (tdiv a (sint imm) * sint imm)"
    proof (cases "narrow T n")
      case False
      with plain have "?r = word_of_int (tdiv a (sint imm)) * word_of_int (sint imm)" unfolding qa simm_def by blast
      then show ?thesis by (simp only: wi_hom_mult)
    next
      case True
      then have n32: "n = 32" by (simp add: narrow_iff)
      with pos [OF True] big have "0 < sint imm" by auto
      then have si: "sint imm = 2 ^ ?k" and gt: "1 < sint imm" using pk(1) big by linarith+
      let ?z = "tdiv a (2 ^ ?k) * 2 ^ ?k"
      have z: "- (2 ^ (32 - 1)) \<le> ?z" "?z < 2 ^ (32 - 1)" using tdiv_power_range [of "32 - 1" a ?k] a n32 by simp_all
      have "?r = normal True 32 ((uint ?q mod 2 ^ 32 * sint imm) mod 2 ^ 32)" using wide True gt by blast
      also have "\<dots> = normal True 32 (?z mod 2 ^ 32)"
        unfolding qa si uint_of_int_mod [OF width(2)] mod_mult_left_eq ..
      also have "\<dots> = normal True 32 ?z" by (rule normal_mod_arg) simp
      also have "\<dots> = word_of_int ?z"
        using z by (simp only: normal_def if_True signed_of_def signed_take_bit_int_eq_self)
      finally show ?thesis unfolding si .
    qed
  qed
  have "emits exec {rd} s s4 (\<lambda>st st'. \<forall>a.
      get_reg (zero_reg T) st rs = word_of_int a \<and> - (2 ^ (n - 1)) \<le> a \<and> a < 2 ^ (n - 1) \<longrightarrow>
      get_reg (zero_reg T) st' (Virtual ?p) = word_of_int (tdiv a (sint imm) * sint imm) \<and>
      get_reg (zero_reg T) st' rs = word_of_int a)"
    by (rule emits_mono [OF both]) simp_all
  then show ?thesis
  proof (rule emits_seq [OF _ sub], intro allI impI)
    fix st st1 st2 :: "('r, 'w word) mstate" and a
    assume "\<forall>a. get_reg (zero_reg T) st rs = word_of_int a \<and> - (2 ^ (n - 1)) \<le> a \<and> a < 2 ^ (n - 1) \<longrightarrow>
        get_reg (zero_reg T) st1 (Virtual ?p) = word_of_int (tdiv a (sint imm) * sint imm) \<and>
        get_reg (zero_reg T) st1 rs = word_of_int a"
      and "get_reg (zero_reg T) st rs = word_of_int a \<and> - (2 ^ (n - 1)) \<le> a \<and> a < 2 ^ (n - 1)"
      and "get_reg (zero_reg T) st2 rd = get_reg (zero_reg T) st1 rs - get_reg (zero_reg T) st1 (Virtual ?p)"
    then have "get_reg (zero_reg T) st2 rd = word_of_int a - word_of_int (tdiv a (sint imm) * sint imm)" by metis
    then show "get_reg (zero_reg T) st2 rd = word_of_int (trem a (sint imm))"
      unfolding wi_hom_sub by (simp only: trem_def mult.commute)
  qed
qed

section \<open>Comparisons\<close>

lemma emit_icmp_correct:
  assumes rs: "old_reg s rs1" "old_reg s rs2" and rd: "rd \<noteq> Physical (zero_reg T)"
  shows "emits exec {rd} s (emit_icmp T op rd rs1 rs2 s) (\<lambda>st st'. get_reg (zero_reg T) st' rd =
    (if word_cmp op (get_reg (zero_reg T) st rs1) (get_reg (zero_reg T) st rs2) then 1 else 0))"
proof -
  let ?c = "next_vreg s"
  have c: "rs1 \<noteq> Virtual ?c" "rs2 \<noteq> Virtual ?c" using old_reg_neq [OF rs(1)] old_reg_neq [OF rs(2)] by auto
  have one: "fits12 1" "simm 1 = (1 :: 'w word)" by (simp_all add: fits12_def simm_def)
  note def = emit_icmp_def via_temp_def fresh_reg_bump Let_def
  have less: "emits exec {rd} s (push_inst (emit_sltu T rd a b) s) (\<lambda>st st'. get_reg (zero_reg T) st' rd =
      (if get_reg (zero_reg T) st a < get_reg (zero_reg T) st b then 1 else 0))"
    and lessS: "emits exec {rd} s (push_inst (emit_slt T rd a b) s) (\<lambda>st st'. get_reg (zero_reg T) st' rd =
      (if sint (get_reg (zero_reg T) st a) < sint (get_reg (zero_reg T) st b) then 1 else 0))" for a b
    by (rule emits_runs, (rule runs_as_intros run_op3)+,
        use rd in \<open>simp_all add: agree_except_putI rv_sltu_def rv_slt_def\<close>)+
  have geq: "emits exec {rd} s (push_inst (emit_xori T rd (Virtual ?c) 1) (push_inst (emit_sltu T (Virtual ?c) a b) (bump s)))
      (\<lambda>st st'. get_reg (zero_reg T) st' rd = (if get_reg (zero_reg T) st b \<le> get_reg (zero_reg T) st a then 1 else 0))"
    and geqS: "emits exec {rd} s (push_inst (emit_xori T rd (Virtual ?c) 1) (push_inst (emit_slt T (Virtual ?c) a b) (bump s)))
      (\<lambda>st st'. get_reg (zero_reg T) st' rd =
        (if sint (get_reg (zero_reg T) st b) \<le> sint (get_reg (zero_reg T) st a) then 1 else 0))"
    if "a \<noteq> Virtual ?c" "b \<noteq> Virtual ?c" for a b
    by (rule emits_runs, (rule runs_as_intros run_op3 run_imm(2) [OF one(1)])+,
        use rd that in \<open>simp_all add: agree_except_putI one xor_one\<close>)+
  note geq = geq [OF c] geq [OF c(2,1)] and geqS = geqS [OF c] geqS [OF c(2,1)]
  show ?thesis
  proof (cases op)
    case CEq
    show ?thesis
    proof (cases "rs1 = Physical (zero_reg T) \<or> rs2 = Physical (zero_reg T)")
      case True
      have seqz: "emits exec {rd} s (push_inst (emit_sltiu T rd r 1) s)
          (\<lambda>st st'. get_reg (zero_reg T) st' rd = (if get_reg (zero_reg T) st r = 0 then 1 else 0))" for r
        by (rule emits_runs, (rule runs_as_intros run_imm [OF one(1)])+)
          (use rd in \<open>simp_all add: agree_except_putI one sltu_simps\<close>)
      from True emits_mono [OF seqz [of rs1]] emits_mono [OF seqz [of rs2]] show ?thesis unfolding def CEq by auto
    next
      case False
      have "emits exec {rd} s (push_inst (emit_sltiu T rd (Virtual ?c) 1) (push_inst (emit_xor T (Virtual ?c) rs1 rs2) (bump s)))
          (\<lambda>st st'. get_reg (zero_reg T) st' rd = (if word_cmp op (get_reg (zero_reg T) st rs1) (get_reg (zero_reg T) st rs2) then 1 else 0))"
        by (rule emits_runs, (rule runs_as_intros run_op3 run_imm [OF one(1)])+)
          (use rd c in \<open>simp_all add: agree_except_putI get_put_reg one sltu_simps CEq xor_zero_iff\<close>)
      with False show ?thesis unfolding def CEq by simp
    qed
  next
    case CNe
    show ?thesis
    proof (cases "rs1 = Physical (zero_reg T) \<or> rs2 = Physical (zero_reg T)")
      case True
      have snez: "emits exec {rd} s (push_inst (emit_sltu T rd (Physical (zero_reg T)) r) s)
          (\<lambda>st st'. get_reg (zero_reg T) st' rd = (if get_reg (zero_reg T) st r = 0 then 0 else 1))" for r
        by (rule emits_runs, (rule runs_as_intros run_op3)+)
          (use rd in \<open>simp_all add: agree_except_putI sltu_simps\<close>)
      from True emits_mono [OF snez [of rs1]] emits_mono [OF snez [of rs2]] show ?thesis unfolding def CNe by auto
    next
      case False
      have "emits exec {rd} s (push_inst (emit_sltu T rd (Physical (zero_reg T)) (Virtual ?c))
            (push_inst (emit_xor T (Virtual ?c) rs1 rs2) (bump s)))
          (\<lambda>st st'. get_reg (zero_reg T) st' rd = (if word_cmp op (get_reg (zero_reg T) st rs1) (get_reg (zero_reg T) st rs2) then 1 else 0))"
        by (rule emits_runs, (rule runs_as_intros run_op3)+)
          (use rd c in \<open>simp_all add: agree_except_putI get_put_reg sltu_simps CNe xor_zero_iff\<close>)
      with False show ?thesis unfolding def CNe by simp
    qed
  qed (simp_all only: def icmp_code.case prod.case word_cmp.simps less lessS geq geqS)
qed

lemma emit_icmp_branch_correct:
  "taken (emit_icmp_branch T op rs1 rs2 label) st =
     Some (word_cmp op (get_reg (zero_reg T) st rs1) (get_reg (zero_reg T) st rs2))"
  by (cases op) (simp_all add: emit_icmp_branch_def taken_simps)

end

end
