(* ===== verification/Lower_Binary.thy ===== *)
theory Lower_Binary
  imports Lower_Arith
begin

text \<open>
  The binary operations of \<open>Lowerer::lower_instruction\<close> on a \<open>scalar_machine\<close>, first on words (an
  operand in a register, a constant or a second register, and the register of the result), then on
  the values of the IR.
\<close>

unbundle bit_operations_syntax

section \<open>Words\<close>

abbreviation machine32 :: "binary_opcode \<Rightarrow> nat \<Rightarrow> bool" where
  "machine32 \<equiv> binary_op_has_32_bit_machine_result"

text \<open>The low bits of these operations depend on the low bits of their operands only.\<close>

definition low_op :: "binary_opcode \<Rightarrow> bool" where
  "low_op op \<longleftrightarrow> op \<in> {Add, Sub, Mul, BitAnd, BitOr, BitXor}"

lemma low_op_cong:
  fixes x y x' y' :: "'w :: len word"
  assumes op: "low_op op" and n: "n \<le> LENGTH('w)"
    and xy: "uint x mod 2 ^ n = uint x' mod 2 ^ n" "uint y mod 2 ^ n = uint y' mod 2 ^ n"
  shows "uint (word_op op x y) mod 2 ^ n = uint (word_op op x' y') mod 2 ^ n"
proof -
  note t = xy [folded take_bit_eq_mod]
  have a: "uint (u + v) mod 2 ^ n = (uint u mod 2 ^ n + uint v mod 2 ^ n) mod 2 ^ n"
    "uint (u - v) mod 2 ^ n = (uint u mod 2 ^ n - uint v mod 2 ^ n) mod 2 ^ n"
    "uint (u * v) mod 2 ^ n = (uint u mod 2 ^ n * (uint v mod 2 ^ n)) mod 2 ^ n" for u v :: "'w word"
    using uint_arith_mod [OF n, of "uint u" "uint v"] by (simp_all add: mod_simps)
  from op consider "op \<in> {Add, Sub, Mul}" | "op \<in> {BitAnd, BitOr, BitXor}" unfolding low_op_def by blast
  then show ?thesis
  proof cases
    case 1
    then show ?thesis by (elim insertE emptyE) (simp_all only: word_op.simps a [of x y] a [of x' y'] xy)
  next
    case 2
    then show ?thesis unfolding take_bit_eq_mod [symmetric]
      by (elim insertE emptyE)
        (simp_all only: word_op.simps uint_and uint_or uint_xor take_bit_and take_bit_or take_bit_xor t)
  qed
qed

lemma word_op_imm:
  fixes x y :: "'w :: len word"
  assumes n: "0 < n" "n \<le> LENGTH('w)" and a: "0 \<le> a" "a < 2 ^ n" and b: "0 \<le> b" "b < 2 ^ n"
    and v: "binary_val op n a b = Some v"
    and x: "x = normal (binary_operands_are_signed op) n a"
    and y: "uint y mod 2 ^ n = b" "\<not> low_op op \<Longrightarrow> y = normal (binary_operands_are_signed op) n b"
  shows "uint (word_op op x y) mod 2 ^ n = v"
proof (cases "low_op op")
  case True
  have "uint (word_op op x y) mod 2 ^ n = uint (word_op op x (normal (binary_operands_are_signed op) n b)) mod 2 ^ n"
    by (rule low_op_cong [OF True n(2) refl]) (use y normal_mod [OF n] b in simp)
  also have "\<dots> = v" by (rule word_op_correct [OF n a b v x refl])
  finally show ?thesis .
next
  case False
  from word_op_correct [OF n a b v x y(2) [OF False]] show ?thesis .
qed

text \<open>A register with the reading \<open>a\<close> as the routines find it: any register for a 32-bit operation,
  a normalised one for the others; \<open>known\<close> says that it is known to be sign extended.\<close>

definition operand_word :: "binary_opcode \<Rightarrow> nat \<Rightarrow> bool \<Rightarrow> int \<Rightarrow> 'w :: len word \<Rightarrow> bool" where
  "operand_word op n known a x \<longleftrightarrow> uint x mod 2 ^ n = a \<and>
     (\<not> machine32 op n \<longrightarrow> x = normal (binary_operands_are_signed op) n a) \<and>
     (known \<longrightarrow> x = normal True n a)"

definition result_word :: "binary_opcode \<Rightarrow> nat \<Rightarrow> int \<Rightarrow> 'w :: len word \<Rightarrow> bool" where
  "result_word op n v y \<longleftrightarrow> uint y mod 2 ^ n = v \<and> (machine32 op n \<longrightarrow> y = normal True n v)"

text \<open>The constants the routines are right for.  A shift amount is below the width.  Two kinds are left
  out: an unsigned division of a narrow type by a constant whose sign bit is set (the immediate is
  sign extended), and on RV64 the 32-bit products, quotients and remainders that go through a copy
  or a 64-bit subtraction, unless the operand is known to be sign extended.\<close>

definition imm_safe :: "('r, 'i, 'z) target_alu_scheme \<Rightarrow> binary_opcode \<Rightarrow> nat \<Rightarrow> i32 \<Rightarrow> bool \<Rightarrow> bool" where
  "imm_safe T op n imm known \<longleftrightarrow>
     (op \<in> {Shl, LShr, AShr} \<longrightarrow> 0 \<le> sint imm \<and> sint imm < int n) \<and>
     (op \<in> {UDiv, URem} \<and> n \<noteq> 32 \<longrightarrow> 0 \<le> sint imm) \<and>
     (narrow T n \<longrightarrow>
        (op = Mul \<longrightarrow> (sint imm < 0 \<longrightarrow> \<not> is_power_of_two (unsigned_abs imm)) \<and> (imm = 1 \<longrightarrow> known)) \<and>
        (op = UDiv \<longrightarrow> imm = 1 \<longrightarrow> known) \<and>
        (op = SDiv \<longrightarrow> unsigned_abs imm = 1 \<longrightarrow> imm = 1 \<and> known) \<and>
        (op = SRem \<longrightarrow> is_power_of_two (unsigned_abs imm) \<longrightarrow> known \<and> 0 < sint imm))"

text \<open>The immediate is the constant of reading \<open>b\<close>.\<close>

definition imm_of :: "nat \<Rightarrow> int \<Rightarrow> i32 \<Rightarrow> bool" where
  "imm_of n b imm \<longleftrightarrow> 0 \<le> b \<and> b < 2 ^ n \<and> sint imm = (if n = 1 then b else signed_of n b)"

lemma imm_of_mod: "imm_of n b imm \<Longrightarrow> 0 < n \<Longrightarrow> sint imm mod 2 ^ n = b"
  by (auto simp: imm_of_def signed_of_mod)

lemma imm_of_word:
  assumes i: "imm_of n b imm" and n: "0 < n" "n \<le> LENGTH('w)"
  shows "uint (simm imm :: 'w :: len word) mod 2 ^ n = b"
    "n \<noteq> 1 \<Longrightarrow> simm imm = (normal True n b :: 'w word)"
    "0 \<le> sint imm \<Longrightarrow> sint imm = b \<and> simm imm = (normal False n b :: 'w word)"
proof -
  show "uint (simm imm :: 'w word) mod 2 ^ n = b"
    using reads_simm [OF n(2), of imm] imm_of_mod [OF i n(1)] by simp
  show "n \<noteq> 1 \<Longrightarrow> simm imm = (normal True n b :: 'w word)" using i by (simp add: simm_def normal_def imm_of_def)
  assume "0 \<le> sint imm"
  have "sint imm = b"
  proof (cases "n = 1")
    case False
    then have "sint imm = signed_of n b" using i by (simp add: imm_of_def)
    moreover have "signed_of n b < 2 ^ n"
      by (rule less_le_trans [OF conjunct2 [OF signed_of_range [OF n(1)]] power_increasing]) simp_all
    ultimately have "sint imm mod 2 ^ n = sint imm" using \<open>0 \<le> sint imm\<close> by simp
    with imm_of_mod [OF i n(1)] show ?thesis by simp
  qed (use i in \<open>simp add: imm_of_def\<close>)
  then show "sint imm = b \<and> simm imm = (normal False n b :: 'w word)" by (simp add: simm_def normal_def)
qed

lemma word_op_w: "machine32 op n \<Longrightarrow> n = 32 \<and> \<not> op \<in> {BitAnd, BitOr, BitXor}"
  by (auto simp: binary_op_has_32_bit_machine_result_def)

context scalar_machine
begin

lemma run_binary_reg:
  "exec (binary_reg_inst T op (machine32 op n) rd a b) st = Some (put_reg (zero_reg T) rd
     ((if machine32 op n then w_op (word_op op) else word_op op) (get_reg (zero_reg T) st a) (get_reg (zero_reg T) st b)) st)"
  using word_op_w [of op n] by (cases op) (auto simp: exec_simps step_op3_def)

lemma result_wordI:
  fixes x y :: "'w word"
  assumes n: "0 < n" "n \<le> LENGTH('w)" and v: "binary_val op n a b = Some v" and b: "0 \<le> b" "b < 2 ^ n"
    and x: "operand_word op n known a x" and y: "uint y mod 2 ^ n = b"
    and y': "\<not> machine32 op n \<Longrightarrow> \<not> low_op op \<Longrightarrow> y = normal (binary_operands_are_signed op) n b"
  shows "result_word op n v ((if machine32 op n then w_op (word_op op) else word_op op) x y)"
proof -
  have a: "0 \<le> a" "a < 2 ^ n" using x by (auto simp: operand_word_def)
  show ?thesis
  proof (cases "machine32 op n")
    case True
    with word_op_w have "n = 32" by blast
    with narrow_op_correct [of x a y b op v] x y v True normal_mod [of 32 True v, where 'w = 'w] width(2)
      binary_val_range [of 32 a b op v, where 'w = 'w] a b
    show ?thesis by (simp add: result_word_def operand_word_def)
  next
    case False
    with word_op_imm [OF n a b v _ y y'] x show ?thesis by (simp add: result_word_def operand_word_def)
  qed
qed

lemma runs_inst:
  assumes "\<And>st. exec ins st = Some (put_reg (zero_reg T) rd (f st) st)" "rd \<noteq> Physical (zero_reg T)"
  shows "emits exec {rd} s (push_inst ins s) (\<lambda>st st'. get_reg (zero_reg T) st' rd = f st)"
  by (rule emits_runs, (rule runs_as_intros assms(1))+) (use assms(2) in \<open>simp_all add: agree_except_putI\<close>)

text \<open>The second operand in a register.\<close>

lemma binary_reg_correct:
  assumes "rd \<noteq> Physical (zero_reg T)"
  shows "emits exec {rd} s (push_inst (binary_reg_inst T op (machine32 op n) rd rs1 rs2) s) (\<lambda>st st'.
    get_reg (zero_reg T) st' rd = (if machine32 op n then w_op (word_op op) else word_op op)
      (get_reg (zero_reg T) st rs1) (get_reg (zero_reg T) st rs2))"
  by (rule runs_inst [OF run_binary_reg assms])

text \<open>The second operand as an immediate of the instruction.\<close>

lemma simm_neg: "sint imm \<noteq> - 2147483648 \<Longrightarrow> simm (- imm) = - (simm imm :: 'x :: len word)"
proof -
  assume a: "sint imm \<noteq> - 2147483648"
  have r: "- 2147483648 \<le> sint imm" "sint imm < 2147483648" using sint_range_size [of imm] by (simp_all add: word_size)
  have "- imm = word_of_int (- sint imm)" by simp
  then have "sint (- imm) = sint (word_of_int (- sint imm) :: i32)" by (simp only:)
  also have "\<dots> = - sint imm" by (rule sint_of_int) (use a r in \<open>simp add: i32_range_def\<close>)
  finally show ?thesis by (simp add: simm_def)
qed

lemma w_op_add_neg: "w_op (+) x (- y) = w_op (-) x (y :: 'w word)"
proof -
  have l: "32 \<le> LENGTH('w)" using xlen by auto
  have "uint (- y) mod 2 ^ 32 = (- uint y) mod 2 ^ 32"
    using uint_arith_mod(2) [OF l, of 0 "uint y"] by simp
  then have "(word_of_int (uint (- y)) :: 32 word) = word_of_int (- uint y)"
    unfolding word_of_int_eq_iff take_bit_eq_mod by simp
  also have "\<dots> = - word_of_int (uint y)" by (rule wi_hom_neg [symmetric])
  finally show ?thesis unfolding w_op_def by (simp only: add_uminus_conv_diff)
qed

lemma imm_inst_run:
  assumes e: "binary_imm_inst T op (machine32 op n) rd rs imm n s = (Some ins, s')"
    and op: "op \<notin> {Mul, UDiv, SDiv, URem, SRem}" "op \<in> {Shl, LShr, AShr} \<Longrightarrow> sint imm < int n"
  shows "s' = s" and "exec ins st = Some (put_reg (zero_reg T) rd
     ((if machine32 op n then w_op (word_op op) else word_op op) (get_reg (zero_reg T) st rs) (simm imm)) st)"
proof -
  show "s' = s" using e op(1) by (cases op) (simp_all split: if_splits)
  note defs = step_imm_def step_shift_imm_def fits12_def imm12_def shift_in_range_def
  from op(1) consider "op = Sub" | "op \<in> {Shl, LShr, AShr}" | "op \<in> {Add, BitAnd, BitOr, BitXor}" by (cases op) simp_all
  then show "exec ins st = Some (put_reg (zero_reg T) rd
     ((if machine32 op n then w_op (word_op op) else word_op op) (get_reg (zero_reg T) st rs) (simm imm)) st)"
  proof cases
    case 1
    with e have m: "sint imm \<noteq> - 2147483648" and f: "fits12 (- imm)"
      and ins: "ins = (if machine32 op n then emit_addiw T else emit_addi T) rd rs (- imm)"
      by (auto simp: imm12_def fits12_def split: if_splits)
    show ?thesis unfolding ins 1 using run_imm(1,6) [OF f] simm_neg [OF m, where 'x = 'w]
      by (simp add: w_op_add_neg)
  next
    case 2
    have "(2 :: int) ^ SHIFT_AMT_BITS T = int LENGTH('w)" by (metis of_nat_numeral of_nat_power shift_bits)
    with 2 e op(2) word_op_w [of op n] show ?thesis
      by (elim insertE emptyE) (auto simp: exec_simps defs split: if_splits)
  next
    case 3
    with e word_op_w [of op n] show ?thesis
      by (elim insertE emptyE) (auto simp: exec_simps defs split: if_splits)
  qed
qed

text \<open>The second operand in a register that receives the constant.\<close>

lemma loaded_imm_correct:
  assumes rd: "rd \<noteq> Physical (zero_reg T)" and rs: "old_reg s rs"
    and e: "or_load_imm T (binary_reg_inst T op (machine32 op n) rd rs) imm (False, s) = (ins, s')"
  shows "\<exists>i. ins = Some i \<and> emits exec {rd} s (push_inst i s') (\<lambda>st st'.
    get_reg (zero_reg T) st' rd = (if machine32 op n then w_op (word_op op) else word_op op)
      (get_reg (zero_reg T) st rs) (simm imm))"
proof -
  let ?c = "Virtual (next_vreg s)" and ?f = "if machine32 op n then w_op (word_op op) else word_op op"
  have c: "rs \<noteq> ?c" using old_reg_neq [OF rs] by auto
  from e have ins: "ins = Some (binary_reg_inst T op (machine32 op n) rd rs ?c)"
    and s': "s' = push_inst (load_imm T ?c imm) (bump s)"
    by (auto simp: or_load_imm_def fresh_reg_bump)
  have "emits exec {rd, ?c} (bump s) s' (\<lambda>st st'. get_reg (zero_reg T) st' ?c = simm imm \<and>
      get_reg (zero_reg T) st' rs = get_reg (zero_reg T) st rs)"
    unfolding s' by (rule emits_runs, (rule runs_as_intros run_op3)+) (use c in \<open>simp_all add: agree_except_putI get_put_reg\<close>)
  moreover have "emits exec {rd, ?c} s' (push_inst (binary_reg_inst T op (machine32 op n) rd rs ?c) s') (\<lambda>st st'.
      get_reg (zero_reg T) st' rd = ?f (get_reg (zero_reg T) st rs) (get_reg (zero_reg T) st ?c))"
    by (rule emits_mono [OF binary_reg_correct [OF rd]]) auto
  ultimately have "emits exec {rd, ?c} (bump s) (push_inst (binary_reg_inst T op (machine32 op n) rd rs ?c) s')
      (\<lambda>st st'. get_reg (zero_reg T) st' rd = ?f (get_reg (zero_reg T) st rs) (simm imm))"
    by (rule emits_seq) simp
  then have "emits exec {rd} s (push_inst (binary_reg_inst T op (machine32 op n) rd rs ?c) s')
      (\<lambda>st st'. get_reg (zero_reg T) st' rd = ?f (get_reg (zero_reg T) st rs) (simm imm))"
    by (rule emits_bump) auto
  with ins show ?thesis by blast
qed

section \<open>Results of the constant routines\<close>

lemma result_wide:
  assumes n: "\<not> narrow T n" and v: "uint (y :: 'w word) mod 2 ^ n = v"
  shows "result_word op n v y"
proof -
  have "y = normal True 32 v" if "machine32 op n"
  proof -
    have "n = 32" "LENGTH('w) = 32" using that word_op_w n xlen by (auto simp: narrow_iff)
    then show ?thesis using word_normal_full [of y v True] v by (simp only:)
  qed
  with v show ?thesis using word_op_w [of op n] by (auto simp: result_word_def)
qed

lemma result_narrow: "narrow T n \<Longrightarrow> 0 \<le> v \<Longrightarrow> v < 2 ^ 32 \<Longrightarrow> y = normal True 32 v \<Longrightarrow> result_word op n v (y :: 'w word)"
  using normal_mod [of 32 True v, where 'w = 'w] by (simp add: result_word_def narrow_iff)

lemma narrow_machine32: "narrow T n \<Longrightarrow> op \<in> {Mul, UDiv, SDiv, URem, SRem} \<Longrightarrow> machine32 op n"
  by (auto simp: narrow_iff binary_op_has_32_bit_machine_result_def)

lemma signed_of_id: "- (2 ^ 31) \<le> t \<Longrightarrow> t < 2 ^ 31 \<Longrightarrow> normal True 32 (t mod 2 ^ 32) = word_of_int t"
proof -
  assume t: "- (2 ^ 31) \<le> t" "t < 2 ^ 31"
  have "signed_of 32 t = t" using t by (simp add: signed_of_def signed_take_bit_int_eq_self)
  then show ?thesis unfolding normal_def if_True signed_of_mod_arg [OF zero_less_numeral] by (simp only:)
qed

lemma uint_imm:
  assumes i: "imm_of n b imm" and n: "0 < n" "n \<le> LENGTH('w)" and p: "n \<noteq> 32 \<Longrightarrow> 0 \<le> sint imm"
  shows "uint imm = b"
proof (cases "n = 32")
  case True
  have "uint imm = sint imm mod 2 ^ 32" unfolding uint_sint [of imm] take_bit_eq_mod by simp
  with imm_of_mod [OF i n(1)] True show ?thesis by simp
next
  case False
  then have "0 \<le> sint imm" "sint imm = b" using imm_of_word(3) [OF i n] p by auto
  then show ?thesis unfolding uint_sint [of imm] using uint_lt2p [of imm] sint_less [of imm]
    by (simp add: take_bit_int_eq_self)
qed

lemma emits_post:
  "emits exec W s s' P \<Longrightarrow> (\<And>st st'. P st st' \<Longrightarrow> Q st st') \<Longrightarrow> emits exec W s s' Q"
  by (erule emits_mono) auto

lemma mul_const_result:
  assumes e: "emit_mul_const T rd rs imm n s = (True, s')"
    and rs: "old_reg s rs" and rd: "rd \<noteq> Physical (zero_reg T)" "old_reg s rd"
    and n: "0 < n" "n \<le> LENGTH('w)" and i: "imm_of n b imm" and safe: "imm_safe T Mul n imm known"
  shows "emits exec {rd} s s' (\<lambda>st st'. \<forall>a v. operand_word Mul n known a (get_reg (zero_reg T) st rs) \<longrightarrow>
    binary_val Mul n a b = Some v \<longrightarrow> result_word Mul n v (get_reg (zero_reg T) st' rd))"
proof (rule emits_post [OF emit_mul_const_correct [OF rs rd e]], intro allI impI)
  fix st st' :: "('r, 'w word) mstate" and a v
  let ?x = "get_reg (zero_reg T) st rs" and ?y = "get_reg (zero_reg T) st' rd"
  assume P: "(\<not> narrow T n \<or> \<bar>sint imm\<bar> \<le> 1 \<longrightarrow> ?y = ?x * simm imm) \<and>
      (narrow T n \<and> 1 < sint imm \<longrightarrow> ?y = normal True 32 ((uint ?x mod 2 ^ 32 * sint imm) mod 2 ^ 32))"
    and x: "operand_word Mul n known a ?x" and v: "binary_val Mul n a b = Some v"
  have v': "v = (a * sint imm) mod 2 ^ n" using v imm_of_mod [OF i n(1)] by (auto simp: mod_mult_right_eq)
  have a: "uint ?x mod 2 ^ n = a" using x by (simp add: operand_word_def)
  show "result_word Mul n v ?y"
  proof (cases "narrow T n")
    case False
    with P have "?y = ?x * simm imm" by simp
    then have "uint ?y mod 2 ^ n = v" using uint_times_simm [OF n(2), of ?x imm] a v' by simp
    with False show ?thesis by (rule result_wide)
  next
    case True
    then have n32: "n = 32" by (simp add: narrow_iff)
    have p: "imm \<noteq> 0 \<Longrightarrow> imm \<noteq> 1 \<Longrightarrow> imm \<noteq> - 1 \<Longrightarrow> is_power_of_two (unsigned_abs imm)"
      using e by (auto simp: emit_mul_const_def split: if_splits)
    have "is_power_of_two (unsigned_abs (- 1))" by (simp add: is_power_of_two_def unsigned_abs_def trailing_zeros.simps [of "Suc 0"])
    with p safe True have nn: "imm \<noteq> 0 \<Longrightarrow> imm \<noteq> 1 \<Longrightarrow> 1 < sint imm"
      using sint_cases_i32 [of imm] by (cases "sint imm < 0") (auto simp: imm_safe_def)
    have vr: "0 \<le> v" "v < 2 ^ 32" using v' n32 by auto
    consider "imm = 0" | "imm = 1" | "1 < sint imm" using nn by blast
    then have "?y = normal True 32 v"
    proof cases
      case 1
      with P v' show ?thesis by (simp add: normal_def signed_of_def)
    next
      case 2
      with safe True have "?x = normal True n a" using x by (simp add: imm_safe_def operand_word_def)
      moreover have "v = a" using v' 2 a by auto
      ultimately show ?thesis using P 2 n32 by (simp add: simm_def)
    next
      case 3
      with P True a n32 v' show ?thesis by simp
    qed
    with True vr show ?thesis by (intro result_narrow)
  qed
qed

lemma udiv_const_result:
  assumes e: "emit_udiv_const T rd rs imm n s = (True, s')"
    and rs: "old_reg s rs" and rd: "rd \<noteq> Physical (zero_reg T)"
    and n: "0 < n" "n \<le> LENGTH('w)" and i: "imm_of n b imm" and safe: "imm_safe T UDiv n imm known"
  shows "emits exec {rd} s s' (\<lambda>st st'. \<forall>a v. operand_word UDiv n known a (get_reg (zero_reg T) st rs) \<longrightarrow>
    binary_val UDiv n a b = Some v \<longrightarrow> result_word UDiv n v (get_reg (zero_reg T) st' rd))"
proof (rule emits_post [OF emit_udiv_const_correct [OF rs rd e]], intro allI impI)
  fix st st' :: "('r, 'w word) mstate" and a v
  let ?x = "get_reg (zero_reg T) st rs" and ?y = "get_reg (zero_reg T) st' rd"
  assume P: "(\<not> narrow T n \<or> imm = 1 \<longrightarrow> uint ?y = uint ?x div uint imm) \<and>
      (narrow T n \<and> imm \<noteq> 1 \<longrightarrow> ?y = normal True 32 (uint ?x mod 2 ^ 32 div uint imm))"
    and x: "operand_word UDiv n known a ?x" and v: "binary_val UDiv n a b = Some v"
  have a: "uint ?x mod 2 ^ n = a" "0 \<le> a" "a < 2 ^ n" using x by (auto simp: operand_word_def)
  have b: "uint imm = b" "0 \<le> b" "b < 2 ^ n" using uint_imm [OF i n] safe i by (auto simp: imm_safe_def imm_of_def)
  have v': "v = a div b" and vr: "0 \<le> v" "v < 2 ^ n"
    using v binary_val_range [OF n a(2,3) b(2,3) v] by (auto split: if_splits)
  show "result_word UDiv n v ?y"
  proof (cases "narrow T n")
    case False
    have "uint ?x = a"
    proof (cases "machine32 UDiv n")
      case True
      then have "LENGTH('w) = n" using False word_op_w xlen by (auto simp: narrow_iff)
      then show ?thesis using a(1) uint_lt2p [of ?x] by simp
    next
      case False
      with x a(2,3) n show ?thesis by (simp add: operand_word_def uint_normal binary_operands_are_signed_def)
    qed
    with P False b v' vr have "uint ?y mod 2 ^ n = v" by simp
    with False show ?thesis by (rule result_wide)
  next
    case True
    then have n32: "n = 32" by (simp add: narrow_iff)
    have "?y = normal True 32 v"
    proof (cases "imm = 1")
      case True
      with P have "?y = ?x" by (simp add: word_uint_eq_iff)
      moreover have "v = a" using v' b True by auto
      moreover have "?x = normal True n a" using x safe True \<open>narrow T n\<close> by (simp add: imm_safe_def operand_word_def)
      ultimately show ?thesis using n32 by simp
    next
      case False
      with P True a b v' n32 show ?thesis by simp
    qed
    with True vr n32 show ?thesis by (intro result_narrow) simp_all
  qed
qed

lemma urem_const_result:
  assumes e: "emit_urem_const T rd rs imm s = (True, s')"
    and rs: "old_reg s rs" and rd: "rd \<noteq> Physical (zero_reg T)"
    and n: "0 < n" "n \<le> LENGTH('w)" and i: "imm_of n b imm" and safe: "imm_safe T URem n imm known"
  shows "emits exec {rd} s s' (\<lambda>st st'. \<forall>a v. operand_word URem n known a (get_reg (zero_reg T) st rs) \<longrightarrow>
    binary_val URem n a b = Some v \<longrightarrow> result_word URem n v (get_reg (zero_reg T) st' rd))"
proof (rule emits_post [OF emit_urem_const_correct [OF rs rd e]], intro allI impI)
  fix st st' :: "('r, 'w word) mstate" and a v
  let ?x = "get_reg (zero_reg T) st rs" and ?y = "get_reg (zero_reg T) st' rd"
  assume y: "?y = word_of_int (uint ?x mod uint imm)"
    and x: "operand_word URem n known a ?x" and v: "binary_val URem n a b = Some v"
  have a: "uint ?x mod 2 ^ n = a" "0 \<le> a" "a < 2 ^ n" using x by (auto simp: operand_word_def)
  have b: "uint imm = b" "0 \<le> b" "b < 2 ^ n" using uint_imm [OF i n] safe i by (auto simp: imm_safe_def imm_of_def)
  have v': "v = a mod b" and vr: "0 \<le> v" "v < 2 ^ n"
    using v binary_val_range [OF n a(2,3) b(2,3) v] by (auto split: if_splits)
  show "result_word URem n v ?y"
  proof (cases "machine32 URem n")
    case False
    have "uint ?x = a" using False x a(2,3) n by (simp add: operand_word_def uint_normal binary_operands_are_signed_def)
    then have "uint ?y mod 2 ^ n = v" unfolding y b v' uint_of_int_mod [OF n(2)] using vr v' by simp
    then show ?thesis by (rule result_wide [rotated]) (use False in \<open>auto dest: narrow_machine32\<close>)
  next
    case True
    then have n32: "n = 32" using word_op_w by blast
    have "is_power_of_two (unat (1 :: u32))" by (simp add: is_power_of_two_def trailing_zeros.simps [of "Suc 0"])
    then have "is_power_of_two (unat imm)"
      using e by (cases "imm = 1") (auto simp: emit_urem_const_def split: if_splits)
    then obtain k where k: "b = 2 ^ k" "k \<le> 31" using power_of_two_u32 [of imm] b by auto
    have "uint ?x mod 2 ^ k = uint ?x mod 2 ^ 32 mod 2 ^ k" by (rule mod_pow_cancel [symmetric]) (use k in simp)
    then have y': "?y = word_of_int v" unfolding y b v' using a n32 k by simp
    have "v < 2 ^ k" unfolding v' k by simp
    also have "(2 :: int) ^ k \<le> 2 ^ 31" by (rule power_increasing) (use k in simp_all)
    finally have "normal True 32 (v mod 2 ^ 32) = (word_of_int v :: 'w word)"
      by (intro signed_of_id) (use vr in simp_all)
    moreover have "v mod 2 ^ 32 = v" using vr n32 by simp
    ultimately have "?y = normal True 32 v" using y' by simp
    moreover have "uint ?y mod 2 ^ 32 = v" unfolding y' uint_of_int_mod [OF n(2) [unfolded n32]] using vr n32 by simp
    ultimately show ?thesis using n32 by (simp add: result_word_def)
  qed
qed

text \<open>The signed dividend.\<close>

lemma signed_dividend:
  assumes x: "operand_word op n known a x" and op: "op \<in> {SDiv, SRem}" and n: "0 < n"
    and k: "narrow T n \<Longrightarrow> known"
  shows "x = (word_of_int (signed_of n a) :: 'w word)"
proof -
  have "x = normal True n a"
  proof (cases "machine32 op n")
    case False
    with x op show ?thesis by (auto simp: operand_word_def binary_operands_are_signed_def)
  next
    case True
    show ?thesis
    proof (cases "narrow T n")
      case True
      with x k show ?thesis by (simp add: operand_word_def)
    next
      case False
      then have "n = LENGTH('w)" using True word_op_w xlen by (auto simp: narrow_iff)
      moreover have "uint x mod 2 ^ n = a" using x unfolding operand_word_def by blast
      ultimately show ?thesis using word_normal_full [of x a True] by (simp only:)
    qed
  qed
  then show ?thesis by (simp add: normal_def)
qed

lemma result_signed:
  assumes "y = (word_of_int t :: 'w word)" "v = t mod 2 ^ n" "n \<le> LENGTH('w)"
    and "narrow T n \<Longrightarrow> - (2 ^ 31) \<le> t \<and> t < 2 ^ 31"
  shows "result_word op n v y"
proof (cases "narrow T n")
  case False
  show ?thesis by (rule result_wide [OF False]) (use assms in \<open>simp add: uint_of_int_mod\<close>)
next
  case True
  then have n: "n = 32" by (simp add: narrow_iff)
  have "y = normal True 32 v" unfolding assms(1,2) n by (rule signed_of_id [symmetric]) (use assms(4) [OF True] in blast)+
  moreover have "0 \<le> v" "v < 2 ^ 32" unfolding assms(2) n by simp_all
  ultimately show ?thesis by (intro result_narrow [OF True])
qed

lemma sdiv_const_result:
  assumes e: "emit_sdiv_const T rd rs imm n s = (True, s')"
    and rs: "old_reg s rs" and rd: "rd \<noteq> Physical (zero_reg T)" "old_reg s rd"
    and n: "0 < n" "n \<le> LENGTH('w)" "n \<noteq> 1" and i: "imm_of n b imm" and safe: "imm_safe T SDiv n imm known"
  shows "emits exec {rd} s s' (\<lambda>st st'. \<forall>a v. operand_word SDiv n known a (get_reg (zero_reg T) st rs) \<longrightarrow>
    binary_val SDiv n a b = Some v \<longrightarrow> result_word SDiv n v (get_reg (zero_reg T) st' rd))"
proof (rule emits_post [OF emit_sdiv_const_correct [OF rs rd n(1,2) e]], intro allI impI)
  fix st st' :: "('r, 'w word) mstate" and a v
  let ?x = "get_reg (zero_reg T) st rs" and ?y = "get_reg (zero_reg T) st' rd" and ?a = "signed_of n a"
  assume P: "\<forall>a. dividend_ok n imm ?x a \<longrightarrow> ?y = word_of_int (tdiv a (sint imm))"
    and x: "operand_word SDiv n known a ?x" and v: "binary_val SDiv n a b = Some v"
  have s: "sint imm = signed_of n b" using i n(3) by (simp add: imm_of_def)
  have v': "v = tdiv ?a (sint imm) mod 2 ^ n" using v s by (simp split: if_splits)
  have ra: "- (2 ^ (n - 1)) \<le> ?a" "?a < 2 ^ (n - 1)" using signed_of_range [OF n(1), of a] by auto
  have p: "is_power_of_two (unsigned_abs imm)"
    using e by (cases "imm = 1 \<or> imm = - 1")
      (auto simp: emit_sdiv_const_def is_power_of_two_def unsigned_abs_def trailing_zeros.simps [of "Suc 0"] split: if_splits)
  have unit: "\<bar>sint imm\<bar> \<le> 1 \<Longrightarrow> narrow T n \<Longrightarrow> imm = 1 \<and> known"
  proof -
    assume le: "\<bar>sint imm\<bar> \<le> 1" and nw: "narrow T n"
    have "\<bar>sint imm\<bar> \<noteq> 0" using power_of_two_i32(1) [OF p] by simp
    then have "unsigned_abs imm = 1" using le by (simp add: unsigned_abs_def)
    then show "imm = 1 \<and> known" using safe nw by (simp add: imm_safe_def)
  qed
  have "dividend_ok n imm ?x ?a"
  proof (cases "narrow T n \<and> 1 < \<bar>sint imm\<bar>")
    case True
    with x show ?thesis by (auto simp: dividend_ok_def operand_word_def narrow_iff)
  next
    case False
    have "?x = word_of_int ?a" by (rule signed_dividend [OF x _ n(1)]) (use False unit in force)+
    with False ra show ?thesis by (auto simp: dividend_ok_def)
  qed
  with P have y: "?y = word_of_int (tdiv ?a (sint imm))" by blast
  show "result_word SDiv n v ?y"
  proof (rule result_signed [OF y v' n(2)])
    assume nw: "narrow T n"
    then have n32: "n = 32" by (simp add: narrow_iff)
    show "- (2 ^ 31) \<le> tdiv ?a (sint imm) \<and> tdiv ?a (sint imm) < 2 ^ 31"
    proof (cases "\<bar>sint imm\<bar> \<le> 1")
      case True
      with unit nw ra n32 show ?thesis by simp
    next
      case False
      have "\<bar>tdiv ?a (sint imm)\<bar> \<le> \<bar>?a\<bar> div \<bar>sint imm\<bar>" by (simp add: tdiv_def abs_mult abs_sgn_eq pos_imp_zdiv_nonneg_iff False)
      also have "\<dots> \<le> \<bar>?a\<bar> div 2" by (rule zdiv_mono2) (use False in auto)
      finally show ?thesis using ra n32 by (auto simp: abs_le_iff)
    qed
  qed
qed

lemma srem_const_result:
  assumes e: "emit_srem_const T rd rs imm n s = (True, s')"
    and rs: "old_reg s rs" and rd: "rd \<noteq> Physical (zero_reg T)" "old_reg s rd"
    and n: "0 < n" "n \<le> LENGTH('w)" "n \<noteq> 1" and i: "imm_of n b imm" and safe: "imm_safe T SRem n imm known"
  shows "emits exec {rd} s s' (\<lambda>st st'. \<forall>a v. operand_word SRem n known a (get_reg (zero_reg T) st rs) \<longrightarrow>
    binary_val SRem n a b = Some v \<longrightarrow> result_word SRem n v (get_reg (zero_reg T) st' rd))"
proof -
  have p: "is_power_of_two (unsigned_abs imm)"
    using e by (cases "unsigned_abs imm = 1")
      (auto simp: emit_srem_const_def is_power_of_two_def trailing_zeros.simps [of "Suc 0"] split: if_splits)
  have nw: "narrow T n \<Longrightarrow> known \<and> 0 < sint imm" using p safe by (simp add: imm_safe_def)
  show ?thesis
  proof (rule emits_post [OF emit_srem_const_correct [OF rs rd n(1,2) e]], use nw in blast, intro allI impI)
    fix st st' :: "('r, 'w word) mstate" and a v
    let ?x = "get_reg (zero_reg T) st rs" and ?y = "get_reg (zero_reg T) st' rd" and ?a = "signed_of n a"
    assume P: "\<forall>a. ?x = word_of_int a \<and> - (2 ^ (n - 1)) \<le> a \<and> a < 2 ^ (n - 1) \<longrightarrow>
        ?y = word_of_int (trem a (sint imm))"
      and x: "operand_word SRem n known a ?x" and v: "binary_val SRem n a b = Some v"
    have s: "sint imm = signed_of n b" using i n(3) by (simp add: imm_of_def)
    have v': "v = trem ?a (sint imm) mod 2 ^ n" using v s by (simp split: if_splits)
    have ra: "- (2 ^ (n - 1)) \<le> ?a" "?a < 2 ^ (n - 1)" using signed_of_range [OF n(1), of a] by auto
    have "?x = word_of_int ?a" by (rule signed_dividend [OF x _ n(1)]) (use nw in simp_all)
    with P ra have y: "?y = word_of_int (trem ?a (sint imm))" by blast
    have sg: "trem ?a (sint imm) = sgn ?a * (\<bar>?a\<bar> mod \<bar>sint imm\<bar>)"
      by (simp add: trem_def tdiv_def minus_mult_div_eq_mod [symmetric] algebra_simps abs_sgn)
    have le: "\<bar>?a\<bar> mod \<bar>sint imm\<bar> \<le> \<bar>?a\<bar>" "0 \<le> \<bar>?a\<bar> mod \<bar>sint imm\<bar>"
      by (simp add: zmod_le_nonneg_dividend) (cases "sint imm = 0"; simp)
    show "result_word SRem n v ?y"
    proof (rule result_signed [OF y v' n(2)])
      assume "narrow T n"
      then have "n = 32" by (simp add: narrow_iff)
      then show "- (2 ^ 31) \<le> trem ?a (sint imm) \<and> trem ?a (sint imm) < 2 ^ 31"
        unfolding sg using ra le by (cases "?a" "0 :: int" rule: linorder_cases; intro conjI; simp add: sgn_if; linarith?)
    qed
  qed
qed

section \<open>The two forms of the right operand\<close>

lemma sdiv_const_applies:
  assumes "imm \<noteq> 0" "sint imm \<noteq> - 2147483648" "is_power_of_two (unsigned_abs imm)"
  shows "fst (emit_sdiv_const T rd rs imm n s)"
  using assms by (simp add: emit_sdiv_const_def Let_def split: prod.splits)

lemma routine_unchanged:
  "emit_mul_const T rd rs imm n s = (False, s1) \<Longrightarrow> s1 = s"
  "emit_udiv_const T rd rs imm n s = (False, s1) \<Longrightarrow> s1 = s"
  "emit_urem_const T rd rs imm s = (False, s1) \<Longrightarrow> s1 = s"
  "emit_sdiv_const T rd rs imm n s = (False, s1) \<Longrightarrow> s1 = s"
  "emit_srem_const T rd rs imm n s = (False, s1) \<Longrightarrow> s1 = s"
  subgoal by (auto simp: emit_mul_const_def Let_def split: if_splits prod.splits)
  subgoal by (auto simp: emit_udiv_const_def Let_def split: if_splits)
  subgoal by (auto simp: emit_urem_const_def Let_def split: if_splits prod.splits)
  subgoal by (auto simp: emit_sdiv_const_def Let_def split: if_splits prod.splits)
  subgoal using sdiv_const_applies [of imm "fst (fresh_reg s)" rs n "snd (fresh_reg s)"]
    by (auto simp: emit_srem_const_def Let_def split: if_splits prod.splits)
  done

text \<open>What a constant operand leaves in the register of the operation.\<close>

lemma binary_imm_correct:
  assumes e: "binary_imm_inst T op (machine32 op n) rd rs imm n s = (ins, s')"
    and lowered: "ins \<noteq> None \<or> op \<in> {Mul, UDiv, SDiv, URem, SRem}"
    and rs: "old_reg s rs" and rd: "rd \<noteq> Physical (zero_reg T)" "old_reg s rd"
    and n: "0 < n" "n \<le> LENGTH('w)" "binary_operands_are_signed op \<Longrightarrow> n \<noteq> 1"
    and i: "imm_of n b imm" and safe: "imm_safe T op n imm known"
  shows "emits exec {rd} s (case ins of Some i \<Rightarrow> push_inst i s' | None \<Rightarrow> s') (\<lambda>st st'. \<forall>a v.
    operand_word op n known a (get_reg (zero_reg T) st rs) \<longrightarrow> binary_val op n a b = Some v \<longrightarrow>
    result_word op n v (get_reg (zero_reg T) st' rd))"
proof -
  let ?f = "if machine32 op n then w_op (word_op op) else word_op op"
  have b: "0 \<le> b" "b < 2 ^ n" using i by (auto simp: imm_of_def)
  have norm: "simm imm = (normal (binary_operands_are_signed op) n b :: 'w word)"
    if "\<not> machine32 op n" "\<not> low_op op"
  proof (cases "binary_operands_are_signed op")
    case True
    with imm_of_word(2) [OF i n(1,2)] n(3) show ?thesis by simp
  next
    case False
    with that have "op \<in> {Shl, LShr} \<or> op \<in> {UDiv, URem} \<and> n \<noteq> 32"
      by (cases op) (auto simp: low_op_def binary_operands_are_signed_def binary_op_has_32_bit_machine_result_def)
    with safe have "0 \<le> sint imm" by (auto simp: imm_safe_def)
    with imm_of_word(3) [OF i n(1,2)] False show ?thesis by simp
  qed
  have word: "result_word op n v (?f x (simm imm))"
    if "operand_word op n known a x" "binary_val op n a b = Some v" for a v and x :: "'w word"
    by (rule result_wordI [OF n(1,2) that(2) b that(1) imm_of_word(1) [OF i n(1,2)] norm])
  have direct: ?thesis
    if "emits exec {rd} s (case ins of Some i \<Rightarrow> push_inst i s' | None \<Rightarrow> s') (\<lambda>st st'.
      get_reg (zero_reg T) st' rd = ?f (get_reg (zero_reg T) st rs) (simm imm))"
    by (rule emits_post [OF that]) (use word in simp)
  have routine: ?thesis
    if r: "(ins, s') = or_load_imm T (binary_reg_inst T op (machine32 op n) rd rs) imm (emitted, s1)"
      and no: "\<not> emitted \<Longrightarrow> s1 = s"
      and yes: "emitted \<Longrightarrow> emits exec {rd} s s1 (\<lambda>st st'. \<forall>a v.
        operand_word op n known a (get_reg (zero_reg T) st rs) \<longrightarrow> binary_val op n a b = Some v \<longrightarrow>
        result_word op n v (get_reg (zero_reg T) st' rd))" for emitted s1
  proof (cases emitted)
    case True
    with r yes show ?thesis by (simp add: or_load_imm_def)
  next
    case False
    with r no have "or_load_imm T (binary_reg_inst T op (machine32 op n) rd rs) imm (False, s) = (ins, s')" by simp
    from loaded_imm_correct [OF rd(1) rs this] show ?thesis by (intro direct) auto
  qed
  show ?thesis
  proof (cases "op \<in> {Mul, UDiv, SDiv, URem, SRem}")
    case False
    with lowered obtain i where ins: "ins = Some i" by auto
    have "op \<in> {Shl, LShr, AShr} \<Longrightarrow> sint imm < int n" using safe by (auto simp: imm_safe_def)
    note run = imm_inst_run [OF e [unfolded ins] False this]
    have "s' = s" by (rule run(1))
    with runs_inst [OF run(2) rd(1)] ins show ?thesis by (intro direct) simp
  next
    case True
    then show ?thesis
    proof (elim insertE emptyE)
      assume op: "op = Mul"
      obtain em s1 where r: "emit_mul_const T rd rs imm n s = (em, s1)" by fastforce
      show ?thesis by (rule routine [of em s1])
        (use e r routine_unchanged(1) [of rd rs imm n s s1] mul_const_result [of rd rs imm n s s1, OF _ rs rd n(1,2) i safe [unfolded op]]
         in \<open>simp_all add: op binary_reg_inst.simps [abs_def]\<close>)
    next
      assume op: "op = UDiv"
      obtain em s1 where r: "emit_udiv_const T rd rs imm n s = (em, s1)" by fastforce
      show ?thesis by (rule routine [of em s1])
        (use e r routine_unchanged(2) [of rd rs imm n s s1] udiv_const_result [of rd rs imm n s s1, OF _ rs rd(1) n(1,2) i safe [unfolded op]]
         in \<open>simp_all add: op\<close>)
    next
      assume op: "op = URem"
      obtain em s1 where r: "emit_urem_const T rd rs imm s = (em, s1)" by fastforce
      show ?thesis by (rule routine [of em s1])
        (use e r routine_unchanged(3) [of rd rs imm s s1] urem_const_result [of rd rs imm s s1, OF _ rs rd(1) n(1,2) i safe [unfolded op]]
         in \<open>simp_all add: op\<close>)
    next
      assume op: "op = SDiv"
      then have n1: "n \<noteq> 1" using n(3) by (simp add: binary_operands_are_signed_def)
      obtain em s1 where r: "emit_sdiv_const T rd rs imm n s = (em, s1)" by fastforce
      show ?thesis by (rule routine [of em s1])
        (use e r routine_unchanged(4) [of rd rs imm n s s1] sdiv_const_result [of rd rs imm n s s1, OF _ rs rd n(1,2) n1 i safe [unfolded op]]
         in \<open>simp_all add: op\<close>)
    next
      assume op: "op = SRem"
      then have n1: "n \<noteq> 1" using n(3) by (simp add: binary_operands_are_signed_def)
      obtain em s1 where r: "emit_srem_const T rd rs imm n s = (em, s1)" by fastforce
      show ?thesis by (rule routine [of em s1])
        (use e r routine_unchanged(5) [of rd rs imm n s s1] srem_const_result [of rd rs imm n s s1, OF _ rs rd n(1,2) n1 i safe [unfolded op]]
         in \<open>simp_all add: op\<close>)
    qed
  qed
qed

end

end
