(* ===== verification/Lower_Scalar.thy ===== *)
theory Lower_Scalar
  imports Lower_Binary
begin

text \<open>
  Selection of the scalar instructions of the IR on a \<open>scalar_machine\<close>: when the registers of the
  values that are known hold their readings, the code that \<open>lower_kind\<close> emits for an instruction
  runs, and leaves the reading of its result in the register of the instruction, and every other
  value where it was.
\<close>

unbundle bit_operations_syntax

section \<open>Values in registers\<close>

definition width_of :: "module_core \<Rightarrow> value_id \<Rightarrow> nat" where
  "width_of M v = (case int_bits_for_value M v of Some (Some n) \<Rightarrow> n | _ \<Rightarrow> 0)"

definition known_sign :: "('r, 'i, 'z) target_alu_scheme \<Rightarrow> module_core \<Rightarrow> value_id \<Rightarrow> bool" where
  "known_sign T M v \<longleftrightarrow> is_known_sign_extended T M v (width_of M v) = Some True"

text \<open>A register for the reading \<open>x\<close> of a value: its low bits are right, a Boolean is 0 or 1, and the
  register is sign extended where the lowering takes it for granted.\<close>

definition word_holds ::
  "('r, 'i, 'z) target_alu_scheme \<Rightarrow> module_core \<Rightarrow> value_id \<Rightarrow> int \<Rightarrow> 'w :: len word \<Rightarrow> bool" where
  "word_holds T M v x w \<longleftrightarrow>
     0 < width_of M v \<and> width_of M v \<le> LENGTH('w) \<and> uint w mod 2 ^ width_of M v = x \<and>
     (width_of M v = 1 \<longrightarrow> w = word_of_int x) \<and>
     (known_sign T M v \<longrightarrow> w = normal True (width_of M v) x)"

text \<open>A constant that the 32-bit immediates can express.\<close>

definition const_holds :: "module_core \<Rightarrow> const_id \<Rightarrow> int \<Rightarrow> bool" where
  "const_holds M c x \<longleftrightarrow>
     (\<exists>C k. const_map M c = Some C \<and> cd_kind C = CInt k \<and> ci_unsigned k = x \<and>
       imm_of (width_of M (VConst c)) x (as_i32 k))"

definition value_held ::
  "('r, 'i, 'z) target_alu_scheme \<Rightarrow> module_core \<Rightarrow> fn_lowering \<Rightarrow> ('r, 'w :: len word) mstate \<Rightarrow>
     value_id \<Rightarrow> int \<Rightarrow> bool" where
  "value_held T M fn st v x \<longleftrightarrow>
     (case v of
        VConst c \<Rightarrow> const_holds M c x \<and> 0 < width_of M v \<and> width_of M v \<le> LENGTH('w)
      | VGlobal _ \<Rightarrow> False
      | _ \<Rightarrow> (\<forall>r. fl_vregs fn v = Some r \<longrightarrow> word_holds T M v x (get_reg (zero_reg T) st (Virtual r))))"

definition values_held ::
  "('r, 'i, 'z) target_alu_scheme \<Rightarrow> module_core \<Rightarrow> fn_lowering \<Rightarrow> (value_id \<Rightarrow> int option) \<Rightarrow>
     ('r, 'w :: len word) mstate \<Rightarrow> bool" where
  "values_held T M fn env st \<longleftrightarrow> (\<forall>v x. env v = Some x \<longrightarrow> value_held T M fn st v x)"

text \<open>The register map is injective and behind the counter.\<close>

definition placed :: "('r, 'i) lower_state \<Rightarrow> bool" where
  "placed s \<longleftrightarrow> inj_on (fl_vregs (ls_fn s)) (dom (fl_vregs (ls_fn s))) \<and>
     (\<forall>v r. fl_vregs (ls_fn s) v = Some r \<longrightarrow> r < next_vreg s)"

section \<open>Runs of emitted code\<close>

definition reach ::
  "('i \<Rightarrow> ('r, 'v) mstate \<Rightarrow> ('r, 'v) mstate option) \<Rightarrow> 'r register set \<Rightarrow> ('r, 'i) lower_state \<Rightarrow>
     ('r, 'v) mstate \<Rightarrow> ('r, 'i) lower_state \<Rightarrow> ('r, 'v) mstate \<Rightarrow> bool" where
  "reach exec W s st s' st' \<longleftrightarrow> only_vregs s s' \<and>
     (\<exists>code. ls_out s' = ls_out s @ code \<and> exec_all exec code st = Some st') \<and>
     agree_except (W \<union> fresh_regs s s') st st'"

lemma emits_reach: "emits exec W s s' P \<Longrightarrow> \<exists>st'. reach exec W s st s' st' \<and> P st st'"
  unfolding emits_def reach_def by blast

lemma reach_refl: "reach exec W s st s st"
  unfolding reach_def by simp

lemma reach_mono: "reach exec W s st s' st' \<Longrightarrow> W \<subseteq> W' \<Longrightarrow> reach exec W' s st s' st'"
  unfolding reach_def by (meson agree_except_mono Un_mono order_refl)

lemma reach_trans:
  assumes "reach exec W s st s1 st1" "reach exec W s1 st1 s2 st2"
  shows "reach exec W s st s2 st2"
proof -
  from assms obtain c1 c2 where "ls_out s2 = ls_out s @ (c1 @ c2)" "exec_all exec (c1 @ c2) st = Some st2"
    unfolding reach_def by (auto simp: exec_all_append)
  moreover have "only_vregs s s2" "fresh_regs s s2 = fresh_regs s s1 \<union> fresh_regs s1 s2"
    using assms only_vregs_trans fresh_regs_trans unfolding reach_def by blast+
  moreover from this have "agree_except (W \<union> fresh_regs s s2) st st2"
    using assms unfolding reach_def by (blast intro: agree_except_trans agree_except_mono)
  ultimately show ?thesis unfolding reach_def by blast
qed

lemma reach_bump:
  assumes "reach exec W (bump s) st s' st'" "W \<subseteq> insert (Virtual (next_vreg s)) W'"
  shows "reach exec W' s st s' st'"
proof -
  have o: "only_vregs (bump s) s'" using assms(1) by (simp add: reach_def)
  have b: "only_vregs s (bump s)" by (rule only_vregs_bump) simp
  have "W \<union> fresh_regs (bump s) s' \<subseteq> W' \<union> fresh_regs s s'"
    using assms(2) only_vregs_le [OF o] by (force simp: fresh_regs_def)
  with assms(1) only_vregs_trans [OF b o] show ?thesis
    unfolding reach_def by (auto simp: bump_def intro: agree_except_mono)
qed

lemma reach_only: "reach exec W s st s' st' \<Longrightarrow> only_vregs s s'"
  by (simp add: reach_def)

lemma reach_fn: "reach exec W s st s' st' \<Longrightarrow> ls_fn s' = ls_fn s"
  by (simp add: reach_def only_vregs_def)

lemma reach_old: "reach exec W s st s' st' \<Longrightarrow> old_reg s r \<Longrightarrow> old_reg s' r"
  by (simp add: reach_def old_reg_mono)

lemma reach_get:
  "reach exec W s st s' st' \<Longrightarrow> old_reg s r \<Longrightarrow> r \<notin> W \<Longrightarrow> get_reg zero st' r = get_reg zero st r"
  by (rule agree_except_get [of "W \<union> fresh_regs s s'"]) (auto simp: reach_def dest: old_reg_not_fresh)

lemma reach_placed: "reach exec W s st s' st' \<Longrightarrow> placed s \<Longrightarrow> placed s'"
  using only_vregs_le [of s s'] reach_fn [of exec W s st s' st'] by (force simp: placed_def reach_def)

lemma placed_old: "placed s \<Longrightarrow> fl_vregs (ls_fn s) v = Some r \<Longrightarrow> old_reg s (Virtual r)"
  by (simp add: placed_def)

text \<open>Only the register of \<open>i\<close> is written: every other value stays where it is.\<close>

lemma values_held_reach:
  assumes r: "reach exec W s st s' st'" and p: "placed s" and h: "values_held T M (ls_fn s) env st"
    and W: "W \<subseteq> {Virtual ri}" "W \<noteq> {} \<Longrightarrow> fl_vregs (ls_fn s) (VInst i) = Some ri \<and> env (VInst i) = None"
  shows "values_held T M (ls_fn s') env st'"
  unfolding values_held_def
proof (intro allI impI)
  fix v x assume x: "env v = Some x"
  with h have hv: "value_held T M (ls_fn s) st v x" by (simp add: values_held_def)
  have "get_reg (zero_reg T) st' (Virtual q) = get_reg (zero_reg T) st (Virtual q)"
    if q: "fl_vregs (ls_fn s) v = Some q" for q
  proof (rule reach_get [OF r placed_old [OF p q]])
    show "Virtual q \<notin> W"
    proof
      assume "Virtual q \<in> W"
      with W have "q = ri" "fl_vregs (ls_fn s) (VInst i) = Some ri" "env (VInst i) = None" by auto
      with p q have "v = VInst i" unfolding placed_def inj_on_def by (metis domI)
      with x \<open>env (VInst i) = None\<close> show False by simp
    qed
  qed
  with hv show "value_held T M (ls_fn s') st' v x"
    by (auto simp: value_held_def reach_fn [OF r] split: value_id.splits)
qed

lemma values_held_old:
  "reach exec {} s st s' st' \<Longrightarrow> placed s \<Longrightarrow> values_held T M (ls_fn s) env st \<Longrightarrow> values_held T M (ls_fn s') env st'"
  by (erule values_held_reach) simp_all

text \<open>The operation writes \<open>raw\<close>, normalisation brings its value to the register of the result.\<close>

definition binary_raw :: "binary_opcode \<Rightarrow> nat \<Rightarrow> vreg_id \<Rightarrow> ('r, 'i) lower_state \<Rightarrow>
     'r register \<times> ('r, 'i) lower_state" where
  "binary_raw op n v s = (if machine32 op n then (Virtual v, s) else (Virtual (next_vreg s), bump s))"

text \<open>The conditions under which a binary operation is selected right: one width, no signed operation
  on Booleans, and a constant right operand that the constant routines are right for.\<close>

definition binary_lowerable ::
  "('r, 'i, 'z) target_alu_scheme \<Rightarrow> module_core \<Rightarrow> nat \<Rightarrow> binary_opcode \<Rightarrow> value_id \<Rightarrow> value_id \<Rightarrow> bool" where
  "binary_lowerable T M n op l r \<longleftrightarrow>
     int_bits_for_value M l = Some (Some n) \<and> int_bits_for_value M r = Some (Some n) \<and>
     (n = 1 \<longrightarrow> \<not> binary_result_is_signed op) \<and>
     (\<forall>k. const_int M r = Some (Some k) \<longrightarrow> imm_safe T op n (as_i32 k) (known_sign T M l))"

text \<open>The scalar instructions the result is about, by the kind of \<open>i\<close> and the widths of its operands:
  \<open>w\<close> of the operands, \<open>n\<close> of the result.  A comparison that only feeds branches emits no code of its
  own.\<close>

definition scalar_lowerable ::
  "('r, 'i, 'z) target_alu_scheme \<Rightarrow> module_core \<Rightarrow> inst_ref \<Rightarrow> inst_kind \<Rightarrow> nat \<Rightarrow> nat \<Rightarrow> bool" where
  "scalar_lowerable T M i k w n \<longleftrightarrow> int_bits_for_value M (VInst i) = Some (Some n) \<and>
     (case k of
        Binary op l r \<Rightarrow> w = n \<and> binary_lowerable T M n op l r
      | ICmp op l r \<Rightarrow> n = 1 \<and> icmp_is_only_branch_cond M i = Some False \<and>
          int_bits_for_value M l = Some (Some w) \<and> int_bits_for_value M r = Some (Some w)
      | Select c t e \<Rightarrow> int_bits_for_value M c = Some (Some 1) \<and>
          int_bits_for_value M t = Some (Some n) \<and> int_bits_for_value M e = Some (Some n)
      | Trunc u \<Rightarrow> int_bits_for_value M u = Some (Some w) \<and> 0 < n \<and> n \<le> w
      | Zext u \<Rightarrow> int_bits_for_value M u = Some (Some w) \<and> w \<le> n \<and> n \<le> reg_bits T
      | Sext u \<Rightarrow> int_bits_for_value M u = Some (Some w) \<and> w \<le> n \<and> n \<le> reg_bits T \<and> n \<noteq> 1
      | _ \<Rightarrow> False)"

text \<open>Both arms of a selection are evaluated.\<close>

definition arms_known :: "(value_id \<Rightarrow> int option) \<Rightarrow> inst_kind \<Rightarrow> bool" where
  "arms_known env k \<longleftrightarrow> (case k of Select c t e \<Rightarrow> env t \<noteq> None \<and> env e \<noteq> None | _ \<Rightarrow> True)"

text \<open>What lowering needs to return: a register for every value that is read, and a test of the sign
  that finds its types.\<close>

definition values_ready ::
  "('r, 'i, 'z) target_alu_scheme \<Rightarrow> module_core \<Rightarrow> fn_lowering \<Rightarrow> (value_id \<Rightarrow> int option) \<Rightarrow> bool" where
  "values_ready T M fn env \<longleftrightarrow> (\<forall>v x. env v = Some x \<longrightarrow>
     is_known_sign_extended T M v (width_of M v) \<noteq> None \<and>
     (case v of VConst c \<Rightarrow> const_holds M c x | VGlobal g \<Rightarrow> False | _ \<Rightarrow> fl_vregs fn v \<noteq> None))"

lemma lower_operand_returns:
  assumes "values_ready T M (ls_fn s) env" "env v = Some x"
  shows "\<exists>r s1. lower_operand T M v s = Some (Inr (r, s1)) \<and> ls_fn s1 = ls_fn s"
  using assms unfolding values_ready_def
  by (cases v) (fastforce simp: lower_operand_def const_holds_def fresh_reg_bump bump_def push_inst_def)+

lemma same_fn_normalized:
  "emit_masked_value T src n s = (r, s1) \<Longrightarrow> ls_fn s1 = ls_fn s"
  "emit_sign_extended_value T src n s = (r, s1) \<Longrightarrow> ls_fn s1 = ls_fn s"
  by (auto simp: emit_masked_value_def emit_sign_extended_value_def fresh_reg_bump bump_def push_inst_def Let_def
      split: if_splits)

lemma normalized_operand_returns:
  assumes "is_known_sign_extended T M v n \<noteq> None"
  shows "\<exists>r s1. emit_normalized_int_operand T M v src n sgnd s = Some (r, s1) \<and> ls_fn s1 = ls_fn s"
  using assms same_fn_normalized
  by (cases "emit_normalized_int_value T src n sgnd s")
    (auto simp: emit_normalized_int_operand_def emit_normalized_int_value_def split: if_splits)

lemma binary_operand_returns:
  assumes "is_known_sign_extended T M v n \<noteq> None"
  shows "\<exists>r s1. (if w then Some (src, s) else emit_normalized_int_operand T M v src n sgnd s) = Some (r, s1) \<and>
    ls_fn s1 = ls_fn s"
  using normalized_operand_returns [OF assms] by auto

context scalar_machine
begin

section \<open>Operands\<close>

lemma word_holdsI:
  fixes w :: "'w word"
  assumes n: "0 < width_of M v" "width_of M v \<le> LENGTH('w)" and x: "uint w mod 2 ^ width_of M v = x"
    and one: "width_of M v = 1 \<Longrightarrow> w = word_of_int x"
    and known: "narrow T (width_of M v) \<Longrightarrow> known_sign T M v \<Longrightarrow> w = normal True (width_of M v) x"
  shows "word_holds T M v x w"
proof -
  let ?n = "width_of M v"
  have "w = normal True ?n x" if k: "known_sign T M v"
  proof (cases "narrow T ?n")
    case False
    with k have "LENGTH('w) \<le> ?n" using reg_bits_xlen xlen
      by (simp add: known_sign_def is_known_sign_extended_def narrow_iff eval_nat_numeral split: if_splits)
    with n(2) have "LENGTH('w) = ?n" by simp
    with word_normal_full [of w x True] x show ?thesis by simp
  qed (use k known in blast)
  with n x one show ?thesis by (simp add: word_holds_def)
qed

lemma lower_operand_held:
  fixes st :: "('r, 'w word) mstate"
  assumes e: "lower_operand T M v s = Some (Inr (r, s1))" and x: "env v = Some x"
    and h: "values_held T M (ls_fn s) env st" and p: "placed s"
  obtains st1 where "reach exec {} s st s1 st1" "old_reg s1 r" "word_holds T M v x (get_reg (zero_reg T) st1 r)"
proof -
  have hv: "value_held T M (ls_fn s) st v x" using h x by (simp add: values_held_def)
  show thesis
  proof (cases v)
    case (VConst c)
    with hv obtain C k where c: "const_map M c = Some C" "cd_kind C = CInt k" "ci_unsigned k = x"
      and i: "imm_of (width_of M v) x (as_i32 k)" and n: "0 < width_of M v" "width_of M v \<le> LENGTH('w)"
      by (auto simp: value_held_def const_holds_def)
    have w: "word_holds T M v x (simm (as_i32 k) :: 'w word)"
    proof (rule word_holdsI [OF n imm_of_word(1) [OF i n]])
      show "width_of M v = 1 \<Longrightarrow> simm (as_i32 k) = (word_of_int x :: 'w word)" using i by (simp add: imm_of_def simm_def)
      show "narrow T (width_of M v) \<Longrightarrow> simm (as_i32 k) = (normal True (width_of M v) x :: 'w word)"
        by (rule imm_of_word(2) [OF i n]) (simp add: narrow_iff)
    qed
    show thesis
    proof (cases "as_u64 k = 0")
      case True
      with e VConst c have rs: "r = Physical (zero_reg T)" "s1 = s" by (auto simp: lower_operand_def)
      have "x = 0" using True c(3) by (simp add: as_u64_def ci_unsigned_def)
      with i have "simm (as_i32 k) = (0 :: 'w word)" by (simp add: imm_of_def simm_def split: if_splits)
      with w rs show thesis by (intro that [of st]) (simp_all add: reach_refl)
    next
      case False
      let ?r = "Virtual (next_vreg s)"
      from False e VConst c have rs: "r = ?r" "s1 = push_inst (load_imm T ?r (as_i32 k)) (bump s)"
        by (auto simp: lower_operand_def fresh_reg_bump Let_def)
      have "emits exec {} s s1 (\<lambda>st st'. get_reg (zero_reg T) st' ?r = simm (as_i32 k))"
        unfolding rs by (rule emits_runs, (rule runs_as_intros run_op3)+) (simp_all add: agree_except_putI)
      from emits_reach [OF this, of st] w rs that show thesis by auto
    qed
  next
    case (VInst j)
    with e obtain q where q: "fl_vregs (ls_fn s) v = Some q" and rs: "r = Virtual q" "s1 = s"
      by (auto simp: lower_operand_def split: option.splits bind_splits)
    with hv VInst p show thesis by (intro that [of st]) (auto simp: value_held_def reach_refl placed_def)
  next
    case (VArg j)
    with e obtain q where q: "fl_vregs (ls_fn s) v = Some q" and rs: "r = Virtual q" "s1 = s"
      by (auto simp: lower_operand_def split: option.splits bind_splits)
    with hv VArg p show thesis by (intro that [of st]) (auto simp: value_held_def reach_refl placed_def)
  qed (use hv in \<open>simp add: value_held_def\<close>)
qed

lemma normalized_operand_held:
  fixes st :: "('r, 'w word) mstate"
  assumes e: "emit_normalized_int_operand T M v src (width_of M v) sgnd s = Some (r, s1)"
    and src: "old_reg s src" and w: "word_holds T M v x (get_reg (zero_reg T) st src)"
  obtains st1 where "reach exec {} s st s1 st1" "old_reg s1 r"
    "get_reg (zero_reg T) st1 r = normal sgnd (width_of M v) x"
proof -
  have n: "0 < width_of M v" "width_of M v \<le> LENGTH('w)" using w by (auto simp: word_holds_def)
  from e obtain known where k: "(if sgnd then is_known_sign_extended T M v (width_of M v) else Some False) = Some known"
    and rs: "(r, s1) = (if known then (src, s) else emit_normalized_int_value T src (width_of M v) sgnd s)"
    by (auto simp: emit_normalized_int_operand_def split: bind_splits)
  show thesis
  proof (cases known)
    case True
    with k have "sgnd" "known_sign T M v" by (auto simp: known_sign_def split: if_splits)
    with w True rs src show thesis by (intro that [of st]) (auto simp: word_holds_def reach_refl)
  next
    case False
    with rs have "emit_normalized_int_value T src (width_of M v) sgnd s = (r, s1)" by simp
    from emit_normalized_int_value_correct [OF src n this] w
    obtain st1 where "reach exec {} s st s1 st1" "old_reg s1 r"
      "get_reg (zero_reg T) st1 r = normal sgnd (width_of M v) (uint (get_reg (zero_reg T) st src) mod 2 ^ width_of M v)"
      by (blast dest: emits_reach)
    with w that show thesis by (simp add: word_holds_def)
  qed
qed

section \<open>Binary operations\<close>

lemma ensure_known: "fl_vregs (ls_fn s) (VInst i) = Some v \<Longrightarrow> ensure_inst_vreg i s = (Virtual v, s)"
  by (simp add: ensure_inst_vreg_def)

lemma binary_dest_known:
  assumes "fl_vregs (ls_fn s) (VInst i) = Some v"
  shows "binary_dest i op (machine32 op n) s = (Virtual v, binary_raw op n v s)"
  using assms by (cases op) (simp_all add: binary_dest_def ensure_known binary_raw_def fresh_reg_bump
      binary_result_needs_normalization_def)

lemma finish_binary_held:
  fixes st :: "('r, 'w word) mstate"
  assumes i: "int_bits_for_value M (VInst i) = Some (Some n)" "inst_at M i = Some D" "id_kind D = Binary op l r"
    and n: "0 < n" "n \<le> LENGTH('w)" and one: "n = 1 \<Longrightarrow> \<not> binary_result_is_signed op"
    and raw: "binary_raw op n v s0 = (raw, s1)" and v: "v < next_vreg s0"
    and code: "emits exec {raw} s1 s2 (\<lambda>st st'. \<forall>x. Q st x \<longrightarrow> result_word op n x (get_reg (zero_reg T) st' raw))"
    and q: "Q st y"
  shows "\<exists>st'. reach exec {Virtual v} s0 st (finish_binary T op (machine32 op n) n (Virtual v) raw s2) st' \<and>
    word_holds T M (VInst i) y (get_reg (zero_reg T) st' (Virtual v))"
proof -
  have w: "width_of M (VInst i) = n" using i(1) by (simp add: width_of_def)
  from emits_reach [OF code, of st] obtain st2 where r2: "reach exec {raw} s1 st s2 st2"
    and y: "result_word op n y (get_reg (zero_reg T) st2 raw)" using q by blast
  have norm: "binary_result_needs_normalization op" by (cases op) (simp_all add: binary_result_needs_normalization_def)
  show ?thesis
  proof (cases "machine32 op n")
    case True
    with raw have rs: "raw = Virtual v" "s1 = s0" by (simp_all add: binary_raw_def)
    from True have "n = 32" using word_op_w by blast
    have u: "uint (get_reg (zero_reg T) st2 raw) mod 2 ^ n = y" "get_reg (zero_reg T) st2 raw = normal True n y"
      using y True unfolding result_word_def by blast+
    have "word_holds T M (VInst i) y (get_reg (zero_reg T) st2 raw)"
      by (rule word_holdsI; unfold w) (rule n u(1) u(2) | use \<open>n = 32\<close> in simp)+
    with r2 rs True show ?thesis by (auto simp: finish_binary_def)
  next
    case False
    with raw have rs: "raw = Virtual (next_vreg s0)" "s1 = bump s0" by (simp_all add: binary_raw_def)
    let ?g = "binary_result_is_signed op"
    obtain m s3 where m: "emit_normalized_int_value T raw n ?g s2 = (m, s3)" by fastforce
    have old: "old_reg s2 raw" using only_vregs_le [OF reach_only [OF r2]] by (simp add: rs)
    note nv = emit_normalized_int_value_correct [OF old n m]
    obtain st3 where r3: "reach exec {} s2 st2 s3 st3"
      and z: "get_reg (zero_reg T) st3 m = normal ?g n (uint (get_reg (zero_reg T) st2 raw) mod 2 ^ n)"
      using emits_reach [OF conjunct1 [OF nv], of st2] by blast
    obtain st4 where r4: "reach exec {Virtual v} s3 st3 (emit_copy_or_move T (Virtual v) m s3) st4"
      and c: "get_reg (zero_reg T) st4 (Virtual v) = get_reg (zero_reg T) st3 m"
      using emits_reach [OF emit_copy_or_move_correct [of "Virtual v" s3 m], of st3] by auto
    have "reach exec {raw, Virtual v} s1 st (emit_copy_or_move T (Virtual v) m s3) st4"
      by (rule reach_trans [OF reach_mono [OF r2] reach_trans [OF reach_mono [OF r3] reach_mono [OF r4]]]) auto
    then have "reach exec {Virtual v} s0 st (emit_copy_or_move T (Virtual v) m s3) st4"
      unfolding rs by (rule reach_bump) auto
    moreover have g: "get_reg (zero_reg T) st4 (Virtual v) = normal ?g n y"
      using c z y by (simp add: result_word_def)
    have yr: "0 \<le> y" "y < 2 ^ n" using y by (auto simp: result_word_def)
    have "word_holds T M (VInst i) y (normal ?g n y :: 'w word)"
    proof (rule word_holdsI)
      show "uint (normal ?g n y :: 'w word) mod 2 ^ width_of M (VInst i) = y" using n w yr by (simp add: normal_mod)
      show "width_of M (VInst i) = 1 \<Longrightarrow> normal ?g n y = (word_of_int y :: 'w word)" using one w by (simp add: normal_def)
      assume "narrow T (width_of M (VInst i))" and k: "known_sign T M (VInst i)"
      then have "n = 32" "LENGTH('w) = 64" using w by (simp_all add: narrow_iff)
      with k i w reg_bits_xlen xlen have "sign_extending_op op"
        by (simp add: known_sign_def is_known_sign_extended_def eval_nat_numeral split: if_splits)
      with False \<open>n = 32\<close> show "normal ?g n y = (normal True (width_of M (VInst i)) y :: 'w word)"
        by (auto simp: sign_extending_op_def binary_op_has_32_bit_machine_result_def)
    qed (use n w in simp_all)
    moreover have "finish_binary T op (machine32 op n) n (Virtual v) raw s2 = emit_copy_or_move T (Virtual v) m s3"
      using False norm m by (simp add: finish_binary_def)
    ultimately show ?thesis using g by auto
  qed
qed

lemma binary_operand_held:
  fixes st :: "('r, 'w word) mstate"
  assumes e: "(if machine32 op n then Some (rs, s)
      else emit_normalized_int_operand T M v rs n (binary_operands_are_signed op) s) = Some (r, s1)"
    and b: "width_of M v = n" and src: "old_reg s rs" and w: "word_holds T M v x (get_reg (zero_reg T) st rs)"
  obtains st1 where "reach exec {} s st s1 st1" "old_reg s1 r"
    "operand_word op n (machine32 op n \<and> known_sign T M v) x (get_reg (zero_reg T) st1 r)"
proof (cases "machine32 op n")
  case True
  with e src w b show thesis by (intro that [of st]) (auto simp: operand_word_def word_holds_def reach_refl)
next
  case False
  have n: "0 < n" "n \<le> LENGTH('w)" and xr: "x mod 2 ^ n = x" using w b by (auto simp: word_holds_def)
  from False e b have "emit_normalized_int_operand T M v rs (width_of M v) (binary_operands_are_signed op) s = Some (r, s1)"
    by simp
  from normalized_operand_held [OF this src w] obtain st1 where st1: "reach exec {} s st s1 st1" "old_reg s1 r"
    "get_reg (zero_reg T) st1 r = normal (binary_operands_are_signed op) n x" unfolding b by blast
  have "uint (get_reg (zero_reg T) st1 r) mod 2 ^ n = x" using normal_mod [OF n] xr by (simp only: st1(3))
  with False st1(3) have "operand_word op n (machine32 op n \<and> known_sign T M v) x (get_reg (zero_reg T) st1 r)"
    unfolding operand_word_def by blast
  with st1(1,2) show thesis by (rule that)
qed

lemma const_int_held:
  assumes "value_held T M fn (st :: ('r, 'w word) mstate) v x" "const_int M v = Some (Some k)"
  shows "imm_of (width_of M v) x (as_i32 k)"
  using assms by (cases v) (auto simp: value_held_def const_int_def const_holds_def)

lemma lower_binary_imm_held:
  fixes st :: "('r, 'w word) mstate"
  assumes e: "lower_binary_imm T i op n rs1 imm s = (True, s')"
    and i: "int_bits_for_value M (VInst i) = Some (Some n)" "inst_at M i = Some D" "id_kind D = Binary op l r"
    and n: "0 < n" "n \<le> LENGTH('w)" and one: "n = 1 \<Longrightarrow> \<not> binary_result_is_signed op"
    and v: "fl_vregs (ls_fn s) (VInst i) = Some v" "v < next_vreg s" and rs: "old_reg s rs1"
    and b: "imm_of n b imm" and safe: "imm_safe T op n imm known"
    and x: "operand_word op n known a (get_reg (zero_reg T) st rs1)" and y: "binary_val op n a b = Some y"
  shows "\<exists>st'. reach exec {Virtual v} s st s' st' \<and> word_holds T M (VInst i) y (get_reg (zero_reg T) st' (Virtual v))"
proof -
  obtain raw s1 where raw: "binary_raw op n v s = (raw, s1)" by fastforce
  obtain ins s2 where ins: "binary_imm_inst T op (machine32 op n) raw rs1 imm n s1 = (ins, s2)" by fastforce
  from e raw ins have low: "ins \<noteq> None \<or> op \<in> {Mul, UDiv, SDiv, URem, SRem}"
    and s': "s' = finish_binary T op (machine32 op n) n (Virtual v) raw (case ins of Some i \<Rightarrow> push_inst i s2 | None \<Rightarrow> s2)"
    by (auto simp: lower_binary_imm_def binary_dest_known [OF v(1)] Let_def split: if_splits)
  have o: "raw \<noteq> Physical (zero_reg T)" "old_reg s1 raw" "old_reg s1 rs1"
    using raw v(2) rs by (auto simp: binary_raw_def old_reg_def split: if_splits register.splits)
  have one': "binary_operands_are_signed op \<Longrightarrow> n \<noteq> 1"
    using one by (auto simp: binary_operands_are_signed_def binary_result_is_signed_def)
  have code: "emits exec {raw} s1 (case ins of Some i \<Rightarrow> push_inst i s2 | None \<Rightarrow> s2) (\<lambda>st st'. \<forall>x.
      (\<exists>a. operand_word op n known a (get_reg (zero_reg T) st rs1) \<and> binary_val op n a b = Some x) \<longrightarrow>
      result_word op n x (get_reg (zero_reg T) st' raw))"
    by (rule emits_post [OF binary_imm_correct [OF ins low o(3) o(1,2) n one' b safe]]) auto
  show ?thesis unfolding s'
    by (rule finish_binary_held [OF i n one raw v(2) code]) (use x y in auto)
qed

lemma lower_binary_reg_held:
  fixes st :: "('r, 'w word) mstate"
  assumes e: "lower_binary_reg T M i op n n rs1 rhs s = Some (Inr s')"
    and i: "int_bits_for_value M (VInst i) = Some (Some n)" "inst_at M i = Some D" "id_kind D = Binary op l rhs"
    and n: "0 < n" "n \<le> LENGTH('w)" and one: "n = 1 \<Longrightarrow> \<not> binary_result_is_signed op"
    and v: "fl_vregs (ls_fn s) (VInst i) = Some v" and p: "placed s" and rs: "old_reg s rs1"
    and rhs: "int_bits_for_value M rhs = Some (Some n)" "env rhs = Some b" and h: "values_held T M (ls_fn s) env st"
    and x: "operand_word op n known a (get_reg (zero_reg T) st rs1)" and y: "binary_val op n a b = Some y"
  shows "\<exists>st'. reach exec {Virtual v} s st s' st' \<and> word_holds T M (VInst i) y (get_reg (zero_reg T) st' (Virtual v))"
proof -
  have w: "width_of M rhs = n" using rhs(1) by (simp add: width_of_def)
  from e rhs(1) obtain rs2 s1 rs2' s2 where o: "lower_operand T M rhs s = Some (Inr (rs2, s1))"
    and o': "(if machine32 op n then Some (rs2, s1)
        else emit_normalized_int_operand T M rhs rs2 n (binary_operands_are_signed op) s1) = Some (rs2', s2)"
    and rest: "(case binary_dest i op (machine32 op n) s2 of (rd, raw, s3) \<Rightarrow> Some (Inr
        (finish_binary T op (machine32 op n) n rd raw (push_inst (binary_reg_inst T op (machine32 op n) raw rs1 rs2') s3)))) =
        Some (Inr s' :: lower_error + _)"
    unfolding lower_binary_reg_def Let_def try_low_Inr by (auto split: bind_splits cong del: if_weak_cong)
  from lower_operand_held [OF o rhs(2) h p] obtain st1 where r1: "reach exec {} s st s1 st1" "old_reg s1 rs2"
    "word_holds T M rhs b (get_reg (zero_reg T) st1 rs2)" .
  from binary_operand_held [OF o' w r1(2,3)] obtain st2 where r2: "reach exec {} s1 st1 s2 st2" "old_reg s2 rs2'"
    "operand_word op n (machine32 op n \<and> known_sign T M rhs) b (get_reg (zero_reg T) st2 rs2')" .
  note r = reach_trans [OF r1(1) r2(1)]
  have x2: "operand_word op n known a (get_reg (zero_reg T) st2 rs1)" using x reach_get [OF r rs] by simp
  have v2: "fl_vregs (ls_fn s2) (VInst i) = Some v" "v < next_vreg s2"
    using v reach_fn [OF r] reach_placed [OF r p] by (auto simp: placed_def)
  obtain raw s3 where raw: "binary_raw op n v s2 = (raw, s3)" by fastforce
  have s': "finish_binary T op (machine32 op n) n (Virtual v) raw
      (push_inst (binary_reg_inst T op (machine32 op n) raw rs1 rs2') s3) = s'"
    using rest by (simp add: binary_dest_known [OF v2(1)] raw)
  have ne: "raw \<noteq> Physical (zero_reg T)" using raw by (auto simp: binary_raw_def split: if_splits)
  have b: "0 \<le> b" "b < 2 ^ n" using r2(3) by (auto simp: operand_word_def)
  have code: "emits exec {raw} s3 (push_inst (binary_reg_inst T op (machine32 op n) raw rs1 rs2') s3) (\<lambda>st st'. \<forall>x.
      (operand_word op n known a (get_reg (zero_reg T) st rs1) \<and>
       operand_word op n (machine32 op n \<and> known_sign T M rhs) b (get_reg (zero_reg T) st rs2') \<and> binary_val op n a b = Some x) \<longrightarrow>
      result_word op n x (get_reg (zero_reg T) st' raw))"
  proof (rule emits_post [OF binary_reg_correct [OF ne]], intro allI impI, elim conjE)
    fix st st' :: "('r, 'w word) mstate" and x
    assume g: "get_reg (zero_reg T) st' raw = (if machine32 op n then w_op (word_op op) else word_op op)
        (get_reg (zero_reg T) st rs1) (get_reg (zero_reg T) st rs2')"
      and x: "operand_word op n known a (get_reg (zero_reg T) st rs1)"
      and y: "operand_word op n (machine32 op n \<and> known_sign T M rhs) b (get_reg (zero_reg T) st rs2')"
      and v: "binary_val op n a b = Some x"
    show "result_word op n x (get_reg (zero_reg T) st' raw)" unfolding g
      by (rule result_wordI [OF n v b x]) (use y in \<open>auto simp: operand_word_def\<close>)
  qed
  have "\<exists>st'. reach exec {Virtual v} s2 st2 s' st' \<and> word_holds T M (VInst i) y (get_reg (zero_reg T) st' (Virtual v))"
    unfolding s' [symmetric] by (rule finish_binary_held [OF i n one raw v2(2) code]) (use x2 r2(3) y in auto)
  then show ?thesis using reach_trans [OF reach_mono [OF r]] by blast
qed

lemma lower_binary_held:
  fixes st :: "('r, 'w word) mstate"
  assumes e: "lower_binary T M i op l r s = Some (Inr s')"
    and i: "int_bits_for_value M (VInst i) = Some (Some n)" "inst_at M i = Some D" "id_kind D = Binary op l r"
    and ok: "binary_lowerable T M n op l r"
    and v: "fl_vregs (ls_fn s) (VInst i) = Some v" and p: "placed s"
    and ab: "env l = Some a" "env r = Some b" and h: "values_held T M (ls_fn s) env st"
    and y: "binary_val op n a b = Some y"
  shows "\<exists>st'. reach exec {Virtual v} s st s' st' \<and> word_holds T M (VInst i) y (get_reg (zero_reg T) st' (Virtual v))"
proof -
  have lb: "int_bits_for_value M l = Some (Some n)" and rb: "int_bits_for_value M r = Some (Some n)"
    and one: "n = 1 \<Longrightarrow> \<not> binary_result_is_signed op"
    and safe: "\<And>k. const_int M r = Some (Some k) \<Longrightarrow> imm_safe T op n (as_i32 k) (known_sign T M l)"
    using ok by (auto simp: binary_lowerable_def)
  have w: "width_of M l = n" "width_of M r = n" using lb rb by (simp_all add: width_of_def)
  from e obtain rs s1 rs1 s2 c where o: "lower_operand T M l s = Some (Inr (rs, s1))"
    and o': "(if machine32 op n then Some (rs, s1)
        else emit_normalized_int_operand T M l rs n (binary_operands_are_signed op) s1) = Some (rs1, s2)"
    and c: "const_int M r = Some c"
    and rest: "(case (case c of Some k \<Rightarrow> lower_binary_imm T i op n rs1 (as_i32 k) s2 | None \<Rightarrow> (False, s2)) of
        (lowered, s3) \<Rightarrow> if lowered then Some (Inr s3) else lower_binary_reg T M i op n n rs1 r s3) = Some (Inr s')"
    unfolding lower_binary_def Let_def i(1) lb Option.bind.simps option.case
    by (auto simp: try_low_Inr bind_eq_Some_conv)
  from lower_operand_held [OF o ab(1) h p] obtain st1 where r1: "reach exec {} s st s1 st1" "old_reg s1 rs"
    "word_holds T M l a (get_reg (zero_reg T) st1 rs)" .
  have n: "0 < n" "n \<le> LENGTH('w)" using r1(3) w by (auto simp: word_holds_def)
  from binary_operand_held [OF o' w(1) r1(2,3)] obtain st2 where r2: "reach exec {} s1 st1 s2 st2" "old_reg s2 rs1"
    "operand_word op n (machine32 op n \<and> known_sign T M l) a (get_reg (zero_reg T) st2 rs1)" .
  note r = reach_trans [OF r1(1) r2(1)]
  have p2: "placed s2" and h2: "values_held T M (ls_fn s2) env st2"
    using reach_placed [OF r p] values_held_old [OF r p h] by simp_all
  have v2: "fl_vregs (ls_fn s2) (VInst i) = Some v" "v < next_vreg s2" using v reach_fn [OF r] p2 by (auto simp: placed_def)
  have reg: ?thesis if s3: "reach exec {} s2 st2 s3 st2" and b: "lower_binary_reg T M i op n n rs1 r s3 = Some (Inr s')" for s3
  proof -
    note rr = reach_trans [OF r s3]
    from lower_binary_reg_held [OF b i n one _ reach_placed [OF rr p] reach_old [OF s3 r2(2)] rb ab(2)
        values_held_old [OF rr p h] r2(3) y] v reach_fn [OF rr]
    obtain st' where "reach exec {Virtual v} s3 st2 s' st'" "word_holds T M (VInst i) y (get_reg (zero_reg T) st' (Virtual v))"
      by auto
    with reach_trans [OF reach_mono [OF rr]] show ?thesis by blast
  qed
  show ?thesis
  proof (cases c)
    case None
    with rest reg [OF reach_refl] show ?thesis by simp
  next
    case (Some k)
    have b: "imm_of n b (as_i32 k)"
      using const_int_held [of M "ls_fn s" st r b k] h ab(2) c Some w(2) by (simp add: values_held_def)
    from safe c Some have "imm_safe T op n (as_i32 k) (known_sign T M l)" by simp
    then have sf: "imm_safe T op n (as_i32 k) (machine32 op n \<and> known_sign T M l)"
      unfolding imm_safe_def by (auto simp: narrow_iff binary_op_has_32_bit_machine_result_def)
    obtain lowered s3 where l: "lower_binary_imm T i op n rs1 (as_i32 k) s2 = (lowered, s3)" by fastforce
    show ?thesis
    proof (cases lowered)
      case True
      with rest Some l have "lower_binary_imm T i op n rs1 (as_i32 k) s2 = (True, s')" by simp
      from lower_binary_imm_held [OF this i n one v2 r2(2) b sf r2(3) y] reach_trans [OF reach_mono [OF r]]
      show ?thesis by blast
    next
      case False
      have only: "only_vregs s2 s3 \<and> ls_out s3 = ls_out s2"
      proof -
        obtain raw s4 where raw: "binary_raw op n v s2 = (raw, s4)" by fastforce
        with l False have "s3 = s4"
          by (cases op) (auto simp: lower_binary_imm_def binary_dest_known [OF v2(1)] Let_def split: if_splits prod.splits)
        moreover have "only_vregs s2 (bump s2)" by (rule only_vregs_bump) simp
        ultimately show ?thesis using raw by (auto simp: binary_raw_def bump_def split: if_splits)
      qed
      then have "reach exec {} s2 st2 s3 st2" by (simp add: reach_def)
      with rest Some l False show ?thesis by (intro reg) simp_all
    qed
  qed
qed

section \<open>Comparisons, selections and conversions\<close>

lemma word_holds_bool:
  fixes w :: "'w word"
  assumes "int_bits_for_value M v = Some (Some 1)" "w = word_of_int x" "x = 0 \<or> x = 1"
  shows "word_holds T M v x w"
proof (rule word_holdsI)
  have w: "width_of M v = 1" using assms(1) by (simp add: width_of_def)
  then show "0 < width_of M v" "width_of M v \<le> LENGTH('w)" using xlen by auto
  show "uint w mod 2 ^ width_of M v = x" using assms(2,3) w by auto
  show "narrow T (width_of M v) \<Longrightarrow> w = normal True (width_of M v) x" using w by (simp add: narrow_iff)
qed (use assms in simp)

lemma lower_icmp_held:
  fixes st :: "('r, 'w word) mstate"
  assumes e: "lower_icmp T M i op l r s = Some (Inr s')" and only: "icmp_is_only_branch_cond M i = Some False"
    and i: "int_bits_for_value M (VInst i) = Some (Some 1)"
    and lr: "int_bits_for_value M l = Some (Some n)" "int_bits_for_value M r = Some (Some n)"
    and v: "fl_vregs (ls_fn s) (VInst i) = Some v" and p: "placed s"
    and ab: "env l = Some a" "env r = Some b" and h: "values_held T M (ls_fn s) env st"
  shows "\<exists>st'. reach exec {Virtual v} s st s' st' \<and>
    word_holds T M (VInst i) (if icmp_val op n a b then 1 else 0) (get_reg (zero_reg T) st' (Virtual v))"
proof -
  let ?g = "icmp_operands_are_signed op"
  have w: "width_of M l = n" "width_of M r = n" using lr by (simp_all add: width_of_def)
  from e only obtain rs1 s1 rs2 s2 x1 s3 x2 s4 where
    o1: "lower_operand T M l s = Some (Inr (rs1, s1))" and o2: "lower_operand T M r s1 = Some (Inr (rs2, s2))"
    and n1: "emit_normalized_int_operand T M l rs1 n ?g s2 = Some (x1, s3)"
    and n2: "emit_normalized_int_operand T M r rs2 n ?g s3 = Some (x2, s4)"
    and rest: "(case ensure_inst_vreg i s4 of (rd, s5) \<Rightarrow> Some (Inr (emit_icmp T op rd x1 x2 s5))) = Some (Inr s' :: lower_error + _)"
    unfolding lower_icmp_def lower_icmp_operands_def normalize_icmp_operand_def lr Option.bind.simps option.case Let_def
    by (auto simp: try_low_Inr bind_eq_Some_conv)
  from lower_operand_held [OF o1 ab(1) h p] obtain st1 where r1: "reach exec {} s st s1 st1" "old_reg s1 rs1"
    "word_holds T M l a (get_reg (zero_reg T) st1 rs1)" .
  from lower_operand_held [OF o2 ab(2) values_held_old [OF r1(1) p h] reach_placed [OF r1(1) p]]
  obtain st2 where r2: "reach exec {} s1 st1 s2 st2" "old_reg s2 rs2" "word_holds T M r b (get_reg (zero_reg T) st2 rs2)" .
  have "word_holds T M l a (get_reg (zero_reg T) st2 rs1)" using r1(3) reach_get [OF r2(1) r1(2)] by simp
  from normalized_operand_held [OF n1 [folded w(1)] reach_old [OF r2(1) r1(2)] this] obtain st3 where
    r3: "reach exec {} s2 st2 s3 st3" "old_reg s3 x1" "get_reg (zero_reg T) st3 x1 = normal ?g n a" unfolding w .
  have "word_holds T M r b (get_reg (zero_reg T) st3 rs2)" using r2(3) reach_get [OF r3(1) r2(2)] by simp
  from normalized_operand_held [OF n2 [folded w(2)] reach_old [OF r3(1) r2(2)] this] obtain st4 where
    r4: "reach exec {} s3 st3 s4 st4" "old_reg s4 x2" "get_reg (zero_reg T) st4 x2 = normal ?g n b" unfolding w .
  note r = reach_trans [OF r1(1) reach_trans [OF r2(1) reach_trans [OF r3(1) r4(1)]]]
  have x1: "old_reg s4 x1" "get_reg (zero_reg T) st4 x1 = normal ?g n a"
    using r3 reach_old [OF r4(1)] reach_get [OF r4(1) r3(2)] by simp_all
  have v4: "fl_vregs (ls_fn s4) (VInst i) = Some v" using v reach_fn [OF r] by simp
  then have s': "s' = emit_icmp T op (Virtual v) x1 x2 s4" using rest by (simp add: ensure_known)
  have nn: "0 < n" "n \<le> LENGTH('w)" "0 \<le> a" "a < 2 ^ n" "0 \<le> b" "b < 2 ^ n"
    using r1(3) r2(3) w by (auto simp: word_holds_def)
  obtain st5 where r5: "reach exec {Virtual v} s4 st4 s' st5" and g: "get_reg (zero_reg T) st5 (Virtual v) =
      (if word_cmp op (get_reg (zero_reg T) st4 x1) (get_reg (zero_reg T) st4 x2) then 1 else 0)"
    unfolding s' using emits_reach [OF emit_icmp_correct [OF x1(1) r4(2), of "Virtual v"], of st4] by auto
  have "get_reg (zero_reg T) st5 (Virtual v) = word_of_int (if icmp_val op n a b then 1 else 0)"
    using g unfolding x1(2) r4(3) word_cmp_correct [OF nn] by simp
  then have "word_holds T M (VInst i) (if icmp_val op n a b then 1 else 0) (get_reg (zero_reg T) st5 (Virtual v))"
    by (rule word_holds_bool [OF i]) simp
  with reach_trans [OF reach_mono [OF r] r5] show ?thesis by blast
qed

lemma not_known_sign:
  assumes "int_bits_for_value M (VInst i) = Some (Some n)" "inst_at M i = Some D" "narrow T n"
    and "(\<exists>u. id_kind D = Trunc u) \<or> (\<exists>u. id_kind D = Zext u) \<or> (\<exists>c t e. id_kind D = Select c t e)"
  shows "\<not> known_sign T M (VInst i)"
proof -
  have "width_of M (VInst i) = n" using assms(1) by (simp add: width_of_def)
  then show ?thesis using assms reg_bits_xlen
    by (auto simp: known_sign_def is_known_sign_extended_def narrow_iff eval_nat_numeral)
qed

lemma mask_and_copy:
  fixes st :: "('r, 'w word) mstate"
  assumes m: "emit_masked_value T src k s = (m, s2)" and src: "old_reg s src" and k: "0 < k" "k \<le> LENGTH('w)"
  shows "\<exists>st'. reach exec {Virtual v} s st (emit_copy_or_move T (Virtual v) m s2) st' \<and>
    get_reg (zero_reg T) st' (Virtual v) = normal False k (uint (get_reg (zero_reg T) st src) mod 2 ^ k)"
proof -
  obtain st2 where r2: "reach exec {} s st s2 st2"
    and g2: "get_reg (zero_reg T) st2 m = normal False k (uint (get_reg (zero_reg T) st src) mod 2 ^ k)"
    using emits_reach [OF conjunct1 [OF emit_masked_value_correct [OF src k m]], of st] by blast
  obtain st3 where r3: "reach exec {Virtual v} s2 st2 (emit_copy_or_move T (Virtual v) m s2) st3"
    and g3: "get_reg (zero_reg T) st3 (Virtual v) = get_reg (zero_reg T) st2 m"
    using emits_reach [OF emit_copy_or_move_correct [of "Virtual v" s2 m], of st2] by auto
  from reach_trans [OF reach_mono [OF r2] r3] g2 g3 show ?thesis by auto
qed

lemma normal_False_holds:
  assumes i: "int_bits_for_value M (VInst i) = Some (Some n)" and n: "0 < n" "n \<le> LENGTH('w)"
    and x: "0 \<le> x" "x < 2 ^ n" and k: "narrow T n \<Longrightarrow> \<not> known_sign T M (VInst i)"
  shows "word_holds T M (VInst i) x (normal False k x :: 'w word)"
proof -
  have w: "width_of M (VInst i) = n" using i by (simp add: width_of_def)
  have "uint (normal False k x :: 'w word) = x" unfolding normal_def if_False using x n(2) by (simp only: uint_of_int_small if_False)
  then show ?thesis by (intro word_holdsI) (use n x k w in \<open>simp_all add: normal_def\<close>)
qed

lemma lower_trunc_held:
  fixes st :: "('r, 'w word) mstate"
  assumes e: "lower_trunc T M i u s = Some (Inr s')"
    and i: "int_bits_for_value M (VInst i) = Some (Some n)" "inst_at M i = Some D" "id_kind D = Trunc u"
    and n: "0 < n" "n \<le> width_of M u" and v: "fl_vregs (ls_fn s) (VInst i) = Some v" and p: "placed s"
    and a: "env u = Some a" and h: "values_held T M (ls_fn s) env st"
  shows "\<exists>st'. reach exec {Virtual v} s st s' st' \<and>
    word_holds T M (VInst i) (a mod 2 ^ n) (get_reg (zero_reg T) st' (Virtual v))"
proof -
  from e obtain src s1 where o: "lower_operand T M u s = Some (Inr (src, s1))"
    and rest: "(case emit_masked_value T src n s1 of (m, s2) \<Rightarrow> case ensure_inst_vreg i s2 of (rd, s3) \<Rightarrow>
      Some (Inr (emit_copy_or_move T rd m s3))) = Some (Inr s' :: lower_error + _)"
    unfolding lower_trunc_def int_bits_of_def i(1) Option.bind.simps Let_def by (auto simp: try_low_Inr)
  from lower_operand_held [OF o a h p] obtain st1 where r1: "reach exec {} s st s1 st1" "old_reg s1 src"
    "word_holds T M u a (get_reg (zero_reg T) st1 src)" .
  have l: "n \<le> LENGTH('w)" and a': "uint (get_reg (zero_reg T) st1 src) mod 2 ^ n = a mod 2 ^ n"
    using r1(3) n mod_pow_cancel [OF n(2), of "uint (get_reg (zero_reg T) st1 src)"] by (auto simp: word_holds_def)
  obtain m s2 where m: "emit_masked_value T src n s1 = (m, s2)" by fastforce
  note mc = emit_masked_value_correct [OF r1(2) n(1) l m]
  have "ls_fn s2 = ls_fn s" using reach_fn [OF r1(1)] emits_only_vregs [OF conjunct1 [OF mc]] by (simp add: only_vregs_def)
  then have s': "s' = emit_copy_or_move T (Virtual v) m s2" using rest v by (simp add: m ensure_known)
  from mask_and_copy [OF m r1(2) n(1) l, of v st1] obtain st' where r: "reach exec {Virtual v} s1 st1 s' st'"
    and g: "get_reg (zero_reg T) st' (Virtual v) = normal False n (a mod 2 ^ n)" unfolding s' a' by blast
  have "word_holds T M (VInst i) (a mod 2 ^ n) (get_reg (zero_reg T) st' (Virtual v))"
    unfolding g by (rule normal_False_holds [OF i(1) n(1) l]) (use not_known_sign [OF i(1,2)] i(3) in simp_all)
  with reach_trans [OF reach_mono [OF r1(1)] r] show ?thesis by blast
qed

lemma lower_zext_held:
  fixes st :: "('r, 'w word) mstate"
  assumes e: "lower_zext T M i u s = Some (Inr s')"
    and i: "int_bits_for_value M (VInst i) = Some (Some n)" "inst_at M i = Some D" "id_kind D = Zext u"
    and k: "int_bits_for_value M u = Some (Some k)"
    and n: "n \<le> LENGTH('w)" "k \<le> n" and v: "fl_vregs (ls_fn s) (VInst i) = Some v" and p: "placed s"
    and a: "env u = Some a" and h: "values_held T M (ls_fn s) env st"
  shows "\<exists>st'. reach exec {Virtual v} s st s' st' \<and> word_holds T M (VInst i) a (get_reg (zero_reg T) st' (Virtual v))"
proof -
  from e obtain src s1 where o: "lower_operand T M u s = Some (Inr (src, s1))"
    and rest: "(case emit_masked_value T src k s1 of (m, s2) \<Rightarrow> case ensure_inst_vreg i s2 of (rd, s3) \<Rightarrow>
      Some (Inr (emit_copy_or_move T rd m s3))) = Some (Inr s' :: lower_error + _)"
    unfolding lower_zext_def int_bits_of_def k Option.bind.simps Let_def by (auto simp: try_low_Inr)
  have w: "width_of M u = k" using k by (simp add: width_of_def)
  from lower_operand_held [OF o a h p] obtain st1 where r1: "reach exec {} s st s1 st1" "old_reg s1 src"
    "word_holds T M u a (get_reg (zero_reg T) st1 src)" .
  have l: "0 < k" "k \<le> LENGTH('w)" and a': "uint (get_reg (zero_reg T) st1 src) mod 2 ^ k = a"
    using r1(3) w by (auto simp: word_holds_def)
  have ar: "0 \<le> a" "a < 2 ^ k" using a' by auto
  obtain m s2 where m: "emit_masked_value T src k s1 = (m, s2)" by fastforce
  note mc = emit_masked_value_correct [OF r1(2) l m]
  have "ls_fn s2 = ls_fn s" using reach_fn [OF r1(1)] emits_only_vregs [OF conjunct1 [OF mc]] by (simp add: only_vregs_def)
  then have s': "s' = emit_copy_or_move T (Virtual v) m s2" using rest v by (simp add: m ensure_known)
  from mask_and_copy [OF m r1(2) l, of v st1] obtain st' where r: "reach exec {Virtual v} s1 st1 s' st'"
    and g: "get_reg (zero_reg T) st' (Virtual v) = normal False k a" unfolding s' a' by blast
  have "(2 :: int) ^ k \<le> 2 ^ n" by (rule power_increasing [OF n(2)]) simp
  with ar have an: "a < 2 ^ n" by linarith
  have "word_holds T M (VInst i) a (get_reg (zero_reg T) st' (Virtual v))"
    unfolding g by (rule normal_False_holds [OF i(1) _ n(1) ar(1) an]) (use l n not_known_sign [OF i(1,2)] i(3) in auto)
  with reach_trans [OF reach_mono [OF r1(1)] r] show ?thesis by blast
qed

lemma lower_sext_held:
  fixes st :: "('r, 'w word) mstate"
  assumes e: "lower_sext T M i u s = Some (Inr s')"
    and i: "int_bits_for_value M (VInst i) = Some (Some n)"
    and k: "int_bits_for_value M u = Some (Some k)"
    and n: "n \<le> LENGTH('w)" "k \<le> n" "n \<noteq> 1" and v: "fl_vregs (ls_fn s) (VInst i) = Some v" and p: "placed s"
    and a: "env u = Some a" and h: "values_held T M (ls_fn s) env st"
  shows "\<exists>st'. reach exec {Virtual v} s st s' st' \<and>
    word_holds T M (VInst i) (signed_of k a mod 2 ^ n) (get_reg (zero_reg T) st' (Virtual v))"
proof -
  from e obtain src s1 where o: "lower_operand T M u s = Some (Inr (src, s1))"
    and rest: "(case ensure_inst_vreg i s1 of (rd, s2) \<Rightarrow> Some (Inr (
        if reg_bits T \<le> k then push_inst (mv T rd src) s2
        else push_inst (emit_srai T rd rd (word_of_nat (reg_bits T - k)))
          (push_inst (emit_slli T rd src (word_of_nat (reg_bits T - k))) s2)))) = Some (Inr s' :: lower_error + _)"
    unfolding lower_sext_def int_bits_of_def k Option.bind.simps Let_def by (auto simp: try_low_Inr)
  have w: "width_of M u = k" "width_of M (VInst i) = n" using k i by (simp_all add: width_of_def)
  from lower_operand_held [OF o a h p] obtain st1 where r1: "reach exec {} s st s1 st1" "old_reg s1 src"
    "word_holds T M u a (get_reg (zero_reg T) st1 src)" .
  have l: "0 < k" "k \<le> LENGTH('w)" and a': "uint (get_reg (zero_reg T) st1 src) mod 2 ^ k = a"
    using r1(3) w by (auto simp: word_holds_def)
  have v1: "fl_vregs (ls_fn s1) (VInst i) = Some v" using v reach_fn [OF r1(1)] by simp
  have "emits exec {Virtual v} s1 s' (\<lambda>st st'. get_reg (zero_reg T) st' (Virtual v) =
      normal True k (uint (get_reg (zero_reg T) st src) mod 2 ^ k))"
  proof (cases "reg_bits T \<le> k")
    case True
    then have kw: "k = LENGTH('w)" using l(2) reg_bits_xlen by simp
    from True rest have s': "s' = push_inst (mv T (Virtual v) src) s1" by (simp add: ensure_known [OF v1])
    show ?thesis unfolding s'
      by (rule emits_runs, (rule runs_as_intros run_op3)+)
        (use word_normal_full [OF refl, where sgnd = True] in \<open>simp_all add: agree_except_putI kw\<close>)
  next
    case False
    then have kw: "LENGTH('w) - k < LENGTH('w)" "k < LENGTH('w)" using l reg_bits_xlen by auto
    from False rest have s': "s' = push_inst (emit_srai T (Virtual v) (Virtual v) (word_of_nat (LENGTH('w) - k)))
        (push_inst (emit_slli T (Virtual v) src (word_of_nat (LENGTH('w) - k))) s1)"
      by (simp add: ensure_known [OF v1] reg_bits_xlen)
    show ?thesis unfolding s'
      by (rule emits_runs, (rule runs_as_intros run_shift [OF kw(1)])+)
        (use l kw in \<open>simp_all add: agree_except_putI sign_shifts get_put_reg\<close>)
  qed
  from emits_reach [OF this, of st1] obtain st' where r: "reach exec {Virtual v} s1 st1 s' st'"
    and g: "get_reg (zero_reg T) st' (Virtual v) = word_of_int (signed_of k a)" unfolding a' normal_def if_True by blast
  have sr: "- (2 ^ (n - 1)) \<le> signed_of k a" "signed_of k a < 2 ^ (n - 1)"
  proof -
    have "(2 :: int) ^ (k - 1) \<le> 2 ^ (n - 1)" by (rule power_increasing) (use n in simp_all)
    then show "- (2 ^ (n - 1)) \<le> signed_of k a" "signed_of k a < 2 ^ (n - 1)"
      using signed_of_range [OF l(1), of a] by linarith+
  qed
  have n0: "0 < n" using l n by simp
  have "signed_of n (signed_of k a mod 2 ^ n) = signed_of n (signed_of k a)" by (rule signed_of_mod_arg [OF n0])
  also have "\<dots> = signed_of k a" using sr n0 by (simp add: signed_of_def [of n] signed_take_bit_int_eq_self)
  finally have g': "get_reg (zero_reg T) st' (Virtual v) = normal True n (signed_of k a mod 2 ^ n)"
    unfolding g normal_def by simp
  have "word_holds T M (VInst i) (signed_of k a mod 2 ^ n) (get_reg (zero_reg T) st' (Virtual v))"
  proof (rule word_holdsI; unfold w)
    show "uint (get_reg (zero_reg T) st' (Virtual v)) mod 2 ^ n = signed_of k a mod 2 ^ n"
      unfolding g' normal_mod [OF n0 n(1)] by simp
  qed (use n0 n g' in simp_all)
  with reach_trans [OF reach_mono [OF r1(1)] r] show ?thesis by blast
qed

lemma lower_select_held:
  fixes st :: "('r, 'w word) mstate"
  assumes e: "lower_select T M i c t f s = Some (Inr s')"
    and i: "int_bits_for_value M (VInst i) = Some (Some n)" "inst_at M i = Some D" "id_kind D = Select c t f"
    and w: "int_bits_for_value M c = Some (Some 1)" "int_bits_for_value M t = Some (Some n)"
      "int_bits_for_value M f = Some (Some n)"
    and v: "fl_vregs (ls_fn s) (VInst i) = Some v" and p: "placed s"
    and env: "env c = Some x" "env t = Some a" "env f = Some b" and h: "values_held T M (ls_fn s) env st"
  shows "\<exists>st'. reach exec {Virtual v} s st s' st' \<and>
    word_holds T M (VInst i) (if x \<noteq> 0 then a else b) (get_reg (zero_reg T) st' (Virtual v))"
proof -
  from e obtain rc s1 rt s2 rf s3 where oc: "lower_operand T M c s = Some (Inr (rc, s1))"
    and ot: "lower_operand T M t s1 = Some (Inr (rt, s2))" and of: "lower_operand T M f s2 = Some (Inr (rf, s3))"
    and rest: "(case fresh_reg s3 of (mask1, s4) \<Rightarrow> case fresh_reg s4 of (mask2, s5) \<Rightarrow>
      case fresh_reg (push_inst (emit_xori T mask2 mask1 (-1)) (emit_neg T mask1 rc s5)) of (true_part, s7) \<Rightarrow>
      case fresh_reg s7 of (false_part, s8) \<Rightarrow>
      case ensure_inst_vreg i (push_inst (emit_and T false_part rf mask2) (push_inst (emit_and T true_part rt mask1) s8)) of
        (rd, s10) \<Rightarrow> Some (Inr (push_inst (emit_or T rd true_part false_part) s10))) = Some (Inr s' :: lower_error + _)"
    unfolding lower_select_def Let_def by (auto simp: try_low_Inr)
  from lower_operand_held [OF oc env(1) h p] obtain st1 where r1: "reach exec {} s st s1 st1" "old_reg s1 rc"
    "word_holds T M c x (get_reg (zero_reg T) st1 rc)" .
  note p1 = reach_placed [OF r1(1) p] and h1 = values_held_old [OF r1(1) p h]
  from lower_operand_held [OF ot env(2) h1 p1] obtain st2 where r2: "reach exec {} s1 st1 s2 st2" "old_reg s2 rt"
    "word_holds T M t a (get_reg (zero_reg T) st2 rt)" .
  from lower_operand_held [OF of env(3) values_held_old [OF r2(1) p1 h1] reach_placed [OF r2(1) p1]]
  obtain st3 where r3: "reach exec {} s2 st2 s3 st3" "old_reg s3 rf" "word_holds T M f b (get_reg (zero_reg T) st3 rf)" .
  note r23 = reach_trans [OF r2(1) r3(1)]
  note r = reach_trans [OF r1(1) r23]
  have c3: "old_reg s3 rc" "word_holds T M c x (get_reg (zero_reg T) st3 rc)"
    using r1 reach_old [OF r23] reach_get [OF r23 r1(2)] by simp_all
  have t3: "old_reg s3 rt" "word_holds T M t a (get_reg (zero_reg T) st3 rt)"
    using r2 reach_old [OF r3(1)] reach_get [OF r3(1) r2(2)] by simp_all
  let ?k = "next_vreg s3"
  have v3: "fl_vregs (ls_fn s3) (VInst i) = Some v" "v < ?k"
    using v reach_fn [OF r] reach_placed [OF r p] by (auto simp: placed_def)
  have s': "s' = push_inst (emit_or T (Virtual v) (Virtual (Suc (Suc ?k))) (Virtual (Suc (Suc (Suc ?k)))))
      (push_inst (emit_and T (Virtual (Suc (Suc (Suc ?k)))) rf (Virtual (Suc ?k)))
      (push_inst (emit_and T (Virtual (Suc (Suc ?k))) rt (Virtual ?k))
      (bump (bump (push_inst (emit_xori T (Virtual (Suc ?k)) (Virtual ?k) (-1))
      (push_inst (emit_sub T (Virtual ?k) (Physical (zero_reg T)) rc) (bump (bump s3))))))))"
    using rest v3(1) by (simp add: fresh_reg_bump emit_neg_def ensure_inst_vreg_def bump_def push_inst_def next_vreg_def)
  have ne: "rc \<noteq> Virtual m" "rt \<noteq> Virtual m" "rf \<noteq> Virtual m" if "?k \<le> m" for m
    using that old_reg_neq [OF c3(1)] old_reg_neq [OF t3(1)] old_reg_neq [OF r3(2)] by auto
  have fm: "fits12 (- 1)" by (simp add: fits12_def)
  have "emits exec {Virtual v} s3 s' (\<lambda>st st'. get_reg (zero_reg T) st' (Virtual v) =
      (get_reg (zero_reg T) st rt AND - get_reg (zero_reg T) st rc) OR
      (get_reg (zero_reg T) st rf AND (- get_reg (zero_reg T) st rc XOR - 1)))"
    unfolding s' by (rule emits_runs, (rule runs_as_intros run_op3 run_imm(2) [OF fm])+)
      (use ne v3(2) in \<open>simp_all add: agree_except_putI get_put_reg\<close>)
  from emits_reach [OF this, of st3] obtain st4 where r4: "reach exec {Virtual v} s3 st3 s' st4"
    and g: "get_reg (zero_reg T) st4 (Virtual v) = (get_reg (zero_reg T) st3 rt AND - get_reg (zero_reg T) st3 rc) OR
      (get_reg (zero_reg T) st3 rf AND (- get_reg (zero_reg T) st3 rc XOR - 1))" by blast
  have wd: "width_of M c = 1" "width_of M t = n" "width_of M f = n" "width_of M (VInst i) = n"
    using w i(1) by (simp_all add: width_of_def)
  have xc: "get_reg (zero_reg T) st3 rc = word_of_int x" and x01: "x = 0 \<or> x = 1"
    using c3(2) wd(1) by (auto simp: word_holds_def)
  have "get_reg (zero_reg T) st4 (Virtual v) = (if x \<noteq> 0 then get_reg (zero_reg T) st3 rt else get_reg (zero_reg T) st3 rf)"
    unfolding g xc using x01 by auto
  then have "word_holds T M (VInst i) (if x \<noteq> 0 then a else b) (get_reg (zero_reg T) st4 (Virtual v))"
    using t3(2) r3(3) not_known_sign [OF i(1,2)] i(3) wd
    by (intro word_holdsI) (auto simp: word_holds_def)
  with reach_trans [OF reach_mono [OF r] r4] show ?thesis by blast
qed

section \<open>One instruction\<close>

theorem lower_scalar_correct:
  fixes st :: "('r, 'w word) mstate"
  assumes e: "lower_instruction T H M i b m s = Some (Inr (code, s'))"
    and D: "inst_at M i = Some D" and ok: "scalar_lowerable T M i (id_kind D) w n"
    and v: "fl_vregs (ls_fn s) (VInst i) = Some v" and p: "placed s"
    and new: "env (VInst i) = None" and h: "values_held T M (ls_fn s) env st"
    and y: "inst_val env w n (id_kind D) = Some y" and arms: "arms_known env (id_kind D)"
  shows "\<exists>st'. exec_all exec code st = Some st' \<and> values_held T M (ls_fn s') (env(VInst i \<mapsto> y)) st' \<and>
    placed s' \<and> memory st' = memory st \<and> only_vregs (s\<lparr>ls_out := []\<rparr>) s' \<and>
    agree_except ({Virtual v} \<union> fresh_regs s s') st st'"
proof -
  let ?s = "s\<lparr>ls_out := []\<rparr>"
  from e D have low: "lower_kind T H M i b m (id_kind D) ?s = Some (Inr s')" and code: "code = ls_out s'"
    by (auto simp: lower_instruction_def try_low_Inr)
  have i: "int_bits_for_value M (VInst i) = Some (Some n)" using ok by (simp add: scalar_lowerable_def)
  have v': "fl_vregs (ls_fn ?s) (VInst i) = Some v" and p': "placed ?s" and h': "values_held T M (ls_fn ?s) env st"
    using v p h by (simp_all add: placed_def next_vreg_def)
  have "\<exists>st'. reach exec {Virtual v} ?s st s' st' \<and> word_holds T M (VInst i) y (get_reg (zero_reg T) st' (Virtual v))"
  proof (cases "id_kind D")
    case (Binary op l r)
    with ok y obtain a c where "env l = Some a" "env r = Some c" "binary_val op n a c = Some y" and
      bl: "binary_lowerable T M n op l r"
      by (auto simp: scalar_lowerable_def inst_val_def bind_eq_Some_conv)
    with lower_binary_held [OF _ i D Binary bl v' p' _ _ h'] low Binary show ?thesis by simp
  next
    case (ICmp op l r)
    with ok y obtain a c where lr: "env l = Some a" "env r = Some c" and y': "y = (if icmp_val op w a c then 1 else 0)"
      and t: "icmp_is_only_branch_cond M i = Some False" "n = 1" "int_bits_for_value M l = Some (Some w)"
        "int_bits_for_value M r = Some (Some w)"
      by (auto simp: scalar_lowerable_def inst_val_def bind_eq_Some_conv)
    with lower_icmp_held [OF _ t(1) i [unfolded t(2)] t(3,4) v' p' lr h'] low ICmp show ?thesis by simp
  next
    case (Select c t f)
    with ok have w: "int_bits_for_value M c = Some (Some 1)" "int_bits_for_value M t = Some (Some n)"
      "int_bits_for_value M f = Some (Some n)" by (simp_all add: scalar_lowerable_def)
    from low Select have l: "lower_select T M i c t f ?s = Some (Inr s')" by simp
    from arms y Select obtain x a b where x: "env c = Some x" "env t = Some a" "env f = Some b"
      and y': "y = (if x \<noteq> 0 then a else b)"
      by (auto simp: arms_known_def inst_val_def bind_eq_Some_conv split: if_splits)
    show ?thesis unfolding y' by (rule lower_select_held [OF l i D Select w v' p' x h'])
  next
    case (Trunc u)
    with ok y obtain a where a: "env u = Some a" and y': "y = a mod 2 ^ n" and t: "0 < n" "n \<le> width_of M u"
      by (auto simp: scalar_lowerable_def inst_val_def width_of_def)
    with lower_trunc_held [OF _ i D Trunc t v' p' a h'] low Trunc show ?thesis by simp
  next
    case (Zext u)
    with ok y have a: "env u = Some y" and t: "int_bits_for_value M u = Some (Some w)" "n \<le> LENGTH('w)" "w \<le> n"
      by (auto simp: scalar_lowerable_def inst_val_def reg_bits_xlen)
    with lower_zext_held [OF _ i D Zext t v' p' a h'] low Zext show ?thesis by simp
  next
    case (Sext u)
    with ok y obtain a where a: "env u = Some a" and y': "y = signed_of w a mod 2 ^ n"
      and t: "int_bits_for_value M u = Some (Some w)" "n \<le> LENGTH('w)" "w \<le> n" "n \<noteq> 1"
      by (auto simp: scalar_lowerable_def inst_val_def reg_bits_xlen)
    with lower_sext_held [OF _ i t v' p' a h'] low Sext show ?thesis by simp
  qed (use ok in \<open>simp_all add: scalar_lowerable_def\<close>)
  then obtain st' where r: "reach exec {Virtual v} ?s st s' st'"
    and g: "word_holds T M (VInst i) y (get_reg (zero_reg T) st' (Virtual v))" by blast
  have "exec_all exec code st = Some st'" and mem: "memory st' = memory st"
    using r code by (auto simp: reach_def agree_except_def)
  moreover have "values_held T M (ls_fn s') env st'" by (rule values_held_reach [OF r p' h' order_refl]) (use v' new in simp)
  then have "values_held T M (ls_fn s') (env(VInst i \<mapsto> y)) st'"
    using g v' reach_fn [OF r] by (auto simp: values_held_def value_held_def)
  moreover have "fresh_regs ?s s' = fresh_regs s s'" by (simp add: fresh_regs_def next_vreg_def)
  with r have "agree_except ({Virtual v} \<union> fresh_regs s s') st st'" by (simp add: reach_def)
  ultimately show ?thesis using reach_placed [OF r p'] reach_only [OF r] by blast
qed

section \<open>Lowering returns\<close>

lemma lower_binary_returns:
  assumes ok: "binary_lowerable T M n op l r" and i: "int_bits_for_value M (VInst i) = Some (Some n)"
    and v: "fl_vregs (ls_fn s) (VInst i) = Some v"
    and ready: "values_ready T M (ls_fn s) env" and ab: "env l = Some a" "env r = Some b"
  shows "\<exists>s'. lower_binary T M i op l r s = Some (Inr s')"
proof -
  have lb: "int_bits_for_value M l = Some (Some n)" and rb: "int_bits_for_value M r = Some (Some n)"
    using ok by (auto simp: binary_lowerable_def)
  have w: "width_of M l = n" "width_of M r = n" using lb rb by (simp_all add: width_of_def)
  have k: "is_known_sign_extended T M l n \<noteq> None" "is_known_sign_extended T M r n \<noteq> None"
    using ready ab w unfolding values_ready_def by metis+
  obtain c where c: "const_int M r = Some c"
    using ready ab(2) unfolding values_ready_def by (cases r) (fastforce simp: const_int_def const_holds_def)+
  obtain rs s1 where o: "lower_operand T M l s = Some (Inr (rs, s1))" "ls_fn s1 = ls_fn s"
    using lower_operand_returns [OF ready ab(1)] by blast
  obtain rs1 s2 where o2: "(if machine32 op n then Some (rs, s1)
      else emit_normalized_int_operand T M l rs n (binary_operands_are_signed op) s1) = Some (rs1, s2)" "ls_fn s2 = ls_fn s"
    using binary_operand_returns [OF k(1)] o(2) by metis
  have reg: "\<exists>s'. lower_binary_reg T M i op n n rs1 r s3 = Some (Inr s')" if f: "ls_fn s3 = ls_fn s" for s3
  proof -
    obtain q s4 where q: "lower_operand T M r s3 = Some (Inr (q, s4))" "ls_fn s4 = ls_fn s"
      using lower_operand_returns [of T M s3 env r b] ready ab(2) f by auto
    obtain q' s5 where "(if machine32 op n then Some (q, s4)
      else emit_normalized_int_operand T M r q n (binary_operands_are_signed op) s4) = Some (q', s5)"
      using binary_operand_returns [OF k(2)] by metis
    then show ?thesis unfolding lower_binary_reg_def Let_def q(1) rb try_low_simps prod.case Option.bind.simps option.case
      by (simp split: prod.splits)
  qed
  obtain lowered s3 where l: "(case c of Some k \<Rightarrow> lower_binary_imm T i op n rs1 (as_i32 k) s2 | None \<Rightarrow> (False, s2)) = (lowered, s3)"
    by fastforce
  have "ls_fn s3 = ls_fn s" if "\<not> lowered"
  proof (cases c)
    case (Some k)
    have v2: "fl_vregs (ls_fn s2) (VInst i) = Some v" using v o2(2) by simp
    obtain raw s4 where raw: "binary_raw op n v s2 = (raw, s4)" by fastforce
    with l Some that have "s3 = s4"
      by (cases op) (auto simp: lower_binary_imm_def binary_dest_known [OF v2] Let_def split: if_splits prod.splits)
    with raw o2(2) show ?thesis by (auto simp: binary_raw_def bump_def split: if_splits)
  qed (use l o2(2) in simp)
  with reg have "\<exists>s'. (if lowered then Some (Inr s3) else lower_binary_reg T M i op n n rs1 r s3) = Some (Inr s')" by auto
  then show ?thesis
    unfolding lower_binary_def Let_def i lb o(1) o2(1) c l try_low_simps prod.case Option.bind.simps option.case .
qed

lemma lower_icmp_returns:
  assumes only: "icmp_is_only_branch_cond M i = Some False"
    and lr: "int_bits_for_value M l = Some (Some n)" "int_bits_for_value M r = Some (Some n)"
    and ready: "values_ready T M (ls_fn s) env" and ab: "env l = Some a" "env r = Some b"
  shows "\<exists>s'. lower_icmp T M i op l r s = Some (Inr s')"
proof -
  have w: "width_of M l = n" "width_of M r = n" using lr by (simp_all add: width_of_def)
  have k: "is_known_sign_extended T M l n \<noteq> None" "is_known_sign_extended T M r n \<noteq> None"
    using ready ab w unfolding values_ready_def by metis+
  obtain x s1 where x: "lower_operand T M l s = Some (Inr (x, s1))" "ls_fn s1 = ls_fn s"
    using lower_operand_returns [OF ready ab(1)] by blast
  obtain y s2 where y: "lower_operand T M r s1 = Some (Inr (y, s2))"
    using lower_operand_returns [of T M s1 env r b] ready ab(2) x(2) by auto
  obtain x' s3 where x': "emit_normalized_int_operand T M l x n (icmp_operands_are_signed op) s2 = Some (x', s3)"
    using normalized_operand_returns [OF k(1)] by blast
  obtain y' s4 where y': "emit_normalized_int_operand T M r y n (icmp_operands_are_signed op) s3 = Some (y', s4)"
    using normalized_operand_returns [OF k(2)] by blast
  show ?thesis
    unfolding lower_icmp_def lower_icmp_operands_def normalize_icmp_operand_def only lr x(1) y x' y'
      try_low_simps prod.case Option.bind.simps option.case if_False
    by (simp split: prod.splits)
qed

lemma lower_select_returns:
  assumes ready: "values_ready T M (ls_fn s) env" and abc: "env c = Some x" "env t = Some a" "env f = Some b"
  shows "\<exists>s'. lower_select T M i c t f s = Some (Inr s')"
proof -
  obtain x1 s1 where x: "lower_operand T M c s = Some (Inr (x1, s1))" "ls_fn s1 = ls_fn s"
    using lower_operand_returns [OF ready abc(1)] by blast
  obtain y1 s2 where y: "lower_operand T M t s1 = Some (Inr (y1, s2))" "ls_fn s2 = ls_fn s"
    using lower_operand_returns [of T M s1 env t a] ready abc(2) x(2) by auto
  obtain z1 s3 where z: "lower_operand T M f s2 = Some (Inr (z1, s3))"
    using lower_operand_returns [of T M s2 env f b] ready abc(3) y(2) by auto
  show ?thesis unfolding lower_select_def x(1) y(1) z try_low_simps prod.case by (simp split: prod.splits)
qed

lemma lower_cast_returns:
  assumes ready: "values_ready T M (ls_fn s) env" and u: "env u = Some x"
  shows "int_bits_for_value M (VInst i) = Some (Some n) \<Longrightarrow> \<exists>s'. lower_trunc T M i u s = Some (Inr s')"
    "int_bits_for_value M u = Some (Some k) \<Longrightarrow> \<exists>s'. lower_zext T M i u s = Some (Inr s')"
    "int_bits_for_value M u = Some (Some k) \<Longrightarrow> \<exists>s'. lower_sext T M i u s = Some (Inr s')"
proof -
  obtain x1 s1 where x: "lower_operand T M u s = Some (Inr (x1, s1))" using lower_operand_returns [OF ready u] by blast
  show "int_bits_for_value M (VInst i) = Some (Some n) \<Longrightarrow> \<exists>s'. lower_trunc T M i u s = Some (Inr s')"
    unfolding lower_trunc_def x by (simp add: int_bits_of_def split: prod.splits)
  show "int_bits_for_value M u = Some (Some k) \<Longrightarrow> \<exists>s'. lower_zext T M i u s = Some (Inr s')"
    unfolding lower_zext_def x by (simp add: int_bits_of_def split: prod.splits)
  show "int_bits_for_value M u = Some (Some k) \<Longrightarrow> \<exists>s'. lower_sext T M i u s = Some (Inr s')"
    unfolding lower_sext_def x by (simp add: int_bits_of_def Let_def split: prod.splits)
qed

theorem lower_scalar_returns:
  assumes D: "inst_at M i = Some D" and ok: "scalar_lowerable T M i (id_kind D) w n"
    and v: "fl_vregs (ls_fn s) (VInst i) = Some v"
    and ready: "values_ready T M (ls_fn s) env"
    and y: "inst_val env w n (id_kind D) = Some y" and arms: "arms_known env (id_kind D)"
  shows "\<exists>code s'. lower_instruction T H M i b m s = Some (Inr (code, s'))"
proof -
  let ?s = "s\<lparr>ls_out := []\<rparr>"
  have i: "int_bits_for_value M (VInst i) = Some (Some n)" using ok by (simp add: scalar_lowerable_def)
  have r: "values_ready T M (ls_fn ?s) env" and v': "fl_vregs (ls_fn ?s) (VInst i) = Some v" using ready v by simp_all
  have "\<exists>s'. lower_kind T H M i b m (id_kind D) ?s = Some (Inr s')"
  proof (cases "id_kind D")
    case (Binary op l q)
    with ok y obtain a c where ac: "env l = Some a" "env q = Some c" and bl: "binary_lowerable T M n op l q"
      by (auto simp: scalar_lowerable_def inst_val_def bind_eq_Some_conv)
    from lower_binary_returns [OF bl i v' r ac] Binary show ?thesis by simp
  next
    case (ICmp op l q)
    with ok y obtain a c where ac: "env l = Some a" "env q = Some c"
      and t: "icmp_is_only_branch_cond M i = Some False" "int_bits_for_value M l = Some (Some w)"
        "int_bits_for_value M q = Some (Some w)"
      by (auto simp: scalar_lowerable_def inst_val_def bind_eq_Some_conv)
    from lower_icmp_returns [OF t r ac] ICmp show ?thesis by simp
  next
    case (Select c t f)
    with arms y obtain x a b where x: "env c = Some x" "env t = Some a" "env f = Some b"
      by (auto simp: arms_known_def inst_val_def bind_eq_Some_conv)
    from lower_select_returns [OF r x] Select show ?thesis by simp
  next
    case (Trunc u)
    with y obtain a where "env u = Some a" by (auto simp: inst_val_def)
    from lower_cast_returns(1) [OF r this i] Trunc show ?thesis by simp
  next
    case (Zext u)
    with ok y have "env u = Some y" "int_bits_for_value M u = Some (Some w)" by (auto simp: scalar_lowerable_def inst_val_def)
    from lower_cast_returns(2) [OF r this] Zext show ?thesis by simp
  next
    case (Sext u)
    with ok y obtain a where "env u = Some a" "int_bits_for_value M u = Some (Some w)"
      by (auto simp: scalar_lowerable_def inst_val_def)
    from lower_cast_returns(3) [OF r this] Sext show ?thesis by simp
  qed (use ok in \<open>simp_all add: scalar_lowerable_def\<close>)
  with D show ?thesis by (auto simp: lower_instruction_def)
qed

end

end
