(* ===== verification/Lower_Block.thy ===== *)
theory Lower_Block
  imports Lower_Scalar Lower
begin

text \<open>
  Straight-line code: \<open>lower_insts\<close> on a run of scalar instructions of one block appends to the block
  code that computes what the instructions mean, one after the other.  The result holds for any
  \<open>scalar_machine\<close>; the last section holds two small functions on which it is tried.
\<close>

section \<open>The meaning of a run of instructions\<close>

definition operand_width :: "module_core \<Rightarrow> inst_kind \<Rightarrow> nat" where
  "operand_width M k =
     (case k of
        Binary op l r \<Rightarrow> width_of M l
      | ICmp op l r \<Rightarrow> width_of M l
      | Trunc u \<Rightarrow> width_of M u
      | Zext u \<Rightarrow> width_of M u
      | Sext u \<Rightarrow> width_of M u
      | _ \<Rightarrow> 0)"

definition scalar_step :: "module_core \<Rightarrow> inst_ref \<Rightarrow> (value_id \<Rightarrow> int option) \<Rightarrow> (value_id \<Rightarrow> int option) option" where
  "scalar_step M i env = do {
     D \<leftarrow> inst_at M i;
     rust_assert (arms_known env (id_kind D));
     y \<leftarrow> inst_val env (operand_width M (id_kind D)) (width_of M (VInst i)) (id_kind D);
     Some (env(VInst i \<mapsto> y)) }"

definition scalar_run :: "module_core \<Rightarrow> inst_ref list \<Rightarrow> (value_id \<Rightarrow> int option) \<Rightarrow> (value_id \<Rightarrow> int option) option" where
  "scalar_run M is env = fold_opt (scalar_step M) is env"

text \<open>Instructions with registers and without values so far, each of which can be lowered.\<close>

definition straight_line ::
  "('r, 'i, 'z) target_alu_scheme \<Rightarrow> module_core \<Rightarrow> fn_lowering \<Rightarrow> (value_id \<Rightarrow> int option) \<Rightarrow> inst_ref list \<Rightarrow> bool" where
  "straight_line T M fn env is \<longleftrightarrow> distinct is \<and>
     (\<forall>i \<in> set is. env (VInst i) = None \<and> fl_vregs fn (VInst i) \<noteq> None \<and>
        is_known_sign_extended T M (VInst i) (width_of M (VInst i)) \<noteq> None \<and>
        (\<exists>D. inst_at M i = Some D \<and>
          scalar_lowerable T M i (id_kind D) (operand_width M (id_kind D)) (width_of M (VInst i))))"

lemma straight_line_Cons:
  "straight_line T M fn env (i # is) \<Longrightarrow> straight_line T M fn (env(VInst i \<mapsto> y)) is"
  by (auto simp: straight_line_def)

text \<open>The registers that hold the results of the instructions.\<close>

definition result_regs :: "fn_lowering \<Rightarrow> inst_ref list \<Rightarrow> 'r register set" where
  "result_regs fn is = {Virtual v |i v. i \<in> set is \<and> fl_vregs fn (VInst i) = Some v}"

lemma result_regs_Nil [simp]: "result_regs fn [] = {}"
  by (simp add: result_regs_def)

lemma result_regs_Cons:
  "fl_vregs fn (VInst i) = Some v \<Longrightarrow> result_regs fn (i # is) = insert (Virtual v) (result_regs fn is)"
  by (auto simp: result_regs_def)

section \<open>The code of a block\<close>

definition block_code :: "('r, 'i) lower_state \<Rightarrow> block_id \<Rightarrow> 'i list option" where
  "block_code s n = map_option instructions (get_block (ls_mf s) n)"

lemma update_first_find:
  "List.find (\<lambda>b. mb_id b = n) bs = Some b \<Longrightarrow> mb_id (f b) = n \<Longrightarrow>
     \<exists>bs'. update_first_block n f bs = Some bs' \<and> List.find (\<lambda>b. mb_id b = n) bs' = Some (f b)"
  by (induction bs) (auto split: if_splits)

lemma extend_block_code:
  assumes "block_code s n = Some old"
  shows "\<exists>s'. extend_block n code s = Some s' \<and> block_code s' n = Some (old @ code) \<and>
    ls_fn s' = ls_fn s \<and> next_vreg s' = next_vreg s"
proof -
  from assms obtain b where b: "List.find (\<lambda>b. mb_id b = n) (blocks (ls_mf s)) = Some b" "instructions b = old"
    by (auto simp: block_code_def get_block_def)
  let ?f = "\<lambda>b. b\<lparr>instructions := instructions b @ code\<rparr>"
  have "mb_id (?f b) = n" using b(1) by (auto simp: find_Some_iff)
  from update_first_find [where f = ?f, OF b(1) this] obtain bs where
    "update_first_block n ?f (blocks (ls_mf s)) = Some bs" "List.find (\<lambda>b. mb_id b = n) bs = Some (?f b)" by blast
  with b(2) show ?thesis
    by (auto simp: extend_block_def with_block_mut_def block_code_def get_block_def next_vreg_def)
qed

lemma lower_instruction_mf:
  assumes "only_vregs (s\<lparr>ls_out := []\<rparr>) s'"
  shows "block_code s' n = block_code s n"
  using assms by (auto simp: only_vregs_def block_code_def get_block_def)

context scalar_machine
begin

lemma scalar_step_lowered:
  fixes st :: "('r, 'w word) mstate"
  assumes y: "scalar_step M i env = Some env'" and sl: "straight_line T M (ls_fn s) env (i # is)"
    and p: "placed s" and h: "values_held T M (ls_fn s) env st" and ready: "values_ready T M (ls_fn s) env"
  obtains code s' st' where "lower_instruction T H M i b m s = Some (Inr (code, s'))"
    "exec_all exec code st = Some st'" "values_held T M (ls_fn s') env' st'" "values_ready T M (ls_fn s') env'"
    "placed s'" "memory st' = memory st" "ls_fn s' = ls_fn s" "only_vregs (s\<lparr>ls_out := []\<rparr>) s'"
    "straight_line T M (ls_fn s') env' is"
    "agree_except (result_regs (ls_fn s) (i # is) \<union> fresh_regs s s') st st'"
proof -
  from y obtain D v where D: "inst_at M i = Some D" and arms: "arms_known env (id_kind D)"
    and v: "inst_val env (operand_width M (id_kind D)) (width_of M (VInst i)) (id_kind D) = Some v"
    and env': "env' = env(VInst i \<mapsto> v)"
    by (auto simp: scalar_step_def bind_eq_Some_conv)
  from sl D obtain r where ok: "scalar_lowerable T M i (id_kind D) (operand_width M (id_kind D)) (width_of M (VInst i))"
    and r: "fl_vregs (ls_fn s) (VInst i) = Some r" and new: "env (VInst i) = None"
    and k: "is_known_sign_extended T M (VInst i) (width_of M (VInst i)) \<noteq> None"
    by (auto simp: straight_line_def)
  from lower_scalar_returns [OF D ok r ready v arms] obtain code s' where
    e: "lower_instruction T H M i b m s = Some (Inr (code, s'))" by blast
  from lower_scalar_correct [OF e D ok r p new h v arms] obtain st' where
    st': "exec_all exec code st = Some st'" "values_held T M (ls_fn s') env' st'" "placed s'" "memory st' = memory st"
    and o: "only_vregs (s\<lparr>ls_out := []\<rparr>) s'" and agree: "agree_except ({Virtual r} \<union> fresh_regs s s') st st'"
    unfolding env' by blast
  from o have fn: "ls_fn s' = ls_fn s" by (simp add: only_vregs_def)
  have "values_ready T M (ls_fn s') env'" using ready r k by (auto simp: values_ready_def fn env')
  moreover have "straight_line T M (ls_fn s') env' is" unfolding fn env' by (rule straight_line_Cons [OF sl])
  moreover have "agree_except (result_regs (ls_fn s) (i # is) \<union> fresh_regs s s') st st'"
    by (rule agree_except_mono [OF agree]) (auto simp: result_regs_Cons [OF r])
  ultimately show thesis using that e st' fn o by blast
qed

theorem lower_insts_correct:
  fixes st :: "('r, 'w word) mstate"
  assumes "scalar_run M is env = Some env'" "straight_line T M (ls_fn s) env is" "placed s"
    "values_held T M (ls_fn s) env st" "values_ready T M (ls_fn s) env" "block_code s n = Some old"
  shows "\<exists>s' code st'. lower_insts T H M b n is s = Some (Inr s') \<and> block_code s' n = Some (old @ code) \<and>
    exec_all exec code st = Some st' \<and> values_held T M (ls_fn s') env' st' \<and> memory st' = memory st \<and>
    agree_except (result_regs (ls_fn s) is \<union> fresh_regs s s') st st' \<and> next_vreg s \<le> next_vreg s'"
  using assms
proof (induction "is" arbitrary: env s st old)
  case Nil
  then show ?case by (auto simp: scalar_run_def intro!: exI [of _ "[]"])
next
  case (Cons i "is")
  from Cons.prems(1) obtain env1 where env1: "scalar_step M i env = Some env1" "scalar_run M is env1 = Some env'"
    by (auto simp: scalar_run_def bind_eq_Some_conv)
  from scalar_step_lowered [OF env1(1) Cons.prems(2-5), of H b n] obtain code s1 st1 where
    s1: "lower_instruction T H M i b n s = Some (Inr (code, s1))" "exec_all exec code st = Some st1"
      "values_held T M (ls_fn s1) env1 st1" "values_ready T M (ls_fn s1) env1" "placed s1" "memory st1 = memory st"
      "only_vregs (s\<lparr>ls_out := []\<rparr>) s1" "straight_line T M (ls_fn s1) env1 is" "ls_fn s1 = ls_fn s"
      "agree_except (result_regs (ls_fn s) (i # is) \<union> fresh_regs s s1) st st1" by blast
  have "block_code s1 n = Some old" using lower_instruction_mf [OF s1(7)] Cons.prems(6) by simp
  from extend_block_code [OF this, of code] obtain s2 where s2: "extend_block n code s1 = Some s2"
    "block_code s2 n = Some (old @ code)" "ls_fn s2 = ls_fn s1" "next_vreg s2 = next_vreg s1" by blast
  have "placed s2" using s1(5) s2(3,4) by (simp add: placed_def)
  with Cons.IH [OF env1(2), of s2 st1 "old @ code"] s1 s2 obtain s' code' st' where
    run: "lower_insts T H M b n is s2 = Some (Inr s')" "block_code s' n = Some (old @ code @ code')"
    "exec_all exec code' st1 = Some st'" "values_held T M (ls_fn s') env' st'" "memory st' = memory st1"
    and agree: "agree_except (result_regs (ls_fn s2) is \<union> fresh_regs s2 s') st1 st'" and le: "next_vreg s2 \<le> next_vreg s'"
    by auto
  have "next_vreg s \<le> next_vreg s1" using only_vregs_le [OF s1(7)] by (simp add: next_vreg_def)
  with le s2(4) have "{next_vreg s..<next_vreg s'} = {next_vreg s..<next_vreg s1} \<union> {next_vreg s2..<next_vreg s'}"
    and le': "next_vreg s \<le> next_vreg s'" by auto
  then have "fresh_regs s s1 \<union> fresh_regs s2 s' = fresh_regs s s'" by (simp add: fresh_regs_def image_Un)
  moreover have "result_regs (ls_fn s2) is \<subseteq> result_regs (ls_fn s) (i # is)"
    using s1(9) s2(3) by (auto simp: result_regs_def)
  ultimately have "agree_except (result_regs (ls_fn s) (i # is) \<union> fresh_regs s s') st st'"
    by (intro agree_except_trans [OF agree_except_mono [OF s1(10)] agree_except_mono [OF agree]]) blast+
  with s1 s2 run le' show ?case
    by (intro exI [of _ s'] exI [of _ "code @ code'"] exI [of _ st']) (simp add: exec_all_append)
qed

end

section \<open>Examples\<close>

text \<open>Two 32-bit arguments, three constants and a list of instructions, the value of each in a register.\<close>

definition lo_arg :: arg_data where
  "lo_arg = \<lparr>ad_name = None, ad_ty = IntT 32, ad_attrs = [], ad_parent = 0, ad_uses = []\<rparr>"

definition lo_const :: "u64 \<Rightarrow> const_data" where
  "lo_const v = \<lparr>cd_ty = IntT 32, cd_kind = CInt \<lparr>ci_value = v, bit_width = 32\<rparr>, cd_uses = []\<rparr>"

definition lo_inst :: "inst_kind \<Rightarrow> inst_data" where
  "lo_inst k = \<lparr>id_parent = Some (BlockRef 0 0), id_ty = IntT (case k of ICmp op l r \<Rightarrow> 1 | _ \<Rightarrow> 32), id_kind = k,
     id_uses = [Use (InstRef 0 9) ZextVal], id_name = None\<rparr>"

definition lo_module :: "inst_kind list \<Rightarrow> module_core" where
  "lo_module ks = module_new\<lparr>
     func_map := [0 \<mapsto> \<lparr>fd_name = ''f'', fd_ty = FunctionT VoidT [IntT 32, IntT 32], fd_attrs = empty_attrs,
       fd_args = [0 \<mapsto> lo_arg, 1 \<mapsto> lo_arg], fd_blocks = Map.empty, fd_insts = map_of (enumerate 0 (map lo_inst ks)),
       fd_block_order = [], fd_entry = 0, fd_is_declare = False\<rparr>],
     const_map := [0 \<mapsto> lo_const 0, 1 \<mapsto> lo_const 5, 2 \<mapsto> lo_const 4]\<rparr>"

abbreviation "lo_a \<equiv> VArg (ArgRef 0 0)"
abbreviation "lo_b \<equiv> VArg (ArgRef 0 1)"
abbreviation "lo_val n \<equiv> VInst (InstRef 0 n)"

definition lo_state :: "('r, 'i) lower_state" where
  "lo_state = \<lparr>ls_out = [],
     ls_mf = (empty_machine_function ''f'')\<lparr>blocks := [\<lparr>mb_id = 0, mb_name = ''entry'', instructions = []\<rparr>], vreg_counter := 6\<rparr>,
     ls_fn = (fn_lowering_new ''f'')\<lparr>fl_vregs := [lo_a \<mapsto> 0, lo_b \<mapsto> 1, lo_val 0 \<mapsto> 2, lo_val 1 \<mapsto> 3, lo_val 2 \<mapsto> 4, lo_val 3 \<mapsto> 5]\<rparr>,
     ls_mm = empty_machine_module\<rparr>"

definition lo_env :: "int \<Rightarrow> int \<Rightarrow> value_id \<Rightarrow> int option" where
  "lo_env a b = [lo_a \<mapsto> a, lo_b \<mapsto> b, VConst 0 \<mapsto> 0, VConst 1 \<mapsto> 5, VConst 2 \<mapsto> 4]"

definition lo_machine :: "int \<Rightarrow> int \<Rightarrow> ('r, 'w :: len word) mstate" where
  "lo_machine a b = \<lparr>gpr = (\<lambda>r. if r = Virtual 0 then normal True 32 a else if r = Virtual 1 then normal True 32 b else 0),
     memory = (\<lambda>_. 0)\<rparr>"

lemma lo_inst_at: "inst_at (lo_module ks) (InstRef 0 n) = (if n < length ks then Some (lo_inst (ks ! n)) else None)"
proof -
  have "map_of (enumerate 0 xs) n = (if n < length xs then Some (xs ! n) else None)" for xs :: "'b list"
    by (induction xs rule: rev_induct) (auto simp: enumerate_append_eq map_add_def nth_append split: option.splits)
  note m = this [of "map lo_inst ks"]
  have "inst_at (lo_module ks) (InstRef 0 n) = map_of (enumerate 0 (map lo_inst ks)) n"
    by (simp add: inst_at_def lo_module_def)
  also have "\<dots> = (if n < length ks then Some (lo_inst (ks ! n)) else None)" unfolding m by simp
  finally show ?thesis .
qed

lemma lo_bits:
  "int_bits_for_value (lo_module ks) lo_a = Some (Some 32)" "int_bits_for_value (lo_module ks) lo_b = Some (Some 32)"
  "k \<le> 2 \<Longrightarrow> int_bits_for_value (lo_module ks) (VConst k) = Some (Some 32)"
  by (auto simp: int_bits_for_value_def value_ty_def arg_at_def lo_module_def lo_arg_def lo_const_def as_int_ty_def)

lemma lo_inst_bits:
  "n < length ks \<Longrightarrow> int_bits_for_value (lo_module ks) (lo_val n) =
     Some (Some (case ks ! n of ICmp op l r \<Rightarrow> 1 | _ \<Rightarrow> 32))"
  by (simp add: int_bits_for_value_def value_ty_def lo_inst_at lo_inst_def as_int_ty_def)

lemma lo_const_int:
  "const_int (lo_module ks) (VConst 0) = Some (Some \<lparr>ci_value = 0, bit_width = 32\<rparr>)"
  "const_int (lo_module ks) (VConst 1) = Some (Some \<lparr>ci_value = 5, bit_width = 32\<rparr>)"
  "const_int (lo_module ks) (VConst 2) = Some (Some \<lparr>ci_value = 4, bit_width = 32\<rparr>)"
  "const_int (lo_module ks) (VInst i) = Some None" "const_int (lo_module ks) (VArg a) = Some None"
  by (simp_all add: const_int_def lo_module_def lo_const_def)

lemma lo_as_i32: "as_i32 \<lparr>ci_value = 5, bit_width = 32\<rparr> = 5" "as_i32 \<lparr>ci_value = 4, bit_width = 32\<rparr> = 4"
  "as_i32 \<lparr>ci_value = 0, bit_width = 32\<rparr> = 0"
  by (simp_all add: as_i32_def as_i64_def as_i64_raw_def ci_mask_def mask_for_def)

lemmas lo_facts = lo_inst_at lo_bits lo_bits [simplified] lo_inst_bits lo_const_int lo_const_int [simplified] lo_as_i32

lemma known_sign_total:
  assumes "int_bits_for_value M v = Some b"
    and "\<And>i. v = VInst i \<Longrightarrow> \<exists>D. inst_at M i = Some D \<and> (\<forall>x y. id_kind D \<noteq> Phi x y)"
  shows "\<exists>k. is_known_sign_extended T M v n = Some k"
proof -
  have e: "is_known_sign_extended T M v n = is_known_sign_extended_depth T M v n (Suc 3)"
    by (simp add: is_known_sign_extended_def)
  show ?thesis unfolding e is_known_sign_extended_depth.simps(2) using assms
    by (cases v) (auto split: inst_kind.split)
qed

text \<open>\<open>(a + 5) * b / 4 < b\<close>.\<close>

definition lo_insts :: "inst_kind list" where
  "lo_insts = [Binary Add lo_a (VConst 1), Binary Mul (lo_val 0) lo_b, Binary SDiv (lo_val 1) (VConst 2),
     ICmp CSlt (lo_val 2) lo_b]"

lemmas lo_defs = lo_module_def lo_inst_def lo_const_def lo_arg_def inst_at_def arg_at_def enumerate_eq_zip
  int_bits_for_value_def value_ty_def as_int_ty_def width_of_def

lemma lo_run: "scalar_run (lo_module lo_insts) (map (InstRef 0) [0, 1, 2, 3]) (lo_env 10 0xFFFFFFFD) =
   Some ((lo_env 10 0xFFFFFFFD)(lo_val 0 \<mapsto> 15, lo_val 1 \<mapsto> 0xFFFFFFD3, lo_val 2 \<mapsto> 0xFFFFFFF5, lo_val 3 \<mapsto> 1))"
  by (simp add: scalar_run_def scalar_step_def lo_insts_def lo_defs operand_width_def arms_known_def inst_val_def
      lo_env_def signed_of_def tdiv_def)

text \<open>\<open>(a ^ b) % 4 < 0\<close>.\<close>

definition lo_rem_insts :: "inst_kind list" where
  "lo_rem_insts = [Binary BitXor lo_a lo_b, Binary SRem (lo_val 0) (VConst 2), ICmp CSlt (lo_val 1) (VConst 0)]"

lemma lo_rem_run: "scalar_run (lo_module lo_rem_insts) (map (InstRef 0) [0, 1, 2]) (lo_env 0x80000001 2) =
   Some ((lo_env 0x80000001 2)(lo_val 0 \<mapsto> 0x80000003, lo_val 1 \<mapsto> 0xFFFFFFFF, lo_val 2 \<mapsto> 1))"
  by (simp add: scalar_run_def scalar_step_def lo_rem_insts_def lo_defs operand_width_def arms_known_def inst_val_def
      lo_env_def signed_of_def tdiv_def trem_def)

definition lowered_code ::
  "('r, 'i, 'z) lowering_target_scheme \<Rightarrow> 'r iteration_orders \<Rightarrow> inst_kind list \<Rightarrow> nat list \<Rightarrow> 'i list option" where
  "lowered_code T H ks is =
     (case lower_insts T H (lo_module ks) (BlockRef 0 0) 0 (map (InstRef 0) is) lo_state of
        Some (Inr s) \<Rightarrow> block_code s 0
      | _ \<Rightarrow> None)"

end
