(* ===== verification/Lower_Targets.thy ===== *)
theory Lower_Targets
  imports RV32 RV64 Lower_Block
begin

text \<open>
  Instruction selection on the two targets: the interpretations of \<open>scalar_machine\<close>, straight-line
  code, and a constant remainder for which the 64-bit target is wrong.
\<close>

interpretation rv32_scalar: scalar_machine rv32_target "rv32_exec E fl" rv32_branch_taken for E fl
  by unfold_locales (simp_all add: rv32_target_def)

interpretation rv64_scalar: scalar_machine rv64_target "rv64_exec E fl" rv64_branch_taken for E fl
  by unfold_locales (simp_all add: rv64_target_def)

lemma lo_block_code: "block_code lo_state 0 = Some []"
  by (simp add: block_code_def get_block_def lo_state_def)

lemma lo_placed: "placed lo_state"
  by (auto simp: placed_def lo_state_def next_vreg_def fn_lowering_new_def inj_on_def split: if_splits)

lemma lo_vregs:
  "fl_vregs (ls_fn lo_state) = [lo_a \<mapsto> 0, lo_b \<mapsto> 1, lo_val 0 \<mapsto> 2, lo_val 1 \<mapsto> 3, lo_val 2 \<mapsto> 4, lo_val 3 \<mapsto> 5]"
  by (simp add: lo_state_def fn_lowering_new_def)

lemma lo_const_holds:
  "const_holds (lo_module ks) 0 0" "const_holds (lo_module ks) 1 5" "const_holds (lo_module ks) 2 4"
  using lo_bits by (auto simp: const_holds_def lo_module_def lo_const_def imm_of_def signed_of_def ci_unsigned_def as_i32_def as_i64_def
      as_i64_raw_def ci_mask_def mask_for_def width_of_def)

lemma lo_known:
  "\<exists>k. is_known_sign_extended T (lo_module lo_insts) lo_a n = Some k"
  "\<exists>k. is_known_sign_extended T (lo_module lo_insts) lo_b n = Some k"
  "j \<le> 2 \<Longrightarrow> \<exists>k. is_known_sign_extended T (lo_module lo_insts) (VConst j) n = Some k"
  "j < 4 \<Longrightarrow> \<exists>k. is_known_sign_extended T (lo_module lo_insts) (lo_val j) n = Some k"
proof -
  show "\<exists>k. is_known_sign_extended T (lo_module lo_insts) lo_a n = Some k"
    "\<exists>k. is_known_sign_extended T (lo_module lo_insts) lo_b n = Some k"
    "j \<le> 2 \<Longrightarrow> \<exists>k. is_known_sign_extended T (lo_module lo_insts) (VConst j) n = Some k"
    by (rule known_sign_total [OF lo_bits(1)] known_sign_total [OF lo_bits(2)] known_sign_total [OF lo_bits(3)]; simp)+
  assume "j < 4"
  then have j: "j < length lo_insts" by (simp add: lo_insts_def)
  have "lo_insts ! j \<noteq> Phi x y" for x y using \<open>j < 4\<close> by (auto simp: lo_insts_def less_Suc_eq numeral_eq_Suc)
  then show "\<exists>k. is_known_sign_extended T (lo_module lo_insts) (lo_val j) n = Some k"
    by (intro known_sign_total [OF lo_inst_bits [OF j]]) (auto simp: lo_inst_at j lo_inst_def)
qed

lemma lo_lowerable:
  assumes "j < 4"
  shows "\<exists>D. inst_at (lo_module lo_insts) (InstRef 0 j) = Some D \<and> scalar_lowerable T (lo_module lo_insts) (InstRef 0 j)
    (id_kind D) (operand_width (lo_module lo_insts) (id_kind D)) (width_of (lo_module lo_insts) (lo_val j))"
proof -
  have "j = 0 \<or> j = 1 \<or> j = 2 \<or> j = 3" using assms by auto
  then show ?thesis
  proof (elim disjE)
  qed (simp_all add: lo_insts_def lo_facts lo_inst_def width_of_def scalar_lowerable_def
    binary_lowerable_def operand_width_def icmp_is_only_branch_cond_def value_uses_def imm_safe_def unsigned_abs_def)
qed

lemma lo_regs: "j < 4 \<Longrightarrow> \<exists>r. fl_vregs (ls_fn lo_state) (lo_val j) = Some r"
  by (auto simp: lo_vregs less_Suc_eq numeral_eq_Suc)

lemma lo_straight_line:
  "straight_line T (lo_module lo_insts) (ls_fn lo_state) (lo_env a b) (map (InstRef 0) [0, 1, 2, 3])"
  unfolding straight_line_def
proof (intro conjI ballI)
  fix i assume "i \<in> set (map (InstRef 0) [0, 1, 2, 3])"
  then obtain j where j: "j < 4" "i = InstRef 0 j" by auto
  from lo_regs [OF j(1)] lo_known(4) [OF j(1)] lo_lowerable [OF j(1)]
  show "fl_vregs (ls_fn lo_state) (VInst i) \<noteq> None"
    "is_known_sign_extended T (lo_module lo_insts) (VInst i) (width_of (lo_module lo_insts) (VInst i)) \<noteq> None"
    "\<exists>D. inst_at (lo_module lo_insts) i = Some D \<and> scalar_lowerable T (lo_module lo_insts) i (id_kind D)
      (operand_width (lo_module lo_insts) (id_kind D)) (width_of (lo_module lo_insts) (VInst i))"
    unfolding j(2) by (fastforce | blast)+
  show "lo_env a b (VInst i) = None" by (simp add: lo_env_def)
qed (simp add: distinct_map inj_on_def)

lemma lo_ready: "values_ready T (lo_module lo_insts) (ls_fn lo_state) (lo_env a b)"
  unfolding values_ready_def
proof (intro allI impI conjI)
  fix v x assume v: "lo_env a b v = Some x"
  then consider "v = lo_a" | "v = lo_b" | j where "v = VConst j" "j \<le> 2" by (auto simp: lo_env_def split: if_splits)
  then show "is_known_sign_extended T (lo_module lo_insts) v (width_of (lo_module lo_insts) v) \<noteq> None"
    by cases (use lo_known in fastforce)+
  from v show "case v of VConst c \<Rightarrow> const_holds (lo_module lo_insts) c x | VGlobal g \<Rightarrow> False
      | _ \<Rightarrow> fl_vregs (ls_fn lo_state) v \<noteq> None"
    using lo_const_holds by (auto simp: lo_vregs lo_env_def split: if_splits)
qed

text \<open>The arguments are sign extended, as the calling convention leaves them.\<close>

lemma lo_word_holds:
  fixes w :: "'w :: len word"
  assumes "32 \<le> LENGTH('w)" "int_bits_for_value M v = Some (Some 32)" "0 \<le> x" "x < 2 ^ 32" "w = normal True 32 x"
  shows "word_holds T M v x w"
proof -
  have "uint (normal True 32 x :: 'w word) mod 2 ^ 32 = x" using normal_mod [OF _ assms(1), of True x] assms(3,4) by simp
  then show ?thesis using assms by (simp add: word_holds_def width_of_def)
qed

lemma lo_held:
  fixes st :: "('r, 'w :: len word) mstate"
  assumes "32 \<le> LENGTH('w)" "0 \<le> a" "a < 2 ^ 32" "0 \<le> b" "b < 2 ^ 32" and st: "st = lo_machine a b"
  shows "values_held T (lo_module ks) (ls_fn lo_state) (lo_env a b) st"
proof -
  have g: "get_reg z st (Virtual 0) = normal True 32 a" "get_reg z st (Virtual 1) = normal True 32 b" for z
    by (simp_all add: st lo_machine_def get_reg_def)
  have "word_holds T (lo_module ks) lo_a a (get_reg z st (Virtual 0))" "word_holds T (lo_module ks) lo_b b (get_reg z st (Virtual 1))" for z
    by (rule lo_word_holds; use assms g lo_bits in simp)+
  then show ?thesis using assms(1) lo_bits lo_const_holds
    by (auto simp: values_held_def value_held_def lo_env_def lo_vregs width_of_def split: if_splits)
qed

text \<open>C0. Straight-line instruction selection on RV64.  For a run of scalar instructions whose registers
  are assigned, injectively and behind the counter (\<open>placed\<close>), and hold the values known so far,
  \<open>lower_insts\<close> returns, appends code to the block, and running that code ends with the register of every
  instruction holding the value it means.  It changes no memory and no register other than the results'
  and those allocated on the way, so no physical register.  Integers of any width up to 64 live in 64-bit
  registers.  Covered are binary operations, comparisons, selections and integer casts.  Left out (\<open>straight_line\<close>, \<open>values_ready\<close>): constants that
  the 32-bit immediates cannot express (\<open>const_holds\<close>), comparisons that only feed branches and so emit no
  code of their own, signed operations and sign extension on Booleans, and the constant right operands that
  \<open>imm_safe\<close> excludes: shift amounts that are not below the width; divisors with the sign bit set in
  unsigned divisions at widths other than 32; and at 32 bits negative powers of two as factors, the
  divisor -1, divisors of signed remainders that are negative powers of two, and, where the left operand is
  not known to be sign extended, the factor 1, the divisor 1 and powers of two in signed remainders.\<close>

theorem rv64_straight_line_lowering_correct:
  fixes st :: "(rv64_reg, 64 word) mstate"
  assumes "scalar_run M is env = Some env'" "straight_line rv64_target M (ls_fn s) env is" "placed s"
    and "values_held rv64_target M (ls_fn s) env st" "values_ready rv64_target M (ls_fn s) env"
    and "block_code s n = Some old"
  shows "\<exists>s' code st'. lower_insts rv64_target H M b n is s = Some (Inr s') \<and> block_code s' n = Some (old @ code) \<and>
    exec_all (rv64_exec E fl) code st = Some st' \<and> values_held rv64_target M (ls_fn s') env' st' \<and>
    memory st' = memory st \<and> agree_except (result_regs (ls_fn s) is \<union> fresh_regs s s') st st'"
  using rv64_scalar.lower_insts_correct [OF assms] by blast

theorem rv64_straight_line_lowering_correct_witness:
  "\<forall>H b E fl. \<exists>s' code st'. lower_insts rv64_target H (lo_module lo_insts) b 0 (map (InstRef 0) [0, 1, 2, 3]) lo_state = Some (Inr s') \<and>
    block_code s' 0 = Some code \<and> exec_all (rv64_exec E fl) code (lo_machine 10 0xFFFFFFFD) = Some st' \<and>
    values_held rv64_target (lo_module lo_insts) (ls_fn s') ((lo_env 10 0xFFFFFFFD)
      (lo_val 0 \<mapsto> 15, lo_val 1 \<mapsto> 0xFFFFFFD3, lo_val 2 \<mapsto> 0xFFFFFFF5, lo_val 3 \<mapsto> 1)) st'" (is "\<forall>H b E fl. ?P H b E fl")
proof (intro allI)
  fix H b E fl
  show "?P H b E fl"
    using rv64_straight_line_lowering_correct [OF lo_run lo_straight_line lo_placed lo_held lo_ready lo_block_code,
      where H = H and b = b and E = E and fl = fl] by auto
qed

text \<open>C0. Straight-line instruction selection on RV32, for integers of up to 32 bits: \<open>lower_insts\<close> returns,
  and the code it appends leaves in the register of every instruction the value it means, and changes no
  memory and no register other than the results' and those allocated on the way.  No operation
  needs a 32-bit form there, and of the constant operands only shift amounts that are not below the width and
  an unsigned division of a narrow type by a constant with its sign bit set are left out by \<open>imm_safe\<close>.  As on
  RV64, the registers of the values are assigned injectively and behind the counter, and constants that the
  immediates cannot express, comparisons that only feed branches, and signed operations and sign extension on
  Booleans are left out.\<close>

theorem rv32_straight_line_lowering_correct:
  fixes st :: "(rv32_reg, 32 word) mstate"
  assumes "scalar_run M is env = Some env'" "straight_line rv32_target M (ls_fn s) env is" "placed s"
    and "values_held rv32_target M (ls_fn s) env st" "values_ready rv32_target M (ls_fn s) env"
    and "block_code s n = Some old"
  shows "\<exists>s' code st'. lower_insts rv32_target H M b n is s = Some (Inr s') \<and> block_code s' n = Some (old @ code) \<and>
    exec_all (rv32_exec E fl) code st = Some st' \<and> values_held rv32_target M (ls_fn s') env' st' \<and>
    memory st' = memory st \<and> agree_except (result_regs (ls_fn s) is \<union> fresh_regs s s') st st'"
  using rv32_scalar.lower_insts_correct [OF assms] by blast

theorem rv32_straight_line_lowering_correct_witness:
  "\<forall>H b E fl. \<exists>s' code st'. lower_insts rv32_target H (lo_module lo_insts) b 0 (map (InstRef 0) [0, 1, 2, 3]) lo_state = Some (Inr s') \<and>
    block_code s' 0 = Some code \<and> exec_all (rv32_exec E fl) code (lo_machine 10 0xFFFFFFFD) = Some st' \<and>
    values_held rv32_target (lo_module lo_insts) (ls_fn s') ((lo_env 10 0xFFFFFFFD)
      (lo_val 0 \<mapsto> 15, lo_val 1 \<mapsto> 0xFFFFFFD3, lo_val 2 \<mapsto> 0xFFFFFFF5, lo_val 3 \<mapsto> 1)) st'" (is "\<forall>H b E fl. ?P H b E fl")
proof (intro allI)
  fix H b E fl
  show "?P H b E fl"
    using rv32_straight_line_lowering_correct [OF lo_run lo_straight_line lo_placed lo_held lo_ready lo_block_code,
      where H = H and b = b and E = E and fl = fl] by auto
qed

section \<open>A remainder that loses its sign\<close>

abbreviation lo_rem_listing :: "rv64_inst list" where
  "lo_rem_listing \<equiv> [
     rv64_inst.Slli (Virtual 6) (Virtual 0) 32, rv64_inst.Srli (Virtual 6) (Virtual 6) 32,
     rv64_inst.Slli (Virtual 7) (Virtual 1) 32, rv64_inst.Srli (Virtual 7) (Virtual 7) 32,
     rv64_inst.Xor (Virtual 8) (Virtual 6) (Virtual 7),
     rv64_inst.Slli (Virtual 9) (Virtual 8) 32, rv64_inst.Srli (Virtual 9) (Virtual 9) 32,
     rv64_inst.Mv (Virtual 2) (Virtual 9),
     rv64_inst.Sraiw (Virtual 11) (Virtual 2) 31, rv64_inst.Srli (Virtual 11) (Virtual 11) 62,
     rv64_inst.Add (Virtual 12) (Virtual 2) (Virtual 11),
     rv64_inst.Sraiw (Virtual 10) (Virtual 12) 2, rv64_inst.Slliw (Virtual 13) (Virtual 10) 2,
     rv64_inst.Sub (Virtual 3) (Virtual 2) (Virtual 13),
     rv64_inst.Slt (Virtual 4) (Virtual 3) (Physical rv64_reg.Zero)]"

lemma lo_rem_code:
  assumes "P (Some lo_rem_listing)"
  shows "P (lowered_code rv64_target H lo_rem_insts [0, 1, 2])"
  apply code_simp
  using assms apply simp
  done

lemma lo_rem_exec:
  "map_option (\<lambda>st. get_reg rv64_reg.Zero st (Virtual 4))
     (exec_all (rv64_exec E fl) lo_rem_listing (lo_machine 0x80000001 2)) = Some 0"
  by (simp add: rv64_exec_def step_op3_def step_imm_def step_shift_imm_def get_put_reg lo_machine_def get_reg_def
      put_reg_def normal_def signed_of_def rv_sll_def rv_srl_def rv_sra_def shamt_def simm_def w_op_def rv_slt_def
      mask_eq_exp_minus_1)

text \<open>C0. A constant remainder loses its sign on RV64.  The last instruction of \<open>emit_srem_const\<close> is a 64-bit subtraction of the dividend, whose upper half
  is whatever the register holds, but \<open>is_known_sign_extended\<close> takes every 32-bit remainder for sign
  extended.  \<open>a ^ b\<close> leaves its result zero extended; so \<open>(a ^ b) % 4 < 0\<close>, true for \<open>a = 0x80000001\<close> and
  \<open>b = 2\<close>, is lowered to code that leaves 0.\<close>

theorem rv64_constant_remainder_loses_sign:
  "values_held rv64_target (lo_module lo_rem_insts) (ls_fn lo_state) (lo_env 0x80000001 2)
      (lo_machine 0x80000001 2 :: (rv64_reg, 64 word) mstate) \<and>
   map_option (\<lambda>env. env (lo_val 2))
      (scalar_run (lo_module lo_rem_insts) (map (InstRef 0) [0, 1, 2]) (lo_env 0x80000001 2)) = Some (Some 1) \<and>
   (\<exists>code. lowered_code rv64_target H lo_rem_insts [0, 1, 2] = Some code \<and>
      map_option (\<lambda>st. get_reg rv64_reg.Zero st (Virtual 4)) (exec_all (rv64_exec E fl) code (lo_machine 0x80000001 2)) = Some 0)"
proof (intro conjI)
  show "\<exists>code. lowered_code rv64_target H lo_rem_insts [0, 1, 2] = Some code \<and>
      map_option (\<lambda>st. get_reg rv64_reg.Zero st (Virtual 4)) (exec_all (rv64_exec E fl) code (lo_machine 0x80000001 2)) = Some 0"
    by (rule lo_rem_code) (use lo_rem_exec in blast)
  show "map_option (\<lambda>env. env (lo_val 2))
      (scalar_run (lo_module lo_rem_insts) (map (InstRef 0) [0, 1, 2]) (lo_env 0x80000001 2)) = Some (Some 1)"
    unfolding lo_rem_run by simp
qed (simp add: lo_held)

end
