(* ===== verification/Type_Solver.thy ===== *)
theory Type_Solver
  imports Prelude
begin

text \<open>
  The types of the semantic analysis and their unification: \<open>src/src/semantics/resolved_ty.rs\<close> (the
  types and their constructors) and \<open>src/src/semantics/type_solver.rs\<close>.

  The unification table is the crate \<open>ena\<close>, a parameter: the record \<open>unify_table\<close> of the operations
  the solver calls.  A table merges classes of keys with the function \<open>unify_values\<close> of this
  repository, which is modelled.  A solver returns \<open>None\<close> for a panic or when the fuel of the
  recursion is used up, else the \<open>Result\<close> and the table with the flag \<open>downgrade\<close>.
\<close>

section \<open>Types\<close>

type_synonym type_key = nat
type_synonym type_names = "string list \<times> string list option"

datatype type_intern = Never | Other type_key

datatype built_in_ty = TyBool | TyChar | TyI32 | TyISize | TyU32 | TyUSize | TyStr
datatype ref_mutability = RefNot | RefMut | RefWeakMut
datatype any_ty_kind = AnyAny | AnyInt | AnySignedInt

datatype 't ty_kind =
    Placeholder
  | BuiltIn built_in_ty
  | Ref 't ref_mutability
  | Tup "'t list"
  | Enum
  | Trait
  | Array 't "u32 option"
  | Fn 't "'t list"
  | Any any_ty_kind
  | ImplicitSelf 't

record 't resolved =
  rt_names :: "type_names option"
  rt_kind :: "'t ty_kind"

type_synonym resolved_ty = "type_intern resolved"

definition to_key :: "type_intern \<Rightarrow> type_key option" where
  "to_key t = (case t of Never \<Rightarrow> None | Other k \<Rightarrow> Some k)"

text \<open>The constructors and tests that the macro \<open>type_define\<close> generates, by the kind they build.\<close>

definition unnamed :: "'t ty_kind \<Rightarrow> 't resolved" where
  "unnamed k = \<lparr>rt_names = None, rt_kind = k\<rparr>"

definition is_kind :: "'t ty_kind \<Rightarrow> 't resolved \<Rightarrow> bool" where
  "is_kind k ty \<longleftrightarrow> rt_kind ty = k"

abbreviation is_any_type :: "'t resolved \<Rightarrow> bool" where
  "is_any_type \<equiv> is_kind (Any AnyAny)"

definition ref_type :: "'t \<Rightarrow> ref_mutability \<Rightarrow> 't resolved" where
  "ref_type ty m = \<lparr>rt_names = None, rt_kind = Ref ty m\<rparr>"

definition array_type :: "'t \<Rightarrow> u32 option \<Rightarrow> 't resolved" where
  "array_type ty len = \<lparr>rt_names = None, rt_kind = Array ty len\<rparr>"

definition tup_type :: "'t list \<Rightarrow> 't resolved" where
  "tup_type tys = \<lparr>rt_names = None, rt_kind = Tup tys\<rparr>"

definition fn_type :: "'t \<Rightarrow> 't list \<Rightarrow> 't resolved" where
  "fn_type ret args = \<lparr>rt_names = None, rt_kind = Fn ret args\<rparr>"

definition is_integer :: "'t resolved \<Rightarrow> bool" where
  "is_integer ty \<longleftrightarrow> (case rt_kind ty of
     BuiltIn b \<Rightarrow> b \<in> {TyI32, TyISize, TyU32, TyUSize}
   | Any k \<Rightarrow> k \<in> {AnyInt, AnySignedInt}
   | _ \<Rightarrow> False)"

definition is_signed_integer :: "'t resolved \<Rightarrow> bool" where
  "is_signed_integer ty \<longleftrightarrow> (case rt_kind ty of
     BuiltIn b \<Rightarrow> b \<in> {TyI32, TyISize}
   | Any k \<Rightarrow> k = AnySignedInt
   | _ \<Rightarrow> False)"

definition is_unsized_type :: "'t resolved \<Rightarrow> bool" where
  "is_unsized_type ty \<longleftrightarrow> rt_kind ty = BuiltIn TyStr"

text \<open>A type read out of the table, with its parts in place of their keys.\<close>

datatype ty_instance = TyInstance "type_names option" "ty_instance ty_kind"

fun remove_implicit_self :: "ty_instance option \<Rightarrow> ty_instance \<Rightarrow> ty_instance" where
  "remove_implicit_self alter (TyInstance names kind) =
     (case kind of
        Ref inner m \<Rightarrow> TyInstance names (Ref (remove_implicit_self alter inner) m)
      | Tup items \<Rightarrow> TyInstance names (Tup (map (remove_implicit_self alter) items))
      | Array inner len \<Rightarrow> TyInstance names (Array (remove_implicit_self alter inner) len)
      | Fn ret items \<Rightarrow>
          TyInstance names (Fn (remove_implicit_self alter ret) (map (remove_implicit_self alter) items))
      | ImplicitSelf inner \<Rightarrow> (case alter of Some a \<Rightarrow> a | None \<Rightarrow> inner)
      | k \<Rightarrow> TyInstance names k)"

section \<open>Unification of values\<close>

datatype type_solve_error =
  NameMismatch | BuiltInMismatch | MutabilityMismatch | StructLengthMismatch | ArrayLengthMismatch
  | AnyTypeMismatch | GeneralTypeMismatch

definition select :: "type_intern \<Rightarrow> type_intern \<Rightarrow> type_intern" where
  "select t1 t2 =
     (case (t1, t2) of
        (Never, Never) \<Rightarrow> Never
      | (Never, Other k) \<Rightarrow> Other k
      | (Other k, _) \<Rightarrow> Other k)"

fun ref_mutability_eq :: "ref_mutability \<Rightarrow> ref_mutability \<Rightarrow> type_solve_error + ref_mutability" where
  "ref_mutability_eq RefWeakMut RefWeakMut = Inr RefWeakMut"
| "ref_mutability_eq RefNot RefNot = Inr RefNot"
| "ref_mutability_eq RefNot RefWeakMut = Inr RefNot"
| "ref_mutability_eq RefWeakMut RefNot = Inr RefNot"
| "ref_mutability_eq RefNot RefMut = Inl MutabilityMismatch"
| "ref_mutability_eq RefMut RefNot = Inl MutabilityMismatch"
| "ref_mutability_eq RefMut RefMut = Inr RefMut"
| "ref_mutability_eq RefMut RefWeakMut = Inr RefMut"
| "ref_mutability_eq RefWeakMut RefMut = Inr RefMut"

definition can_cast_to :: "any_ty_kind \<Rightarrow> 't ty_kind \<Rightarrow> bool" where
  "can_cast_to any target \<longleftrightarrow>
     any = AnyAny \<or>
     any \<in> {AnyInt, AnySignedInt} \<and>
       (case target of BuiltIn b \<Rightarrow> b \<in> {TyI32, TyISize} | Any k \<Rightarrow> k = AnySignedInt | _ \<Rightarrow> False) \<or>
     any = AnyInt \<and>
       (case target of BuiltIn b \<Rightarrow> b \<in> {TyU32, TyUSize} | Any k \<Rightarrow> k = AnyInt | _ \<Rightarrow> False)"

definition array_len_eq :: "u32 option \<Rightarrow> u32 option \<Rightarrow> type_solve_error + u32 option" where
  "array_len_eq l1 l2 =
     (case (l1, l2) of
        (None, None) \<Rightarrow> Inr None
      | (None, Some l) \<Rightarrow> Inr (Some l)
      | (Some l, None) \<Rightarrow> Inr (Some l)
      | (Some l, Some l') \<Rightarrow> if l \<noteq> l' then Inl ArrayLengthMismatch else Inr (Some l))"

text \<open>The arms of the match in their order; unnamed enums and traits are \<open>impossible!\<close>.\<close>

definition unify_kinds :: "resolved_ty \<Rightarrow> resolved_ty \<Rightarrow> (type_solve_error + resolved_ty) option" where
  "unify_kinds value1 value2 =
     (case (rt_kind value1, rt_kind value2) of
        (_, Any AnyAny) \<Rightarrow> Some (Inr value1)
      | (Any AnyAny, _) \<Rightarrow> Some (Inr value2)
      | (BuiltIn b1, BuiltIn b2) \<Rightarrow> Some (if b1 \<noteq> b2 then Inl BuiltInMismatch else Inr value1)
      | (Ref t1 m1, Ref t2 m2) \<Rightarrow>
          Some (case ref_mutability_eq m1 m2 of Inl e \<Rightarrow> Inl e | Inr m \<Rightarrow> Inr (ref_type (select t1 t2) m))
      | (Tup ts1, Tup ts2) \<Rightarrow>
          Some (if length ts1 \<noteq> length ts2 then Inl StructLengthMismatch
                else Inr (tup_type (map2 select ts1 ts2)))
      | (Enum, Enum) \<Rightarrow> None
      | (Trait, Trait) \<Rightarrow> None
      | (Array t1 l1, Array t2 l2) \<Rightarrow>
          Some (case array_len_eq l1 l2 of Inl e \<Rightarrow> Inl e | Inr l \<Rightarrow> Inr (array_type (select t1 t2) l))
      | (Fn r1 a1, Fn r2 a2) \<Rightarrow> Some (Inr (fn_type (select r1 r2) (map2 select a1 a2)))
      | (l, Any kind) \<Rightarrow> Some (if can_cast_to kind l then Inr value1 else Inl AnyTypeMismatch)
      | (Any kind, r) \<Rightarrow> Some (if can_cast_to kind r then Inr value2 else Inl AnyTypeMismatch)
      | _ \<Rightarrow> Some (Inl GeneralTypeMismatch))"

definition unify_values :: "resolved_ty \<Rightarrow> resolved_ty \<Rightarrow> (type_solve_error + resolved_ty) option" where
  "unify_values value1 value2 =
     (if rt_names value2 \<noteq> None then Some (Inr value2)
      else if rt_names value1 \<noteq> None then Some (Inr value1)
      else unify_kinds value1 value2)"

section \<open>The solver\<close>

record 'u unify_table =
  probe_value :: "'u \<Rightarrow> type_key \<Rightarrow> resolved_ty"
  unioned :: "'u \<Rightarrow> type_key \<Rightarrow> type_key \<Rightarrow> bool"
  unify_var_var :: "'u \<Rightarrow> type_key \<Rightarrow> type_key \<Rightarrow> ((type_solve_error + unit) \<times> 'u) option"
  unify_var_value :: "'u \<Rightarrow> type_key \<Rightarrow> resolved_ty \<Rightarrow> ((type_solve_error + unit) \<times> 'u) option"
  new_key :: "'u \<Rightarrow> resolved_ty \<Rightarrow> type_key \<times> 'u"

record 'u type_solver =
  ts_ut :: 'u
  ts_downgrade :: bool

type_synonym 'u solved = "((type_solve_error + unit) \<times> 'u type_solver) option"

text \<open>The operator \<open>?\<close>.\<close>

definition and_then :: "'u solved \<Rightarrow> ('u type_solver \<Rightarrow> 'u solved) \<Rightarrow> 'u solved" where
  "and_then r f = (case r of None \<Rightarrow> None | Some (res, s) \<Rightarrow> (case res of Inl e \<Rightarrow> Some (Inl e, s) | Inr u \<Rightarrow> f s))"

lemma and_then_simps [simp]:
  "and_then None f = None" "and_then (Some (Inl e, s)) f = Some (Inl e, s)" "and_then (Some (Inr u, s)) f = f s"
  by (simp_all add: and_then_def)

lemma and_then_Some:
  "and_then r f = Some (res, s') \<longleftrightarrow>
     (\<exists>e. res = Inl e \<and> r = Some (Inl e, s')) \<or> (\<exists>s. r = Some (Inr (), s) \<and> f s = Some (res, s'))"
proof (cases r)
  case (Some p)
  then show ?thesis
  proof (cases "fst p")
    case (Inl e)
    then show ?thesis using Some by (cases p) (simp, blast)
  next
    case (Inr u)
    then show ?thesis using Some by (cases p) simp
  qed
qed simp

definition on_table :: "('u \<Rightarrow> ((type_solve_error + unit) \<times> 'u) option) \<Rightarrow> 'u type_solver \<Rightarrow> 'u solved" where
  "on_table f s = map_option (\<lambda>(r, u). (r, s\<lparr>ts_ut := u\<rparr>)) (f (ts_ut s))"

fun try_pairs :: "(type_intern \<Rightarrow> type_intern \<Rightarrow> 'u type_solver \<Rightarrow> 'u solved) \<Rightarrow>
  (type_intern \<times> type_intern) list \<Rightarrow> 'u type_solver \<Rightarrow> 'u solved" where
  "try_pairs f [] s = Some (Inr (), s)"
| "try_pairs f ((x, y) # rest) s = and_then (f x y s) (try_pairs f rest)"

text \<open>The pairs of parts that \<open>eq_inner\<close> goes through.\<close>

definition eq_inner ::
  "(type_intern \<Rightarrow> type_intern \<Rightarrow> 'u type_solver \<Rightarrow> 'u solved) \<Rightarrow> resolved_ty \<Rightarrow> resolved_ty \<Rightarrow>
     'u type_solver \<Rightarrow> 'u solved" where
  "eq_inner equate left_ty right_ty s =
     (if rt_names left_ty \<noteq> rt_names right_ty
      then if \<not> (is_any_type left_ty \<or> is_any_type right_ty) then Some (Inl NameMismatch, s) else Some (Inr (), s)
      else
        case (rt_kind left_ty, rt_kind right_ty) of
          (Ref t1 _, Ref t2 _) \<Rightarrow> equate t1 t2 s
        | (Tup t1, Tup t2) \<Rightarrow> try_pairs equate (zip t1 t2) s
        | (Array t1 _, Array t2 _) \<Rightarrow> equate t1 t2 s
        | (Fn r1 a1, Fn r2 a2) \<Rightarrow> and_then (equate r1 r2 s) (try_pairs equate (zip a1 a2))
        | _ \<Rightarrow> Some (Inr (), s))"

text \<open>\<open>None\<close>: the keys are unioned already; else the types to compare, an \<open>ImplicitSelf\<close> replaced by the
  trait it stands for.\<close>

definition look_through ::
  "'u unify_table \<Rightarrow> type_key \<Rightarrow> type_key \<Rightarrow> 'u \<Rightarrow> (resolved_ty \<times> resolved_ty) option option" where
  "look_through U left right u =
     (let left_ty = probe_value U u left; right_ty = probe_value U u right in
      case (rt_kind left_ty, rt_kind right_ty) of
        (ImplicitSelf l, ImplicitSelf r) \<Rightarrow> do {
          lk \<leftarrow> to_key l; rk \<leftarrow> to_key r;
          Some (if unioned U u lk rk then None else Some (probe_value U u lk, probe_value U u rk)) }
      | (ImplicitSelf l, _) \<Rightarrow> do {
          lk \<leftarrow> to_key l;
          Some (if unioned U u lk right then None else Some (probe_value U u lk, right_ty)) }
      | (_, ImplicitSelf r) \<Rightarrow> do {
          rk \<leftarrow> to_key r;
          Some (if unioned U u left rk then None else Some (left_ty, probe_value U u rk)) }
      | _ \<Rightarrow> Some (Some (left_ty, right_ty)))"

definition downgrades :: "resolved_ty \<Rightarrow> resolved_ty \<Rightarrow> (type_intern \<times> type_intern) option" where
  "downgrades left_ty right_ty =
     (if rt_names left_ty = None \<and> rt_names right_ty = None
      then case (rt_kind left_ty, rt_kind right_ty) of
          (Ref inner1 RefNot, Ref inner2 RefMut) \<Rightarrow> Some (inner1, inner2)
        | _ \<Rightarrow> None
      else None)"

fun solver_eq :: "nat \<Rightarrow> 'u unify_table \<Rightarrow> type_intern \<Rightarrow> type_intern \<Rightarrow> 'u type_solver \<Rightarrow> 'u solved" where
  "solver_eq 0 U l r s = None"
| "solver_eq (Suc fuel) U l r s =
     (case (l, r) of
        (Other left, Other right) \<Rightarrow>
          if unioned U (ts_ut s) left right then Some (Inr (), s)
          else do {
            tys \<leftarrow> look_through U left right (ts_ut s);
            (case tys of
               None \<Rightarrow> Some (Inr (), s)
             | Some (left_ty, right_ty) \<Rightarrow>
                 (case (if ts_downgrade s then downgrades left_ty right_ty else None) of
                    Some (inner1, inner2) \<Rightarrow>
                      and_then (solver_eq fuel U inner1 inner2 (s\<lparr>ts_downgrade := False\<rparr>))
                        (\<lambda>s1. Some (Inr (), s1\<lparr>ts_downgrade := True\<rparr>))
                  | None \<Rightarrow>
                      and_then (on_table (\<lambda>u. unify_var_var U u left right) (s\<lparr>ts_downgrade := False\<rparr>))
                        (eq_inner (solver_eq fuel U) left_ty right_ty)))
          }
      | _ \<Rightarrow> Some (Inr (), s))"

definition eq_with_type ::
  "nat \<Rightarrow> 'u unify_table \<Rightarrow> type_intern \<Rightarrow> resolved_ty \<Rightarrow> 'u type_solver \<Rightarrow> 'u solved" where
  "eq_with_type fuel U l right_ty s =
     (case l of
        Never \<Rightarrow> Some (Inr (), s)
      | Other left \<Rightarrow>
          let left_ty = probe_value U (ts_ut s) left
          in and_then (on_table (\<lambda>u. unify_var_value U u left right_ty) s)
               (eq_inner (solver_eq fuel U) left_ty right_ty))"

text \<open>The entry points: \<open>ty_intern_eq\<close> with \<open>downgrade\<close> off, \<open>ty_downgrade_eq\<close> with it on.\<close>

definition ty_eq ::
  "bool \<Rightarrow> nat \<Rightarrow> 'u unify_table \<Rightarrow> type_intern \<Rightarrow> type_intern \<Rightarrow> 'u \<Rightarrow> ((type_solve_error + unit) \<times> 'u) option" where
  "ty_eq downgrade fuel U l r u =
     map_option (\<lambda>(res, s). (res, ts_ut s)) (solver_eq fuel U l r \<lparr>ts_ut = u, ts_downgrade = downgrade\<rparr>)"

definition type_eq_value ::
  "nat \<Rightarrow> 'u unify_table \<Rightarrow> type_intern \<Rightarrow> resolved_ty \<Rightarrow> 'u \<Rightarrow> ((type_solve_error + unit) \<times> 'u) option" where
  "type_eq_value fuel U l right_ty u = do {
     rust_assert (rt_names right_ty = None);
     map_option (\<lambda>(res, s). (res, ts_ut s)) (eq_with_type fuel U l right_ty \<lparr>ts_ut = u, ts_downgrade = False\<rparr>) }"

section \<open>Reading and rebuilding types\<close>

definition intern_type :: "'u unify_table \<Rightarrow> resolved_ty \<Rightarrow> 'u \<Rightarrow> type_key \<times> 'u" where
  "intern_type U ty u = new_key U u ty"

definition set_type_kind :: "'u unify_table \<Rightarrow> type_key \<Rightarrow> type_intern ty_kind \<Rightarrow> 'u \<Rightarrow> 'u option" where
  "set_type_kind U key kind u = do {
     let v = probe_value U u key;
     rust_assert (rt_names v \<noteq> None);
     (res, u') \<leftarrow> unify_var_value U u key (v\<lparr>rt_kind := kind\<rparr>);
     (case res of Inl e \<Rightarrow> None | Inr _ \<Rightarrow> Some u') }"

definition probe_type :: "'u unify_table \<Rightarrow> 'u \<Rightarrow> type_intern \<Rightarrow> resolved_ty option" where
  "probe_type U u t = (case t of Never \<Rightarrow> None | Other k \<Rightarrow> Some (probe_value U u k))"

text \<open>The operator \<open>?\<close> on an \<open>Option\<close>, and a \<open>collect\<close> that stops at the first \<open>None\<close>; the outer option is
  \<open>None\<close> when the fuel is used up.\<close>

definition opt_then :: "'a option option \<Rightarrow> ('a \<Rightarrow> 'b option option) \<Rightarrow> 'b option option" where
  "opt_then r f = (case r of None \<Rightarrow> None | Some None \<Rightarrow> Some None | Some (Some x) \<Rightarrow> f x)"

lemma opt_then_simps [simp]:
  "opt_then None f = None" "opt_then (Some None) f = Some None" "opt_then (Some (Some x)) f = f x"
  by (simp_all add: opt_then_def)

fun collect_opt :: "('a \<Rightarrow> 'b option option) \<Rightarrow> 'a list \<Rightarrow> 'b list option option" where
  "collect_opt f [] = Some (Some [])"
| "collect_opt f (x # xs) = opt_then (f x) (\<lambda>y. opt_then (collect_opt f xs) (\<lambda>ys. Some (Some (y # ys))))"

fun probe_type_instance_impl ::
  "nat \<Rightarrow> 'u unify_table \<Rightarrow> 'u \<Rightarrow> bool \<Rightarrow> ty_instance option \<Rightarrow> type_intern \<Rightarrow> ty_instance option option" where
  "probe_type_instance_impl 0 U u rem alter t = None"
| "probe_type_instance_impl (Suc fuel) U u rem alter t =
     opt_then (Some (probe_type U u t)) (\<lambda>ty.
       let probe = probe_type_instance_impl fuel U u rem alter; inst = (\<lambda>k. Some (Some (TyInstance (rt_names ty) k))) in
       case rt_kind ty of
         Placeholder \<Rightarrow> inst Placeholder
       | BuiltIn b \<Rightarrow> inst (BuiltIn b)
       | Ref inner m \<Rightarrow> opt_then (probe inner) (\<lambda>i. inst (Ref i m))
       | Tup items \<Rightarrow> opt_then (collect_opt probe items) (\<lambda>is. inst (Tup is))
       | Enum \<Rightarrow> inst Enum
       | Trait \<Rightarrow> inst Trait
       | Array inner l \<Rightarrow> opt_then (probe inner) (\<lambda>i. inst (Array i l))
       | Fn ret args \<Rightarrow> opt_then (probe ret) (\<lambda>r. opt_then (collect_opt probe args) (\<lambda>as. inst (Fn r as)))
       | Any a \<Rightarrow> inst (Any a)
       | ImplicitSelf inner \<Rightarrow>
           if rem then (case alter of Some a \<Rightarrow> Some (Some a) | None \<Rightarrow> probe inner)
           else opt_then (probe inner) (\<lambda>i. inst (ImplicitSelf i)))"

definition probe_type_instance :: "nat \<Rightarrow> 'u unify_table \<Rightarrow> 'u \<Rightarrow> type_intern \<Rightarrow> ty_instance option option" where
  "probe_type_instance fuel U u t = probe_type_instance_impl fuel U u False None t"

text \<open>An item whose type does not change stays, one that does is replaced, from left to right.\<close>

fun remove_items :: "(type_intern \<Rightarrow> 'u \<Rightarrow> (type_intern option \<times> 'u) option) \<Rightarrow> type_intern list \<Rightarrow> 'u \<Rightarrow>
  ((bool \<times> type_intern) list \<times> 'u) option" where
  "remove_items f [] u = Some ([], u)"
| "remove_items f (x # xs) u = do {
     (new, u1) \<leftarrow> f x u;
     (rest, u2) \<leftarrow> remove_items f xs u1;
     Some ((case new of None \<Rightarrow> (False, x) | Some y \<Rightarrow> (True, y)) # rest, u2) }"

fun remove_self_type_impl ::
  "nat \<Rightarrow> 'u unify_table \<Rightarrow> type_intern option \<Rightarrow> type_intern \<Rightarrow> 'u \<Rightarrow> (type_intern option \<times> 'u) option" where
  "remove_self_type_impl 0 U target t u = None"
| "remove_self_type_impl (Suc fuel) U target t u =
     (case probe_type U u t of
        None \<Rightarrow> Some (None, u)
      | Some ty \<Rightarrow>
          if rt_names ty \<noteq> None then Some (None, u)
          else let rebuild = (\<lambda>ty u. let (k, u') = intern_type U ty u in Some (Some (Other k), u'));
                   rem = remove_self_type_impl fuel U target in
            case rt_kind ty of
              Placeholder \<Rightarrow> Some (None, u)
            | BuiltIn _ \<Rightarrow> Some (None, u)
            | Any _ \<Rightarrow> Some (None, u)
            | Enum \<Rightarrow> Some (None, u)
            | Trait \<Rightarrow> Some (None, u)
            | Ref inner m \<Rightarrow> do {
                (new, u1) \<leftarrow> rem inner u;
                (case new of None \<Rightarrow> Some (None, u1) | Some i \<Rightarrow> rebuild (ref_type i m) u1) }
            | Tup items \<Rightarrow> do {
                (news, u1) \<leftarrow> remove_items rem items u;
                if list_ex fst news then rebuild (tup_type (map snd news)) u1 else Some (None, u1) }
            | Array inner len \<Rightarrow> do {
                (new, u1) \<leftarrow> rem inner u;
                (case new of None \<Rightarrow> Some (None, u1) | Some i \<Rightarrow> rebuild (array_type i len) u1) }
            | Fn ret items \<Rightarrow> do {
                (new_ret, u1) \<leftarrow> rem ret u;
                (news, u2) \<leftarrow> remove_items rem items u1;
                if new_ret \<noteq> None \<or> list_ex fst news
                then rebuild (fn_type (case new_ret of None \<Rightarrow> ret | Some r \<Rightarrow> r) (map snd news)) u2
                else Some (None, u2) }
            | ImplicitSelf inner \<Rightarrow> Some (Some (case target of Some t \<Rightarrow> t | None \<Rightarrow> inner), u))"

definition remove_self_type ::
  "nat \<Rightarrow> 'u unify_table \<Rightarrow> type_intern \<Rightarrow> type_intern option \<Rightarrow> 'u \<Rightarrow> (type_intern \<times> 'u) option" where
  "remove_self_type fuel U t target u =
     map_option (\<lambda>(new, u'). (case new of Some t' \<Rightarrow> t' | None \<Rightarrow> t, u')) (remove_self_type_impl fuel U target t u)"

section \<open>Dereferencing\<close>

datatype mutability = MutNot | MutMut

definition mutability_and :: "mutability \<Rightarrow> mutability \<Rightarrow> mutability" where
  "mutability_and a b = (case (a, b) of (MutMut, MutMut) \<Rightarrow> MutMut | _ \<Rightarrow> MutNot)"

fun ref_mutability_from :: "mutability \<Rightarrow> ref_mutability" where
  "ref_mutability_from MutNot = RefNot"
| "ref_mutability_from MutMut = RefMut"

fun mutability_from :: "ref_mutability \<Rightarrow> mutability" where
  "mutability_from RefNot = MutNot"
| "mutability_from RefMut = MutMut"
| "mutability_from RefWeakMut = MutMut"

datatype deref_level = DerefNot | Deref deref_level mutability

definition deref_wrap :: "mutability \<Rightarrow> deref_level \<Rightarrow> deref_level" where
  "deref_wrap m l = Deref l m"

fun chain_loop :: "deref_level \<Rightarrow> mutability \<Rightarrow> mutability" where
  "chain_loop DerefNot mutbl = mutbl"
| "chain_loop (Deref l m) mutbl = chain_loop l (mutability_and mutbl m)"

definition chain_mutbl :: "deref_level \<Rightarrow> mutability \<Rightarrow> mutability" where
  "chain_mutbl level raw_kind = (case level of DerefNot \<Rightarrow> raw_kind | Deref l m \<Rightarrow> chain_loop l m)"

text \<open>The closure \<open>func\<close> and the cached key of \<open>u32\<close> are the analyzer's, so arguments; a type that keeps on
  dereferencing uses up the fuel.\<close>

fun auto_deref_loop ::
  "nat \<Rightarrow> 'u unify_table \<Rightarrow> type_intern \<Rightarrow> ('u \<Rightarrow> type_intern \<Rightarrow> ('e + 'r option) \<times> 'u) \<Rightarrow> type_intern \<Rightarrow> deref_level \<Rightarrow> 'u \<Rightarrow>
     (('e + (deref_level \<times> type_intern \<times> 'r) option) \<times> 'u) option" where
  "auto_deref_loop 0 U u32_type func i level u = None"
| "auto_deref_loop (Suc fuel) U u32_type func i level u =
     (let (res, u1) = func u i in
      case res of
        Inl e \<Rightarrow> Some (Inl e, u1)
      | Inr (Some t) \<Rightarrow> Some (Inr (Some (level, i, t)), u1)
      | Inr None \<Rightarrow>
          (case probe_type U u1 i of
             None \<Rightarrow> Some (Inr None, u1)
           | Some probe \<Rightarrow>
               (case rt_kind probe of
                  Ref inner m \<Rightarrow> auto_deref_loop fuel U u32_type func inner (deref_wrap (mutability_from m) level) u1
                | k \<Rightarrow> if is_kind (Any AnyInt) probe then auto_deref_loop fuel U u32_type func u32_type level u1
                       else Some (Inr None, u1))))"

definition auto_deref ::
  "nat \<Rightarrow> 'u unify_table \<Rightarrow> type_intern \<Rightarrow> type_intern \<Rightarrow> ('u \<Rightarrow> type_intern \<Rightarrow> ('e + 'r option) \<times> 'u) \<Rightarrow> 'u \<Rightarrow>
     (('e + (deref_level \<times> type_intern \<times> 'r) option) \<times> 'u) option" where
  "auto_deref fuel U u32_type i func u = auto_deref_loop fuel U u32_type func i DerefNot u"

text \<open>\<open>None\<close> is the \<open>todo!\<close> on a type not known yet.\<close>

definition check_sized :: "'u unify_table \<Rightarrow> 'u \<Rightarrow> type_intern \<Rightarrow> bool option" where
  "check_sized U u t =
     (case probe_type U u t of
        None \<Rightarrow> Some False
      | Some probe \<Rightarrow>
          (case rt_kind probe of
             BuiltIn TyStr \<Rightarrow> Some False
           | Trait \<Rightarrow> Some False
           | Fn _ _ \<Rightarrow> Some False
           | ImplicitSelf _ \<Rightarrow> Some False
           | Any AnyAny \<Rightarrow> None
           | _ \<Rightarrow> Some True))"

end
