(* ===== verification/Type_Solver_Props.thy ===== *)
theory Type_Solver_Props
  imports Type_Solver
begin

text \<open>
  What the solver keeps: its termination and the types it assigns.  The unification table is any table
  with the laws \<open>unification_table\<close>, the documented behaviour of \<open>ena\<close>: an equivalence of keys with a
  value per class, where a union merges two classes and gives them the unified value.
\<close>

section \<open>The laws of the table\<close>

definition merged_table ::
  "'u unify_table \<Rightarrow> ('u \<Rightarrow> nat) \<Rightarrow> 'u \<Rightarrow> type_key \<Rightarrow> type_key \<Rightarrow> resolved_ty \<Rightarrow> 'u \<Rightarrow> bool" where
  "merged_table U keys u a b v u' \<longleftrightarrow>
     keys u' = keys u \<and>
     (\<forall>x y. unioned U u' x y \<longleftrightarrow> unioned U u x y \<or> unioned U u x a \<and> unioned U u b y \<or> unioned U u x b \<and> unioned U u a y) \<and>
     (\<forall>x. probe_value U u' x = (if unioned U u x a \<or> unioned U u x b then v else probe_value U u x))"

definition same_table :: "'u unify_table \<Rightarrow> ('u \<Rightarrow> nat) \<Rightarrow> 'u \<Rightarrow> 'u \<Rightarrow> bool" where
  "same_table U keys u u' \<longleftrightarrow>
     keys u' = keys u \<and> unioned U u' = unioned U u \<and> probe_value U u' = probe_value U u"

definition union_result ::
  "'u unify_table \<Rightarrow> ('u \<Rightarrow> nat) \<Rightarrow> 'u \<Rightarrow> type_key \<Rightarrow> type_key \<Rightarrow> (type_solve_error + resolved_ty) option \<Rightarrow>
     ((type_solve_error + unit) \<times> 'u) option \<Rightarrow> bool" where
  "union_result U keys u a b v r \<longleftrightarrow>
     (case v of
        None \<Rightarrow> r = None
      | Some (Inl e) \<Rightarrow> (\<exists>u'. r = Some (Inl e, u') \<and> same_table U keys u u')
      | Some (Inr w) \<Rightarrow> (\<exists>u'. r = Some (Inr (), u') \<and> merged_table U keys u a b w u'))"

definition unification_table :: "'u unify_table \<Rightarrow> ('u \<Rightarrow> nat) \<Rightarrow> bool" where
  "unification_table U keys \<longleftrightarrow>
     (\<forall>u. equivp (unioned U u)) \<and>
     (\<forall>u a b. unioned U u a b \<longrightarrow> probe_value U u a = probe_value U u b) \<and>
     (\<forall>u a b. a < keys u \<longrightarrow> b < keys u \<longrightarrow> \<not> unioned U u a b \<longrightarrow>
        union_result U keys u a b (unify_values (probe_value U u a) (probe_value U u b)) (unify_var_var U u a b)) \<and>
     (\<forall>u a ty. a < keys u \<longrightarrow>
        union_result U keys u a a (unify_values (probe_value U u a) ty) (unify_var_value U u a ty))"

lemma table_laws:
  assumes "unification_table U keys"
  shows unioned_refl: "unioned U u a a"
    and unioned_sym: "unioned U u a b \<Longrightarrow> unioned U u b a"
    and unioned_trans: "unioned U u a b \<Longrightarrow> unioned U u b c \<Longrightarrow> unioned U u a c"
    and unioned_probe: "unioned U u a b \<Longrightarrow> probe_value U u a = probe_value U u b"
    and unify_var_var_result: "a < keys u \<Longrightarrow> b < keys u \<Longrightarrow> \<not> unioned U u a b \<Longrightarrow>
      union_result U keys u a b (unify_values (probe_value U u a) (probe_value U u b)) (unify_var_var U u a b)"
    and unify_var_value_result: "a < keys u \<Longrightarrow>
      union_result U keys u a a (unify_values (probe_value U u a) ty) (unify_var_value U u a ty)"
  using assms unfolding unification_table_def
  by (blast dest: equivp_reflp equivp_symp equivp_transp)+

section \<open>Well-formed tables\<close>

fun intern_ok :: "nat \<Rightarrow> type_intern \<Rightarrow> bool" where
  "intern_ok n Never = True"
| "intern_ok n (Other k) = (k < n)"

text \<open>A named type is a struct, an enum or a trait (or not known yet); the type behind \<open>ImplicitSelf\<close> is a
  trait, so it has a name, and a name belongs to one type.\<close>

definition type_ok :: "'u unify_table \<Rightarrow> ('u \<Rightarrow> nat) \<Rightarrow> 'u \<Rightarrow> resolved_ty \<Rightarrow> bool" where
  "type_ok U keys u ty \<longleftrightarrow>
     (rt_names ty = None \<longrightarrow> rt_kind ty \<noteq> Enum \<and> rt_kind ty \<noteq> Trait) \<and>
     (rt_names ty \<noteq> None \<longrightarrow> (case rt_kind ty of Any _ \<Rightarrow> False | ImplicitSelf _ \<Rightarrow> False | _ \<Rightarrow> True)) \<and>
     (\<forall>t\<in>set_ty_kind (rt_kind ty). intern_ok (keys u) t) \<and>
     (case rt_kind ty of
        ImplicitSelf Never \<Rightarrow> False
      | ImplicitSelf (Other l) \<Rightarrow> rt_names (probe_value U u l) \<noteq> None
      | _ \<Rightarrow> True)"

definition table_ok :: "'u unify_table \<Rightarrow> ('u \<Rightarrow> nat) \<Rightarrow> 'u \<Rightarrow> bool" where
  "table_ok U keys u \<longleftrightarrow>
     (\<forall>k < keys u. type_ok U keys u (probe_value U u k)) \<and>
     (\<forall>j < keys u. \<forall>k < keys u. rt_names (probe_value U u j) \<noteq> None \<and>
        rt_names (probe_value U u j) = rt_names (probe_value U u k) \<longrightarrow> unioned U u j k)"

lemma select_cases: "select t1 t2 = t1 \<or> select t1 t2 = t2"
  by (simp add: select_def split: type_intern.split)

lemma set_map2_select: "set (map2 select xs ys) \<subseteq> set xs \<union> set ys"
proof
  fix z assume "z \<in> set (map2 select xs ys)"
  then obtain x y where "(x, y) \<in> set (zip xs ys)" and z: "z = select x y" by auto
  then have "x \<in> set xs" "y \<in> set ys" by (auto dest: set_zip_leftD set_zip_rightD)
  then show "z \<in> set xs \<union> set ys" using select_cases [of x y] z by auto
qed

lemma unify_kinds_cases:
  assumes "unify_kinds v1 v2 = Some (Inr v)"
  obtains (left) "v = v1" "case rt_kind v2 of Any k \<Rightarrow> can_cast_to k (rt_kind v1) | _ \<Rightarrow> rt_kind v2 = rt_kind v1 \<and> set_ty_kind (rt_kind v1) = {}"
  | (right) "v = v2" "case rt_kind v1 of Any k \<Rightarrow> can_cast_to k (rt_kind v2) | _ \<Rightarrow> False"
  | (ref_types) t1 m1 t2 m2 m where "rt_kind v1 = Ref t1 m1" "rt_kind v2 = Ref t2 m2"
      "ref_mutability_eq m1 m2 = Inr m" "v = ref_type (select t1 t2) m"
  | (tup_types) ts1 ts2 where "rt_kind v1 = Tup ts1" "rt_kind v2 = Tup ts2" "length ts1 = length ts2"
      "v = tup_type (map2 select ts1 ts2)"
  | (array_types) t1 l1 t2 l2 l where "rt_kind v1 = Array t1 l1" "rt_kind v2 = Array t2 l2"
      "array_len_eq l1 l2 = Inr l" "v = array_type (select t1 t2) l"
  | (fn_types) r1 a1 r2 a2 where "rt_kind v1 = Fn r1 a1" "rt_kind v2 = Fn r2 a2"
      "v = fn_type (select r1 r2) (map2 select a1 a2)"
proof -
  show ?thesis
    by (insert assms; cases "rt_kind v1"; cases "rt_kind v2";
      simp add: unify_kinds_def left right ref_types tup_types array_types fn_types can_cast_to_def
        split: if_splits sum.splits any_ty_kind.splits)
qed

lemma unify_kinds_from:
  assumes "unify_kinds v1 v2 = Some (Inr v)" "rt_names v1 = None" "rt_names v2 = None"
  shows "rt_names v = None"
    and "set_ty_kind (rt_kind v) \<subseteq> set_ty_kind (rt_kind v1) \<union> set_ty_kind (rt_kind v2)"
    and "v = v1 \<or> v = v2 \<or> (case rt_kind v of Enum \<Rightarrow> False | Trait \<Rightarrow> False | ImplicitSelf _ \<Rightarrow> False | _ \<Rightarrow> True)"
proof -
  have "rt_names v = None \<and> set_ty_kind (rt_kind v) \<subseteq> set_ty_kind (rt_kind v1) \<union> set_ty_kind (rt_kind v2) \<and>
    (v = v1 \<or> v = v2 \<or> (case rt_kind v of Enum \<Rightarrow> False | Trait \<Rightarrow> False | ImplicitSelf _ \<Rightarrow> False | _ \<Rightarrow> True))"
    using assms(1)
  proof (cases rule: unify_kinds_cases)
    case (fn_types r1 a1 r2 a2)
    then show ?thesis using select_cases [of r1 r2] set_map2_select [of a1 a2] by (auto simp: fn_type_def)
  qed (use assms(2,3) select_cases set_map2_select in \<open>auto simp: ref_type_def tup_type_def array_type_def\<close>)
  then show "rt_names v = None" "set_ty_kind (rt_kind v) \<subseteq> set_ty_kind (rt_kind v1) \<union> set_ty_kind (rt_kind v2)"
    "v = v1 \<or> v = v2 \<or> (case rt_kind v of Enum \<Rightarrow> False | Trait \<Rightarrow> False | ImplicitSelf _ \<Rightarrow> False | _ \<Rightarrow> True)"
    by blast+
qed


lemma type_ok_union:
  assumes "type_ok U keys u v1" "type_ok U keys u v2" "unify_values v1 v2 = Some (Inr v)"
  shows "type_ok U keys u v"
    and "rt_names v = rt_names v1 \<or> rt_names v = rt_names v2"
    and "rt_names v1 \<noteq> None \<or> rt_names v2 \<noteq> None \<Longrightarrow> rt_names v \<noteq> None"
proof -
  have "type_ok U keys u v \<and> (rt_names v = rt_names v1 \<or> rt_names v = rt_names v2) \<and>
    (rt_names v1 \<noteq> None \<or> rt_names v2 \<noteq> None \<longrightarrow> rt_names v \<noteq> None)"
  proof (cases "rt_names v1 = None \<and> rt_names v2 = None")
    case True
    then have eq: "unify_kinds v1 v2 = Some (Inr v)" and n: "rt_names v1 = None" "rt_names v2 = None"
      using assms(3) by (auto simp: unify_values_def)
    note fr = unify_kinds_from [OF eq n]
    show ?thesis
    proof (cases "v = v1 \<or> v = v2")
      case False
      then show ?thesis using assms(1,2) fr True
        by (auto simp: type_ok_def split: ty_kind.splits)
    qed (use assms True in auto)
  qed (use assms in \<open>auto simp: unify_values_def split: if_splits\<close>)
  then show "type_ok U keys u v" "rt_names v = rt_names v1 \<or> rt_names v = rt_names v2"
    "rt_names v1 \<noteq> None \<or> rt_names v2 \<noteq> None \<Longrightarrow> rt_names v \<noteq> None" by blast+
qed

lemma unify_kinds_total:
  assumes "rt_kind v1 \<noteq> Enum" "rt_kind v1 \<noteq> Trait"
  shows "unify_kinds v1 v2 \<noteq> None"
proof (cases "rt_kind v1")
  case (Any k)
  show ?thesis
  proof (cases "rt_kind v2")
    case (Any k2)
    with \<open>rt_kind v1 = Any k\<close> show ?thesis by (cases k; cases k2; simp add: unify_kinds_def)
  qed (use Any in \<open>cases k; simp add: unify_kinds_def; fail\<close>)+
qed (use assms in \<open>cases "rt_kind v2"; simp add: unify_kinds_def split: any_ty_kind.splits; fail\<close>)+

lemma unify_values_total:
  assumes "type_ok U keys u v1" "type_ok U keys u v2"
  shows "unify_values v1 v2 \<noteq> None"
  using assms unify_kinds_total [of v1 v2] by (auto simp: unify_values_def type_ok_def)

lemma table_okD:
  assumes "table_ok U keys u"
  shows "k < keys u \<Longrightarrow> type_ok U keys u (probe_value U u k)"
    and "j < keys u \<Longrightarrow> k < keys u \<Longrightarrow> rt_names (probe_value U u j) \<noteq> None \<Longrightarrow>
      rt_names (probe_value U u j) = rt_names (probe_value U u k) \<Longrightarrow> unioned U u j k"
  using assms unfolding table_ok_def by blast+

lemma merged_tableD:
  assumes "merged_table U keys u a b v u'"
  shows "keys u' = keys u" and "unioned U u x y \<Longrightarrow> unioned U u' x y"
    and "unioned U u' x y \<longleftrightarrow> unioned U u x y \<or> unioned U u x a \<and> unioned U u b y \<or> unioned U u x b \<and> unioned U u a y"
    and "probe_value U u' x = (if unioned U u x a \<or> unioned U u x b then v else probe_value U u x)"
  using assms unfolding merged_table_def by blast+

lemma type_ok_mono:
  assumes "type_ok U keys u ty" "keys u \<le> keys u'"
    and "\<And>l. l < keys u \<Longrightarrow> rt_names (probe_value U u l) \<noteq> None \<Longrightarrow> rt_names (probe_value U u' l) \<noteq> None"
  shows "type_ok U keys u' ty"
proof -
  have "intern_ok (keys u') t" if "intern_ok (keys u) t" for t
    using that assms(2) by (cases t) auto
  then show ?thesis using assms(1,3) by (auto simp: type_ok_def split: ty_kind.splits type_intern.splits)
qed

lemma table_ok_merged:
  assumes U: "unification_table U keys" and ok: "table_ok U keys u" and m: "merged_table U keys u a b v u'"
    and v: "type_ok U keys u v" "rt_names v = rt_names (probe_value U u a) \<or> rt_names v = rt_names (probe_value U u b)"
      "rt_names (probe_value U u a) \<noteq> None \<or> rt_names (probe_value U u b) \<noteq> None \<Longrightarrow> rt_names v \<noteq> None"
    and ab: "a < keys u" "b < keys u"
  shows "table_ok U keys u'"
proof -
  note md = merged_tableD [OF m]
  note sym = unioned_sym [OF U] and trans = unioned_trans [OF U]
  have named: "rt_names (probe_value U u' l) \<noteq> None" if "rt_names (probe_value U u l) \<noteq> None" for l
    using that v(3) unioned_probe [OF U, of u l] by (auto simp: md(4))
  have mono: "type_ok U keys u' ty" if "type_ok U keys u ty" for ty
    using type_ok_mono [OF that] named md(1) by simp
  have "type_ok U keys u' (probe_value U u' k)" if "k < keys u'" for k
    using that mono v(1) table_okD(1) [OF ok, of k] by (auto simp: md(1,4))
  moreover have "unioned U u' j k" if jk: "j < keys u'" "k < keys u'"
    and n: "rt_names (probe_value U u' j) \<noteq> None" "rt_names (probe_value U u' j) = rt_names (probe_value U u' k)" for j k
  proof -
    let ?in = "\<lambda>x. unioned U u x a \<or> unioned U u x b"
    have out: "?in x" if "x < keys u" "rt_names (probe_value U u x) = rt_names v" "rt_names v \<noteq> None" for x
      using v(2) table_okD(2) [OF ok \<open>x < keys u\<close>] ab that(2,3) by auto
    have both: "unioned U u' j k" if "?in j" "?in k"
      using that sym trans unfolding md(3) by blast
    show ?thesis
    proof (cases "?in j \<or> ?in k")
      case True
      then have "?in j \<and> ?in k" using out [of j] out [of k] n jk by (auto simp: md(1,4) split: if_splits)
      with both show ?thesis by blast
    next
      case False
      then have "unioned U u j k" using table_okD(2) [OF ok, of j k] n jk by (auto simp: md(1,4))
      then show ?thesis by (rule md(2))
    qed
  qed
  ultimately show ?thesis unfolding table_ok_def by blast
qed

section \<open>Steps keep the table well formed\<close>

definition unjoined :: "'u unify_table \<Rightarrow> ('u \<Rightarrow> nat) \<Rightarrow> 'u \<Rightarrow> nat" where
  "unjoined U keys u = card {(x, y). x < keys u \<and> y < keys u \<and> \<not> unioned U u x y}"

text \<open>Every function type takes \<open>n\<close> parameters.\<close>

definition arity :: "nat \<Rightarrow> resolved_ty \<Rightarrow> bool" where
  "arity n ty \<longleftrightarrow> (\<forall>r as. rt_kind ty = Fn r as \<longrightarrow> length as = n)"

definition one_arity :: "nat \<Rightarrow> 'u unify_table \<Rightarrow> ('u \<Rightarrow> nat) \<Rightarrow> 'u \<Rightarrow> bool" where
  "one_arity n U keys u \<longleftrightarrow> (\<forall>k < keys u. arity n (probe_value U u k))"

lemma arity_union:
  assumes "unify_values v1 v2 = Some (Inr v)" "arity n v1" "arity n v2"
  shows "arity n v"
proof (cases "rt_names v1 = None \<and> rt_names v2 = None")
  case True
  with assms(1) have "unify_kinds v1 v2 = Some (Inr v)" by (simp add: unify_values_def)
  then show ?thesis
  proof (cases rule: unify_kinds_cases)
    case (fn_types r1 a1 r2 a2)
    with assms(2,3) show ?thesis by (simp add: arity_def fn_type_def)
  qed (use assms(2,3) in \<open>simp_all add: arity_def ref_type_def tup_type_def array_type_def\<close>)
qed (use assms in \<open>auto simp: unify_values_def split: if_splits\<close>)

lemma one_arity_merged:
  assumes "one_arity n U keys u" "merged_table U keys u a b v u'" "arity n v"
  shows "one_arity n U keys u'"
  using assms merged_tableD(1,4) [OF assms(2)] by (simp add: one_arity_def)

definition grows :: "'u unify_table \<Rightarrow> ('u \<Rightarrow> nat) \<Rightarrow> 'u \<Rightarrow> 'u \<Rightarrow> bool" where
  "grows U keys u u' \<longleftrightarrow>
     table_ok U keys u' \<and> keys u' = keys u \<and> (\<forall>x y. unioned U u x y \<longrightarrow> unioned U u' x y) \<and>
     unjoined U keys u' \<le> unjoined U keys u"

definition later :: "'u unify_table \<Rightarrow> ('u \<Rightarrow> nat) \<Rightarrow> 'u \<Rightarrow> 'u \<Rightarrow> bool" where
  "later U keys u u' \<longleftrightarrow>
     table_ok U keys u' \<and> keys u' = keys u \<and> (\<forall>x y. unioned U u x y \<longrightarrow> unioned U u' x y) \<and>
     unjoined U keys u' \<le> unjoined U keys u \<and> (\<forall>n. one_arity n U keys u \<longrightarrow> one_arity n U keys u')"

lemma later_grows: "later U keys u u' \<Longrightarrow> grows U keys u u'"
  by (simp add: later_def grows_def)

lemma grows_trans: "grows U keys u1 u2 \<Longrightarrow> grows U keys u2 u3 \<Longrightarrow> grows U keys u1 u3"
  by (auto simp: grows_def)

lemma later_refl: "table_ok U keys u \<Longrightarrow> later U keys u u"
  by (simp add: later_def)

lemma later_trans: "later U keys u1 u2 \<Longrightarrow> later U keys u2 u3 \<Longrightarrow> later U keys u1 u3"
  by (auto simp: later_def)

lemma finite_unjoined: "finite {(x, y). x < (n::nat) \<and> y < n \<and> P x y}"
  by (rule finite_subset [of _ "{..<n} \<times> {..<n}"]) auto

lemma merged_unjoined:
  assumes "unification_table U keys" "merged_table U keys u a b v u'" "a < keys u" "b < keys u" "\<not> unioned U u a b"
  shows "unjoined U keys u' < unjoined U keys u"
proof -
  note md = merged_tableD [OF assms(2)]
  have "unioned U u' a b" using unioned_refl [OF assms(1)] by (simp add: md(3))
  then have "(a, b) \<notin> {(x, y). x < keys u \<and> y < keys u \<and> \<not> unioned U u' x y}"
    "(a, b) \<in> {(x, y). x < keys u \<and> y < keys u \<and> \<not> unioned U u x y}" using assms(3-5) by auto
  moreover have "{(x, y). x < keys u \<and> y < keys u \<and> \<not> unioned U u' x y} \<subseteq>
    {(x, y). x < keys u \<and> y < keys u \<and> \<not> unioned U u x y}" using md(2) by auto
  ultimately show ?thesis unfolding unjoined_def md(1)
    by (intro psubset_card_mono finite_unjoined) blast
qed

lemma unjoined_le: "unjoined U keys u \<le> keys u * keys u"
proof -
  have "unjoined U keys u \<le> card ({..<keys u} \<times> {..<keys u})"
    unfolding unjoined_def by (rule card_mono) auto
  then show ?thesis by (simp add: card_cartesian_product)
qed


section \<open>One unification\<close>

lemma unify_var_var_step:
  assumes U: "unification_table U keys" and ok: "table_ok U keys u"
    and ab: "a < keys u" "b < keys u" "\<not> unioned U u a b"
  obtains (clash) e u' where "unify_var_var U u a b = Some (Inl e, u')"
      "unify_values (probe_value U u a) (probe_value U u b) = Some (Inl e)" "later U keys u u'"
  | (merge) v u' where "unify_var_var U u a b = Some (Inr (), u')"
      "unify_values (probe_value U u a) (probe_value U u b) = Some (Inr v)" "merged_table U keys u a b v u'"
      "later U keys u u'" "unjoined U keys u' < unjoined U keys u"
proof -
  note tok = table_okD(1) [OF ok ab(1)] table_okD(1) [OF ok ab(2)]
  note res = unify_var_var_result [OF U ab]
  from unify_values_total [OF tok] obtain r where r: "unify_values (probe_value U u a) (probe_value U u b) = Some r"
    by blast
  show ?thesis
  proof (cases r)
    case (Inl e)
    with res r obtain u' where u': "unify_var_var U u a b = Some (Inl e, u')" "same_table U keys u u'"
      by (auto simp: union_result_def)
    then have eq: "keys u' = keys u" "unioned U u' = unioned U u" "probe_value U u' = probe_value U u"
      by (auto simp: same_table_def)
    then have "type_ok U keys u' = type_ok U keys u" by (intro ext) (unfold type_ok_def eq, rule refl)
    then have "table_ok U keys u'" using ok unfolding table_ok_def eq by (auto simp only:)
    with eq have "later U keys u u'" by (simp add: later_def unjoined_def one_arity_def)
    with clash u'(1) r Inl show ?thesis by simp
  next
    case (Inr v)
    with res r obtain u' where u': "unify_var_var U u a b = Some (Inr (), u')" "merged_table U keys u a b v u'"
      by (auto simp: union_result_def)
    note v = type_ok_union [OF tok, of v]
    have "unjoined U keys u' < unjoined U keys u" by (rule merged_unjoined [OF U u'(2) ab])
    moreover have "table_ok U keys u'"
      using v r Inr ab by (intro table_ok_merged [OF U ok u'(2)]) auto
    moreover have "one_arity n U keys u'" if "one_arity n U keys u" for n
      using that ab arity_union [of _ _ v n] r Inr by (intro one_arity_merged [OF that u'(2)]) (auto simp: one_arity_def)
    ultimately show ?thesis using merge u' r Inr merged_tableD [OF u'(2)] by (simp add: later_def)
  qed
qed

lemma look_through_Some:
  assumes U: "unification_table U keys" and ok: "table_ok U keys u" and ab: "a < keys u" "b < keys u"
  shows "\<exists>p. look_through U a b u = Some p"
  using table_okD(1) [OF ok ab(1)] table_okD(1) [OF ok ab(2)]
  by (auto simp: look_through_def Let_def type_ok_def to_key_def split: ty_kind.splits type_intern.splits)

lemma look_through_types:
  assumes U: "unification_table U keys" and ok: "table_ok U keys u" and ab: "a < keys u" "b < keys u"
    and "look_through U a b u = Some (Some (ta, tb))"
  obtains a' b' where "ta = probe_value U u a'" "a' < keys u" "tb = probe_value U u b'" "b' < keys u"
    "\<not> unioned U u a b \<Longrightarrow> \<not> unioned U u a' b'"
    "a' = a \<or> rt_kind (probe_value U u a) = ImplicitSelf (Other a') \<and> rt_names (probe_value U u a') \<noteq> None"
    "b' = b \<or> rt_kind (probe_value U u b) = ImplicitSelf (Other b') \<and> rt_names (probe_value U u b') \<noteq> None"
  using assms(5) table_okD(1) [OF ok ab(1)] table_okD(1) [OF ok ab(2)] ab
  by (auto simp: look_through_def Let_def type_ok_def to_key_def that
      split: ty_kind.splits type_intern.splits if_splits)

section \<open>Every call keeps the table well formed\<close>

definition keeps :: "'u unify_table \<Rightarrow> ('u \<Rightarrow> nat) \<Rightarrow> 'u type_solver \<Rightarrow> 'u type_solver \<Rightarrow> bool" where
  "keeps U keys s s' \<longleftrightarrow> later U keys (ts_ut s) (ts_ut s') \<and> (\<not> ts_downgrade s \<longrightarrow> \<not> ts_downgrade s')"

lemma keeps_refl: "table_ok U keys (ts_ut s) \<Longrightarrow> keeps U keys s s"
  by (simp add: keeps_def later_refl)

lemma keeps_trans: "keeps U keys s1 s2 \<Longrightarrow> keeps U keys s2 s3 \<Longrightarrow> keeps U keys s1 s3"
  by (auto simp: keeps_def intro: later_trans)

definition part_pairs :: "type_intern ty_kind \<Rightarrow> type_intern ty_kind \<Rightarrow> (type_intern \<times> type_intern) list" where
  "part_pairs k1 k2 =
     (case (k1, k2) of
        (Ref t1 _, Ref t2 _) \<Rightarrow> [(t1, t2)]
      | (Tup t1, Tup t2) \<Rightarrow> zip t1 t2
      | (Array t1 _, Array t2 _) \<Rightarrow> [(t1, t2)]
      | (Fn r1 a1, Fn r2 a2) \<Rightarrow> (r1, r2) # zip a1 a2
      | _ \<Rightarrow> [])"

lemma and_then_return: "and_then r (\<lambda>s. Some (Inr (), s)) = r"
  by (simp add: and_then_def split: option.split sum.split)

lemma eq_inner_pairs:
  "eq_inner f t1 t2 s =
     (if rt_names t1 \<noteq> rt_names t2
      then if \<not> (is_any_type t1 \<or> is_any_type t2) then Some (Inl NameMismatch, s) else Some (Inr (), s)
      else try_pairs f (part_pairs (rt_kind t1) (rt_kind t2)) s)"
proof -
  have "try_pairs f [] = (\<lambda>s. Some (Inr (), s))" by (rule ext) simp
  then show ?thesis
    by (simp add: eq_inner_def part_pairs_def and_then_return split: ty_kind.split)
qed

lemma part_pairs_ok:
  assumes "type_ok U keys u t1" "type_ok U keys u t2" "(x, y) \<in> set (part_pairs (rt_kind t1) (rt_kind t2))"
  shows "intern_ok (keys u) x \<and> intern_ok (keys u) y"
  using assms by (auto simp: part_pairs_def type_ok_def dest: set_zip_leftD set_zip_rightD split: ty_kind.splits)

lemma try_pairs_keeps:
  assumes f: "\<And>x y s res s'. f x y s = Some (res, s') \<Longrightarrow> table_ok U keys (ts_ut s) \<Longrightarrow>
      intern_ok (keys (ts_ut s)) x \<Longrightarrow> intern_ok (keys (ts_ut s)) y \<Longrightarrow> keeps U keys s s'"
    and "try_pairs f ps s = Some (res, s')" "table_ok U keys (ts_ut s)"
    and "\<And>x y. (x, y) \<in> set ps \<Longrightarrow> intern_ok (keys (ts_ut s)) x \<and> intern_ok (keys (ts_ut s)) y"
  shows "keeps U keys s s'"
  using assms(2-4)
proof (induction ps arbitrary: s)
  case Nil
  then show ?case by (simp add: keeps_refl)
next
  case (Cons p ps)
  obtain x y where p: "p = (x, y)" by (cases p)
  have xy: "intern_ok (keys (ts_ut s)) x" "intern_ok (keys (ts_ut s)) y" using Cons.prems(3) [of x y] p by simp_all
  from Cons.prems(1) p consider (err) e where "f x y s = Some (Inl e, s')"
    | (go) s1 where "f x y s = Some (Inr (), s1)" "try_pairs f ps s1 = Some (res, s')"
    by (auto simp: and_then_Some)
  then show ?case
  proof cases
    case err
    then show ?thesis using f Cons.prems(2) xy by blast
  next
    case go
    have k: "keeps U keys s s1" using f [OF go(1)] Cons.prems(2) xy by blast
    then have "table_ok U keys (ts_ut s1)" "keys (ts_ut s1) = keys (ts_ut s)" by (auto simp: keeps_def later_def)
    moreover have "intern_ok (keys (ts_ut s)) x' \<and> intern_ok (keys (ts_ut s)) y'" if "(x', y') \<in> set ps" for x' y'
      using Cons.prems(3) [of x' y'] that by simp
    ultimately have "keeps U keys s1 s'" using Cons.IH [OF go(2)] by simp
    with k show ?thesis by (rule keeps_trans)
  qed
qed


text \<open>The cases of one call of the solver on two keys.\<close>

lemma solver_eq_cases:
  assumes "solver_eq (Suc fuel) U l r s = Some (res, s')"
  obtains (diverges) "res = Inr ()" "s' = s" "l = Never \<or> r = Never"
  | (joined) left right where "l = Other left" "r = Other right" "res = Inr ()" "s' = s"
      "unioned U (ts_ut s) left right \<or> look_through U left right (ts_ut s) = Some None"
  | (lower) left right ta tb i1 i2 where "l = Other left" "r = Other right" "ts_downgrade s"
      "look_through U left right (ts_ut s) = Some (Some (ta, tb))" "downgrades ta tb = Some (i1, i2)"
      "\<not> unioned U (ts_ut s) left right"
      "and_then (solver_eq fuel U i1 i2 (s\<lparr>ts_downgrade := False\<rparr>))
         (\<lambda>s1. Some (Inr (), s1\<lparr>ts_downgrade := True\<rparr>)) = Some (res, s')"
  | (compare) left right ta tb where "l = Other left" "r = Other right"
      "look_through U left right (ts_ut s) = Some (Some (ta, tb))" "\<not> unioned U (ts_ut s) left right"
      "ts_downgrade s \<Longrightarrow> downgrades ta tb = None"
      "and_then (on_table (\<lambda>u. unify_var_var U u left right) (s\<lparr>ts_downgrade := False\<rparr>))
         (eq_inner (solver_eq fuel U) ta tb) = Some (res, s')"
proof -
  show ?thesis
  proof (cases "l = Never \<or> r = Never")
    case True
    then show ?thesis using assms diverges by (auto split: type_intern.splits)
  next
    case False
    then obtain left right where lr: "l = Other left" "r = Other right"
      by (cases l; cases r) auto
    show ?thesis
    proof (cases "unioned U (ts_ut s) left right")
      case True
      with assms lr joined show ?thesis by auto
    next
      case nu: False
      from assms lr nu obtain tys where tys: "look_through U left right (ts_ut s) = Some tys"
        by (auto simp: bind_eq_Some_conv)
      show ?thesis
      proof (cases tys)
        case None
        with assms lr nu tys joined show ?thesis by auto
      next
        case (Some t)
        obtain ta tb where t: "t = (ta, tb)" by (cases t)
        show ?thesis
        proof (cases "if ts_downgrade s then downgrades ta tb else None")
          case None
          with assms lr nu tys Some t show ?thesis
            by (intro compare [OF lr tys [unfolded Some t] nu]) auto
        next
          case (Some p)
          obtain i1 i2 where "p = (i1, i2)" by (cases p)
          with Some assms lr nu tys \<open>tys = Some t\<close> t show ?thesis
            by (intro lower [OF lr _ tys [unfolded \<open>tys = Some t\<close> t] _ nu]) (auto split: if_splits)
        qed
      qed
    qed
  qed
qed

lemma downgrades_parts:
  assumes "downgrades ta tb = Some (i1, i2)"
  shows "rt_names ta = None" "rt_names tb = None" "rt_kind ta = Ref i1 RefNot" "rt_kind tb = Ref i2 RefMut"
  using assms by (auto simp: downgrades_def split: if_splits ty_kind.splits ref_mutability.splits)

lemma eq_inner_keeps:
  assumes f: "\<And>x y s res s'. f x y s = Some (res, s') \<Longrightarrow> table_ok U keys (ts_ut s) \<Longrightarrow>
      intern_ok (keys (ts_ut s)) x \<Longrightarrow> intern_ok (keys (ts_ut s)) y \<Longrightarrow> keeps U keys s s'"
    and run: "eq_inner f ta tb s = Some (res, s')" and ok: "table_ok U keys (ts_ut s)"
    and parts: "\<And>x y. (x, y) \<in> set (part_pairs (rt_kind ta) (rt_kind tb)) \<Longrightarrow>
      intern_ok (keys (ts_ut s)) x \<and> intern_ok (keys (ts_ut s)) y"
  shows "keeps U keys s s'"
proof (cases "rt_names ta = rt_names tb")
  case True
  then have "try_pairs f (part_pairs (rt_kind ta) (rt_kind tb)) s = Some (res, s')" using run by (simp add: eq_inner_pairs)
  then show ?thesis using try_pairs_keeps [where f = f] f ok parts by blast
next
  case False
  then have "s' = s" using run by (auto simp: eq_inner_pairs split: if_splits)
  with ok show ?thesis by (simp add: keeps_refl)
qed

lemma solver_eq_keeps:
  assumes U: "unification_table U keys"
  shows "solver_eq fuel U l r s = Some (res, s') \<Longrightarrow> table_ok U keys (ts_ut s) \<Longrightarrow>
    intern_ok (keys (ts_ut s)) l \<Longrightarrow> intern_ok (keys (ts_ut s)) r \<Longrightarrow> keeps U keys s s'"
proof (induction fuel arbitrary: l r s res s')
  case (Suc fuel)
  note ok = Suc.prems(2)
  from Suc.prems(1) show ?case
  proof (cases rule: solver_eq_cases)
    case (lower left right ta tb i1 i2)
    have lr: "left < keys (ts_ut s)" "right < keys (ts_ut s)" using Suc.prems lower by simp_all
    from look_through_types [OF U ok lr lower(4)] obtain a' b' where
      "ta = probe_value U (ts_ut s) a'" "a' < keys (ts_ut s)" "tb = probe_value U (ts_ut s) b'" "b' < keys (ts_ut s)"
      by blast
    then have "intern_ok (keys (ts_ut s)) i1 \<and> intern_ok (keys (ts_ut s)) i2"
      using part_pairs_ok [of U keys "ts_ut s" ta tb i1 i2] table_okD(1) [OF ok] downgrades_parts [OF lower(5)]
      by (simp add: part_pairs_def)
    then have IH: "keeps U keys (s\<lparr>ts_downgrade := False\<rparr>) s1"
      if "solver_eq fuel U i1 i2 (s\<lparr>ts_downgrade := False\<rparr>) = Some (res1, s1)" for res1 s1
      using Suc.IH [OF that] ok by simp
    from lower(7) show ?thesis using IH lower(3) by (auto simp: and_then_Some keeps_def)
  next
    case (compare left right ta tb)
    have lr: "left < keys (ts_ut s)" "right < keys (ts_ut s)" using Suc.prems compare by simp_all
    from look_through_types [OF U ok lr compare(3)] obtain a' b' where
      ab: "ta = probe_value U (ts_ut s) a'" "a' < keys (ts_ut s)" "tb = probe_value U (ts_ut s) b'" "b' < keys (ts_ut s)"
      by blast
    have parts: "intern_ok (keys (ts_ut s)) x \<and> intern_ok (keys (ts_ut s)) y"
      if "(x, y) \<in> set (part_pairs (rt_kind ta) (rt_kind tb))" for x y
      using part_pairs_ok [OF _ _ that, of U keys "ts_ut s"] table_okD(1) [OF ok ab(2)] table_okD(1) [OF ok ab(4)] ab(1,3)
      by simp
    show ?thesis
    proof (cases rule: unify_var_var_step [OF U ok lr compare(4)])
      case (1 e u')
      with compare(6) show ?thesis by (simp add: on_table_def keeps_def) (auto intro: later_trans)
    next
      case (2 v u')
      define s1 where "s1 = s\<lparr>ts_downgrade := False, ts_ut := u'\<rparr>"
      have k1: "keeps U keys s s1" using 2 by (simp add: s1_def keeps_def)
      have run: "eq_inner (solver_eq fuel U) ta tb s1 = Some (res, s')"
        using compare(6) 2 by (simp add: on_table_def s1_def)
      have ok1: "table_ok U keys (ts_ut s1)" and n1: "keys (ts_ut s1) = keys (ts_ut s)"
        using k1 by (auto simp: keeps_def later_def)
      have "keeps U keys s1 s'"
        by (rule eq_inner_keeps [OF Suc.IH run ok1]) (assumption+, unfold n1, rule parts)
      with k1 show ?thesis by (rule keeps_trans)
    qed
  qed (use ok in \<open>simp_all add: keeps_refl\<close>)
qed simp


section \<open>Termination\<close>

lemma try_pairs_total:
  assumes f: "\<And>x y s. table_ok U keys (ts_ut s) \<Longrightarrow> intern_ok (keys (ts_ut s)) x \<Longrightarrow> intern_ok (keys (ts_ut s)) y \<Longrightarrow>
      unjoined U keys (ts_ut s) < n \<Longrightarrow> \<not> ts_downgrade s \<Longrightarrow> f x y s \<noteq> None"
    and keeps: "\<And>x y s res s'. f x y s = Some (res, s') \<Longrightarrow> table_ok U keys (ts_ut s) \<Longrightarrow>
      intern_ok (keys (ts_ut s)) x \<Longrightarrow> intern_ok (keys (ts_ut s)) y \<Longrightarrow> keeps U keys s s'"
    and "table_ok U keys (ts_ut s)" "unjoined U keys (ts_ut s) < n" "\<not> ts_downgrade s"
    and "\<And>x y. (x, y) \<in> set ps \<Longrightarrow> intern_ok (keys (ts_ut s)) x \<and> intern_ok (keys (ts_ut s)) y"
  shows "try_pairs f ps s \<noteq> None"
  using assms(3-6)
proof (induction ps arbitrary: s)
  case (Cons p ps)
  obtain x y where p: "p = (x, y)" by (cases p)
  have xy: "intern_ok (keys (ts_ut s)) x" "intern_ok (keys (ts_ut s)) y" using Cons.prems(4) [of x y] p by simp_all
  from f [OF Cons.prems(1) xy Cons.prems(2,3)] obtain res s1 where run: "f x y s = Some (res, s1)" by auto
  have k: "later U keys (ts_ut s) (ts_ut s1)" "\<not> ts_downgrade s1"
    using keeps [OF run Cons.prems(1) xy] Cons.prems(3) by (auto simp: keeps_def)
  have "try_pairs f ps s1 \<noteq> None"
  proof (rule Cons.IH)
    show "intern_ok (keys (ts_ut s1)) x' \<and> intern_ok (keys (ts_ut s1)) y'" if "(x', y') \<in> set ps" for x' y'
      using Cons.prems(4) [of x' y'] that k(1) by (simp add: later_def)
  qed (use k Cons.prems(2) in \<open>auto simp: later_def\<close>)
  then show ?case using run p by (cases res) simp_all
qed simp

lemma solver_eq_total:
  assumes U: "unification_table U keys"
  shows "table_ok U keys (ts_ut s) \<Longrightarrow> intern_ok (keys (ts_ut s)) l \<Longrightarrow> intern_ok (keys (ts_ut s)) r \<Longrightarrow>
    unjoined U keys (ts_ut s) + (if ts_downgrade s then 1 else 0) < fuel \<Longrightarrow> solver_eq fuel U l r s \<noteq> None"
proof (induction fuel arbitrary: l r s)
  case (Suc fuel)
  note ok = Suc.prems(1)
  show ?case
  proof (cases "l = Never \<or> r = Never")
    case True
    then show ?thesis by (auto split: type_intern.splits)
  next
    case False
    then obtain left right where lr: "l = Other left" "r = Other right" by (cases l; cases r) auto
    have bound: "left < keys (ts_ut s)" "right < keys (ts_ut s)" using Suc.prems lr by simp_all
    show ?thesis
    proof (cases "unioned U (ts_ut s) left right")
      case nu: False
      from look_through_Some [OF U ok bound] obtain tys where tys: "look_through U left right (ts_ut s) = Some tys" ..
      show ?thesis
      proof (cases tys)
        case None
        with lr nu tys show ?thesis by simp
      next
        case (Some t)
        obtain ta tb where t: "t = (ta, tb)" by (cases t)
        from look_through_types [OF U ok bound tys [unfolded Some t]] obtain a' b' where
          ab: "ta = probe_value U (ts_ut s) a'" "a' < keys (ts_ut s)" "tb = probe_value U (ts_ut s) b'" "b' < keys (ts_ut s)"
          by blast
        have parts: "intern_ok (keys (ts_ut s)) x \<and> intern_ok (keys (ts_ut s)) y"
          if "(x, y) \<in> set (part_pairs (rt_kind ta) (rt_kind tb))" for x y
          using part_pairs_ok [OF _ _ that, of U keys "ts_ut s"] table_okD(1) [OF ok ab(2)] table_okD(1) [OF ok ab(4)] ab(1,3)
          by simp
        show ?thesis
        proof (cases "if ts_downgrade s then downgrades ta tb else None")
          case (Some p)
          obtain i1 i2 where p: "p = (i1, i2)" by (cases p)
          from Some p have d: "ts_downgrade s" "downgrades ta tb = Some (i1, i2)" by (auto split: if_splits)
          have "solver_eq fuel U i1 i2 (s\<lparr>ts_downgrade := False\<rparr>) \<noteq> None"
            using parts [of i1 i2] downgrades_parts [OF d(2)] ok Suc.prems(4) d(1)
            by (intro Suc.IH) (simp_all add: part_pairs_def)
          then show ?thesis using lr nu tys \<open>tys = Some t\<close> t d
            by (auto simp: and_then_def split: sum.split)
        next
          case None
          show ?thesis
          proof (cases rule: unify_var_var_step [OF U ok bound nu])
            case (1 e u')
            with lr nu tys \<open>tys = Some t\<close> t None show ?thesis by (simp add: on_table_def)
          next
            case (2 v u')
            define s1 where "s1 = s\<lparr>ts_downgrade := False, ts_ut := u'\<rparr>"
            have "eq_inner (solver_eq fuel U) ta tb s1 \<noteq> None"
            proof (cases "rt_names ta = rt_names tb")
              case True
              have "try_pairs (solver_eq fuel U) (part_pairs (rt_kind ta) (rt_kind tb)) s1 \<noteq> None"
                by (rule try_pairs_total [where U = U and keys = keys and n = fuel])
                  (use Suc.IH solver_eq_keeps [OF U] parts 2 Suc.prems(4) in \<open>auto simp: s1_def later_def split: if_splits\<close>)
              with True show ?thesis by (simp add: eq_inner_pairs)
            qed (simp add: eq_inner_pairs)
            with lr nu tys \<open>tys = Some t\<close> t None 2 show ?thesis by (simp add: on_table_def s1_def)
          qed
        qed
      qed
    qed (simp add: lr)
  qed
qed simp

end
