(* ===== verification/Type_Solver_Types.thy ===== *)
theory Type_Solver_Types
  imports Type_Solver_Props
begin

text \<open>
  The types the solver assigns: after a unification that succeeds every key has a type at least as
  definite as the one it had before, except that a function type may lose parameters, whose number the
  solver does not compare; and the two sides have the same type.
\<close>

declare split_paired_All [simp del] split_paired_Ex [simp del]

section \<open>Refinement of types\<close>

text \<open>\<open>ImplicitSelf\<close> of a trait counts as the trait.\<close>

definition resolve_self :: "'u unify_table \<Rightarrow> 'u \<Rightarrow> type_key \<Rightarrow> type_key" where
  "resolve_self U u k = (case rt_kind (probe_value U u k) of ImplicitSelf (Other l) \<Rightarrow> l | _ \<Rightarrow> k)"

definition agree :: "'u unify_table \<Rightarrow> 'u \<Rightarrow> type_key \<Rightarrow> type_key \<Rightarrow> bool" where
  "agree U u a b \<longleftrightarrow> unioned U u (resolve_self U u a) (resolve_self U u b)"

fun same_type :: "'u unify_table \<Rightarrow> 'u \<Rightarrow> type_intern \<Rightarrow> type_intern \<Rightarrow> bool" where
  "same_type U u (Other a) (Other b) = agree U u a b"
| "same_type U u _ _ = True"

fun part_le :: "'u unify_table \<Rightarrow> 'u \<Rightarrow> type_intern \<Rightarrow> type_intern \<Rightarrow> bool" where
  "part_le U u Never t = True"
| "part_le U u (Other a) Never = False"
| "part_le U u (Other a) (Other b) = agree U u a b"

text \<open>When a type is at least as definite as another: the parts are as definite, one by one, and a function type
  keeps the number of its parameters.\<close>

definition kind_refines :: "('t \<Rightarrow> 't \<Rightarrow> bool) \<Rightarrow> 't ty_kind \<Rightarrow> 't ty_kind \<Rightarrow> bool" where
  "kind_refines le k k' =
     (case (k, k') of
        (Any a, _) \<Rightarrow> can_cast_to a k'
      | (Ref t m, Ref t' m') \<Rightarrow> le t t' \<and> (m = m' \<or> m = RefWeakMut)
      | (Tup ts, Tup ts') \<Rightarrow> list_all2 le ts ts'
      | (Array t n, Array t' n') \<Rightarrow> le t t' \<and> (n = n' \<or> n = None)
      | (Fn r as, Fn r' as') \<Rightarrow> le r r' \<and> list_all2 le as as'
      | _ \<Rightarrow> k = k')"

definition refines :: "'u unify_table \<Rightarrow> 'u \<Rightarrow> resolved_ty \<Rightarrow> resolved_ty \<Rightarrow> bool" where
  "refines U u t t' \<longleftrightarrow>
     t = unnamed (Any AnyAny) \<or>
     (if rt_names t \<noteq> None then t' = t else rt_names t' = None \<and> kind_refines (part_le U u) (rt_kind t) (rt_kind t'))"

definition refined :: "'u unify_table \<Rightarrow> ('u \<Rightarrow> nat) \<Rightarrow> 'u \<Rightarrow> 'u \<Rightarrow> bool" where
  "refined U keys u u' \<longleftrightarrow> (\<forall>k < keys u. refines U u' (probe_value U u k) (probe_value U u' k))"

text \<open>A function type that has lost its last parameters.\<close>

definition fn_shortened :: "'u unify_table \<Rightarrow> 'u \<Rightarrow> resolved_ty \<Rightarrow> resolved_ty \<Rightarrow> bool" where
  "fn_shortened U u t t' \<longleftrightarrow>
     rt_names t = None \<and> rt_names t' = None \<and>
     (case (rt_kind t, rt_kind t') of
        (Fn r as, Fn r' as') \<Rightarrow> part_le U u r r' \<and> length as' < length as \<and>
          list_all2 (part_le U u) (take (length as') as) as'
      | _ \<Rightarrow> False)"

text \<open>The solver goes through the parameters of two function types only as far as the shorter list, so what
  holds of it in general is refinement up to that.\<close>

definition kind_upto :: "('t \<Rightarrow> 't \<Rightarrow> bool) \<Rightarrow> 't ty_kind \<Rightarrow> 't ty_kind \<Rightarrow> bool" where
  "kind_upto le k k' =
     (case (k, k') of
        (Any a, _) \<Rightarrow> can_cast_to a k'
      | (Ref t m, Ref t' m') \<Rightarrow> le t t' \<and> (m = m' \<or> m = RefWeakMut)
      | (Tup ts, Tup ts') \<Rightarrow> list_all2 le ts ts'
      | (Array t n, Array t' n') \<Rightarrow> le t t' \<and> (n = n' \<or> n = None)
      | (Fn r as, Fn r' as') \<Rightarrow> le r r' \<and> length as' \<le> length as \<and> list_all2 le (take (length as') as) as'
      | _ \<Rightarrow> k = k')"

definition refines_upto :: "'u unify_table \<Rightarrow> 'u \<Rightarrow> resolved_ty \<Rightarrow> resolved_ty \<Rightarrow> bool" where
  "refines_upto U u t t' \<longleftrightarrow>
     t = unnamed (Any AnyAny) \<or>
     (if rt_names t \<noteq> None then t' = t else rt_names t' = None \<and> kind_upto (part_le U u) (rt_kind t) (rt_kind t'))"

definition refined_upto :: "'u unify_table \<Rightarrow> ('u \<Rightarrow> nat) \<Rightarrow> 'u \<Rightarrow> 'u \<Rightarrow> bool" where
  "refined_upto U keys u u' \<longleftrightarrow> (\<forall>k < keys u. refines_upto U u' (probe_value U u k) (probe_value U u' k))"

lemma kind_upto_iff:
  "kind_upto le k k' \<longleftrightarrow> kind_refines le k k' \<or>
     (\<exists>r as r' as'. k = Fn r as \<and> k' = Fn r' as' \<and> le r r' \<and> length as' < length as \<and>
        list_all2 le (take (length as') as) as')"
proof (cases "\<exists>r as r' as'. k = Fn r as \<and> k' = Fn r' as'")
  case True
  then obtain r as r' as' where "k = Fn r as" "k' = Fn r' as'" by blast
  then show ?thesis
    by (auto simp: kind_upto_def kind_refines_def list_all2_lengthD le_less dest: list_all2_lengthD)
next
  case False
  then have "kind_upto le k k' = kind_refines le k k'"
    unfolding kind_upto_def kind_refines_def by (cases k; cases k') auto
  with False show ?thesis by blast
qed

lemma refines_upto_iff: "refines_upto U u t t' \<longleftrightarrow> refines U u t t' \<or> fn_shortened U u t t'"
  unfolding refines_upto_def refines_def fn_shortened_def kind_upto_iff
  by (auto simp: unnamed_def split: ty_kind.splits)

lemma refines_upto_arity:
  "refines_upto U u t t' \<Longrightarrow> arity n t \<Longrightarrow> arity n t' \<Longrightarrow> refines U u t t'"
  unfolding refines_upto_iff fn_shortened_def arity_def by (auto split: ty_kind.splits)

lemma refined_upto_arity:
  assumes "refined_upto U keys u u'" "keys u' = keys u" "one_arity n U keys u" "one_arity n U keys u'"
  shows "refined U keys u u'"
  using assms refines_upto_arity unfolding refined_def refined_upto_def one_arity_def by metis

lemma agree_equiv:
  assumes "unification_table U keys"
  shows "agree U u a a" and "agree U u a b \<Longrightarrow> agree U u b a" and "agree U u a b \<Longrightarrow> agree U u b c \<Longrightarrow> agree U u a c"
  unfolding agree_def by (blast intro: unioned_refl [OF assms] unioned_sym [OF assms] unioned_trans [OF assms])+

lemma unioned_agree:
  assumes U: "unification_table U keys" and "unioned U u a b"
  shows "agree U u a b"
  using unioned_probe [OF assms] unioned_refl [OF U] assms(2)
  by (auto simp: agree_def resolve_self_def split: ty_kind.splits type_intern.splits)

lemma part_le_refl: "unification_table U keys \<Longrightarrow> part_le U u t t"
  by (cases t) (auto intro: agree_equiv)

lemma part_le_trans:
  assumes "unification_table U keys" "part_le U u t1 t2" "part_le U u t2 t3"
  shows "part_le U u t1 t3"
  using assms(2,3) by (cases t1; cases t2; cases t3) (auto intro: agree_equiv(3) [OF assms(1)])

lemma kind_upto_refl:
  assumes "\<And>t. t \<in> set_ty_kind k \<Longrightarrow> le t t"
  shows "kind_upto le k k"
proof (cases k)
  case (Any a)
  then show ?thesis by (cases a) (simp_all add: kind_upto_def can_cast_to_def)
qed (use assms in \<open>auto simp: kind_upto_def list_all2_same\<close>)

lemma kind_upto_trans:
  assumes "kind_upto le k1 k2" "kind_upto le k2 k3" "k2 \<noteq> Any AnyAny"
    and le: "\<And>x y z. le x y \<Longrightarrow> le y z \<Longrightarrow> le x z"
  shows "kind_upto le k1 k3"
proof (cases k2)
  case (Any a)
  with assms(1) obtain b where "k1 = Any b" "can_cast_to b (Any a :: 'a ty_kind)"
    by (auto simp: kind_upto_def split: ty_kind.splits)
  then show ?thesis using assms(2,3) Any
    by (cases a; cases b) (auto simp: kind_upto_def can_cast_to_def)
next
  case (Fn r2 a2)
  with assms(2) obtain r3 a3 where k3: "k3 = Fn r3 a3" and 3: "le r2 r3" "length a3 \<le> length a2" "list_all2 le (take (length a3) a2) a3"
    by (auto simp: kind_upto_def split: ty_kind.splits)
  show ?thesis
  proof (cases k1)
    case (Fn r1 a1)
    with assms(1) \<open>k2 = Fn r2 a2\<close> have 2: "le r1 r2" "length a2 \<le> length a1" "list_all2 le (take (length a2) a1) a2"
      by (auto simp: kind_upto_def)
    have "list_all2 le (take (length a3) (take (length a2) a1)) (take (length a3) a2)"
      using 2(3) by (rule list_all2_takeI)
    then have "list_all2 le (take (length a3) a1) (take (length a3) a2)" using 3(2) by (simp add: min_def)
    then have "list_all2 le (take (length a3) a1) a3"
      using list_all2_trans [of le le le] le 3(3) by blast
    then show ?thesis using Fn k3 2 3 le by (auto simp: kind_upto_def)
  next
    case (Any b)
    then show ?thesis using assms(1,2) Fn by (cases b) (auto simp: kind_upto_def can_cast_to_def)
  qed (use assms(1) Fn in \<open>auto simp: kind_upto_def\<close>)
next
  case (Tup ts2)
  with assms(1,2) le show ?thesis
    by (auto simp: kind_upto_def can_cast_to_def split: ty_kind.splits any_ty_kind.splits
        intro: list_all2_trans [of le le le])
qed (use assms(1,2) le in \<open>auto simp: kind_upto_def can_cast_to_def split: ty_kind.splits\<close>)

lemma kind_upto_mono:
  assumes "kind_upto le k k'" and "\<And>x y. x \<in> set_ty_kind k \<Longrightarrow> y \<in> set_ty_kind k' \<Longrightarrow> le x y \<Longrightarrow> le' x y"
  shows "kind_upto le' k k'"
proof (cases k)
  case (Fn r as)
  with assms show ?thesis
    by (auto simp: kind_upto_def elim!: list.rel_mono_strong dest: in_set_takeD split: ty_kind.splits)
qed (use assms in \<open>auto simp: kind_upto_def elim!: list.rel_mono_strong split: ty_kind.splits\<close>)

lemma upto_refl: "unification_table U keys \<Longrightarrow> refines_upto U u t t"
  by (simp add: refines_upto_def kind_upto_refl part_le_refl)

lemma upto_trans:
  assumes "unification_table U keys" "refines_upto U u t1 t2" "refines_upto U u t2 t3"
  shows "refines_upto U u t1 t3"
proof (cases "t1 = unnamed (Any AnyAny) \<or> rt_names t1 \<noteq> None")
  case False
  then have t1: "rt_names t1 = None" "t1 \<noteq> unnamed (Any AnyAny)" by simp_all
  with assms(2) have 2: "rt_names t2 = None" "kind_upto (part_le U u) (rt_kind t1) (rt_kind t2)"
    by (auto simp: refines_upto_def)
  have "t2 \<noteq> unnamed (Any AnyAny)"
  proof
    assume "t2 = unnamed (Any AnyAny)"
    with 2(2) have "rt_kind t1 = Any AnyAny"
      by (cases "rt_kind t1") (auto simp: kind_upto_def unnamed_def can_cast_to_def)
    with t1 show False by (simp add: unnamed_def)
  qed
  with assms(3) 2(1) have 3: "rt_names t3 = None" "kind_upto (part_le U u) (rt_kind t2) (rt_kind t3)"
    by (auto simp: refines_upto_def)
  have "rt_kind t2 \<noteq> Any AnyAny" using 2(1) \<open>t2 \<noteq> unnamed (Any AnyAny)\<close> by (auto simp: unnamed_def)
  then have "kind_upto (part_le U u) (rt_kind t1) (rt_kind t3)"
    using kind_upto_trans [OF 2(2) 3(2)] part_le_trans [OF assms(1)] by blast
  with 3(1) t1 show ?thesis by (simp add: refines_upto_def)
qed (use assms(2,3) in \<open>auto simp: refines_upto_def\<close>)

lemma table_upto_refl: "unification_table U keys \<Longrightarrow> refined_upto U keys u u"
  by (simp add: refined_upto_def upto_refl)

text \<open>Keys that agree go on agreeing.\<close>

lemma agree_mono:
  assumes U: "unification_table U keys" and ok: "table_ok U keys u" and ref: "refined_upto U keys u u'"
    and mono: "\<And>x y. unioned U u x y \<Longrightarrow> unioned U u' x y" and ab: "a < keys u" "b < keys u"
    and "agree U u a b"
  shows "agree U u' a b"
proof -
  have self: "resolve_self U u' k = l"
    if "k < keys u" "rt_kind (probe_value U u k) = ImplicitSelf (Other l)" for k l
  proof -
    have "rt_names (probe_value U u k) = None" using table_okD(1) [OF ok that(1)] that(2) by (auto simp: type_ok_def)
    then have "rt_kind (probe_value U u' k) = ImplicitSelf (Other l)"
      using ref that by (auto simp: refined_upto_def refines_upto_def kind_upto_def unnamed_def split: ty_kind.splits)
    then show ?thesis by (simp add: resolve_self_def)
  qed
  have named: "resolve_self U u' k = k" if "k < keys u" "rt_names (probe_value U u k) \<noteq> None" for k
  proof -
    have "probe_value U u' k = probe_value U u k" using ref that by (auto simp: refined_upto_def refines_upto_def unnamed_def)
    then show ?thesis using table_okD(1) [OF ok that(1)] that(2)
      by (auto simp: resolve_self_def type_ok_def split: ty_kind.splits)
  qed
  have plain: "resolve_self U u k = k \<or> (\<exists>l. rt_kind (probe_value U u k) = ImplicitSelf (Other l) \<and>
      resolve_self U u k = l \<and> rt_names (probe_value U u l) \<noteq> None)" if "k < keys u" for k
    using table_okD(1) [OF ok that] by (auto simp: resolve_self_def type_ok_def split: ty_kind.split type_intern.split)
  consider "resolve_self U u a = a" "resolve_self U u b = b"
    | "resolve_self U u' a = resolve_self U u a" "resolve_self U u' b = resolve_self U u b"
    using plain [OF ab(1)] plain [OF ab(2)] self [OF ab(1)] self [OF ab(2)] named [OF ab(1)] named [OF ab(2)]
      unioned_probe [OF U assms(7) [unfolded agree_def]] by metis
  then show ?thesis
  proof cases
    case 1
    then show ?thesis using assms(7) mono unioned_agree [OF U] unfolding agree_def by metis
  next
    case 2
    then show ?thesis using assms(7) mono unfolding agree_def by metis
  qed
qed

lemma same_type_mono:
  assumes "unification_table U keys" "table_ok U keys u" "refined_upto U keys u u'" "later U keys u u'"
    "intern_ok (keys u) a" "intern_ok (keys u) b" "same_type U u a b"
  shows "same_type U u' a b"
  using assms(4-7) agree_mono [OF assms(1-3)] by (cases a; cases b) (auto simp: later_def)

lemma part_le_mono:
  assumes "unification_table U keys" "table_ok U keys u" "refined_upto U keys u u'" "later U keys u u'"
    "intern_ok (keys u) a" "intern_ok (keys u) b" "part_le U u a b"
  shows "part_le U u' a b"
  using assms(4-7) agree_mono [OF assms(1-3)] by (cases a; cases b) (auto simp: later_def)

lemma upto_mono:
  assumes "unification_table U keys" "table_ok U keys u" "refined_upto U keys u u'" "later U keys u u'"
    "type_ok U keys u t" "type_ok U keys u t'" "refines_upto U u t t'"
  shows "refines_upto U u' t t'"
  using assms(7) kind_upto_mono [of "part_le U u" "rt_kind t" "rt_kind t'" "part_le U u'"]
    part_le_mono [OF assms(1-4)] assms(5,6)
  by (auto simp: refines_upto_def type_ok_def)

lemma table_upto_trans:
  assumes U: "unification_table U keys" and "refined_upto U keys u1 u2" "refined_upto U keys u2 u3" "later U keys u1 u2" "later U keys u2 u3"
    and ok: "table_ok U keys u1"
  shows "refined_upto U keys u1 u3"
  unfolding refined_upto_def
proof (intro allI impI)
  fix k assume k: "k < keys u1"
  have ok2: "table_ok U keys u2" "keys u2 = keys u1" using assms(4) by (auto simp: later_def)
  have "type_ok U keys u2 (probe_value U u1 k)"
  proof (rule type_ok_mono [OF table_okD(1) [OF ok k]])
    show "rt_names (probe_value U u2 l) \<noteq> None" if "l < keys u1" "rt_names (probe_value U u1 l) \<noteq> None" for l
      using assms(2) that by (auto simp: refined_upto_def refines_upto_def unnamed_def)
  qed (simp add: ok2)
  then have "refines_upto U u3 (probe_value U u1 k) (probe_value U u2 k)"
    using upto_mono [OF U ok2(1) assms(3,5)] table_okD(1) [OF ok2(1)] assms(2) k ok2(2)
    by (simp add: refined_upto_def)
  then show "refines_upto U u3 (probe_value U u1 k) (probe_value U u3 k)"
    using upto_trans [OF U] assms(3) k ok2(2) by (auto simp: refined_upto_def)
qed


section \<open>Unified values refine both\<close>

lemma select_le:
  assumes "unification_table U keys" "same_type U u x y"
  shows "part_le U u x (select x y)" "part_le U u y (select x y)"
  using assms by (cases x; cases y; auto simp: select_def intro: agree_equiv)+

lemma map2_select_le:
  assumes U: "unification_table U keys" and "\<And>x y. (x, y) \<in> set (zip xs ys) \<Longrightarrow> same_type U u x y"
  shows "list_all2 (part_le U u) (take (length (map2 select xs ys)) xs) (map2 select xs ys)"
    and "list_all2 (part_le U u) (take (length (map2 select xs ys)) ys) (map2 select xs ys)"
  using assms(2) by (auto simp: list_all2_conv_all_nth set_zip intro: select_le [OF U])

lemma unify_kinds_refines:
  assumes U: "unification_table U keys" and v: "unify_kinds v1 v2 = Some (Inr v)"
    and n: "rt_names v1 = None" "rt_names v2 = None"
    and same: "\<And>x y. (x, y) \<in> set (part_pairs (rt_kind v1) (rt_kind v2)) \<Longrightarrow> same_type U u x y"
  shows "refines_upto U u v1 v \<and> refines_upto U u v2 v"
proof -
  note refl = upto_refl [OF U]
  from v show ?thesis
  proof (cases rule: unify_kinds_cases)
    case left
    have "refines_upto U u v2 v1"
    proof (cases "\<exists>k. rt_kind v2 = Any k")
      case True
      with left(2) n show ?thesis by (auto simp: refines_upto_def kind_upto_def)
    next
      case False
      with left(2) have "rt_kind v2 = rt_kind v1" by (auto split: ty_kind.splits)
      with n have "v2 = v1" by (cases v1; cases v2) simp
      then show ?thesis using refl by simp
    qed
    with left(1) refl show ?thesis by simp
  next
    case right
    then have "refines_upto U u v1 v2" using n by (auto simp: refines_upto_def kind_upto_def split: ty_kind.splits)
    with right(1) refl show ?thesis by simp
  next
    case (ref_types t1 m1 t2 m2 m)
    have "same_type U u t1 t2" using same [of t1 t2] ref_types by (simp add: part_pairs_def)
    moreover have "(m1 = m \<or> m1 = RefWeakMut) \<and> (m2 = m \<or> m2 = RefWeakMut)"
      using ref_types(3) by (cases m1; cases m2) auto
    ultimately show ?thesis using ref_types n select_le [OF U, of u t1 t2]
      by (auto simp: refines_upto_def kind_upto_def ref_type_def)
  next
    case (tup_types ts1 ts2)
    then show ?thesis using n map2_select_le [OF U, of ts1 ts2 u] same
      by (simp add: refines_upto_def kind_upto_def tup_type_def part_pairs_def)
  next
    case (array_types t1 l1 t2 l2 l)
    have "same_type U u t1 t2" using same [of t1 t2] array_types by (simp add: part_pairs_def)
    moreover have "(l1 = l \<or> l1 = None) \<and> (l2 = l \<or> l2 = None)"
      using array_types(3) by (auto simp: array_len_eq_def split: option.splits if_splits)
    ultimately show ?thesis using array_types n select_le [OF U, of u t1 t2]
      by (auto simp: refines_upto_def kind_upto_def array_type_def)
  next
    case (fn_types r1 a1 r2 a2)
    have "same_type U u r1 r2" using same [of r1 r2] fn_types by (simp add: part_pairs_def)
    moreover have "same_type U u x y" if "(x, y) \<in> set (zip a1 a2)" for x y
      using same [of x y] fn_types that by (simp add: part_pairs_def)
    ultimately show ?thesis using fn_types n select_le [OF U, of u r1 r2] map2_select_le [OF U, of a1 a2 u]
      by (simp add: refines_upto_def kind_upto_def fn_type_def)
  qed
qed

lemma unify_kinds_any:
  "rt_kind v2 = Any AnyAny \<Longrightarrow> unify_kinds v1 v2 = Some (Inr v1)"
  "rt_kind v1 = Any AnyAny \<Longrightarrow> rt_kind v2 \<noteq> Any AnyAny \<Longrightarrow> unify_kinds v1 v2 = Some (Inr v2)"
proof -
  show "unify_kinds v1 v2 = Some (Inr v1)" if "rt_kind v2 = Any AnyAny"
  proof (cases "rt_kind v1")
    case (Any k)
    with that show ?thesis by (cases k) (simp_all add: unify_kinds_def)
  qed (use that in \<open>simp_all add: unify_kinds_def\<close>)
  show "unify_kinds v1 v2 = Some (Inr v2)" if "rt_kind v1 = Any AnyAny" "rt_kind v2 \<noteq> Any AnyAny"
  proof (cases "rt_kind v2")
    case (Any k)
    with that show ?thesis by (cases k) (simp_all add: unify_kinds_def)
  qed (use that in \<open>simp_all add: unify_kinds_def\<close>)
qed

text \<open>The outcome of a comparison: one type on both sides or, when a mutable reference may be lowered to a
  shared one, such a pair of references to one type.\<close>

definition equated ::
  "'u unify_table \<Rightarrow> bool \<Rightarrow> 'u \<Rightarrow> 'u \<Rightarrow> type_intern \<Rightarrow> type_intern \<Rightarrow> bool" where
  "equated U downgrade u u' l r \<longleftrightarrow>
     same_type U u' l r \<or>
     downgrade \<and>
       (case (l, r) of
          (Other left, Other right) \<Rightarrow>
            (case downgrades (probe_value U u left) (probe_value U u right) of
               None \<Rightarrow> False
             | Some (i1, i2) \<Rightarrow> same_type U u' i1 i2)
        | _ \<Rightarrow> False)"

text \<open>What a comparison that gets past the unification of the values has to do with the types.\<close>

lemma merge_values:
  assumes U: "unification_table U keys" and ok: "table_ok U keys u" and lr: "left < keys u" "right < keys u"
    and "look_through U left right u = Some (Some (ta, tb))" "\<not> unioned U u left right"
    and v: "unify_values (probe_value U u left) (probe_value U u right) = Some (Inr v)"
  obtains (left_any) "probe_value U u left = unnamed (Any AnyAny)" "v = probe_value U u right"
      "rt_names ta \<noteq> rt_names tb"
  | (right_any) "probe_value U u right = unnamed (Any AnyAny)" "v = probe_value U u left" "rt_names ta \<noteq> rt_names tb"
  | (parts) "rt_names ta = None" "rt_names tb = None" "ta = probe_value U u left" "tb = probe_value U u right"
      "unify_kinds ta tb = Some (Inr v)"
  | (clash) "rt_names ta \<noteq> rt_names tb" "\<not> (is_any_type ta \<or> is_any_type tb)"
proof -
  from look_through_types [OF U ok lr assms(5)] assms(6) obtain a b where
    ab: "ta = probe_value U u a" "a < keys u" "tb = probe_value U u b" "b < keys u" "\<not> unioned U u a b"
    and a: "a = left \<or> rt_kind (probe_value U u left) = ImplicitSelf (Other a) \<and> rt_names ta \<noteq> None"
    and b: "b = right \<or> rt_kind (probe_value U u right) = ImplicitSelf (Other b) \<and> rt_names tb \<noteq> None"
    by metis
  have tok: "type_ok U keys u (probe_value U u k)" if "k < keys u" for k using table_okD(1) [OF ok that] .
  have any: "probe_value U u k = unnamed (Any AnyAny)" if "k < keys u" "is_any_type (probe_value U u k)" for k
    using tok [OF that(1)] that(2) by (auto simp: is_kind_def type_ok_def unnamed_def)
  show ?thesis
  proof (cases "rt_names ta = rt_names tb")
    case True
    have "rt_names ta = None"
    proof (rule ccontr)
      assume "rt_names ta \<noteq> None"
      then have "unioned U u a b" using table_okD(2) [OF ok ab(2,4)] True ab(1,3) by simp
      with ab(5) show False ..
    qed
    with True a b ab(1,3) v parts show ?thesis by (auto simp: unify_values_def)
  next
    case False
    show ?thesis
    proof (cases "is_any_type ta \<or> is_any_type tb")
      case True
      then consider (l) "probe_value U u a = unnamed (Any AnyAny)" "rt_names tb \<noteq> None"
        | (r) "probe_value U u b = unnamed (Any AnyAny)" "rt_names ta \<noteq> None"
        using any [OF ab(2)] any [OF ab(4)] ab(1,3) False
        by (cases "rt_names ta"; cases "rt_names tb") (auto simp: unnamed_def)
      then show ?thesis
      proof cases
        case l
        with a ab(1) have left: "probe_value U u left = unnamed (Any AnyAny)" by (auto simp: unnamed_def)
        moreover have "v = probe_value U u right"
          using v left b l(2) ab(3) by (auto simp: unify_values_def unify_kinds_any unnamed_def split: if_splits)
        ultimately show ?thesis using left_any False by blast
      next
        case r
        with b ab(3) have right: "probe_value U u right = unnamed (Any AnyAny)" by (auto simp: unnamed_def)
        moreover have "v = probe_value U u left"
          using v right a r(2) ab(1) by (auto simp: unify_values_def unify_kinds_any unnamed_def split: if_splits)
        ultimately show ?thesis using right_any False by blast
      qed
    qed (use False clash in blast)
  qed
qed


section \<open>The solver refines every type\<close>

lemma try_pairs_refined:
  assumes U: "unification_table U keys"
    and keeps: "\<And>x y s res s'. f x y s = Some (res, s') \<Longrightarrow> table_ok U keys (ts_ut s) \<Longrightarrow>
      intern_ok (keys (ts_ut s)) x \<Longrightarrow> intern_ok (keys (ts_ut s)) y \<Longrightarrow> keeps U keys s s'"
    and f: "\<And>x y s s'. f x y s = Some (Inr (), s') \<Longrightarrow> table_ok U keys (ts_ut s) \<Longrightarrow>
      intern_ok (keys (ts_ut s)) x \<Longrightarrow> intern_ok (keys (ts_ut s)) y \<Longrightarrow> \<not> ts_downgrade s \<Longrightarrow>
      refined_upto U keys (ts_ut s) (ts_ut s') \<and> same_type U (ts_ut s') x y"
    and "try_pairs f ps s = Some (Inr (), s')" "table_ok U keys (ts_ut s)" "\<not> ts_downgrade s"
    and "\<And>x y. (x, y) \<in> set ps \<Longrightarrow> intern_ok (keys (ts_ut s)) x \<and> intern_ok (keys (ts_ut s)) y"
  shows "refined_upto U keys (ts_ut s) (ts_ut s') \<and> (\<forall>(x, y) \<in> set ps. same_type U (ts_ut s') x y)"
  using assms(4-7)
proof (induction ps arbitrary: s)
  case Nil
  then show ?case using table_upto_refl [OF U] by simp
next
  case (Cons p ps)
  obtain x y where p: "p = (x, y)" by (cases p)
  have xy: "intern_ok (keys (ts_ut s)) x" "intern_ok (keys (ts_ut s)) y" using Cons.prems(4) [of x y] p by simp_all
  from Cons.prems(1) p obtain s1 where run: "f x y s = Some (Inr (), s1)" and rest: "try_pairs f ps s1 = Some (Inr (), s')"
    by (auto simp: and_then_Some)
  have k: "later U keys (ts_ut s) (ts_ut s1)" "\<not> ts_downgrade s1"
    using keeps [OF run Cons.prems(2) xy] Cons.prems(3) by (auto simp: keeps_def)
  then have ok1: "table_ok U keys (ts_ut s1)" and n1: "keys (ts_ut s1) = keys (ts_ut s)" by (auto simp: later_def)
  have parts: "intern_ok (keys (ts_ut s1)) x' \<and> intern_ok (keys (ts_ut s1)) y'" if "(x', y') \<in> set ps" for x' y'
    using Cons.prems(4) [of x' y'] that n1 by simp
  have k': "later U keys (ts_ut s1) (ts_ut s')"
    using try_pairs_keeps [OF keeps rest ok1 parts] by (simp add: keeps_def)
  note r1 = f [OF run Cons.prems(2) xy Cons.prems(3)]
  note r2 = Cons.IH [OF rest ok1 k(2) parts]
  have "refined_upto U keys (ts_ut s) (ts_ut s')"
    using table_upto_trans [OF U _ _ k(1) k' Cons.prems(2)] r1 r2 by blast
  moreover have "same_type U (ts_ut s') x y"
    using same_type_mono [OF U ok1 _ k'] r1 r2 xy n1 by simp
  ultimately show ?case using r2 p by simp
qed

lemma merge_refined:
  assumes U: "unification_table U keys" and m: "merged_table U keys u a b v u1" and r: "refined_upto U keys u1 u'"
    and v: "refines_upto U u' (probe_value U u a) v" "refines_upto U u' (probe_value U u b) v"
  shows "refined_upto U keys u u'"
  unfolding refined_upto_def
proof (intro allI impI)
  fix k assume k: "k < keys u"
  have r: "refines_upto U u' (probe_value U u1 k) (probe_value U u' k)"
    using r k merged_tableD(1) [OF m] by (simp add: refined_upto_def)
  show "refines_upto U u' (probe_value U u k) (probe_value U u' k)"
  proof (cases "unioned U u k a \<or> unioned U u k b")
    case True
    then have "refines_upto U u' (probe_value U u k) v" using v unioned_probe [OF U, of u k] by auto
    with r True show ?thesis using upto_trans [OF U] merged_tableD(4) [OF m, of k] by simp
  next
    case False
    with r show ?thesis by (simp add: merged_tableD(4) [OF m])
  qed
qed

lemma solver_eq_refined:
  assumes U: "unification_table U keys"
  shows "solver_eq fuel U l r s = Some (Inr (), s') \<Longrightarrow> table_ok U keys (ts_ut s) \<Longrightarrow>
    intern_ok (keys (ts_ut s)) l \<Longrightarrow> intern_ok (keys (ts_ut s)) r \<Longrightarrow>
    refined_upto U keys (ts_ut s) (ts_ut s') \<and> equated U (ts_downgrade s) (ts_ut s) (ts_ut s') l r"
proof (induction fuel arbitrary: l r s s')
  case (Suc fuel)
  note ok = Suc.prems(2)
  from Suc.prems(1) show ?case
  proof (cases rule: solver_eq_cases)
    case diverges
    then show ?thesis using table_upto_refl [OF U] by (cases l; cases r) (auto simp: equated_def)
  next
    case (joined left right)
    have "agree U (ts_ut s) left right"
      using joined(5)
    proof
      assume "look_through U left right (ts_ut s) = Some None"
      then show ?thesis
        by (auto simp: look_through_def agree_def resolve_self_def to_key_def Let_def
            split: ty_kind.splits type_intern.splits if_splits)
    qed (rule unioned_agree [OF U])
    with joined show ?thesis using table_upto_refl [OF U] by (simp add: equated_def)
  next
    case (lower left right ta tb i1 i2)
    have lr: "left < keys (ts_ut s)" "right < keys (ts_ut s)" using Suc.prems lower by simp_all
    note parts = downgrades_parts [OF lower(5)]
    from look_through_types [OF U ok lr lower(4)] parts(1,2) have
      t: "ta = probe_value U (ts_ut s) left" "tb = probe_value U (ts_ut s) right" by metis+
    then have "intern_ok (keys (ts_ut s)) i1 \<and> intern_ok (keys (ts_ut s)) i2"
      using part_pairs_ok [of U keys "ts_ut s" ta tb i1 i2] table_okD(1) [OF ok] lr parts
      by (simp add: part_pairs_def)
    moreover from lower(7) obtain s1 where "solver_eq fuel U i1 i2 (s\<lparr>ts_downgrade := False\<rparr>) = Some (Inr (), s1)"
      "s' = s1\<lparr>ts_downgrade := True\<rparr>" by (auto simp: and_then_Some)
    ultimately show ?thesis using Suc.IH [of i1 i2 "s\<lparr>ts_downgrade := False\<rparr>" s1] ok lower(1-3,5) t
      by (auto simp: equated_def)
  next
    case (compare left right ta tb)
    have lr: "left < keys (ts_ut s)" "right < keys (ts_ut s)" using Suc.prems compare by simp_all
    from look_through_types [OF U ok lr compare(3)] obtain a' b' where
      ab: "ta = probe_value U (ts_ut s) a'" "a' < keys (ts_ut s)" "tb = probe_value U (ts_ut s) b'" "b' < keys (ts_ut s)"
      by blast
    have parts: "intern_ok (keys (ts_ut s)) x \<and> intern_ok (keys (ts_ut s)) y"
      if "(x, y) \<in> set (part_pairs (rt_kind ta) (rt_kind tb))" for x y
      using part_pairs_ok [OF _ _ that, of U keys "ts_ut s"] table_okD(1) [OF ok ab(2)] table_okD(1) [OF ok ab(4)] ab(1,3)
      by simp
    show ?thesis
    proof (cases rule: unify_var_var_step [OF U ok lr compare(4)])
      case (1 e u')
      with compare(6) show ?thesis by (simp add: on_table_def)
    next
      case (2 v u1)
      define s1 where "s1 = s\<lparr>ts_downgrade := False, ts_ut := u1\<rparr>"
      have s1: "ts_ut s1 = u1" "\<not> ts_downgrade s1" by (simp_all add: s1_def)
      have run: "eq_inner (solver_eq fuel U) ta tb s1 = Some (Inr (), s')"
        using compare(6) 2 by (simp add: on_table_def s1_def)
      have ok1: "table_ok U keys (ts_ut s1)" and n1: "keys (ts_ut s1) = keys (ts_ut s)"
        using 2(4) by (auto simp: s1 later_def)
      have parts1: "intern_ok (keys (ts_ut s1)) x \<and> intern_ok (keys (ts_ut s1)) y"
        if "(x, y) \<in> set (part_pairs (rt_kind ta) (rt_kind tb))" for x y
        using parts [OF that] n1 by simp
      have joined: "agree U u1 left right"
        using unioned_agree [OF U] merged_tableD(3) [OF 2(3), of left right] unioned_refl [OF U] by blast
      note refl = table_upto_refl [OF U] upto_refl [OF U]
      have any: "refines_upto U u1 (unnamed (Any AnyAny)) t" for t by (simp add: refines_upto_def)
      show ?thesis
      proof (cases rule: merge_values [OF U ok lr compare(3,4) 2(2)])
        case any_left: 1
        then have s': "s' = s1" using run by (auto simp: eq_inner_pairs split: if_splits)
        then show ?thesis using merge_refined [OF U 2(3) refl(1)] any_left any refl(2) joined compare(1,2) by (simp add: s1 equated_def)
      next
        case any_right: 2
        then have s': "s' = s1" using run by (auto simp: eq_inner_pairs split: if_splits)
        then show ?thesis using merge_refined [OF U 2(3) refl(1)] any_right any refl(2) joined compare(1,2) by (simp add: s1 equated_def)
      next
        case 4
        with run show ?thesis by (simp add: eq_inner_pairs)
      next
        case p: 3
        have tp: "try_pairs (solver_eq fuel U) (part_pairs (rt_kind ta) (rt_kind tb)) s1 = Some (Inr (), s')"
          using run p(1,2) by (simp add: eq_inner_pairs)
        have f: "refined_upto U keys (ts_ut s) (ts_ut s') \<and> same_type U (ts_ut s') x y"
          if "solver_eq fuel U x y s = Some (Inr (), s')" "table_ok U keys (ts_ut s)"
            "intern_ok (keys (ts_ut s)) x" "intern_ok (keys (ts_ut s)) y" "\<not> ts_downgrade s" for x y s s'
          using Suc.IH [OF that(1-4)] that(5) by (simp add: equated_def)
        have IH: "refined_upto U keys (ts_ut s1) (ts_ut s') \<and>
            (\<forall>(x, y) \<in> set (part_pairs (rt_kind ta) (rt_kind tb)). same_type U (ts_ut s') x y)"
          by (rule try_pairs_refined [OF U solver_eq_keeps [OF U] f tp ok1 s1(2) parts1])
        have k: "later U keys (ts_ut s1) (ts_ut s')"
          using try_pairs_keeps [OF solver_eq_keeps [OF U] tp ok1 parts1] by (simp add: keeps_def)
        have "refines_upto U (ts_ut s') ta v \<and> refines_upto U (ts_ut s') tb v"
          using IH by (intro unify_kinds_refines [OF U p(5,1,2)]) blast
        then have "refined_upto U keys (ts_ut s) (ts_ut s')"
          using merge_refined [OF U 2(3)] IH p(3,4) by (simp add: s1)
        moreover have "agree U (ts_ut s') left right"
          using agree_mono [OF U ok1 _ _ _ _ joined [folded s1(1)]] IH k lr n1 by (simp add: later_def)
        ultimately show ?thesis using compare(1,2) by (simp add: equated_def)
      qed
    qed
  qed
qed simp


lemma solver_eq_same:
  assumes "unification_table U keys" "solver_eq fuel U l r s = Some (Inr (), s')" "table_ok U keys (ts_ut s)"
    "intern_ok (keys (ts_ut s)) l" "intern_ok (keys (ts_ut s)) r" "\<not> ts_downgrade s"
  shows "refined_upto U keys (ts_ut s) (ts_ut s') \<and> same_type U (ts_ut s') l r"
  using solver_eq_refined [OF assms(1-5)] assms(6) by (simp add: equated_def)

section \<open>Comparing a key with a type\<close>

lemma unify_var_value_step:
  assumes U: "unification_table U keys" and ok: "table_ok U keys u" and a: "a < keys u"
    and ty: "type_ok U keys u ty" "rt_names ty = None"
  obtains (clash) e u' where "unify_var_value U u a ty = Some (Inl e, u')"
      "unify_values (probe_value U u a) ty = Some (Inl e)"
  | (merge) v u' where "unify_var_value U u a ty = Some (Inr (), u')"
      "unify_values (probe_value U u a) ty = Some (Inr v)" "merged_table U keys u a a v u'" "grows U keys u u'"
      "\<forall>n. arity n ty \<longrightarrow> one_arity n U keys u \<longrightarrow> one_arity n U keys u'"
proof -
  note tok = table_okD(1) [OF ok a] ty(1)
  note res = unify_var_value_result [OF U a, of ty]
  from unify_values_total [OF tok] obtain r where r: "unify_values (probe_value U u a) ty = Some r" by blast
  show ?thesis
  proof (cases r)
    case (Inl e)
    with res r clash show ?thesis by (auto simp: union_result_def)
  next
    case (Inr v)
    with res r obtain u' where u': "unify_var_value U u a ty = Some (Inr (), u')" "merged_table U keys u a a v u'"
      by (auto simp: union_result_def)
    note md = merged_tableD [OF u'(2)]
    note v = type_ok_union [OF tok, of v]
    have "rt_names v = rt_names (probe_value U u a)" using r Inr ty(2) unify_kinds_from(1) [of _ ty v]
      by (auto simp: unify_values_def split: if_splits)
    then have "table_ok U keys u'"
      using v r Inr a by (intro table_ok_merged [OF U ok u'(2)]) auto
    moreover have "unjoined U keys u' \<le> unjoined U keys u" unfolding unjoined_def md(1)
      using md(2) by (intro card_mono finite_unjoined) auto
    ultimately have "grows U keys u u'" using md(1,2) by (simp add: grows_def)
    moreover have "one_arity n U keys u'" if "arity n ty" "one_arity n U keys u" for n
      using that a arity_union [of _ _ v n] r Inr by (intro one_arity_merged [OF that(2) u'(2)]) (auto simp: one_arity_def)
    ultimately show ?thesis using merge u' r Inr by simp
  qed
qed

lemma eq_with_type_total:
  assumes U: "unification_table U keys" and ok: "table_ok U keys (ts_ut s)" and l: "intern_ok (keys (ts_ut s)) l"
    and ty: "type_ok U keys (ts_ut s) ty" "rt_names ty = None" and dg: "\<not> ts_downgrade s"
    and fuel: "unjoined U keys (ts_ut s) < fuel"
  shows "eq_with_type fuel U l ty s \<noteq> None"
proof (cases l)
  case (Other left)
  with l have a: "left < keys (ts_ut s)" by simp
  show ?thesis
  proof (cases rule: unify_var_value_step [OF U ok a ty])
    case (1 e u')
    with Other show ?thesis by (simp add: eq_with_type_def on_table_def)
  next
    case (2 v u1)
    define s1 where "s1 = s\<lparr>ts_ut := u1\<rparr>"
    have s1: "ts_ut s1 = u1" "\<not> ts_downgrade s1" by (simp_all add: s1_def dg)
    let ?ps = "part_pairs (rt_kind (probe_value U (ts_ut s) left)) (rt_kind ty)"
    have "try_pairs (solver_eq fuel U) ?ps s1 \<noteq> None"
    proof (rule try_pairs_total [where U = U and keys = keys and n = fuel])
      show "intern_ok (keys (ts_ut s1)) x \<and> intern_ok (keys (ts_ut s1)) y" if "(x, y) \<in> set ?ps" for x y
        using part_pairs_ok [OF table_okD(1) [OF ok a] ty(1) that] 2(4) by (simp add: s1 grows_def)
    qed (use solver_eq_total [OF U] solver_eq_keeps [OF U] 2(4) fuel s1 in \<open>auto simp: grows_def\<close>)
    with Other 2 show ?thesis
      by (simp add: eq_with_type_def on_table_def eq_inner_pairs Let_def flip: s1_def)
  qed
qed (simp add: eq_with_type_def)

lemma eq_with_type_refined:
  assumes U: "unification_table U keys" and ok: "table_ok U keys (ts_ut s)" and a: "left < keys (ts_ut s)"
    and ty: "type_ok U keys (ts_ut s) ty" "rt_names ty = None" and dg: "\<not> ts_downgrade s"
    and run: "eq_with_type fuel U (Other left) ty s = Some (Inr (), s')"
  shows "grows U keys (ts_ut s) (ts_ut s') \<and> (\<forall>n. arity n ty \<longrightarrow> one_arity n U keys (ts_ut s) \<longrightarrow> one_arity n U keys (ts_ut s')) \<and>
    refined_upto U keys (ts_ut s) (ts_ut s') \<and>
    refines_upto U (ts_ut s') ty (probe_value U (ts_ut s') left)"
proof (cases rule: unify_var_value_step [OF U ok a ty])
  case (1 e u')
  with run show ?thesis by (simp add: eq_with_type_def on_table_def)
next
  case (2 v u1)
  define s1 where "s1 = s\<lparr>ts_ut := u1\<rparr>"
  have s1: "ts_ut s1 = u1" "\<not> ts_downgrade s1" by (simp_all add: s1_def dg)
  let ?t = "probe_value U (ts_ut s) left"
  let ?ps = "part_pairs (rt_kind ?t) (rt_kind ty)"
  have inner: "eq_inner (solver_eq fuel U) ?t ty s1 = Some (Inr (), s')"
    using run 2 by (simp add: eq_with_type_def on_table_def Let_def flip: s1_def)
  have val: "probe_value U u1 left = v" using merged_tableD(4) [OF 2(3), of left] unioned_refl [OF U] by simp
  show ?thesis
  proof (cases "rt_names ?t = None")
    case False
    then have "s' = s1" "is_any_type ?t \<or> is_any_type ty"
      using inner ty(2) by (auto simp: eq_inner_pairs split: if_splits)
    moreover have "\<not> is_any_type ?t"
      using table_okD(1) [OF ok a] False by (auto simp: type_ok_def is_kind_def)
    ultimately have any: "ty = unnamed (Any AnyAny)" and s': "s' = s1"
      using ty(2) by (auto simp: is_kind_def unnamed_def)
    have "v = ?t" using 2(2) False ty(2) by (auto simp: unify_values_def)
    then have "refined_upto U keys (ts_ut s) u1"
      using merge_refined [OF U 2(3) table_upto_refl [OF U]] upto_refl [OF U] by blast
    with s' any 2(4,5) show ?thesis by (simp add: s1 refines_upto_def)
  next
    case True
    have pairs: "try_pairs (solver_eq fuel U) ?ps s1 = Some (Inr (), s')"
      using inner True ty(2) by (simp add: eq_inner_pairs)
    have ok1: "table_ok U keys (ts_ut s1)" using 2(4) by (simp add: s1 grows_def)
    have parts: "intern_ok (keys (ts_ut s1)) x \<and> intern_ok (keys (ts_ut s1)) y" if "(x, y) \<in> set ?ps" for x y
      using part_pairs_ok [OF table_okD(1) [OF ok a] ty(1) that] 2(4) by (simp add: s1 grows_def)
    have IH: "refined_upto U keys (ts_ut s1) (ts_ut s') \<and> (\<forall>(x, y) \<in> set ?ps. same_type U (ts_ut s') x y)"
      by (rule try_pairs_refined [OF U solver_eq_keeps [OF U] solver_eq_same [OF U] pairs ok1 s1(2) parts])
    have k: "later U keys (ts_ut s1) (ts_ut s')"
      using try_pairs_keeps [OF solver_eq_keeps [OF U] pairs ok1 parts] by (simp add: keeps_def)
    have "unify_kinds ?t ty = Some (Inr v)" using 2(2) True ty(2) by (simp add: unify_values_def)
    then have v: "refines_upto U (ts_ut s') ?t v \<and> refines_upto U (ts_ut s') ty v"
      using IH True ty(2) by (intro unify_kinds_refines [OF U]) auto
    have "refined_upto U keys (ts_ut s) (ts_ut s')"
      using merge_refined [OF U 2(3), of "ts_ut s'"] IH v by (simp add: s1)
    moreover have "refines_upto U (ts_ut s') v (probe_value U (ts_ut s') left)"
      using IH a 2(4) val by (auto simp: refined_upto_def s1 grows_def)
    ultimately show ?thesis
      using v upto_trans [OF U] grows_trans [OF 2(4)] later_grows [OF k] 2(5) k by (auto simp: s1 later_def)
  qed
qed

section \<open>A table of classes\<close>

text \<open>A table with the laws: the class of every key and the type of every class.\<close>

record class_table =
  ct_class :: "nat \<Rightarrow> nat"
  ct_type :: "nat \<Rightarrow> resolved_ty"
  ct_keys :: nat

definition join_result ::
  "class_table \<Rightarrow> nat \<Rightarrow> nat \<Rightarrow> (type_solve_error + resolved_ty) option \<Rightarrow> ((type_solve_error + unit) \<times> class_table) option" where
  "join_result u a b r =
     (case r of
        None \<Rightarrow> None
      | Some (Inl e) \<Rightarrow> Some (Inl e, u)
      | Some (Inr v) \<Rightarrow>
          Some (Inr (), u\<lparr>ct_class := (\<lambda>x. if ct_class u x = ct_class u b then ct_class u a else ct_class u x),
            ct_type := (ct_type u)(ct_class u a := v)\<rparr>))"

definition class_ops :: "class_table unify_table" where
  "class_ops = \<lparr>
     probe_value = (\<lambda>u k. ct_type u (ct_class u k)),
     unioned = (\<lambda>u a b. ct_class u a = ct_class u b),
     unify_var_var = (\<lambda>u a b.
       if ct_class u a = ct_class u b then Some (Inr (), u)
       else join_result u a b (unify_values (ct_type u (ct_class u a)) (ct_type u (ct_class u b)))),
     unify_var_value = (\<lambda>u a ty. join_result u a a (unify_values (ct_type u (ct_class u a)) ty)),
     new_key = (\<lambda>u ty. (ct_keys u, \<lparr>ct_class = (ct_class u)(ct_keys u := ct_keys u),
       ct_type = (ct_type u)(ct_keys u := ty), ct_keys = ct_keys u + 1\<rparr>))\<rparr>"

lemma join_result_ok: "union_result class_ops ct_keys u a b r (join_result u a b r)"
  by (auto simp: union_result_def join_result_def merged_table_def same_table_def class_ops_def
      split: option.split sum.split)

lemma class_ops_laws: "unification_table class_ops ct_keys"
  using join_result_ok unfolding unification_table_def
  by (auto simp: class_ops_def equivp_def fun_eq_iff)


section \<open>The entry points\<close>

text \<open>C0. The solver always returns.  On a well-formed table of \<open>n\<close> keys, for every table with the laws of
  the crate \<open>ena\<close>, \<open>n * n + 2\<close> nested calls are enough for each comparison (of two types, with or without
  the lowering of a mutable reference, or of a type with a value), whatever cycles the types have: every
  call that goes deeper has merged two classes.  It never panics.\<close>

theorem solver_terminates:
  assumes "unification_table U keys" "table_ok U keys u" "intern_ok (keys u) l" "intern_ok (keys u) r"
    and "type_ok U keys u ty" "rt_names ty = None" "keys u * keys u + 2 \<le> fuel"
  shows "ty_eq downgrade fuel U l r u \<noteq> None \<and> type_eq_value fuel U l ty u \<noteq> None"
  using solver_eq_total [OF assms(1), of "\<lparr>ts_ut = u, ts_downgrade = downgrade\<rparr>" l r fuel] assms(2-7)
    eq_with_type_total [OF assms(1), of "\<lparr>ts_ut = u, ts_downgrade = False\<rparr>" l ty fuel] unjoined_le [of U keys u]
  by (auto simp: ty_eq_def type_eq_value_def split: if_splits)

abbreviation ts_ty :: "type_intern ty_kind \<Rightarrow> resolved_ty" where
  "ts_ty \<equiv> unnamed"

text \<open>Six keys: \<open>i32\<close>, a type not known yet, \<open>&mut _\<close> and \<open>&i32\<close> to them, a trait and its \<open>Self\<close>.\<close>

definition ts_table :: class_table where
  "ts_table = \<lparr>ct_class = (\<lambda>k. k),
     ct_type = (\<lambda>k. [ts_ty (BuiltIn TyI32), ts_ty (Any AnyAny), ts_ty (Ref (Other 1) RefWeakMut),
       ts_ty (Ref (Other 0) RefNot), \<lparr>rt_names = Some ([''T''], None), rt_kind = Trait\<rparr>,
       ts_ty (ImplicitSelf (Other 4))] ! k),
     ct_keys = 6\<rparr>"

lemma ts_table_ok: "table_ok class_ops ct_keys ts_table"
  by (simp add: table_ok_def type_ok_def class_ops_def ts_table_def unnamed_def
      eval_nat_numeral All_less_Suc2)

theorem solver_terminates_witness:
  "ty_eq False 38 class_ops (Other 2) (Other 3) ts_table \<noteq> None \<and>
     type_eq_value 38 class_ops (Other 2) (ts_ty (Any AnyAny)) ts_table \<noteq> None"
  by (rule solver_terminates [OF class_ops_laws ts_table_ok])
    (simp_all add: ts_table_def type_ok_def unnamed_def)

text \<open>C0. The solver is sound.  When a comparison succeeds the table is still well formed and the two sides
  agree: they are in one class, \<open>ImplicitSelf\<close> counting as its trait, or they are a shared and a mutable
  reference to types that agree, where that is allowed.  Every type the table assigns refines the one before:
  an unknown type may become any, an integer type only one it can be cast to, a reference of undecided
  mutability only a reference, named types and heads stay, the parts are kept one by one up to agreement.  After a
  comparison with a value the type of the key refines that value.  The one exception is a function type
  compared with one of fewer parameters, which loses its last parameters (\<open>fn_shortened\<close>); when all function
  types take the same number of parameters there is none.\<close>

theorem solver_refines_types:
  assumes "unification_table U keys" "table_ok U keys u" "intern_ok (keys u) l" "intern_ok (keys u) r"
    and "left < keys u" "type_ok U keys u ty" "rt_names ty = None"
  shows "(ty_eq downgrade fuel U l r u = Some (Inr (), u') \<longrightarrow>
      table_ok U keys u' \<and> keys u' = keys u \<and> equated U downgrade u u' l r \<and>
      (\<forall>k < keys u. refines U u' (probe_value U u k) (probe_value U u' k) \<or>
        fn_shortened U u' (probe_value U u k) (probe_value U u' k)) \<and>
      (one_arity n U keys u \<longrightarrow> refined U keys u u')) \<and>
    (type_eq_value fuel U (Other left) ty u = Some (Inr (), u') \<longrightarrow>
      table_ok U keys u' \<and> keys u' = keys u \<and>
      (\<forall>k < keys u. refines U u' (probe_value U u k) (probe_value U u' k) \<or>
        fn_shortened U u' (probe_value U u k) (probe_value U u' k)) \<and>
      (refines U u' ty (probe_value U u' left) \<or> fn_shortened U u' ty (probe_value U u' left)) \<and>
      (one_arity n U keys u \<and> arity n ty \<longrightarrow> refined U keys u u' \<and> refines U u' ty (probe_value U u' left)))"
proof (rule conjI; rule impI)
  assume "ty_eq downgrade fuel U l r u = Some (Inr (), u')"
  then obtain s' where run: "solver_eq fuel U l r \<lparr>ts_ut = u, ts_downgrade = downgrade\<rparr> = Some (Inr (), s')" "ts_ut s' = u'"
    by (auto simp: ty_eq_def)
  have k: "later U keys u u'" using solver_eq_keeps [OF assms(1) run(1)] assms(2-4) run(2) by (simp add: keeps_def)
  have r: "refined_upto U keys u u'" "equated U downgrade u u' l r"
    using solver_eq_refined [OF assms(1) run(1)] assms(2-4) run(2) by simp_all
  from k refined_upto_arity [OF r(1)] r(2) r(1) [unfolded refined_upto_def refines_upto_iff]
  show "table_ok U keys u' \<and> keys u' = keys u \<and> equated U downgrade u u' l r \<and>
      (\<forall>k < keys u. refines U u' (probe_value U u k) (probe_value U u' k) \<or>
        fn_shortened U u' (probe_value U u k) (probe_value U u' k)) \<and>
      (one_arity n U keys u \<longrightarrow> refined U keys u u')"
    unfolding later_def by blast
next
  assume "type_eq_value fuel U (Other left) ty u = Some (Inr (), u')"
  then obtain s' where run: "eq_with_type fuel U (Other left) ty \<lparr>ts_ut = u, ts_downgrade = False\<rparr> = Some (Inr (), s')" "ts_ut s' = u'"
    by (auto simp: type_eq_value_def)
  have k: "grows U keys u u'" "one_arity n U keys u' \<and> arity n (probe_value U u' left)" if "arity n ty" "one_arity n U keys u"
    using eq_with_type_refined [OF assms(1) _ _ _ _ _ run(1)] assms(2,5-7) that run(2)
    by (auto simp: grows_def one_arity_def)
  have g: "grows U keys u u'" "refined_upto U keys u u'" "refines_upto U u' ty (probe_value U u' left)"
    using eq_with_type_refined [OF assms(1) _ _ _ _ _ run(1)] assms(2,5-7) run(2) by simp_all
  have "refined U keys u u' \<and> refines U u' ty (probe_value U u' left)" if "one_arity n U keys u" "arity n ty"
    using refined_upto_arity [OF g(2)] refines_upto_arity [OF g(3) that(2)] k(2) [OF that(2,1)] g(1) that(1)
    by (simp add: grows_def)
  with g(1) g(2) [unfolded refined_upto_def refines_upto_iff] g(3) [unfolded refines_upto_iff]
  show "table_ok U keys u' \<and> keys u' = keys u \<and>
      (\<forall>k < keys u. refines U u' (probe_value U u k) (probe_value U u' k) \<or>
        fn_shortened U u' (probe_value U u k) (probe_value U u' k)) \<and>
      (refines U u' ty (probe_value U u' left) \<or> fn_shortened U u' ty (probe_value U u' left)) \<and>
      (one_arity n U keys u \<and> arity n ty \<longrightarrow> refined U keys u u' \<and> refines U u' ty (probe_value U u' left))"
    unfolding grows_def by blast
qed

text \<open>\<open>&mut _\<close> against \<open>&i32\<close>: the reference becomes a shared one and the unknown type \<open>i32\<close>.\<close>

theorem solver_refines_types_witness:
  "\<exists>u'. ty_eq False 38 class_ops (Other 2) (Other 3) ts_table = Some (Inr (), u') \<and>
     probe_value class_ops u' 2 = ts_ty (Ref (Other 1) RefNot) \<and> probe_value class_ops u' 1 = ts_ty (BuiltIn TyI32) \<and>
     refined class_ops ct_keys ts_table u' \<and> equated class_ops False ts_table u' (Other 2) (Other 3)"
proof -
  have "map_option (\<lambda>(r, u). (r = Inr (), probe_value class_ops u 2 = ts_ty (Ref (Other 1) RefNot),
      probe_value class_ops u 1 = ts_ty (BuiltIn TyI32))) (ty_eq False 38 class_ops (Other 2) (Other 3) ts_table) =
    Some (True, True, True)" by code_simp
  then obtain u' where u': "ty_eq False 38 class_ops (Other 2) (Other 3) ts_table = Some (Inr (), u')"
    "probe_value class_ops u' 2 = ts_ty (Ref (Other 1) RefNot)" "probe_value class_ops u' 1 = ts_ty (BuiltIn TyI32)"
    by auto
  moreover have "type_ok class_ops ct_keys ts_table (ts_ty (Any AnyAny))" by (simp add: type_ok_def unnamed_def)
  moreover have "one_arity 0 class_ops ct_keys ts_table"
    by (simp add: one_arity_def arity_def class_ops_def ts_table_def unnamed_def eval_nat_numeral All_less_Suc2)
  ultimately show ?thesis
    using solver_refines_types [OF class_ops_laws ts_table_ok, of "Other 2" "Other 3" 0 "ts_ty (Any AnyAny)" False 38 u' 0]
    by (simp add: ts_table_def unnamed_def)
qed

section \<open>Function types of different lengths\<close>

lemma select_same [simp]: "select t t = t"
  by (cases t) (simp_all add: select_def)

lemma map2_select_prefix: "map2 select as (as @ bs) = as" "map2 select (as @ bs) as = as"
  by (induction as) simp_all

lemma try_pairs_same:
  assumes U: "unification_table U keys"
  shows "\<forall>(x, y) \<in> set ps. x = y \<Longrightarrow> try_pairs (solver_eq (Suc n) U) ps s = Some (Inr (), s)"
proof (induction ps)
  case (Cons p ps)
  then obtain x where "p = (x, x)" by (cases p) auto
  with Cons show ?case by (cases x) (simp_all add: unioned_refl [OF U])
qed simp

definition ts_fns :: class_table where
  "ts_fns = \<lparr>ct_class = (\<lambda>k. k),
     ct_type = (\<lambda>k. if k = 0 then ts_ty (BuiltIn TyI32) else if k = 1 then fn_type (Other 0) [Other 0, Other 0]
       else fn_type (Other 0) [Other 0]),
     ct_keys = 3\<rparr>"

text \<open>C33. The solver does not compare the numbers of parameters.  For every table with the laws, a function type
  that is compared with one whose parameters are a proper prefix of its own (and with the same result) passes, and
  both keys are then given the shorter type: the other parameters are lost.\<close>

theorem function_arity_ignored:
  assumes "unification_table U keys" and "left < keys u" "right < keys u" "\<not> unioned U u left right"
    and "probe_value U u left = fn_type r (as @ bs)" "probe_value U u right = fn_type r as" "bs \<noteq> []"
  shows "\<exists>u'. ty_eq downgrade (Suc (Suc n)) U (Other left) (Other right) u = Some (Inr (), u') \<and>
    unioned U u' left right \<and> probe_value U u' left = fn_type r as \<and>
    fn_shortened U u' (probe_value U u left) (probe_value U u' left)"
proof -
  note laws = unioned_refl [OF assms(1)]
  have v: "unify_values (probe_value U u left) (probe_value U u right) = Some (Inr (fn_type r as))"
    by (simp add: assms(5,6) unify_values_def unify_kinds_def fn_type_def map2_select_prefix)
  from unify_var_var_result [OF assms(1-4)] v obtain u' where
    u': "unify_var_var U u left right = Some (Inr (), u')" "merged_table U keys u left right (fn_type r as) u'"
    by (auto simp: union_result_def)
  note m = merged_tableD(3,4) [OF u'(2)]
  have look: "look_through U left right u = Some (Some (probe_value U u left, probe_value U u right))"
    by (simp add: look_through_def assms(5,6) fn_type_def)
  have "\<forall>(x, y) \<in> set ((r, r) # zip (as @ bs) as). x = y" by (auto simp: set_zip nth_append)
  note pairs = try_pairs_same [OF assms(1) this, of n]
  have inner: "eq_inner (solver_eq (Suc n) U) (probe_value U u left) (probe_value U u right) s = Some (Inr (), s)" for s
    using pairs by (simp add: eq_inner_pairs part_pairs_def assms(5,6) fn_type_def)
  have dg: "downgrades (probe_value U u left) (probe_value U u right) = None"
    by (simp add: downgrades_def assms(5,6) fn_type_def)
  have "solver_eq (Suc (Suc n)) U (Other left) (Other right) \<lparr>ts_ut = u, ts_downgrade = downgrade\<rparr> =
      Some (Inr (), \<lparr>ts_ut = u', ts_downgrade = False\<rparr>)"
    by (subst solver_eq.simps(2)) (simp add: assms(4) look dg on_table_def u'(1) inner del: solver_eq.simps)
  then have "ty_eq downgrade (Suc (Suc n)) U (Other left) (Other right) u = Some (Inr (), u')"
    by (simp add: ty_eq_def del: solver_eq.simps)
  moreover have "probe_value U u' left = fn_type r as" "unioned U u' left right" using laws by (simp_all add: m)
  moreover have "part_le U u' t t" for t using part_le_refl [OF assms(1)] .
  ultimately show ?thesis using assms(5,7) by (auto simp: fn_shortened_def fn_type_def list_all2_same)
qed

text \<open>\<open>fn(i32, i32) -> i32\<close> passes for \<open>fn(i32) -> i32\<close>, and becomes it.\<close>

theorem function_arity_ignored_witness:
  "\<exists>u'. ty_eq False 2 class_ops (Other 1) (Other 2) ts_fns = Some (Inr (), u') \<and>
     probe_value class_ops ts_fns 1 = fn_type (Other 0) [Other 0, Other 0] \<and>
     probe_value class_ops u' 1 = fn_type (Other 0) [Other 0]"
proof -
  have p: "probe_value class_ops ts_fns 1 = fn_type (Other 0) ([Other 0] @ [Other 0])"
    "probe_value class_ops ts_fns 2 = fn_type (Other 0) [Other 0]" "\<not> unioned class_ops ts_fns 1 2"
    "1 < ct_keys ts_fns" "2 < ct_keys ts_fns"
    by (simp_all add: class_ops_def ts_fns_def)
  from function_arity_ignored [OF class_ops_laws p(4,5,3,1,2), of False 0] p(1) show ?thesis
    by (auto simp: numeral_2_eq_2 simp del: solver_eq.simps)
qed

section \<open>Probing without \<open>ImplicitSelf\<close>\<close>

text \<open>The flag of \<open>probe_type_instance_impl\<close> does what \<open>remove_implicit_self\<close> does afterwards, when what
  stands behind an \<open>ImplicitSelf\<close> is a trait.\<close>

lemma collect_opt_removes:
  assumes "\<And>x y. x \<in> set xs \<Longrightarrow> f x = Some (Some y) \<Longrightarrow> g x = Some (Some (h y))"
  shows "collect_opt f xs = Some (Some ys) \<Longrightarrow> collect_opt g xs = Some (Some (map h ys))"
  using assms
proof (induction xs arbitrary: ys)
  case (Cons x xs)
  from Cons.prems(1) obtain y zs where "f x = Some (Some y)" "collect_opt f xs = Some (Some zs)" "ys = y # zs"
    by (auto simp: opt_then_def split: option.splits)
  then show ?case using Cons.IH Cons.prems(2) by simp
qed simp

lemma probe_removes_implicit_self:
  assumes trait: "\<And>k t. rt_kind (probe_value U u k) = ImplicitSelf t \<Longrightarrow> \<exists>l. t = Other l \<and> rt_kind (probe_value U u l) = Trait"
  shows "probe_type_instance_impl fuel U u False None t = Some (Some inst) \<Longrightarrow>
    probe_type_instance_impl fuel U u True alter t = Some (Some (remove_implicit_self alter inst))"
proof (induction fuel arbitrary: t inst)
  case (Suc fuel)
  obtain k where t: "t = Other k" using Suc.prems by (cases t) (auto simp: probe_type_def)
  note run = Suc.prems [unfolded t]
  have items: "collect_opt (probe_type_instance_impl fuel U u False None) ts = Some (Some ys) \<Longrightarrow>
      collect_opt (probe_type_instance_impl fuel U u True alter) ts = Some (Some (map (remove_implicit_self alter) ys))" for ts ys
    by (rule collect_opt_removes) (rule Suc.IH)
  show ?case
  proof (cases "rt_kind (probe_value U u k)")
    case (ImplicitSelf x)
    with trait obtain l where l: "x = Other l" "rt_kind (probe_value U u l) = Trait" by blast
    with run ImplicitSelf obtain i where i: "probe_type_instance_impl fuel U u False None (Other l) = Some (Some i)"
      "inst = TyInstance (rt_names (probe_value U u k)) (ImplicitSelf i)"
      by (auto simp: probe_type_def opt_then_def split: option.splits)
    then have "i = TyInstance (rt_names (probe_value U u l)) Trait"
      using l(2) by (cases fuel) (auto simp: probe_type_def)
    with i ImplicitSelf l(1) t Suc.IH [OF i(1)] show ?thesis by (cases alter) (simp_all add: probe_type_def)
  qed (use run t items in \<open>auto simp: probe_type_def opt_then_def Let_def Suc.IH split: option.splits\<close>)
qed simp

section \<open>There is no occurs check\<close>

definition ts_loop :: class_table where
  "ts_loop = \<lparr>ct_class = (\<lambda>k. k), ct_type = (\<lambda>k. if k = 0 then ts_ty (Any AnyAny) else ts_ty (Ref (Other 0) RefNot)),
     ct_keys = 2\<rparr>"

text \<open>An unknown type is equated with a reference to itself; reading the type out of the table never ends.\<close>

lemma recursive_type_accepted:
  assumes "0 < fuel"
  shows "\<exists>u'. ty_eq False fuel class_ops (Other 0) (Other 1) ts_loop = Some (Inr (), u') \<and>
    (\<forall>n. probe_type_instance n class_ops u' (Other 0) = None)"
proof -
  define u' where "u' = ts_loop\<lparr>ct_class := (\<lambda>x. if x = 1 then 0 else x),
    ct_type := (ct_type ts_loop)(0 := ts_ty (Ref (Other 0) RefNot))\<rparr>"
  have "probe_type_instance_impl n class_ops u' False None (Other 0) = None" for n
    by (induction n) (simp_all add: u'_def class_ops_def ts_loop_def probe_type_def unnamed_def)
  moreover from assms have "ty_eq False fuel class_ops (Other 0) (Other 1) ts_loop = Some (Inr (), u')"
    by (cases fuel) (auto simp: ty_eq_def class_ops_def ts_loop_def look_through_def unnamed_def on_table_def u'_def
      join_result_def unify_values_def unify_kinds_def eq_inner_def fun_eq_iff)
  ultimately show ?thesis by (auto simp: probe_type_instance_def)
qed

end
