(* ===== verification/Spec2Isabelle.thy ===== *)
theory Spec2Isabelle
  imports Core_Int Mir Parallel_Copy Machine_Sem RV32 RV64 Frame Targets Machine_Run Mir_Opt
    Branch_Relax Target_Runs Liveness Reg_Alloc Alloc_Sim Target_Alloc Alloc_Props
    IR_Types IR_Inst IR_Core IR_Core_Laws IR_Core_Inv IR_Core_Props IR_Cfg IR_Split
    IR_Algebraic IR_Scalar_Sem IR_Algebraic_Props IR_Strength
    Lower_Emit Lower_Inst Lower Lower_Words Lower_Sem Lower_Arith Lower_Binary Lower_Scalar
    Lower_Block Lower_Targets Type_Solver Type_Solver_Props Type_Solver_Types
begin

text \<open>
  A verification library for \<open>c0mpiler\<close> (\<open>src/src\<close>), a compiler from the \<open>.rx\<close> language to
  RV32IM and RV64I assembly.  The program is a pipeline: a lexer and a parser, semantic analysis and
  constant evaluation, generation of an SSA-style IR (\<open>irgen\<close>), optimisation passes over the IR
  (\<open>ir/opt\<close>), and a back end (\<open>mir\<close>) that lowers IR functions to machine IR, allocates registers,
  lays out the frame, cleans up and relaxes the code, and prints it.  The library models the type
  solver of the semantic analysis; the IR with its integers, types, layouts, control-flow graphs and
  two of its passes; and the back end from instruction selection to the final instruction list.

  \<^bold>\<open>Conventions.\<close>  A panic is \<open>None\<close> (\<open>Prelude\<close>); the dev profile is modelled, so failed
  \<open>debug_assert!\<close>s and overflowing arithmetic panic.  A Rust \<open>Result\<close> is a sum with the error on
  the left.  \<open>usize\<close> is \<open>nat\<close>; \<open>u32\<close>, \<open>u64\<close>, \<open>i32\<close> and \<open>i64\<close> are words where wrap-around
  matters.  A hash map that is only looked up is a partial function; one that is iterated is a list
  in an order no theorem depends on, or the order is a parameter.  A generic parameter with a trait
  bound is a record of the trait's methods.

  \<^bold>\<open>Types and unification.\<close>  \<open>Type_Solver\<close> is \<open>semantics/resolved_ty.rs\<close> and
  \<open>semantics/type_solver.rs\<close>: types, interning, probing, and the solver that equates two types over a
  unification table (crate \<open>ena\<close>, a parameter with the laws \<open>unification_table\<close>; \<open>class_ops\<close> is a
  table that has them).  \<open>Type_Solver_Props\<close> bounds the depth of its recursion, cyclic types included;
  \<open>Type_Solver_Types\<close> shows that a successful unification gives both sides one type and makes every
  type more definite, with one exception, the parameters a function type loses when it is equated with
  a shorter one; on tables whose function types have one arity
  (\<open>one_arity\<close>) there is no exception.

  \<^bold>\<open>Integers and types of the IR.\<close>  \<open>Core_Int\<close> is \<open>ir/core_int.rs\<close>, operation by operation; the
  results fit their width, wrapping arithmetic is arithmetic modulo a power of two, signed division
  is undefined exactly on a zero divisor and on the overflowing quotient.  \<open>IR_Types\<close> is
  \<open>ir/ir_type.rs\<close>, \<open>ir/attribute.rs\<close> and \<open>ir/layout.rs\<close>: where the layout engine with its cache
  returns, it returns what the computation without it does; it panics only where the computation does
  or where it hashes an anonymous opaque struct (\<open>hashes_well\<close>); and its layouts are aligned, in
  bounds and free of overlap.

  \<^bold>\<open>The IR module.\<close>  \<open>IR_Inst\<close> is \<open>ir/core_inst.rs\<close> and \<open>ir/core_value.rs\<close>; \<open>IR_Core\<close> is
  \<open>ir/core.rs\<close>: functions, blocks, instructions and the use lists that link them.
  \<open>IR_Core_Laws\<close> states the invariant \<open>module_inv_but\<close> over views of the module (its parameter is the
  set of functions that are defined but have no entry block yet; \<open>module_inv\<close> is the case with none)
  and proves the laws of the use lists once for values and blocks (locale \<open>use_table\<close>);
  \<open>IR_Core_Inv\<close> proves that every operation keeps it; \<open>IR_Core_Props\<close> has the runs of operations as a
  step relation, and shows that \<open>overwrite_inst\<close>, which is not a step, breaks the invariant.

  \<^bold>\<open>Graphs and passes of the IR.\<close>  \<open>IR_Cfg\<close> is \<open>ir/cfg.rs\<close>: the control-flow graph has exactly the
  edges of the terminators, the depth-first numbering numbers exactly the reachable blocks, and the
  dominator tree is wrong on a graph given there.  \<open>IR_Split\<close> proves that \<open>split_block_at\<close> moves the
  right instructions and keeps the invariant.  \<open>IR_Algebraic\<close> is \<open>ir/opt/algebraic.rs\<close>;
  \<open>IR_Scalar_Sem\<close> gives the scalar instructions a meaning on integers and checks the constant folder
  against it, and \<open>IR_Algebraic_Props\<close> proves every identity a law and the work-list pass terminating.
  \<open>IR_Strength\<close> is \<open>ir/opt/strength.rs\<close>: what is replaced, by what, that nothing else changes and
  that the values agree; and a value for which the non-negativity analysis is wrong.

  \<^bold>\<open>Machine IR and targets.\<close>  \<open>Mir\<close> is \<open>mir.rs\<close> (registers, frames, blocks, symbols, the three
  traits).  \<open>RV32\<close> and \<open>RV64\<close> are \<open>mir/rv32im.rs\<close>, \<open>mir/rv64i.rs\<close> and \<open>mir/macros.rs\<close>: the
  instruction sets with their def and use lists, register rewriting, the emit methods and the
  expansion of pseudo-instructions.  \<open>Machine_Sem\<close> is the reference machine they are checked
  against, a specification that models no code of the repository; \<open>Targets\<close> proves for both targets
  what the rest relies on (locale \<open>alu_machine\<close> and its interpretations): the register lists are
  sound, the emit methods compute what they promise, and pseudo-instructions expand correctly.

  \<^bold>\<open>Back-end passes.\<close>  \<open>Parallel_Copy\<close> (the copies of \<open>mir/lower.rs\<close>) runs every parallel
  assignment; \<open>Frame\<close> is \<open>mir/lower/layout.rs\<close> and \<open>mir/lower/logue.rs\<close>: slots are disjoint and
  aligned, and the epilogue undoes the prologue.  \<open>Machine_Run\<close> gives functions their runs;
  \<open>Mir_Opt\<close> (\<open>mir/opt\<close>) and \<open>Branch_Relax\<close> (\<open>mir/lower/branch_relax.rs\<close>) keep them, and
  \<open>Target_Runs\<close> states this for the targets and for the passes composed as in
  \<open>mir/lower.rs\<close>.  \<open>Liveness\<close> and \<open>Reg_Alloc\<close> are \<open>mir/lower/regalloc.rs\<close>: the analysis terminates
  in the least solution, the interference graph is sound, colouring respects it, and a spill round
  removes its registers.  \<open>Alloc_Sim\<close> proves that an allocation preserves runs (locale
  \<open>rename_machine\<close>), \<open>Target_Alloc\<close> interprets it on both targets and \<open>Alloc_Props\<close> states the
  theorems.

  \<^bold>\<open>Instruction selection.\<close>  \<open>Lower_Emit\<close>, \<open>Lower_Inst\<close> and \<open>Lower\<close> are \<open>mir/lower.rs\<close> and
  \<open>mir/lower/phi.rs\<close>: the emitting routines with the state of the lowering, every kind of instruction,
  and the driver of a function and of a module.  The proofs cover scalar straight-line code.
  \<open>Lower_Words\<close> holds the arithmetic of an \<open>n\<close>-bit integer in a register (\<open>word_holds\<close>); \<open>Lower_Sem\<close>
  the relation \<open>emits\<close> between lowering states and the run of the code between them; \<open>Lower_Arith\<close>,
  \<open>Lower_Binary\<close> and \<open>Lower_Scalar\<close> prove routine by routine, inside the locale \<open>scalar_machine\<close>, that
  the code computes what the instruction means; \<open>Lower_Block\<close> composes them over a run of
  instructions, and \<open>Lower_Targets\<close> interprets the locale on both targets and states the theorems.
  Registers other than the results of the instructions and the fresh ones are shown untouched.
  Excluded by hypothesis: the constant right operands that the code mishandles (\<open>imm_safe\<close> lists them,
  and what happens to one of them is a property of \<open>Lower_Targets\<close>), constants beyond the 32-bit
  immediates, and comparisons that the code emits only at the branch that uses them.

  \<^bold>\<open>Loops and fuel.\<close>  The loops of the liveness analysis are \<open>while_option\<close>, with a proof that they
  return.  The allocation rounds (\<open>alloc_rounds\<close>) and branch relaxation (\<open>relax_branches\<close>) need not end
  in general and are \<open>partial_function (option)\<close>; the theorems say when they return (low register
  pressure needs one round; relaxation returns when the springboards are in reach) and that what they
  return is right.  Fuel bounds the recursions \<open>solver_eq\<close> (quadratic in the number of keys is enough),
  \<open>is_value_nonneg\<close> (more than the number of instructions is enough), \<open>simplify_loop\<close> (a bound exists
  for every module with the invariant), \<open>dfs_visit\<close> (one more than the number of blocks), the
  dominator tree (no bound is claimed), \<open>probe_type_instance_impl\<close> and \<open>lower_const_data\<close> (the depth of
  the value; no bound is claimed).

  \<^bold>\<open>Not modelled.\<close>  The lexer, the parser and the rest of the semantic analysis, IR generation (but
  for the assignment of a function's entry), the IR passes other than the two above, printing and the
  command line.  Memory, call and branch instructions are modelled in the lowering, but not covered by
  its correctness theorems.
\<close>

end
